(* ===== verification/V2V_Prelude.thy ===== *)
theory V2V_Prelude
  imports Main "HOL-Library.Word" "HOL-Library.AList"
begin

text \<open>
  Shared vocabulary of the development: the parts of the Go language and its
  standard library that the V2V sources use, with the lemmas the component
  theories rely on.

  \<^item> A Go \<open>string\<close> or \<open>[]byte\<close> is a \<open>string\<close>: an Isabelle \<open>char\<close> is one byte.
  \<^item> \<open>uint64\<close> and \<open>uint32\<close> are words, so \<open>+\<close> wraps as in Go.
  \<^item> \<open>time.Time\<close> and \<open>time.Duration\<close> are integers counting nanoseconds; the zero
    \<open>Time\<close> is \<open>0\<close>. Every clock reading of the code is an argument of the model.
  \<^item> \<open>encoding/hex\<close>, \<open>encoding/binary\<close> varints, decimal rendering, \<open>strings.ToLower\<close>
    and \<open>strings.TrimSpace\<close> are the functions below. The last two are exact on
    ASCII input, which is what the sources feed them (hex text).
\<close>

type_synonym u8 = "8 word"
type_synonym u32 = "32 word"
type_synonym u64 = "64 word"
type_synonym bytes = string
type_synonym time = int
type_synonym duration = int

named_theorems go_std \<comment> \<open>defining equations of the modelled standard library\<close>
named_theorems codec \<comment> \<open>round trips and injectivity of encoders\<close>
named_theorems frame \<comment> \<open>fields an operation leaves unchanged\<close>

definition second :: duration where "second = 1000000000"
definition minute :: duration where "minute = 60 * second"
definition hour :: duration where "hour = 60 * minute"

definition isZero :: "time \<Rightarrow> bool" where
  "isZero t \<longleftrightarrow> t = 0"

text \<open>The Unix epoch on this clock, whose zero is the zero \<open>time.Time\<close>.\<close>

definition unix_epoch :: time where "unix_epoch = 62135596800 * second"

definition Unix :: "int \<Rightarrow> time" where "Unix s = unix_epoch + s * second"

definition unix_seconds :: "time \<Rightarrow> int" where "unix_seconds t = (t - unix_epoch) div second"

definition UnixNano :: "time \<Rightarrow> int" where "UnixNano t = t - unix_epoch"

lemma second_pos [simp]: "0 < second" and minute_pos [simp]: "0 < minute" and hour_pos [simp]: "0 < hour"
  by (simp_all add: second_def minute_def hour_def)

subsection \<open>Bytes\<close>

definition byte_of :: "nat \<Rightarrow> char" where
  "byte_of n = char_of n"

definition nat_of :: "char \<Rightarrow> nat" where
  "nat_of c = of_char c"

lemma nat_of_lt [simp]: "nat_of c < 256"
  by (simp add: nat_of_def)

lemma byte_of_nat_of [simp]: "byte_of (nat_of c) = c"
  by (simp add: byte_of_def nat_of_def)

lemma nat_of_byte_of [simp]: "n < 256 \<Longrightarrow> nat_of (byte_of n) = n"
  by (simp add: byte_of_def nat_of_def)

lemma byte_of_inj: "m < 256 \<Longrightarrow> n < 256 \<Longrightarrow> byte_of m = byte_of n \<longleftrightarrow> m = n"
  by (metis nat_of_byte_of)

lemma nat_of_inj: "nat_of a = nat_of b \<longleftrightarrow> a = b"
  by (metis byte_of_nat_of)

lemma unat_eq_iff: "unat (a :: 'a::len word) = unat b \<longleftrightarrow> a = b"
  by (simp add: word_unat_eq_iff)

lemma unat_of_nat_u64 [simp]: "n < 2 ^ 64 \<Longrightarrow> unat (of_nat n :: u64) = n"
  by (simp add: unat_of_nat)

subsection \<open>Lists\<close>

definition last_n :: "nat \<Rightarrow> 'a list \<Rightarrow> 'a list" where
  "last_n n xs = drop (length xs - n) xs"

lemma last_n_length [simp]: "length (last_n n xs) = min n (length xs)"
  by (simp add: last_n_def)

lemma last_n_snoc: "0 < n \<Longrightarrow> last_n n (xs @ [x]) = last_n (n - 1) xs @ [x]"
  by (simp add: last_n_def)

lemma last_n_all: "length xs \<le> n \<Longrightarrow> last_n n xs = xs"
  by (simp add: last_n_def)

lemma append_eq_append_length:
  "length xs = length ys \<Longrightarrow> xs @ us = ys @ vs \<longleftrightarrow> xs = ys \<and> us = vs"
  by simp

subsection \<open>Hexadecimal (\<open>encoding/hex\<close>)\<close>

definition hex_digits :: string where
  "hex_digits = ''0123456789abcdef''"

definition hex_char :: "nat \<Rightarrow> char" where
  "hex_char n = hex_digits ! n"

definition from_hex :: "char \<Rightarrow> nat option" where
  "from_hex c = (let n = nat_of c in
     if 48 \<le> n \<and> n \<le> 57 then Some (n - 48)
     else if 97 \<le> n \<and> n \<le> 102 then Some (n - 87)
     else if 65 \<le> n \<and> n \<le> 70 then Some (n - 55)
     else None)"

fun hex_encode :: "bytes \<Rightarrow> string" where
  "hex_encode [] = []"
| "hex_encode (c # cs) = hex_char (nat_of c div 16) # hex_char (nat_of c mod 16) # hex_encode cs"

fun hex_decode :: "string \<Rightarrow> bytes option" where
  "hex_decode [] = Some []"
| "hex_decode [_] = None"
| "hex_decode (a # b # cs) =
     (case (from_hex a, from_hex b) of
        (Some x, Some y) \<Rightarrow> map_option ((#) (byte_of (16 * x + y))) (hex_decode cs)
      | _ \<Rightarrow> None)"

lemma less_16_cases:
  "(n::nat) < 16 \<Longrightarrow> n \<in> {0,1,2,3,4,5,6,7,8,9,10,11,12,13,14,15}"
  by (simp, arith)

lemma from_hex_hex_char [simp]: "n < 16 \<Longrightarrow> from_hex (hex_char n) = Some n"
  using less_16_cases [of n] by (auto simp: hex_char_def hex_digits_def from_hex_def nat_of_def)

lemma from_hex_lt: "from_hex c = Some n \<Longrightarrow> n < 16"
  by (auto simp: from_hex_def Let_def split: if_splits)

lemma hex_decode_encode [simp, codec]: "hex_decode (hex_encode bs) = Some bs"
proof (induction bs)
  case (Cons c cs)
  have "nat_of c div 16 < 16" by (simp add: less_mult_imp_div_less)
  moreover have "16 * (nat_of c div 16) + nat_of c mod 16 = nat_of c" by simp
  ultimately show ?case using Cons by simp
qed simp

lemma hex_encode_length [simp]: "length (hex_encode bs) = 2 * length bs"
  by (induction bs) auto

lemma hex_encode_inj [codec]: "hex_encode a = hex_encode b \<longleftrightarrow> a = b"
  by (metis hex_decode_encode option.inject)

lemma hex_decode_length: "hex_decode s = Some bs \<Longrightarrow> length s = 2 * length bs"
proof (induction s arbitrary: bs rule: hex_decode.induct)
  case (3 a b cs)
  then show ?case by (auto split: option.splits)
qed auto

subsection \<open>Unsigned varints (\<open>binary.PutUvarint\<close>)\<close>

fun uvarint :: "nat \<Rightarrow> bytes" where
  "uvarint x = (if x < 128 then [byte_of x] else byte_of (x mod 128 + 128) # uvarint (x div 128))"

declare uvarint.simps [simp del]

lemma uvarint_small: "x < 128 \<Longrightarrow> uvarint x = [byte_of x]"
  by (simp add: uvarint.simps)

lemma uvarint_nonempty [simp]: "uvarint x \<noteq> []"
  by (subst uvarint.simps) simp

text \<open>The encoding is prefix-free: it can be read back off the front of any stream.\<close>

lemma uvarint_prefix_free [codec]:
  "uvarint x @ r = uvarint y @ s \<longleftrightarrow> x = y \<and> r = s"
proof (induction x arbitrary: y rule: uvarint.induct)
  case (1 x)
  have ux: "uvarint x = (if x < 128 then [byte_of x] else byte_of (x mod 128 + 128) # uvarint (x div 128))"
    by (rule uvarint.simps)
  have uy: "uvarint y = (if y < 128 then [byte_of y] else byte_of (y mod 128 + 128) # uvarint (y div 128))"
    by (rule uvarint.simps)
  show ?case
  proof (cases "x < 128 \<or> y < 128")
    case True
    then show ?thesis by (auto simp: ux uy byte_of_inj)
  next
    case False
    then have nx: "\<not> x < 128" and ny: "\<not> y < 128" by auto
    have "uvarint x @ r = uvarint y @ s \<longleftrightarrow>
        x mod 128 = y mod 128 \<and> uvarint (x div 128) @ r = uvarint (y div 128) @ s"
      using nx ny by (simp add: ux uy byte_of_inj)
    also have "\<dots> \<longleftrightarrow> x mod 128 = y mod 128 \<and> x div 128 = y div 128 \<and> r = s"
      using "1.IH" [OF nx, of "y div 128"] by simp
    also have "\<dots> \<longleftrightarrow> x = y \<and> r = s"
      by (metis div_mult_mod_eq)
    finally show ?thesis .
  qed
qed

lemma uvarint_inj [codec]: "uvarint x = uvarint y \<longleftrightarrow> x = y"
  using uvarint_prefix_free [of x "[]" y "[]"] by simp

subsection \<open>Length-prefixed fields\<close>

definition put_field :: "bytes \<Rightarrow> bytes" where
  "put_field b = uvarint (length b) @ b"

lemma put_field_prefix_free [codec]:
  "put_field a @ r = put_field b @ s \<longleftrightarrow> a = b \<and> r = s"
proof -
  have "put_field a @ r = put_field b @ s \<longleftrightarrow> length a = length b \<and> a @ r = b @ s"
    by (simp add: put_field_def uvarint_prefix_free)
  then show ?thesis by auto
qed

lemma put_field_inj [codec]: "put_field a = put_field b \<longleftrightarrow> a = b"
  using put_field_prefix_free [of a "[]" b "[]"] by simp

subsection \<open>Decimal rendering (\<open>%d\<close>, \<open>strconv.FormatUint\<close>)\<close>

definition dec_char :: "nat \<Rightarrow> char" where
  "dec_char n = byte_of (48 + n)"

fun dec :: "nat \<Rightarrow> string" where
  "dec n = (if n < 10 then [dec_char n] else dec (n div 10) @ [dec_char (n mod 10)])"

declare dec.simps [simp del]

definition dec_int :: "int \<Rightarrow> string" where
  "dec_int i = (if i < 0 then CHR ''-'' # dec (nat (- i)) else dec (nat i))"

lemma dec_nonempty [simp]: "dec n \<noteq> []"
  by (subst dec.simps) simp

lemma dec_char_inj: "m < 10 \<Longrightarrow> n < 10 \<Longrightarrow> dec_char m = dec_char n \<longleftrightarrow> m = n"
  by (simp add: dec_char_def byte_of_inj)

lemma dec_inj [codec]: "dec m = dec n \<longleftrightarrow> m = n"
proof (induction m arbitrary: n rule: dec.induct)
  case (1 m)
  have dm: "dec m = (if m < 10 then [dec_char m] else dec (m div 10) @ [dec_char (m mod 10)])"
    by (rule dec.simps)
  have dn: "dec n = (if n < 10 then [dec_char n] else dec (n div 10) @ [dec_char (n mod 10)])"
    by (rule dec.simps)
  show ?case
  proof (cases "m < 10 \<or> n < 10")
    case True
    then show ?thesis by (auto simp: dm dn dec_char_inj append_eq_Cons_conv Cons_eq_append_conv)
  next
    case False
    then have "dec m = dec n \<longleftrightarrow> dec (m div 10) = dec (n div 10) \<and> m mod 10 = n mod 10"
      by (simp add: dm dn dec_char_inj)
    also have "\<dots> \<longleftrightarrow> m div 10 = n div 10 \<and> m mod 10 = n mod 10"
      using "1.IH" False by simp
    also have "\<dots> \<longleftrightarrow> m = n" by (metis div_mult_mod_eq)
    finally show ?thesis .
  qed
qed

lemma dec_digits: "c \<in> set (dec n) \<Longrightarrow> 48 \<le> nat_of c \<and> nat_of c \<le> 57"
proof (induction n rule: dec.induct)
  case (1 n)
  show ?case
  proof (cases "n < 10")
    case True
    with "1.prems" show ?thesis by (simp add: dec.simps [of n] dec_char_def)
  next
    case False
    have "n mod 10 < 10" by simp
    then have "nat_of (dec_char (n mod 10)) \<le> 57" "48 \<le> nat_of (dec_char (n mod 10))"
      by (simp_all add: dec_char_def)
    with False 1 show ?thesis by (auto simp: dec.simps [of n])
  qed
qed

lemma dec_int_inj [codec]: "dec_int i = dec_int j \<longleftrightarrow> i = j"
proof -
  have no_minus: "CHR ''-'' # s \<noteq> dec n" for s n
    using dec_digits [of "CHR ''-''" n] by (auto simp: nat_of_def dest: sym)
  show ?thesis
    using no_minus by (auto simp: dec_int_def dec_inj dest: sym)
qed

text \<open>Neither rendering holds a NUL byte.\<close>

abbreviation NUL :: char where "NUL \<equiv> CHR 0x00"

lemma dec_no_NUL [simp]: "NUL \<notin> set (dec n)"
  using dec_digits [of NUL n] by (auto simp: nat_of_def)

lemma dec_int_no_NUL [simp]: "NUL \<notin> set (dec_int i)"
  by (auto simp: dec_int_def)

lemma hex_char_no_NUL: "n < 16 \<Longrightarrow> hex_char n \<noteq> NUL"
  using less_16_cases [of n] by (auto simp: hex_char_def hex_digits_def)

lemma hex_encode_no_NUL [simp]: "NUL \<notin> set (hex_encode bs)"
proof (induction bs)
  case (Cons c cs)
  have "nat_of c div 16 < 16" "nat_of c mod 16 < 16" by (simp_all add: less_mult_imp_div_less)
  then show ?case using Cons hex_char_no_NUL by (metis hex_encode.simps(2) set_ConsD)
qed simp

text \<open>A field free of a separator can be read back up to that separator.\<close>

lemma sep_prefix_free [codec]:
  "z \<notin> set a \<Longrightarrow> z \<notin> set b \<Longrightarrow> a @ z # r = b @ z # s \<longleftrightarrow> a = b \<and> r = s"
proof (induction a arbitrary: b)
  case Nil
  then show ?case by (cases b) auto
next
  case (Cons x a)
  then show ?case by (cases b) auto
qed

subsection \<open>Text helpers\<close>

definition lower_char :: "char \<Rightarrow> char" where
  "lower_char c = (let n = nat_of c in if 65 \<le> n \<and> n \<le> 90 then byte_of (n + 32) else c)"

definition to_lower :: "string \<Rightarrow> string" where
  "to_lower s = map lower_char s"

definition is_space :: "char \<Rightarrow> bool" where
  "is_space c \<longleftrightarrow> nat_of c \<in> {9, 10, 11, 12, 13, 32}"

definition trim_space :: "string \<Rightarrow> string" where
  "trim_space s = rev (dropWhile is_space (rev (dropWhile is_space s)))"

lemma to_lower_length [simp]: "length (to_lower s) = length s"
  by (simp add: to_lower_def)

lemma lower_char_idem [simp]: "lower_char (lower_char c) = lower_char c"
proof (cases "65 \<le> nat_of c \<and> nat_of c \<le> 90")
  case True
  then have "nat_of (byte_of (nat_of c + 32)) = nat_of c + 32" by simp
  with True show ?thesis by (simp add: lower_char_def Let_def)
qed (auto simp: lower_char_def Let_def)

lemma to_lower_idem [simp]: "to_lower (to_lower s) = to_lower s"
  by (simp add: to_lower_def)

subsection \<open>Association lists\<close>

lemma set_update_subset: "set (AList.update k v xs) \<subseteq> insert (k, v) (set xs)"
  by (induction xs) auto

end
