(* ===== verification/Sha256.thy ===== *)
theory Sha256
  imports V2V_Prelude
begin

text \<open>
  SHA-256 (FIPS 180-4), the digest of Go's \<open>crypto/sha256\<close>, as an executable
  function on byte strings. The components use it as the code does; what their
  proofs need is that a digest is 32 bytes long. No collision-freedom is assumed
  anywhere: theorems that depend on it name the two colliding inputs.
\<close>

unbundle bit_operations_syntax

subsection \<open>Constants\<close>

text \<open>The standard's tables, written in decimal.\<close>

definition sha_k :: "u32 list" where
  "sha_k = [
     1116352408, 1899447441, 3049323471, 3921009573, 961987163, 1508970993,
     2453635748, 2870763221, 3624381080, 310598401, 607225278, 1426881987,
     1925078388, 2162078206, 2614888103, 3248222580, 3835390401, 4022224774,
     264347078, 604807628, 770255983, 1249150122, 1555081692, 1996064986,
     2554220882, 2821834349, 2952996808, 3210313671, 3336571891, 3584528711,
     113926993, 338241895, 666307205, 773529912, 1294757372, 1396182291,
     1695183700, 1986661051, 2177026350, 2456956037, 2730485921, 2820302411,
     3259730800, 3345764771, 3516065817, 3600352804, 4094571909, 275423344,
     430227734, 506948616, 659060556, 883997877, 958139571, 1322822218,
     1537002063, 1747873779, 1955562222, 2024104815, 2227730452, 2361852424,
     2428436474, 2756734187, 3204031479, 3329325298]"

definition sha_h0 :: "u32 list" where
  "sha_h0 = [
     1779033703, 3144134277, 1013904242, 2773480762, 1359893119, 2600822924,
     528734635, 1541459225]"

subsection \<open>Padding and words\<close>

definition be_bytes :: "nat \<Rightarrow> int \<Rightarrow> bytes" where
  "be_bytes k n = map (\<lambda>i. char_of (n div 256 ^ i)) (rev [0..<k])"

definition sha_pad :: "bytes \<Rightarrow> bytes" where
  "sha_pad m = m @ byte_of 128 # replicate ((119 - length m mod 64) mod 64) (byte_of 0)
      @ be_bytes 8 (8 * int (length m) mod 2 ^ 64)"

definition word_of_bytes :: "bytes \<Rightarrow> u32" where
  "word_of_bytes bs = foldl (\<lambda>a b. a * 256 + of_char b) 0 bs"

fun words_of :: "bytes \<Rightarrow> u32 list" where
  "words_of (a # b # c # d # r) = word_of_bytes [a, b, c, d] # words_of r"
| "words_of _ = []"

subsection \<open>Message schedule and compression\<close>

definition sig0 :: "u32 \<Rightarrow> u32" where
  "sig0 x = word_rotr 7 x XOR word_rotr 18 x XOR drop_bit 3 x"

definition sig1 :: "u32 \<Rightarrow> u32" where
  "sig1 x = word_rotr 17 x XOR word_rotr 19 x XOR drop_bit 10 x"

definition Sig0 :: "u32 \<Rightarrow> u32" where
  "Sig0 x = word_rotr 2 x XOR word_rotr 13 x XOR word_rotr 22 x"

definition Sig1 :: "u32 \<Rightarrow> u32" where
  "Sig1 x = word_rotr 6 x XOR word_rotr 11 x XOR word_rotr 25 x"

text \<open>The schedule is grown newest word first.\<close>

fun sha_extend :: "nat \<Rightarrow> u32 list \<Rightarrow> u32 list" where
  "sha_extend 0 w = w"
| "sha_extend (Suc n) w =
     sha_extend n ((sig1 (w ! 1) + w ! 6 + sig0 (w ! 14) + w ! 15) # w)"

definition sha_schedule :: "bytes \<Rightarrow> u32 list" where
  "sha_schedule block = rev (sha_extend 48 (rev (words_of block)))"

type_synonym sha_regs = "u32 \<times> u32 \<times> u32 \<times> u32 \<times> u32 \<times> u32 \<times> u32 \<times> u32"

fun sha_round :: "sha_regs \<Rightarrow> u32 \<times> u32 \<Rightarrow> sha_regs" where
  "sha_round (a, b, c, d, e, f, g, h) (k, w) =
     (let t1 = h + Sig1 e + ((e AND f) XOR (NOT e AND g)) + k + w;
          t2 = Sig0 a + ((a AND b) XOR (a AND c) XOR (b AND c))
      in (t1 + t2, a, b, c, d + t1, e, f, g))"

fun regs_list :: "sha_regs \<Rightarrow> u32 list" where
  "regs_list (a, b, c, d, e, f, g, h) = [a, b, c, d, e, f, g, h]"

definition list_regs :: "u32 list \<Rightarrow> sha_regs" where
  "list_regs xs = (xs ! 0, xs ! 1, xs ! 2, xs ! 3, xs ! 4, xs ! 5, xs ! 6, xs ! 7)"

definition sha_block :: "u32 list \<Rightarrow> bytes \<Rightarrow> u32 list" where
  "sha_block hs block =
     map2 (+) hs (regs_list (foldl sha_round (list_regs hs) (zip sha_k (sha_schedule block))))"

function sha_blocks :: "u32 list \<Rightarrow> bytes \<Rightarrow> u32 list" where
  "sha_blocks hs m = (if m = [] then hs else sha_blocks (sha_block hs (take 64 m)) (drop 64 m))"
  by pat_completeness auto
termination
  by (relation "measure (\<lambda>(hs, m). length m)") auto

declare sha_blocks.simps [simp del]

definition sha256 :: "bytes \<Rightarrow> bytes" where
  "sha256 m = concat (map (\<lambda>w. be_bytes 4 (uint w)) (sha_blocks sha_h0 (sha_pad m)))"

subsection \<open>A digest is 32 bytes\<close>

lemma length_be_bytes [simp]: "length (be_bytes k n) = k"
  by (simp add: be_bytes_def)

lemma length_regs_list [simp]: "length (regs_list r) = 8"
  by (induction r rule: regs_list.induct) simp

lemma length_sha_block: "length (sha_block hs b) = min (length hs) 8"
  by (simp add: sha_block_def)

lemma length_sha_blocks: "length hs = 8 \<Longrightarrow> length (sha_blocks hs m) = 8"
proof (induction hs m rule: sha_blocks.induct)
  case (1 hs m)
  then show ?case by (simp add: sha_blocks.simps [of hs m] length_sha_block)
qed

lemma length_sha256 [simp]: "length (sha256 m) = 32"
proof -
  have "length (sha_blocks sha_h0 (sha_pad m)) = 8"
    by (rule length_sha_blocks) (simp add: sha_h0_def)
  then show ?thesis by (simp add: sha256_def length_concat o_def sum_list_triv)
qed

lemma sha256_nonempty [simp]: "sha256 m \<noteq> []"
  using length_sha256 [of m] by fastforce

subsection \<open>HMAC (\<open>crypto/hmac\<close> over SHA-256)\<close>

definition xor_byte :: "nat \<Rightarrow> char \<Rightarrow> char" where
  "xor_byte n c = byte_of ((nat_of c XOR n) mod 256)"

definition hmac_key :: "bytes \<Rightarrow> bytes" where
  "hmac_key k = (let k0 = (if length k > 64 then sha256 k else k) in k0 @ replicate (64 - length k0) NUL)"

definition hmac_sha256 :: "bytes \<Rightarrow> bytes \<Rightarrow> bytes" where
  "hmac_sha256 k m =
     sha256 (map (xor_byte 92) (hmac_key k) @ sha256 (map (xor_byte 54) (hmac_key k) @ m))"

text \<open>Two messages authenticate alike only if one of the two digests collides.\<close>

definition hmac_collides :: "bytes \<Rightarrow> bytes \<Rightarrow> bytes \<Rightarrow> bool" where
  "hmac_collides k m m' \<longleftrightarrow>
     (let i = (\<lambda>x. map (xor_byte 54) (hmac_key k) @ x); out = (\<lambda>x. map (xor_byte 92) (hmac_key k) @ sha256 (i x)) in
      (i m \<noteq> i m' \<and> sha256 (i m) = sha256 (i m')) \<or> (out m \<noteq> out m' \<and> sha256 (out m) = sha256 (out m')))"

lemma hmac_binds: "hmac_sha256 k m = hmac_sha256 k m' \<Longrightarrow> m = m' \<or> hmac_collides k m m'"
  by (auto simp: hmac_sha256_def hmac_collides_def Let_def)

end
