(* ===== verification/Wire.thy ===== *)
theory Wire
  imports V2V_Prelude
begin

text \<open>
  The protocol schema of \<^verbatim>\<open>src/lib/wire/wire.go\<close>: the records both binaries
  serialise. A Go pointer field is an \<open>option\<close>; a zero value is the empty
  string, \<open>0\<close>, \<open>[]\<close> or \<open>None\<close>. Field names carry a short prefix because HOL record
  fields share one name space.
\<close>

record Permission =
  canMessageUnlimited :: bool
  customPrefix :: string

record TripMeta =
  tmPub :: string
  tmSeq :: u32
  tmPrev :: string
  tmSig :: string
  tmServerPub :: string
  tmMsgHash :: string
  tmDisplayName :: string
  tmExposed :: bool
  tmTmpID :: u64
  tmReplyTo :: u64

record WireMessage =
  wType :: string
  wTime :: string
  wDisplayName :: string
  wTags :: "string list"
  wSysPowTier :: int
  wSysDate :: string
  wVoteTarget :: u64
  wVoteUpvotes :: int
  wVoteDownvotes :: int
  wExposedPub :: string
  wExposedSig :: string
  wExposedSeed :: string
  wText :: string
  wTrip :: "TripMeta option"
  wTmpID :: u64
  wReplyTo :: u64
  wChainPrev :: string
  wChainHash :: string
  wChainHeight :: u64
  wChainVer :: int
  wSeq :: u64
  wSentAt :: string

text \<open>The Go zero value \<open>WireMessage{}\<close>.\<close>

definition zero_wire :: WireMessage where
  "zero_wire = \<lparr>wType = [], wTime = [], wDisplayName = [], wTags = [], wSysPowTier = 0,
     wSysDate = [], wVoteTarget = 0, wVoteUpvotes = 0, wVoteDownvotes = 0, wExposedPub = [],
     wExposedSig = [], wExposedSeed = [], wText = [], wTrip = None, wTmpID = 0, wReplyTo = 0,
     wChainPrev = [], wChainHash = [], wChainHeight = 0, wChainVer = 0, wSeq = 0, wSentAt = []\<rparr>"

record HistorySync =
  hsType :: string
  hsMinHeight :: u64
  hsMaxHeight :: u64
  hsSent :: nat
  hsTotal :: nat
  hsDropped :: nat
  hsDirection :: string
  hsFirstSeq :: u64
  hsLastSeq :: u64
  hsNextSeq :: u64
  hsMore :: bool

record HistoryInfo =
  hiType :: string
  hiMinSeq :: u64
  hiMaxSeq :: u64
  hiMinHeight :: u64
  hiMaxHeight :: u64
  hiCount :: nat

record HeightRange =
  hrFrom :: u64
  hrTo :: u64

record PowOffer =
  poType :: string
  poTier :: int
  poT :: int
  poM :: int
  poP :: int
  poDifficulty :: u64
  poSalt :: string
  poExpires :: int
  poChallengeID :: string
  poOfferSig :: string
  poServerPub :: string

record PowResult =
  prType :: string
  prChallengeID :: string
  prNonce :: u64

record PowDecline =
  pdType :: string
  pdChallengeID :: string

record HistoryRequest =
  hqType :: string
  hqBefore :: u64
  hqLimit :: int
  hqAfterSeq :: "u64 option"
  hqBeforeSeq :: "u64 option"
  hqRanges :: "HeightRange list"

record VoteRequest =
  vrType :: string
  vrTarget :: u64
  vrDirection :: int

record RevealRequest =
  rrType :: string
  rrSeed :: string
  rrSig :: string

text \<open>Vote directions of \<open>VoteRequest\<close>.\<close>

definition DirDownvote :: int where "DirDownvote = -1"
definition DirWithdraw :: int where "DirWithdraw = 0"
definition DirUpvote :: int where "DirUpvote = 1"

lemmas dir_defs = DirDownvote_def DirWithdraw_def DirUpvote_def

end
