(* ===== verification/Chain_Link.thy ===== *)
theory Chain_Link
  imports Sha256 Wire
begin

text \<open>
  \<^verbatim>\<open>src/lib/chain/chain.go\<close>: the link hash of the global message log, its two
  encodings, and the verifiers. Shown here: the current encoding binds every
  field (two inputs with one hash are equal or exhibit a SHA-256 collision), hex
  digests parse back exactly, and where the two encodings overlap.
\<close>

subsection \<open>Definitions\<close>

definition domainLink :: string where "domainLink = ''V2V-chain-v1''"
definition domainGenesis :: string where "domainGenesis = ''V2V-chain-genesis''"
definition domainLegacy :: string where "domainLegacy = ''V2V-chain-legacy-anchor''"

text \<open>The byte stream \<open>Hash\<close> feeds to SHA-256.\<close>

definition link_stream ::
  "bytes \<Rightarrow> u64 \<Rightarrow> u64 \<Rightarrow> u64 \<Rightarrow> string \<Rightarrow> string \<Rightarrow> string \<Rightarrow> string \<Rightarrow> string \<Rightarrow> bytes" where
  "link_stream prev height tmpID replyTo typ tim display txt tripSig =
     domainLink @ [NUL] @ put_field prev @ uvarint (unat height) @ uvarint (unat tmpID)
     @ uvarint (unat replyTo) @ put_field typ @ put_field tim @ put_field display
     @ put_field txt @ put_field tripSig"

definition Hash ::
  "bytes \<Rightarrow> u64 \<Rightarrow> u64 \<Rightarrow> u64 \<Rightarrow> string \<Rightarrow> string \<Rightarrow> string \<Rightarrow> string \<Rightarrow> string \<Rightarrow> bytes" where
  "Hash prev height tmpID replyTo typ tim display txt tripSig =
     sha256 (link_stream prev height tmpID replyTo typ tim display txt tripSig)"

definition Genesis :: "string \<Rightarrow> bytes" where
  "Genesis serverPubHex = sha256 (domainGenesis @ [NUL] @ to_lower (trim_space serverPubHex))"

definition LegacyAnchor :: "string \<Rightarrow> bytes" where
  "LegacyAnchor lastLegacyMsg = sha256 (domainLegacy @ [NUL] @ lastLegacyMsg)"

definition VerifyLink ::
  "bytes \<Rightarrow> u64 \<Rightarrow> u64 \<Rightarrow> u64 \<Rightarrow> string \<Rightarrow> string \<Rightarrow> string \<Rightarrow> string \<Rightarrow> string \<Rightarrow> bytes \<Rightarrow> bool" where
  "VerifyLink prev height tmpID replyTo typ tim display txt tripSig want \<longleftrightarrow>
     Hash prev height tmpID replyTo typ tim display txt tripSig = want"

definition link_stream_v1 ::
  "bytes \<Rightarrow> u64 \<Rightarrow> u64 \<Rightarrow> string \<Rightarrow> string \<Rightarrow> string \<Rightarrow> string \<Rightarrow> string \<Rightarrow> bytes" where
  "link_stream_v1 prev height tmpID typ tim display txt tripSig =
     domainLink @ [NUL] @ put_field prev @ uvarint (unat height) @ uvarint (unat tmpID)
     @ put_field typ @ put_field tim @ put_field display @ put_field txt @ put_field tripSig"

definition hashV1 ::
  "bytes \<Rightarrow> u64 \<Rightarrow> u64 \<Rightarrow> string \<Rightarrow> string \<Rightarrow> string \<Rightarrow> string \<Rightarrow> string \<Rightarrow> bytes" where
  "hashV1 prev height tmpID typ tim display txt tripSig =
     sha256 (link_stream_v1 prev height tmpID typ tim display txt tripSig)"

definition VerifyLinkV1 ::
  "bytes \<Rightarrow> u64 \<Rightarrow> u64 \<Rightarrow> string \<Rightarrow> string \<Rightarrow> string \<Rightarrow> string \<Rightarrow> string \<Rightarrow> bytes \<Rightarrow> bool" where
  "VerifyLinkV1 prev height tmpID typ tim display txt tripSig want \<longleftrightarrow>
     hashV1 prev height tmpID typ tim display txt tripSig = want"

definition TripSigOf :: "WireMessage \<Rightarrow> string" where
  "TripSigOf w = (case wTrip w of Some t \<Rightarrow> tmSig t | None \<Rightarrow> [])"

definition VerifyWire :: "bytes \<Rightarrow> WireMessage \<Rightarrow> bytes \<Rightarrow> bool" where
  "VerifyWire prev w want =
     (if wChainVer w \<ge> 2
      then VerifyLink prev (wChainHeight w) (wTmpID w) (wReplyTo w) (wType w) (wTime w)
             (wDisplayName w) (wText w) (TripSigOf w) want
      else VerifyLinkV1 prev (wChainHeight w) (wTmpID w) (wType w) (wTime w)
             (wDisplayName w) (wText w) (TripSigOf w) want)"

definition ParseHex64 :: "string \<Rightarrow> bytes option" where
  "ParseHex64 s =
     (if length s \<noteq> 64 then None
      else case hex_decode s of
             None \<Rightarrow> None
           | Some b \<Rightarrow> if length b \<noteq> 32 then None else Some b)"

subsection \<open>Digest lengths and hex links\<close>

lemma Hash_length [simp]: "length (Hash p h t r a b c d e) = 32"
  by (simp add: Hash_def)

lemma Genesis_length [simp]: "length (Genesis s) = 32"
  by (simp add: Genesis_def)

lemma LegacyAnchor_length [simp]: "length (LegacyAnchor s) = 32"
  by (simp add: LegacyAnchor_def)

lemma ParseHex64_encode [simp, codec]: "length b = 32 \<Longrightarrow> ParseHex64 (hex_encode b) = Some b"
  by (simp add: ParseHex64_def)

lemma ParseHex64_length: "ParseHex64 s = Some b \<Longrightarrow> length b = 32"
  by (auto simp: ParseHex64_def split: if_splits option.splits)

lemma from_hex_lower: "from_hex c = Some n \<longleftrightarrow> n < 16 \<and> lower_char c = hex_char n"
proof -
  have "lower_char (byte_of (nat_of c)) = hex_char n \<and> n < 16 \<longleftrightarrow> from_hex (byte_of (nat_of c)) = Some n"
    if "nat_of c < 256"
  proof
    assume l: "lower_char (byte_of (nat_of c)) = hex_char n \<and> n < 16"
    then have "from_hex (lower_char c) = Some n" by simp
    then show "from_hex (byte_of (nat_of c)) = Some n"
      by (auto simp: from_hex_def lower_char_def Let_def split: if_splits)
  next
    assume f: "from_hex (byte_of (nat_of c)) = Some n"
    then have n: "n < 16" by (rule from_hex_lt)
    have "from_hex (lower_char c) = Some n"
      using f by (auto simp: from_hex_def lower_char_def Let_def split: if_splits)
    moreover have "nat_of (lower_char c) < 65 \<or> 70 < nat_of (lower_char c)"
      by (auto simp: lower_char_def Let_def)
    ultimately have "nat_of (lower_char c) = (if n < 10 then 48 + n else 87 + n)"
      by (auto simp: from_hex_def Let_def split: if_splits)
    moreover have "nat_of (hex_char n) = (if n < 10 then 48 + n else 87 + n)"
      using less_16_cases [OF n] by (auto simp: hex_char_def hex_digits_def nat_of_def)
    ultimately show "lower_char (byte_of (nat_of c)) = hex_char n \<and> n < 16"
      using n by (metis byte_of_nat_of)
  qed
  then show ?thesis by auto
qed

lemma hex_pair_lt: "x < 16 \<Longrightarrow> y < 16 \<Longrightarrow> 16 * x + y < (256::nat)"
  by simp

lemma hex_decode_iff [codec]: "hex_decode s = Some b \<longleftrightarrow> to_lower s = hex_encode b"
proof (induction s arbitrary: b rule: hex_decode.induct)
  case 1
  then show ?case by (cases b) (auto simp: to_lower_def)
next
  case (2 x)
  then show ?case by (cases b) (auto simp: to_lower_def)
next
  case (3 p q cs)
  show ?case
  proof (cases b)
    case Nil
    then show ?thesis by (auto simp: to_lower_def split: option.splits)
  next
    case (Cons c bs)
    have split: "nat_of c div 16 < 16" "nat_of c mod 16 < 16"
      by (simp_all add: less_mult_imp_div_less)
    have pair: "byte_of (16 * x + y) = c \<longleftrightarrow> x = nat_of c div 16 \<and> y = nat_of c mod 16"
      if "from_hex p = Some x" "from_hex q = Some y" for x y
    proof -
      have lt: "x < 16" "y < 16" using that by (auto dest: from_hex_lt)
      then have "byte_of (16 * x + y) = c \<longleftrightarrow> 16 * x + y = nat_of c"
        by (metis byte_of_nat_of nat_of_byte_of mult_less_mono2 nat_of_lt hex_pair_lt)
      then show ?thesis using lt by auto
    qed
    have "lower_char p = hex_char (nat_of c div 16) \<longleftrightarrow> from_hex p = Some (nat_of c div 16)"
      and "lower_char q = hex_char (nat_of c mod 16) \<longleftrightarrow> from_hex q = Some (nat_of c mod 16)"
      using split by (simp_all add: from_hex_lower)
    then show ?thesis
      using 3 Cons pair by (auto simp: to_lower_def split: option.splits)
  qed
qed

lemma ParseHex64_iff: "ParseHex64 s = Some b \<longleftrightarrow> length b = 32 \<and> to_lower s = hex_encode b"
proof -
  have "length s = 64" if "to_lower s = hex_encode b" "length b = 32"
    using arg_cong [OF that(1), of length] that(2) by simp
  then show ?thesis
    by (auto simp: ParseHex64_def hex_decode_iff [symmetric] split: option.splits dest: hex_decode_length)
qed

subsection \<open>The encoding is injective\<close>

lemma link_stream_inj [codec]:
  "link_stream p h t r a b c d e = link_stream p' h' t' r' a' b' c' d' e' \<longleftrightarrow>
     p = p' \<and> h = h' \<and> t = t' \<and> r = r' \<and> a = a' \<and> b = b' \<and> c = c' \<and> d = d' \<and> e = e'"
  by (auto simp: link_stream_def put_field_prefix_free uvarint_prefix_free put_field_inj unat_eq_iff)

lemma Hash_eq_cases:
  assumes "Hash p h t r a b c d e = Hash p' h' t' r' a' b' c' d' e'"
  obtains "(p, h, t, r, a, b, c, d, e) = (p', h', t', r', a', b', c', d', e')"
  | "link_stream p h t r a b c d e \<noteq> link_stream p' h' t' r' a' b' c' d' e'"
    and "sha256 (link_stream p h t r a b c d e) = sha256 (link_stream p' h' t' r' a' b' c' d' e')"
  using assms by (cases "link_stream p h t r a b c d e = link_stream p' h' t' r' a' b' c' d' e'")
    (auto simp: Hash_def link_stream_inj)

text \<open>
  Where the encodings overlap: the reply target of a v2 record takes the place of
  the length prefix of a v1 type field.
\<close>

lemma link_streams_overlap:
  assumes "unat r = length (put_field a)"
  shows "link_stream p h t r a b c d e = link_stream_v1 p h t (put_field a) b c d e"
  using assms by (simp add: link_stream_def link_stream_v1_def put_field_def [of "put_field a"])

end
