(* ===== verification/Machines.thy ===== *)
theory Machines
  imports V2V_Prelude
begin

text \<open>
  Two interfaces several components share. \<open>machine\<close>: a step function with an
  invariant that admissible events keep; its lemmas lift the one-step law to runs.
  \<open>hash_chain\<close>: a link function that binds its inputs unless two named inputs
  collide; its lemmas lift binding from one link to whole logs. Each component
  interprets them on its own definitions.
\<close>

locale machine =
  fixes step :: "'e \<Rightarrow> 's \<Rightarrow> 's"
    and ok :: "'s \<Rightarrow> 'e \<Rightarrow> bool"
    and inv :: "'s \<Rightarrow> bool"
  assumes step_inv: "inv s \<Longrightarrow> ok s e \<Longrightarrow> inv (step e s)"
begin

fun admissible :: "'s \<Rightarrow> 'e list \<Rightarrow> bool" where
  "admissible s [] = True"
| "admissible s (e # es) = (ok s e \<and> admissible (step e s) es)"

lemma run_inv: "inv s \<Longrightarrow> admissible s es \<Longrightarrow> inv (fold step es s)"
  by (induction es arbitrary: s) (auto intro: step_inv)

lemma run_prefix_inv:
  "inv s \<Longrightarrow> admissible s (es @ fs) \<Longrightarrow> inv (fold step es s)"
proof (induction es arbitrary: s)
  case (Cons e es)
  then show ?case by (auto intro: step_inv)
qed simp

lemma admissible_if_all: "(\<And>s e. e \<in> set es \<Longrightarrow> ok s e) \<Longrightarrow> admissible s es"
  by (induction es arbitrary: s) auto

lemma admissible_append: "admissible s (es @ fs) \<longleftrightarrow> admissible s es \<and> admissible (fold step es s) fs"
  by (induction es arbitrary: s) auto

lemma admissible_if_prefixes:
  "(\<And>k. k < length es \<Longrightarrow> ok (fold step (take k es) s) (es ! k)) \<Longrightarrow> admissible s es"
proof (induction es arbitrary: s)
  case (Cons e es)
  have "ok (fold step (take k es) (step e s)) (es ! k)" if "k < length es" for k
    using Cons.prems [of "Suc k"] that by simp
  then show ?case using Cons.prems [of 0] Cons.IH by simp
qed simp

end

locale hash_chain =
  fixes link :: "bytes \<Rightarrow> 'm \<Rightarrow> bytes"
    and collide :: "bytes \<Rightarrow> 'm \<Rightarrow> bytes \<Rightarrow> 'm \<Rightarrow> bool"
    and ok :: "bytes \<Rightarrow> 'm \<Rightarrow> bool"
  assumes link_binding:
      "ok p m \<Longrightarrow> ok q n \<Longrightarrow> link p m = link q n \<Longrightarrow> (p = q \<and> m = n) \<or> collide p m q n"
begin

fun tips :: "bytes \<Rightarrow> 'm list \<Rightarrow> bytes list" where
  "tips p [] = [p]"
| "tips p (m # ms) = p # tips (link p m) ms"

fun all_ok :: "bytes \<Rightarrow> 'm list \<Rightarrow> bool" where
  "all_ok p [] = True"
| "all_ok p (m # ms) = (ok p m \<and> all_ok (link p m) ms)"

definition tip_of :: "bytes \<Rightarrow> 'm list \<Rightarrow> bytes" where
  "tip_of p ms = foldl link p ms"

lemma all_ok_snoc: "all_ok p (ms @ [m]) \<longleftrightarrow> all_ok p ms \<and> ok (tip_of p ms) m"
  by (induction ms arbitrary: p) (auto simp: tip_of_def)

text \<open>
  Two logs of one length that end in the same tip are the same log from the same
  seed, or somewhere two of their links collide.
\<close>

lemma same_tip_same_log:
  assumes "length ms = length ns" "all_ok p ms" "all_ok q ns" "tip_of p ms = tip_of q ns"
  shows "(p = q \<and> ms = ns) \<or>
    (\<exists>i < length ms. collide (tip_of p (take i ms)) (ms ! i) (tip_of q (take i ns)) (ns ! i))"
  using assms
proof (induction ms arbitrary: ns rule: rev_induct)
  case Nil
  then show ?case by (simp add: tip_of_def)
next
  case (snoc m ms)
  from snoc.prems(1) obtain n ns' where ns: "ns = ns' @ [n]" and len: "length ms = length ns'"
    by (metis length_append_singleton length_0_conv rev_exhaust Zero_not_Suc length_Suc_conv nat.inject)
  have ok: "all_ok p ms" "ok (tip_of p ms) m" "all_ok q ns'" "ok (tip_of q ns') n"
    using snoc.prems(2,3) by (auto simp: ns all_ok_snoc)
  have eq: "link (tip_of p ms) m = link (tip_of q ns') n"
    using snoc.prems(4) by (simp add: ns tip_of_def)
  show ?case
  proof (cases "collide (tip_of p ms) m (tip_of q ns') n")
    case True
    then have "collide (tip_of p (take (length ms) (ms @ [m]))) ((ms @ [m]) ! length ms)
        (tip_of q (take (length ms) ns)) (ns ! length ms)"
      using len by (simp add: ns nth_append)
    then show ?thesis by (intro disjI2 exI [of _ "length ms"]) simp
  next
    case False
    with link_binding [OF ok(2,4) eq] have "tip_of p ms = tip_of q ns'" and mn: "m = n" by auto
    with snoc.IH [OF len ok(1,3)]
    consider "p = q \<and> ms = ns'" | i where "i < length ms"
      "collide (tip_of p (take i ms)) (ms ! i) (tip_of q (take i ns')) (ns' ! i)"
      by blast
    then show ?thesis
    proof cases
      case 1
      then show ?thesis by (simp add: ns mn)
    next
      case 2
      then have "collide (tip_of p (take i (ms @ [m]))) ((ms @ [m]) ! i) (tip_of q (take i ns)) (ns ! i)"
        using len by (simp add: ns nth_append)
      with 2 show ?thesis by (intro disjI2 exI [of _ i]) simp
    qed
  qed
qed

end

subsection \<open>Cursor paging\<close>

text \<open>
  A reader that follows resume cursors: \<open>fetch\<close> returns a page, whether more follows, and the next
  cursor; \<open>wanted\<close> is everything from a cursor on. What a reader collects by following cursors is
  exactly what it asked for.
\<close>

primrec drain_pages :: "('c \<Rightarrow> 'l list \<times> bool \<times> 'c) \<Rightarrow> nat \<Rightarrow> 'c \<Rightarrow> 'l list" where
  "drain_pages fetch 0 c = []"
| "drain_pages fetch (Suc n) c =
     (case fetch c of (ls, more, next) \<Rightarrow> if more then ls @ drain_pages fetch n next else ls)"

locale paging =
  fixes fetch :: "'c \<Rightarrow> 'l list \<times> bool \<times> 'c"
    and wanted :: "'c \<Rightarrow> 'l list"
    and good :: "'c \<Rightarrow> bool"
  assumes last_page: "good c \<Longrightarrow> fetch c = (ls, False, n) \<Longrightarrow> ls = wanted c"
    and more_page: "good c \<Longrightarrow> fetch c = (ls, True, n) \<Longrightarrow> ls \<noteq> [] \<and> wanted c = ls @ wanted n \<and> good n"
begin

lemma drain_complete: "good c \<Longrightarrow> length (wanted c) < n \<Longrightarrow> drain_pages fetch n c = wanted c"
proof (induction n arbitrary: c)
  case (Suc n)
  obtain ls more nx where f: "fetch c = (ls, more, nx)" using prod_cases3 by blast
  show ?case
  proof (cases more)
    case True
    with f more_page [OF Suc.prems(1), of ls nx] have m: "ls \<noteq> []" "wanted c = ls @ wanted nx" "good nx"
      by simp_all
    then have "length (wanted nx) < length (wanted c)" by simp
    with Suc.prems(2) have "length (wanted nx) < n" by linarith
    with Suc.IH [OF m(3)] f True m(2) show ?thesis by simp
  next
    case False
    with f last_page [OF Suc.prems(1)] show ?thesis by simp
  qed
qed simp

end

end
