(* ===== verification/Chain_Service.thy ===== *)
theory Chain_Service
  imports Chain_Link Machines
begin

text \<open>
  The server's log: \<open>ChainService\<close> of \<^verbatim>\<open>src/server/shared.go\<close>, \<open>linkAndStore\<close>,
  \<open>assignSeqLocked\<close> and \<open>initChainLocked\<close> of \<^verbatim>\<open>src/server/chain.go\<close>, and
  \<open>appendMessageLocked\<close> and the storing half of \<open>storeSystem\<close> of
  \<^verbatim>\<open>src/server/history.go\<close>.

  A history line is kept as what \<open>json.Unmarshal\<close> sees in it: \<open>JsonLine w\<close> is the string
  \<open>json.Marshal(w)\<close>, \<open>RawLine s\<close> a string that does not unmarshal. \<open>json.Marshal\<close> itself
  is the argument \<open>mj\<close> (only the text and the byte length of a line depend on it);
  \<open>mx\<close> is \<open>MaxHistoryBytes\<close>. \<open>Store\<close> is the sequence of records handed to
  \<open>EnqueueWire\<close>. Logging is not modelled; the warnings' condition is the \<open>scBroken\<close>
  flag of the scan.
\<close>

subsection \<open>State\<close>

datatype stored_line = JsonLine WireMessage | RawLine string

type_synonym marshaller = "WireMessage \<Rightarrow> string"

fun line_text :: "marshaller \<Rightarrow> stored_line \<Rightarrow> string" where
  "line_text mj (JsonLine w) = mj w"
| "line_text mj (RawLine s) = s"

fun unmarshal :: "stored_line \<Rightarrow> WireMessage option" where
  "unmarshal (JsonLine w) = Some w"
| "unmarshal (RawLine s) = None"

abbreviation line_len :: "marshaller \<Rightarrow> stored_line \<Rightarrow> int" where
  "line_len mj l \<equiv> int (length (line_text mj l))"

record ChainService =
  csTip :: bytes
  csHeight :: u64
  csReady :: bool
  csSeq :: u64
  csHistory :: "stored_line list"
  csHistorySize :: int
  csStore :: "(WireMessage \<times> time) list option"

subsection \<open>Appending with eviction\<close>

fun evict :: "marshaller \<Rightarrow> int \<Rightarrow> stored_line list \<Rightarrow> int \<Rightarrow> stored_line list \<times> int" where
  "evict mj mx [] sz = ([], sz)"
| "evict mj mx (l # ls) sz =
     (if sz > mx then evict mj mx ls (sz - line_len mj l) else (l # ls, sz))"

definition appendMessageLocked :: "marshaller \<Rightarrow> int \<Rightarrow> stored_line \<Rightarrow> ChainService \<Rightarrow> ChainService" where
  "appendMessageLocked mj mx msg c =
     (let (h, sz) = evict mj mx (csHistory c @ [msg]) (csHistorySize c + line_len mj msg)
      in c\<lparr>csHistory := h, csHistorySize := sz\<rparr>)"

definition assignSeqLocked :: "ChainService \<Rightarrow> u64 \<times> ChainService" where
  "assignSeqLocked c = (csSeq c + 1, c\<lparr>csSeq := csSeq c + 1\<rparr>)"

definition EnqueueWire :: "WireMessage \<Rightarrow> time \<Rightarrow> ChainService \<Rightarrow> ChainService" where
  "EnqueueWire w now c = c\<lparr>csStore := map_option (\<lambda>q. q @ [(w, now)]) (csStore c)\<rparr>"

subsection \<open>Resuming the tip from stored history\<close>

record scan =
  scTip :: bytes
  scHeight :: u64
  scAnchor :: string
  scAnchored :: bool
  scBroken :: bool
  scMaxSeq :: u64

definition expectPrev :: "scan \<Rightarrow> bytes" where
  "expectPrev s = (if scAnchored s then LegacyAnchor (scAnchor s) else scTip s)"

definition scan_wire :: "string \<Rightarrow> WireMessage \<Rightarrow> scan \<Rightarrow> scan" where
  "scan_wire txt w s0 =
     (let s = (if wSeq w > scMaxSeq s0 then s0\<lparr>scMaxSeq := wSeq w\<rparr> else s0) in
      if wType w = ''system'' \<and> wChainHash w = [] then s
      else if wChainHash w = [] then s\<lparr>scAnchor := txt, scAnchored := True\<rparr>
      else case (ParseHex64 (wChainPrev w), ParseHex64 (wChainHash w)) of
          (Some prev, Some want) \<Rightarrow>
            (if prev \<noteq> expectPrev s \<or> wChainHeight w \<noteq> scHeight s + 1
             then s\<lparr>scAnchored := False, scBroken := True, scTip := want, scHeight := wChainHeight w\<rparr>
             else s\<lparr>scAnchored := False, scBroken := scBroken s \<or> \<not> VerifyWire prev w want,
                    scTip := want, scHeight := wChainHeight w\<rparr>)
        | _ \<Rightarrow> s\<lparr>scBroken := True, scAnchored := False\<rparr>)"

definition scan_line :: "marshaller \<Rightarrow> stored_line \<Rightarrow> scan \<Rightarrow> scan" where
  "scan_line mj l s =
     (case unmarshal l of
        None \<Rightarrow> s\<lparr>scAnchor := line_text mj l, scAnchored := True\<rparr>
      | Some w \<Rightarrow> scan_wire (line_text mj l) w s)"

definition scan_start :: "string \<Rightarrow> scan" where
  "scan_start serverPub = \<lparr>scTip = Genesis serverPub, scHeight = 0, scAnchor = [],
     scAnchored = False, scBroken = False, scMaxSeq = 0\<rparr>"

definition scan_history :: "marshaller \<Rightarrow> string \<Rightarrow> stored_line list \<Rightarrow> scan" where
  "scan_history mj serverPub ls = fold (scan_line mj) ls (scan_start serverPub)"

definition scan_tip :: "scan \<Rightarrow> bytes" where
  "scan_tip s = (if scAnchored s \<and> scHeight s = 0 then LegacyAnchor (scAnchor s) else scTip s)"

definition initChainLocked :: "marshaller \<Rightarrow> string \<Rightarrow> ChainService \<Rightarrow> ChainService" where
  "initChainLocked mj serverPub c =
     (let s = scan_history mj serverPub (csHistory c)
      in c\<lparr>csTip := scan_tip s, csHeight := scHeight s, csReady := True,
           csSeq := (if scMaxSeq s > csSeq c then scMaxSeq s else csSeq c)\<rparr>)"

subsection \<open>Linking and storing\<close>

definition chainVersion :: int where "chainVersion = 2"

definition linkAndStore ::
  "marshaller \<Rightarrow> int \<Rightarrow> time \<Rightarrow> string \<Rightarrow> WireMessage \<Rightarrow> ChainService \<Rightarrow> WireMessage \<times> ChainService" where
  "linkAndStore mj mx now serverPub w c0 =
     (let c1 = (if csReady c0 then c0 else initChainLocked mj serverPub c0);
          c2 = c1\<lparr>csHeight := csHeight c1 + 1\<rparr>;
          prev = csTip c2;
          h = Hash prev (csHeight c2) (wTmpID w) (wReplyTo w) (wType w) (wTime w)
                (wDisplayName w) (wText w) (TripSigOf w);
          w1 = w\<lparr>wChainPrev := hex_encode prev, wChainHash := hex_encode h,
                 wChainHeight := csHeight c2, wChainVer := chainVersion\<rparr>;
          (sq, c3) = assignSeqLocked c2;
          w2 = w1\<lparr>wSeq := sq\<rparr>;
          c4 = c3\<lparr>csTip := h\<rparr>;
          c5 = appendMessageLocked mj mx (JsonLine w2) c4
      in (w2, EnqueueWire w2 now c5))"

definition storeSystem :: "marshaller \<Rightarrow> int \<Rightarrow> time \<Rightarrow> WireMessage \<Rightarrow> ChainService \<Rightarrow> WireMessage \<times> ChainService" where
  "storeSystem mj mx now msg c0 =
     (let (sq, c1) = assignSeqLocked c0;
          m = msg\<lparr>wSeq := sq\<rparr>;
          c2 = appendMessageLocked mj mx (JsonLine m) c1
      in (m, EnqueueWire m now c2))"

subsection \<open>Runs\<close>

text \<open>Everything that writes the log: a chained broadcast or an unchained notice.\<close>

datatype chain_event = Link WireMessage time | Notice WireMessage time

fun chain_step :: "marshaller \<Rightarrow> int \<Rightarrow> string \<Rightarrow> chain_event \<Rightarrow> ChainService \<Rightarrow> ChainService" where
  "chain_step mj mx pub (Link w now) c = snd (linkAndStore mj mx now pub w c)"
| "chain_step mj mx pub (Notice m now) c = snd (storeSystem mj mx now m c)"

text \<open>What \<open>storeSystem\<close> is called with: \<open>noticeWire\<close> and the vote and reveal lines.\<close>

definition is_notice :: "WireMessage \<Rightarrow> bool" where
  "is_notice m \<longleftrightarrow> wType m = ''system'' \<and> wChainHash m = []"

fun event_ok :: "chain_event \<Rightarrow> bool" where
  "event_ok (Link w now) = True"
| "event_ok (Notice m now) = is_notice m"

text \<open>A restarted process over the same stored lines.\<close>

definition reboot :: "ChainService \<Rightarrow> ChainService" where
  "reboot c = c\<lparr>csTip := [], csHeight := 0, csReady := False, csSeq := 0\<rparr>"

subsection \<open>Eviction\<close>

abbreviation total_len :: "marshaller \<Rightarrow> stored_line list \<Rightarrow> int" where
  "total_len mj ls \<equiv> (\<Sum>l\<leftarrow>ls. line_len mj l)"

definition size_ok :: "marshaller \<Rightarrow> ChainService \<Rightarrow> bool" where
  "size_ok mj c \<longleftrightarrow> csHistorySize c = total_len mj (csHistory c)"

lemma evict_spec:
  assumes "evict mj mx ls (total_len mj ls) = (ls', sz')"
  shows "sz' = total_len mj ls' \<and> (\<exists>k. ls' = drop k ls \<and> (\<forall>j < k. mx < total_len mj (drop j ls)))
     \<and> (sz' \<le> mx \<or> ls' = [])"
  using assms
proof (induction ls arbitrary: ls' sz')
  case Nil
  then show ?case by auto
next
  case (Cons l ls)
  show ?case
  proof (cases "total_len mj (l # ls) > mx")
    case True
    with Cons.prems have "evict mj mx ls (total_len mj ls) = (ls', sz')" by simp
    from Cons.IH [OF this] obtain k where
      k: "sz' = total_len mj ls'" "ls' = drop k ls" "\<forall>j < k. mx < total_len mj (drop j ls)"
        "sz' \<le> mx \<or> ls' = []" by blast
    have "\<forall>j < Suc k. mx < total_len mj (drop j (l # ls))"
      using True k(3) by (auto simp: less_Suc_eq_0_disj)
    with k show ?thesis by (intro conjI exI [of _ "Suc k"]) auto
  next
    case False
    with Cons.prems show ?thesis by (intro conjI exI [of _ 0]) auto
  qed
qed

lemma append_fields [simp, frame]:
  "csTip (appendMessageLocked mj mx l c) = csTip c"
  "csHeight (appendMessageLocked mj mx l c) = csHeight c"
  "csReady (appendMessageLocked mj mx l c) = csReady c"
  "csSeq (appendMessageLocked mj mx l c) = csSeq c"
  "csStore (appendMessageLocked mj mx l c) = csStore c"
  by (simp_all add: appendMessageLocked_def split: prod.splits)

lemma append_spec:
  assumes "size_ok mj c"
  shows "size_ok mj (appendMessageLocked mj mx l c)"
    and "\<exists>k. csHistory (appendMessageLocked mj mx l c) = drop k (csHistory c @ [l])
           \<and> (\<forall>j < k. mx < total_len mj (drop j (csHistory c @ [l])))"
    and "csHistorySize (appendMessageLocked mj mx l c) \<le> mx
           \<or> csHistory (appendMessageLocked mj mx l c) = []"
proof -
  obtain h sz where e: "evict mj mx (csHistory c @ [l]) (csHistorySize c + line_len mj l) = (h, sz)"
    by fastforce
  have "csHistorySize c + line_len mj l = total_len mj (csHistory c @ [l])"
    using assms by (simp add: size_ok_def)
  with e have e': "evict mj mx (csHistory c @ [l]) (total_len mj (csHistory c @ [l])) = (h, sz)" by simp
  from evict_spec [OF e'] show "size_ok mj (appendMessageLocked mj mx l c)"
    and "\<exists>k. csHistory (appendMessageLocked mj mx l c) = drop k (csHistory c @ [l])
           \<and> (\<forall>j < k. mx < total_len mj (drop j (csHistory c @ [l])))"
    and "csHistorySize (appendMessageLocked mj mx l c) \<le> mx
           \<or> csHistory (appendMessageLocked mj mx l c) = []"
    using e by (auto simp: size_ok_def appendMessageLocked_def)
qed

lemma append_no_evict:
  assumes "csHistorySize c + line_len mj l \<le> mx"
  shows "csHistory (appendMessageLocked mj mx l c) = csHistory c @ [l]"
    and "csHistorySize (appendMessageLocked mj mx l c) = csHistorySize c + line_len mj l"
  using assms by (cases "csHistory c"; simp add: appendMessageLocked_def)+

lemma append_history:
  "csHistory (appendMessageLocked mj mx l c) =
     fst (evict mj mx (csHistory c @ [l]) (csHistorySize c + line_len mj l))"
  by (simp add: appendMessageLocked_def split: prod.splits)

lemma evict_suffix: "\<exists>k. fst (evict mj mx ls sz) = drop k ls"
proof (induction ls arbitrary: sz)
  case (Cons a ls)
  then show ?case by (metis drop_0 drop_Suc_Cons evict.simps(2) fst_conv)
qed simp

lemma enqueue_fields [simp, frame]:
  "csTip (EnqueueWire w now c) = csTip c" "csHeight (EnqueueWire w now c) = csHeight c"
  "csReady (EnqueueWire w now c) = csReady c" "csSeq (EnqueueWire w now c) = csSeq c"
  "csHistory (EnqueueWire w now c) = csHistory c"
  "csHistorySize (EnqueueWire w now c) = csHistorySize c"
  by (simp_all add: EnqueueWire_def)

lemma init_fields [simp, frame]:
  "csHistory (initChainLocked mj pub c) = csHistory c"
  "csHistorySize (initChainLocked mj pub c) = csHistorySize c"
  "csStore (initChainLocked mj pub c) = csStore c"
  "csReady (initChainLocked mj pub c)"
  by (simp_all add: initChainLocked_def Let_def)

subsection \<open>What one step writes\<close>

definition ensure_ready :: "marshaller \<Rightarrow> string \<Rightarrow> ChainService \<Rightarrow> ChainService" where
  "ensure_ready mj pub c = (if csReady c then c else initChainLocked mj pub c)"

definition linked_wire :: "WireMessage \<Rightarrow> ChainService \<Rightarrow> WireMessage" where
  "linked_wire w c =
     w\<lparr>wChainPrev := hex_encode (csTip c),
       wChainHash := hex_encode (Hash (csTip c) (csHeight c + 1) (wTmpID w) (wReplyTo w) (wType w)
          (wTime w) (wDisplayName w) (wText w) (TripSigOf w)),
       wChainHeight := csHeight c + 1, wChainVer := chainVersion, wSeq := csSeq c + 1\<rparr>"

lemma linkAndStore_eq:
  "linkAndStore mj mx now pub w c0 =
     (let c = ensure_ready mj pub c0; w' = linked_wire w c in
      (w', EnqueueWire w' now (appendMessageLocked mj mx (JsonLine w')
         (c\<lparr>csHeight := csHeight c + 1, csSeq := csSeq c + 1,
            csTip := Hash (csTip c) (csHeight c + 1) (wTmpID w) (wReplyTo w) (wType w)
              (wTime w) (wDisplayName w) (wText w) (TripSigOf w)\<rparr>))))"
  by (simp add: linkAndStore_def ensure_ready_def linked_wire_def assignSeqLocked_def Let_def)

lemma storeSystem_eq:
  "storeSystem mj mx now m c =
     (let m' = m\<lparr>wSeq := csSeq c + 1\<rparr> in
      (m', EnqueueWire m' now (appendMessageLocked mj mx (JsonLine m') (c\<lparr>csSeq := csSeq c + 1\<rparr>))))"
  by (simp add: storeSystem_def assignSeqLocked_def Let_def)

lemma ensure_ready_fields [simp]:
  "csReady (ensure_ready mj pub c)" "csHistory (ensure_ready mj pub c) = csHistory c"
  "csHistorySize (ensure_ready mj pub c) = csHistorySize c"
  "csReady c \<Longrightarrow> ensure_ready mj pub c = c"
  by (simp_all add: ensure_ready_def)

text \<open>The line a step appends.\<close>

fun event_line :: "marshaller \<Rightarrow> string \<Rightarrow> chain_event \<Rightarrow> ChainService \<Rightarrow> stored_line" where
  "event_line mj pub (Link w now) c = JsonLine (linked_wire w (ensure_ready mj pub c))"
| "event_line mj pub (Notice m now) c = JsonLine (m\<lparr>wSeq := csSeq c + 1\<rparr>)"

lemma size_ok_update [simp]:
  "size_ok mj (c\<lparr>csHeight := a, csSeq := b, csTip := t\<rparr>) = size_ok mj c"
  "size_ok mj (c\<lparr>csSeq := b\<rparr>) = size_ok mj c"
  "size_ok mj (ensure_ready mj' pub c) = size_ok mj c"
  "size_ok mj (EnqueueWire w now c) = size_ok mj c"
  by (simp_all add: size_ok_def)

lemma step_size_ok: "size_ok mj c \<Longrightarrow> size_ok mj (chain_step mj mx pub e c)"
  by (cases e) (simp_all add: linkAndStore_eq storeSystem_eq Let_def append_spec)

interpretation log_size: machine "chain_step mj mx pub" "\<lambda>_ _. True" "size_ok mj" for mj mx pub
  by unfold_locales (rule step_size_ok)

lemma step_history_suffix:
  "\<exists>k. csHistory (chain_step mj mx pub e c) = drop k (csHistory c @ [event_line mj pub e c])"
  by (cases e) (simp_all add: linkAndStore_eq storeSystem_eq Let_def append_history evict_suffix
      del: drop_append)

lemma step_no_evict:
  assumes "csHistorySize c + line_len mj (event_line mj pub e c) \<le> mx"
  shows "csHistory (chain_step mj mx pub e c) = csHistory c @ [event_line mj pub e c]"
  using assms append_no_evict by (cases e) (simp_all add: linkAndStore_eq storeSystem_eq Let_def)

lemma step_history_cases:
  obtains (appended) "csHistory (chain_step mj mx pub e c) = csHistory c @ [event_line mj pub e c]"
  | (evicted) "length (csHistory (chain_step mj mx pub e c)) \<le> length (csHistory c)"
proof -
  obtain k where "csHistory (chain_step mj mx pub e c) = drop k (csHistory c @ [event_line mj pub e c])"
    using step_history_suffix by blast
  then show thesis using that by (cases k) auto
qed

lemma run_history_length:
  "length (csHistory (fold (chain_step mj mx pub) es c)) \<le> length (csHistory c) + length es"
proof (induction es arbitrary: c)
  case (Cons e es)
  have "length (csHistory (chain_step mj mx pub e c)) \<le> length (csHistory c) + 1"
    by (rule step_history_cases [of mj mx pub e c]) auto
  with Cons [of "chain_step mj mx pub e c"] show ?case by simp
qed simp

subsection \<open>The scan follows the live tip\<close>

lemma scan_history_snoc [simp]:
  "scan_history mj pub (ls @ [l]) = scan_line mj l (scan_history mj pub ls)"
  by (simp add: scan_history_def)

lemma max_seq_update:
  "(if wSeq w > scMaxSeq s then s\<lparr>scMaxSeq := wSeq w\<rparr> else s) = s\<lparr>scMaxSeq := max (scMaxSeq s) (wSeq w)\<rparr>"
  by (simp add: max_def)

lemma scan_update [simp]:
  "expectPrev (s\<lparr>scMaxSeq := x\<rparr>) = expectPrev s" "scan_tip (s\<lparr>scMaxSeq := x\<rparr>) = scan_tip s"
  by (simp_all add: expectPrev_def scan_tip_def)

lemma scan_notice:
  assumes "is_notice m"
  shows "scan_line mj (JsonLine m) s = s\<lparr>scMaxSeq := max (scMaxSeq s) (wSeq m)\<rparr>"
  using assms by (simp add: scan_line_def scan_wire_def is_notice_def Let_def max_def)

lemma linked_wire_fields [simp]:
  "wType (linked_wire w c) = wType w" "wTime (linked_wire w c) = wTime w"
  "wDisplayName (linked_wire w c) = wDisplayName w" "wText (linked_wire w c) = wText w"
  "wTmpID (linked_wire w c) = wTmpID w" "wReplyTo (linked_wire w c) = wReplyTo w"
  "wTrip (linked_wire w c) = wTrip w" "wSeq (linked_wire w c) = csSeq c + 1"
  "wChainPrev (linked_wire w c) = hex_encode (csTip c)"
  "wChainHeight (linked_wire w c) = csHeight c + 1" "wChainVer (linked_wire w c) = 2"
  "TripSigOf (linked_wire w c) = TripSigOf w"
  by (simp_all add: linked_wire_def chainVersion_def TripSigOf_def)

definition link_hash :: "WireMessage \<Rightarrow> ChainService \<Rightarrow> bytes" where
  "link_hash w c = Hash (csTip c) (csHeight c + 1) (wTmpID w) (wReplyTo w) (wType w)
     (wTime w) (wDisplayName w) (wText w) (TripSigOf w)"

lemma link_hash_length [simp]: "length (link_hash w c) = 32"
  by (simp add: link_hash_def)

lemma linked_wire_hash [simp]: "wChainHash (linked_wire w c) = hex_encode (link_hash w c)"
  by (simp add: linked_wire_def link_hash_def)

lemma hex_encode_empty_iff [simp]: "hex_encode b = [] \<longleftrightarrow> b = []"
  by (cases b) auto

lemma linked_wire_verifies: "VerifyWire (csTip c) (linked_wire w c) (link_hash w c)"
  by (simp add: VerifyWire_def VerifyLink_def link_hash_def)

lemma scan_linked:
  assumes "expectPrev s = csTip c" "scHeight s = csHeight c" "length (csTip c) = 32"
  shows "scan_line mj (JsonLine (linked_wire w c)) s =
    s\<lparr>scMaxSeq := max (scMaxSeq s) (csSeq c + 1), scAnchored := False,
      scTip := link_hash w c, scHeight := csHeight c + 1\<rparr>"
proof -
  have "link_hash w c \<noteq> []" using link_hash_length [of w c] by fastforce
  then show ?thesis
    using assms linked_wire_verifies [of c w]
    by (simp add: scan_line_def scan_wire_def max_seq_update Let_def)
qed

definition in_step :: "marshaller \<Rightarrow> string \<Rightarrow> ChainService \<Rightarrow> bool" where
  "in_step mj pub c \<longleftrightarrow> csReady c \<and> length (csTip c) = 32 \<and>
     (let s = scan_history mj pub (csHistory c)
      in \<not> scBroken s \<and> scan_tip s = csTip c \<and> expectPrev s = csTip c \<and> scHeight s = csHeight c)"

lemma scan_tip_length: "length (scTip (scan_history mj pub ls)) = 32"
proof (induction ls rule: rev_induct)
  case Nil
  then show ?case by (simp add: scan_history_def scan_start_def)
next
  case (snoc l ls)
  then show ?case
    by (auto simp: scan_line_def scan_wire_def Let_def split: option.splits dest: ParseHex64_length)
qed

lemma in_step_init:
  assumes "\<not> scBroken (scan_history mj pub (csHistory c))"
    and "scAnchored (scan_history mj pub (csHistory c)) \<Longrightarrow> scHeight (scan_history mj pub (csHistory c)) = 0"
  shows "in_step mj pub (initChainLocked mj pub c)"
  using assms by (auto simp: in_step_def initChainLocked_def Let_def scan_tip_def expectPrev_def scan_tip_length)

lemma in_step_append:
  assumes "in_step mj pub c" "event_ok e"
    and h: "csHistory (chain_step mj mx pub e c) = csHistory c @ [event_line mj pub e c]"
  shows "in_step mj pub (chain_step mj mx pub e c)"
proof (cases e)
  case (Link w now)
  have r: "ensure_ready mj pub c = c" using assms(1) by (simp add: in_step_def)
  let ?s = "scan_history mj pub (csHistory c)"
  have "scan_line mj (JsonLine (linked_wire w c)) ?s =
    ?s\<lparr>scMaxSeq := max (scMaxSeq ?s) (csSeq c + 1), scAnchored := False,
      scTip := link_hash w c, scHeight := csHeight c + 1\<rparr>"
    using assms(1) by (intro scan_linked) (simp_all add: in_step_def Let_def)
  then show ?thesis
    using assms(1) h unfolding in_step_def
    by (simp add: Link r Let_def scan_tip_def expectPrev_def linkAndStore_eq link_hash_def)
next
  case (Notice m now)
  then have "is_notice (m\<lparr>wSeq := csSeq c + 1\<rparr>)" using assms(2) by (simp add: is_notice_def)
  then show ?thesis
    using assms(1) h unfolding in_step_def
    by (simp add: Notice Let_def storeSystem_eq scan_notice)
qed

interpretation live_log: machine "chain_step mj mx pub"
  "\<lambda>c e. event_ok e \<and> csHistory (chain_step mj mx pub e c) = csHistory c @ [event_line mj pub e c]"
  "in_step mj pub" for mj mx pub
  by unfold_locales (auto intro: in_step_append)

lemma no_eviction_admissible:
  assumes "list_all event_ok es"
    and "length (csHistory (fold (chain_step mj mx pub) es c)) = length (csHistory c) + length es"
  shows "live_log.admissible mj mx pub c es"
  using assms
proof (induction es arbitrary: c)
  case (Cons e es)
  let ?c = "chain_step mj mx pub e c"
  have le: "length (csHistory (fold (chain_step mj mx pub) es ?c)) \<le> length (csHistory ?c) + length es"
    by (rule run_history_length)
  show ?case
  proof (rule step_history_cases [of mj mx pub e c])
    assume a: "csHistory ?c = csHistory c @ [event_line mj pub e c]"
    with Cons.prems have "live_log.admissible mj mx pub ?c es"
      by (intro Cons.IH) simp_all
    with a Cons.prems(1) show ?thesis by simp
  next
    assume "length (csHistory ?c) \<le> length (csHistory c)"
    with le Cons.prems(2) show ?thesis by simp
  qed
qed simp

lemma init_reboot_in_step:
  assumes "in_step mj pub c"
  shows "csTip (initChainLocked mj pub (reboot c)) = csTip c"
    and "csHeight (initChainLocked mj pub (reboot c)) = csHeight c"
    and "\<not> scBroken (scan_history mj pub (csHistory c))"
  using assms by (simp_all add: in_step_def initChainLocked_def reboot_def Let_def)

end
