(* ===== verification/Chain_Integrity.thy ===== *)
theory Chain_Integrity
  imports Chain_Service
begin

text \<open>
  What the log guarantees. \<open>chain_end\<close> is the abstract contract of a verified log
  (every record continues the one before it); the boot scan implements it. From the
  binding of one link follows tamper evidence for whole logs. The properties at the
  end cover resuming after a restart, with and without eviction, and the order of
  history cursors.
\<close>

subsection \<open>The contract of a verified log\<close>

fun chained :: "stored_line list \<Rightarrow> WireMessage list" where
  "chained [] = []"
| "chained (JsonLine w # ls) = (if wChainHash w = [] then chained ls else w # chained ls)"
| "chained (RawLine s # ls) = chained ls"

definition modern_line :: "stored_line \<Rightarrow> bool" where
  "modern_line l \<longleftrightarrow> (case unmarshal l of None \<Rightarrow> False
     | Some w \<Rightarrow> wChainHash w \<noteq> [] \<or> wType w = ''system'')"

definition no_legacy :: "stored_line list \<Rightarrow> bool" where
  "no_legacy ls \<longleftrightarrow> list_all modern_line ls"

fun chain_end :: "bytes \<times> u64 \<Rightarrow> WireMessage list \<Rightarrow> (bytes \<times> u64) option" where
  "chain_end th [] = Some th"
| "chain_end (t, h) (w # ws) =
     (case (ParseHex64 (wChainPrev w), ParseHex64 (wChainHash w)) of
        (Some prev, Some want) \<Rightarrow>
          (if prev = t \<and> wChainHeight w = h + 1 \<and> VerifyWire prev w want
           then chain_end (want, h + 1) ws else None)
      | _ \<Rightarrow> None)"

lemma chained_append [simp]: "chained (xs @ ys) = chained xs @ chained ys"
  by (induction xs rule: chained.induct) auto

lemma chained_drop: "\<exists>j. chained (drop k ls) = drop j (chained ls)"
proof -
  have "chained ls = chained (take k ls) @ chained (drop k ls)"
    by (metis append_take_drop_id chained_append)
  then show ?thesis by (metis append_eq_conv_conj)
qed

lemma scan_line_broken: "scBroken s \<Longrightarrow> scBroken (scan_line mj l s)"
  by (auto simp: scan_line_def scan_wire_def Let_def split: option.splits)

lemma fold_broken: "scBroken s \<Longrightarrow> scBroken (fold (scan_line mj) ls s)"
  by (induction ls arbitrary: s) (auto intro: scan_line_broken)

lemma scan_modern_line:
  assumes "modern_line l" "\<not> scAnchored s"
  shows "\<not> scAnchored (scan_line mj l s)"
  using assms
  by (auto simp: modern_line_def scan_line_def scan_wire_def Let_def split: option.splits)

lemma scan_modern:
  "no_legacy ls \<Longrightarrow> \<not> scAnchored (scan_history mj pub ls)"
proof (induction ls rule: rev_induct)
  case Nil
  then show ?case by (simp add: scan_history_def scan_start_def)
next
  case (snoc l ls)
  then show ?case by (simp add: no_legacy_def scan_modern_line)
qed

text \<open>One chained line, seen from an unbroken scan.\<close>

lemma scan_chained_line:
  assumes "wChainHash w \<noteq> []" "\<not> scAnchored s" "\<not> scBroken s"
  shows "chain_end (scTip s, scHeight s) [w] =
     (if scBroken (scan_line mj (JsonLine w) s) then None
      else Some (scTip (scan_line mj (JsonLine w) s), scHeight (scan_line mj (JsonLine w) s)))"
  using assms
  by (auto simp: scan_line_def scan_wire_def Let_def expectPrev_def split: option.splits)

lemma chain_end_Cons:
  "chain_end th (w # ws) = (case chain_end th [w] of None \<Rightarrow> None | Some th' \<Rightarrow> chain_end th' ws)"
  by (cases th) (auto split: option.splits)

lemma scan_implements_chain_end:
  assumes "no_legacy ls" "\<not> scAnchored s" "\<not> scBroken s"
  shows "chain_end (scTip s, scHeight s) (chained ls) =
     (if scBroken (fold (scan_line mj) ls s) then None
      else Some (scTip (fold (scan_line mj) ls s), scHeight (fold (scan_line mj) ls s)))"
  using assms
proof (induction ls arbitrary: s)
  case Nil
  then show ?case by simp
next
  case (Cons l ls)
  then obtain w where l: "l = JsonLine w" and modern: "modern_line l" "no_legacy ls"
    by (cases l) (auto simp: no_legacy_def modern_line_def)
  let ?s = "scan_line mj l s"
  have na: "\<not> scAnchored ?s" by (rule scan_modern_line [OF modern(1) Cons.prems(2)])
  show ?case
  proof (cases "wChainHash w = []")
    case True
    then have n: "is_notice w" using modern(1) by (simp add: l modern_line_def is_notice_def)
    then have "scTip ?s = scTip s" "scHeight ?s = scHeight s" "\<not> scBroken ?s"
      using Cons.prems(3) by (simp_all add: l scan_notice)
    with Cons.IH [OF modern(2) na] True show ?thesis by (simp add: l)
  next
    case False
    show ?thesis
    proof (cases "scBroken ?s")
      case True
      then have "chain_end (scTip s, scHeight s) [w] = None"
        using scan_chained_line [OF False Cons.prems(2,3), of mj] by (simp add: l)
      with True False fold_broken [OF True, of mj ls] show ?thesis
        by (simp add: l chain_end_Cons [of _ w "chained ls"] del: chain_end.simps)
    next
      case nb: False
      then have "chain_end (scTip s, scHeight s) [w] = Some (scTip ?s, scHeight ?s)"
        using scan_chained_line [OF False Cons.prems(2,3), of mj] by (simp add: l)
      with Cons.IH [OF modern(2) na nb] False show ?thesis
        by (simp add: l chain_end_Cons [of _ w "chained ls"] del: chain_end.simps)
    qed
  qed
qed

subsection \<open>The contract of a stored history, pre-chain lines included\<close>

text \<open>
  A history that began before the chain also holds lines without a link. Read declaratively: the line that counts before a chained one
  is the nearest that is not an unchained notice; the chained line has to name its hash, or its anchor if it is a
  pre-chain line, or the genesis seed if there is none, and its height is one more than the number of chained
  lines before it.
\<close>

definition line_notice :: "stored_line \<Rightarrow> bool" where
  "line_notice l \<longleftrightarrow> (case unmarshal l of None \<Rightarrow> False | Some w \<Rightarrow> is_notice w)"

definition line_hash :: "marshaller \<Rightarrow> stored_line \<Rightarrow> bytes" where
  "line_hash mj l =
     (case unmarshal l of
        None \<Rightarrow> LegacyAnchor (line_text mj l)
      | Some w \<Rightarrow> if wChainHash w = [] then LegacyAnchor (line_text mj l) else the (ParseHex64 (wChainHash w)))"

definition due_prev :: "marshaller \<Rightarrow> string \<Rightarrow> stored_line list \<Rightarrow> bytes" where
  "due_prev mj pub ls =
     (case rev (filter (\<lambda>l. \<not> line_notice l) ls) of [] \<Rightarrow> Genesis pub | l # _ \<Rightarrow> line_hash mj l)"

definition line_continues :: "marshaller \<Rightarrow> string \<Rightarrow> stored_line list \<Rightarrow> stored_line \<Rightarrow> bool" where
  "line_continues mj pub ls l \<longleftrightarrow>
     (case unmarshal l of
        None \<Rightarrow> True
      | Some w \<Rightarrow> wChainHash w = [] \<or>
          (case (ParseHex64 (wChainPrev w), ParseHex64 (wChainHash w)) of
             (Some prev, Some want) \<Rightarrow>
               prev = due_prev mj pub ls \<and> wChainHeight w = of_nat (Suc (length (chained ls))) \<and> VerifyWire prev w want
           | _ \<Rightarrow> False))"

definition intact :: "marshaller \<Rightarrow> string \<Rightarrow> stored_line list \<Rightarrow> bool" where
  "intact mj pub ls \<longleftrightarrow> (\<forall>i < length ls. line_continues mj pub (take i ls) (ls ! i))"

definition stored_end :: "marshaller \<Rightarrow> string \<Rightarrow> stored_line list \<Rightarrow> bytes \<times> u64" where
  "stored_end mj pub ls =
     (case rev (chained ls) of [] \<Rightarrow> due_prev mj pub ls | w # _ \<Rightarrow> the (ParseHex64 (wChainHash w)), of_nat (length (chained ls)))"

lemma intact_snoc: "intact mj pub (ls @ [l]) \<longleftrightarrow> intact mj pub ls \<and> line_continues mj pub ls l"
  by (auto simp: intact_def nth_append less_Suc_eq)

lemma due_prev_snoc: "due_prev mj pub (ls @ [l]) = (if line_notice l then due_prev mj pub ls else line_hash mj l)"
  by (simp add: due_prev_def)

definition scan_agrees :: "marshaller \<Rightarrow> string \<Rightarrow> stored_line list \<Rightarrow> scan \<Rightarrow> bool" where
  "scan_agrees mj pub ls s \<longleftrightarrow> expectPrev s = due_prev mj pub ls \<and> scHeight s = of_nat (length (chained ls)) \<and>
     (chained ls \<noteq> [] \<longrightarrow> ParseHex64 (wChainHash (last (chained ls))) = Some (scTip s) \<and>
        ParseHex64 (wChainPrev (last (chained ls))) \<noteq> None \<and> wChainHeight (last (chained ls)) = scHeight s)"

lemma scan_line_agrees:
  assumes "\<not> scBroken s" "scan_agrees mj pub ls s"
  shows "scBroken (scan_line mj l s) \<longleftrightarrow> \<not> line_continues mj pub ls l"
    and "\<not> scBroken (scan_line mj l s) \<Longrightarrow> scan_agrees mj pub (ls @ [l]) (scan_line mj l s)"
proof -
  have "(scBroken (scan_line mj l s) \<longleftrightarrow> \<not> line_continues mj pub ls l) \<and>
      (\<not> scBroken (scan_line mj l s) \<longrightarrow> scan_agrees mj pub (ls @ [l]) (scan_line mj l s))"
  proof (cases l)
    case (RawLine r)
    then show ?thesis using assms
      by (simp add: scan_line_def line_continues_def scan_agrees_def due_prev_snoc line_notice_def line_hash_def expectPrev_def)
  next
    case (JsonLine w)
    have mx: "expectPrev (s\<lparr>scMaxSeq := q\<rparr>) = expectPrev s" for q by (simp add: expectPrev_def)
    have e: "expectPrev s = due_prev mj pub ls" "scHeight s = of_nat (length (chained ls))"
      using assms by (simp_all add: scan_agrees_def)
    show ?thesis
    proof (cases "wChainHash w = []")
      case True
      then show ?thesis using assms e
        by (auto simp: JsonLine scan_line_def scan_wire_def line_continues_def scan_agrees_def due_prev_snoc line_notice_def line_hash_def
            is_notice_def expectPrev_def Let_def)
    next
      case False
      then have "\<not> line_notice l" by (simp add: JsonLine line_notice_def is_notice_def)
      moreover have "expectPrev (r\<lparr>scAnchored := False, scBroken := b, scTip := t, scHeight := h\<rparr>) = t" for r b t h
        by (simp add: expectPrev_def)
      ultimately show ?thesis using False e assms(1)
        by (auto simp: JsonLine scan_line_def scan_wire_def line_continues_def scan_agrees_def due_prev_snoc line_hash_def mx
            Let_def add.commute split: option.splits)
    qed
  qed
  then show "scBroken (scan_line mj l s) \<longleftrightarrow> \<not> line_continues mj pub ls l"
    and "\<not> scBroken (scan_line mj l s) \<Longrightarrow> scan_agrees mj pub (ls @ [l]) (scan_line mj l s)" by blast+
qed

lemma scan_history_agrees:
  "(scBroken (scan_history mj pub ls) \<longleftrightarrow> \<not> intact mj pub ls) \<and>
     (\<not> scBroken (scan_history mj pub ls) \<longrightarrow> scan_agrees mj pub ls (scan_history mj pub ls))"
proof (induction ls rule: rev_induct)
  case Nil
  then show ?case by (simp add: scan_history_def scan_start_def intact_def scan_agrees_def expectPrev_def due_prev_def)
next
  case (snoc l ls)
  have h: "scan_history mj pub (ls @ [l]) = scan_line mj l (scan_history mj pub ls)" by (simp add: scan_history_def)
  show ?case
  proof (cases "scBroken (scan_history mj pub ls)")
    case True
    then show ?thesis using snoc scan_line_broken by (auto simp: h intact_snoc)
  next
    case False
    then show ?thesis using snoc scan_line_agrees [of "scan_history mj pub ls" mj pub ls l] by (auto simp: h intact_snoc)
  qed
qed

lemma scan_end:
  assumes "\<not> scBroken (scan_history mj pub ls)" "length (chained ls) < 2 ^ 64"
  shows "(scan_tip (scan_history mj pub ls), scHeight (scan_history mj pub ls)) = stored_end mj pub ls"
proof -
  let ?s = "scan_history mj pub ls"
  have a: "scan_agrees mj pub ls ?s" using scan_history_agrees assms(1) by blast
  show ?thesis
  proof (cases "chained ls" rule: rev_cases)
    case Nil
    have "scan_tip ?s = expectPrev ?s" using a Nil by (auto simp: scan_agrees_def scan_tip_def expectPrev_def)
    then show ?thesis using a Nil by (simp add: scan_agrees_def stored_end_def)
  next
    case (snoc ws w)
    have "unat (scHeight ?s) = length (chained ls)" using a assms(2) by (simp add: scan_agrees_def unat_of_nat_u64)
    then have "scHeight ?s \<noteq> 0" using snoc by auto
    then show ?thesis using a snoc by (auto simp: scan_agrees_def stored_end_def scan_tip_def)
  qed
qed

subsection \<open>Binding of the log\<close>

type_synonym core = "u64 \<times> u64 \<times> u64 \<times> string \<times> string \<times> string \<times> string \<times> string"

definition core_of :: "WireMessage \<Rightarrow> core" where
  "core_of w = (wChainHeight w, wTmpID w, wReplyTo w, wType w, wTime w, wDisplayName w, wText w, TripSigOf w)"

fun core_stream :: "bytes \<Rightarrow> core \<Rightarrow> bytes" where
  "core_stream p (h, t, r, a, b, c, d, e) = link_stream p h t r a b c d e"

definition core_link :: "bytes \<Rightarrow> core \<Rightarrow> bytes" where
  "core_link p m = sha256 (core_stream p m)"

definition core_collide :: "bytes \<Rightarrow> core \<Rightarrow> bytes \<Rightarrow> core \<Rightarrow> bool" where
  "core_collide p m q n \<longleftrightarrow> core_stream p m \<noteq> core_stream q n \<and> sha256 (core_stream p m) = sha256 (core_stream q n)"

lemma core_stream_inj: "core_stream p m = core_stream q n \<longleftrightarrow> p = q \<and> m = n"
  by (cases m; cases n) (auto simp: link_stream_inj)

interpretation global_log: hash_chain core_link core_collide "\<lambda>_ _. True"
  by unfold_locales (auto simp: core_link_def core_collide_def core_stream_inj)

lemma all_ok_True [simp]: "global_log.all_ok p ms"
  by (induction ms arbitrary: p) auto

definition v2 :: "WireMessage list \<Rightarrow> bool" where
  "v2 ws \<longleftrightarrow> list_all (\<lambda>w. wChainVer w \<ge> 2) ws"

lemma verify_core:
  "wChainVer w \<ge> 2 \<Longrightarrow> VerifyWire p w want \<longleftrightarrow> core_link p (core_of w) = want"
  by (simp add: VerifyWire_def VerifyLink_def Hash_def core_link_def core_of_def)

lemma chain_end_v2:
  assumes "chain_end (t, h) ws = Some (t', h')" "v2 ws"
  shows "t' = global_log.tip_of t (map core_of ws) \<and> h' = h + of_nat (length ws) \<and>
    (\<forall>i < length ws. ParseHex64 (wChainPrev (ws ! i)) = Some (global_log.tip_of t (take i (map core_of ws))))"
  using assms
proof (induction ws arbitrary: t h)
  case Nil
  then show ?case by (simp add: global_log.tip_of_def)
next
  case (Cons w ws)
  from Cons.prems have *: "ParseHex64 (wChainPrev w) = Some t"
    "chain_end (core_link t (core_of w), h + 1) ws = Some (t', h')" "v2 ws"
    by (auto simp: v2_def verify_core split: option.splits if_splits)
  from Cons.IH [OF *(2,3)] *(1) show ?case
    by (auto simp: global_log.tip_of_def less_Suc_eq_0_disj)
qed

text \<open>The bytes whose digest a chained record claims.\<close>

definition wire_stream :: "WireMessage \<Rightarrow> bytes" where
  "wire_stream w = core_stream (the (ParseHex64 (wChainPrev w))) (core_of w)"

lemma same_end_same_log:
  assumes "chain_end (g, h0) ws = Some (t, h)" "chain_end (g, h0) vs = Some (t, h)" "v2 ws" "v2 vs"
    and "length ws < 2 ^ 64" "length vs < 2 ^ 64"
  shows "map core_of ws = map core_of vs \<or>
    (\<exists>i < length ws. i < length vs \<and> wire_stream (ws ! i) \<noteq> wire_stream (vs ! i) \<and>
       sha256 (wire_stream (ws ! i)) = sha256 (wire_stream (vs ! i)))"
proof -
  note e1 = chain_end_v2 [OF assms(1,3)] and e2 = chain_end_v2 [OF assms(2,4)]
  have "(of_nat (length ws) :: u64) = of_nat (length vs)" using e1 e2 by simp
  then have "unat (of_nat (length ws) :: u64) = unat (of_nat (length vs) :: u64)" by simp
  then have len: "length ws = length vs"
    using assms(5,6) by (simp add: unat_of_nat_u64)
  have "global_log.tip_of g (map core_of ws) = global_log.tip_of g (map core_of vs)"
    using e1 e2 by simp
  with global_log.same_tip_same_log [of "map core_of ws" "map core_of vs" g g] len
  consider "map core_of ws = map core_of vs"
    | i where "i < length ws" "core_collide (global_log.tip_of g (take i (map core_of ws))) (core_of (ws ! i))
        (global_log.tip_of g (take i (map core_of vs))) (core_of (vs ! i))"
    by auto
  then show ?thesis
  proof cases
    case 2
    then have "wire_stream (ws ! i) \<noteq> wire_stream (vs ! i) \<and> sha256 (wire_stream (ws ! i)) = sha256 (wire_stream (vs ! i))"
      using e1 e2 len by (simp add: wire_stream_def core_collide_def)
    with 2 len show ?thesis by auto
  qed simp
qed

subsection \<open>The retained tip\<close>

definition last_link_ok :: "ChainService \<Rightarrow> bool" where
  "last_link_ok c \<longleftrightarrow> (chained (csHistory c) = [] \<or>
     (let w = last (chained (csHistory c)) in
        ParseHex64 (wChainHash w) = Some (csTip c) \<and> wChainHeight w = csHeight c \<and>
        ParseHex64 (wChainPrev w) \<noteq> None))"

definition retained :: "ChainService \<Rightarrow> bool" where
  "retained c \<longleftrightarrow> csReady c \<and> no_legacy (csHistory c) \<and> length (csTip c) = 32 \<and> last_link_ok c"

lemma no_legacy_drop: "no_legacy ls \<Longrightarrow> no_legacy (drop k ls)"
  by (auto simp: no_legacy_def list_all_iff dest: in_set_dropD)

lemma last_link_ok_evict:
  assumes "chained (drop k ls) = [] \<or> P (last (chained ls))"
  shows "chained (drop k ls) = [] \<or> P (last (chained (drop k ls)))"
proof -
  obtain j where j: "chained (drop k ls) = drop j (chained ls)" using chained_drop by blast
  then have "chained (drop k ls) \<noteq> [] \<Longrightarrow> last (chained (drop k ls)) = last (chained ls)"
    by (simp add: last_drop)
  with assms show ?thesis by metis
qed

lemma step_tip [simp]:
  "csReady c \<Longrightarrow> csTip (chain_step mj mx pub (Link w now) c) = link_hash w c"
  "csReady c \<Longrightarrow> csHeight (chain_step mj mx pub (Link w now) c) = csHeight c + 1"
  "csTip (chain_step mj mx pub (Notice m now) c) = csTip c"
  "csHeight (chain_step mj mx pub (Notice m now) c) = csHeight c"
  by (simp_all add: linkAndStore_eq storeSystem_eq Let_def link_hash_def)

lemma step_ready: "csReady c \<Longrightarrow> csReady (chain_step mj mx pub e c)"
  by (cases e) (simp_all add: linkAndStore_eq storeSystem_eq Let_def)

lemma event_line_modern:
  "event_ok e \<Longrightarrow> modern_line (event_line mj pub e c)"
  by (cases e) (auto simp: modern_line_def is_notice_def
      dest: arg_cong [where f = length])

lemma link_hash_nonempty [simp]: "link_hash w c \<noteq> []"
  using link_hash_length [of w c] by fastforce

lemma step_retained:
  assumes "retained c" "event_ok e"
  shows "retained (chain_step mj mx pub e c)"
proof -
  let ?c = "chain_step mj mx pub e c" and ?l = "event_line mj pub e c"
  obtain k where h: "csHistory ?c = drop k (csHistory c @ [?l])" using step_history_suffix by blast
  have ready: "csReady c" and r: "ensure_ready mj pub c = c" using assms(1) by (simp_all add: retained_def)
  have "no_legacy (csHistory c @ [?l])"
    using assms event_line_modern by (simp add: retained_def no_legacy_def)
  then have nl: "no_legacy (csHistory ?c)" unfolding h by (rule no_legacy_drop)
  let ?P = "\<lambda>w. ParseHex64 (wChainHash w) = Some (csTip ?c) \<and> wChainHeight w = csHeight ?c \<and>
        ParseHex64 (wChainPrev w) \<noteq> None"
  have len: "length (csTip ?c) = 32"
    using assms(1) ready by (cases e) (simp_all add: retained_def del: chain_step.simps)
  have "chained (csHistory c @ [?l]) = [] \<or> ?P (last (chained (csHistory c @ [?l])))"
  proof (cases e)
    case (Link w now)
    then show ?thesis using assms(1) ready r
      by (simp add: retained_def del: chain_step.simps)
  next
    case (Notice m now)
    then have "chained [?l] = []" using assms(2) by (simp add: is_notice_def)
    moreover have "csTip ?c = csTip c" "csHeight ?c = csHeight c" by (simp_all add: Notice del: chain_step.simps)
    ultimately show ?thesis using assms(1) by (simp add: retained_def last_link_ok_def Let_def)
  qed
  then have "chained (drop k (csHistory c @ [?l])) = [] \<or> ?P (last (chained (csHistory c @ [?l])))"
    using chained_drop [of k "csHistory c @ [?l]"] by fastforce
  then have "chained (csHistory ?c) = [] \<or> ?P (last (chained (csHistory ?c)))"
    unfolding h by (rule last_link_ok_evict)
  with nl len step_ready [OF ready] show ?thesis by (auto simp: retained_def last_link_ok_def Let_def)
qed

interpretation tip_kept: machine "chain_step mj mx pub" "\<lambda>_. event_ok" retained for mj mx pub
  by unfold_locales (rule step_retained)

text \<open>A boot scan ends in the last chained line, whatever was evicted before it.\<close>

lemma scan_last_chained:
  assumes "no_legacy ls" "chained ls \<noteq> []"
    and "ParseHex64 (wChainHash (last (chained ls))) = Some want"
    and "ParseHex64 (wChainPrev (last (chained ls))) \<noteq> None"
  shows "scTip (scan_history mj pub ls) = want
    \<and> scHeight (scan_history mj pub ls) = wChainHeight (last (chained ls))"
  using assms
proof (induction ls rule: rev_induct)
  case (snoc l ls)
  then obtain w where l: "l = JsonLine w" and m: "modern_line l" "no_legacy ls"
    by (cases l) (auto simp: no_legacy_def modern_line_def)
  show ?case
  proof (cases "wChainHash w = []")
    case True
    then have "is_notice w" using m(1) by (simp add: l modern_line_def is_notice_def)
    with snoc.IH [OF m(2)] snoc.prems True show ?thesis by (simp add: l scan_notice)
  next
    case False
    with snoc.prems show ?thesis
      by (auto simp: l scan_line_def scan_wire_def Let_def)
  qed
qed simp

lemma init_reboot_retained:
  assumes "retained c"
  shows "chained (csHistory c) \<noteq> [] \<Longrightarrow> csTip (initChainLocked mj pub (reboot c)) = csTip c
           \<and> csHeight (initChainLocked mj pub (reboot c)) = csHeight c"
    and "chained (csHistory c) = [] \<Longrightarrow> csTip (initChainLocked mj pub (reboot c)) = Genesis pub
           \<and> csHeight (initChainLocked mj pub (reboot c)) = 0"
proof -
  have nl: "no_legacy (csHistory c)" using assms by (simp add: retained_def)
  then have na: "\<not> scAnchored (scan_history mj pub (csHistory c))" by (rule scan_modern)
  have i: "csTip (initChainLocked mj pub (reboot c)) = scTip (scan_history mj pub (csHistory c))
     \<and> csHeight (initChainLocked mj pub (reboot c)) = scHeight (scan_history mj pub (csHistory c))"
    using na by (simp add: initChainLocked_def reboot_def Let_def scan_tip_def)
  show "csTip (initChainLocked mj pub (reboot c)) = csTip c
           \<and> csHeight (initChainLocked mj pub (reboot c)) = csHeight c" if "chained (csHistory c) \<noteq> []"
    using assms that i scan_last_chained [OF nl that, of "csTip c" mj pub]
    by (auto simp: retained_def last_link_ok_def Let_def)
  show "csTip (initChainLocked mj pub (reboot c)) = Genesis pub
           \<and> csHeight (initChainLocked mj pub (reboot c)) = 0" if "chained (csHistory c) = []"
  proof -
    have s: "\<not> scAnchored (scan_start pub)" "\<not> scBroken (scan_start pub)"
      by (simp_all add: scan_start_def)
    from scan_implements_chain_end [OF nl s, of mj] that have
      "scTip (scan_history mj pub (csHistory c)) = Genesis pub \<and> scHeight (scan_history mj pub (csHistory c)) = 0"
      by (auto simp: scan_history_def scan_start_def split: if_splits)
    with i show ?thesis by simp
  qed
qed

subsection \<open>History cursors\<close>

definition line_seq :: "stored_line \<Rightarrow> u64" where
  "line_seq l = (case unmarshal l of Some w \<Rightarrow> wSeq w | None \<Rightarrow> 0)"

definition seqs_ok :: "ChainService \<Rightarrow> bool" where
  "seqs_ok c \<longleftrightarrow> sorted_wrt (<) (map line_seq (csHistory c)) \<and> (\<forall>l \<in> set (csHistory c). line_seq l \<le> csSeq c)"

lemma scMaxSeq_le:
  assumes "\<forall>l \<in> set ls. line_seq l \<le> b"
  shows "scMaxSeq (scan_history mj pub ls) \<le> b"
  using assms
proof (induction ls rule: rev_induct)
  case Nil
  then show ?case by (simp add: scan_history_def scan_start_def)
next
  case (snoc l ls)
  then show ?case
    by (auto simp: scan_line_def scan_wire_def Let_def line_seq_def split: option.splits)
qed

lemma ensure_ready_seq: "seqs_ok c \<Longrightarrow> csSeq (ensure_ready mj pub c) = csSeq c"
  using scMaxSeq_le [of "csHistory c" "csSeq c" mj pub]
  by (auto simp: seqs_ok_def ensure_ready_def initChainLocked_def Let_def)

lemma step_seq: "seqs_ok c \<Longrightarrow> csSeq (chain_step mj mx pub e c) = csSeq c + 1"
  by (cases e) (simp_all add: linkAndStore_eq storeSystem_eq Let_def ensure_ready_seq)

lemma event_line_seq: "seqs_ok c \<Longrightarrow> line_seq (event_line mj pub e c) = csSeq c + 1"
  by (cases e) (simp_all add: line_seq_def ensure_ready_seq)

lemma sorted_wrt_drop: "sorted_wrt P xs \<Longrightarrow> sorted_wrt P (drop k xs)"
  by (metis append_take_drop_id sorted_wrt_append)

lemma step_seqs_ok:
  assumes "seqs_ok c" "csSeq c < csSeq c + 1"
  shows "seqs_ok (chain_step mj mx pub e c)"
proof -
  let ?l = "event_line mj pub e c"
  obtain k where h: "csHistory (chain_step mj mx pub e c) = drop k (csHistory c @ [?l])"
    using step_history_suffix by blast
  have l: "line_seq ?l = csSeq c + 1" using assms(1) by (rule event_line_seq)
  have all: "\<forall>x \<in> set (csHistory c @ [?l]). line_seq x \<le> csSeq c + 1"
    using assms l by (force simp: seqs_ok_def)
  have "sorted_wrt (<) (map line_seq (csHistory c @ [?l]))"
    using assms l by (force simp: seqs_ok_def sorted_wrt_append)
  then have "sorted_wrt (<) (drop k (map line_seq (csHistory c @ [?l])))"
    by (rule sorted_wrt_drop)
  moreover have "\<forall>x \<in> set (drop k (csHistory c @ [?l])). line_seq x \<le> csSeq c + 1"
    using all in_set_dropD by metis
  ultimately show ?thesis
    using step_seq [OF assms(1)] unfolding seqs_ok_def h
    by (simp add: drop_map [symmetric] del: drop_append)
qed

interpretation cursors: machine "chain_step mj mx pub" "\<lambda>c _. csSeq c < csSeq c + 1" seqs_ok for mj mx pub
  by unfold_locales (rule step_seqs_ok)

lemma word_less_Suc: "unat (x :: u64) + 1 < 2 ^ 64 \<Longrightarrow> x < x + 1 \<and> unat (x + 1) = unat x + 1"
  by (simp add: word_less_nat_alt unat_word_ariths)

lemma cursors_admissible:
  assumes "seqs_ok c" "unat (csSeq c) + length es < 2 ^ 64"
  shows "cursors.admissible mj mx pub c es"
  using assms
proof (induction es arbitrary: c)
  case (Cons e es)
  let ?c = "chain_step mj mx pub e c"
  have lt: "csSeq c < csSeq c + 1" "unat (csSeq c + 1) = unat (csSeq c) + 1"
    using word_less_Suc [of "csSeq c"] Cons.prems(2) by simp_all
  have "seqs_ok ?c" using Cons.prems(1) lt(1) by (rule step_seqs_ok)
  moreover have "unat (csSeq ?c) + length es < 2 ^ 64"
    using Cons.prems lt step_seq [OF Cons.prems(1)] by simp
  ultimately have "cursors.admissible mj mx pub ?c es" by (rule Cons.IH)
  with lt(1) show ?case by simp
qed simp

subsection \<open>What a restart resumes\<close>

lemma scan_line_seq: "scMaxSeq (scan_line mj l s) = max (scMaxSeq s) (line_seq l)"
  by (auto simp: scan_line_def scan_wire_def line_seq_def Let_def max_def split: option.split)

lemma line_seq_le_max: "l \<in> set ls \<Longrightarrow> line_seq l \<le> scMaxSeq (scan_history mj pub ls)"
  by (induction ls rule: rev_induct) (auto simp: scan_history_def scan_line_seq max_def intro: order_trans)

text \<open>The cursor of a running server bounds the stored ones, and is the greatest of them.\<close>

definition cursor_ok :: "marshaller \<Rightarrow> string \<Rightarrow> ChainService \<Rightarrow> bool" where
  "cursor_ok mj pub c \<longleftrightarrow> csReady c \<and> (\<forall>l \<in> set (csHistory c). line_seq l \<le> csSeq c) \<and>
     (csHistory c = [] \<or> scMaxSeq (scan_history mj pub (csHistory c)) = csSeq c)"

lemma init_reboot_seq: "csSeq (initChainLocked mj pub (reboot c)) = scMaxSeq (scan_history mj pub (csHistory c))"
  by (simp add: initChainLocked_def reboot_def Let_def word_gt_0)

lemma cursor_ok_init: "cursor_ok mj pub (initChainLocked mj pub (reboot c))"
  using line_seq_le_max by (auto simp: cursor_ok_def init_reboot_seq) (simp_all add: reboot_def)

lemma cursor_ok_step:
  assumes "cursor_ok mj pub c" "csSeq c < csSeq c + 1"
  shows "cursor_ok mj pub (chain_step mj mx pub e c)" "csSeq (chain_step mj mx pub e c) = csSeq c + 1"
proof -
  let ?c = "chain_step mj mx pub e c" and ?l = "event_line mj pub e c"
  have r: "csReady c" using assms(1) by (simp add: cursor_ok_def)
  then show q: "csSeq ?c = csSeq c + 1" by (cases e) (simp_all add: linkAndStore_eq storeSystem_eq Let_def)
  have l: "line_seq ?l = csSeq c + 1" using r by (cases e) (simp_all add: line_seq_def)
  obtain k where h: "csHistory ?c = drop k (csHistory c @ [?l])" using step_history_suffix by blast
  have le: "\<forall>x \<in> set (csHistory ?c). line_seq x \<le> csSeq ?c"
    using assms l in_set_dropD unfolding h q cursor_ok_def by (fastforce dest: in_set_dropD)
  moreover have "csHistory ?c = [] \<or> scMaxSeq (scan_history mj pub (csHistory ?c)) = csSeq ?c"
  proof (cases "csHistory ?c = []")
    case False
    then have "last (csHistory ?c) = ?l" unfolding h by (simp add: last_drop del: drop_append)
    then have "?l \<in> set (csHistory ?c)" using False last_in_set by metis
    from line_seq_le_max [OF this, of mj pub] scMaxSeq_le [OF le, of mj pub] l q show ?thesis by simp
  qed simp
  ultimately show "cursor_ok mj pub ?c" using step_ready [OF r] by (simp add: cursor_ok_def)
qed

interpretation resumed: machine "chain_step mj mx pub" "\<lambda>c _. csSeq c < csSeq c + 1" "cursor_ok mj pub" for mj mx pub
  by unfold_locales (rule cursor_ok_step)

lemma resumed_admissible:
  assumes "cursor_ok mj pub c" "unat (csSeq c) + length es < 2 ^ 64"
  shows "resumed.admissible mj mx pub c es"
  using assms
proof (induction es arbitrary: c)
  case (Cons e es)
  have lt: "csSeq c < csSeq c + 1" "unat (csSeq c + 1) = unat (csSeq c) + 1"
    using word_less_Suc [of "csSeq c"] Cons.prems(2) by simp_all
  note st = cursor_ok_step [OF Cons.prems(1) lt(1), of mx e]
  have "resumed.admissible mj mx pub (chain_step mj mx pub e c) es"
    using st lt(2) Cons.prems(2) by (intro Cons.IH) simp_all
  with lt(1) show ?case by simp
qed simp

lemma retained_init:
  assumes "no_legacy (csHistory c)" "\<not> scBroken (scan_history mj pub (csHistory c))"
  shows "retained (initChainLocked mj pub (reboot c))"
proof -
  let ?s = "scan_history mj pub (csHistory c)"
  have a: "scan_agrees mj pub (csHistory c) ?s" using scan_history_agrees assms(2) by blast
  have na: "\<not> scAnchored ?s" using assms(1) by (rule scan_modern)
  have len: "length (scTip ?s) = 32"
  proof (cases "chained (csHistory c) = []")
    case True
    have s: "\<not> scAnchored (scan_start pub)" "\<not> scBroken (scan_start pub)" by (simp_all add: scan_start_def)
    from scan_implements_chain_end [OF assms(1) s, of mj] True assms(2) show ?thesis
      by (simp add: scan_history_def scan_start_def)
  next
    case False
    then show ?thesis using a by (auto simp: scan_agrees_def ParseHex64_iff)
  qed
  then show ?thesis using a assms(1) na
    by (auto simp: retained_def last_link_ok_def scan_agrees_def initChainLocked_def reboot_def scan_tip_def Let_def)
qed

subsection \<open>A small log for the witnesses\<close>

definition new_chain :: ChainService where
  "new_chain = \<lparr>csTip = [], csHeight = 0, csReady = False, csSeq = 0, csHistory = [],
     csHistorySize = 0, csStore = None\<rparr>"

definition ex_chat :: WireMessage where
  "ex_chat = zero_wire\<lparr>wType := ''chat'', wText := ''hello'', wTmpID := 1\<rparr>"

definition ex_join :: WireMessage where
  "ex_join = zero_wire\<lparr>wType := ''system'', wText := ''joined''\<rparr>"

lemmas ex_defs = new_chain_def ex_chat_def ex_join_def zero_wire_def

lemma ex_join_notice [simp]: "is_notice ex_join"
  by (simp add: is_notice_def ex_defs)

lemma ex_join_seq [simp]: "wSeq ex_join = 0"
  by (simp add: ex_defs)

lemma scan_empty [simp]: "scan_history mj pub [] = scan_start pub"
  by (simp add: scan_history_def)

lemma new_chain_init:
  "initChainLocked mj pub new_chain =
     \<lparr>csTip = Genesis pub, csHeight = 0, csReady = True, csSeq = 0, csHistory = [],
      csHistorySize = 0, csStore = None\<rparr>"
  by (simp add: initChainLocked_def new_chain_def scan_start_def scan_tip_def Let_def)

lemma retained_new: "retained (initChainLocked mj pub new_chain)"
  by (simp add: new_chain_init retained_def no_legacy_def last_link_ok_def)

text \<open>A chat and a join, with and without room for both.\<close>

lemma ex_run:
  "csHistory (fold (chain_step wText mx pub) [Link ex_chat t, Notice ex_join u]
     (initChainLocked wText pub new_chain)) =
   (if mx \<ge> 11 then [JsonLine (linked_wire ex_chat (initChainLocked wText pub new_chain)),
                      JsonLine (ex_join\<lparr>wSeq := 2\<rparr>)]
    else if mx \<ge> 6 then [JsonLine (ex_join\<lparr>wSeq := 2\<rparr>)] else [])"
  by (simp add: linkAndStore_eq storeSystem_eq appendMessageLocked_def EnqueueWire_def Let_def
      new_chain_init ex_chat_def ex_join_def zero_wire_def)

subsection \<open>Properties\<close>

text \<open>
  C1. Two link hashes agree exactly when every hashed field agrees, or when the two
  byte streams differ and are a SHA-256 collision: renumbering a message, swapping its
  quote target or changing any byte of its type, time, name, text or signature
  changes the link.
\<close>

theorem link_binds_every_field:
  "Hash p h t r a b c d e = Hash p' h' t' r' a' b' c' d' e' \<longleftrightarrow>
     (p, h, t, r, a, b, c, d, e) = (p', h', t', r', a', b', c', d', e') \<or>
     (sha256 (link_stream p h t r a b c d e) = sha256 (link_stream p' h' t' r' a' b' c' d' e') \<and>
      link_stream p h t r a b c d e \<noteq> link_stream p' h' t' r' a' b' c' d' e')"
  by (auto simp: Hash_def link_stream_inj)

text \<open>
  C8. Tamper evidence for the whole log: two stored histories that both load without a
  break and end in the same tip at the same height hold the same chained messages in
  the same order, or two of their records at one position exhibit a SHA-256 collision.
\<close>

theorem equal_tips_equal_logs:
  assumes "no_legacy H1" "v2 (chained H1)" "length (chained H1) < 2 ^ 64"
    and "no_legacy H2" "v2 (chained H2)" "length (chained H2) < 2 ^ 64"
    and "\<not> scBroken (scan_history mj pub H1)" "\<not> scBroken (scan_history mj pub H2)"
    and "scTip (scan_history mj pub H1) = scTip (scan_history mj pub H2)"
    and "scHeight (scan_history mj pub H1) = scHeight (scan_history mj pub H2)"
  shows "map core_of (chained H1) = map core_of (chained H2) \<or>
    (\<exists>i. i < length (chained H1) \<and> i < length (chained H2) \<and>
       wire_stream (chained H1 ! i) \<noteq> wire_stream (chained H2 ! i) \<and>
       sha256 (wire_stream (chained H1 ! i)) = sha256 (wire_stream (chained H2 ! i)))"
proof -
  have s: "\<not> scAnchored (scan_start pub)" "\<not> scBroken (scan_start pub)"
    by (simp_all add: scan_start_def)
  have e: "chain_end (Genesis pub, 0) (chained H) =
      Some (scTip (scan_history mj pub H), scHeight (scan_history mj pub H))"
    if "no_legacy H" "\<not> scBroken (scan_history mj pub H)" for H
    using scan_implements_chain_end [OF that(1) s, of mj] that(2)
    by (simp add: scan_history_def scan_start_def)
  have "chain_end (Genesis pub, 0) (chained H2) =
      Some (scTip (scan_history mj pub H1), scHeight (scan_history mj pub H1))"
    using e [OF assms(4,8)] assms(9,10) by simp
  from same_end_same_log [OF e [OF assms(1,7)] this assms(2,5,3,6)] show ?thesis by blast
qed

theorem equal_tips_equal_logs_witness:
  "map core_of (chained [JsonLine (linked_wire ex_chat (initChainLocked wText [] new_chain))]) =
   map core_of (chained [JsonLine (linked_wire ex_chat (initChainLocked wText [] new_chain)), JsonLine ex_join])"
proof -
  let ?c = "initChainLocked wText [] new_chain"
  let ?w = "linked_wire ex_chat ?c"
  let ?H1 = "[JsonLine ?w]" and ?H2 = "[JsonLine ?w, JsonLine ex_join]"
  have ch: "chained ?H1 = [?w]" "chained ?H2 = [?w]" by (simp_all add: ex_defs)
  have nl: "no_legacy ?H1" "no_legacy ?H2" by (simp_all add: no_legacy_def modern_line_def ex_defs)
  have sc: "scan_history wText [] ?H1 = (scan_start [])\<lparr>scMaxSeq := 1, scAnchored := False,
      scTip := link_hash ex_chat ?c, scHeight := 1\<rparr>"
    using scan_linked [of "scan_start []" ?c wText ex_chat]
    by (simp add: scan_history_def new_chain_init scan_start_def expectPrev_def)
  have "scan_history wText [] ?H2 = scan_line wText (JsonLine ex_join) (scan_history wText [] ?H1)"
    by (simp add: scan_history_def)
  then have sc2: "scan_history wText [] ?H2 = (scan_history wText [] ?H1)\<lparr>scMaxSeq := 1\<rparr>"
    by (simp add: scan_notice sc)
  have "map core_of (chained ?H1) = map core_of (chained ?H2) \<or>
    (\<exists>i. i < length (chained ?H1) \<and> i < length (chained ?H2) \<and>
       wire_stream (chained ?H1 ! i) \<noteq> wire_stream (chained ?H2 ! i) \<and>
       sha256 (wire_stream (chained ?H1 ! i)) = sha256 (wire_stream (chained ?H2 ! i)))"
    by (rule equal_tips_equal_logs [where mj = wText and pub = "[]"])
      (simp_all only: ch nl sc2, simp_all add: sc v2_def scan_start_def)
  then show ?thesis by (auto simp: ch)
qed

text \<open>
  C13. The boot scan implements the contract of a stored history, whatever lines it holds, notices and pre-chain lines included: it
  reports a break exactly when some chained line does not continue the lines before it, and otherwise the chain resumes at the
  contract's end: the last chained line's hash, or the anchor of the last pre-chain line or the genesis seed when nothing is chained
  yet, with the number of chained lines as its height.
\<close>

theorem boot_scan_refines_contract:
  assumes "length (chained (csHistory c)) < 2 ^ 64"
  shows "(if scBroken (scan_history mj pub (csHistory c)) then None
      else Some (csTip (initChainLocked mj pub c), csHeight (initChainLocked mj pub c))) =
    (if intact mj pub (csHistory c) then Some (stored_end mj pub (csHistory c)) else None)"
  using scan_history_agrees [of mj pub "csHistory c"] scan_end [OF _ assms, of mj pub]
  by (auto simp: initChainLocked_def Let_def)

theorem boot_scan_refines_contract_witness:
  "csTip (initChainLocked wText ''ab'' (new_chain\<lparr>csHistory := [RawLine ''old'', JsonLine ex_join]\<rparr>)) = LegacyAnchor ''old''
   \<and> scBroken (scan_history wText ''ab'' [RawLine ''old'', JsonLine (ex_chat\<lparr>wChainHash := ''zz''\<rparr>)])"
proof -
  let ?c = "new_chain\<lparr>csHistory := [RawLine ''old'', JsonLine ex_join]\<rparr>"
  let ?d = "new_chain\<lparr>csHistory := [RawLine ''old'', JsonLine (ex_chat\<lparr>wChainHash := ''zz''\<rparr>)]\<rparr>"
  have n: "wChainHash ex_join = []" by (simp add: ex_defs)
  have c: "length (chained (csHistory ?c)) < 2 ^ 64" "intact wText ''ab'' (csHistory ?c)"
    "stored_end wText ''ab'' (csHistory ?c) = (LegacyAnchor ''old'', 0)"
    by (simp_all add: n intact_def line_continues_def less_Suc_eq nth_Cons' stored_end_def due_prev_def line_notice_def line_hash_def)
  have d: "length (chained (csHistory ?d)) < 2 ^ 64" "\<not> intact wText ''ab'' (csHistory ?d)"
    by (simp_all add: intact_def line_continues_def ParseHex64_def less_Suc_eq all_conj_distrib split: option.split)
  have "csTip (initChainLocked wText ''ab'' ?c) = LegacyAnchor ''old''"
    using boot_scan_refines_contract [OF c(1), of wText "''ab''"] c(2,3) by (simp split: if_splits)
  moreover have "scBroken (scan_history wText ''ab'' (csHistory ?d))"
    using boot_scan_refines_contract [OF d(1), of wText "''ab''"] d(2) by (simp split: if_splits)
  ultimately show ?thesis by simp
qed

text \<open>
  C14. What a restart resumes: let a server start over any stored lines without pre-chain records that load clean, and append any
  sequence of chained broadcasts and notices, with whatever eviction the byte limit causes. A server restarted over the lines that are
  left continues at the live tip and height if one chained line is among them, and otherwise at the genesis seed and height
  0; its history cursor is the live one unless no line at all is left. The 64-bit cursor does not wrap.
\<close>

theorem restart_resumes_chain:
  assumes "no_legacy (csHistory c0)" "\<not> scBroken (scan_history mj pub (csHistory c0))" "list_all event_ok es"
    and "unat (csSeq (initChainLocked mj pub (reboot c0))) + length es < 2 ^ 64"
    and "c = fold (chain_step mj mx pub) es (initChainLocked mj pub (reboot c0))"
  shows "csTip (initChainLocked mj pub (reboot c)) = (if chained (csHistory c) = [] then Genesis pub else csTip c)
    \<and> csHeight (initChainLocked mj pub (reboot c)) = (if chained (csHistory c) = [] then 0 else csHeight c)
    \<and> csSeq (initChainLocked mj pub (reboot c)) = (if csHistory c = [] then 0 else csSeq c)"
proof -
  let ?c1 = "initChainLocked mj pub (reboot c0)"
  have "tip_kept.admissible mj mx pub ?c1 es"
    using assms(3) by (intro tip_kept.admissible_if_all) (simp add: list_all_iff)
  then have "retained c" unfolding assms(5) using tip_kept.run_inv [OF retained_init [OF assms(1,2)]] by blast
  moreover have "cursor_ok mj pub c" unfolding assms(5)
    by (rule resumed.run_inv [OF cursor_ok_init resumed_admissible [OF cursor_ok_init assms(4)]])
  then have "csSeq (initChainLocked mj pub (reboot c)) = (if csHistory c = [] then 0 else csSeq c)"
    by (auto simp: cursor_ok_def init_reboot_seq scan_history_def scan_start_def)
  ultimately show ?thesis using init_reboot_retained [of c mj pub] by simp
qed

theorem restart_resumes_chain_witness:
  "csHeight (initChainLocked wText ''ab'' (reboot (fold (chain_step wText 11 ''ab'')
     [Link ex_chat 1, Notice ex_join 2] (initChainLocked wText ''ab'' new_chain)))) = 1
   \<and> csHeight (initChainLocked wText ''ab'' (reboot (fold (chain_step wText 10 ''ab'')
     [Link ex_chat 1, Notice ex_join 2] (initChainLocked wText ''ab'' new_chain)))) = 0"
proof -
  let ?es = "[Link ex_chat 1, Notice ex_join 2]"
  let ?c = "\<lambda>mx. fold (chain_step wText mx ''ab'') ?es (initChainLocked wText ''ab'' new_chain)"
  have r: "reboot new_chain = new_chain" by (simp add: reboot_def new_chain_def)
  have e: "csHistory new_chain = []" by (simp add: new_chain_def)
  have "no_legacy (csHistory new_chain)" "\<not> scBroken (scan_history wText ''ab'' (csHistory new_chain))" "list_all event_ok ?es"
    "unat (csSeq (initChainLocked wText ''ab'' (reboot new_chain))) + length ?es < 2 ^ 64"
    by (simp_all add: e no_legacy_def scan_start_def r new_chain_init)
  note run = restart_resumes_chain [OF this, unfolded r, OF refl]
  have "chained (csHistory (?c 11)) \<noteq> []" by (subst ex_run) simp
  moreover have "chained (csHistory (?c 10)) = []" by (subst ex_run) (simp add: ex_defs)
  moreover have "csHeight (?c 11) = 1" by (simp add: new_chain_init del: chain_step.simps)
  ultimately show ?thesis using run [of 11] run [of 10] by (simp del: fold_simps)
qed

text \<open>
  Restart without eviction: from a history that loads clean (with legacy lines only
  when nothing is chained yet), after any sequence of chained broadcasts and notices, a
  restarted server rebuilds the same tip and height from the stored lines and finds no
  break.
\<close>

theorem restart_without_eviction_is_clean:
  assumes "\<not> scBroken (scan_history mj pub (csHistory c0))"
    and "scAnchored (scan_history mj pub (csHistory c0)) \<Longrightarrow> scHeight (scan_history mj pub (csHistory c0)) = 0"
    and "list_all event_ok es"
    and "c = fold (chain_step mj mx pub) es (initChainLocked mj pub c0)"
    and "length (csHistory c) = length (csHistory c0) + length es"
  shows "csTip (initChainLocked mj pub (reboot c)) = csTip c
    \<and> csHeight (initChainLocked mj pub (reboot c)) = csHeight c
    \<and> \<not> scBroken (scan_history mj pub (csHistory c))"
proof -
  have "in_step mj pub (initChainLocked mj pub c0)" using assms(1,2) by (rule in_step_init)
  moreover have "live_log.admissible mj mx pub (initChainLocked mj pub c0) es"
    using assms(3-5) by (intro no_eviction_admissible) simp_all
  ultimately have "in_step mj pub c" unfolding assms(4) by (rule live_log.run_inv)
  then show ?thesis by (simp add: init_reboot_in_step)
qed

theorem restart_without_eviction_is_clean_witness:
  "csHeight (initChainLocked wText ''ab'' (reboot (fold (chain_step wText 100 ''ab'')
     [Link ex_chat 1, Notice ex_join 2] (initChainLocked wText ''ab'' new_chain)))) = 1"
proof -
  let ?c = "fold (chain_step wText 100 ''ab'') [Link ex_chat 1, Notice ex_join 2]
     (initChainLocked wText ''ab'' new_chain)"
  have h: "length (csHistory ?c) = 2" by (subst ex_run) simp
  have e: "csHistory new_chain = []" by (simp add: new_chain_def)
  have "csHeight (initChainLocked wText ''ab'' (reboot ?c)) = csHeight ?c"
    using restart_without_eviction_is_clean [of wText "''ab''" new_chain "[Link ex_chat 1, Notice ex_join 2]" ?c 100] h
    by (simp add: e scan_start_def del: fold_simps)
  also have "csHeight ?c = 1"
    by (simp add: new_chain_init del: chain_step.simps)
  finally show ?thesis .
qed

text \<open>
  Restart with eviction: however many old lines the byte limit has dropped, as long as
  one chained line is still stored a restarted server continues at the live tip and height.
\<close>

theorem restart_keeps_tip_under_eviction:
  assumes "list_all event_ok es"
    and "c = fold (chain_step mj mx pub) es (initChainLocked mj pub new_chain)"
    and "chained (csHistory c) \<noteq> []"
  shows "csTip (initChainLocked mj pub (reboot c)) = csTip c
    \<and> csHeight (initChainLocked mj pub (reboot c)) = csHeight c"
proof -
  have "tip_kept.admissible mj mx pub (initChainLocked mj pub new_chain) es"
    using assms(1) by (intro tip_kept.admissible_if_all) (simp add: list_all_iff)
  then have "retained c" unfolding assms(2) using tip_kept.run_inv [OF retained_new] by blast
  then show ?thesis using assms(3) by (rule init_reboot_retained(1))
qed

theorem restart_keeps_tip_under_eviction_witness:
  "csHeight (initChainLocked wText ''ab'' (reboot (fold (chain_step wText 11 ''ab'')
     [Link ex_chat 1, Notice ex_join 2] (initChainLocked wText ''ab'' new_chain)))) = 1"
proof -
  let ?c = "fold (chain_step wText 11 ''ab'') [Link ex_chat 1, Notice ex_join 2]
     (initChainLocked wText ''ab'' new_chain)"
  have h: "chained (csHistory ?c) \<noteq> []" by (subst ex_run) simp
  have ok: "list_all event_ok [Link ex_chat 1, Notice ex_join 2]" by simp
  have "csHeight (initChainLocked wText ''ab'' (reboot ?c)) = csHeight ?c"
    using restart_keeps_tip_under_eviction [OF ok refl h] by (rule conjunct2)
  also have "csHeight ?c = 1" by (simp add: new_chain_init del: chain_step.simps)
  finally show ?thesis .
qed

text \<open>
  Where resuming fails: when the byte limit has evicted every chained line and only
  notices are left, a restarted server starts over at the genesis seed and height 0,
  whatever the live tip was; the next broadcast reuses height 1. The witness is a one-message
  log followed by one join notice.
\<close>

theorem restart_after_total_eviction_forks:
  assumes "list_all event_ok es"
    and "c = fold (chain_step mj mx pub) es (initChainLocked mj pub new_chain)"
    and "chained (csHistory c) = []"
  shows "csTip (initChainLocked mj pub (reboot c)) = Genesis pub
    \<and> csHeight (initChainLocked mj pub (reboot c)) = 0"
proof -
  have "tip_kept.admissible mj mx pub (initChainLocked mj pub new_chain) es"
    using assms(1) by (intro tip_kept.admissible_if_all) (simp add: list_all_iff)
  then have "retained c" unfolding assms(2) using tip_kept.run_inv [OF retained_new] by blast
  then show ?thesis using assms(3) by (rule init_reboot_retained(2))
qed

theorem restart_after_total_eviction_forks_witness:
  "csHeight (fold (chain_step wText 10 ''ab'') [Link ex_chat 1, Notice ex_join 2]
     (initChainLocked wText ''ab'' new_chain)) = 1
   \<and> csHeight (initChainLocked wText ''ab'' (reboot (fold (chain_step wText 10 ''ab'')
     [Link ex_chat 1, Notice ex_join 2] (initChainLocked wText ''ab'' new_chain)))) = 0"
proof -
  let ?c = "fold (chain_step wText 10 ''ab'') [Link ex_chat 1, Notice ex_join 2]
     (initChainLocked wText ''ab'' new_chain)"
  have h: "chained (csHistory ?c) = []" by (subst ex_run) (simp add: ex_defs)
  have ok: "list_all event_ok [Link ex_chat 1, Notice ex_join 2]" by simp
  have "csHeight ?c = 1" by (simp add: new_chain_init del: chain_step.simps)
  then show ?thesis using restart_after_total_eviction_forks [OF ok refl h] by blast
qed

text \<open>
  C38. Appending keeps the byte accounting exact and evicts no more than it must: the history
  becomes the longest suffix of the old lines and the new one that fits \<open>MaxHistoryBytes\<close>
  (every longer suffix is too big), and its recorded size is its total length.
\<close>

theorem append_keeps_longest_fitting_suffix:
  assumes "csHistorySize c = total_len mj (csHistory c)" "0 \<le> mx"
    and "c' = appendMessageLocked mj mx l c"
  shows "csHistorySize c' = total_len mj (csHistory c') \<and> csHistorySize c' \<le> mx
    \<and> (\<exists>k. csHistory c' = drop k (csHistory c @ [l])
         \<and> (\<forall>j < k. mx < total_len mj (drop j (csHistory c @ [l]))))"
proof -
  have ok: "size_ok mj c" using assms(1) by (simp add: size_ok_def)
  show ?thesis
    using append_spec [OF ok, of mx l] assms(2) unfolding assms(3) size_ok_def by auto
qed

theorem append_keeps_longest_fitting_suffix_witness:
  "csHistorySize (appendMessageLocked wText 6 (RawLine ''joined'')
     (new_chain\<lparr>csHistory := [RawLine ''hello''], csHistorySize := 5\<rparr>)) \<le> 6"
  using append_keeps_longest_fitting_suffix
    [of "new_chain\<lparr>csHistory := [RawLine ''hello''], csHistorySize := 5\<rparr>" wText 6
        "appendMessageLocked wText 6 (RawLine ''joined'')
           (new_chain\<lparr>csHistory := [RawLine ''hello''], csHistorySize := 5\<rparr>)" "RawLine ''joined''"]
  by simp

text \<open>
  History cursors: over any run of broadcasts and notices from a well-ordered log, as long
  as the 64-bit counter does not wrap, the stored lines carry strictly increasing sequence
  numbers and the counter equals its start value plus the number of lines written.
\<close>

theorem cursors_strictly_increase:
  assumes "seqs_ok c" "unat (csSeq c) + length es < 2 ^ 64"
    and "c' = fold (chain_step mj mx pub) es c"
  shows "sorted_wrt (<) (map line_seq (csHistory c')) \<and> unat (csSeq c') = unat (csSeq c) + length es"
proof -
  have "seqs_ok c'" unfolding assms(3)
    using cursors.run_inv [OF assms(1) cursors_admissible [OF assms(1,2)]] .
  moreover have "unat (csSeq (fold (chain_step mj mx pub) es c)) = unat (csSeq c) + length es"
    using assms(1,2)
  proof (induction es arbitrary: c)
    case (Cons e es)
    have lt: "csSeq c < csSeq c + 1" "unat (csSeq c + 1) = unat (csSeq c) + 1"
      using word_less_Suc [of "csSeq c"] Cons.prems(2) by simp_all
    with Cons.IH [OF step_seqs_ok [OF Cons.prems(1) lt(1), of mj mx pub e]] Cons.prems
      step_seq [OF Cons.prems(1), of mj mx pub e]
    show ?case by simp
  qed simp
  ultimately show ?thesis by (simp add: seqs_ok_def assms(3))
qed

theorem cursors_strictly_increase_witness:
  "unat (csSeq (fold (chain_step wText 100 ''ab'') [Link ex_chat 1, Notice ex_join 2] new_chain)) = 2"
proof -
  have "seqs_ok new_chain" by (simp add: seqs_ok_def new_chain_def)
  from cursors_strictly_increase [OF this _ refl, of "[Link ex_chat 1, Notice ex_join 2]" wText 100 "''ab''"]
  show ?thesis by (simp add: new_chain_def)
qed

text \<open>
  The two link encodings are not separated: a version-2 record whose reply target equals
  the encoded length of its type field verifies, under the same hash, as a version-1 record
  with another type and no bound reply target. For type \<open>chat\<close> the colliding target is
  height 5.
\<close>

theorem link_versions_overlap:
  assumes "VerifyWire prev w want" "wChainVer w \<ge> 2"
    and "unat (wReplyTo w) = length (put_field (wType w))"
  shows "VerifyWire prev (w\<lparr>wType := put_field (wType w), wReplyTo := r, wChainVer := 0\<rparr>) want"
  using assms
  by (simp add: VerifyWire_def VerifyLink_def VerifyLinkV1_def Hash_def hashV1_def TripSigOf_def
      link_streams_overlap)

theorem link_versions_overlap_witness:
  "VerifyWire (Genesis ''ab'')
     (zero_wire\<lparr>wType := put_field ''chat'', wText := ''hi'', wReplyTo := 7, wChainVer := 0\<rparr>)
     (Hash (Genesis ''ab'') 0 0 5 ''chat'' [] [] ''hi'' [])"
proof -
  let ?w = "zero_wire\<lparr>wType := ''chat'', wText := ''hi'', wReplyTo := 5, wChainVer := 2\<rparr>"
  have "VerifyWire (Genesis ''ab'') ?w (Hash (Genesis ''ab'') 0 0 5 ''chat'' [] [] ''hi'' [])"
    by (simp add: VerifyWire_def VerifyLink_def TripSigOf_def zero_wire_def)
  moreover have "unat (wReplyTo ?w) = length (put_field (wType ?w))"
    by (simp add: put_field_def uvarint_small)
  ultimately have "VerifyWire (Genesis ''ab'') (?w\<lparr>wType := put_field (wType ?w), wReplyTo := 7, wChainVer := 0\<rparr>)
      (Hash (Genesis ''ab'') 0 0 5 ''chat'' [] [] ''hi'' [])"
    by (intro link_versions_overlap) simp_all
  then show ?thesis by (simp add: zero_wire_def)
qed

text \<open>
  Link fields parse fail-closed: \<open>ParseHex64\<close> accepts exactly the 64-digit hex strings, in
  either letter case, and returns the 32 bytes whose lower-case rendering they are.
\<close>

theorem ParseHex64_exact:
  "ParseHex64 s = Some b \<longleftrightarrow> length b = 32 \<and> to_lower s = hex_encode b"
  by (rule ParseHex64_iff)

end
