(* ===== verification/Tags.thy ===== *)
theory Tags
  imports V2V_Prelude
begin

text \<open>
  Notice tags, \<^verbatim>\<open>src/lib/wire/tags.go\<close>: dotted paths under the root \<open>system\<close>. The
  walks over parents are shown to compute the ancestor relation the comments describe
  (\<open>is_ancestor\<close>), from which muting a node mutes its subtree. A Go \<open>map[string]bool\<close>
  is an association list, read with \<open>map_of\<close>.
\<close>

subsection \<open>The taxonomy\<close>

definition TagRoot :: string where "TagRoot = ''system''"
definition TagJoin :: string where "TagJoin = ''system.join''"
definition TagLeave :: string where "TagLeave = ''system.leave''"
definition TagDate :: string where "TagDate = ''system.date''"
definition TagHistory :: string where "TagHistory = ''system.history''"
definition TagHistoryBegin :: string where "TagHistoryBegin = ''system.history.begin''"
definition TagHistoryOlder :: string where "TagHistoryOlder = ''system.history.older''"
definition TagHistoryRecover :: string where "TagHistoryRecover = ''system.history.recover''"
definition TagHistoryEnd :: string where "TagHistoryEnd = ''system.history.end''"
definition TagHistoryExhausted :: string where "TagHistoryExhausted = ''system.history.exhausted''"
definition TagPow :: string where "TagPow = ''system.pow''"
definition TagPowGate :: string where "TagPowGate = ''system.pow.gate''"
definition TagPowScreen :: string where "TagPowScreen = ''system.pow.screening''"
definition TagAudit :: string where "TagAudit = ''system.audit''"
definition TagLimit :: string where "TagLimit = ''system.limit''"
definition TagEnvelope :: string where "TagEnvelope = ''system.envelope''"
definition TagTrip :: string where "TagTrip = ''system.trip''"
definition TagTripReveal :: string where "TagTripReveal = ''system.trip.reveal''"
definition TagFilter :: string where "TagFilter = ''system.filter''"
definition TagAuth :: string where "TagAuth = ''system.auth''"
definition TagVote :: string where "TagVote = ''system.vote''"

lemmas tag_defs = TagRoot_def TagJoin_def TagLeave_def TagDate_def TagHistory_def
  TagHistoryBegin_def TagHistoryOlder_def TagHistoryRecover_def TagHistoryEnd_def
  TagHistoryExhausted_def TagPow_def TagPowGate_def TagPowScreen_def TagAudit_def TagLimit_def
  TagEnvelope_def TagTrip_def TagTripReveal_def TagFilter_def TagAuth_def TagVote_def

definition tagTree :: "string list" where
  "tagTree = [TagRoot, TagJoin, TagLeave, TagDate, TagHistory, TagHistoryBegin, TagHistoryOlder,
     TagHistoryRecover, TagHistoryEnd, TagHistoryExhausted, TagPow, TagPowGate, TagPowScreen,
     TagAudit, TagLimit, TagEnvelope, TagTrip, TagTripReveal, TagFilter, TagAuth, TagVote]"

definition AllTags :: "string list" where
  "AllTags = tagTree"

subsection \<open>Walks\<close>

fun HasTag :: "string list \<Rightarrow> string \<Rightarrow> bool" where
  "HasTag [] tag = False"
| "HasTag (t # ts) tag = (if t = tag then True else HasTag ts tag)"

fun HasAnyTag :: "string list \<Rightarrow> string list \<Rightarrow> bool" where
  "HasAnyTag tags [] = False"
| "HasAnyTag tags (w # ws) = (if HasTag tags w then True else HasAnyTag tags ws)"

text \<open>\<open>strings.LastIndex(tag, ".")\<close>, with \<open>None\<close> for \<open>-1\<close>.\<close>

fun last_index :: "char \<Rightarrow> string \<Rightarrow> nat option" where
  "last_index z [] = None"
| "last_index z (c # cs) =
     (case last_index z cs of Some i \<Rightarrow> Some (Suc i) | None \<Rightarrow> if c = z then Some 0 else None)"

definition syntacticParent :: "string \<Rightarrow> string" where
  "syntacticParent tag =
     (case last_index (CHR ''.'') tag of
        Some i \<Rightarrow> if i > 0 then take i tag else []
      | None \<Rightarrow> [])"

lemma last_index_less: "last_index z s = Some i \<Longrightarrow> i < length s"
  by (induction s arbitrary: i) (auto split: option.splits if_splits)

lemma syntacticParent_shorter: "tag \<noteq> [] \<Longrightarrow> length (syntacticParent tag) < length tag"
  by (auto simp: syntacticParent_def split: option.splits dest: last_index_less)

function knownAncestor_from :: "string \<Rightarrow> string" where
  "knownAncestor_from at =
     (if at = [] then [] else if HasTag tagTree at then at else knownAncestor_from (syntacticParent at))"
  by pat_completeness auto
termination
  by (relation "measure length") (auto simp: syntacticParent_shorter)

declare knownAncestor_from.simps [simp del]

definition knownAncestor :: "string \<Rightarrow> string" where
  "knownAncestor tag = knownAncestor_from (syntacticParent tag)"

lemma knownAncestor_from_le: "length (knownAncestor_from at) \<le> length at"
proof (induction at rule: knownAncestor_from.induct)
  case (1 at)
  then show ?case
    using syntacticParent_shorter [of at] by (auto simp: knownAncestor_from.simps [of at])
qed

lemma knownAncestor_shorter: "tag \<noteq> [] \<Longrightarrow> length (knownAncestor tag) < length tag"
  using knownAncestor_from_le [of "syntacticParent tag"] syntacticParent_shorter [of tag]
  by (simp add: knownAncestor_def)

text \<open>The loop prepends, so the accumulator ends up ordered from the root down.\<close>

function knownChain_loop :: "string \<Rightarrow> string list \<Rightarrow> string list" where
  "knownChain_loop at chain = (if at = [] then chain else knownChain_loop (knownAncestor at) (at # chain))"
  by pat_completeness auto
termination
  by (relation "measure (\<lambda>(at, chain). length at)") (auto simp: knownAncestor_shorter)

declare knownChain_loop.simps [simp del]

definition knownChain :: "string \<Rightarrow> string list" where
  "knownChain tag = knownChain_loop tag []"

subsection \<open>Muting and tagging\<close>

definition is_muted :: "(string \<times> bool) list \<Rightarrow> string \<Rightarrow> bool" where
  "is_muted muted at = (map_of muted at = Some True)"

text \<open>State of the closure \<open>walk\<close>: the keys reported and the keys seen.\<close>

fun block_walk :: "(string \<times> bool) list \<Rightarrow> string list \<Rightarrow> string list \<times> string list \<Rightarrow> string list \<times> string list" where
  "block_walk muted [] st = st"
| "block_walk muted (at # ats) (blocked, seen) =
     (if at \<in> set seen then block_walk muted ats (blocked, seen)
      else block_walk muted ats (if is_muted muted at then blocked @ [at] else blocked, at # seen))"

definition BlockedBy :: "string list \<Rightarrow> (string \<times> bool) list \<Rightarrow> string list" where
  "BlockedBy tags muted =
     (if muted = [] \<or> tags = [] then []
      else fst (fold (\<lambda>tag. block_walk muted (knownChain tag)) (TagRoot # tags) ([], [])))"

text \<open>State of the closure \<open>add\<close>: its output is also the set of tags seen.\<close>

definition add_tag :: "string \<Rightarrow> string list \<Rightarrow> string list" where
  "add_tag tag out = (if tag \<in> set out then out else out @ [tag])"

definition WithTags :: "string list \<Rightarrow> string list" where
  "WithTags leaves = fold (\<lambda>leaf. fold add_tag (knownChain leaf)) leaves (add_tag TagRoot [])"

subsection \<open>What the walks compute\<close>

definition is_ancestor :: "string \<Rightarrow> string \<Rightarrow> bool" where
  "is_ancestor a t \<longleftrightarrow> a \<noteq> [] \<and> (\<exists>r. t = a @ CHR ''.'' # r)"

lemma HasTag_iff [simp]: "HasTag tags tag \<longleftrightarrow> tag \<in> set tags"
  by (induction tags) auto

lemma HasAnyTag_iff: "HasAnyTag tags ws \<longleftrightarrow> (\<exists>w \<in> set ws. w \<in> set tags)"
  by (induction ws) auto

lemma last_index_None: "last_index z s = None \<longleftrightarrow> z \<notin> set s"
  by (induction s) (auto split: option.splits)

lemma last_index_Some:
  "last_index z s = Some i \<longleftrightarrow> i < length s \<and> s = take i s @ z # drop (Suc i) s \<and> z \<notin> set (drop (Suc i) s)"
proof (induction s arbitrary: i)
  case (Cons c cs)
  show ?case
  proof (cases i)
    case 0
    then show ?thesis using last_index_None [of z cs] by (cases "last_index z cs") auto
  next
    case (Suc j)
    have "cs = take j cs @ z # drop (Suc j) cs \<Longrightarrow> z \<in> set cs" by (metis in_set_conv_decomp)
    then show ?thesis using Suc Cons [of j] by (auto split: option.splits simp: last_index_None)
  qed
qed simp

lemma syntacticParent_spec:
  "is_ancestor a t \<longleftrightarrow> syntacticParent t \<noteq> [] \<and> (a = syntacticParent t \<or> is_ancestor a (syntacticParent t))"
proof (cases "last_index (CHR ''.'') t")
  case None
  then have "CHR ''.'' \<notin> set t" by (simp add: last_index_None)
  then show ?thesis using None by (auto simp: is_ancestor_def syntacticParent_def)
next
  case (Some i)
  then have i: "i < length t" "t = take i t @ CHR ''.'' # drop (Suc i) t" "CHR ''.'' \<notin> set (drop (Suc i) t)"
    by (simp_all add: last_index_Some)
  have split: "(\<exists>r. t = a @ CHR ''.'' # r) \<longleftrightarrow> a = take i t \<or> (\<exists>r. take i t = a @ CHR ''.'' # r)"
  proof
    assume "\<exists>r. t = a @ CHR ''.'' # r"
    then obtain r where "take i t @ CHR ''.'' # drop (Suc i) t = a @ CHR ''.'' # r" using i(2) by metis
    then show "a = take i t \<or> (\<exists>r. take i t = a @ CHR ''.'' # r)"
      using i(3) by (fastforce simp: append_eq_append_conv2 Cons_eq_append_conv append_eq_Cons_conv)
  next
    assume "a = take i t \<or> (\<exists>r. take i t = a @ CHR ''.'' # r)"
    then show "\<exists>r. t = a @ CHR ''.'' # r"
      using i(2) by (metis append.assoc append_Cons)
  qed
  show ?thesis
  proof (cases "i = 0")
    case True
    then show ?thesis using split Some by (auto simp: is_ancestor_def syntacticParent_def)
  next
    case False
    then have "syntacticParent t = take i t" "take i t \<noteq> []" using Some i(1) by (auto simp: syntacticParent_def)
    then show ?thesis using split by (auto simp: is_ancestor_def)
  qed
qed

lemma tagTree_nonempty [simp]: "[] \<notin> set tagTree"
  by (simp add: tagTree_def tag_defs)

lemma not_ancestor_Nil [simp]: "\<not> is_ancestor a []" "\<not> is_ancestor [] t"
  by (simp_all add: is_ancestor_def)

lemma knownAncestor_from_spec:
  "x \<in> set tagTree \<and> (x = at \<or> is_ancestor x at) \<longleftrightarrow>
     x \<in> set tagTree \<and> knownAncestor_from at \<noteq> [] \<and>
       (x = knownAncestor_from at \<or> is_ancestor x (knownAncestor_from at))"
proof (induction at rule: knownAncestor_from.induct)
  case (1 at)
  show ?case
  proof (cases "at = [] \<or> at \<in> set tagTree")
    case True
    then show ?thesis by (auto simp: knownAncestor_from.simps [of at])
  next
    case False
    then have "x \<in> set tagTree \<and> (x = at \<or> is_ancestor x at) \<longleftrightarrow>
        x \<in> set tagTree \<and> (x = syntacticParent at \<or> is_ancestor x (syntacticParent at))"
      using syntacticParent_spec [of x at] by auto
    also have "\<dots> \<longleftrightarrow> x \<in> set tagTree \<and> knownAncestor_from at \<noteq> [] \<and>
       (x = knownAncestor_from at \<or> is_ancestor x (knownAncestor_from at))"
      using 1 False by (simp add: knownAncestor_from.simps [of at])
    finally show ?thesis .
  qed
qed

lemma knownAncestor_from_known: "knownAncestor_from at \<noteq> [] \<Longrightarrow> knownAncestor_from at \<in> set tagTree"
proof (induction at rule: knownAncestor_from.induct)
  case (1 at)
  then show ?case by (auto simp: knownAncestor_from.simps [of at])
qed

lemma knownAncestor_known: "knownAncestor t \<noteq> [] \<Longrightarrow> knownAncestor t \<in> set tagTree"
  by (simp add: knownAncestor_def knownAncestor_from_known)

lemma knownAncestor_spec:
  "x \<in> set tagTree \<and> is_ancestor x t \<longleftrightarrow>
     x \<in> set tagTree \<and> knownAncestor t \<noteq> [] \<and> (x = knownAncestor t \<or> is_ancestor x (knownAncestor t))"
  using knownAncestor_from_spec [of x "syntacticParent t"] syntacticParent_spec [of x t]
  by (auto simp: knownAncestor_def)

lemma knownChain_loop_acc: "knownChain_loop at chain = knownChain_loop at [] @ chain"
proof (induction at arbitrary: chain rule: measure_induct_rule [where f = length])
  case (less at)
  show ?case
  proof (cases "at = []")
    case False
    have IH: "knownChain_loop (knownAncestor at) ch = knownChain_loop (knownAncestor at) [] @ ch" for ch
      using less knownAncestor_shorter [OF False] by blast
    show ?thesis
      using False IH [of "at # chain"] IH [of "[at]"]
      by (simp add: knownChain_loop.simps [of at])
  qed (simp add: knownChain_loop.simps)
qed

lemma knownChain_eq: "knownChain t = (if t = [] then [] else knownChain (knownAncestor t) @ [t])"
  using knownChain_loop_acc [of "knownAncestor t" "[t]"]
  by (simp add: knownChain_def knownChain_loop.simps [of t])

lemma knownChain_Nil [simp]: "knownChain [] = []"
  by (simp add: knownChain_eq)

lemma set_knownChain:
  "x \<in> set (knownChain t) \<longleftrightarrow> t \<noteq> [] \<and> (x = t \<or> x \<in> set tagTree \<and> is_ancestor x t)"
proof (induction t rule: measure_induct_rule [where f = length])
  case (less t)
  show ?case
  proof (cases "t = []")
    case False
    have "x \<in> set (knownChain (knownAncestor t)) \<longleftrightarrow>
        knownAncestor t \<noteq> [] \<and> (x = knownAncestor t \<or> x \<in> set tagTree \<and> is_ancestor x (knownAncestor t))"
      using less knownAncestor_shorter [OF False] by blast
    also have "\<dots> \<longleftrightarrow> x \<in> set tagTree \<and> is_ancestor x t"
      using knownAncestor_spec [of x t] knownAncestor_known [of t] by auto
    finally show ?thesis using False by (subst knownChain_eq) auto
  qed simp
qed

lemma block_walk_spec:
  assumes "block_walk muted ats (blocked, seen) = (b, s)"
    and "set blocked = {x \<in> set seen. is_muted muted x}" "distinct blocked"
  shows "set s = set seen \<union> set ats \<and> set b = {x \<in> set s. is_muted muted x} \<and> distinct b"
  using assms
proof (induction muted ats "(blocked, seen)" arbitrary: blocked seen rule: block_walk.induct)
  case (2 muted at ats blocked seen)
  show ?case
  proof (cases "at \<in> set seen")
    case True
    with 2 show ?thesis by (auto simp: insert_absorb)
  next
    case False
    let ?b = "if is_muted muted at then blocked @ [at] else blocked"
    have pre: "set ?b = {x \<in> set (at # seen). is_muted muted x}" "distinct ?b"
      using 2(4,5) False by auto
    have "block_walk muted ats (?b, at # seen) = (b, s)" using 2(3) False by simp
    from 2(2) [OF False this pre] show ?thesis by auto
  qed
qed auto

lemma block_fold_spec:
  assumes "fold (\<lambda>tag. block_walk muted (knownChain tag)) tags (blocked, seen) = (b, s)"
    and "set blocked = {x \<in> set seen. is_muted muted x}" "distinct blocked"
  shows "set s = set seen \<union> (\<Union>t \<in> set tags. set (knownChain t)) \<and>
    set b = {x \<in> set s. is_muted muted x} \<and> distinct b"
  using assms
proof (induction tags arbitrary: blocked seen)
  case (Cons t ts)
  obtain b1 s1 where w: "block_walk muted (knownChain t) (blocked, seen) = (b1, s1)" by fastforce
  from block_walk_spec [OF this Cons.prems(2,3)]
  have *: "set s1 = set seen \<union> set (knownChain t)" "set b1 = {x \<in> set s1. is_muted muted x}" "distinct b1"
    by auto
  from Cons.IH [OF _ *(2,3)] Cons.prems(1) w *(1) show ?case by auto
qed simp

lemma set_BlockedBy:
  assumes "tags \<noteq> []"
  shows "set (BlockedBy tags muted) = {x. is_muted muted x \<and> (\<exists>t \<in> set (TagRoot # tags). x \<in> set (knownChain t))}"
    and "distinct (BlockedBy tags muted)"
proof -
  obtain b s where f: "fold (\<lambda>tag. block_walk muted (knownChain tag)) (TagRoot # tags) ([], []) = (b, s)"
    by fastforce
  from block_fold_spec [OF this] have "set b = {x. is_muted muted x \<and> (\<exists>t \<in> set (TagRoot # tags). x \<in> set (knownChain t))}"
    "distinct b" by auto
  moreover have "muted = [] \<Longrightarrow> \<not> is_muted muted x" for x by (simp add: is_muted_def)
  ultimately show "set (BlockedBy tags muted) = {x. is_muted muted x \<and> (\<exists>t \<in> set (TagRoot # tags). x \<in> set (knownChain t))}"
    and "distinct (BlockedBy tags muted)"
    using assms f by (auto simp: BlockedBy_def)
qed

lemma knownChain_root: "knownChain TagRoot = [TagRoot]"
proof -
  have "knownAncestor TagRoot = []"
    by (simp add: knownAncestor_def syntacticParent_def TagRoot_def knownAncestor_from.simps)
  then show ?thesis by (subst knownChain_eq) (simp add: TagRoot_def)
qed

subsection \<open>Tag lists built by producers\<close>

lemma fold_add_tag_set: "set (fold add_tag xs out) = set out \<union> set xs"
  by (induction xs arbitrary: out) (auto simp: add_tag_def)

lemma fold_add_tag_distinct: "distinct out \<Longrightarrow> distinct (fold add_tag xs out)"
  by (induction xs arbitrary: out) (auto simp: add_tag_def)

lemma fold_add_tag_known: "set xs \<subseteq> set out \<Longrightarrow> fold add_tag xs out = out"
  by (induction xs arbitrary: out) (auto simp: add_tag_def)

lemma fold_add_tag_extends: "\<exists>ys. fold add_tag xs out = out @ ys"
proof (induction xs arbitrary: out)
  case (Cons x xs)
  then show ?case by (metis add_tag_def append.assoc fold_simps(2))
qed simp

text \<open>A tag list in which every tag comes after its known ancestors.\<close>

definition parents_first :: "string list \<Rightarrow> bool" where
  "parents_first out \<longleftrightarrow> (\<forall>i < length out. set (knownChain (out ! i)) \<subseteq> set (take (Suc i) out))"

lemma parents_first_snoc:
  assumes "parents_first out" "set (knownChain t) \<subseteq> insert t (set out)"
  shows "parents_first (out @ [t])"
  using assms by (auto simp: parents_first_def nth_append less_Suc_eq)

lemma parents_first_chain:
  assumes "parents_first out"
  shows "parents_first (fold add_tag (knownChain t) out)"
proof (induction t rule: measure_induct_rule [where f = length])
  case (less t)
  show ?case
  proof (cases "t = []")
    case True
    then show ?thesis using assms by simp
  next
    case False
    let ?o = "fold add_tag (knownChain (knownAncestor t)) out"
    have IH: "parents_first ?o" using less knownAncestor_shorter [OF False] by blast
    have "set (knownChain t) \<subseteq> insert t (set ?o)"
      using False by (subst knownChain_eq) (auto simp: fold_add_tag_set)
    with IH have "parents_first (?o @ [t])" by (rule parents_first_snoc)
    with IH show ?thesis using False by (subst knownChain_eq) (simp add: add_tag_def)
  qed
qed

lemma parents_first_WithTags: "parents_first (WithTags leaves)"
proof -
  have "parents_first (add_tag TagRoot [])"
    by (simp add: parents_first_def add_tag_def knownChain_root)
  then show ?thesis unfolding WithTags_def
    by (induction leaves rule: rev_induct) (simp_all add: parents_first_chain)
qed

lemma set_WithTags: "set (WithTags leaves) = insert TagRoot (\<Union>l \<in> set leaves. set (knownChain l))"
proof -
  have "set (fold (\<lambda>leaf. fold add_tag (knownChain leaf)) leaves out) =
      set out \<union> (\<Union>l \<in> set leaves. set (knownChain l))" for out
    by (induction leaves arbitrary: out) (auto simp: fold_add_tag_set)
  then show ?thesis by (simp add: WithTags_def add_tag_def)
qed

lemma hd_WithTags: "WithTags leaves \<noteq> [] \<and> hd (WithTags leaves) = TagRoot"
proof -
  have "\<exists>ys. fold (\<lambda>leaf. fold add_tag (knownChain leaf)) leaves out = out @ ys" for out
  proof (induction leaves arbitrary: out)
    case (Cons l ls)
    then show ?case by (metis append.assoc fold_add_tag_extends fold_simps(2))
  qed simp
  then obtain ys where "WithTags leaves = add_tag TagRoot [] @ ys" unfolding WithTags_def by blast
  then show ?thesis by (simp add: add_tag_def)
qed

lemma distinct_WithTags: "distinct (WithTags leaves)"
proof -
  have "distinct (add_tag TagRoot [])" by (simp add: add_tag_def)
  then show ?thesis unfolding WithTags_def
    by (induction leaves rule: rev_induct) (simp_all add: fold_add_tag_distinct)
qed

text \<open>Re-tagging a list whose parents come first appends its tags one by one.\<close>

lemma knownChain_no_empty: "[] \<notin> set (knownChain t)"
  by (auto simp: set_knownChain)

lemma WithTags_no_empty: "[] \<notin> set (WithTags leaves)"
  by (auto simp: set_WithTags knownChain_no_empty TagRoot_def)

lemma retag_step:
  assumes "n < length out" "set (knownChain (out ! n)) \<subseteq> set (take (Suc n) out)"
    "distinct out" "out ! n \<noteq> []"
  shows "fold add_tag (knownChain (out ! n)) (take n out) = take (Suc n) out"
proof -
  let ?t = "out ! n" and ?a = "knownChain (knownAncestor (out ! n))"
  have chain: "knownChain ?t = ?a @ [?t]" using assms(4) by (subst knownChain_eq) simp
  have fresh: "?t \<notin> set (take n out)"
    using assms(1,3) by (auto simp: distinct_conv_nth in_set_conv_nth)
  have "?t \<notin> set ?a"
  proof
    assume "?t \<in> set ?a"
    then have "?t = knownAncestor ?t \<or> is_ancestor ?t (knownAncestor ?t)"
      by (auto simp: set_knownChain)
    then have "length ?t \<le> length (knownAncestor ?t)" by (auto simp: is_ancestor_def)
    then show False using knownAncestor_shorter [OF assms(4)] by simp
  qed
  with assms(1,2) chain have "set ?a \<subseteq> set (take n out)" by (auto simp: take_Suc_conv_app_nth)
  with fresh assms(1) show ?thesis
    by (simp add: chain fold_add_tag_known add_tag_def take_Suc_conv_app_nth)
qed

lemma retag:
  assumes "parents_first out" "out \<noteq> []" "hd out = TagRoot" "distinct out" "[] \<notin> set out"
  shows "WithTags out = out"
proof -
  let ?f = "\<lambda>n. fold (\<lambda>leaf. fold add_tag (knownChain leaf)) (take n out) [TagRoot]"
  have root: "out ! 0 = TagRoot" "take 1 out = [TagRoot]" "0 < length out"
    using assms(2,3) by (cases out; simp)+
  have "?f (Suc n) = take (Suc n) out" if "Suc n \<le> length out" for n
    using that
  proof (induction n)
    case 0
    then show ?case using root by (simp add: take_Suc_conv_app_nth knownChain_root add_tag_def)
  next
    case (Suc n)
    have n: "Suc n < length out" using Suc.prems by simp
    have "fold add_tag (knownChain (out ! Suc n)) (take (Suc n) out) = take (Suc (Suc n)) out"
      using assms n by (intro retag_step) (auto simp: parents_first_def dest: nth_mem)
    then show ?case using Suc n by (simp add: take_Suc_conv_app_nth [of "Suc n"])
  qed
  from this [of "length out - 1"] root(3) show ?thesis by (simp add: WithTags_def add_tag_def)
qed

subsection \<open>Properties\<close>

text \<open>A notice is hidden exactly when the reader muted the root, one of its tags, or a known
  ancestor of one of its tags; each muted key is reported once.\<close>

theorem mute_covers_subtree:
  assumes "tags \<noteq> []"
  shows "distinct (BlockedBy tags muted) \<and>
    (k \<in> set (BlockedBy tags muted) \<longleftrightarrow>
      is_muted muted k \<and>
      (k = TagRoot \<or> (\<exists>t \<in> set tags. t \<noteq> [] \<and> (k = t \<or> k \<in> set tagTree \<and> is_ancestor k t))))"
proof -
  have "k \<in> set (BlockedBy tags muted) \<longleftrightarrow>
      is_muted muted k \<and> (k \<in> set (knownChain TagRoot) \<or> (\<exists>t \<in> set tags. k \<in> set (knownChain t)))"
    by (simp add: set_BlockedBy(1) [OF assms])
  then show ?thesis
    by (simp add: set_BlockedBy(2) [OF assms] knownChain_root set_knownChain del: not_ancestor_Nil)
qed

theorem mute_covers_subtree_witness:
  "distinct (BlockedBy [''system.history.begin''] [(''system.history'', True), (''system.join'', True)]) \<and>
   ''system.history'' \<in> set (BlockedBy [''system.history.begin''] [(''system.history'', True), (''system.join'', True)])"
  using mute_covers_subtree [of "[''system.history.begin'']"
      "[(''system.history'', True), (''system.join'', True)]" "''system.history''"]
  by (simp add: is_muted_def is_ancestor_def tagTree_def tag_defs)

text \<open>Producers' tag lists: the root comes first, every tag follows its known ancestors, no tag
  repeats, the tags are exactly the leaves with their known ancestors, and tagging an already tagged
  notice again changes nothing.\<close>

theorem WithTags_closed_and_stable:
  "hd (WithTags leaves) = TagRoot \<and> distinct (WithTags leaves) \<and> parents_first (WithTags leaves) \<and>
   set (WithTags leaves) = insert TagRoot (\<Union>l \<in> set leaves. set (knownChain l)) \<and>
   WithTags (WithTags leaves) = WithTags leaves"
proof -
  have "WithTags (WithTags leaves) = WithTags leaves"
    using parents_first_WithTags hd_WithTags distinct_WithTags WithTags_no_empty by (intro retag) auto
  then show ?thesis
    using parents_first_WithTags hd_WithTags distinct_WithTags set_WithTags by auto
qed

end
