(* ===== verification/Utf8.thy ===== *)
theory Utf8
  imports V2V_Prelude
begin

text \<open>
  Go strings as runes: \<open>utf8.DecodeRuneInString\<close>, \<open>utf8.AppendRune\<close>, the \<open>range\<close> loop over a
  string, \<open>utf8.ValidString\<close> and \<open>strings.Map\<close>, with the error rune for every ill-formed byte.
  The round trips show that a string's runes determine it exactly when it is valid.
\<close>

subsection \<open>Decoding and encoding\<close>

definition RuneError :: nat where "RuneError = 0xFFFD"

definition valid_rune :: "nat \<Rightarrow> bool" where
  "valid_rune r \<longleftrightarrow> r < 0xD800 \<or> 0xDFFF < r \<and> r \<le> 0x10FFFF"

text \<open>Sequence length and range of the second byte, by first byte.\<close>

definition rune_lead :: "nat \<Rightarrow> (nat \<times> nat \<times> nat) option" where
  "rune_lead b =
     (if 194 \<le> b \<and> b \<le> 223 then Some (2, 128, 191)
      else if b = 224 then Some (3, 160, 191)
      else if b = 237 then Some (3, 128, 159)
      else if 225 \<le> b \<and> b \<le> 239 then Some (3, 128, 191)
      else if b = 240 then Some (4, 144, 191)
      else if b = 244 then Some (4, 128, 143)
      else if 241 \<le> b \<and> b \<le> 243 then Some (4, 128, 191)
      else None)"

definition is_cont :: "nat \<Rightarrow> bool" where
  "is_cont b \<longleftrightarrow> 128 \<le> b \<and> b \<le> 191"

definition DecodeRune :: "string \<Rightarrow> nat \<times> nat" where
  "DecodeRune s =
     (case s of
        [] \<Rightarrow> (RuneError, 0)
      | a # rest \<Rightarrow>
          (let b0 = nat_of a in
           if b0 < 128 then (b0, 1)
           else case rune_lead b0 of
               None \<Rightarrow> (RuneError, 1)
             | Some (sz, lo, hi) \<Rightarrow>
                 if length s < sz then (RuneError, 1)
                 else let b1 = nat_of (rest ! 0) in
                 if b1 < lo \<or> hi < b1 then (RuneError, 1)
                 else if sz = 2 then (b0 mod 32 * 64 + b1 mod 64, 2)
                 else let b2 = nat_of (rest ! 1) in
                 if \<not> is_cont b2 then (RuneError, 1)
                 else if sz = 3 then (b0 mod 16 * 4096 + b1 mod 64 * 64 + b2 mod 64, 3)
                 else let b3 = nat_of (rest ! 2) in
                 if \<not> is_cont b3 then (RuneError, 1)
                 else (b0 mod 8 * 262144 + b1 mod 64 * 4096 + b2 mod 64 * 64 + b3 mod 64, 4)))"

definition EncodeRune :: "nat \<Rightarrow> string" where
  "EncodeRune r0 =
     (let r = (if valid_rune r0 then r0 else RuneError) in
      if r < 0x80 then [byte_of r]
      else if r < 0x800 then [byte_of (192 + r div 64), byte_of (128 + r mod 64)]
      else if r < 0x10000 then
        [byte_of (224 + r div 4096), byte_of (128 + r div 64 mod 64), byte_of (128 + r mod 64)]
      else
        [byte_of (240 + r div 262144), byte_of (128 + r div 4096 mod 64),
         byte_of (128 + r div 64 mod 64), byte_of (128 + r mod 64)])"

lemma rune_lead_size: "rune_lead b = Some (sz, lo, hi) \<Longrightarrow> sz \<in> {2, 3, 4} \<and> 128 \<le> lo \<and> hi \<le> 191"
  by (auto simp: rune_lead_def split: if_splits)

lemma DecodeRune_size_pos: "s \<noteq> [] \<Longrightarrow> 0 < snd (DecodeRune s)"
  by (auto simp: DecodeRune_def Let_def split: list.splits option.splits prod.splits)

lemma DecodeRune_size_le: "snd (DecodeRune s) \<le> length s"
  by (auto simp: DecodeRune_def Let_def Suc_le_eq split: list.splits option.splits prod.splits dest!: rune_lead_size)

lemma EncodeRune_nonempty [simp]: "EncodeRune r \<noteq> []"
  by (simp add: EncodeRune_def Let_def)

lemma EncodeRune_ascii: "r < 128 \<Longrightarrow> EncodeRune r = [byte_of r]"
  by (simp add: EncodeRune_def valid_rune_def)

text \<open>Base-64 digits, kept opaque so that the bounds stay linear.\<close>

lemma digit_mod:
  "b < 64 \<Longrightarrow> (128 + b) mod 64 = (b :: nat)" "a < 16 \<Longrightarrow> (224 + a) mod 16 = (a :: nat)"
  "a < 8 \<Longrightarrow> (240 + a) mod 8 = (a :: nat)" "a < 32 \<Longrightarrow> (192 + a) mod 32 = (a :: nat)"
  by (simp_all add: le_mod_geq)

lemma digits2: "r div 64 * 64 + r mod 64 = (r :: nat)"
  by (rule div_mult_mod_eq)

lemma digits3: "r div 4096 * 4096 + r div 64 mod 64 * 64 + r mod 64 = (r :: nat)"
proof -
  have "r div 64 = r div 4096 * 64 + r div 64 mod 64"
    using digits2 [of "r div 64"] by (simp add: div_mult2_eq [symmetric])
  with digits2 [of r] show ?thesis by linarith
qed

lemma digits4:
  "r div 262144 * 262144 + r div 4096 mod 64 * 4096 + r div 64 mod 64 * 64 + r mod 64 = (r :: nat)"
proof -
  have "r div 4096 = r div 262144 * 64 + r div 4096 mod 64"
    using digits2 [of "r div 4096"] by (simp add: div_mult2_eq [symmetric])
  with digits3 [of r] show ?thesis by linarith
qed

lemma Decode2:
  assumes "2 \<le> a" "a < 32" "b < 64"
  shows "DecodeRune (byte_of (192 + a) # byte_of (128 + b) # s) = (a * 64 + b, 2)"
  using assms by (simp add: DecodeRune_def rune_lead_def digit_mod)

lemma Decode3:
  assumes "a < 16" "b < 64" "c < 64" "a = 0 \<Longrightarrow> 32 \<le> b" "a = 13 \<Longrightarrow> b < 32"
  shows "DecodeRune (byte_of (224 + a) # byte_of (128 + b) # byte_of (128 + c) # s)
    = (a * 4096 + b * 64 + c, 3)"
proof -
  have lead: "rune_lead (224 + a) = Some (3, if a = 0 then 160 else 128, if a = 13 then 159 else 191)"
    using assms by (simp add: rune_lead_def)
  show ?thesis using assms by (auto simp: DecodeRune_def lead digit_mod is_cont_def Let_def)
qed

lemma Decode4:
  assumes "a < 5" "b < 64" "c < 64" "d < 64" "a = 0 \<Longrightarrow> 16 \<le> b" "a = 4 \<Longrightarrow> b < 16"
  shows "DecodeRune (byte_of (240 + a) # byte_of (128 + b) # byte_of (128 + c) # byte_of (128 + d) # s)
    = (a * 262144 + b * 4096 + c * 64 + d, 4)"
proof -
  have lead: "rune_lead (240 + a) = Some (4, if a = 0 then 144 else 128, if a = 4 then 143 else 191)"
    using assms by (simp add: rune_lead_def)
  show ?thesis using assms by (auto simp: DecodeRune_def lead digit_mod is_cont_def Let_def numeral_2_eq_2)
qed

lemma rune3_bounds:
  assumes "a * 4096 + b * 64 + c = (r :: nat)" "b < 64" "c < 64" "0x800 \<le> r" "valid_rune r" "r < 0x10000"
  shows "a < 16" "a = 0 \<Longrightarrow> 32 \<le> b" "a = 13 \<Longrightarrow> b < 32"
  using assms unfolding valid_rune_def by linarith+

lemma rune4_bounds:
  assumes "a * 262144 + b * 4096 + c * 64 + d = (r :: nat)" "b < 64" "c < 64" "d < 64"
    "0x10000 \<le> r" "r \<le> 0x10FFFF"
  shows "a < 5" "a = 0 \<Longrightarrow> 16 \<le> b" "a = 4 \<Longrightarrow> b < 16"
  using assms by linarith+

lemma Decode_Encode2:
  assumes "0x80 \<le> r" "r < 0x800"
  shows "DecodeRune (EncodeRune r @ s) = (r, 2)"
proof -
  have "2 \<le> r div 64" "r div 64 < 32" using assms by auto
  from Decode2 [OF this, of "r mod 64" s] show ?thesis using assms
    by (simp add: EncodeRune_def valid_rune_def digits2)
qed

lemma Decode_Encode3:
  assumes "0x800 \<le> r" "r < 0x10000" "valid_rune r"
  shows "DecodeRune (EncodeRune r @ s) = (r, 3)"
proof -
  have "DecodeRune (byte_of (224 + r div 4096) # byte_of (128 + r div 64 mod 64) # byte_of (128 + r mod 64) # s)
    = (r div 4096 * 4096 + r div 64 mod 64 * 64 + r mod 64, 3)"
    using rune3_bounds [OF digits3] assms by (intro Decode3) simp_all
  then show ?thesis unfolding digits3 using assms by (simp add: EncodeRune_def)
qed

lemma Decode_Encode4:
  assumes "0x10000 \<le> r" "r \<le> 0x10FFFF"
  shows "DecodeRune (EncodeRune r @ s) = (r, 4)"
proof -
  have "DecodeRune (byte_of (240 + r div 262144) # byte_of (128 + r div 4096 mod 64) #
      byte_of (128 + r div 64 mod 64) # byte_of (128 + r mod 64) # s)
    = (r div 262144 * 262144 + r div 4096 mod 64 * 4096 + r div 64 mod 64 * 64 + r mod 64, 4)"
    using rune4_bounds [OF digits4] assms by (intro Decode4) simp_all
  then show ?thesis unfolding digits4 using assms by (simp add: EncodeRune_def valid_rune_def)
qed

lemma Decode_Encode:
  assumes "valid_rune r"
  shows "DecodeRune (EncodeRune r @ s) = (r, length (EncodeRune r))"
proof -
  consider "r < 0x80" | "0x80 \<le> r" "r < 0x800" | "0x800 \<le> r" "r < 0x10000" | "0x10000 \<le> r" "r \<le> 0x10FFFF"
    using assms unfolding valid_rune_def by linarith
  then show ?thesis
  proof cases
    case 1
    then show ?thesis by (simp add: EncodeRune_ascii DecodeRune_def)
  next
    case 2
    then show ?thesis using Decode_Encode2 [of r s] by (simp add: EncodeRune_def valid_rune_def)
  next
    case 3
    then show ?thesis using Decode_Encode3 [of r s] assms by (simp add: EncodeRune_def)
  next
    case 4
    then show ?thesis using Decode_Encode4 [of r s] assms by (simp add: EncodeRune_def)
  qed
qed

text \<open>The other direction: what decodes without the error rune is the encoding of its rune.\<close>

lemma rune_parts3:
  assumes "b < 64" "c < (64 :: nat)"
  shows "(a * 4096 + b * 64 + c) div 4096 = a" "(a * 4096 + b * 64 + c) div 64 = a * 64 + b"
    "(a * 4096 + b * 64 + c) mod 64 = c"
proof -
  have e: "a * 4096 + b * 64 + c = (a * 64 + b) * 64 + c" by simp
  then show d: "(a * 4096 + b * 64 + c) div 64 = a * 64 + b" using assms by simp
  have "(a * 4096 + b * 64 + c) div 4096 = (a * 4096 + b * 64 + c) div 64 div 64"
    by (simp add: div_mult2_eq [symmetric])
  then show "(a * 4096 + b * 64 + c) div 4096 = a" using d assms by simp
  show "(a * 4096 + b * 64 + c) mod 64 = c" using e assms by (metis mod_less mod_mult_self3)
qed

lemma rune_parts4:
  assumes "b < 64" "c < 64" "d < (64 :: nat)"
  shows "(a * 262144 + b * 4096 + c * 64 + d) div 262144 = a"
    "(a * 262144 + b * 4096 + c * 64 + d) div 4096 = a * 64 + b"
    "(a * 262144 + b * 4096 + c * 64 + d) div 64 = (a * 64 + b) * 64 + c"
    "(a * 262144 + b * 4096 + c * 64 + d) mod 64 = d"
proof -
  have e: "a * 262144 + b * 4096 + c * 64 + d = (a * 64 + b) * 4096 + c * 64 + d" by simp
  show p: "(a * 262144 + b * 4096 + c * 64 + d) div 4096 = a * 64 + b"
    "(a * 262144 + b * 4096 + c * 64 + d) div 64 = (a * 64 + b) * 64 + c"
    "(a * 262144 + b * 4096 + c * 64 + d) mod 64 = d"
    unfolding e using assms(2,3) by (rule rune_parts3)+
  have "(a * 262144 + b * 4096 + c * 64 + d) div 262144 = (a * 262144 + b * 4096 + c * 64 + d) div 4096 div 64"
    by (simp add: div_mult2_eq [symmetric])
  then show "(a * 262144 + b * 4096 + c * 64 + d) div 262144 = a" using p assms by simp
qed

lemma Encode2:
  assumes "2 \<le> a" "a < 32" "b < 64"
  shows "EncodeRune (a * 64 + b) = [byte_of (192 + a), byte_of (128 + b)] \<and> valid_rune (a * 64 + b)"
  using assms by (simp add: EncodeRune_def valid_rune_def)

lemma Encode3:
  assumes "a < 16" "b < 64" "c < 64" "a = 0 \<Longrightarrow> 32 \<le> b" "a = 13 \<Longrightarrow> b < 32"
  shows "EncodeRune (a * 4096 + b * 64 + c) = [byte_of (224 + a), byte_of (128 + b), byte_of (128 + c)] \<and>
    valid_rune (a * 4096 + b * 64 + c)"
proof -
  let ?r = "a * 4096 + b * 64 + c"
  have r: "\<not> ?r < 0x800" "\<not> ?r < 0x80" "?r < 0x10000" using assms by linarith+
  have "a < 13 \<or> a = 13 \<or> 13 < a" by linarith
  then have v: "valid_rune ?r" using assms unfolding valid_rune_def by linarith
  have m: "(a * 64 + b) mod 64 = b" using assms by simp
  show ?thesis using r v unfolding EncodeRune_def Let_def
    by (simp only: rune_parts3 [OF assms(2,3)] m if_True if_False simp_thms)
qed

lemma Encode4:
  assumes "a < 5" "b < 64" "c < 64" "d < 64" "a = 0 \<Longrightarrow> 16 \<le> b" "a = 4 \<Longrightarrow> b < 16"
  shows "EncodeRune (a * 262144 + b * 4096 + c * 64 + d)
      = [byte_of (240 + a), byte_of (128 + b), byte_of (128 + c), byte_of (128 + d)] \<and>
    valid_rune (a * 262144 + b * 4096 + c * 64 + d)"
proof -
  let ?r = "a * 262144 + b * 4096 + c * 64 + d"
  have r: "\<not> ?r < 0x10000" "\<not> ?r < 0x800" "\<not> ?r < 0x80" "?r \<le> 0x10FFFF" using assms by linarith+
  have v: "valid_rune ?r" using r unfolding valid_rune_def by linarith
  have low: "y < 64 \<Longrightarrow> (x * 64 + y) mod 64 = y" for x y :: nat by simp
  note m = low [OF assms(2), of a] low [OF assms(3), of "a * 64 + b"]
  show ?thesis using r v unfolding EncodeRune_def Let_def
    by (simp only: rune_parts4 [OF assms(2,3,4)] m if_True if_False simp_thms)
qed

lemma byte_offset: "k \<le> nat_of x \<Longrightarrow> \<exists>b. x = byte_of (k + b) \<and> nat_of x = k + b"
  by (intro exI [of _ "nat_of x - k"]) simp

lemma cont_digit:
  assumes "128 \<le> nat_of x" "nat_of x \<le> 191"
  obtains b where "b < 64" "x = byte_of (128 + b)" "nat_of x = 128 + b"
  using byte_offset [OF assms(1)] assms by auto

lemma rune_lead_bytes:
  "rune_lead b = Some (2, lo, hi) \<Longrightarrow> 194 \<le> b \<and> b \<le> 223 \<and> lo = 128 \<and> hi = 191"
  "rune_lead b = Some (3, lo, hi) \<Longrightarrow> 224 \<le> b \<and> b \<le> 239 \<and> lo = (if b = 224 then 160 else 128) \<and>
     hi = (if b = 237 then 159 else 191)"
  "rune_lead b = Some (4, lo, hi) \<Longrightarrow> 240 \<le> b \<and> b \<le> 244 \<and> lo = (if b = 240 then 144 else 128) \<and>
     hi = (if b = 244 then 143 else 191)"
  by (auto simp: rune_lead_def split: if_splits)

lemma DecodeRune_multi:
  assumes "rune_lead (nat_of x) = Some (sz, lo, hi)" "DecodeRune (x # xs) = (r, n)" "\<not> (r = RuneError \<and> n = 1)"
  shows "\<exists>t. x # xs = EncodeRune r @ t \<and> valid_rune r \<and> n = length (EncodeRune r)"
proof -
  have big: "\<not> nat_of x < 128" using assms(1) by (auto simp: rune_lead_def split: if_splits)
  note D = assms(2,3) [unfolded DecodeRune_def Let_def] assms(1) big
  from rune_lead_size [OF assms(1)] consider "sz = 2" | "sz = 3" | "sz = 4" by auto
  then show ?thesis
  proof cases
    case 1
    obtain y ys where xs: "xs = y # ys" using D 1 by (cases xs) auto
    from rune_lead_bytes(1) assms(1) 1 have l: "194 \<le> nat_of x" "nat_of x \<le> 223" "lo = 128" "hi = 191" by auto
    obtain a where a: "x = byte_of (192 + a)" "nat_of x = 192 + a" using byte_offset [of 192 x] l by auto
    have "128 \<le> nat_of y" "nat_of y \<le> 191" using D 1 xs l by (auto split: if_splits)
    then obtain b where b: "b < 64" "y = byte_of (128 + b)" "nat_of y = 128 + b" by (rule cont_digit)
    have "r = a * 64 + b \<and> n = 2" using D 1 xs l a b by (auto simp: digit_mod split: if_splits)
    then show ?thesis using Encode2 [of a b] a b l xs by auto
  next
    case 2
    obtain y z zs where xs: "xs = y # z # zs" using D 2 by (cases xs; cases "tl xs") (auto split: if_splits)
    from rune_lead_bytes(2) assms(1) 2 have l: "224 \<le> nat_of x" "nat_of x \<le> 239"
      "lo = (if nat_of x = 224 then 160 else 128)" "hi = (if nat_of x = 237 then 159 else 191)" by blast+
    obtain a where a: "x = byte_of (224 + a)" "nat_of x = 224 + a" using byte_offset [of 224 x] l by auto
    have y: "lo \<le> nat_of y" "nat_of y \<le> hi" "128 \<le> nat_of z" "nat_of z \<le> 191"
      using D 2 xs by (auto simp: is_cont_def split: if_splits)
    then have "128 \<le> nat_of y" "nat_of y \<le> 191" using l by (auto split: if_splits)
    then obtain b where b: "b < 64" "y = byte_of (128 + b)" "nat_of y = 128 + b" by (rule cont_digit)
    obtain c where c: "c < 64" "z = byte_of (128 + c)" "nat_of z = 128 + c" using y cont_digit by metis
    have "r = a * 4096 + b * 64 + c \<and> n = 3" using D 2 xs l a b c by (auto simp: digit_mod split: if_splits)
    moreover have "a < 16" "a = 0 \<Longrightarrow> 32 \<le> b" "a = 13 \<Longrightarrow> b < 32" using y l a b by (auto split: if_splits)
    ultimately show ?thesis using Encode3 [of a b c] a b c xs by auto
  next
    case 3
    obtain y z w ws where xs: "xs = y # z # w # ws"
      using D 3 by (cases xs; cases "tl xs"; cases "tl (tl xs)") (auto split: if_splits)
    from rune_lead_bytes(3) assms(1) 3 have l: "240 \<le> nat_of x" "nat_of x \<le> 244"
      "lo = (if nat_of x = 240 then 144 else 128)" "hi = (if nat_of x = 244 then 143 else 191)" by blast+
    obtain a where a: "x = byte_of (240 + a)" "nat_of x = 240 + a" using byte_offset [of 240 x] l by auto
    have y: "lo \<le> nat_of y" "nat_of y \<le> hi" "128 \<le> nat_of z" "nat_of z \<le> 191" "128 \<le> nat_of w" "nat_of w \<le> 191"
      using D 3 xs by (auto simp: is_cont_def numeral_2_eq_2 split: if_splits)
    then have "128 \<le> nat_of y" "nat_of y \<le> 191" using l by (auto split: if_splits)
    then obtain b where b: "b < 64" "y = byte_of (128 + b)" "nat_of y = 128 + b" by (rule cont_digit)
    obtain c where c: "c < 64" "z = byte_of (128 + c)" "nat_of z = 128 + c" using y cont_digit by metis
    obtain d where d: "d < 64" "w = byte_of (128 + d)" "nat_of w = 128 + d" using y cont_digit by metis
    have "r = a * 262144 + b * 4096 + c * 64 + d \<and> n = 4"
      using D 3 xs l a b c d by (auto simp: digit_mod numeral_2_eq_2 split: if_splits)
    moreover have "a < 5" "a = 0 \<Longrightarrow> 16 \<le> b" "a = 4 \<Longrightarrow> b < 16" using y l a b by (auto split: if_splits)
    ultimately show ?thesis using Encode4 [of a b c d] a b c d xs by auto
  qed
qed

lemma DecodeRune_cases:
  assumes "DecodeRune s = (r, n)" "s \<noteq> []"
  shows "r = RuneError \<and> n = 1 \<or> (\<exists>t. s = EncodeRune r @ t \<and> valid_rune r \<and> n = length (EncodeRune r))"
proof -
  obtain x xs where s: "s = x # xs" using assms(2) by (cases s) auto
  show ?thesis
  proof (cases "rune_lead (nat_of x)")
    case (Some p)
    then show ?thesis using DecodeRune_multi assms(1) s by (cases p) blast
  next
    case None
    show ?thesis
    proof (cases "nat_of x < 128")
      case True
      then show ?thesis using assms(1) s
        by (auto simp: DecodeRune_def EncodeRune_ascii valid_rune_def)
    next
      case False
      then show ?thesis using None assms(1) s by (simp add: DecodeRune_def)
    qed
  qed
qed

subsection \<open>Strings as runes\<close>

text \<open>The pieces a \<open>range\<close> loop visits, each with its width in bytes.\<close>

function rune_pieces :: "string \<Rightarrow> (nat \<times> nat) list" where
  "rune_pieces s = (if s = [] then [] else DecodeRune s # rune_pieces (drop (snd (DecodeRune s)) s))"
  by pat_completeness auto
termination
  by (relation "measure length") (auto simp: DecodeRune_size_pos)

declare rune_pieces.simps [simp del]

definition runes :: "string \<Rightarrow> nat list" where
  "runes s = map fst (rune_pieces s)"

definition ValidString :: "string \<Rightarrow> bool" where
  "ValidString s = list_all (\<lambda>p. p \<noteq> (RuneError, 1)) (rune_pieces s)"

definition encode_runes :: "nat list \<Rightarrow> string" where
  "encode_runes rs = concat (map EncodeRune rs)"

definition strings_map :: "(nat \<Rightarrow> nat option) \<Rightarrow> string \<Rightarrow> string" where
  "strings_map f s =
     concat (map (\<lambda>r. case f r of None \<Rightarrow> [] | Some q \<Rightarrow> EncodeRune q) (runes s))"

lemma rune_pieces_Nil [simp]: "rune_pieces [] = []"
  by (simp add: rune_pieces.simps)

lemma runes_Nil [simp]: "runes [] = []"
  by (simp add: runes_def)

lemma rune_pieces_encode:
  "valid_rune r \<Longrightarrow> rune_pieces (EncodeRune r @ s) = (r, length (EncodeRune r)) # rune_pieces s"
  by (subst rune_pieces.simps) (simp add: Decode_Encode)

lemma runes_encode: "valid_rune r \<Longrightarrow> runes (EncodeRune r @ s) = r # runes s"
  by (simp add: runes_def rune_pieces_encode)

lemma runes_encode_runes: "list_all valid_rune rs \<Longrightarrow> runes (encode_runes rs @ s) = rs @ runes s"
  by (induction rs) (simp_all add: encode_runes_def runes_encode)

lemma rune_pieces_valid: "(r, n) \<in> set (rune_pieces s) \<Longrightarrow> valid_rune r"
proof (induction s rule: rune_pieces.induct)
  case (1 s)
  show ?case
  proof (cases "s = []")
    case False
    obtain q m where d: "DecodeRune s = (q, m)" by fastforce
    have "valid_rune q" using DecodeRune_cases [OF d False] by (auto simp: RuneError_def valid_rune_def)
    then show ?thesis using 1 False d by (auto simp: rune_pieces.simps [of s])
  qed (use 1 in simp)
qed

lemma runes_valid: "list_all valid_rune (runes s)"
  by (auto simp: list_all_iff runes_def dest: rune_pieces_valid)

lemma encode_of_runes: "ValidString s \<Longrightarrow> encode_runes (runes s) = s"
proof (induction s rule: rune_pieces.induct)
  case (1 s)
  show ?case
  proof (cases "s = []")
    case False
    obtain q m where d: "DecodeRune s = (q, m)" by fastforce
    have "ValidString (drop m s)" "\<not> (q = RuneError \<and> m = 1)"
      using 1(2) False d by (auto simp: ValidString_def rune_pieces.simps [of s])
    moreover from this DecodeRune_cases [OF d False] have "take m s = EncodeRune q" by auto
    ultimately show ?thesis
      using 1(1) [OF False] False d append_take_drop_id [of m s]
      by (simp add: runes_def encode_runes_def rune_pieces.simps [of s])
  qed (simp add: encode_runes_def)
qed

lemma ValidString_encode_runes:
  "list_all valid_rune rs \<Longrightarrow> ValidString (encode_runes rs)"
proof (induction rs)
  case (Cons r rs)
  have "length (EncodeRune r) = 1 \<Longrightarrow> r \<noteq> RuneError"
    by (auto simp: EncodeRune_def RuneError_def valid_rune_def Let_def)
  then show ?case using Cons by (auto simp: ValidString_def encode_runes_def rune_pieces_encode)
qed (simp add: ValidString_def encode_runes_def)

text \<open>An ASCII byte of an encoded string is an ASCII rune.\<close>

lemma ascii_in_EncodeRune:
  assumes "valid_rune r" "k < 128" "byte_of k \<in> set (EncodeRune r)"
  shows "r = k"
proof (cases "r < 128")
  case True
  then show ?thesis using assms by (simp add: EncodeRune_ascii byte_of_inj)
next
  case False
  have big: "r \<le> 0x10FFFF" using assms(1) unfolding valid_rune_def by linarith
  have "128 \<le> nat_of c" if "c \<in> set (EncodeRune r)" for c
  proof -
    have "r div 64 < 64" if "r < 0x800" using that by auto
    moreover have "r div 4096 < 32" if "r < 0x10000" using that by auto
    moreover have "r div 262144 < 16" using big by auto
    ultimately show ?thesis using that False assms(1) unfolding EncodeRune_def Let_def by (auto split: if_splits)
  qed
  from this [OF assms(3)] show ?thesis using assms(2) by simp
qed

lemma ascii_in_encode_runes:
  assumes "list_all valid_rune rs" "k < 128"
  shows "byte_of k \<in> set (encode_runes rs) \<longleftrightarrow> k \<in> set rs"
proof
  assume "byte_of k \<in> set (encode_runes rs)"
  then show "k \<in> set rs" using assms
    by (auto simp: encode_runes_def list_all_iff dest: ascii_in_EncodeRune)
next
  assume "k \<in> set rs"
  then show "byte_of k \<in> set (encode_runes rs)" using assms
    by (auto simp: encode_runes_def EncodeRune_ascii intro!: bexI [of _ k])
qed

subsection \<open>White space\<close>

text \<open>\<open>unicode.IsSpace\<close> and \<open>strings.TrimSpace\<close>, by the widths of the runes at either end.\<close>

definition is_space_rune :: "nat \<Rightarrow> bool" where
  "is_space_rune r \<longleftrightarrow> r \<in> {9, 10, 11, 12, 13, 32, 0x85, 0xA0, 0x1680, 0x2028, 0x2029, 0x202F, 0x205F, 0x3000} \<or>
     (0x2000 \<le> r \<and> r \<le> 0x200A)"

definition space_width :: "(nat \<times> nat) list \<Rightarrow> nat" where
  "space_width ps = sum_list (map snd (takeWhile (\<lambda>(r, n). is_space_rune r) ps))"

definition TrimSpace :: "string \<Rightarrow> string" where
  "TrimSpace s =
     (let ps = rune_pieces s;
          front = takeWhile (\<lambda>(r, n). is_space_rune r) ps;
          a = space_width ps;
          b = space_width (rev (drop (length front) ps))
      in take (length s - a - b) (drop a s))"

lemma rune_pieces_ascii: "\<forall>c\<in>set s. nat_of c < 128 \<Longrightarrow> rune_pieces s = map (\<lambda>c. (nat_of c, 1)) s"
proof (induction s)
  case (Cons c s)
  then have "DecodeRune (c # s) = (nat_of c, 1)" by (simp add: DecodeRune_def)
  then show ?case using Cons by (simp add: rune_pieces.simps [of "c # s"])
qed simp

lemma space_width_none: "\<forall>(r, n)\<in>set ps. \<not> is_space_rune r \<Longrightarrow> space_width ps = 0"
  by (cases ps) (auto simp: space_width_def)

lemma TrimSpace_plain: "\<forall>c\<in>set s. nat_of c < 128 \<and> \<not> is_space_rune (nat_of c) \<Longrightarrow> TrimSpace s = s"
proof -
  assume a: "\<forall>c\<in>set s. nat_of c < 128 \<and> \<not> is_space_rune (nat_of c)"
  then have p: "rune_pieces s = map (\<lambda>c. (nat_of c, 1)) s" by (intro rune_pieces_ascii) blast
  have "\<forall>(r, n)\<in>set (rune_pieces s). \<not> is_space_rune r" using a by (auto simp: p)
  then have "space_width (rune_pieces s) = 0" "takeWhile (\<lambda>(r, n). is_space_rune r) (rune_pieces s) = []"
    "space_width (rev (rune_pieces s)) = 0"
    by (auto simp: space_width_none takeWhile_eq_Nil_iff dest!: hd_in_set)
  then show ?thesis by (simp add: TrimSpace_def)
qed

end
