(* ===== verification/Text_Filter.thy ===== *)
theory Text_Filter
  imports Utf8
begin

text \<open>
  Text screening, \<^verbatim>\<open>src/lib/filter/filter.go\<close>: validation of chat text, display names and
  prefixes, neutralising stored names, and the terminal sanitizer. The Unicode general category is
  an argument \<open>gc\<close> (the standard library's tables); what a theorem needs of it is stated for the
  few code points concerned (\<open>gc_std\<close>). The sanitizer is idempotent and the identity on a grammar of
  harmless text (real colour sequences, web links, displayable runes); it maps onto that grammar every text
  whose colour sequences hold colour parameters, which it does not check itself.
\<close>

subsection \<open>Categories\<close>

datatype gcat = Lu | Ll | Lt | Lm | Lo | Mn | Mc | Me | Nd | Nl | No
  | Pc | Pd | Ps | Pe | Pi | Pf | Po | Sm | Sc | Sk | So | Zs | Zl | Zp | Cc | Cf | Cs | Co | Cn

definition IsLetter :: "gcat \<Rightarrow> bool" where
  "IsLetter c \<longleftrightarrow> c \<in> {Lu, Ll, Lt, Lm, Lo}"

definition IsGraphic :: "gcat \<Rightarrow> bool" where
  "IsGraphic c \<longleftrightarrow> c \<notin> {Zl, Zp, Cc, Cf, Cs, Co, Cn}"

datatype filter_error =
    ErrUtf8 | ErrFFFD | ErrCf nat | ErrMark nat | ErrLine nat | ErrNonGraphic nat
  | ErrInvalidDisplayName nat | ErrNoLetter | ErrInvalidDisplayPrefix nat

subsection \<open>Validation\<close>

fun message_runes :: "(nat \<Rightarrow> gcat) \<Rightarrow> nat list \<Rightarrow> filter_error option" where
  "message_runes gc [] = None"
| "message_runes gc (r # rs) =
     (if r = 10 then message_runes gc rs
      else if r = 0xFFFD then Some ErrFFFD
      else if gc r = Cf then Some (ErrCf r)
      else if gc r = Mn \<or> gc r = Me then Some (ErrMark r)
      else if gc r = Zl \<or> gc r = Zp then Some (ErrLine r)
      else if \<not> IsGraphic (gc r) then Some (ErrNonGraphic r)
      else message_runes gc rs)"

definition ValidateMessage :: "(nat \<Rightarrow> gcat) \<Rightarrow> string \<Rightarrow> filter_error option" where
  "ValidateMessage gc text = (if \<not> ValidString text then Some ErrUtf8 else message_runes gc (runes text))"

definition displayNameSeparators :: "nat list" where
  "displayNameSeparators = [0x20, 0x5F, 0x2D, 0x2E, 0x27]"

definition displayStructuralRunes :: "nat list" where
  "displayStructuralRunes = [0x7C, 0x2022, 0x23, 0x3A, 0x270D, 0x25C6, 0x21A9, 0x250C, 0x2514, 0x2500, 0xB7]"

definition displayLegacyAllowed :: "(nat \<Rightarrow> gcat) \<Rightarrow> nat \<Rightarrow> bool" where
  "displayLegacyAllowed gc r =
     (if r = 10 \<or> r = 0xFFFD then False
      else if gc r = Cf then False
      else if gc r = Mn \<or> gc r = Me then False
      else if gc r = Zl \<or> gc r = Zp then False
      else if \<not> IsGraphic (gc r) \<and> r \<noteq> 0x20 then False
      else True)"

text \<open>The loop carries \<open>hasLetterOrDigit\<close>.\<close>

fun name_runes :: "(nat \<Rightarrow> gcat) \<Rightarrow> bool \<Rightarrow> nat list \<Rightarrow> filter_error option" where
  "name_runes gc has [] = (if \<not> has then Some ErrNoLetter else None)"
| "name_runes gc has (r # rs) =
     (if IsLetter (gc r) \<or> gc r = Nd then name_runes gc True rs
      else if gc r = Mc then name_runes gc has rs
      else if r \<in> set displayNameSeparators then name_runes gc has rs
      else Some (ErrInvalidDisplayName r))"

definition ValidateDisplayName :: "(nat \<Rightarrow> gcat) \<Rightarrow> string \<Rightarrow> filter_error option" where
  "ValidateDisplayName gc name = (if \<not> ValidString name then Some ErrUtf8 else name_runes gc False (runes name))"

fun prefix_runes :: "(nat \<Rightarrow> gcat) \<Rightarrow> nat list \<Rightarrow> filter_error option" where
  "prefix_runes gc [] = None"
| "prefix_runes gc (r # rs) =
     (if r \<in> set displayStructuralRunes \<or> \<not> displayLegacyAllowed gc r then Some (ErrInvalidDisplayPrefix r)
      else prefix_runes gc rs)"

definition ValidateDisplayPrefix :: "(nat \<Rightarrow> gcat) \<Rightarrow> string \<Rightarrow> filter_error option" where
  "ValidateDisplayPrefix gc p = (if \<not> ValidString p then Some ErrUtf8 else prefix_runes gc (runes p))"

subsection \<open>Neutralising stored names\<close>

definition isHexDigits :: "string \<Rightarrow> bool" where
  "isHexDigits s \<longleftrightarrow> s \<noteq> [] \<and> list_all (\<lambda>c. let n = nat_of c in
     48 \<le> n \<and> n \<le> 57 \<or> 97 \<le> n \<and> n \<le> 102 \<or> 65 \<le> n \<and> n \<le> 70) s"

definition isDecimalDigits :: "string \<Rightarrow> bool" where
  "isDecimalDigits s \<longleftrightarrow> s \<noteq> [] \<and> list_all (\<lambda>c. \<not> (nat_of c < 48 \<or> nat_of c > 57)) s"

text \<open>\<open>strings.LastIndexByte\<close> as a split: what precedes the last occurrence and what follows it.\<close>

definition split_last :: "char \<Rightarrow> string \<Rightarrow> (string \<times> string) option" where
  "split_last z s =
     (let tl' = rev (takeWhile (\<lambda>c. c \<noteq> z) (rev s)) in
      if z \<in> set s then Some (take (length s - length tl' - 1) s, tl') else None)"

text \<open>The checks on what follows the last \<open>#\<close>: an optional decimal serial, four to six hex digits.\<close>

definition hash_suffix_ok :: "string \<Rightarrow> bool" where
  "hash_suffix_ok digits0 =
     (case (case split_last (CHR ''-'') digits0 of
              None \<Rightarrow> Some digits0
            | Some (d, serial) \<Rightarrow> if \<not> isDecimalDigits serial then None else Some d) of
        None \<Rightarrow> False
      | Some digits \<Rightarrow> \<not> (length digits < 4 \<or> length digits > 6 \<or> \<not> isHexDigits digits))"

definition splitDisplayHashSuffix :: "string \<Rightarrow> string \<times> string" where
  "splitDisplayHashSuffix name =
     (case split_last (CHR ''#'') name of
        None \<Rightarrow> (name, [])
      | Some (body, digits0) \<Rightarrow>
          if hash_suffix_ok digits0 then (body, CHR ''#'' # digits0) else (name, []))"

definition neutral_rune :: "nat \<Rightarrow> nat" where
  "neutral_rune r = (if r \<in> set displayStructuralRunes then 0x3F else r)"

definition NeutralizeDisplayName :: "string \<Rightarrow> string" where
  "NeutralizeDisplayName name =
     (let (body, tl') = splitDisplayHashSuffix name in
      if \<not> list_ex (\<lambda>r. r \<in> set displayStructuralRunes) (runes body) then name
      else encode_runes (map neutral_rune (runes body)) @ tl')"

subsection \<open>The terminal sanitizer\<close>

abbreviation ESC :: char where "ESC \<equiv> CHR 0x1B"
abbreviation BSL :: char where "BSL \<equiv> CHR 0x5C"

definition csi_final :: "char \<Rightarrow> bool" where
  "csi_final c \<longleftrightarrow> 0x40 \<le> nat_of c \<and> nat_of c \<le> 0x7E"

text \<open>The search for \<open>ESC \\\<close>: payload and remainder of the first occurrence.\<close>

fun find_st :: "string \<Rightarrow> (string \<times> string) option" where
  "find_st [] = None"
| "find_st [c] = None"
| "find_st (a # b # r) =
     (if a = ESC \<and> b = BSL then Some ([], r)
      else case find_st (b # r) of None \<Rightarrow> None | Some (p, t) \<Rightarrow> Some (a # p, t))"

definition split_first :: "char \<Rightarrow> string \<Rightarrow> (string \<times> string) option" where
  "split_first z s =
     (case dropWhile (\<lambda>c. c \<noteq> z) s of [] \<Rightarrow> None | _ # r \<Rightarrow> Some (takeWhile (\<lambda>c. c \<noteq> z) s, r))"

definition has_prefix :: "string \<Rightarrow> string \<Rightarrow> bool" where
  "has_prefix s p \<longleftrightarrow> take (length p) s = p"

definition osc8TargetAllowed :: "string \<Rightarrow> bool" where
  "osc8TargetAllowed payload =
     (if list_ex (\<lambda>c. nat_of c < 0x20 \<or> nat_of c = 0x7F) payload then False
      else if length payload < 2 \<or> payload ! 0 \<noteq> CHR ''8'' \<or> payload ! 1 \<noteq> CHR '';'' then False
      else case split_first (CHR '';'') (drop 2 payload) of
          None \<Rightarrow> False
        | Some (_, uri) \<Rightarrow>
            if uri = [] then True
            else let lower = to_lower uri in has_prefix lower ''http://'' \<or> has_prefix lower ''https://'')"

definition display_rune :: "(nat \<Rightarrow> gcat) \<Rightarrow> nat \<Rightarrow> bool" where
  "display_rune gc r \<longleftrightarrow>
     r \<noteq> RuneError \<and> gc r \<notin> {Cf, Mn, Me, Zl, Zp} \<and> (IsGraphic (gc r) \<or> r = 10 \<or> r = 0x20 \<or> r = 9)"

lemma find_st_shorter: "find_st s = Some (p, t) \<Longrightarrow> s = p @ ESC # BSL # t"
  by (induction s arbitrary: p t rule: find_st.induct) (auto split: if_splits option.splits)

lemma Decode_pos: "(q, n) = DecodeRune (c # r) \<Longrightarrow> 0 < n"
  using DecodeRune_size_pos [of "c # r"] by (metis list.distinct(1) snd_conv)

function SanitizeForDisplay :: "(nat \<Rightarrow> gcat) \<Rightarrow> string \<Rightarrow> string" where
  "SanitizeForDisplay gc s =
     (case s of
        [] \<Rightarrow> []
      | c # r \<Rightarrow>
          if c = ESC then
            (case r of
               [] \<Rightarrow> SanitizeForDisplay gc r
             | k # r' \<Rightarrow>
                 if k = CHR ''['' then
                   (let pre = takeWhile (\<lambda>x. \<not> csi_final x) r' in
                    case drop (length pre) r' of
                      [] \<Rightarrow> []
                    | f # rest \<Rightarrow>
                        if f = CHR ''m'' then ESC # k # pre @ f # SanitizeForDisplay gc rest
                        else SanitizeForDisplay gc rest)
                 else if k = CHR '']'' then
                   (case find_st r' of
                      None \<Rightarrow> []
                    | Some (payload, rest) \<Rightarrow>
                        if osc8TargetAllowed payload
                        then ESC # k # payload @ ESC # BSL # SanitizeForDisplay gc rest
                        else SanitizeForDisplay gc rest)
                 else SanitizeForDisplay gc r)
          else let (q, size) = DecodeRune s in
            if display_rune gc q then EncodeRune q @ SanitizeForDisplay gc (drop size s)
            else SanitizeForDisplay gc (drop size s))"
  by pat_completeness auto
termination
proof (relation "measure (\<lambda>(gc, s). length s)", goal_cases)
  case (3 gc s c r k r' pre f rest)
  then have "length rest < length (drop (length pre) r')" by (metis length_Cons lessI)
  then show ?case using 3 by simp
next
  case (4 gc s c r k r' pre f rest)
  then have "length rest < length (drop (length pre) r')" by (metis length_Cons lessI)
  then show ?case using 4 by simp
next
  case (5 gc s c r k r' p payload rest)
  then show ?case by (auto dest: find_st_shorter)
next
  case (6 gc s c r k r' p payload rest)
  then show ?case by (auto dest: find_st_shorter)
qed (auto dest: Decode_pos)

declare SanitizeForDisplay.simps [simp del]

definition SanitizeSingleLine :: "(nat \<Rightarrow> gcat) \<Rightarrow> string \<Rightarrow> string" where
  "SanitizeSingleLine gc s =
     strings_map (\<lambda>r. if r = 10 \<or> r = 13 then None else Some r) (SanitizeForDisplay gc s)"

definition CleanHistoryMessage :: "string \<Rightarrow> string" where
  "CleanHistoryMessage s = strings_map (\<lambda>r. if r = 0xFFFD then None else Some r) s"

subsection \<open>Accepted text\<close>

lemma message_runes_None:
  "message_runes gc rs = None \<longleftrightarrow>
     (\<forall>r \<in> set rs. r = 10 \<or> r \<noteq> 0xFFFD \<and> IsGraphic (gc r) \<and> gc r \<noteq> Mn \<and> gc r \<noteq> Me)"
  by (induction rs) (auto simp: IsGraphic_def)

lemma name_runes_None:
  "name_runes gc has rs = None \<longleftrightarrow>
     (\<forall>r \<in> set rs. IsLetter (gc r) \<or> gc r = Nd \<or> gc r = Mc \<or> r \<in> set displayNameSeparators) \<and>
     (has \<or> (\<exists>r \<in> set rs. IsLetter (gc r) \<or> gc r = Nd))"
  by (induction rs arbitrary: has) (auto simp: IsLetter_def)

lemma prefix_runes_None:
  "prefix_runes gc rs = None \<longleftrightarrow>
     (\<forall>r \<in> set rs. r \<notin> set displayStructuralRunes \<and> displayLegacyAllowed gc r)"
  by (induction rs) auto

text \<open>The categories of the code points the rules name.\<close>

definition gc_std :: "(nat \<Rightarrow> gcat) \<Rightarrow> bool" where
  "gc_std gc \<longleftrightarrow> list_all (\<lambda>r. gc r \<in> {Sm, Po, So}) displayStructuralRunes \<and>
     list_all (\<lambda>r. gc r \<in> {Zs, Pc, Pd, Po}) displayNameSeparators \<and> gc 10 = Cc \<and> gc 0xFFFD = So"

definition gc_example :: "nat \<Rightarrow> gcat" where
  "gc_example r =
     (if r < 0x20 \<or> r = 0x7F then Cc else if r = 0x20 then Zs
      else if 48 \<le> r \<and> r \<le> 57 then Nd else if 65 \<le> r \<and> r \<le> 90 then Lu
      else if 97 \<le> r \<and> r \<le> 122 then Ll else if r = 0x5F then Pc else if r = 0x2D then Pd
      else if r < 128 \<or> r = 0x2022 \<or> r = 0xB7 then Po else So)"

lemma gc_std_example: "gc_std gc_example"
  by (simp add: gc_std_def gc_example_def displayStructuralRunes_def displayNameSeparators_def)

lemma structural_not_separator: "r \<in> set displayNameSeparators \<Longrightarrow> r \<notin> set displayStructuralRunes"
  by (auto simp: displayStructuralRunes_def displayNameSeparators_def)

lemma accepted_name_rune:
  assumes "gc_std gc" "IsLetter (gc r) \<or> gc r = Nd \<or> gc r = Mc \<or> r \<in> set displayNameSeparators"
  shows "r \<notin> set displayStructuralRunes \<and> displayLegacyAllowed gc r"
proof (cases "r \<in> set displayNameSeparators")
  case True
  then have "gc r \<in> {Zs, Pc, Pd, Po}" using assms(1) by (simp add: gc_std_def list_all_iff)
  moreover have "r \<noteq> 10 \<and> r \<noteq> 0xFFFD" using True by (auto simp: displayNameSeparators_def)
  ultimately show ?thesis using structural_not_separator [OF True]
    by (auto simp: displayLegacyAllowed_def IsGraphic_def)
next
  case False
  with assms have c: "IsLetter (gc r) \<or> gc r = Nd \<or> gc r = Mc" by simp
  have "r \<notin> set displayStructuralRunes"
  proof
    assume "r \<in> set displayStructuralRunes"
    then have "gc r \<in> {Sm, Po, So}" using assms(1) by (simp add: gc_std_def list_all_iff)
    then show False using c by (auto simp: IsLetter_def)
  qed
  moreover have "r \<noteq> 10 \<and> r \<noteq> 0xFFFD" using assms(1) c by (auto simp: gc_std_def IsLetter_def)
  ultimately show ?thesis using c by (auto simp: displayLegacyAllowed_def IsGraphic_def IsLetter_def)
qed

subsection \<open>Splitting and neutralising\<close>

lemma split_last_unique: "z \<notin> set t \<Longrightarrow> split_last z (b @ z # t) = Some (b, t)"
proof -
  assume "z \<notin> set t"
  then have "takeWhile (\<lambda>c. c \<noteq> z) (rev t @ z # rev b) = rev t"
    by (auto simp: takeWhile_tail takeWhile_eq_all_conv)
  then show ?thesis by (simp add: split_last_def)
qed

lemma split_last_None: "split_last z s = None \<longleftrightarrow> z \<notin> set s"
  by (simp add: split_last_def Let_def)

lemma split_last_Some: "split_last z s = Some (b, t) \<Longrightarrow> s = b @ z # t \<and> z \<notin> set t"
proof -
  assume a: "split_last z s = Some (b, t)"
  then have "z \<in> set s" by (auto simp: split_last_def Let_def split: if_splits)
  then obtain b' t' where "s = b' @ z # t'" "z \<notin> set t'" by (meson split_list_last)
  then show ?thesis using a split_last_unique by fastforce
qed

lemma hex_no_dash: "isHexDigits s \<Longrightarrow> CHR ''-'' \<notin> set s \<and> CHR ''#'' \<notin> set s"
  by (auto simp: isHexDigits_def list_all_iff Let_def nat_of_def)

lemma hash_suffix_ok_hex:
  assumes "isHexDigits hash" "4 \<le> length hash" "length hash \<le> 6"
  shows "hash_suffix_ok hash"
proof -
  have "split_last (CHR ''-'') hash = None" using hex_no_dash [OF assms(1)] by (simp add: split_last_None)
  then show ?thesis using assms by (simp add: hash_suffix_ok_def)
qed

lemma splitDisplayHashSuffix_tail:
  "hash_suffix_ok d \<Longrightarrow> CHR ''#'' \<notin> set d \<Longrightarrow> splitDisplayHashSuffix (b @ CHR ''#'' # d) = (b, CHR ''#'' # d)"
  by (simp add: splitDisplayHashSuffix_def split_last_unique)

lemma splitDisplayHashSuffix_plain: "CHR ''#'' \<notin> set b \<Longrightarrow> splitDisplayHashSuffix b = (b, [])"
  using split_last_None [of "CHR ''#''" b] by (simp add: splitDisplayHashSuffix_def)

lemma splitDisplayHashSuffix_cases:
  assumes "splitDisplayHashSuffix name = (body, tl')"
  obtains "tl' = []" "body = name"
    | d where "tl' = CHR ''#'' # d" "name = body @ tl'" "hash_suffix_ok d" "CHR ''#'' \<notin> set d"
  using assms by (auto simp: splitDisplayHashSuffix_def split: option.splits if_splits dest!: split_last_Some)

lemma neutral_valid: "valid_rune r \<Longrightarrow> valid_rune (neutral_rune r)"
  by (simp add: neutral_rune_def valid_rune_def)

lemma neutral_not_structural: "neutral_rune r \<notin> set displayStructuralRunes"
  by (auto simp: neutral_rune_def displayStructuralRunes_def)

lemma ascii_bytes: "CHR ''#'' = byte_of 0x23" "ESC = byte_of 0x1B" "CHR 0x0A = byte_of 10" "CHR 0x0D = byte_of 13"
  using byte_of_nat_of [of "CHR ''#''"] byte_of_nat_of [of ESC] byte_of_nat_of [of "CHR 0x0A"]
    byte_of_nat_of [of "CHR 0x0D"] by (simp_all add: nat_of_def)

lemma neutral_body:
  "list_all valid_rune (map neutral_rune (runes body)) \<and>
   runes (encode_runes (map neutral_rune (runes body)) @ s) = map neutral_rune (runes body) @ runes s \<and>
   CHR ''#'' \<notin> set (encode_runes (map neutral_rune (runes body)))"
proof -
  have v: "list_all valid_rune (map neutral_rune (runes body))"
    using runes_valid [of body] by (auto simp: list_all_iff neutral_valid)
  moreover have "0x23 \<notin> set (map neutral_rune (runes body))"
    using neutral_not_structural by (auto simp: displayStructuralRunes_def)
  ultimately show ?thesis unfolding ascii_bytes
    using ascii_in_encode_runes [OF v] by (simp add: runes_encode_runes)
qed

lemma NeutralizeDisplayName_split:
  assumes "splitDisplayHashSuffix name = (body, tl')"
  shows "\<exists>b. NeutralizeDisplayName name = b @ tl' \<and> splitDisplayHashSuffix (b @ tl') = (b, tl') \<and>
    (\<forall>r \<in> set (runes b). r \<notin> set displayStructuralRunes)"
proof (cases "list_ex (\<lambda>r. r \<in> set displayStructuralRunes) (runes body)")
  case False
  moreover have "name = body @ tl'" using assms by (rule splitDisplayHashSuffix_cases) auto
  ultimately show ?thesis using assms by (auto simp: NeutralizeDisplayName_def list_ex_iff)
next
  case True
  let ?b = "encode_runes (map neutral_rune (runes body))"
  have "splitDisplayHashSuffix (?b @ tl') = (?b, tl')"
    using assms
  proof (cases rule: splitDisplayHashSuffix_cases)
    case 1
    then show ?thesis using neutral_body splitDisplayHashSuffix_plain by simp
  next
    case (2 d)
    then show ?thesis using splitDisplayHashSuffix_tail by simp
  qed
  moreover have "\<forall>r \<in> set (runes ?b). r \<notin> set displayStructuralRunes"
    using neutral_body [of body "[]"] neutral_not_structural by auto
  ultimately show ?thesis using True assms by (auto simp: NeutralizeDisplayName_def)
qed

subsection \<open>The sanitizer's output\<close>

text \<open>
  Text for a terminal: colour sequences, links and displayable runes, with a test \<open>colour\<close> of what stands between
  \<open>ESC [\<close> and \<open>m\<close>. A colour sequence proper (SGR of ECMA-48) has digits, colons and semicolons there;
  a link is OSC 8 to a web address, or the empty target that closes one.
\<close>

definition sgr_params :: "string \<Rightarrow> bool" where
  "sgr_params pre = list_all (\<lambda>c. 0x30 \<le> nat_of c \<and> nat_of c \<le> 0x3B) pre"

definition web_address :: "string \<Rightarrow> bool" where
  "web_address uri \<longleftrightarrow> (\<exists>host. to_lower uri = ''http://'' @ host \<or> to_lower uri = ''https://'' @ host)"

definition web_link :: "string \<Rightarrow> bool" where
  "web_link payload \<longleftrightarrow> (\<exists>params uri. payload = ''8;'' @ params @ '';'' @ uri \<and> CHR '';'' \<notin> set params \<and>
     (uri = [] \<or> web_address uri) \<and> list_all (\<lambda>c. 0x20 \<le> nat_of c \<and> nat_of c \<noteq> 0x7F) payload)"

inductive display_text :: "(string \<Rightarrow> bool) \<Rightarrow> (nat \<Rightarrow> gcat) \<Rightarrow> string \<Rightarrow> bool" for colour gc where
  safe_nil: "display_text colour gc []"
| safe_sgr: "colour pre \<Longrightarrow> list_all (\<lambda>c. \<not> csi_final c) pre \<Longrightarrow> display_text colour gc s \<Longrightarrow>
     display_text colour gc (ESC # CHR ''['' # pre @ CHR ''m'' # s)"
| safe_link: "web_link payload \<Longrightarrow> display_text colour gc s \<Longrightarrow>
     display_text colour gc (ESC # CHR '']'' # payload @ ESC # BSL # s)"
| safe_text: "display_rune gc r \<Longrightarrow> valid_rune r \<Longrightarrow> r \<noteq> 0x1B \<Longrightarrow> display_text colour gc s \<Longrightarrow>
     display_text colour gc (EncodeRune r @ s)"

definition safe_display :: "(nat \<Rightarrow> gcat) \<Rightarrow> string \<Rightarrow> bool" where
  "safe_display = display_text sgr_params"

text \<open>Every \<open>ESC [\<close> of a text that a final \<open>m\<close> ends has parameters that satisfy \<open>colour\<close>.\<close>

fun colours_pass :: "(string \<Rightarrow> bool) \<Rightarrow> string \<Rightarrow> bool" where
  "colours_pass colour [] = True"
| "colours_pass colour (c # r) =
     ((c = ESC \<and> take 1 r = ''['' \<and> take 1 (dropWhile (\<lambda>x. \<not> csi_final x) (tl r)) = ''m''
         \<longrightarrow> colour (takeWhile (\<lambda>x. \<not> csi_final x) (tl r))) \<and> colours_pass colour r)"

lemma colours_pass_drop: "colours_pass colour s \<Longrightarrow> colours_pass colour (drop n s)"
  by (induction s arbitrary: n) (auto simp: drop_Cons split: nat.splits)

lemma colours_pass_append: "colours_pass colour (a @ b) \<Longrightarrow> colours_pass colour b"
  using colours_pass_drop [of colour "a @ b" "length a"] by simp

lemma colours_pass_any: "colours_pass (\<lambda>_. True) s"
  by (induction s) auto

lemma has_prefix_iff: "has_prefix s p \<longleftrightarrow> (\<exists>t. s = p @ t)"
  by (auto simp: has_prefix_def) (metis append_take_drop_id)

lemma split_first_Some: "split_first z s = Some (a, b) \<longleftrightarrow> s = a @ z # b \<and> z \<notin> set a"
proof
  assume "split_first z s = Some (a, b)"
  then have "a = takeWhile (\<lambda>c. c \<noteq> z) s" "\<exists>y. dropWhile (\<lambda>c. c \<noteq> z) s = y # b"
    by (auto simp: split_first_def split: list.splits)
  moreover from this obtain y where y: "dropWhile (\<lambda>c. c \<noteq> z) s = y # b" by blast
  moreover have "y = z" using y by (simp add: dropWhile_eq_Cons_conv)
  ultimately show "s = a @ z # b \<and> z \<notin> set a" by (metis set_takeWhileD takeWhile_dropWhile_id)
next
  assume "s = a @ z # b \<and> z \<notin> set a"
  then have "takeWhile (\<lambda>c. c \<noteq> z) s = a" "dropWhile (\<lambda>c. c \<noteq> z) s = z # b"
    by (auto simp: takeWhile_tail takeWhile_eq_all_conv dropWhile_append)
  then show "split_first z s = Some (a, b)" by (simp add: split_first_def)
qed

text \<open>The sanitizer's test of a link target is exactly the specification's.\<close>

lemma osc8_iff_web_link: "osc8TargetAllowed p \<longleftrightarrow> web_link p"
proof (cases "take 2 p = ''8;'' \<and> list_all (\<lambda>c. 0x20 \<le> nat_of c \<and> nat_of c \<noteq> 0x7F) p")
  case True
  then obtain q where q: "p = ''8;'' @ q" by (metis append_take_drop_id)
  have ctl: "\<not> list_ex (\<lambda>c. nat_of c < 0x20 \<or> nat_of c = 0x7F) p" using True by (auto simp: list_all_iff list_ex_iff)
  have "osc8TargetAllowed p \<longleftrightarrow> (\<exists>a u. split_first (CHR '';'') q = Some (a, u) \<and> (u = [] \<or> web_address u))"
    using ctl by (auto simp: osc8TargetAllowed_def q has_prefix_iff web_address_def Let_def split: option.splits)
  also have "\<dots> \<longleftrightarrow> web_link p"
    using True by (auto simp: split_first_Some web_link_def q)
  finally show ?thesis .
next
  case False
  then have "\<not> web_link p" by (auto simp: web_link_def)
  moreover have "\<not> osc8TargetAllowed p"
  proof
    assume o: "osc8TargetAllowed p"
    then have "\<not> list_ex (\<lambda>c. nat_of c < 0x20 \<or> nat_of c = 0x7F) p" "2 \<le> length p" "p ! 0 = CHR ''8''" "p ! 1 = CHR '';''"
      by (auto simp: osc8TargetAllowed_def split: if_splits)
    then have "list_all (\<lambda>c. 0x20 \<le> nat_of c \<and> nat_of c \<noteq> 0x7F) p" "take 2 p = ''8;''"
      by (auto simp: list_all_iff list_ex_iff not_less intro!: nth_equalityI simp: less_Suc_eq numeral_2_eq_2)
    then show False using False by simp
  qed
  ultimately show ?thesis by simp
qed

lemma csi_final_m [simp]: "csi_final (CHR ''m'')"
  by (simp add: csi_final_def nat_of_def)

lemma Sanitize_Nil [simp]: "SanitizeForDisplay gc [] = []"
  by (simp add: SanitizeForDisplay.simps)

lemma Sanitize_sgr:
  assumes "list_all (\<lambda>c. \<not> csi_final c) pre"
  shows "SanitizeForDisplay gc (ESC # CHR ''['' # pre @ CHR ''m'' # s)
    = ESC # CHR ''['' # pre @ CHR ''m'' # SanitizeForDisplay gc s"
proof -
  have "takeWhile (\<lambda>c. \<not> csi_final c) (pre @ CHR ''m'' # s) = pre"
    using assms by (simp add: takeWhile_tail takeWhile_eq_all_conv list_all_iff)
  then show ?thesis by (subst SanitizeForDisplay.simps) simp
qed

lemma find_st_clean: "ESC \<notin> set p \<Longrightarrow> find_st (p @ ESC # BSL # s) = Some (p, s)"
proof (induction p)
  case (Cons a p)
  then show ?case by (cases p) auto
qed simp

lemma osc8_no_esc: "osc8TargetAllowed p \<Longrightarrow> ESC \<notin> set p"
  by (force simp: osc8TargetAllowed_def list_ex_iff nat_of_def split: if_splits)

lemma Sanitize_link:
  assumes "osc8TargetAllowed p"
  shows "SanitizeForDisplay gc (ESC # CHR '']'' # p @ ESC # BSL # s)
    = ESC # CHR '']'' # p @ ESC # BSL # SanitizeForDisplay gc s"
  using assms find_st_clean [OF osc8_no_esc [OF assms]] by (subst SanitizeForDisplay.simps) simp

lemma Sanitize_text:
  assumes "display_rune gc r" "valid_rune r" "r \<noteq> 0x1B"
  shows "SanitizeForDisplay gc (EncodeRune r @ s) = EncodeRune r @ SanitizeForDisplay gc s"
proof -
  obtain c cs where e: "EncodeRune r = c # cs" by (cases "EncodeRune r") auto
  have "c \<noteq> ESC"
  proof
    assume "c = ESC"
    then have "byte_of 0x1B \<in> set (EncodeRune r)" using e by (simp add: ascii_bytes)
    then show False using ascii_in_EncodeRune [of r "0x1B"] assms by simp
  qed
  then show ?thesis using Decode_Encode [OF assms(2), of s] assms(1)
    by (subst SanitizeForDisplay.simps) (simp add: e)
qed

lemma display_text_fixed: "display_text colour gc s \<Longrightarrow> SanitizeForDisplay gc s = s"
  by (induction rule: display_text.induct)
     (simp_all add: Sanitize_sgr Sanitize_link Sanitize_text osc8_iff_web_link)

lemma Sanitize_display_text: "colours_pass colour s \<Longrightarrow> display_text colour gc (SanitizeForDisplay gc s)"
proof (induction gc s rule: SanitizeForDisplay.induct)
  case (1 gc s)
  note pass = 1(9)
  show ?case
  proof (cases s)
    case Nil
    then show ?thesis by (simp add: safe_nil)
  next
    case s: (Cons c r)
    show ?thesis
    proof (cases "c = ESC")
      case esc: True
      show ?thesis
      proof (cases r)
        case Nil
        then show ?thesis using s esc by (simp add: SanitizeForDisplay.simps safe_nil)
      next
        case r: (Cons k r')
        let ?pre = "takeWhile (\<lambda>x. \<not> csi_final x) r'"
        have pre: "list_all (\<lambda>x. \<not> csi_final x) ?pre" by (auto simp: list_all_iff dest: set_takeWhileD)
        consider "k = CHR ''[''" | "k = CHR '']''" | "k \<noteq> CHR ''[''" "k \<noteq> CHR '']''" by blast
        then show ?thesis
        proof cases
          case k: 1
          show ?thesis
          proof (cases "drop (length ?pre) r'")
            case Nil
            then show ?thesis using s esc r k by (subst SanitizeForDisplay.simps) (simp add: safe_nil)
          next
            case (Cons f rest)
            then have "r' = ?pre @ f # rest" "dropWhile (\<lambda>x. \<not> csi_final x) r' = f # rest"
              by (metis append_take_drop_id takeWhile_eq_take, simp add: dropWhile_eq_drop)
            then have "colours_pass colour rest" "f = CHR ''m'' \<Longrightarrow> colour ?pre"
              using pass s esc r k colours_pass_append [of colour "?pre @ [f]" rest] by auto
            then show ?thesis using s esc r k pre Cons 1(2,3) [OF s esc r k refl Cons]
              by (subst SanitizeForDisplay.simps) (auto intro: safe_sgr)
          qed
        next
          case k: 2
          then have k': "k \<noteq> CHR ''[''" by simp
          show ?thesis
          proof (cases "find_st r'")
            case None
            then show ?thesis using s esc r k by (subst SanitizeForDisplay.simps) (simp add: safe_nil)
          next
            case (Some pt)
            then obtain p t where f: "find_st r' = Some (p, t)" by (cases pt) auto
            have "colours_pass colour t"
              using pass s esc r find_st_shorter [OF f] colours_pass_append [of colour "p @ [ESC, BSL]" t] by simp
            then show ?thesis using s esc r k f 1(4,5) [OF s esc r k' k f refl]
              by (subst SanitizeForDisplay.simps) (auto simp: osc8_iff_web_link intro: safe_link)
          qed
        next
          case 3
          then show ?thesis using s esc r pass 1(6) [OF s esc r] by (subst SanitizeForDisplay.simps) simp
        qed
      qed
    next
      case plain: False
      obtain q n where d: "DecodeRune s = (q, n)" by fastforce
      note IH = 1(7,8) [OF s plain d [symmetric] refl _ colours_pass_drop [OF pass]]
      show ?thesis
      proof (cases "display_rune gc q")
        case True
        then have "q \<noteq> RuneError" by (simp add: display_rune_def)
        then obtain t where t: "s = EncodeRune q @ t" "valid_rune q" using DecodeRune_cases [OF d] s by auto
        moreover have "q \<noteq> 0x1B" using t s plain by (auto simp: EncodeRune_ascii ascii_bytes)
        moreover have "SanitizeForDisplay gc s = EncodeRune q @ SanitizeForDisplay gc (drop n s)"
          using s plain d True by (subst SanitizeForDisplay.simps) simp
        ultimately show ?thesis using IH(1) True by (auto intro: safe_text)
      next
        case False
        then show ?thesis using IH s plain d by (subst SanitizeForDisplay.simps) auto
      qed
    qed
  qed
qed

subsection \<open>Properties\<close>

text \<open>An accepted display name cannot forge header structure: it carries no structural rune, obeys the
  earlier rule for names as well, and once minted with its hash suffix it is printed unchanged by
  the neutraliser.\<close>

theorem accepted_name_is_inert:
  assumes "gc_std gc" "ValidateDisplayName gc name = None"
    and "isHexDigits hash" "4 \<le> length hash" "length hash \<le> 6"
  shows "(\<forall>r \<in> set (runes name). r \<notin> set displayStructuralRunes \<and> displayLegacyAllowed gc r) \<and>
    NeutralizeDisplayName (name @ CHR ''#'' # hash) = name @ CHR ''#'' # hash"
proof -
  have "name_runes gc False (runes name) = None"
    using assms(2) by (simp add: ValidateDisplayName_def split: if_splits)
  then have ok: "\<forall>r \<in> set (runes name). r \<notin> set displayStructuralRunes \<and> displayLegacyAllowed gc r"
    using accepted_name_rune [OF assms(1)] by (simp add: name_runes_None)
  have "splitDisplayHashSuffix (name @ CHR ''#'' # hash) = (name, CHR ''#'' # hash)"
    using hash_suffix_ok_hex [OF assms(3-5)] hex_no_dash [OF assms(3)] by (simp add: splitDisplayHashSuffix_tail)
  then show ?thesis using ok by (auto simp: NeutralizeDisplayName_def list_ex_iff)
qed

lemma example_name_runes: "runes ''al-1'' = [0x61, 0x6C, 0x2D, 0x31]" "ValidString ''al-1''"
proof -
  have e: "''al-1'' = encode_runes [0x61, 0x6C, 0x2D, 0x31]"
    using byte_of_nat_of [of "CHR ''a''"] byte_of_nat_of [of "CHR ''l''"] byte_of_nat_of [of "CHR ''-''"]
      byte_of_nat_of [of "CHR ''1''"]
    by (simp add: encode_runes_def EncodeRune_ascii nat_of_def)
  have v: "list_all valid_rune [0x61, 0x6C, 0x2D, 0x31]" by (simp add: valid_rune_def)
  from runes_encode_runes [OF v, of "[]"] ValidString_encode_runes [OF v]
  show "runes ''al-1'' = [0x61, 0x6C, 0x2D, 0x31]" "ValidString ''al-1''" by (simp_all add: e)
qed

theorem accepted_name_is_inert_witness:
  "ValidateDisplayName gc_example ''al-1'' = None \<and>
   NeutralizeDisplayName (''al-1'' @ CHR ''#'' # ''0a1b'') = ''al-1#0a1b''"
proof -
  have "ValidateDisplayName gc_example ''al-1'' = None"
    by (simp add: ValidateDisplayName_def example_name_runes gc_example_def IsLetter_def displayNameSeparators_def)
  moreover have "isHexDigits ''0a1b''" by (simp add: isHexDigits_def nat_of_def)
  ultimately show ?thesis
    using accepted_name_is_inert [OF gc_std_example, of "''al-1''" "''0a1b''"] by simp
qed

text \<open>Neutralising a stored name keeps its hash suffix, leaves no structural rune in the rest, and is
  idempotent.\<close>

theorem NeutralizeDisplayName_inert:
  "\<exists>b. NeutralizeDisplayName name = b @ snd (splitDisplayHashSuffix name) \<and>
     set (runes b) \<inter> set displayStructuralRunes = {} \<and>
     NeutralizeDisplayName (NeutralizeDisplayName name) = NeutralizeDisplayName name"
proof -
  obtain body tl' where s: "splitDisplayHashSuffix name = (body, tl')" by fastforce
  from NeutralizeDisplayName_split [OF this] obtain b where
    b: "NeutralizeDisplayName name = b @ tl'" "splitDisplayHashSuffix (b @ tl') = (b, tl')"
    "set (runes b) \<inter> set displayStructuralRunes = {}" by auto
  then have "NeutralizeDisplayName (b @ tl') = b @ tl'"
    by (auto simp: NeutralizeDisplayName_def list_ex_iff)
  then show ?thesis using b s by auto
qed

text \<open>C36. Terminal safety. If the colour sequences of the input hold nothing but colour parameters (digits,
  colons, semicolons), the sanitizer's output is made of such colour sequences, links to web addresses and
  displayable runes; text of that form is printed unchanged; and on any input the sanitizer is idempotent. It does not check
  the parameters itself, hence the condition (\<open>sanitizer_passes_nested_escape\<close> below).\<close>

theorem sanitizer_output_safe:
  "(colours_pass sgr_params s \<longrightarrow> safe_display gc (SanitizeForDisplay gc s)) \<and>
   (safe_display gc s \<longrightarrow> SanitizeForDisplay gc s = s) \<and>
   SanitizeForDisplay gc (SanitizeForDisplay gc s) = SanitizeForDisplay gc s"
proof -
  have "SanitizeForDisplay gc (SanitizeForDisplay gc s) = SanitizeForDisplay gc s"
    by (rule display_text_fixed [OF Sanitize_display_text [OF colours_pass_any]])
  then show ?thesis using Sanitize_display_text [of sgr_params s gc] display_text_fixed [of sgr_params gc s]
    by (simp add: safe_display_def)
qed

text \<open>Red text, then a sequence that clears the screen: the colour stays, the other goes.\<close>

definition ex_coloured :: string where
  "ex_coloured = ESC # ''[31mab'' @ ESC # ''[2Jc''"

lemma ex_coloured_passes: "colours_pass sgr_params ex_coloured"
  by (simp add: ex_coloured_def sgr_params_def csi_final_def nat_of_def)

lemma Sanitize_ascii:
  assumes "display_rune gc (nat_of c)" "nat_of c < 128" "c \<noteq> ESC"
  shows "SanitizeForDisplay gc (c # s) = c # SanitizeForDisplay gc s"
proof -
  have "EncodeRune (nat_of c) = [c]" using assms(2) by (simp add: EncodeRune_ascii)
  moreover have "nat_of c \<noteq> 0x1B" using assms(3) by (metis ascii_bytes(2) byte_of_nat_of)
  moreover have "valid_rune (nat_of c)" using assms(2) by (simp add: valid_rune_def)
  ultimately show ?thesis using Sanitize_text [of gc "nat_of c" s] assms(1) by simp
qed

lemma ex_coloured_result: "SanitizeForDisplay gc_example ex_coloured = ESC # ''[31mabc''"
proof -
  have "list_all (\<lambda>c. \<not> csi_final c) ''31''" by (simp add: csi_final_def nat_of_def)
  from Sanitize_sgr [OF this, of gc_example]
  have "SanitizeForDisplay gc_example (ESC # ''[31m'' @ t) = ESC # ''[31m'' @ SanitizeForDisplay gc_example t" for t by simp
  moreover have "SanitizeForDisplay gc_example (ESC # ''[2J'' @ t) = SanitizeForDisplay gc_example t" for t
    by (subst SanitizeForDisplay.simps) (simp add: csi_final_def nat_of_def)
  ultimately show ?thesis unfolding ex_coloured_def
    by (simp add: Sanitize_ascii display_rune_def gc_example_def IsGraphic_def nat_of_def RuneError_def)
qed

theorem sanitizer_output_safe_witness:
  "SanitizeForDisplay gc_example ex_coloured = ESC # ''[31mabc'' \<and> safe_display gc_example (ESC # ''[31mabc'') \<and>
   SanitizeForDisplay gc_example (ESC # ''[31mabc'') = ESC # ''[31mabc''"
  using sanitizer_output_safe [of ex_coloured gc_example] sanitizer_output_safe [of "ESC # ''[31mabc''" gc_example]
    ex_coloured_passes unfolding ex_coloured_result by blast

text \<open>One-line fields: after \<open>SanitizeSingleLine\<close> no line feed or carriage return is left, not even
  inside a colour sequence.\<close>

theorem single_line_fields:
  "CHR 0x0A \<notin> set (SanitizeSingleLine gc s) \<and> CHR 0x0D \<notin> set (SanitizeSingleLine gc s) \<and>
   ValidString (SanitizeSingleLine gc s)"
proof -
  let ?rs = "filter (\<lambda>r. r \<noteq> 10 \<and> r \<noteq> 13) (runes (SanitizeForDisplay gc s))"
  have "concat (map (\<lambda>r. case if r = 10 \<or> r = 13 then None else Some r of None \<Rightarrow> [] | Some q \<Rightarrow> EncodeRune q) rs)
      = encode_runes (filter (\<lambda>r. r \<noteq> 10 \<and> r \<noteq> 13) rs)" for rs
    by (induction rs) (auto simp: encode_runes_def)
  then have e: "SanitizeSingleLine gc s = encode_runes ?rs"
    by (simp add: SanitizeSingleLine_def strings_map_def)
  have v: "list_all valid_rune ?rs" using runes_valid by (auto simp: list_all_iff)
  show ?thesis unfolding e ascii_bytes
    using ascii_in_encode_runes [OF v] ValidString_encode_runes [OF v] by simp
qed

text \<open>The colour exemption is wider than colour: parameter bytes are not checked, so an escape sequence
  of non-final bytes nested in it (here a screen alignment test) reaches the terminal.\<close>

theorem sanitizer_passes_nested_escape:
  "SanitizeForDisplay gc [ESC, CHR ''['', ESC, CHR ''#'', CHR ''8'', CHR ''m'']
     = [ESC, CHR ''['', ESC, CHR ''#'', CHR ''8'', CHR ''m'']"
proof -
  have "list_all (\<lambda>c. \<not> csi_final c) [ESC, CHR ''#'', CHR ''8'']" by (simp add: csi_final_def nat_of_def)
  from Sanitize_sgr [OF this, of gc "[]"] show ?thesis by simp
qed

end
