(* ===== verification/History_Window.thy ===== *)
theory History_Window
  imports Chain_Integrity Text_Filter Tags "HOL-Library.Multiset"
begin

text \<open>
  Reading the log back, \<^verbatim>\<open>src/server/history.go\<close>: the tail-window ring, height and sequence
  cursors, exact height ranges, the announcement of the served window and the replay stream with
  its trailer. The ring is shown to be the last lines of the prefix before the cutoff, the cursor
  pages to partition the log, and the replay accounting to add up whatever the peer's queue does.
\<close>

subsection \<open>The window ring\<close>

record windowRing =
  wrBuf :: "stored_line list"
  wrStart :: nat
  wrN :: nat
  wrLimit :: nat
  wrDone :: bool

definition newWindowRing :: "int \<Rightarrow> windowRing" where
  "newWindowRing limit =
     \<lparr>wrBuf = [], wrStart = 0, wrN = 0, wrLimit = (if limit < 0 then 0 else nat limit), wrDone = False\<rparr>"

text \<open>The cutoff test of \<open>feed\<close>: a chained line at or above \<open>before\<close>.\<close>

definition at_cutoff :: "u64 \<Rightarrow> stored_line \<Rightarrow> bool" where
  "at_cutoff before l =
     (before \<noteq> 0 \<and> (case unmarshal l of None \<Rightarrow> False | Some w \<Rightarrow> wChainHeight w \<noteq> 0 \<and> wChainHeight w \<ge> before))"

definition feed :: "stored_line \<Rightarrow> u64 \<Rightarrow> windowRing \<Rightarrow> bool \<times> windowRing" where
  "feed msg before r =
     (if wrDone r then (True, r)
      else if at_cutoff before msg then (True, r\<lparr>wrDone := True\<rparr>)
      else if wrLimit r \<le> 0 then (False, r)
      else if wrN r < wrLimit r then (False, r\<lparr>wrBuf := wrBuf r @ [msg], wrN := wrN r + 1\<rparr>)
      else (False, r\<lparr>wrBuf := (wrBuf r)[wrStart r := msg], wrStart := (wrStart r + 1) mod wrLimit r\<rparr>))"

definition ring_lines :: "windowRing \<Rightarrow> stored_line list" where
  "ring_lines r = map (\<lambda>i. wrBuf r ! ((wrStart r + i) mod wrLimit r)) [0..<wrN r]"

text \<open>The loop \<open>for \<dots> { if r.feed(\<dots>) { break } }\<close>.\<close>

fun feed_all :: "stored_line list \<Rightarrow> u64 \<Rightarrow> windowRing \<Rightarrow> windowRing" where
  "feed_all [] before r = r"
| "feed_all (l # ls) before r = (case feed l before r of (stop, r') \<Rightarrow> if stop then r' else feed_all ls before r')"

definition selectWindow :: "stored_line list \<Rightarrow> u64 \<Rightarrow> int \<Rightarrow> stored_line list" where
  "selectWindow ls before limit =
     (if limit \<le> 0 then [] else ring_lines (feed_all ls before (newWindowRing limit)))"

subsection \<open>The served window\<close>

fun oldest_loop :: "stored_line list \<Rightarrow> u64 \<times> bool \<Rightarrow> u64 \<times> bool" where
  "oldest_loop [] st = st"
| "oldest_loop (l # ls) (oldest, found) =
     (case unmarshal l of
        None \<Rightarrow> oldest_loop ls (oldest, found)
      | Some w \<Rightarrow>
          if wChainHeight w = 0 then oldest_loop ls (oldest, found)
          else if \<not> found \<or> wChainHeight w < oldest then oldest_loop ls (wChainHeight w, True)
          else oldest_loop ls (oldest, found))"

definition oldestChained :: "stored_line list \<Rightarrow> u64" where
  "oldestChained ls = (case oldest_loop ls (0, False) of (oldest, found) \<Rightarrow> if \<not> found then 0 else oldest)"

text \<open>The backwards search for the newest chained height.\<close>

fun newest_height :: "stored_line list \<Rightarrow> u64 option" where
  "newest_height [] = None"
| "newest_height (l # rev_ls) =
     (case unmarshal l of
        Some w \<Rightarrow> if wChainHeight w > 0 then Some (wChainHeight w) else newest_height rev_ls
      | None \<Rightarrow> newest_height rev_ls)"

definition historyInfo :: "ChainService \<Rightarrow> HistoryInfo" where
  "historyInfo c =
     (let h = csHistory c; n = length h;
          info0 = \<lparr>hiType = ''history_info'', hiMinSeq = 0, hiMaxSeq = 0, hiMinHeight = 0, hiMaxHeight = 0,
                   hiCount = n\<rparr>
      in if n = 0 then info0
         else let
           info1 = (case unmarshal (h ! 0) of Some w \<Rightarrow> info0\<lparr>hiMinSeq := wSeq w\<rparr> | None \<Rightarrow> info0);
           info2 = (case unmarshal (h ! (n - 1)) of Some w \<Rightarrow> info1\<lparr>hiMaxSeq := wSeq w\<rparr> | None \<Rightarrow> info1);
           info3 = info2\<lparr>hiMinHeight := oldestChained h\<rparr>;
           info4 = (case newest_height (rev h) of Some x \<Rightarrow> info3\<lparr>hiMaxHeight := x\<rparr> | None \<Rightarrow> info3);
           info5 = (if hiMinSeq info4 > hiMaxSeq info4
                    then info4\<lparr>hiMinSeq := hiMaxSeq info4, hiMaxSeq := hiMinSeq info4\<rparr> else info4)
         in if hiMinHeight info5 > hiMaxHeight info5
            then info5\<lparr>hiMinHeight := hiMaxHeight info5, hiMaxHeight := hiMinHeight info5\<rparr> else info5)"

subsection \<open>Cursor pages\<close>

fun after_loop :: "u64 \<Rightarrow> int \<Rightarrow> stored_line list \<Rightarrow> stored_line list \<times> u64 \<Rightarrow> stored_line list \<times> bool \<times> u64" where
  "after_loop afterSeq limit [] (acc, next) = (acc, False, 0)"
| "after_loop afterSeq limit (l # ls) (acc, next) =
     (case unmarshal l of
        None \<Rightarrow> after_loop afterSeq limit ls (acc, next)
      | Some w \<Rightarrow>
          if wSeq w \<le> afterSeq then after_loop afterSeq limit ls (acc, next)
          else if int (length acc) = limit then (acc, True, next)
          else after_loop afterSeq limit ls (acc @ [l], wSeq w))"

definition collectAfterSeq :: "u64 \<Rightarrow> int \<Rightarrow> ChainService \<Rightarrow> stored_line list \<times> bool \<times> u64" where
  "collectAfterSeq afterSeq limit c =
     (if limit \<le> 0 then ([], False, 0) else after_loop afterSeq limit (csHistory c) ([], 0))"

fun before_loop :: "u64 \<Rightarrow> int \<Rightarrow> stored_line list \<Rightarrow> stored_line list \<times> u64 \<Rightarrow> stored_line list \<times> bool \<times> u64" where
  "before_loop beforeSeq limit [] (acc, next) = (acc, False, 0)"
| "before_loop beforeSeq limit (l # rev_ls) (acc, next) =
     (case unmarshal l of
        None \<Rightarrow> before_loop beforeSeq limit rev_ls (acc, next)
      | Some w \<Rightarrow>
          if wSeq w = 0 \<or> wSeq w \<ge> beforeSeq then before_loop beforeSeq limit rev_ls (acc, next)
          else if int (length acc) = limit then (acc, True, next)
          else before_loop beforeSeq limit rev_ls (acc @ [l], wSeq w))"

definition collectBeforeSeq :: "u64 \<Rightarrow> int \<Rightarrow> ChainService \<Rightarrow> stored_line list \<times> bool \<times> u64" where
  "collectBeforeSeq beforeSeq limit c =
     (if limit \<le> 0 then ([], False, 0)
      else before_loop (if beforeSeq = 0 then -1 else beforeSeq) limit (rev (csHistory c)) ([], 0))"

subsection \<open>Exact height ranges\<close>

definition valid_ranges :: "HeightRange list \<Rightarrow> HeightRange list" where
  "valid_ranges ranges = filter (\<lambda>r. \<not> (hrFrom r = 0 \<or> hrFrom r > hrTo r)) ranges"

definition in_ranges :: "HeightRange list \<Rightarrow> u64 \<Rightarrow> bool" where
  "in_ranges rs h = list_ex (\<lambda>r. h \<ge> hrFrom r \<and> h \<le> hrTo r) rs"

fun range_loop :: "HeightRange list \<Rightarrow> u64 \<Rightarrow> int \<Rightarrow> stored_line list \<Rightarrow> stored_line list \<Rightarrow> stored_line list" where
  "range_loop rs maxTo limit [] out = out"
| "range_loop rs maxTo limit (l # ls) out =
     (case unmarshal l of
        None \<Rightarrow> range_loop rs maxTo limit ls out
      | Some w \<Rightarrow>
          if wChainHeight w = 0 \<or> wChainHeight w > maxTo then range_loop rs maxTo limit ls out
          else if \<not> in_ranges rs (wChainHeight w) then range_loop rs maxTo limit ls out
          else if int (length (out @ [l])) \<ge> limit then out @ [l]
          else range_loop rs maxTo limit ls (out @ [l]))"

text \<open>\<open>sort.Slice\<close> by \<open>From\<close>; ranges with the same \<open>From\<close> may come out in any order, so the
  sorting routine is an argument with its contract \<open>sorts_ranges\<close>.\<close>

definition sorts_ranges :: "(HeightRange list \<Rightarrow> HeightRange list) \<Rightarrow> bool" where
  "sorts_ranges srt \<longleftrightarrow> (\<forall>rs. mset (srt rs) = mset rs \<and> sorted (map hrFrom (srt rs)))"

definition collectRanges ::
  "(HeightRange list \<Rightarrow> HeightRange list) \<Rightarrow> HeightRange list \<Rightarrow> int \<Rightarrow> ChainService \<Rightarrow> stored_line list" where
  "collectRanges srt ranges limit c =
     (if limit \<le> 0 \<or> length ranges = 0 then []
      else let rs0 = valid_ranges ranges in
        if length rs0 = 0 then []
        else let rs = srt rs0; maxTo = hrTo (last rs) in range_loop rs maxTo limit (csHistory c) [])"

subsection \<open>What the ring holds\<close>

definition ring_holds :: "stored_line list \<Rightarrow> windowRing \<Rightarrow> bool" where
  "ring_holds xs r \<longleftrightarrow> 0 < wrLimit r \<and> wrN r = min (wrLimit r) (length xs) \<and> length (wrBuf r) = wrN r \<and>
     wrStart r < wrLimit r \<and> (wrN r < wrLimit r \<longrightarrow> wrStart r = 0) \<and> ring_lines r = last_n (wrLimit r) xs"

lemma last_n_snoc_full: "n \<le> length xs \<Longrightarrow> 0 < n \<Longrightarrow> last_n n (xs @ [x]) = tl (last_n n xs) @ [x]"
  by (simp add: last_n_def drop_Suc [symmetric] Suc_diff_le tl_drop)

lemma ring_overwrite:
  assumes "length buf = L" "st < L"
  shows "map (\<lambda>i. buf[st := x] ! (((st + 1) mod L + i) mod L)) [0..<L] = tl (map (\<lambda>i. buf ! ((st + i) mod L)) [0..<L]) @ [x]"
proof (rule nth_equalityI)
  fix i assume "i < length (map (\<lambda>i. buf[st := x] ! (((st + 1) mod L + i) mod L)) [0..<L])"
  then have i: "i < L" by simp
  have idx: "((st + 1) mod L + i) mod L = (st + Suc i) mod L" by (simp add: mod_add_left_eq)
  show "map (\<lambda>i. buf[st := x] ! (((st + 1) mod L + i) mod L)) [0..<L] ! i
      = (tl (map (\<lambda>i. buf ! ((st + i) mod L)) [0..<L]) @ [x]) ! i"
  proof (cases "Suc i = L")
    case True
    then show ?thesis using assms i idx by (auto simp: nth_append)
  next
    case False
    then have "(st + Suc i) mod L \<noteq> st" using assms(2) i
      by (cases "st + Suc i < L") (auto simp: mod_if)
    then show ?thesis using False i idx by (auto simp: nth_append nth_tl)
  qed
qed (use assms in simp)

lemma feed_holds:
  assumes "ring_holds xs r" "\<not> wrDone r" "\<not> at_cutoff before l"
  obtains r' where "feed l before r = (False, r')" "ring_holds (xs @ [l]) r'" "\<not> wrDone r'" "wrLimit r' = wrLimit r"
proof (cases "wrN r < wrLimit r")
  case True
  let ?r = "r\<lparr>wrBuf := wrBuf r @ [l], wrN := wrN r + 1\<rparr>"
  have h: "length (wrBuf r) = wrN r" "wrStart r = 0" "wrN r = length xs" "ring_lines r = xs"
    using assms(1) True by (auto simp: ring_holds_def last_n_all)
  have plain: "map (\<lambda>i. b ! ((0 + i) mod wrLimit r)) [0..<length b] = b" if "length b \<le> wrLimit r" for b :: "stored_line list"
    using that by (intro nth_equalityI) simp_all
  have "wrBuf r = xs" using plain [of "wrBuf r"] h True by (simp add: ring_lines_def)
  then have "ring_lines ?r = xs @ [l]" using plain [of "xs @ [l]"] h True by (simp add: ring_lines_def)
  then have "ring_holds (xs @ [l]) ?r" using h True by (simp add: ring_holds_def last_n_all)
  then show ?thesis using that [of ?r] assms True by (simp add: feed_def)
next
  case False
  let ?r = "r\<lparr>wrBuf := (wrBuf r)[wrStart r := l], wrStart := (wrStart r + 1) mod wrLimit r\<rparr>"
  have h: "length (wrBuf r) = wrLimit r" "wrN r = wrLimit r" "wrStart r < wrLimit r" "0 < wrLimit r"
    "wrLimit r \<le> length xs" "ring_lines r = last_n (wrLimit r) xs"
    using assms(1) False by (auto simp: ring_holds_def)
  then have "ring_lines ?r = tl (ring_lines r) @ [l]"
    using ring_overwrite [OF h(1,3), of l] by (simp add: ring_lines_def)
  then have "ring_holds (xs @ [l]) ?r" using h by (simp add: ring_holds_def last_n_snoc_full)
  then show ?thesis using that [of ?r] assms h by (simp add: feed_def)
qed

lemma feed_all_holds:
  assumes "ring_holds xs r" "\<not> wrDone r"
  shows "ring_holds (xs @ takeWhile (\<lambda>l. \<not> at_cutoff before l) ls) (feed_all ls before r) \<and>
    wrLimit (feed_all ls before r) = wrLimit r \<and> wrDone (feed_all ls before r) = list_ex (at_cutoff before) ls"
  using assms
proof (induction ls arbitrary: xs r)
  case (Cons l ls)
  show ?case
  proof (cases "at_cutoff before l")
    case True
    then show ?thesis using Cons.prems by (auto simp: feed_def ring_holds_def ring_lines_def)
  next
    case False
    from feed_holds [OF Cons.prems False] obtain r' where
      r: "feed l before r = (False, r')" "ring_holds (xs @ [l]) r'" "\<not> wrDone r'" "wrLimit r' = wrLimit r" by metis
    show ?thesis using Cons.IH [OF r(2,3)] r False by simp
  qed
qed simp

lemma ring_new: "0 < limit \<Longrightarrow> ring_holds [] (newWindowRing limit)"
  by (simp add: ring_holds_def newWindowRing_def ring_lines_def last_n_def)

lemma selectWindow_eq:
  assumes "0 < limit"
  shows "selectWindow ls before limit = last_n (nat limit) (takeWhile (\<lambda>l. \<not> at_cutoff before l) ls)"
  using feed_all_holds [OF ring_new [OF assms], of before ls] assms
  by (simp add: selectWindow_def ring_holds_def newWindowRing_def)

subsection \<open>Pages as slices\<close>

text \<open>Both cursor loops skip lines and then fill one page.\<close>

fun take_page :: "int \<Rightarrow> stored_line list \<Rightarrow> stored_line list \<times> u64 \<Rightarrow> stored_line list \<times> bool \<times> u64" where
  "take_page limit [] (acc, next) = (acc, False, 0)"
| "take_page limit (l # ls) (acc, next) =
     (if int (length acc) = limit then (acc, True, next) else take_page limit ls (acc @ [l], line_seq l))"

lemma after_loop_page:
  "after_loop a limit ls st = take_page limit (filter (\<lambda>l. a < line_seq l) ls) st"
  by (induction a limit ls st rule: after_loop.induct)
    (auto simp: line_seq_def not_less split: option.splits)

lemma before_loop_page:
  "before_loop b limit ls st = take_page limit (filter (\<lambda>l. line_seq l \<noteq> 0 \<and> line_seq l < b) ls) st"
  by (induction b limit ls st rule: before_loop.induct)
    (auto simp: line_seq_def not_le split: option.splits)

lemma take_page_eq:
  assumes "int (length acc) \<le> limit" "k = nat limit - length acc"
  shows "take_page limit ls (acc, nx) =
    (acc @ take k ls, k < length ls,
     if k < length ls then (if k = 0 then nx else line_seq (ls ! (k - 1))) else 0)"
  using assms
proof (induction ls arbitrary: acc nx k)
  case (Cons l ls)
  show ?case
  proof (cases "int (length acc) = limit")
    case True
    then show ?thesis using Cons.prems by simp
  next
    case False
    then have "0 < k" and a: "int (length (acc @ [l])) \<le> limit" "k - 1 = nat limit - length (acc @ [l])"
      using Cons.prems by auto
    then obtain j where j: "k = Suc j" by (cases k) auto
    show ?thesis using Cons.IH [OF a] False j by (cases j) auto
  qed
qed simp

lemma filter_after_nth:
  assumes "sorted_wrt R ys" "i < length ys" "asymp R"
  shows "filter (R (ys ! i)) ys = drop (Suc i) ys"
proof -
  have s: "sorted_wrt R (take i ys @ ys ! i # drop (Suc i) ys)"
    using assms(1,2) by (simp add: id_take_nth_drop [symmetric])
  have "filter (R (ys ! i)) (take i ys @ ys ! i # drop (Suc i) ys) = drop (Suc i) ys"
    using s asympD [OF assms(3)]
    by (auto simp: sorted_wrt_append filter_empty_conv filter_id_conv)
  then show ?thesis using assms(2) by (simp add: id_take_nth_drop [symmetric])
qed

text \<open>One page of a strictly ordered list and its resume point.\<close>

lemma page_slice:
  assumes "sorted_wrt (\<lambda>x y. R (line_seq x) (line_seq y)) ys" "asymp R" "0 < limit"
    and "take_page limit ys ([], 0) = (ls, mr, nx)"
  shows "mr \<Longrightarrow> ls \<noteq> [] \<and> ys = ls @ filter (\<lambda>l. R nx (line_seq l)) ys \<and> (\<exists>l \<in> set ys. nx = line_seq l)"
    and "\<not> mr \<Longrightarrow> ls = ys"
proof -
  let ?k = "nat limit"
  have t: "ls = take ?k ys" "mr = (?k < length ys)" "?k < length ys \<Longrightarrow> nx = line_seq (ys ! (?k - 1))"
    using assms(3,4) take_page_eq [of "[]" limit ?k ys 0] by auto
  show "\<not> mr \<Longrightarrow> ls = ys" using t by simp
  assume mr
  then have k: "?k < length ys" "0 < ?k" using t assms(3) by auto
  have "asymp (\<lambda>x y. R (line_seq x) (line_seq y))" using assms(2) by (auto simp: asymp_on_def)
  from filter_after_nth [OF assms(1) _ this, of "?k - 1"] k
  have "filter (\<lambda>l. R nx (line_seq l)) ys = drop ?k ys" using t(3) by simp
  then show "ls \<noteq> [] \<and> ys = ls @ filter (\<lambda>l. R nx (line_seq l)) ys \<and> (\<exists>l \<in> set ys. nx = line_seq l)"
    using t k by (auto intro!: bexI [of _ "ys ! (?k - 1)"])
qed

definition after_wanted :: "ChainService \<Rightarrow> u64 \<Rightarrow> stored_line list" where
  "after_wanted c a = filter (\<lambda>l. a < line_seq l) (csHistory c)"

definition before_wanted :: "ChainService \<Rightarrow> u64 \<Rightarrow> stored_line list" where
  "before_wanted c b =
     filter (\<lambda>l. line_seq l \<noteq> 0 \<and> line_seq l < (if b = 0 then -1 else b)) (rev (csHistory c))"

definition cursors_ok :: "int \<Rightarrow> ChainService \<Rightarrow> bool" where
  "cursors_ok limit c \<longleftrightarrow> 0 < limit \<and> sorted_wrt (<) (map line_seq (csHistory c))"

lemma sorted_wrt_filter': "sorted_wrt R xs \<Longrightarrow> sorted_wrt R (filter P xs)"
  by (induction xs) auto

interpretation after_pages: paging "\<lambda>a. collectAfterSeq a limit c" "after_wanted c" "\<lambda>_. cursors_ok limit c"
  for limit c
proof
  fix a ls n
  assume ok: "cursors_ok limit c"
  let ?ys = "after_wanted c a"
  have s: "sorted_wrt (\<lambda>x y. line_seq x < line_seq y) ?ys" "0 < limit"
    using ok by (auto simp: cursors_ok_def sorted_wrt_map after_wanted_def intro: sorted_wrt_filter')
  have f: "collectAfterSeq a limit c = take_page limit ?ys ([], 0)"
    using s(2) by (simp add: collectAfterSeq_def after_loop_page after_wanted_def)
  note slice = page_slice [where R = "(<)", OF s(1) asymp_on_less s(2)]
  show "ls = ?ys" if "collectAfterSeq a limit c = (ls, False, n)" using slice(2) that f by metis
  show "ls \<noteq> [] \<and> ?ys = ls @ after_wanted c n \<and> cursors_ok limit c" if "collectAfterSeq a limit c = (ls, True, n)"
  proof -
    from slice(1) that f have p: "ls \<noteq> []" "?ys = ls @ filter (\<lambda>l. n < line_seq l) ?ys" "\<exists>l \<in> set ?ys. n = line_seq l"
      by metis+
    moreover have "filter (\<lambda>l. n < line_seq l) ?ys = after_wanted c n"
      using p(3) by (auto simp: after_wanted_def intro!: filter_cong)
    ultimately show ?thesis using ok by simp
  qed
qed

interpretation before_pages: paging "\<lambda>b. collectBeforeSeq b limit c" "before_wanted c" "\<lambda>_. cursors_ok limit c"
  for limit c
proof
  fix b ls n
  assume ok: "cursors_ok limit c"
  let ?ys = "before_wanted c b"
  have s: "sorted_wrt (\<lambda>x y. line_seq x > line_seq y) ?ys" "0 < limit"
    using ok by (auto simp: cursors_ok_def sorted_wrt_map before_wanted_def sorted_wrt_rev intro!: sorted_wrt_filter')
  have f: "collectBeforeSeq b limit c = take_page limit ?ys ([], 0)"
    using s(2) by (simp add: collectBeforeSeq_def before_loop_page before_wanted_def)
  note slice = page_slice [where R = "(>)", OF s(1) asymp_on_greater s(2)]
  show "ls = ?ys" if "collectBeforeSeq b limit c = (ls, False, n)" using slice(2) that f by metis
  show "ls \<noteq> [] \<and> ?ys = ls @ before_wanted c n \<and> cursors_ok limit c" if "collectBeforeSeq b limit c = (ls, True, n)"
  proof -
    from slice(1) that f have p: "ls \<noteq> []" "?ys = ls @ filter (\<lambda>l. n > line_seq l) ?ys" "\<exists>l \<in> set ?ys. n = line_seq l"
      by metis+
    moreover have "filter (\<lambda>l. n > line_seq l) ?ys = before_wanted c n"
      using p(3) by (auto simp: before_wanted_def intro!: filter_cong split: if_splits)
    ultimately show ?thesis using ok by simp
  qed
qed

subsection \<open>Ranges as a filter\<close>

definition line_height :: "stored_line \<Rightarrow> u64" where
  "line_height l = (case unmarshal l of Some w \<Rightarrow> wChainHeight w | None \<Rightarrow> 0)"

lemma range_loop_eq:
  assumes "int (length out) < limit"
  shows "range_loop rs maxTo limit ls out = out @ take (nat limit - length out)
    (filter (\<lambda>l. line_height l \<noteq> 0 \<and> line_height l \<le> maxTo \<and> in_ranges rs (line_height l)) ls)"
  using assms
proof (induction rs maxTo limit ls out rule: range_loop.induct)
  case (2 rs maxTo limit l ls out)
  show ?case
  proof (cases "unmarshal l")
    case None
    then show ?thesis using 2 by (simp add: line_height_def)
  next
    case (Some w)
    let ?h = "wChainHeight w"
    consider "?h = 0 \<or> maxTo < ?h" | "\<not> (?h = 0 \<or> maxTo < ?h)" "\<not> in_ranges rs ?h"
      | "\<not> (?h = 0 \<or> maxTo < ?h)" "in_ranges rs ?h" by blast
    then show ?thesis
    proof cases
      case 1
      then show ?thesis using 2(2) [OF Some 1] 2(5) Some by (auto simp: line_height_def)
    next
      case b: 2
      then show ?thesis using 2(3) [OF Some b(1)] 2(5) Some by (auto simp: line_height_def)
    next
      case 3
      show ?thesis
      proof (cases "int (length (out @ [l])) \<ge> limit")
        case True
        then have "nat limit - length out = 1" using 2(5) by auto
        then show ?thesis using True 3 Some by (auto simp: line_height_def not_less)
      next
        case False
        then have "nat limit - length out = Suc (nat limit - length (out @ [l]))" by auto
        then show ?thesis using 2(4) [OF Some 3(1)] False 3 Some by (auto simp: line_height_def not_less)
      qed
    qed
  qed
qed simp

lemma in_ranges_mset: "mset rs = mset qs \<Longrightarrow> in_ranges rs h = in_ranges qs h"
  by (simp add: in_ranges_def list_ex_iff mset_eq_setD [of rs qs])

lemma collectRanges_eq:
  assumes "sorts_ranges srt" "0 < limit" "valid_ranges ranges \<noteq> []"
  shows "collectRanges srt ranges limit c = take (nat limit)
    (filter (\<lambda>l. line_height l \<noteq> 0 \<and> line_height l \<le> hrTo (last (srt (valid_ranges ranges))) \<and>
      in_ranges (valid_ranges ranges) (line_height l)) (csHistory c))"
proof -
  have "ranges \<noteq> []" using assms(3) by (auto simp: valid_ranges_def)
  moreover have "in_ranges (srt (valid_ranges ranges)) = in_ranges (valid_ranges ranges)"
    using assms(1) in_ranges_mset unfolding sorts_ranges_def by blast
  ultimately show ?thesis using assms by (simp add: collectRanges_def Let_def range_loop_eq)
qed

definition disjoint_ranges :: "HeightRange list \<Rightarrow> bool" where
  "disjoint_ranges rs \<longleftrightarrow>
     list_all (\<lambda>r. list_all (\<lambda>q. r = q \<or> hrTo r < hrFrom q \<or> hrTo q < hrFrom r) rs) rs"

lemma last_has_max_to:
  assumes "sorts_ranges srt" "rs = srt (valid_ranges ranges)" "disjoint_ranges (valid_ranges ranges)" "r \<in> set rs"
  shows "hrTo r \<le> hrTo (last rs)"
proof -
  have m: "set rs = set (valid_ranges ranges)" "sorted (map hrFrom rs)"
    using assms(1,2) mset_eq_setD unfolding sorts_ranges_def by blast+
  have l: "last rs \<in> set rs" using assms(4) by (intro last_in_set) auto
  have le: "hrFrom r \<le> hrFrom (last rs)"
  proof -
    obtain i where i: "i < length rs" "r = rs ! i" using assms(4) by (auto simp: in_set_conv_nth)
    then have "map hrFrom rs ! i \<le> map hrFrom rs ! (length rs - 1)"
      using m(2) by (intro sorted_nth_mono) auto
    moreover have "last rs = rs ! (length rs - 1)" using i by (intro last_conv_nth) auto
    ultimately show ?thesis using i by simp
  qed
  have "r = last rs \<or> hrTo r < hrFrom (last rs) \<or> hrTo (last rs) < hrFrom r"
    using assms(3,4) l m(1) by (auto simp: disjoint_ranges_def list_all_iff)
  moreover have "hrFrom (last rs) \<le> hrTo (last rs)" using l m(1) by (auto simp: valid_ranges_def)
  ultimately show ?thesis using le by auto
qed

subsection \<open>Bounds of the served window\<close>

lemma oldest_loop_spec:
  "oldest_loop ls (o0, f0) =
    (let hs = filter (\<lambda>h. h \<noteq> 0) (map line_height ls) in
     if hs = [] then (o0, f0) else (fold min hs (if f0 then o0 else hd hs), True))"
proof (induction ls arbitrary: o0 f0)
  case (Cons l ls)
  show ?case
    using Cons [of o0 f0] Cons [of "line_height l" True]
    by (cases "unmarshal l") (auto simp: line_height_def Let_def min_def not_less)
qed simp

definition heights :: "stored_line list \<Rightarrow> u64 list" where
  "heights ls = filter (\<lambda>h. h \<noteq> 0) (map line_height ls)"

lemma oldestChained_Min: "oldestChained ls = (if heights ls = [] then 0 else Min (set (heights ls)))"
proof (cases "heights ls")
  case Nil
  then show ?thesis by (simp add: oldestChained_def oldest_loop_spec heights_def Let_def)
next
  case (Cons h hs)
  have "fold min (h # hs) h = Min (set (h # hs))"
    by (simp only: Min.set_eq_fold fold_simps(2) min.idem)
  then show ?thesis using Cons by (simp add: oldestChained_def oldest_loop_spec heights_def Let_def del: fold_simps)
qed

lemma newest_height_eq: "newest_height (rev ls) = (if heights ls = [] then None else Some (last (heights ls)))"
proof (induction ls rule: rev_induct)
  case (snoc l ls)
  then show ?case by (cases "unmarshal l") (auto simp: heights_def line_height_def word_gt_0)
qed (simp add: heights_def)

lemma info_fields:
  "hiMinSeq i = 0 \<Longrightarrow> (case unmarshal l of Some w \<Rightarrow> i\<lparr>hiMinSeq := wSeq w\<rparr> | None \<Rightarrow> i) = i\<lparr>hiMinSeq := line_seq l\<rparr>"
  "hiMaxSeq i = 0 \<Longrightarrow> (case unmarshal l of Some w \<Rightarrow> i\<lparr>hiMaxSeq := wSeq w\<rparr> | None \<Rightarrow> i) = i\<lparr>hiMaxSeq := line_seq l\<rparr>"
  "hiMaxHeight i = 0 \<Longrightarrow> (case newest_height (rev h) of Some x \<Rightarrow> i\<lparr>hiMaxHeight := x\<rparr> | None \<Rightarrow> i)
     = i\<lparr>hiMaxHeight := (if heights h = [] then 0 else last (heights h))\<rparr>"
  by (cases i; simp add: line_seq_def newest_height_eq split: option.splits)+

lemma swap_min: "(a :: u64) > b \<Longrightarrow> min a b = b \<and> max a b = a" "\<not> (a :: u64) > b \<Longrightarrow> min a b = a \<and> max a b = b"
  by auto

lemma historyInfo_eq:
  assumes "csHistory c \<noteq> []"
  shows "historyInfo c =
    (let a = line_seq (hd (csHistory c)); b = line_seq (last (csHistory c));
         p = oldestChained (csHistory c);
         q = (if heights (csHistory c) = [] then 0 else last (heights (csHistory c)))
     in \<lparr>hiType = ''history_info'', hiMinSeq = min a b, hiMaxSeq = max a b,
         hiMinHeight = min p q, hiMaxHeight = max p q, hiCount = length (csHistory c)\<rparr>)"
proof -
  let ?h = "csHistory c"
  define q where "q = (if heights ?h = [] then 0 else last (heights ?h))"
  have ends: "hd ?h = ?h ! 0" "last ?h = ?h ! (length ?h - 1)" "length ?h \<noteq> 0"
    using assms by (simp_all add: hd_conv_nth last_conv_nth)
  show ?thesis
    unfolding historyInfo_def Let_def ends(1,2) q_def [symmetric]
    using ends(3)
    by (cases "line_seq (?h ! 0) > line_seq (?h ! (length ?h - 1))"; cases "oldestChained ?h > q")
      (simp_all add: info_fields q_def [symmetric] swap_min del: One_nat_def)
qed

subsection \<open>Properties\<close>

definition ex_line :: "nat \<Rightarrow> stored_line" where
  "ex_line n = JsonLine (ex_chat\<lparr>wSeq := of_nat n, wChainHeight := of_nat n\<rparr>)"

definition ex_log :: "nat \<Rightarrow> ChainService" where
  "ex_log n = new_chain\<lparr>csHistory := map ex_line [1..<Suc n]\<rparr>"

lemma ex_line_fields [simp]: "line_height (ex_line n) = of_nat n" "line_seq (ex_line n) = of_nat n"
  by (simp_all add: ex_line_def line_height_def line_seq_def)

lemma ex_log_lines:
  "csHistory (ex_log 3) = [ex_line 1, ex_line 2, ex_line 3]"
  "csHistory (ex_log 4) = [ex_line 1, ex_line 2, ex_line 3, ex_line 4]"
  by (simp_all add: ex_log_def upt_rec eval_nat_numeral)

text \<open>The circular buffer is the tail window: \<open>selectWindow\<close> returns the last \<open>limit\<close> lines of those
  stored before the first chained height at or above \<open>before\<close>, oldest first, and nothing for a
  non-positive limit.\<close>

theorem selectWindow_is_tail_before_cutoff:
  "selectWindow ls before limit =
     (if limit \<le> 0 then [] else last_n (nat limit) (takeWhile (\<lambda>l. \<not> at_cutoff before l) ls))"
  using selectWindow_eq by (simp add: selectWindow_def not_le)

text \<open>C34. If the cursors of the stored lines strictly increase, following the ascending cursor from any point delivers every
  stored line after it, once and in order, for every positive page size; following the descending cursor does the same backwards.\<close>

theorem cursor_pages_complete:
  assumes "sorted_wrt (<) (map line_seq (csHistory c))" "0 < limit" "length (csHistory c) < n"
  shows "drain_pages (\<lambda>a. collectAfterSeq a limit c) n a = filter (\<lambda>l. a < line_seq l) (csHistory c) \<and>
    drain_pages (\<lambda>b. collectBeforeSeq b limit c) n b =
      filter (\<lambda>l. line_seq l \<noteq> 0 \<and> line_seq l < (if b = 0 then - 1 else b)) (rev (csHistory c))"
proof -
  have ok: "cursors_ok limit c" using assms by (simp add: cursors_ok_def)
  have "length (after_wanted c a) < n" "length (before_wanted c b) < n"
    using assms(3) by (auto simp: after_wanted_def before_wanted_def intro: le_less_trans [OF length_filter_le])
  from after_pages.drain_complete [OF ok this(1)] before_pages.drain_complete [OF ok this(2)]
  show ?thesis by (simp add: after_wanted_def before_wanted_def)
qed

theorem cursor_pages_complete_witness:
  "drain_pages (\<lambda>a. collectAfterSeq a 2 (ex_log 3)) 4 1 = [ex_line 2, ex_line 3] \<and>
   drain_pages (\<lambda>b. collectBeforeSeq b 2 (ex_log 3)) 4 3 = [ex_line 2, ex_line 1]"
  using cursor_pages_complete [of "ex_log 3" 2 4 1 3]
  by (simp add: ex_log_lines word_less_nat_alt)

text \<open>Refill is exact for disjoint ranges: the response is the first \<open>limit\<close> stored lines whose chained
  height lies in one of the valid ranges, in log order.\<close>

theorem refill_exact_for_disjoint_ranges:
  assumes "sorts_ranges srt" "0 < limit" "valid_ranges ranges \<noteq> []" "disjoint_ranges (valid_ranges ranges)"
  shows "collectRanges srt ranges limit c = take (nat limit)
    (filter (\<lambda>l. line_height l \<noteq> 0 \<and> in_ranges (valid_ranges ranges) (line_height l)) (csHistory c))"
proof -
  have "h \<le> hrTo (last (srt (valid_ranges ranges)))" if "in_ranges (valid_ranges ranges) h" for h
  proof -
    from that obtain r where r: "r \<in> set (valid_ranges ranges)" "h \<le> hrTo r"
      by (auto simp: in_ranges_def list_ex_iff)
    moreover have "set (srt (valid_ranges ranges)) = set (valid_ranges ranges)"
      using assms(1) mset_eq_setD unfolding sorts_ranges_def by blast
    ultimately show ?thesis using last_has_max_to [OF assms(1) refl assms(4), of r] by auto
  qed
  then show ?thesis unfolding collectRanges_eq [OF assms(1-3)] by (auto intro!: arg_cong [where f = "take _"] filter_cong)
qed

definition ex_sort :: "HeightRange list \<Rightarrow> HeightRange list" where
  "ex_sort rs = sort_key hrFrom rs"

lemma ex_sort_sorts: "sorts_ranges ex_sort"
  by (simp add: sorts_ranges_def ex_sort_def)

theorem refill_exact_for_disjoint_ranges_witness:
  "collectRanges ex_sort [\<lparr>hrFrom = 3, hrTo = 3\<rparr>, \<lparr>hrFrom = 1, hrTo = 1\<rparr>] 5 (ex_log 3) = [ex_line 1, ex_line 3]"
  using refill_exact_for_disjoint_ranges [OF ex_sort_sorts, of 5 "[\<lparr>hrFrom = 3, hrTo = 3\<rparr>, \<lparr>hrFrom = 1, hrTo = 1\<rparr>]" "ex_log 3"]
  by (simp add: valid_ranges_def disjoint_ranges_def in_ranges_def ex_log_lines word_le_nat_alt word_less_nat_alt)

text \<open>For overlapping ranges refill is not exact: the bound is taken from the range with the largest
  \<open>From\<close>, so heights of an enclosing range above it are not served however large the limit.\<close>

theorem refill_loses_enclosing_range:
  assumes "sorts_ranges srt" "0 < limit"
  shows "collectRanges srt [\<lparr>hrFrom = 1, hrTo = 9\<rparr>, \<lparr>hrFrom = 2, hrTo = 3\<rparr>] limit c =
    take (nat limit) (filter (\<lambda>l. 1 \<le> line_height l \<and> line_height l \<le> 3) (csHistory c))"
proof -
  let ?rs = "[\<lparr>hrFrom = 1, hrTo = 9\<rparr>, \<lparr>hrFrom = 2, hrTo = 3\<rparr>]"
  have v: "valid_ranges ?rs = ?rs" by (simp add: valid_ranges_def)
  have "mset (srt ?rs) = mset ?rs" "sorted (map hrFrom (srt ?rs))" using assms(1) by (simp_all add: sorts_ranges_def)
  moreover have "sort_key hrFrom ?rs = ?rs" by simp
  moreover have "inj_on hrFrom (set ?rs)" by simp
  ultimately have "srt ?rs = ?rs"
    using properties_for_sort_key [of "srt ?rs" ?rs hrFrom] sort_key_inj_key_eq by (metis mset_eq_setD)
  then show ?thesis
    unfolding collectRanges_eq [OF assms(1,2), of ?rs, unfolded v, simplified]
    by (auto simp: in_ranges_def word_gt_0 word_le_nat_alt intro!: arg_cong [where f = "take _"] filter_cong)
qed

theorem refill_loses_enclosing_range_witness:
  "collectRanges ex_sort [\<lparr>hrFrom = 1, hrTo = 9\<rparr>, \<lparr>hrFrom = 2, hrTo = 3\<rparr>] 9 (ex_log 4)
     = [ex_line 1, ex_line 2, ex_line 3]"
  using refill_loses_enclosing_range [OF ex_sort_sorts, of 9 "ex_log 4"]
  by (simp add: ex_log_lines word_le_nat_alt)

text \<open>The announced window: for a non-empty log the count is exact, the sequence bounds are those of
  the first and last line, the least height is the minimum over chained lines, and each pair of bounds is
  ordered even for a store out of order.\<close>

theorem historyInfo_bounds:
  assumes "csHistory c \<noteq> []"
  shows "hiCount (historyInfo c) = length (csHistory c) \<and>
    {hiMinSeq (historyInfo c), hiMaxSeq (historyInfo c)} =
      {line_seq (hd (csHistory c)), line_seq (last (csHistory c))} \<and>
    hiMinSeq (historyInfo c) \<le> hiMaxSeq (historyInfo c) \<and>
    hiMinHeight (historyInfo c) = (if heights (csHistory c) = [] then 0 else Min (set (heights (csHistory c)))) \<and>
    hiMaxHeight (historyInfo c) = (if heights (csHistory c) = [] then 0 else last (heights (csHistory c)))"
proof -
  have "Min (set (heights (csHistory c))) \<le> last (heights (csHistory c))" if "heights (csHistory c) \<noteq> []"
    using that by simp
  then show ?thesis unfolding historyInfo_eq [OF assms]
    by (auto simp: Let_def oldestChained_Min min_def max_def)
qed

theorem historyInfo_bounds_witness: "hiMinHeight (historyInfo (ex_log 3)) = 1 \<and> hiCount (historyInfo (ex_log 3)) = 3"
proof -
  have "heights (csHistory (ex_log 3)) = [1, 2, 3]"
    by (simp add: heights_def ex_log_lines)
  then show ?thesis using historyInfo_bounds [of "ex_log 3"] by (simp add: ex_log_lines)
qed

end
