(* ===== verification/History_Store.thy ===== *)
theory History_Store
  imports History_Window
begin

text \<open>
  The disk tiers of the log, \<^verbatim>\<open>src/server/history_store.go\<close>. A generation file is its bytes; the
  archive is its decompressed stream. Decoding one JSON envelope is the argument \<open>pj\<close>. The
  seek-and-collect-backwards scan of a raw file is shown to return what streaming the whole file
  forward returns, and the index it relies on to stay consistent with the files.
\<close>

subsection \<open>Records and lines\<close>

record historyRecord =
  rcSeq :: u64
  rcTimestamp :: string
  rcMessage :: string
  rcWire :: "WireMessage option"

type_synonym record_parser = "string \<Rightarrow> historyRecord option"

definition zero_record :: historyRecord where
  "zero_record = \<lparr>rcSeq = 0, rcTimestamp = [], rcMessage = [], rcWire = None\<rparr>"

definition recordLine :: "historyRecord \<Rightarrow> stored_line option" where
  "recordLine rec =
     (case rcWire rec of
        Some w \<Rightarrow> Some (JsonLine w)
      | None \<Rightarrow>
          if rcMessage rec \<noteq> [] then
            (if rcSeq rec = 0 then Some (RawLine (rcMessage rec))
             else Some (JsonLine (zero_wire\<lparr>wType := ''system'', wText := rcMessage rec, wSeq := rcSeq rec\<rparr>)))
          else None)"

definition parseRecord :: "record_parser \<Rightarrow> string \<Rightarrow> historyRecord" where
  "parseRecord pj line = (case pj line of None \<Rightarrow> zero_record | Some rec \<Rightarrow> rec)"

abbreviation NL :: char where "NL \<equiv> CHR 0x0A"

text \<open>The loops over \<open>ReadBytes('\n')\<close>: complete lines without their newline, and the torn tail.\<close>

fun cut_lines :: "string \<Rightarrow> string list \<times> string" where
  "cut_lines [] = ([], [])"
| "cut_lines (c # cs) =
     (case cut_lines cs of
        (ls, t) \<Rightarrow>
          if c = NL then ([] # ls, t)
          else (case ls of [] \<Rightarrow> ([], c # t) | l # ls' \<Rightarrow> ((c # l) # ls', t)))"

text \<open>\<open>bytes.Split(data, "\n")\<close>.\<close>

definition split_nl :: "string \<Rightarrow> string list" where
  "split_nl s = fst (cut_lines s) @ [snd (cut_lines s)]"

text \<open>The line conversion shared by both scans: empty and malformed lines are dropped.\<close>

definition keep_line :: "record_parser \<Rightarrow> string \<Rightarrow> stored_line option" where
  "keep_line pj raw = (if raw = [] then None else recordLine (parseRecord pj raw))"

definition kept :: "record_parser \<Rightarrow> string list \<Rightarrow> stored_line list" where
  "kept pj ls = List.map_filter (keep_line pj) ls"

subsection \<open>Forward streaming\<close>

fun stream_lines :: "record_parser \<Rightarrow> u64 \<Rightarrow> string list \<Rightarrow> windowRing \<Rightarrow> bool \<times> windowRing" where
  "stream_lines pj bound [] ring = (False, ring)"
| "stream_lines pj bound (l # ls) ring =
     (case keep_line pj l of
        None \<Rightarrow> stream_lines pj bound ls ring
      | Some msg \<Rightarrow>
          (case feed msg bound ring of
             (stop, ring') \<Rightarrow> if stop then (True, ring') else stream_lines pj bound ls ring'))"

definition streamForward :: "record_parser \<Rightarrow> windowRing \<Rightarrow> u64 \<Rightarrow> string \<Rightarrow> bool \<times> windowRing" where
  "streamForward pj ring bound s = stream_lines pj bound (fst (cut_lines s)) ring"

subsection \<open>Seeking and collecting backwards\<close>

record heightSample =
  hpHeight :: u64
  hpOffset :: nat

text \<open>\<open>sort.Search\<close>: binary search on \<open>[i, j)\<close>.\<close>

function sort_search :: "(nat \<Rightarrow> bool) \<Rightarrow> nat \<Rightarrow> nat \<Rightarrow> nat" where
  "sort_search f i j =
     (if i < j then
        (let h = (i + j) div 2 in if \<not> f h then sort_search f (h + 1) j else sort_search f i h)
      else i)"
  by pat_completeness auto
termination
  by (relation "measure (\<lambda>(f, i, j). j - i)") auto

declare sort_search.simps [simp del]

definition seekOffset :: "heightSample list \<Rightarrow> u64 \<Rightarrow> nat" where
  "seekOffset samples bound =
     (let i = sort_search (\<lambda>i. hpHeight (samples ! i) \<ge> bound) 0 (length samples) in
      if i = 0 then 0 else hpOffset (samples ! (i - 1)))"

definition record_height :: "record_parser \<Rightarrow> string \<Rightarrow> u64" where
  "record_height pj line =
     (if line = [] then 0
      else case rcWire (parseRecord pj line) of None \<Rightarrow> 0 | Some w \<Rightarrow> wChainHeight w)"

fun cutoff_scan :: "record_parser \<Rightarrow> u64 \<Rightarrow> nat \<Rightarrow> string list \<Rightarrow> nat option" where
  "cutoff_scan pj bound cur [] = None"
| "cutoff_scan pj bound cur (l # ls) =
     (if record_height pj l \<noteq> 0 \<and> record_height pj l \<ge> bound then Some cur
      else cutoff_scan pj bound (cur + length l + 1) ls)"

text \<open>Offset, whether it was found, and whether seeking worked.\<close>

definition findCutoff :: "record_parser \<Rightarrow> string \<Rightarrow> heightSample list \<Rightarrow> u64 \<Rightarrow> nat \<times> bool \<times> bool" where
  "findCutoff pj f samples bound =
     (if bound = 0 then (0, False, True)
      else let start = seekOffset samples bound in
        if start > 0 \<and> (start > length f \<or> f ! (start - 1) \<noteq> NL) then (0, False, False)
        else case cutoff_scan pj bound start (fst (cut_lines (drop start f))) of
            Some off \<Rightarrow> (off, True, True)
          | None \<Rightarrow> (0, False, True))"

definition backwardChunk :: nat where "backwardChunk = 32 * 1024"
definition maxTornProbe :: nat where "maxTornProbe = 64 * 1024"

text \<open>\<open>bytes.LastIndexByte\<close>; the buffer is the last \<open>n\<close> bytes before \<open>end\<close>.\<close>

definition completeEnd :: "string \<Rightarrow> nat \<Rightarrow> nat" where
  "completeEnd f e =
     (if e = 0 then 0
      else let n = min maxTornProbe e; buf = take n (drop (e - n) f) in
        if length buf < n then e
        else if last buf = NL then e
        else case last_index NL buf of Some i \<Rightarrow> e - n + i + 1 | None \<Rightarrow> e - n)"

text \<open>The inner loop over \<open>parts\<close> from the last down to index 1; \<open>True\<close> is \<open>break outer\<close>.\<close>

fun take_parts :: "record_parser \<Rightarrow> nat \<Rightarrow> string list \<Rightarrow> stored_line list \<Rightarrow> bool \<times> stored_line list" where
  "take_parts pj maxLines [] rv = (False, rv)"
| "take_parts pj maxLines (p # ps) rv =
     (case keep_line pj p of
        None \<Rightarrow> take_parts pj maxLines ps rv
      | Some msg \<Rightarrow>
          if length (rv @ [msg]) \<ge> maxLines then (True, rv @ [msg])
          else take_parts pj maxLines ps (rv @ [msg]))"

function back_loop :: "nat \<Rightarrow> record_parser \<Rightarrow> string \<Rightarrow> nat \<Rightarrow> stored_line list \<Rightarrow> string \<Rightarrow> nat
    \<Rightarrow> stored_line list \<times> string \<times> nat" where
  "back_loop chunk pj f maxLines rv carry pos =
     (if pos > 0 \<and> length rv < maxLines \<and> chunk > 0 then
        (let n = min chunk pos; off = pos - n; buf = take n (drop off f);
             parts = split_nl (buf @ carry);
             (stop, rv') = take_parts pj maxLines (rev (tl parts)) rv
         in if stop then (rv', carry, pos) else back_loop chunk pj f maxLines rv' (hd parts) off)
      else (rv, carry, pos))"
  by pat_completeness auto
termination
  by (relation "measure (\<lambda>(chunk, pj, f, m, rv, c, pos). pos)") auto

declare back_loop.simps [simp del]

text \<open>After the loop: the file head is a line start, so a leftover fragment there is a whole line.\<close>

fun back_finish :: "record_parser \<Rightarrow> nat \<Rightarrow> stored_line list \<times> string \<times> nat \<Rightarrow> stored_line list" where
  "back_finish pj maxLines (rv, carry, pos) =
     (if pos = 0 \<and> carry \<noteq> [] \<and> length rv < maxLines
      then (case keep_line pj carry of Some msg \<Rightarrow> rv @ [msg] | None \<Rightarrow> rv) else rv)"

definition collectBackward_chunk :: "nat \<Rightarrow> record_parser \<Rightarrow> string \<Rightarrow> nat \<Rightarrow> nat \<Rightarrow> stored_line list" where
  "collectBackward_chunk chunk pj f endOff maxLines =
     (if maxLines = 0 \<or> endOff = 0 then []
      else let e = completeEnd f (if endOff > length f then length f else endOff)
           in rev (back_finish pj maxLines (back_loop chunk pj f maxLines [] [] e)))"

definition collectBackward :: "record_parser \<Rightarrow> string \<Rightarrow> nat \<Rightarrow> nat \<Rightarrow> stored_line list" where
  "collectBackward = collectBackward_chunk backwardChunk"

subsection \<open>Lines of a file\<close>

definition join_lines :: "string list \<Rightarrow> string" where
  "join_lines ls = concat (map (\<lambda>l. l @ [NL]) ls)"

abbreviation file_lines :: "string \<Rightarrow> string list" where
  "file_lines f \<equiv> fst (cut_lines f)"

abbreviation torn_tail :: "string \<Rightarrow> string" where
  "torn_tail f \<equiv> snd (cut_lines f)"

lemma join_lines_end: "ls \<noteq> [] \<Longrightarrow> \<exists>h. join_lines ls = h @ [NL]"
  by (cases ls rule: rev_cases) (auto simp: join_lines_def)

lemma cut_lines_join: "f = join_lines (file_lines f) @ torn_tail f"
proof (induction f rule: cut_lines.induct)
  case (2 c cs)
  then show ?case by (auto simp: join_lines_def split: prod.splits list.splits)
qed (simp add: join_lines_def)

lemma cut_lines_no_nl_both: "list_all (\<lambda>l. NL \<notin> set l) (file_lines f) \<and> NL \<notin> set (torn_tail f)"
proof (induction f rule: cut_lines.induct)
  case (2 c cs)
  then show ?case by (cases "cut_lines cs"; cases "file_lines cs") auto
qed auto

lemmas cut_lines_no_nl = cut_lines_no_nl_both [THEN conjunct1] cut_lines_no_nl_both [THEN conjunct2]

lemma cut_lines_plain: "NL \<notin> set x \<Longrightarrow> cut_lines x = ([], x)"
  by (induction x) auto

lemma cut_lines_line: "NL \<notin> set l \<Longrightarrow> cut_lines (l @ NL # s) = (l # file_lines s, torn_tail s)"
  by (induction l) (auto split: prod.splits)

lemma cut_lines_of_join:
  "list_all (\<lambda>l. NL \<notin> set l) ls \<Longrightarrow> cut_lines (join_lines ls @ s) = (ls @ file_lines s, torn_tail s)"
  by (induction ls) (simp_all add: join_lines_def cut_lines_line)

lemma split_nl_plain: "NL \<notin> set x \<Longrightarrow> split_nl x = [x]"
  by (simp add: split_nl_def cut_lines_plain)

lemma split_nl_Cons: "split_nl (c # s) = (if c = NL then [] # split_nl s else (c # hd (split_nl s)) # tl (split_nl s))"
  by (cases "cut_lines s"; cases "fst (cut_lines s)") (auto simp: split_nl_def)

lemma split_nl_nonempty [simp]: "split_nl s \<noteq> []"
  by (simp add: split_nl_def)

lemma split_nl_app: "split_nl (a @ NL # b) = split_nl a @ split_nl b"
proof (induction a)
  case Nil
  then show ?case by (simp add: split_nl_Cons split_nl_plain)
next
  case (Cons c a)
  then show ?case by (simp add: split_nl_Cons)
qed

text \<open>A block split on its own, with its first part joined to what precedes it.\<close>

lemma split_nl_block: "split_nl (a @ d) = split_nl (a @ hd (split_nl d)) @ tl (split_nl d)"
proof (cases "NL \<in> set d")
  case True
  then obtain p r where d: "d = p @ NL # r" "NL \<notin> set p" by (meson split_list_first)
  then have "split_nl d = p # split_nl r" by (simp add: split_nl_app split_nl_plain)
  then show ?thesis using d split_nl_app [of "a @ p" r] by simp
next
  case False
  then show ?thesis by (simp add: split_nl_plain)
qed

lemma hd_split_nl_no_nl: "NL \<notin> set (hd (split_nl d))"
proof (cases "NL \<in> set d")
  case True
  then obtain p r where d: "d = p @ NL # r" "NL \<notin> set p" by (meson split_list_first)
  then show ?thesis by (simp add: split_nl_app split_nl_plain)
qed (simp add: split_nl_plain)

subsection \<open>The backward scan\<close>

lemma kept_simps [simp]:
  "kept pj [] = []" "kept pj (l # ls) = (case keep_line pj l of None \<Rightarrow> kept pj ls | Some m \<Rightarrow> m # kept pj ls)"
  "kept pj (xs @ ys) = kept pj xs @ kept pj ys"
  by (auto simp: kept_def List.map_filter_def split: option.splits)

lemma kept_rev: "kept pj (rev ls) = rev (kept pj ls)"
  by (induction ls) (auto split: option.splits)

lemma keep_line_Nil [simp]: "keep_line pj [] = None"
  by (simp add: keep_line_def)

lemma take_parts_eq:
  "length rv < m \<Longrightarrow> take_parts pj m ps rv = (m \<le> length rv + length (kept pj ps), take m (rv @ kept pj ps))"
proof (induction ps arbitrary: rv)
  case (Cons p ps)
  show ?case
  proof (cases "keep_line pj p")
    case None
    then show ?thesis using Cons by simp
  next
    case (Some a)
    obtain k where k: "m = length rv + Suc k" using Cons.prems less_iff_Suc_add by auto
    show ?thesis using Cons.IH [of "rv @ [a]"] Some k by (cases k) auto
  qed
qed simp

lemma back_loop_step:
  assumes "0 < pos" "length rv < m" "0 < chunk" "n = min chunk pos"
    and "parts = split_nl (take n (drop (pos - n) f) @ carry)"
    and "take_parts pj m (rev (tl parts)) rv = (stop, rv')"
  shows "back_loop chunk pj f m rv carry pos =
    (if stop then (rv', carry, pos) else back_loop chunk pj f m rv' (hd parts) (pos - n))"
  using assms by (subst back_loop.simps) (simp add: Let_def)

lemma take_two: "n \<le> pos \<Longrightarrow> take pos f = take (pos - n) f @ take n (drop (pos - n) f)"
  by (metis le_add_diff_inverse2 take_add)

lemma back_loop_eq:
  assumes "0 < chunk" "length rv < m" "NL \<notin> set carry"
  shows "back_finish pj m (back_loop chunk pj f m rv carry pos) =
    take m (rv @ rev (kept pj (split_nl (take pos f @ carry))))"
  using assms
proof (induction pos arbitrary: rv carry rule: less_induct)
  case (less pos)
  show ?case
  proof (cases "pos = 0")
    case True
    then show ?thesis using less.prems
      by (subst back_loop.simps) (auto simp: split_nl_plain split: option.splits)
  next
    case False
    define n where "n = min chunk pos"
    define parts where "parts = split_nl (take n (drop (pos - n) f) @ carry)"
    define rv' where "rv' = take m (rv @ rev (kept pj (tl parts)))"
    have n: "0 < n" "n \<le> pos" using False less.prems(1) by (auto simp: n_def)
    have "take pos f @ carry = take (pos - n) f @ (take n (drop (pos - n) f) @ carry)"
      using take_two [OF n(2), of f] by simp
    then have sp: "split_nl (take pos f @ carry) = split_nl (take (pos - n) f @ hd parts) @ tl parts"
      unfolding parts_def by (metis split_nl_block)
    have tp: "take_parts pj m (rev (tl parts)) rv = (m \<le> length rv + length (kept pj (tl parts)), rv')"
      using take_parts_eq [OF less.prems(2), of pj "rev (tl parts)"] by (simp add: kept_rev rv'_def)
    from False have pos: "0 < pos" by simp
    note step = back_loop_step [OF pos less.prems(2,1) n_def parts_def tp]
    show ?thesis
    proof (cases "m \<le> length rv + length (kept pj (tl parts))")
      case True
      then have "length rv' = m" by (simp add: rv'_def)
      then show ?thesis using step True sp pos by (simp add: rv'_def)
    next
      case go: False
      then have rv: "rv' = rv @ rev (kept pj (tl parts))" "length rv' < m" by (simp_all add: rv'_def)
      have "NL \<notin> set (hd parts)" unfolding parts_def by (rule hd_split_nl_no_nl)
      from less.IH [of "pos - n", OF _ less.prems(1) rv(2) this] n
      show ?thesis using step go sp rv(1) by simp
    qed
  qed
qed

lemma rev_take_rev: "rev (take m (rev xs)) = last_n m xs"
  by (simp add: last_n_def rev_take)

lemma suffix_in_block:
  assumes "a @ b = h @ x # t" "length t < length b"
  shows "\<exists>b'. b = b' @ x # t"
proof -
  obtain us where "h = a @ us \<and> b = us @ x # t \<or> a = h @ us \<and> us @ b = x # t"
    using assms(1) by (auto simp: append_eq_append_conv2)
  then show ?thesis using assms(2) by (cases us) auto
qed

lemma completeEnd_eq:
  assumes "e \<le> length f" "length (torn_tail (take e f)) < maxTornProbe"
  shows "completeEnd f e = e - length (torn_tail (take e f))"
proof (cases "e = 0")
  case False
  let ?g = "take e f" and ?t = "torn_tail (take e f)"
  define n where "n = min maxTornProbe e"
  define buf where "buf = take n (drop (e - n) f)"
  have n: "n \<le> e" "0 < n" using False by (auto simp: n_def maxTornProbe_def)
  have buf: "length buf = n" "?g = take (e - n) f @ buf"
    using assms(1) n take_two [OF n(1), of f] by (auto simp: buf_def)
  have g: "?g = join_lines (file_lines ?g) @ ?t" by (rule cut_lines_join)
  have ce: "completeEnd f e = (if last buf = NL then e else case last_index NL buf of Some i \<Rightarrow> e - n + i + 1 | None \<Rightarrow> e - n)"
    unfolding completeEnd_def Let_def n_def [symmetric] buf_def [symmetric] using False buf(1) by simp
  have last_eq: "last buf = last ?g" using buf n by (metis last_appendR length_greater_0_conv)
  show ?thesis
  proof (cases "?t = []")
    case True
    then have "file_lines ?g \<noteq> []" using g False assms(1) by (auto simp: join_lines_def)
    then obtain h where "join_lines (file_lines ?g) = h @ [NL]" using join_lines_end by blast
    then have "last ?g = NL" using g True by (metis append_Nil2 last_snoc)
    then show ?thesis using ce last_eq True by simp
  next
    case t: False
    then have nl: "last buf \<noteq> NL" using last_eq g cut_lines_no_nl(2) [of ?g] by (metis last_appendR last_in_set)
    show ?thesis
    proof (cases "file_lines ?g = []")
      case True
      then have "?t = ?g" using g by (simp add: join_lines_def)
      then have "length ?g < maxTornProbe" "NL \<notin> set ?g" using assms(2) cut_lines_no_nl(2) [of ?g] by simp_all
      moreover have "length ?g = e" using assms(1) by simp
      moreover have "set buf \<subseteq> set ?g" unfolding buf(2) by simp
      ultimately have "n = e" "NL \<notin> set buf" by (auto simp: n_def)
      then show ?thesis using ce nl \<open>?t = ?g\<close> assms(1) by (simp add: last_index_None [THEN iffD2])
    next
      case False
      obtain h where h: "?g = h @ NL # ?t"
        using g join_lines_end [OF False] by (metis append.assoc append_Cons append_Nil)
      have "length ?t < n"
      proof -
        have "length ?g = length h + Suc (length ?t)" using arg_cong [OF h, of length] by (simp only: length_append length_Cons)
        moreover have "length ?g = e" using assms(1) by simp
        ultimately show ?thesis using assms(2) unfolding n_def by linarith
      qed
      then obtain b where b: "buf = b @ NL # ?t"
        using suffix_in_block [OF trans [OF buf(2) [symmetric] h]] buf(1) by blast
      then have "last_index NL buf = Some (length b)"
        using cut_lines_no_nl(2) [of ?g] by (simp add: last_index_Some)
      then show ?thesis using ce nl b buf(1) n(1) by auto
    qed
  qed
qed (use assms in \<open>simp add: completeEnd_def\<close>)

text \<open>Backwards in chunks of any size gives the last renderable complete lines.\<close>

lemma collectBackward_chunk_eq:
  assumes "0 < chunk" "length (torn_tail (take e f)) < maxTornProbe" "e \<le> length f"
  shows "collectBackward_chunk chunk pj f e m = last_n m (kept pj (file_lines (take e f)))"
proof (cases "m = 0 \<or> e = 0")
  case True
  then show ?thesis by (auto simp: collectBackward_chunk_def last_n_def)
next
  case False
  let ?g = "take e f"
  define d where "d = e - length (torn_tail ?g)"
  have g: "?g = join_lines (file_lines ?g) @ torn_tail ?g" by (rule cut_lines_join)
  have "take d f = take d ?g" by (simp add: d_def)
  also have "\<dots> = join_lines (file_lines ?g)"
  proof -
    have "length ?g = e" using assms(3) by simp
    then have "d = length (join_lines (file_lines ?g))" unfolding d_def using g
      by (metis add_diff_cancel_right' length_append)
    then show ?thesis using g by (metis append_eq_conv_conj)
  qed
  finally have "split_nl (take d f @ []) = file_lines ?g @ [[]]"
    using cut_lines_of_join [OF cut_lines_no_nl(1) [of ?g], of "[]"] by (simp add: split_nl_def)
  then have "back_finish pj m (back_loop chunk pj f m [] [] d) = take m (rev (kept pj (file_lines ?g)))"
    using back_loop_eq [OF assms(1), of "[]" m "[]" pj f d] False by simp
  then show ?thesis using False completeEnd_eq [OF assms(3,2)] assms(3)
    by (simp add: collectBackward_chunk_def d_def rev_take_rev)
qed

subsection \<open>The cutoff search\<close>

lemma sort_search_below:
  "i \<le> j \<Longrightarrow> (i = 0 \<or> \<not> P (i - 1)) \<Longrightarrow> sort_search P i j \<le> j \<and>
     (sort_search P i j = 0 \<or> \<not> P (sort_search P i j - 1))"
proof (induction P i j rule: sort_search.induct)
  case (1 P i j)
  show ?case
  proof (cases "i < j")
    case True
    let ?h = "(i + j) div 2"
    have h: "i \<le> ?h" "?h < j" using True by auto
    show ?thesis
    proof (cases "P ?h")
      case p: True
      then show ?thesis using 1(2) [OF True refl] 1(4) h True by (subst (1 2 3) sort_search.simps) (auto simp: Let_def)
    next
      case np: False
      then show ?thesis using 1(1) [OF True refl] h True by (subst (1 2 3) sort_search.simps) (auto simp: Let_def)
    qed
  next
    case False
    then show ?thesis using 1(3,4) by (simp add: sort_search.simps)
  qed
qed

definition cut_at :: "record_parser \<Rightarrow> u64 \<Rightarrow> string \<Rightarrow> bool" where
  "cut_at pj bound l \<longleftrightarrow> record_height pj l \<noteq> 0 \<and> record_height pj l \<ge> bound"

lemma cutoff_scan_eq:
  "cutoff_scan pj bound cur ls =
    (if list_ex (cut_at pj bound) ls
     then Some (cur + length (join_lines (takeWhile (\<lambda>l. \<not> cut_at pj bound l) ls))) else None)"
  by (induction ls arbitrary: cur) (auto simp: cut_at_def join_lines_def)

text \<open>A sample is the start of a line none of whose predecessors lies above its height.\<close>

definition sample_ok :: "record_parser \<Rightarrow> string \<Rightarrow> heightSample \<Rightarrow> bool" where
  "sample_ok pj f s \<longleftrightarrow> (\<exists>pre post. file_lines f = pre @ post \<and> hpOffset s = length (join_lines pre) \<and>
     list_all (\<lambda>l. record_height pj l \<le> hpHeight s) pre)"

lemma seekOffset_ok:
  assumes "list_all (sample_ok pj f) samples"
  shows "\<exists>pre post. file_lines f = pre @ post \<and> seekOffset samples bound = length (join_lines pre) \<and>
    list_all (\<lambda>l. \<not> cut_at pj bound l) pre"
proof -
  let ?P = "\<lambda>i. hpHeight (samples ! i) \<ge> bound"
  let ?i = "sort_search ?P 0 (length samples)"
  show ?thesis
  proof (cases "?i = 0")
    case True
    then show ?thesis by (intro exI [of _ "[]"] exI [of _ "file_lines f"]) (simp add: seekOffset_def join_lines_def)
  next
    case False
    have i: "?i \<le> length samples" "\<not> ?P (?i - 1)" using sort_search_below [of 0 "length samples" ?P] False by auto
    let ?s = "samples ! (?i - 1)"
    have "sample_ok pj f ?s" using assms i(1) False by (simp add: list_all_length)
    then obtain pre post where p: "file_lines f = pre @ post" "hpOffset ?s = length (join_lines pre)"
      "list_all (\<lambda>l. record_height pj l \<le> hpHeight ?s) pre" by (auto simp: sample_ok_def)
    have "list_all (\<lambda>l. \<not> cut_at pj bound l) pre"
      using p(3) i(2) by (auto simp: list_all_iff cut_at_def)
    then show ?thesis using p(1,2) False by (auto simp: seekOffset_def Let_def)
  qed
qed

lemma findCutoff_eq:
  assumes "list_all (sample_ok pj f) samples" "bound \<noteq> 0"
  shows "findCutoff pj f samples bound =
    (if list_ex (cut_at pj bound) (file_lines f)
     then (length (join_lines (takeWhile (\<lambda>l. \<not> cut_at pj bound l) (file_lines f))), True, True)
     else (0, False, True))"
proof -
  from seekOffset_ok [OF assms(1)] obtain pre post where
    p: "file_lines f = pre @ post" "seekOffset samples bound = length (join_lines pre)"
      "list_all (\<lambda>l. \<not> cut_at pj bound l) pre" by blast
  have no: "list_all (\<lambda>l. NL \<notin> set l) pre" "list_all (\<lambda>l. NL \<notin> set l) post"
    using cut_lines_no_nl(1) [of f] p(1) by simp_all
  have f: "f = join_lines pre @ join_lines post @ torn_tail f"
    using cut_lines_join [of f] p(1) by (simp add: join_lines_def)
  let ?st = "length (join_lines pre)"
  have rest: "drop ?st f = join_lines post @ torn_tail f" using f by (metis append_eq_conv_conj)
  have lines: "file_lines (drop ?st f) = post"
    unfolding rest cut_lines_of_join [OF no(2)] using cut_lines_plain [OF cut_lines_no_nl(2) [of f]] by simp
  have probe: "\<not> (?st > 0 \<and> (?st > length f \<or> f ! (?st - 1) \<noteq> NL))"
  proof (cases "pre = []")
    case False
    then obtain h where j: "join_lines pre = h @ [NL]" using join_lines_end by blast
    then have "f ! (?st - 1) = NL" by (subst f) (simp add: nth_append)
    moreover have "?st \<le> length f" by (subst f) simp
    ultimately show ?thesis by simp
  qed (simp add: join_lines_def)
  have ex: "list_ex (cut_at pj bound) (file_lines f) = list_ex (cut_at pj bound) post"
    using p(1,3) by (auto simp: list_ex_iff list_all_iff)
  have tw: "takeWhile (\<lambda>l. \<not> cut_at pj bound l) (file_lines f) = pre @ takeWhile (\<lambda>l. \<not> cut_at pj bound l) post"
    using p(1,3) by (simp add: list_all_iff takeWhile_append2)
  show ?thesis
    unfolding findCutoff_def p(2) Let_def if_not_P [OF probe] lines cutoff_scan_eq ex tw
    using assms(2) by (simp add: join_lines_def)
qed

subsection \<open>Generations\<close>

definition DiskLookupOff :: int where "DiskLookupOff = 0"
definition DiskLookupActive :: int where "DiskLookupActive = 1"
definition DiskLookupRaw :: int where "DiskLookupRaw = 2"
definition DiskLookupArchive :: int where "DiskLookupArchive = 3"

lemmas tier_defs = DiskLookupOff_def DiskLookupActive_def DiskLookupRaw_def DiskLookupArchive_def

record genIndex =
  gxTier :: int
  gxMinH :: u64
  gxMaxH :: u64
  gxChained :: bool
  gxSamples :: "heightSample list"
  gxSince :: nat

text \<open>The three files of a store; \<open>None\<close> is a missing file.\<close>

record disk =
  dkActive :: "string option"
  dkOld :: "string option"
  dkZst :: "string option"

definition gen_file :: "disk \<Rightarrow> int \<Rightarrow> string option" where
  "gen_file dk tier =
     (if tier = DiskLookupArchive then dkZst dk else if tier = DiskLookupRaw then dkOld dk else dkActive dk)"

definition scan_forward :: "record_parser \<Rightarrow> u64 \<Rightarrow> nat \<Rightarrow> string \<Rightarrow> stored_line list \<times> bool" where
  "scan_forward pj bound limit f =
     (case streamForward pj (newWindowRing (int limit)) bound f of (stop, ring) \<Rightarrow> (ring_lines ring, stop))"

definition scanGenTemp :: "record_parser \<Rightarrow> disk \<Rightarrow> u64 \<Rightarrow> genIndex \<Rightarrow> nat \<Rightarrow> stored_line list \<times> bool" where
  "scanGenTemp pj dk bound g limit =
     (case gen_file dk (gxTier g) of
        None \<Rightarrow> ([], False)
      | Some f \<Rightarrow>
          if gxTier g = DiskLookupArchive then scan_forward pj bound limit f
          else (case findCutoff pj f (gxSamples g) bound of
                  (off, found, ok) \<Rightarrow>
                    if \<not> ok then scan_forward pj bound limit f
                    else (collectBackward pj f (if found then off else length f) limit, found)))"

fun scan_gens :: "record_parser \<Rightarrow> disk \<Rightarrow> u64 \<Rightarrow> int \<Rightarrow> nat \<Rightarrow> genIndex list \<Rightarrow> stored_line list list" where
  "scan_gens pj dk bound level limit [] = []"
| "scan_gens pj dk bound level limit (g # gs) =
     (if gxTier g > level \<or> gxTier g \<le> DiskLookupOff then scan_gens pj dk bound level limit gs
      else case scanGenTemp pj dk bound g limit of
          (t, found) \<Rightarrow> t # (if found then [] else scan_gens pj dk bound level limit gs))"

definition windowBefore :: "record_parser \<Rightarrow> disk \<Rightarrow> genIndex list \<Rightarrow> u64 \<Rightarrow> int \<Rightarrow> windowRing \<Rightarrow> windowRing" where
  "windowBefore pj dk idx bound level ring =
     feed_all (concat (scan_gens pj dk bound level (wrLimit ring) idx)) bound ring"

text \<open>\<open>collectSegment\<close>: the disk tiers below the RAM window, then RAM.\<close>

definition collectSegment ::
  "record_parser \<Rightarrow> (disk \<times> genIndex list) option \<Rightarrow> int \<Rightarrow> u64 \<Rightarrow> int \<Rightarrow> ChainService \<Rightarrow> stored_line list" where
  "collectSegment pj store level before limit c =
     (if limit \<le> 0 then []
      else let ring0 = newWindowRing limit;
               ring = (case store of
                   Some (dk, idx) \<Rightarrow>
                     if before \<noteq> 0 \<and> level > DiskLookupOff then
                       (let oldest = oldestChained (csHistory c);
                            bound = (if oldest \<noteq> 0 \<and> oldest < before then oldest else before)
                        in windowBefore pj dk idx bound level ring0)
                     else ring0
                 | None \<Rightarrow> ring0);
               ring' = (if \<not> wrDone ring then feed_all (csHistory c) before ring else ring)
           in ring_lines ring')"

subsection \<open>The scan returns the window\<close>

lemma record_height_kept:
  "keep_line pj l = None \<Longrightarrow> record_height pj l = 0"
  "keep_line pj l = Some m \<Longrightarrow> line_height m = record_height pj l"
  by (auto simp: keep_line_def record_height_def recordLine_def line_height_def zero_wire_def
      split: if_splits option.splits)

lemma at_cutoff_height: "at_cutoff b l \<longleftrightarrow> b \<noteq> 0 \<and> line_height l \<noteq> 0 \<and> line_height l \<ge> b"
  by (auto simp: at_cutoff_def line_height_def split: option.splits)

lemma kept_before_cutoff:
  assumes "b \<noteq> 0"
  shows "takeWhile (\<lambda>l. \<not> at_cutoff b l) (kept pj ls) = kept pj (takeWhile (\<lambda>l. \<not> cut_at pj b l) ls)"
    and "list_ex (at_cutoff b) (kept pj ls) = list_ex (cut_at pj b) ls"
  using assms
  by (induction ls) (auto simp: at_cutoff_height cut_at_def record_height_kept split: option.splits)

lemma stream_lines_feed:
  "\<not> wrDone r \<Longrightarrow> stream_lines pj b ls r = (wrDone (feed_all (kept pj ls) b r), feed_all (kept pj ls) b r)"
proof (induction ls arbitrary: r)
  case (Cons l ls)
  show ?case
  proof (cases "keep_line pj l")
    case None
    then show ?thesis using Cons by simp
  next
    case (Some m)
    obtain stop r' where f: "feed m b r = (stop, r')" by fastforce
    have "stop = wrDone r'" using f Cons.prems by (auto simp: feed_def split: if_splits)
    then show ?thesis using Some f Cons.IH by (auto)
  qed
qed simp

text \<open>What a generation contributes: its last lines before the cutoff.\<close>

definition gen_window :: "record_parser \<Rightarrow> u64 \<Rightarrow> nat \<Rightarrow> string \<Rightarrow> stored_line list \<times> bool" where
  "gen_window pj b limit f =
     (last_n limit (takeWhile (\<lambda>l. \<not> at_cutoff b l) (kept pj (file_lines f))),
      list_ex (at_cutoff b) (kept pj (file_lines f)))"

lemma scan_forward_eq:
  assumes "0 < limit"
  shows "scan_forward pj b limit f = gen_window pj b limit f"
  using feed_all_holds [OF ring_new, of "int limit" b "kept pj (file_lines f)"] assms
  by (simp add: scan_forward_def streamForward_def stream_lines_feed gen_window_def ring_holds_def newWindowRing_def)

definition index_ok :: "record_parser \<Rightarrow> disk \<Rightarrow> genIndex \<Rightarrow> bool" where
  "index_ok pj dk g \<longleftrightarrow>
     (case gen_file dk (gxTier g) of
        None \<Rightarrow> True
      | Some f \<Rightarrow> gxTier g \<noteq> DiskLookupArchive \<longrightarrow>
          list_all (sample_ok pj f) (gxSamples g) \<and> length (torn_tail f) < maxTornProbe)"

lemma scanGenTemp_eq:
  assumes "index_ok pj dk g" "gen_file dk (gxTier g) = Some f" "b \<noteq> 0" "0 < limit"
  shows "scanGenTemp pj dk b g limit = gen_window pj b limit f"
proof (cases "gxTier g = DiskLookupArchive")
  case True
  then show ?thesis using assms by (simp add: scanGenTemp_def scan_forward_eq)
next
  case False
  let ?pre = "takeWhile (\<lambda>l. \<not> cut_at pj b l) (file_lines f)"
  have ok: "list_all (sample_ok pj f) (gxSamples g)" "length (torn_tail f) < maxTornProbe"
    using assms(1,2) False by (simp_all add: index_ok_def)
  have f: "f = join_lines (file_lines f) @ torn_tail f" by (rule cut_lines_join)
  have jl: "join_lines (file_lines f) = join_lines ?pre @ join_lines (dropWhile (\<lambda>l. \<not> cut_at pj b l) (file_lines f))"
    by (simp add: join_lines_def flip: concat_append map_append)
  have le: "length (join_lines ?pre) \<le> length f" using f jl by (metis append.assoc length_append le_add1)
  have pre: "take (length (join_lines ?pre)) f = join_lines ?pre @ []"
    using f jl by (metis append.assoc append_Nil2 append_eq_conv_conj)
  have no: "list_all (\<lambda>l. NL \<notin> set l) ?pre"
    using cut_lines_no_nl(1) [of f] by (auto simp: list_all_iff dest: set_takeWhileD)
  have chunk: "0 < backwardChunk" "0 < maxTornProbe" by (simp_all add: backwardChunk_def maxTornProbe_def)
  have cut: "collectBackward pj f (length (join_lines ?pre)) limit = last_n limit (kept pj ?pre)"
    unfolding collectBackward_def
    using collectBackward_chunk_eq [OF chunk(1), of "length (join_lines ?pre)" f pj limit] le chunk(2)
    unfolding pre cut_lines_of_join [OF no] by simp
  have all: "collectBackward pj f (length f) limit = last_n limit (kept pj (file_lines f))"
    unfolding collectBackward_def using collectBackward_chunk_eq [OF chunk(1), of "length f" f pj limit] ok(2) by simp
  have full: "\<not> list_ex (cut_at pj b) (file_lines f) \<Longrightarrow> ?pre = file_lines f"
    by (auto simp: list_ex_iff takeWhile_eq_all_conv)
  note scan = scanGenTemp_def findCutoff_eq [OF ok(1) assms(3)] gen_window_def kept_before_cutoff [OF assms(3)]
  show ?thesis
  proof (cases "list_ex (cut_at pj b) (file_lines f)")
    case True
    then show ?thesis using cut False assms(2) by (simp add: scan)
  next
    case nc: False
    then show ?thesis using all False assms(2) full [OF nc] by (simp only: scan if_False option.case prod.case simp_thms)
  qed
qed

lemma last_n_append_left: "last_n k (last_n k xs @ ys) = last_n k (xs @ ys)"
  by (simp add: last_n_def) (cases "length xs \<le> k"; simp add: algebra_simps)

lemma last_n_append_right: "last_n k (xs @ last_n k ys) = last_n k (xs @ ys)"
  by (cases "length ys \<le> k") (simp_all add: last_n_def)

lemma last_n_cong_right: "last_n k ys = last_n k zs \<Longrightarrow> last_n k (xs @ ys) = last_n k (xs @ zs)"
  using last_n_append_right [of k xs ys] last_n_append_right [of k xs zs] by simp

text \<open>The renderable lines of the generations a lookup level reaches, old to new.\<close>

definition tier_lines :: "record_parser \<Rightarrow> disk \<Rightarrow> genIndex \<Rightarrow> stored_line list" where
  "tier_lines pj dk g = (case gen_file dk (gxTier g) of None \<Rightarrow> [] | Some f \<Rightarrow> kept pj (file_lines f))"

definition disk_lines :: "record_parser \<Rightarrow> disk \<Rightarrow> int \<Rightarrow> genIndex list \<Rightarrow> stored_line list" where
  "disk_lines pj dk level idx =
     concat (map (tier_lines pj dk) (filter (\<lambda>g. \<not> (gxTier g > level \<or> gxTier g \<le> DiskLookupOff)) idx))"

lemma scanGenTemp_tier:
  assumes "index_ok pj dk g" "b \<noteq> 0" "0 < limit"
  shows "scanGenTemp pj dk b g limit =
    (last_n limit (takeWhile (\<lambda>l. \<not> at_cutoff b l) (tier_lines pj dk g)), list_ex (at_cutoff b) (tier_lines pj dk g))"
proof (cases "gen_file dk (gxTier g)")
  case None
  then show ?thesis by (simp add: scanGenTemp_def tier_lines_def last_n_def)
next
  case (Some f)
  then show ?thesis using scanGenTemp_eq [OF assms(1) Some assms(2,3)] by (simp add: gen_window_def tier_lines_def)
qed

lemma scan_gens_eq:
  assumes "list_all (index_ok pj dk) idx" "b \<noteq> 0" "0 < limit"
  shows "last_n limit (concat (scan_gens pj dk b level limit idx)) =
      last_n limit (takeWhile (\<lambda>l. \<not> at_cutoff b l) (disk_lines pj dk level idx))"
    and "list_all (\<lambda>l. \<not> at_cutoff b l) (concat (scan_gens pj dk b level limit idx))"
  using assms(1)
proof (induction idx)
  case (Cons g idx)
  let ?out = "gxTier g > level \<or> gxTier g \<le> DiskLookupOff"
  let ?w = "takeWhile (\<lambda>l. \<not> at_cutoff b l)"
  { case 1
    show ?case
    proof (cases ?out)
      case True
      then show ?thesis using Cons 1 by (auto simp: disk_lines_def)
    next
      case False
      have t: "scanGenTemp pj dk b g limit = (last_n limit (?w (tier_lines pj dk g)), list_ex (at_cutoff b) (tier_lines pj dk g))"
        using scanGenTemp_tier assms(2,3) 1 by simp
      show ?thesis
      proof (cases "list_ex (at_cutoff b) (tier_lines pj dk g)")
        case True
        then obtain x where "x \<in> set (tier_lines pj dk g)" "at_cutoff b x" by (auto simp: list_ex_iff)
        then have "?w (tier_lines pj dk g @ ys) = ?w (tier_lines pj dk g)" for ys
          by (intro takeWhile_append1) auto
        then show ?thesis using False t True last_n_append_left [of limit _ "[]"] by (simp add: disk_lines_def)
      next
        case nc: False
        then have a: "?w (tier_lines pj dk g @ ys) = tier_lines pj dk g @ ?w ys" "?w (tier_lines pj dk g) = tier_lines pj dk g" for ys
          by (auto simp: list_ex_iff takeWhile_eq_all_conv intro: takeWhile_append2)
        have dl: "disk_lines pj dk level (g # idx) = tier_lines pj dk g @ disk_lines pj dk level idx"
          using False by (simp add: disk_lines_def)
        have sg: "concat (scan_gens pj dk b level limit (g # idx)) =
            last_n limit (tier_lines pj dk g) @ concat (scan_gens pj dk b level limit idx)"
          using False t nc a(2) by simp
        show ?thesis using Cons.IH(1) 1 by (simp add: dl sg a(1) last_n_append_left del: scan_gens.simps)
            (rule last_n_cong_right, simp)
      qed
    qed }
  { case 2
    have t: "scanGenTemp pj dk b g limit = (last_n limit (?w (tier_lines pj dk g)), list_ex (at_cutoff b) (tier_lines pj dk g))"
      using scanGenTemp_tier assms(2,3) 2 by simp
    have "list_all (\<lambda>l. \<not> at_cutoff b l) (last_n limit (?w (tier_lines pj dk g)))"
      by (auto simp: list_all_iff last_n_def dest!: in_set_dropD set_takeWhileD)
    then show ?case using Cons.IH(2) 2 t by simp }
qed (simp_all add: disk_lines_def)

lemma collectSegment_eq:
  assumes "list_all (index_ok pj dk) idx" "before \<noteq> 0" "0 < limit" "DiskLookupOff < level"
    and "oldest = oldestChained (csHistory c)" "bound = (if oldest \<noteq> 0 \<and> oldest < before then oldest else before)"
  shows "collectSegment pj (Some (dk, idx)) level before limit c = last_n (nat limit)
    (takeWhile (\<lambda>l. \<not> at_cutoff bound l) (disk_lines pj dk level idx) @
     takeWhile (\<lambda>l. \<not> at_cutoff before l) (csHistory c))"
proof -
  let ?D = "concat (scan_gens pj dk bound level (nat limit) idx)"
  let ?r = "windowBefore pj dk idx bound level (newWindowRing limit)"
  have b: "bound \<noteq> 0" using assms(2,6) by simp
  have lim: "wrLimit (newWindowRing limit) = nat limit" "\<not> wrDone (newWindowRing limit)"
    using assms(3) by (simp_all add: newWindowRing_def)
  note sc = scan_gens_eq [OF assms(1) b, of "nat limit" level]
  have all: "takeWhile (\<lambda>l. \<not> at_cutoff bound l) ?D = ?D" "\<not> list_ex (at_cutoff bound) ?D"
    using sc(2) assms(3) by (auto simp: list_all_iff list_ex_iff takeWhile_eq_all_conv)
  have r: "ring_holds ?D ?r \<and> wrLimit ?r = nat limit \<and> \<not> wrDone ?r"
    using feed_all_holds [OF ring_new [OF assms(3)] lim(2), of bound ?D] all lim
    by (simp add: windowBefore_def)
  then have "ring_holds (?D @ takeWhile (\<lambda>l. \<not> at_cutoff before l) (csHistory c)) (feed_all (csHistory c) before ?r)
      \<and> wrLimit (feed_all (csHistory c) before ?r) = nat limit"
    using feed_all_holds [of ?D ?r before "csHistory c"] by simp
  then have "ring_lines (feed_all (csHistory c) before ?r) =
      last_n (nat limit) (?D @ takeWhile (\<lambda>l. \<not> at_cutoff before l) (csHistory c))"
    by (simp add: ring_holds_def)
  also have "\<dots> = last_n (nat limit) (takeWhile (\<lambda>l. \<not> at_cutoff bound l) (disk_lines pj dk level idx) @
     takeWhile (\<lambda>l. \<not> at_cutoff before l) (csHistory c))"
    using sc(1) assms(3) by (metis last_n_append_left zero_less_nat_eq)
  finally have fin: "ring_lines (feed_all (csHistory c) before ?r) = \<dots>" .
  show ?thesis
    unfolding collectSegment_def Let_def assms(5) [symmetric] assms(6) [symmetric]
    using assms(2-4) r fin by simp
qed

end
