(* ===== verification/History_Disk.thy ===== *)
theory History_Disk
  imports History_Store
begin

text \<open>
  The writing side of \<^verbatim>\<open>src/server/history_store.go\<close>: the bounded write queue, appending,
  rotation into \<open>.old\<close> and \<open>.old.zst\<close>, the sparse height index and loading at boot. Every
  file operation that can fail takes its outcome from a \<open>faults\<close> record, so each error path is a
  branch. The index invariant lifts the scan equivalence of the reading side to every reachable store.
\<close>

subsection \<open>State\<close>

record HistoryStore =
  stMaxSize :: int
  stFile :: bool
  stSize :: nat
  stDirty :: bool
  stQueue :: "historyRecord list"
  stClosed :: bool
  stDrops :: u64
  stIdx :: "genIndex list"

record faults =
  ftClose :: bool
  ftRename :: bool
  ftCompress :: bool
  ftRemove :: bool
  ftOpen :: bool
  ftSync :: bool
  ftWrite :: "nat option"

definition no_faults :: faults where
  "no_faults = \<lparr>ftClose = False, ftRename = False, ftCompress = False, ftRemove = False, ftOpen = False,
     ftSync = False, ftWrite = None\<rparr>"

datatype store_error = ErrClose | ErrRename | ErrRemove | ErrOpen | ErrReopen | ErrNoFile | ErrWrite

type_synonym store_result = "store_error option \<times> HistoryStore \<times> disk"

definition historyQueueSize :: nat where "historyQueueSize = 256"
definition indexSampleStride :: nat where "indexSampleStride = 256"

subsection \<open>Opening and enqueueing\<close>

definition store_open :: "faults \<Rightarrow> HistoryStore \<Rightarrow> disk \<Rightarrow> store_result" where
  "store_open ft st dk =
     (let st1 = (case dkActive dk of Some f \<Rightarrow> st\<lparr>stSize := length f\<rparr> | None \<Rightarrow> st) in
      if ftOpen ft then (Some ErrOpen, st1, dk)
      else (None, st1\<lparr>stFile := True\<rparr>,
            dk\<lparr>dkActive := Some (case dkActive dk of Some f \<Rightarrow> f | None \<Rightarrow> [])\<rparr>))"

definition NewHistoryStore :: "string \<Rightarrow> int \<Rightarrow> faults \<Rightarrow> disk \<Rightarrow> store_error + (HistoryStore option \<times> disk)" where
  "NewHistoryStore path maxSizeMB ft dk =
     (if path = [] then Inr (None, dk)
      else case store_open ft \<lparr>stMaxSize = maxSizeMB * 1024 * 1024, stFile = False, stSize = 0, stDirty = False,
                 stQueue = [], stClosed = False, stDrops = 0, stIdx = []\<rparr> dk of
          (Some e, _, _) \<Rightarrow> Inl e
        | (None, st, dk') \<Rightarrow> Inr (Some st, dk'))"

definition store_enqueue :: "(time \<Rightarrow> string) \<Rightarrow> WireMessage \<Rightarrow> time \<Rightarrow> HistoryStore \<Rightarrow> HistoryStore" where
  "store_enqueue fmt w now st =
     (if stClosed st then st
      else if length (stQueue st) < historyQueueSize then
        st\<lparr>stQueue := stQueue st @ [\<lparr>rcSeq = wSeq w, rcTimestamp = fmt now, rcMessage = [], rcWire = Some w\<rparr>]\<rparr>
      else st\<lparr>stDrops := stDrops st + 1\<rparr>)"

subsection \<open>The height index\<close>

definition new_gen :: "int \<Rightarrow> genIndex" where
  "new_gen tier = \<lparr>gxTier = tier, gxMinH = 0, gxMaxH = 0, gxChained = False, gxSamples = [], gxSince = 0\<rparr>"

text \<open>Folding one chained line at a byte offset into an entry.\<close>

definition note_height :: "bool \<Rightarrow> u64 \<Rightarrow> nat \<Rightarrow> genIndex \<Rightarrow> genIndex" where
  "note_height sampled height offset g =
     (let g1 = (if \<not> gxChained g then g\<lparr>gxChained := True, gxMinH := height, gxMaxH := height\<rparr>
                else g\<lparr>gxMinH := (if height < gxMinH g then height else gxMinH g),
                       gxMaxH := (if height > gxMaxH g then height else gxMaxH g)\<rparr>)
      in if sampled then
           (let g2 = (if gxSince g1 mod indexSampleStride = 0
                      then g1\<lparr>gxSamples := gxSamples g1 @ [\<lparr>hpHeight = height, hpOffset = offset\<rparr>]\<rparr> else g1)
            in g2\<lparr>gxSince := gxSince g2 + 1\<rparr>)
         else g1)"

definition indexWroteLocked :: "u64 \<Rightarrow> nat \<Rightarrow> genIndex list \<Rightarrow> genIndex list" where
  "indexWroteLocked height offset idx =
     (if idx \<noteq> [] \<and> gxTier (last idx) = DiskLookupActive
      then butlast idx @ [note_height True height offset (last idx)]
      else idx @ [note_height True height offset (new_gen DiskLookupActive)])"

definition dropGenLocked :: "int \<Rightarrow> genIndex list \<Rightarrow> genIndex list" where
  "dropGenLocked tier idx = filter (\<lambda>g. gxTier g \<noteq> tier) idx"

fun relabelGenLocked :: "int \<Rightarrow> int \<Rightarrow> genIndex list \<Rightarrow> bool \<times> genIndex list" where
  "relabelGenLocked from to' [] = (False, [])"
| "relabelGenLocked from to' (g # gs) =
     (if gxTier g = from
      then (True, (if to' = DiskLookupArchive then g\<lparr>gxTier := to', gxSamples := []\<rparr> else g\<lparr>gxTier := to'\<rparr>) # gs)
      else case relabelGenLocked from to' gs of (b, gs') \<Rightarrow> (b, g # gs'))"

subsection \<open>Rotation and writing\<close>

definition store_rotate :: "faults \<Rightarrow> HistoryStore \<Rightarrow> disk \<Rightarrow> store_result" where
  "store_rotate ft st dk =
     (let st1 = (if stFile st then st\<lparr>stFile := False, stSize := 0\<rparr> else st) in
      if stFile st \<and> ftClose ft then (Some ErrClose, st1, dk)
      else if dkActive dk \<noteq> None \<and> ftRename ft then (Some ErrRename, st1, dk)
      else let
        (st2, dk2) =
          (if dkActive dk \<noteq> None then
             (let idx1 = dropGenLocked DiskLookupRaw (stIdx st1);
                  (hit, idx2) = relabelGenLocked DiskLookupActive DiskLookupRaw idx1;
                  idx3 = (if hit then idx2 else idx2 @ [new_gen DiskLookupRaw])
              in (st1\<lparr>stIdx := idx3\<rparr>, dk\<lparr>dkOld := dkActive dk, dkActive := None\<rparr>))
           else (st1, dk));
        to_archive = (\<lambda>s. s\<lparr>stIdx := snd (relabelGenLocked DiskLookupRaw DiskLookupArchive
                                           (dropGenLocked DiskLookupArchive (stIdx s)))\<rparr>)
      in if dkOld dk2 \<noteq> None \<and> \<not> ftCompress ft \<and> ftRemove ft
         then (Some ErrRemove, to_archive st2, dk2\<lparr>dkZst := dkOld dk2\<rparr>)
         else let
           (st3, dk3) = (if dkOld dk2 \<noteq> None \<and> \<not> ftCompress ft
                         then (to_archive st2, dk2\<lparr>dkZst := dkOld dk2, dkOld := None\<rparr>) else (st2, dk2))
         in store_open ft (st3\<lparr>stSize := 0, stFile := False\<rparr>) dk3)"

definition append_line :: "faults \<Rightarrow> historyRecord \<Rightarrow> string \<Rightarrow> HistoryStore \<Rightarrow> disk \<Rightarrow> store_result" where
  "append_line ft rec line st dk =
     (let f = (case dkActive dk of Some f \<Rightarrow> f | None \<Rightarrow> []) in
      case ftWrite ft of
        Some k \<Rightarrow> (Some ErrWrite, st, dk\<lparr>dkActive := Some (f @ take k line)\<rparr>)
      | None \<Rightarrow>
          (let offset = stSize st;
               st1 = st\<lparr>stSize := stSize st + length line, stDirty := True\<rparr>;
               st2 = (case rcWire rec of
                   Some w \<Rightarrow> if wChainHeight w \<noteq> 0
                             then st1\<lparr>stIdx := indexWroteLocked (wChainHeight w) offset (stIdx st1)\<rparr> else st1
                 | None \<Rightarrow> st1)
           in (None, st2, dk\<lparr>dkActive := Some (f @ line)\<rparr>)))"

definition writeRecord ::
  "(historyRecord \<Rightarrow> string) \<Rightarrow> faults \<Rightarrow> historyRecord \<Rightarrow> HistoryStore \<Rightarrow> disk \<Rightarrow> store_result" where
  "writeRecord er ft rec st0 dk0 =
     (let line = er rec @ [NL];
          (e1, st, dk) = (if \<not> stFile st0 then store_open ft st0 dk0 else (None, st0, dk0))
      in case e1 of
           Some _ \<Rightarrow> (Some ErrReopen, st\<lparr>stDrops := stDrops st + 1\<rparr>, dk)
         | None \<Rightarrow>
             (case (if stMaxSize st > 0 \<and> int (stSize st) + int (length line) > stMaxSize st
                    then store_rotate ft st dk else (None, st, dk)) of
                (Some e, st', dk') \<Rightarrow> (Some e, st', dk')
              | (None, st', dk') \<Rightarrow>
                  if \<not> stFile st' then (Some ErrNoFile, st'\<lparr>stDrops := stDrops st' + 1\<rparr>, dk')
                  else append_line ft rec line st' dk'))"

text \<open>One turn of \<open>writeLoop\<close>: a queued record, or the sync tick.\<close>

definition write_next :: "(historyRecord \<Rightarrow> string) \<Rightarrow> faults \<Rightarrow> HistoryStore \<Rightarrow> disk \<Rightarrow> HistoryStore \<times> disk" where
  "write_next er ft st dk =
     (case stQueue st of
        [] \<Rightarrow> (st, dk)
      | rec # q \<Rightarrow> (case writeRecord er ft rec (st\<lparr>stQueue := q\<rparr>) dk of (_, st', dk') \<Rightarrow> (st', dk')))"

definition sync_tick :: "faults \<Rightarrow> HistoryStore \<Rightarrow> HistoryStore" where
  "sync_tick ft st = (if stFile st \<and> stDirty st \<and> \<not> ftSync ft then st\<lparr>stDirty := False\<rparr> else st)"

definition store_close :: "faults \<Rightarrow> HistoryStore \<Rightarrow> HistoryStore" where
  "store_close ft st =
     (if stClosed st then st
      else let st1 = st\<lparr>stClosed := True\<rparr> in
        if stFile st1 \<and> stDirty st1 \<and> \<not> ftSync ft then st1\<lparr>stDirty := False\<rparr> else st1)"

subsection \<open>Loading at boot\<close>

definition loadable :: "historyRecord \<Rightarrow> bool" where
  "loadable rec \<longleftrightarrow> rcMessage rec \<noteq> [] \<or> rcWire rec \<noteq> None"

fun load_lines :: "record_parser \<Rightarrow> nat \<Rightarrow> string list \<Rightarrow> (historyRecord \<times> nat) list" where
  "load_lines pj offset [] = []"
| "load_lines pj offset (l # ls) =
     (case (if l = [] then None else pj l) of
        Some rec \<Rightarrow> if loadable rec then [(rec, offset)] else []
      | None \<Rightarrow> []) @ load_lines pj (offset + length l + 1) ls"

definition loadJSONLFile :: "record_parser \<Rightarrow> string \<Rightarrow> (historyRecord \<times> nat) list" where
  "loadJSONLFile pj f = load_lines pj 0 (split_nl f)"

definition loaded_height :: "historyRecord \<Rightarrow> u64" where
  "loaded_height rec = (case rcWire rec of Some w \<Rightarrow> wChainHeight w | None \<Rightarrow> 0)"

definition index_of_loaded :: "int \<Rightarrow> (historyRecord \<times> nat) list \<Rightarrow> genIndex" where
  "index_of_loaded tier recs =
     fold (\<lambda>(rec, off) g. if loaded_height rec = 0 then g
                          else note_height (tier \<noteq> DiskLookupArchive) (loaded_height rec) off g)
       recs (new_gen tier)"

definition indexLoaded :: "int \<Rightarrow> (historyRecord \<times> nat) list \<Rightarrow> genIndex list \<Rightarrow> genIndex list" where
  "indexLoaded tier recs idx = (if recs = [] then idx else idx @ [index_of_loaded tier recs])"

text \<open>The three paths in order; \<open>.old\<close> is skipped when the archive loaded.\<close>

definition load_tier :: "record_parser \<Rightarrow> int \<Rightarrow> string option
    \<Rightarrow> historyRecord list \<times> genIndex list \<Rightarrow> historyRecord list \<times> genIndex list" where
  "load_tier pj tier file acc =
     (case file of
        None \<Rightarrow> acc
      | Some f \<Rightarrow> (fst acc @ map fst (loadJSONLFile pj f), indexLoaded tier (loadJSONLFile pj f) (snd acc)))"

definition LoadRecords :: "record_parser \<Rightarrow> HistoryStore \<Rightarrow> disk \<Rightarrow> historyRecord list \<times> HistoryStore" where
  "LoadRecords pj st dk =
     (let a1 = load_tier pj DiskLookupArchive (dkZst dk) ([], []);
          a2 = (if dkZst dk \<noteq> None then a1 else load_tier pj DiskLookupRaw (dkOld dk) a1);
          (recs, idx) = load_tier pj DiskLookupActive (dkActive dk) a2
      in (recs, st\<lparr>stIdx := idx\<rparr>))"

subsection \<open>The index stays consistent\<close>

definition entry_ok :: "record_parser \<Rightarrow> disk \<Rightarrow> genIndex \<Rightarrow> bool" where
  "entry_ok pj dk g \<longleftrightarrow> index_ok pj dk g \<and> gxTier g \<in> {DiskLookupActive, DiskLookupRaw, DiskLookupArchive} \<and>
     (gxTier g = DiskLookupActive \<longrightarrow> dkActive dk \<noteq> None)"

definition store_ok :: "record_parser \<Rightarrow> HistoryStore \<times> disk \<Rightarrow> bool" where
  "store_ok pj s \<longleftrightarrow> (case s of (st, dk) \<Rightarrow>
     (stFile st \<longrightarrow> dkActive dk \<noteq> None \<and> stSize st = length (the (dkActive dk))) \<and>
     (dkActive dk = None \<longrightarrow> stSize st = 0) \<and>
     (dkActive dk \<noteq> None \<longrightarrow> torn_tail (the (dkActive dk)) = []) \<and>
     list_all (entry_ok pj dk) (stIdx st) \<and> distinct (map gxTier (stIdx st)) \<and>
     list_all (\<lambda>g. gxTier g \<noteq> DiskLookupActive) (butlast (stIdx st)))"

definition relabeled :: "int \<Rightarrow> genIndex \<Rightarrow> genIndex" where
  "relabeled to' g = (if to' = DiskLookupArchive then g\<lparr>gxTier := to', gxSamples := []\<rparr> else g\<lparr>gxTier := to'\<rparr>)"

lemma tier_distinct [simp]:
  "DiskLookupRaw \<noteq> DiskLookupActive" "DiskLookupActive \<noteq> DiskLookupRaw"
  "DiskLookupArchive \<noteq> DiskLookupActive" "DiskLookupActive \<noteq> DiskLookupArchive"
  "DiskLookupArchive \<noteq> DiskLookupRaw" "DiskLookupRaw \<noteq> DiskLookupArchive"
  by (simp_all add: tier_defs)

lemma relabeled_tier [simp]: "gxTier (relabeled t g) = t"
  by (simp add: relabeled_def)

lemma relabel_map:
  "distinct (map gxTier idx) \<Longrightarrow> relabelGenLocked from to' idx =
    (from \<in> gxTier ` set idx, map (\<lambda>g. if gxTier g = from then relabeled to' g else g) idx)"
proof (induction idx)
  case (Cons g idx)
  show ?case
  proof (cases "gxTier g = from")
    case True
    have "map (\<lambda>g. if gxTier g = from then relabeled to' g else g) idx = idx"
      using Cons.prems True by (intro map_idI) (auto simp: image_iff)
    then show ?thesis using True by (simp add: relabeled_def)
  next
    case False
    then show ?thesis using Cons by auto
  qed
qed simp

lemma relabel_tiers:
  assumes "distinct (map gxTier idx)" "to' \<notin> gxTier ` set idx"
  shows "distinct (map gxTier (snd (relabelGenLocked from to' idx)))"
  using assms unfolding relabel_map [OF assms(1)] snd_conv
  by (induction idx) (auto simp: image_iff split: if_splits)

lemma drop_tiers:
  "distinct (map gxTier idx) \<Longrightarrow> distinct (map gxTier (dropGenLocked t idx))"
  "t \<notin> gxTier ` set (dropGenLocked t idx)"
  "g \<in> set (dropGenLocked t idx) \<longleftrightarrow> g \<in> set idx \<and> gxTier g \<noteq> t"
  by (auto simp: dropGenLocked_def distinct_map_filter)

text \<open>What one index move does to each entry: the target tier is dropped, the source tier becomes it.\<close>

definition move_tier :: "int \<Rightarrow> int \<Rightarrow> genIndex list \<Rightarrow> genIndex list" where
  "move_tier from to' idx = snd (relabelGenLocked from to' (dropGenLocked to' idx))"

lemma move_tier_distinct: "distinct (map gxTier idx) \<Longrightarrow> distinct (map gxTier (move_tier from to' idx))"
  unfolding move_tier_def by (intro relabel_tiers drop_tiers)

lemma move_tier_set:
  "distinct (map gxTier idx) \<Longrightarrow> set (move_tier from to' idx) =
     (\<lambda>g. if gxTier g = from then relabeled to' g else g) ` {g \<in> set idx. gxTier g \<noteq> to'}"
  unfolding move_tier_def relabel_map [OF drop_tiers(1)] by (auto simp: drop_tiers(3))

lemma move_tier_no_source:
  "distinct (map gxTier idx) \<Longrightarrow> from \<noteq> to' \<Longrightarrow> g \<in> set (move_tier from to' idx) \<Longrightarrow> gxTier g \<noteq> from"
  by (auto simp: move_tier_set)

definition rename_index :: "genIndex list \<Rightarrow> genIndex list" where
  "rename_index idx =
     (let (hit, idx2) = relabelGenLocked DiskLookupActive DiskLookupRaw (dropGenLocked DiskLookupRaw idx)
      in if hit then idx2 else idx2 @ [new_gen DiskLookupRaw])"

lemma rename_index_set:
  assumes "distinct (map gxTier idx)"
  shows "set (rename_index idx) \<subseteq> insert (new_gen DiskLookupRaw) (set (move_tier DiskLookupActive DiskLookupRaw idx))"
    and "distinct (map gxTier (rename_index idx))"
    and "g \<in> set (rename_index idx) \<Longrightarrow> gxTier g \<noteq> DiskLookupActive"
proof -
  let ?d = "dropGenLocked DiskLookupRaw idx"
  note rm = relabel_map [OF drop_tiers(1) [OF assms, of DiskLookupRaw], of DiskLookupActive DiskLookupRaw]
  have e: "rename_index idx = move_tier DiskLookupActive DiskLookupRaw idx @
      (if DiskLookupActive \<in> gxTier ` set ?d then [] else [new_gen DiskLookupRaw])"
    by (simp add: rename_index_def move_tier_def rm)
  then show "set (rename_index idx) \<subseteq> insert (new_gen DiskLookupRaw) (set (move_tier DiskLookupActive DiskLookupRaw idx))"
    by auto
  have "gxTier g \<noteq> DiskLookupRaw" if "DiskLookupActive \<notin> gxTier ` set ?d" "g \<in> set (move_tier DiskLookupActive DiskLookupRaw idx)" for g
    using that drop_tiers(2) [of DiskLookupRaw idx] unfolding move_tier_def rm by (auto simp: image_iff split: if_splits)
  then have "DiskLookupActive \<notin> gxTier ` set ?d \<Longrightarrow>
      DiskLookupRaw \<notin> gxTier ` set (move_tier DiskLookupActive DiskLookupRaw idx)" by (metis imageE)
  then show "distinct (map gxTier (rename_index idx))"
    using move_tier_distinct [OF assms, of DiskLookupActive DiskLookupRaw] unfolding e
    by (auto simp: new_gen_def)
  show "g \<in> set (rename_index idx) \<Longrightarrow> gxTier g \<noteq> DiskLookupActive"
    using move_tier_no_source [OF assms, of DiskLookupActive DiskLookupRaw g]
    by (auto simp: e new_gen_def tier_defs split: if_splits)
qed

lemma index_ok_archive: "gxTier g = DiskLookupArchive \<Longrightarrow> index_ok pj dk g"
  by (simp add: index_ok_def split: option.splits)

lemma index_ok_raw:
  "index_ok pj dk (relabeled DiskLookupRaw g) \<longleftrightarrow>
     (case dkOld dk of None \<Rightarrow> True
      | Some f \<Rightarrow> list_all (sample_ok pj f) (gxSamples g) \<and> length (torn_tail f) < maxTornProbe)"
  by (simp add: index_ok_def relabeled_def gen_file_def tier_defs split: option.splits)

lemma probe_pos: "0 < maxTornProbe" by (simp add: maxTornProbe_def)

text \<open>The rename moves the active bytes, and with them the offsets of its entry.\<close>

lemma rename_entries_ok:
  assumes "list_all (entry_ok pj dk) idx" "distinct (map gxTier idx)" "dkActive dk = Some f" "torn_tail f = []"
  shows "list_all (entry_ok pj (dk\<lparr>dkOld := Some f, dkActive := None\<rparr>)) (rename_index idx)"
  unfolding list_all_iff
proof
  let ?dk = "dk\<lparr>dkOld := Some f, dkActive := None\<rparr>"
  fix g assume g: "g \<in> set (rename_index idx)"
  have "g = new_gen DiskLookupRaw \<or> (\<exists>h \<in> set idx. gxTier h \<noteq> DiskLookupRaw \<and>
      g = (if gxTier h = DiskLookupActive then relabeled DiskLookupRaw h else h))"
    using subsetD [OF rename_index_set(1) [OF assms(2)] g] unfolding move_tier_set [OF assms(2)] by blast
  then show "entry_ok pj ?dk g"
  proof
    assume "g = new_gen DiskLookupRaw"
    then show ?thesis using assms(4) probe_pos by (simp add: entry_ok_def index_ok_def gen_file_def new_gen_def tier_defs)
  next
    assume "\<exists>h \<in> set idx. gxTier h \<noteq> DiskLookupRaw \<and>
      g = (if gxTier h = DiskLookupActive then relabeled DiskLookupRaw h else h)"
    then obtain h where h: "h \<in> set idx" "gxTier h \<noteq> DiskLookupRaw"
      "g = (if gxTier h = DiskLookupActive then relabeled DiskLookupRaw h else h)" by blast
    have ok: "entry_ok pj dk h" using assms(1) h(1) by (simp add: list_all_iff)
    show ?thesis
    proof (cases "gxTier h = DiskLookupActive")
      case True
      then have "list_all (sample_ok pj f) (gxSamples h)"
        using ok assms(3) by (simp add: entry_ok_def index_ok_def gen_file_def tier_defs)
      then show ?thesis using True h(3) assms(4) probe_pos
        by (simp add: entry_ok_def index_ok_raw)
    next
      case False
      then have "gxTier h = DiskLookupArchive" using ok h(2) by (auto simp: entry_ok_def)
      then show ?thesis using False h(3) index_ok_archive by (simp add: entry_ok_def tier_defs)
    qed
  qed
qed

text \<open>Archiving keeps every other entry: only the raw tier's file may go away.\<close>

lemma archive_entries_ok:
  assumes "list_all (entry_ok pj dk) idx" "distinct (map gxTier idx)"
    and "dkActive dk' = dkActive dk" "dkOld dk' = dkOld dk \<or> dkOld dk' = None"
  shows "list_all (entry_ok pj dk') (move_tier DiskLookupRaw DiskLookupArchive idx)"
  unfolding list_all_iff
proof
  fix g assume "g \<in> set (move_tier DiskLookupRaw DiskLookupArchive idx)"
  then obtain h where h: "h \<in> set idx" "gxTier h \<noteq> DiskLookupArchive"
    "g = (if gxTier h = DiskLookupRaw then relabeled DiskLookupArchive h else h)"
    by (auto simp: move_tier_set [OF assms(2)])
  have ok: "entry_ok pj dk h" using assms(1) h(1) by (simp add: list_all_iff)
  show "entry_ok pj dk' g"
  proof (cases "gxTier h = DiskLookupRaw")
    case True
    then show ?thesis using h(3) index_ok_archive by (simp add: entry_ok_def tier_defs)
  next
    case False
    then have "gxTier h = DiskLookupActive" using ok h(2) by (auto simp: entry_ok_def)
    then show ?thesis using False ok h(3) assms(3) by (simp add: entry_ok_def index_ok_def gen_file_def tier_defs)
  qed
qed

lemma disk_same: "dkActive dk = Some f \<Longrightarrow> dk\<lparr>dkActive := Some f\<rparr> = dk"
  by (cases dk) simp

lemma store_open_cases:
  "dkActive dk = Some f \<Longrightarrow> store_open ft st dk =
     (if ftOpen ft then (Some ErrOpen, st\<lparr>stSize := length f\<rparr>, dk)
      else (None, st\<lparr>stSize := length f, stFile := True\<rparr>, dk))"
  "dkActive dk = None \<Longrightarrow> store_open ft st dk =
     (if ftOpen ft then (Some ErrOpen, st, dk) else (None, st\<lparr>stFile := True\<rparr>, dk\<lparr>dkActive := Some []\<rparr>))"
  by (simp_all add: store_open_def disk_same)

lemma open_ok:
  assumes "store_ok pj (st, dk)" "store_open ft st dk = (e, st', dk')"
  shows "store_ok pj (st', dk') \<and> (e = None \<longrightarrow> stFile st') \<and>
    (dkActive dk' = dkActive dk \<or> dkActive dk' = Some [])"
proof (cases "dkActive dk")
  case (Some f)
  show ?thesis using assms Some unfolding store_open_cases(1) [OF Some]
    by (auto simp: store_ok_def split: if_splits)
next
  case None
  have "list_all (entry_ok pj (dk\<lparr>dkActive := Some []\<rparr>)) (stIdx st)"
    using assms(1) None
    by (auto simp: store_ok_def list_all_iff entry_ok_def index_ok_def gen_file_def tier_defs split: option.splits)
  then show ?thesis using assms None unfolding store_open_cases(2) [OF None]
    by (auto simp: store_ok_def split: if_splits)
qed

lemma rotate_cases:
  assumes "stFile st" "dkActive dk = Some f"
  shows "store_rotate ft st dk =
    (if ftClose ft then (Some ErrClose, st\<lparr>stFile := False, stSize := 0\<rparr>, dk)
     else if ftRename ft then (Some ErrRename, st\<lparr>stFile := False, stSize := 0\<rparr>, dk)
     else let idx = rename_index (stIdx st); st2 = st\<lparr>stFile := False, stSize := 0, stIdx := idx\<rparr>;
              dk2 = dk\<lparr>dkOld := Some f, dkActive := None\<rparr>;
              st3 = st2\<lparr>stIdx := move_tier DiskLookupRaw DiskLookupArchive idx\<rparr>
          in if ftCompress ft then store_open ft st2 dk2
             else if ftRemove ft then (Some ErrRemove, st3, dk2\<lparr>dkZst := Some f\<rparr>)
             else store_open ft st3 (dk2\<lparr>dkZst := Some f, dkOld := None\<rparr>))"
proof -
  obtain hit idx2 where r: "relabelGenLocked DiskLookupActive DiskLookupRaw (dropGenLocked DiskLookupRaw (stIdx st)) = (hit, idx2)"
    by fastforce
  show ?thesis using assms r
    by (cases st; cases dk; cases hit; cases "ftCompress ft"; cases "ftRemove ft")
      (simp_all add: store_rotate_def rename_index_def move_tier_def Let_def)
qed

lemma no_active_butlast: "\<forall>g \<in> set idx. gxTier g \<noteq> DiskLookupActive \<Longrightarrow>
    list_all (\<lambda>g. gxTier g \<noteq> DiskLookupActive) (butlast idx)"
  by (auto simp: list_all_iff dest: in_set_butlastD)

lemma move_no_active:
  assumes "distinct (map gxTier idx)" "\<forall>g \<in> set idx. gxTier g \<noteq> DiskLookupActive"
  shows "\<forall>g \<in> set (move_tier DiskLookupRaw DiskLookupArchive idx). gxTier g \<noteq> DiskLookupActive"
  using assms(2) by (auto simp: move_tier_set [OF assms(1)])

lemma rotate_ok:
  assumes "store_ok pj (st, dk)" "stFile st" "store_rotate ft st dk = (e, st', dk')"
  shows "store_ok pj (st', dk') \<and> (e = None \<longrightarrow> stFile st') \<and>
    (dkActive dk' = dkActive dk \<or> dkActive dk' = None \<or> dkActive dk' = Some [])"
proof -
  from assms(1,2) obtain f where f: "dkActive dk = Some f" "torn_tail f = []" by (auto simp: store_ok_def)
  let ?idx = "rename_index (stIdx st)" and ?arch = "move_tier DiskLookupRaw DiskLookupArchive (rename_index (stIdx st))"
  let ?dk = "dk\<lparr>dkOld := Some f, dkActive := None\<rparr>"
  have d: "distinct (map gxTier (stIdx st))" "list_all (entry_ok pj dk) (stIdx st)"
    using assms(1) by (simp_all add: store_ok_def)
  note ri = rename_index_set [OF d(1)]
  have na: "\<forall>g \<in> set ?idx. gxTier g \<noteq> DiskLookupActive" using ri(3) by blast
  have ren: "list_all (entry_ok pj ?dk) ?idx" using rename_entries_ok [OF d(2,1) f] .
  have arc: "list_all (entry_ok pj dk'') ?arch"
    if "dkActive dk'' = None" "dkOld dk'' = Some f \<or> dkOld dk'' = None" for dk''
    using archive_entries_ok [OF ren ri(2), of dk''] that by simp
  have s2: "store_ok pj (st\<lparr>stFile := False, stSize := 0, stIdx := ?idx\<rparr>, ?dk)"
    using ren ri(2) no_active_butlast [OF na] by (simp add: store_ok_def)
  have s3: "store_ok pj (st\<lparr>stFile := False, stSize := 0, stIdx := ?arch\<rparr>, dk'')"
    if "dkActive dk'' = None" "dkOld dk'' = Some f \<or> dkOld dk'' = None" for dk''
    using arc [OF that] that move_tier_distinct [OF ri(2)] no_active_butlast [OF move_no_active [OF ri(2) na]]
    by (simp add: store_ok_def)
  have s1: "store_ok pj (st\<lparr>stFile := False, stSize := 0\<rparr>, dk)"
    using assms(1) f by (simp add: store_ok_def)
  have s3a: "store_ok pj (st\<lparr>stFile := False, stSize := 0, stIdx := ?arch\<rparr>, ?dk\<lparr>dkZst := Some f\<rparr>)"
    and s3b: "store_ok pj (st\<lparr>stFile := False, stSize := 0, stIdx := ?arch\<rparr>, ?dk\<lparr>dkZst := Some f, dkOld := None\<rparr>)"
    by (rule s3; simp)+
  note R = assms(3) [unfolded rotate_cases [OF assms(2) f(1)] Let_def]
  consider "ftClose ft \<or> ftRename ft" | "\<not> (ftClose ft \<or> ftRename ft)" "ftCompress ft"
    | "\<not> (ftClose ft \<or> ftRename ft)" "\<not> ftCompress ft" "ftRemove ft"
    | "\<not> (ftClose ft \<or> ftRename ft)" "\<not> ftCompress ft" "\<not> ftRemove ft" by blast
  then show ?thesis
  proof cases
    case 1
    then show ?thesis using R s1 by (auto split: if_splits)
  next
    case 2
    then have "store_open ft (st\<lparr>stFile := False, stSize := 0, stIdx := ?idx\<rparr>) ?dk = (e, st', dk')" using R by simp
    from open_ok [OF s2 this] show ?thesis by simp
  next
    case 3
    then show ?thesis using R s3a by auto
  next
    case 4
    then have "store_open ft (st\<lparr>stFile := False, stSize := 0, stIdx := ?arch\<rparr>) (?dk\<lparr>dkZst := Some f, dkOld := None\<rparr>) = (e, st', dk')"
      using R by simp
    from open_ok [OF s3b this] show ?thesis by simp
  qed
qed

text \<open>Appending a whole line after whole lines.\<close>

lemma file_lines_append:
  assumes "torn_tail f = []" "NL \<notin> set l"
  shows "cut_lines (f @ l @ [NL]) = (file_lines f @ [l], [])"
proof -
  have "f @ l @ [NL] = join_lines (file_lines f) @ l @ NL # []" using cut_lines_join [of f] assms(1) by simp
  then show ?thesis
    using cut_lines_of_join [OF cut_lines_no_nl(1), of f "l @ NL # []"] cut_lines_line [OF assms(2), of "[]"] by simp
qed

lemma sample_append:
  assumes "sample_ok pj f s" "torn_tail f = []" "NL \<notin> set l"
  shows "sample_ok pj (f @ l @ [NL]) s"
proof -
  from assms(1) obtain pre post where "file_lines f = pre @ post" "hpOffset s = length (join_lines pre)"
    "list_all (\<lambda>l. record_height pj l \<le> hpHeight s) pre" by (auto simp: sample_ok_def)
  then show ?thesis unfolding sample_ok_def file_lines_append [OF assms(2,3)]
    by (intro exI [of _ pre] exI [of _ "post @ [l]"]) simp
qed

lemma sample_new:
  assumes "torn_tail f = []" "NL \<notin> set l" "list_all (\<lambda>l. record_height pj l \<le> h) (file_lines f)"
  shows "sample_ok pj (f @ l @ [NL]) \<lparr>hpHeight = h, hpOffset = length f\<rparr>"
proof -
  have "length f = length (join_lines (file_lines f))" using cut_lines_join [of f] assms(1) by simp
  then show ?thesis unfolding sample_ok_def file_lines_append [OF assms(1,2)]
    using assms(3) by (intro exI [of _ "file_lines f"] exI [of _ "[l]"]) simp
qed

lemma note_height_samples:
  "gxTier (note_height b h off g) = gxTier g"
  "set (gxSamples (note_height b h off g)) \<subseteq> insert \<lparr>hpHeight = h, hpOffset = off\<rparr> (set (gxSamples g))"
  by (auto simp: note_height_def Let_def)

lemma entry_append:
  assumes "entry_ok pj dk g" "dkActive dk = Some f" "torn_tail f = []" "NL \<notin> set l"
  shows "entry_ok pj (dk\<lparr>dkActive := Some (f @ l @ [NL])\<rparr>) g"
proof (cases "gxTier g = DiskLookupActive")
  case True
  then have "list_all (sample_ok pj f) (gxSamples g)"
    using assms(1,2) by (simp add: entry_ok_def index_ok_def gen_file_def)
  then have "list_all (sample_ok pj (f @ l @ [NL])) (gxSamples g)"
    using sample_append [OF _ assms(3,4)] by (auto simp: list_all_iff)
  then show ?thesis using True probe_pos
    by (simp add: entry_ok_def index_ok_def gen_file_def file_lines_append [OF assms(3,4)])
next
  case False
  then show ?thesis using assms(1) by (auto simp: entry_ok_def index_ok_def gen_file_def)
qed

lemma entry_noted:
  assumes "entry_ok pj dk g" "gxTier g = DiskLookupActive" "dkActive dk = Some f"
    and "sample_ok pj f \<lparr>hpHeight = h, hpOffset = off\<rparr>"
  shows "entry_ok pj dk (note_height True h off g)"
proof -
  have "list_all (sample_ok pj f) (gxSamples (note_height True h off g))"
    using assms note_height_samples(2) [of True h off g]
    by (auto simp: entry_ok_def index_ok_def gen_file_def list_all_iff)
  then show ?thesis using assms by (simp add: entry_ok_def index_ok_def gen_file_def note_height_samples(1))
qed

lemma indexWrote_ok:
  assumes "list_all (entry_ok pj dk) idx" "distinct (map gxTier idx)"
    and "list_all (\<lambda>g. gxTier g \<noteq> DiskLookupActive) (butlast idx)" "dkActive dk = Some f" "torn_tail f = []"
    and "sample_ok pj f \<lparr>hpHeight = h, hpOffset = off\<rparr>" "idx' = indexWroteLocked h off idx"
  shows "list_all (entry_ok pj dk) idx' \<and> distinct (map gxTier idx') \<and>
    list_all (\<lambda>g. gxTier g \<noteq> DiskLookupActive) (butlast idx')"
proof (cases "idx \<noteq> [] \<and> gxTier (last idx) = DiskLookupActive")
  case True
  then obtain xs g where i: "idx = xs @ [g]" "gxTier g = DiskLookupActive" by (cases idx rule: rev_cases) auto
  then have "idx' = xs @ [note_height True h off g]" using assms(7) by (simp add: indexWroteLocked_def)
  moreover have "entry_ok pj dk (note_height True h off g)"
    using entry_noted [OF _ i(2) assms(4,6)] assms(1) i by simp
  ultimately show ?thesis using assms(1-3) i by (simp add: note_height_samples(1))
next
  case False
  have na: "\<forall>g \<in> set idx. gxTier g \<noteq> DiskLookupActive"
  proof (cases idx rule: rev_cases)
    case (snoc xs g)
    then show ?thesis using False assms(3) by (auto simp: list_all_iff)
  qed simp
  let ?g = "new_gen DiskLookupActive"
  have t: "gxTier ?g = DiskLookupActive" by (simp add: new_gen_def)
  have "entry_ok pj dk ?g" using assms(4,5) probe_pos
    by (simp add: entry_ok_def index_ok_def gen_file_def new_gen_def)
  from entry_noted [OF this t assms(4,6)] have "entry_ok pj dk (note_height True h off ?g)" .
  moreover have "idx' = idx @ [note_height True h off ?g]" unfolding assms(7) indexWroteLocked_def if_not_P [OF False] ..
  ultimately show ?thesis using assms(1-3) na t by (auto simp: note_height_samples(1) list_all_iff)
qed

text \<open>Records come in chain order: none of the lines already in the file lies above the new height.\<close>

definition in_order :: "record_parser \<Rightarrow> disk \<Rightarrow> historyRecord \<Rightarrow> bool" where
  "in_order pj dk rec \<longleftrightarrow> loaded_height rec \<noteq> 0 \<longrightarrow>
     list_all (\<lambda>l. record_height pj l \<le> loaded_height rec) (file_lines (case dkActive dk of Some f \<Rightarrow> f | None \<Rightarrow> []))"

lemma append_line_ok:
  assumes "store_ok pj (st, dk)" "stFile st" "ftWrite ft = None" "NL \<notin> set l" "in_order pj dk rec"
    and "append_line ft rec (l @ [NL]) st dk = (e, st', dk')"
  shows "store_ok pj (st', dk')"
proof -
  from assms(1,2) obtain f where f: "dkActive dk = Some f" "torn_tail f = []" "stSize st = length f"
    by (auto simp: store_ok_def)
  let ?dk = "dk\<lparr>dkActive := Some (f @ l @ [NL])\<rparr>"
  have o: "list_all (entry_ok pj ?dk) (stIdx st)" "distinct (map gxTier (stIdx st))"
    "list_all (\<lambda>g. gxTier g \<noteq> DiskLookupActive) (butlast (stIdx st))"
    using assms(1) entry_append [OF _ f(1,2) assms(4)] by (auto simp: store_ok_def list_all_iff)
  have dk': "dk' = ?dk" using assms(3,6) f by (auto simp: append_line_def Let_def)
  show ?thesis
  proof (cases "loaded_height rec = 0")
    case True
    then have "st' = st\<lparr>stSize := stSize st + length (l @ [NL]), stDirty := True\<rparr>"
      using assms(3,6) by (auto simp: append_line_def Let_def loaded_height_def split: option.splits)
    then show ?thesis using o f file_lines_append [OF f(2) assms(4)] by (simp add: store_ok_def dk')
  next
    case False
    have s: "sample_ok pj (f @ l @ [NL]) \<lparr>hpHeight = loaded_height rec, hpOffset = length f\<rparr>"
      using sample_new [OF f(2) assms(4)] assms(5) False f(1) by (simp add: in_order_def)
    have "st' = st\<lparr>stSize := stSize st + length (l @ [NL]), stDirty := True,
        stIdx := indexWroteLocked (loaded_height rec) (length f) (stIdx st)\<rparr>"
      using assms(3,6) False f(3) by (auto simp: append_line_def Let_def loaded_height_def split: option.splits)
    moreover note indexWrote_ok [OF o _ _ s refl]
    ultimately show ?thesis using f file_lines_append [OF f(2) assms(4)] by (simp add: store_ok_def dk')
  qed
qed

lemma store_ok_frame:
  "store_ok pj (st\<lparr>stDrops := d\<rparr>, dk) = store_ok pj (st, dk)"
  "store_ok pj (st\<lparr>stQueue := q\<rparr>, dk) = store_ok pj (st, dk)"
  "store_ok pj (st\<lparr>stDirty := b\<rparr>, dk) = store_ok pj (st, dk)"
  "store_ok pj (st\<lparr>stClosed := b\<rparr>, dk) = store_ok pj (st, dk)"
  by (simp_all add: store_ok_def)

lemma in_order_shrink:
  "in_order pj dk rec \<Longrightarrow> dkActive dk' = dkActive dk \<or> dkActive dk' = None \<or> dkActive dk' = Some [] \<Longrightarrow> in_order pj dk' rec"
  by (auto simp: in_order_def)

lemma writeRecord_ok:
  assumes "store_ok pj (st, dk)" "ftWrite ft = None" "NL \<notin> set (er rec)" "in_order pj dk rec"
    and "writeRecord er ft rec st dk = (e, st', dk')"
  shows "store_ok pj (st', dk')"
proof -
  obtain e1 s1 d1 where o: "(if \<not> stFile st then store_open ft st dk else (None, st, dk)) = (e1, s1, d1)"
    using prod_cases3 by blast
  have a: "store_ok pj (s1, d1)" "e1 = None \<Longrightarrow> stFile s1" "dkActive d1 = dkActive dk \<or> dkActive d1 = Some []"
    using open_ok [OF assms(1), of ft e1 s1 d1] o assms(1) by (auto split: if_splits)
  show ?thesis
  proof (cases e1)
    case (Some x)
    then show ?thesis using assms(5) o a(1) by (auto simp: writeRecord_def Let_def store_ok_frame)
  next
    case None
    let ?full = "stMaxSize s1 > 0 \<and> int (stSize s1) + int (length (er rec @ [NL])) > stMaxSize s1"
    obtain e2 s2 d2 where r: "(if ?full then store_rotate ft s1 d1 else (None, s1, d1)) = (e2, s2, d2)"
      using prod_cases3 by blast
    have b: "store_ok pj (s2, d2)" "e2 = None \<Longrightarrow> stFile s2"
      "dkActive d2 = dkActive d1 \<or> dkActive d2 = None \<or> dkActive d2 = Some []"
      using rotate_ok [OF a(1) a(2) [OF None], of ft e2 s2 d2] r a None by (auto split: if_splits)
    show ?thesis
    proof (cases e2)
      case (Some x)
      then show ?thesis using assms(5) o r None b(1) unfolding writeRecord_def Let_def by simp
    next
      case n2: None
      have "append_line ft rec (er rec @ [NL]) s2 d2 = (e, st', dk')"
        using assms(5) o r None n2 b(2) unfolding writeRecord_def Let_def by simp
      then show ?thesis
        using append_line_ok [OF b(1) b(2) [OF n2] assms(2,3)] in_order_shrink assms(4) a(3) b(3) by metis
    qed
  qed
qed

subsection \<open>Runs of a store\<close>

datatype store_event =
    Enqueue WireMessage time
  | WriteNext faults
  | SyncTick faults
  | CloseStore faults

fun store_step :: "(time \<Rightarrow> string) \<Rightarrow> (historyRecord \<Rightarrow> string) \<Rightarrow> store_event \<Rightarrow> HistoryStore \<times> disk \<Rightarrow> HistoryStore \<times> disk" where
  "store_step fmt er (Enqueue w now) (st, dk) = (store_enqueue fmt w now st, dk)"
| "store_step fmt er (WriteNext ft) (st, dk) = write_next er ft st dk"
| "store_step fmt er (SyncTick ft) (st, dk) = (sync_tick ft st, dk)"
| "store_step fmt er (CloseStore ft) (st, dk) = (store_close ft st, dk)"

text \<open>Envelopes are single lines, writes are whole, and records arrive in chain order; every other
  file operation may fail.\<close>

fun store_event_ok :: "record_parser \<Rightarrow> (historyRecord \<Rightarrow> string) \<Rightarrow> HistoryStore \<times> disk \<Rightarrow> store_event \<Rightarrow> bool" where
  "store_event_ok pj er (st, dk) (WriteNext ft) =
     (ftWrite ft = None \<and>
      (case stQueue st of [] \<Rightarrow> True | rec # _ \<Rightarrow> NL \<notin> set (er rec) \<and> in_order pj dk rec))"
| "store_event_ok pj er s e = True"

fun store_run_ok :: "record_parser \<Rightarrow> (time \<Rightarrow> string) \<Rightarrow> (historyRecord \<Rightarrow> string)
    \<Rightarrow> HistoryStore \<times> disk \<Rightarrow> store_event list \<Rightarrow> bool" where
  "store_run_ok pj fmt er s [] = True"
| "store_run_ok pj fmt er s (e # es) = (store_event_ok pj er s e \<and> store_run_ok pj fmt er (store_step fmt er e s) es)"

lemma store_step_ok:
  assumes "store_ok pj s" "store_event_ok pj er s e"
  shows "store_ok pj (store_step fmt er e s)"
proof (cases s)
  case s: (Pair st dk)
  show ?thesis
  proof (cases e)
    case (WriteNext ft)
    show ?thesis
    proof (cases "stQueue st")
      case Nil
      then show ?thesis using assms WriteNext s by (simp add: write_next_def)
    next
      case (Cons rec q)
      obtain x st' dk' where w: "writeRecord er ft rec (st\<lparr>stQueue := q\<rparr>) dk = (x, st', dk')" using prod_cases3 by blast
      have "store_ok pj (st\<lparr>stQueue := q\<rparr>, dk)" using assms(1) s by (simp add: store_ok_frame)
      from writeRecord_ok [OF this _ _ _ w] show ?thesis using assms(2) WriteNext s Cons w by (simp add: write_next_def)
    qed
  qed (use assms(1) s in \<open>auto simp: store_enqueue_def sync_tick_def store_close_def Let_def store_ok_frame\<close>)
qed

interpretation disk_index: machine "store_step fmt er" "store_event_ok pj er" "store_ok pj" for fmt er pj
  by unfold_locales (rule store_step_ok)

lemma store_run_ok_admissible: "store_run_ok pj fmt er s es \<longleftrightarrow> disk_index.admissible fmt er pj s es"
  by (induction es arbitrary: s) simp_all

lemma reachable_index:
  assumes "store_ok pj s" "store_run_ok pj fmt er s es" "fold (store_step fmt er) es s = (st, dk)"
  shows "list_all (index_ok pj dk) (stIdx st)"
  using disk_index.run_inv [OF assms(1) assms(2) [unfolded store_run_ok_admissible]] assms(3)
  by (auto simp: store_ok_def entry_ok_def list_all_iff)

definition empty_store :: HistoryStore where
  "empty_store = \<lparr>stMaxSize = 0, stFile = False, stSize = 0, stDirty = False, stQueue = [], stClosed = False,
     stDrops = 0, stIdx = []\<rparr>"

definition empty_disk :: disk where
  "empty_disk = \<lparr>dkActive = None, dkOld = None, dkZst = None\<rparr>"

lemma empty_store_ok: "store_ok pj (empty_store, empty_disk)"
  by (simp add: store_ok_def empty_store_def empty_disk_def)

subsection \<open>Properties\<close>

text \<open>C27. Older history is served exactly: for every store reached by queueing, writing, rotating and failing
  file operations (writes whole, records in chain order), a segment before a height is the last \<open>limit\<close>
  lines of the disk generations' renderable lines below the RAM window followed by the RAM lines before
  that height. The index seeks, the chunked backward reads and the per-generation caps lose and repeat
  nothing.\<close>

theorem older_segment_is_contiguous_window:
  assumes "store_ok pj s" "store_run_ok pj fmt er s es" "fold (store_step fmt er) es s = (st, dk)"
    and "before \<noteq> 0" "0 < limit" "DiskLookupOff < level"
    and "bound = (if oldestChained (csHistory c) \<noteq> 0 \<and> oldestChained (csHistory c) < before
                  then oldestChained (csHistory c) else before)"
  shows "collectSegment pj (Some (dk, stIdx st)) level before limit c = last_n (nat limit)
    (takeWhile (\<lambda>l. \<not> at_cutoff bound l) (disk_lines pj dk level (stIdx st)) @
     takeWhile (\<lambda>l. \<not> at_cutoff before l) (csHistory c))"
  using collectSegment_eq [OF reachable_index [OF assms(1-3)] assms(4-6) refl assms(7)] .

definition ex_record :: historyRecord where
  "ex_record = \<lparr>rcSeq = 1, rcTimestamp = [], rcMessage = [], rcWire = Some (ex_chat\<lparr>wChainHeight := 1, wSeq := 1\<rparr>)\<rparr>"

definition ex_written :: "HistoryStore \<times> disk" where
  "ex_written = fold (store_step (\<lambda>_. []) (\<lambda>_. ''r''))
     [Enqueue (ex_chat\<lparr>wChainHeight := 1, wSeq := 1\<rparr>) 0, WriteNext no_faults] (empty_store, empty_disk)"

lemma ex_written_eq: "ex_written =
   (empty_store\<lparr>stFile := True, stSize := 2, stDirty := True,
      stIdx := [\<lparr>gxTier = 1, gxMinH = 1, gxMaxH = 1, gxChained = True,
                 gxSamples = [\<lparr>hpHeight = 1, hpOffset = 0\<rparr>], gxSince = 1\<rparr>]\<rparr>,
    empty_disk\<lparr>dkActive := Some [CHR ''r'', NL]\<rparr>)"
  by (simp add: ex_written_def store_enqueue_def empty_store_def empty_disk_def historyQueueSize_def write_next_def
      writeRecord_def store_open_def append_line_def no_faults_def indexWroteLocked_def note_height_def new_gen_def
      indexSampleStride_def tier_defs)

theorem older_segment_is_contiguous_window_witness:
  "collectSegment (\<lambda>_. Some ex_record) (Some (snd ex_written, stIdx (fst ex_written))) 1 5 9 new_chain
     = [JsonLine (ex_chat\<lparr>wChainHeight := 1, wSeq := 1\<rparr>)]"
proof -
  have run: "store_run_ok (\<lambda>_. Some ex_record) (\<lambda>_. []) (\<lambda>_. ''r'') (empty_store, empty_disk)
      [Enqueue (ex_chat\<lparr>wChainHeight := 1, wSeq := 1\<rparr>) 0, WriteNext no_faults]"
    by (simp add: store_enqueue_def empty_store_def empty_disk_def historyQueueSize_def no_faults_def in_order_def)
  have fold: "fold (store_step (\<lambda>_. []) (\<lambda>_. ''r'')) [Enqueue (ex_chat\<lparr>wChainHeight := 1, wSeq := 1\<rparr>) 0, WriteNext no_faults]
      (empty_store, empty_disk) = (fst ex_written, snd ex_written)" by (simp only: ex_written_def prod.collapse)
  have seg: "collectSegment (\<lambda>_. Some ex_record) (Some (snd ex_written, stIdx (fst ex_written))) 1 5 9 new_chain =
      last_n (nat 9) (takeWhile (\<lambda>l. \<not> at_cutoff 5 l)
        (disk_lines (\<lambda>_. Some ex_record) (snd ex_written) 1 (stIdx (fst ex_written))) @
        takeWhile (\<lambda>l. \<not> at_cutoff 5 l) (csHistory new_chain))"
    by (rule older_segment_is_contiguous_window [OF empty_store_ok run fold])
      (simp_all add: tier_defs new_chain_def oldestChained_def)
  show ?thesis unfolding seg unfolding ex_written_eq
    by (simp add: disk_lines_def tier_lines_def gen_file_def tier_defs new_chain_def keep_line_def parseRecord_def
        recordLine_def ex_record_def at_cutoff_def last_n_def word_le_nat_alt)
qed

text \<open>C29. The indexed scan of one generation equals streaming its whole file forward through the window ring,
  for every generation of every reachable store.\<close>

theorem indexed_scan_equals_forward_scan:
  assumes "store_ok pj s" "store_run_ok pj fmt er s es" "fold (store_step fmt er) es s = (st, dk)"
    and "g \<in> set (stIdx st)" "gen_file dk (gxTier g) = Some f" "bound \<noteq> 0" "0 < limit"
  shows "scanGenTemp pj dk bound g limit = scan_forward pj bound limit f"
proof -
  have "index_ok pj dk g" using reachable_index [OF assms(1-3)] assms(4) by (simp add: list_all_iff)
  from scanGenTemp_eq [OF this assms(5-7)] show ?thesis using scan_forward_eq [OF assms(7)] by simp
qed

theorem indexed_scan_equals_forward_scan_witness:
  "scanGenTemp (\<lambda>_. Some ex_record) (snd ex_written) 1 (stIdx (fst ex_written) ! 0) 3 =
   scan_forward (\<lambda>_. Some ex_record) 1 3 [CHR ''r'', NL]"
proof -
  have run: "store_run_ok (\<lambda>_. Some ex_record) (\<lambda>_. []) (\<lambda>_. ''r'') (empty_store, empty_disk)
      [Enqueue (ex_chat\<lparr>wChainHeight := 1, wSeq := 1\<rparr>) 0, WriteNext no_faults]"
    by (simp add: store_enqueue_def empty_store_def empty_disk_def historyQueueSize_def no_faults_def in_order_def)
  have fold: "fold (store_step (\<lambda>_. []) (\<lambda>_. ''r'')) [Enqueue (ex_chat\<lparr>wChainHeight := 1, wSeq := 1\<rparr>) 0, WriteNext no_faults]
      (empty_store, empty_disk) = (fst ex_written, snd ex_written)" by (simp only: ex_written_def prod.collapse)
  show ?thesis
    by (rule indexed_scan_equals_forward_scan [OF empty_store_ok run fold])
      (simp_all add: ex_written_eq gen_file_def tier_defs)
qed

text \<open>A rotation without faults keeps exactly one previous generation: the active bytes become the
  archive, the previous archive and any leftover raw file are gone, the new active file is empty and open, and
  what a boot then loads is what the former active file alone would have loaded.\<close>

theorem rotation_archives_active:
  assumes "stFile st" "dkActive dk = Some f"
  shows "\<exists>st'. store_rotate no_faults st dk = (None, st', \<lparr>dkActive = Some [], dkOld = None, dkZst = Some f\<rparr>) \<and>
    stFile st' \<and> stSize st' = 0 \<and>
    fst (LoadRecords pj st' \<lparr>dkActive = Some [], dkOld = None, dkZst = Some f\<rparr>) = map fst (loadJSONLFile pj f)"
  using assms
  by (cases dk)
    (simp add: rotate_cases no_faults_def Let_def store_open_def LoadRecords_def load_tier_def loadJSONLFile_def
      split_nl_def split: prod.splits)

theorem rotation_archives_active_witness:
  "\<exists>st'. store_rotate no_faults (fst ex_written) (snd ex_written) =
     (None, st', \<lparr>dkActive = Some [], dkOld = None, dkZst = Some [CHR ''r'', NL]\<rparr>) \<and> stFile st'"
  using rotation_archives_active [of "fst ex_written" "snd ex_written" "[CHR ''r'', NL]" "\<lambda>_. Some ex_record"]
  by (auto simp: ex_written_eq)

text \<open>A failed compression loses a generation at the next boot: with an archive from an earlier rotation
  present, the freshly rotated \<open>.old\<close> is skipped by the loader as if it were the archived generation, so
  none of the records rotated out is loaded.\<close>

theorem failed_compression_hides_generation:
  assumes "stFile st" "dkActive dk = Some f" "dkZst dk = Some z" "ft = no_faults\<lparr>ftCompress := True\<rparr>"
  shows "\<exists>st' dk'. store_rotate ft st dk = (None, st', dk') \<and> dkOld dk' = Some f \<and>
    fst (LoadRecords pj st' dk') = map fst (loadJSONLFile pj z)"
  using assms
  by (cases dk)
    (simp add: rotate_cases no_faults_def Let_def store_open_def LoadRecords_def load_tier_def loadJSONLFile_def
      split_nl_def split: prod.splits)

theorem failed_compression_hides_generation_witness:
  "\<exists>st' dk'. store_rotate (no_faults\<lparr>ftCompress := True\<rparr>) (fst ex_written) ((snd ex_written)\<lparr>dkZst := Some []\<rparr>)
       = (None, st', dk') \<and>
     dkOld dk' = Some [CHR ''r'', NL] \<and> fst (LoadRecords (\<lambda>_. Some ex_record) st' dk') = []"
  using failed_compression_hides_generation [of "fst ex_written" "(snd ex_written)\<lparr>dkZst := Some []\<rparr>" "[CHR ''r'', NL]" "[]"
      "no_faults\<lparr>ftCompress := True\<rparr>" "\<lambda>_. Some ex_record"]
  by (simp add: ex_written_eq loadJSONLFile_def split_nl_def)

text \<open>The write queue is bounded and sheds load instead of blocking: it never exceeds its capacity, a full
  queue counts the record as dropped, and a closed store takes nothing.\<close>

theorem write_queue_bounded:
  "length (stQueue (store_enqueue fmt w now st)) \<le> max (length (stQueue st)) historyQueueSize \<and>
   stDrops (store_enqueue fmt w now st) =
     (if \<not> stClosed st \<and> historyQueueSize \<le> length (stQueue st) then stDrops st + 1 else stDrops st) \<and>
   (if stClosed st then store_enqueue fmt w now st = st else
      (if length (stQueue st) < historyQueueSize
       then rcWire (last (stQueue (store_enqueue fmt w now st))) = Some w \<and>
            butlast (stQueue (store_enqueue fmt w now st)) = stQueue st
       else stQueue (store_enqueue fmt w now st) = stQueue st))"
  by (simp add: store_enqueue_def)

end
