(* ===== verification/History_Replay.thy ===== *)
theory History_Replay
  imports History_Disk
begin

text \<open>
  Serving stored lines to a peer, \<^verbatim>\<open>src/server/history.go\<close>: coalescing lines into frames under a
  bounded, non-blocking queue, and the trailer that closes every response. The accounting in the
  trailer is shown to add up for every pattern of refused sends.
\<close>

subsection \<open>The replay stream\<close>

record pageMeta =
  pmDirection :: string
  pmNextSeq :: u64
  pmMore :: bool

definition historySyncTrailer ::
  "u64 \<Rightarrow> u64 \<Rightarrow> nat \<Rightarrow> nat \<Rightarrow> nat \<Rightarrow> u64 \<Rightarrow> u64 \<Rightarrow> pageMeta \<Rightarrow> HistorySync" where
  "historySyncTrailer minHeight maxHeight sent tot dropped firstSeq lastSeq meta =
     \<lparr>hsType = ''history_sync'', hsMinHeight = minHeight, hsMaxHeight = maxHeight, hsSent = sent,
      hsTotal = tot, hsDropped = dropped, hsDirection = pmDirection meta, hsFirstSeq = firstSeq,
      hsLastSeq = lastSeq, hsNextSeq = pmNextSeq meta, hsMore = pmMore meta\<rparr>"

text \<open>
  A frame is a batch of content bytes or the closing trailer. The peer's queue is the sequence of
  outcomes of the non-blocking sends: \<open>rpRoom ! i\<close> says whether send \<open>i\<close> found room (it
  finds none beyond the list), so every interleaving with the peer's writer is covered.
\<close>

datatype frame = Content string | Trailer HistorySync

record replay =
  rpMinHeight :: u64
  rpMaxHeight :: u64
  rpHaveHeight :: bool
  rpFirstSeq :: u64
  rpLastSeq :: u64
  rpSent :: nat
  rpDropped :: nat
  rpBatch :: string
  rpBatchN :: nat
  rpRoom :: "bool list"
  rpFrames :: "frame list"

definition replaySend :: "frame \<Rightarrow> replay \<Rightarrow> bool \<times> replay" where
  "replaySend f r =
     (case rpRoom r of
        [] \<Rightarrow> (False, r)
      | ok # rest \<Rightarrow>
          if ok then (True, r\<lparr>rpRoom := rest, rpFrames := rpFrames r @ [f]\<rparr>)
          else (False, r\<lparr>rpRoom := rest\<rparr>))"

definition flushBatch :: "replay \<Rightarrow> replay" where
  "flushBatch r =
     (if rpBatch r = [] then r
      else let (ok, r1) = replaySend (Content (rpBatch r)) r;
               r2 = (if ok then r1\<lparr>rpSent := rpSent r1 + rpBatchN r1\<rparr>
                     else r1\<lparr>rpDropped := rpDropped r1 + rpBatchN r1\<rparr>)
           in r2\<lparr>rpBatch := [], rpBatchN := 0\<rparr>)"

definition addBatched :: "int \<Rightarrow> int \<Rightarrow> string \<Rightarrow> replay \<Rightarrow> replay" where
  "addBatched batchLines batchBytes payload r0 =
     (let r = (if rpBatchN r0 > 0 \<and> (int (rpBatchN r0) \<ge> batchLines \<or>
                    int (length (rpBatch r0)) + int (length payload) + 1 > batchBytes)
               then flushBatch r0 else r0)
      in r\<lparr>rpBatch := rpBatch r @ payload @ [CHR 0x0A], rpBatchN := rpBatchN r + 1\<rparr>)"

text \<open>Join and leave notices go only to sessions that asked for them.\<close>

definition replay_skips :: "bool \<Rightarrow> stored_line \<Rightarrow> bool" where
  "replay_skips wantJoins l =
     (case unmarshal l of
        None \<Rightarrow> False
      | Some w \<Rightarrow> wType w = ''system'' \<and> \<not> wantJoins \<and> HasAnyTag (wTags w) [TagJoin, TagLeave])"

definition note_bounds :: "WireMessage \<Rightarrow> replay \<Rightarrow> replay" where
  "note_bounds w r =
     (let r1 = (if wChainHeight w > 0 then
           r\<lparr>rpMinHeight := (if \<not> rpHaveHeight r \<or> wChainHeight w < rpMinHeight r then wChainHeight w else rpMinHeight r),
             rpMaxHeight := (if \<not> rpHaveHeight r \<or> wChainHeight w > rpMaxHeight r then wChainHeight w else rpMaxHeight r),
             rpHaveHeight := True\<rparr> else r)
      in if wSeq w > 0 then
           r1\<lparr>rpFirstSeq := (if rpFirstSeq r1 = 0 then wSeq w else rpFirstSeq r1), rpLastSeq := wSeq w\<rparr>
         else r1)"

definition replay_payload :: "marshaller \<Rightarrow> stored_line \<Rightarrow> string" where
  "replay_payload mj l =
     (case unmarshal l of
        Some w \<Rightarrow> if wType w = ''chat'' then line_text mj l else CleanHistoryMessage (line_text mj l)
      | None \<Rightarrow> CleanHistoryMessage (line_text mj l))"

definition replay_line :: "marshaller \<Rightarrow> int \<Rightarrow> int \<Rightarrow> bool \<Rightarrow> stored_line \<Rightarrow> replay \<Rightarrow> replay" where
  "replay_line mj batchLines batchBytes wantJoins l r =
     (if replay_skips wantJoins l then r
      else case unmarshal l of
          Some w \<Rightarrow> addBatched batchLines batchBytes (replay_payload mj l) (note_bounds w r)
        | None \<Rightarrow>
            (let r1 = flushBatch r; (ok, r2) = replaySend (Content (replay_payload mj l)) r1
             in if ok then r2\<lparr>rpSent := rpSent r2 + 1\<rparr> else r2\<lparr>rpDropped := rpDropped r2 + 1\<rparr>))"

definition replay_start :: "bool list \<Rightarrow> replay" where
  "replay_start room = \<lparr>rpMinHeight = 0, rpMaxHeight = 0, rpHaveHeight = False, rpFirstSeq = 0, rpLastSeq = 0,
     rpSent = 0, rpDropped = 0, rpBatch = [], rpBatchN = 0, rpRoom = room, rpFrames = []\<rparr>"

definition or_default :: "int \<Rightarrow> int \<Rightarrow> int" where
  "or_default d v = (if v > 0 then v else d)"

definition sendReplayPage ::
  "marshaller \<Rightarrow> int \<Rightarrow> int \<Rightarrow> bool \<Rightarrow> bool list \<Rightarrow> stored_line list \<Rightarrow> pageMeta \<Rightarrow> replay" where
  "sendReplayPage mj cfgLines cfgBytes wantJoins room ls meta =
     (let r = flushBatch (fold (replay_line mj (or_default 32 cfgLines) (or_default 16384 cfgBytes) wantJoins)
                ls (replay_start room));
          t = historySyncTrailer (rpMinHeight r) (rpMaxHeight r) (rpSent r) (length ls) (rpDropped r)
                (rpFirstSeq r) (rpLastSeq r) meta;
          (ok, r1) = replaySend (Trailer t) r
      in if ok then r1 else r1\<lparr>rpDropped := rpDropped r1 + 1\<rparr>)"

definition sendReplay :: "marshaller \<Rightarrow> int \<Rightarrow> int \<Rightarrow> bool \<Rightarrow> bool list \<Rightarrow> stored_line list \<Rightarrow> replay" where
  "sendReplay mj cfgLines cfgBytes wantJoins room ls =
     sendReplayPage mj cfgLines cfgBytes wantJoins room ls \<lparr>pmDirection = [], pmNextSeq = 0, pmMore = False\<rparr>"

subsection \<open>Answering requests\<close>

text \<open>A response is a replay stream; \<open>None\<close> is a request that is ignored.\<close>

record replay_env =
  reMarshal :: marshaller
  reBatchLines :: int
  reBatchBytes :: int
  reWantJoins :: bool
  reRoom :: "bool list"

definition send_page :: "replay_env \<Rightarrow> stored_line list \<Rightarrow> pageMeta \<Rightarrow> replay" where
  "send_page env ls meta =
     sendReplayPage (reMarshal env) (reBatchLines env) (reBatchBytes env) (reWantJoins env) (reRoom env) ls meta"

definition no_meta :: pageMeta where
  "no_meta = \<lparr>pmDirection = [], pmNextSeq = 0, pmMore = False\<rparr>"

definition serveHistorySegment ::
  "replay_env \<Rightarrow> record_parser \<Rightarrow> (disk \<times> genIndex list) option \<Rightarrow> int \<Rightarrow> u64 \<Rightarrow> int \<Rightarrow> ChainService \<Rightarrow> replay option" where
  "serveHistorySegment env pj store level before limit c =
     (if limit \<le> 0 then None
      else if before \<noteq> 0 \<and> csReady c \<and> before > csHeight c then Some (send_page env [] no_meta)
      else Some (send_page env (collectSegment pj store level before limit c) no_meta))"

definition SendChatSegment ::
  "replay_env \<Rightarrow> record_parser \<Rightarrow> (disk \<times> genIndex list) option \<Rightarrow> int \<Rightarrow> u64 \<Rightarrow> int \<Rightarrow> ChainService \<Rightarrow> replay option" where
  "SendChatSegment env pj store level before limit c =
     (if limit \<le> 0 then None else Some (send_page env (collectSegment pj store level before limit c) no_meta))"

definition serveHistorySeq ::
  "replay_env \<Rightarrow> u64 option \<Rightarrow> u64 option \<Rightarrow> int \<Rightarrow> ChainService \<Rightarrow> replay option" where
  "serveHistorySeq env afterSeq beforeSeq limit c =
     (if limit \<le> 0 then None
      else case afterSeq of
          Some a \<Rightarrow>
            (case collectAfterSeq a limit c of (l, mr, nx) \<Rightarrow>
               Some (send_page env l \<lparr>pmDirection = ''after'', pmNextSeq = nx, pmMore = mr\<rparr>))
        | None \<Rightarrow>
            (case beforeSeq of
               Some b \<Rightarrow>
                 (case collectBeforeSeq b limit c of (l, mr, nx) \<Rightarrow>
                    Some (send_page env l \<lparr>pmDirection = ''before'', pmNextSeq = nx, pmMore = mr\<rparr>))
             | None \<Rightarrow> None))"

definition serveHistoryRanges ::
  "replay_env \<Rightarrow> (HeightRange list \<Rightarrow> HeightRange list) \<Rightarrow> int \<Rightarrow> HeightRange list \<Rightarrow> int \<Rightarrow> ChainService \<Rightarrow> replay option" where
  "serveHistoryRanges env srt maxR ranges limit c =
     (if limit \<le> 0 \<or> length ranges = 0 then None
      else let rs = (if maxR > 0 \<and> int (length ranges) > maxR then take (nat maxR) ranges else ranges)
           in Some (send_page env (collectRanges srt rs limit c) \<lparr>pmDirection = ''recover'', pmNextSeq = 0, pmMore = False\<rparr>))"

subsection \<open>Frames as groups of lines\<close>

text \<open>The sends that found room, by the outcomes in order.\<close>

fun pick :: "'a list \<Rightarrow> bool list \<Rightarrow> 'a list" where
  "pick [] room = []"
| "pick gs [] = []"
| "pick (g # gs) (ok # room) = (if ok then g # pick gs room else pick gs room)"

definition room_at :: "bool list \<Rightarrow> nat \<Rightarrow> bool" where
  "room_at room n \<longleftrightarrow> n < length room \<and> room ! n"

lemma pick_snoc: "pick (gs @ [g]) room = pick gs room @ (if room_at room (length gs) then [g] else [])"
proof (induction gs room rule: pick.induct)
  case (1 room)
  then show ?case by (cases room) (auto simp: room_at_def)
qed (auto simp: room_at_def)

lemma pick_all: "length gs \<le> length room \<Longrightarrow> list_all id room \<Longrightarrow> pick gs room = gs"
  by (induction gs room rule: pick.induct) auto

definition batch_bytes :: "marshaller \<Rightarrow> stored_line list \<Rightarrow> string" where
  "batch_bytes mj g = concat (map (\<lambda>l. replay_payload mj l @ [CHR 0x0A]) g)"

definition good_batch :: "marshaller \<Rightarrow> int \<Rightarrow> int \<Rightarrow> stored_line list \<Rightarrow> bool" where
  "good_batch mj bl bb g \<longleftrightarrow> g \<noteq> [] \<and> list_all (\<lambda>l. unmarshal l \<noteq> None) g \<and>
     (length g = 1 \<or> int (length g) \<le> bl \<and> int (length (batch_bytes mj g)) \<le> bb)"

definition is_raw :: "stored_line list \<Rightarrow> bool" where
  "is_raw g \<longleftrightarrow> length g = 1 \<and> unmarshal (hd g) = None"

definition group_frame :: "marshaller \<Rightarrow> stored_line list \<Rightarrow> frame" where
  "group_frame mj g = Content (if is_raw g then replay_payload mj (hd g) else batch_bytes mj g)"

definition replay_inv :: "marshaller \<Rightarrow> int \<Rightarrow> int \<Rightarrow> bool list \<Rightarrow> stored_line list \<Rightarrow> replay
    \<Rightarrow> stored_line list list \<Rightarrow> stored_line list \<Rightarrow> bool" where
  "replay_inv mj bl bb room seen r gs pend \<longleftrightarrow>
     seen = concat gs @ pend \<and> list_all (\<lambda>g. is_raw g \<or> good_batch mj bl bb g) gs \<and>
     (pend = [] \<or> good_batch mj bl bb pend) \<and> rpBatch r = batch_bytes mj pend \<and> rpBatchN r = length pend \<and>
     rpRoom r = drop (length gs) room \<and> rpFrames r = map (group_frame mj) (pick gs room) \<and>
     rpSent r = length (concat (pick gs room)) \<and> rpSent r + rpDropped r = length (concat gs)"

lemma replaySend_at:
  assumes "rpRoom r = drop n room"
  shows "replaySend f r = (room_at room n,
    r\<lparr>rpRoom := drop (Suc n) room, rpFrames := rpFrames r @ (if room_at room n then [f] else [])\<rparr>)"
proof (cases "n < length room")
  case True
  then have "drop n room = room ! n # drop (Suc n) room" by (rule Cons_nth_drop_Suc [symmetric])
  then show ?thesis using assms True by (simp add: replaySend_def room_at_def)
next
  case False
  then show ?thesis using assms by (simp add: replaySend_def room_at_def)
qed

lemma good_batch_not_raw: "good_batch mj bl bb g \<Longrightarrow> \<not> is_raw g"
  by (cases g) (auto simp: good_batch_def is_raw_def)

lemma flush_inv:
  assumes "replay_inv mj bl bb room seen r gs pend"
  shows "\<exists>gs'. replay_inv mj bl bb room seen (flushBatch r) gs' []"
proof (cases "pend = []")
  case True
  then show ?thesis using assms by (auto simp: flushBatch_def replay_inv_def batch_bytes_def)
next
  case False
  then have g: "good_batch mj bl bb pend" "rpBatch r = batch_bytes mj pend" "batch_bytes mj pend \<noteq> []"
    "rpRoom r = drop (length gs) room"
    using assms by (auto simp: replay_inv_def batch_bytes_def)
  have f: "group_frame mj pend = Content (batch_bytes mj pend)"
    using good_batch_not_raw [OF g(1)] by (simp add: group_frame_def)
  have "replay_inv mj bl bb room seen (flushBatch r) (gs @ [pend]) []"
    using assms g f
    by (simp add: flushBatch_def replaySend_at [OF g(4)] replay_inv_def pick_snoc batch_bytes_def)
  then show ?thesis by blast
qed

lemma batch_bytes_snoc: "batch_bytes mj (g @ [l]) = batch_bytes mj g @ replay_payload mj l @ [CHR 0x0A]"
  by (simp add: batch_bytes_def)

lemma addBatched_inv:
  assumes "replay_inv mj bl bb room seen r gs pend" "unmarshal l \<noteq> None"
  shows "\<exists>gs' pend'. replay_inv mj bl bb room (seen @ [l]) (addBatched bl bb (replay_payload mj l) r) gs' pend'"
proof -
  let ?full = "rpBatchN r > 0 \<and> (int (rpBatchN r) \<ge> bl \<or>
      int (length (rpBatch r)) + int (length (replay_payload mj l)) + 1 > bb)"
  have single: "good_batch mj bl bb [l]" using assms(2) by (simp add: good_batch_def)
  show ?thesis
  proof (cases ?full)
    case True
    from flush_inv [OF assms(1)] obtain gs' where i: "replay_inv mj bl bb room seen (flushBatch r) gs' []" by blast
    then have "replay_inv mj bl bb room (seen @ [l]) (addBatched bl bb (replay_payload mj l) r) gs' [l]"
      using True single by (simp add: addBatched_def replay_inv_def batch_bytes_def)
    then show ?thesis by blast
  next
    case False
    have "good_batch mj bl bb (pend @ [l])"
    proof (cases "pend = []")
      case True
      then show ?thesis using single by simp
    next
      case ne: False
      then show ?thesis using assms False by (auto simp: replay_inv_def good_batch_def batch_bytes_snoc)
    qed
    moreover have "addBatched bl bb (replay_payload mj l) r =
        r\<lparr>rpBatch := rpBatch r @ replay_payload mj l @ [CHR 0x0A], rpBatchN := rpBatchN r + 1\<rparr>"
      unfolding addBatched_def using False by (simp only: if_False Let_def)
    ultimately have "replay_inv mj bl bb room (seen @ [l]) (addBatched bl bb (replay_payload mj l) r) gs (pend @ [l])"
      using assms by (simp add: replay_inv_def batch_bytes_snoc)
    then show ?thesis by blast
  qed
qed

lemma note_bounds_inv: "replay_inv mj bl bb room seen (note_bounds w r) gs pend = replay_inv mj bl bb room seen r gs pend"
  by (simp add: note_bounds_def replay_inv_def Let_def)

lemma replay_line_inv:
  assumes "replay_inv mj bl bb room seen r gs pend"
  shows "\<exists>gs' pend'. replay_inv mj bl bb room (seen @ filter (\<lambda>l. \<not> replay_skips wj l) [l])
    (replay_line mj bl bb wj l r) gs' pend'"
proof (cases "replay_skips wj l")
  case True
  then show ?thesis using assms by (auto simp: replay_line_def)
next
  case False
  show ?thesis
  proof (cases "unmarshal l")
    case (Some w)
    then show ?thesis using addBatched_inv [of mj bl bb room seen "note_bounds w r" gs pend l] assms False
      by (simp add: replay_line_def note_bounds_inv)
  next
    case None
    from flush_inv [OF assms] obtain gs' where i: "replay_inv mj bl bb room seen (flushBatch r) gs' []" by blast
    then have d: "rpRoom (flushBatch r) = drop (length gs') room" by (simp add: replay_inv_def)
    have raw: "is_raw [l]" using None by (simp add: is_raw_def)
    then have "replay_inv mj bl bb room (seen @ [l]) (replay_line mj bl bb wj l r) (gs' @ [[l]]) []"
      using i None False
      by (simp add: replay_line_def replaySend_at [OF d] replay_inv_def pick_snoc group_frame_def)
    then show ?thesis using False by auto
  qed
qed

lemma replay_fold_inv:
  assumes "replay_inv mj bl bb room seen r gs pend"
  shows "\<exists>gs' pend'. replay_inv mj bl bb room (seen @ filter (\<lambda>l. \<not> replay_skips wj l) ls)
    (fold (replay_line mj bl bb wj) ls r) gs' pend'"
  using assms
proof (induction ls arbitrary: seen r gs pend)
  case (Cons l ls)
  from replay_line_inv [OF Cons.prems, of wj l] obtain gs' pend' where
    "replay_inv mj bl bb room (seen @ filter (\<lambda>l. \<not> replay_skips wj l) [l]) (replay_line mj bl bb wj l r) gs' pend'"
    by blast
  moreover have "filter (\<lambda>l. \<not> replay_skips wj l) (l # ls) =
      filter (\<lambda>l. \<not> replay_skips wj l) [l] @ filter (\<lambda>l. \<not> replay_skips wj l) ls" by simp
  ultimately show ?case using Cons.IH by (simp only: append_assoc [symmetric] fold_simps)
qed auto

lemma replay_start_inv: "replay_inv mj bl bb room [] (replay_start room) [] []"
  by (simp add: replay_inv_def replay_start_def batch_bytes_def)

subsection \<open>Bounds reported in the trailer\<close>

definition bounds_ok :: "stored_line list \<Rightarrow> replay \<Rightarrow> bool" where
  "bounds_ok seen r \<longleftrightarrow> rpHaveHeight r = (heights seen \<noteq> []) \<and>
     rpMinHeight r = (if heights seen = [] then 0 else Min (set (heights seen))) \<and>
     rpMaxHeight r = (if heights seen = [] then 0 else Max (set (heights seen)))"

lemma heights_snoc: "heights (ls @ [l]) = heights ls @ (if line_height l = 0 then [] else [line_height l])"
  by (simp add: heights_def)

lemma strict_min_max: "min x m = (if x < m then x else m)" "max x m = (if m < x then x else m)" for x m :: u64
  by auto

lemma Min_Max_snoc:
  fixes x :: u64
  assumes "xs \<noteq> []"
  shows "Min (set (xs @ [x])) = (if x < Min (set xs) then x else Min (set xs))"
    and "Max (set (xs @ [x])) = (if x > Max (set xs) then x else Max (set xs))"
  unfolding strict_min_max [symmetric] using assms by (simp_all add: Min_insert Max_insert)

lemma bounds_frame:
  "bounds_ok seen (flushBatch r) = bounds_ok seen r"
  "bounds_ok seen (addBatched bl bb p r) = bounds_ok seen r"
  "bounds_ok seen (snd (replaySend f r)) = bounds_ok seen r"
  by (auto simp: bounds_ok_def flushBatch_def addBatched_def replaySend_def Let_def split: list.splits)

lemma note_bounds_ok:
  assumes "bounds_ok seen r" "unmarshal l = Some w"
  shows "bounds_ok (seen @ [l]) (note_bounds w r)"
proof (cases "wChainHeight w = 0")
  case True
  then show ?thesis using assms by (simp add: bounds_ok_def note_bounds_def Let_def heights_snoc line_height_def)
next
  case False
  then have h: "heights (seen @ [l]) = heights seen @ [wChainHeight w]" "0 < wChainHeight w"
    using assms(2) by (simp_all add: heights_snoc line_height_def word_gt_0)
  show ?thesis
  proof (cases "heights seen = []")
    case True
    then show ?thesis using assms h by (simp add: bounds_ok_def note_bounds_def Let_def)
  next
    case ne: False
    then show ?thesis using assms h
      by (simp add: bounds_ok_def note_bounds_def Let_def Min_Max_snoc [OF ne] del: set_append Min_gr_iff Max_less_iff)
  qed
qed

lemma replay_line_bounds:
  assumes "bounds_ok seen r"
  shows "bounds_ok (seen @ filter (\<lambda>l. \<not> replay_skips wj l) [l]) (replay_line mj bl bb wj l r)"
proof (cases "replay_skips wj l")
  case True
  then show ?thesis using assms by (simp add: replay_line_def)
next
  case False
  show ?thesis
  proof (cases "unmarshal l")
    case (Some w)
    then show ?thesis using note_bounds_ok [OF assms Some] False by (simp add: replay_line_def bounds_frame)
  next
    case None
    then have hl: "heights (seen @ [l]) = heights seen" by (simp add: heights_snoc line_height_def)
    have "bounds_ok seen (snd (replaySend f (flushBatch r)))" for f using assms by (simp add: bounds_frame)
    then have "bounds_ok seen x2" if "replaySend f (flushBatch r) = (x1, x2)" for f x1 x2 using that by (metis snd_conv)
    then show ?thesis using None False
      by (auto simp: replay_line_def hl bounds_ok_def Let_def split: prod.splits)
  qed
qed

lemma replay_fold_bounds:
  "bounds_ok seen r \<Longrightarrow>
   bounds_ok (seen @ filter (\<lambda>l. \<not> replay_skips wj l) ls) (fold (replay_line mj bl bb wj) ls r)"
proof (induction ls arbitrary: seen r)
  case (Cons l ls)
  have "filter (\<lambda>l. \<not> replay_skips wj l) (l # ls) =
      filter (\<lambda>l. \<not> replay_skips wj l) [l] @ filter (\<lambda>l. \<not> replay_skips wj l) ls" by simp
  then show ?case using Cons.IH [OF replay_line_bounds [OF Cons.prems]] by (simp only: append_assoc [symmetric] fold_simps)
qed simp

lemma replay_groups:
  "\<exists>gs t. concat gs = filter (\<lambda>l. \<not> replay_skips wantJoins l) ls \<and>
    list_all (\<lambda>g. is_raw g \<or> good_batch mj (or_default 32 cfgLines) (or_default 16384 cfgBytes) g) gs \<and>
    list_all (\<lambda>g. g \<noteq> []) gs \<and>
    rpFrames (sendReplayPage mj cfgLines cfgBytes wantJoins room ls meta) =
      map (group_frame mj) (pick gs room) @ (if room_at room (length gs) then [Trailer t] else []) \<and>
    hsSent t = length (concat (pick gs room)) \<and> hsSent t + hsDropped t = length (concat gs) \<and> hsTotal t = length ls \<and>
    hsMinHeight t = (if heights (concat gs) = [] then 0 else Min (set (heights (concat gs)))) \<and>
    hsMaxHeight t = (if heights (concat gs) = [] then 0 else Max (set (heights (concat gs)))) \<and>
    hsNextSeq t = pmNextSeq meta \<and> hsMore t = pmMore meta \<and> hsDirection t = pmDirection meta"
proof -
  define vis where "vis = filter (\<lambda>l. \<not> replay_skips wantJoins l) ls"
  let ?bl = "or_default 32 cfgLines" and ?bb = "or_default 16384 cfgBytes"
  let ?f = "fold (replay_line mj ?bl ?bb wantJoins) ls (replay_start room)"
  let ?r = "flushBatch ?f"
  from replay_fold_inv [OF replay_start_inv] obtain gs0 pend
    where "replay_inv mj ?bl ?bb room ([] @ vis) ?f gs0 pend" unfolding vis_def by blast
  from flush_inv [OF this] obtain gs where i: "replay_inv mj ?bl ?bb room vis ?r gs []" by auto
  then have d: "rpRoom ?r = drop (length gs) room" by (simp add: replay_inv_def)
  have "bounds_ok [] (replay_start room)" by (simp add: bounds_ok_def replay_start_def heights_def)
  from replay_fold_bounds [OF this] have b: "bounds_ok vis ?r" unfolding vis_def by (simp add: bounds_frame)
  define t where "t = historySyncTrailer (rpMinHeight ?r) (rpMaxHeight ?r) (rpSent ?r) (length ls) (rpDropped ?r)
                (rpFirstSeq ?r) (rpLastSeq ?r) meta"
  have fr: "rpFrames (sendReplayPage mj cfgLines cfgBytes wantJoins room ls meta) =
      rpFrames ?r @ (if room_at room (length gs) then [Trailer t] else [])"
    unfolding sendReplayPage_def Let_def t_def [symmetric] replaySend_at [OF d] by simp
  have ne: "list_all (\<lambda>g. g \<noteq> []) gs"
    using i by (auto simp: replay_inv_def list_all_iff is_raw_def good_batch_def)
  have c: "concat gs = vis" using i by (simp add: replay_inv_def)
  show ?thesis using i b fr ne unfolding vis_def [symmetric] c
    by (intro exI [of _ gs] exI [of _ t]) (auto simp: replay_inv_def bounds_ok_def t_def historySyncTrailer_def)
qed

subsection \<open>Properties\<close>

text \<open>C30. Replay accounting under back-pressure: whatever sends the peer's queue refuses, the visible
  lines are cut in order into groups (a raw line alone, or parsed lines within the batch limits
  unless a single one exceeds them); the frames queued are exactly the groups that found room; the
  trailer reports how many lines were queued and how many were dropped, and the height bounds of the
  whole intended window.\<close>

theorem replay_accounts_for_every_line:
  "\<exists>vis gs t. vis = filter (\<lambda>l. \<not> replay_skips wantJoins l) ls \<and> concat gs = vis \<and>
    list_all (\<lambda>g. is_raw g \<or> good_batch mj (or_default 32 cfgLines) (or_default 16384 cfgBytes) g) gs \<and>
    rpFrames (sendReplayPage mj cfgLines cfgBytes wantJoins room ls meta) =
      map (group_frame mj) (pick gs room) @ (if room_at room (length gs) then [Trailer t] else []) \<and>
    hsSent t = length (concat (pick gs room)) \<and> hsSent t + hsDropped t = length vis \<and> hsTotal t = length ls \<and>
    hsMinHeight t = (if heights vis = [] then 0 else Min (set (heights vis))) \<and>
    hsMaxHeight t = (if heights vis = [] then 0 else Max (set (heights vis)))"
  using replay_groups [of wantJoins ls mj cfgLines cfgBytes room meta] by (metis (no_types, lifting))

text \<open>A reader with room is never left waiting: when the peer's queue takes every frame, each cursor page
  ends with a trailer that repeats the page's resume cursor and counts every visible line as sent, none as
  dropped.\<close>

theorem cursor_page_is_answered:
  assumes "0 < limit" "list_all id (reRoom env)" "length (csHistory c) < length (reRoom env)"
    and "collectAfterSeq a limit c = (l, mr, nx)"
  shows "\<exists>r fs t. serveHistorySeq env (Some a) b limit c = Some r \<and> rpFrames r = fs @ [Trailer t] \<and>
    hsNextSeq t = nx \<and> hsMore t = mr \<and> hsDirection t = ''after'' \<and> hsDropped t = 0 \<and>
    hsSent t = length (filter (\<lambda>x. \<not> replay_skips (reWantJoins env) x) l)"
proof -
  let ?meta = "\<lparr>pmDirection = ''after'', pmNextSeq = nx, pmMore = mr\<rparr>"
  have "l = take (nat limit) (filter (\<lambda>l. a < line_seq l) (csHistory c))"
    using assms(1,4) take_page_eq [of "[]" limit "nat limit" "filter (\<lambda>l. a < line_seq l) (csHistory c)" 0]
    by (auto simp: collectAfterSeq_def after_loop_page)
  then have l: "length l \<le> length (csHistory c)"
    by (simp add: min.coboundedI1)
  from replay_groups [of "reWantJoins env" l "reMarshal env" "reBatchLines env" "reBatchBytes env" "reRoom env" ?meta]
  obtain gs t where g: "concat gs = filter (\<lambda>x. \<not> replay_skips (reWantJoins env) x) l" "list_all (\<lambda>g. g \<noteq> []) gs"
    "rpFrames (send_page env l ?meta) = map (group_frame (reMarshal env)) (pick gs (reRoom env)) @
       (if room_at (reRoom env) (length gs) then [Trailer t] else [])"
    "hsSent t = length (concat (pick gs (reRoom env)))" "hsSent t + hsDropped t = length (concat gs)"
    "hsNextSeq t = nx" "hsMore t = mr" "hsDirection t = ''after''"
    unfolding send_page_def by auto
  have "length gs \<le> length (concat gs)" using g(2)
  proof (induction gs)
    case (Cons x gs)
    then show ?case by (cases x) auto
  qed simp
  also have "\<dots> \<le> length l" unfolding g(1) by simp
  finally have n: "length gs < length (reRoom env)" using l assms(3) by simp
  then have p: "pick gs (reRoom env) = gs" "room_at (reRoom env) (length gs)"
    using pick_all [of gs "reRoom env"] assms(2) by (auto simp: room_at_def list_all_length)
  show ?thesis using g p assms(1,4) by (auto simp: serveHistorySeq_def)
qed

definition ex_env :: replay_env where
  "ex_env = \<lparr>reMarshal = wText, reBatchLines = 0, reBatchBytes = 0, reWantJoins = False, reRoom = replicate 4 True\<rparr>"

theorem cursor_page_is_answered_witness:
  "\<exists>r fs t. serveHistorySeq ex_env (Some 0) None 2 (ex_log 3) = Some r \<and> rpFrames r = fs @ [Trailer t] \<and>
     hsNextSeq t = 2 \<and> hsMore t \<and> hsSent t = 2"
proof -
  have p: "collectAfterSeq 0 2 (ex_log 3) = ([ex_line 1, ex_line 2], True, 2)"
    by (simp add: collectAfterSeq_def after_loop_page ex_log_lines word_less_nat_alt)
  have v: "\<not> replay_skips False (ex_line n)" for n
    by (simp add: replay_skips_def ex_line_def ex_chat_def zero_wire_def)
  show ?thesis
    using cursor_page_is_answered [of 2 ex_env "ex_log 3" 0 "[ex_line 1, ex_line 2]" True 2 None] p
    by (auto simp: ex_env_def ex_log_lines v list_all_iff)
qed

end
