(* ===== verification/Guard.thy ===== *)
theory Guard
  imports Sha256 Text_Filter Complex_Main "HOL-Library.AList"
begin

text \<open>
  The rate limits and checks of \<^verbatim>\<open>src/lib/guard\<close>: auth-failure penalties, per-address
  cooldowns, the token bucket, the send gate and the badges. A Go map is an association list with
  distinct keys; token amounts are reals; every clock reading is an argument. The bounds show what
  an attacker can get through.
\<close>

subsection \<open>Badges\<close>

definition badge_mark :: string where
  "badge_mark = encode_runes [0x25C6, 0x20]"

definition GenerateTripcode :: "string \<Rightarrow> int \<Rightarrow> string" where
  "GenerateTripcode secret len =
     (if secret = [] \<or> len \<le> 0 then []
      else let fullHex = hex_encode (sha256 secret);
               n = (if len > int (length fullHex) then int (length fullHex) else len)
           in badge_mark @ take (nat n) fullHex)"

definition TripBadgeFromPubHex :: "string \<Rightarrow> string" where
  "TripBadgeFromPubHex pubHex =
     (case hex_decode pubHex of
        None \<Rightarrow> []
      | Some b \<Rightarrow> if length b = 0 then [] else badge_mark @ take 8 (hex_encode (sha256 b)))"

subsection \<open>Penalties\<close>

definition AuthFailTTL :: duration where "AuthFailTTL = hour"

record RateLimitRecord =
  rlFailCount :: int
  rlUnlockTime :: time
  rlLastSeen :: time

definition NextPenalty :: "RateLimitRecord \<Rightarrow> time \<Rightarrow> RateLimitRecord" where
  "NextPenalty rec0 now =
     (let rec = rec0\<lparr>rlFailCount := rlFailCount rec0 + 1, rlLastSeen := now\<rparr> in
      if rlFailCount rec \<ge> 5 then rec\<lparr>rlUnlockTime := now + 5 * minute, rlFailCount := 0\<rparr> else rec)"

definition IsBanned :: "RateLimitRecord \<Rightarrow> time \<Rightarrow> bool" where
  "IsBanned rec now = (\<not> isZero (rlUnlockTime rec) \<and> now < rlUnlockTime rec)"

definition ShouldPrune :: "RateLimitRecord \<Rightarrow> time \<Rightarrow> duration \<Rightarrow> bool" where
  "ShouldPrune rec now ttl =
     (if \<not> isZero (rlUnlockTime rec) \<and> now > rlUnlockTime rec then True
      else \<not> isZero (rlLastSeen rec) \<and> now - rlLastSeen rec > ttl)"

definition CheckConnectionRate :: "time \<Rightarrow> time \<Rightarrow> RateLimitRecord \<Rightarrow> time \<Rightarrow> duration \<Rightarrow> bool \<times> string" where
  "CheckConnectionRate now now2 rec lastConnect cooldown =
     (if IsBanned rec now then (False, ''banned'')
      else if \<not> isZero lastConnect \<and> now2 - lastConnect < cooldown then (False, ''cooldown'')
      else (True, []))"

subsection \<open>The send gate\<close>

record Limits =
  lmMaxMessageLength :: int
  lmMaxMessageLine :: int
  lmMessageCooldown :: duration

datatype send_error = ErrTooLong | ErrTooManyLines | ErrTooFast | ErrFilter filter_error

definition ValidateMessageForSend ::
  "(nat \<Rightarrow> gcat) \<Rightarrow> string \<Rightarrow> time \<Rightarrow> time \<Rightarrow> Limits option \<Rightarrow> bool \<Rightarrow> send_error option" where
  "ValidateMessageForSend gc text now lastSent lims unlimited =
     (if unlimited then map_option ErrFilter (ValidateMessage gc text)
      else case lims of
          None \<Rightarrow> map_option ErrFilter (ValidateMessage gc text)
        | Some l \<Rightarrow>
            if int (length (runes text)) > lmMaxMessageLength l then Some ErrTooLong
            else if int (count_list text (CHR 0x0A)) + 1 > lmMaxMessageLine l then Some ErrTooManyLines
            else if now - lastSent < lmMessageCooldown l then Some ErrTooFast
            else map_option ErrFilter (ValidateMessage gc text))"

definition ReadLimit :: "int \<Rightarrow> int" where
  "ReadLimit maxMsgLen = maxMsgLen * 3"

subsection \<open>Cooldowns\<close>

type_synonym CooldownMap = "(string \<times> time) list"

definition NewCooldownMap :: CooldownMap where "NewCooldownMap = []"

definition cooldown_reset :: "CooldownMap \<Rightarrow> CooldownMap" where "cooldown_reset c = []"

text \<open>The clock is read when the call starts, for the comparison, and for the eviction.\<close>

record clocks =
  ckNow :: time
  ckSince :: time
  ckEvict :: time

definition cooldown_allow :: "string \<Rightarrow> duration \<Rightarrow> clocks \<Rightarrow> CooldownMap \<Rightarrow> bool \<times> CooldownMap" where
  "cooldown_allow ip d ck c =
     (case map_of c ip of
        Some t \<Rightarrow> if ckSince ck - t < d then (False, c)
                  else (True, let c1 = AList.update ip (ckNow ck) c in
                    if length c1 > 1000 then filter (\<lambda>(k, v). \<not> (ckEvict ck - v > 10 * minute)) c1 else c1)
      | None \<Rightarrow> (True, let c1 = AList.update ip (ckNow ck) c in
                    if length c1 > 1000 then filter (\<lambda>(k, v). \<not> (ckEvict ck - v > 10 * minute)) c1 else c1))"

definition RetryAfter :: "string \<Rightarrow> duration \<Rightarrow> time \<Rightarrow> CooldownMap \<Rightarrow> duration" where
  "RetryAfter ip d now c =
     (case map_of c ip of None \<Rightarrow> 0 | Some t \<Rightarrow> let left = d - (now - t) in if left > 0 then left else 0)"

subsection \<open>Token buckets\<close>

record budgetState =
  bsTokens :: real
  bsUpdated :: time

type_synonym BudgetMap = "(string \<times> budgetState) list"

definition NewBudgetMap :: BudgetMap where "NewBudgetMap = []"

definition evictLocked :: "time \<Rightarrow> BudgetMap \<Rightarrow> BudgetMap" where
  "evictLocked now b = (let cutoff = now - 10 * minute in filter (\<lambda>(k, st). \<not> (bsUpdated st < cutoff)) b)"

definition seconds :: "duration \<Rightarrow> real" where
  "seconds d = real_of_int d / real_of_int second"

definition refill :: "real \<Rightarrow> real \<Rightarrow> time \<Rightarrow> budgetState \<Rightarrow> budgetState" where
  "refill burst perSec now st =
     (if perSec > 0 then
        (let elapsed = seconds (now - bsUpdated st) in
         if elapsed > 0 then
           (let t = bsTokens st + elapsed * perSec
            in st\<lparr>bsTokens := (if t > burst then burst else t), bsUpdated := now\<rparr>)
         else st)
      else st\<lparr>bsUpdated := now\<rparr>)"

text \<open>\<open>st\<close> is a pointer: it stays valid, and charged, even when the eviction drops its key.\<close>

definition budget_allow :: "string \<Rightarrow> real \<Rightarrow> real \<Rightarrow> real \<Rightarrow> time \<Rightarrow> BudgetMap \<Rightarrow> bool \<times> BudgetMap" where
  "budget_allow key cost burst perSec now b =
     (if cost \<le> 0 then (True, b)
      else if burst \<le> 0 then (False, b)
      else let
        (st0, b1) =
          (case map_of b key of
             Some st \<Rightarrow> (st, b)
           | None \<Rightarrow>
               (let st = \<lparr>bsTokens = burst, bsUpdated = now\<rparr>; b' = AList.update key st b
                in (st, if length b' > 1000 then evictLocked now b' else b')));
        st1 = refill burst perSec now st0;
        keep = (\<lambda>st. if map_of b1 key = None then b1 else AList.update key st b1)
      in if bsTokens st1 < cost then (False, keep st1)
         else (True, keep (st1\<lparr>bsTokens := bsTokens st1 - cost\<rparr>)))"

subsection \<open>Failures per ban period\<close>

text \<open>The attempts of a guesser at the given times: an attempt is heard, and fails, unless banned.\<close>

fun heard :: "RateLimitRecord \<Rightarrow> time list \<Rightarrow> time list" where
  "heard rec [] = []"
| "heard rec (t # ts) = (if IsBanned rec t then heard rec ts else t # heard (NextPenalty rec t) ts)"

definition in_window :: "time \<Rightarrow> time \<Rightarrow> bool" where
  "in_window a t \<longleftrightarrow> a \<le> t \<and> t < a + 5 * minute"

lemma heard_subset: "t \<in> set (heard rec ts) \<Longrightarrow> t \<in> set ts"
  by (induction rec ts rule: heard.induct) (auto split: if_splits)

lemma heard_banned:
  assumes "sorted ts" "a + 5 * minute \<le> rlUnlockTime rec" "rlUnlockTime rec \<noteq> 0"
  shows "filter (in_window a) (heard rec ts) = []"
  using assms
proof (induction rec ts rule: heard.induct)
  case (2 rec t ts)
  show ?case
  proof (cases "IsBanned rec t")
    case True
    then show ?thesis using 2 by simp
  next
    case False
    then have "rlUnlockTime rec \<le> t" using 2(5) by (auto simp: IsBanned_def isZero_def)
    then have "\<not> in_window a x" if "x \<in> insert t (set ts)" for x
      using that 2(3,4) by (auto simp: in_window_def)
    then show ?thesis using False by (auto simp: filter_empty_conv dest: heard_subset)
  qed
qed simp

lemma heard_in_window:
  assumes "sorted ts" "list_all (\<lambda>t. a \<le> t) ts" "0 \<le> rlFailCount rec" "rlFailCount rec < 5" "0 < a"
  shows "int (length (filter (in_window a) (heard rec ts))) \<le> 5 - rlFailCount rec"
  using assms
proof (induction rec ts rule: heard.induct)
  case (2 rec t ts)
  show ?case
  proof (cases "IsBanned rec t")
    case True
    then show ?thesis using 2 by simp
  next
    case False
    let ?rec = "NextPenalty rec t"
    have s: "sorted ts" "list_all (\<lambda>t. a \<le> t) ts" "a \<le> t" using 2(3,4) by simp_all
    show ?thesis
    proof (cases "rlFailCount rec + 1 \<ge> 5")
      case True
      then have "a + 5 * minute \<le> rlUnlockTime ?rec" "rlUnlockTime ?rec \<noteq> 0"
        using s(3) 2(7) by (auto simp: NextPenalty_def minute_def second_def)
      from heard_banned [OF s(1) this] show ?thesis using False True 2(6) by simp
    next
      case less: False
      then have "rlFailCount ?rec = rlFailCount rec + 1" by (simp add: NextPenalty_def)
      with 2(2) [OF False s(1,2)] less 2(5,7) False show ?thesis by simp
    qed
  qed
qed (use assms in simp)

lemma NextPenalty_count: "0 \<le> rlFailCount rec \<Longrightarrow> rlFailCount rec < 5 \<Longrightarrow>
    0 \<le> rlFailCount (NextPenalty rec t) \<and> rlFailCount (NextPenalty rec t) < 5"
  by (simp add: NextPenalty_def Let_def)

lemma heard_bound:
  assumes "sorted ts" "0 \<le> rlFailCount rec" "rlFailCount rec < 5" "0 < a"
  shows "length (filter (in_window a) (heard rec ts)) \<le> 5"
  using assms
proof (induction rec ts rule: heard.induct)
  case (2 rec t ts)
  show ?case
  proof (cases "a \<le> t")
    case True
    have "list_all (\<lambda>x. a \<le> x) (t # ts)" using 2(3) True by (auto simp: list_all_iff)
    from heard_in_window [OF 2(3) this 2(4-6)] 2(4) show ?thesis by linarith
  next
    case False
    then show ?thesis using 2 NextPenalty_count [of rec t] by (auto simp: in_window_def)
  qed
qed simp

subsection \<open>Spacing of cooldown grants\<close>

type_synonym cool_call = "string \<times> duration \<times> clocks"

fun cool_grants :: "cool_call list \<Rightarrow> CooldownMap \<Rightarrow> cool_call list" where
  "cool_grants [] c = []"
| "cool_grants ((ip, d, ck) # cs) c =
     (case cooldown_allow ip d ck c of
        (ok, c') \<Rightarrow> if ok then (ip, d, ck) # cool_grants cs c' else cool_grants cs c')"

fun clocks_ok :: "time \<Rightarrow> cool_call list \<Rightarrow> bool" where
  "clocks_ok lo [] = True"
| "clocks_ok lo ((ip, d, ck) # cs) =
     (lo \<le> ckNow ck \<and> ckNow ck \<le> ckSince ck \<and> ckSince ck \<le> ckEvict ck \<and> clocks_ok (ckEvict ck) cs)"

lemma map_of_filter_distinct:
  "distinct (map fst c) \<Longrightarrow>
   map_of (filter P c) k = (case map_of c k of None \<Rightarrow> None | Some v \<Rightarrow> if P (k, v) then Some v else None)"
  by (induction c) (auto split: option.splits simp: map_of_eq_None_iff rev_image_eqI)

text \<open>Since a grant at \<open>g\<close>, the entry is at least that recent or was evicted after ten idle minutes.\<close>

definition held :: "string \<Rightarrow> time \<Rightarrow> time \<Rightarrow> CooldownMap \<Rightarrow> bool" where
  "held ip g lo c \<longleftrightarrow> distinct (map fst c) \<and>
     (case map_of c ip of Some t \<Rightarrow> g \<le> t | None \<Rightarrow> lo - g > 10 * minute)"

definition evict_old :: "time \<Rightarrow> CooldownMap \<Rightarrow> CooldownMap" where
  "evict_old now c = (if length c > 1000 then filter (\<lambda>(k, v). \<not> (now - v > 10 * minute)) c else c)"

lemma cooldown_allow_cases:
  "cooldown_allow ip d ck c =
    (if (case map_of c ip of Some t \<Rightarrow> ckSince ck - t < d | None \<Rightarrow> False) then (False, c)
     else (True, evict_old (ckEvict ck) (AList.update ip (ckNow ck) c)))"
  by (simp add: cooldown_allow_def evict_old_def Let_def split: option.splits)

lemma evict_held:
  assumes "held ip g now c"
  shows "held ip g now (evict_old now c)"
proof -
  have "distinct (map fst c)" using assms by (simp add: held_def)
  then show ?thesis using assms
    by (cases "map_of c ip") (simp_all add: held_def evict_old_def map_of_filter_distinct distinct_map_filter)
qed

lemma held_later: "held ip g lo c \<Longrightarrow> lo \<le> lo' \<Longrightarrow> held ip g lo' c"
  by (cases "map_of c ip") (simp_all add: held_def)

lemma held_update:
  assumes "held ip g lo c" "g \<le> t"
  shows "held ip g lo (AList.update k t c)"
  using assms by (cases "map_of c ip") (simp_all add: held_def distinct_update update_conv')

lemma allow_held:
  assumes "held ip g lo c" "cooldown_allow k d ck c = (ok, c')" "lo \<le> ckNow ck" "ckNow ck \<le> ckEvict ck" "g \<le> ckNow ck"
  shows "held ip g (ckEvict ck) c'"
proof (cases "case map_of c k of Some t \<Rightarrow> ckSince ck - t < d | None \<Rightarrow> False")
  case True
  then show ?thesis using assms held_later [OF assms(1)] by (simp add: cooldown_allow_cases)
next
  case False
  then have "c' = evict_old (ckEvict ck) (AList.update k (ckNow ck) c)"
    using assms(2) by (simp add: cooldown_allow_cases)
  then show ?thesis
    using evict_held [OF held_update [OF held_later [OF assms(1)] assms(5)]] assms(3,4) by simp
qed

lemma held_spaced:
  assumes "held ip g lo c" "clocks_ok lo cs" "g \<le> lo" "(ip, d', ck') \<in> set (cool_grants cs c)" "d' \<le> 10 * minute"
  shows "d' \<le> ckSince ck' - g"
  using assms
proof (induction cs c arbitrary: lo rule: cool_grants.induct)
  case (2 k d ck cs c)
  obtain ok c' where a: "cooldown_allow k d ck c = (ok, c')" by fastforce
  have t: "lo \<le> ckNow ck" "ckNow ck \<le> ckSince ck" "ckSince ck \<le> ckEvict ck" "clocks_ok (ckEvict ck) cs"
    using 2(4) by simp_all
  have h: "held ip g (ckEvict ck) c'" using allow_held [OF 2(3) a t(1)] t 2(5) by simp
  have later: "d' \<le> ckSince ck' - g" if "(ip, d', ck') \<in> set (cool_grants cs c')"
    using 2(1,2) [OF a [symmetric]] that h t 2(5,7) by (cases ok) fastforce+
  show ?case
  proof (cases "ok \<and> (ip, d', ck') = (k, d, ck)")
    case True
    then show ?thesis using a 2(3,5,7) t
      by (auto simp: cooldown_allow_cases held_def split: option.splits if_splits)
  next
    case False
    then show ?thesis using later 2(6) a by (auto split: if_splits)
  qed
qed simp

lemma cool_grants_spaced:
  assumes "clocks_ok lo cs" "distinct (map fst c)"
  shows "sorted_wrt (\<lambda>(ip, d, ck) (ip', d', ck'). ip' = ip \<longrightarrow> d' \<le> 10 * minute \<longrightarrow> d' \<le> ckSince ck' - ckNow ck)
    (cool_grants cs c)"
  using assms
proof (induction cs c arbitrary: lo rule: cool_grants.induct)
  case (2 k d ck cs c)
  obtain ok c' where a: "cooldown_allow k d ck c = (ok, c')" by fastforce
  have t: "ckNow ck \<le> ckSince ck" "ckSince ck \<le> ckEvict ck" "clocks_ok (ckEvict ck) cs" using 2(3) by simp_all
  have dc: "distinct (map fst c')" using a 2(4)
    by (auto simp: cooldown_allow_cases evict_old_def distinct_map_filter distinct_update split: if_splits)
  show ?case
  proof (cases ok)
    case False
    then show ?thesis using 2(2) [OF a [symmetric]] t dc a by simp
  next
    case True
    then have c': "c' = evict_old (ckEvict ck) (AList.update k (ckNow ck) c)"
      using a by (auto simp: cooldown_allow_cases split: if_splits)
    have "held k (ckNow ck) (ckEvict ck) (AList.update k (ckNow ck) c)"
      using 2(4) by (simp add: held_def distinct_update update_conv')
    from evict_held [OF this] have "held k (ckNow ck) (ckEvict ck) c'" by (simp add: c')
    then have "d' \<le> ckSince ck' - ckNow ck" if "(k, d', ck') \<in> set (cool_grants cs c')" "d' \<le> 10 * minute" for d' ck'
      using held_spaced [OF _ t(3) _ that] t by simp
    moreover have "sorted_wrt (\<lambda>(ip, d, ck) (ip', d', ck'). ip' = ip \<longrightarrow> d' \<le> 10 * minute \<longrightarrow> d' \<le> ckSince ck' - ckNow ck)
        (cool_grants cs c')"
      using 2(1) [OF a [symmetric] True t(3) dc] by simp
    ultimately show ?thesis using True a by auto
  qed
qed simp

subsection \<open>What a token bucket lets through\<close>

text \<open>A call carries its own burst and rate, so that a reload of the configuration takes effect.\<close>

record budget_call =
  qKey :: string
  qCost :: real
  qBurst :: real
  qPerSec :: real
  qNow :: time

definition budget_spend :: "budget_call \<Rightarrow> BudgetMap \<Rightarrow> bool \<times> BudgetMap" where
  "budget_spend q b = budget_allow (qKey q) (qCost q) (qBurst q) (qPerSec q) (qNow q) b"

text \<open>The cost granted to one key over a sequence of calls.\<close>

fun granted :: "string \<Rightarrow> budget_call list \<Rightarrow> BudgetMap \<Rightarrow> real" where
  "granted k [] b = 0"
| "granted k (q # qs) b =
     (case budget_spend q b of (ok, b') \<Rightarrow> (if ok \<and> qKey q = k then qCost q else 0) + granted k qs b')"

text \<open>The clock does not run backwards, and no call offers more than the given burst and rate.\<close>

fun calls_within :: "real \<Rightarrow> real \<Rightarrow> time \<Rightarrow> budget_call list \<Rightarrow> bool" where
  "calls_within burst perSec lo [] = True"
| "calls_within burst perSec lo (q # qs) =
     (lo \<le> qNow q \<and> qBurst q \<le> burst \<and> qPerSec q \<le> perSec \<and> calls_within burst perSec (qNow q) qs)"

definition end_time :: "time \<Rightarrow> budget_call list \<Rightarrow> time" where
  "end_time lo qs = (if qs = [] then lo else qNow (last qs))"

definition after_calls :: "budget_call list \<Rightarrow> BudgetMap" where
  "after_calls qs = fold (\<lambda>q b. snd (budget_spend q b)) qs NewBudgetMap"

text \<open>Seconds from the first to the last of some calls.\<close>

definition calls_elapsed :: "budget_call list \<Rightarrow> real" where
  "calls_elapsed qs = (if qs = [] then 0 else seconds (qNow (last qs) - qNow (hd qs)))"

lemma seconds_diff: "seconds (a - b) + seconds (b - c) = seconds (a - c)"
  by (simp add: seconds_def add_divide_distrib [symmetric])

lemma seconds_mono: "a \<le> b \<Longrightarrow> seconds a \<le> seconds b"
  by (simp add: seconds_def divide_right_mono second_def)

lemma seconds_nonneg: "0 \<le> a \<Longrightarrow> 0 \<le> seconds a"
  by (simp add: seconds_def second_def)

lemma seconds_pos: "0 < seconds a \<longleftrightarrow> 0 < a"
  by (simp add: seconds_def second_def)

text \<open>The account of a key since \<open>t0\<close>: tokens and cost granted together are paid for, and a bucket not touched since then
  holds at most the burst and nothing was granted from it.\<close>

definition paid_for :: "real \<Rightarrow> real \<Rightarrow> time \<Rightarrow> real \<Rightarrow> budgetState \<Rightarrow> bool" where
  "paid_for burst p t0 spent st \<longleftrightarrow>
     (if t0 \<le> bsUpdated st then bsTokens st + spent \<le> burst + p * seconds (bsUpdated st - t0)
      else bsTokens st \<le> burst \<and> spent \<le> 0)"

definition funded :: "string \<Rightarrow> real \<Rightarrow> real \<Rightarrow> time \<Rightarrow> time \<Rightarrow> real \<Rightarrow> BudgetMap \<Rightarrow> bool" where
  "funded k burst p t0 lo spent b \<longleftrightarrow> distinct (map fst b) \<and> t0 \<le> lo \<and>
     (case map_of b k of
        Some st \<Rightarrow> bsUpdated st \<le> lo \<and> 0 \<le> bsTokens st \<and> paid_for burst p t0 spent st
      | None \<Rightarrow> spent \<le> p * seconds (lo - t0))"

lemma funded_later:
  assumes "funded k burst p t0 lo spent b" "lo \<le> now" "0 < p"
  shows "funded k burst p t0 now spent b"
proof -
  have "p * seconds (lo - t0) \<le> p * seconds (now - t0)"
    using assms by (intro mult_left_mono seconds_mono) simp_all
  note order_trans [OF _ this]
  then show ?thesis using assms by (cases "map_of b k") (simp_all add: funded_def)
qed

lemma funded_less: "funded k burst p t0 lo spent b \<Longrightarrow> spent' \<le> spent \<Longrightarrow> funded k burst p t0 lo spent' b"
  by (cases "map_of b k") (auto simp: funded_def paid_for_def)

lemma refill_funded:
  assumes "bsUpdated st \<le> now" "t0 \<le> now" "q \<le> p" "paid_for burst p t0 spent st" "0 \<le> bsTokens st" "0 < c" "c \<le> burst" "0 < p"
  shows "bsUpdated (refill c q now st) = now \<and> 0 \<le> bsTokens (refill c q now st) \<and>
    bsTokens (refill c q now st) + spent \<le> burst + p * seconds (now - t0)"
proof (cases "bsUpdated st = now")
  case True
  then show ?thesis using assms by (simp add: refill_def seconds_def paid_for_def)
next
  case later: False
  then have pos: "0 < seconds (now - bsUpdated st)" using assms(1) by (simp add: seconds_pos)
  show ?thesis
  proof (cases "t0 \<le> bsUpdated st")
    case True
    have "p * seconds (now - bsUpdated st) + p * seconds (bsUpdated st - t0) = p * seconds (now - t0)"
      by (metis distrib_left seconds_diff)
    then have p: "bsTokens st + p * seconds (now - bsUpdated st) + spent \<le> burst + p * seconds (now - t0)"
      using assms(4) True by (simp add: paid_for_def)
    have "seconds (now - bsUpdated st) * q \<le> p * seconds (now - bsUpdated st)"
      using assms(3) pos by (simp add: mult.commute)
    moreover have "0 \<le> p * seconds (now - bsUpdated st)" using assms(8) pos by simp
    ultimately have "seconds (now - bsUpdated st) * q \<le> burst + p * seconds (now - t0) - spent - bsTokens st"
      "bsTokens st + spent \<le> burst + p * seconds (now - t0)" using p by linarith+
    then show ?thesis using pos assms(5,6) by (auto simp: refill_def Let_def)
  next
    case False
    have "0 \<le> p * seconds (now - t0)" using assms(2,8) by (simp add: seconds_nonneg)
    then show ?thesis using False pos assms(4-7) by (auto simp: refill_def Let_def paid_for_def)
  qed
qed

lemma evict_funded:
  assumes "funded k burst p t0 now spent b" "burst \<le> 600 * p" "0 < p"
  shows "funded k burst p t0 now spent (evictLocked now b)"
proof -
  have d: "distinct (map fst b)" and t: "t0 \<le> now" using assms(1) by (simp_all add: funded_def)
  show ?thesis
  proof (cases "map_of b k")
    case None
    then show ?thesis using assms(1) d
      by (simp add: funded_def evictLocked_def Let_def map_of_filter_distinct distinct_map_filter)
  next
    case (Some st)
    have f: "paid_for burst p t0 spent st" "0 \<le> bsTokens st" using assms(1) Some by (simp_all add: funded_def)
    have "spent \<le> p * seconds (now - t0)" if idle: "bsUpdated st < now - 10 * minute"
    proof (cases "t0 \<le> bsUpdated st")
      case True
      have "seconds (bsUpdated st - t0) \<le> seconds (now - 10 * minute - t0)" using idle by (intro seconds_mono) simp
      also have "\<dots> = seconds (now - t0) - 600" by (simp add: seconds_def minute_def second_def field_simps)
      finally have "p * seconds (bsUpdated st - t0) \<le> p * (seconds (now - t0) - 600)" using assms(3) by simp
      then show ?thesis using f True assms(2) by (simp add: paid_for_def algebra_simps)
    next
      case False
      moreover have "0 \<le> p * seconds (now - t0)" using t assms(3) by (simp add: seconds_nonneg)
      ultimately show ?thesis using f by (simp add: paid_for_def)
    qed
    then show ?thesis using assms(1) Some d
      by (simp add: funded_def evictLocked_def Let_def map_of_filter_distinct distinct_map_filter)
  qed
qed

text \<open>A call with a positive cost and burst, taken apart: the bucket it found or made, and what the eviction left.\<close>

definition bucket_found :: "string \<Rightarrow> real \<Rightarrow> time \<Rightarrow> BudgetMap \<Rightarrow> budgetState" where
  "bucket_found key c now b = (case map_of b key of Some st \<Rightarrow> st | None \<Rightarrow> \<lparr>bsTokens = c, bsUpdated = now\<rparr>)"

definition buckets_kept :: "string \<Rightarrow> real \<Rightarrow> time \<Rightarrow> BudgetMap \<Rightarrow> BudgetMap" where
  "buckets_kept key c now b = (case map_of b key of Some st \<Rightarrow> b
     | None \<Rightarrow> (let b' = AList.update key \<lparr>bsTokens = c, bsUpdated = now\<rparr> b in
                if length b' > 1000 then evictLocked now b' else b'))"

lemma allow_parts:
  assumes "distinct (map fst b)" "0 < cost" "0 < c" "budget_allow key cost c q now b = (ok, b')"
  defines "st1 \<equiv> refill c q now (bucket_found key c now b)"
  shows "b' = AList.update key (if ok then st1\<lparr>bsTokens := bsTokens st1 - cost\<rparr> else st1) (buckets_kept key c now b)"
    "ok = (\<not> bsTokens st1 < cost)" "distinct (map fst (buckets_kept key c now b))" "distinct (map fst b')"
proof -
  define fresh where "fresh = AList.update key \<lparr>bsTokens = c, bsUpdated = now\<rparr> b"
  have df: "distinct (map fst fresh)" using assms(1) by (simp add: fresh_def distinct_update)
  show d1: "distinct (map fst (buckets_kept key c now b))"
    using assms(1) df by (auto simp: buckets_kept_def evictLocked_def Let_def distinct_map_filter fresh_def split: option.splits)
  have "map_of (buckets_kept key c now b) key = Some (bucket_found key c now b)"
    using df by (auto simp: buckets_kept_def bucket_found_def fresh_def evictLocked_def Let_def map_of_filter_distinct update_conv'
        minute_def second_def split: option.splits)
  then show r: "b' = AList.update key (if ok then st1\<lparr>bsTokens := bsTokens st1 - cost\<rparr> else st1) (buckets_kept key c now b)"
    "ok = (\<not> bsTokens st1 < cost)"
    using assms(2-4)
    by (auto simp: budget_allow_def Let_def bucket_found_def buckets_kept_def st1_def fresh_def split: option.splits if_splits)
  show "distinct (map fst b')" using d1 by (simp add: r(1) distinct_update)
qed

lemma allow_funded:
  assumes "funded k burst p t0 lo spent b" "lo \<le> now" "0 < cost" "0 < p" "0 < c" "burst \<le> 600 * p"
    and "budget_allow key cost c q now b = (ok, b')" "c \<le> burst" "q \<le> p"
  shows "funded k burst p t0 now (spent + (if ok \<and> key = k then cost else 0)) b'"
proof -
  note later = funded_later [OF assms(1,2,4)]
  have d: "distinct (map fst b)" using assms(1) by (simp add: funded_def)
  note parts = allow_parts [OF d assms(3,5,7)]
  let ?st0 = "bucket_found key c now b" and ?st1 = "refill c q now (bucket_found key c now b)"
  show ?thesis
  proof (cases "key = k")
    case True
    have "bsUpdated ?st0 \<le> now \<and> t0 \<le> now \<and> 0 \<le> bsTokens ?st0 \<and> paid_for burst p t0 spent ?st0"
      using later True assms(5,8) by (cases "map_of b k") (simp_all add: funded_def bucket_found_def paid_for_def)
    then have "bsUpdated ?st1 = now \<and> 0 \<le> bsTokens ?st1 \<and> bsTokens ?st1 + spent \<le> burst + p * seconds (now - t0)" "t0 \<le> now"
      using refill_funded [of ?st0 now t0 q p burst spent c] assms(4,5,8,9) by auto
    then show ?thesis using True parts by (auto simp: funded_def paid_for_def update_conv')
  next
    case False
    have "funded k burst p t0 now spent (AList.update key \<lparr>bsTokens = c, bsUpdated = now\<rparr> b)"
      using later False d by (simp add: funded_def update_conv' distinct_update)
    from evict_funded [OF this assms(6,4)] this later have "funded k burst p t0 now spent (buckets_kept key c now b)"
      by (auto simp: buckets_kept_def Let_def split: option.splits)
    then show ?thesis using False parts by (simp add: funded_def update_conv')
  qed
qed

text \<open>A call that charges nothing leaves the account as it was, or better.\<close>

lemma spend_funded:
  assumes "funded k burst p t0 lo spent b" "lo \<le> qNow q" "qBurst q \<le> burst" "qPerSec q \<le> p"
    and "0 < p" "burst \<le> 600 * p" "budget_spend q b = (ok, b')"
  shows "funded k burst p t0 (qNow q) (spent + (if ok \<and> qKey q = k then qCost q else 0)) b'"
proof (cases "0 < qCost q \<and> 0 < qBurst q")
  case True
  then show ?thesis using assms by (intro allow_funded [of k burst p t0 lo spent b]) (simp_all add: budget_spend_def)
next
  case False
  then have b: "b' = b" "ok \<Longrightarrow> qCost q \<le> 0" using assms(7) by (auto simp: budget_spend_def budget_allow_def split: if_splits)
  have "funded k burst p t0 (qNow q) spent b" by (rule funded_later [OF assms(1,2,5)])
  moreover have "spent + (if ok \<and> qKey q = k then qCost q else 0) \<le> spent" using b(2) by simp
  ultimately show ?thesis unfolding b(1) by (rule funded_less)
qed

lemma granted_funded:
  assumes "funded k burst p t0 lo spent b" "calls_within burst p lo qs" "0 < p" "0 < burst" "burst \<le> 600 * p"
  shows "spent + granted k qs b \<le> burst + p * seconds (end_time lo qs - t0)"
  using assms
proof (induction qs arbitrary: lo spent b)
  case Nil
  have "p * seconds (bsUpdated st - t0) \<le> p * seconds (lo - t0)" if "bsUpdated st \<le> lo" for st
    using that Nil.prems(3) by (simp add: seconds_mono)
  moreover have "0 \<le> p * seconds (lo - t0)" using Nil.prems(1,3) by (simp add: funded_def seconds_nonneg)
  ultimately show ?case using Nil.prems(1,4) by (fastforce simp: funded_def paid_for_def end_time_def split: option.splits if_splits)
next
  case (Cons q qs)
  obtain ok b' where a: "budget_spend q b = (ok, b')" by fastforce
  have t: "lo \<le> qNow q" "qBurst q \<le> burst" "qPerSec q \<le> p" "calls_within burst p (qNow q) qs" using Cons.prems(2) by simp_all
  have "end_time (qNow q) qs = end_time lo (q # qs)" by (simp add: end_time_def)
  then show ?case
    using Cons.IH [OF spend_funded [OF Cons.prems(1) t(1-3) Cons.prems(3,5) a] t(4) Cons.prems(3-5)] a
    by (simp add: algebra_simps)
qed

text \<open>Whatever calls came before, every bucket holds between nothing and the burst, so an account may start at any time.\<close>

definition stocked :: "real \<Rightarrow> time \<Rightarrow> BudgetMap \<Rightarrow> bool" where
  "stocked burst lo b \<longleftrightarrow> distinct (map fst b) \<and>
     (\<forall>k st. map_of b k = Some st \<longrightarrow> 0 \<le> bsTokens st \<and> bsTokens st \<le> burst \<and> bsUpdated st \<le> lo)"

lemma stocked_funded: "stocked burst lo b \<Longrightarrow> lo \<le> t0 \<Longrightarrow> funded k burst p t0 t0 0 b"
proof (cases "map_of b k")
  case (Some st)
  assume "stocked burst lo b" "lo \<le> t0"
  then have "distinct (map fst b)" "0 \<le> bsTokens st" "bsTokens st \<le> burst" "bsUpdated st \<le> t0"
    using Some by (fastforce simp: stocked_def)+
  then show ?thesis using Some by (simp add: funded_def paid_for_def seconds_def)
qed (simp add: stocked_def funded_def seconds_def)

lemma refill_stocked:
  assumes "0 \<le> bsTokens st" "bsTokens st \<le> burst" "bsUpdated st \<le> now" "0 < c" "c \<le> burst"
  shows "0 \<le> bsTokens (refill c q now st) \<and> bsTokens (refill c q now st) \<le> burst \<and> bsUpdated (refill c q now st) \<le> now"
  using assms by (auto simp: refill_def Let_def)

lemma kept_sub:
  assumes "distinct (map fst b)" "map_of (buckets_kept key c now b) k = Some st" "k \<noteq> key"
  shows "map_of b k = Some st"
proof -
  have "distinct (map fst (AList.update key \<lparr>bsTokens = c, bsUpdated = now\<rparr> b))" using assms(1) by (simp add: distinct_update)
  then show ?thesis using assms(2,3)
    by (auto simp: buckets_kept_def Let_def evictLocked_def map_of_filter_distinct update_conv' split: option.splits if_splits)
qed

lemma spend_stocked:
  assumes "stocked burst lo b" "lo \<le> qNow q" "qBurst q \<le> burst"
  shows "stocked burst (qNow q) (snd (budget_spend q b))"
proof (cases "0 < qCost q \<and> 0 < qBurst q")
  case True
  obtain ok b' where r: "budget_spend q b = (ok, b')" by fastforce
  have d: "distinct (map fst b)" using assms(1) by (simp add: stocked_def)
  note parts = allow_parts [OF d, of "qCost q" "qBurst q" "qKey q" "qPerSec q" "qNow q" ok b']
  let ?st1 = "refill (qBurst q) (qPerSec q) (qNow q) (bucket_found (qKey q) (qBurst q) (qNow q) b)"
  have st: "0 \<le> bsTokens ?st1 \<and> bsTokens ?st1 \<le> burst \<and> bsUpdated ?st1 \<le> qNow q"
    using assms True by (intro refill_stocked) (force simp: bucket_found_def stocked_def split: option.split)+
  have "0 \<le> bsTokens st \<and> bsTokens st \<le> burst \<and> bsUpdated st \<le> qNow q" if k: "map_of b' k = Some st" for k st
  proof (cases "k = qKey q")
    case same: True
    then show ?thesis using k parts(1,2) r True st by (auto simp: budget_spend_def update_conv' split: if_splits)
  next
    case False
    then have "map_of b k = Some st" using k parts(1) r True kept_sub [OF d] by (simp add: budget_spend_def update_conv')
    then show ?thesis using assms by (force simp: stocked_def)
  qed
  then show ?thesis using r parts(4) True by (simp add: stocked_def budget_spend_def)
next
  case False
  then have "snd (budget_spend q b) = b" by (auto simp: budget_spend_def budget_allow_def)
  then show ?thesis using assms by (force simp: stocked_def)
qed

lemma calls_within_append:
  "calls_within burst p lo (xs @ ys) \<longleftrightarrow> calls_within burst p lo xs \<and> calls_within burst p (end_time lo xs) ys"
  by (induction xs arbitrary: lo) (auto simp: end_time_def)

lemma after_calls_stocked:
  assumes "calls_within burst p lo qs"
  shows "stocked burst (end_time lo qs) (after_calls qs)"
  using assms
proof (induction qs rule: rev_induct)
  case (snoc q qs)
  then have "stocked burst (end_time lo qs) (after_calls qs)" "end_time lo qs \<le> qNow q" "qBurst q \<le> burst"
    by (simp_all add: calls_within_append)
  from spend_stocked [OF this] show ?case by (simp add: after_calls_def end_time_def)
qed (simp add: after_calls_def stocked_def NewBudgetMap_def)

lemma calls_within_mono: "calls_within burst p lo qs \<Longrightarrow> p \<le> p' \<Longrightarrow> calls_within burst p' lo qs"
  by (induction qs arbitrary: lo) auto

subsection \<open>Properties\<close>

definition fresh_record :: RateLimitRecord where
  "fresh_record = \<lparr>rlFailCount = 0, rlUnlockTime = 0, rlLastSeen = 0\<rparr>"

text \<open>Guessing is bounded: whatever times a guesser tries, at most five failed attempts are heard in any
  five minutes.\<close>

theorem guesses_bounded_per_window:
  assumes "sorted ts" "0 < a"
  shows "length (filter (in_window a) (heard fresh_record ts)) \<le> 5"
  using heard_bound [OF assms(1) _ _ assms(2), of fresh_record] by (simp add: fresh_record_def)

theorem guesses_bounded_per_window_witness:
  "length (filter (in_window 1) (heard fresh_record [1, 2, 3, 4, 5, 6, 7])) \<le> 5 \<and>
   heard fresh_record [1, 2, 3, 4, 5, 6, 7] = [1, 2, 3, 4, 5]"
  using guesses_bounded_per_window [of "[1, 2, 3, 4, 5, 6, 7]" 1]
  by (simp add: fresh_record_def IsBanned_def NextPenalty_def isZero_def minute_def second_def)

text \<open>Cooldowns hold across eviction: for one address, the check that grants a call with cooldown up to
  ten minutes comes at least that long after the start of every earlier granted call, however many other
  addresses were seen in between.\<close>

theorem cooldown_grants_spaced:
  assumes "clocks_ok lo cs"
  shows "sorted_wrt (\<lambda>(ip, d, ck) (ip', d', ck'). ip' = ip \<longrightarrow> d' \<le> 10 * minute \<longrightarrow> d' \<le> ckSince ck' - ckNow ck)
    (cool_grants cs NewCooldownMap)"
  using cool_grants_spaced [OF assms, of NewCooldownMap] by (simp add: NewCooldownMap_def)

definition ex_ck :: "time \<Rightarrow> clocks" where
  "ex_ck t = \<lparr>ckNow = t, ckSince = t, ckEvict = t\<rparr>"

theorem cooldown_grants_spaced_witness:
  "cool_grants [(''a'', 5, ex_ck 1), (''a'', 5, ex_ck 3), (''a'', 5, ex_ck 6)] NewCooldownMap
     = [(''a'', 5, ex_ck 1), (''a'', 5, ex_ck 6)] \<and>
   sorted_wrt (\<lambda>(ip, d, ck) (ip', d', ck'). ip' = ip \<longrightarrow> d' \<le> 10 * minute \<longrightarrow> d' \<le> ckSince ck' - ckNow ck)
     [(''a'', 5, ex_ck 1), (''a'', 5, ex_ck 6)]"
proof -
  have g: "cool_grants [(''a'', 5, ex_ck 1), (''a'', 5, ex_ck 3), (''a'', 5, ex_ck 6)] NewCooldownMap
     = [(''a'', 5, ex_ck 1), (''a'', 5, ex_ck 6)]"
    by (simp add: cooldown_allow_def NewCooldownMap_def ex_ck_def)
  have "clocks_ok 0 [(''a'', 5, ex_ck 1), (''a'', 5, ex_ck 3), (''a'', 5, ex_ck 6)]" by (simp add: ex_ck_def)
  from cooldown_grants_spaced [OF this] show ?thesis unfolding g by simp
qed

text \<open>C37. The token bucket bounds cost over every stretch of a run. If the clock does not run backwards and no call offers more
  than a positive burst and a rate, then after any earlier calls the cost granted to one key by the next ones, whatever
  the calls of the other keys and however the configuration is reloaded, is at most the burst plus the seconds from the first
  to the last of them times the larger of that rate and burst/600: a key evicted
  after ten idle minutes comes back full, which beats the refill only when the burst takes longer than that to refill.\<close>

theorem bucket_cost_bounded:
  assumes "calls_within burst perSec t0 (before @ qs)" "0 < burst"
  shows "granted k qs (after_calls before) \<le> burst + max perSec (burst / 600) * calls_elapsed qs"
proof (cases qs)
  case Nil
  then show ?thesis using assms(2) by (simp add: calls_elapsed_def)
next
  case (Cons q qs')
  let ?p = "max perSec (burst / 600)" and ?t = "qNow q"
  have c: "calls_within burst perSec t0 before" "end_time t0 before \<le> ?t" "calls_within burst perSec ?t qs"
    using assms(1) Cons by (simp_all add: calls_within_append)
  have "funded k burst ?p ?t ?t 0 (after_calls before)"
    using after_calls_stocked [OF c(1)] c(2) by (rule stocked_funded)
  moreover have "calls_within burst ?p ?t qs" using c(3) by (rule calls_within_mono) simp
  moreover have "0 < ?p" "burst \<le> 600 * ?p" using assms(2) by (auto simp: max_def field_simps)
  ultimately show ?thesis using granted_funded [of k burst ?p ?t ?t 0 "after_calls before" qs] assms(2) Cons
    by (simp add: calls_elapsed_def end_time_def)
qed

text \<open>Two calls spend the burst, a third is refused, and after a reload that lowers the burst a second buys one more.\<close>

definition ex_calls :: "budget_call list" where
  "ex_calls = [\<lparr>qKey = ''a'', qCost = 2, qBurst = 2, qPerSec = 1, qNow = 0\<rparr>,
     \<lparr>qKey = ''a'', qCost = 1, qBurst = 2, qPerSec = 1, qNow = 0\<rparr>,
     \<lparr>qKey = ''a'', qCost = 1, qBurst = 1, qPerSec = 1, qNow = second\<rparr>]"

theorem bucket_cost_bounded_witness:
  "granted ''a'' ex_calls (after_calls []) \<le> 3 \<and> granted ''a'' ex_calls (after_calls []) = 3"
proof
  have "calls_within 2 1 0 ([] @ ex_calls)" by (simp add: ex_calls_def second_def)
  from bucket_cost_bounded [OF this, of "''a''"] show "granted ''a'' ex_calls (after_calls []) \<le> 3"
    by (simp add: ex_calls_def calls_elapsed_def seconds_def second_def)
  show "granted ''a'' ex_calls (after_calls []) = 3"
    by (simp add: ex_calls_def budget_spend_def budget_allow_def refill_def after_calls_def NewBudgetMap_def seconds_def second_def Let_def)
qed

end
