(* ===== verification/Pow.thy ===== *)
theory Pow
  imports Sha256 Complex_Main
begin

text \<open>
  Proof of work, \<^verbatim>\<open>src/lib/pow\<close>: presets and their clamp, the memory-hard key (argon2id is the
  argument \<open>argon\<close>), the leading-zero search and the signed offers (ed25519 is the pair of arguments
  \<open>sign\<close>, \<open>verify\<close>). The search may run forever, so \<open>Solve\<close> is a partial function into \<open>option\<close>.
\<close>

subsection \<open>Presets\<close>

definition Domain :: string where "Domain = ''V2V-pow-v1''"

definition MinTime :: int where "MinTime = 1"
definition MaxTime :: int where "MaxTime = 10"
definition MinMemoryKiB :: int where "MinMemoryKiB = 8 * 1024"
definition MaxMemoryKiB :: int where "MaxMemoryKiB = 256 * 1024"
definition MinThreads :: int where "MinThreads = 1"
definition MaxThreads :: int where "MaxThreads = 8"
definition MaxDifficulty :: u64 where "MaxDifficulty = 64"

lemmas preset_bounds = MinTime_def MaxTime_def MinMemoryKiB_def MaxMemoryKiB_def MinThreads_def MaxThreads_def
  MaxDifficulty_def

record Preset =
  psTime :: int
  psMemory :: int
  psThreads :: int
  psDifficulty :: u64

definition clamp_set :: "int \<Rightarrow> int \<Rightarrow> int \<Rightarrow> int \<times> bool" where
  "clamp_set v lo hi = (if v < lo then (lo, True) else if v > hi then (hi, True) else (v, False))"

definition Clamp :: "Preset \<Rightarrow> bool \<Rightarrow> Preset \<times> bool" where
  "Clamp p wasm =
     (let (t, c1) = clamp_set (psTime p) MinTime MaxTime;
          (m, c2) = clamp_set (psMemory p) MinMemoryKiB MaxMemoryKiB;
          (th, c3) = clamp_set (psThreads p) MinThreads MaxThreads;
          (th', c4) = (if wasm \<and> th \<noteq> 1 then (1, True) else (th, False));
          (d, c5) = (if psDifficulty p > MaxDifficulty then (MaxDifficulty, True) else (psDifficulty p, False))
      in (\<lparr>psTime = t, psMemory = m, psThreads = th', psDifficulty = d\<rparr>, c1 \<or> c2 \<or> c3 \<or> c4 \<or> c5))"

definition in_envelope :: "bool \<Rightarrow> Preset \<Rightarrow> bool" where
  "in_envelope wasm p \<longleftrightarrow> psTime p \<in> {1..10} \<and> psMemory p \<in> {8192..262144} \<and> psThreads p \<in> {1..8} \<and>
     (wasm \<longrightarrow> psThreads p = 1) \<and> psDifficulty p \<le> 64"

subsection \<open>Digests\<close>

type_synonym argon2id = "bytes \<Rightarrow> bytes \<Rightarrow> u32 \<Rightarrow> u32 \<Rightarrow> u8 \<Rightarrow> nat \<Rightarrow> bytes"

definition DeriveKey :: "argon2id \<Rightarrow> Preset \<Rightarrow> string \<Rightarrow> bytes" where
  "DeriveKey argon p salt =
     argon Domain salt (of_int (psTime p)) (of_int (psMemory p)) (of_int (psThreads p)) 32"

text \<open>\<open>lz_byte i b\<close> counts down from bit \<open>i - 1\<close> to the highest set bit.\<close>

fun lz_byte :: "nat \<Rightarrow> nat \<Rightarrow> nat" where
  "lz_byte 0 b = 0"
| "lz_byte (Suc i) b = (if odd (b div 2 ^ i) then 0 else Suc (lz_byte i b))"

fun LeadingZeros :: "bytes \<Rightarrow> nat" where
  "LeadingZeros [] = 0"
| "LeadingZeros (b # h) = (if nat_of b = 0 then 8 + LeadingZeros h else lz_byte 8 (nat_of b))"

definition le_bytes :: "u64 \<Rightarrow> bytes" where
  "le_bytes n = map (\<lambda>i. byte_of (unat n div 256 ^ i mod 256)) [0..<8]"

definition candidate :: "bytes \<Rightarrow> u64 \<Rightarrow> bytes" where
  "candidate key nonce = sha256 (key @ le_bytes nonce)"

definition meets :: "bytes \<Rightarrow> u64 \<Rightarrow> u64 \<Rightarrow> bool" where
  "meets key d nonce \<longleftrightarrow> LeadingZeros (candidate key nonce) \<ge> unat d"

definition Verify :: "argon2id \<Rightarrow> Preset \<Rightarrow> string \<Rightarrow> u64 \<Rightarrow> bool" where
  "Verify argon p salt nonce =
     (let key = DeriveKey argon p salt in LeadingZeros (candidate key nonce) \<ge> unat (psDifficulty p))"

subsection \<open>The search\<close>

datatype solve_error = ErrAborted

text \<open>The loop: \<open>stop i\<close> says whether the stop channel is found closed in iteration \<open>i\<close>.\<close>

partial_function (option) search :: "(nat \<Rightarrow> bool) \<Rightarrow> bytes \<Rightarrow> u64 \<Rightarrow> nat \<Rightarrow> u64 \<Rightarrow> (solve_error + u64) option" where
  "search stop key d i nonce =
     (if stop i then Some (Inl ErrAborted)
      else if LeadingZeros (candidate key nonce) \<ge> unat d then Some (Inr nonce)
      else search stop key d (Suc i) (nonce + 1))"

definition Solve :: "argon2id \<Rightarrow> Preset \<Rightarrow> string \<Rightarrow> (nat \<Rightarrow> bool) \<Rightarrow> (solve_error + u64) option" where
  "Solve argon p salt stop = search stop (DeriveKey argon p salt) (psDifficulty p) 0 0"

subsection \<open>Offers\<close>

definition OfferDomain :: string where "OfferDomain = ''V2V-POW-v1''"

record Offer =
  ofTier :: int
  ofPreset :: Preset
  ofSalt :: string
  ofExpires :: int
  ofChallengeID :: string

definition Expired :: "Offer \<Rightarrow> time \<Rightarrow> bool" where
  "Expired of0 now = (\<not> now < Unix (ofExpires of0))"

definition offerMessage :: "Offer \<Rightarrow> bytes" where
  "offerMessage f =
     OfferDomain @ NUL # dec_int (ofTier f) @ NUL # dec_int (psTime (ofPreset f)) @ NUL #
     dec_int (psMemory (ofPreset f)) @ NUL # dec_int (psThreads (ofPreset f)) @ NUL #
     dec (unat (psDifficulty (ofPreset f))) @ NUL # ofSalt f @ NUL # dec_int (ofExpires f) @ NUL # ofChallengeID f"

definition SignOffer :: "('priv \<Rightarrow> bytes \<Rightarrow> bytes) \<Rightarrow> 'priv \<Rightarrow> Offer \<Rightarrow> bytes" where
  "SignOffer sign priv f = sign priv (offerMessage f)"

definition VerifyOffer :: "('pub \<Rightarrow> bytes \<Rightarrow> bytes \<Rightarrow> bool) \<Rightarrow> 'pub \<Rightarrow> Offer \<Rightarrow> bytes \<Rightarrow> bool" where
  "VerifyOffer verify pub f sig = verify pub (offerMessage f) sig"

subsection \<open>Leading zeros are a bound on the digest\<close>

text \<open>The digest as a big-endian number.\<close>

fun be_value :: "bytes \<Rightarrow> nat" where
  "be_value [] = 0"
| "be_value (b # h) = nat_of b * 256 ^ length h + be_value h"

lemma digit_less: "r < m \<Longrightarrow> (a * m + r < c * m) = (a < c)" for a m r c :: nat
proof (cases "a < c")
  case True
  assume "r < m"
  moreover have "Suc a * m \<le> c * m" using True by (intro mult_le_mono1) simp
  ultimately show ?thesis using True unfolding mult_Suc by linarith
next
  case False
  then have "c * m \<le> a * m" by (intro mult_le_mono1) simp
  then show ?thesis using False by linarith
qed

lemma be_value_lt: "be_value h < 256 ^ length h"
proof (induction h)
  case (Cons b h)
  from digit_less [OF Cons.IH, of "nat_of b" 256] show ?case by simp
qed simp

lemma lz_byte_le: "lz_byte i b \<le> i"
  by (induction i) auto

lemma lz_byte_iff: "b < 2 ^ i \<Longrightarrow> d \<le> i \<Longrightarrow> d \<le> lz_byte i b \<longleftrightarrow> b < 2 ^ (i - d)"
proof (induction i arbitrary: d)
  case (Suc i)
  have "b div 2 ^ i < 2" using Suc.prems(1) by (simp add: div_less_iff_less_mult)
  then have "b div 2 ^ i = 0 \<or> b div 2 ^ i = 1" by linarith
  then have odd: "odd (b div 2 ^ i) \<longleftrightarrow> \<not> b < 2 ^ i" by (auto simp: div_eq_0_iff)
  show ?case
  proof (cases d)
    case (Suc d')
    then show ?thesis
    proof (cases "b < 2 ^ i")
      case False
      have "(2::nat) ^ (i - d') \<le> 2 ^ i" by (intro power_increasing) simp_all
      then have "\<not> b < 2 ^ (i - d')" using False by linarith
      then show ?thesis using False Suc odd by simp
    next
      case True
      then show ?thesis using Suc.IH [of d'] Suc.prems Suc odd by simp
    qed
  qed (use Suc.prems in simp)
qed simp

lemma LeadingZeros_iff: "d \<le> 8 * length h \<Longrightarrow> d \<le> LeadingZeros h \<longleftrightarrow> be_value h < 2 ^ (8 * length h - d)"
proof (induction h arbitrary: d)
  case (Cons b h)
  have pow256: "(256::nat) ^ n = 2 ^ (8 * n)" for n by (simp add: power_mult)
  have lt: "be_value h < 2 ^ (8 * length h)" using be_value_lt [of h] by (simp add: pow256)
  show ?case
  proof (cases "nat_of b = 0")
    case True
    show ?thesis
    proof (cases "d \<le> 8")
      case d8: True
      have "(2::nat) ^ (8 * length h) \<le> 2 ^ (8 * length (b # h) - d)" using d8 by (intro power_increasing) simp_all
      with lt have "be_value h < 2 ^ (8 * length (b # h) - d)" by (rule less_le_trans)
      then show ?thesis using True d8 by simp
    next
      case False
      then show ?thesis using True Cons.IH [of "d - 8"] Cons.prems by (simp add: le_diff_conv add.commute)
    qed
  next
    case False
    show ?thesis
    proof (cases "d \<le> 8")
      case True
      have "(nat_of b * 2 ^ (8 * length h) + be_value h < 2 ^ (8 - d) * 2 ^ (8 * length h)) = (nat_of b < 2 ^ (8 - d))"
        using lt by (rule digit_less)
      moreover have "(2::nat) ^ (8 - d) * 2 ^ (8 * length h) = 2 ^ (8 * length (b # h) - d)"
        using True by (simp add: power_add [symmetric])
      ultimately show ?thesis using lz_byte_iff [of "nat_of b" 8 d] True False by (simp add: pow256)
    next
      case d8: False
      have "\<not> d \<le> lz_byte 8 (nat_of b)" using lz_byte_le [of 8 "nat_of b"] d8 by linarith
      moreover have "(2::nat) ^ (8 * length (b # h) - d) \<le> 2 ^ (8 * length h)" using d8 by (intro power_increasing) simp_all
      moreover have "(2::nat) ^ (8 * length h) \<le> nat_of b * 2 ^ (8 * length h)" using False by simp
      ultimately have "\<not> nat_of b * 2 ^ (8 * length h) + be_value h < 2 ^ (8 * length (b # h) - d)"
        "\<not> d \<le> LeadingZeros (b # h)"
        using False by (linarith, simp)
      then show ?thesis by (simp add: pow256)
    qed
  qed
qed simp

lemma Verify_meets: "Verify argon p salt n = meets (DeriveKey argon p salt) (psDifficulty p) n"
  by (simp add: Verify_def meets_def Let_def)

subsection \<open>The search returns the smallest nonce\<close>

lemma search_finds:
  assumes "\<And>i. \<not> stop i" "unat nonce \<le> n" "n < 2 ^ 64" "meets key d (of_nat n)"
    and "\<And>k. unat nonce \<le> k \<Longrightarrow> k < n \<Longrightarrow> \<not> meets key d (of_nat k)"
  shows "search stop key d i nonce = Some (Inr (of_nat n))"
  using assms(2,5)
proof (induction "n - unat nonce" arbitrary: i nonce)
  case 0
  then have "n = unat nonce" by simp
  then have "nonce = of_nat n" by simp
  then show ?case using assms(1,4) by (subst search.simps) (simp add: meets_def)
next
  case (Suc m)
  then have lt: "unat nonce < n" by simp
  then have next_val: "unat (nonce + 1) = unat nonce + 1" using assms(3) by (simp add: unat_word_ariths(1))
  have "\<not> meets key d nonce" using Suc.prems(2) [of "unat nonce"] lt by simp
  moreover have "search stop key d (Suc i) (nonce + 1) = Some (Inr (of_nat n))"
    using Suc.hyps(2) lt next_val by (intro Suc.hyps(1)) (simp_all add: Suc.prems(2))
  ultimately show ?case using assms(1) by (subst search.simps) (simp add: meets_def)
qed

lemma search_aborts:
  assumes "stop (i + k)"
  shows "\<exists>r. search stop key d i nonce = Some r"
  using assms
proof (induction k arbitrary: i nonce)
  case 0
  then show ?case by (subst search.simps) simp
next
  case (Suc k)
  then show ?case using Suc.IH [of "Suc i" "nonce + 1"] by (subst search.simps) simp
qed

lemma smallest_meeting:
  assumes "meets key d n"
  obtains m where "m \<le> unat n" "meets key d (of_nat m)" "\<And>k. k < m \<Longrightarrow> \<not> meets key d (of_nat k)"
proof -
  define m where "m = (LEAST k. meets key d (of_nat k))"
  have "meets key d (of_nat (unat n))" using assms by simp
  from Least_le [of "\<lambda>k. meets key d (of_nat k)", OF this] LeastI [of "\<lambda>k. meets key d (of_nat k)", OF this]
  show thesis using not_less_Least [of _ "\<lambda>k. meets key d (of_nat k)"] by (intro that [of m]) (simp_all add: m_def)
qed

lemma clamp_set_in: "lo \<le> hi \<Longrightarrow> lo \<le> fst (clamp_set v lo hi) \<and> fst (clamp_set v lo hi) \<le> hi"
  by (simp add: clamp_set_def)

subsection \<open>Offers sign every field\<close>

lemma offerMessage_inj:
  assumes "offerMessage f = offerMessage g" "NUL \<notin> set (ofSalt f)" "NUL \<notin> set (ofSalt g)"
  shows "f = g"
proof -
  have "ofTier f = ofTier g" "psTime (ofPreset f) = psTime (ofPreset g)" "psMemory (ofPreset f) = psMemory (ofPreset g)"
    "psThreads (ofPreset f) = psThreads (ofPreset g)" "psDifficulty (ofPreset f) = psDifficulty (ofPreset g)"
    "ofSalt f = ofSalt g" "ofExpires f = ofExpires g" "ofChallengeID f = ofChallengeID g"
    using assms by (auto simp: offerMessage_def unat_eq_iff dest!: sep_prefix_free simp: codec)
  then show ?thesis by simp
qed

subsection \<open>Properties\<close>

text \<open>C31. The search is complete and minimal: if any nonce solves the challenge and nobody stops the search,
  \<open>Solve\<close> returns, its nonce is accepted by \<open>Verify\<close>, and no smaller nonce is.\<close>

theorem Solve_finds_smallest:
  assumes "Verify argon p salt n"
  shows "\<exists>m. Solve argon p salt (\<lambda>_. False) = Some (Inr m) \<and> m \<le> n \<and> Verify argon p salt m \<and>
    (\<forall>k. k < m \<longrightarrow> \<not> Verify argon p salt k)"
proof -
  let ?ok = "meets (DeriveKey argon p salt) (psDifficulty p)"
  obtain m where m: "m \<le> unat n" "?ok (of_nat m)" "\<And>k. k < m \<Longrightarrow> \<not> ?ok (of_nat k)"
    using assms smallest_meeting unfolding Verify_meets by blast
  have lt: "m < 2 ^ 64" using m(1) unsigned_less [where 'a = nat, of n] by simp
  have "Solve argon p salt (\<lambda>_. False) = Some (Inr (of_nat m))"
    unfolding Solve_def using m lt by (intro search_finds) simp_all
  moreover have "\<not> ?ok k" if "k < of_nat m" for k
    using m(3) [of "unat k"] that lt by (simp add: word_less_nat_alt)
  moreover have "of_nat m \<le> n" using m(1) lt by (simp add: word_le_nat_alt)
  ultimately show ?thesis using m(2) unfolding Verify_meets by blast
qed

definition ex_argon :: argon2id where
  "ex_argon pass salt t m th len = take len (salt @ replicate len NUL)"

definition ex_preset :: Preset where
  "ex_preset = \<lparr>psTime = 1, psMemory = 8192, psThreads = 1, psDifficulty = 0\<rparr>"

theorem Solve_finds_smallest_witness:
  "\<exists>m. Solve ex_argon ex_preset ''s'' (\<lambda>_. False) = Some (Inr m) \<and> m \<le> 5 \<and> Verify ex_argon ex_preset ''s'' m \<and>
    (\<forall>k. k < m \<longrightarrow> \<not> Verify ex_argon ex_preset ''s'' k)"
proof -
  have "Verify ex_argon ex_preset ''s'' 5" by (simp add: Verify_def ex_preset_def)
  then show ?thesis by (rule Solve_finds_smallest)
qed

text \<open>A clamped preset lies in the safe envelope and is a fixed point of the clamp, and under it \<open>Verify\<close>
  accepts exactly the nonces whose digest, read as a 256-bit number, is below two to the power 256 minus the
  difficulty.\<close>

theorem clamped_work_target:
  "in_envelope wasm (fst (Clamp p wasm)) \<and> Clamp (fst (Clamp p wasm)) wasm = (fst (Clamp p wasm), False) \<and>
   Verify argon (fst (Clamp p wasm)) salt n =
     (be_value (candidate (DeriveKey argon (fst (Clamp p wasm)) salt) n)
        < 2 ^ (256 - unat (psDifficulty (fst (Clamp p wasm)))))"
proof (intro conjI)
  define q where "q = fst (Clamp p wasm)"
  show env: "in_envelope wasm (fst (Clamp p wasm))"
    by (auto simp: in_envelope_def Clamp_def clamp_set_def Let_def preset_bounds split: if_splits prod.splits)
  then show "Clamp (fst (Clamp p wasm)) wasm = (fst (Clamp p wasm), False)"
    unfolding q_def [symmetric]
    by (auto simp: in_envelope_def Clamp_def clamp_set_def Let_def preset_bounds)
  have "unat (psDifficulty q) \<le> 64" using env by (simp add: in_envelope_def q_def word_le_nat_alt)
  then show "Verify argon (fst (Clamp p wasm)) salt n =
     (be_value (candidate (DeriveKey argon (fst (Clamp p wasm)) salt) n)
        < 2 ^ (256 - unat (psDifficulty (fst (Clamp p wasm)))))"
    unfolding q_def [symmetric] Verify_def Let_def
    by (subst LeadingZeros_iff) (simp_all add: candidate_def)
qed

text \<open>The signed bytes of an offer determine every field of it, as long as salts contain no NUL byte, and an
  offer signed by the server verifies under its key.\<close>

theorem offer_signature_covers_fields:
  assumes "NUL \<notin> set (ofSalt f)" "NUL \<notin> set (ofSalt g)" "\<And>m. verify pub m (sign priv m)"
  shows "(offerMessage f = offerMessage g) = (f = g) \<and> VerifyOffer verify pub f (SignOffer sign priv f)"
  using offerMessage_inj [OF _ assms(1,2)] assms(3) by (auto simp: VerifyOffer_def SignOffer_def)

definition ex_offer :: "int \<Rightarrow> Offer" where
  "ex_offer e = \<lparr>ofTier = 1, ofPreset = ex_preset, ofSalt = ''chat|k|1|2'', ofExpires = e, ofChallengeID = ''2''\<rparr>"

theorem offer_signature_covers_fields_witness:
  "offerMessage (ex_offer 1) \<noteq> offerMessage (ex_offer 2) \<and>
   VerifyOffer (\<lambda>pub m sig. sig = m) () (ex_offer 1) (SignOffer (\<lambda>priv m. m) () (ex_offer 1))"
  using offer_signature_covers_fields [of "ex_offer 1" "ex_offer 2" "\<lambda>pub m sig. sig = m" "()" "\<lambda>priv m. m" "()"]
  by (simp add: ex_offer_def)

end
