(* ===== verification/Behavior.thy ===== *)
theory Behavior
  imports Machines Complex_Main
begin

text \<open>
  Behaviour scoring, \<^verbatim>\<open>src/internal/behavior\<close>: the per-address profile with its capped event rings, the
  anomaly features, their aggregation into a score, the tier hysteresis and the attack bump.
  \<open>float64\<close> is \<open>real\<close>; the time zone enters as the function giving the hour of an instant.
  Where Go would divide zero by zero (a feature without samples and no sample floor) the theorems
  ask for a sample floor of at least one.
\<close>

subsection \<open>Profiles\<close>

definition maxRing :: nat where "maxRing = 512"

datatype IdentityKind = IdGuest | IdTrip | IdKey

fun kind_rank :: "IdentityKind \<Rightarrow> nat" where
  "kind_rank IdGuest = 0"
| "kind_rank IdTrip = 1"
| "kind_rank IdKey = 2"

record HTTPEvent =
  heTime :: time
  heClass :: string
  heStatus :: int

record ErrEvent =
  eeTime :: time
  eeCode :: string

record Profile =
  pfFirstSeen :: time
  pfLastSeen :: time
  pfConns :: "time list"
  pfDiscs :: "time list"
  pfMsgs :: "time list"
  pfHistReq :: "time list"
  pfChallenges :: "time list"
  pfHTTP :: "HTTPEvent list"
  pfErrs :: "ErrEvent list"
  pfIdentity :: IdentityKind
  pfIdentityCount :: int
  pfBlocklisted :: bool
  pfTotalConns :: int
  pfTotalMsgs :: int
  pfTier :: int

definition new_profile :: Profile where
  "new_profile = \<lparr>pfFirstSeen = 0, pfLastSeen = 0, pfConns = [], pfDiscs = [], pfMsgs = [], pfHistReq = [],
     pfChallenges = [], pfHTTP = [], pfErrs = [], pfIdentity = IdGuest, pfIdentityCount = 0, pfBlocklisted = False,
     pfTotalConns = 0, pfTotalMsgs = 0, pfTier = 0\<rparr>"

definition appendCappedTime :: "time list \<Rightarrow> time \<Rightarrow> time list" where
  "appendCappedTime dst t =
     (let d = dst @ [t] in if length d > maxRing then drop (length d - maxRing) d else d)"

definition touch :: "time \<Rightarrow> Profile \<Rightarrow> Profile" where
  "touch t p = (let p1 = (if isZero (pfFirstSeen p) then p\<lparr>pfFirstSeen := t\<rparr> else p) in p1\<lparr>pfLastSeen := t\<rparr>)"

definition AddConnect :: "time \<Rightarrow> Profile \<Rightarrow> Profile" where
  "AddConnect t p0 = (let p = touch t p0 in
     p\<lparr>pfConns := appendCappedTime (pfConns p) t, pfTotalConns := pfTotalConns p + 1\<rparr>)"

definition AddDisconnect :: "time \<Rightarrow> Profile \<Rightarrow> Profile" where
  "AddDisconnect t p0 = (let p = touch t p0 in p\<lparr>pfDiscs := appendCappedTime (pfDiscs p) t\<rparr>)"

definition AddMessage :: "time \<Rightarrow> Profile \<Rightarrow> Profile" where
  "AddMessage t p0 = (let p = touch t p0 in
     p\<lparr>pfMsgs := appendCappedTime (pfMsgs p) t, pfTotalMsgs := pfTotalMsgs p + 1\<rparr>)"

definition AddHistoryReq :: "time \<Rightarrow> Profile \<Rightarrow> Profile" where
  "AddHistoryReq t p0 = (let p = touch t p0 in p\<lparr>pfHistReq := appendCappedTime (pfHistReq p) t\<rparr>)"

definition AddChallenge :: "time \<Rightarrow> Profile \<Rightarrow> Profile" where
  "AddChallenge t p0 = (let p = touch t p0 in p\<lparr>pfChallenges := appendCappedTime (pfChallenges p) t\<rparr>)"

definition AddHTTP :: "HTTPEvent \<Rightarrow> Profile \<Rightarrow> Profile" where
  "AddHTTP e p0 = (let p = touch (heTime e) p0;
      h = (if length (pfHTTP p) \<ge> maxRing then drop (length (pfHTTP p) - maxRing + 1) (pfHTTP p) else pfHTTP p)
    in p\<lparr>pfHTTP := h @ [e]\<rparr>)"

definition AddErr :: "ErrEvent \<Rightarrow> Profile \<Rightarrow> Profile" where
  "AddErr e p0 = (let p = touch (eeTime e) p0;
      h = (if length (pfErrs p) \<ge> maxRing then drop (length (pfErrs p) - maxRing + 1) (pfErrs p) else pfErrs p)
    in p\<lparr>pfErrs := h @ [e]\<rparr>)"

definition SetIdentity :: "IdentityKind \<Rightarrow> Profile \<Rightarrow> Profile" where
  "SetIdentity k p = (if kind_rank k > kind_rank (pfIdentity p) then p\<lparr>pfIdentity := k\<rparr> else p)"

definition SetBlocklisted :: "Profile \<Rightarrow> Profile" where
  "SetBlocklisted p = p\<lparr>pfBlocklisted := True\<rparr>"

subsection \<open>Features\<close>

datatype FeatureID = F_RHYTHM | F_THROUGHPUT | F_NIGHT | F_CONTINUITY | F_CHURN | F_IDENTITY | F_IPREP
  | F_PROTOERR | F_HTTP_RATE | F_HTTP_ERROR | F_ENDPOINT_FOCUS | F_AUTH_PROBE | F_ENVELOPE | F_CHALLENGE
  | F_OTHER string

definition ErrProtoPrefix :: string where "ErrProtoPrefix = ''proto:''"
definition ErrAuthPrefix :: string where "ErrAuthPrefix = ''auth:''"
definition ErrEnvPrefix :: string where "ErrEnvPrefix = ''env:''"

text \<open>The records with tuning numbers are polymorphic in them: the engine computes with reals, the loader of the
  policy reads any value of a float64.\<close>

record 'f feature_param =
  fpWeight :: 'f
  fpNMin :: int
  fpLo :: 'f
  fpHi :: 'f
  fpHighBad :: bool

type_synonym FeatureParam = "real feature_param"

record FeatureCtx =
  fcNow :: time
  fcHour :: "time \<Rightarrow> int"
  fcShortWindow :: duration
  fcLongWindow :: duration
  fcGapWindow :: duration
  fcNightStart :: int
  fcNightEnd :: int
  fcIdentityGuest :: real
  fcIdentityTrip :: real
  fcIdentityKey :: real

definition clamp01 :: "real \<Rightarrow> real" where
  "clamp01 x = (if x < 0 then 0 else if x > 1 then 1 else x)"

definition Ramp :: "real \<Rightarrow> real \<Rightarrow> real \<Rightarrow> bool \<Rightarrow> real" where
  "Ramp x lo hi highBad =
     (if hi \<le> lo then
        (if highBad then (if x < hi then 0 else 1) else (if x < hi then 1 else 0))
      else if highBad then clamp01 ((x - lo) / (hi - lo))
      else clamp01 ((hi - x) / (hi - lo)))"

definition since :: "time list \<Rightarrow> time \<Rightarrow> time list" where
  "since ts cutoff = filter (\<lambda>t. \<not> t < cutoff) ts"

definition in_seconds :: "duration \<Rightarrow> real" where "in_seconds d = real_of_int d / real_of_int second"
definition in_minutes :: "duration \<Rightarrow> real" where "in_minutes d = real_of_int d / real_of_int minute"
definition in_hours :: "duration \<Rightarrow> real" where "in_hours d = real_of_int d / real_of_int hour"

text \<open>The gap sums of the loop: sum, sum of squares, count.\<close>

fun gap_sums :: "time \<Rightarrow> time list \<Rightarrow> real \<Rightarrow> real \<Rightarrow> int \<Rightarrow> real \<times> real \<times> int" where
  "gap_sums prev [] s s2 n = (s, s2, n)"
| "gap_sums prev (t # ts) s s2 n =
     (let d = in_seconds (t - prev)
      in if d < 0 then gap_sums t ts s s2 n else gap_sums t ts (s + d) (s2 + d * d) (n + 1))"

definition intervalsCV :: "time list \<Rightarrow> real option" where
  "intervalsCV ts =
     (if length ts < 3 then None
      else let (s, s2, n) = gap_sums (hd ts) (tl ts) 0 0 0
        in if n < 2 \<or> s \<le> 0 then None
           else let mean = s / of_int n; variance = s2 / of_int n - mean * mean
             in if variance \<le> 0 then Some 0 else Some (sqrt variance / mean))"

definition inNight :: "(time \<Rightarrow> int) \<Rightarrow> time \<Rightarrow> int \<Rightarrow> int \<Rightarrow> bool" where
  "inNight hourOf t start end0 =
     (let h = hourOf t in if start \<le> end0 then h \<ge> start \<and> h < end0 else h \<ge> start \<or> h < end0)"

fun longest_loop :: "duration \<Rightarrow> time list \<Rightarrow> time \<Rightarrow> time \<Rightarrow> real \<Rightarrow> real" where
  "longest_loop gap [] anchor prev best =
     (let d = in_hours (prev - anchor) in if d > best then d else best)"
| "longest_loop gap (t # ts) anchor prev best =
     (if t - prev > gap then
        (let d = in_hours (prev - anchor) in longest_loop gap ts t t (if d > best then d else best))
      else longest_loop gap ts anchor t best)"

definition longestRun :: "time list \<Rightarrow> duration \<Rightarrow> real" where
  "longestRun ts gap = (case ts of [] \<Rightarrow> 0 | t # r \<Rightarrow> longest_loop gap r t t 0)"

definition countErrPrefix :: "ErrEvent list \<Rightarrow> time \<Rightarrow> string \<Rightarrow> int" where
  "countErrPrefix errs cutoff pre =
     int (length (filter (\<lambda>e. \<not> eeTime e < cutoff \<and> take (length pre) (eeCode e) = pre) errs))"

text \<open>The largest number of events of one class.\<close>

definition class_peak :: "HTTPEvent list \<Rightarrow> int" where
  "class_peak es =
     fold (\<lambda>c peak. let n = int (length (filter (\<lambda>e. heClass e = c) es)) in if n > peak then n else peak)
       (remdups (map heClass es)) 0"

text \<open>\<open>ramp_floor n\<close> is the shared shape of the cases: too few samples, or a ramp.\<close>

definition ramp_floor :: "int \<Rightarrow> FeatureParam \<Rightarrow> real \<Rightarrow> real option" where
  "ramp_floor n fp x = (if n < fpNMin fp then None else Some (Ramp x (fpLo fp) (fpHi fp) True))"

fun FeatureValue :: "Profile \<Rightarrow> FeatureID \<Rightarrow> FeatureParam \<Rightarrow> FeatureCtx \<Rightarrow> real option" where
  "FeatureValue p F_RHYTHM fp ctx =
     (let msgs = since (pfMsgs p) (fcNow ctx - fcLongWindow ctx) in
      if int (length msgs) < fpNMin fp then None
      else case intervalsCV msgs of None \<Rightarrow> None | Some cv \<Rightarrow> Some (Ramp cv (fpLo fp) (fpHi fp) False))"
| "FeatureValue p F_THROUGHPUT fp ctx =
     (let msgs = since (pfMsgs p) (fcNow ctx - fcLongWindow ctx)
      in ramp_floor (length msgs) fp (of_nat (length msgs) / in_hours (fcLongWindow ctx)))"
| "FeatureValue p F_NIGHT fp ctx =
     (let msgs = since (pfMsgs p) (fcNow ctx - fcLongWindow ctx);
          night = length (filter (\<lambda>t. inNight (fcHour ctx) t (fcNightStart ctx) (fcNightEnd ctx)) msgs)
      in ramp_floor (length msgs) fp (of_nat night / of_nat (length msgs)))"
| "FeatureValue p F_CONTINUITY fp ctx =
     ramp_floor (length (pfMsgs p)) fp (longestRun (pfMsgs p) (fcGapWindow ctx))"
| "FeatureValue p F_CHURN fp ctx =
     (let conns = since (pfConns p) (fcNow ctx - fcLongWindow ctx)
      in ramp_floor (length conns) fp (of_nat (length conns) / in_hours (fcLongWindow ctx)))"
| "FeatureValue p F_IDENTITY fp ctx =
     Some (case pfIdentity p of IdKey \<Rightarrow> fcIdentityKey ctx | IdTrip \<Rightarrow> fcIdentityTrip ctx
       | IdGuest \<Rightarrow> fcIdentityGuest ctx)"
| "FeatureValue p F_IPREP fp ctx =
     (if pfBlocklisted p then Some 1 else ramp_floor (pfIdentityCount p) fp (of_int (pfIdentityCount p)))"
| "FeatureValue p F_PROTOERR fp ctx =
     (let n = countErrPrefix (pfErrs p) (fcNow ctx - fcLongWindow ctx) ErrProtoPrefix in ramp_floor n fp (of_int n))"
| "FeatureValue p F_AUTH_PROBE fp ctx =
     (let n = countErrPrefix (pfErrs p) (fcNow ctx - fcLongWindow ctx) ErrAuthPrefix in ramp_floor n fp (of_int n))"
| "FeatureValue p F_ENVELOPE fp ctx =
     (let n = countErrPrefix (pfErrs p) (fcNow ctx - fcLongWindow ctx) ErrEnvPrefix in ramp_floor n fp (of_int n))"
| "FeatureValue p F_CHALLENGE fp ctx =
     (let n = length (since (pfChallenges p) (fcNow ctx - fcLongWindow ctx)) in ramp_floor n fp (of_nat n))"
| "FeatureValue p F_HTTP_RATE fp ctx =
     (let inWin = length (filter (\<lambda>e. \<not> heTime e < fcNow ctx - fcShortWindow ctx) (pfHTTP p))
      in ramp_floor inWin fp (of_nat inWin / in_minutes (fcShortWindow ctx)))"
| "FeatureValue p F_HTTP_ERROR fp ctx =
     (let es = filter (\<lambda>e. \<not> heTime e < fcNow ctx - fcShortWindow ctx) (pfHTTP p);
          bad = length (filter (\<lambda>e. heStatus e \<ge> 400) es)
      in ramp_floor (length es) fp (of_nat bad / of_nat (length es)))"
| "FeatureValue p F_ENDPOINT_FOCUS fp ctx =
     (let es = filter (\<lambda>e. \<not> heTime e < fcNow ctx - fcShortWindow ctx) (pfHTTP p)
      in ramp_floor (length es) fp (of_int (class_peak es) / of_nat (length es)))"
| "FeatureValue p (F_OTHER s) fp ctx = None"

subsection \<open>Scores and tiers\<close>

text \<open>\<open>math.Pow\<close> on a base in the unit interval and a non-negative exponent.\<close>

definition go_pow :: "real \<Rightarrow> real \<Rightarrow> real" where
  "go_pow x y = (if y = 0 then 1 else x powr y)"

definition Aggregate :: "(FeatureID \<times> real) list \<Rightarrow> (FeatureID \<rightharpoonup> FeatureParam) \<Rightarrow> real \<Rightarrow> real \<Rightarrow> real" where
  "Aggregate vals params gamma fallback =
     (let used = filter (\<lambda>(i, v). case params i of None \<Rightarrow> False | Some fp \<Rightarrow> \<not> fpWeight fp \<le> 0) vals;
          weight = (\<lambda>i. fpWeight (the (params i)));
          s = sum_list (map (\<lambda>(i, v). weight i * v) used);
          ws = sum_list (map (\<lambda>(i, v). weight i) used)
      in if ws \<le> 0 then clamp01 fallback else go_pow (clamp01 (s / ws)) gamma)"

function climb :: "real \<Rightarrow> real list \<Rightarrow> int \<Rightarrow> int \<Rightarrow> int" where
  "climb s enter maxTier cur =
     (if cur < maxTier \<and> cur + 1 < int (length enter) \<and> s \<ge> enter ! nat (cur + 1)
      then climb s enter maxTier (cur + 1) else cur)"
  by pat_completeness auto
termination by (relation "measure (\<lambda>(s, enter, maxTier, cur). nat (maxTier - cur))") auto

function descend :: "real \<Rightarrow> real list \<Rightarrow> int \<Rightarrow> int" where
  "descend s exit0 cur =
     (if cur > 0 \<and> cur < int (length exit0) \<and> s < exit0 ! nat cur then descend s exit0 (cur - 1) else cur)"
  by pat_completeness auto
termination by (relation "measure (\<lambda>(s, exit0, cur). nat cur)") auto

declare climb.simps [simp del] descend.simps [simp del]

definition NextTier :: "real \<Rightarrow> int \<Rightarrow> real list \<Rightarrow> real list \<Rightarrow> int \<Rightarrow> int" where
  "NextTier s cur enter exit0 maxTier =
     (let c0 = (if cur < 0 then 0 else cur); c1 = (if c0 > maxTier then maxTier else c0)
      in descend s exit0 (climb s enter maxTier c1))"

definition GroupAggregate :: "real list \<Rightarrow> real \<Rightarrow> real" where
  "GroupAggregate scores beta =
     (if length scores = 0 \<or> beta \<le> 0 then 0
      else let mx = fold (\<lambda>s m. if s > m then s else m) scores (hd scores)
        in clamp01 (beta * (0.6 * mx + 0.4 * sum_list scores / of_nat (length scores))))"

definition Combine :: "real \<Rightarrow> real \<Rightarrow> real" where
  "Combine own grp = (if grp > own then grp else own)"

definition AttackScale :: "real \<Rightarrow> real \<Rightarrow> real \<Rightarrow> real \<Rightarrow> string \<Rightarrow> real list \<Rightarrow> real" where
  "AttackScale reject conn ip bl mode w =
     (let rs = [clamp01 reject, clamp01 conn, clamp01 ip, clamp01 bl] in
      if mode = ''weighted'' then
        (let used = filter (\<lambda>(r, wi). wi > 0) (zip rs w);
             s = sum_list (map (\<lambda>(r, wi). wi * r) used); ws = sum_list (map snd used)
         in if ws \<le> 0 then 0 else clamp01 (s / ws))
      else fold (\<lambda>r m. if r > m then r else m) (tl rs) (hd rs))"

text \<open>\<open>math.Round\<close>: half away from zero.\<close>

definition go_round :: "real \<Rightarrow> int" where
  "go_round x = (if x \<ge> 0 then \<lfloor>x + 1 / 2\<rfloor> else \<lceil>x - 1 / 2\<rceil>)"

definition ApplyBump :: "int \<Rightarrow> real \<Rightarrow> int \<Rightarrow> int \<Rightarrow> int" where
  "ApplyBump base scale maxBump tierMax =
     (let bump = go_round (clamp01 scale * of_int maxBump); out = base + bump
      in if out > tierMax then tierMax else if out < 0 then 0 else out)"

subsection \<open>Rings stay capped, counters stay exact\<close>

definition rings_ok :: "Profile \<Rightarrow> bool" where
  "rings_ok p \<longleftrightarrow> length (pfConns p) \<le> maxRing \<and> length (pfDiscs p) \<le> maxRing \<and> length (pfMsgs p) \<le> maxRing \<and>
     length (pfHistReq p) \<le> maxRing \<and> length (pfChallenges p) \<le> maxRing \<and> length (pfHTTP p) \<le> maxRing \<and>
     length (pfErrs p) \<le> maxRing"

datatype profile_event = EvConnect time | EvDisconnect time | EvMessage time | EvHistory time | EvChallenge time
  | EvHTTP HTTPEvent | EvErr ErrEvent | EvIdentity IdentityKind | EvBlock

fun record_event :: "profile_event \<Rightarrow> Profile \<Rightarrow> Profile" where
  "record_event (EvConnect t) = AddConnect t"
| "record_event (EvDisconnect t) = AddDisconnect t"
| "record_event (EvMessage t) = AddMessage t"
| "record_event (EvHistory t) = AddHistoryReq t"
| "record_event (EvChallenge t) = AddChallenge t"
| "record_event (EvHTTP e) = AddHTTP e"
| "record_event (EvErr e) = AddErr e"
| "record_event (EvIdentity k) = SetIdentity k"
| "record_event EvBlock = SetBlocklisted"

fun msg_times :: "profile_event list \<Rightarrow> time list" where
  "msg_times [] = []"
| "msg_times (EvMessage t # es) = t # msg_times es"
| "msg_times (_ # es) = msg_times es"

lemma maxRing_pos [simp]: "0 < maxRing"
  by (simp add: maxRing_def)

lemma appendCappedTime_last_n: "appendCappedTime ts t = last_n maxRing (ts @ [t])"
  by (simp add: appendCappedTime_def last_n_def Let_def)

lemma appendCappedTime_length [simp]: "length (appendCappedTime ts t) \<le> maxRing"
  by (simp add: appendCappedTime_last_n)

lemma last_n_last_n: "last_n n (last_n n xs @ ys) = last_n n (xs @ ys)"
  by (cases "length xs \<le> n") (auto simp: last_n_def add.commute)

lemma touch_fields [frame]:
  "pfConns (touch t p) = pfConns p" "pfDiscs (touch t p) = pfDiscs p" "pfMsgs (touch t p) = pfMsgs p"
  "pfHistReq (touch t p) = pfHistReq p" "pfChallenges (touch t p) = pfChallenges p" "pfHTTP (touch t p) = pfHTTP p"
  "pfErrs (touch t p) = pfErrs p" "pfTotalMsgs (touch t p) = pfTotalMsgs p" "pfTotalConns (touch t p) = pfTotalConns p"
  by (simp_all add: touch_def Let_def)

lemmas profile_ops = AddConnect_def AddDisconnect_def AddMessage_def AddHistoryReq_def AddChallenge_def AddHTTP_def
  AddErr_def SetIdentity_def SetBlocklisted_def Let_def

lemma record_rings: "rings_ok p \<Longrightarrow> rings_ok (record_event e p)"
  using maxRing_pos by (cases e) (auto simp: rings_ok_def profile_ops frame)

lemma record_msgs:
  "pfMsgs (record_event e p) = (case e of EvMessage t \<Rightarrow> last_n maxRing (pfMsgs p @ [t]) | _ \<Rightarrow> pfMsgs p)"
  "pfTotalMsgs (record_event e p) = (case e of EvMessage t \<Rightarrow> pfTotalMsgs p + 1 | _ \<Rightarrow> pfTotalMsgs p)"
  by (cases e; simp add: profile_ops frame appendCappedTime_last_n)+

interpretation profile: machine record_event "\<lambda>_ _. True" rings_ok
  by unfold_locales (rule record_rings)

lemma run_rings: "rings_ok p \<Longrightarrow> rings_ok (fold record_event es p)"
  by (rule profile.run_inv) (simp_all add: profile.admissible_if_all)

lemma run_msgs:
  "length (pfMsgs p) \<le> maxRing \<Longrightarrow>
     pfMsgs (fold record_event es p) = last_n maxRing (pfMsgs p @ msg_times es) \<and>
     pfTotalMsgs (fold record_event es p) = pfTotalMsgs p + int (length (msg_times es))"
proof (induction es arbitrary: p)
  case Nil
  then show ?case by (simp add: last_n_all)
next
  case (Cons e es)
  have "length (pfMsgs (record_event e p)) \<le> maxRing"
    using Cons.prems by (cases e) (simp_all add: record_msgs del: record_event.simps)
  note IH = Cons.IH [OF this]
  show ?case
    using IH by (cases e) (simp_all add: record_msgs last_n_last_n del: record_event.simps)
qed

subsection \<open>Scores lie in the unit interval\<close>

lemma clamp01_unit [simp]: "0 \<le> clamp01 x" "clamp01 x \<le> 1"
  by (simp_all add: clamp01_def)

lemma clamp01_mono: "x \<le> y \<Longrightarrow> clamp01 x \<le> clamp01 y"
  by (simp add: clamp01_def)

lemma Ramp_unit [simp]: "0 \<le> Ramp x lo hi hb" "Ramp x lo hi hb \<le> 1"
  by (simp_all add: Ramp_def)

lemma ramp_floor_unit: "ramp_floor n fp x = Some v \<Longrightarrow> 0 \<le> v \<and> v \<le> 1"
  by (auto simp: ramp_floor_def split: if_splits)

definition identity_unit :: "FeatureCtx \<Rightarrow> bool" where
  "identity_unit ctx \<longleftrightarrow> fcIdentityGuest ctx \<in> {0..1} \<and> fcIdentityTrip ctx \<in> {0..1} \<and> fcIdentityKey ctx \<in> {0..1}"

lemma FeatureValue_unit:
  "FeatureValue p i fp ctx = Some v \<Longrightarrow> identity_unit ctx \<Longrightarrow> 0 \<le> v \<and> v \<le> 1"
  by (cases i) (auto simp: Let_def identity_unit_def split: if_splits option.splits IdentityKind.splits dest: ramp_floor_unit)

lemma go_pow_unit: "0 \<le> x \<Longrightarrow> x \<le> 1 \<Longrightarrow> 0 \<le> y \<Longrightarrow> 0 \<le> go_pow x y \<and> go_pow x y \<le> 1"
  by (auto simp: go_pow_def powr_le1)

lemma Aggregate_unit: "0 \<le> gamma \<Longrightarrow> 0 \<le> Aggregate vals params gamma fb \<and> Aggregate vals params gamma fb \<le> 1"
  by (simp add: Aggregate_def Let_def go_pow_unit)

lemma AttackScale_unit: "0 \<le> AttackScale a b c d mode w \<and> AttackScale a b c d mode w \<le> 1"
  by (simp add: AttackScale_def Let_def)

lemma ApplyBump_range: "0 \<le> tierMax \<Longrightarrow> 0 \<le> ApplyBump base scale mb tierMax \<and> ApplyBump base scale mb tierMax \<le> tierMax"
  by (simp add: ApplyBump_def Let_def)

lemma go_round_mono: "0 \<le> x \<Longrightarrow> x \<le> y \<Longrightarrow> go_round x \<le> go_round y"
  by (auto simp: go_round_def intro: floor_mono)

lemma go_round_nonneg: "0 \<le> x \<Longrightarrow> 0 \<le> go_round x"
  by (simp add: go_round_def)

lemma ApplyBump_raises: "0 \<le> base \<Longrightarrow> base \<le> tierMax \<Longrightarrow> 0 \<le> mb \<Longrightarrow> base \<le> ApplyBump base scale mb tierMax"
  using go_round_nonneg [of "clamp01 scale * of_int mb"] by (simp add: ApplyBump_def Let_def)

subsection \<open>Hysteresis\<close>

definition thresholds_ok :: "real list \<Rightarrow> real list \<Rightarrow> bool" where
  "thresholds_ok enter exit0 \<longleftrightarrow>
     length exit0 = length enter \<and> list_all (\<lambda>(x, e). x \<le> e) (zip exit0 enter)"

lemma thresholds_le: "thresholds_ok enter exit0 \<Longrightarrow> i < length enter \<Longrightarrow> exit0 ! i \<le> enter ! i"
  by (auto simp: thresholds_ok_def list_all_length)

lemma climb_ge: "cur \<le> climb s enter m cur"
proof (induction s enter m cur rule: climb.induct)
  case (1 s enter m cur)
  then show ?case by (subst climb.simps) auto
qed

lemma climb_le: "cur \<le> m \<Longrightarrow> climb s enter m cur \<le> m"
proof (induction s enter m cur rule: climb.induct)
  case (1 s enter m cur)
  then show ?case by (subst climb.simps) auto
qed

lemma descend_le: "descend s exit0 cur \<le> cur"
proof (induction s exit0 cur rule: descend.induct)
  case (1 s exit0 cur)
  then show ?case by (subst descend.simps) auto
qed

lemma descend_ge: "0 \<le> cur \<Longrightarrow> 0 \<le> descend s exit0 cur"
proof (induction s exit0 cur rule: descend.induct)
  case (1 s exit0 cur)
  then show ?case by (subst descend.simps) auto
qed

text \<open>A tier is settled when neither loop moves it.\<close>

definition climbs :: "real \<Rightarrow> real list \<Rightarrow> int \<Rightarrow> int \<Rightarrow> bool" where
  "climbs s enter m cur \<longleftrightarrow> cur < m \<and> cur + 1 < int (length enter) \<and> s \<ge> enter ! nat (cur + 1)"

definition falls :: "real \<Rightarrow> real list \<Rightarrow> int \<Rightarrow> bool" where
  "falls s exit0 cur \<longleftrightarrow> cur > 0 \<and> cur < int (length exit0) \<and> s < exit0 ! nat cur"

lemma climb_if: "climb s enter m cur = (if climbs s enter m cur then climb s enter m (cur + 1) else cur)"
  by (subst climb.simps) (simp add: climbs_def)

lemma descend_if: "descend s exit0 cur = (if falls s exit0 cur then descend s exit0 (cur - 1) else cur)"
  by (subst descend.simps) (simp add: falls_def)

lemma climb_stops: "\<not> climbs s enter m (climb s enter m cur)"
proof (induction s enter m cur rule: climb.induct)
  case (1 s enter m cur)
  then show ?case by (subst climb_if) (auto simp: climbs_def)
qed

lemma climb_entered:
  "climb s enter m cur \<noteq> cur \<Longrightarrow> 0 \<le> cur \<Longrightarrow> climb s enter m cur < int (length enter) \<and> s \<ge> enter ! nat (climb s enter m cur)"
proof (induction s enter m cur rule: climb.induct)
  case (1 s enter m cur)
  have c: "climbs s enter m cur" using 1(2) by (subst (asm) climb_if) (auto split: if_splits)
  then have e: "climb s enter m cur = climb s enter m (cur + 1)" by (subst climb_if) simp
  show ?case
  proof (cases "climb s enter m (cur + 1) = cur + 1")
    case True
    then show ?thesis using c e by (simp add: climbs_def)
  next
    case False
    then show ?thesis using 1(1) c 1(3) e by (simp add: climbs_def)
  qed
qed

lemma descend_stops: "\<not> falls s exit0 (descend s exit0 cur)"
proof (induction s exit0 cur rule: descend.induct)
  case (1 s exit0 cur)
  then show ?case by (subst descend_if) (auto simp: falls_def)
qed

lemma descend_exited:
  "descend s exit0 cur \<noteq> cur \<Longrightarrow> falls s exit0 (descend s exit0 cur + 1)"
proof (induction s exit0 cur rule: descend.induct)
  case (1 s exit0 cur)
  have c: "falls s exit0 cur" using 1(2) by (subst (asm) descend_if) (auto split: if_splits)
  then have e: "descend s exit0 cur = descend s exit0 (cur - 1)" by (subst descend_if) simp
  show ?case using 1(1) c e by (cases "descend s exit0 (cur - 1) = cur - 1") (auto simp: falls_def)
qed

lemma settled:
  assumes ok: "thresholds_ok enter exit0" and cur: "0 \<le> cur" "cur \<le> m"
    and r: "r = descend s exit0 (climb s enter m cur)"
  shows "\<not> climbs s enter m r \<and> \<not> falls s exit0 r"
proof
  show "\<not> falls s exit0 r" unfolding r by (rule descend_stops)
  show "\<not> climbs s enter m r"
  proof (cases "r = climb s enter m cur")
    case True
    then show ?thesis using climb_stops by simp
  next
    case False
    then have f: "falls s exit0 (r + 1)" using r descend_exited by simp
    then have "exit0 ! nat (r + 1) \<le> enter ! nat (r + 1)"
      using ok by (intro thresholds_le) (auto simp: falls_def thresholds_ok_def)
    then show ?thesis using f by (auto simp: falls_def climbs_def)
  qed
qed

lemma settled_fix: "\<not> climbs s enter m r \<Longrightarrow> \<not> falls s exit0 r \<Longrightarrow> descend s exit0 (climb s enter m r) = r"
  by (simp add: climb_if [of s enter m r] descend_if [of s exit0 r])

subsection \<open>Properties\<close>

text \<open>The tier settles in one step: with exit thresholds at or below the enter thresholds, a scored tier
  lies between 0 and the maximum, and scoring again with the same score leaves it where it is, whatever tier the
  address had before. So a constant score never makes a tier flap.\<close>

theorem tier_settles_in_one_step:
  assumes "thresholds_ok enter exit0" "0 \<le> maxTier"
  shows "0 \<le> NextTier s cur enter exit0 maxTier \<and> NextTier s cur enter exit0 maxTier \<le> maxTier \<and>
    NextTier s (NextTier s cur enter exit0 maxTier) enter exit0 maxTier = NextTier s cur enter exit0 maxTier"
proof -
  define c where "c = (if (if cur < 0 then 0 else cur) > maxTier then maxTier else (if cur < 0 then 0 else cur))"
  have c: "0 \<le> c" "c \<le> maxTier" using assms(2) by (auto simp: c_def)
  define r where "r = NextTier s cur enter exit0 maxTier"
  have r: "r = descend s exit0 (climb s enter maxTier c)" by (simp add: r_def NextTier_def c_def Let_def)
  have lo: "0 \<le> r" using c climb_ge [of c s enter maxTier] by (simp add: r descend_ge)
  have hi: "r \<le> maxTier" using climb_le [OF c(2), of s enter] descend_le [of s exit0 "climb s enter maxTier c"] by (simp add: r)
  from settled [OF assms(1) c r] have "descend s exit0 (climb s enter maxTier r) = r" by (intro settled_fix) simp_all
  then have "NextTier s r enter exit0 maxTier = r" using lo hi by (simp add: NextTier_def Let_def)
  then show ?thesis using lo hi by (simp add: r_def)
qed

theorem tier_settles_in_one_step_witness:
  "NextTier (1/2) 3 [0, 1/4, 2/5, 9/10] [0, 1/5, 3/10, 3/5] 3 = 2 \<and>
   NextTier (1/2) (NextTier (1/2) 3 [0, 1/4, 2/5, 9/10] [0, 1/5, 3/10, 3/5] 3) [0, 1/4, 2/5, 9/10] [0, 1/5, 3/10, 3/5] 3
     = NextTier (1/2) 3 [0, 1/4, 2/5, 9/10] [0, 1/5, 3/10, 3/5] 3"
  using tier_settles_in_one_step [of "[0, 1/4, 2/5, 9/10]" "[0, 1/5, 3/10, 3/5]" 3 "1/2" 3]
  by (simp add: thresholds_ok_def NextTier_def Let_def climb.simps [of _ _ _ 3] descend.simps [of _ _ 3]
      climb.simps [of _ _ _ 2] descend.simps [of _ _ 2])

text \<open>Scores stay normalised: every feature value, every aggregate with a non-negative exponent and every
  attack magnitude lies between 0 and 1, and the attack bump never leaves the tier range nor lowers a tier.\<close>

theorem scores_normalised:
  assumes "identity_unit ctx" "0 \<le> gamma" "0 \<le> base" "base \<le> tierMax" "0 \<le> maxBump"
  shows "pred_option (\<lambda>v. 0 \<le> v \<and> v \<le> 1) (FeatureValue p i fp ctx) \<and>
    0 \<le> Aggregate vals params gamma fallback \<and> Aggregate vals params gamma fallback \<le> 1 \<and>
    0 \<le> AttackScale reject conn ip bl mode w \<and> AttackScale reject conn ip bl mode w \<le> 1 \<and>
    base \<le> ApplyBump base scale maxBump tierMax \<and> ApplyBump base scale maxBump tierMax \<le> tierMax"
  using assms FeatureValue_unit [of p i fp ctx] Aggregate_unit [of gamma vals params fallback]
    AttackScale_unit [of reject conn ip bl mode w] ApplyBump_raises [of base tierMax maxBump scale]
    ApplyBump_range [of tierMax base scale maxBump]
  by (simp add: pred_option_def)

definition ex_ctx :: FeatureCtx where
  "ex_ctx = \<lparr>fcNow = hour, fcHour = (\<lambda>t. t div hour mod 24), fcShortWindow = minute, fcLongWindow = hour,
     fcGapWindow = minute, fcNightStart = 22, fcNightEnd = 6, fcIdentityGuest = 1/2, fcIdentityTrip = 1/4,
     fcIdentityKey = 0\<rparr>"

theorem scores_normalised_witness:
  "FeatureValue new_profile F_IDENTITY (\<lparr>fpWeight = 1, fpNMin = 1, fpLo = 0, fpHi = 1, fpHighBad = True\<rparr>) ex_ctx
     = Some (1/2) \<and>
   1 \<le> ApplyBump 1 (1/2) 2 3 \<and> ApplyBump 1 (1/2) 2 3 \<le> 3"
  using scores_normalised [of ex_ctx 0 1 3 2 new_profile F_IDENTITY _ "[]" Map.empty 0 0 0 0 0 "''max''" "[]" "1/2"]
  by (simp add: ex_ctx_def new_profile_def identity_unit_def)

end
