(* ===== verification/Abuse_Config.thy ===== *)
theory Abuse_Config
  imports Behavior
begin

text \<open>
  The abuse policy, the structs of \<^verbatim>\<open>src/internal/serverconfig/abuse.go\<close> and their accessors. The loader
  that fills them from the environment is the theory \<open>Abuse_Load\<close>.
\<close>

record PowTier =
  ptT :: int
  ptM :: int
  ptP :: int
  ptDifficulty :: u64
  ptEstMs :: int

definition DefaultPairMaxPending :: int where "DefaultPairMaxPending = 1024"

definition DefaultSoftCapRatio :: real where "DefaultSoftCapRatio = 8 / 10"

record 'f behavior_config =
  bcCurveGamma :: 'f
  bcWindowShort :: duration
  bcWindowLong :: duration
  bcGapWindow :: duration
  bcNightStart :: int
  bcNightEnd :: int
  bcIdentityVals :: "string \<rightharpoonup> 'f"
  bcFeatures :: "(FeatureID \<times> 'f feature_param) list"
  bcGroupBetaIP :: 'f
  bcGroupBeta48 :: 'f
  bcGroupBetaASN :: 'f
  bcGroupBetaCT :: 'f
  bcGroupMinMemb :: int
  bcTierEnter :: "'f list"
  bcTierExit :: "'f list"
  bcSlowmodeMult :: "int list"
  bcRecheckMin :: duration
  bcRecheckMax :: duration
  bcScoreEveryNMsgs :: int
  bcScaleMode :: string
  bcScaleW :: "'f list"
  bcBumpMax :: int
  bcRetention :: "duration list"
  bcStatsEnabled :: bool
  bcStatsWindow :: duration

record 'f abuse_config =
  acMaxTotalConnections :: int
  acAttackEnterSecs :: duration
  acAttackEnterRPS :: int
  acUnderAttackTTL :: duration
  acUnderAttackForce :: string
  acPowFirstConnect :: string
  acPowGateTier :: int
  acPowTierCount :: int
  acPowTiers :: "PowTier list"
  acPowTTL :: duration
  acJoinWaitMin :: duration
  acJoinWaitMax :: duration
  acScreenDeadline :: duration
  acGateHTTPEnabled :: bool
  acGateHTTPClasses :: "string list"
  acGateHTTPMode :: string
  acGateHTTPTierMin :: int
  acPassTTL :: duration
  acPassSingleUse :: bool
  acBehavior :: "'f behavior_config option"
  acPairMaxPending :: int
  acSoftCapRatio :: 'f

text \<open>What the server runs on: the policy with its numbers as reals.\<close>

type_synonym BehaviorConfig = "real behavior_config"
type_synonym AbuseConfig = "real abuse_config"

definition SlowMult :: "BehaviorConfig option \<Rightarrow> int \<Rightarrow> int" where
  "SlowMult b tier =
     (case b of
        None \<Rightarrow> 1
      | Some bc \<Rightarrow>
          if tier < 2 \<or> tier \<ge> int (length (bcSlowmodeMult bc)) then 1
          else if bcSlowmodeMult bc ! nat tier < 1 then 1 else bcSlowmodeMult bc ! nat tier)"

definition EffectiveScaleMode :: "AbuseConfig option \<Rightarrow> string" where
  "EffectiveScaleMode c = (case Option.bind c acBehavior of Some b \<Rightarrow> bcScaleMode b | None \<Rightarrow> ''max'')"

definition EffectiveScaleW :: "AbuseConfig option \<Rightarrow> real list" where
  "EffectiveScaleW c = (case Option.bind c acBehavior of Some b \<Rightarrow> bcScaleW b | None \<Rightarrow> [1, 1, 1, 1])"

lemma SlowMult_ge_1: "1 \<le> SlowMult b tier"
  by (simp add: SlowMult_def split: option.split)

end
