(* ===== verification/Under_Attack.thy ===== *)
theory Under_Attack
  imports Abuse_Config
begin

text \<open>
  The under-attack detector and the admission counters, \<^verbatim>\<open>src/server/underattack.go\<close>,
  \<^verbatim>\<open>admit.go\<close> and \<^verbatim>\<open>blocklist.go\<close>: per-second buckets, the enter and exit machine with its rate
  baselines, and the capacity tests. The seen map is a map together with its size.
\<close>

definition attackWindowSecs :: int where "attackWindowSecs = 5"
definition attackBuckets :: nat where "attackBuckets = 8"
definition attackSeenCap :: nat where "attackSeenCap = 20000"
definition attackSeenTTL :: int where "attackSeenTTL = 300"
definition attackBaselineA :: real where "attackBaselineA = 5 / 100"

record secBucket =
  sbSec :: int
  sbAtt :: int
  sbR503 :: int
  sbRGate :: int
  sbRBlock :: int
  sbNewIP :: int

record SampleParams =
  spEnterSecs :: int
  spEnterRPS :: int
  spTTL :: duration
  spForce :: string
  spScaleMode :: string
  spScaleW :: "real list"

record SampleState =
  ssUnder :: bool
  ssScale :: real

record AttackState =
  atUnder :: bool
  atUntil :: time
  atEntered :: time
  atRun :: int
  atBuckets :: "secBucket list"
  atSeen :: "string \<rightharpoonup> int"
  atSeenCount :: nat
  atBaseAtt :: real
  atBaseIP :: real
  atScale :: real

definition zero_bucket :: "int \<Rightarrow> secBucket" where
  "zero_bucket sec = \<lparr>sbSec = sec, sbAtt = 0, sbR503 = 0, sbRGate = 0, sbRBlock = 0, sbNewIP = 0\<rparr>"

definition NewAttackState :: AttackState where
  "NewAttackState = \<lparr>atUnder = False, atUntil = 0, atEntered = 0, atRun = 0,
     atBuckets = replicate attackBuckets (zero_bucket 0), atSeen = Map.empty, atSeenCount = 0,
     atBaseAtt = 0, atBaseIP = 0, atScale = 0\<rparr>"

text \<open>\<open>bucket\<close> hands out a pointer; \<open>on_bucket\<close> applies the caller's update to it.\<close>

definition bucket_index :: "int \<Rightarrow> nat" where
  "bucket_index sec = nat (sec mod int attackBuckets)"

definition bucket :: "int \<Rightarrow> AttackState \<Rightarrow> secBucket" where
  "bucket sec a = (let b = atBuckets a ! bucket_index sec in if sbSec b \<noteq> sec then zero_bucket sec else b)"

definition on_bucket :: "int \<Rightarrow> (secBucket \<Rightarrow> secBucket) \<Rightarrow> AttackState \<Rightarrow> AttackState" where
  "on_bucket sec f a = a\<lparr>atBuckets := (atBuckets a)[bucket_index sec := f (bucket sec a)]\<rparr>"

definition noteAttempt :: "string \<Rightarrow> int \<Rightarrow> AttackState \<Rightarrow> AttackState" where
  "noteAttempt ip now a =
     (let a1 = on_bucket now (\<lambda>b. b\<lparr>sbAtt := sbAtt b + 1\<rparr>) a;
          fresh = (case atSeen a ip of None \<Rightarrow> True | Some prev \<Rightarrow> now - prev > attackSeenTTL)
      in if fresh then
           (let a2 = on_bucket now (\<lambda>b. b\<lparr>sbNewIP := sbNewIP b + 1\<rparr>) a1
            in if atSeenCount a2 < attackSeenCap
               then a2\<lparr>atSeen := (atSeen a2)(ip \<mapsto> now),
                       atSeenCount := (if atSeen a2 ip = None then atSeenCount a2 + 1 else atSeenCount a2)\<rparr>
               else a2)
         else a1)"

definition noteReject :: "int \<Rightarrow> int \<Rightarrow> AttackState \<Rightarrow> AttackState" where
  "noteReject which now a =
     on_bucket now (\<lambda>b. if which = 0 then b\<lparr>sbR503 := sbR503 b + 1\<rparr>
                        else if which = 1 then b\<lparr>sbRGate := sbRGate b + 1\<rparr>
                        else b\<lparr>sbRBlock := sbRBlock b + 1\<rparr>) a"

definition note503 :: "int \<Rightarrow> AttackState \<Rightarrow> AttackState" where "note503 = noteReject 0"
definition noteGate :: "int \<Rightarrow> AttackState \<Rightarrow> AttackState" where "noteGate = noteReject 1"
definition noteBlock :: "int \<Rightarrow> AttackState \<Rightarrow> AttackState" where "noteBlock = noteReject 2"

definition IsUnderAttack :: "time \<Rightarrow> AttackState \<Rightarrow> bool" where
  "IsUnderAttack now a = (atUnder a \<and> now < atUntil a)"

definition Scale :: "AttackState \<Rightarrow> real" where "Scale a = atScale a"

definition in_attack_window :: "int \<Rightarrow> secBucket \<Rightarrow> bool" where
  "in_attack_window sec b = (\<not> (sbSec b \<le> sec - attackWindowSecs \<or> sbSec b > sec))"

definition window_sum :: "(secBucket \<Rightarrow> int) \<Rightarrow> int \<Rightarrow> AttackState \<Rightarrow> int" where
  "window_sum f sec a = sum_list (map f (filter (in_attack_window sec) (atBuckets a)))"

definition attackSig :: "bool \<Rightarrow> int \<Rightarrow> SampleParams \<Rightarrow> AttackState \<Rightarrow> bool" where
  "attackSig full sec p a =
     (full \<or> window_sum sbR503 sec a + window_sum sbRGate sec a > spEnterRPS p * attackWindowSecs)"

text \<open>The enter and exit machine of \<open>sample\<close>.\<close>

definition sample_flag :: "bool \<Rightarrow> time \<Rightarrow> SampleParams \<Rightarrow> AttackState \<Rightarrow> AttackState" where
  "sample_flag sig now p a =
     (if atUnder a \<and> spForce p = ''off'' then a\<lparr>atUnder := False, atRun := 0\<rparr>
      else if spForce p = ''on'' then
        (let a1 = (if \<not> atUnder a then a\<lparr>atUnder := True, atEntered := now\<rparr> else a)
         in a1\<lparr>atUntil := now + spTTL p, atRun := 0\<rparr>)
      else
        (let a1 = a\<lparr>atRun := (if sig then atRun a + 1 else 0)\<rparr>;
             a2 = (if \<not> atUnder a1 \<and> atRun a1 \<ge> spEnterSecs p
                   then a1\<lparr>atUnder := True, atEntered := now, atUntil := now + spTTL p\<rparr> else a1)
         in if atUnder a2 then
              (if sig then a2\<lparr>atUntil := now + spTTL p\<rparr>
               else if now > atUntil a2 then a2\<lparr>atUnder := False, atRun := 0\<rparr> else a2)
            else a2))"

definition growth :: "real \<Rightarrow> real \<Rightarrow> real" where
  "growth cur base = (if cur \<le> 0 then 0 else (let g = cur / (base + 1 / 10 ^ 9) in 1 - 1 / (1 + g)))"

definition baseline :: "real \<Rightarrow> real \<Rightarrow> real" where
  "baseline base rate = (if base = 0 then rate else base + attackBaselineA * (rate - base))"

definition sample :: "bool \<Rightarrow> time \<Rightarrow> SampleParams \<Rightarrow> AttackState \<Rightarrow> SampleState \<times> AttackState" where
  "sample full now p a =
     (let sec = unix_seconds now;
          att = window_sum sbAtt sec a;
          rejects = window_sum sbR503 sec a + window_sum sbRGate sec a;
          rBlock = window_sum sbRBlock sec a;
          newIP = window_sum sbNewIP sec a;
          a1 = sample_flag (attackSig full sec p a) now p a;
          rate = of_int att / of_int attackWindowSecs;
          ipRate = of_int newIP / of_int attackWindowSecs;
          a2 = a1\<lparr>atBaseAtt := baseline (atBaseAtt a1) rate, atBaseIP := baseline (atBaseIP a1) ipRate\<rparr>;
          den = (if att < 1 then 1 else real_of_int att);
          scale = AttackScale (of_int rejects / den) (growth rate (atBaseAtt a2)) (growth ipRate (atBaseIP a2))
                    (of_int rBlock / den) (spScaleMode p) (spScaleW p);
          a3 = a2\<lparr>atScale := scale\<rparr>
      in (\<lparr>ssUnder = (atUnder a3 \<and> now < atUntil a3), ssScale = atScale a3\<rparr>, a3))"

subsection \<open>Admission counters\<close>

record RejectStat =
  rsCooldown :: int
  rsPerIP :: int
  rsGate :: int
  rsFull :: int
  rsDrops :: int

datatype rejectCause = rejectCooldownCause | rejectPerIPCause | rejectGateCause | rejectFullCause

fun addReject :: "rejectCause \<Rightarrow> RejectStat \<Rightarrow> RejectStat" where
  "addReject rejectCooldownCause st = st\<lparr>rsCooldown := rsCooldown st + 1\<rparr>"
| "addReject rejectPerIPCause st = st\<lparr>rsPerIP := rsPerIP st + 1\<rparr>"
| "addReject rejectGateCause st = st\<lparr>rsGate := rsGate st + 1\<rparr>"
| "addReject rejectFullCause st = st\<lparr>rsFull := rsFull st + 1\<rparr>"

definition addDrop :: "RejectStat \<Rightarrow> RejectStat" where
  "addDrop st = st\<lparr>rsDrops := rsDrops st + 1\<rparr>"

text \<open>\<open>trunc\<close> is Go's conversion of a float to an int.\<close>

definition trunc :: "real \<Rightarrow> int" where
  "trunc x = (if x \<ge> 0 then \<lfloor>x\<rfloor> else \<lceil>x\<rceil>)"

definition soft_threshold :: "AbuseConfig \<Rightarrow> int" where
  "soft_threshold a =
     (let ratio = (if acSoftCapRatio a > 0 then acSoftCapRatio a else DefaultSoftCapRatio);
          threshold = trunc (of_int (acMaxTotalConnections a) * ratio)
      in if threshold < 1 then 1 else threshold)"

definition degraded :: "AttackState option \<Rightarrow> time \<Rightarrow> AbuseConfig option \<Rightarrow> int \<Rightarrow> int \<Rightarrow> bool" where
  "degraded attack now abuse clientCount inflight =
     ((case attack of Some a \<Rightarrow> IsUnderAttack now a | None \<Rightarrow> False) \<or>
      (case abuse of
         None \<Rightarrow> False
       | Some a \<Rightarrow> \<not> acMaxTotalConnections a < 1 \<and> clientCount + inflight \<ge> soft_threshold a))"

definition overCap :: "AbuseConfig option \<Rightarrow> int \<Rightarrow> int \<Rightarrow> bool" where
  "overCap abuse clientCount inflight =
     (case abuse of
        None \<Rightarrow> False
      | Some a \<Rightarrow> \<not> acMaxTotalConnections a \<le> 0 \<and> clientCount + inflight \<ge> acMaxTotalConnections a)"

lemma soft_cap_before_hard_cap:
  assumes "1 \<le> acMaxTotalConnections a" "acSoftCapRatio a \<le> 1"
  shows "soft_threshold a \<le> acMaxTotalConnections a"
proof -
  let ?r = "if acSoftCapRatio a > 0 then acSoftCapRatio a else DefaultSoftCapRatio"
  have "of_int (acMaxTotalConnections a) * ?r \<le> of_int (acMaxTotalConnections a) * (1::real)"
    using assms by (intro mult_left_mono) (simp_all add: DefaultSoftCapRatio_def)
  then have "\<lfloor>of_int (acMaxTotalConnections a) * ?r\<rfloor> \<le> acMaxTotalConnections a"
    by (metis floor_mono floor_of_int mult.right_neutral)
  moreover have "0 \<le> of_int (acMaxTotalConnections a) * ?r" using assms by (simp add: DefaultSoftCapRatio_def)
  ultimately show ?thesis using assms by (simp add: soft_threshold_def trunc_def Let_def)
qed

lemma full_is_degraded:
  "overCap (Some a) n i \<Longrightarrow> acSoftCapRatio a \<le> 1 \<Longrightarrow> degraded attack now (Some a) n i"
  using soft_cap_before_hard_cap [of a] by (auto simp: overCap_def degraded_def)

subsection \<open>The per-second buckets count exactly\<close>

text \<open>The outcomes the server notes, with the second it notes them in.\<close>

datatype note_kind = Rejected503 | RejectedGate | RejectedBlock | Attempt string

fun note_event :: "note_kind \<times> int \<Rightarrow> AttackState \<Rightarrow> AttackState" where
  "note_event (Rejected503, now) a = note503 now a"
| "note_event (RejectedGate, now) a = noteGate now a"
| "note_event (RejectedBlock, now) a = noteBlock now a"
| "note_event (Attempt ip, now) a = noteAttempt ip now a"

definition is_reject :: "note_kind \<times> int \<Rightarrow> bool" where
  "is_reject e \<longleftrightarrow> fst e = Rejected503 \<or> fst e = RejectedGate"

definition rejects_of :: "secBucket \<Rightarrow> int" where
  "rejects_of b = sbR503 b + sbRGate b"

definition counted :: "(note_kind \<times> int) list \<Rightarrow> int \<Rightarrow> int" where
  "counted es sec = int (length (filter (\<lambda>e. is_reject e \<and> snd e = sec) es))"

lemma attackBuckets_pos [simp]: "0 < attackBuckets" "0 < int attackBuckets"
  by (simp_all add: attackBuckets_def)

lemma bucket_index_lt [simp]: "bucket_index sec < attackBuckets"
  by (simp add: bucket_index_def nat_less_iff attackBuckets_def)

lemma bucket_index_eq: "bucket_index s = bucket_index t \<longleftrightarrow> s mod 8 = t mod 8"
  by (simp add: bucket_index_def attackBuckets_def eq_nat_nat_iff)

text \<open>Every note replaces one bucket, and only a counted refusal raises its refusal count.\<close>

lemma note_bucket:
  assumes "length (atBuckets a) = attackBuckets"
  shows "\<exists>b. atBuckets (note_event e a) = (atBuckets a)[bucket_index (snd e) := b] \<and> sbSec b = snd e \<and>
    rejects_of b = rejects_of (bucket (snd e) a) + (if is_reject e then 1 else 0)"
proof (cases e)
  case (Pair k now)
  have sec: "sbSec (bucket now a) = now" by (simp add: bucket_def Let_def zero_bucket_def)
  show ?thesis
    using assms sec Pair
    by (cases k) (auto simp: note503_def noteGate_def noteBlock_def noteReject_def noteAttempt_def on_bucket_def bucket_def
        is_reject_def rejects_of_def Let_def split: option.splits)
qed

definition buckets_ok :: "(note_kind \<times> int) list \<Rightarrow> AttackState \<Rightarrow> bool" where
  "buckets_ok es a \<longleftrightarrow> length (atBuckets a) = attackBuckets \<and>
     (\<forall>i<attackBuckets. rejects_of (atBuckets a ! i)
        = (if bucket_index (sbSec (atBuckets a ! i)) = i then counted es (sbSec (atBuckets a ! i)) else 0)) \<and>
     (\<forall>e\<in>set es. bucket_index (sbSec (atBuckets a ! bucket_index (snd e))) = bucket_index (snd e) \<and>
        snd e \<le> sbSec (atBuckets a ! bucket_index (snd e)) \<and>
        (\<exists>e'\<in>set es. sbSec (atBuckets a ! bucket_index (snd e)) = snd e'))"

lemma buckets_ok_init: "buckets_ok [] NewAttackState"
  by (simp add: buckets_ok_def NewAttackState_def rejects_of_def zero_bucket_def counted_def)

lemma counted_future: "(\<And>e. e \<in> set es \<Longrightarrow> snd e \<noteq> sec) \<Longrightarrow> counted es sec = 0"
  by (auto simp: counted_def filter_empty_conv)

lemma counted_snoc: "counted (es @ [e]) sec = counted es sec + (if is_reject e \<and> snd e = sec then 1 else 0)"
  by (simp add: counted_def)

lemma note_buckets_ok:
  assumes inv: "buckets_ok es a" and later: "\<And>x. x \<in> set es \<Longrightarrow> snd x \<le> snd e"
  shows "buckets_ok (es @ [e]) (note_event e a)"
proof -
  have len: "length (atBuckets a) = attackBuckets" using inv by (simp add: buckets_ok_def)
  let ?j = "bucket_index (snd e)" and ?B = "atBuckets a"
  obtain b where b: "atBuckets (note_event e a) = ?B[?j := b]" "sbSec b = snd e"
    "rejects_of b = rejects_of (bucket (snd e) a) + (if is_reject e then 1 else 0)"
    using note_bucket [OF len] by blast
  have old: "rejects_of (bucket (snd e) a) = counted es (snd e)"
  proof (cases "sbSec (?B ! ?j) = snd e")
    case True
    then show ?thesis using inv by (simp add: bucket_def buckets_ok_def Let_def)
  next
    case False
    have "snd x \<noteq> snd e" if x: "x \<in> set es" for x
    proof
      assume eq: "snd x = snd e"
      have le: "snd x \<le> sbSec (?B ! ?j)" using inv x eq by (auto simp: buckets_ok_def)
      obtain y where "y \<in> set es" "sbSec (?B ! ?j) = snd y" using inv x eq by (auto simp: buckets_ok_def)
      then show False using later False le eq by fastforce
    qed
    then show ?thesis using False by (simp add: bucket_def rejects_of_def zero_bucket_def counted_future)
  qed
  have new: "?B[?j := b] ! ?j = b" using len by simp
  have "rejects_of (?B[?j := b] ! i) = (if bucket_index (sbSec (?B[?j := b] ! i)) = i
      then counted (es @ [e]) (sbSec (?B[?j := b] ! i)) else 0)" if i: "i < attackBuckets" for i
  proof (cases "i = ?j")
    case True
    then show ?thesis using new b old by (simp add: counted_snoc)
  next
    case False
    then show ?thesis using inv i by (auto simp: buckets_ok_def counted_snoc)
  qed
  moreover have "bucket_index (sbSec (?B[?j := b] ! bucket_index (snd x))) = bucket_index (snd x) \<and>
      snd x \<le> sbSec (?B[?j := b] ! bucket_index (snd x)) \<and>
      (\<exists>e'\<in>set (es @ [e]). sbSec (?B[?j := b] ! bucket_index (snd x)) = snd e')" if x: "x \<in> set (es @ [e])" for x
  proof (cases "bucket_index (snd x) = ?j")
    case True
    moreover have "snd x \<le> snd e" using x later [of x] by auto
    ultimately show ?thesis using new b(2) by simp
  next
    case False
    then have "x \<in> set es" using x by auto
    then show ?thesis using inv False by (auto simp: buckets_ok_def)
  qed
  ultimately show ?thesis using len b(1) unfolding buckets_ok_def by (simp only: length_list_update) blast
qed

lemma split_by_index:
  "length (filter P es) = (\<Sum>i<attackBuckets. length (filter (\<lambda>e. P e \<and> bucket_index (snd e) = i) es))"
proof (induction es)
  case (Cons e es)
  have "(\<Sum>i<attackBuckets. length (filter (\<lambda>e. P e \<and> bucket_index (snd e) = i) (e # es)))
    = (\<Sum>i<attackBuckets. length (filter (\<lambda>e. P e \<and> bucket_index (snd e) = i) es) + (if P e \<and> bucket_index (snd e) = i then 1 else 0))"
    by (intro sum.cong) auto
  also have "\<dots> = length (filter P es) + (if P e then 1 else 0)"
    using Cons by (simp add: sum.distrib sum.delta)
  finally show ?case by simp
qed simp

lemma window_sum_add: "window_sum sbR503 sec a + window_sum sbRGate sec a = window_sum rejects_of sec a"
  by (simp add: window_sum_def rejects_of_def [abs_def] sum_list_addf)

lemma sum_list_filter_index:
  "sum_list (map f (filter Q xs)) = (\<Sum>i<length xs. if Q (xs ! i) then f (xs ! i) else (0::int))"
proof (induction xs rule: rev_induct)
  case (snoc x xs)
  have "(\<Sum>i<length xs. if Q ((xs @ [x]) ! i) then f ((xs @ [x]) ! i) else 0) = (\<Sum>i<length xs. if Q (xs ! i) then f (xs ! i) else 0)"
    by (intro sum.cong) (auto simp: nth_append)
  then show ?case using snoc by simp
qed simp

text \<open>The window sum is the exact number of refusals noted in the last five seconds.\<close>

lemma window_exact:
  assumes inv: "buckets_ok es a" and past: "\<And>e. e \<in> set es \<Longrightarrow> snd e \<le> sec"
  shows "window_sum rejects_of sec a = int (length (filter (\<lambda>e. is_reject e \<and> sec - 5 < snd e) es))"
proof -
  let ?B = "atBuckets a"
  have len: "length ?B = attackBuckets" using inv by (simp add: buckets_ok_def)
  have each: "(if in_attack_window sec (?B ! i) then rejects_of (?B ! i) else 0)
      = int (length (filter (\<lambda>e. (is_reject e \<and> sec - 5 < snd e) \<and> bucket_index (snd e) = i) es))" (is "?l = int (length ?F)")
    if i: "i < attackBuckets" for i
  proof -
    let ?s = "sbSec (?B ! i)"
    have mem: "bucket_index ?s = i \<and> snd e \<le> ?s \<and> ?s \<le> sec" if "e \<in> set es" "bucket_index (snd e) = i" for e
      using inv that past by (fastforce simp: buckets_ok_def)
    have same: "snd e = ?s" if "e \<in> set es" "bucket_index (snd e) = i" "sec - 5 < snd e" for e
    proof -
      have "snd e mod 8 = ?s mod 8" using mem [OF that(1,2)] that(2) by (simp add: bucket_index_eq [symmetric])
      then have "8 dvd ?s - snd e" by (metis dvd_diff_commute mod_eq_dvd_iff)
      then show ?thesis using zdvd_not_zless [of "?s - snd e" 8] mem [OF that(1,2)] that(3) by fastforce
    qed
    have rej: "rejects_of (?B ! i) = (if bucket_index ?s = i then counted es ?s else 0)" using inv i by (simp add: buckets_ok_def)
    show ?thesis
    proof (cases "in_attack_window sec (?B ! i) \<and> bucket_index ?s = i")
      case True
      then have win: "sec - 5 < ?s" "bucket_index ?s = i" by (simp_all add: in_attack_window_def attackWindowSecs_def)
      have "((is_reject e \<and> sec - 5 < snd e) \<and> bucket_index (snd e) = i) = (is_reject e \<and> snd e = ?s)" if e: "e \<in> set es" for e
      proof (cases "bucket_index (snd e) = i \<and> sec - 5 < snd e")
        case in_win: True
        then have "snd e = ?s" using same [OF e] by blast
        then show ?thesis using in_win by blast
      next
        case False
        then have "snd e \<noteq> ?s" using win by metis
        then show ?thesis using False by blast
      qed
      then have "?F = filter (\<lambda>e. is_reject e \<and> snd e = ?s) es" by (rule filter_cong [OF refl])
      then show ?thesis using True rej by (simp add: counted_def)
    next
      case False
      have "\<not> (sec - 5 < snd e \<and> bucket_index (snd e) = i)" if e: "e \<in> set es" for e
        using same [OF e] mem [OF e] False unfolding in_attack_window_def attackWindowSecs_def by (metis linorder_not_le)
      then have "?F = []" by (auto simp: filter_empty_conv)
      then show ?thesis using False rej by auto
    qed
  qed
  have "window_sum rejects_of sec a = (\<Sum>i<attackBuckets. if in_attack_window sec (?B ! i) then rejects_of (?B ! i) else 0)"
    unfolding window_sum_def sum_list_filter_index len ..
  also have "\<dots> = int (\<Sum>i<attackBuckets. length (filter (\<lambda>e. (is_reject e \<and> sec - 5 < snd e) \<and> bucket_index (snd e) = i) es))"
    using each by simp
  finally show ?thesis by (simp only: split_by_index [symmetric])
qed

subsection \<open>The flag follows its specification\<close>

text \<open>The specification reads the samples newest first: each is the attack signal of that second and its
  time. The alarm is raised by \<open>n\<close> signals in a row and falls with the first quiet sample more than \<open>ttl\<close>
  after the last signal.\<close>

type_synonym sig_trace = "(bool \<times> time) list"

fun hot_run :: "sig_trace \<Rightarrow> int" where
  "hot_run [] = 0"
| "hot_run ((s, t) # h) = (if s then hot_run h + 1 else 0)"

fun last_hot :: "sig_trace \<Rightarrow> time" where
  "last_hot [] = 0"
| "last_hot ((s, t) # h) = (if s then t else last_hot h)"

fun alarm :: "int \<Rightarrow> duration \<Rightarrow> sig_trace \<Rightarrow> bool" where
  "alarm n ttl [] = False"
| "alarm n ttl ((s, t) # h) =
     (if s then alarm n ttl h \<or> n \<le> hot_run h + 1 else alarm n ttl h \<and> t \<le> last_hot h + ttl)"

datatype attack_event = Noted "note_kind \<times> int" | Sampled bool time

fun attack_step :: "SampleParams \<Rightarrow> attack_event \<Rightarrow> AttackState \<times> sig_trace \<Rightarrow> AttackState \<times> sig_trace" where
  "attack_step p (Noted e) (a, h) = (note_event e a, h)"
| "attack_step p (Sampled full now) (a, h) =
     (snd (sample full now p a), (attackSig full (unix_seconds now) p a, now) # h)"

definition flag_ok :: "SampleParams \<Rightarrow> AttackState \<times> sig_trace \<Rightarrow> bool" where
  "flag_ok p s \<longleftrightarrow> atRun (fst s) = hot_run (snd s) \<and> atUnder (fst s) = alarm (spEnterSecs p) (spTTL p) (snd s) \<and>
     (atUnder (fst s) \<longrightarrow> atUntil (fst s) = last_hot (snd s) + spTTL p)"

definition auto_params :: "SampleParams \<Rightarrow> bool" where
  "auto_params p \<longleftrightarrow> spForce p = ''auto'' \<and> 1 \<le> spEnterSecs p"

lemma note_flag [frame]:
  "atRun (note_event e a) = atRun a" "atUnder (note_event e a) = atUnder a" "atUntil (note_event e a) = atUntil a"
  by (cases "(e, a)" rule: note_event.cases; simp add: note503_def noteGate_def noteBlock_def noteReject_def noteAttempt_def
      on_bucket_def Let_def split: option.split)+

lemma sample_flag_fields [frame]:
  "atRun (snd (sample full now p a)) = atRun (sample_flag (attackSig full (unix_seconds now) p a) now p a)"
  "atUnder (snd (sample full now p a)) = atUnder (sample_flag (attackSig full (unix_seconds now) p a) now p a)"
  "atUntil (snd (sample full now p a)) = atUntil (sample_flag (attackSig full (unix_seconds now) p a) now p a)"
  by (simp_all add: sample_def Let_def)

lemma attack_step_ok:
  assumes "flag_ok p s" "auto_params p"
  shows "flag_ok p (attack_step p e s)"
proof (cases s)
  case s: (Pair a h)
  show ?thesis
  proof (cases e)
    case (Noted x)
    then show ?thesis using assms s by (simp add: flag_ok_def frame)
  next
    case (Sampled full now)
    then show ?thesis using assms s
      by (simp add: flag_ok_def frame) (auto simp: sample_flag_def auto_params_def Let_def)
  qed
qed

interpretation attack: machine "attack_step p" "\<lambda>_ _. auto_params p" "flag_ok p" for p
  by unfold_locales (rule attack_step_ok)

text \<open>The noted outcomes of a run; a tick leaves the buckets alone.\<close>

fun noted :: "attack_event list \<Rightarrow> (note_kind \<times> int) list" where
  "noted [] = []"
| "noted (Noted e # es) = e # noted es"
| "noted (Sampled full now # es) = noted es"

lemma noted_append [simp]: "noted (xs @ ys) = noted xs @ noted ys"
  by (induction xs rule: noted.induct) simp_all

lemma sample_buckets [frame]: "atBuckets (snd (sample full now p a)) = atBuckets a"
  by (simp add: sample_def sample_flag_def Let_def)

lemma run_buckets_ok:
  "sorted (map snd (noted es)) \<Longrightarrow> buckets_ok (noted es) (fst (fold (attack_step p) es (NewAttackState, [])))"
proof (induction es rule: rev_induct)
  case (snoc e es)
  obtain a h where r: "fold (attack_step p) es (NewAttackState, []) = (a, h)" by fastforce
  then have ok: "buckets_ok (noted es) a" using snoc by (simp add: sorted_append)
  show ?case
  proof (cases e)
    case (Noted x)
    then show ?thesis using r ok snoc.prems by (auto simp: sorted_append intro!: note_buckets_ok)
  next
    case (Sampled full now)
    then show ?thesis using r ok by (simp add: buckets_ok_def frame)
  qed
qed (simp add: buckets_ok_init)

subsection \<open>Properties\<close>

text \<open>The under-attack flag refines its specification: in automatic mode, after any interleaving of noted
  outcomes and sampler ticks from boot, the flag is raised exactly when the history of attack signals raises the
  alarm (a run of the configured number of hot samples, held until a quiet sample comes later than the time to
  live after the last hot one), and the run counter is the current run.\<close>

theorem attack_flag_refines_alarm:
  assumes "auto_params p" "fold (attack_step p) es (NewAttackState, []) = (a, h)"
  shows "atUnder a = alarm (spEnterSecs p) (spTTL p) h \<and> atRun a = hot_run h"
proof -
  have "flag_ok p (NewAttackState, [])" by (simp add: flag_ok_def NewAttackState_def)
  then have "flag_ok p (fold (attack_step p) es (NewAttackState, []))"
    by (rule attack.run_inv) (rule attack.admissible_if_all, rule assms(1))
  then show ?thesis using assms(2) by (simp add: flag_ok_def)
qed

definition ex_params :: "string \<Rightarrow> SampleParams" where
  "ex_params force = \<lparr>spEnterSecs = 2, spEnterRPS = 10, spTTL = 30 * second, spForce = force, spScaleMode = ''max'',
     spScaleW = [1, 1, 1, 1]\<rparr>"

theorem attack_flag_refines_alarm_witness:
  "atUnder (fst (fold (attack_step (ex_params ''auto'')) [Sampled True second, Sampled True (2 * second)] (NewAttackState, [])))"
proof -
  let ?r = "fold (attack_step (ex_params ''auto'')) [Sampled True second, Sampled True (2 * second)] (NewAttackState, [])"
  have "auto_params (ex_params ''auto'')" by (simp add: auto_params_def ex_params_def)
  from attack_flag_refines_alarm [OF this, of "[Sampled True second, Sampled True (2 * second)]" "fst ?r" "snd ?r"]
  show ?thesis by (simp add: attackSig_def ex_params_def)
qed

text \<open>C32. The burst detector counts exactly. After any interleaving of noted outcomes and sampler ticks from boot,
  with the outcomes noted in the order of their clock readings and none later than the tick, the signal of a tick is
  capacity reached, or more refusals (capacity or gate) noted in the last five seconds than five times the
  configured rate: the ring of eight buckets neither loses nor double counts a refusal.\<close>

theorem attack_signal_counts_exactly:
  assumes "fold (attack_step p) es (NewAttackState, []) = (a, h)" "sorted (map snd (noted es) @ [sec])"
  shows "attackSig full sec p a =
    (full \<or> int (length (filter (\<lambda>e. is_reject e \<and> sec - 5 < snd e) (noted es))) > spEnterRPS p * 5)"
proof -
  have "buckets_ok (noted es) a" using run_buckets_ok [of es p] assms by (simp add: sorted_append)
  from window_exact [OF this, of sec] show ?thesis
    using assms(2) by (auto simp: attackSig_def window_sum_add sorted_append attackWindowSecs_def)
qed

text \<open>A refusal six seconds old and one a second old, with a tick between them: one counts.\<close>

definition ex_notes :: "attack_event list" where
  "ex_notes = [Noted (Rejected503, 1), Sampled False (2 * second), Noted (RejectedGate, 6)]"

theorem attack_signal_counts_exactly_witness:
  "attackSig False 7 (ex_params ''auto''\<lparr>spEnterRPS := 0\<rparr>)
     (fst (fold (attack_step (ex_params ''auto''\<lparr>spEnterRPS := 0\<rparr>)) ex_notes (NewAttackState, [])))"
  using attack_signal_counts_exactly [of "ex_params ''auto''\<lparr>spEnterRPS := 0\<rparr>" ex_notes _ _ 7 False, OF surjective_pairing]
  by (simp add: ex_params_def is_reject_def ex_notes_def)

text \<open>Forcing the flag off does not keep it off: with the operator setting at off, an idle tracker that sees
  the configured run of hot samples still reports under attack.\<close>

theorem force_off_still_alarms:
  "ssUnder (fst (sample True (2 * second) (ex_params ''off'') (snd (sample True second (ex_params ''off'') NewAttackState))))"
  by (simp add: sample_def sample_flag_def NewAttackState_def ex_params_def attackSig_def Let_def second_def)

end
