(* ===== verification/Behavior_Engine.thy ===== *)
theory Behavior_Engine
  imports Abuse_Config "HOL-Library.AList"
begin

text \<open>
  The profile store and the scoring engine, \<^verbatim>\<open>src/internal/behavior/store.go\<close>, \<^verbatim>\<open>stats.go\<close>, \<^verbatim>\<open>group.go\<close> and
  \<^verbatim>\<open>src/server/behavior_engine.go\<close>. Go maps are association lists with distinct keys and sets of
  strings are lists without repetition. A map is iterated in an arbitrary order, which is an argument
  (\<open>order\<close>) where it matters: the eviction sample. \<open>net.ParseIP\<close> and the printing of addresses are
  arguments; the geo resolver is an argument as well. Persistence is not modelled.
\<close>

subsection \<open>The store\<close>

record Store =
  stItems :: "(string \<times> Profile) list"
  stCap :: nat

definition NewStore :: "nat \<Rightarrow> Store" where
  "NewStore c = \<lparr>stItems = [], stCap = c\<rparr>"

definition evictSample :: nat where "evictSample = 16"

text \<open>The eviction loop: the stalest of the first keys the iteration meets.\<close>

fun stalest :: "(string \<times> Profile) list \<Rightarrow> string list \<Rightarrow> (string \<times> time) option \<Rightarrow> string" where
  "stalest items [] acc = (case acc of None \<Rightarrow> [] | Some (k, t) \<Rightarrow> k)"
| "stalest items (k # ks) acc =
     (let seen = pfLastSeen (the (map_of items k)) in
      case acc of
        None \<Rightarrow> stalest items ks (Some (k, seen))
      | Some (ok, ot) \<Rightarrow> stalest items ks (if seen < ot then Some (k, seen) else acc))"

definition store_get :: "string list \<Rightarrow> string \<Rightarrow> Store \<Rightarrow> Store" where
  "store_get order key s =
     (case map_of (stItems s) key of
        Some p \<Rightarrow> s
      | None \<Rightarrow>
          (let items = (if stCap s > 0 \<and> length (stItems s) \<ge> stCap s
                        then AList.delete (stalest (stItems s) (take evictSample order) None) (stItems s)
                        else stItems s)
           in s\<lparr>stItems := AList.update key new_profile items\<rparr>))"

definition store_peek :: "string \<Rightarrow> Store \<Rightarrow> Profile option" where
  "store_peek key s = map_of (stItems s) key"

definition idle_past :: "time \<Rightarrow> (int \<rightharpoonup> duration) \<Rightarrow> duration \<Rightarrow> Profile \<Rightarrow> bool" where
  "idle_past now retention def0 p =
     (now - pfLastSeen p > (case retention (pfTier p) of Some r \<Rightarrow> r | None \<Rightarrow> def0))"

definition store_prune :: "time \<Rightarrow> (int \<rightharpoonup> duration) \<Rightarrow> duration \<Rightarrow> Store \<Rightarrow> string list \<times> Store" where
  "store_prune now retention def0 s =
     (map fst (filter (\<lambda>(k, p). idle_past now retention def0 p) (stItems s)),
      s\<lparr>stItems := filter (\<lambda>(k, p). \<not> idle_past now retention def0 p) (stItems s)\<rparr>)"

subsection \<open>Statistics\<close>

record Stats =
  sxTiers :: "int \<Rightarrow> int"
  sxTotal :: int

definition NewStats :: Stats where "NewStats = \<lparr>sxTiers = (\<lambda>_. 0), sxTotal = 0\<rparr>"

definition stats_observe :: "int \<Rightarrow> Stats \<Rightarrow> Stats" where
  "stats_observe tier s =
     (if tier < 0 then s
      else s\<lparr>sxTiers := (sxTiers s)(tier := sxTiers s tier + 1), sxTotal := sxTotal s + 1\<rparr>)"

definition SnapshotAndReset :: "Stats \<Rightarrow> (int \<Rightarrow> int) \<times> Stats" where
  "SnapshotAndReset s = (sxTiers s, s\<lparr>sxTiers := (\<lambda>_. 0), sxTotal := 0\<rparr>)"

subsection \<open>Groups\<close>

text \<open>A parsed address is its 16 bytes; the v4-mapped ones start with ten zero bytes and two 0xFF.\<close>

record net_lib =
  parseIP :: "string \<Rightarrow> bytes option"
  ipString :: "bytes \<Rightarrow> string"

definition To4 :: "bytes \<Rightarrow> bytes option" where
  "To4 b = (if take 12 b = replicate 10 (byte_of 0) @ [byte_of 255, byte_of 255] then Some (drop 12 b) else None)"

definition mask_bytes :: "nat \<Rightarrow> bytes \<Rightarrow> bytes" where
  "mask_bytes n b = take n b @ replicate (length b - n) (byte_of 0)"

definition GroupKeys :: "net_lib \<Rightarrow> string \<Rightarrow> string list" where
  "GroupKeys net ip =
     (case parseIP net (trim_space ip) of
        None \<Rightarrow> []
      | Some parsed \<Rightarrow>
          (case To4 parsed of
             Some v4 \<Rightarrow> [''ip4/24:'' @ ipString net (mask_bytes 3 v4)]
           | None \<Rightarrow> [''ip6/64:'' @ ipString net (mask_bytes 8 parsed), ''ip6/48:'' @ ipString net (mask_bytes 6 parsed)]))"

record GeoInfo =
  giASN :: u32
  giCountry :: string
  giRegion :: string

definition to_upper :: "string \<Rightarrow> string" where
  "to_upper = map (\<lambda>c. let n = nat_of c in if 97 \<le> n \<and> n \<le> 122 then byte_of (n - 32) else c)"

definition GeoKeys :: "(string \<Rightarrow> GeoInfo option) option \<Rightarrow> string \<Rightarrow> string list" where
  "GeoKeys r ip =
     (case Option.bind r (\<lambda>f. f ip) of
        None \<Rightarrow> []
      | Some g \<Rightarrow>
          (if giASN g \<noteq> 0 then [''asn:'' @ dec (unat (giASN g))] else []) @
          (if giCountry g \<noteq> [] then [''country:'' @ to_upper (giCountry g)] else []) @
          (if giRegion g \<noteq> [] then [''region:'' @ giRegion g] else []))"

definition has_prefix :: "string \<Rightarrow> string \<Rightarrow> bool" where
  "has_prefix s pre = (take (length pre) s = pre)"

definition groupBeta :: "string \<Rightarrow> BehaviorConfig \<Rightarrow> real" where
  "groupBeta key bc =
     (if has_prefix key ''ip6/48:'' then bcGroupBeta48 bc
      else if has_prefix key ''asn:'' then bcGroupBetaASN bc
      else if has_prefix key ''country:'' \<or> has_prefix key ''region:'' then bcGroupBetaCT bc
      else bcGroupBetaIP bc)"

subsection \<open>The engine\<close>

record BehaviorEngine =
  beStore :: Store
  beStats :: "Stats option"
  beScores :: "(string \<times> real) list"
  beMembers :: "(string \<times> string list) list"
  beIpGroups :: "(string \<times> string list) list"
  beNames :: "(string \<times> string list) list"
  beScoredAt :: "(string \<times> int) list"

definition NewBehaviorEngine :: "Store \<Rightarrow> Stats option \<Rightarrow> BehaviorEngine" where
  "NewBehaviorEngine store stats = \<lparr>beStore = store, beStats = stats, beScores = [], beMembers = [],
     beIpGroups = [], beNames = [], beScoredAt = []\<rparr>"

definition behaviorStoreCap :: nat where "behaviorStoreCap = 50000"

text \<open>\<open>on_profile\<close>: fetch or create the profile and update it through the pointer.\<close>

definition on_profile :: "string list \<Rightarrow> string \<Rightarrow> (Profile \<Rightarrow> Profile) \<Rightarrow> BehaviorEngine \<Rightarrow> BehaviorEngine" where
  "on_profile order ip f e =
     (let s = store_get order ip (beStore e)
      in e\<lparr>beStore := s\<lparr>stItems := AList.update ip (f (the (map_of (stItems s) ip))) (stItems s)\<rparr>\<rparr>)"

definition profile_of :: "string \<Rightarrow> BehaviorEngine \<Rightarrow> Profile" where
  "profile_of ip e = the (map_of (stItems (beStore e)) ip)"

definition ObserveConnect :: "string list \<Rightarrow> string \<Rightarrow> string \<Rightarrow> IdentityKind \<Rightarrow> time \<Rightarrow> BehaviorEngine \<Rightarrow> BehaviorEngine" where
  "ObserveConnect order ip name kind now e =
     (let e1 = on_profile order ip (SetIdentity kind \<circ> AddConnect now) e;
          names0 = (case map_of (beNames e1) ip of None \<Rightarrow> [] | Some ns \<Rightarrow> ns);
          names1 = (if length names0 < 64 then List.insert name names0 else names0);
          e2 = e1\<lparr>beNames := AList.update ip names1 (beNames e1)\<rparr>
      in on_profile order ip (\<lambda>p. p\<lparr>pfIdentityCount := int (length names1)\<rparr>) e2)"

definition ObserveMessage :: "string list \<Rightarrow> string \<Rightarrow> time \<Rightarrow> BehaviorEngine \<Rightarrow> BehaviorEngine" where
  "ObserveMessage order ip now = on_profile order ip (AddMessage now)"

definition ObserveHistory :: "string list \<Rightarrow> string \<Rightarrow> time \<Rightarrow> BehaviorEngine \<Rightarrow> BehaviorEngine" where
  "ObserveHistory order ip now = on_profile order ip (AddHistoryReq now)"

definition ObserveChallenge :: "string list \<Rightarrow> string \<Rightarrow> time \<Rightarrow> BehaviorEngine \<Rightarrow> BehaviorEngine" where
  "ObserveChallenge order ip now = on_profile order ip (AddChallenge now)"

definition ObserveHTTP :: "string list \<Rightarrow> string \<Rightarrow> string \<Rightarrow> int \<Rightarrow> time \<Rightarrow> BehaviorEngine \<Rightarrow> BehaviorEngine" where
  "ObserveHTTP order ip cls status now =
     on_profile order ip (AddHTTP \<lparr>heTime = now, heClass = cls, heStatus = status\<rparr>)"

definition ObserveErr :: "string list \<Rightarrow> string \<Rightarrow> string \<Rightarrow> time \<Rightarrow> BehaviorEngine \<Rightarrow> BehaviorEngine" where
  "ObserveErr order ip code now = on_profile order ip (AddErr \<lparr>eeTime = now, eeCode = code\<rparr>)"

definition ObserveDisconnect :: "string list \<Rightarrow> string \<Rightarrow> time \<Rightarrow> BehaviorEngine \<Rightarrow> BehaviorEngine" where
  "ObserveDisconnect order ip now = on_profile order ip (AddDisconnect now)"

definition engine_SetBlocklisted :: "string list \<Rightarrow> string \<Rightarrow> BehaviorEngine \<Rightarrow> BehaviorEngine" where
  "engine_SetBlocklisted order ip = on_profile order ip SetBlocklisted"

definition score_ctx :: "(time \<Rightarrow> int) \<Rightarrow> BehaviorConfig \<Rightarrow> time \<Rightarrow> FeatureCtx" where
  "score_ctx hourOf bc now =
     (let idv = (\<lambda>k. case bcIdentityVals bc k of None \<Rightarrow> 0 | Some v \<Rightarrow> v) in
      \<lparr>fcNow = now, fcHour = hourOf, fcShortWindow = bcWindowShort bc, fcLongWindow = bcWindowLong bc,
       fcGapWindow = bcGapWindow bc, fcNightStart = bcNightStart bc, fcNightEnd = bcNightEnd bc,
       fcIdentityGuest = idv ''guest'', fcIdentityTrip = idv ''trip'', fcIdentityKey = idv ''key''\<rparr>)"

definition feature_vals :: "Profile \<Rightarrow> BehaviorConfig \<Rightarrow> FeatureCtx \<Rightarrow> (FeatureID \<times> real) list" where
  "feature_vals p bc ctx =
     concat (map (\<lambda>(i, fp). if fpWeight fp \<le> 0 then []
                            else case FeatureValue p i fp ctx of None \<Rightarrow> [] | Some v \<Rightarrow> [(i, v)]) (bcFeatures bc))"

definition own_score :: "Profile \<Rightarrow> BehaviorConfig \<Rightarrow> FeatureCtx \<Rightarrow> real" where
  "own_score p bc ctx =
     (let vals = feature_vals p bc ctx; hasEvidence = list_ex (\<lambda>(i, v). i \<noteq> F_IDENTITY) vals in
      if \<not> hasEvidence then (if pfBlocklisted p then 1 else 0)
      else Aggregate vals (map_of (bcFeatures bc)) (bcCurveGamma bc) (if pfBlocklisted p then 1 else 0))"

definition join_group :: "string \<Rightarrow> string \<Rightarrow> (string \<times> string list) list \<Rightarrow> (string \<times> string list) list" where
  "join_group ip k members =
     AList.update k (List.insert ip (case map_of members k of None \<Rightarrow> [] | Some xs \<Rightarrow> xs)) members"

definition combine_group :: "BehaviorConfig \<Rightarrow> BehaviorEngine \<Rightarrow> string \<Rightarrow> real \<Rightarrow> real" where
  "combine_group bc e k s =
     (let grp = (case map_of (beMembers e) k of None \<Rightarrow> [] | Some xs \<Rightarrow> xs) in
      if int (length grp) < bcGroupMinMemb bc then s
      else let memberScores = List.map_filter (map_of (beScores e)) grp
        in if length memberScores = 0 then s
           else Combine s (GroupAggregate memberScores (groupBeta k bc)))"

definition Score ::
  "net_lib \<Rightarrow> (string \<Rightarrow> GeoInfo option) option \<Rightarrow> (time \<Rightarrow> int) \<Rightarrow> string list \<Rightarrow> string \<Rightarrow> BehaviorConfig \<Rightarrow> time
     \<Rightarrow> BehaviorEngine \<Rightarrow> (int \<times> real) \<times> BehaviorEngine" where
  "Score net geo hourOf order ip bc now e =
     (let e1 = on_profile order ip (\<lambda>p. p) e;
          p = profile_of ip e1;
          own = own_score p bc (score_ctx hourOf bc now);
          keys = GroupKeys net ip @ GeoKeys geo ip;
          e2 = e1\<lparr>beIpGroups := AList.update ip keys (beIpGroups e1),
                  beMembers := fold (join_group ip) keys (beMembers e1)\<rparr>;
          s = fold (combine_group bc e2) keys own;
          maxTier = int (length (bcTierEnter bc)) - 1;
          tier = NextTier s (pfTier p) (bcTierEnter bc) (bcTierExit bc) maxTier;
          e3 = on_profile order ip (\<lambda>p. p\<lparr>pfTier := tier\<rparr>) e2
      in ((tier, s),
          e3\<lparr>beScores := AList.update ip s (beScores e3),
             beScoredAt := AList.update ip (pfTotalMsgs p) (beScoredAt e3),
             beStats := map_option (stats_observe tier) (beStats e3)\<rparr>))"

definition scored_at :: "string \<Rightarrow> BehaviorEngine \<Rightarrow> int" where
  "scored_at ip e = (case map_of (beScoredAt e) ip of None \<Rightarrow> 0 | Some n \<Rightarrow> n)"

definition ObserveMessageAndDue :: "string list \<Rightarrow> string \<Rightarrow> time \<Rightarrow> int \<Rightarrow> BehaviorEngine \<Rightarrow> bool \<times> BehaviorEngine" where
  "ObserveMessageAndDue order ip now every e =
     (let e1 = on_profile order ip (AddMessage now) e; n = pfTotalMsgs (profile_of ip e1); prev = scored_at ip e1
      in (if n < prev then True else n - prev \<ge> every, e1))"

definition DueForRescore :: "string list \<Rightarrow> string \<Rightarrow> int \<Rightarrow> BehaviorEngine \<Rightarrow> bool \<times> BehaviorEngine" where
  "DueForRescore order ip every e =
     (let e1 = on_profile order ip (\<lambda>p. p) e; n = pfTotalMsgs (profile_of ip e1); prev = scored_at ip e1
      in (if n < prev then True else n - prev \<ge> every, e1))"

text \<open>\<open>leave_group\<close> deletes one address from one group and an emptied group altogether.\<close>

definition leave_group :: "string \<Rightarrow> string \<Rightarrow> (string \<times> string list) list \<Rightarrow> (string \<times> string list) list" where
  "leave_group ip k members =
     (case map_of members k of
        None \<Rightarrow> members
      | Some xs \<Rightarrow> (let ys = filter (\<lambda>x. x \<noteq> ip) xs
                    in if length ys = 0 then AList.delete k members else AList.update k ys members))"

definition forget :: "string \<Rightarrow> BehaviorEngine \<Rightarrow> BehaviorEngine" where
  "forget ip e =
     e\<lparr>beScores := AList.delete ip (beScores e), beNames := AList.delete ip (beNames e),
       beScoredAt := AList.delete ip (beScoredAt e),
       beMembers := fold (leave_group ip) (case map_of (beIpGroups e) ip of None \<Rightarrow> [] | Some ks \<Rightarrow> ks) (beMembers e),
       beIpGroups := AList.delete ip (beIpGroups e)\<rparr>"

definition engine_Prune :: "time \<Rightarrow> (int \<rightharpoonup> duration) \<Rightarrow> duration \<Rightarrow> BehaviorEngine \<Rightarrow> BehaviorEngine" where
  "engine_Prune now retention def0 e =
     (let (pruned, s) = store_prune now retention def0 (beStore e)
      in fold forget pruned (e\<lparr>beStore := s\<rparr>))"

definition engine_Tier :: "string \<Rightarrow> BehaviorEngine \<Rightarrow> int option" where
  "engine_Tier ip e = map_option pfTier (store_peek ip (beStore e))"

subsection \<open>The store stays within its cap\<close>

definition store_ok :: "Store \<Rightarrow> bool" where
  "store_ok s \<longleftrightarrow> distinct (map fst (stItems s)) \<and> (stCap s > 0 \<longrightarrow> length (stItems s) \<le> stCap s)"

text \<open>A legal iteration order of a map lists each key once.\<close>

definition iterates :: "string list \<Rightarrow> Store \<Rightarrow> bool" where
  "iterates order s \<longleftrightarrow> distinct order \<and> set order = fst ` set (stItems s)"

lemma stalest_in: "acc = Some (k0, t0) \<Longrightarrow> stalest items ks acc \<in> insert k0 (set ks)"
  by (induction ks arbitrary: acc k0 t0) (auto simp: Let_def)

lemma stalest_key:
  assumes "ks \<noteq> []"
  shows "stalest items ks None \<in> set ks"
proof (cases ks)
  case (Cons k r)
  then show ?thesis using stalest_in [of _ k _ items r] by (simp add: Let_def)
qed (use assms in simp)

lemma length_delete_key:
  assumes "distinct (map fst xs)" "k \<in> fst ` set xs"
  shows "length (AList.delete k xs) < length xs"
proof -
  obtain v where "(k, v) \<in> set xs" using assms(2) by auto
  then show ?thesis unfolding AList.delete_eq by (intro length_filter_less) auto
qed

lemma length_update_le: "length (AList.update k v xs) \<le> Suc (length xs)"
  by (induction xs) auto

lemma length_update_present: "k \<in> fst ` set xs \<Longrightarrow> length (AList.update k v xs) = length xs"
  by (induction xs) auto

lemma store_get_ok:
  assumes "store_ok s" "iterates order s"
  shows "store_ok (store_get order key s) \<and> stCap (store_get order key s) = stCap s \<and>
    key \<in> fst ` set (stItems (store_get order key s))"
proof (cases "map_of (stItems s) key")
  case (Some p)
  then show ?thesis using assms(1) by (auto simp: store_get_def dest!: map_of_SomeD intro: image_eqI [rotated])
next
  case None
  let ?full = "stCap s > 0 \<and> length (stItems s) \<ge> stCap s"
  let ?v = "stalest (stItems s) (take evictSample order) None"
  let ?items = "if ?full then AList.delete ?v (stItems s) else stItems s"
  have d: "distinct (map fst (stItems s))" using assms(1) by (simp add: store_ok_def)
  have room: "length ?items < stCap s" if cap: "stCap s > 0"
  proof (cases ?full)
    case True
    then have "take evictSample order \<noteq> []" using assms(2) by (auto simp: iterates_def evictSample_def)
    from stalest_key [OF this, of "stItems s"] have "?v \<in> fst ` set (stItems s)"
      using assms(2) by (auto simp: iterates_def dest: in_set_takeD)
    from length_delete_key [OF d this] show ?thesis using True assms(1) cap by (simp add: store_ok_def)
  qed (use cap in auto)
  have "length (AList.update key new_profile ?items) \<le> stCap s" if "stCap s > 0"
    using length_update_le [of key new_profile ?items] room [OF that] by linarith
  moreover have "distinct (map fst (AList.update key new_profile ?items))"
    using d by (intro distinct_update) (simp add: distinct_delete)
  moreover have "key \<in> fst ` set (AList.update key new_profile ?items)" by (simp add: dom_update)
  ultimately show ?thesis using None by (simp add: store_get_def store_ok_def)
qed

definition engine_ok :: "nat \<Rightarrow> BehaviorEngine \<Rightarrow> bool" where
  "engine_ok c e \<longleftrightarrow> store_ok (beStore e) \<and> stCap (beStore e) = c"

lemma on_profile_ok:
  assumes "engine_ok c e" "iterates order (beStore e)"
  shows "engine_ok c (on_profile order ip f e)"
  using store_get_ok [of "beStore e" order ip] assms
  by (auto simp: on_profile_def Let_def engine_ok_def store_ok_def distinct_update length_update_present)

text \<open>The events every observer feeds: an address, a legal iteration order and the profile event.\<close>

type_synonym observation = "string list \<times> string \<times> profile_event"

fun observe :: "observation \<Rightarrow> BehaviorEngine \<Rightarrow> BehaviorEngine" where
  "observe (order, ip, ev) e = on_profile order ip (record_event ev) e"

lemma observers_are_observations:
  "ObserveMessage order ip now = observe (order, ip, EvMessage now)"
  "ObserveHistory order ip now = observe (order, ip, EvHistory now)"
  "ObserveChallenge order ip now = observe (order, ip, EvChallenge now)"
  "ObserveHTTP order ip cls status now = observe (order, ip, EvHTTP \<lparr>heTime = now, heClass = cls, heStatus = status\<rparr>)"
  "ObserveErr order ip code now = observe (order, ip, EvErr \<lparr>eeTime = now, eeCode = code\<rparr>)"
  "ObserveDisconnect order ip now = observe (order, ip, EvDisconnect now)"
  "engine_SetBlocklisted order ip = observe (order, ip, EvBlock)"
  by (auto simp: ObserveMessage_def ObserveHistory_def ObserveChallenge_def ObserveHTTP_def ObserveErr_def
      ObserveDisconnect_def engine_SetBlocklisted_def)

interpretation engine: machine observe "\<lambda>e ob. iterates (fst ob) (beStore e)" "engine_ok c" for c
proof unfold_locales
  fix s :: BehaviorEngine and e :: observation
  assume "engine_ok c s" "iterates (fst e) (beStore s)"
  then show "engine_ok c (observe e s)" by (cases e) (auto intro: on_profile_ok)
qed

text \<open>A run is legal when every observation iterates the map it finds.\<close>

fun legal_run :: "BehaviorEngine \<Rightarrow> observation list \<Rightarrow> bool" where
  "legal_run e [] = True"
| "legal_run e (ob # obs) = (iterates (fst ob) (beStore e) \<and> legal_run (observe ob e) obs)"

lemma legal_run_admissible: "legal_run e obs = engine.admissible e obs"
  by (induction obs arbitrary: e) simp_all

subsection \<open>Scores and pruning\<close>

lemma own_score_unit:
  assumes "0 \<le> bcCurveGamma bc"
  shows "0 \<le> own_score p bc ctx \<and> own_score p bc ctx \<le> 1"
  using Aggregate_unit [OF assms] by (simp add: own_score_def Let_def)

lemma combine_group_unit: "0 \<le> s \<Longrightarrow> s \<le> 1 \<Longrightarrow> s \<le> combine_group bc e k s \<and> combine_group bc e k s \<le> 1"
  by (simp add: combine_group_def Let_def Combine_def GroupAggregate_def)

lemma combine_groups_unit:
  "0 \<le> s \<Longrightarrow> s \<le> 1 \<Longrightarrow> s \<le> fold (combine_group bc e) ks s \<and> fold (combine_group bc e) ks s \<le> 1"
proof (induction ks arbitrary: s)
  case (Cons k ks)
  have "s \<le> combine_group bc e k s" "combine_group bc e k s \<le> 1" using combine_group_unit Cons.prems by blast+
  then show ?case using Cons.IH [of "combine_group bc e k s"] Cons.prems by auto
qed simp

lemma NextTier_range:
  "0 \<le> m \<Longrightarrow> 0 \<le> NextTier s cur enter exit0 m \<and> NextTier s cur enter exit0 m \<le> m"
proof -
  assume m: "0 \<le> m"
  let ?c = "if (if cur < 0 then 0 else cur) > m then m else if cur < 0 then 0 else cur"
  have "0 \<le> ?c" "?c \<le> m" using m by auto
  moreover have "?c \<le> climb s enter m ?c" by (rule climb_ge)
  moreover have "climb s enter m ?c \<le> m" using \<open>?c \<le> m\<close> by (rule climb_le)
  ultimately show ?thesis
    using descend_le [of s exit0 "climb s enter m ?c"] descend_ge [of "climb s enter m ?c" s exit0]
    by (auto simp: NextTier_def Let_def)
qed

lemma forget_other: "ip \<noteq> k \<Longrightarrow> map_of (beNames (forget k e)) ip = map_of (beNames e) ip"
  by (simp add: forget_def delete_conv')

lemma fold_forget_other: "ip \<notin> set ks \<Longrightarrow> map_of (beNames (fold forget ks e)) ip = map_of (beNames e) ip"
  by (induction ks arbitrary: e) (auto simp: forget_other)

lemma fold_forget_gone: "ip \<in> set ks \<Longrightarrow> map_of (beNames (fold forget ks e)) ip = None"
proof (induction ks arbitrary: e)
  case (Cons k ks)
  show ?case
  proof (cases "ip \<in> set ks")
    case False
    then have "ip = k" using Cons.prems by simp
    then show ?thesis using False by (simp add: fold_forget_other) (simp add: forget_def delete_conv')
  qed (simp add: Cons.IH)
qed simp

lemma Score_bounds:
  assumes "0 \<le> bcCurveGamma bc" "bcTierEnter bc \<noteq> []" "Score net geo hourOf order ip bc now e = ((tier, s), e')"
  shows "0 \<le> s \<and> s \<le> 1 \<and> 0 \<le> tier \<and> tier < int (length (bcTierEnter bc))"
proof -
  let ?m = "int (length (bcTierEnter bc)) - 1"
  obtain e2 keys own p where s: "s = fold (combine_group bc e2) keys own" "own = own_score p bc (score_ctx hourOf bc now)"
    and t: "tier = NextTier s (pfTier p) (bcTierEnter bc) (bcTierExit bc) ?m"
    using assms(3) unfolding Score_def Let_def by (metis prod.inject)
  have "0 \<le> ?m" using assms(2) by (cases "bcTierEnter bc") simp_all
  then have "0 \<le> tier \<and> tier \<le> ?m" unfolding t by (rule NextTier_range)
  moreover have "0 \<le> own \<and> own \<le> 1" unfolding s(2) by (rule own_score_unit [OF assms(1)])
  ultimately show ?thesis using combine_groups_unit [of own bc e2 keys] s(1) by auto
qed

subsection \<open>Properties\<close>

text \<open>The profile store never exceeds its cap: from an empty engine, after any observations under any
  iteration order of the map, the number of live profiles is at most the cap and no address has two profiles.\<close>

theorem profiles_stay_capped:
  assumes "0 < c" "legal_run (NewBehaviorEngine (NewStore c) st) obs"
  shows "length (stItems (beStore (fold observe obs (NewBehaviorEngine (NewStore c) st)))) \<le> c \<and>
    distinct (map fst (stItems (beStore (fold observe obs (NewBehaviorEngine (NewStore c) st)))))"
proof -
  have "engine_ok c (NewBehaviorEngine (NewStore c) st)"
    by (simp add: engine_ok_def NewBehaviorEngine_def NewStore_def store_ok_def)
  from engine.run_inv [OF this assms(2) [unfolded legal_run_admissible]]
  show ?thesis using assms(1) unfolding engine_ok_def store_ok_def by metis
qed

theorem profiles_stay_capped_witness:
  "length (stItems (beStore (fold observe [([], ''a'', EvMessage 1), ([''a''], ''b'', EvMessage 2)]
     (NewBehaviorEngine (NewStore 1) None)))) \<le> 1"
proof -
  have "legal_run (NewBehaviorEngine (NewStore 1) None) [([], ''a'', EvMessage 1), ([''a''], ''b'', EvMessage 2)]"
    by (simp add: iterates_def NewBehaviorEngine_def NewStore_def on_profile_def store_get_def Let_def)
  from profiles_stay_capped [OF _ this] show ?thesis by simp
qed

text \<open>What the cap evicts is never forgotten: once an address has lost its profile to the cap, pruning keeps
  its name set however long it stays idle, although pruning is meant to clean every index.\<close>

theorem evicted_names_survive_pruning:
  assumes "map_of (stItems (beStore e)) ip = None"
  shows "map_of (beNames (engine_Prune now retention def0 e)) ip = map_of (beNames e) ip"
proof -
  have "ip \<notin> set (fst (store_prune now retention def0 (beStore e)))"
    using assms by (auto simp: store_prune_def map_of_eq_None_iff image_iff)
  then show ?thesis
    by (simp add: engine_Prune_def case_prod_unfold Let_def fold_forget_other)
qed

definition ex_evicted :: BehaviorEngine where
  "ex_evicted = ObserveConnect [''a''] ''b'' ''bob'' IdGuest 2
     (ObserveConnect [] ''a'' ''ann'' IdGuest 1 (NewBehaviorEngine (NewStore 1) None))"

lemma ex_evicted_store: "map_of (stItems (beStore ex_evicted)) ''a'' = None \<and> map_of (beNames ex_evicted) ''a'' = Some [''ann'']"
  by (simp add: ex_evicted_def ObserveConnect_def on_profile_def store_get_def NewBehaviorEngine_def NewStore_def
      evictSample_def Let_def)

theorem evicted_names_survive_pruning_witness:
  "map_of (beNames (engine_Prune (10 * hour) Map.empty 0 ex_evicted)) ''a'' = Some [''ann'']"
  using evicted_names_survive_pruning [of ex_evicted "''a''" "10 * hour" Map.empty 0] ex_evicted_store by simp

end
