(* ===== verification/Abuse_Load.thy ===== *)
theory Abuse_Load
  imports Abuse_Config Pow "HOL-Library.State_Monad"
begin

text \<open>
  Loading the abuse policy from the environment, \<open>LoadAbuseConfig\<close> of
  \<^verbatim>\<open>src/internal/serverconfig/abuse.go\<close>. The environment is a map; the parsers of \<open>strconv\<close> and
  \<open>time\<close> are the record \<open>parsers\<close> (an error text or a value). The reads thread the loader, which collects missing
  and malformed keys, through the state monad; the range checks follow in the order of the source.
  A number of the policy is a float64 as \<open>strconv.ParseFloat\<close> returns it, which may be an infinity or not a number
  (finite values are taken as reals). The theorem at the end is what the rest of the server relies on: whatever
  parsers and environment, an accepted policy is in range, except that a number which is only refused outside
  a range may be NaN, because every comparison with NaN is false.
\<close>

subsection \<open>Reading keys\<close>

type_synonym env = "string \<rightharpoonup> string"

datatype go_float = Fin real | NaN | PosInf | NegInf

text \<open>The comparisons of float64: any with NaN is false.\<close>

fun fless :: "go_float \<Rightarrow> go_float \<Rightarrow> bool" where
  "fless (Fin x) (Fin y) = (x < y)"
| "fless (Fin x) PosInf = True"
| "fless NegInf (Fin y) = True"
| "fless NegInf PosInf = True"
| "fless _ _ = False"

definition fleq :: "go_float \<Rightarrow> go_float \<Rightarrow> bool" where
  "fleq a b = (fless a b \<or> (a = b \<and> a \<noteq> NaN))"

record parsers =
  pInt :: "string \<Rightarrow> string + int"
  pDuration :: "string \<Rightarrow> string + duration"
  pFloat :: "string \<Rightarrow> string + go_float"
  pBool :: "string \<Rightarrow> string + bool"

record abuseLoader =
  alMissing :: "string list"
  alBad :: "string list"

definition new_loader :: abuseLoader where "new_loader = \<lparr>alMissing = [], alBad = []\<rparr>"

definition note_missing :: "string \<Rightarrow> abuseLoader \<Rightarrow> abuseLoader" where
  "note_missing key l = l\<lparr>alMissing := alMissing l @ [key]\<rparr>"

definition note_bad :: "string \<Rightarrow> string \<Rightarrow> abuseLoader \<Rightarrow> abuseLoader" where
  "note_bad key msg l = l\<lparr>alBad := alBad l @ [key @ '': '' @ msg]\<rparr>"

definition loader_raw :: "env \<Rightarrow> string \<Rightarrow> (abuseLoader, string option) state" where
  "loader_raw env key = State (\<lambda>l.
     case env key of
       None \<Rightarrow> (None, note_missing key l)
     | Some v \<Rightarrow> if trim_space v = [] then (None, note_missing key l) else (Some (trim_space v), l))"

text \<open>An optional key, with its default when absent or malformed.\<close>

definition opt_with :: "(string \<Rightarrow> string + 'a) \<Rightarrow> env \<Rightarrow> string \<Rightarrow> 'a \<Rightarrow> (abuseLoader, 'a) state" where
  "opt_with parse env key def0 = State (\<lambda>l.
     case env key of
       None \<Rightarrow> (def0, l)
     | Some v \<Rightarrow>
         if trim_space v = [] then (def0, l)
         else case parse (trim_space v) of Inl e \<Rightarrow> (def0, note_bad key e l) | Inr x \<Rightarrow> (x, l))"

definition optInt :: "parsers \<Rightarrow> env \<Rightarrow> string \<Rightarrow> int \<Rightarrow> (abuseLoader, int) state" where
  "optInt ps = opt_with (pInt ps)"

definition optFloat :: "parsers \<Rightarrow> env \<Rightarrow> string \<Rightarrow> go_float \<Rightarrow> (abuseLoader, go_float) state" where
  "optFloat ps = opt_with (pFloat ps)"

text \<open>A required key; callers use the zero value when it is absent or malformed.\<close>

definition req_with :: "(string \<Rightarrow> string + 'a) \<Rightarrow> 'a \<Rightarrow> env \<Rightarrow> string \<Rightarrow> (abuseLoader, 'a) state" where
  "req_with parse zero env key = do {
     v \<leftarrow> loader_raw env key;
     case v of
       None \<Rightarrow> State_Monad.return zero
     | Some s \<Rightarrow> (case parse s of
           Inl e \<Rightarrow> do { State_Monad.update (note_bad key e); State_Monad.return zero }
         | Inr x \<Rightarrow> State_Monad.return x)
   }"

definition reqInt :: "parsers \<Rightarrow> env \<Rightarrow> string \<Rightarrow> (abuseLoader, int) state" where
  "reqInt ps = req_with (pInt ps) 0"

definition reqDuration :: "parsers \<Rightarrow> env \<Rightarrow> string \<Rightarrow> (abuseLoader, duration) state" where
  "reqDuration ps = req_with (pDuration ps) 0"

definition reqFloat :: "parsers \<Rightarrow> env \<Rightarrow> string \<Rightarrow> (abuseLoader, go_float) state" where
  "reqFloat ps = req_with (pFloat ps) (Fin 0)"

definition reqBool :: "parsers \<Rightarrow> env \<Rightarrow> string \<Rightarrow> (abuseLoader, bool) state" where
  "reqBool ps = req_with (pBool ps) False"

fun join :: "string \<Rightarrow> string list \<Rightarrow> string" where
  "join sep [] = []"
| "join sep [x] = x"
| "join sep (x # y # xs) = x @ sep @ join sep (y # xs)"

definition reqEnum :: "env \<Rightarrow> string \<Rightarrow> string list \<Rightarrow> (abuseLoader, string) state" where
  "reqEnum env key allowed =
     req_with (\<lambda>v. if v \<in> set allowed then Inr v else Inl (''must be one of '' @ join ''|'' allowed)) [] env key"

definition loader_err :: "abuseLoader \<Rightarrow> string option" where
  "loader_err l =
     (if alMissing l = [] \<and> alBad l = [] then None
      else Some (''abuse config: '' @ join ''; '' (map (\<lambda>k. ''missing '' @ k) (alMissing l) @ alBad l)))"

definition behaviorEnabled :: "parsers \<Rightarrow> env \<Rightarrow> (abuseLoader, bool) state" where
  "behaviorEnabled ps env = opt_with (pBool ps) env ''BEHAVIOR_ENABLED'' True"

subsection \<open>Group A\<close>

definition load_group_a :: "parsers \<Rightarrow> env \<Rightarrow> (abuseLoader, go_float abuse_config) state" where
  "load_group_a ps env = do {
     maxTotal \<leftarrow> reqInt ps env ''MAX_TOTAL_CONNECTIONS'';
     enterSecs \<leftarrow> reqDuration ps env ''ATTACK_ENTER_SECS'';
     enterRPS \<leftarrow> reqInt ps env ''ATTACK_ENTER_RPS'';
     ttl \<leftarrow> reqDuration ps env ''UNDER_ATTACK_TTL'';
     force \<leftarrow> reqEnum env ''UNDER_ATTACK_FORCE'' [''auto'', ''on'', ''off''];
     firstConnect \<leftarrow> reqEnum env ''POW_FIRST_CONNECT'' [''never'', ''always'', ''under-attack''];
     gateTier \<leftarrow> reqInt ps env ''POW_GATE_TIER'';
     tierCount \<leftarrow> reqInt ps env ''POW_TIER_COUNT'';
     powTTL \<leftarrow> reqDuration ps env ''POW_TTL'';
     waitMin \<leftarrow> reqDuration ps env ''JOIN_WAIT_MIN'';
     waitMax \<leftarrow> reqDuration ps env ''JOIN_WAIT_MAX'';
     screenDeadline \<leftarrow> reqDuration ps env ''SCREEN_DEADLINE'';
     gateHTTP \<leftarrow> reqBool ps env ''GATE_HTTP_ENABLED'';
     gateMode \<leftarrow> reqEnum env ''GATE_HTTP_MODE'' [''under-attack'', ''tier''];
     passTTL \<leftarrow> reqDuration ps env ''PASS_TTL'';
     pairMax \<leftarrow> optInt ps env ''PAIR_MAX_PENDING'' DefaultPairMaxPending;
     softCap \<leftarrow> optFloat ps env ''SOFT_CAP_RATIO'' (Fin DefaultSoftCapRatio);
     single \<leftarrow> reqBool ps env ''PASS_SINGLE_USE'';
     State_Monad.return \<lparr>acMaxTotalConnections = maxTotal, acAttackEnterSecs = enterSecs, acAttackEnterRPS = enterRPS,
       acUnderAttackTTL = ttl, acUnderAttackForce = force, acPowFirstConnect = firstConnect,
       acPowGateTier = gateTier, acPowTierCount = tierCount, acPowTiers = [], acPowTTL = powTTL,
       acJoinWaitMin = waitMin, acJoinWaitMax = waitMax, acScreenDeadline = screenDeadline,
       acGateHTTPEnabled = gateHTTP, acGateHTTPClasses = [], acGateHTTPMode = gateMode, acGateHTTPTierMin = 0,
       acPassTTL = passTTL, acPassSingleUse = single, acBehavior = None, acPairMaxPending = pairMax,
       acSoftCapRatio = softCap\<rparr>
   }"

definition zero_tier :: PowTier where
  "zero_tier = \<lparr>ptT = 0, ptM = 0, ptP = 0, ptDifficulty = 0, ptEstMs = 0\<rparr>"

definition load_pow_tier :: "parsers \<Rightarrow> env \<Rightarrow> nat \<Rightarrow> (abuseLoader, PowTier) state" where
  "load_pow_tier ps env n = do {
     let p = ''POW_P'' @ dec n @ ''_'';
     t \<leftarrow> reqInt ps env (p @ ''T'');
     m \<leftarrow> reqInt ps env (p @ ''M'');
     pp \<leftarrow> reqInt ps env (p @ ''P'');
     d \<leftarrow> reqInt ps env (p @ ''DIFF'');
     e \<leftarrow> reqInt ps env (p @ ''EST_MS'');
     State_Monad.return \<lparr>ptT = t, ptM = m, ptP = pp, ptDifficulty = of_int d, ptEstMs = e\<rparr>
   }"

definition load_pow_tiers :: "parsers \<Rightarrow> env \<Rightarrow> go_float abuse_config \<Rightarrow> (abuseLoader, go_float abuse_config) state" where
  "load_pow_tiers ps env cfg = do {
     ts \<leftarrow> State_Monad.traverse_list (load_pow_tier ps env) [1..<nat (acPowTierCount cfg)];
     State_Monad.return (cfg\<lparr>acPowTiers := zero_tier # ts\<rparr>)
   }"

text \<open>\<open>first_error\<close> is the chain of range checks, each with its message.\<close>

fun first_error :: "(bool \<times> string) list \<Rightarrow> string option" where
  "first_error [] = None"
| "first_error ((bad, msg) # cs) = (if bad then Some (''abuse config: '' @ msg) else first_error cs)"

definition check_caps :: "go_float abuse_config \<Rightarrow> string option" where
  "check_caps cfg = first_error
     [(acMaxTotalConnections cfg < 1, ''MAX_TOTAL_CONNECTIONS must be >= 1''),
      (acAttackEnterSecs cfg \<le> 0, ''ATTACK_ENTER_SECS must be positive''),
      (acAttackEnterRPS cfg < 1, ''ATTACK_ENTER_RPS must be >= 1''),
      (acPowTierCount cfg < 2, ''POW_TIER_COUNT must be >= 2''),
      (acPowGateTier cfg < 0 \<or> acPowGateTier cfg \<ge> acPowTierCount cfg, ''POW_GATE_TIER out of range'')]"

definition tier_out_of_range :: "PowTier \<Rightarrow> bool" where
  "tier_out_of_range pt \<longleftrightarrow> ptT pt < 1 \<or> ptT pt > 10 \<or> ptM pt < 8 * 1024 \<or> ptM pt > 256 * 1024 \<or> ptP pt < 1 \<or>
     ptP pt > 8 \<or> ptDifficulty pt > 64 \<or> ptEstMs pt \<le> 0"

definition check_tiers :: "go_float abuse_config \<Rightarrow> string option" where
  "check_tiers cfg = first_error
     (map (\<lambda>n. (tier_out_of_range (acPowTiers cfg ! n), ''POW_P'' @ dec n @ ''_* out of range''))
       [1..<nat (acPowTierCount cfg)] @
      [(acJoinWaitMin cfg \<le> 0 \<or> acJoinWaitMax cfg < acJoinWaitMin cfg, ''JOIN_WAIT_MIN/MAX must satisfy 0<MIN<=MAX''),
       (acScreenDeadline cfg \<le> 0 \<or> acPowTTL cfg \<le> 0 \<or> acPassTTL cfg \<le> 0,
          ''SCREEN_DEADLINE/POW_TTL/PASS_TTL must be positive''),
       (acPairMaxPending cfg < 1, ''PAIR_MAX_PENDING must be positive''),
       (fleq (acSoftCapRatio cfg) (Fin 0) \<or> fless (Fin 1) (acSoftCapRatio cfg), ''SOFT_CAP_RATIO must be in (0,1]'')])"

fun split_comma :: "string \<Rightarrow> string list" where
  "split_comma [] = [[]]"
| "split_comma (c # s) =
     (if c = CHR '','' then [] # split_comma s
      else case split_comma s of [] \<Rightarrow> [[c]] | w # ws \<Rightarrow> (c # w) # ws)"

definition load_gate_http :: "parsers \<Rightarrow> env \<Rightarrow> go_float abuse_config \<Rightarrow> (abuseLoader, string + go_float abuse_config) state" where
  "load_gate_http ps env cfg =
     (if \<not> acGateHTTPEnabled cfg then State_Monad.return (Inr cfg)
      else do {
        rawv \<leftarrow> loader_raw env ''GATE_HTTP_CLASSES'';
        case rawv of
          None \<Rightarrow> State_Monad.return (Inl ''abuse config: missing GATE_HTTP_CLASSES'')
        | Some r \<Rightarrow>
            (let classes = filter (\<lambda>c. c \<noteq> []) (map trim_space (split_comma r)) in
             if classes = [] then State_Monad.return (Inl ''abuse config: GATE_HTTP_CLASSES is empty'')
             else do {
               tmin \<leftarrow> reqInt ps env ''GATE_HTTP_TIER_MIN'';
               l \<leftarrow> State_Monad.get;
               State_Monad.return (case loader_err l of
                   Some e \<Rightarrow> Inl e
                 | None \<Rightarrow> if tmin < 1 then Inl ''abuse config: GATE_HTTP_TIER_MIN must be >= 1''
                           else Inr (cfg\<lparr>acGateHTTPClasses := classes, acGateHTTPTierMin := tmin\<rparr>))
             })
      })"

subsection \<open>Group B\<close>

definition abuseFeatures :: "(FeatureID \<times> string) list" where
  "abuseFeatures = [(F_RHYTHM, ''RHYTHM''), (F_THROUGHPUT, ''THROUGHPUT''), (F_NIGHT, ''NIGHT''),
     (F_CONTINUITY, ''CONTINUITY''), (F_CHURN, ''CHURN''), (F_IDENTITY, ''IDENTITY''), (F_IPREP, ''IPREP''),
     (F_PROTOERR, ''PROTOERR''), (F_HTTP_RATE, ''HTTP_RATE''), (F_HTTP_ERROR, ''HTTP_ERROR''),
     (F_ENDPOINT_FOCUS, ''ENDPOINT_FOCUS''), (F_AUTH_PROBE, ''AUTH_PROBE''), (F_ENVELOPE, ''ENVELOPE''),
     (F_CHALLENGE, ''CHALLENGE'')]"

definition load_feature :: "parsers \<Rightarrow> env \<Rightarrow> FeatureID \<times> string \<Rightarrow> (abuseLoader, FeatureID \<times> go_float feature_param) state" where
  "load_feature ps env f = do {
     w \<leftarrow> reqFloat ps env (''BEHAVIOR_W_'' @ snd f);
     nm \<leftarrow> reqInt ps env (''BEHAVIOR_NMIN_'' @ snd f);
     lo \<leftarrow> reqFloat ps env (''BEHAVIOR_RAMP_'' @ snd f @ ''_LO'');
     hi \<leftarrow> reqFloat ps env (''BEHAVIOR_RAMP_'' @ snd f @ ''_HI'');
     State_Monad.return (fst f, \<lparr>fpWeight = w, fpNMin = nm, fpLo = lo, fpHi = hi, fpHighBad = (fst f \<noteq> F_RHYTHM)\<rparr>)
   }"

definition load_threshold :: "parsers \<Rightarrow> env \<Rightarrow> nat \<Rightarrow> (abuseLoader, go_float \<times> go_float) state" where
  "load_threshold ps env n = do {
     en \<leftarrow> reqFloat ps env (''BEHAVIOR_TIER'' @ dec n @ ''_ENTER'');
     ex \<leftarrow> reqFloat ps env (''BEHAVIOR_TIER'' @ dec n @ ''_EXIT'');
     State_Monad.return (en, ex)
   }"

definition load_behavior :: "parsers \<Rightarrow> env \<Rightarrow> nat \<Rightarrow> (abuseLoader, go_float behavior_config) state" where
  "load_behavior ps env count = do {
     gamma \<leftarrow> reqFloat ps env ''BEHAVIOR_CURVE_GAMMA'';
     wshort \<leftarrow> reqDuration ps env ''BEHAVIOR_WINDOW_SHORT'';
     wlong \<leftarrow> reqDuration ps env ''BEHAVIOR_WINDOW_LONG'';
     gap \<leftarrow> reqDuration ps env ''BEHAVIOR_GAP_WINDOW'';
     nstart \<leftarrow> reqInt ps env ''BEHAVIOR_NIGHT_START'';
     nend \<leftarrow> reqInt ps env ''BEHAVIOR_NIGHT_END'';
     g \<leftarrow> reqFloat ps env ''BEHAVIOR_IDENTITY_GUEST'';
     tr \<leftarrow> reqFloat ps env ''BEHAVIOR_IDENTITY_TRIP'';
     k \<leftarrow> reqFloat ps env ''BEHAVIOR_IDENTITY_KEY'';
     feats \<leftarrow> State_Monad.traverse_list (load_feature ps env) abuseFeatures;
     betaIP \<leftarrow> reqFloat ps env ''BEHAVIOR_GROUP_BETA_IP'';
     beta48 \<leftarrow> reqFloat ps env ''BEHAVIOR_GROUP_BETA_48'';
     betaASN \<leftarrow> reqFloat ps env ''BEHAVIOR_GROUP_BETA_ASN'';
     betaCT \<leftarrow> reqFloat ps env ''BEHAVIOR_GROUP_BETA_COUNTRY'';
     minMemb \<leftarrow> reqInt ps env ''BEHAVIOR_GROUP_MIN_MEMBERS'';
     ths \<leftarrow> State_Monad.traverse_list (load_threshold ps env) [1..<count];
     mults \<leftarrow> State_Monad.traverse_list (\<lambda>n. reqInt ps env (''TIER'' @ dec n @ ''_SLOWMODE_MULT'')) [2..<count];
     rmin \<leftarrow> reqDuration ps env ''POW_RECHECK_MIN'';
     rmax \<leftarrow> reqDuration ps env ''POW_RECHECK_MAX'';
     every \<leftarrow> reqInt ps env ''BEHAVIOR_SCORE_EVERY_N_MSGS'';
     mode \<leftarrow> reqEnum env ''ATTACK_SCALE_MODE'' [''max'', ''weighted''];
     w0 \<leftarrow> reqFloat ps env ''ATTACK_SCALE_W_REJECT'';
     w1 \<leftarrow> reqFloat ps env ''ATTACK_SCALE_W_CONNRATE'';
     w2 \<leftarrow> reqFloat ps env ''ATTACK_SCALE_W_IPGROWTH'';
     w3 \<leftarrow> reqFloat ps env ''ATTACK_SCALE_W_BLOCKLIST'';
     bump \<leftarrow> reqInt ps env ''ATTACK_TIER_BUMP_MAX'';
     rets \<leftarrow> State_Monad.traverse_list (\<lambda>n. reqDuration ps env (''BEHAVIOR_RETENTION_P'' @ dec n)) [0..<count];
     stats \<leftarrow> reqBool ps env ''BEHAVIOR_STATS_ENABLED'';
     statsWin \<leftarrow> reqDuration ps env ''BEHAVIOR_STATS_WINDOW'';
     State_Monad.return \<lparr>bcCurveGamma = gamma, bcWindowShort = wshort, bcWindowLong = wlong, bcGapWindow = gap,
       bcNightStart = nstart, bcNightEnd = nend,
       bcIdentityVals = [''guest'' \<mapsto> g, ''trip'' \<mapsto> tr, ''key'' \<mapsto> k], bcFeatures = feats,
       bcGroupBetaIP = betaIP, bcGroupBeta48 = beta48, bcGroupBetaASN = betaASN, bcGroupBetaCT = betaCT,
       bcGroupMinMemb = minMemb, bcTierEnter = Fin 0 # map fst ths, bcTierExit = Fin 0 # map snd ths,
       bcSlowmodeMult = [0, 0] @ mults, bcRecheckMin = rmin, bcRecheckMax = rmax, bcScoreEveryNMsgs = every,
       bcScaleMode = mode, bcScaleW = [w0, w1, w2, w3], bcBumpMax = bump, bcRetention = rets,
       bcStatsEnabled = stats, bcStatsWindow = statsWin\<rparr>
   }"

definition identity_bad :: "go_float behavior_config \<Rightarrow> string \<Rightarrow> bool" where
  "identity_bad b k = (case bcIdentityVals b k of None \<Rightarrow> False | Some v \<Rightarrow> fless v (Fin 0) \<or> fless (Fin 1) v)"

definition threshold_checks :: "go_float behavior_config \<Rightarrow> nat \<Rightarrow> (bool \<times> string) list" where
  "threshold_checks b n =
     (let en = bcTierEnter b ! n; ex = bcTierExit b ! n; prevEnter = (if n > 1 then bcTierEnter b ! (n - 1) else Fin 0) in
      [(fless en (Fin 0) \<or> fless (Fin 1) en \<or> fless ex (Fin 0) \<or> fless (Fin 1) ex, ''tier '' @ dec n @ '' thresholds must be 0-1''),
       (\<not> (fless ex en \<and> fless prevEnter ex), ''tier '' @ dec n @ '' must satisfy ENTER>EXIT>prevENTER'')])"

definition check_behavior :: "nat \<Rightarrow> go_float behavior_config \<Rightarrow> string option" where
  "check_behavior count b = first_error
     ([(fleq (bcCurveGamma b) (Fin 0), ''BEHAVIOR_CURVE_GAMMA must be positive''),
       (bcWindowShort b \<le> 0 \<or> bcWindowLong b \<le> 0 \<or> bcGapWindow b \<le> 0, ''behavior windows must be positive''),
       (bcNightStart b < 0 \<or> bcNightStart b > 23 \<or> bcNightEnd b < 0 \<or> bcNightEnd b > 23, ''night hours must be 0-23'')] @
      map (\<lambda>(k, nm). (identity_bad b k, ''BEHAVIOR_IDENTITY_'' @ nm @ '' must be 0-1''))
        [(''guest'', ''GUEST''), (''trip'', ''TRIP''), (''key'', ''KEY'')] @
      map (\<lambda>(i, nm). (case map_of (bcFeatures b) i of
             None \<Rightarrow> True
           | Some fp \<Rightarrow> fless (fpWeight fp) (Fin 0) \<or> fpNMin fp < 0 \<or> fleq (fpHi fp) (fpLo fp),
           ''BEHAVIOR_*_'' @ nm @ '' invalid (weight>=0, nmin>=0, lo<hi)'')) abuseFeatures @
      map (\<lambda>v. (fless v (Fin 0), ''group beta must be >= 0''))
        [bcGroupBetaIP b, bcGroupBeta48 b, bcGroupBetaASN b, bcGroupBetaCT b] @
      [(bcGroupMinMemb b < 1, ''BEHAVIOR_GROUP_MIN_MEMBERS must be >= 1'')] @
      concat (map (threshold_checks b) [1..<count]) @
      [(bcRecheckMin b \<le> 0 \<or> bcRecheckMax b < bcRecheckMin b, ''POW_RECHECK_MIN/MAX must satisfy 0<MIN<=MAX'')] @
      map (\<lambda>n. (bcSlowmodeMult b ! n < 1, ''TIER'' @ dec n @ ''_SLOWMODE_MULT must be >= 1'')) [2..<count] @
      [(bcScoreEveryNMsgs b < 1, ''BEHAVIOR_SCORE_EVERY_N_MSGS must be >= 1''),
       (bcBumpMax b < 0 \<or> bcBumpMax b \<ge> int count, ''ATTACK_TIER_BUMP_MAX out of range'')] @
      map (\<lambda>(n, r). (r \<le> 0, ''BEHAVIOR_RETENTION_P'' @ dec n @ '' must be positive''))
        (zip [0..<length (bcRetention b)] (bcRetention b)) @
      [(bcStatsWindow b \<le> 0, ''BEHAVIOR_STATS_WINDOW must be positive'')])"

definition load_group_b :: "parsers \<Rightarrow> env \<Rightarrow> go_float abuse_config \<Rightarrow> abuseLoader \<Rightarrow> string + go_float abuse_config" where
  "load_group_b ps env cfg l =
     (let (enabled, l1) = run_state (behaviorEnabled ps env) l in
      if \<not> enabled then (case loader_err l1 of Some e \<Rightarrow> Inl e | None \<Rightarrow> Inr cfg)
      else let (b, l2) = run_state (load_behavior ps env (nat (acPowTierCount cfg))) l1 in
        case loader_err l2 of
          Some e \<Rightarrow> Inl e
        | None \<Rightarrow> (case check_behavior (nat (acPowTierCount cfg)) b of
              Some e \<Rightarrow> Inl e
            | None \<Rightarrow> Inr (cfg\<lparr>acBehavior := Some b\<rparr>)))"

definition LoadAbuseConfig :: "parsers \<Rightarrow> env \<Rightarrow> string + go_float abuse_config" where
  "LoadAbuseConfig ps env =
     (let (cfg, l) = run_state (load_group_a ps env) new_loader in
      case loader_err l of
        Some e \<Rightarrow> Inl e
      | None \<Rightarrow> (case check_caps cfg of
          Some e \<Rightarrow> Inl e
        | None \<Rightarrow>
            let (cfg1, l1) = run_state (load_pow_tiers ps env cfg) l in
            case loader_err l1 of
              Some e \<Rightarrow> Inl e
            | None \<Rightarrow> (case check_tiers cfg1 of
                Some e \<Rightarrow> Inl e
              | None \<Rightarrow>
                  let (r, l2) = run_state (load_gate_http ps env cfg1) l1 in
                  case r of Inl e \<Rightarrow> Inl e | Inr cfg2 \<Rightarrow> load_group_b ps env cfg2 l2)))"

subsection \<open>What a run of the reader guarantees\<close>

lemma first_error_None: "first_error cs = None \<longleftrightarrow> list_all (\<lambda>(bad, msg). \<not> bad) cs"
  by (induction cs rule: first_error.induct) simp_all

lemma bind_any: "(\<And>x. pred_state P (f x)) \<Longrightarrow> pred_state P (State_Monad.bind m f)"
  by (rule bind_predI) (auto intro!: pred_stateI)

lemma traverse_list_length: "pred_state (\<lambda>ys. length ys = length xs) (State_Monad.traverse_list g xs)"
proof (induction xs)
  case (Cons x xs)
  show ?case
  proof (simp only: State_Monad.traverse_list.simps, rule bind_any, rule bind_predI)
    show "pred_state (\<lambda>ys. pred_state (\<lambda>zs. length zs = length (x # xs)) (State_Monad.return (y # ys))) (State_Monad.traverse_list g xs)" for y
      using Cons by (auto intro!: pred_stateI dest!: pred_stateD)
  qed
qed (auto intro!: pred_stateI)

lemma bind_traverse:
  assumes "\<And>ys. length ys = length xs \<Longrightarrow> pred_state P (f ys)"
  shows "pred_state P (State_Monad.bind (State_Monad.traverse_list g xs) f)"
  using traverse_list_length [of xs g] assms by (intro bind_predI) (auto intro!: pred_stateI dest!: pred_stateD)

lemma return_pred: "P x \<Longrightarrow> pred_state P (State_Monad.return x)"
  by (auto intro!: pred_stateI)

lemma run_pred: "run_state m l = (x, l') \<Longrightarrow> pred_state P m \<Longrightarrow> P x"
  by (metis fst_conv pred_state_run_state)

definition behavior_shape :: "nat \<Rightarrow> go_float behavior_config \<Rightarrow> bool" where
  "behavior_shape count b \<longleftrightarrow> length (bcTierEnter b) = Suc (count - 1) \<and> length (bcTierExit b) = Suc (count - 1) \<and>
     bcTierEnter b ! 0 = Fin 0 \<and> bcTierExit b ! 0 = Fin 0 \<and> length (bcRetention b) = count \<and>
     dom (bcIdentityVals b) = {''guest'', ''trip'', ''key''}"

lemma load_behavior_shape: "pred_state (behavior_shape count) (load_behavior ps env count)"
  unfolding load_behavior_def
  by (rule bind_traverse bind_any return_pred)+ (auto simp: behavior_shape_def)

lemma load_pow_tiers_shape:
  "pred_state (\<lambda>c. length (acPowTiers c) = Suc (nat (acPowTierCount cfg) - 1) \<and>
     c = cfg\<lparr>acPowTiers := acPowTiers c\<rparr>) (load_pow_tiers ps env cfg)"
  unfolding load_pow_tiers_def by (rule bind_traverse return_pred)+ simp

lemma load_gate_http_shape:
  "pred_state (\<lambda>r. \<forall>c. r = Inr c \<longrightarrow>
     c = cfg\<lparr>acGateHTTPClasses := acGateHTTPClasses c, acGateHTTPTierMin := acGateHTTPTierMin c\<rparr>)
     (load_gate_http ps env cfg)"
  unfolding load_gate_http_def
  by (auto intro!: bind_any return_pred simp: Let_def split: option.splits if_splits)

lemma load_group_a_shape: "pred_state (\<lambda>c. acBehavior c = None) (load_group_a ps env)"
  unfolding load_group_a_def by (rule bind_any return_pred)+ simp

subsection \<open>Accepted policies are in range\<close>

definition preset_of :: "PowTier \<Rightarrow> Preset" where
  "preset_of t = \<lparr>psTime = ptT t, psMemory = ptM t, psThreads = ptP t, psDifficulty = ptDifficulty t\<rparr>"

text \<open>In range unless NaN; the thresholds are compared the other way round, so they are numbers.\<close>

definition unless_nan :: "(go_float \<Rightarrow> bool) \<Rightarrow> go_float \<Rightarrow> bool" where
  "unless_nan P f \<longleftrightarrow> f \<noteq> NaN \<longrightarrow> P f"

definition fl_between :: "real \<Rightarrow> real \<Rightarrow> go_float \<Rightarrow> bool" where
  "fl_between lo hi f \<longleftrightarrow> (\<exists>x. f = Fin x \<and> lo \<le> x \<and> x \<le> hi)"

definition feature_in_range :: "go_float feature_param \<Rightarrow> bool" where
  "feature_in_range fp \<longleftrightarrow> unless_nan (fleq (Fin 0)) (fpWeight fp) \<and> 0 \<le> fpNMin fp \<and>
     (fpLo fp = NaN \<or> fpHi fp = NaN \<or> fless (fpLo fp) (fpHi fp))"

definition tier_ladder :: "nat \<Rightarrow> go_float list \<Rightarrow> go_float list \<Rightarrow> bool" where
  "tier_ladder count enter exit0 \<longleftrightarrow> (\<exists>ens exs. enter = map Fin ens \<and> exit0 = map Fin exs \<and> length ens = count \<and>
     thresholds_ok ens exs \<and> sorted_wrt (<) ens \<and> list_all (\<lambda>x. 0 \<le> x \<and> x \<le> 1) ens)"

definition behavior_in_range :: "nat \<Rightarrow> go_float behavior_config \<Rightarrow> bool" where
  "behavior_in_range count b \<longleftrightarrow>
     unless_nan (fless (Fin 0)) (bcCurveGamma b) \<and> 0 < bcWindowShort b \<and> 0 < bcWindowLong b \<and> 0 < bcGapWindow b \<and>
     (\<forall>v\<in>ran (bcIdentityVals b). unless_nan (fl_between 0 1) v) \<and>
     list_all (\<lambda>(i, nm). pred_option feature_in_range (map_of (bcFeatures b) i) \<and> map_of (bcFeatures b) i \<noteq> None) abuseFeatures \<and>
     list_all (unless_nan (fleq (Fin 0))) [bcGroupBetaIP b, bcGroupBeta48 b, bcGroupBetaASN b, bcGroupBetaCT b] \<and>
     tier_ladder count (bcTierEnter b) (bcTierExit b) \<and> 0 \<le> bcBumpMax b \<and> bcBumpMax b < int count \<and>
     1 \<le> bcGroupMinMemb b \<and> 1 \<le> bcScoreEveryNMsgs b \<and> 0 < bcRecheckMin b \<and> bcRecheckMin b \<le> bcRecheckMax b \<and>
     length (bcRetention b) = count \<and> list_all (\<lambda>r. 0 < r) (bcRetention b)"

definition policy_in_range :: "go_float abuse_config \<Rightarrow> bool" where
  "policy_in_range cfg \<longleftrightarrow>
     1 \<le> acMaxTotalConnections cfg \<and> 0 < acAttackEnterSecs cfg \<and> 1 \<le> acAttackEnterRPS cfg \<and>
     0 \<le> acPowGateTier cfg \<and> acPowGateTier cfg < acPowTierCount cfg \<and>
     int (length (acPowTiers cfg)) = acPowTierCount cfg \<and>
     list_all (\<lambda>t. in_envelope False (preset_of t)) (tl (acPowTiers cfg)) \<and>
     0 < acJoinWaitMin cfg \<and> acJoinWaitMin cfg \<le> acJoinWaitMax cfg \<and>
     0 < acScreenDeadline cfg \<and> 0 < acPowTTL cfg \<and> 0 < acPassTTL cfg \<and> 1 \<le> acPairMaxPending cfg \<and>
     unless_nan (fl_between 0 1) (acSoftCapRatio cfg) \<and> acSoftCapRatio cfg \<noteq> Fin 0 \<and>
     pred_option (behavior_in_range (nat (acPowTierCount cfg))) (acBehavior cfg)"

lemma not_fless: "\<not> fless a b \<longleftrightarrow> a = NaN \<or> b = NaN \<or> fleq b a" "\<not> fleq a b \<longleftrightarrow> a = NaN \<or> b = NaN \<or> fless b a"
  by (cases a; cases b; auto simp: fleq_def)+

lemma not_below:
  "\<not> fleq f (Fin x) \<longleftrightarrow> unless_nan (fless (Fin x)) f" "\<not> fless f (Fin x) \<longleftrightarrow> unless_nan (fleq (Fin x)) f"
  by (auto simp: unless_nan_def not_fless)

lemma in_unit: "\<not> fless v (Fin lo) \<Longrightarrow> \<not> fless (Fin hi) v \<Longrightarrow> unless_nan (fl_between lo hi) v"
  by (cases v) (auto simp: unless_nan_def fl_between_def)

text \<open>One rung: two true comparisons leave no NaN, and the 0-1 check no infinity.\<close>

lemma rung_numbers:
  assumes "fless ex en" "fless prev ex" "\<not> fless (Fin 1) en" "\<not> fless ex (Fin 0)"
  obtains e x where "en = Fin e" "ex = Fin x" "0 \<le> x" "x < e" "e \<le> 1"
  using assms by (cases en; cases ex) auto

lemma thresholds_checked:
  assumes "list_all (\<lambda>(bad, msg). \<not> bad) (concat (map (threshold_checks b) [1..<count]))" "behavior_shape count b" "2 \<le> count"
  shows "tier_ladder count (bcTierEnter b) (bcTierExit b)"
proof -
  let ?E = "bcTierEnter b" and ?X = "bcTierExit b"
  define num where "num f = (case f of Fin x \<Rightarrow> x | _ \<Rightarrow> 0)" for f
  have each: "\<exists>e x. ?E ! n = Fin e \<and> ?X ! n = Fin x \<and> 0 \<le> x \<and> x < e \<and> e \<le> 1 \<and> fless (if n > 1 then ?E ! (n - 1) else Fin 0) (?X ! n)"
    if "1 \<le> n" "n < count" for n
  proof -
    have "list_all (\<lambda>(bad, msg). \<not> bad) (threshold_checks b n)" using assms(1) that by (auto simp: list_all_iff)
    then have "fless (?X ! n) (?E ! n)" "fless (if n > 1 then ?E ! (n - 1) else Fin 0) (?X ! n)"
      "\<not> fless (Fin 1) (?E ! n)" "\<not> fless (?X ! n) (Fin 0)" by (simp_all add: threshold_checks_def Let_def)
    then show ?thesis by (metis rung_numbers)
  qed
  have len: "length ?E = count" "length ?X = count" and z: "?E ! 0 = Fin 0" "?X ! 0 = Fin 0"
    using assms(2,3) by (auto simp: behavior_shape_def)
  have nums: "?E ! n = Fin (num (?E ! n)) \<and> ?X ! n = Fin (num (?X ! n)) \<and> num (?X ! n) \<le> num (?E ! n) \<and>
      0 \<le> num (?E ! n) \<and> num (?E ! n) \<le> 1" if "n < count" for n
    using each [of n] that z by (cases "n = 0") (auto simp: num_def)
  have "?E = map Fin (map num ?E)" "?X = map Fin (map num ?X)"
    using nums len by (auto intro!: nth_equalityI)
  moreover have "thresholds_ok (map num ?E) (map num ?X)" using nums len by (simp add: thresholds_ok_def list_all_length)
  moreover have "sorted_wrt (<) (map num ?E)"
  proof (unfold sorted_wrt_iff_nth_Suc_transp [OF transp_on_less], intro allI impI)
    fix i assume "Suc i < length (map num ?E)"
    then have i: "Suc i < count" using len by simp
    have prev: "(if Suc i > 1 then ?E ! (Suc i - 1) else Fin 0) = ?E ! i" using z by (cases i) auto
    obtain e x where r: "?E ! Suc i = Fin e" "?X ! Suc i = Fin x" "x < e" "fless (?E ! i) (?X ! Suc i)"
      using each [of "Suc i"] i unfolding prev by auto
    obtain u where u: "?E ! i = Fin u" using nums [of i] i by auto
    have "num (Fin u) < num (Fin e)" using r u by (simp add: num_def)
    then show "map num ?E ! i < map num ?E ! Suc i" using r u i len by simp
  qed
  moreover have "list_all (\<lambda>x. 0 \<le> x \<and> x \<le> 1) (map num ?E)" using nums len by (simp add: list_all_length)
  moreover have "length (map num ?E) = count" using len by simp
  ultimately show ?thesis unfolding tier_ladder_def by blast
qed

lemma behavior_checked:
  assumes "check_behavior count b = None" "behavior_shape count b" "2 \<le> count"
  shows "behavior_in_range count b"
proof -
  note c = assms(1) [unfolded check_behavior_def first_error_None]
  have th: "tier_ladder count (bcTierEnter b) (bcTierExit b)"
    using c by (intro thresholds_checked [OF _ assms(2,3)]) (simp only: list_all_append)
  have idv: "unless_nan (fl_between 0 1) v" if v: "v \<in> ran (bcIdentityVals b)" for v
  proof -
    obtain k where k: "bcIdentityVals b k = Some v" using v by (auto simp: ran_def)
    then have "k \<in> {''guest'', ''trip'', ''key''}" using assms(2) by (auto simp: behavior_shape_def)
    then have "\<not> identity_bad b k" using c by (auto simp: list_all_append)
    then show ?thesis using k by (simp add: identity_bad_def in_unit)
  qed
  have "list_all (\<lambda>(bad, msg). \<not> bad) (map (\<lambda>(n, r). (r \<le> 0, ''BEHAVIOR_RETENTION_P'' @ dec n @ '' must be positive''))
      (zip [0..<length (bcRetention b)] (bcRetention b)))" using c by (simp only: list_all_append)
  then have ret: "list_all (\<lambda>r. 0 < r) (bcRetention b)" by (simp add: list_all_length not_le)
  have "list_all (\<lambda>(bad, msg). \<not> bad) (map (\<lambda>(i, nm). (case map_of (bcFeatures b) i of
             None \<Rightarrow> True
           | Some fp \<Rightarrow> fless (fpWeight fp) (Fin 0) \<or> fpNMin fp < 0 \<or> fleq (fpHi fp) (fpLo fp),
           ''BEHAVIOR_*_'' @ nm @ '' invalid (weight>=0, nmin>=0, lo<hi)'')) abuseFeatures)" using c by (simp only: list_all_append)
  then have feats: "list_all (\<lambda>(i, nm). pred_option feature_in_range (map_of (bcFeatures b) i) \<and> map_of (bcFeatures b) i \<noteq> None) abuseFeatures"
    by (auto simp: list_all_iff feature_in_range_def unless_nan_def not_fless split: option.splits)
  show ?thesis using c th idv ret feats assms(2,3)
    by (simp add: behavior_in_range_def behavior_shape_def list_all_append not_below)
qed

lemma caps_checked:
  "check_caps cfg = None \<Longrightarrow> 1 \<le> acMaxTotalConnections cfg \<and> 0 < acAttackEnterSecs cfg \<and> 1 \<le> acAttackEnterRPS cfg \<and>
     2 \<le> acPowTierCount cfg \<and> 0 \<le> acPowGateTier cfg \<and> acPowGateTier cfg < acPowTierCount cfg"
  by (auto simp: check_caps_def split: if_splits)

lemma tier_checked: "\<not> tier_out_of_range t \<Longrightarrow> in_envelope False (preset_of t)"
  by (auto simp: tier_out_of_range_def in_envelope_def preset_of_def)

lemma tiers_checked:
  assumes "check_tiers cfg = None" "length (acPowTiers cfg) = Suc (nat (acPowTierCount cfg) - 1)" "2 \<le> acPowTierCount cfg"
  shows "list_all (\<lambda>t. in_envelope False (preset_of t)) (tl (acPowTiers cfg)) \<and>
     0 < acJoinWaitMin cfg \<and> acJoinWaitMin cfg \<le> acJoinWaitMax cfg \<and>
     0 < acScreenDeadline cfg \<and> 0 < acPowTTL cfg \<and> 0 < acPassTTL cfg \<and> 1 \<le> acPairMaxPending cfg \<and>
     unless_nan (fl_between 0 1) (acSoftCapRatio cfg) \<and> acSoftCapRatio cfg \<noteq> Fin 0"
proof -
  note c = assms(1) [unfolded check_tiers_def first_error_None list_all_append]
  have "in_envelope False (preset_of (acPowTiers cfg ! Suc n))" if "n < nat (acPowTierCount cfg) - 1" for n
    using c that by (intro tier_checked) (auto simp: list_all_iff)
  then have "list_all (\<lambda>t. in_envelope False (preset_of t)) (tl (acPowTiers cfg))"
    using assms(2) by (auto simp: list_all_length nth_tl)
  moreover have "unless_nan (fl_between 0 1) (acSoftCapRatio cfg)" using c by (intro in_unit) (auto simp: fleq_def)
  ultimately show ?thesis using c by (auto simp: fleq_def)
qed

lemma load_group_b_result:
  assumes "load_group_b ps env cfg l = Inr c" "acBehavior cfg = None" "2 \<le> acPowTierCount cfg"
  shows "c = cfg\<lparr>acBehavior := acBehavior c\<rparr> \<and> pred_option (behavior_in_range (nat (acPowTierCount cfg))) (acBehavior c)"
proof -
  let ?n = "nat (acPowTierCount cfg)"
  obtain en l1 where e: "run_state (behaviorEnabled ps env) l = (en, l1)" by fastforce
  obtain b l2 where r: "run_state (load_behavior ps env ?n) l1 = (b, l2)" by fastforce
  have "behavior_shape ?n b" using r load_behavior_shape by (rule run_pred)
  then have range: "behavior_in_range ?n b" if "check_behavior ?n b = None" using that assms(3) by (intro behavior_checked) simp_all
  have "Inr c = (if \<not> en then (case loader_err l1 of Some e \<Rightarrow> Inl e | None \<Rightarrow> Inr cfg)
      else case loader_err l2 of Some e \<Rightarrow> Inl e
        | None \<Rightarrow> (case check_behavior ?n b of Some e \<Rightarrow> Inl e | None \<Rightarrow> Inr (cfg\<lparr>acBehavior := Some b\<rparr>)))"
    using assms(1) e r by (cases en) (simp_all add: load_group_b_def)
  then have "c = cfg \<or> (check_behavior ?n b = None \<and> c = cfg\<lparr>acBehavior := Some b\<rparr>)"
    by (simp split: if_splits option.splits)
  then show ?thesis
  proof
    assume "c = cfg"
    then show ?thesis using assms(2) by simp
  next
    assume "check_behavior ?n b = None \<and> c = cfg\<lparr>acBehavior := Some b\<rparr>"
    then show ?thesis using range by simp
  qed
qed

lemma accepted_policy_in_range_aux:
  assumes "LoadAbuseConfig ps env = Inr cfg"
  shows "policy_in_range cfg"
proof -
  obtain c0 l0 where a: "run_state (load_group_a ps env) new_loader = (c0, l0)" by fastforce
  then have caps: "check_caps c0 = None" using assms by (auto simp: LoadAbuseConfig_def split: option.splits)
  obtain c1 l1 where t: "run_state (load_pow_tiers ps env c0) l0 = (c1, l1)" by fastforce
  then have tiers: "check_tiers c1 = None" using assms a caps by (auto simp: LoadAbuseConfig_def split: option.splits)
  obtain r l2 where g: "run_state (load_gate_http ps env c1) l1 = (r, l2)" by fastforce
  then obtain c2 where c2: "r = Inr c2" "load_group_b ps env c2 l2 = Inr cfg"
    using assms a caps t tiers by (auto simp: LoadAbuseConfig_def split: option.splits sum.splits)
  have "acBehavior c0 = None" using a load_group_a_shape by (rule run_pred)
  note c0 = this caps_checked [OF caps]
  have c1: "length (acPowTiers c1) = Suc (nat (acPowTierCount c0) - 1) \<and> c1 = c0\<lparr>acPowTiers := acPowTiers c1\<rparr>"
    using t load_pow_tiers_shape by (rule run_pred)
  then have fields: "acPowTierCount c1 = acPowTierCount c0" "acBehavior c1 = None"
    "acMaxTotalConnections c1 = acMaxTotalConnections c0" "acAttackEnterSecs c1 = acAttackEnterSecs c0"
    "acAttackEnterRPS c1 = acAttackEnterRPS c0" "acPowGateTier c1 = acPowGateTier c0"
    using c0(1) by (metis abuse_config.select_convs abuse_config.surjective abuse_config.update_convs(9))+
  have tc: "check_tiers c1 = None" "length (acPowTiers c1) = Suc (nat (acPowTierCount c1) - 1)" "2 \<le> acPowTierCount c1"
    using tiers c1 fields c0 by auto
  note tiers_ok = tiers_checked [OF tc]
  have "\<forall>c. r = Inr c \<longrightarrow> c = c1\<lparr>acGateHTTPClasses := acGateHTTPClasses c, acGateHTTPTierMin := acGateHTTPTierMin c\<rparr>"
    using g load_gate_http_shape by (rule run_pred)
  then obtain cls tm where c2': "c2 = c1\<lparr>acGateHTTPClasses := cls, acGateHTTPTierMin := tm\<rparr>" using c2(1) by blast
  from load_group_b_result [OF c2(2)] have "cfg = c2\<lparr>acBehavior := acBehavior cfg\<rparr> \<and>
      pred_option (behavior_in_range (nat (acPowTierCount c2))) (acBehavior cfg)" using c2' fields tc by simp
  then obtain bo where cfg: "cfg = c2\<lparr>acBehavior := bo\<rparr>" "pred_option (behavior_in_range (nat (acPowTierCount c2))) bo"
    by (metis abuse_config.select_convs(20) abuse_config.surjective abuse_config.update_convs(20))
  show ?thesis unfolding cfg(1) policy_in_range_def using cfg(2) c2' c0 fields tiers_ok tc(2) by simp
qed

subsection \<open>Properties\<close>


definition ex_parsers :: parsers where
  "ex_parsers = \<lparr>pInt = (\<lambda>s. Inr (if s = ''8192'' then 8192 else if s = ''1'' then 1 else 2)), pDuration = (\<lambda>s. Inr second),
     pFloat = (\<lambda>s. Inr (if s = ''NaN'' then NaN else Fin (if s = ''lo'' then 1/4 else 1/2))), pBool = (\<lambda>s. Inr (s \<noteq> ''false''))\<rparr>"

definition ex_env :: env where
  "ex_env k = Some
     (if k = ''POW_P1_M'' then ''8192'' else if k = ''POW_GATE_TIER'' \<or> k = ''ATTACK_TIER_BUMP_MAX'' then ''1''
      else if k = ''UNDER_ATTACK_FORCE'' then ''auto'' else if k = ''POW_FIRST_CONNECT'' then ''never''
      else if k = ''GATE_HTTP_MODE'' then ''tier'' else if k = ''ATTACK_SCALE_MODE'' then ''max''
      else if last_n 2 k = ''LO'' \<or> last_n 4 k = ''EXIT'' then ''lo'' else ''2'')"

lemma ex_accepted: "\<not> isl (LoadAbuseConfig ex_parsers ex_env)"
  by code_simp


text \<open>The gap is real: the same environment with \<open>SOFT_CAP_RATIO=NaN\<close> is accepted, and the ratio of the policy is NaN.\<close>

definition ex_nan_env :: env where
  "ex_nan_env = ex_env(''SOFT_CAP_RATIO'' \<mapsto> ''NaN'')"

theorem nan_soft_cap_is_accepted:
  "\<not> isl (LoadAbuseConfig ex_parsers ex_nan_env) \<and> acSoftCapRatio (projr (LoadAbuseConfig ex_parsers ex_nan_env)) = NaN"
  by code_simp

subsection \<open>Policies whose numbers are finite\<close>

definition floats_of_feature :: "FeatureParam \<Rightarrow> go_float feature_param" where
  "floats_of_feature f = \<lparr>fpWeight = Fin (fpWeight f), fpNMin = fpNMin f, fpLo = Fin (fpLo f), fpHi = Fin (fpHi f),
     fpHighBad = fpHighBad f\<rparr>"

definition floats_of_behavior :: "BehaviorConfig \<Rightarrow> go_float behavior_config" where
  "floats_of_behavior b = \<lparr>bcCurveGamma = Fin (bcCurveGamma b), bcWindowShort = bcWindowShort b, bcWindowLong = bcWindowLong b,
     bcGapWindow = bcGapWindow b, bcNightStart = bcNightStart b, bcNightEnd = bcNightEnd b,
     bcIdentityVals = map_option Fin \<circ> bcIdentityVals b, bcFeatures = map (map_prod id floats_of_feature) (bcFeatures b),
     bcGroupBetaIP = Fin (bcGroupBetaIP b), bcGroupBeta48 = Fin (bcGroupBeta48 b), bcGroupBetaASN = Fin (bcGroupBetaASN b),
     bcGroupBetaCT = Fin (bcGroupBetaCT b), bcGroupMinMemb = bcGroupMinMemb b, bcTierEnter = map Fin (bcTierEnter b),
     bcTierExit = map Fin (bcTierExit b), bcSlowmodeMult = bcSlowmodeMult b, bcRecheckMin = bcRecheckMin b,
     bcRecheckMax = bcRecheckMax b, bcScoreEveryNMsgs = bcScoreEveryNMsgs b, bcScaleMode = bcScaleMode b,
     bcScaleW = map Fin (bcScaleW b), bcBumpMax = bcBumpMax b, bcRetention = bcRetention b,
     bcStatsEnabled = bcStatsEnabled b, bcStatsWindow = bcStatsWindow b\<rparr>"

definition floats_of :: "AbuseConfig \<Rightarrow> go_float abuse_config" where
  "floats_of c = \<lparr>acMaxTotalConnections = acMaxTotalConnections c, acAttackEnterSecs = acAttackEnterSecs c,
     acAttackEnterRPS = acAttackEnterRPS c, acUnderAttackTTL = acUnderAttackTTL c, acUnderAttackForce = acUnderAttackForce c,
     acPowFirstConnect = acPowFirstConnect c, acPowGateTier = acPowGateTier c, acPowTierCount = acPowTierCount c,
     acPowTiers = acPowTiers c, acPowTTL = acPowTTL c, acJoinWaitMin = acJoinWaitMin c, acJoinWaitMax = acJoinWaitMax c,
     acScreenDeadline = acScreenDeadline c, acGateHTTPEnabled = acGateHTTPEnabled c, acGateHTTPClasses = acGateHTTPClasses c,
     acGateHTTPMode = acGateHTTPMode c, acGateHTTPTierMin = acGateHTTPTierMin c, acPassTTL = acPassTTL c,
     acPassSingleUse = acPassSingleUse c, acBehavior = map_option floats_of_behavior (acBehavior c),
     acPairMaxPending = acPairMaxPending c, acSoftCapRatio = Fin (acSoftCapRatio c)\<rparr>"

text \<open>For such a policy the range is the plain one: these are the facts the gate, the detector and the scorer use.\<close>

lemma finite_policy_in_range:
  assumes "policy_in_range (floats_of c)"
  shows "1 \<le> acMaxTotalConnections c" "0 \<le> acPowGateTier c" "acPowGateTier c < acPowTierCount c"
    "int (length (acPowTiers c)) = acPowTierCount c" "list_all (\<lambda>t. in_envelope False (preset_of t)) (tl (acPowTiers c))"
    "acSoftCapRatio c \<le> 1" "acBehavior c = Some b \<Longrightarrow> 0 < bcCurveGamma b"
    "acBehavior c = Some b \<Longrightarrow> int (length (bcTierEnter b)) = acPowTierCount c"
proof -
  have "tier_ladder n (map Fin (bcTierEnter b)) (map Fin (bcTierExit b)) \<Longrightarrow> length (bcTierEnter b) = n" for n
    unfolding tier_ladder_def by (metis length_map)
  then show "acBehavior c = Some b \<Longrightarrow> int (length (bcTierEnter b)) = acPowTierCount c"
    using assms by (force simp: policy_in_range_def floats_of_def behavior_in_range_def floats_of_behavior_def)
qed (use assms in \<open>auto simp: policy_in_range_def floats_of_def unless_nan_def fl_between_def behavior_in_range_def floats_of_behavior_def\<close>)

lemma scoreless_policy_is_finite:
  assumes "acBehavior g = None" "acSoftCapRatio g = Fin r"
  shows "\<exists>c. g = floats_of c"
proof
  show "g = floats_of \<lparr>acMaxTotalConnections = acMaxTotalConnections g, acAttackEnterSecs = acAttackEnterSecs g,
     acAttackEnterRPS = acAttackEnterRPS g, acUnderAttackTTL = acUnderAttackTTL g, acUnderAttackForce = acUnderAttackForce g,
     acPowFirstConnect = acPowFirstConnect g, acPowGateTier = acPowGateTier g, acPowTierCount = acPowTierCount g,
     acPowTiers = acPowTiers g, acPowTTL = acPowTTL g, acJoinWaitMin = acJoinWaitMin g, acJoinWaitMax = acJoinWaitMax g,
     acScreenDeadline = acScreenDeadline g, acGateHTTPEnabled = acGateHTTPEnabled g, acGateHTTPClasses = acGateHTTPClasses g,
     acGateHTTPMode = acGateHTTPMode g, acGateHTTPTierMin = acGateHTTPTierMin g, acPassTTL = acPassTTL g,
     acPassSingleUse = acPassSingleUse g, acBehavior = None, acPairMaxPending = acPairMaxPending g, acSoftCapRatio = r\<rparr>"
    using assms by (simp add: floats_of_def)
qed

end
