(* ===== verification/Gate.thy ===== *)
theory Gate
  imports Guard Pow Under_Attack Behavior_Engine Abuse_Load
begin

unbundle bit_operations_syntax

text \<open>
  The join gate, \<^verbatim>\<open>src/server/gate.go\<close>: challenges, lease passes, the handlers that ask for them, and the sampler
  tick. HMAC-SHA256 is computed on the SHA-256 model. Random bytes are arguments (\<open>None\<close> when the
  source fails), and so is every clock reading. The maps are association lists.
\<close>

subsection \<open>Random values and message authentication\<close>

definition randHex :: "bytes option \<Rightarrow> string option" where
  "randHex r = map_option hex_encode r"

text \<open>Go's remainder takes the sign of the dividend.\<close>

definition go_rem :: "int \<Rightarrow> int \<Rightarrow> int" where
  "go_rem a b = (if a \<ge> 0 then a mod b else - ((- a) mod b))"

definition go_quot :: "int \<Rightarrow> int \<Rightarrow> int" where
  "go_quot a b = (if a \<ge> 0 then a div b else - ((- a) div b))"

text \<open>The eight random bytes, read big-endian into an \<open>int64\<close>.\<close>

definition be_word :: "bytes \<Rightarrow> u64" where
  "be_word b = of_nat (be_value b)"

definition randInt63n :: "bytes option \<Rightarrow> int \<Rightarrow> int" where
  "randInt63n r n =
     (if n \<le> 0 then 0
      else case r of
          None \<Rightarrow> 0
        | Some b \<Rightarrow> (let v = be_word b; v1 = (if sint v < 0 then - v else v) in go_rem (sint v1) n))"

subsection \<open>The store\<close>

definition gateChallengeCooldown :: duration where "gateChallengeCooldown = 2 * second"

datatype SubmitCode = SubmitOK | SubmitEarly | SubmitBad | SubmitGone

record GateChallenge =
  gcID :: string
  gcTier :: int
  gcPreset :: Preset
  gcSalt :: string
  gcEarliest :: time
  gcExpires :: time
  gcTicket :: string
  gcUsed :: bool

record GatePass =
  gpToken :: string
  gpIP :: string
  gpExpires :: time

record GateStore =
  gsKey :: bytes
  gsChallenges :: "(string \<times> GateChallenge) list"
  gsPasses :: "(string \<times> GatePass) list"
  gsCooldown :: CooldownMap
  gsStatusCooldown :: CooldownMap

definition NewGateStore :: "bytes option \<Rightarrow> time \<Rightarrow> GateStore" where
  "NewGateStore r now =
     \<lparr>gsKey = (case r of Some k \<Rightarrow> k | None \<Rightarrow> ''fallback-'' @ dec_int (UnixNano now)),
      gsChallenges = [], gsPasses = [], gsCooldown = NewCooldownMap, gsStatusCooldown = NewCooldownMap\<rparr>"

definition AllowStatus :: "string \<Rightarrow> clocks \<Rightarrow> GateStore \<Rightarrow> bool \<times> GateStore" where
  "AllowStatus ip ck g =
     (let (ok, c) = cooldown_allow ip second ck (gsStatusCooldown g) in (ok, g\<lparr>gsStatusCooldown := c\<rparr>))"

definition ticket_message :: "string \<Rightarrow> string \<Rightarrow> time \<Rightarrow> bytes" where
  "ticket_message ip i earliest = ip @ ''|'' @ i @ ''|'' @ dec_int (UnixNano earliest)"

definition ticket :: "bytes \<Rightarrow> string \<Rightarrow> string \<Rightarrow> time \<Rightarrow> string" where
  "ticket key ip i earliest = hex_encode (hmac_sha256 key (ticket_message ip i earliest))"

record gate_env =
  geClocks :: clocks       \<comment> \<open>of the cooldown map\<close>
  geNow :: time            \<comment> \<open>first reading of the operation itself\<close>
  geNow2 :: time
  geNow3 :: time
  geRandID :: "bytes option"
  geRandWait :: "bytes option"

datatype gate_error = TooSoon | RandFailed

definition Request ::
  "gate_env \<Rightarrow> string \<Rightarrow> int \<Rightarrow> Preset \<Rightarrow> duration \<Rightarrow> duration \<Rightarrow> duration \<Rightarrow> string \<Rightarrow> GateStore
     \<Rightarrow> (gate_error + GateChallenge) \<times> GateStore" where
  "Request ge ip tier preset waitMin waitMax ttl serverPub g =
     (let (ok, c) = cooldown_allow ip gateChallengeCooldown (geClocks ge) (gsCooldown g);
          g1 = g\<lparr>gsCooldown := c\<rparr> in
      if \<not> ok then (Inl TooSoon, g1)
      else case randHex (geRandID ge) of
          None \<Rightarrow> (Inl RandFailed, g1)
        | Some i \<Rightarrow>
            (let now = geNow ge;
                 wait = (if waitMax > waitMin then waitMin + randInt63n (geRandWait ge) (waitMax - waitMin) else waitMin);
                 earliest = now + wait;
                 salt = ''v1|'' @ serverPub @ ''|'' @ ip @ ''|'' @ i;
                 ch = \<lparr>gcID = i, gcTier = tier, gcPreset = preset, gcSalt = salt, gcEarliest = earliest,
                       gcExpires = earliest + ttl, gcTicket = ticket (gsKey g1) ip i earliest, gcUsed = False\<rparr>
             in (Inr ch, g1\<lparr>gsChallenges := AList.update i ch (gsChallenges g1)\<rparr>)))"

definition ChallengeEarliest :: "string \<Rightarrow> GateStore \<Rightarrow> time option" where
  "ChallengeEarliest i g =
     (case map_of (gsChallenges g) i of
        None \<Rightarrow> None
      | Some c \<Rightarrow> if gcUsed c then None else Some (gcEarliest c))"

definition drop_challenge :: "string \<Rightarrow> GateStore \<Rightarrow> GateStore" where
  "drop_challenge i g = g\<lparr>gsChallenges := AList.delete i (gsChallenges g)\<rparr>"

definition Submit ::
  "argon2id \<Rightarrow> gate_env \<Rightarrow> string \<Rightarrow> string \<Rightarrow> u64 \<Rightarrow> string \<Rightarrow> duration \<Rightarrow> GateStore
     \<Rightarrow> (GatePass option \<times> SubmitCode) \<times> GateStore" where
  "Submit argon ge ip i nonce tick passTTL g =
     (case map_of (gsChallenges g) i of
        None \<Rightarrow> ((None, SubmitGone), drop_challenge i g)
      | Some c \<Rightarrow>
          if gcUsed c \<or> geNow ge > gcExpires c then ((None, SubmitGone), drop_challenge i g)
          else if tick \<noteq> ticket (gsKey g) ip i (gcEarliest c) then ((None, SubmitBad), drop_challenge i g)
          else if geNow2 ge < gcEarliest c then ((None, SubmitEarly), g)
          else if \<not> Verify argon (gcPreset c) (gcSalt c) nonce then ((None, SubmitBad), drop_challenge i g)
          else let g1 = drop_challenge i g in
            case randHex (geRandID ge) of
              None \<Rightarrow> ((None, SubmitGone), g1)
            | Some tok \<Rightarrow>
                (let p = \<lparr>gpToken = tok, gpIP = ip, gpExpires = geNow3 ge + passTTL\<rparr>
                 in ((Some p, SubmitOK), g1\<lparr>gsPasses := AList.update tok p (gsPasses g1)\<rparr>)))"

definition UsePass :: "string \<Rightarrow> string \<Rightarrow> bool \<Rightarrow> time \<Rightarrow> GateStore \<Rightarrow> bool \<times> GateStore" where
  "UsePass ip tok singleUse now g =
     (case map_of (gsPasses g) tok of
        None \<Rightarrow> (False, g)
      | Some p \<Rightarrow>
          if gpIP p \<noteq> ip \<or> now > gpExpires p then (False, g)
          else (True, if singleUse then g\<lparr>gsPasses := AList.delete tok (gsPasses g)\<rparr> else g))"

definition Sweep :: "time \<Rightarrow> GateStore \<Rightarrow> GateStore" where
  "Sweep now g =
     g\<lparr>gsPasses := filter (\<lambda>(t, p). \<not> now > gpExpires p) (gsPasses g),
       gsChallenges := filter (\<lambda>(i, c). \<not> now > gcExpires c) (gsChallenges g)\<rparr>"

subsection \<open>The server around the store\<close>

record GateServer =
  svGate :: "GateStore option"
  svAttack :: "AttackState option"
  svBehavior :: "BehaviorEngine option"
  svRejects :: RejectStat
  svClients :: int
  svInflight :: int
  svServerID :: "(string \<times> string) option"   \<comment> \<open>public key, private key (hex)\<close>

definition gateTier :: "AbuseConfig option \<Rightarrow> GateServer \<Rightarrow> int" where
  "gateTier abuse s =
     (case abuse of
        None \<Rightarrow> 0
      | Some a \<Rightarrow>
          if acPowTierCount a \<le> 1 then 0
          else let maxTier = acPowTierCount a - 1;
                   t0 = (if acPowGateTier a < 0 then 0 else acPowGateTier a);
                   t1 = (if t0 > maxTier then maxTier else t0)
            in case (acBehavior a, svAttack s) of
                 (Some b, Some att) \<Rightarrow> ApplyBump t1 (Scale att) (bcBumpMax b) maxTier
               | _ \<Rightarrow> t1)"

definition gateRequired :: "AbuseConfig option \<Rightarrow> time \<Rightarrow> GateServer \<Rightarrow> bool" where
  "gateRequired abuse now s =
     (case (abuse, svGate s) of
        (Some a, Some g) \<Rightarrow>
          if acPowFirstConnect a = ''always'' then True
          else acPowFirstConnect a = ''under-attack'' \<and> degraded (svAttack s) now abuse (svClients s) (svInflight s)
      | _ \<Rightarrow> False)"

text \<open>What the handlers write back.\<close>

datatype gate_body = Plain string | RequiredGate string | RequiredNow bool | ErrorBody string "int option"
  | ChallengeBody GateChallenge string string | PassBody string int

record gate_reply =
  rpStatus :: int
  rpRetryAfter :: "int option"
  rpBody :: gate_body

definition too_many :: gate_reply where
  "too_many = \<lparr>rpStatus = 429, rpRetryAfter = Some 5, rpBody = RequiredGate ''/api/join-gate''\<rparr>"

text \<open>The two tokens are the query parameter and the header.\<close>

definition checkGatePass ::
  "AbuseConfig option \<Rightarrow> string list \<Rightarrow> string \<Rightarrow> string \<Rightarrow> string \<Rightarrow> time \<Rightarrow> GateServer \<Rightarrow> gate_reply option \<times> GateServer" where
  "checkGatePass abuse order query header clientIP now s =
     (let tok = (if query = [] then header else query);
          single = (case abuse of Some a \<Rightarrow> acPassSingleUse a | None \<Rightarrow> False);
          (ok, s1) = (case svGate s of
              None \<Rightarrow> (False, s)
            | Some g \<Rightarrow> (let (r, g1) = UsePass clientIP tok single now g in (r, s\<lparr>svGate := Some g1\<rparr>)))
      in if ok then (None, s1)
         else (Some too_many,
           s1\<lparr>svAttack := map_option (noteGate (unix_seconds now)) (svAttack s1),
              svRejects := addReject rejectGateCause (svRejects s1),
              svBehavior := map_option (ObserveHTTP order clientIP ''join_ws'' 429 now) (svBehavior s1)\<rparr>))"

definition httpGateFor :: "AbuseConfig option \<Rightarrow> string \<Rightarrow> string \<Rightarrow> time \<Rightarrow> GateServer \<Rightarrow> bool" where
  "httpGateFor abuse cls ip now s =
     (case (abuse, svGate s) of
        (Some a, Some g) \<Rightarrow>
          acGateHTTPEnabled a \<and> cls \<in> set (acGateHTTPClasses a) \<and>
          (if acGateHTTPMode a = ''tier'' then
             (case svBehavior s of
                None \<Rightarrow> False
              | Some e \<Rightarrow> (case engine_Tier ip e of None \<Rightarrow> False | Some t \<Rightarrow> t \<ge> acGateHTTPTierMin a))
           else degraded (svAttack s) now abuse (svClients s) (svInflight s))
      | _ \<Rightarrow> False)"

definition checkHTTPPass ::
  "AbuseConfig option \<Rightarrow> string \<Rightarrow> string \<Rightarrow> string \<Rightarrow> string \<Rightarrow> time \<Rightarrow> GateServer \<Rightarrow> gate_reply option \<times> GateServer" where
  "checkHTTPPass abuse query header cls clientIP now s =
     (if \<not> httpGateFor abuse cls clientIP now s then (None, s)
      else let tok = (if query = [] then header else query) in
        case svGate s of
          None \<Rightarrow> (None, s)
        | Some g \<Rightarrow>
            (let (ok, g1) = UsePass clientIP tok False now g; s1 = s\<lparr>svGate := Some g1\<rparr>
             in if ok then (None, s1)
                else (Some too_many, s1\<lparr>svRejects := addReject rejectGateCause (svRejects s1)\<rparr>)))"

record gateRequest =
  grStep :: string
  grUI :: string
  grChallengeID :: string
  grNonce :: u64
  grTicket :: string

definition serverPub :: "GateServer \<Rightarrow> string" where
  "serverPub s = (case svServerID s of Some (pub, priv) \<Rightarrow> pub | None \<Rightarrow> [])"

text \<open>The offer signature: empty unless the private key decodes to 64 bytes.\<close>

definition offer_sig :: "(bytes \<Rightarrow> bytes \<Rightarrow> bytes) \<Rightarrow> Offer \<Rightarrow> GateServer \<Rightarrow> string" where
  "offer_sig sign f s =
     (case svServerID s of
        None \<Rightarrow> []
      | Some (pub, priv) \<Rightarrow>
          (case hex_decode priv of
             None \<Rightarrow> []
           | Some k \<Rightarrow> if length k = 64 then hex_encode (SignOffer sign k f) else []))"

definition gate_preset :: "AbuseConfig \<Rightarrow> int \<Rightarrow> Preset" where
  "gate_preset a tier =
     (if tier > 0 \<and> tier < int (length (acPowTiers a)) then preset_of (acPowTiers a ! nat tier)
      else \<lparr>psTime = 0, psMemory = 0, psThreads = 0, psDifficulty = 0\<rparr>)"

definition reply :: "int \<Rightarrow> gate_body \<Rightarrow> gate_reply" where
  "reply status body = \<lparr>rpStatus = status, rpRetryAfter = None, rpBody = body\<rparr>"

text \<open>The request is a POST from a trusted path with a decodable body: the earlier refusals are the first
  two cases, \<open>client = None\<close> for an untrusted proxy and \<open>req = None\<close> for a body that does not decode.\<close>

definition handleJoinGate ::
  "argon2id \<Rightarrow> (bytes \<Rightarrow> bytes \<Rightarrow> bytes) \<Rightarrow> gate_env \<Rightarrow> time \<Rightarrow> bool \<Rightarrow> string option \<Rightarrow> AbuseConfig option
     \<Rightarrow> gateRequest option \<Rightarrow> GateServer \<Rightarrow> GateStore \<Rightarrow> gate_reply \<times> GateStore" where
  "handleJoinGate argon sign ge until_now isPost client abuse req s g =
     (if \<not> isPost then (reply 405 (Plain ''method not allowed''), g)
      else case client of
          None \<Rightarrow> (reply 403 (Plain ''Untrusted proxy.''), g)
        | Some ip \<Rightarrow> (case abuse of
            None \<Rightarrow> (reply 503 (Plain ''gate unavailable''), g)
          | Some a \<Rightarrow> (case req of
              None \<Rightarrow> (reply 400 (Plain ''bad request''), g)
            | Some r \<Rightarrow>
                if grStep r = ''status'' then
                  (let (ok, g1) = AllowStatus ip (geClocks ge) g in
                   if \<not> ok then (reply 429 (ErrorBody ''slow down'' None), g1)
                   else (reply 200 (RequiredNow (gateRequired abuse (geNow ge) (s\<lparr>svGate := Some g1\<rparr>))), g1))
                else if grStep r = ''challenge'' then
                  (let tier = gateTier abuse s;
                       (preset, _) = Clamp (gate_preset a tier) (grUI r = ''web'');
                       (res, g1) = Request ge ip tier preset (acJoinWaitMin a) (acJoinWaitMax a) (acPowTTL a) (serverPub s) g
                   in case res of
                        Inl e \<Rightarrow> (reply 429 (ErrorBody ''challenge too soon, slow down'' None), g1)
                      | Inr c \<Rightarrow>
                          (let f = \<lparr>ofTier = tier, ofPreset = preset, ofSalt = gcSalt c,
                                    ofExpires = unix_seconds (gcExpires c), ofChallengeID = gcID c\<rparr>
                           in (reply 200 (ChallengeBody c (offer_sig sign f s) (serverPub s)), g1)))
                else if grStep r = ''submit'' then
                  (let ((pass, code), g1) = Submit argon ge ip (grChallengeID r) (grNonce r) (grTicket r) (acPassTTL a) g
                   in case code of
                        SubmitOK \<Rightarrow>
                          (reply 200 (PassBody (gpToken (the pass)) (unix_seconds (gpExpires (the pass)))), g1)
                      | SubmitEarly \<Rightarrow>
                          (let earliest = (case ChallengeEarliest (grChallengeID r) g1 of Some t \<Rightarrow> t | None \<Rightarrow> 0);
                               n = trunc (seconds (earliest - until_now)) + 1;
                               retry = (if n < 1 then 1 else n)
                           in (\<lparr>rpStatus = 429, rpRetryAfter = Some retry, rpBody = ErrorBody ''too early'' (Some retry)\<rparr>, g1))
                      | SubmitGone \<Rightarrow> (reply 410 (ErrorBody ''challenge expired or consumed'' None), g1)
                      | SubmitBad \<Rightarrow> (reply 400 (ErrorBody ''invalid solution'' None), g1))
                else (reply 400 (Plain ''unknown step''), g))))"

subsection \<open>The sampler tick\<close>

definition sampler_params :: "AbuseConfig \<Rightarrow> SampleParams" where
  "sampler_params a =
     \<lparr>spEnterSecs = go_quot (acAttackEnterSecs a) second, spEnterRPS = acAttackEnterRPS a,
      spTTL = acUnderAttackTTL a, spForce = acUnderAttackForce a,
      spScaleMode = EffectiveScaleMode (Some a), spScaleW = EffectiveScaleW (Some a)\<rparr>"

definition attackSampler :: "AbuseConfig option \<Rightarrow> time \<Rightarrow> GateServer \<Rightarrow> bool option \<times> GateServer" where
  "attackSampler abuse now s =
     (case (abuse, svAttack s) of
        (Some a, Some att) \<Rightarrow>
          (let (st, att1) = sample (overCap abuse (svClients s) (svInflight s)) now (sampler_params a) att
           in (Some (ssUnder st), s\<lparr>svAttack := Some att1, svGate := map_option (Sweep now) (svGate s)\<rparr>))
      | _ \<Rightarrow> (None, s))"

subsection \<open>Tickets bind the client\<close>

lemma ticket_binds_client:
  "ticket k ip i e = ticket k ip' i e \<Longrightarrow> ip = ip' \<or> hmac_collides k (ticket_message ip i e) (ticket_message ip' i e)"
  using hmac_binds [of k "ticket_message ip i e" "ticket_message ip' i e"]
  by (auto simp: ticket_def hex_encode_inj ticket_message_def)

subsection \<open>Runs of the gate\<close>

text \<open>The history variables: challenges issued with the address they were issued to, and leases granted with
  the submission that earned them.\<close>

record submission =
  sbEnv :: gate_env
  sbIP :: string
  sbID :: string
  sbNonce :: u64
  sbTicket :: string

record gate_run =
  ruStore :: GateStore
  ruIssued :: "(string \<times> GateChallenge) list"
  ruGranted :: "submission list"

datatype gate_event =
    GRequest gate_env string int Preset duration duration duration string
  | GSubmit submission duration
  | GUse string string bool time
  | GSweep time

fun gate_step :: "argon2id \<Rightarrow> gate_event \<Rightarrow> gate_run \<Rightarrow> gate_run" where
  "gate_step argon (GRequest ge ip tier preset wmin wmax ttl pub) r =
     (let (res, g) = Request ge ip tier preset wmin wmax ttl pub (ruStore r) in
      r\<lparr>ruStore := g, ruIssued := ruIssued r @ (case res of Inl _ \<Rightarrow> [] | Inr c \<Rightarrow> [(ip, c)])\<rparr>)"
| "gate_step argon (GSubmit sb ttl) r =
     (let ((p, code), g) = Submit argon (sbEnv sb) (sbIP sb) (sbID sb) (sbNonce sb) (sbTicket sb) ttl (ruStore r) in
      r\<lparr>ruStore := g, ruGranted := ruGranted r @ (if code = SubmitOK then [sb] else [])\<rparr>)"
| "gate_step argon (GUse ip tok single now) r = r\<lparr>ruStore := snd (UsePass ip tok single now (ruStore r))\<rparr>"
| "gate_step argon (GSweep now) r = r\<lparr>ruStore := Sweep now (ruStore r)\<rparr>"

text \<open>A request draws an identifier no earlier challenge had.\<close>

fun fresh_id :: "gate_run \<Rightarrow> gate_event \<Rightarrow> bool" where
  "fresh_id r (GRequest ge ip tier preset wmin wmax ttl pub) =
     (case randHex (geRandID ge) of None \<Rightarrow> True | Some i \<Rightarrow> i \<notin> set (map (gcID \<circ> snd) (ruIssued r)))"
| "fresh_id r e = True"

definition new_run :: "GateStore \<Rightarrow> gate_run" where
  "new_run g = \<lparr>ruStore = g, ruIssued = [], ruGranted = []\<rparr>"

definition earned :: "argon2id \<Rightarrow> bytes \<Rightarrow> string \<Rightarrow> GateChallenge \<Rightarrow> submission \<Rightarrow> bool" where
  "earned argon key ip c sb \<longleftrightarrow> gcID c = sbID sb \<and> geNow (sbEnv sb) \<le> gcExpires c \<and> gcEarliest c \<le> geNow2 (sbEnv sb) \<and>
     Verify argon (gcPreset c) (gcSalt c) (sbNonce sb) \<and>
     sbTicket sb = ticket key (sbIP sb) (sbID sb) (gcEarliest c) \<and> gcTicket c = ticket key ip (gcID c) (gcEarliest c) \<and>
     (sbTicket sb = gcTicket c \<longrightarrow> sbIP sb = ip \<or>
        hmac_collides key (ticket_message (sbIP sb) (sbID sb) (gcEarliest c)) (ticket_message ip (sbID sb) (gcEarliest c)))"

text \<open>An outstanding challenge was issued and has earned nothing yet.\<close>

definition open_ok :: "gate_run \<Rightarrow> string \<times> GateChallenge \<Rightarrow> bool" where
  "open_ok r x \<longleftrightarrow> gcID (snd x) = fst x \<and> fst x \<notin> sbID ` set (ruGranted r) \<and> snd x \<in> snd ` set (ruIssued r)"

definition gate_inv :: "argon2id \<Rightarrow> bytes \<Rightarrow> gate_run \<Rightarrow> bool" where
  "gate_inv argon key r \<longleftrightarrow> gsKey (ruStore r) = key \<and> (\<forall>x\<in>set (gsChallenges (ruStore r)). open_ok r x) \<and>
     (\<forall>x\<in>set (ruIssued r). gcTicket (snd x) = ticket key (fst x) (gcID (snd x)) (gcEarliest (snd x))) \<and>
     distinct (map sbID (ruGranted r)) \<and>
     (\<forall>sb\<in>set (ruGranted r). \<exists>x\<in>set (ruIssued r). earned argon key (fst x) (snd x) sb) \<and>
     (\<forall>x\<in>set (gsPasses (ruStore r)). gpIP (snd x) \<in> sbIP ` set (ruGranted r))"

lemma set_delete_key: "set (AList.delete k xs) = {x \<in> set xs. fst x \<noteq> k}"
  by (auto simp: AList.delete_eq)

text \<open>Dropping challenges keeps the invariant.\<close>

lemma shrink_inv:
  "gate_inv argon key r \<Longrightarrow> set (gsChallenges g) \<subseteq> set (gsChallenges (ruStore r)) \<Longrightarrow> gsKey g = gsKey (ruStore r) \<Longrightarrow>
     set (gsPasses g) \<subseteq> set (gsPasses (ruStore r)) \<Longrightarrow>
     gate_inv argon key (r\<lparr>ruStore := g\<rparr>)"
  by (auto simp: gate_inv_def open_ok_def)

lemma Request_cases:
  assumes "Request ge ip tier preset wmin wmax ttl pub g = (res, g')"
  shows "gsKey g' = gsKey g \<and> gsPasses g' = gsPasses g \<and>
    (case res of
       Inl _ \<Rightarrow> gsChallenges g' = gsChallenges g
     | Inr c \<Rightarrow> randHex (geRandID ge) = Some (gcID c) \<and> gsChallenges g' = AList.update (gcID c) c (gsChallenges g) \<and>
         gcTicket c = ticket (gsKey g) ip (gcID c) (gcEarliest c))"
  using assms by (auto simp: Request_def Let_def split: prod.splits if_splits option.splits)

lemma Submit_cases:
  assumes "Submit argon ge ip i nonce tick ttl g = ((p, code), g')"
  shows "gsKey g' = gsKey g \<and> (code \<noteq> SubmitOK \<longrightarrow> gsPasses g' = gsPasses g) \<and>
    (\<forall>x\<in>set (gsPasses g'). x \<in> set (gsPasses g) \<or> gpIP (snd x) = ip) \<and>
    (gsChallenges g' = gsChallenges g \<or> gsChallenges g' = AList.delete i (gsChallenges g)) \<and>
    (code = SubmitOK \<longrightarrow> gsChallenges g' = AList.delete i (gsChallenges g) \<and>
       (\<exists>c. map_of (gsChallenges g) i = Some c \<and> geNow ge \<le> gcExpires c \<and> gcEarliest c \<le> geNow2 ge \<and>
          tick = ticket (gsKey g) ip i (gcEarliest c) \<and> Verify argon (gcPreset c) (gcSalt c) nonce))"
  using assms set_update_subset
  by (fastforce simp: Submit_def drop_challenge_def Let_def split: option.splits if_splits)

lemma request_inv:
  assumes inv: "gate_inv argon key r" and fresh: "fresh_id r (GRequest ge ip tier preset wmin wmax ttl pub)"
  shows "gate_inv argon key (gate_step argon (GRequest ge ip tier preset wmin wmax ttl pub) r)"
proof -
  obtain res g where q: "Request ge ip tier preset wmin wmax ttl pub (ruStore r) = (res, g)" by fastforce
  note c = Request_cases [OF q]
  show ?thesis
  proof (cases res)
    case (Inl e)
    then show ?thesis using q c shrink_inv [OF inv, of g] by simp
  next
    case (Inr ch)
    then have i: "randHex (geRandID ge) = Some (gcID ch)" "gsChallenges g = AList.update (gcID ch) ch (gsChallenges (ruStore r))"
      "gcTicket ch = ticket key ip (gcID ch) (gcEarliest ch)" "gsKey g = key" "gsPasses g = gsPasses (ruStore r)"
      using c inv by (auto simp: gate_inv_def)
    have new: "gcID ch \<notin> gcID ` snd ` set (ruIssued r)" using fresh i(1) by (simp add: image_image)
    have unearned: "gcID ch \<notin> sbID ` set (ruGranted r)"
    proof
      assume "gcID ch \<in> sbID ` set (ruGranted r)"
      then obtain sb x where "sbID sb = gcID ch" "x \<in> set (ruIssued r)" "earned argon key (fst x) (snd x) sb"
        using inv by (auto simp: gate_inv_def)
      then have "gcID (snd x) = gcID ch" by (simp add: earned_def)
      then show False using new \<open>x \<in> set (ruIssued r)\<close> by (metis imageI)
    qed
    let ?r = "r\<lparr>ruStore := g, ruIssued := ruIssued r @ [(ip, ch)]\<rparr>"
    have "open_ok ?r x" if "x \<in> set (gsChallenges g)" for x
    proof -
      have "x \<in> insert (gcID ch, ch) (set (gsChallenges (ruStore r)))" using that set_update_subset i(2) by (metis subsetD)
      then have "x = (gcID ch, ch) \<or> open_ok r x" using inv by (auto simp: gate_inv_def)
      then show ?thesis using unearned by (auto simp: open_ok_def)
    qed
    then have "gate_inv argon key ?r" using inv i by (auto simp: gate_inv_def)
    then show ?thesis using q Inr by simp
  qed
qed

lemma submit_inv:
  assumes inv: "gate_inv argon key r"
  shows "gate_inv argon key (gate_step argon (GSubmit sb ttl) r)"
proof -
  obtain p code g where q: "Submit argon (sbEnv sb) (sbIP sb) (sbID sb) (sbNonce sb) (sbTicket sb) ttl (ruStore r) = ((p, code), g)"
    by (metis surj_pair)
  note c = Submit_cases [OF q]
  have sub: "set (gsChallenges g) \<subseteq> set (gsChallenges (ruStore r))" using c by (auto simp: set_delete_key)
  show ?thesis
  proof (cases "code = SubmitOK")
    case False
    then show ?thesis using q shrink_inv [OF inv sub] c by simp
  next
    case True
    then obtain ch where ch: "map_of (gsChallenges (ruStore r)) (sbID sb) = Some ch" "geNow (sbEnv sb) \<le> gcExpires ch"
      "gcEarliest ch \<le> geNow2 (sbEnv sb)" "sbTicket sb = ticket key (sbIP sb) (sbID sb) (gcEarliest ch)"
      "Verify argon (gcPreset ch) (gcSalt ch) (sbNonce sb)"
      using c inv by (auto simp: gate_inv_def)
    have "open_ok r (sbID sb, ch)" using inv map_of_SomeD [OF ch(1)] by (auto simp: gate_inv_def)
    then obtain ip where ip: "(ip, ch) \<in> set (ruIssued r)" and i: "gcID ch = sbID sb" "sbID sb \<notin> sbID ` set (ruGranted r)"
      by (auto simp: open_ok_def)
    have "gcTicket ch = ticket key ip (sbID sb) (gcEarliest ch)" using inv ip i by (auto simp: gate_inv_def)
    then have e: "earned argon key ip ch sb"
      using ch i ticket_binds_client [of key "sbIP sb" "sbID sb" "gcEarliest ch" ip] by (auto simp: earned_def)
    let ?r = "r\<lparr>ruStore := g, ruGranted := ruGranted r @ [sb]\<rparr>"
    have "open_ok ?r x" if "x \<in> set (gsChallenges g)" for x
      using that c True inv by (auto simp: gate_inv_def open_ok_def set_delete_key)
    moreover have "gpIP (snd x) \<in> sbIP ` set (ruGranted r @ [sb])" if "x \<in> set (gsPasses g)" for x
      using that c inv by (auto simp: gate_inv_def)
    moreover have "gsKey g = key" using c inv by (simp add: gate_inv_def)
    ultimately have "gate_inv argon key ?r" using inv i e ip by (fastforce simp: gate_inv_def)
    then show ?thesis using q True by simp
  qed
qed

lemma sweep_inv: "gate_inv argon key r \<Longrightarrow> gate_inv argon key (gate_step argon (GSweep now) r)"
  by (auto intro!: shrink_inv simp: Sweep_def)

lemma UsePass_passes: "set (gsPasses (snd (UsePass ip tok single now g))) \<subseteq> set (gsPasses g)"
  by (auto simp: UsePass_def set_delete_key split: option.split)

lemma UsePass_frame [frame]:
  "gsChallenges (snd (UsePass ip tok single now g)) = gsChallenges g" "gsKey (snd (UsePass ip tok single now g)) = gsKey g"
  by (simp_all add: UsePass_def split: option.split)

interpretation gate: machine "gate_step argon" fresh_id "gate_inv argon key" for argon key
proof unfold_locales
  fix r e assume "gate_inv argon key r" "fresh_id r e"
  then show "gate_inv argon key (gate_step argon e r)"
  proof (cases e)
    case (GUse ip tok single now)
    then show ?thesis using \<open>gate_inv argon key r\<close> by (auto intro!: shrink_inv simp: frame dest: subsetD [OF UsePass_passes])
  qed (use request_inv submit_inv sweep_inv in auto)
qed

text \<open>All identifiers of a run are fresh.\<close>

fun fresh_ids :: "argon2id \<Rightarrow> gate_run \<Rightarrow> gate_event list \<Rightarrow> bool" where
  "fresh_ids argon r [] = True"
| "fresh_ids argon r (e # es) = (fresh_id r e \<and> fresh_ids argon (gate_step argon e r) es)"

lemma fresh_ids_admissible: "fresh_ids argon r es = gate.admissible argon r es"
  by (induction es arbitrary: r) simp_all

lemma run_gate_inv:
  assumes "fresh_ids argon (new_run (NewGateStore rnd t)) es"
  shows "gate_inv argon (gsKey (NewGateStore rnd t)) (fold (gate_step argon) es (new_run (NewGateStore rnd t)))"
proof (rule gate.run_inv)
  show "gate_inv argon (gsKey (NewGateStore rnd t)) (new_run (NewGateStore rnd t))"
    by (simp add: gate_inv_def new_run_def NewGateStore_def)
qed (use assms fresh_ids_admissible in simp)

subsection \<open>Bounded random waits\<close>

lemma go_rem_range: "0 \<le> a \<Longrightarrow> 0 < n \<Longrightarrow> 0 \<le> go_rem a n \<and> go_rem a n < n"
  by (simp add: go_rem_def)

lemma sint_minus: "sint v \<noteq> - (2 ^ 63) \<Longrightarrow> sint (- v) = - sint v" for v :: u64
proof -
  assume v: "sint v \<noteq> - (2 ^ 63)"
  have r: "- (2 ^ 63) \<le> sint v" "sint v < 2 ^ 63" using sint_ge [of v] sint_lt [of v] by simp_all
  have "- v = word_of_int (- sint v)" by (metis of_int_minus of_int_sint scast_id)
  then have "sint (- v) = sint (word_of_int (- sint v) :: u64)" by (rule arg_cong)
  also have "\<dots> = signed_take_bit 63 (- sint v)" by (subst sint_sbintrunc') simp
  also have "\<dots> = - sint v" using r v by (intro signed_take_bit_int_eq_self) simp_all
  finally show ?thesis .
qed

lemma sint_least: "sint v = - (2 ^ 63) \<Longrightarrow> v = 2 ^ 63" for v :: u64
proof -
  assume "sint v = - (2 ^ 63)"
  then have "v = of_int (- (2 ^ 63))" by (metis of_int_sint scast_id)
  then show ?thesis by simp
qed

lemma sint_neg: "sint v < 0 \<Longrightarrow> v \<noteq> 2 ^ 63 \<Longrightarrow> 0 \<le> sint (- v)" for v :: u64
  using sint_minus [of v] sint_least [of v] by linarith

lemma randInt63n_in_range:
  assumes "0 < n" "be_word b \<noteq> 2 ^ 63"
  shows "0 \<le> randInt63n (Some b) n \<and> randInt63n (Some b) n < n"
proof -
  let ?v = "if sint (be_word b) < 0 then - be_word b else be_word b"
  have "0 \<le> sint ?v" using sint_neg [OF _ assms(2)] by auto
  from go_rem_range [OF this assms(1)] show ?thesis using assms(1) by (simp only: randInt63n_def Let_def option.case) simp
qed

lemma least_draw: "randInt63n (Some [CHR 0x80, NUL, NUL, NUL, NUL, NUL, NUL, NUL]) 3 = - 2"
proof -
  have "be_value [CHR 0x80, NUL, NUL, NUL, NUL, NUL, NUL, NUL] = 9223372036854775808" by (simp add: nat_of_def)
  then have "be_word [CHR 0x80, NUL, NUL, NUL, NUL, NUL, NUL, NUL] = 9223372036854775808" by (simp only: be_word_def) simp
  then show ?thesis by (simp add: randInt63n_def go_rem_def)
qed

subsection \<open>Properties\<close>

text \<open>C23. Every lease is earned: over any interleaving of requests, submissions, pass uses and sweeps in which
  challenge identifiers do not repeat, no challenge yields two leases, and behind each granted lease stands an
  issued challenge that was submitted after its earliest time, before its expiry, with a nonce that passes the
  work check and with the ticket of that challenge for the submitter's own address under the server's key; if that is the ticket the
  challenge was issued with, it was issued to that address, or two HMAC inputs collide. Every pass in the store belongs to the
  address of a granted submission.\<close>

theorem every_lease_is_earned:
  assumes "fresh_ids argon (new_run (NewGateStore rnd t)) es"
    and "r = fold (gate_step argon) es (new_run (NewGateStore rnd t))"
  shows "distinct (map sbID (ruGranted r)) \<and>
    (\<forall>sb\<in>set (ruGranted r). \<exists>x\<in>set (ruIssued r). earned argon (gsKey (NewGateStore rnd t)) (fst x) (snd x) sb) \<and>
    (\<forall>x\<in>set (gsPasses (ruStore r)). gpIP (snd x) \<in> sbIP ` set (ruGranted r))"
  using run_gate_inv [OF assms(1)] unfolding assms(2) [symmetric] gate_inv_def by blast

definition ex_ge :: "time \<Rightarrow> gate_env" where
  "ex_ge t = \<lparr>geClocks = \<lparr>ckNow = t, ckSince = t, ckEvict = t\<rparr>, geNow = t, geNow2 = t, geNow3 = t,
     geRandID = Some ''i'', geRandWait = None\<rparr>"

definition ex_gate_events :: "gate_event list" where
  "ex_gate_events = [GRequest (ex_ge 10) ''ip'' 0 ex_preset 1 1 100 ''pub'',
     GSubmit \<lparr>sbEnv = ex_ge 20, sbIP = ''ip'', sbID = hex_encode ''i'', sbNonce = 0,
       sbTicket = ticket ''key'' ''ip'' (hex_encode ''i'') 11\<rparr> 1000]"

lemma ex_gate_granted:
  "length (ruGranted (fold (gate_step ex_argon) ex_gate_events (new_run (NewGateStore (Some ''key'') 0)))) = 1"
  by (simp add: ex_gate_events_def new_run_def NewGateStore_def Request_def Submit_def cooldown_allow_def NewCooldownMap_def
      ex_ge_def randHex_def Let_def Verify_def ex_preset_def randInt63n_def)

theorem every_lease_is_earned_witness:
  "\<exists>r :: gate_run. length (ruGranted r) = 1 \<and> distinct (map sbID (ruGranted r)) \<and>
     (\<forall>sb\<in>set (ruGranted r). \<exists>x\<in>set (ruIssued r). earned ex_argon ''key'' (fst x) (snd x) sb)"
proof -
  have "fresh_ids ex_argon (new_run (NewGateStore (Some ''key'') 0)) ex_gate_events"
    by (simp add: ex_gate_events_def new_run_def randHex_def ex_ge_def)
  note earned = every_lease_is_earned [OF this refl]
  have "gsKey (NewGateStore (Some ''key'') 0) = ''key''" by (simp add: NewGateStore_def)
  note this [simp]
  show ?thesis by (rule exI [of _ "fold (gate_step ex_argon) ex_gate_events (new_run (NewGateStore (Some ''key'') 0))"])
      (use earned ex_gate_granted in simp)
qed

text \<open>Random waits are in range except for one draw: for eight random bytes other than 0x80 followed by
  zeros the result lies in \<open>[0, n)\<close>; that one draw is the least \<open>int64\<close>, whose negation overflows, and the
  result is negative.\<close>

theorem randInt63n_range_but_one:
  assumes "0 < n" "be_word b \<noteq> 2 ^ 63"
  shows "0 \<le> randInt63n (Some b) n \<and> randInt63n (Some b) n < n \<and>
    randInt63n (Some [CHR 0x80, NUL, NUL, NUL, NUL, NUL, NUL, NUL]) 3 = - 2"
  using randInt63n_in_range [OF assms] least_draw by simp

theorem randInt63n_range_but_one_witness:
  "randInt63n (Some ''12345678'') 10 < 10 \<and> 0 \<le> randInt63n (Some ''12345678'') 10"
proof -
  have "be_value ''12345678'' = 3544952156018063160" by (simp add: nat_of_def)
  then have "be_word ''12345678'' \<noteq> 2 ^ 63" by (simp only: be_word_def) simp
  from randInt63n_range_but_one [OF _ this, of 10] show ?thesis by simp
qed

end
