(* ===== verification/Admission.thy ===== *)
theory Admission
  imports Gate
begin

text \<open>
  The admission components together: what an accepted policy guarantees to the gate, the detector and the
  scorer that run on it, and where its checks leave a gap.
\<close>

lemma envelope_unclamped: "in_envelope False p \<Longrightarrow> Clamp p False = (p, False)"
  by (auto simp: in_envelope_def Clamp_def clamp_set_def Let_def preset_bounds)

lemma policy_tier_preset:
  assumes "policy_in_range (floats_of cfg)" "0 < tier" "tier < acPowTierCount cfg"
  shows "gate_preset cfg tier = preset_of (acPowTiers cfg ! nat tier) \<and> in_envelope False (gate_preset cfg tier)"
proof -
  note range = finite_policy_in_range [OF assms(1)]
  have "nat tier - 1 < length (tl (acPowTiers cfg))" using assms(2,3) range(4) by simp
  then have "in_envelope False (preset_of (tl (acPowTiers cfg) ! (nat tier - 1)))"
    using range(5) unfolding list_all_length by blast
  moreover have "tl (acPowTiers cfg) ! (nat tier - 1) = acPowTiers cfg ! nat tier"
    using assms(2,3) range(4) by (simp add: nth_tl)
  ultimately show ?thesis using assms(2,3) range(4) by (simp add: gate_preset_def)
qed

lemma gateTier_range:
  assumes "policy_in_range (floats_of cfg)"
  shows "0 \<le> gateTier (Some cfg) s \<and> gateTier (Some cfg) s < acPowTierCount cfg"
  using finite_policy_in_range(2,3) [OF assms] ApplyBump_range [of "acPowTierCount cfg - 1" "acPowGateTier cfg"]
  by (auto simp: gateTier_def Let_def split: option.split)

subsection \<open>Properties\<close>

text \<open>A loaded policy whose numbers are finite keeps its promises: the gate tier is a configured tier; the work demanded at a tier
  is exactly the configured preset (the native clamp changes nothing); soft degradation starts no later than the
  hard cap refuses; and with scoring on, every score of every address lies in the unit interval and every tier
  below the tier count, whatever the state of the engine.\<close>

theorem loaded_policy_keeps_promises:
  assumes "LoadAbuseConfig ps env = Inr (floats_of cfg)"
  shows "0 \<le> gateTier (Some cfg) s \<and> gateTier (Some cfg) s < acPowTierCount cfg \<and>
    (0 < gateTier (Some cfg) s \<longrightarrow>
       Clamp (gate_preset cfg (gateTier (Some cfg) s)) False = (preset_of (acPowTiers cfg ! nat (gateTier (Some cfg) s)), False)) \<and>
    (overCap (Some cfg) n i \<longrightarrow> degraded attack now (Some cfg) n i) \<and>
    (acBehavior cfg = Some bc \<longrightarrow> Score net geo hourOf order ip bc now e = ((tier, score), e') \<longrightarrow>
       0 \<le> score \<and> score \<le> 1 \<and> 0 \<le> tier \<and> tier < acPowTierCount cfg)"
proof -
  have pol: "policy_in_range (floats_of cfg)" using assms by (rule accepted_policy_in_range_aux)
  note range = gateTier_range [OF pol, of s] and fin = finite_policy_in_range [OF pol]
  have clamp: "Clamp (gate_preset cfg t) False = (preset_of (acPowTiers cfg ! nat t), False)"
    if "0 < t" "t < acPowTierCount cfg" for t
    using policy_tier_preset [OF pol that] envelope_unclamped by metis
  have soft: "overCap (Some cfg) n i \<Longrightarrow> degraded attack now (Some cfg) n i"
    using fin(6) by (rule full_is_degraded [rotated])
  have "0 \<le> score \<and> score \<le> 1 \<and> 0 \<le> tier \<and> tier < acPowTierCount cfg"
    if "acBehavior cfg = Some bc" "Score net geo hourOf order ip bc now e = ((tier, score), e')"
  proof -
    have "int (length (bcTierEnter bc)) = acPowTierCount cfg" "0 \<le> bcCurveGamma bc"
      using fin(7,8) [OF that(1)] by simp_all
    moreover from this have "bcTierEnter bc \<noteq> []" using range by auto
    ultimately show ?thesis using Score_bounds [OF _ _ that(2)] by simp
  qed
  then show ?thesis using range clamp soft by blast
qed

definition ex_server :: GateServer where
  "ex_server = \<lparr>svGate = None, svAttack = Some NewAttackState, svBehavior = None,
     svRejects = \<lparr>rsCooldown = 0, rsPerIP = 0, rsGate = 0, rsFull = 0, rsDrops = 0\<rparr>,
     svClients = 0, svInflight = 0, svServerID = None\<rparr>"

text \<open>The example environment with scoring switched off, and with windows of half a second.\<close>

definition ex_plain :: "duration \<Rightarrow> string + go_float abuse_config" where
  "ex_plain d = LoadAbuseConfig (ex_parsers\<lparr>pDuration := (\<lambda>s. Inr d)\<rparr>) (ex_env(''BEHAVIOR_ENABLED'' \<mapsto> ''false''))"

lemma ex_plain_facts:
  "\<not> isl (ex_plain 500000000) \<and> Option.is_none (acBehavior (projr (ex_plain 500000000))) \<and>
   acSoftCapRatio (projr (ex_plain 500000000)) = Fin (1/2) \<and> acAttackEnterSecs (projr (ex_plain 500000000)) = 500000000 \<and>
   acUnderAttackForce (projr (ex_plain 500000000)) = ''auto'' \<and> acUnderAttackTTL (projr (ex_plain 500000000)) = 500000000"
  by code_simp

lemma ex_plain_accepted:
  "\<exists>cfg. ex_plain 500000000 = Inr (floats_of cfg) \<and> acAttackEnterSecs cfg = 500000000 \<and>
     acUnderAttackForce cfg = ''auto'' \<and> acUnderAttackTTL cfg = 500000000"
proof -
  obtain g where g: "ex_plain 500000000 = Inr g" using ex_plain_facts by (cases "ex_plain 500000000") auto
  then obtain cfg where "g = floats_of cfg"
    using ex_plain_facts scoreless_policy_is_finite [of g "1/2"] by (auto simp: Option.is_none_def)
  then show ?thesis using g ex_plain_facts by (auto simp: floats_of_def)
qed

theorem loaded_policy_keeps_promises_witness:
  "\<exists>cfg. ex_plain 500000000 = Inr (floats_of cfg) \<and> 0 \<le> gateTier (Some cfg) ex_server \<and>
     gateTier (Some cfg) ex_server < acPowTierCount cfg"
proof -
  obtain cfg where c: "ex_plain 500000000 = Inr (floats_of cfg)" using ex_plain_accepted by blast
  from loaded_policy_keeps_promises [OF this [unfolded ex_plain_def], where s = ex_server] c show ?thesis by blast
qed

text \<open>The enter-window check leaves a gap: a policy with a window below one second is accepted as
  positive, but the sampler divides it by a second, and the very first tick of an idle server reports under
  attack.\<close>

theorem subsecond_window_alarms_at_once:
  assumes "0 < acAttackEnterSecs a" "acAttackEnterSecs a < second" "acUnderAttackForce a = ''auto''" "0 < acUnderAttackTTL a"
    and "svAttack s = Some NewAttackState"
  shows "fst (attackSampler (Some a) now s) = Some True"
proof -
  have "spEnterSecs (sampler_params a) = 0" using assms(1,2) by (simp add: sampler_params_def go_quot_def)
  then show ?thesis using assms
    by (simp add: attackSampler_def sample_def sample_flag_def NewAttackState_def sampler_params_def Let_def)
qed

theorem subsecond_window_alarms_at_once_witness:
  "\<exists>cfg. ex_plain 500000000 = Inr (floats_of cfg) \<and> fst (attackSampler (Some cfg) 0 ex_server) = Some True"
proof -
  obtain cfg where c: "ex_plain 500000000 = Inr (floats_of cfg)" "acAttackEnterSecs cfg = 500000000"
    "acUnderAttackForce cfg = ''auto''" "acUnderAttackTTL cfg = 500000000" using ex_plain_accepted by blast
  from subsecond_window_alarms_at_once [of cfg ex_server 0] c show ?thesis by (auto simp: second_def ex_server_def)
qed

end
