(* ===== verification/Votes.thy ===== *)
theory Votes
  imports Chain_Service Tags Utf8 "HOL-Library.AList"
begin

text \<open>
  Votes: \<open>applyVote\<close>, \<open>voteDedupKey\<close>, \<open>BroadcastVote\<close> and \<open>rebuildVoteScores\<close> of \<^verbatim>\<open>src/server/history.go\<close>
  with the types of \<^verbatim>\<open>src/server/shared.go\<close>. The duplicate memory is an association list (its length
  decides the purge), the totals are a map. The clock reading is an argument; \<open>hhmm\<close> is
  \<open>Time.Format("15:04")\<close> in the server's zone.

  The specification is a register per address and height that holds at most one direction; the
  totals are counts over it. The code never stores the register's owner with the totals: it keeps
  counters and a memory of keys that expires. The refinement shows that within one lifetime of that
  memory the counters are the counts.
\<close>

subsection \<open>State and operations\<close>

record VoteScore =
  vsUpvotes :: int
  vsDownvotes :: int

record voteDedupEntry =
  vdDirection :: int
  vdAt :: time

definition voteDedupTTL :: duration where "voteDedupTTL = 24 * hour"

record VoteBook =
  vbScores :: "u64 \<rightharpoonup> VoteScore"
  vbDedup :: "(string \<times> voteDedupEntry) list"

definition voteDedupKey :: "string \<Rightarrow> u64 \<Rightarrow> string" where
  "voteDedupKey ip target = ip @ ''|'' @ dec (unat target)"

definition int8 :: "int \<Rightarrow> int" where
  "int8 d = sint (word_of_int d :: 8 word)"

definition vote_dec :: "int \<Rightarrow> int" where
  "vote_dec v = (if v > 0 then v - 1 else v)"

definition purge_dedup :: "time \<Rightarrow> (string \<times> voteDedupEntry) list \<Rightarrow> (string \<times> voteDedupEntry) list" where
  "purge_dedup now d =
     (if length d > 10000 then filter (\<lambda>(k, v). \<not> now - vdAt v > voteDedupTTL) d else d)"

definition score_of :: "VoteBook \<Rightarrow> u64 \<Rightarrow> VoteScore" where
  "score_of b target = (case vbScores b target of Some t \<Rightarrow> t | None \<Rightarrow> \<lparr>vsUpvotes = 0, vsDownvotes = 0\<rparr>)"

record vote_result =
  vrUpvotes :: int
  vrDownvotes :: int
  vrDup :: bool
  vrChanged :: bool

text \<open>The switch of a vote that replaces another one, first match wins.\<close>

definition move_vote :: "int \<Rightarrow> int \<Rightarrow> VoteScore \<Rightarrow> VoteScore" where
  "move_vote direction prev t =
     (if direction = DirWithdraw \<and> prev = DirUpvote then t\<lparr>vsUpvotes := vote_dec (vsUpvotes t)\<rparr>
      else if direction = DirWithdraw \<and> prev = DirDownvote then t\<lparr>vsDownvotes := vote_dec (vsDownvotes t)\<rparr>
      else if direction = DirUpvote \<and> prev = DirDownvote
        then t\<lparr>vsDownvotes := vote_dec (vsDownvotes t), vsUpvotes := vsUpvotes t + 1\<rparr>
      else if direction = DirDownvote \<and> prev = DirUpvote
        then t\<lparr>vsUpvotes := vote_dec (vsUpvotes t), vsDownvotes := vsDownvotes t + 1\<rparr>
      else if direction = DirUpvote then t\<lparr>vsUpvotes := vsUpvotes t + 1\<rparr>
      else if direction = DirDownvote then t\<lparr>vsDownvotes := vsDownvotes t + 1\<rparr>
      else t)"

definition vote_reply :: "VoteScore \<Rightarrow> bool \<Rightarrow> bool \<Rightarrow> vote_result" where
  "vote_reply t dup changed = \<lparr>vrUpvotes = vsUpvotes t, vrDownvotes = vsDownvotes t, vrDup = dup, vrChanged = changed\<rparr>"

text \<open>The vote held under a key, unless it has expired.\<close>

definition held_entry :: "time \<Rightarrow> string \<Rightarrow> (string \<times> voteDedupEntry) list \<Rightarrow> voteDedupEntry option" where
  "held_entry now key d =
     (case map_of d key of
        None \<Rightarrow> None
      | Some e \<Rightarrow> if now - vdAt e > voteDedupTTL then None else Some e)"

definition applyVote :: "time \<Rightarrow> string \<Rightarrow> u64 \<Rightarrow> int \<Rightarrow> VoteBook \<Rightarrow> vote_result \<times> VoteBook" where
  "applyVote now ip target direction b0 =
     (let b = b0\<lparr>vbDedup := purge_dedup now (vbDedup b0)\<rparr>;
          key = voteDedupKey ip target;
          tot = score_of b target;
          put = (\<lambda>t e. b\<lparr>vbScores := (vbScores b)(target \<mapsto> t),
                         vbDedup := AList.update key \<lparr>vdDirection = e, vdAt = now\<rparr> (vbDedup b)\<rparr>);
          touch = b\<lparr>vbScores := (vbScores b)(target \<mapsto> tot)\<rparr>
      in case held_entry now key (vbDedup b) of
           Some prev \<Rightarrow>
             if vdDirection prev = int8 direction then
               (if direction = DirWithdraw then (vote_reply tot True False, touch)
                else let t = (if direction = DirUpvote then tot\<lparr>vsUpvotes := vote_dec (vsUpvotes tot)\<rparr>
                              else tot\<lparr>vsDownvotes := vote_dec (vsDownvotes tot)\<rparr>)
                     in (vote_reply t False True, put t DirWithdraw))
             else let t = move_vote direction (vdDirection prev) tot
                  in (vote_reply t False True, put t (int8 direction))
         | None \<Rightarrow>
             if direction = DirUpvote then
               (let t = tot\<lparr>vsUpvotes := vsUpvotes tot + 1\<rparr> in (vote_reply t False True, put t (int8 direction)))
             else if direction = DirDownvote then
               (let t = tot\<lparr>vsDownvotes := vsDownvotes tot + 1\<rparr> in (vote_reply t False True, put t (int8 direction)))
             else (vote_reply tot False False, touch))"

text \<open>\<open>fmt.Sprintf\<close> of the fallback text; the arrows are the runes 25B2 and 25BC.\<close>

definition plus_int :: "int \<Rightarrow> string" where
  "plus_int i = (if i \<ge> 0 then CHR ''+'' # dec_int i else dec_int i)"

definition vote_text :: "u64 \<Rightarrow> int \<Rightarrow> int \<Rightarrow> string" where
  "vote_text target up down =
     ''#'' @ dec (unat target) @ '' '' @ encode_runes [0x25B2] @ dec_int up @ '' upvotes '' @
     encode_runes [0x25BC] @ dec_int down @ '' downvotes ('' @ plus_int (up - down) @ '')''"

definition noticeWire :: "(time \<Rightarrow> string) \<Rightarrow> time \<Rightarrow> string \<Rightarrow> string list \<Rightarrow> WireMessage" where
  "noticeWire hhmm now txt leaves =
     zero_wire\<lparr>wType := ''system'', wTime := hhmm now, wTags := WithTags leaves, wText := txt\<rparr>"

definition powNoticeWire :: "(time \<Rightarrow> string) \<Rightarrow> time \<Rightarrow> string \<Rightarrow> int \<Rightarrow> string list \<Rightarrow> WireMessage" where
  "powNoticeWire hhmm now txt tier leaves = (noticeWire hhmm now txt leaves)\<lparr>wSysPowTier := tier\<rparr>"

definition vote_wire :: "(time \<Rightarrow> string) \<Rightarrow> time \<Rightarrow> u64 \<Rightarrow> int \<Rightarrow> int \<Rightarrow> WireMessage" where
  "vote_wire hhmm now target up down =
     (noticeWire hhmm now (vote_text target up down) [TagVote])
       \<lparr>wVoteTarget := target, wVoteUpvotes := up, wVoteDownvotes := down\<rparr>"

definition BroadcastVote ::
  "marshaller \<Rightarrow> int \<Rightarrow> (time \<Rightarrow> string) \<Rightarrow> time \<Rightarrow> u64 \<Rightarrow> int \<Rightarrow> int \<Rightarrow> ChainService \<Rightarrow> WireMessage \<times> ChainService" where
  "BroadcastVote mj mx hhmm now target up down = storeSystem mj mx now (vote_wire hhmm now target up down)"

definition is_vote_line :: "WireMessage \<Rightarrow> bool" where
  "is_vote_line w \<longleftrightarrow> wType w = ''system'' \<and> wVoteTarget w \<noteq> 0 \<and> HasTag (wTags w) TagVote"

definition rebuild_line :: "stored_line \<Rightarrow> (u64 \<rightharpoonup> VoteScore) \<Rightarrow> (u64 \<rightharpoonup> VoteScore)" where
  "rebuild_line l scores =
     (case unmarshal l of
        None \<Rightarrow> scores
      | Some w \<Rightarrow>
          if is_vote_line w
          then scores(wVoteTarget w \<mapsto> \<lparr>vsUpvotes = wVoteUpvotes w, vsDownvotes = wVoteDownvotes w\<rparr>)
          else scores)"

definition rebuildVoteScores :: "ChainService \<Rightarrow> VoteBook \<Rightarrow> VoteBook" where
  "rebuildVoteScores c b = b\<lparr>vbScores := fold rebuild_line (csHistory c) Map.empty\<rparr>"

subsection \<open>The registers the totals count\<close>

type_synonym registers = "string \<times> u64 \<rightharpoonup> int"

text \<open>Pressing the held direction, or withdrawing, clears the register; another direction replaces it.\<close>

definition press :: "string \<Rightarrow> u64 \<Rightarrow> int \<Rightarrow> registers \<Rightarrow> registers" where
  "press ip target d h =
     (if d = DirWithdraw \<and> h (ip, target) \<in> {None, Some DirWithdraw} then h
      else h((ip, target) \<mapsto> (if h (ip, target) = Some d then DirWithdraw else d)))"

definition holders :: "registers \<Rightarrow> u64 \<Rightarrow> int \<Rightarrow> string set" where
  "holders h target d = {ip. h (ip, target) = Some d}"

lemma voteDedupKey_inj [simp]: "voteDedupKey ip t = voteDedupKey ip' t' \<longleftrightarrow> ip = ip' \<and> t = t'"
proof
  have no_bar: "ys @ CHR ''|'' # zs \<noteq> dec n" for ys zs n
    using dec_digits [of "CHR ''|''" n] by (auto simp: nat_of_def dest: sym)
  assume "voteDedupKey ip t = voteDedupKey ip' t'"
  then have "ip @ CHR ''|'' # dec (unat t) = ip' @ CHR ''|'' # dec (unat t')"
    by (simp add: voteDedupKey_def)
  then have "dec (unat t) = dec (unat t')" "ip = ip'"
    using no_bar no_bar [symmetric]
    by (auto simp: append_eq_append_conv2 append_eq_Cons_conv Cons_eq_append_conv)
  then show "ip = ip' \<and> t = t'" by (simp add: dec_inj word_unat_eq_iff)
qed simp

lemma int8_dir: "d \<in> {DirDownvote, DirWithdraw, DirUpvote} \<Longrightarrow> int8 d = d"
  by (auto simp: int8_def dir_defs)

lemma holders_put:
  "holders (h((ip, t) \<mapsto> e)) u d =
     (if u \<noteq> t then holders h u d else if e = d then insert ip (holders h t d) else holders h t d - {ip})"
  by (auto simp: holders_def)

lemma holders_finite: "finite (dom h) \<Longrightarrow> finite (holders h t d)"
proof -
  assume "finite (dom h)"
  moreover have "holders h t d \<subseteq> fst ` dom h" by (force simp: holders_def)
  ultimately show ?thesis by (meson finite_imageI finite_subset)
qed

text \<open>The counters and the memory agree with the registers; every memory entry is from \<open>t0\<close> on.\<close>

definition counts :: "registers \<Rightarrow> u64 \<Rightarrow> VoteScore" where
  "counts h t = \<lparr>vsUpvotes = int (card (holders h t DirUpvote)), vsDownvotes = int (card (holders h t DirDownvote))\<rparr>"

definition agrees :: "time \<Rightarrow> registers \<times> VoteBook \<Rightarrow> bool" where
  "agrees t0 s \<longleftrightarrow>
     (\<forall>(k, e)\<in>set (vbDedup (snd s)). t0 \<le> vdAt e) \<and> finite (dom (fst s)) \<and>
     ran (fst s) \<subseteq> {DirDownvote, DirWithdraw, DirUpvote} \<and>
     (\<forall>ip t. fst s (ip, t) = map_option vdDirection (map_of (vbDedup (snd s)) (voteDedupKey ip t))) \<and>
     (\<forall>t. score_of (snd s) t = counts (fst s) t)"

record vote_event =
  veNow :: time
  veIP :: string
  veTarget :: u64
  veDirection :: int

definition vote_step :: "vote_event \<Rightarrow> registers \<times> VoteBook \<Rightarrow> registers \<times> VoteBook" where
  "vote_step e s =
     (press (veIP e) (veTarget e) (veDirection e) (fst s),
      snd (applyVote (veNow e) (veIP e) (veTarget e) (veDirection e) (snd s)))"

definition vote_ok :: "time \<Rightarrow> vote_event \<Rightarrow> bool" where
  "vote_ok t0 e \<longleftrightarrow> t0 \<le> veNow e \<and> veNow e \<le> t0 + voteDedupTTL \<and>
     veDirection e \<in> {DirDownvote, DirWithdraw, DirUpvote}"

definition reply_of :: "string \<Rightarrow> u64 \<Rightarrow> int \<Rightarrow> registers \<Rightarrow> vote_result" where
  "reply_of ip t d h =
     (let h' = press ip t d h
      in vote_reply (counts h' t) (d = DirWithdraw \<and> h (ip, t) = Some DirWithdraw) (h' \<noteq> h))"

lemma purge_none:
  "\<forall>(k, e)\<in>set d. t0 \<le> vdAt e \<Longrightarrow> now \<le> t0 + voteDedupTTL \<Longrightarrow> purge_dedup now d = d"
  by (force simp: purge_dedup_def filter_id_conv)

lemma held_all:
  assumes "\<forall>(k, e)\<in>set d. t0 \<le> vdAt e" "now \<le> t0 + voteDedupTTL"
  shows "held_entry now key d = map_of d key"
  using assms by (force simp: held_entry_def split: option.splits dest: map_of_SomeD)

lemma counts_other: "u \<noteq> t \<Longrightarrow> counts (h((ip, t) \<mapsto> e)) u = counts h u"
  by (simp add: counts_def holders_put)

text \<open>What one press does to the counts, by the direction held before.\<close>

lemma card_up:
  assumes "finite (dom h)"
  shows "int (card (holders (h((ip, t) \<mapsto> e)) t d)) =
    int (card (holders h t d)) + (if e = d then 1 else 0) - (if h (ip, t) = Some d then 1 else 0)"
proof -
  have f: "finite (holders h t d)" using assms by (rule holders_finite)
  show ?thesis
  proof (cases "h (ip, t) = Some d")
    case True
    then have "ip \<in> holders h t d" by (simp add: holders_def)
    moreover from this f have "card (holders h t d) > 0" by (auto simp: card_gt_0_iff)
    ultimately show ?thesis using True f by (auto simp: holders_put insert_absorb)
  next
    case False
    then have "ip \<notin> holders h t d" by (simp add: holders_def)
    then show ?thesis using False f by (auto simp: holders_put)
  qed
qed

lemma held_positive: "finite (dom h) \<Longrightarrow> h (ip, t) = Some d \<Longrightarrow> card (holders h t d) > 0"
  using holders_finite by (auto simp: card_gt_0_iff holders_def)

lemma score_of_put: "score_of (b\<lparr>vbScores := (vbScores b)(t \<mapsto> v), vbDedup := d\<rparr>) u = (if u = t then v else score_of b u)"
  by (simp add: score_of_def)

lemma score_of_touch: "score_of (b\<lparr>vbScores := (vbScores b)(t \<mapsto> score_of b t)\<rparr>) u = score_of b u"
  by (simp add: score_of_def split: option.splits)

text \<open>Writing one entry and its counts keeps the agreement.\<close>

lemma agrees_put:
  assumes "agrees t0 (h, b)" "t0 \<le> now" "e \<in> {DirDownvote, DirWithdraw, DirUpvote}"
    and "v = counts (h((ip, t) \<mapsto> e)) t"
  shows "agrees t0 (h((ip, t) \<mapsto> e),
    b\<lparr>vbScores := (vbScores b)(t \<mapsto> v), vbDedup := AList.update (voteDedupKey ip t) \<lparr>vdDirection = e, vdAt = now\<rparr> (vbDedup b)\<rparr>)"
proof -
  have ag: "\<forall>(k, x)\<in>set (vbDedup b). t0 \<le> vdAt x" "finite (dom h)" "ran h \<subseteq> {DirDownvote, DirWithdraw, DirUpvote}"
    "\<And>ip t. h (ip, t) = map_option vdDirection (map_of (vbDedup b) (voteDedupKey ip t))"
    "\<And>t. score_of b t = counts h t"
    using assms(1) by (auto simp: agrees_def)
  have "ran (h((ip, t) \<mapsto> e)) \<subseteq> insert e (ran h)" by (auto simp: ran_def)
  then have "ran (h((ip, t) \<mapsto> e)) \<subseteq> {DirDownvote, DirWithdraw, DirUpvote}" using ag(3) assms(3) by blast
  moreover have "\<forall>(k, x)\<in>set (AList.update (voteDedupKey ip t) \<lparr>vdDirection = e, vdAt = now\<rparr> (vbDedup b)). t0 \<le> vdAt x"
    using ag(1) assms(2) set_update_subset [of "voteDedupKey ip t" "\<lparr>vdDirection = e, vdAt = now\<rparr>" "vbDedup b"] by auto
  moreover have "score_of (b\<lparr>vbScores := (vbScores b)(t \<mapsto> v), vbDedup := d\<rparr>) u = counts (h((ip, t) \<mapsto> e)) u" for u d
    by (simp add: score_of_put assms(4) counts_other ag(5))
  ultimately show ?thesis
    unfolding agrees_def using ag(2) by (auto simp: update_conv' ag(4))
qed

lemma agrees_touch:
  "agrees t0 (h, b) \<Longrightarrow> agrees t0 (h, b\<lparr>vbScores := (vbScores b)(t \<mapsto> score_of b t)\<rparr>)"
  unfolding agrees_def score_of_touch fst_conv snd_conv by (auto simp: score_of_touch)

lemmas vote_eval = applyVote_def Let_def reply_of_def press_def int8_dir dir_defs fun_upd_idem_iff move_vote_def vote_dec_def

text \<open>One vote: the reply and the new state are those of the registers.\<close>

lemma applyVote_refines:
  assumes ag: "agrees t0 (h, b)" and now: "t0 \<le> now" "now \<le> t0 + voteDedupTTL"
    and d: "d \<in> {DirDownvote, DirWithdraw, DirUpvote}"
  shows "fst (applyVote now ip t d b) = reply_of ip t d h \<and> agrees t0 (press ip t d h, snd (applyVote now ip t d b))"
proof -
  have at: "\<forall>(k, x)\<in>set (vbDedup b). t0 \<le> vdAt x" and fin: "finite (dom h)"
    and hd: "\<And>ip t. h (ip, t) = map_option vdDirection (map_of (vbDedup b) (voteDedupKey ip t))"
    and sc: "score_of b t = counts h t" and rng: "ran h \<subseteq> {DirDownvote, DirWithdraw, DirUpvote}"
    using ag by (auto simp: agrees_def)
  note lookup = held_all [OF at now(2), of "voteDedupKey ip t"] purge_none [OF at now(2)]
  note put = agrees_put [OF ag now(1), where ip = ip and t = t]
  note cards = card_up [OF fin, of ip t] held_positive [OF fin, of ip t]
  have b: "b\<lparr>vbDedup := vbDedup b\<rparr> = b" by simp
  show ?thesis
  proof (cases "map_of (vbDedup b) (voteDedupKey ip t)")
    case None
    then have h: "h (ip, t) = None" by (simp add: hd)
    have "counts (h((ip, t) \<mapsto> d)) t = (if d = DirUpvote then (counts h t)\<lparr>vsUpvotes := vsUpvotes (counts h t) + 1\<rparr>
        else (counts h t)\<lparr>vsDownvotes := vsDownvotes (counts h t) + 1\<rparr>)" if "d \<noteq> DirWithdraw"
      using that d by (auto simp: counts_def cards h dir_defs)
    then show ?thesis
      using d put [of d] agrees_touch [OF ag, of t]
      by (auto simp: vote_eval lookup b None sc h)
  next
    case (Some e)
    then have h: "h (ip, t) = Some (vdDirection e)" by (simp add: hd)
    then have e: "vdDirection e \<in> {DirDownvote, DirWithdraw, DirUpvote}" using rng by (auto simp: ran_def)
    obtain u v where c: "counts h t = \<lparr>vsUpvotes = u, vsDownvotes = v\<rparr>" by (cases "counts h t") auto
    have up: "u > 0" if "vdDirection e = DirUpvote"
      using cards(2) [of DirUpvote] that h c by (simp add: counts_def)
    have down: "v > 0" if "vdDirection e = DirDownvote"
      using cards(2) [of DirDownvote] that h c by (simp add: counts_def)
    have moved: "counts (h((ip, t) \<mapsto> n)) t =
        \<lparr>vsUpvotes = u + (if n = DirUpvote then 1 else 0) - (if vdDirection e = DirUpvote then 1 else 0),
         vsDownvotes = v + (if n = DirDownvote then 1 else 0) - (if vdDirection e = DirDownvote then 1 else 0)\<rparr>" for n
      using c by (simp add: counts_def cards(1) h)
    consider "vdDirection e = DirUpvote" | "vdDirection e = DirDownvote" | "vdDirection e = DirWithdraw" using e by blast
    then show ?thesis
    proof cases
      case 1
      then show ?thesis
        using d put [of d] put [of DirWithdraw] up
        by (auto simp: vote_eval lookup b Some sc c h moved)
    next
      case 2
      then show ?thesis
        using d put [of d] put [of DirWithdraw] down
        by (auto simp: vote_eval lookup b Some sc c h moved)
    next
      case 3
      then show ?thesis
        using d put [of d] agrees_touch [OF ag, of t]
        by (auto simp: vote_eval lookup b Some sc c h moved)
    qed
  qed
qed

interpretation ballot: machine vote_step "\<lambda>_. vote_ok t0" "agrees t0" for t0 :: time
  by unfold_locales (use applyVote_refines in \<open>force simp: vote_step_def vote_ok_def\<close>)

definition new_book :: VoteBook where
  "new_book = \<lparr>vbScores = Map.empty, vbDedup = []\<rparr>"

lemma new_book_agrees: "agrees t0 (Map.empty, new_book)"
  by (simp add: agrees_def new_book_def score_of_def counts_def holders_def)

definition pressed :: "vote_event list \<Rightarrow> registers" where
  "pressed es = fold (\<lambda>e. press (veIP e) (veTarget e) (veDirection e)) es Map.empty"

definition voted :: "vote_event list \<Rightarrow> VoteBook" where
  "voted es = fold (\<lambda>e b. snd (applyVote (veNow e) (veIP e) (veTarget e) (veDirection e) b)) es new_book"

lemma fold_vote_step:
  "fold vote_step es (h, b) =
     (fold (\<lambda>e. press (veIP e) (veTarget e) (veDirection e)) es h,
      fold (\<lambda>e b. snd (applyVote (veNow e) (veIP e) (veTarget e) (veDirection e) b)) es b)"
  by (induction es arbitrary: h b) (simp_all add: vote_step_def)

text \<open>C25. Refinement of the vote registers: for any interleaving of votes from a fresh server within one
  lifetime of the duplicate memory (24 hours), the totals kept for every height are exactly the numbers of addresses
  whose register holds an upvote and a downvote there, and the next vote is answered with the new counts, reported
  as a duplicate only when an already cleared register is withdrawn again, and as a change exactly when its
  register changes.\<close>

theorem totals_count_holders:
  assumes "\<forall>e\<in>set (es @ [e]). vote_ok t0 e"
  shows "(\<forall>t. score_of (voted es) t = counts (pressed es) t) \<and>
    fst (applyVote (veNow e) (veIP e) (veTarget e) (veDirection e) (voted es)) =
      reply_of (veIP e) (veTarget e) (veDirection e) (pressed es)"
proof -
  have "agrees t0 (fold vote_step es (Map.empty, new_book))"
    using assms by (intro ballot.run_inv new_book_agrees ballot.admissible_if_all) auto
  then have ag: "agrees t0 (pressed es, voted es)" by (simp add: fold_vote_step pressed_def voted_def)
  then show ?thesis
    using assms applyVote_refines [OF ag] by (auto simp: agrees_def vote_ok_def)
qed

definition ex_vote :: "string \<Rightarrow> int \<Rightarrow> int \<Rightarrow> vote_event" where
  "ex_vote ip d now = \<lparr>veNow = now, veIP = ip, veTarget = 7, veDirection = d\<rparr>"

text \<open>Two addresses vote up; one presses again and so takes its vote back.\<close>

theorem totals_count_holders_witness:
  "counts (pressed [ex_vote ''a'' 1 0, ex_vote ''b'' 1 5, ex_vote ''a'' 1 9]) 7 = \<lparr>vsUpvotes = 1, vsDownvotes = 0\<rparr> \<and>
   fst (applyVote 12 ''c'' 7 (-1) (voted [ex_vote ''a'' 1 0, ex_vote ''b'' 1 5, ex_vote ''a'' 1 9])) =
     \<lparr>vrUpvotes = 1, vrDownvotes = 1, vrDup = False, vrChanged = True\<rparr>"
proof -
  let ?es = "[ex_vote ''a'' 1 0, ex_vote ''b'' 1 5, ex_vote ''a'' 1 9]"
  have ok: "\<forall>e\<in>set (?es @ [ex_vote ''c'' (-1) 12]). vote_ok 0 e"
    by (simp add: vote_ok_def ex_vote_def dir_defs voteDedupTTL_def hour_def minute_def second_def)
  have h: "pressed ?es = Map.empty((''a'', 7) \<mapsto> 0, (''b'', 7) \<mapsto> 1)"
    by (auto simp: pressed_def press_def ex_vote_def dir_defs fun_eq_iff)
  have sets: "{ip. pressed ?es (ip, 7) = Some 1} = {''b''}" "{ip. pressed ?es (ip, 7) = Some (-1)} = {}"
    unfolding h by auto
  have c: "counts (pressed ?es) 7 = \<lparr>vsUpvotes = 1, vsDownvotes = 0\<rparr>"
    by (simp add: counts_def holders_def dir_defs sets)
  have fin: "finite (dom (pressed ?es))" unfolding h by simp
  have pc: "press ''c'' 7 (-1) (pressed ?es) = (pressed ?es)((''c'', 7) \<mapsto> -1)" "pressed ?es (''c'', 7) = None"
    unfolding h by (simp_all add: press_def dir_defs)
  have "counts (press ''c'' 7 (-1) (pressed ?es)) 7 = \<lparr>vsUpvotes = 1, vsDownvotes = 1\<rparr>"
    using c by (simp add: pc counts_def card_up [OF fin] dir_defs)
  then show ?thesis
    using totals_count_holders [OF ok] c pc
    by (simp add: ex_vote_def reply_of_def Let_def vote_reply_def dir_defs fun_upd_idem_iff)
qed

subsection \<open>Totals across a restart\<close>

text \<open>What can happen between two boots: a vote that passed its checks (applied, then published when it changed
  something), or any other line of the log.\<close>

datatype book_event = Cast vote_event | Log chain_event

type_synonym book_state = "VoteBook \<times> ChainService"

definition publish ::
  "marshaller \<Rightarrow> int \<Rightarrow> (time \<Rightarrow> string) \<Rightarrow> vote_event \<Rightarrow> vote_result \<Rightarrow> ChainService \<Rightarrow> ChainService" where
  "publish mj mx hhmm e r c =
     (if vrChanged r then snd (BroadcastVote mj mx hhmm (veNow e) (veTarget e) (vrUpvotes r) (vrDownvotes r) c) else c)"

fun book_step :: "marshaller \<Rightarrow> int \<Rightarrow> (time \<Rightarrow> string) \<Rightarrow> string \<Rightarrow> book_event \<Rightarrow> book_state \<Rightarrow> book_state" where
  "book_step mj mx hhmm pub (Cast e) (b, c) =
     (let (r, b') = applyVote (veNow e) (veIP e) (veTarget e) (veDirection e) b
      in (b', publish mj mx hhmm e r c))"
| "book_step mj mx hhmm pub (Log ev) (b, c) = (b, chain_step mj mx pub ev c)"

text \<open>An event that evicts nothing and, if it is another line, does not pose as a vote line.\<close>

fun book_ok :: "marshaller \<Rightarrow> int \<Rightarrow> (time \<Rightarrow> string) \<Rightarrow> string \<Rightarrow> book_state \<Rightarrow> book_event \<Rightarrow> bool" where
  "book_ok mj mx hhmm pub (b, c) (Cast e) \<longleftrightarrow> veTarget e \<noteq> 0 \<and>
     (let r = fst (applyVote (veNow e) (veIP e) (veTarget e) (veDirection e) b);
          w = vote_wire hhmm (veNow e) (veTarget e) (vrUpvotes r) (vrDownvotes r)
      in csHistorySize c + line_len mj (event_line mj pub (Notice w (veNow e)) c) \<le> mx)"
| "book_ok mj mx hhmm pub (b, c) (Log ev) \<longleftrightarrow>
     csHistorySize c + line_len mj (event_line mj pub ev c) \<le> mx \<and>
     \<not> is_vote_line (case ev of Link w now \<Rightarrow> w | Notice w now \<Rightarrow> w)"

definition restorable :: "book_state \<Rightarrow> bool" where
  "restorable s \<longleftrightarrow> (\<forall>t. score_of (rebuildVoteScores (snd s) (fst s)) t = score_of (fst s) t)"

lemma applyVote_scores:
  assumes "applyVote now ip t d b = (r, b')"
  shows "score_of b' u = (if u = t then \<lparr>vsUpvotes = vrUpvotes r, vsDownvotes = vrDownvotes r\<rparr> else score_of b u)"
    and "\<not> vrChanged r \<Longrightarrow> \<lparr>vsUpvotes = vrUpvotes r, vsDownvotes = vrDownvotes r\<rparr> = score_of b t"
  using assms
  by (auto simp: applyVote_def Let_def score_of_def vote_reply_def split: option.splits if_splits)

lemma rebuild_history:
  "csHistory c = csHistory c0 @ [l] \<Longrightarrow>
     vbScores (rebuildVoteScores c b) = rebuild_line l (vbScores (rebuildVoteScores c0 bb))"
  by (simp add: rebuildVoteScores_def)

lemma vote_wire_is_vote: "is_vote_line ((vote_wire hhmm now t up down)\<lparr>wSeq := q\<rparr>) \<longleftrightarrow> t \<noteq> 0"
proof -
  have "HasTag (WithTags [TagVote]) TagVote" by code_simp
  then show ?thesis by (simp add: is_vote_line_def vote_wire_def noticeWire_def)
qed

lemma vote_wire_fields [simp]:
  "wVoteTarget (vote_wire hhmm now t up down) = t" "wVoteUpvotes (vote_wire hhmm now t up down) = up"
  "wVoteDownvotes (vote_wire hhmm now t up down) = down"
  by (simp_all add: vote_wire_def)

lemma not_vote_line:
  "\<not> is_vote_line (case ev of Link w now \<Rightarrow> w | Notice w now \<Rightarrow> w) \<Longrightarrow>
     rebuild_line (event_line mj pub ev c) m = m"
  by (cases ev) (auto simp: rebuild_line_def is_vote_line_def linked_wire_def)

lemma publish_history:
  assumes "vrChanged r"
    and "w = (vote_wire hhmm (veNow v) (veTarget v) (vrUpvotes r) (vrDownvotes r))\<lparr>wSeq := csSeq c + 1\<rparr>"
    and "csHistorySize c + int (length (mj w)) \<le> mx"
  shows "csHistory (publish mj mx hhmm v r c) = csHistory c @ [JsonLine w]"
    and "csHistorySize (publish mj mx hhmm v r c) = csHistorySize c + int (length (mj w))"
  using assms append_no_evict [of "c\<lparr>csSeq := csSeq c + 1\<rparr>" mj "JsonLine w" mx]
  by (simp_all add: publish_def BroadcastVote_def storeSystem_eq Let_def EnqueueWire_def)

lemma book_step_restorable:
  assumes "restorable (b, c)" "book_ok mj mx hhmm pub (b, c) e"
  shows "restorable (book_step mj mx hhmm pub e (b, c))"
proof (cases e)
  case (Log ev)
  then show ?thesis
    using assms not_vote_line rebuild_history [OF step_no_evict, of c mj pub ev mx b b]
    by (simp add: restorable_def score_of_def)
next
  case (Cast v)
  obtain r b' where ap: "applyVote (veNow v) (veIP v) (veTarget v) (veDirection v) b = (r, b')" by fastforce
  note sc = applyVote_scores [OF ap]
  show ?thesis
  proof (cases "vrChanged r")
    case True
    let ?w = "vote_wire hhmm (veNow v) (veTarget v) (vrUpvotes r) (vrDownvotes r)"
    have "csHistory (publish mj mx hhmm v r c) = csHistory c @ [JsonLine (?w\<lparr>wSeq := csSeq c + 1\<rparr>)]"
      using assms(2) by (intro publish_history(1) [OF True refl]) (simp add: Cast ap Let_def)
    then have "vbScores (rebuildVoteScores (publish mj mx hhmm v r c) b') =
        (vbScores (rebuildVoteScores c b))(veTarget v \<mapsto> \<lparr>vsUpvotes = vrUpvotes r, vsDownvotes = vrDownvotes r\<rparr>)"
      using assms(2) by (simp add: Cast rebuild_history [where b = b' and bb = b] rebuild_line_def vote_wire_is_vote)
    then have "score_of (rebuildVoteScores (publish mj mx hhmm v r c) b') u = score_of b' u" for u
      using assms(1) sc(1) by (simp add: restorable_def score_of_def)
    then show ?thesis by (simp add: Cast ap restorable_def)
  next
    case False
    then show ?thesis
      using assms(1) sc by (auto simp: Cast ap Let_def restorable_def publish_def score_of_def rebuildVoteScores_def)
  qed
qed

interpretation restart: machine "book_step mj mx hhmm pub" "book_ok mj mx hhmm pub" restorable for mj mx hhmm pub
  by unfold_locales (auto simp: split_paired_all dest: book_step_restorable)

text \<open>Vote totals survive a restart: as long as nothing is evicted and no other line poses as a vote line,
  replaying the stored lines restores the totals of every height, whatever votes (toggles, changes of mind, expired and
  repeated ones included) and other lines were handled, provided each vote is published before the next one is
  applied.\<close>

theorem restart_restores_totals:
  assumes "\<forall>t. score_of (rebuildVoteScores c b) t = score_of b t"
    and "restart.admissible mj mx hhmm pub (b, c) es"
    and "fold (book_step mj mx hhmm pub) es (b, c) = (b', c')"
  shows "score_of (rebuildVoteScores c' new_book) t = score_of b' t"
proof -
  have "restorable (fold (book_step mj mx hhmm pub) es (b, c))"
    using assms(1,2) by (intro restart.run_inv) (simp_all add: restorable_def)
  then show ?thesis by (simp add: assms(3) restorable_def score_of_def rebuildVoteScores_def)
qed

definition ex_vote_log :: ChainService where
  "ex_vote_log = \<lparr>csTip = [], csHeight = 0, csReady = True, csSeq = 0, csHistory = [], csHistorySize = 0, csStore = None\<rparr>"

theorem restart_restores_totals_witness:
  "let (b, c) = fold (book_step (\<lambda>_. ''x'') 100 (\<lambda>_. ''00:00'') [])
       [Cast (ex_vote ''a'' 1 0)] (new_book, ex_vote_log)
   in score_of b 7 = \<lparr>vsUpvotes = 1, vsDownvotes = 0\<rparr> \<and> score_of (rebuildVoteScores c new_book) 7 = score_of b 7"
proof -
  let ?es = "[Cast (ex_vote ''a'' 1 0)]"
  let ?step = "book_step (\<lambda>_. ''x'') 100 (\<lambda>_. ''00:00'') []"
  have start: "\<forall>t. score_of (rebuildVoteScores ex_vote_log new_book) t = score_of new_book t"
    by (simp add: rebuildVoteScores_def ex_vote_log_def new_book_def)
  have adm: "restart.admissible (\<lambda>_. ''x'') 100 (\<lambda>_. ''00:00'') [] (new_book, ex_vote_log) ?es"
    by (simp add: ex_vote_def ex_vote_log_def Let_def)
  obtain b c where run: "fold ?step ?es (new_book, ex_vote_log) = (b, c)" by fastforce
  have "score_of (fst (fold ?step ?es (new_book, ex_vote_log))) 7 = \<lparr>vsUpvotes = 1, vsDownvotes = 0\<rparr>"
    by (simp add: ex_vote_def applyVote_def Let_def new_book_def purge_dedup_def held_entry_def score_of_def dir_defs vote_reply_def)
  then show ?thesis using restart_restores_totals [OF start adm run, of 7] unfolding run by simp
qed

text \<open>The proviso matters: the total is computed under one lock and its line is stored under another, so two
  voters can have their lines stored in the opposite order.\<close>

text \<open>Two votes published in the opposite order of their application: the server holds two upvotes, and after
  a restart the last stored line wins, so only one is restored.\<close>

theorem swapped_publication_loses_vote:
  fixes mj :: marshaller
  assumes "applyVote now1 ''a'' t 1 new_book = (r1, b1)" "applyVote now2 ''b'' t 1 b1 = (r2, b2)" "t \<noteq> 0"
    and room: "csHistorySize c + 2000 \<le> mx" "\<forall>w. length (mj w) \<le> 1000"
    and "c2 = publish mj mx hhmm (ex_vote ''b'' 1 now2\<lparr>veTarget := t\<rparr>) r2 c"
    and "c' = publish mj mx hhmm (ex_vote ''a'' 1 now1\<lparr>veTarget := t\<rparr>) r1 c2"
  shows "vsUpvotes (score_of b2 t) = 2 \<and> vsUpvotes (score_of (rebuildVoteScores c' b2) t) = 1"
proof -
  have r: "r1 = \<lparr>vrUpvotes = 1, vrDownvotes = 0, vrDup = False, vrChanged = True\<rparr>"
    "r2 = \<lparr>vrUpvotes = 2, vrDownvotes = 0, vrDup = False, vrChanged = True\<rparr>"
    using assms(1,2)
    by (auto simp: applyVote_def Let_def new_book_def purge_dedup_def held_entry_def score_of_def dir_defs vote_reply_def)
  have len: "csHistorySize x + 1000 \<le> mx \<Longrightarrow> csHistorySize x + int (length (mj w)) \<le> mx" for w x
    using room(2) [rule_format, of w] by linarith
  have "csHistorySize c2 \<le> csHistorySize c + 1000"
    unfolding assms(6) using room by (subst publish_history(2) [OF _ refl]) (simp_all add: r len)
  then have "csHistory c' = csHistory c2 @ [JsonLine ((vote_wire hhmm now1 t 1 0)\<lparr>wSeq := csSeq c2 + 1\<rparr>)]"
    unfolding assms(7) using room(1)
    by (subst publish_history(1) [OF _ refl]) (simp_all add: r ex_vote_def len)
  from rebuild_history [OF this, of b2 b2] have "vsUpvotes (score_of (rebuildVoteScores c' b2) t) = 1"
    using assms(3) by (simp add: score_of_def rebuild_line_def vote_wire_is_vote)
  then show ?thesis using applyVote_scores(1) [OF assms(2), of t] by (simp add: r)
qed

theorem swapped_publication_loses_vote_witness:
  "\<exists>r1 b1 r2 b2 c'. applyVote 0 ''a'' 7 1 new_book = (r1, b1) \<and> applyVote 5 ''b'' 7 1 b1 = (r2, b2) \<and>
     c' = publish (\<lambda>_. ''x'') 4000 (\<lambda>_. ''00:00'') (ex_vote ''a'' 1 0\<lparr>veTarget := 7\<rparr>) r1
       (publish (\<lambda>_. ''x'') 4000 (\<lambda>_. ''00:00'') (ex_vote ''b'' 1 5\<lparr>veTarget := 7\<rparr>) r2 ex_vote_log) \<and>
     vsUpvotes (score_of b2 7) = 2 \<and> vsUpvotes (score_of (rebuildVoteScores c' b2) 7) = 1"
proof -
  obtain r1 b1 where a: "applyVote 0 ''a'' 7 1 new_book = (r1, b1)" by fastforce
  obtain r2 b2 where b: "applyVote 5 ''b'' 7 1 b1 = (r2, b2)" by fastforce
  have size: "csHistorySize ex_vote_log + 2000 \<le> 4000" "\<forall>w::WireMessage. length ''x'' \<le> 1000" by (simp_all add: ex_vote_log_def)
  show ?thesis using swapped_publication_loses_vote [OF a b _ size refl refl] a b by auto
qed

end
