(* ===== verification/Hub.thy ===== *)
theory Hub
  imports Votes History_Window Guard
begin

text \<open>
  Presence and broadcast: \<open>Hub\<close> of \<^verbatim>\<open>src/server/shared.go\<close>, the broadcast half of
  \<^verbatim>\<open>src/server/history.go\<close>, registration in \<^verbatim>\<open>src/server/clientHandler.go\<close> and display names in
  \<^verbatim>\<open>src/server/auth.go\<close>. A connection is a number (the Go pointer), a session carries its bounded \<open>Send\<close>
  queue, the client map is an association list. A frame is the value that is marshalled. \<open>drained\<close> says for
  each connection whether its writer makes room within the 20 ms a system line waits. Closing sockets and
  logging are not modelled.

  Broadcasting is two actions, storing and sending. The step relation at the end lets them interleave as the
  locks allow, and the theorem shows what the lock around a chained broadcast is for: every client sees the chain in
  order.
\<close>

subsection \<open>Sessions and queues\<close>

type_synonym conn = nat

datatype frame = WireFrame WireMessage | InfoFrame HistoryInfo | OfferFrame PowOffer

record ClientSession =
  seConn :: conn
  seDisplayName :: string
  seTripcode :: string
  sePerms :: Permission
  seSend :: "frame list"
  seIP :: string
  seAuthType :: string
  sePlatform :: string
  seIdentityPub :: string
  seTripPub :: string
  seTripBadge :: string
  seHost :: string
  seWantJoins :: bool

definition sendQueueCap :: nat where "sendQueueCap = 256"

record Hub =
  hbClients :: "(conn \<times> ClientSession) list"
  hbDrops :: int
  hbActive :: "string \<rightharpoonup> conn"
  hbNames :: "string \<rightharpoonup> int"
  hbLastDate :: string
  hbChain :: ChainService

text \<open>A non-blocking send: the new queue, or \<open>None\<close> when it is full.\<close>

definition offer_frame :: "frame \<Rightarrow> ClientSession \<Rightarrow> ClientSession option" where
  "offer_frame f s = (if length (seSend s) < sendQueueCap then Some (s\<lparr>seSend := seSend s @ [f]\<rparr>) else None)"

text \<open>The session after the send, and whether the frame was shed.\<close>

definition sendWithRetry :: "bool \<Rightarrow> bool \<Rightarrow> frame \<Rightarrow> ClientSession \<Rightarrow> ClientSession \<times> bool" where
  "sendWithRetry isSystem drained f s =
     (case offer_frame f s of
        Some s' \<Rightarrow> (s', False)
      | None \<Rightarrow> if isSystem \<and> drained then (s\<lparr>seSend := tl (seSend s) @ [f]\<rparr>, False) else (s, True))"

definition try_send :: "frame \<Rightarrow> ClientSession \<Rightarrow> ClientSession \<times> bool" where
  "try_send f s = (case offer_frame f s of Some s' \<Rightarrow> (s', False) | None \<Rightarrow> (s, True))"

text \<open>Apply a send to every client that \<open>pick\<close> selects; each shed frame counts as a drop.\<close>

definition send_each :: "(conn \<Rightarrow> bool) \<Rightarrow> (conn \<Rightarrow> ClientSession \<Rightarrow> ClientSession \<times> bool) \<Rightarrow> Hub \<Rightarrow> Hub" where
  "send_each pick snd_one h =
     (let rs = map (\<lambda>(c, s). (c, if pick c then snd_one c s else (s, False))) (hbClients h)
      in h\<lparr>hbClients := map (\<lambda>(c, s, d). (c, s)) rs,
           hbDrops := hbDrops h + int (length (filter (\<lambda>(c, s, d). d) rs))\<rparr>)"

definition fanout :: "(conn \<Rightarrow> bool) \<Rightarrow> frame \<Rightarrow> conn option \<Rightarrow> bool \<Rightarrow> bool \<Rightarrow> Hub \<Rightarrow> Hub" where
  "fanout drained f sender isSystem echo h =
     (let h1 = send_each (\<lambda>c. Some c \<noteq> sender) (\<lambda>c. sendWithRetry isSystem (drained c) f) h
      in if echo \<and> sender \<noteq> None then send_each (\<lambda>c. Some c = sender) (\<lambda>_. try_send f) h1 else h1)"

definition unicastData :: "conn \<Rightarrow> frame \<Rightarrow> Hub \<Rightarrow> Hub" where
  "unicastData c f h = send_each (\<lambda>c'. c' = c) (\<lambda>_. try_send f) h"

subsection \<open>Broadcasts\<close>

text \<open>The surroundings of one call: the marshaller, \<open>MaxHistoryBytes\<close>, the zone's renderings of a time
  (\<open>15:04\<close>, \<open>02/01/2006\<close> and \<open>2006-01-02\<close>) and the writers that drain in time.\<close>

record hub_env =
  heMarshal :: marshaller
  heMax :: int
  heHHMM :: "time \<Rightarrow> string"
  heDMY :: "time \<Rightarrow> string"
  heISO :: "time \<Rightarrow> string"
  heDrained :: "conn \<Rightarrow> bool"

definition unicastNotice :: "hub_env \<Rightarrow> time \<Rightarrow> conn \<Rightarrow> string \<Rightarrow> string list \<Rightarrow> Hub \<Rightarrow> Hub" where
  "unicastNotice env now c txt leaves = unicastData c (WireFrame (noticeWire (heHHMM env) now txt leaves))"

definition unicastNoticeTier :: "hub_env \<Rightarrow> time \<Rightarrow> conn \<Rightarrow> string \<Rightarrow> int \<Rightarrow> string list \<Rightarrow> Hub \<Rightarrow> Hub" where
  "unicastNoticeTier env now c txt tier leaves =
     unicastData c (WireFrame (powNoticeWire (heHHMM env) now txt tier leaves))"

text \<open>The two halves of a broadcast of an unchained line.\<close>

definition store_notice :: "hub_env \<Rightarrow> time \<Rightarrow> WireMessage \<Rightarrow> Hub \<Rightarrow> WireMessage \<times> Hub" where
  "store_notice env now m h =
     (let (m', c) = storeSystem (heMarshal env) (heMax env) now m (hbChain h) in (m', h\<lparr>hbChain := c\<rparr>))"

definition send_system :: "hub_env \<Rightarrow> time \<Rightarrow> WireMessage \<Rightarrow> conn option \<Rightarrow> Hub \<Rightarrow> Hub" where
  "send_system env now m sender h =
     (let (m', h1) = store_notice env now m h in fanout (heDrained env) (WireFrame m') sender True False h1)"

definition broadcastSystem :: "hub_env \<Rightarrow> time \<Rightarrow> string \<Rightarrow> string list \<Rightarrow> string \<Rightarrow> conn option \<Rightarrow> Hub \<Rightarrow> Hub" where
  "broadcastSystem env now txt leaves day sender =
     send_system env now ((noticeWire (heHHMM env) now txt leaves)\<lparr>wSysDate := day\<rparr>) sender"

definition BroadcastNotice :: "hub_env \<Rightarrow> time \<Rightarrow> string \<Rightarrow> string list \<Rightarrow> conn option \<Rightarrow> Hub \<Rightarrow> Hub" where
  "BroadcastNotice env now txt leaves sender = broadcastSystem env now txt leaves [] sender"

definition BroadcastDate :: "hub_env \<Rightarrow> time \<Rightarrow> string \<Rightarrow> string \<Rightarrow> conn option \<Rightarrow> Hub \<Rightarrow> Hub" where
  "BroadcastDate env now txt day sender = broadcastSystem env now txt [TagDate] day sender"

definition hub_vote :: "hub_env \<Rightarrow> time \<Rightarrow> u64 \<Rightarrow> int \<Rightarrow> int \<Rightarrow> Hub \<Rightarrow> Hub" where
  "hub_vote env now target up down = send_system env now (vote_wire (heHHMM env) now target up down) None"

text \<open>The two halves of a chained broadcast.\<close>

definition link_wire :: "hub_env \<Rightarrow> time \<Rightarrow> string \<Rightarrow> WireMessage \<Rightarrow> Hub \<Rightarrow> WireMessage \<times> Hub" where
  "link_wire env now pub w h =
     (let (w', c) = linkAndStore (heMarshal env) (heMax env) now pub w (hbChain h) in (w', h\<lparr>hbChain := c\<rparr>))"

definition BroadcastAudit :: "hub_env \<Rightarrow> time \<Rightarrow> time \<Rightarrow> string \<Rightarrow> conn option \<Rightarrow> string \<Rightarrow> Hub \<Rightarrow> Hub" where
  "BroadcastAudit env now now2 txt sender pub h =
     (let (w, h1) = link_wire env now2 pub (noticeWire (heHHMM env) now txt [TagAudit]) h
      in fanout (heDrained env) (WireFrame w) sender True False h1)"

definition BroadcastWire :: "hub_env \<Rightarrow> time \<Rightarrow> WireMessage \<Rightarrow> conn option \<Rightarrow> string \<Rightarrow> Hub \<Rightarrow> Hub" where
  "BroadcastWire env now w sender pub h =
     (let (w', h1) = link_wire env now pub w h in fanout (heDrained env) (WireFrame w') sender False True h1)"

definition date_banner :: "string \<Rightarrow> string" where
  "date_banner d = [CHR 0x1B] @ ''[36m--- Ng'' @ encode_runes [0xE0] @ ''y '' @ d @ '' ---'' @ [CHR 0x1B] @ ''[0m''"

definition CheckAndBroadcastDate :: "hub_env \<Rightarrow> time \<Rightarrow> time \<Rightarrow> Hub \<Rightarrow> Hub" where
  "CheckAndBroadcastDate env now now2 h =
     (let d = heDMY env now in
      if hbLastDate h = [] \<or> hbLastDate h \<noteq> d
      then BroadcastDate env now2 (date_banner d) (heISO env now) None (h\<lparr>hbLastDate := d\<rparr>) else h)"

subsection \<open>Display names\<close>

definition session_name :: "(nat \<Rightarrow> gcat) \<Rightarrow> int \<Rightarrow> string \<Rightarrow> string" where
  "session_name gc maxLen username =
     (let u = (if ValidateDisplayName gc username \<noteq> None then ''Anonymous'' else username);
          n0 = runes (TrimSpace u);
          n1 = (if n0 = [] then runes ''Anonymous'' else n0);
          n2 = (if maxLen > 0 \<and> int (length n1) > maxLen then take (nat maxLen) n1 else n1)
      in encode_runes n2)"

definition name_hash :: "bytes \<Rightarrow> string \<Rightarrow> nat \<Rightarrow> string" where
  "name_hash salt ip clients =
     (let tot = clients + 1;
          hashLen = (if tot > 800 then 6 else if tot > 100 then 5 else 4)
      in take hashLen (hex_encode (if salt \<noteq> [] then hmac_sha256 salt ip else sha256 ip)))"

definition base_display :: "(nat \<Rightarrow> gcat) \<Rightarrow> int \<Rightarrow> bytes \<Rightarrow> string \<Rightarrow> string \<Rightarrow> Permission \<Rightarrow> nat \<Rightarrow> string" where
  "base_display gc maxLen salt username ip perms clients =
     (let p0 = customPrefix perms;
          p = (if p0 \<noteq> [] \<and> ValidateDisplayPrefix gc p0 \<noteq> None then [] else p0)
      in p @ session_name gc maxLen username @ ''#'' @ name_hash salt ip clients)"

definition serial_name :: "string \<Rightarrow> nat \<Rightarrow> string" where
  "serial_name base serial = (if serial = 1 then base else base @ ''-'' @ dec serial)"

text \<open>The first free one of the base name and its serials up to 999. The last case is the fallback: the name is
  not entered.\<close>

definition claim_name :: "time \<Rightarrow> string \<Rightarrow> (string \<rightharpoonup> int) \<Rightarrow> string \<times> (string \<rightharpoonup> int)" where
  "claim_name now base names =
     (case find (\<lambda>i. names (serial_name base i) = None) [1..<1000] of
        Some i \<Rightarrow> (serial_name base i, names(serial_name base i \<mapsto> 1))
      | None \<Rightarrow> (base @ ''-'' @ dec_int (UnixNano now mod 1000), names))"

definition generateDisplayName ::
  "(nat \<Rightarrow> gcat) \<Rightarrow> int \<Rightarrow> bytes \<Rightarrow> time \<Rightarrow> string \<Rightarrow> string \<Rightarrow> Permission \<Rightarrow> Hub \<Rightarrow> string \<times> Hub" where
  "generateDisplayName gc maxLen salt now username ip perms h =
     (let (n, names) = claim_name now (base_display gc maxLen salt username ip perms (length (hbClients h))) (hbNames h)
      in (n, h\<lparr>hbNames := names\<rparr>))"

definition releaseDisplayName :: "string \<Rightarrow> Hub \<Rightarrow> Hub" where
  "releaseDisplayName name h = h\<lparr>hbNames := (hbNames h)(name := None)\<rparr>"

subsection \<open>Registration\<close>

definition identity_alert :: "string \<Rightarrow> string" where
  "identity_alert ip = [CHR 0x1B] @ ''[90m[He thong]: Danh tinh cua ban vua duoc dang nhap tu '' @ ip @ ''.'' @ [CHR 0x1B] @ ''[0m''"

definition alertConcurrentIdentity :: "hub_env \<Rightarrow> time \<Rightarrow> string \<Rightarrow> string \<Rightarrow> Hub \<Rightarrow> Hub" where
  "alertConcurrentIdentity env now pub ip h =
     (case hbActive h pub of
        None \<Rightarrow> h
      | Some prev \<Rightarrow> unicastData prev (WireFrame (noticeWire (heHHMM env) now (identity_alert ip) [TagAuth])) h)"

definition system_mark :: string where
  "system_mark = '' [H'' @ encode_runes [0x1EC7] @ '' th'' @ encode_runes [0x1ED1] @ ''ng]: ''"

definition stamped :: "hub_env \<Rightarrow> time \<Rightarrow> string \<Rightarrow> string" where
  "stamped env t txt = [CHR 0x1B] @ ''[90m'' @ heHHMM env t @ [CHR 0x1B] @ ''[0m'' @ system_mark @ txt"

definition join_text :: "string \<Rightarrow> string" where
  "join_text name = name @ '' '' @ encode_runes [0x111, 0xE3] @ '' tham gia ph'' @ encode_runes [0xF2] @ ''ng chat!''"

definition leave_text :: "string \<Rightarrow> string" where
  "leave_text name = name @ '' '' @ encode_runes [0x111, 0xE3] @ '' r'' @ encode_runes [0x1EDD] @ ''i ph'' @
     encode_runes [0xF2] @ ''ng chat.''"

text \<open>Taking an identity slot: the newest session wins, and the previous holder is alerted.\<close>

definition take_identity :: "hub_env \<Rightarrow> time \<Rightarrow> ClientSession \<Rightarrow> string \<Rightarrow> Hub \<Rightarrow> Hub" where
  "take_identity env now s ip h =
     (let pub = seIdentityPub s in
      if pub = [] then h
      else case hbActive h pub of
          None \<Rightarrow> h\<lparr>hbActive := (hbActive h)(pub \<mapsto> seConn s)\<rparr>
        | Some old \<Rightarrow>
            if old \<noteq> seConn s
            then (let h1 = alertConcurrentIdentity env now pub ip h
                  in h1\<lparr>hbActive := (hbActive h1)(pub \<mapsto> seConn s)\<rparr>)
            else h)"

definition registerClient :: "hub_env \<Rightarrow> time \<Rightarrow> time \<Rightarrow> time \<Rightarrow> ClientSession \<Rightarrow> string \<Rightarrow> Hub \<Rightarrow> Hub" where
  "registerClient env joinTime now1 now2 s ip h =
     (let h1 = h\<lparr>hbClients := AList.update (seConn s) s (hbClients h)\<rparr>;
          h2 = take_identity env joinTime s ip h1;
          h3 = unicastData (seConn s) (InfoFrame (historyInfo (hbChain h2))) h2;
          h4 = CheckAndBroadcastDate env joinTime now1 h3
      in BroadcastNotice env now2 (stamped env joinTime (join_text (seDisplayName s))) [TagJoin] None h4)"

definition drop_identity :: "ClientSession \<Rightarrow> Hub \<Rightarrow> Hub" where
  "drop_identity s h =
     (if seIdentityPub s \<noteq> [] \<and> hbActive h (seIdentityPub s) = Some (seConn s)
      then h\<lparr>hbActive := (hbActive h)(seIdentityPub s := None)\<rparr> else h)"

definition unregisterClient :: "hub_env \<Rightarrow> time \<Rightarrow> time \<Rightarrow> time \<Rightarrow> ClientSession \<Rightarrow> Hub \<Rightarrow> Hub" where
  "unregisterClient env leaveTime now1 now2 s h =
     (case map_of (hbClients h) (seConn s) of
        None \<Rightarrow> h
      | Some _ \<Rightarrow>
          (let h1 = h\<lparr>hbClients := AList.delete (seConn s) (hbClients h)\<rparr>;
               h2 = releaseDisplayName (seDisplayName s) (drop_identity s h1);
               h3 = CheckAndBroadcastDate env leaveTime now1 h2
           in BroadcastNotice env now2 (stamped env leaveTime (leave_text (seDisplayName s))) [TagLeave] None h3))"

subsection \<open>Live display names are distinct\<close>

lemma serial_name_inj: "serial_name base i = serial_name base j \<longleftrightarrow> i = j"
  by (auto simp: serial_name_def dec_inj split: if_splits)

lemma claim_fresh:
  assumes "finite (dom names)" "card (dom names) < 999" "claim_name now base names = (n, names')"
  shows "names n = None" "names' = names(n \<mapsto> 1)"
proof -
  have "find (\<lambda>i. names (serial_name base i) = None) [1..<1000] \<noteq> None"
  proof
    assume "find (\<lambda>i. names (serial_name base i) = None) [1..<1000] = None"
    then have "serial_name base ` set [1..<1000] \<subseteq> dom names" by (auto simp: find_None_iff)
    then have "card (serial_name base ` set [1..<1000]) \<le> card (dom names)" using assms(1) by (intro card_mono)
    moreover have "card (serial_name base ` set [1..<1000]) = 999"
      by (subst card_image) (simp_all add: inj_on_def serial_name_inj)
    ultimately show False using assms(2) by simp
  qed
  then obtain i where f: "find (\<lambda>i. names (serial_name base i) = None) [1..<1000] = Some i" by blast
  then have "names (serial_name base i) = None" by (auto simp: find_Some_iff)
  then show "names n = None" "names' = names(n \<mapsto> 1)"
    using assms(3) unfolding claim_name_def f by auto
qed

text \<open>A session that is given a name, or one that leaves and returns it.\<close>

datatype name_event = Came time string string Permission | Left string

fun name_step :: "(nat \<Rightarrow> gcat) \<Rightarrow> int \<Rightarrow> bytes \<Rightarrow> name_event \<Rightarrow> Hub \<times> string list \<Rightarrow> Hub \<times> string list" where
  "name_step gc maxLen salt (Came now user ip perms) (h, live) =
     (let (n, h') = generateDisplayName gc maxLen salt now user ip perms h in (h', n # live))"
| "name_step gc maxLen salt (Left n) (h, live) =
     (if n \<in> set live then (releaseDisplayName n h, remove1 n live) else (h, live))"

definition names_ok :: "Hub \<times> string list \<Rightarrow> bool" where
  "names_ok s \<longleftrightarrow> distinct (snd s) \<and> dom (hbNames (fst s)) = set (snd s)"

definition crowd_ok :: "Hub \<times> string list \<Rightarrow> bool" where
  "crowd_ok s \<longleftrightarrow> length (snd s) < 999"

lemma name_step_ok: "names_ok s \<Longrightarrow> crowd_ok s \<Longrightarrow> names_ok (name_step gc maxLen salt e s)"
proof (cases e)
  case (Came now user ip perms)
  assume ok: "names_ok s" "crowd_ok s"
  obtain h live where s: "s = (h, live)" by fastforce
  obtain n names' where c: "claim_name now (base_display gc maxLen salt user ip perms (length (hbClients h))) (hbNames h) = (n, names')"
    by fastforce
  have "finite (dom (hbNames h))" "card (dom (hbNames h)) < 999"
    using ok by (simp_all add: s names_ok_def crowd_ok_def distinct_card)
  from claim_fresh [OF this c] ok(1) show ?thesis
    by (auto simp: s Came generateDisplayName_def c names_ok_def)
qed (cases s; auto simp: names_ok_def releaseDisplayName_def)

interpretation names: machine "name_step gc maxLen salt" "\<lambda>s _. crowd_ok s" names_ok for gc maxLen salt
  by unfold_locales (rule name_step_ok)

text \<open>No two sessions share a display name: starting with no name taken, whatever sequence of arrivals
  (any user names, addresses and role prefixes, valid or not) and departures is handled, the names of the sessions that
  are online are distinct, as long as fewer than 999 are online whenever someone arrives.\<close>

theorem display_names_unique:
  assumes "hbNames h0 = Map.empty"
    and "\<forall>k < length es. length (snd (fold (name_step gc maxLen salt) (take k es) (h0, []))) < 999"
  shows "distinct (snd (fold (name_step gc maxLen salt) es (h0, [])))"
proof -
  have "names_ok (h0, [])" using assms(1) by (simp add: names_ok_def)
  moreover have "names.admissible gc maxLen salt (h0, []) es"
    using assms(2) by (intro names.admissible_if_prefixes) (simp add: crowd_ok_def)
  ultimately have "names_ok (fold (name_step gc maxLen salt) es (h0, []))" by (rule names.run_inv)
  then show ?thesis by (simp add: names_ok_def)
qed

definition empty_hub :: "ChainService \<Rightarrow> Hub" where
  "empty_hub c = \<lparr>hbClients = [], hbDrops = 0, hbActive = Map.empty, hbNames = Map.empty, hbLastDate = [], hbChain = c\<rparr>"

lemma two_arrivals:
  "length (snd (fold (name_step gc maxLen salt) (take k [Came t1 u1 i1 p1, Came t2 u2 i2 p2]) (h, []))) = min k 2"
  by (cases k; cases "k - 1") (auto split: prod.splits)

theorem display_names_unique_witness:
  "\<exists>n1 n2. snd (fold (name_step (\<lambda>_. Cc) 32 ''salt'')
      [Came 0 ''ann'' ''1.2.3.4'' \<lparr>canMessageUnlimited = False, customPrefix = []\<rparr>,
       Came 1 ''ann'' ''1.2.3.4'' \<lparr>canMessageUnlimited = False, customPrefix = []\<rparr>] (empty_hub ex_vote_log, [])) = [n2, n1] \<and>
     n1 \<noteq> n2"
proof -
  let ?p = "\<lparr>canMessageUnlimited = False, customPrefix = []\<rparr>"
  let ?es = "[Came 0 ''ann'' ''1.2.3.4'' ?p, Came 1 ''ann'' ''1.2.3.4'' ?p]"
  let ?run = "\<lambda>es. snd (fold (name_step (\<lambda>_. Cc) 32 ''salt'') es (empty_hub ex_vote_log, []))"
  have "distinct (?run ?es)"
    by (rule display_names_unique) (simp_all only: two_arrivals, simp_all add: empty_hub_def)
  moreover obtain a b where "?run ?es = [a, b]"
    using two_arrivals [of "\<lambda>_. Cc" 32 "''salt''" 2 0 "''ann''" "''1.2.3.4''" ?p 1 "''ann''" "''1.2.3.4''" ?p "empty_hub ex_vote_log"]
    by (auto simp: length_Suc_conv numeral_2_eq_2)
  ultimately show ?thesis by auto
qed

subsection \<open>Interleaved broadcasts\<close>

text \<open>
  The server's goroutines between lock operations. A chained broadcast links and stores under the chain's lock and
  then sends, holding \<open>BroadcastMu\<close> throughout: \<open>inFlight\<close> is the line linked by the holder and not yet sent. A
  notice is stored under the chain's lock and sent later without \<open>BroadcastMu\<close>: \<open>pendingNotices\<close>. Clients come and
  go at any time, and each writer takes frames off its queue: \<open>received\<close> is what it has written out, oldest first.
  A system line that waits for room and gets it is a \<open>written\<close> step of that client before the send. Sends to different
  clients touch different queues, so one step sends to all.
\<close>

record net =
  ntHub :: Hub
  inFlight :: "(WireMessage \<times> conn option \<times> bool \<times> bool) option"
  pendingNotices :: "(WireMessage \<times> conn option) list"
  received :: "conn \<Rightarrow> frame list"

inductive net_step :: "marshaller \<Rightarrow> int \<Rightarrow> string \<Rightarrow> net \<Rightarrow> net \<Rightarrow> bool" for mj mx pub where
  link: "inFlight n = None \<Longrightarrow> (isSystem, echo) = (False, True) \<or> (isSystem, echo, sender) = (True, False, None) \<Longrightarrow>
     linkAndStore mj mx now pub w (hbChain (ntHub n)) = (w', c) \<Longrightarrow>
     net_step mj mx pub n (n\<lparr>ntHub := (ntHub n)\<lparr>hbChain := c\<rparr>, inFlight := Some (w', sender, isSystem, echo)\<rparr>)"
| sent: "inFlight n = Some (w, sender, isSystem, echo) \<Longrightarrow>
     net_step mj mx pub n (n\<lparr>ntHub := fanout (\<lambda>_. False) (WireFrame w) sender isSystem echo (ntHub n), inFlight := None\<rparr>)"
| stored: "storeSystem mj mx now m (hbChain (ntHub n)) = (m', c) \<Longrightarrow> is_notice m \<Longrightarrow>
     net_step mj mx pub n (n\<lparr>ntHub := (ntHub n)\<lparr>hbChain := c\<rparr>, pendingNotices := (m', sender) # pendingNotices n\<rparr>)"
| notified: "pendingNotices n = xs @ (m, sender) # ys \<Longrightarrow>
     net_step mj mx pub n (n\<lparr>ntHub := fanout (\<lambda>_. False) (WireFrame m) sender True False (ntHub n),
       pendingNotices := xs @ ys\<rparr>)"
| unicast: "\<not> (\<exists>w. f = WireFrame w \<and> wChainHash w \<noteq> []) \<Longrightarrow>
     net_step mj mx pub n (n\<lparr>ntHub := unicastData c f (ntHub n)\<rparr>)"
| written: "map_of (hbClients (ntHub n)) c = Some s \<Longrightarrow> seSend s = f # fs \<Longrightarrow>
     net_step mj mx pub n (n\<lparr>ntHub := (ntHub n)\<lparr>hbClients := AList.update c (s\<lparr>seSend := fs\<rparr>) (hbClients (ntHub n))\<rparr>,
       received := (received n)(c := received n c @ [f])\<rparr>)"
| joined: "c \<notin> fst ` set (hbClients (ntHub n)) \<Longrightarrow> received n c = [] \<Longrightarrow> seSend s = [] \<Longrightarrow>
     net_step mj mx pub n (n\<lparr>ntHub := (ntHub n)\<lparr>hbClients := (c, s) # hbClients (ntHub n)\<rparr>\<rparr>)"
| left: "net_step mj mx pub n (n\<lparr>ntHub := (ntHub n)\<lparr>hbClients := AList.delete c (hbClients (ntHub n))\<rparr>\<rparr>)"

subsection \<open>Every client sees the chain in order\<close>

definition heights :: "frame list \<Rightarrow> nat list" where
  "heights fs = map (\<lambda>f. case f of WireFrame w \<Rightarrow> unat (wChainHeight w) | _ \<Rightarrow> 0)
     (filter (\<lambda>f. case f of WireFrame w \<Rightarrow> wChainHash w \<noteq> [] | _ \<Rightarrow> False) fs)"

lemma heights_append [simp]: "heights (xs @ ys) = heights xs @ heights ys"
  by (simp add: heights_def)

lemma heights_Nil [simp]: "heights [] = []"
  by (simp add: heights_def)

lemma heights_wire:
  "heights [WireFrame w] = (if wChainHash w \<noteq> [] then [unat (wChainHeight w)] else [])"
  by (simp add: heights_def)

definition unchained :: "frame \<Rightarrow> bool" where
  "unchained f \<longleftrightarrow> heights [f] = []"

lemma try_send_cases:
  obtains (queued) "try_send f s = (s\<lparr>seSend := seSend s @ [f]\<rparr>, False)" | (shed) "try_send f s = (s, True)"
  by (cases "length (seSend s) < sendQueueCap") (auto simp: try_send_def offer_frame_def)

lemma retry_no_drain: "sendWithRetry isSystem False f s = try_send f s"
  by (simp add: sendWithRetry_def try_send_def)

lemma send_each_chain [simp]:
  "hbChain (send_each pick g h) = hbChain h"
  by (simp add: send_each_def Let_def)

lemma send_each_keys [simp]: "map fst (hbClients (send_each pick g h)) = map fst (hbClients h)"
  by (simp add: send_each_def Let_def case_prod_beta comp_def)

lemma send_each_client:
  "map_of (hbClients (send_each pick g h)) c =
     map_option (\<lambda>s. if pick c then fst (g c s) else s) (map_of (hbClients h) c)"
proof -
  have "map_of (map (\<lambda>x. (fst x, fst (if pick (fst x) then g (fst x) (snd x) else (snd x, False)))) xs) c =
      map_option (\<lambda>s. if pick c then fst (g c s) else s) (map_of xs c)" for xs
    by (induction xs) auto
  then show ?thesis by (simp add: send_each_def Let_def case_prod_beta comp_def)
qed

lemma send_each_drops: "hbDrops h \<le> hbDrops (send_each pick g h)"
  by (simp add: send_each_def Let_def)

lemma send_each_no_drop:
  assumes "hbDrops (send_each pick g h) = hbDrops h" "(c, s) \<in> set (hbClients h)" "pick c"
  shows "\<not> snd (g c s)"
  using assms by (force simp: send_each_def Let_def filter_empty_conv case_prod_beta)

text \<open>A fan-out offers the frame once to every client, except to a sender that gets no echo.\<close>

definition addressed :: "conn option \<Rightarrow> bool \<Rightarrow> conn \<Rightarrow> bool" where
  "addressed sender echo c \<longleftrightarrow> Some c \<noteq> sender \<or> echo"

lemma fanout_fields [simp]:
  "hbChain (fanout d f sender sy echo h) = hbChain h"
  "map fst (hbClients (fanout d f sender sy echo h)) = map fst (hbClients h)"
  by (simp_all add: fanout_def Let_def)

lemma fanout_drops: "hbDrops h \<le> hbDrops (fanout d f sender sy echo h)"
  by (auto simp: fanout_def Let_def intro: order_trans send_each_drops)

lemma fanout_client:
  "map_of (hbClients (fanout (\<lambda>_. False) f sender sy echo h)) c =
     map_option (\<lambda>s. if addressed sender echo c then fst (try_send f s) else s) (map_of (hbClients h) c)"
  by (cases "map_of (hbClients h) c")
    (auto simp: fanout_def Let_def send_each_client retry_no_drain addressed_def)

lemma fanout_no_drop:
  assumes "hbDrops (fanout (\<lambda>_. False) f sender sy echo h) = hbDrops h"
    and "map_of (hbClients h) c = Some s" "addressed sender echo c"
  shows "seSend (fst (try_send f s)) = seSend s @ [f]"
proof -
  let ?g = "\<lambda>c. sendWithRetry sy False f"
  let ?h1 = "send_each (\<lambda>c. Some c \<noteq> sender) ?g h"
  have 1: "hbDrops ?h1 = hbDrops h"
    using assms(1) send_each_drops [of h "\<lambda>c. Some c \<noteq> sender" ?g]
      send_each_drops [of ?h1 "\<lambda>c. Some c = sender" "\<lambda>_. try_send f"]
    by (simp add: fanout_def Let_def split: if_splits)
  have "\<not> snd (try_send f s)"
  proof (cases "Some c = sender")
    case False
    then show ?thesis
      using send_each_no_drop [OF 1 map_of_SomeD [OF assms(2)]] by (simp add: retry_no_drain)
  next
    case True
    then have "hbDrops (send_each (\<lambda>c. Some c = sender) (\<lambda>_. try_send f) ?h1) = hbDrops ?h1"
      using assms(1,3) 1 by (auto simp: fanout_def Let_def addressed_def)
    moreover have "(c, s) \<in> set (hbClients ?h1)"
      using True assms(2) by (intro map_of_SomeD) (simp add: send_each_client)
    ultimately show ?thesis using send_each_no_drop True by blast
  qed
  then show ?thesis by (cases rule: try_send_cases [of f s]) auto
qed

text \<open>
  \<open>next_height\<close> is the height the next line to be sent has. What a connected client has received or has queued
  ends there, and is gap-free as long as no frame was shed since \<open>d0\<close>; what a departed client has received is an
  earlier stretch of the chain.
\<close>

definition next_height :: "net \<Rightarrow> nat" where
  "next_height n = unat (csHeight (hbChain (ntHub n))) + (if inFlight n = None then 1 else 0)"

definition outlook :: "net \<Rightarrow> conn \<Rightarrow> nat list" where
  "outlook n c = heights (received n c @
     (case map_of (hbClients (ntHub n)) c of Some s \<Rightarrow> seSend s | None \<Rightarrow> []))"

definition in_order :: "nat \<Rightarrow> nat list \<Rightarrow> bool" where
  "in_order bnd hs \<longleftrightarrow> sorted_wrt (<) hs \<and> (\<forall>x\<in>set hs. x < bnd)"

definition gap_free :: "nat list \<Rightarrow> bool" where
  "gap_free hs \<longleftrightarrow> (\<exists>a b. hs = [a..<b])"

definition up_to :: "nat \<Rightarrow> nat list \<Rightarrow> bool" where
  "up_to bnd hs \<longleftrightarrow> (\<exists>a. hs = [a..<bnd])"

definition flight_ok :: "net \<Rightarrow> bool" where
  "flight_ok n \<longleftrightarrow> (\<forall>w sender sy echo. inFlight n = Some (w, sender, sy, echo) \<longrightarrow>
     wChainHash w \<noteq> [] \<and> wChainHeight w = csHeight (hbChain (ntHub n)) \<and> (\<forall>c. addressed sender echo c))"

definition client_ok :: "int \<Rightarrow> net \<Rightarrow> conn \<Rightarrow> bool" where
  "client_ok d0 n c \<longleftrightarrow> in_order (next_height n) (outlook n c) \<and>
     (hbDrops (ntHub n) = d0 \<longrightarrow>
        (if c \<in> fst ` set (hbClients (ntHub n)) then up_to (next_height n) (outlook n c) else gap_free (outlook n c)))"

definition net_inv :: "int \<Rightarrow> net \<Rightarrow> bool" where
  "net_inv d0 n \<longleftrightarrow>
     csReady (hbChain (ntHub n)) \<and> distinct (map fst (hbClients (ntHub n))) \<and> d0 \<le> hbDrops (ntHub n) \<and>
     flight_ok n \<and> (\<forall>(m, sender)\<in>set (pendingNotices n). wChainHash m = []) \<and> (\<forall>c. client_ok d0 n c)"

lemmas net_inv_unfold = net_inv_def flight_ok_def client_ok_def

lemma in_order_mono: "in_order t hs \<Longrightarrow> t \<le> t' \<Longrightarrow> in_order t' hs"
  by (force simp: in_order_def)

lemma in_order_snoc: "in_order t hs \<Longrightarrow> in_order (Suc t) (hs @ [t])"
  by (force simp: in_order_def sorted_wrt_append)

lemma in_order_prefix: "in_order t (xs @ ys) \<Longrightarrow> in_order t xs"
  by (simp add: in_order_def sorted_wrt_append)

lemma up_to_snoc: "up_to t hs \<Longrightarrow> up_to (Suc t) (hs @ [t])"
proof -
  assume "up_to t hs"
  then obtain a where a: "hs = [a..<t]" by (auto simp: up_to_def)
  show ?thesis
  proof (cases "a \<le> t")
    case True
    then show ?thesis using a by (auto simp: up_to_def intro: exI [of _ a])
  next
    case False
    then show ?thesis using a by (auto simp: up_to_def intro: exI [of _ t])
  qed
qed

lemma gap_free_prefix: "up_to t (xs @ ys) \<Longrightarrow> gap_free xs"
proof -
  assume "up_to t (xs @ ys)"
  then obtain a where "xs @ ys = [a..<t]" by (auto simp: up_to_def)
  then have xs: "xs = take (length xs) [a..<t]" and len: "length xs + length ys = t - a"
    by (metis append_eq_conv_conj) (metis length_append length_upt \<open>xs @ ys = [a..<t]\<close>)
  show ?thesis
  proof (cases "a \<le> t")
    case True
    then have "take (length xs) [a..<t] = [a..<a + length xs]" using len by (intro take_upt) simp
    then show ?thesis unfolding gap_free_def using xs by metis
  next
    case False
    then have "xs = [0..<0]" using len by simp
    then show ?thesis unfolding gap_free_def by blast
  qed
qed

text \<open>What a fan-out does to a client's outlook: a line already announced by \<open>next_height\<close>, or a notice.\<close>

lemma outlook_fanout:
  assumes "map_of (hbClients (ntHub n)) c = Some s" "addressed sender echo c"
    and "ntHub n' = fanout (\<lambda>_. False) f sender sy echo (ntHub n)" "received n' = received n"
  shows "outlook n' c = outlook n c \<or> outlook n' c = outlook n c @ heights [f]"
    and "hbDrops (ntHub n') = hbDrops (ntHub n) \<Longrightarrow> outlook n' c = outlook n c @ heights [f]"
proof -
  have o: "outlook n' c = heights (received n c @ seSend (fst (try_send f s)))"
    using assms by (simp add: outlook_def fanout_client)
  show "outlook n' c = outlook n c \<or> outlook n' c = outlook n c @ heights [f]"
    using o assms(1) by (cases rule: try_send_cases [of f s]) (auto simp: outlook_def)
  show "outlook n' c = outlook n c @ heights [f]" if "hbDrops (ntHub n') = hbDrops (ntHub n)"
    using o assms(1) fanout_no_drop [of f sender sy echo "ntHub n" c s] that assms(2,3) by (simp add: outlook_def)
qed

lemma outlook_silent:
  assumes "heights [f] = []" "received n' = received n"
    and "ntHub n' = fanout (\<lambda>_. False) f sender sy echo (ntHub n) \<or> ntHub n' = unicastData c' f (ntHub n)"
  shows "outlook n' c = outlook n c"
proof (cases "map_of (hbClients (ntHub n)) c")
  case None
  then show ?thesis using assms by (auto simp: outlook_def fanout_client unicastData_def send_each_client)
next
  case (Some s)
  then have "seSend (fst (try_send f s)) = seSend s \<or> seSend (fst (try_send f s)) = seSend s @ [f]"
    by (cases rule: try_send_cases [of f s]) auto
  then show ?thesis
    using assms Some by (auto simp: outlook_def fanout_client unicastData_def send_each_client)
qed

lemma outlook_absent: "c \<notin> fst ` set (hbClients (ntHub n)) \<Longrightarrow> outlook n c = heights (received n c)"
  by (simp add: outlook_def map_of_eq_None_iff [THEN iffD2])

lemma keys_fanout [simp]: "fst ` set (hbClients (fanout d f sender sy echo h)) = fst ` set (hbClients h)"
  using fanout_fields(2) by (metis set_map)

lemma keys_unicast [simp]:
  "map fst (hbClients (unicastData c f h)) = map fst (hbClients h)"
  "fst ` set (hbClients (unicastData c f h)) = fst ` set (hbClients h)"
  "hbChain (unicastData c f h) = hbChain h" "hbDrops h \<le> hbDrops (unicastData c f h)"
proof -
  show k: "map fst (hbClients (unicastData c f h)) = map fst (hbClients h)" by (simp add: unicastData_def)
  show "fst ` set (hbClients (unicastData c f h)) = fst ` set (hbClients h)" using k by (metis set_map)
qed (simp_all add: unicastData_def send_each_drops)

text \<open>Steps that change no outlook and keep the heights: the invariant only needs the drops to grow.\<close>

lemma net_inv_quiet:
  assumes "net_inv d0 n" "\<And>c. outlook n' c = outlook n c" "next_height n' = next_height n"
    and "csReady (hbChain (ntHub n'))" "distinct (map fst (hbClients (ntHub n')))"
    and "fst ` set (hbClients (ntHub n')) = fst ` set (hbClients (ntHub n))"
    and "hbDrops (ntHub n) \<le> hbDrops (ntHub n')"
    and "inFlight n' = inFlight n" "csHeight (hbChain (ntHub n')) = csHeight (hbChain (ntHub n))"
    and "\<forall>(m, sender)\<in>set (pendingNotices n'). wChainHash m = []"
  shows "net_inv d0 n'"
proof -
  have "hbDrops (ntHub n) = d0" if "hbDrops (ntHub n') = d0" using that assms(1,7) by (simp add: net_inv_unfold)
  then show ?thesis using assms by (auto simp: net_inv_unfold)
qed

lemma net_inv_sent:
  assumes inv: "net_inv d0 n" and fl: "inFlight n = Some (w, sender, sy, echo)"
  shows "net_inv d0 (n\<lparr>ntHub := fanout (\<lambda>_. False) (WireFrame w) sender sy echo (ntHub n), inFlight := None\<rparr>)"
    (is "net_inv d0 ?n")
proof -
  have w: "wChainHash w \<noteq> []" "wChainHeight w = csHeight (hbChain (ntHub n))" and all: "\<And>c. addressed sender echo c"
    using inv fl by (auto simp: net_inv_unfold)
  have nx: "next_height ?n = Suc (next_height n)" by (simp add: next_height_def fl)
  have hs: "heights [WireFrame w] = [next_height n]" by (simp add: heights_wire w next_height_def fl)
  have d: "hbDrops (ntHub n) = d0" if "hbDrops (ntHub ?n) = d0"
    using that inv fanout_drops [of "ntHub n" "\<lambda>_. False" "WireFrame w" sender sy echo] by (simp add: net_inv_unfold)
  have cl: "in_order (next_height ?n) (outlook ?n c) \<and>
      (hbDrops (ntHub ?n) = d0 \<longrightarrow> (if c \<in> fst ` set (hbClients (ntHub n)) then up_to (next_height ?n) (outlook ?n c)
         else gap_free (outlook ?n c)))" for c
  proof (cases "map_of (hbClients (ntHub n)) c")
    case None
    then have "c \<notin> fst ` set (hbClients (ntHub n))" by (simp add: map_of_eq_None_iff)
    moreover from this have "outlook ?n c = outlook n c" by (simp add: outlook_absent)
    ultimately show ?thesis using inv d by (auto simp: net_inv_unfold nx intro: in_order_mono)
  next
    case (Some s)
    then have live: "c \<in> fst ` set (hbClients (ntHub n))" by (force dest: map_of_SomeD)
    note o = outlook_fanout [OF Some all, of ?n "WireFrame w" sy, simplified hs, simplified]
    have "in_order (next_height n) (outlook n c)" using inv by (simp add: net_inv_unfold)
    then have "in_order (next_height ?n) (outlook ?n c)"
      using o(1) by (auto simp: nx intro: in_order_mono in_order_snoc)
    moreover have "up_to (next_height ?n) (outlook ?n c)" if "hbDrops (ntHub ?n) = d0"
    proof -
      have "up_to (next_height n) (outlook n c)" using inv d [OF that] live by (simp add: net_inv_unfold)
      then show ?thesis using o(2) d [OF that] that by (simp add: nx up_to_snoc)
    qed
    ultimately show ?thesis using live by simp
  qed
  have "d0 \<le> hbDrops (ntHub ?n)"
    using inv fanout_drops [of "ntHub n" "\<lambda>_. False" "WireFrame w" sender sy echo] by (simp add: net_inv_unfold)
  then show ?thesis using inv cl by (simp add: net_inv_unfold)
qed

lemma linked_fields:
  assumes "csReady c" "linkAndStore mj mx now pub w c = (w', c')"
  shows "wChainHash w' \<noteq> []" "wChainHeight w' = csHeight c + 1" "csHeight c' = csHeight c + 1" "csReady c'"
proof -
  have "hex_encode (Hash p h a b t u v x y) \<noteq> []" for p h a b t u v x y
    using hex_encode_length [of "Hash p h a b t u v x y"] by (auto simp: Hash_def)
  then show "wChainHash w' \<noteq> []" "wChainHeight w' = csHeight c + 1" "csHeight c' = csHeight c + 1" "csReady c'"
    using assms by (auto simp: linkAndStore_eq Let_def linked_wire_def EnqueueWire_def appendMessageLocked_def split: prod.splits)
qed

lemma net_inv_link:
  assumes inv: "net_inv d0 n" and fl: "inFlight n = None"
    and ty: "(sy, echo) = (False, True) \<or> (sy, echo, sender) = (True, False, None)"
    and st: "linkAndStore mj mx now pub w (hbChain (ntHub n)) = (w', c)"
    and wrap: "unat (csHeight (hbChain (ntHub n))) + 1 < 2 ^ 64"
  shows "net_inv d0 (n\<lparr>ntHub := (ntHub n)\<lparr>hbChain := c\<rparr>, inFlight := Some (w', sender, sy, echo)\<rparr>)" (is "net_inv d0 ?n")
proof -
  have "csReady (hbChain (ntHub n))" using inv by (simp add: net_inv_unfold)
  note f = linked_fields [OF this st]
  have "unat (csHeight c) = unat (csHeight (hbChain (ntHub n))) + 1"
    unfolding f(3) using wrap by (subst unat_add_lem [THEN iffD1]) simp_all
  then have nx: "next_height ?n = next_height n" by (simp add: next_height_def fl)
  have "outlook ?n x = outlook n x" for x by (simp add: outlook_def)
  moreover have "\<And>c. addressed sender echo c" using ty by (auto simp: addressed_def)
  ultimately show ?thesis using inv f by (auto simp: net_inv_unfold nx)
qed

lemma net_inv_written:
  assumes inv: "net_inv d0 n" and c: "map_of (hbClients (ntHub n)) c = Some s" "seSend s = f # fs"
  shows "net_inv d0 (n\<lparr>ntHub := (ntHub n)\<lparr>hbClients := AList.update c (s\<lparr>seSend := fs\<rparr>) (hbClients (ntHub n))\<rparr>,
       received := (received n)(c := received n c @ [f])\<rparr>)" (is "net_inv d0 ?n")
proof (rule net_inv_quiet [OF inv])
  show "outlook ?n x = outlook n x" for x
    using c heights_append [of "[f]" fs] by (simp add: outlook_def update_conv')
  have "c \<in> fst ` set (hbClients (ntHub n))" using c(1) by (force dest: map_of_SomeD)
  then show "fst ` set (hbClients (ntHub ?n)) = fst ` set (hbClients (ntHub n))" by (auto simp: dom_update)
  show "distinct (map fst (hbClients (ntHub ?n)))" using inv by (simp add: net_inv_unfold distinct_update)
qed (use inv in \<open>simp_all add: net_inv_unfold next_height_def\<close>)

text \<open>A step that changes only who is connected: the clients whose outlook or presence changes are checked one by one.\<close>

lemma net_inv_presence:
  assumes inv: "net_inv d0 n" and n': "n' = n\<lparr>ntHub := (ntHub n)\<lparr>hbClients := cs\<rparr>\<rparr>"
    and "distinct (map fst cs)" "\<And>x. x \<noteq> c \<Longrightarrow> map_of cs x = map_of (hbClients (ntHub n)) x"
    and "in_order (next_height n) (outlook n' c)"
    and "hbDrops (ntHub n) = d0 \<Longrightarrow> if c \<in> fst ` set cs then up_to (next_height n) (outlook n' c) else gap_free (outlook n' c)"
  shows "net_inv d0 n'"
proof -
  have nx: "next_height n' = next_height n" and d: "hbDrops (ntHub n') = hbDrops (ntHub n)" "hbClients (ntHub n') = cs"
    by (simp_all add: n' next_height_def)
  have o: "outlook n' x = outlook n x" and k: "x \<in> fst ` set cs \<longleftrightarrow> x \<in> fst ` set (hbClients (ntHub n))" if "x \<noteq> c" for x
    using assms(4) [OF that] map_of_eq_None_iff [of cs x] map_of_eq_None_iff [of "hbClients (ntHub n)" x]
    by (simp_all add: outlook_def n')
  have "client_ok d0 n' x" for x
  proof (cases "x = c")
    case True
    then show ?thesis unfolding client_ok_def nx d using assms(5,6) by blast
  next
    case False
    have "client_ok d0 n x" using inv by (simp add: net_inv_def)
    then show ?thesis unfolding client_ok_def nx d o [OF False] k [OF False] by blast
  qed
  moreover have "flight_ok n' = flight_ok n" by (simp add: flight_ok_def n')
  ultimately show ?thesis using inv assms(3) by (simp add: net_inv_def n')
qed

lemma net_inv_joined:
  assumes inv: "net_inv d0 n" and c: "c \<notin> fst ` set (hbClients (ntHub n))" "received n c = []" "seSend s = []"
  shows "net_inv d0 (n\<lparr>ntHub := (ntHub n)\<lparr>hbClients := (c, s) # hbClients (ntHub n)\<rparr>\<rparr>)"
proof (rule net_inv_presence [OF inv refl, where c = c])
  have "up_to (next_height n) []" unfolding up_to_def by (rule exI [of _ "next_height n"]) simp
  then show "if c \<in> fst ` set ((c, s) # hbClients (ntHub n))
     then up_to (next_height n) (outlook (n\<lparr>ntHub := (ntHub n)\<lparr>hbClients := (c, s) # hbClients (ntHub n)\<rparr>\<rparr>) c)
     else gap_free (outlook (n\<lparr>ntHub := (ntHub n)\<lparr>hbClients := (c, s) # hbClients (ntHub n)\<rparr>\<rparr>) c)"
    using c by (simp add: outlook_def)
qed (use inv c in \<open>auto simp: net_inv_unfold outlook_def in_order_def\<close>)

lemma net_inv_left:
  assumes inv: "net_inv d0 n"
  shows "net_inv d0 (n\<lparr>ntHub := (ntHub n)\<lparr>hbClients := AList.delete c (hbClients (ntHub n))\<rparr>\<rparr>)" (is "net_inv d0 ?n")
proof (rule net_inv_presence [OF inv refl, where c = c])
  obtain rest where pre: "outlook n c = heights (received n c) @ rest"
    and gone: "c \<notin> fst ` set (hbClients (ntHub n)) \<Longrightarrow> rest = []"
    using map_of_eq_None_iff [of "hbClients (ntHub n)" c] by (auto simp: outlook_def split: option.splits)
  have o: "outlook ?n c = heights (received n c)" by (simp add: outlook_def delete_conv')
  have c: "in_order (next_height n) (outlook n c)"
    "hbDrops (ntHub n) = d0 \<Longrightarrow> if c \<in> fst ` set (hbClients (ntHub n)) then up_to (next_height n) (outlook n c)
       else gap_free (outlook n c)"
    using inv unfolding net_inv_unfold by blast+
  show "in_order (next_height n) (outlook ?n c)" using c(1) unfolding o pre by (rule in_order_prefix)
  have "gap_free (heights (received n c))" if "hbDrops (ntHub n) = d0"
    using c(2) [OF that] gone unfolding pre by (auto dest: gap_free_prefix split: if_splits)
  then show "if c \<in> fst ` set (AList.delete c (hbClients (ntHub n))) then up_to (next_height n) (outlook ?n c)
      else gap_free (outlook ?n c)" if "hbDrops (ntHub n) = d0"
    using that by (simp add: o delete_notin_dom)
qed (use inv in \<open>auto simp: net_inv_unfold delete_conv' distinct_delete\<close>)

text \<open>One step keeps the invariant and raises the height by at most one.\<close>

lemma net_step_inv:
  assumes "net_step mj mx pub n n'" "net_inv d0 n" "unat (csHeight (hbChain (ntHub n))) + 1 < 2 ^ 64"
  shows "net_inv d0 n' \<and> unat (csHeight (hbChain (ntHub n'))) \<le> unat (csHeight (hbChain (ntHub n))) + 1"
  using assms
proof (cases rule: net_step.cases)
  case (link isSystem echo sender now w w' c)
  have "csReady (hbChain (ntHub n))" using assms(2) by (simp add: net_inv_unfold)
  then show ?thesis
    using link net_inv_link [OF assms(2) link(2-4) assms(3)] linked_fields(3) [OF _ link(4)] assms(3)
    by (simp add: unat_add_lem [THEN iffD1])
next
  case (sent w sender isSystem echo)
  then show ?thesis using net_inv_sent [OF assms(2)] by simp
next
  case (stored now m m' c sender)
  have c: "csReady c = csReady (hbChain (ntHub n))" "csHeight c = csHeight (hbChain (ntHub n))" "wChainHash m' = wChainHash m"
    using stored(2) by (auto simp: storeSystem_eq Let_def EnqueueWire_def appendMessageLocked_def split: prod.splits)
  have "net_inv d0 n'"
    by (rule net_inv_quiet [OF assms(2)])
      (use assms(2) stored(1,3) c in \<open>auto simp: net_inv_unfold outlook_def next_height_def is_notice_def\<close>)
  then show ?thesis using c stored(1) by simp
next
  case (notified xs m sender ys)
  then have m: "heights [WireFrame m] = []" using assms(2) by (auto simp: net_inv_unfold heights_wire)
  have "net_inv d0 n'"
  proof (rule net_inv_quiet [OF assms(2)])
    show "outlook n' c = outlook n c" for c
      by (rule outlook_silent [OF m]) (use notified(1) in auto)
  qed (use assms(2) notified fanout_drops in \<open>auto simp: net_inv_unfold next_height_def\<close>)
  then show ?thesis using notified(1) by simp
next
  case (unicast f c)
  have f: "heights [f] = []" using unicast(2) by (cases f) (auto simp: heights_def)
  have "net_inv d0 n'"
  proof (rule net_inv_quiet [OF assms(2)])
    show "outlook n' x = outlook n x" for x
      by (rule outlook_silent [OF f]) (use unicast(1) in auto)
  qed (use assms(2) unicast(1) in \<open>auto simp: net_inv_unfold next_height_def\<close>)
  then show ?thesis using unicast(1) by simp
next
  case (written c s f fs)
  then show ?thesis using net_inv_written [OF assms(2)] by simp
next
  case (joined c s)
  then show ?thesis using net_inv_joined [OF assms(2)] by simp
next
  case (left c)
  then show ?thesis using net_inv_left [OF assms(2)] by simp
qed

definition net_start :: "net \<Rightarrow> bool" where
  "net_start n \<longleftrightarrow> csReady (hbChain (ntHub n)) \<and> hbClients (ntHub n) = [] \<and> inFlight n = None \<and>
     pendingNotices n = [] \<and> received n = (\<lambda>_. [])"

lemma net_start_inv: "net_start n \<Longrightarrow> net_inv (hbDrops (ntHub n)) n"
proof -
  have "gap_free []" unfolding gap_free_def by (intro exI [of _ 0]) simp
  then show "net_start n \<Longrightarrow> ?thesis" by (auto simp: net_start_def net_inv_unfold outlook_def in_order_def)
qed

lemma net_run_inv:
  assumes "(net_step mj mx pub ^^ k) n n'" "net_inv d0 n" "unat (csHeight (hbChain (ntHub n))) + k < 2 ^ 64"
  shows "net_inv d0 n' \<and> unat (csHeight (hbChain (ntHub n'))) \<le> unat (csHeight (hbChain (ntHub n))) + k"
  using assms
proof (induction k arbitrary: n')
  case (Suc k)
  from Suc.prems(1) obtain m where m: "(net_step mj mx pub ^^ k) n m" "net_step mj mx pub m n'" by auto
  have "net_inv d0 m \<and> unat (csHeight (hbChain (ntHub m))) \<le> unat (csHeight (hbChain (ntHub n))) + k"
    using Suc.IH [OF m(1)] Suc.prems(2,3) by simp
  then show ?case using net_step_inv [OF m(2)] Suc.prems(3) by fastforce
qed simp

text \<open>C18. Every client sees the chain in order: in every interleaving of chained broadcasts, notices, unicasts, writers,
  arrivals and departures that the locks allow, the chained lines a client has received have strictly increasing
  heights; and when no frame was shed, they are consecutive heights, without a gap.\<close>

theorem chain_order_per_client:
  assumes "net_start n" "(net_step mj mx pub ^^ k) n n'" "unat (csHeight (hbChain (ntHub n))) + k < 2 ^ 64"
  shows "sorted_wrt (<) (heights (received n' c)) \<and>
    (hbDrops (ntHub n') = hbDrops (ntHub n) \<longrightarrow> (\<exists>a b. heights (received n' c) = [a..<b]))"
proof -
  have inv: "net_inv (hbDrops (ntHub n)) n'" using net_run_inv [OF assms(2) net_start_inv] assms by blast
  obtain rest where o: "outlook n' c = heights (received n' c) @ rest"
    by (auto simp: outlook_def split: option.splits)
  have "if c \<in> fst ` set (hbClients (ntHub n')) then up_to (next_height n') (outlook n' c) else gap_free (outlook n' c)"
    if "hbDrops (ntHub n') = hbDrops (ntHub n)"
    using inv that unfolding net_inv_unfold by blast
  then have "gap_free (heights (received n' c))" if "hbDrops (ntHub n') = hbDrops (ntHub n)"
    using that o by (cases "c \<in> fst ` set (hbClients (ntHub n'))") (auto simp: outlook_absent dest: gap_free_prefix)
  moreover have "sorted_wrt (<) (heights (received n' c))"
    using inv o by (auto simp: net_inv_unfold in_order_def sorted_wrt_append dest: spec [of _ c])
  ultimately show ?thesis by (auto simp: gap_free_def)
qed

text \<open>The broadcasts are runs of the relation: an uninterrupted one is its two steps in a row.\<close>

lemma BroadcastWire_steps:
  assumes "inFlight n = None" "heDrained env = (\<lambda>_. False)"
  shows "(net_step (heMarshal env) (heMax env) pub ^^ 2) n (n\<lparr>ntHub := BroadcastWire env now w sender pub (ntHub n)\<rparr>)"
proof -
  obtain w' c where lk: "linkAndStore (heMarshal env) (heMax env) now pub w (hbChain (ntHub n)) = (w', c)" by fastforce
  let ?m = "n\<lparr>ntHub := (ntHub n)\<lparr>hbChain := c\<rparr>, inFlight := Some (w', sender, False, True)\<rparr>"
  have "net_step (heMarshal env) (heMax env) pub n ?m" by (rule net_step.link [OF assms(1) _ lk]) simp
  moreover have "net_step (heMarshal env) (heMax env) pub ?m (n\<lparr>ntHub := BroadcastWire env now w sender pub (ntHub n)\<rparr>)"
  proof -
    have "n\<lparr>ntHub := x, inFlight := None\<rparr> = n\<lparr>ntHub := x\<rparr>" for x using assms(1) by (cases n) simp
    then show ?thesis
      using net_step.sent [of ?m w' sender False True "heMarshal env" "heMax env" pub] assms(2)
      by (simp add: BroadcastWire_def link_wire_def lk)
  qed
  ultimately show ?thesis by (auto simp: eval_nat_numeral)
qed

lemma send_system_steps:
  assumes "is_notice m" "heDrained env = (\<lambda>_. False)"
  shows "(net_step (heMarshal env) (heMax env) pub ^^ 2) n (n\<lparr>ntHub := send_system env now m sender (ntHub n)\<rparr>)"
proof -
  obtain m' c where st: "storeSystem (heMarshal env) (heMax env) now m (hbChain (ntHub n)) = (m', c)" by fastforce
  let ?m = "n\<lparr>ntHub := (ntHub n)\<lparr>hbChain := c\<rparr>, pendingNotices := (m', sender) # pendingNotices n\<rparr>"
  have "net_step (heMarshal env) (heMax env) pub n ?m" by (rule net_step.stored [OF st assms(1)])
  moreover have "net_step (heMarshal env) (heMax env) pub ?m (n\<lparr>ntHub := send_system env now m sender (ntHub n)\<rparr>)"
  proof -
    have "n\<lparr>ntHub := x, pendingNotices := pendingNotices n\<rparr> = n\<lparr>ntHub := x\<rparr>" for x by (cases n) simp
    then show ?thesis
      using net_step.notified [of ?m "[]" m' sender "pendingNotices n" "heMarshal env" "heMax env" pub] assms(2)
      by (simp add: send_system_def store_notice_def st)
  qed
  ultimately show ?thesis by (auto simp: eval_nat_numeral)
qed

definition ex_session :: ClientSession where
  "ex_session = \<lparr>seConn = 7, seDisplayName = ''ann#0000'', seTripcode = [],
     sePerms = \<lparr>canMessageUnlimited = False, customPrefix = []\<rparr>, seSend = [], seIP = ''1.2.3.4'', seAuthType = ''guest'',
     sePlatform = ''native'', seIdentityPub = [], seTripPub = [], seTripBadge = [], seHost = [], seWantJoins = False\<rparr>"

definition ex_net :: net where
  "ex_net = \<lparr>ntHub = empty_hub ex_vote_log, inFlight = None, pendingNotices = [], received = (\<lambda>_. [])\<rparr>"

lemma four_steps: "R a b \<Longrightarrow> R b c \<Longrightarrow> R c d \<Longrightarrow> R d e \<Longrightarrow> (R ^^ 4) a e"
  by (auto simp: eval_nat_numeral)

text \<open>A client joins, a line is linked, sent and written out: height 1 arrives.\<close>

lemma ex_net_run: "\<exists>n'. (net_step wText 1000 [] ^^ 4) ex_net n' \<and> heights (received n' 7) = [1]"
proof -
  obtain w c where lk: "linkAndStore wText 1000 0 [] zero_wire ex_vote_log = (w, c)" by fastforce
  have w: "wChainHash w \<noteq> []" "wChainHeight w = 1"
    using linked_fields [OF _ lk] by (simp_all add: ex_vote_log_def)
  let ?n1 = "ex_net\<lparr>ntHub := (ntHub ex_net)\<lparr>hbClients := (7, ex_session) # hbClients (ntHub ex_net)\<rparr>\<rparr>"
  let ?n2 = "?n1\<lparr>ntHub := (ntHub ?n1)\<lparr>hbChain := c\<rparr>, inFlight := Some (w, None, False, True)\<rparr>"
  let ?n3 = "?n2\<lparr>ntHub := fanout (\<lambda>_. False) (WireFrame w) None False True (ntHub ?n2), inFlight := None\<rparr>"
  let ?n4 = "?n3\<lparr>ntHub := (ntHub ?n3)\<lparr>hbClients := AList.update 7 (ex_session\<lparr>seSend := []\<rparr>) (hbClients (ntHub ?n3))\<rparr>,
     received := (received ?n3)(7 := received ?n3 7 @ [WireFrame w])\<rparr>"
  have 1: "net_step wText 1000 [] ex_net ?n1"
    by (rule net_step.joined) (simp_all add: ex_net_def empty_hub_def ex_session_def)
  have 2: "net_step wText 1000 [] ?n1 ?n2"
    by (rule net_step.link [where now = 0 and w = zero_wire]) (use lk in \<open>simp_all add: ex_net_def empty_hub_def\<close>)
  have 3: "net_step wText 1000 [] ?n2 ?n3" by (rule net_step.sent) simp
  have q: "fst (try_send (WireFrame w) ex_session) = ex_session\<lparr>seSend := [WireFrame w]\<rparr>"
    by (simp add: try_send_def offer_frame_def ex_session_def sendQueueCap_def)
  have 4: "net_step wText 1000 [] ?n3 ?n4"
    using net_step.written [of ?n3 7 "ex_session\<lparr>seSend := [WireFrame w]\<rparr>" "WireFrame w" "[]" wText 1000 "[]"]
    by (simp add: fanout_client addressed_def q)
  have "(net_step wText 1000 [] ^^ 4) ex_net ?n4" using 1 2 3 4 by (rule four_steps)
  moreover have "heights (received ?n4 7) = [1]" by (simp add: ex_net_def heights_wire w)
  ultimately show ?thesis by blast
qed

theorem chain_order_per_client_witness:
  "\<exists>n'. (net_step wText 1000 [] ^^ 4) ex_net n' \<and> heights (received n' 7) = [1] \<and> sorted_wrt (<) (heights (received n' 7))"
proof -
  obtain n' where n': "(net_step wText 1000 [] ^^ 4) ex_net n'" "heights (received n' 7) = [1]" using ex_net_run by blast
  have "net_start ex_net" by (simp add: net_start_def ex_net_def empty_hub_def ex_vote_log_def)
  moreover have "unat (csHeight (hbChain (ntHub ex_net))) + 4 < 2 ^ 64"
    by (simp add: ex_net_def empty_hub_def ex_vote_log_def)
  ultimately show ?thesis using chain_order_per_client n' by blast
qed

end
