(* ===== verification/Screening.thy ===== *)
theory Screening
  imports Pow Machines
begin

text \<open>
  The in-chat screener, \<open>PowScreener\<close> of \<^verbatim>\<open>src/server/powscreen.go\<close>: outstanding challenges by connection and by
  id, the connections that may only read, and the re-check timers by address. A connection is a number (the Go pointer).
  Go visits the keys of a map in any order while \<open>CheckDeadline\<close> deletes from it: the order is the argument
  \<open>order\<close>. Challenge ids are random; where a proof needs them to be new it says so.
\<close>

subsection \<open>State and operations\<close>

record ScreenChallenge =
  shID :: string
  shIP :: string
  shConn :: nat
  shTier :: int
  shPreset :: Preset
  shSalt :: string
  shExpires :: time

record PowScreener =
  scScreens :: "nat \<rightharpoonup> ScreenChallenge"
  scByID :: "string \<rightharpoonup> nat"
  scMuted :: "nat \<Rightarrow> bool"
  scNextCheck :: "string \<rightharpoonup> time"

definition NewPowScreener :: PowScreener where
  "NewPowScreener = \<lparr>scScreens = Map.empty, scByID = Map.empty, scMuted = (\<lambda>_. False), scNextCheck = Map.empty\<rparr>"

definition screen_Issue ::
  "nat \<Rightarrow> string \<Rightarrow> int \<Rightarrow> Preset \<Rightarrow> string \<Rightarrow> string \<Rightarrow> time \<Rightarrow> PowScreener \<Rightarrow> PowScreener" where
  "screen_Issue c ip tier preset salt i expires sc =
     (let ids = (case scScreens sc c of Some old \<Rightarrow> (scByID sc)(shID old := None) | None \<Rightarrow> scByID sc)
      in sc\<lparr>scScreens := (scScreens sc)(c \<mapsto> \<lparr>shID = i, shIP = ip, shConn = c, shTier = tier, shPreset = preset,
                 shSalt = salt, shExpires = expires\<rparr>),
            scByID := ids(i \<mapsto> c), scMuted := (scMuted sc)(c := False)\<rparr>)"

text \<open>\<open>delete(sc.screens, conn); delete(sc.byID, id)\<close>.\<close>

definition forget_screen :: "nat \<Rightarrow> string \<Rightarrow> PowScreener \<Rightarrow> PowScreener" where
  "forget_screen c i sc = sc\<lparr>scScreens := (scScreens sc)(c := None), scByID := (scByID sc)(i := None)\<rparr>"

definition screen_Resolve :: "argon2id \<Rightarrow> time \<Rightarrow> string \<Rightarrow> u64 \<Rightarrow> PowScreener \<Rightarrow> (nat option \<times> bool) \<times> PowScreener" where
  "screen_Resolve argon now i nonce sc =
     (case scByID sc i of
        None \<Rightarrow> ((None, False), sc)
      | Some c \<Rightarrow>
          (case scScreens sc c of
             None \<Rightarrow> ((None, False), forget_screen c i sc)
           | Some ch \<Rightarrow>
               if now > shExpires ch then ((None, False), forget_screen c i sc)
               else if \<not> Verify argon (shPreset ch) (shSalt ch) nonce then ((None, False), forget_screen c i sc)
               else ((Some c, True),
                 (forget_screen c i sc)\<lparr>scMuted := (scMuted sc)(c := False)\<rparr>)))"

definition screen_Decline :: "string \<Rightarrow> PowScreener \<Rightarrow> (nat option \<times> bool) \<times> PowScreener" where
  "screen_Decline i sc =
     (case scByID sc i of
        None \<Rightarrow> ((None, False), sc)
      | Some c \<Rightarrow> ((Some c, True), (forget_screen c i sc)\<lparr>scMuted := (scMuted sc)(c := True)\<rparr>))"

definition IsMuted :: "nat \<Rightarrow> PowScreener \<Rightarrow> bool" where
  "IsMuted c sc = scMuted sc c"

definition Unmute :: "nat \<Rightarrow> PowScreener \<Rightarrow> PowScreener" where
  "Unmute c sc = sc\<lparr>scMuted := (scMuted sc)(c := False)\<rparr>"

text \<open>The loop over the map: the connections to kick and to mute, in the order visited.\<close>

fun deadline_loop :: "time \<Rightarrow> bool \<Rightarrow> nat list \<Rightarrow> (nat list \<times> nat list) \<times> PowScreener \<Rightarrow> (nat list \<times> nat list) \<times> PowScreener" where
  "deadline_loop now attacked [] st = st"
| "deadline_loop now attacked (c # cs) ((kick, mute), sc) =
     (case scScreens sc c of
        None \<Rightarrow> deadline_loop now attacked cs ((kick, mute), sc)
      | Some ch \<Rightarrow>
          if now < shExpires ch then deadline_loop now attacked cs ((kick, mute), sc)
          else let sc1 = forget_screen c (shID ch) sc in
            if attacked then deadline_loop now attacked cs ((kick @ [c], mute), sc1)
            else deadline_loop now attacked cs ((kick, mute @ [c]), sc1\<lparr>scMuted := (scMuted sc1)(c := True)\<rparr>))"

definition CheckDeadline :: "time \<Rightarrow> bool \<Rightarrow> nat list \<Rightarrow> PowScreener \<Rightarrow> (nat list \<times> nat list) \<times> PowScreener" where
  "CheckDeadline now attacked order sc = deadline_loop now attacked order (([], []), sc)"

definition DropConn :: "nat \<Rightarrow> PowScreener \<Rightarrow> PowScreener" where
  "DropConn c sc =
     (let sc1 = (case scScreens sc c of Some ch \<Rightarrow> forget_screen c (shID ch) sc | None \<Rightarrow> sc)
      in sc1\<lparr>scMuted := (scMuted sc1)(c := False)\<rparr>)"

definition screen_Get :: "nat \<Rightarrow> PowScreener \<Rightarrow> ScreenChallenge option" where
  "screen_Get c sc = scScreens sc c"

definition screen_Has :: "nat \<Rightarrow> PowScreener \<Rightarrow> bool" where
  "screen_Has c sc \<longleftrightarrow> scScreens sc c \<noteq> None"

definition screen_Due :: "string \<Rightarrow> time \<Rightarrow> PowScreener \<Rightarrow> bool" where
  "screen_Due ip now sc = (case scNextCheck sc ip of None \<Rightarrow> True | Some t \<Rightarrow> \<not> now < t)"

definition screen_Defer :: "string \<Rightarrow> time \<Rightarrow> PowScreener \<Rightarrow> PowScreener" where
  "screen_Defer ip t sc = sc\<lparr>scNextCheck := (scNextCheck sc)(ip \<mapsto> t)\<rparr>"

definition ForgetCheck :: "string \<Rightarrow> PowScreener \<Rightarrow> PowScreener" where
  "ForgetCheck ip sc = sc\<lparr>scNextCheck := (scNextCheck sc)(ip := None)\<rparr>"

subsection \<open>The books\<close>

datatype screen_op =
    OpIssue nat string int Preset string string time
  | OpResolve time string u64
  | OpDecline string
  | OpUnmute nat
  | OpDeadline time bool "nat list"
  | OpDrop nat
  | OpDefer string time
  | OpForget string

fun screen_step :: "argon2id \<Rightarrow> screen_op \<Rightarrow> PowScreener \<Rightarrow> PowScreener" where
  "screen_step argon (OpIssue c ip tier p salt i ex) sc = screen_Issue c ip tier p salt i ex sc"
| "screen_step argon (OpResolve now i nonce) sc = snd (screen_Resolve argon now i nonce sc)"
| "screen_step argon (OpDecline i) sc = snd (screen_Decline i sc)"
| "screen_step argon (OpUnmute c) sc = Unmute c sc"
| "screen_step argon (OpDeadline now attacked order) sc = snd (CheckDeadline now attacked order sc)"
| "screen_step argon (OpDrop c) sc = DropConn c sc"
| "screen_step argon (OpDefer ip t) sc = screen_Defer ip t sc"
| "screen_step argon (OpForget ip) sc = ForgetCheck ip sc"

text \<open>The two indexes are inverse to each other, and a muted connection owes no challenge.\<close>

definition books_ok :: "PowScreener \<Rightarrow> bool" where
  "books_ok sc \<longleftrightarrow>
     (\<forall>i c. scByID sc i = Some c \<longrightarrow> (\<exists>ch. scScreens sc c = Some ch \<and> shID ch = i)) \<and>
     (\<forall>c ch. scScreens sc c = Some ch \<longrightarrow> scByID sc (shID ch) = Some c \<and> shConn ch = c \<and> \<not> scMuted sc c)"

fun fresh_id :: "PowScreener \<Rightarrow> screen_op \<Rightarrow> bool" where
  "fresh_id sc (OpIssue c ip tier p salt i ex) = (scByID sc i = None)"
| "fresh_id sc _ = True"

lemma books_mute: "books_ok sc \<Longrightarrow> scScreens sc c = None \<or> \<not> b \<Longrightarrow> books_ok (sc\<lparr>scMuted := (scMuted sc)(c := b)\<rparr>)"
  by (auto simp: books_ok_def)

lemma forget_fields [simp]:
  "scScreens (forget_screen c i sc) = (scScreens sc)(c := None)" "scByID (forget_screen c i sc) = (scByID sc)(i := None)"
  "scMuted (forget_screen c i sc) = scMuted sc"
  by (simp_all add: forget_screen_def)

lemma booksI:
  "(\<And>i c. scByID sc i = Some c \<Longrightarrow> \<exists>ch. scScreens sc c = Some ch \<and> shID ch = i) \<Longrightarrow>
   (\<And>c ch. scScreens sc c = Some ch \<Longrightarrow> scByID sc (shID ch) = Some c \<and> shConn ch = c \<and> \<not> scMuted sc c) \<Longrightarrow> books_ok sc"
  by (simp add: books_ok_def)

lemma books_id: "books_ok sc \<Longrightarrow> scByID sc i = Some c \<Longrightarrow> \<exists>ch. scScreens sc c = Some ch \<and> shID ch = i"
  by (simp add: books_ok_def)

lemma books_screen:
  "books_ok sc \<Longrightarrow> scScreens sc c = Some ch \<Longrightarrow> scByID sc (shID ch) = Some c \<and> shConn ch = c \<and> \<not> scMuted sc c"
  by (simp add: books_ok_def)

lemma books_forget:
  assumes ok: "books_ok sc" and i: "scByID sc i = Some c"
  shows "books_ok (forget_screen c i sc)"
proof (rule booksI)
  fix j d assume "scByID (forget_screen c i sc) j = Some d"
  then have j: "j \<noteq> i" "scByID sc j = Some d" by (auto split: if_splits)
  from books_id [OF ok j(2)] books_id [OF ok i] j(1) show "\<exists>ch. scScreens (forget_screen c i sc) d = Some ch \<and> shID ch = j"
    by auto
next
  fix d ch assume "scScreens (forget_screen c i sc) d = Some ch"
  then have d: "d \<noteq> c" "scScreens sc d = Some ch" by (auto split: if_splits)
  from books_screen [OF ok d(2)] d(1) i
  show "scByID (forget_screen c i sc) (shID ch) = Some d \<and> shConn ch = d \<and> \<not> scMuted (forget_screen c i sc) d"
    by auto
qed

lemma books_issue_new:
  assumes ok: "books_ok sc" and new: "scByID sc i = None" and none: "scScreens sc c = None"
  shows "books_ok (screen_Issue c ip tier p salt i ex sc)" (is "books_ok ?sc")
proof (rule booksI)
  fix j d assume "scByID ?sc j = Some d"
  then show "\<exists>ch. scScreens ?sc d = Some ch \<and> shID ch = j"
    using books_id [OF ok, of j d] none by (auto simp: screen_Issue_def split: if_splits)
next
  fix d ch assume "scScreens ?sc d = Some ch"
  then show "scByID ?sc (shID ch) = Some d \<and> shConn ch = d \<and> \<not> scMuted ?sc d"
    using books_screen [OF ok, of d ch] none new by (auto simp: screen_Issue_def split: if_splits)
qed

lemma issue_replaces:
  "scScreens sc c = Some old \<Longrightarrow>
     screen_Issue c ip tier p salt i ex sc = screen_Issue c ip tier p salt i ex (forget_screen c (shID old) sc)"
  by (simp add: screen_Issue_def forget_screen_def)

lemma books_issue:
  assumes ok: "books_ok sc" and new: "scByID sc i = None"
  shows "books_ok (screen_Issue c ip tier p salt i ex sc)"
proof (cases "scScreens sc c")
  case None
  then show ?thesis using ok new by (intro books_issue_new)
next
  case (Some old)
  then have "books_ok (forget_screen c (shID old) sc)" using books_screen [OF ok Some] ok by (intro books_forget) auto
  then show ?thesis unfolding issue_replaces [OF Some] using new by (intro books_issue_new) auto
qed

lemma deadline_books: "books_ok (snd st) \<Longrightarrow> books_ok (snd (deadline_loop now attacked cs st))"
proof (induction now attacked cs st rule: deadline_loop.induct)
  case (2 now attacked c cs kick mute sc)
  show ?case
  proof (cases "scScreens sc c")
    case None
    then show ?thesis using 2 by simp
  next
    case (Some ch)
    have "books_ok (forget_screen c (shID ch) sc)"
      using 2(5) books_screen [OF _ Some] by (intro books_forget) auto
    moreover from this have "books_ok ((forget_screen c (shID ch) sc)\<lparr>scMuted := (scMuted sc)(c := True)\<rparr>)"
      using books_mute [of "forget_screen c (shID ch) sc" c True] by simp
    ultimately show ?thesis using 2 Some by (simp add: Let_def)
  qed
qed simp

lemma screen_step_books:
  assumes ok: "books_ok sc" and "fresh_id sc e"
  shows "books_ok (screen_step argon e sc)"
proof (cases e)
  case (OpIssue c ip tier p salt i ex)
  then show ?thesis using assms books_issue by simp
next
  case (OpResolve now i nonce)
  have "books_ok ((forget_screen c i sc)\<lparr>scMuted := (scMuted sc)(c := False)\<rparr>)" if "scByID sc i = Some c" for c
    using books_mute [OF books_forget [OF ok that], of c False] by simp
  then show ?thesis using ok books_forget OpResolve by (auto simp: screen_Resolve_def split: option.splits)
next
  case (OpDecline i)
  have "books_ok ((forget_screen c i sc)\<lparr>scMuted := (scMuted sc)(c := True)\<rparr>)" if "scByID sc i = Some c" for c
    using books_mute [OF books_forget [OF ok that], of c True] by simp
  then show ?thesis using ok OpDecline by (auto simp: screen_Decline_def split: option.splits)
next
  case (OpUnmute c)
  then show ?thesis using books_mute [OF ok, of c False] by (simp add: Unmute_def)
next
  case (OpDeadline now attacked order)
  then show ?thesis using deadline_books [of "(([], []), sc)"] ok by (simp add: CheckDeadline_def)
next
  case (OpDrop c)
  show ?thesis
  proof (cases "scScreens sc c")
    case None
    then show ?thesis using books_mute [OF ok, of c False] OpDrop by (simp add: DropConn_def)
  next
    case (Some ch)
    have "books_ok (forget_screen c (shID ch) sc)" using books_screen [OF ok Some] ok by (intro books_forget) auto
    then show ?thesis using books_mute [of "forget_screen c (shID ch) sc" c False] Some OpDrop by (simp add: DropConn_def)
  qed
qed (use ok in \<open>auto simp: books_ok_def screen_Defer_def ForgetCheck_def\<close>)

interpretation screener: machine "screen_step argon" fresh_id books_ok for argon
  by unfold_locales (rule screen_step_books)

lemma new_books: "books_ok NewPowScreener"
  by (simp add: books_ok_def NewPowScreener_def)

subsection \<open>What each step leaves alone\<close>

definition overdue :: "time \<Rightarrow> PowScreener \<Rightarrow> nat \<Rightarrow> bool" where
  "overdue now sc c \<longleftrightarrow> (\<exists>ch. scScreens sc c = Some ch \<and> \<not> now < shExpires ch)"

text \<open>What the loop does to one overdue challenge.\<close>

definition settle :: "bool \<Rightarrow> nat \<Rightarrow> PowScreener \<Rightarrow> PowScreener" where
  "settle attacked c sc =
     (case scScreens sc c of
        None \<Rightarrow> sc
      | Some ch \<Rightarrow> (forget_screen c (shID ch) sc)\<lparr>scMuted := (if attacked then scMuted sc else (scMuted sc)(c := True))\<rparr>)"

lemma deadline_Cons:
  "deadline_loop now attacked (c # cs) ((k, m), sc) =
     (if overdue now sc c
      then deadline_loop now attacked cs ((if attacked then k @ [c] else k, if attacked then m else m @ [c]), settle attacked c sc)
      else deadline_loop now attacked cs ((k, m), sc))"
proof -
  have "sc\<lparr>scMuted := scMuted sc\<rparr> = sc" for sc :: PowScreener by simp
  then show ?thesis
    by (auto simp: overdue_def settle_def forget_screen_def Let_def split: option.splits)
qed

declare deadline_loop.simps(2) [simp del]

lemma settle_screens: "overdue now sc c \<Longrightarrow> scScreens (settle attacked c sc) = (scScreens sc)(c := None)"
  by (auto simp: overdue_def settle_def)

lemma settle_overdue: "overdue now sc c \<Longrightarrow> overdue t (settle attacked c sc) d \<longleftrightarrow> d \<noteq> c \<and> overdue t sc d"
  by (auto simp: overdue_def settle_def split: option.splits if_splits)

lemma deadline_screens:
  "scScreens (snd (deadline_loop now attacked cs ((k, m), sc))) c =
     (if c \<in> set cs \<and> overdue now sc c then None else scScreens sc c)"
  by (induction cs arbitrary: k m sc) (auto simp: deadline_Cons settle_screens settle_overdue)

lemma deadline_ids:
  "scByID sc i = None \<Longrightarrow> scByID (snd (deadline_loop now attacked cs ((k, m), sc))) i = None"
  by (induction cs arbitrary: k m sc) (auto simp: deadline_Cons settle_def split: option.splits)

lemma deadline_muted:
  "scMuted (snd (deadline_loop now attacked cs ((k, m), sc))) c \<longleftrightarrow>
     scMuted sc c \<or> (\<not> attacked \<and> c \<in> set cs \<and> overdue now sc c)"
proof (induction cs arbitrary: k m sc)
  case (Cons d cs)
  have "scMuted (settle attacked d sc) c \<longleftrightarrow> scMuted sc c \<or> (\<not> attacked \<and> c = d)" if "overdue now sc d"
    using that by (auto simp: settle_def overdue_def)
  then show ?case using Cons by (auto simp: deadline_Cons settle_overdue)
qed simp

lemma deadline_lists:
  "distinct cs \<Longrightarrow> fst (deadline_loop now attacked cs ((k, m), sc)) =
     (if attacked then (k @ filter (overdue now sc) cs, m) else (k, m @ filter (overdue now sc) cs))"
proof (induction cs arbitrary: k m sc)
  case (Cons c cs)
  have "filter (overdue now (settle attacked c sc)) cs = filter (overdue now sc) cs" if "overdue now sc c"
    using that Cons.prems by (auto simp: settle_overdue intro!: filter_cong)
  then show ?case using Cons by (cases attacked; simp add: deadline_Cons)
qed simp

lemmas screen_op_defs = screen_Resolve_def screen_Decline_def CheckDeadline_def DropConn_def Unmute_def
  screen_Defer_def ForgetCheck_def

text \<open>An outstanding challenge was issued in exactly these terms.\<close>

lemma step_screens:
  assumes "scScreens (screen_step argon e sc) c = Some ch"
  shows "scScreens sc c = Some ch \<or>
    e = OpIssue c (shIP ch) (shTier ch) (shPreset ch) (shSalt ch) (shID ch) (shExpires ch)"
proof (cases e)
  case (OpDeadline now attacked order)
  then show ?thesis using assms by (simp add: CheckDeadline_def deadline_screens split: if_splits)
qed (use assms in \<open>auto simp: screen_op_defs screen_Issue_def Let_def split: option.splits if_splits\<close>)

fun issues_to :: "nat \<Rightarrow> screen_op \<Rightarrow> bool" where
  "issues_to c (OpIssue d ip tier p salt i ex) = (d = c)"
| "issues_to c _ = False"

lemma run_screens:
  "scScreens (fold (screen_step argon) es NewPowScreener) c = Some ch \<Longrightarrow>
     \<exists>before after. es = before @ OpIssue c (shIP ch) (shTier ch) (shPreset ch) (shSalt ch) (shID ch) (shExpires ch) # after \<and>
       (\<forall>e\<in>set after. \<not> issues_to c e)"
proof (induction es rule: rev_induct)
  case (snoc e es)
  let ?issue = "OpIssue c (shIP ch) (shTier ch) (shPreset ch) (shSalt ch) (shID ch) (shExpires ch)"
  have after: "scScreens (screen_step argon e (fold (screen_step argon) es NewPowScreener)) c = Some ch" using snoc.prems by simp
  show ?case
  proof (cases "issues_to c e")
    case True
    then have "e = ?issue" using after by (cases e) (auto simp: screen_Issue_def)
    then show ?thesis by (intro exI [of _ es] exI [of _ "[]"]) simp
  next
    case False
    then obtain before post where "es = before @ ?issue # post" "\<forall>e\<in>set post. \<not> issues_to c e"
      using step_screens [OF after] snoc.IH by auto
    then show ?thesis using False by (intro exI [of _ before] exI [of _ "post @ [e]"]) auto
  qed
qed (simp add: NewPowScreener_def)

text \<open>An id always leads to the challenge that bears it, whatever ids are drawn.\<close>

definition ids_lead :: "PowScreener \<Rightarrow> bool" where
  "ids_lead sc \<longleftrightarrow> (\<forall>i c. scByID sc i = Some c \<longrightarrow> (\<exists>ch. scScreens sc c = Some ch \<and> shID ch = i))"

lemma ids_leadD: "ids_lead sc \<Longrightarrow> scByID sc i = Some c \<Longrightarrow> scScreens sc c = Some ch \<Longrightarrow> shID ch = i"
  unfolding ids_lead_def by fastforce

lemma ids_lead_forget: "ids_lead sc \<Longrightarrow> scScreens sc c = Some ch \<Longrightarrow> shID ch = i \<Longrightarrow> ids_lead (forget_screen c i sc)"
  by (force simp: ids_lead_def)

lemma ids_lead_mute [simp]: "ids_lead (sc\<lparr>scMuted := m\<rparr>) = ids_lead sc"
  by (simp add: ids_lead_def)

lemma deadline_leads: "ids_lead sc \<Longrightarrow> ids_lead (snd (deadline_loop now attacked cs ((k, m), sc)))"
proof (induction cs arbitrary: k m sc)
  case (Cons c cs)
  have "ids_lead (settle attacked c sc)" using Cons.prems by (auto simp: settle_def intro: ids_lead_forget split: option.split)
  then show ?case using Cons by (simp add: deadline_Cons)
qed simp

lemma step_leads:
  assumes "ids_lead sc"
  shows "ids_lead (screen_step argon e sc)"
proof (cases e)
  case (OpIssue c ip tier p salt i ex)
  show ?thesis
  proof (cases "scScreens sc c")
    case None
    then show ?thesis using assms by (force simp: OpIssue screen_Issue_def ids_lead_def)
  next
    case (Some old)
    then have "\<forall>j. scByID sc j = Some c \<longrightarrow> j = shID old" using ids_leadD [OF assms] by blast
    then show ?thesis using assms Some by (auto simp: OpIssue screen_Issue_def ids_lead_def)
  qed
next
  case (OpResolve now i nonce)
  have "ids_lead (forget_screen c i sc)" if "scByID sc i = Some c" for c
    using ids_lead_forget [OF assms, of c _ i] assms [unfolded ids_lead_def, rule_format, OF that] by blast
  then show ?thesis using assms OpResolve by (auto simp: screen_Resolve_def split: option.split)
next
  case (OpDecline i)
  have "ids_lead (forget_screen c i sc)" if "scByID sc i = Some c" for c
    using ids_lead_forget [OF assms, of c _ i] assms [unfolded ids_lead_def, rule_format, OF that] by blast
  then show ?thesis using assms OpDecline by (auto simp: screen_Decline_def split: option.split)
next
  case (OpDeadline now attacked order)
  then show ?thesis using assms deadline_leads by (simp add: CheckDeadline_def)
next
  case (OpDrop c)
  then show ?thesis using assms ids_lead_forget [OF assms, of c] by (auto simp: DropConn_def split: option.split)
qed (use assms in \<open>auto simp: ids_lead_def Unmute_def screen_Defer_def ForgetCheck_def\<close>)

interpretation ids: machine "screen_step argon" "\<lambda>_ _. True" ids_lead for argon
  by unfold_locales (rule step_leads)

lemma run_leads: "ids_lead (fold (screen_step argon) es NewPowScreener)"
  by (rule ids.run_inv) (simp_all add: ids_lead_def NewPowScreener_def ids.admissible_if_all)

fun issues_id :: "string \<Rightarrow> screen_op \<Rightarrow> bool" where
  "issues_id i (OpIssue c ip tier p salt j ex) = (j = i)"
| "issues_id i _ = False"

lemma step_id_gone:
  assumes "scByID sc i = None" "\<not> issues_id i e"
  shows "scByID (screen_step argon e sc) i = None"
proof (cases e)
  case (OpDeadline now attacked order)
  then show ?thesis using assms deadline_ids by (simp add: CheckDeadline_def)
qed (use assms in \<open>auto simp: screen_op_defs screen_Issue_def Let_def split: option.splits if_splits\<close>)

lemma run_id_gone:
  "scByID sc i = None \<Longrightarrow> \<forall>e\<in>set es. \<not> issues_id i e \<Longrightarrow> scByID (fold (screen_step argon) es sc) i = None"
  by (induction es arbitrary: sc) (auto simp: step_id_gone)

lemma resolve_forgets: "scByID (snd (screen_Resolve argon now i nonce sc)) i = None"
  by (auto simp: screen_Resolve_def split: option.splits)

lemma resolve_unknown: "scByID sc i = None \<Longrightarrow> screen_Resolve argon now i nonce sc = ((None, False), sc)"
  by (simp add: screen_Resolve_def)

text \<open>C28. A passed challenge was earned, once: whenever an answer to an id is accepted, the screener had issued the challenge with that very id to
  that connection and no other to it since, the nonce solves exactly the preset and salt that were issued with it, and its deadline had
  not passed; and no answer to the same id, right or wrong, is accepted again until the id is issued anew.\<close>

theorem screen_pass_is_earned:
  assumes "screen_Resolve argon now i nonce (fold (screen_step argon) es NewPowScreener) = ((Some c, ok), sc)"
  shows "(\<exists>before after ip tier p salt ex. es = before @ OpIssue c ip tier p salt i ex # after \<and> (\<forall>e\<in>set after. \<not> issues_to c e) \<and>
       Verify argon p salt nonce \<and> now \<le> ex) \<and>
    (\<forall>es' now' nonce'. (\<forall>e\<in>set es'. \<not> issues_id i e) \<longrightarrow>
       fst (screen_Resolve argon now' i nonce' (fold (screen_step argon) es' sc)) = (None, False))"
proof -
  obtain ch where ch: "scByID (fold (screen_step argon) es NewPowScreener) i = Some c"
    "scScreens (fold (screen_step argon) es NewPowScreener) c = Some ch"
    "now \<le> shExpires ch" "Verify argon (shPreset ch) (shSalt ch) nonce"
    using assms by (auto simp: screen_Resolve_def split: option.splits if_splits)
  have "shID ch = i" using ids_leadD [OF run_leads ch(1,2)] .
  then have "\<exists>before after. es = before @ OpIssue c (shIP ch) (shTier ch) (shPreset ch) (shSalt ch) i (shExpires ch) # after \<and>
      (\<forall>e\<in>set after. \<not> issues_to c e)" using run_screens [OF ch(2)] by simp
  moreover have "scByID sc i = None" using resolve_forgets assms by (metis snd_conv)
  ultimately show ?thesis
    using ch(3,4) run_id_gone resolve_unknown by (metis fst_conv)
qed

lemma ex_preset_verifies: "Verify argon ex_preset salt nonce"
  by (simp add: Verify_def ex_preset_def)

theorem screen_pass_is_earned_witness:
  "\<exists>sc. screen_Resolve ex_argon 5 ''id'' 0
       (fold (screen_step ex_argon) [OpIssue 7 ''1.2.3.4'' 1 ex_preset ''salt'' ''id'' 60] NewPowScreener) =
         ((Some 7, True), sc) \<and>
     fst (screen_Resolve ex_argon 6 ''id'' 0 sc) = (None, False)"
proof -
  let ?sc = "fold (screen_step ex_argon) [OpIssue 7 ''1.2.3.4'' 1 ex_preset ''salt'' ''id'' 60] NewPowScreener"
  have "fst (screen_Resolve ex_argon 5 ''id'' 0 ?sc) = (Some 7, True)"
    by (simp add: screen_Resolve_def screen_Issue_def NewPowScreener_def ex_preset_verifies)
  then obtain sc where r: "screen_Resolve ex_argon 5 ''id'' 0 ?sc = ((Some 7, True), sc)" by (metis prod.collapse)
  then have "fst (screen_Resolve ex_argon 6 ''id'' 0 (fold (screen_step ex_argon) [] sc)) = (None, False)"
    using screen_pass_is_earned [OF r] by (metis empty_iff empty_set)
  then show ?thesis using r by auto
qed

subsection \<open>Mutes\<close>

fun lifts_mute :: "nat \<Rightarrow> screen_op \<Rightarrow> bool" where
  "lifts_mute c (OpIssue d ip tier p salt i ex) = (d = c)"
| "lifts_mute c (OpUnmute d) = (d = c)"
| "lifts_mute c (OpDrop d) = (d = c)"
| "lifts_mute c _ = False"

lemma step_keeps_mute:
  assumes ok: "books_ok sc" and muted: "scMuted sc c" and "\<not> lifts_mute c e"
  shows "scMuted (screen_step argon e sc) c"
proof -
  have none: "scScreens sc c = None" using books_screen [OF ok, of c] muted by (cases "scScreens sc c") auto
  show ?thesis
  proof (cases e)
    case (OpResolve now i nonce)
    have "scByID sc i \<noteq> Some c" using books_id [OF ok, of i c] none by auto
    then show ?thesis using OpResolve muted by (auto simp: screen_Resolve_def split: option.splits)
  next
    case (OpDeadline now attacked order)
    then show ?thesis using muted by (simp add: CheckDeadline_def deadline_muted)
  qed (use assms in \<open>auto simp: screen_op_defs screen_Issue_def split: option.splits if_splits\<close>)
qed

lemma run_keeps_mute:
  assumes "books_ok sc" "scMuted sc c" "screener.admissible argon sc es" "\<forall>e\<in>set es. \<not> lifts_mute c e"
  shows "scMuted (fold (screen_step argon) es sc) c"
  using assms
proof (induction es arbitrary: sc)
  case (Cons e es)
  then show ?case using screen_step_books [of sc e argon] step_keeps_mute [of sc c e argon] by simp
qed simp

text \<open>A mute lasts until a challenge is issued: a connection that was muted (by declining or by missing a deadline) stays
  muted, and owes no challenge, through every sequence of answers, refusals, deadlines and other connections' challenges that
  issues no challenge to it, as long as new challenge ids are new; issuing one lifts the mute at once, before any
  answer is given.\<close>

theorem mute_lasts_until_issue:
  assumes "screener.admissible argon NewPowScreener (es @ es')"
    and "IsMuted c (fold (screen_step argon) es NewPowScreener)" "\<forall>e\<in>set es'. \<not> lifts_mute c e"
    and "sc = fold (screen_step argon) (es @ es') NewPowScreener"
  shows "IsMuted c sc \<and> \<not> screen_Has c sc \<and> \<not> IsMuted c (screen_Issue c ip tier p salt i ex sc)"
proof -
  let ?m = "fold (screen_step argon) es NewPowScreener"
  have ok: "books_ok ?m" "books_ok sc"
    using screener.run_prefix_inv [OF new_books assms(1)] screener.run_inv [OF new_books assms(1)] by (simp_all add: assms(4))
  have adm: "screener.admissible argon ?m es'"
    using assms(1) by (simp add: screener.admissible_append)
  have "scMuted sc c"
    using run_keeps_mute [OF ok(1) _ adm assms(3)] assms(2) by (simp add: IsMuted_def assms(4))
  then show ?thesis using books_screen [OF ok(2), of c] by (cases "scScreens sc c") (auto simp: IsMuted_def screen_Has_def screen_Issue_def Let_def)
qed

theorem mute_lasts_until_issue_witness:
  "let sc = fold (screen_step ex_argon)
        [OpIssue 7 ''1.2.3.4'' 1 ex_preset ''salt'' ''id'' 60, OpDecline ''id'', OpResolve 5 ''id'' 0] NewPowScreener
   in IsMuted 7 sc \<and> \<not> IsMuted 7 (screen_Issue 7 ''1.2.3.4'' 1 ex_preset ''salt'' ''id2'' 90 sc)"
proof -
  let ?es = "[OpIssue 7 ''1.2.3.4'' 1 ex_preset ''salt'' ''id'' 60, OpDecline ''id'']"
  have adm: "screener.admissible ex_argon NewPowScreener (?es @ [OpResolve 5 ''id'' 0])"
    by (simp add: NewPowScreener_def)
  have muted: "IsMuted 7 (fold (screen_step ex_argon) ?es NewPowScreener)"
    by (simp add: IsMuted_def NewPowScreener_def screen_Issue_def screen_Decline_def)
  have free: "\<forall>e\<in>set [OpResolve 5 ''id'' 0]. \<not> lifts_mute 7 e" by simp
  show ?thesis
    using mute_lasts_until_issue [OF adm muted free refl, of "''1.2.3.4''" 1 ex_preset "''salt''" "''id2''" 90] by simp
qed

text \<open>Deadlines are settled in one pass: whatever order the map is visited in, after \<open>CheckDeadline\<close> no challenge is
  overdue, exactly the overdue connections are reported, under attack all of them to be kicked and otherwise all of them
  muted, and nothing else changes hands.\<close>

theorem deadlines_are_settled:
  assumes "distinct order" "set order = dom (scScreens sc)" "CheckDeadline now attacked order sc = ((kick, mute), sc')"
  shows "(\<forall>c ch. scScreens sc' c = Some ch \<longleftrightarrow> scScreens sc c = Some ch \<and> now < shExpires ch) \<and>
    set (kick @ mute) = {c. \<exists>ch. scScreens sc c = Some ch \<and> shExpires ch \<le> now} \<and> distinct (kick @ mute) \<and>
    (if attacked then mute = [] else kick = []) \<and>
    (\<forall>c. IsMuted c sc' \<longleftrightarrow> IsMuted c sc \<or> c \<in> set mute)"
proof -
  have lists: "(kick, mute) = (if attacked then (filter (overdue now sc) order, []) else ([], filter (overdue now sc) order))"
    using deadline_lists [OF assms(1), of now attacked "[]" "[]" sc] assms(3) by (simp add: CheckDeadline_def)
  have sc': "sc' = snd (deadline_loop now attacked order (([], []), sc))" using assms(3) by (simp add: CheckDeadline_def)
  have "set (filter (overdue now sc) order) = {c. \<exists>ch. scScreens sc c = Some ch \<and> shExpires ch \<le> now}"
    using assms(2) by (auto simp: overdue_def)
  then show ?thesis
    using lists assms(1,2)
    by (auto simp: sc' deadline_screens deadline_muted IsMuted_def overdue_def split: if_splits)
qed

theorem deadlines_are_settled_witness:
  "\<exists>sc. CheckDeadline 60 False [7] (screen_Issue 7 ''1.2.3.4'' 1 ex_preset ''salt'' ''id'' 60 NewPowScreener) =
      (([], [7]), sc) \<and> IsMuted 7 sc \<and> scScreens sc 7 = None"
proof -
  let ?sc = "screen_Issue 7 ''1.2.3.4'' 1 ex_preset ''salt'' ''id'' 60 NewPowScreener"
  have "fst (CheckDeadline 60 False [7] ?sc) = ([], [7])"
    by (simp add: CheckDeadline_def deadline_lists overdue_def screen_Issue_def NewPowScreener_def)
  then obtain sc where sc: "CheckDeadline 60 False [7] ?sc = (([], [7]), sc)" by (metis prod.collapse)
  have dom: "set [7] = dom (scScreens ?sc)" by (simp add: screen_Issue_def NewPowScreener_def)
  have "scScreens ?sc 7 = Some \<lparr>shID = ''id'', shIP = ''1.2.3.4'', shConn = 7, shTier = 1, shPreset = ex_preset,
      shSalt = ''salt'', shExpires = 60\<rparr>"
    by (simp add: screen_Issue_def)
  then have "IsMuted 7 sc \<and> scScreens sc 7 = None"
    using deadlines_are_settled [OF _ dom sc] by (cases "scScreens sc 7") auto
  then show ?thesis using sc by blast
qed

end
