(* ===== verification/Trip.thy ===== *)
theory Trip
  imports Chain_Link Utf8 Machines Guard
begin

text \<open>
  Signed identities (tripcodes): verification and seed reveals of \<^verbatim>\<open>src/lib/trip\<close>, the signed payload of
  \<^verbatim>\<open>src/lib/tripcolor/color.go\<close>, and the per-key chains the server keeps (\<open>applyTripChain\<close> of
  \<^verbatim>\<open>src/server/history.go\<close>, \<open>pruneTripChains\<close> of \<^verbatim>\<open>src/server/auth.go\<close>, the signed branch of
  \<open>ReadPump\<close> in \<^verbatim>\<open>src/server/clientHandler.go\<close>). Ed25519 is the pair of arguments \<open>ed\<close> (verification) and
  \<open>pub_of_seed\<close> (key derivation). Lower-casing is that of ASCII: no other rune lower-cases to a hex digit.
\<close>

subsection \<open>Payloads\<close>

definition hex_fields :: "string \<Rightarrow> u32 \<Rightarrow> bytes \<Rightarrow> bytes \<Rightarrow> bytes \<Rightarrow> bytes" where
  "hex_fields serverPub sq prev msgHash pub =
     serverPub @ [NUL] @ dec (unat sq) @ [NUL] @ hex_encode prev @ [NUL] @ hex_encode msgHash @ [NUL] @ hex_encode pub @ [NUL]"

definition CanonicalPayload ::
  "string \<Rightarrow> u32 \<Rightarrow> bytes \<Rightarrow> bytes \<Rightarrow> bytes \<Rightarrow> string \<Rightarrow> u64 \<Rightarrow> u64 \<Rightarrow> bytes" where
  "CanonicalPayload serverPub sq prev msgHash pub displayName tmpID replyTo =
     hex_fields serverPub sq prev msgHash pub @ displayName @ [NUL] @ dec (unat tmpID) @ [NUL] @ dec (unat replyTo)"

definition CanonicalPayloadLegacy :: "string \<Rightarrow> u32 \<Rightarrow> bytes \<Rightarrow> bytes \<Rightarrow> bytes \<Rightarrow> string \<Rightarrow> bytes" where
  "CanonicalPayloadLegacy serverPub sq prev msgHash pub displayName =
     hex_fields serverPub sq prev msgHash pub @ displayName"

subsection \<open>Verification\<close>

record VerifyParams =
  vpText :: string
  vpDisplayName :: string
  vpServerPub :: string
  vpPubHex :: string
  vpSeq :: u32
  vpPrevHex :: string
  vpSigHex :: string
  vpMsgHashHex :: string
  vpTmpID :: u64
  vpReplyTo :: u64
  vpSkipTextCheck :: bool

record VerifyResult =
  vtPubHex :: string
  vtSeq :: u32
  vtPrevHex :: string
  vtSigHex :: string
  vtMsgHash :: string
  vtServerPub :: string
  vtBadge :: string
  vtNewPrev :: bytes

datatype trip_error = PubLength | SigLength | PrevLength | MsgHashLength | ServerPubLength
  | BadPub | BadSig | BadPrev | BadMsgHash | MsgHashMismatch | SignatureMismatch

type_synonym ed_verify = "bytes \<Rightarrow> bytes \<Rightarrow> bytes \<Rightarrow> bool"

definition clean :: "string \<Rightarrow> string" where
  "clean s = to_lower (TrimSpace s)"

text \<open>\<open>hex.DecodeString\<close> to a required number of bytes.\<close>

definition hex_bytes :: "nat \<Rightarrow> string \<Rightarrow> bytes option" where
  "hex_bytes n s = (case hex_decode s of Some b \<Rightarrow> if length b = n then Some b else None | None \<Rightarrow> None)"

definition signed_payload :: "VerifyParams \<Rightarrow> string \<Rightarrow> bytes \<Rightarrow> bytes \<Rightarrow> bytes \<Rightarrow> bytes" where
  "signed_payload p serverPub prev msgHash pub =
     (if vpTmpID p = 0 \<and> vpReplyTo p = 0
      then CanonicalPayloadLegacy serverPub (vpSeq p) prev msgHash pub (vpDisplayName p)
      else CanonicalPayload serverPub (vpSeq p) prev msgHash pub (vpDisplayName p) (vpTmpID p) (vpReplyTo p))"

definition trip_link :: "bytes \<Rightarrow> bytes \<times> bytes \<Rightarrow> bytes" where
  "trip_link prev m = sha256 (prev @ fst m @ snd m)"

definition trip_Verify :: "ed_verify \<Rightarrow> VerifyParams \<Rightarrow> trip_error + VerifyResult" where
  "trip_Verify ed p =
     (let pubHex = clean (vpPubHex p); sigHex = clean (vpSigHex p); prevHex = clean (vpPrevHex p);
          msgHashHex = clean (vpMsgHashHex p); serverPub = clean (vpServerPub p)
      in if length pubHex \<noteq> 64 then Inl PubLength
         else if length sigHex \<noteq> 128 then Inl SigLength
         else if length prevHex \<noteq> 64 then Inl PrevLength
         else if length msgHashHex \<noteq> 64 then Inl MsgHashLength
         else if length serverPub \<noteq> 0 \<and> length serverPub \<noteq> 64 then Inl ServerPubLength
         else case hex_bytes 32 pubHex of None \<Rightarrow> Inl BadPub
         | Some pub \<Rightarrow> (case hex_bytes 64 sigHex of None \<Rightarrow> Inl BadSig
         | Some sig \<Rightarrow> (case hex_bytes 32 prevHex of None \<Rightarrow> Inl BadPrev
         | Some prev \<Rightarrow> (case hex_bytes 32 msgHashHex of None \<Rightarrow> Inl BadMsgHash
         | Some msgHash \<Rightarrow>
             if \<not> vpSkipTextCheck p \<and> hex_encode (sha256 (vpText p)) \<noteq> msgHashHex then Inl MsgHashMismatch
             else if \<not> ed pub (signed_payload p serverPub prev msgHash pub) sig then Inl SignatureMismatch
             else Inr \<lparr>vtPubHex = pubHex, vtSeq = vpSeq p, vtPrevHex = prevHex, vtSigHex = sigHex, vtMsgHash = msgHashHex,
                       vtServerPub = serverPub, vtBadge = badge_mark @ take 8 (hex_encode (sha256 pub)),
                       vtNewPrev = trip_link prev (sig, msgHash)\<rparr>))))"

subsection \<open>Seed reveals\<close>

definition PubFromSeed :: "(bytes \<Rightarrow> bytes) \<Rightarrow> bytes \<Rightarrow> string option" where
  "PubFromSeed pub_of_seed seed = (if length seed \<noteq> 32 then None else Some (hex_encode (pub_of_seed seed)))"

definition VerifySeed :: "(bytes \<Rightarrow> bytes) \<Rightarrow> string \<Rightarrow> string \<Rightarrow> bool" where
  "VerifySeed pub_of_seed seedHex pubHex =
     (let sh = clean seedHex; ph = clean pubHex in
      if length sh \<noteq> 64 \<or> length ph \<noteq> 64 then False
      else case hex_decode sh of
          None \<Rightarrow> False
        | Some seed \<Rightarrow> (case PubFromSeed pub_of_seed seed of None \<Rightarrow> False | Some got \<Rightarrow> got = ph))"

definition revealDomain :: string where "revealDomain = ''v2v.trip.reveal.v1''"

definition RevealPayload :: "string \<Rightarrow> bytes" where
  "RevealPayload pubHex = revealDomain @ [NUL] @ clean pubHex"

definition SignReveal :: "(bytes \<Rightarrow> bytes \<Rightarrow> bytes) \<Rightarrow> bytes \<Rightarrow> string \<Rightarrow> string" where
  "SignReveal sign priv pubHex = (if length priv \<noteq> 64 then [] else hex_encode (sign priv (RevealPayload pubHex)))"

definition VerifyReveal :: "ed_verify \<Rightarrow> string \<Rightarrow> string \<Rightarrow> bool" where
  "VerifyReveal ed pubHex sigHex =
     (case hex_bytes 32 (TrimSpace pubHex) of
        None \<Rightarrow> False
      | Some pub \<Rightarrow> (case hex_bytes 64 (TrimSpace sigHex) of None \<Rightarrow> False | Some sig \<Rightarrow> ed pub (RevealPayload pubHex) sig))"

subsection \<open>The server's chains\<close>

record TripChain =
  tcSeq :: u32
  tcPrevHash :: bytes
  tcLastSeen :: time

type_synonym TripChains = "(string \<times> TripChain) list"

datatype tripChainUpdate = tripChainExtended | tripChainGap | tripChainFork | tripChainStale

definition fresh_tip :: "u32 \<Rightarrow> bytes \<Rightarrow> TripChain" where
  "fresh_tip sq prev = \<lparr>tcSeq = sq, tcPrevHash = prev, tcLastSeen = 0\<rparr>"

definition applyTripChain :: "TripChain option \<Rightarrow> u32 \<Rightarrow> bytes \<Rightarrow> bytes \<Rightarrow> TripChain \<times> tripChainUpdate" where
  "applyTripChain cur sq prevBytes newPrev =
     (case cur of
        None \<Rightarrow> (fresh_tip sq newPrev, tripChainExtended)
      | Some c \<Rightarrow>
          if sq \<le> tcSeq c then (c, tripChainStale)
          else if sq = tcSeq c + 1 \<and> prevBytes = tcPrevHash c then (fresh_tip sq newPrev, tripChainExtended)
          else if sq = tcSeq c + 1 then (fresh_tip sq newPrev, tripChainFork)
          else (fresh_tip sq newPrev, tripChainGap))"

definition tripChainsTTL :: duration where "tripChainsTTL = 24 * hour"
definition maxTripChains :: nat where "maxTripChains = 10000"

text \<open>\<open>srt\<close> is \<open>sort.Slice\<close> by the time last seen.\<close>

definition pruneTripChains :: "((string \<times> time) list \<Rightarrow> (string \<times> time) list) \<Rightarrow> time \<Rightarrow> TripChains \<Rightarrow> TripChains" where
  "pruneTripChains srt now tcs =
     (let live = filter (\<lambda>(k, ch). \<not> (\<not> isZero (tcLastSeen ch) \<and> now - tcLastSeen ch > tripChainsTTL)) tcs;
          kept = map (\<lambda>(k, ch). (k, tcLastSeen ch)) live
      in if length kept \<le> maxTripChains then live
         else let gone = map fst (take (length kept - maxTripChains) (srt kept))
              in filter (\<lambda>(k, ch). k \<notin> set gone) live)"

subsection \<open>Accepting a signed message\<close>

record chat_envelope =
  ceText :: string
  ceMsg :: string
  cePub :: string
  ceSeq :: u32
  cePrev :: string
  ceSig :: string
  ceTmpID :: u64
  ceReplyTo :: u64

datatype signed_reject = EmptyText | Filtered filter_error | WrongPub | Malformed | WrongSeq u32 u32 | BrokenPrev
  | BadSignature trip_error

text \<open>What the branch uses of the session: its trip key, badge and display name.\<close>

record trip_session =
  tsTripPub :: string
  tsTripBadge :: string
  tsDisplayName :: string

definition envelope_text :: "chat_envelope \<Rightarrow> string" where
  "envelope_text m = (if ceText m = [] then ceMsg m else ceText m)"

definition zero_hash :: bytes where "zero_hash = replicate 32 NUL"

definition expected_link :: "TripChain option \<Rightarrow> u32 \<times> bytes" where
  "expected_link c =
     (case c of
        None \<Rightarrow> (1, zero_hash)
      | Some ch \<Rightarrow> (tcSeq ch + 1, if length (tcPrevHash ch) = 32 then tcPrevHash ch else zero_hash))"

definition envelope_params :: "string \<Rightarrow> string \<Rightarrow> chat_envelope \<Rightarrow> VerifyParams" where
  "envelope_params displayName serverPub m =
     \<lparr>vpText = envelope_text m, vpDisplayName = displayName, vpServerPub = to_lower serverPub, vpPubHex = to_lower (cePub m),
      vpSeq = ceSeq m, vpPrevHex = cePrev m, vpSigHex = ceSig m, vpMsgHashHex = hex_encode (sha256 (envelope_text m)),
      vpTmpID = ceTmpID m, vpReplyTo = ceReplyTo m, vpSkipTextCheck = False\<rparr>"

definition accept_signed ::
  "ed_verify \<Rightarrow> (nat \<Rightarrow> gcat) \<Rightarrow> string \<Rightarrow> time \<Rightarrow> trip_session \<Rightarrow> chat_envelope \<Rightarrow> TripChains
     \<Rightarrow> signed_reject + (TripMeta \<times> trip_session \<times> TripChains)" where
  "accept_signed ed gc serverPub now s m tcs =
     (if envelope_text m = [] then Inl EmptyText
      else case ValidateMessage gc (envelope_text m) of Some e \<Rightarrow> Inl (Filtered e)
      | None \<Rightarrow>
          if tsTripPub s \<noteq> [] \<and> to_lower (tsTripPub s) \<noteq> to_lower (cePub m) then Inl WrongPub
          else let pubHex = to_lower (cePub m) in
          if length pubHex \<noteq> 64 \<or> length (ceSig m) \<noteq> 128 \<or> length (cePrev m) \<noteq> 64 then Inl Malformed
          else let (expectedSeq, expectedPrev) = expected_link (map_of tcs pubHex) in
          if ceSeq m \<noteq> expectedSeq then Inl (WrongSeq (ceSeq m) expectedSeq)
          else if to_lower (cePrev m) \<noteq> hex_encode expectedPrev then Inl BrokenPrev
          else case trip_Verify ed (envelope_params (tsDisplayName s) serverPub m) of
              Inl e \<Rightarrow> Inl (BadSignature e)
            | Inr res \<Rightarrow>
                Inr (\<lparr>tmPub = vtPubHex res, tmSeq = vtSeq res, tmPrev = vtPrevHex res, tmSig = vtSigHex res,
                       tmServerPub = vtServerPub res, tmMsgHash = vtMsgHash res, tmDisplayName = tsDisplayName s,
                       tmExposed = False, tmTmpID = ceTmpID m, tmReplyTo = ceReplyTo m\<rparr>,
                     if tsTripBadge s = [] then s\<lparr>tsTripBadge := vtBadge res, tsTripPub := vtPubHex res\<rparr> else s,
                     AList.update pubHex \<lparr>tcSeq = ceSeq m, tcPrevHash = vtNewPrev res, tcLastSeen = now\<rparr> tcs))"

subsection \<open>The payload binds every field\<close>

lemma NUL_split: "NUL \<notin> set a \<Longrightarrow> NUL \<notin> set b \<Longrightarrow> a @ NUL # x = b @ NUL # y \<longleftrightarrow> a = b \<and> x = y"
  by (auto simp: append_eq_append_conv2 append_eq_Cons_conv Cons_eq_append_conv)

lemma NUL_split_last: "NUL \<notin> set a \<Longrightarrow> NUL \<notin> set b \<Longrightarrow> x @ NUL # a = y @ NUL # b \<longleftrightarrow> x = y \<and> a = b"
  by (auto simp: append_eq_append_conv2 append_eq_Cons_conv Cons_eq_append_conv)

lemma hex_fields_inj:
  assumes "NUL \<notin> set sp" "NUL \<notin> set sp'"
  shows "hex_fields sp q p h k @ x = hex_fields sp' q' p' h' k' @ y \<longleftrightarrow>
    sp = sp' \<and> q = q' \<and> p = p' \<and> h = h' \<and> k = k' \<and> x = y"
  using assms by (simp add: hex_fields_def NUL_split codec word_unat_eq_iff)

text \<open>The signed payload binds every field: two payloads (server keys without NUL) are equal exactly if the server key, the
  sequence number, the previous hash, the message hash, the key, the display name (whatever bytes it holds), the session
  counter and the reply target are all equal.\<close>

theorem payload_binds_every_field:
  assumes "NUL \<notin> set sp" "NUL \<notin> set sp'"
  shows "CanonicalPayload sp q p h k dn t r = CanonicalPayload sp' q' p' h' k' dn' t' r' \<longleftrightarrow>
    sp = sp' \<and> q = q' \<and> p = p' \<and> h = h' \<and> k = k' \<and> dn = dn' \<and> t = t' \<and> r = r'"
proof -
  have "dn @ NUL # dec (unat t) @ NUL # dec (unat r) = dn' @ NUL # dec (unat t') @ NUL # dec (unat r') \<longleftrightarrow>
      (dn @ NUL # dec (unat t)) @ NUL # dec (unat r) = (dn' @ NUL # dec (unat t')) @ NUL # dec (unat r')"
    by simp
  also have "\<dots> \<longleftrightarrow> dn = dn' \<and> t = t' \<and> r = r'"
    by (simp only: NUL_split_last dec_no_NUL not_False_eq_True simp_thms dec_inj word_unat_eq_iff conj_assoc)
  finally show ?thesis using assms by (simp add: CanonicalPayload_def hex_fields_inj)
qed

theorem payload_binds_every_field_witness:
  "CanonicalPayload ''ab'' 1 [] [] [] (''ann'' @ [NUL] @ ''5'') 7 9 \<noteq> CanonicalPayload ''ab'' 1 [] [] [] ''ann'' 5 (of_nat 79)"
proof -
  have "NUL \<notin> set ''ab''" by simp
  then show ?thesis using payload_binds_every_field [of "''ab''" "''ab''" 1 "[]" "[]" "[]" "''ann'' @ [NUL] @ ''5''" 7 9 1 "[]" "[]" "[]"]
    by simp
qed

text \<open>The legacy encoding is a different one only for display names without NUL.\<close>

lemma legacy_disjoint:
  assumes "NUL \<notin> set dn'" "NUL \<notin> set sp" "NUL \<notin> set sp'"
  shows "CanonicalPayloadLegacy sp' q' p' h' k' dn' \<noteq> CanonicalPayload sp q p h k dn t r"
  using assms by (auto simp: CanonicalPayload_def CanonicalPayloadLegacy_def hex_fields_inj)

text \<open>No message payload is a reveal payload: they differ in length.\<close>

lemma reveal_domain_separated:
  assumes "length (clean k) = 64" "length p = 32" "length h = 32" "length pub = 32"
  shows "RevealPayload k \<noteq> CanonicalPayload sp q p h pub dn t r" "RevealPayload k \<noteq> CanonicalPayloadLegacy sp q p h pub dn"
  using assms by (auto simp: RevealPayload_def revealDomain_def CanonicalPayload_def CanonicalPayloadLegacy_def hex_fields_def
      dest!: arg_cong [where f = length])

definition strip_ids :: "VerifyParams \<Rightarrow> VerifyParams" where
  "strip_ids p = p\<lparr>vpDisplayName := vpDisplayName p @ [NUL] @ dec (unat (vpTmpID p)) @ [NUL] @ dec (unat (vpReplyTo p)),
     vpTmpID := 0, vpReplyTo := 0\<rparr>"

lemma strip_ids_fields [simp]:
  "vpText (strip_ids p) = vpText p" "vpServerPub (strip_ids p) = vpServerPub p" "vpPubHex (strip_ids p) = vpPubHex p"
  "vpSeq (strip_ids p) = vpSeq p" "vpPrevHex (strip_ids p) = vpPrevHex p" "vpSigHex (strip_ids p) = vpSigHex p"
  "vpMsgHashHex (strip_ids p) = vpMsgHashHex p" "vpSkipTextCheck (strip_ids p) = vpSkipTextCheck p"
  by (simp_all add: strip_ids_def)

text \<open>The legacy fallback can be abused to strip the session counter and the reply target: whatever signature verifies
  with a nonzero counter or target also verifies with both zero, under a display name that carries them after NUL
  bytes.\<close>

theorem legacy_check_strips_ids:
  assumes "trip_Verify ed p = Inr res" "vpTmpID p \<noteq> 0 \<or> vpReplyTo p \<noteq> 0"
  shows "trip_Verify ed (strip_ids p) = Inr res \<and> vpTmpID (strip_ids p) = 0 \<and> vpReplyTo (strip_ids p) = 0"
proof -
  have "signed_payload (strip_ids p) = signed_payload p"
    using assms(2) by (intro ext) (auto simp: signed_payload_def strip_ids_def CanonicalPayload_def CanonicalPayloadLegacy_def)
  then have "trip_Verify ed (strip_ids p) = trip_Verify ed p" by (simp only: trip_Verify_def strip_ids_fields)
  then show ?thesis using assms(1) by (simp add: strip_ids_def)
qed

text \<open>Hex renderings pass the cleaning unchanged.\<close>

lemma hex_encode_chars: "c \<in> set (hex_encode b) \<Longrightarrow> (48 \<le> nat_of c \<and> nat_of c \<le> 57) \<or> (97 \<le> nat_of c \<and> nat_of c \<le> 102)"
proof (induction b)
  case (Cons x b)
  have digit: "(48 \<le> nat_of (hex_char n) \<and> nat_of (hex_char n) \<le> 57) \<or> (97 \<le> nat_of (hex_char n) \<and> nat_of (hex_char n) \<le> 102)"
    if "n < 16" for n
    using less_16_cases [OF that] by (auto simp: hex_char_def hex_digits_def nat_of_def)
  have "nat_of x div 16 < 16" by (simp add: less_mult_imp_div_less)
  then show ?case using Cons digit [of "nat_of x div 16"] digit [of "nat_of x mod 16"] by auto
qed simp

lemma TrimSpace_hex [simp]: "TrimSpace (hex_encode b) = hex_encode b"
  by (rule TrimSpace_plain) (auto simp: is_space_rune_def dest!: hex_encode_chars)

lemma to_lower_hex [simp]: "to_lower (hex_encode b) = hex_encode b"
  unfolding to_lower_def by (rule map_idI) (auto simp: lower_char_def Let_def dest!: hex_encode_chars)

lemma clean_hex [simp]: "clean (hex_encode b) = hex_encode b" "clean [] = []"
  by (simp_all add: clean_def) (simp add: to_lower_def TrimSpace_def)

lemma hex_bytes_encode [simp]: "hex_bytes n (hex_encode b) = (if length b = n then Some b else None)"
  by (simp add: hex_bytes_def)

definition ex_params :: VerifyParams where
  "ex_params = \<lparr>vpText = [], vpDisplayName = ''ann'', vpServerPub = [], vpPubHex = hex_encode (replicate 32 NUL), vpSeq = 1,
     vpPrevHex = hex_encode zero_hash, vpSigHex = hex_encode (replicate 64 NUL), vpMsgHashHex = hex_encode zero_hash,
     vpTmpID = 5, vpReplyTo = 7, vpSkipTextCheck = True\<rparr>"

lemma ex_verified: "\<exists>res. trip_Verify (\<lambda>_ _ _. True) ex_params = Inr res"
  by (simp add: trip_Verify_def ex_params_def zero_hash_def Let_def)

theorem legacy_check_strips_ids_witness:
  "\<exists>res. trip_Verify (\<lambda>_ _ _. True) ex_params = Inr res \<and> trip_Verify (\<lambda>_ _ _. True) (strip_ids ex_params) = Inr res"
proof -
  obtain res where "trip_Verify (\<lambda>_ _ _. True) ex_params = Inr res" using ex_verified by blast
  moreover have "vpTmpID ex_params \<noteq> 0 \<or> vpReplyTo ex_params \<noteq> 0" by (simp add: ex_params_def)
  ultimately show ?thesis using legacy_check_strips_ids by blast
qed

subsection \<open>A key's chain records what it signed\<close>

definition trip_collide :: "bytes \<Rightarrow> bytes \<times> bytes \<Rightarrow> bytes \<Rightarrow> bytes \<times> bytes \<Rightarrow> bool" where
  "trip_collide p m q n \<longleftrightarrow> p @ fst m @ snd m \<noteq> q @ fst n @ snd n \<and> sha256 (p @ fst m @ snd m) = sha256 (q @ fst n @ snd n)"

definition sized :: "bytes \<Rightarrow> bytes \<times> bytes \<Rightarrow> bool" where
  "sized p m \<longleftrightarrow> length p = 32 \<and> length (fst m) = 64 \<and> length (snd m) = 32"

interpretation trip_log: hash_chain trip_link trip_collide sized
  by unfold_locales (auto simp: trip_link_def trip_collide_def sized_def prod_eq_iff)

text \<open>A message that is offered, by whatever session, or a pruning of the table.\<close>

datatype trip_event = Offered time trip_session chat_envelope | Pruned time "(string \<times> time) list \<Rightarrow> (string \<times> time) list"

text \<open>The ghost \<open>hist\<close> lists, for every key, the signature and message hash of what was accepted since its entry was
  created.\<close>

type_synonym trip_state = "TripChains \<times> (string \<Rightarrow> (bytes \<times> bytes) list)"

definition signed_pair :: "TripMeta \<Rightarrow> bytes \<times> bytes" where
  "signed_pair m = (the (hex_decode (tmSig m)), the (hex_decode (tmMsgHash m)))"

fun trip_step :: "ed_verify \<Rightarrow> (nat \<Rightarrow> gcat) \<Rightarrow> string \<Rightarrow> trip_event \<Rightarrow> trip_state \<Rightarrow> trip_state" where
  "trip_step ed gc pub (Offered now s m) (tcs, hist) =
     (case accept_signed ed gc pub now s m tcs of
        Inl e \<Rightarrow> (tcs, hist)
      | Inr (meta, s', tcs') \<Rightarrow> (tcs', hist(tmPub meta := hist (tmPub meta) @ [signed_pair meta])))"
| "trip_step ed gc pub (Pruned now srt) (tcs, hist) =
     (let tcs' = pruneTripChains srt now tcs in (tcs', \<lambda>k. if map_of tcs' k = None then [] else hist k))"

definition entry_ok :: "TripChain option \<Rightarrow> (bytes \<times> bytes) list \<Rightarrow> bool" where
  "entry_ok c h \<longleftrightarrow> (case c of
        None \<Rightarrow> h = []
      | Some ch \<Rightarrow> tcSeq ch = of_nat (length h) \<and> tcPrevHash ch = trip_log.tip_of zero_hash h \<and>
          length (tcPrevHash ch) = 32 \<and> trip_log.all_ok zero_hash h)"

definition tip_ok :: "trip_state \<Rightarrow> bool" where
  "tip_ok st \<longleftrightarrow> distinct (map fst (fst st)) \<and> (\<forall>k. entry_ok (map_of (fst st) k) (snd st k))"

lemma tip_ok_expected:
  assumes "tip_ok (tcs, hist)"
  shows "expected_link (map_of tcs k) = (of_nat (Suc (length (hist k))), trip_log.tip_of zero_hash (hist k))"
    and "length (trip_log.tip_of zero_hash (hist k)) = 32" "trip_log.all_ok zero_hash (hist k)"
  using assms by (auto simp: tip_ok_def entry_ok_def expected_link_def trip_log.tip_of_def zero_hash_def dest!: spec [of _ k] split: option.splits)

text \<open>What verification and acceptance mean, field by field.\<close>

lemma take_drop_same_length: "length (take (length s - a - b) (drop a s)) = length s \<Longrightarrow> take (length s - a - b) (drop a s) = s"
  by (cases "s = []") (auto, metis add_gr_0 diff_less drop0 length_greater_0_conv less_irrefl_nat gr0I)

lemma TrimSpace_same_length: "length (TrimSpace s) = length s \<Longrightarrow> TrimSpace s = s"
  unfolding TrimSpace_def Let_def by (rule take_drop_same_length)

lemma clean_same_length: "length (clean s) = length s \<Longrightarrow> clean s = to_lower s"
  using TrimSpace_same_length [of s] by (simp add: clean_def)

lemma hex_bytes_Some: "hex_bytes n s = Some b \<longleftrightarrow> hex_decode s = Some b \<and> length b = n"
  by (auto simp: hex_bytes_def split: option.splits)

lemma trip_Verify_facts:
  assumes "trip_Verify ed p = Inr res"
  obtains pub sig prev msgHash where
    "hex_bytes 32 (clean (vpPubHex p)) = Some pub" "hex_bytes 64 (clean (vpSigHex p)) = Some sig"
    "hex_bytes 32 (clean (vpPrevHex p)) = Some prev" "hex_bytes 32 (clean (vpMsgHashHex p)) = Some msgHash"
    "length (clean (vpPubHex p)) = 64" "length (clean (vpPrevHex p)) = 64"
    "\<not> vpSkipTextCheck p \<longrightarrow> hex_encode (sha256 (vpText p)) = clean (vpMsgHashHex p)"
    "ed pub (signed_payload p (clean (vpServerPub p)) prev msgHash pub) sig"
    "res = \<lparr>vtPubHex = clean (vpPubHex p), vtSeq = vpSeq p, vtPrevHex = clean (vpPrevHex p), vtSigHex = clean (vpSigHex p),
       vtMsgHash = clean (vpMsgHashHex p), vtServerPub = clean (vpServerPub p),
       vtBadge = badge_mark @ take 8 (hex_encode (sha256 pub)), vtNewPrev = trip_link prev (sig, msgHash)\<rparr>"
proof -
  have "(\<exists>pub sig prev msgHash.
    hex_bytes 32 (clean (vpPubHex p)) = Some pub \<and> hex_bytes 64 (clean (vpSigHex p)) = Some sig \<and>
    hex_bytes 32 (clean (vpPrevHex p)) = Some prev \<and> hex_bytes 32 (clean (vpMsgHashHex p)) = Some msgHash \<and>
    length (clean (vpPubHex p)) = 64 \<and> length (clean (vpPrevHex p)) = 64 \<and>
    (\<not> vpSkipTextCheck p \<longrightarrow> hex_encode (sha256 (vpText p)) = clean (vpMsgHashHex p)) \<and>
    ed pub (signed_payload p (clean (vpServerPub p)) prev msgHash pub) sig \<and>
    res = \<lparr>vtPubHex = clean (vpPubHex p), vtSeq = vpSeq p, vtPrevHex = clean (vpPrevHex p), vtSigHex = clean (vpSigHex p),
       vtMsgHash = clean (vpMsgHashHex p), vtServerPub = clean (vpServerPub p),
       vtBadge = badge_mark @ take 8 (hex_encode (sha256 pub)), vtNewPrev = trip_link prev (sig, msgHash)\<rparr>)"
    using assms unfolding trip_Verify_def Let_def by (auto split: if_splits option.splits)
  then show thesis using that by blast
qed

lemma accept_signed_cases:
  assumes "accept_signed ed gc pub now s m tcs = Inr (meta, s', tcs')"
  obtains res where "trip_Verify ed (envelope_params (tsDisplayName s) pub m) = Inr res"
    "length (cePub m) = 64" "length (cePrev m) = 64"
    "ceSeq m = fst (expected_link (map_of tcs (to_lower (cePub m))))"
    "to_lower (cePrev m) = hex_encode (snd (expected_link (map_of tcs (to_lower (cePub m)))))"
    "tmPub meta = vtPubHex res" "tmSeq meta = vtSeq res" "tmPrev meta = vtPrevHex res" "tmSig meta = vtSigHex res"
    "tmMsgHash meta = vtMsgHash res" "tmDisplayName meta = tsDisplayName s" "tmTmpID meta = ceTmpID m" "tmReplyTo meta = ceReplyTo m"
    "tcs' = AList.update (to_lower (cePub m)) \<lparr>tcSeq = ceSeq m, tcPrevHash = vtNewPrev res, tcLastSeen = now\<rparr> tcs"
  using assms unfolding accept_signed_def Let_def
  by (auto split: if_splits option.splits sum.splits prod.splits)

text \<open>Acceptance extends the key's chain by one link.\<close>

lemma accept_signed_link:
  assumes "accept_signed ed gc pub now s m tcs = Inr (meta, s', tcs')" "length (snd (expected_link (map_of tcs (tmPub meta)))) = 32"
  shows "tmSeq meta = fst (expected_link (map_of tcs (tmPub meta)))"
    and "tmPrev meta = hex_encode (snd (expected_link (map_of tcs (tmPub meta))))"
    and "sized (snd (expected_link (map_of tcs (tmPub meta)))) (signed_pair meta)"
    and "snd (signed_pair meta) = sha256 (envelope_text m)"
    and "tcs' = AList.update (tmPub meta) \<lparr>tcSeq = tmSeq meta,
       tcPrevHash = trip_link (snd (expected_link (map_of tcs (tmPub meta)))) (signed_pair meta), tcLastSeen = now\<rparr> tcs"
proof -
  obtain res where r: "trip_Verify ed (envelope_params (tsDisplayName s) pub m) = Inr res"
    "length (cePub m) = 64" "length (cePrev m) = 64"
    "ceSeq m = fst (expected_link (map_of tcs (to_lower (cePub m))))"
    "to_lower (cePrev m) = hex_encode (snd (expected_link (map_of tcs (to_lower (cePub m)))))"
    "tmPub meta = vtPubHex res" "tmSeq meta = vtSeq res" "tmPrev meta = vtPrevHex res" "tmSig meta = vtSigHex res"
    "tmMsgHash meta = vtMsgHash res"
    "tcs' = AList.update (to_lower (cePub m)) \<lparr>tcSeq = ceSeq m, tcPrevHash = vtNewPrev res, tcLastSeen = now\<rparr> tcs"
    using assms(1) by (rule accept_signed_cases)
  from r(1) obtain k sig prev msgHash where v:
    "hex_bytes 64 (clean (ceSig m)) = Some sig" "hex_bytes 32 (clean (cePrev m)) = Some prev"
    "hex_bytes 32 (hex_encode (sha256 (envelope_text m))) = Some msgHash"
    "length (clean (to_lower (cePub m))) = 64" "length (clean (cePrev m)) = 64"
    "res = \<lparr>vtPubHex = clean (to_lower (cePub m)), vtSeq = ceSeq m, vtPrevHex = clean (cePrev m), vtSigHex = clean (ceSig m),
       vtMsgHash = hex_encode (sha256 (envelope_text m)), vtServerPub = clean (to_lower pub),
       vtBadge = badge_mark @ take 8 (hex_encode (sha256 k)), vtNewPrev = trip_link prev (sig, msgHash)\<rparr>"
    by (rule trip_Verify_facts) (auto simp: envelope_params_def)
  have key: "tmPub meta = to_lower (cePub m)"
    using v(4) r(2) clean_same_length [of "to_lower (cePub m)"] by (simp add: r(6) v(6))
  have prevHex: "clean (cePrev m) = to_lower (cePrev m)" using v(5) r(3) by (intro clean_same_length) simp
  have prev: "prev = snd (expected_link (map_of tcs (tmPub meta)))"
    using v(2) r(5) by (simp add: prevHex key split: if_splits)
  have pair: "signed_pair meta = (sig, msgHash)"
    using v(1,3) by (simp add: signed_pair_def r(9,10) v(6) hex_bytes_Some)
  show "tmSeq meta = fst (expected_link (map_of tcs (tmPub meta)))" using r(4,7) by (simp add: v(6) key)
  show "tmPrev meta = hex_encode (snd (expected_link (map_of tcs (tmPub meta))))"
    using r(5) prevHex by (simp add: r(8) v(6) key)
  show "sized (snd (expected_link (map_of tcs (tmPub meta)))) (signed_pair meta)"
    using assms(2) v(1,3) by (auto simp: sized_def pair hex_bytes_Some)
  show "snd (signed_pair meta) = sha256 (envelope_text m)" using v(3) by (simp add: pair)
  show "tcs' = AList.update (tmPub meta) \<lparr>tcSeq = tmSeq meta,
      tcPrevHash = trip_link (snd (expected_link (map_of tcs (tmPub meta)))) (signed_pair meta), tcLastSeen = now\<rparr> tcs"
    by (simp add: r(11) key pair prev [unfolded key] r(7) v(6))
qed

lemma pruned_lookup:
  "distinct (map fst tcs) \<Longrightarrow> map_of (pruneTripChains srt now tcs) k = Some ch \<Longrightarrow> map_of tcs k = Some ch"
  "distinct (map fst tcs) \<Longrightarrow> distinct (map fst (pruneTripChains srt now tcs))"
  by (auto simp: pruneTripChains_def Let_def distinct_map_filter dest!: map_of_SomeD intro!: map_of_is_SomeI split: if_splits)

lemma tip_ok_step: "tip_ok st \<Longrightarrow> tip_ok (trip_step ed gc pub e st)"
proof (cases e)
  case (Offered now s m)
  assume ok: "tip_ok st"
  obtain tcs hist where st: "st = (tcs, hist)" by fastforce
  show ?thesis
  proof (cases "accept_signed ed gc pub now s m tcs")
    case (Inl x)
    then show ?thesis using ok by (simp add: Offered st)
  next
    case (Inr r)
    obtain meta s' tcs' where r: "r = (meta, s', tcs')" by (cases r) auto
    let ?k = "tmPub meta"
    note e = tip_ok_expected [OF ok [unfolded st], of ?k]
    note l = accept_signed_link [OF Inr [unfolded r], unfolded e(1), simplified snd_conv fst_conv, OF e(2)]
    have len: "length (trip_link p x) = 32" for p x by (simp add: trip_link_def)
    have tip: "trip_log.tip_of zero_hash (hist ?k @ [signed_pair meta]) = trip_link (trip_log.tip_of zero_hash (hist ?k)) (signed_pair meta)"
      by (simp add: trip_log.tip_of_def)
    have "trip_log.all_ok zero_hash (hist ?k @ [signed_pair meta])" using e(3) l(3) by (simp add: trip_log.all_ok_snoc)
    then have "entry_ok (map_of tcs' k) ((hist(?k := hist ?k @ [signed_pair meta])) k)" for k
      using ok l(1) by (simp add: l(5) st tip_ok_def update_conv' entry_ok_def [of "Some _"] tip len)
    moreover have "distinct (map fst tcs')" using ok by (simp add: l(5) st tip_ok_def distinct_update)
    ultimately show ?thesis by (simp add: Offered st Inr r tip_ok_def)
  qed
next
  case (Pruned now srt)
  assume ok: "tip_ok st"
  obtain tcs hist where st: "st = (tcs, hist)" by fastforce
  have d: "distinct (map fst tcs)" and ent: "\<And>k. entry_ok (map_of tcs k) (hist k)" using ok by (simp_all add: st tip_ok_def)
  have "entry_ok (map_of (pruneTripChains srt now tcs) k) (if map_of (pruneTripChains srt now tcs) k = None then [] else hist k)" for k
    using ent [of k] pruned_lookup(1) [OF d, of srt now k] by (cases "map_of (pruneTripChains srt now tcs) k") (auto simp: entry_ok_def)
  then show ?thesis using pruned_lookup(2) [OF d] by (simp add: Pruned st tip_ok_def Let_def)
qed

interpretation trip_table: machine "trip_step ed gc pub" "\<lambda>_ _. True" tip_ok for ed gc pub
  by unfold_locales (rule tip_ok_step)

definition no_history :: trip_state where
  "no_history = ([], \<lambda>_. [])"

lemma run_tip_ok: "tip_ok (fold (trip_step ed gc pub) es no_history)"
  by (rule trip_table.run_inv) (simp_all add: tip_ok_def no_history_def entry_ok_def trip_table.admissible_if_all)

lemma accept_seq: "accept_signed ed gc pub now s m tcs = Inr r \<Longrightarrow> ceSeq m = fst (expected_link (map_of tcs (to_lower (cePub m))))"
  by (cases r) (auto elim: accept_signed_cases)

text \<open>A run in which the server keeps the chain of a key: no step drops it from the table.\<close>

fun keeps_key :: "ed_verify \<Rightarrow> (nat \<Rightarrow> gcat) \<Rightarrow> string \<Rightarrow> string \<Rightarrow> trip_event list \<Rightarrow> trip_state \<Rightarrow> bool" where
  "keeps_key ed gc pub k [] st = True"
| "keeps_key ed gc pub k (e # es) st =
     (map_of (fst (trip_step ed gc pub e st)) k \<noteq> None \<and> keeps_key ed gc pub k es (trip_step ed gc pub e st))"

lemma kept_key_counts:
  assumes "tip_ok st" "map_of (fst st) k = Some ch" "map_of (fst (trip_step ed gc pub e st)) k = Some ch'"
  shows "tcSeq ch' = tcSeq ch \<or> tcSeq ch' = tcSeq ch + 1"
proof (cases e)
  case (Offered now s m)
  obtain tcs hist where st: "st = (tcs, hist)" by fastforce
  show ?thesis
  proof (cases "accept_signed ed gc pub now s m tcs")
    case (Inl x)
    then show ?thesis using assms by (simp add: Offered st)
  next
    case (Inr r)
    obtain meta s' tcs' where r: "r = (meta, s', tcs')" by (cases r) auto
    obtain res :: VerifyResult where "ceSeq m = fst (expected_link (map_of tcs (to_lower (cePub m))))"
      "tcs' = AList.update (to_lower (cePub m)) \<lparr>tcSeq = ceSeq m, tcPrevHash = vtNewPrev res, tcLastSeen = now\<rparr> tcs"
      using Inr [unfolded r] by (rule accept_signed_cases) blast
    then show ?thesis using assms(2,3) Inr
      by (auto simp: Offered st r update_conv' expected_link_def split: if_splits)
  qed
next
  case (Pruned now srt)
  then show ?thesis using assms pruned_lookup(1) [of "fst st" srt now k ch']
    by (cases st) (auto simp: tip_ok_def Let_def)
qed

lemma kept_key_run:
  assumes "tip_ok st" "map_of (fst st) k = Some ch" "keeps_key ed gc pub k es st"
  shows "\<exists>ch' j. map_of (fst (fold (trip_step ed gc pub) es st)) k = Some ch' \<and> tcSeq ch' = tcSeq ch + of_nat j \<and> j \<le> length es"
  using assms
proof (induction es arbitrary: st ch)
  case Nil
  then show ?case by (intro exI [of _ ch] exI [of _ 0]) simp
next
  case (Cons e es)
  let ?st = "trip_step ed gc pub e st"
  obtain c1 where c1: "map_of (fst ?st) k = Some c1" using Cons.prems(3) by auto
  obtain ch' j where "map_of (fst (fold (trip_step ed gc pub) es ?st)) k = Some ch'" "tcSeq ch' = tcSeq c1 + of_nat j" "j \<le> length es"
    using Cons.IH [OF tip_ok_step [OF Cons.prems(1)] c1] Cons.prems(3) by auto
  with kept_key_counts [OF Cons.prems(1,2) c1] show ?case
    by (elim disjE; intro exI [of _ ch'] exI [of _ j] exI [of _ "Suc j"]) auto
qed

lemma accepted_key_and_seq:
  assumes "accept_signed ed gc pub now s m tcs = Inr (meta, s', tcs')"
  shows "tmPub meta = to_lower (cePub m)" "ceSeq m = tmSeq meta"
proof -
  obtain res where res: "trip_Verify ed (envelope_params (tsDisplayName s) pub m) = Inr res" "length (cePub m) = 64"
    "tmPub meta = vtPubHex res" "tmSeq meta = vtSeq res"
    using assms by (rule accept_signed_cases)
  from res(1) show "tmPub meta = to_lower (cePub m)" "ceSeq m = tmSeq meta"
    using res(2-4) clean_same_length [of "to_lower (cePub m)"]
    by (auto simp: envelope_params_def elim!: trip_Verify_facts)
qed

lemma accept_extends_line:
  assumes "fold (trip_step ed gc pub) es no_history = (tcs, hist)"
    and "accept_signed ed gc pub now s m tcs = Inr (meta, s', tcs')"
  shows "tmSeq meta = of_nat (Suc (length (hist (tmPub meta))))"
    and "tmPrev meta = hex_encode (foldl trip_link zero_hash (hist (tmPub meta)))"
    and "map_of tcs' (tmPub meta) = Some \<lparr>tcSeq = tmSeq meta,
      tcPrevHash = foldl trip_link zero_hash (hist (tmPub meta) @ [signed_pair meta]), tcLastSeen = now\<rparr>"
    and "snd (signed_pair meta) = sha256 (envelope_text m)"
proof -
  have "tip_ok (tcs, hist)" using run_tip_ok [of ed gc pub es] by (simp add: assms(1))
  note e = tip_ok_expected [OF this, of "tmPub meta"]
  note l = accept_signed_link [OF assms(2), unfolded e(1), simplified snd_conv fst_conv, OF e(2)]
  show "tmSeq meta = of_nat (Suc (length (hist (tmPub meta))))"
    "tmPrev meta = hex_encode (foldl trip_link zero_hash (hist (tmPub meta)))"
    "map_of tcs' (tmPub meta) = Some \<lparr>tcSeq = tmSeq meta,
      tcPrevHash = foldl trip_link zero_hash (hist (tmPub meta) @ [signed_pair meta]), tcLastSeen = now\<rparr>"
    "snd (signed_pair meta) = sha256 (envelope_text m)"
    using l by (simp_all add: trip_log.tip_of_def update_conv')
qed

lemma accepted_once_while_kept:
  assumes "tip_ok st" "accept_signed ed gc pub now s m (fst st) = Inr (meta, s', tcs')"
    and "trip_step ed gc pub (Offered now s m) st = st'"
    and "keeps_key ed gc pub (tmPub meta) later st'" "length later < 2 ^ 32 - 1"
  shows "accept_signed ed gc pub now' s2 m (fst (fold (trip_step ed gc pub) later st')) \<noteq> Inr r"
proof
  assume again: "accept_signed ed gc pub now' s2 m (fst (fold (trip_step ed gc pub) later st')) = Inr r"
  have ok: "tip_ok st'" using tip_ok_step [OF assms(1)] assms(3) by blast
  note key = accepted_key_and_seq [OF assms(2)]
  obtain res :: VerifyResult where "tcs' = AList.update (to_lower (cePub m)) \<lparr>tcSeq = ceSeq m, tcPrevHash = vtNewPrev res, tcLastSeen = now\<rparr> (fst st)"
    using assms(2) by (rule accept_signed_cases) blast
  then have first: "map_of (fst st') (tmPub meta) = Some \<lparr>tcSeq = ceSeq m, tcPrevHash = vtNewPrev res, tcLastSeen = now\<rparr>"
    using assms(2,3) key(1) by (cases st) (auto simp: update_conv')
  obtain ch' j where "map_of (fst (fold (trip_step ed gc pub) later st')) (tmPub meta) = Some ch'"
    "tcSeq ch' = ceSeq m + of_nat j" "j \<le> length later"
    using kept_key_run [OF ok first assms(4)] by auto
  then have "ceSeq m = ceSeq m + of_nat (Suc j)" "Suc j < 2 ^ 32"
    using accept_seq [OF again] key(1) assms(5) by (simp_all add: expected_link_def)
  then have "(of_nat (Suc j) :: u32) = 0" by (metis add_cancel_left_right)
  then have "unat (of_nat (Suc j) :: u32) = 0" by (simp only: unat_0)
  then show False using \<open>Suc j < 2 ^ 32\<close> by (simp add: unat_of_nat del: of_nat_Suc)
qed

text \<open>C19. Each key's signed messages form one line: after any sequence of offered messages, from any sessions, and prunings, a
  message is accepted only with the next sequence number of its key and with the hash that chains every message of that
  key accepted since its chain was started, in order; it extends that chain by its own signature and text, and neither it nor any
  copy of it is accepted again, from any session, after any further events (fewer than \<open>2 ^ 32 - 1\<close>, the span of the sequence
  number) during which the server keeps that key's chain. Once the chain is pruned the key starts again at number 1.\<close>

theorem signed_messages_form_a_line:
  assumes "fold (trip_step ed gc pub) es no_history = (tcs, hist)"
    and "accept_signed ed gc pub now s m tcs = Inr (meta, s', tcs')"
  shows "tmSeq meta = of_nat (Suc (length (hist (tmPub meta)))) \<and>
    tmPrev meta = hex_encode (foldl trip_link zero_hash (hist (tmPub meta))) \<and>
    map_of tcs' (tmPub meta) = Some \<lparr>tcSeq = tmSeq meta,
      tcPrevHash = foldl trip_link zero_hash (hist (tmPub meta) @ [signed_pair meta]), tcLastSeen = now\<rparr> \<and>
    snd (signed_pair meta) = sha256 (envelope_text m) \<and>
    (\<forall>later now' s2 r. length later < 2 ^ 32 - 1 \<and>
       keeps_key ed gc pub (tmPub meta) later (trip_step ed gc pub (Offered now s m) (tcs, hist)) \<longrightarrow>
       accept_signed ed gc pub now' s2 m
         (fst (fold (trip_step ed gc pub) later (trip_step ed gc pub (Offered now s m) (tcs, hist)))) \<noteq> Inr r)"
proof -
  have "tip_ok (tcs, hist)" using run_tip_ok [of ed gc pub es] by (simp add: assms(1))
  from accepted_once_while_kept [OF this, of ed gc pub now s m meta s' tcs'] assms(2) accept_extends_line [OF assms]
  show ?thesis by (simp del: trip_step.simps)
qed

definition ex_key :: bytes where "ex_key = replicate 32 NUL"
definition ex_sig :: bytes where "ex_sig = replicate 64 NUL"

lemma ex_lengths [simp]: "length ex_key = 32" "length ex_sig = 64" "length zero_hash = 32"
  by (simp_all add: ex_key_def ex_sig_def zero_hash_def)

definition ex_envelope :: chat_envelope where
  "ex_envelope = \<lparr>ceText = ''hi'', ceMsg = [], cePub = hex_encode ex_key, ceSeq = 1, cePrev = hex_encode zero_hash,
     ceSig = hex_encode ex_sig, ceTmpID = 5, ceReplyTo = 0\<rparr>"

definition ex_trip_session :: trip_session where
  "ex_trip_session = \<lparr>tsTripPub = [], tsTripBadge = [], tsDisplayName = ''ann#0000''\<rparr>"

lemma ex_signed_accepted: "\<exists>meta s' tcs'. accept_signed (\<lambda>_ _ _. True) (\<lambda>_. Ll) [] 9 ex_trip_session ex_envelope [] = Inr (meta, s', tcs') \<and>
    tmPub meta = hex_encode ex_key"
proof -
  have "rune_pieces ''hi'' = map (\<lambda>c. (nat_of c, 1)) ''hi''" by (rule rune_pieces_ascii) (simp add: nat_of_def)
  then have v: "ValidateMessage (\<lambda>_. Ll) ''hi'' = None"
    by (simp add: ValidateMessage_def ValidString_def runes_def RuneError_def nat_of_def IsGraphic_def)
  have t: "envelope_text ex_envelope = ''hi''" by (simp add: envelope_text_def ex_envelope_def)
  have "\<exists>res. trip_Verify (\<lambda>_ _ _. True) (envelope_params (tsDisplayName ex_trip_session) [] ex_envelope) = Inr res \<and>
      vtPubHex res = hex_encode ex_key"
    unfolding trip_Verify_def envelope_params_def Let_def t by (simp add: ex_envelope_def to_lower_def [of "[]"])
  then obtain res where "trip_Verify (\<lambda>_ _ _. True) (envelope_params (tsDisplayName ex_trip_session) [] ex_envelope) = Inr res"
    "vtPubHex res = hex_encode ex_key"
    by blast
  then show ?thesis
    unfolding accept_signed_def Let_def t v by (simp add: ex_envelope_def ex_trip_session_def expected_link_def)
qed

theorem signed_messages_form_a_line_witness:
  "\<exists>meta s' tcs'. accept_signed (\<lambda>_ _ _. True) (\<lambda>_. Ll) [] 9 ex_trip_session ex_envelope [] = Inr (meta, s', tcs') \<and>
     tmSeq meta = 1 \<and> (\<forall>now s2 r. accept_signed (\<lambda>_ _ _. True) (\<lambda>_. Ll) [] now s2 ex_envelope tcs' \<noteq> Inr r)"
proof -
  obtain meta s' tcs' where acc: "accept_signed (\<lambda>_ _ _. True) (\<lambda>_. Ll) [] 9 ex_trip_session ex_envelope [] = Inr (meta, s', tcs')"
    using ex_signed_accepted by blast
  have "fold (trip_step (\<lambda>_ _ _. True) (\<lambda>_. Ll) []) [] no_history = ([], \<lambda>_. [])" by (simp add: no_history_def)
  note line = signed_messages_form_a_line [OF this acc]
  have "\<forall>now s2 r. accept_signed (\<lambda>_ _ _. True) (\<lambda>_. Ll) [] now s2 ex_envelope tcs' \<noteq> Inr r"
    using conjunct2 [OF conjunct2 [OF conjunct2 [OF conjunct2 [OF line]]], THEN spec, of "[]"] acc by simp
  with acc line show ?thesis by auto
qed

text \<open>C9. A key's tip binds its signed history: if two servers (or one server at two times) hold the same sequence number and the
  same tip for a key, they accepted the same signatures of the same message hashes in the same order, unless two of the
  named byte strings collide under SHA-256.\<close>

theorem equal_tips_equal_signed_history:
  assumes "fold (trip_step ed gc pub) es no_history = (tcs, hist)" "fold (trip_step ed' gc' pub') es' no_history = (tcs', hist')"
    and "map_of tcs k = Some ch" "map_of tcs' k = Some ch'" "tcSeq ch = tcSeq ch'" "tcPrevHash ch = tcPrevHash ch'"
    and "length (hist k) < 2 ^ 32" "length (hist' k) < 2 ^ 32"
  shows "hist k = hist' k \<or>
    (\<exists>i < length (hist k). trip_collide (foldl trip_link zero_hash (take i (hist k))) (hist k ! i)
       (foldl trip_link zero_hash (take i (hist' k))) (hist' k ! i))"
proof -
  have ok: "entry_ok (Some ch) (hist k)" "entry_ok (Some ch') (hist' k)"
    using run_tip_ok [of ed gc pub es] run_tip_ok [of ed' gc' pub' es'] assms(3,4)
    unfolding assms(1,2) tip_ok_def by (metis fst_conv snd_conv)+
  have "(of_nat (length (hist k)) :: u32) = of_nat (length (hist' k))" using ok assms(5) by (simp add: entry_ok_def)
  moreover have "unat (of_nat n :: u32) = n" if "n < 2 ^ 32" for n using that by (simp add: unat_of_nat take_bit_nat_eq_self)
  ultimately have len: "length (hist k) = length (hist' k)" using assms(7,8) by metis
  have "trip_log.tip_of zero_hash (hist k) = trip_log.tip_of zero_hash (hist' k)" using ok assms(6) by (simp add: entry_ok_def)
  then show ?thesis
    using trip_log.same_tip_same_log [OF len, of zero_hash zero_hash] ok by (simp add: entry_ok_def trip_log.tip_of_def)
qed

theorem equal_tips_equal_signed_history_witness:
  "\<exists>tcs hist tcs' hist' ch.
     fold (trip_step (\<lambda>_ _ _. True) (\<lambda>_. Ll) []) [Offered 9 ex_trip_session ex_envelope] no_history = (tcs, hist) \<and>
     fold (trip_step (\<lambda>_ _ _. True) (\<lambda>_. Ll) [])
       [Offered 9 ex_trip_session ex_envelope, Offered 9 ex_trip_session ex_envelope] no_history = (tcs', hist') \<and>
     map_of tcs (hex_encode ex_key) = Some ch \<and> map_of tcs' (hex_encode ex_key) = Some ch \<and>
     (hist (hex_encode ex_key) = hist' (hex_encode ex_key) \<or> (\<exists>p m q n. trip_collide p m q n))"
proof -
  let ?ev = "Offered 9 ex_trip_session ex_envelope" and ?k = "hex_encode ex_key"
  let ?step = "trip_step (\<lambda>_ _ _. True) (\<lambda>_. Ll) []"
  obtain meta s' tcs where acc: "accept_signed (\<lambda>_ _ _. True) (\<lambda>_. Ll) [] 9 ex_trip_session ex_envelope [] = Inr (meta, s', tcs)"
    and key: "tmPub meta = ?k"
    using ex_signed_accepted by blast
  define hist where "hist = (\<lambda>_. [])(tmPub meta := [signed_pair meta])"
  have run1: "fold ?step [?ev] no_history = (tcs, hist)" by (simp add: no_history_def acc hist_def)
  have start: "fold ?step [] no_history = ([], \<lambda>_. [])" by (simp add: no_history_def)
  note line = accept_extends_line [OF start acc]
  have "accept_signed (\<lambda>_ _ _. True) (\<lambda>_. Ll) [] 9 ex_trip_session ex_envelope tcs \<noteq> Inr r" for r
    using accepted_once_while_kept [of "([], \<lambda>_. [])" "\<lambda>_ _ _. True" "\<lambda>_. Ll" "[]" 9 ex_trip_session ex_envelope meta s' tcs "(tcs, hist)" "[]" 9 ex_trip_session r] acc
      run_tip_ok [of _ _ _ "[]"] by (simp add: no_history_def hist_def)
  then obtain e where "accept_signed (\<lambda>_ _ _. True) (\<lambda>_. Ll) [] 9 ex_trip_session ex_envelope tcs = Inl e"
    by (cases "accept_signed (\<lambda>_ _ _. True) (\<lambda>_. Ll) [] 9 ex_trip_session ex_envelope tcs") auto
  then have run2: "fold ?step [?ev, ?ev] no_history = (tcs, hist)" using run1 by simp
  obtain ch where ch: "map_of tcs ?k = Some ch" using line key by auto
  have len: "length (hist ?k) < 2 ^ 32" by (simp add: hist_def)
  show ?thesis
    using equal_tips_equal_signed_history [OF run1 run2 ch ch refl refl len len] run1 run2 ch by blast
qed

end
