(* ===== verification/Chat_Server.thy ===== *)
theory Chat_Server
  imports Hub Screening Trip Gate History_Replay
begin

text \<open>
  The server around one connection: \<open>ChatServer\<close> of \<^verbatim>\<open>src/server/shared.go\<close>, the observations of
  \<^verbatim>\<open>observe.go\<close>, the per-address limits of \<^verbatim>\<open>clientHandler.go\<close>, the reveal registry of \<^verbatim>\<open>trip_reveal.go\<close>, the
  vote and proof-of-work handlers of \<^verbatim>\<open>vote.go\<close> and \<^verbatim>\<open>powscreen.go\<close>, and the scheduler tick.

  One record \<open>sv_env\<close> carries what a handler takes from outside: configuration, clock readings (\<open>xClk i\<close> is
  the reading at call site \<open>i\<close> of the handler), random bytes, map iteration orders, decoders and signatures. A handler
  maps the server to the server. A page of history is appended to \<open>cvPages\<close> with its connection: the queue
  outcomes of its frames are the \<open>xRoom\<close> of the environment.
\<close>

subsection \<open>Configuration\<close>

record DynamicConfig =
  dcStatusURL :: string
  dcDownloadURL :: string
  dcHomepageURL :: string
  dcMaxConnectionsPerIP :: int
  dcMaxMessageLength :: int
  dcMaxMessageLine :: int
  dcMessageCooldown :: duration
  dcIdleChatTimeout :: duration
  dcMaxHistoryBytes :: int
  dcMaxHistorySend :: int
  dcHistoryBudgetBurst :: int
  dcHistoryBudgetPerSec :: int
  dcHistoryRefillMaxRanges :: int
  dcHistoryReplayBatchLines :: int
  dcHistoryReplayBatchBytes :: int
  dcHistoryDiskLookup :: int
  dcMaxUsernameLength :: int
  dcMaxTripcodeLength :: int
  dcConnectionCooldown :: duration

definition DefaultDynamic :: DynamicConfig where
  "DefaultDynamic = \<lparr>dcStatusURL = ''https://example.com/status'', dcDownloadURL = ''https://example.com/download'',
     dcHomepageURL = ''https://example.com/'', dcMaxConnectionsPerIP = 2, dcMaxMessageLength = 5000,
     dcMaxMessageLine = 50, dcMessageCooldown = second, dcIdleChatTimeout = 30 * minute, dcMaxHistoryBytes = 10485760,
     dcMaxHistorySend = 500, dcHistoryBudgetBurst = 1000, dcHistoryBudgetPerSec = 500, dcHistoryRefillMaxRanges = 64,
     dcHistoryReplayBatchLines = 32, dcHistoryReplayBatchBytes = 16384, dcHistoryDiskLookup = 0,
     dcMaxUsernameLength = 12, dcMaxTripcodeLength = 64, dcConnectionCooldown = 5 * second\<rparr>"

text \<open>\<open>readLimitFor\<close> at its width: the product of two \<open>int64\<close> values wraps.\<close>

definition readLimitFor :: "64 word \<Rightarrow> 64 word" where
  "readLimitFor maxMessageLength =
     (let limit = maxMessageLength * 3 in if sint limit < 0 then 0 else limit)"

subsection \<open>Rendering durations and errors\<close>

definition pad_left :: "nat \<Rightarrow> string \<Rightarrow> string" where
  "pad_left n s = replicate (n - length s) (CHR ''0'') @ s"

text \<open>\<open>fmtFrac\<close> of \<open>time.Duration.String\<close>: the fraction without trailing zeros, with its point.\<close>

definition fmt_frac :: "nat \<Rightarrow> nat \<Rightarrow> string" where
  "fmt_frac u prec =
     (let ds = rev (dropWhile (\<lambda>c. c = CHR ''0'') (rev (pad_left prec (dec (u mod 10 ^ prec)))))
      in if u mod 10 ^ prec = 0 then [] else CHR ''.'' # ds)"

definition duration_abs :: "nat \<Rightarrow> string" where
  "duration_abs u =
     (if u = 0 then ''0s''
      else if u < 1000 then dec u @ ''ns''
      else if u < 1000000 then dec (u div 1000) @ fmt_frac u 3 @ encode_runes [0xB5] @ ''s''
      else if u < 1000000000 then dec (u div 1000000) @ fmt_frac u 6 @ ''ms''
      else let s = u div 1000000000; m = s div 60; h = m div 60;
               secs = dec (s mod 60) @ fmt_frac u 9 @ ''s''
           in if m = 0 then secs
              else if h = 0 then dec (m mod 60) @ ''m'' @ secs
              else dec h @ ''h'' @ dec (m mod 60) @ ''m'' @ secs)"

definition duration_string :: "duration \<Rightarrow> string" where
  "duration_string d = (if d < 0 then CHR ''-'' # duration_abs (nat (- d)) else duration_abs (nat d))"

fun hex_upper :: "nat \<Rightarrow> string" where
  "hex_upper n = (if n < 16 then [''0123456789ABCDEF'' ! n] else hex_upper (n div 16) @ [''0123456789ABCDEF'' ! (n mod 16)])"

declare hex_upper.simps [simp del]

definition rune_name :: "nat \<Rightarrow> string" where
  "rune_name r = ''U+'' @ pad_left 4 (hex_upper r)"

text \<open>The text of the errors that \<open>ValidateMessage\<close> returns; it returns no other.\<close>

fun message_error_text :: "filter_error \<Rightarrow> string" where
  "message_error_text ErrUtf8 = ''message contains invalid character: invalid utf8''"
| "message_error_text ErrFFFD = ''message contains invalid character: U+FFFD''"
| "message_error_text (ErrCf r) = ''message contains invalid character: Cf '' @ rune_name r"
| "message_error_text (ErrMark r) = ''message contains invalid character: Mn/Me '' @ rune_name r"
| "message_error_text (ErrLine r) = ''message contains invalid character: Zl/Zp '' @ rune_name r"
| "message_error_text (ErrNonGraphic r) = ''message contains invalid character: non-graphic '' @ rune_name r"
| "message_error_text _ = []"

subsection \<open>State and environment\<close>

record exposedEntry =
  exAt :: time
  exSeed :: string

type_synonym ExposedTrips = "(string \<times> exposedEntry) list"

record ChatServer =
  cvHub :: Hub
  cvIpCounts :: "string \<rightharpoonup> int"
  cvHistoryBudget :: BudgetMap
  cvSlowCooldown :: "CooldownMap option"
  cvInflight :: int
  cvVotes :: VoteBook
  cvVoteCooldown :: CooldownMap
  cvTripChains :: TripChains
  cvExposed :: ExposedTrips
  cvAttack :: "AttackState option"
  cvBehavior :: "BehaviorEngine option"
  cvScreener :: "PowScreener option"
  cvServerID :: "(string \<times> string) option"
  cvPages :: "(conn \<times> replay) list"

record env_probe =
  epType :: string
  epBefore :: u64
  epLimit :: int
  epAfterSeq :: "u64 option"
  epBeforeSeq :: "u64 option"
  epRanges :: "HeightRange list"
  epTarget :: u64
  epDirection :: int
  epSeed :: string
  epSig :: string

text \<open>\<open>xProbe\<close>, \<open>xChat\<close>, \<open>xPowResult\<close> and \<open>xPowDecline\<close> are \<open>json.Unmarshal\<close> into the structs of those names
  (\<open>None\<close> on an error). \<open>xOrder i\<close> is the iteration order of the profile store at call site \<open>i\<close>.\<close>

record sv_env =
  xHub :: hub_env
  xClk :: "nat \<Rightarrow> time"
  xOrder :: "nat \<Rightarrow> string list"
  xRand :: "nat \<Rightarrow> bytes option"
  xDyn :: DynamicConfig
  xAbuse :: "AbuseConfig option"
  xGC :: "nat \<Rightarrow> gcat"
  xEd :: ed_verify
  xSign :: "bytes \<Rightarrow> bytes \<Rightarrow> bytes"
  xPubOfSeed :: "bytes \<Rightarrow> bytes"
  xArgon :: argon2id
  xProbe :: "string \<Rightarrow> env_probe option"
  xChat :: "string \<Rightarrow> chat_envelope option"
  xPowResult :: "string \<Rightarrow> PowResult option"
  xPowDecline :: "string \<Rightarrow> PowDecline option"
  xRFC3339 :: "time \<Rightarrow> string"
  xRoom :: "bool list"
  xRecords :: record_parser
  xDisk :: "(disk \<times> genIndex list) option"
  xSortRanges :: "HeightRange list \<Rightarrow> HeightRange list"
  xSortSeen :: "(string \<times> time) list \<Rightarrow> (string \<times> time) list"

definition henv :: "sv_env \<Rightarrow> hub_env" where
  "henv ev = (xHub ev)\<lparr>heMax := dcMaxHistoryBytes (xDyn ev)\<rparr>"

definition cks :: "sv_env \<Rightarrow> nat \<Rightarrow> clocks" where
  "cks ev i = \<lparr>ckNow = xClk ev i, ckSince = xClk ev (i + 1), ckEvict = xClk ev (i + 2)\<rparr>"

definition chat_serverPub :: "ChatServer \<Rightarrow> string" where
  "chat_serverPub s = (case cvServerID s of Some (pub, priv) \<Rightarrow> pub | None \<Rightarrow> [])"

definition clientCount :: "ChatServer \<Rightarrow> int" where
  "clientCount s = int (length (hbClients (cvHub s)))"

text \<open>\<open>s.unicastNotice(session, text, tag)\<close> with the clock reading of call site \<open>i\<close>.\<close>

definition say :: "sv_env \<Rightarrow> nat \<Rightarrow> ClientSession \<Rightarrow> string \<Rightarrow> string \<Rightarrow> ChatServer \<Rightarrow> ChatServer" where
  "say ev i ses txt tag s = s\<lparr>cvHub := unicastNotice (henv ev) (xClk ev i) (seConn ses) (tl system_mark @ txt) [tag] (cvHub s)\<rparr>"

definition on_behavior :: "(BehaviorEngine \<Rightarrow> BehaviorEngine) \<Rightarrow> ChatServer \<Rightarrow> ChatServer" where
  "on_behavior f s = s\<lparr>cvBehavior := map_option f (cvBehavior s)\<rparr>"

definition on_screener :: "(PowScreener \<Rightarrow> PowScreener) \<Rightarrow> ChatServer \<Rightarrow> ChatServer" where
  "on_screener f s = s\<lparr>cvScreener := map_option f (cvScreener s)\<rparr>"

definition muted :: "conn \<Rightarrow> ChatServer \<Rightarrow> bool" where
  "muted c s = (case cvScreener s of Some sc \<Rightarrow> IsMuted c sc | None \<Rightarrow> False)"

subsection \<open>Observations\<close>

definition observeConnect :: "sv_env \<Rightarrow> nat \<Rightarrow> string \<Rightarrow> string \<Rightarrow> IdentityKind \<Rightarrow> ChatServer \<Rightarrow> ChatServer" where
  "observeConnect ev i ip name kind = on_behavior (ObserveConnect (xOrder ev i) ip name kind (xClk ev i))"

definition observeMessage :: "sv_env \<Rightarrow> nat \<Rightarrow> string \<Rightarrow> ChatServer \<Rightarrow> ChatServer" where
  "observeMessage ev i ip s =
     (case cvBehavior s of
        None \<Rightarrow> s
      | Some e \<Rightarrow>
          (let now = xClk ev i; plain = s\<lparr>cvBehavior := Some (ObserveMessage (xOrder ev i) ip now e)\<rparr> in
           case (cvScreener s, Option.bind (xAbuse ev) acBehavior) of
             (Some sc, Some bc) \<Rightarrow>
               if bcScoreEveryNMsgs bc < 1 then plain
               else (let (due, e1) = ObserveMessageAndDue (xOrder ev i) ip now (bcScoreEveryNMsgs bc) e;
                         s1 = s\<lparr>cvBehavior := Some e1\<rparr>
                     in if due then s1\<lparr>cvScreener := Some (screen_Defer ip now sc)\<rparr> else s1)
           | _ \<Rightarrow> plain))"

definition observeHistory :: "sv_env \<Rightarrow> nat \<Rightarrow> string \<Rightarrow> ChatServer \<Rightarrow> ChatServer" where
  "observeHistory ev i ip = on_behavior (ObserveHistory (xOrder ev i) ip (xClk ev i))"

definition observeChallenge :: "sv_env \<Rightarrow> nat \<Rightarrow> string \<Rightarrow> ChatServer \<Rightarrow> ChatServer" where
  "observeChallenge ev i ip = on_behavior (ObserveChallenge (xOrder ev i) ip (xClk ev i))"

definition observeHTTP :: "sv_env \<Rightarrow> nat \<Rightarrow> string \<Rightarrow> string \<Rightarrow> int \<Rightarrow> ChatServer \<Rightarrow> ChatServer" where
  "observeHTTP ev i ip cls status = on_behavior (ObserveHTTP (xOrder ev i) ip cls status (xClk ev i))"

definition observeErr :: "sv_env \<Rightarrow> nat \<Rightarrow> string \<Rightarrow> string \<Rightarrow> ChatServer \<Rightarrow> ChatServer" where
  "observeErr ev i ip code = on_behavior (ObserveErr (xOrder ev i) ip code (xClk ev i))"

definition observeDisconnect :: "sv_env \<Rightarrow> nat \<Rightarrow> string \<Rightarrow> ChatServer \<Rightarrow> ChatServer" where
  "observeDisconnect ev i ip = on_behavior (ObserveDisconnect (xOrder ev i) ip (xClk ev i))"

text \<open>The part of a string from the first occurrence of a pattern on.\<close>

fun from_first :: "string \<Rightarrow> string \<Rightarrow> string option" where
  "from_first p [] = (if p = [] then Some [] else None)"
| "from_first p (c # cs) = (if take (length p) (c # cs) = p then Some (c # cs) else from_first p cs)"

definition auth_prefix :: string where "auth_prefix = ''auth_error: ''"

text \<open>\<open>err\<close> is the text of the error.\<close>

definition observeAuthErr :: "sv_env \<Rightarrow> nat \<Rightarrow> string \<Rightarrow> string option \<Rightarrow> ChatServer \<Rightarrow> ChatServer" where
  "observeAuthErr ev i ip err s =
     (case err of
        None \<Rightarrow> s
      | Some msg \<Rightarrow>
          observeErr ev i ip
            (case from_first auth_prefix msg of
               None \<Rightarrow> ''auth:fail''
             | Some rest \<Rightarrow> ''auth:'' @ drop (length auth_prefix) rest) s)"

definition sessionIdentityKind :: "ClientSession \<Rightarrow> IdentityKind" where
  "sessionIdentityKind ses =
     (if seIdentityPub ses \<noteq> [] \<or> seAuthType ses = ''passkey'' then IdKey
      else if seTripPub ses \<noteq> [] then IdTrip else IdGuest)"

subsection \<open>Limits per address\<close>

text \<open>\<open>acquireIPConnection\<close> without the HTTP refusal it writes.\<close>

definition acquireIPConnection :: "sv_env \<Rightarrow> string \<Rightarrow> ChatServer \<Rightarrow> bool \<times> ChatServer" where
  "acquireIPConnection ev ip s =
     (let n = (case cvIpCounts s ip of Some n \<Rightarrow> n | None \<Rightarrow> 0) in
      if n \<ge> dcMaxConnectionsPerIP (xDyn ev) then (False, s)
      else (True, s\<lparr>cvIpCounts := (cvIpCounts s)(ip \<mapsto> n + 1)\<rparr>))"

definition releaseIPConnection :: "string \<Rightarrow> ChatServer \<Rightarrow> ChatServer" where
  "releaseIPConnection ip s =
     (let n = (case cvIpCounts s ip of Some n \<Rightarrow> n | None \<Rightarrow> 0) - 1 in
      s\<lparr>cvIpCounts := (if n \<le> 0 then (cvIpCounts s)(ip := None) else (cvIpCounts s)(ip \<mapsto> n))\<rparr>)"

definition allowHistoryRequest :: "sv_env \<Rightarrow> nat \<Rightarrow> string \<Rightarrow> int \<Rightarrow> ChatServer \<Rightarrow> bool \<times> ChatServer" where
  "allowHistoryRequest ev i ip cost s =
     (let charged = (if degraded (cvAttack s) (xClk ev i) (xAbuse ev) (clientCount s) (cvInflight s)
                     then 2 * real_of_int cost else real_of_int cost);
          (ok, b) = budget_allow ip charged (dcHistoryBudgetBurst (xDyn ev)) (dcHistoryBudgetPerSec (xDyn ev))
                      (xClk ev (i + 1)) (cvHistoryBudget s)
      in (ok, s\<lparr>cvHistoryBudget := b\<rparr>))"

text \<open>The wait that slow mode asks of an address, if any.\<close>

definition slow_wait :: "sv_env \<Rightarrow> ClientSession \<Rightarrow> string \<Rightarrow> duration \<Rightarrow> ChatServer \<Rightarrow> (int \<times> duration) option" where
  "slow_wait ev ses ip base s =
     (if canMessageUnlimited (sePerms ses) then None
      else case (cvBehavior s, cvSlowCooldown s) of
          (Some e, Some sl) \<Rightarrow>
            (case engine_Tier ip e of
               None \<Rightarrow> None
             | Some tier \<Rightarrow>
                 if tier < 2 then None
                 else let mult = (case Option.bind (xAbuse ev) acBehavior of Some bc \<Rightarrow> SlowMult (Some bc) tier | None \<Rightarrow> 1)
                      in if mult \<le> 1 then None else Some (tier, base * mult))
        | _ \<Rightarrow> None)"

definition slow_text :: "int \<Rightarrow> duration \<Rightarrow> string" where
  "slow_text tier d = ''K'' @ encode_runes [0xEA] @ ''nh '' @ encode_runes [0x111] @ ''ang '' @ encode_runes [0x1EDF] @ '' ch'' @ encode_runes [0x1EBF] @ '' '' @ encode_runes [0x111, 0x1ED9] @ '' ch'' @ encode_runes [0x1EAD] @ ''m (tier '' @ dec_int tier @
     ''). Vui l'' @ encode_runes [0xF2] @ ''ng '' @ encode_runes [0x111, 0x1EE3] @ ''i '' @ duration_string d @ ''.''"

definition allowSlowSend :: "sv_env \<Rightarrow> nat \<Rightarrow> ClientSession \<Rightarrow> string \<Rightarrow> duration \<Rightarrow> ChatServer \<Rightarrow> bool \<times> ChatServer" where
  "allowSlowSend ev i ses ip base s =
     (case slow_wait ev ses ip base s of
        None \<Rightarrow> (True, s)
      | Some (tier, d) \<Rightarrow>
          (let (ok, sl) = cooldown_allow ip d (cks ev i) (the (cvSlowCooldown s));
               s1 = s\<lparr>cvSlowCooldown := Some sl\<rparr>
           in if ok then (True, s1) else (False, say ev (i + 3) ses (slow_text tier d) TagLimit s1)))"

subsection \<open>The reveal registry\<close>

definition exposedTripsTTL :: duration where "exposedTripsTTL = 24 * hour"
definition maxExposedTrips :: nat where "maxExposedTrips = 10000"

definition pruneExposedTrips :: "((string \<times> time) list \<Rightarrow> (string \<times> time) list) \<Rightarrow> time \<Rightarrow> ExposedTrips \<Rightarrow> ExposedTrips" where
  "pruneExposedTrips srt now m =
     (let live = filter (\<lambda>(k, e). \<not> (\<not> isZero (exAt e) \<and> now - exAt e > exposedTripsTTL)) m;
          kept = map (\<lambda>(k, e). (k, exAt e)) live
      in if length kept \<le> maxExposedTrips then live
         else let gone = map fst (take (length kept - maxExposedTrips) (srt kept))
              in filter (\<lambda>(k, e). k \<notin> set gone) live)"

text \<open>The stamp \<open>at\<close> is zero when the stored record has none; \<open>now\<close> is the clock.\<close>

definition markTripExposedAt ::
  "((string \<times> time) list \<Rightarrow> (string \<times> time) list) \<Rightarrow> time \<Rightarrow> string \<Rightarrow> time \<Rightarrow> string \<Rightarrow> ExposedTrips \<Rightarrow> ExposedTrips" where
  "markTripExposedAt srt now pubHex at0 seedHex m =
     (let stamp = (if isZero at0 then now else at0) in
      if now - stamp > exposedTripsTTL then m
      else pruneExposedTrips srt now (AList.update pubHex \<lparr>exAt = stamp, exSeed = to_lower seedHex\<rparr> m))"

definition loadExposedEntry :: "time \<Rightarrow> string \<Rightarrow> time \<Rightarrow> ExposedTrips \<Rightarrow> exposedEntry option \<times> ExposedTrips" where
  "loadExposedEntry now pubHex at0 m =
     (case map_of m pubHex of
        None \<Rightarrow> (None, m)
      | Some e \<Rightarrow>
          if exSeed e = [] then (None, AList.delete pubHex m)
          else if now - exAt e > exposedTripsTTL then (None, AList.delete pubHex m)
          else let stamp = (if isZero at0 then now else at0) in
            if stamp > exAt e \<and> now - stamp \<le> exposedTripsTTL
            then (Some (e\<lparr>exAt := stamp\<rparr>), AList.update pubHex (e\<lparr>exAt := stamp\<rparr>) m)
            else (Some e, m))"

definition isTripExposedAt :: "time \<Rightarrow> string \<Rightarrow> time \<Rightarrow> ExposedTrips \<Rightarrow> bool \<times> ExposedTrips" where
  "isTripExposedAt now pubHex at0 m = (let (e, m1) = loadExposedEntry now pubHex at0 m in (e \<noteq> None, m1))"

definition exposedSeedHex :: "time \<Rightarrow> time \<Rightarrow> string \<Rightarrow> ExposedTrips \<Rightarrow> string \<times> ExposedTrips" where
  "exposedSeedHex at0 now pubHex m =
     (let (e, m1) = loadExposedEntry now pubHex at0 m in (case e of None \<Rightarrow> [] | Some x \<Rightarrow> exSeed x, m1))"

definition isTripExposed :: "sv_env \<Rightarrow> nat \<Rightarrow> string \<Rightarrow> ChatServer \<Rightarrow> bool \<times> ChatServer" where
  "isTripExposed ev i pubHex s =
     (let (b, m) = isTripExposedAt (xClk ev (i + 1)) pubHex (xClk ev i) (cvExposed s) in (b, s\<lparr>cvExposed := m\<rparr>))"

definition reveal_text :: "string \<Rightarrow> string \<Rightarrow> string" where
  "reveal_text badge seed = ''Danh t'' @ encode_runes [0xED] @ ''nh '' @ badge @ '' '' @ encode_runes [0x111, 0xE3] @ '' l'' @ encode_runes [0x1ED9] @ '' seed '' @ seed @ '', '' @ encode_runes [0x111, 0x1EEB] @ ''ng tin badge n'' @ encode_runes [0xE0] @ ''y n'' @ encode_runes [0x1EEF] @ ''a.''"

definition reveal_wire :: "hub_env \<Rightarrow> time \<Rightarrow> string \<Rightarrow> string \<Rightarrow> string \<Rightarrow> string \<Rightarrow> WireMessage" where
  "reveal_wire env now pubHex badge sigHex seedHex =
     (let seed = clean seedHex in
      (noticeWire (heHHMM env) now (stamped env now (reveal_text badge seed)) [TagTripReveal])
        \<lparr>wExposedPub := pubHex, wExposedSig := to_lower sigHex, wExposedSeed := seed\<rparr>)"

definition BroadcastTripReveal :: "hub_env \<Rightarrow> time \<Rightarrow> string \<Rightarrow> string \<Rightarrow> string \<Rightarrow> string \<Rightarrow> Hub \<Rightarrow> Hub" where
  "BroadcastTripReveal env now pubHex badge sigHex seedHex =
     send_system env now (reveal_wire env now pubHex badge sigHex seedHex) None"

definition muted_text :: string where
  "muted_text = ''Chat c'' @ encode_runes [0x1EE7] @ ''a b'' @ encode_runes [0x1EA1] @ ''n t'' @ encode_runes [0x1EA1] @ ''m d'' @ encode_runes [0x1EEB] @ ''ng ch'' @ encode_runes [0x1EDD] @ '' x'' @ encode_runes [0xE1] @ ''c minh. Ho'' @ encode_runes [0xE0] @ ''n th'' @ encode_runes [0xE0] @ ''nh th'' @ encode_runes [0x1EED] @ '' th'' @ encode_runes [0xE1] @ ''ch PoW '' @ encode_runes [0x111, 0x1EC3] @ '' ti'' @ encode_runes [0x1EBF] @ ''p t'' @ encode_runes [0x1EE5] @ ''c.''"

definition handleTripReveal :: "sv_env \<Rightarrow> ClientSession \<Rightarrow> string \<Rightarrow> string \<Rightarrow> string \<Rightarrow> ChatServer \<Rightarrow> ChatServer" where
  "handleTripReveal ev ses ip seedHex sigHex s =
     (if seTripPub ses = [] then say ev 0 ses (''Phi'' @ encode_runes [0xEA] @ ''n n'' @ encode_runes [0xE0] @ ''y kh'' @ encode_runes [0xF4] @ ''ng d'' @ encode_runes [0xF9] @ ''ng tripcode.'') TagTripReveal s
      else let pubHex = to_lower (seTripPub ses) in
        if \<not> VerifySeed (xPubOfSeed ev) seedHex pubHex
        then say ev 1 ses (''Seed kh'' @ encode_runes [0xF4] @ ''ng kh'' @ encode_runes [0x1EDB] @ ''p danh t'' @ encode_runes [0xED] @ ''nh c'' @ encode_runes [0x1EE7] @ ''a phi'' @ encode_runes [0xEA] @ ''n n'' @ encode_runes [0xE0] @ ''y.'') TagTripReveal (observeErr ev 0 ip ''reveal:seed'' s)
        else if \<not> VerifyReveal (xEd ev) pubHex sigHex
        then say ev 1 ses (''Ch'' @ encode_runes [0x1EEF] @ '' k'' @ encode_runes [0xFD] @ '' c'' @ encode_runes [0xF4] @ ''ng b'' @ encode_runes [0x1ED1] @ '' kh'' @ encode_runes [0xF4] @ ''ng h'' @ encode_runes [0x1EE3] @ ''p l'' @ encode_runes [0x1EC7] @ ''.'') TagTripReveal (observeErr ev 0 ip ''reveal:sig'' s)
        else let (known, s1) = isTripExposed ev 0 pubHex s in
          if known then say ev 2 ses (''Danh t'' @ encode_runes [0xED] @ ''nh n'' @ encode_runes [0xE0] @ ''y '' @ encode_runes [0x111, 0xE3] @ '' '' @ encode_runes [0x111, 0x1B0, 0x1EE3] @ ''c ghi nh'' @ encode_runes [0x1EAD] @ ''n l'' @ encode_runes [0xE0] @ '' l'' @ encode_runes [0x1ED9] @ '' seed.'') TagTripReveal s1
          else if muted (seConn ses) s1 then say ev 2 ses muted_text TagPowGate s1
          else let (ok, s2) = allowHistoryRequest ev 2 ip 1 s1 in
            if \<not> ok then say ev 4 ses (''Thao t'' @ encode_runes [0xE1] @ ''c qu'' @ encode_runes [0xE1] @ '' nhanh, th'' @ encode_runes [0x1EED] @ '' l'' @ encode_runes [0x1EA1] @ ''i sau.'') TagLimit s2
            else let s3 = observeMessage ev 4 ip s2;
                     badge = (if seTripBadge ses = [] then TripBadgeFromPubHex pubHex else seTripBadge ses);
                     s4 = s3\<lparr>cvExposed := markTripExposedAt (xSortSeen ev) (xClk ev 6) pubHex (xClk ev 5) seedHex (cvExposed s3)\<rparr>
                 in s4\<lparr>cvHub := BroadcastTripReveal (henv ev) (xClk ev 7) pubHex badge sigHex seedHex (cvHub s4)\<rparr>)"

subsection \<open>Votes\<close>

definition handleVote :: "sv_env \<Rightarrow> ClientSession \<Rightarrow> string \<Rightarrow> u64 \<Rightarrow> int \<Rightarrow> ChatServer \<Rightarrow> ChatServer" where
  "handleVote ev ses ip target direction s =
     (if direction \<notin> {DirUpvote, DirDownvote, DirWithdraw}
      then say ev 1 ses (''H'' @ encode_runes [0x1B0, 0x1EDB] @ ''ng vote kh'' @ encode_runes [0xF4] @ ''ng h'' @ encode_runes [0x1EE3] @ ''p l'' @ encode_runes [0x1EC7] @ ''.'') TagEnvelope (observeErr ev 0 ip ''vote:direction'' s)
      else if target = 0
      then say ev 1 ses (''Tin vote kh'' @ encode_runes [0xF4] @ ''ng h'' @ encode_runes [0x1EE3] @ ''p l'' @ encode_runes [0x1EC7] @ ''.'') TagEnvelope (observeErr ev 0 ip ''vote:target'' s)
      else if csReady (hbChain (cvHub s)) \<and> target > csHeight (hbChain (cvHub s))
      then say ev 1 ses (''Tin vote d'' @ encode_runes [0x1EAB] @ ''n t'' @ encode_runes [0x1EDB] @ ''i ID ch'' @ encode_runes [0x1B0] @ ''a t'' @ encode_runes [0x1ED3] @ ''n t'' @ encode_runes [0x1EA1] @ ''i.'') TagEnvelope (observeErr ev 0 ip ''vote:future'' s)
      else if muted (seConn ses) s then say ev 0 ses muted_text TagPowGate s
      else let (ok, s1) = allowHistoryRequest ev 0 ip 1 s in
        if \<not> ok then say ev 2 ses (''Vote qu'' @ encode_runes [0xE1] @ '' nhanh, th'' @ encode_runes [0x1EED] @ '' l'' @ encode_runes [0x1EA1] @ ''i sau.'') TagLimit s1
        else let (ok2, vc) = cooldown_allow ip (dcMessageCooldown (xDyn ev)) (cks ev 2) (cvVoteCooldown s1);
                 s2 = s1\<lparr>cvVoteCooldown := vc\<rparr> in
          if \<not> ok2 then say ev 5 ses (''B'' @ encode_runes [0x1EA1] @ ''n '' @ encode_runes [0x111] @ ''ang vote qu'' @ encode_runes [0xE1] @ '' nhanh, th'' @ encode_runes [0x1EED] @ '' l'' @ encode_runes [0x1EA1] @ ''i sau.'') TagLimit s2
          else let (ok3, s3) = allowSlowSend ev 5 ses ip (dcMessageCooldown (xDyn ev)) s2 in
            if \<not> ok3 then s3
            else let s4 = observeMessage ev 9 ip s3;
                     (r, vb) = applyVote (xClk ev 10) ip target direction (cvVotes s4);
                     s5 = s4\<lparr>cvVotes := vb\<rparr> in
              if \<not> vrChanged r
              then say ev 12 ses (''Ch'' @ encode_runes [0x1B0] @ ''a c'' @ encode_runes [0xF3] @ '' vote '' @ encode_runes [0x111, 0x1EC3] @ '' h'' @ encode_runes [0x1EE7] @ ''y.'') TagLimit (if vrDup r then observeErr ev 11 ip ''vote:dup'' s5 else s5)
              else s5\<lparr>cvHub := hub_vote (henv ev) (xClk ev 11) target (vrUpvotes r) (vrDownvotes r) (cvHub s5)\<rparr>)"

subsection \<open>Proof-of-work frames\<close>

definition str_contains :: "string \<Rightarrow> string \<Rightarrow> bool" where
  "str_contains raw p \<longleftrightarrow> from_first p raw \<noteq> None"

definition quoted :: "string \<Rightarrow> string" where
  "quoted s = CHR 0x22 # s @ [CHR 0x22]"

definition handlePowFrame :: "sv_env \<Rightarrow> ClientSession \<Rightarrow> string \<Rightarrow> ChatServer \<Rightarrow> ChatServer" where
  "handlePowFrame ev ses raw s =
     (case cvScreener s of
        None \<Rightarrow> s
      | Some sc \<Rightarrow>
          if str_contains raw (quoted ''pow_result'') then
            (case xPowResult ev raw of
               None \<Rightarrow> s
             | Some res \<Rightarrow>
                 if prType res \<noteq> ''pow_result'' then s
                 else let ((c, ok), sc1) = screen_Resolve (xArgon ev) (xClk ev 0) (prChallengeID res) (prNonce res) sc;
                          s1 = s\<lparr>cvScreener := Some sc1\<rparr>
                      in if ok \<and> c = Some (seConn ses)
                         then say ev 1 ses (''X'' @ encode_runes [0xE1] @ ''c minh PoW xong, chat m'' @ encode_runes [0x1EDF] @ '' l'' @ encode_runes [0x1EA1] @ ''i b'' @ encode_runes [0xEC] @ ''nh th'' @ encode_runes [0x1B0, 0x1EDD] @ ''ng.'') TagPowScreen s1
                         else say ev 1 ses (encode_runes [0x110, 0xE1] @ ''p '' @ encode_runes [0xE1] @ ''n PoW kh'' @ encode_runes [0xF4] @ ''ng h'' @ encode_runes [0x1EE3] @ ''p l'' @ encode_runes [0x1EC7] @ '', b'' @ encode_runes [0x1EA1] @ ''n s'' @ encode_runes [0x1EBD] @ '' nh'' @ encode_runes [0x1EAD] @ ''n th'' @ encode_runes [0x1EED] @ '' th'' @ encode_runes [0xE1] @ ''ch m'' @ encode_runes [0x1EDB] @ ''i.'') TagPowScreen s1)
          else if str_contains raw (quoted ''pow_decline'') then
            (case xPowDecline ev raw of
               None \<Rightarrow> s
             | Some d \<Rightarrow>
                 if pdType d \<noteq> ''pow_decline'' then s
                 else let ((c, ok), sc1) = screen_Decline (pdChallengeID d) sc;
                          s1 = s\<lparr>cvScreener := Some sc1\<rparr>
                      in if ok then say ev 1 ses (encode_runes [0x110, 0xE3] @ '' ghi nh'' @ encode_runes [0x1EAD] @ ''n t'' @ encode_runes [0x1EEB] @ '' ch'' @ encode_runes [0x1ED1] @ ''i, chat t'' @ encode_runes [0x1EA1] @ ''m d'' @ encode_runes [0x1EEB] @ ''ng cho t'' @ encode_runes [0x1EDB] @ ''i khi x'' @ encode_runes [0xE1] @ ''c minh.'')
                                      TagPowScreen (observeChallenge ev 0 (seIP ses) s1)
                         else s1)
          else s)"

subsection \<open>What a handler leaves alone\<close>

text \<open>The end of the chain: what the next chained line builds on.\<close>

definition log_end :: "ChainService \<Rightarrow> bytes \<times> u64 \<times> bool" where
  "log_end c = (csTip c, csHeight c, csReady c)"

definition end_of :: "ChatServer \<Rightarrow> bytes \<times> u64 \<times> bool" where
  "end_of s = log_end (hbChain (cvHub s))"

lemma storeSystem_end: "log_end (snd (storeSystem mj mx now m c)) = log_end c"
  by (simp add: storeSystem_eq Let_def log_end_def EnqueueWire_def)

lemma send_system_end: "log_end (hbChain (send_system env now m sender h)) = log_end (hbChain h)"
  using storeSystem_end [of "heMarshal env" "heMax env" now m "hbChain h"]
  by (simp add: send_system_def store_notice_def Let_def case_prod_beta)

lemma unicastData_fields [simp]: "hbChain (unicastData c f h) = hbChain h"
  by (simp add: unicastData_def)

lemma unicastData_other: "d \<noteq> c \<Longrightarrow> map_of (hbClients (unicastData c f h)) d = map_of (hbClients h) d"
  by (simp add: unicastData_def send_each_client option.map_ident)

lemma say_fields [simp]:
  "hbChain (cvHub (say ev i ses txt tag s)) = hbChain (cvHub s)"
  "cvIpCounts (say ev i ses txt tag s) = cvIpCounts s" "cvHistoryBudget (say ev i ses txt tag s) = cvHistoryBudget s"
  "cvSlowCooldown (say ev i ses txt tag s) = cvSlowCooldown s" "cvVotes (say ev i ses txt tag s) = cvVotes s"
  "cvVoteCooldown (say ev i ses txt tag s) = cvVoteCooldown s" "cvTripChains (say ev i ses txt tag s) = cvTripChains s"
  "cvExposed (say ev i ses txt tag s) = cvExposed s" "cvAttack (say ev i ses txt tag s) = cvAttack s"
  "cvBehavior (say ev i ses txt tag s) = cvBehavior s" "cvScreener (say ev i ses txt tag s) = cvScreener s"
  "cvServerID (say ev i ses txt tag s) = cvServerID s" "cvPages (say ev i ses txt tag s) = cvPages s"
  by (simp_all add: say_def unicastNotice_def)

lemma say_other: "d \<noteq> seConn ses \<Longrightarrow>
  map_of (hbClients (cvHub (say ev i ses txt tag s))) d = map_of (hbClients (cvHub s)) d"
  by (simp add: say_def unicastNotice_def unicastData_other)

lemma on_behavior_eq: "on_behavior f s = s\<lparr>cvBehavior := cvBehavior (on_behavior f s)\<rparr>"
  by (simp add: on_behavior_def)

lemmas observe_defs = observeConnect_def observeHistory_def observeChallenge_def observeHTTP_def observeErr_def
  observeDisconnect_def

lemma observeErr_fields [simp]:
  "cvHub (observeErr ev i ip code s) = cvHub s" "cvVotes (observeErr ev i ip code s) = cvVotes s"
  "cvTripChains (observeErr ev i ip code s) = cvTripChains s" "cvExposed (observeErr ev i ip code s) = cvExposed s"
  "cvScreener (observeErr ev i ip code s) = cvScreener s" "cvServerID (observeErr ev i ip code s) = cvServerID s"
  by (simp_all add: observe_defs on_behavior_def)

lemma observeMessage_fields [simp]:
  "cvHub (observeMessage ev i ip s) = cvHub s" "cvVotes (observeMessage ev i ip s) = cvVotes s"
  "cvTripChains (observeMessage ev i ip s) = cvTripChains s" "cvExposed (observeMessage ev i ip s) = cvExposed s"
  "cvServerID (observeMessage ev i ip s) = cvServerID s"
  by (simp_all add: observeMessage_def Let_def split: option.split prod.split)

lemma observeHistory_fields [simp]:
  "cvHub (observeHistory ev i ip s) = cvHub s" "cvVotes (observeHistory ev i ip s) = cvVotes s"
  "cvTripChains (observeHistory ev i ip s) = cvTripChains s" "cvExposed (observeHistory ev i ip s) = cvExposed s"
  by (simp_all add: observe_defs on_behavior_def)

lemma observeChallenge_fields [simp]:
  "cvHub (observeChallenge ev i ip s) = cvHub s" "cvVotes (observeChallenge ev i ip s) = cvVotes s"
  "cvTripChains (observeChallenge ev i ip s) = cvTripChains s" "cvExposed (observeChallenge ev i ip s) = cvExposed s"
  by (simp_all add: observe_defs on_behavior_def)

lemma allowHistoryRequest_eq:
  "allowHistoryRequest ev i ip cost s = (ok, s') \<Longrightarrow> s' = s\<lparr>cvHistoryBudget := cvHistoryBudget s'\<rparr>"
  by (auto simp: allowHistoryRequest_def Let_def split: prod.splits)

lemma allowSlowSend_eq:
  "allowSlowSend ev i ses ip base s = (ok, s') \<Longrightarrow>
     s' = s\<lparr>cvSlowCooldown := cvSlowCooldown s', cvHub := cvHub s'\<rparr> \<and> hbChain (cvHub s') = hbChain (cvHub s) \<and>
     (ok \<longrightarrow> cvHub s' = cvHub s) \<and>
     (\<forall>d. d \<noteq> seConn ses \<longrightarrow> map_of (hbClients (cvHub s')) d = map_of (hbClients (cvHub s)) d)"
  by (auto simp: allowSlowSend_def say_def unicastNotice_def unicastData_other Let_def split: option.splits prod.splits if_splits)

lemma isTripExposed_eq: "isTripExposed ev i pub s = (b, s') \<Longrightarrow> s' = s\<lparr>cvExposed := cvExposed s'\<rparr>"
  by (auto simp: isTripExposed_def Let_def split: prod.splits)

end
