(* ===== verification/Read_Pump.thy ===== *)
theory Read_Pump
  imports Chat_Server
begin

text \<open>
  The read loop of a connection, \<open>ReadPump\<close> of \<^verbatim>\<open>src/server/clientHandler.go\<close>: one frame at a time it is
  dispatched to history, votes, reveals and proof of work, or taken as a chat message, checked, linked into the chain and
  broadcast. The pump keeps the session, the time of the last message and of the last activity, and the read deadline
  it sets. Each frame comes with its own environment.
\<close>

subsection \<open>The pump\<close>

record pump =
  puSession :: ClientSession
  puIP :: string
  puLastMessage :: time
  puLastActivity :: time
  puDeadline :: time

definition pongWait :: duration where "pongWait = 60 * second"

definition updateReadDeadline :: "sv_env \<Rightarrow> nat \<Rightarrow> pump \<Rightarrow> pump" where
  "updateReadDeadline ev i p =
     (let deadline = xClk ev i + pongWait; idle = dcIdleChatTimeout (xDyn ev); idleDeadline = puLastActivity p + idle
      in p\<lparr>puDeadline := (if idle > 0 \<and> idleDeadline < deadline then idleDeadline else deadline)\<rparr>)"

lemma updateReadDeadline_fields [simp]:
  "puSession (updateReadDeadline ev i p) = puSession p" "puIP (updateReadDeadline ev i p) = puIP p"
  "puLastMessage (updateReadDeadline ev i p) = puLastMessage p"
  by (simp_all add: updateReadDeadline_def Let_def)

definition start_pump :: "sv_env \<Rightarrow> ClientSession \<Rightarrow> string \<Rightarrow> pump" where
  "start_pump ev ses ip =
     updateReadDeadline ev 1
       \<lparr>puSession = ses, puIP = ip, puLastMessage = 0, puLastActivity = xClk ev 0, puDeadline = 0\<rparr>"

subsection \<open>History requests\<close>

definition request_limit :: "sv_env \<Rightarrow> env_probe \<Rightarrow> int" where
  "request_limit ev q =
     (if epLimit q \<le> 0 \<or> epLimit q > dcMaxHistorySend (xDyn ev) then dcMaxHistorySend (xDyn ev) else epLimit q)"

definition request_cost :: "sv_env \<Rightarrow> env_probe \<Rightarrow> int" where
  "request_cost ev q =
     (let limit = request_limit ev q in
      if length (epRanges q) = 0 \<and> epAfterSeq q = None \<and> epBeforeSeq q = None
      then limit * (1 + dcHistoryDiskLookup (xDyn ev)) else limit)"

definition page_env :: "sv_env \<Rightarrow> ClientSession \<Rightarrow> replay_env" where
  "page_env ev ses =
     \<lparr>reMarshal = heMarshal (xHub ev), reBatchLines = dcHistoryReplayBatchLines (xDyn ev),
      reBatchBytes = dcHistoryReplayBatchBytes (xDyn ev), reWantJoins = seWantJoins ses, reRoom = xRoom ev\<rparr>"

definition history_page :: "sv_env \<Rightarrow> ClientSession \<Rightarrow> env_probe \<Rightarrow> ChainService \<Rightarrow> replay option" where
  "history_page ev ses q c =
     (let limit = request_limit ev q; env = page_env ev ses in
      if length (epRanges q) > 0
      then serveHistoryRanges env (xSortRanges ev) (dcHistoryRefillMaxRanges (xDyn ev)) (epRanges q) limit c
      else if epAfterSeq q \<noteq> None \<or> epBeforeSeq q \<noteq> None then serveHistorySeq env (epAfterSeq q) (epBeforeSeq q) limit c
      else serveHistorySegment env (xRecords ev) (xDisk ev) (dcHistoryDiskLookup (xDyn ev)) (epBefore q) limit c)"

definition handle_history :: "sv_env \<Rightarrow> ClientSession \<Rightarrow> string \<Rightarrow> env_probe \<Rightarrow> ChatServer \<Rightarrow> ChatServer" where
  "handle_history ev ses ip q s =
     (let (ok, s1) = allowHistoryRequest ev 0 ip (request_cost ev q) s in
      if \<not> ok then say ev 2 ses (''Y'' @ encode_runes [0xEA] @ ''u c'' @ encode_runes [0x1EA7] @ ''u l'' @ encode_runes [0x1ECB] @ ''ch s'' @ encode_runes [0x1EED] @ '' qu'' @ encode_runes [0xE1] @ '' nhanh, th'' @ encode_runes [0x1EED] @ '' l'' @ encode_runes [0x1EA1] @ ''i sau.'') TagLimit s1
      else let s2 = (case history_page ev ses q (hbChain (cvHub s1)) of
                       None \<Rightarrow> s1
                     | Some pg \<Rightarrow> s1\<lparr>cvPages := cvPages s1 @ [(seConn ses, pg)]\<rparr>)
           in observeHistory ev 3 ip s2)"

subsection \<open>Chat envelopes\<close>

definition bad_text :: "filter_error \<Rightarrow> string" where
  "bad_text e = ''Tin nh'' @ encode_runes [0x1EAF] @ ''n ch'' @ encode_runes [0x1EE9] @ ''a k'' @ encode_runes [0xFD] @ '' t'' @ encode_runes [0x1EF1] @ '' kh'' @ encode_runes [0xF4] @ ''ng h'' @ encode_runes [0x1EE3] @ ''p l'' @ encode_runes [0x1EC7] @ '' v'' @ encode_runes [0xE0] @ '' '' @ encode_runes [0x111, 0xE3] @ '' b'' @ encode_runes [0x1ECB] @ '' t'' @ encode_runes [0x1EEB] @ '' ch'' @ encode_runes [0x1ED1] @ ''i ('' @ message_error_text e @ '').''"

text \<open>\<open>filter_reject\<close>: the notice, the log line (not modelled) and the observation of a filtered message.\<close>

definition filter_reject :: "sv_env \<Rightarrow> ClientSession \<Rightarrow> string \<Rightarrow> filter_error \<Rightarrow> ChatServer \<Rightarrow> ChatServer" where
  "filter_reject ev ses ip e s = observeErr ev 1 ip ''proto:filter-reject'' (say ev 0 ses (bad_text e) TagFilter s)"

definition is_envelope :: "chat_envelope \<Rightarrow> bool" where
  "is_envelope m \<longleftrightarrow> ceSig m \<noteq> [] \<or> ceTmpID m \<noteq> 0 \<or> TrimSpace (ceText m @ ceMsg m) \<noteq> []"

text \<open>The checks every envelope passes: \<open>Inl\<close> is the server after the refusal.\<close>

definition check_envelope :: "sv_env \<Rightarrow> ClientSession \<Rightarrow> string \<Rightarrow> chat_envelope option \<Rightarrow> ChatServer \<Rightarrow> ChatServer + chat_envelope" where
  "check_envelope ev ses ip env s =
     (case env of
        None \<Rightarrow> Inl (say ev 0 ses (encode_runes [0x110, 0x1ECB] @ ''nh d'' @ encode_runes [0x1EA1] @ ''ng tin nh'' @ encode_runes [0x1EAF] @ ''n c'' @ encode_runes [0x169] @ '' kh'' @ encode_runes [0xF4] @ ''ng c'' @ encode_runes [0xF2] @ ''n h'' @ encode_runes [0x1ED7] @ '' tr'' @ encode_runes [0x1EE3] @ ''. H'' @ encode_runes [0xE3] @ ''y update client b'' @ encode_runes [0x1EA3] @ ''n m'' @ encode_runes [0x1EDB] @ ''i.'') TagEnvelope s)
      | Some m \<Rightarrow>
          if \<not> is_envelope m
          then Inl (say ev 0 ses (encode_runes [0x110, 0x1ECB] @ ''nh d'' @ encode_runes [0x1EA1] @ ''ng tin nh'' @ encode_runes [0x1EAF] @ ''n c'' @ encode_runes [0x169] @ '' kh'' @ encode_runes [0xF4] @ ''ng c'' @ encode_runes [0xF2] @ ''n h'' @ encode_runes [0x1ED7] @ '' tr'' @ encode_runes [0x1EE3] @ ''. H'' @ encode_runes [0xE3] @ ''y update client b'' @ encode_runes [0x1EA3] @ ''n m'' @ encode_runes [0x1EDB] @ ''i.'') TagEnvelope s)
          else if ceTmpID m = 0
          then Inl (say ev 1 ses (''Tin nh'' @ encode_runes [0x1EAF] @ ''n thi'' @ encode_runes [0x1EBF] @ ''u ID phi'' @ encode_runes [0xEA] @ ''n (tmp_id). H'' @ encode_runes [0xE3] @ ''y update client b'' @ encode_runes [0x1EA3] @ ''n m'' @ encode_runes [0x1EDB] @ ''i.'') TagEnvelope
                      (observeErr ev 0 ip ''env:tmpid-missing'' s))
          else if ceReplyTo m \<noteq> 0 \<and> csReady (hbChain (cvHub s)) \<and> ceReplyTo m > csHeight (hbChain (cvHub s))
          then Inl (say ev 1 ses (''Tin reply d'' @ encode_runes [0x1EAB] @ ''n t'' @ encode_runes [0x1EDB] @ ''i ID ch'' @ encode_runes [0x1B0] @ ''a t'' @ encode_runes [0x1ED3] @ ''n t'' @ encode_runes [0x1EA1] @ ''i.'') TagEnvelope (observeErr ev 0 ip ''env:reply-future'' s))
          else if ceSig m = [] \<and> envelope_text m = [] then Inl (say ev 0 ses (''Tin nh'' @ encode_runes [0x1EAF] @ ''n tr'' @ encode_runes [0x1ED1] @ ''ng.'') TagEnvelope s)
          else if ceSig m = [] then
            (case ValidateMessage (xGC ev) (envelope_text m) of
               Some e \<Rightarrow> Inl (filter_reject ev ses ip e s)
             | None \<Rightarrow> Inr m)
          else Inr m)"

text \<open>What the server does when a signed message is refused.\<close>

fun refuse_signed :: "sv_env \<Rightarrow> ClientSession \<Rightarrow> string \<Rightarrow> signed_reject \<Rightarrow> ChatServer \<Rightarrow> ChatServer" where
  "refuse_signed ev ses ip EmptyText s = say ev 0 ses (''Tin nh'' @ encode_runes [0x1EAF] @ ''n trip thi'' @ encode_runes [0x1EBF] @ ''u n'' @ encode_runes [0x1ED9] @ ''i dung.'') TagTrip s"
| "refuse_signed ev ses ip (Filtered e) s = filter_reject ev ses ip e s"
| "refuse_signed ev ses ip WrongPub s =
     say ev 1 ses (''Pubkey trip kh'' @ encode_runes [0xF4] @ ''ng kh'' @ encode_runes [0x1EDB] @ ''p phi'' @ encode_runes [0xEA] @ ''n '' @ encode_runes [0x111, 0x103] @ ''ng nh'' @ encode_runes [0x1EAD] @ ''p.'') TagTrip (observeErr ev 0 ip ''proto:trip-pub'' s)"
| "refuse_signed ev ses ip Malformed s = say ev 0 ses (''Ch'' @ encode_runes [0x1EEF] @ '' k'' @ encode_runes [0xFD] @ '' trip kh'' @ encode_runes [0xF4] @ ''ng h'' @ encode_runes [0x1EE3] @ ''p l'' @ encode_runes [0x1EC7] @ ''.'') TagTrip s"
| "refuse_signed ev ses ip (WrongSeq got want) s =
     say ev 1 ses (''Sai th'' @ encode_runes [0x1EE9] @ '' t'' @ encode_runes [0x1EF1] @ '' trip seq '' @ dec (unat got) @ '', mong '' @ encode_runes [0x111, 0x1EE3] @ ''i '' @ dec (unat want) @ ''.'') TagTrip
       (observeErr ev 0 ip ''proto:trip-seq'' s)"
| "refuse_signed ev ses ip BrokenPrev s =
     say ev 1 ses (''Chu'' @ encode_runes [0x1ED7] @ ''i trip b'' @ encode_runes [0x1ECB] @ '' '' @ encode_runes [0x111, 0x1EE9] @ ''t (prev kh'' @ encode_runes [0xF4] @ ''ng kh'' @ encode_runes [0x1EDB] @ ''p).'') TagTrip (observeErr ev 0 ip ''proto:trip-prev'' s)"
| "refuse_signed ev ses ip (BadSignature e) s =
     say ev 1 ses (''Ch'' @ encode_runes [0x1EEF] @ '' k'' @ encode_runes [0xFD] @ '' trip kh'' @ encode_runes [0xF4] @ ''ng h'' @ encode_runes [0x1EE3] @ ''p l'' @ encode_runes [0x1EC7] @ ''.'') TagTrip (observeErr ev 0 ip ''proto:trip-sig'' s)"

definition trip_view :: "ClientSession \<Rightarrow> trip_session" where
  "trip_view ses = \<lparr>tsTripPub = seTripPub ses, tsTripBadge = seTripBadge ses, tsDisplayName = seDisplayName ses\<rparr>"

definition adopt_trip :: "trip_session \<Rightarrow> ClientSession \<Rightarrow> ClientSession" where
  "adopt_trip t ses =
     (if seTripBadge ses = []
      then ses\<lparr>seTripBadge := tsTripBadge t, seTripPub := tsTripPub t, seTripcode := tsTripBadge t\<rparr> else ses)"

text \<open>The session is one object: what the pump writes shows in the client map.\<close>

definition set_session :: "(ClientSession \<Rightarrow> ClientSession) \<Rightarrow> conn \<Rightarrow> Hub \<Rightarrow> Hub" where
  "set_session f c h = h\<lparr>hbClients := map (\<lambda>(d, x). (d, if d = c then f x else x)) (hbClients h)\<rparr>"

text \<open>The signed and the unsigned branch: \<open>Inl\<close> a refusal, else the metadata and the new session and server.\<close>

definition check_signature ::
  "sv_env \<Rightarrow> ClientSession \<Rightarrow> string \<Rightarrow> chat_envelope \<Rightarrow> ChatServer \<Rightarrow> ChatServer + (TripMeta option \<times> ClientSession \<times> ChatServer)" where
  "check_signature ev ses ip m s =
     (if ceSig m \<noteq> [] then
        (case accept_signed (xEd ev) (xGC ev) (chat_serverPub s) (xClk ev 2) (trip_view ses) m (cvTripChains s) of
           Inl e \<Rightarrow> Inl (refuse_signed ev ses ip e s)
         | Inr (meta, t, tcs) \<Rightarrow>
             Inr (Some meta, adopt_trip t ses,
                  s\<lparr>cvTripChains := tcs, cvHub := set_session (adopt_trip t) (seConn ses) (cvHub s)\<rparr>))
      else if seTripPub ses \<noteq> [] then Inl (say ev 0 ses (''Tin nh'' @ encode_runes [0x1EAF] @ ''n trip ph'' @ encode_runes [0x1EA3] @ ''i '' @ encode_runes [0x111, 0x1B0, 0x1EE3] @ ''c k'' @ encode_runes [0xFD] @ ''.'') TagTrip s)
      else case ValidateMessage (xGC ev) (envelope_text m) of
          Some e \<Rightarrow> Inl (filter_reject ev ses ip e s)
        | None \<Rightarrow> Inr (None, ses, s))"

subsection \<open>Sending\<close>

definition send_limits :: "sv_env \<Rightarrow> Limits" where
  "send_limits ev = \<lparr>lmMaxMessageLength = dcMaxMessageLength (xDyn ev), lmMaxMessageLine = dcMaxMessageLine (xDyn ev),
     lmMessageCooldown = dcMessageCooldown (xDyn ev)\<rparr>"

fun limit_warning :: "sv_env \<Rightarrow> send_error \<Rightarrow> string \<times> string" where
  "limit_warning ev ErrTooLong =
     (''Tin nh'' @ encode_runes [0x1EAF] @ ''n c'' @ encode_runes [0x1EE7] @ ''a b'' @ encode_runes [0x1EA1] @ ''n qu'' @ encode_runes [0xE1] @ '' d'' @ encode_runes [0xE0] @ ''i (t'' @ encode_runes [0x1ED1] @ ''i '' @ encode_runes [0x111] @ ''a '' @ dec_int (dcMaxMessageLength (xDyn ev)) @ '' k'' @ encode_runes [0xFD] @ '' t'' @ encode_runes [0x1EF1] @ '').'', TagLimit)"
| "limit_warning ev ErrTooManyLines = (''Tin nh'' @ encode_runes [0x1EAF] @ ''n ch'' @ encode_runes [0x1EE9] @ ''a qu'' @ encode_runes [0xE1] @ '' nhi'' @ encode_runes [0x1EC1] @ ''u d'' @ encode_runes [0xF2] @ ''ng. Vui l'' @ encode_runes [0xF2] @ ''ng g'' @ encode_runes [0x1ED9] @ ''p l'' @ encode_runes [0x1EA1] @ ''i!'', TagLimit)"
| "limit_warning ev ErrTooFast =
     (''B'' @ encode_runes [0x1EA1] @ ''n '' @ encode_runes [0x111] @ ''ang chat qu'' @ encode_runes [0xE1] @ '' nhanh! Vui l'' @ encode_runes [0xF2] @ ''ng '' @ encode_runes [0x111, 0x1EE3] @ ''i '' @ duration_string (dcMessageCooldown (xDyn ev)) @ ''.'', TagLimit)"
| "limit_warning ev (ErrFilter e) = (bad_text e, TagFilter)"

definition chat_wire :: "sv_env \<Rightarrow> time \<Rightarrow> ClientSession \<Rightarrow> chat_envelope \<Rightarrow> TripMeta option \<Rightarrow> WireMessage" where
  "chat_wire ev now ses m meta =
     zero_wire\<lparr>wType := ''chat'', wTime := heHHMM (xHub ev) now, wDisplayName := seDisplayName ses,
       wText := envelope_text m, wTrip := meta, wTmpID := ceTmpID m, wReplyTo := ceReplyTo m, wSentAt := xRFC3339 ev now\<rparr>"

definition flag_exposed :: "sv_env \<Rightarrow> nat \<Rightarrow> TripMeta option \<Rightarrow> ChatServer \<Rightarrow> TripMeta option \<times> ChatServer" where
  "flag_exposed ev i meta s =
     (case meta of
        None \<Rightarrow> (None, s)
      | Some tm \<Rightarrow> (let (b, s1) = isTripExposed ev i (tmPub tm) s in (Some (tm\<lparr>tmExposed := b\<rparr>), s1)))"

text \<open>The end of an accepted message: observation, date banner, exposure flag and broadcast.\<close>

definition publish_chat :: "sv_env \<Rightarrow> ClientSession \<Rightarrow> string \<Rightarrow> chat_envelope \<Rightarrow> TripMeta option \<Rightarrow> ChatServer \<Rightarrow> ChatServer" where
  "publish_chat ev ses ip m meta s =
     (let s1 = observeMessage ev 11 ip s;
          now = xClk ev 12;
          s2 = s1\<lparr>cvHub := CheckAndBroadcastDate (henv ev) now (xClk ev 13) (cvHub s1)\<rparr>;
          (meta', s3) = flag_exposed ev 14 meta s2
      in s3\<lparr>cvHub := BroadcastWire (henv ev) (xClk ev 16) (chat_wire ev now ses m meta') (Some (seConn ses)) (chat_serverPub s3) (cvHub s3)\<rparr>)"

definition send_chat :: "sv_env \<Rightarrow> chat_envelope \<Rightarrow> TripMeta option \<Rightarrow> pump \<times> ChatServer \<Rightarrow> pump \<times> ChatServer" where
  "send_chat ev m meta st =
     (let (p0, s) = st;
          ses = puSession p0; ip = puIP p0;
          p = updateReadDeadline ev 4 (p0\<lparr>puLastActivity := xClk ev 3\<rparr>)
      in case ValidateMessageForSend (xGC ev) (envelope_text m) (xClk ev 5) (puLastMessage p) (Some (send_limits ev))
                (canMessageUnlimited (sePerms ses)) of
           Some e \<Rightarrow>
             (let (txt, tag) = limit_warning ev e
              in (if e = ErrTooFast then p\<lparr>puLastMessage := xClk ev 6\<rparr> else p, say ev 7 ses txt tag s))
         | None \<Rightarrow>
             (let (ok, s1) = allowSlowSend ev 6 ses ip (dcMessageCooldown (xDyn ev)) s in
              if \<not> ok then (updateReadDeadline ev 10 p, s1)
              else (p\<lparr>puLastMessage := xClk ev 10\<rparr>, publish_chat ev ses ip m meta s1)))"

definition chat_frame :: "sv_env \<Rightarrow> string \<Rightarrow> pump \<times> ChatServer \<Rightarrow> pump \<times> ChatServer" where
  "chat_frame ev raw st =
     (let (p, s) = st; ses = puSession p; ip = puIP p in
      if muted (seConn ses) s then (updateReadDeadline ev 1 p, say ev 0 ses muted_text TagPowGate s)
      else case check_envelope ev ses ip (xChat ev raw) s of
          Inl s1 \<Rightarrow> (updateReadDeadline ev 2 p, s1)
        | Inr m \<Rightarrow>
            (case check_signature ev ses ip m s of
               Inl s1 \<Rightarrow> (updateReadDeadline ev 2 p, s1)
             | Inr (meta, ses1, s1) \<Rightarrow> send_chat ev m meta (p\<lparr>puSession := ses1\<rparr>, s1)))"

subsection \<open>Dispatch\<close>

definition pump_frame :: "sv_env \<Rightarrow> string \<Rightarrow> pump \<times> ChatServer \<Rightarrow> pump \<times> ChatServer" where
  "pump_frame ev raw st =
     (let (p, s) = st; ses = puSession p; ip = puIP p; upd = updateReadDeadline ev 20 p in
      if TrimSpace raw = [] then (upd, s)
      else case xProbe ev raw of
          None \<Rightarrow> chat_frame ev raw st
        | Some q \<Rightarrow>
            if epType q = ''history_request'' then (upd, handle_history ev ses ip q s)
            else if epType q = ''pow_result'' \<or> epType q = ''pow_decline'' then (upd, handlePowFrame ev ses raw s)
            else if epType q = ''vote'' then (upd, handleVote ev ses ip (epTarget q) (epDirection q) s)
            else if epType q = ''trip_reveal'' then (upd, handleTripReveal ev ses ip (epSeed q) (epSig q) s)
            else chat_frame ev raw st)"

text \<open>The deferred clean-up once a read fails.\<close>

definition pump_end :: "sv_env \<Rightarrow> pump \<times> ChatServer \<Rightarrow> ChatServer" where
  "pump_end ev st =
     (let (p, s) = st; ses = puSession p; ip = puIP p;
          s1 = s\<lparr>cvHub := unregisterClient (henv ev) (xClk ev 0) (xClk ev 1) (xClk ev 2) ses (cvHub s)\<rparr>;
          s2 = observeDisconnect ev 3 ip s1
      in on_screener (ForgetCheck ip \<circ> DropConn (seConn ses)) s2)"

definition ReadPump :: "sv_env \<Rightarrow> sv_env \<Rightarrow> ClientSession \<Rightarrow> string \<Rightarrow> (sv_env \<times> string) list \<Rightarrow> ChatServer \<Rightarrow> ChatServer" where
  "ReadPump ev0 ev1 ses ip frames s =
     pump_end ev1 (fold (\<lambda>(ev, raw). pump_frame ev raw) frames (start_pump ev0 ses ip, s))"

subsection \<open>A muted connection reaches nobody\<close>

text \<open>What others can see of a server: the end of the chain, the log, votes, signed chains and the other sessions.\<close>

definition hushed :: "conn \<Rightarrow> ChatServer \<Rightarrow> ChatServer \<Rightarrow> bool" where
  "hushed c s s' \<longleftrightarrow> hbChain (cvHub s') = hbChain (cvHub s) \<and> cvVotes s' = cvVotes s \<and> cvTripChains s' = cvTripChains s \<and>
     (\<forall>d. d \<noteq> c \<longrightarrow> map_of (hbClients (cvHub s')) d = map_of (hbClients (cvHub s)) d)"

lemma hushed_refl [simp]: "hushed c s s"
  by (simp add: hushed_def)

lemma hushed_say: "hushed (seConn ses) s s' \<Longrightarrow> hushed (seConn ses) s (say ev i ses txt tag s')"
  by (simp add: hushed_def say_other)

lemma hushed_same:
  "hushed c s s' \<Longrightarrow> cvHub s'' = cvHub s' \<Longrightarrow> cvVotes s'' = cvVotes s' \<Longrightarrow> cvTripChains s'' = cvTripChains s' \<Longrightarrow>
     hushed c s s''"
  by (simp add: hushed_def)

lemma hushed_observeErr: "hushed c s s' \<Longrightarrow> hushed c s (observeErr ev i ip code s')"
  by (erule hushed_same) simp_all

lemma hushed_end: "hushed c s s' \<Longrightarrow> end_of s' = end_of s"
  by (simp add: hushed_def end_of_def)

lemmas hushed_intros = hushed_say hushed_observeErr hushed_refl

lemma muted_history: "hushed (seConn ses) s (handle_history ev ses ip q s)"
proof -
  obtain ok s1 where a: "allowHistoryRequest ev 0 ip (request_cost ev q) s = (ok, s1)" by fastforce
  have "hushed (seConn ses) s s1" by (subst allowHistoryRequest_eq [OF a]) (simp add: hushed_def)
  then show ?thesis
    by (auto simp: handle_history_def a Let_def intro: hushed_say split: option.split)
       (auto elim: hushed_same)
qed

lemma pow_frame_hushed: "hushed (seConn ses) s (handlePowFrame ev ses raw s)"
  by (auto simp: handlePowFrame_def Let_def split: option.split prod.split intro!: hushed_say)
     (auto simp: hushed_def)

lemma muted_vote: "muted (seConn ses) s \<Longrightarrow> hushed (seConn ses) s (handleVote ev ses ip target d s)"
  by (auto simp: handleVote_def Let_def intro!: hushed_intros)

lemma muted_reveal:
  assumes "muted (seConn ses) s"
  shows "hushed (seConn ses) s (handleTripReveal ev ses ip seed sig s)"
proof -
  obtain b s1 where e: "isTripExposed ev 0 (to_lower (seTripPub ses)) s = (b, s1)" by fastforce
  have s1: "s1 = s\<lparr>cvExposed := cvExposed s1\<rparr>" by (rule isTripExposed_eq [OF e])
  have "hushed (seConn ses) s s1" by (subst s1) (simp add: hushed_def)
  moreover have "muted (seConn ses) s1" using assms by (subst s1) (simp add: muted_def)
  ultimately show ?thesis by (auto simp: handleTripReveal_def Let_def e intro!: hushed_intros)
qed

subsection \<open>Every chained chat line was admitted\<close>

text \<open>A signed message in its turn: signed by the session's key (if it has one) over its own text, with the next number and the
  previous hash that the server holds for that key.\<close>

definition signed_in_turn :: "sv_env \<Rightarrow> ClientSession \<Rightarrow> ChatServer \<Rightarrow> chat_envelope \<Rightarrow> bool" where
  "signed_in_turn ev ses s m \<longleftrightarrow>
     (let k = to_lower (cePub m); l = expected_link (map_of (cvTripChains s) k) in
      (seTripPub ses = [] \<or> to_lower (seTripPub ses) = k) \<and>
      length (cePub m) = 64 \<and> length (ceSig m) = 128 \<and> length (cePrev m) = 64 \<and>
      ceSeq m = fst l \<and> to_lower (cePrev m) = hex_encode (snd l) \<and>
      (case trip_Verify (xEd ev) (envelope_params (seDisplayName ses) (chat_serverPub s) m) of Inl e \<Rightarrow> False | Inr res \<Rightarrow> True))"

text \<open>What a chat line has to satisfy, whichever frame it came in.\<close>

definition admitted :: "sv_env \<Rightarrow> pump \<Rightarrow> ChatServer \<Rightarrow> chat_envelope \<Rightarrow> bool" where
  "admitted ev p s m \<longleftrightarrow>
     (let ses = puSession p; c = hbChain (cvHub s); txt = envelope_text m in
      \<not> muted (seConn ses) s \<and> txt \<noteq> [] \<and> ceTmpID m \<noteq> 0 \<and> (csReady c \<longrightarrow> ceReplyTo m \<le> csHeight c) \<and>
      ValidateMessage (xGC ev) txt = None \<and>
      (if ceSig m = [] then seTripPub ses = [] else signed_in_turn ev ses s m) \<and>
      (canMessageUnlimited (sePerms ses) \<or>
         int (length (runes txt)) \<le> dcMaxMessageLength (xDyn ev) \<and>
         int (count_list txt (CHR 0x0A)) + 1 \<le> dcMaxMessageLine (xDyn ev) \<and>
         dcMessageCooldown (xDyn ev) \<le> xClk ev 5 - puLastMessage p) \<and>
      fst (allowSlowSend ev 6 ses (puIP p) (dcMessageCooldown (xDyn ev)) s))"

lemma vote_end: "end_of (handleVote ev ses ip target d s) = end_of s"
proof -
  obtain ok s1 where 1: "allowHistoryRequest ev 0 ip 1 s = (ok, s1)" by fastforce
  obtain ok2 vc where 2: "cooldown_allow ip (dcMessageCooldown (xDyn ev)) (cks ev 2) (cvVoteCooldown s1) = (ok2, vc)" by fastforce
  obtain ok3 s3 where 3: "allowSlowSend ev 5 ses ip (dcMessageCooldown (xDyn ev)) (s1\<lparr>cvVoteCooldown := vc\<rparr>) = (ok3, s3)"
    by fastforce
  have h1: "cvHub s1 = cvHub s" by (subst allowHistoryRequest_eq [OF 1]) simp
  have "hbChain (cvHub s3) = hbChain (cvHub s)" using allowSlowSend_eq [OF 3] h1 by simp
  then show ?thesis using h1
    by (simp add: handleVote_def 1 2 3 Let_def end_of_def hub_vote_def send_system_end split: prod.split)
qed

lemma reveal_end: "end_of (handleTripReveal ev ses ip seed sig s) = end_of s"
proof -
  obtain b s1 where e: "isTripExposed ev 0 (to_lower (seTripPub ses)) s = (b, s1)" by fastforce
  obtain ok s2 where a: "allowHistoryRequest ev 2 ip 1 s1 = (ok, s2)" by fastforce
  have h1: "cvHub s1 = cvHub s" by (subst isTripExposed_eq [OF e]) simp
  moreover have "cvHub s2 = cvHub s1" by (subst allowHistoryRequest_eq [OF a]) simp
  ultimately show ?thesis
    by (simp add: handleTripReveal_def Let_def e a end_of_def BroadcastTripReveal_def send_system_end)
qed

lemma check_envelope_Inl: "check_envelope ev ses ip env s = Inl s' \<Longrightarrow> hbChain (cvHub s') = hbChain (cvHub s)"
  by (auto simp: check_envelope_def filter_reject_def split: option.splits if_splits)

lemma check_envelope_Inr:
  "check_envelope ev ses ip env s = Inr m \<Longrightarrow>
     env = Some m \<and> ceTmpID m \<noteq> 0 \<and> (csReady (hbChain (cvHub s)) \<longrightarrow> ceReplyTo m \<le> csHeight (hbChain (cvHub s))) \<and>
     (ceSig m = [] \<longrightarrow> envelope_text m \<noteq> [])"
  by (auto simp: check_envelope_def linorder_not_less split: option.splits if_splits)

lemma refuse_signed_chain [simp]: "hbChain (cvHub (refuse_signed ev ses ip e s)) = hbChain (cvHub s)"
  by (cases e) (simp_all add: filter_reject_def)

lemma check_signature_Inl: "check_signature ev ses ip m s = Inl s' \<Longrightarrow> hbChain (cvHub s') = hbChain (cvHub s)"
  by (auto simp: check_signature_def filter_reject_def split: option.splits sum.splits if_splits)

lemma adopt_trip_fields [simp]:
  "seConn (adopt_trip t ses) = seConn ses" "seDisplayName (adopt_trip t ses) = seDisplayName ses"
  "sePerms (adopt_trip t ses) = sePerms ses"
  by (simp_all add: adopt_trip_def)

text \<open>The signed branch accepts exactly the valid texts that are signed in their turn.\<close>

lemma accept_signed_iff:
  "(\<exists>r. accept_signed (xEd ev) (xGC ev) (chat_serverPub s) now (trip_view ses) m (cvTripChains s) = Inr r) \<longleftrightarrow>
     envelope_text m \<noteq> [] \<and> ValidateMessage (xGC ev) (envelope_text m) = None \<and> signed_in_turn ev ses s m"
  by (auto simp: accept_signed_def signed_in_turn_def trip_view_def Let_def split: option.splits sum.splits prod.splits)

lemma check_signature_Inr:
  assumes "check_signature ev ses ip m s = Inr (meta, ses', s')"
  shows "hbChain (cvHub s') = hbChain (cvHub s)" and "cvServerID s' = cvServerID s"
    and "seConn ses' = seConn ses" "seDisplayName ses' = seDisplayName ses" "sePerms ses' = sePerms ses"
    and "ValidateMessage (xGC ev) (envelope_text m) = None" and "(meta = None) = (ceSig m = [])"
    and "if ceSig m = [] then seTripPub ses = [] else signed_in_turn ev ses s m \<and> envelope_text m \<noteq> []"
    and "cvBehavior s' = cvBehavior s" "cvSlowCooldown s' = cvSlowCooldown s"
  using assms accept_signed_iff [of ev s "xClk ev 2" ses m]
  by (auto simp: check_signature_def set_session_def split: if_splits sum.splits option.splits prod.splits)

lemma slow_gate_same:
  assumes "sePerms ses' = sePerms ses" "cvBehavior s' = cvBehavior s" "cvSlowCooldown s' = cvSlowCooldown s"
  shows "fst (allowSlowSend ev i ses' ip base s') = fst (allowSlowSend ev i ses ip base s)"
  using assms by (simp add: allowSlowSend_def slow_wait_def Let_def split: option.split prod.split)

lemma allowed_for_send:
  "ValidateMessageForSend gc txt now lastSent (Some l) unlimited = None \<Longrightarrow>
     unlimited \<or> int (length (runes txt)) \<le> lmMaxMessageLength l \<and>
       int (count_list txt (CHR 0x0A)) + 1 \<le> lmMaxMessageLine l \<and> lmMessageCooldown l \<le> now - lastSent"
  by (auto simp: ValidateMessageForSend_def split: if_splits)

lemma date_end: "log_end (hbChain (CheckAndBroadcastDate env now now2 h)) = log_end (hbChain h)"
  by (simp add: CheckAndBroadcastDate_def Let_def BroadcastDate_def broadcastSystem_def send_system_end)

lemma flag_exposed_eq: "flag_exposed ev i meta s = (meta', s') \<Longrightarrow> cvHub s' = cvHub s \<and> cvServerID s' = cvServerID s \<and>
    (meta' = None) = (meta = None)"
  by (auto simp: flag_exposed_def Let_def split: option.splits prod.splits dest!: isTripExposed_eq)
     (metis ChatServer.simps ChatServer.surjective ChatServer.update_convs)+

lemma publish_chain:
  "\<exists>c1 meta'. hbChain (cvHub (publish_chat ev ses ip m meta s)) =
       snd (linkAndStore (heMarshal (xHub ev)) (dcMaxHistoryBytes (xDyn ev)) (xClk ev 16) (chat_serverPub s)
              (chat_wire ev (xClk ev 12) ses m meta') c1) \<and> log_end c1 = end_of s \<and> (meta' = None) = (meta = None)"
proof -
  let ?s1 = "observeMessage ev 11 ip s"
  let ?s2 = "?s1\<lparr>cvHub := CheckAndBroadcastDate (henv ev) (xClk ev 12) (xClk ev 13) (cvHub ?s1)\<rparr>"
  obtain meta' s3 where f: "flag_exposed ev 14 meta ?s2 = (meta', s3)" by fastforce
  from flag_exposed_eq [OF f] have h: "cvHub s3 = cvHub ?s2" "cvServerID s3 = cvServerID s" "(meta' = None) = (meta = None)"
    by simp_all
  have pub: "chat_serverPub s3 = chat_serverPub s" using h(2) by (simp add: chat_serverPub_def)
  have "hbChain (cvHub (publish_chat ev ses ip m meta s)) =
    snd (linkAndStore (heMarshal (xHub ev)) (dcMaxHistoryBytes (xDyn ev)) (xClk ev 16) (chat_serverPub s)
              (chat_wire ev (xClk ev 12) ses m meta') (hbChain (cvHub s3)))"
    using f by (simp add: publish_chat_def Let_def BroadcastWire_def link_wire_def case_prod_beta henv_def pub)
  moreover have "log_end (hbChain (cvHub s3)) = end_of s" by (simp add: h(1) date_end end_of_def)
  ultimately show ?thesis using h(3) by blast
qed

lemma send_chat_line:
  assumes "send_chat ev m meta (p, s) = (p', s')"
  shows "end_of s' = end_of s \<and> puLastMessage p' \<in> {puLastMessage p, xClk ev 6} \<or>
    ValidateMessageForSend (xGC ev) (envelope_text m) (xClk ev 5) (puLastMessage p) (Some (send_limits ev))
       (canMessageUnlimited (sePerms (puSession p))) = None \<and> puLastMessage p' = xClk ev 10 \<and>
    fst (allowSlowSend ev 6 (puSession p) (puIP p) (dcMessageCooldown (xDyn ev)) s) \<and>
    (\<exists>c1 meta'. hbChain (cvHub s') =
       snd (linkAndStore (heMarshal (xHub ev)) (dcMaxHistoryBytes (xDyn ev)) (xClk ev 16) (chat_serverPub s)
              (chat_wire ev (xClk ev 12) (puSession p) m meta') c1) \<and> log_end c1 = end_of s \<and> (meta' = None) = (meta = None))"
proof -
  let ?v = "ValidateMessageForSend (xGC ev) (envelope_text m) (xClk ev 5) (puLastMessage p) (Some (send_limits ev))
       (canMessageUnlimited (sePerms (puSession p)))"
  obtain ok s1 where a: "allowSlowSend ev 6 (puSession p) (puIP p) (dcMessageCooldown (xDyn ev)) s = (ok, s1)" by fastforce
  have s1: "s1 = s\<lparr>cvSlowCooldown := cvSlowCooldown s1, cvHub := cvHub s1\<rparr>" "hbChain (cvHub s1) = hbChain (cvHub s)"
    using allowSlowSend_eq [OF a] by simp_all
  have "chat_serverPub s1 = chat_serverPub s" by (subst s1(1)) (simp add: chat_serverPub_def)
  then show ?thesis
    using assms publish_chain [of ev "puSession p" "puIP p" m meta s1] s1(2)
    by (auto simp: send_chat_def a Let_def end_of_def split: option.splits if_splits prod.splits)
qed

end
