(* ===== verification/Session_Laws.thy ===== *)
theory Session_Laws
  imports Read_Pump
begin

text \<open>
  What a session can do over time: admitted messages are linked, lines keep the cooldown, refused signed messages
  are spent, and connection slots per address are counted exactly.
\<close>

subsection \<open>Muted connections and admitted lines\<close>

text \<open>C11. A muted connection can get nothing across: whatever frame it sends, well-formed or not, the log and
  the end of the chain, the vote totals and the signed chains stay as they are, and no other session's queue changes.\<close>

theorem muted_frame_is_hushed:
  assumes "muted (seConn (puSession p)) s"
  shows "hushed (seConn (puSession p)) s (snd (pump_frame ev raw (p, s)))"
  using assms muted_history pow_frame_hushed muted_vote [OF assms] muted_reveal [OF assms]
  by (auto simp: pump_frame_def chat_frame_def Let_def intro!: hushed_intros split: option.split)

text \<open>C10. Every frame either leaves the end of the chain as it is, or it carries a chat message that passed
  everything: the connection is not muted, the session counter is set, the reply names a height that exists, the text is not empty, valid and
  within the limits and the cooldown unless the role lifts them, slow mode lets the address send, a signed message is
  signed with the session's key and carries that key's next number and previous hash, and an unsigned one comes from a session
  without a key. The line that is linked then has exactly that text and the session's own display name,
  and extends the chain as it was.\<close>

theorem chained_line_was_admitted:
  assumes "pump_frame ev raw (p, s) = (p', s')" and "end_of s' \<noteq> end_of s"
  shows "\<exists>m meta c1. xChat ev raw = Some m \<and> admitted ev p s m \<and> (meta = None) = (ceSig m = []) \<and>
    hbChain (cvHub s') = snd (linkAndStore (heMarshal (xHub ev)) (dcMaxHistoryBytes (xDyn ev)) (xClk ev 16) (chat_serverPub s)
       (chat_wire ev (xClk ev 12) (puSession p) m meta) c1) \<and> log_end c1 = end_of s"
proof -
  have "chat_frame ev raw (p, s) = (p', s')"
    using assms hushed_end [OF muted_history [of "puSession p" s ev "puIP p"]] hushed_end [OF pow_frame_hushed [of "puSession p" s ev raw]]
    by (auto simp: pump_frame_def vote_end reveal_end Let_def split: option.splits if_splits)
  then obtain m meta ses1 s1 where m: "\<not> muted (seConn (puSession p)) s"
    "check_envelope ev (puSession p) (puIP p) (xChat ev raw) s = Inr m"
    "check_signature ev (puSession p) (puIP p) m s = Inr (meta, ses1, s1)"
    "send_chat ev m meta (p\<lparr>puSession := ses1\<rparr>, s1) = (p', s')"
    using assms(2)
    by (auto simp: chat_frame_def end_of_def Let_def split: if_splits sum.splits dest!: check_envelope_Inl check_signature_Inl)
  note g = check_signature_Inr [OF m(3)]
  have e: "end_of s1 = end_of s" "chat_serverPub s1 = chat_serverPub s" using g(1,2) by (simp_all add: end_of_def chat_serverPub_def)
  have w: "chat_wire ev now ses1 m x = chat_wire ev now (puSession p) m x" for now x using g(4) by (simp add: chat_wire_def)
  from send_chat_line [OF m(4)] obtain c1 meta' where
    v: "ValidateMessageForSend (xGC ev) (envelope_text m) (xClk ev 5) (puLastMessage p) (Some (send_limits ev))
       (canMessageUnlimited (sePerms (puSession p))) = None" and
    c: "hbChain (cvHub s') =
       snd (linkAndStore (heMarshal (xHub ev)) (dcMaxHistoryBytes (xDyn ev)) (xClk ev 16) (chat_serverPub s)
              (chat_wire ev (xClk ev 12) (puSession p) m meta') c1)" "log_end c1 = end_of s" "(meta' = None) = (meta = None)"
      and slow: "fst (allowSlowSend ev 6 ses1 (puIP p) (dcMessageCooldown (xDyn ev)) s1)"
    using assms(2) by (auto simp: e w g(5))
  have "admitted ev p s m"
    using m(1) check_envelope_Inr [OF m(2)] allowed_for_send [OF v] g(6,8) slow slow_gate_same [OF g(5,9,10)]
    by (auto simp: admitted_def send_limits_def Let_def split: if_splits)
  with c check_envelope_Inr [OF m(2)] g(7) show ?thesis by auto
qed

subsection \<open>An admitted message is linked\<close>

text \<open>The frames dispatched by their type; everything else, a probe without a type included, is taken as chat.\<close>

definition control_frame :: "sv_env \<Rightarrow> string \<Rightarrow> bool" where
  "control_frame ev raw =
     (case xProbe ev raw of
        None \<Rightarrow> False
      | Some q \<Rightarrow> epType q \<in> set [''history_request'', ''pow_result'', ''pow_decline'', ''vote'', ''trip_reveal''])"

lemma plain_frame:
  assumes "TrimSpace raw \<noteq> []" "\<not> control_frame ev raw"
  shows "pump_frame ev raw st = chat_frame ev raw st"
  using assms by (auto simp: pump_frame_def control_frame_def Let_def split: prod.split option.split)

lemma admitted_passes:
  assumes "admitted ev p s m"
  shows "check_envelope ev (puSession p) (puIP p) (Some m) s = Inr m"
    and "\<exists>meta ses1 s1. check_signature ev (puSession p) (puIP p) m s = Inr (meta, ses1, s1)"
proof -
  show "check_envelope ev (puSession p) (puIP p) (Some m) s = Inr m"
    using assms by (auto simp: check_envelope_def admitted_def is_envelope_def Let_def)
  show "\<exists>meta ses1 s1. check_signature ev (puSession p) (puIP p) m s = Inr (meta, ses1, s1)"
  proof (cases "ceSig m = []")
    case True
    then show ?thesis using assms by (auto simp: check_signature_def admitted_def Let_def)
  next
    case False
    then have "\<exists>r. accept_signed (xEd ev) (xGC ev) (chat_serverPub s) (xClk ev 2) (trip_view (puSession p)) m (cvTripChains s) = Inr r"
      unfolding accept_signed_iff using assms by (simp add: admitted_def Let_def)
    then show ?thesis using False by (auto simp: check_signature_def)
  qed
qed

lemma admitted_for_send:
  "admitted ev p s m \<Longrightarrow> ValidateMessageForSend (xGC ev) (envelope_text m) (xClk ev 5) (puLastMessage p)
      (Some (send_limits ev)) (canMessageUnlimited (sePerms (puSession p))) = None"
  by (auto simp: admitted_def ValidateMessageForSend_def send_limits_def Let_def)

lemma admitted_linked:
  assumes "TrimSpace raw \<noteq> []" "\<not> control_frame ev raw" "xChat ev raw = Some m" "admitted ev p s m"
  shows "\<exists>p' s' c1 meta ses1 s1 s2. pump_frame ev raw (p, s) = (p', s') \<and> puLastMessage p' = xClk ev 10 \<and>
    check_signature ev (puSession p) (puIP p) m s = Inr (meta, ses1, s1) \<and> puSession p' = ses1 \<and>
    allowSlowSend ev 6 ses1 (puIP p) (dcMessageCooldown (xDyn ev)) s1 = (True, s2) \<and>
    s' = publish_chat ev ses1 (puIP p) m meta s2 \<and> log_end c1 = end_of s \<and>
    (\<exists>meta'. (meta' = None) = (ceSig m = []) \<and>
       hbChain (cvHub s') = snd (linkAndStore (heMarshal (xHub ev)) (dcMaxHistoryBytes (xDyn ev)) (xClk ev 16) (chat_serverPub s)
         (chat_wire ev (xClk ev 12) (puSession p) m meta') c1))"
proof -
  from admitted_passes(2) [OF assms(4)] obtain meta ses1 s1 where
    sig: "check_signature ev (puSession p) (puIP p) m s = Inr (meta, ses1, s1)" by blast
  note g = check_signature_Inr [OF sig]
  have "\<not> muted (seConn (puSession p)) s" using assms(4) by (simp add: admitted_def Let_def)
  then have f: "pump_frame ev raw (p, s) = send_chat ev m meta (p\<lparr>puSession := ses1\<rparr>, s1)"
    by (simp add: plain_frame [OF assms(1,2)] chat_frame_def assms(3) admitted_passes(1) [OF assms(4)] sig Let_def)
  have "fst (allowSlowSend ev 6 ses1 (puIP p) (dcMessageCooldown (xDyn ev)) s1)"
    using assms(4) slow_gate_same [OF g(5,9,10)] by (simp add: admitted_def Let_def)
  then obtain s2 where slow: "allowSlowSend ev 6 ses1 (puIP p) (dcMessageCooldown (xDyn ev)) s1 = (True, s2)"
    by (metis prod.collapse)
  obtain p' where p': "send_chat ev m meta (p\<lparr>puSession := ses1\<rparr>, s1) = (p', publish_chat ev ses1 (puIP p) m meta s2)"
      "puLastMessage p' = xClk ev 10" "puSession p' = ses1"
    using admitted_for_send [OF assms(4)] by (simp add: send_chat_def g(5) slow Let_def)
  have s2: "s2 = s1\<lparr>cvSlowCooldown := cvSlowCooldown s2, cvHub := cvHub s2\<rparr>" "hbChain (cvHub s2) = hbChain (cvHub s1)"
    using allowSlowSend_eq [OF slow] by blast+
  have "cvServerID s2 = cvServerID s1" by (subst s2(1)) simp
  then have pub: "chat_serverPub s2 = chat_serverPub s" by (simp add: chat_serverPub_def g(2))
  have e: "end_of s2 = end_of s" by (simp add: end_of_def s2(2) g(1))
  have w: "chat_wire ev now ses1 m x = chat_wire ev now (puSession p) m x" for now x using g(4) by (simp add: chat_wire_def)
  from publish_chain [of ev ses1 "puIP p" m meta s2] obtain c1 meta' where
    "hbChain (cvHub (publish_chat ev ses1 (puIP p) m meta s2)) =
       snd (linkAndStore (heMarshal (xHub ev)) (dcMaxHistoryBytes (xDyn ev)) (xClk ev 16) (chat_serverPub s)
         (chat_wire ev (xClk ev 12) (puSession p) m meta') c1)" "log_end c1 = end_of s" "(meta' = None) = (ceSig m = [])"
    using g(7) by (auto simp: pub e w)
  moreover have "pump_frame ev raw (p, s) = (p', publish_chat ev ses1 (puIP p) m meta s2)" using f p'(1) by simp
  ultimately show ?thesis using p'(2,3) sig slow by blast
qed

text \<open>C35. The converse: a message in an ordinary envelope, signed or not, that satisfies the conditions is linked at once, with nothing left to wait
  for: the chain as it was grows by its line.\<close>

theorem admitted_message_is_linked:
  assumes "TrimSpace raw \<noteq> []" "\<not> control_frame ev raw" "xChat ev raw = Some m" "admitted ev p s m"
  shows "\<exists>p' s' c1 meta. pump_frame ev raw (p, s) = (p', s') \<and> puLastMessage p' = xClk ev 10 \<and> log_end c1 = end_of s \<and>
    (meta = None) = (ceSig m = []) \<and>
    hbChain (cvHub s') = snd (linkAndStore (heMarshal (xHub ev)) (dcMaxHistoryBytes (xDyn ev)) (xClk ev 16) (chat_serverPub s)
       (chat_wire ev (xClk ev 12) (puSession p) m meta) c1)"
  using admitted_linked [OF assms] by blast

subsection \<open>Chat lines of a session are a cooldown apart\<close>

definition pump_run :: "(sv_env \<times> string) list \<Rightarrow> pump \<times> ChatServer \<Rightarrow> pump \<times> ChatServer" where
  "pump_run fs = fold (\<lambda>(ev, raw). pump_frame ev raw) fs"

definition links_at :: "(sv_env \<times> string) list \<Rightarrow> pump \<times> ChatServer \<Rightarrow> nat \<Rightarrow> bool" where
  "links_at fs st k \<longleftrightarrow> end_of (snd (pump_run (take (Suc k) fs) st)) \<noteq> end_of (snd (pump_run (take k fs) st))"

lemma pump_run_Suc:
  "k < length fs \<Longrightarrow> pump_run (take (Suc k) fs) st = pump_frame (fst (fs ! k)) (snd (fs ! k)) (pump_run (take k fs) st)"
  by (simp add: pump_run_def take_Suc_conv_app_nth case_prod_beta)

lemma pump_frame_stamp:
  assumes "pump_frame ev raw (p, s) = (p', s')"
  shows "sePerms (puSession p') = sePerms (puSession p) \<and>
    (end_of s' = end_of s \<and> puLastMessage p' \<in> {puLastMessage p, xClk ev 6} \<or>
     puLastMessage p' = xClk ev 10 \<and>
     (canMessageUnlimited (sePerms (puSession p)) \<or> dcMessageCooldown (xDyn ev) \<le> xClk ev 5 - puLastMessage p))"
proof (cases "chat_frame ev raw (p, s) = (p', s')")
  case False
  then have "p' = updateReadDeadline ev 20 p \<and> end_of s' = end_of s"
    using assms hushed_end [OF muted_history [of "puSession p" s ev "puIP p"]] hushed_end [OF pow_frame_hushed [of "puSession p" s ev raw]]
    by (auto simp: pump_frame_def vote_end reveal_end Let_def split: option.splits if_splits)
  then show ?thesis by simp
next
  case True
  show ?thesis
  proof (cases "\<exists>m meta ses1 s1. check_signature ev (puSession p) (puIP p) m s = Inr (meta, ses1, s1) \<and>
      send_chat ev m meta (p\<lparr>puSession := ses1\<rparr>, s1) = (p', s')")
    case False
    with True have "end_of s' = end_of s \<and> puLastMessage p' = puLastMessage p \<and> puSession p' = puSession p"
      by (auto simp: chat_frame_def end_of_def Let_def split: if_splits sum.splits
          dest!: check_envelope_Inl check_signature_Inl)
    then show ?thesis by simp
  next
    case True
    then obtain m meta ses1 s1 where c: "check_signature ev (puSession p) (puIP p) m s = Inr (meta, ses1, s1)"
      "send_chat ev m meta (p\<lparr>puSession := ses1\<rparr>, s1) = (p', s')" by blast
    note g = check_signature_Inr [OF c(1)]
    have "end_of s1 = end_of s" using g(1) by (simp add: end_of_def)
    moreover have "puSession p' = ses1"
      using c(2) by (auto simp: send_chat_def Let_def split: option.splits if_splits prod.splits)
    ultimately show ?thesis using send_chat_line [OF c(2)] g(5) by (auto dest!: allowed_for_send simp: send_limits_def)
  qed
qed

lemma perms_constant: "k \<le> length fs \<Longrightarrow> sePerms (puSession (fst (pump_run (take k fs) st))) = sePerms (puSession (fst st))"
proof (induction k)
  case (Suc k)
  then have k: "k < length fs" by simp
  have "sePerms (puSession (fst (pump_run (take (Suc k) fs) st))) = sePerms (puSession (fst (pump_run (take k fs) st)))"
    using pump_frame_stamp by (metis k prod.collapse pump_run_Suc)
  then show ?case using Suc.IH k by simp
qed (simp add: pump_run_def)

definition clocks_ordered :: "(sv_env \<times> string) list \<Rightarrow> bool" where
  "clocks_ordered = sorted_wrt (\<lambda>a b. \<forall>i j. xClk (fst a) i \<le> xClk (fst b) j)"

lemma stamp_lasts:
  assumes "clocks_ordered fs" "i < k" "k \<le> length fs" "links_at fs st i"
  shows "xClk (fst (fs ! i)) 10 \<le> puLastMessage (fst (pump_run (take k fs) st))"
  using assms(2,3)
proof (induction k)
  case (Suc k)
  let ?r = "\<lambda>k. pump_run (take k fs) st"
  have k: "k < length fs" using Suc.prems by simp
  have step: "pump_frame (fst (fs ! k)) (snd (fs ! k)) (fst (?r k), snd (?r k)) = (fst (?r (Suc k)), snd (?r (Suc k)))"
    using pump_run_Suc [OF k] by simp
  note st = pump_frame_stamp [OF step]
  show ?case
  proof (cases "i = k")
    case True
    then show ?thesis using st assms(4) by (auto simp: links_at_def)
  next
    case False
    then have "i < k" using Suc.prems by simp
    moreover have "xClk (fst (fs ! i)) 10 \<le> xClk (fst (fs ! k)) j" for j
      using assms(1) \<open>i < k\<close> k by (simp add: clocks_ordered_def sorted_wrt_iff_nth_less)
    ultimately show ?thesis using st Suc.IH k by (auto intro: order_trans)
  qed
qed simp

text \<open>The chat cooldown holds between any two lines of a session: over every sequence of frames it sends, of whatever kinds,
  a session without the unlimited permission that has a line linked at frame \<open>i\<close> and again at frame \<open>j\<close> waited at least
  the cooldown in force at \<open>j\<close> in between.\<close>

theorem chat_lines_spaced:
  assumes "\<not> canMessageUnlimited (sePerms (puSession (fst st)))" and "clocks_ordered fs"
    and "i < j" "j < length fs" "links_at fs st i" "links_at fs st j"
  shows "xClk (fst (fs ! i)) 10 + dcMessageCooldown (xDyn (fst (fs ! j))) \<le> xClk (fst (fs ! j)) 5"
proof -
  let ?r = "\<lambda>k. pump_run (take k fs) st"
  have "xClk (fst (fs ! i)) 10 \<le> puLastMessage (fst (?r j))" using stamp_lasts [OF assms(2,3) _ assms(5)] assms(4) by simp
  moreover have step: "pump_frame (fst (fs ! j)) (snd (fs ! j)) (fst (?r j), snd (?r j)) = (fst (?r (Suc j)), snd (?r (Suc j)))"
    using pump_run_Suc [OF assms(4)] by simp
  ultimately show ?thesis
    using pump_frame_stamp [OF step] assms(1,6) perms_constant [of j fs st] assms(4) by (auto simp: links_at_def)
qed

subsection \<open>A refused signed message is spent\<close>

text \<open>The signed branch advances the key's chain before the length, line and cooldown checks. If one of those refuses
  the message, nothing is linked, yet the same envelope is never accepted again from any session: its number is used up and the
  stored log has a gap.\<close>

theorem refused_signed_message_is_spent:
  assumes "TrimSpace raw \<noteq> []" "\<not> control_frame ev raw" "\<not> muted (seConn (puSession p)) s"
    and "check_envelope ev (puSession p) (puIP p) (xChat ev raw) s = Inr m" "ceSig m \<noteq> []"
    and "accept_signed (xEd ev) (xGC ev) (chat_serverPub s) (xClk ev 2) (trip_view (puSession p)) m (cvTripChains s) = Inr (meta, t, tcs)"
    and "ValidateMessageForSend (xGC ev) (envelope_text m) (xClk ev 5) (puLastMessage p) (Some (send_limits ev))
       (canMessageUnlimited (sePerms (puSession p))) = Some e"
    and "pump_frame ev raw (p, s) = (p', s')"
  shows "hbChain (cvHub s') = hbChain (cvHub s) \<and>
    (\<forall>now t' r. accept_signed (xEd ev) (xGC ev) (chat_serverPub s) now t' m (cvTripChains s') \<noteq> Inr r)"
proof -
  let ?s1 = "s\<lparr>cvTripChains := tcs, cvHub := set_session (adopt_trip t) (seConn (puSession p)) (cvHub s)\<rparr>"
  have sig: "check_signature ev (puSession p) (puIP p) m s = Inr (Some meta, adopt_trip t (puSession p), ?s1)"
    using assms(5,6) by (simp add: check_signature_def)
  have "send_chat ev m (Some meta) (p\<lparr>puSession := adopt_trip t (puSession p)\<rparr>, ?s1) = (p', s')"
    using assms(3,4,8) by (simp add: plain_frame [OF assms(1,2)] chat_frame_def sig Let_def)
  moreover obtain wtext tag where "limit_warning ev e = (wtext, tag)" by fastforce
  ultimately have "s' = say ev 7 (adopt_trip t (puSession p)) wtext tag ?s1"
    by (simp add: send_chat_def assms(7) Let_def)
  then have s': "hbChain (cvHub s') = hbChain (cvHub ?s1)" "cvTripChains s' = tcs" by simp_all
  obtain ch where ch: "map_of tcs (to_lower (cePub m)) = Some ch" "tcSeq ch = ceSeq m"
    using assms(6) by (auto simp: accept_signed_def Let_def update_conv split: if_splits option.splits prod.splits sum.splits)
  have "accept_signed (xEd ev) (xGC ev) (chat_serverPub s) now t' m tcs \<noteq> Inr r" for now t' r
  proof
    assume "accept_signed (xEd ev) (xGC ev) (chat_serverPub s) now t' m tcs = Inr r"
    from accept_seq [OF this] have "ceSeq m = tcSeq ch + 1" by (simp add: expected_link_def ch(1))
    then show False unfolding ch(2) by simp
  qed
  then show ?thesis using s' by (simp add: set_session_def)
qed

subsection \<open>Connection slots\<close>

text \<open>Connections that ask for a slot and connections that end. \<open>live\<close> lists the addresses that hold one; each connection
  releases once, in the deferred call of its own handler.\<close>

datatype slot_event = Asks sv_env string | Ends string

fun slot_step :: "slot_event \<Rightarrow> ChatServer \<times> string list \<Rightarrow> ChatServer \<times> string list" where
  "slot_step (Asks ev ip) (s, live) = (let (ok, s') = acquireIPConnection ev ip s in (s', if ok then ip # live else live))"
| "slot_step (Ends ip) (s, live) = (if ip \<in> set live then (releaseIPConnection ip s, remove1 ip live) else (s, live))"

definition slot_max :: "int \<Rightarrow> slot_event \<Rightarrow> bool" where
  "slot_max mx e \<longleftrightarrow> (case e of Asks ev ip \<Rightarrow> dcMaxConnectionsPerIP (xDyn ev) \<le> mx | Ends ip \<Rightarrow> True)"

definition slots_ok :: "int \<Rightarrow> ChatServer \<times> string list \<Rightarrow> bool" where
  "slots_ok mx st \<longleftrightarrow> (\<forall>ip. cvIpCounts (fst st) ip = (let n = count_list (snd st) ip in if n = 0 then None else Some (int n)) \<and>
     int (count_list (snd st) ip) \<le> max 0 mx)"

lemma count_remove1: "count_list (remove1 x xs) y = (if x = y then count_list xs y - 1 else count_list xs y)"
  by (induction xs) auto

lemma slot_step_ok:
  assumes "slots_ok mx st" "slot_max mx e"
  shows "slots_ok mx (slot_step e st)"
proof (cases e)
  case (Asks ev ip)
  obtain s live where st: "st = (s, live)" by fastforce
  have "cvIpCounts s ip = (let n = count_list live ip in if n = 0 then None else Some (int n))"
    using assms(1) by (simp add: slots_ok_def st)
  then show ?thesis using assms by (auto simp: Asks st slots_ok_def slot_max_def acquireIPConnection_def Let_def split: if_splits)
next
  case (Ends ip)
  obtain s live where st: "st = (s, live)" by fastforce
  have c: "cvIpCounts s ip = (let n = count_list live ip in if n = 0 then None else Some (int n))"
    using assms(1) by (simp add: slots_ok_def st)
  have "int (count_list live ip) \<le> max 0 mx" using assms(1) by (simp add: slots_ok_def st)
  then have le: "int (count_list live ip) - 1 \<le> max 0 mx" by linarith
  show ?thesis using c assms(1) count_list_0_iff [of live ip]
    by (auto simp: Ends st slots_ok_def releaseIPConnection_def count_remove1 le Let_def of_nat_diff split: if_splits)
qed

interpretation slots: machine slot_step "\<lambda>_. slot_max mx" "slots_ok mx" for mx
  by unfold_locales (rule slot_step_ok)

text \<open>The slot counters are exact: over every sequence of arrivals (granted or refused) and departures, the counter of an
  address is the number of connections it holds, with no entry left behind at zero, and no address ever holds more than the
  largest limit that was in force.\<close>

theorem ip_slots_exact:
  assumes "cvIpCounts s0 = Map.empty" and "\<forall>e\<in>set es. slot_max mx e"
    and "fold slot_step es (s0, []) = (s, live)"
  shows "cvIpCounts s ip = (if count_list live ip = 0 then None else Some (int (count_list live ip))) \<and>
    int (count_list live ip) \<le> max 0 mx"
proof -
  have "slots_ok mx (s0, [])" using assms(1) by (simp add: slots_ok_def)
  moreover have "slots.admissible mx (s0, []) es" using assms(2) by (intro slots.admissible_if_all) blast
  ultimately have "slots_ok mx (fold slot_step es (s0, []))" by (rule slots.run_inv)
  then show ?thesis by (simp add: assms(3) slots_ok_def Let_def)
qed

subsection \<open>Examples\<close>

definition ex_text :: "chat_envelope" where
  "ex_text = \<lparr>ceText = ''hi'', ceMsg = [], cePub = [], ceSeq = 0, cePrev = [], ceSig = [], ceTmpID = 5, ceReplyTo = 0\<rparr>"

text \<open>The probe of a chat envelope: it decodes, and has no type.\<close>

definition no_type :: env_probe where
  "no_type = \<lparr>epType = [], epBefore = 0, epLimit = 0, epAfterSeq = None, epBeforeSeq = None, epRanges = [], epTarget = 0,
     epDirection = 0, epSeed = [], epSig = []\<rparr>"

definition ex_sv :: "time \<Rightarrow> chat_envelope \<Rightarrow> int \<Rightarrow> sv_env" where
  "ex_sv t m maxLen =
     \<lparr>xHub = \<lparr>heMarshal = wText, heMax = 0, heHHMM = (\<lambda>_. []), heDMY = (\<lambda>_. []), heISO = (\<lambda>_. []), heDrained = (\<lambda>_. False)\<rparr>,
      xClk = (\<lambda>_. t), xOrder = (\<lambda>_. []), xRand = (\<lambda>_. None), xDyn = DefaultDynamic\<lparr>dcMaxMessageLength := maxLen\<rparr>,
      xAbuse = None, xGC = (\<lambda>_. Ll), xEd = (\<lambda>_ _ _. True), xSign = (\<lambda>_ _. []), xPubOfSeed = (\<lambda>s. s),
      xArgon = (\<lambda>_ _ _ _ _ _. []), xProbe = (\<lambda>_. Some no_type), xChat = (\<lambda>_. Some m), xPowResult = (\<lambda>_. None), xPowDecline = (\<lambda>_. None),
      xRFC3339 = (\<lambda>_. []), xRoom = [], xRecords = (\<lambda>_. None), xDisk = None, xSortRanges = (\<lambda>r. r), xSortSeen = (\<lambda>r. r)\<rparr>"

definition ex_ann :: ClientSession where
  "ex_ann = \<lparr>seConn = 7, seDisplayName = ''ann#0000'', seTripcode = [], sePerms = \<lparr>canMessageUnlimited = False, customPrefix = []\<rparr>,
     seSend = [], seIP = ''1.2.3.4'', seAuthType = ''guest'', sePlatform = [], seIdentityPub = [], seTripPub = [], seTripBadge = [],
     seHost = [], seWantJoins = False\<rparr>"

definition ex_chat_server :: "PowScreener option \<Rightarrow> ChatServer" where
  "ex_chat_server sc =
     \<lparr>cvHub = empty_hub ex_vote_log, cvIpCounts = Map.empty, cvHistoryBudget = [], cvSlowCooldown = None, cvInflight = 0,
      cvVotes = \<lparr>vbScores = Map.empty, vbDedup = []\<rparr>, cvVoteCooldown = [], cvTripChains = [], cvExposed = [], cvAttack = None,
      cvBehavior = None, cvScreener = sc, cvServerID = None, cvPages = []\<rparr>"

definition ex_pump :: pump where
  "ex_pump = \<lparr>puSession = ex_ann, puIP = ''1.2.3.4'', puLastMessage = 0, puLastActivity = 0, puDeadline = 0\<rparr>"

lemma valid_hi: "ValidateMessage (\<lambda>_. Ll) ''hi'' = None" and runes_hi: "length (runes ''hi'') = 2"
proof -
  have "rune_pieces ''hi'' = map (\<lambda>c. (nat_of c, 1)) ''hi''" by (rule rune_pieces_ascii) (simp add: nat_of_def)
  then show "ValidateMessage (\<lambda>_. Ll) ''hi'' = None" "length (runes ''hi'') = 2"
    by (simp_all add: ValidateMessage_def ValidString_def runes_def RuneError_def nat_of_def IsGraphic_def)
qed

lemma trim_x: "TrimSpace ''x'' \<noteq> []"
  by (subst TrimSpace_plain) (simp_all add: nat_of_def is_space_rune_def)

lemma ex_env_fields [simp]:
  "xClk (ex_sv t m n) i = t" "\<not> control_frame (ex_sv t m n) raw" "xChat (ex_sv t m n) raw = Some m" "xGC (ex_sv t m n) = (\<lambda>_. Ll)"
  "dcMessageCooldown (xDyn (ex_sv t m n)) = second" "dcMaxMessageLength (xDyn (ex_sv t m n)) = n"
  "dcMaxMessageLine (xDyn (ex_sv t m n)) = 50" "xEd (ex_sv t m n) = (\<lambda>_ _ _. True)"
  by (simp_all add: ex_sv_def DefaultDynamic_def control_frame_def no_type_def)

lemma ex_text_fields [simp]: "envelope_text ex_text = ''hi''" "ceSig ex_text = []" "ceTmpID ex_text = 5" "ceReplyTo ex_text = 0"
  by (simp_all add: ex_text_def envelope_text_def)

text \<open>Publishing leaves what the next message is checked against.\<close>

lemma observeMessage_muted: "muted c (observeMessage ev i ip s) = muted c s"
  by (auto simp: observeMessage_def muted_def IsMuted_def screen_Defer_def Let_def split: option.split prod.split)

lemma observeMessage_slow: "cvSlowCooldown (observeMessage ev i ip s) = cvSlowCooldown s"
  by (auto simp: observeMessage_def Let_def split: option.split prod.split)

lemma publish_None:
  "publish_chat ev ses ip m None s = (observeMessage ev 11 ip s)\<lparr>cvHub := cvHub (publish_chat ev ses ip m None s)\<rparr>"
  by (simp add: publish_chat_def flag_exposed_def Let_def)

lemma publish_keeps:
  "muted c (publish_chat ev ses ip m None s) = muted c s" "cvSlowCooldown (publish_chat ev ses ip m None s) = cvSlowCooldown s"
  by (subst publish_None, simp add: muted_def observeMessage_muted [unfolded muted_def])
     (subst publish_None, simp add: observeMessage_slow)

lemma link_moves_end:
  "csReady c \<Longrightarrow> log_end (snd (linkAndStore mj mx now pub w c)) \<noteq> log_end c \<and> csReady (snd (linkAndStore mj mx now pub w c))"
  by (simp add: linkAndStore_eq ensure_ready_def Let_def log_end_def EnqueueWire_def)

lemma no_slow: "cvSlowCooldown s = None \<Longrightarrow> slow_wait ev ses ip base s = None"
  by (auto simp: slow_wait_def split: option.split)

lemma ex_admitted:
  assumes "puSession p = ex_ann" "\<not> muted 7 s" "second \<le> t - puLastMessage p" "cvSlowCooldown s = None"
  shows "admitted (ex_sv t ex_text 2) p s ex_text"
  using assms valid_hi runes_hi by (simp add: admitted_def ex_ann_def allowSlowSend_def no_slow Let_def)

text \<open>One message of the example session, from any state in which its last one is a second old.\<close>

lemma ex_frame_links:
  assumes "puSession p = ex_ann" "\<not> muted 7 s" "second \<le> t - puLastMessage p" "cvSlowCooldown s = None"
    and "csReady (hbChain (cvHub s))"
  shows "\<exists>p' s'. pump_frame (ex_sv t ex_text 2) ''x'' (p, s) = (p', s') \<and> puLastMessage p' = t \<and> puSession p' = ex_ann \<and>
    \<not> muted 7 s' \<and> cvSlowCooldown s' = None \<and> csReady (hbChain (cvHub s')) \<and> end_of s' \<noteq> end_of s"
proof -
  let ?ev = "ex_sv t ex_text 2"
  have sig: "check_signature ?ev (puSession p) (puIP p) ex_text s = Inr (None, ex_ann, s)"
    using assms(1) valid_hi by (simp add: check_signature_def ex_ann_def)
  have slow: "allowSlowSend ?ev 6 ex_ann (puIP p) second s = (True, s)" by (simp add: allowSlowSend_def no_slow assms(4))
  from admitted_linked [OF trim_x, of ?ev, OF _ _ ex_admitted [OF assms(1-4)]] sig slow obtain p' s' c1 where
    r: "pump_frame ?ev ''x'' (p, s) = (p', s')" "puLastMessage p' = t" "puSession p' = ex_ann"
      "s' = publish_chat ?ev (puSession p) (puIP p) ex_text None s" "log_end c1 = end_of s"
      "hbChain (cvHub s') = snd (linkAndStore (heMarshal (xHub ?ev)) (dcMaxHistoryBytes (xDyn ?ev)) t (chat_serverPub s)
         (chat_wire ?ev t (puSession p) ex_text None) c1)"
    using assms(1) by auto
  from r(5) assms(5) have "csReady c1" by (simp add: end_of_def log_end_def)
  with link_moves_end [of c1] r(5,6) have "csReady (hbChain (cvHub s'))" "end_of s' \<noteq> end_of s" by (simp_all add: end_of_def)
  moreover have "\<not> muted 7 s'" "cvSlowCooldown s' = None" using assms(2,4) by (simp_all add: r(4) publish_keeps)
  ultimately show ?thesis using r(1,2,3) by blast
qed

lemma ex_start [simp]: "puSession ex_pump = ex_ann" "puLastMessage ex_pump = 0" "\<not> muted c (ex_chat_server None)"
  "cvSlowCooldown (ex_chat_server sc) = None" "csReady (hbChain (cvHub (ex_chat_server sc)))" "cvTripChains (ex_chat_server sc) = []"
  by (simp_all add: ex_pump_def ex_chat_server_def muted_def empty_hub_def ex_vote_log_def)

theorem muted_frame_is_hushed_witness:
  "hushed 7 (ex_chat_server (Some (NewPowScreener\<lparr>scMuted := (\<lambda>_. True)\<rparr>)))
     (snd (pump_frame (ex_sv 9 ex_text 2) ''x'' (ex_pump, ex_chat_server (Some (NewPowScreener\<lparr>scMuted := (\<lambda>_. True)\<rparr>)))))"
  using muted_frame_is_hushed [of ex_pump "ex_chat_server (Some (NewPowScreener\<lparr>scMuted := (\<lambda>_. True)\<rparr>))" "ex_sv 9 ex_text 2" "''x''"]
  by (simp add: ex_ann_def muted_def ex_chat_server_def IsMuted_def)

theorem chained_line_was_admitted_witness:
  "\<exists>p' s'. pump_frame (ex_sv second ex_text 2) ''x'' (ex_pump, ex_chat_server None) = (p', s') \<and>
     end_of s' \<noteq> end_of (ex_chat_server None) \<and> admitted (ex_sv second ex_text 2) ex_pump (ex_chat_server None) ex_text"
proof -
  obtain p' s' where r: "pump_frame (ex_sv second ex_text 2) ''x'' (ex_pump, ex_chat_server None) = (p', s')"
    "end_of s' \<noteq> end_of (ex_chat_server None)"
    using ex_frame_links [of ex_pump "ex_chat_server None" second] by auto
  from chained_line_was_admitted [OF this] r show ?thesis by auto
qed

theorem admitted_message_is_linked_witness:
  "\<exists>p' s'. pump_frame (ex_sv second ex_text 2) ''x'' (ex_pump, ex_chat_server None) = (p', s') \<and> puLastMessage p' = second"
proof -
  let ?ev = "ex_sv second ex_text 2" and ?s = "ex_chat_server None"
  have "admitted ?ev ex_pump ?s ex_text" by (rule ex_admitted) simp_all
  from admitted_message_is_linked [OF trim_x _ _ this] obtain p' s' where
    "pump_frame ?ev ''x'' (ex_pump, ?s) = (p', s')" "puLastMessage p' = xClk ?ev 10" by auto
  then show ?thesis by auto
qed

theorem chat_lines_spaced_witness:
  "let fs = [(ex_sv second ex_text 2, ''x''), (ex_sv (3 * second) ex_text 2, ''x'')]; st = (ex_pump, ex_chat_server None)
   in links_at fs st 0 \<and> links_at fs st 1 \<and> xClk (fst (fs ! 0)) 10 + dcMessageCooldown (xDyn (fst (fs ! 1))) \<le> xClk (fst (fs ! 1)) 5"
proof -
  let ?fs = "[(ex_sv second ex_text 2, ''x''), (ex_sv (3 * second) ex_text 2, ''x'')]" and ?st = "(ex_pump, ex_chat_server None)"
  obtain p1 s1 where 1: "pump_frame (ex_sv second ex_text 2) ''x'' ?st = (p1, s1)" "puLastMessage p1 = second" "puSession p1 = ex_ann"
    "\<not> muted 7 s1" "cvSlowCooldown s1 = None" "csReady (hbChain (cvHub s1))" "end_of s1 \<noteq> end_of (ex_chat_server None)"
    using ex_frame_links [of ex_pump "ex_chat_server None" second] by auto
  obtain p2 s2 where 2: "pump_frame (ex_sv (3 * second) ex_text 2) ''x'' (p1, s1) = (p2, s2)" "end_of s2 \<noteq> end_of s1"
    using ex_frame_links [of p1 s1 "3 * second"] 1 by (auto simp: second_def)
  have l: "links_at ?fs ?st 0" "links_at ?fs ?st 1" using 1 2 by (simp_all add: links_at_def pump_run_def)
  moreover have "clocks_ordered ?fs" by (simp add: clocks_ordered_def second_def)
  ultimately show ?thesis
    using chat_lines_spaced [of ?st ?fs 0 1] by (simp add: ex_ann_def)
qed

theorem refused_signed_message_is_spent_witness:
  "\<exists>p' s'. pump_frame (ex_sv 9 ex_envelope 1) ''x'' (ex_pump, ex_chat_server None) = (p', s') \<and>
     hbChain (cvHub s') = hbChain (cvHub (ex_chat_server None)) \<and>
     (\<forall>now t' r. accept_signed (\<lambda>_ _ _. True) (\<lambda>_. Ll) [] now t' ex_envelope (cvTripChains s') \<noteq> Inr r)"
proof -
  let ?ev = "ex_sv 9 ex_envelope 1" and ?s = "ex_chat_server None"
  obtain p' s' where r: "pump_frame ?ev ''x'' (ex_pump, ?s) = (p', s')" by fastforce
  have "ex_sig \<noteq> []" using ex_lengths(2) by force
  then have f: "envelope_text ex_envelope = ''hi''" "ceSig ex_envelope \<noteq> []" "ceTmpID ex_envelope = 5" "ceReplyTo ex_envelope = 0"
    by (auto simp: ex_envelope_def envelope_text_def neq_Nil_conv)
  have v: "trip_view ex_ann = ex_trip_session" by (simp add: trip_view_def ex_ann_def ex_trip_session_def)
  have p: "chat_serverPub ?s = []" by (simp add: chat_serverPub_def ex_chat_server_def)
  have "accept_signed (xEd ?ev) (xGC ?ev) (chat_serverPub ?s) (xClk ?ev 2) (trip_view (puSession ex_pump)) ex_envelope (cvTripChains ?s) =
      accept_signed (\<lambda>_ _ _. True) (\<lambda>_. Ll) [] 9 ex_trip_session ex_envelope []"
    by (simp only: v p ex_env_fields ex_start)
  then obtain meta t tcs where a: "accept_signed (xEd ?ev) (xGC ?ev) (chat_serverPub ?s) (xClk ?ev 2) (trip_view (puSession ex_pump))
      ex_envelope (cvTripChains ?s) = Inr (meta, t, tcs)"
    using ex_signed_accepted by metis
  have "check_envelope ?ev (puSession ex_pump) (puIP ex_pump) (xChat ?ev ''x'') ?s = Inr ex_envelope"
    using f by (simp add: check_envelope_def is_envelope_def)
  moreover have "ValidateMessageForSend (xGC ?ev) (envelope_text ex_envelope) (xClk ?ev 5) (puLastMessage ex_pump) (Some (send_limits ?ev))
       (canMessageUnlimited (sePerms (puSession ex_pump))) = Some ErrTooLong"
    using runes_hi by (simp add: ValidateMessageForSend_def f send_limits_def ex_ann_def)
  ultimately have "hbChain (cvHub s') = hbChain (cvHub ?s) \<and>
      (\<forall>now t' r. accept_signed (xEd ?ev) (xGC ?ev) (chat_serverPub ?s) now t' ex_envelope (cvTripChains s') \<noteq> Inr r)"
    using refused_signed_message_is_spent [OF trim_x _ _ _ f(2) a _ r] by simp
  then show ?thesis using r unfolding p ex_env_fields by blast
qed

theorem ip_slots_exact_witness:
  "let (s, live) = fold slot_step [Asks (ex_sv 1 ex_text 2) ''a'', Asks (ex_sv 1 ex_text 2) ''a'', Asks (ex_sv 1 ex_text 2) ''a'', Ends ''a'']
       (ex_chat_server None, [])
   in live = [''a''] \<and> cvIpCounts s ''a'' = Some 1"
proof -
  let ?es = "[Asks (ex_sv 1 ex_text 2) ''a'', Asks (ex_sv 1 ex_text 2) ''a'', Asks (ex_sv 1 ex_text 2) ''a'', Ends ''a'']"
  obtain s live where f: "fold slot_step ?es (ex_chat_server None, []) = (s, live)" by fastforce
  have d: "dcMaxConnectionsPerIP (xDyn (ex_sv 1 ex_text 2)) = 2" by (simp add: ex_sv_def DefaultDynamic_def)
  have z: "cvIpCounts (ex_chat_server None) = Map.empty" by (simp add: ex_chat_server_def)
  have "live = [''a'']" using f by (simp add: acquireIPConnection_def d z)
  moreover have "cvIpCounts s ''a'' = (if count_list live ''a'' = 0 then None else Some (int (count_list live ''a'')))"
    using ip_slots_exact [OF z _ f, of 2 "''a''"] by (simp add: slot_max_def d)
  ultimately show ?thesis using f by simp
qed

end
