(* ===== verification/Boot.thy ===== *)
theory Boot
  imports Session_Laws
begin

text \<open>
  Start-up: \<open>InitHistoryStore\<close> of \<^verbatim>\<open>src/server/history.go\<close> rebuilds the in-memory log, the cursor, the reveal registry and
  the signed chains from the stored records, and the vote totals from the log. Each record comes with the environment its
  clock readings are taken from; \<open>parseT\<close> is \<open>time.Parse(time.RFC3339Nano, _)\<close>, zero on an error. The store is opened
  and read in \<open>History_Disk\<close>: a missing store (\<open>None\<close>) leaves the server as it is, an error of reading is the
  caller's.
\<close>

record boot =
  boServer :: ChatServer
  boLastSeq :: u64
  boExposedIn :: "string list"

text \<open>The cursor of records written before it existed.\<close>

definition backfill_seq :: "u64 \<Rightarrow> historyRecord \<Rightarrow> historyRecord \<times> u64" where
  "backfill_seq lastSeq rec =
     (let (r1, l1) = (if rcSeq rec = 0 then (rec\<lparr>rcSeq := lastSeq + 1\<rparr>, lastSeq + 1)
                      else (rec, if rcSeq rec > lastSeq then rcSeq rec else lastSeq))
      in (case rcWire r1 of
            None \<Rightarrow> r1
          | Some w \<Rightarrow> if wSeq w = 0 then r1\<lparr>rcWire := Some (w\<lparr>wSeq := rcSeq r1\<rparr>)\<rparr> else r1, l1))"

definition is_reveal :: "WireMessage \<Rightarrow> bool" where
  "is_reveal w \<longleftrightarrow> wExposedPub w \<noteq> [] \<and> HasTag (wTags w) TagTripReveal"

definition boot_reveal :: "sv_env \<Rightarrow> time \<Rightarrow> WireMessage \<Rightarrow> boot \<Rightarrow> boot" where
  "boot_reveal ev recTime w b =
     (if is_reveal w then
        (let pubHex = to_lower (wExposedPub w); seedHex = clean (wExposedSeed w) in
         if seedHex \<noteq> [] \<and> VerifySeed (xPubOfSeed ev) seedHex pubHex
         then b\<lparr>boExposedIn := pubHex # boExposedIn b,
                boServer := (boServer b)\<lparr>cvExposed := markTripExposedAt (xSortSeen ev) (xClk ev 0) pubHex recTime seedHex (cvExposed (boServer b))\<rparr>\<rparr>
         else b)
      else b)"

definition boot_params :: "ChatServer \<Rightarrow> WireMessage \<Rightarrow> TripMeta \<Rightarrow> VerifyParams" where
  "boot_params s w tm =
     \<lparr>vpText = wText w, vpDisplayName = (if wDisplayName w = [] then tmDisplayName tm else wDisplayName w),
      vpServerPub = (if tmServerPub tm = [] then chat_serverPub s else tmServerPub tm), vpPubHex = tmPub tm, vpSeq = tmSeq tm,
      vpPrevHex = tmPrev tm, vpSigHex = tmSig tm, vpMsgHashHex = tmMsgHash tm, vpTmpID = tmTmpID tm, vpReplyTo = tmReplyTo tm,
      vpSkipTextCheck = False\<rparr>"

text \<open>The link of a stored signed line, \<open>None\<close> when it does not verify.\<close>

definition boot_link :: "sv_env \<Rightarrow> ChatServer \<Rightarrow> WireMessage \<Rightarrow> TripMeta \<Rightarrow> (bytes \<times> bytes) option" where
  "boot_link ev s w tm =
     (case trip_Verify (xEd ev) (boot_params s w tm) of
        Inl e \<Rightarrow> None
      | Inr res \<Rightarrow>
          (case (hex_decode (tmPrev tm), hex_decode (tmSig tm), hex_decode (tmMsgHash tm)) of
             (Some prev, Some sig, Some hash) \<Rightarrow> Some (prev, sha256 (prev @ sig @ hash))
           | _ \<Rightarrow> None))"

definition fold_tip :: "time \<Rightarrow> string \<Rightarrow> u32 \<Rightarrow> bytes \<times> bytes \<Rightarrow> TripChains \<Rightarrow> TripChains" where
  "fold_tip now pub sq pn tcs =
     (let (nxt, status) = applyTripChain (map_of tcs pub) sq (fst pn) (snd pn) in
      if status \<noteq> tripChainStale then AList.update pub (nxt\<lparr>tcLastSeen := now\<rparr>) tcs else tcs)"

text \<open>Whether a replayed line carries the exposure flag.\<close>

definition boot_exposed :: "sv_env \<Rightarrow> time \<Rightarrow> string \<Rightarrow> boot \<Rightarrow> bool \<times> boot" where
  "boot_exposed ev recTime pub b =
     (if pub \<in> set (boExposedIn b) then (True, b)
      else let (x, m) = isTripExposedAt (xClk ev 2) pub recTime (cvExposed (boServer b))
           in (x, b\<lparr>boServer := (boServer b)\<lparr>cvExposed := m\<rparr>\<rparr>))"

definition boot_append :: "sv_env \<Rightarrow> stored_line \<Rightarrow> boot \<Rightarrow> boot" where
  "boot_append ev l b =
     b\<lparr>boServer := (boServer b)\<lparr>cvHub := (cvHub (boServer b))\<lparr>hbChain :=
         appendMessageLocked (heMarshal (xHub ev)) (dcMaxHistoryBytes (xDyn ev)) l (hbChain (cvHub (boServer b)))\<rparr>\<rparr>\<rparr>"

definition boot_record :: "(string \<Rightarrow> time) \<Rightarrow> sv_env \<Rightarrow> historyRecord \<Rightarrow> boot \<Rightarrow> boot" where
  "boot_record parseT ev rec0 b0 =
     (let (rec, lastSeq) = backfill_seq (boLastSeq b0) rec0; b = b0\<lparr>boLastSeq := lastSeq\<rparr>; recTime = parseT (rcTimestamp rec) in
      case recordLine rec of
        None \<Rightarrow> b
      | Some l \<Rightarrow>
          (case rcWire rec of
             None \<Rightarrow> boot_append ev l b
           | Some w \<Rightarrow>
               (let b1 = boot_reveal ev recTime w b in
                case wTrip w of
                  None \<Rightarrow> boot_append ev l b1
                | Some tm \<Rightarrow>
                    if tmPub tm = [] then boot_append ev l b1
                    else case boot_link ev (boServer b1) w tm of
                        None \<Rightarrow> b1
                      | Some pn \<Rightarrow>
                          (let b2 = b1\<lparr>boServer := (boServer b1)\<lparr>cvTripChains :=
                                 fold_tip (xClk ev 1) (tmPub tm) (tmSeq tm) pn (cvTripChains (boServer b1))\<rparr>\<rparr>;
                               (x, b3) = boot_exposed ev recTime (tmPub tm) b2
                           in boot_append ev (if x then JsonLine (w\<lparr>wTrip := Some (tm\<lparr>tmExposed := True\<rparr>)\<rparr>) else l) b3))))"

definition InitHistoryStore :: "(string \<Rightarrow> time) \<Rightarrow> (sv_env \<times> historyRecord) list \<Rightarrow> ChatServer \<Rightarrow> ChatServer" where
  "InitHistoryStore parseT recs s =
     (let b = fold (\<lambda>(ev, rec). boot_record parseT ev rec) recs \<lparr>boServer = s, boLastSeq = 0, boExposedIn = []\<rparr>;
          s1 = boServer b; c = hbChain (cvHub s1);
          s2 = s1\<lparr>cvHub := (cvHub s1)\<lparr>hbChain := c\<lparr>csSeq := boLastSeq b\<rparr>\<rparr>\<rparr>
      in s2\<lparr>cvVotes := rebuildVoteScores (hbChain (cvHub s2)) (cvVotes s2)\<rparr>)"

subsection \<open>A restart resumes the signed chains\<close>

definition tip_view :: "TripChain option \<Rightarrow> (u32 \<times> bytes) option" where
  "tip_view c = map_option (\<lambda>c. (tcSeq c, tcPrevHash c)) c"

lemma expected_link_view: "tip_view c = tip_view d \<Longrightarrow> expected_link c = expected_link d"
  by (auto simp: tip_view_def expected_link_def split: option.splits)

text \<open>The stored record of an accepted signed message: \<open>w0\<close> and \<open>x\<close> stand for the fields that do not matter (links, times,
  cursor, the exposure flag).\<close>

definition signed_record :: "string \<Rightarrow> trip_session \<Rightarrow> chat_envelope \<Rightarrow> TripMeta \<Rightarrow> WireMessage \<Rightarrow> bool \<Rightarrow> historyRecord" where
  "signed_record stamp ts m meta w0 x =
     zero_record\<lparr>rcTimestamp := stamp, rcWire := Some (w0\<lparr>wText := envelope_text m, wDisplayName := tsDisplayName ts,
       wTrip := Some (meta\<lparr>tmExposed := x\<rparr>), wExposedPub := []\<rparr>)\<rparr>"

text \<open>
  One event of a server's life: a signed message, or the record of some other line. An accepted message moves its key's chain
  at once; only then come the length, line, cooldown and slow-mode checks, and \<open>through\<close> says whether they let it reach the log.
  The ledger keeps, for every key, the number and the hash of its last message that was stored.
\<close>

datatype live_event = Said time trip_session chat_envelope string WireMessage bool bool | Elsewhere historyRecord

type_synonym ledger = "string \<Rightarrow> (u32 \<times> bytes) option"
type_synonym live_state = "TripChains \<times> ledger \<times> historyRecord list"

fun live_step :: "ed_verify \<Rightarrow> (nat \<Rightarrow> gcat) \<Rightarrow> string \<Rightarrow> live_event \<Rightarrow> live_state \<Rightarrow> live_state" where
  "live_step ed gc pub (Said now ts m stamp w0 x through) (tcs, saved, recs) =
     (case accept_signed ed gc pub now ts m tcs of
        Inl e \<Rightarrow> (tcs, saved, recs)
      | Inr (meta, t, tcs') \<Rightarrow>
          if through then (tcs', saved(tmPub meta := tip_view (map_of tcs' (tmPub meta))), recs @ [signed_record stamp ts m meta w0 x])
          else (tcs', saved, recs))"
| "live_step ed gc pub (Elsewhere rec) (tcs, saved, recs) = (tcs, saved, recs @ [rec])"

text \<open>Records of other kinds carry no signature, and no sequence number has wrapped to zero.\<close>

fun live_ok :: "live_event \<Rightarrow> bool" where
  "live_ok (Said now ts m stamp w0 x through) = (ceSeq m \<noteq> 0)"
| "live_ok (Elsewhere rec) = (case rcWire rec of None \<Rightarrow> True | Some w \<Rightarrow> wTrip w = None)"

text \<open>Nothing that key signed was dropped by the later checks.\<close>

fun got_through :: "string \<Rightarrow> live_event \<Rightarrow> bool" where
  "got_through k (Said now ts m stamp w0 x through) = (to_lower (cePub m) = k \<longrightarrow> through)"
| "got_through k (Elsewhere rec) = True"

lemma same_seq: "\<exists>q. (w :: WireMessage) = w\<lparr>wSeq := q\<rparr>"
  by (rule exI [of _ "wSeq w"]) simp

lemma backfill_wire:
  "backfill_seq l rec = (rec', l') \<Longrightarrow>
     rcTimestamp rec' = rcTimestamp rec \<and>
     (case rcWire rec of None \<Rightarrow> rcWire rec' = None | Some w \<Rightarrow> \<exists>q. rcWire rec' = Some (w\<lparr>wSeq := q\<rparr>))"
  by (auto simp: backfill_seq_def Let_def split: if_splits option.splits prod.splits intro: same_seq)

definition booted :: "string \<Rightarrow> TripChains \<Rightarrow> ledger \<Rightarrow> boot \<Rightarrow> bool" where
  "booted pub tcs saved b \<longleftrightarrow> chat_serverPub (boServer b) = pub \<and>
     (\<forall>k. tip_view (map_of (cvTripChains (boServer b)) k) = saved k) \<and>
     (\<forall>k q h. saved k = Some (q, h) \<longrightarrow> (\<exists>c. map_of tcs k = Some c \<and> q \<le> tcSeq c)) \<and>
     (\<forall>k c. map_of tcs k = Some c \<longrightarrow> length (tcPrevHash c) = 32)"

lemma booted_same:
  "booted pub tcs saved b \<Longrightarrow> cvTripChains (boServer b') = cvTripChains (boServer b) \<Longrightarrow> cvServerID (boServer b') = cvServerID (boServer b) \<Longrightarrow>
     booted pub tcs saved b'"
  by (simp add: booted_def chat_serverPub_def)

lemma boot_parts [simp]:
  "cvTripChains (boServer (boot_append ev l b)) = cvTripChains (boServer b)" "cvServerID (boServer (boot_append ev l b)) = cvServerID (boServer b)"
  "cvTripChains (boServer (boot_reveal ev t w b)) = cvTripChains (boServer b)" "cvServerID (boServer (boot_reveal ev t w b)) = cvServerID (boServer b)"
  "cvTripChains (boServer (snd (boot_exposed ev t p b))) = cvTripChains (boServer b)"
  "cvServerID (boServer (snd (boot_exposed ev t p b))) = cvServerID (boServer b)"
  by (simp_all add: boot_append_def boot_reveal_def boot_exposed_def Let_def split: prod.split)

lemma boot_elsewhere:
  assumes "booted pub tcs saved b" "live_ok (Elsewhere rec)"
  shows "booted pub tcs saved (boot_record parseT ev rec b)"
proof -
  obtain rec' l where bf: "backfill_seq (boLastSeq b) rec = (rec', l)" by fastforce
  have "case rcWire rec' of None \<Rightarrow> True | Some w \<Rightarrow> wTrip w = None"
    using backfill_wire [OF bf] assms(2) by (auto split: option.splits)
  then show ?thesis
    by (auto simp: boot_record_def bf Let_def intro!: booted_same [OF assms(1)] split: option.split)
qed

lemma clean_idem: "hex_bytes n (clean x) = Some b \<Longrightarrow> clean x = hex_encode b"
  by (auto simp: hex_bytes_Some hex_decode_iff clean_def)

lemma trip_Verify_cong:
  assumes "clean (vpPubHex p) = clean (vpPubHex q)" "clean (vpSigHex p) = clean (vpSigHex q)" "clean (vpPrevHex p) = clean (vpPrevHex q)"
    "clean (vpMsgHashHex p) = clean (vpMsgHashHex q)" "clean (vpServerPub p) = clean (vpServerPub q)"
    "vpText p = vpText q" "vpDisplayName p = vpDisplayName q" "vpSeq p = vpSeq q" "vpTmpID p = vpTmpID q" "vpReplyTo p = vpReplyTo q"
    "vpSkipTextCheck p = vpSkipTextCheck q"
  shows "trip_Verify ed p = trip_Verify ed q"
proof -
  have "signed_payload p = signed_payload q" by (intro ext) (simp add: signed_payload_def assms)
  then show ?thesis by (simp only: trip_Verify_def assms)
qed

text \<open>The stored line of an accepted message verifies at boot and yields the live link.\<close>

lemma boot_link_accepted:
  assumes acc: "accept_signed (xEd ev) gc pub now ts m tcs = Inr (meta, t, tcs')"
    and len: "length (snd (expected_link (map_of tcs (tmPub meta)))) = 32"
    and pub: "pub = hex_encode k" "chat_serverPub s = pub"
    and w: "wText w = envelope_text m" "wDisplayName w = tsDisplayName ts"
  shows "boot_link ev s w (meta\<lparr>tmExposed := x\<rparr>) =
    Some (snd (expected_link (map_of tcs (tmPub meta))), trip_link (snd (expected_link (map_of tcs (tmPub meta)))) (signed_pair meta))"
    and "tmPub meta \<noteq> []"
proof -
  obtain res where r: "trip_Verify (xEd ev) (envelope_params (tsDisplayName ts) pub m) = Inr res"
    "tmPub meta = vtPubHex res" "tmSeq meta = vtSeq res" "tmPrev meta = vtPrevHex res" "tmSig meta = vtSigHex res"
    "tmMsgHash meta = vtMsgHash res" "tmDisplayName meta = tsDisplayName ts" "tmTmpID meta = ceTmpID m" "tmReplyTo meta = ceReplyTo m"
    using acc by (rule accept_signed_cases)
  have srv: "tmServerPub meta = vtServerPub res"
    using acc r(1) unfolding accept_signed_def Let_def by (auto split: if_splits option.splits sum.splits prod.splits)
  from r(1) obtain key sig prev msgHash where v:
    "hex_bytes 32 (clean (to_lower (cePub m))) = Some key" "hex_bytes 64 (clean (ceSig m)) = Some sig" "hex_bytes 32 (clean (cePrev m)) = Some prev"
    "res = \<lparr>vtPubHex = clean (to_lower (cePub m)), vtSeq = ceSeq m, vtPrevHex = clean (cePrev m), vtSigHex = clean (ceSig m),
       vtMsgHash = hex_encode (sha256 (envelope_text m)), vtServerPub = pub,
       vtBadge = badge_mark @ take 8 (hex_encode (sha256 key)), vtNewPrev = trip_link prev (sig, msgHash)\<rparr>"
    by (rule trip_Verify_facts) (auto simp: envelope_params_def pub(1))
  note c = v(1-3) [THEN clean_idem]
  have "trip_Verify (xEd ev) (boot_params s w (meta\<lparr>tmExposed := x\<rparr>)) = trip_Verify (xEd ev) (envelope_params (tsDisplayName ts) pub m)"
    by (rule trip_Verify_cong) (simp_all add: boot_params_def envelope_params_def r srv v(4) w pub c)
  moreover have "hex_decode (tmPrev meta) = Some prev" "hex_decode (tmSig meta) = Some sig"
    "hex_decode (tmMsgHash meta) = Some (sha256 (envelope_text m))" by (simp_all add: r v(4) c)
  moreover have "prev = snd (expected_link (map_of tcs (tmPub meta)))"
    using accept_signed_link(2) [OF acc len] by (simp add: r v(4) c hex_encode_inj)
  ultimately show "boot_link ev s w (meta\<lparr>tmExposed := x\<rparr>) =
      Some (snd (expected_link (map_of tcs (tmPub meta))), trip_link (snd (expected_link (map_of tcs (tmPub meta)))) (signed_pair meta))"
    by (simp add: boot_link_def r(1) trip_link_def signed_pair_def)
  have "length (clean (to_lower (cePub m))) = 64" using r(1) by (auto simp: envelope_params_def elim!: trip_Verify_facts)
  then show "tmPub meta \<noteq> []" by (auto simp: r v(4))
qed

text \<open>A record with a higher number than the one held is adopted, whether it continues it, forks it or leaves a gap.\<close>

lemma fold_tip_view:
  assumes "\<And>c. map_of bt pub = Some c \<Longrightarrow> tcSeq c < sq"
  shows "tip_view (map_of (fold_tip now pub sq pn bt) k) = (if k = pub then Some (sq, snd pn) else tip_view (map_of bt k))"
proof (cases "map_of bt pub")
  case None
  then show ?thesis by (simp add: fold_tip_def applyTripChain_def tip_view_def update_conv' fresh_tip_def)
next
  case (Some c)
  then have "\<not> sq \<le> tcSeq c" using assms by force
  then show ?thesis by (simp add: fold_tip_def applyTripChain_def Some tip_view_def update_conv' fresh_tip_def)
qed

lemma word_next_greater: "(x :: u32) + 1 \<noteq> 0 \<Longrightarrow> x < x + 1"
  using unatSuc [of x] by (simp add: word_less_nat_alt add.commute)

text \<open>What an accepted message does to the live table.\<close>

lemma accepted_advances:
  assumes acc: "accept_signed ed gc pub now ts m tcs = Inr (meta, t, tcs')" and seq: "ceSeq m \<noteq> 0"
    and len: "\<And>k c. map_of tcs k = Some c \<Longrightarrow> length (tcPrevHash c) = 32"
  shows "map_of tcs' k = (if k = tmPub meta then Some \<lparr>tcSeq = tmSeq meta,
      tcPrevHash = trip_link (snd (expected_link (map_of tcs (tmPub meta)))) (signed_pair meta), tcLastSeen = now\<rparr> else map_of tcs k)"
    and "map_of tcs (tmPub meta) = Some c \<Longrightarrow> tcSeq c < tmSeq meta" "length (snd (expected_link (map_of tcs (tmPub meta)))) = 32"
    and "tmPub meta = to_lower (cePub m)"
proof -
  show e: "length (snd (expected_link (map_of tcs (tmPub meta)))) = 32"
    using len by (auto simp: expected_link_def zero_hash_def split: option.split)
  note l = accept_signed_link [OF acc e] and k = accepted_key_and_seq [OF acc]
  show "map_of tcs' k = (if k = tmPub meta then Some \<lparr>tcSeq = tmSeq meta,
      tcPrevHash = trip_link (snd (expected_link (map_of tcs (tmPub meta)))) (signed_pair meta), tcLastSeen = now\<rparr> else map_of tcs k)"
    by (simp add: l(5) update_conv')
  show "tcSeq c < tmSeq meta" if "map_of tcs (tmPub meta) = Some c"
    using word_next_greater [of "tcSeq c"] l(1) k(2) seq that by (simp add: expected_link_def)
  show "tmPub meta = to_lower (cePub m)" by (rule k(1))
qed

lemma booted_dropped:
  assumes b: "booted pub tcs saved b" and acc: "accept_signed ed gc pub now ts m tcs = Inr (meta, t, tcs')" and seq: "ceSeq m \<noteq> 0"
  shows "booted pub tcs' saved b"
proof -
  have len: "\<And>k c. map_of tcs k = Some c \<Longrightarrow> length (tcPrevHash c) = 32" using b by (simp add: booted_def)
  note a = accepted_advances [OF acc seq len]
  have "\<exists>c. map_of tcs' k = Some c \<and> q \<le> tcSeq c" if sv: "saved k = Some (q, h)" for k q h
  proof -
    obtain c where "map_of tcs k = Some c" "q \<le> tcSeq c" using b sv unfolding booted_def by blast
    then show ?thesis using a(2) by (fastforce simp: a(1))
  qed
  moreover have "length (tcPrevHash c) = 32" if "map_of tcs' k = Some c" for k c
    using that len by (auto simp: a(1) trip_link_def split: if_splits)
  ultimately show ?thesis using b by (simp add: booted_def)
qed

lemma boot_said:
  assumes b: "booted pub tcs saved b" and acc: "accept_signed (xEd ev) gc pub now ts m tcs = Inr (meta, t, tcs')"
    and seq: "ceSeq m \<noteq> 0" and pub: "pub = hex_encode k"
  shows "booted pub tcs' (saved(tmPub meta := tip_view (map_of tcs' (tmPub meta)))) (boot_record parseT ev (signed_record stamp ts m meta w0 x) b)"
proof -
  let ?rec = "signed_record stamp ts m meta w0 x" and ?e = "expected_link (map_of tcs (tmPub meta))"
  have old: "\<And>k c. map_of tcs k = Some c \<Longrightarrow> length (tcPrevHash c) = 32" using b by (simp add: booted_def)
  note a = accepted_advances [OF acc seq old]
  obtain rec' l' where bf: "backfill_seq (boLastSeq b) ?rec = (rec', l')" by fastforce
  from backfill_wire [OF bf] obtain w where w: "rcWire rec' = Some w" "wText w = envelope_text m" "wDisplayName w = tsDisplayName ts"
    "wTrip w = Some (meta\<lparr>tmExposed := x\<rparr>)" "wExposedPub w = []"
    by (auto simp: signed_record_def)
  let ?b1 = "b\<lparr>boLastSeq := l'\<rparr>"
  have rv: "boot_reveal ev r w ?b1 = ?b1" for r by (simp add: boot_reveal_def is_reveal_def w(5))
  have srv: "chat_serverPub (boServer ?b1) = pub" using b by (simp add: booted_def)
  note bl = boot_link_accepted(1) [OF acc a(3) pub srv w(2,3), where x = x] boot_link_accepted(2) [OF acc a(3) pub srv w(2,3)]
  let ?tc = "fold_tip (xClk ev 1) (tmPub meta) (tmSeq meta) (snd ?e, trip_link (snd ?e) (signed_pair meta)) (cvTripChains (boServer b))"
  have chains: "cvTripChains (boServer (boot_record parseT ev ?rec b)) = ?tc" and "cvServerID (boServer (boot_record parseT ev ?rec b)) = cvServerID (boServer b)"
    using bl by (simp_all add: boot_record_def bf w recordLine_def rv Let_def case_prod_beta)
  moreover have view: "tip_view (map_of ?tc j) = (saved(tmPub meta := tip_view (map_of tcs' (tmPub meta)))) j" for j
  proof -
    have lt: "tcSeq c < tmSeq meta" if "map_of (cvTripChains (boServer b)) (tmPub meta) = Some c" for c
    proof -
      have "tip_view (map_of (cvTripChains (boServer b)) (tmPub meta)) = saved (tmPub meta)" using b by (simp add: booted_def)
      then have "saved (tmPub meta) = Some (tcSeq c, tcPrevHash c)" using that by (simp add: tip_view_def)
      then obtain d where "map_of tcs (tmPub meta) = Some d" "tcSeq c \<le> tcSeq d" using b unfolding booted_def by blast
      then show ?thesis using a(2) by fastforce
    qed
    have "tip_view (map_of (cvTripChains (boServer b)) j) = saved j" using b by (simp add: booted_def)
    then show ?thesis using fold_tip_view [OF lt, where k = j] by (simp add: a(1)) (simp add: tip_view_def)
  qed
  moreover have "booted pub tcs' saved b" using booted_dropped [OF b acc seq] .
  ultimately show ?thesis using b by (auto simp: booted_def chat_serverPub_def a(1) tip_view_def)
qed

lemma run_booted:
  assumes "fold (live_step ed gc (chat_serverPub s0)) es ([], Map.empty, []) = (tcs, saved, recs)" and "\<forall>e\<in>set es. live_ok e"
    and "cvTripChains s0 = []" "chat_serverPub s0 = hex_encode k"
    and "length evs = length recs" "\<forall>ev\<in>set evs. xEd ev = ed"
  shows "booted (chat_serverPub s0) tcs saved
    (fold (\<lambda>(ev, rec). boot_record parseT ev rec) (zip evs recs) \<lparr>boServer = s0, boLastSeq = 0, boExposedIn = []\<rparr>)"
  using assms(1,2,5,6)
proof (induction es arbitrary: tcs saved recs evs rule: rev_induct)
  case Nil
  then show ?case using assms(3) by (auto simp: booted_def tip_view_def)
next
  case (snoc e es)
  let ?pub = "chat_serverPub s0"
  obtain tcs1 saved1 recs1 where st: "fold (live_step ed gc ?pub) es ([], Map.empty, []) = (tcs1, saved1, recs1)" by (metis prod_cases3)
  have ok: "live_ok e" "\<forall>e\<in>set es. live_ok e" using snoc.prems(2) by auto
  have step: "live_step ed gc ?pub e (tcs1, saved1, recs1) = (tcs, saved, recs)" using snoc.prems(1) by (simp add: st)
  note ih = snoc.IH [OF st ok(2)]
  show ?case
  proof (cases "recs = recs1")
    case True
    note b = ih [of evs] snoc.prems(3,4) True
    show ?thesis
    proof (cases e)
      case (Said now ts m stamp w0 x through)
      then show ?thesis using step True b ok(1) booted_dropped [of ?pub tcs1 saved1 _ ed gc now ts m]
        by (auto split: sum.splits if_splits)
    qed (use step True in simp)
  next
    case False
    then obtain rec where recs: "recs = recs1 @ [rec]" using step by (cases e) (auto split: sum.splits if_splits)
    then obtain evs1 ev where evs: "evs = evs1 @ [ev]" using snoc.prems(3) by (cases evs rule: rev_cases) auto
    have ev: "xEd ev = ed" "length evs1 = length recs1" "\<forall>ev\<in>set evs1. xEd ev = ed" using snoc.prems(3,4) by (auto simp: evs recs)
    have "booted ?pub tcs saved (boot_record parseT ev rec
        (fold (\<lambda>(ev, rec). boot_record parseT ev rec) (zip evs1 recs1) \<lparr>boServer = s0, boLastSeq = 0, boExposedIn = []\<rparr>))"
    proof (cases e)
      case (Said now ts m stamp w0 x through)
      then obtain meta t where "accept_signed (xEd ev) gc ?pub now ts m tcs1 = Inr (meta, t, tcs)" "rec = signed_record stamp ts m meta w0 x"
        "saved = saved1(tmPub meta := tip_view (map_of tcs (tmPub meta)))"
        using step recs ev(1) by (auto split: sum.splits if_splits)
      then show ?thesis using boot_said [OF ih [OF ev(2,3)]] ok(1) assms(4) Said by simp
    next
      case (Elsewhere r)
      then show ?thesis using boot_elsewhere [OF ih [OF ev(2,3)]] ok(1) step recs by simp
    qed
    then show ?thesis by (simp add: evs recs ev(2))
  qed
qed

lemma through_saved:
  assumes "fold (live_step ed gc pub) es ([], Map.empty, []) = (tcs, saved, recs)" "\<forall>e\<in>set es. got_through key e"
  shows "saved key = tip_view (map_of tcs key)"
  using assms
proof (induction es arbitrary: tcs saved recs rule: rev_induct)
  case (snoc e es)
  obtain tcs1 saved1 recs1 where st: "fold (live_step ed gc pub) es ([], Map.empty, []) = (tcs1, saved1, recs1)" by (metis prod_cases3)
  have ih: "saved1 key = tip_view (map_of tcs1 key)" using snoc.IH [OF st] snoc.prems(2) by simp
  have step: "live_step ed gc pub e (tcs1, saved1, recs1) = (tcs, saved, recs)" using snoc.prems(1) by (simp add: st)
  show ?case
  proof (cases e)
    case (Said now ts m stamp w0 x through)
    show ?thesis
    proof (cases "accept_signed ed gc pub now ts m tcs1")
      case (Inr r)
      obtain meta t tcs2 where r: "r = (meta, t, tcs2)" by (cases r) auto
      obtain res :: VerifyResult where "tcs2 = AList.update (to_lower (cePub m)) \<lparr>tcSeq = ceSeq m, tcPrevHash = vtNewPrev res, tcLastSeen = now\<rparr> tcs1"
        using Inr [unfolded r] by (rule accept_signed_cases) blast
      then show ?thesis using step ih snoc.prems(2) accepted_key_and_seq(1) [OF Inr [unfolded r]]
        by (auto simp: Said Inr r update_conv' split: if_splits)
    qed (use step ih Said in simp)
  qed (use step ih in simp)
qed (simp add: tip_view_def)

text \<open>C22. Signing survives a restart: whatever sequence of signed messages (of any keys, accepted or not, stored or dropped by
  the later checks) and other lines a server has handled while it kept every chain, starting it again over the records it stored gives
  every key the sequence number and the previous hash of its last stored message. So a key none of whose accepted messages was
  dropped after the signature check has the number and hash it had before the restart, and its client continues where it was; a
  key whose last message was dropped is set back to the one before. The server's public key is hexadecimal and no sequence number has
  wrapped.\<close>

theorem restart_resumes_signed_chains:
  assumes "fold (live_step ed gc (chat_serverPub s0)) es ([], Map.empty, []) = (tcs, saved, recs)" and "\<forall>e\<in>set es. live_ok e"
    and "cvTripChains s0 = []" "chat_serverPub s0 = hex_encode k"
    and "length evs = length recs" "\<forall>ev\<in>set evs. xEd ev = ed"
  shows "tip_view (map_of (cvTripChains (InitHistoryStore parseT (zip evs recs) s0)) key) = saved key \<and>
    ((\<forall>e\<in>set es. got_through key e) \<longrightarrow>
       tip_view (map_of (cvTripChains (InitHistoryStore parseT (zip evs recs) s0)) key) = tip_view (map_of tcs key))"
  using run_booted [OF assms, of parseT] through_saved [OF assms(1), of key]
  by (simp add: InitHistoryStore_def booted_def Let_def)

subsection \<open>A restart may forget an exposed key\<close>

lemma ttl_pos: "\<not> exposedTripsTTL < 0"
  using hour_pos unfolding exposedTripsTTL_def by linarith

lemma mark_fresh:
  "0 < t0 \<Longrightarrow> markTripExposedAt srt t0 pub t0 seed [] = [(pub, \<lparr>exAt = t0, exSeed = to_lower seed\<rparr>)]"
  using ttl_pos by (simp add: markTripExposedAt_def pruneExposedTrips_def isZero_def maxExposedTrips_def Let_def)

definition reveal_record :: "string \<Rightarrow> WireMessage \<Rightarrow> historyRecord" where
  "reveal_record stamp w = zero_record\<lparr>rcTimestamp := stamp, rcWire := Some w\<rparr>"

lemma boot_old_reveal:
  assumes "cvExposed s0 = []" "parseT stamp = t0" "t0 \<noteq> 0" "exposedTripsTTL < xClk ev 0 - t0"
  shows "cvExposed (InitHistoryStore parseT [(ev, reveal_record stamp (reveal_wire env t pub badge sig seed))] s0) = []"
  using assms
  by (simp add: InitHistoryStore_def boot_record_def backfill_seq_def reveal_record_def zero_record_def reveal_wire_def noticeWire_def
      zero_wire_def recordLine_def boot_reveal_def boot_append_def markTripExposedAt_def isZero_def Let_def)

text \<open>The registry of revealed seeds is kept alive by use, but a restart rebuilds it from the stamp of the
  announcement alone: a key revealed at \<open>t0\<close> and used at \<open>t1\<close> is still flagged at \<open>t2\<close>, while a server started at \<open>t2\<close> over
  the stored announcement, more than a day old by then, no longer flags it.\<close>

theorem restart_forgets_active_exposure:
  assumes "0 < t0" "t0 < t1" "t1 \<le> t2" "t1 - t0 \<le> exposedTripsTTL" "t2 - t1 \<le> exposedTripsTTL" "exposedTripsTTL < t2 - t0"
    and "seed \<noteq> []" "cvExposed s0 = []" "parseT stamp = t0" "xClk ev 0 = t2"
  shows "fst (isTripExposedAt t2 pub t2 (snd (isTripExposedAt t1 pub t1 (markTripExposedAt srt t0 pub t0 seed [])))) \<and>
    \<not> fst (isTripExposedAt t2 pub t2
        (cvExposed (InitHistoryStore parseT [(ev, reveal_record stamp (reveal_wire env t0 pub badge sig seed))] s0)))"
proof
  have s: "to_lower seed \<noteq> []" using assms(7) by (simp add: to_lower_def)
  show "fst (isTripExposedAt t2 pub t2 (snd (isTripExposedAt t1 pub t1 (markTripExposedAt srt t0 pub t0 seed []))))"
    using assms(2-6) s by (simp add: mark_fresh [OF assms(1)] isTripExposedAt_def loadExposedEntry_def isZero_def exposedTripsTTL_def Let_def)
  have "cvExposed (InitHistoryStore parseT [(ev, reveal_record stamp (reveal_wire env t0 pub badge sig seed))] s0) = []"
    using assms by (intro boot_old_reveal [of s0 parseT stamp t0]) simp_all
  then show "\<not> fst (isTripExposedAt t2 pub t2
        (cvExposed (InitHistoryStore parseT [(ev, reveal_record stamp (reveal_wire env t0 pub badge sig seed))] s0)))"
    by (simp add: isTripExposedAt_def loadExposedEntry_def)
qed

theorem restart_resumes_signed_chains_witness:
  "\<exists>tcs saved recs. fold (live_step (\<lambda>_ _ _. True) (\<lambda>_. Ll) []) [Said 9 ex_trip_session ex_envelope [] zero_wire False True] ([], Map.empty, []) =
       (tcs, saved, recs) \<and>
     length recs = 1 \<and> tip_view (map_of (cvTripChains (InitHistoryStore (\<lambda>_. 0) (zip [ex_sv 9 ex_text 2] recs) (ex_chat_server None)))
         (hex_encode ex_key)) = tip_view (map_of tcs (hex_encode ex_key))"
proof -
  obtain meta t tcs where a: "accept_signed (\<lambda>_ _ _. True) (\<lambda>_. Ll) [] 9 ex_trip_session ex_envelope [] = Inr (meta, t, tcs)"
    using ex_signed_accepted by blast
  let ?recs = "[signed_record [] ex_trip_session ex_envelope meta zero_wire False]" and ?s = "ex_chat_server None"
  let ?saved = "Map.empty(tmPub meta := tip_view (map_of tcs (tmPub meta)))"
  have p: "chat_serverPub ?s = []" by (simp add: chat_serverPub_def ex_chat_server_def)
  have f: "fold (live_step (\<lambda>_ _ _. True) (\<lambda>_. Ll) (chat_serverPub ?s)) [Said 9 ex_trip_session ex_envelope [] zero_wire False True] ([], Map.empty, []) =
      (tcs, ?saved, ?recs)"
    unfolding p by (simp only: fold_simps id_apply live_step.simps a sum.case prod.case append_Nil if_True)
  have "tip_view (map_of (cvTripChains (InitHistoryStore (\<lambda>_. 0) (zip [ex_sv 9 ex_text 2] ?recs) ?s)) (hex_encode ex_key)) =
      tip_view (map_of tcs (hex_encode ex_key))"
    by (rule conjunct2 [OF restart_resumes_signed_chains [OF f, where k = "[]"], THEN mp]) (simp_all add: p ex_envelope_def)
  then show ?thesis using f unfolding p by (intro exI [of _ tcs] exI [of _ ?saved] exI [of _ ?recs]) simp
qed

theorem restart_forgets_active_exposure_witness:
  "fst (isTripExposedAt (2 * exposedTripsTTL) ''ab'' (2 * exposedTripsTTL)
      (snd (isTripExposedAt exposedTripsTTL ''ab'' exposedTripsTTL (markTripExposedAt (\<lambda>x. x) 1 ''ab'' 1 ''cd'' [])))) \<and>
   \<not> fst (isTripExposedAt (2 * exposedTripsTTL) ''ab'' (2 * exposedTripsTTL)
      (cvExposed (InitHistoryStore (\<lambda>_. 1) [(ex_sv (2 * exposedTripsTTL) ex_text 2,
         reveal_record [] (reveal_wire (henv (ex_sv 1 ex_text 2)) 1 ''ab'' [] [] ''cd''))] (ex_chat_server None))))"
  by (rule restart_forgets_active_exposure)
     (simp_all add: exposedTripsTTL_def hour_def minute_def second_def ex_chat_server_def)

end
