(* ===== verification/Scheduler.thy ===== *)
theory Scheduler
  imports Session_Laws
begin

text \<open>
  The behaviour scheduler of \<^verbatim>\<open>src/server/powscreen.go\<close>: every tick scores the sessions that are due, issues challenges,
  settles the overdue ones, prunes the profiles and takes the statistics. Writing the two files is not modelled. The
  iteration orders of the client map and of the challenge map are arguments, the reading and the random bytes of
  the \<open>n\<close>-th session are those of index \<open>n\<close>. The policy's tier list is as long as its tier count (\<open>Abuse_Load\<close>), so the
  index of a tier that passes the guard is in range.
\<close>

record tick_env =
  tkNet :: net_lib
  tkGeo :: "(string \<Rightarrow> GeoInfo option) option"
  tkHour :: "time \<Rightarrow> int"
  tkConns :: "conn list"
  tkScreens :: "conn list"

definition randRecheck :: "bytes option \<Rightarrow> BehaviorConfig \<Rightarrow> duration" where
  "randRecheck r bc =
     (if bcRecheckMax bc \<le> bcRecheckMin bc then bcRecheckMin bc
      else bcRecheckMin bc + randInt63n r (bcRecheckMax bc - bcRecheckMin bc))"

definition screen_text :: "int \<Rightarrow> string" where
  "screen_text tier = ''M'' @ encode_runes [0xE1] @ ''y ch'' @ encode_runes [0x1EE7] @ '' y'' @ encode_runes [0xEA] @ ''u c'' @ encode_runes [0x1EA7] @ ''u x'' @ encode_runes [0xE1] @ ''c minh ch'' @ encode_runes [0x1ED1] @ ''ng spam (m'' @ encode_runes [0x1EE9] @ ''c PoW '' @ dec_int tier @
     ''). Client '' @ encode_runes [0x111] @ ''ang gi'' @ encode_runes [0x1EA3] @ ''i n'' @ encode_runes [0x1EC1] @ ''n, c'' @ encode_runes [0xF3] @ '' th'' @ encode_runes [0x1EC3] @ '' '' @ encode_runes [0x111, 0x1A1] @ '' t'' @ encode_runes [0x1EA1] @ ''m th'' @ encode_runes [0x1EDD] @ ''i '' @ encode_runes [0x2014] @ '' '' @ encode_runes [0x111, 0xE2] @ ''y l'' @ encode_runes [0xE0] @ '' ho'' @ encode_runes [0x1EA1] @ ''t '' @ encode_runes [0x111, 0x1ED9] @ ''ng b'' @ encode_runes [0xEC] @ ''nh th'' @ encode_runes [0x1B0, 0x1EDD] @ ''ng, kh'' @ encode_runes [0xF4] @ ''ng ph'' @ encode_runes [0x1EA3] @ ''i l'' @ encode_runes [0x1ED7] @ ''i.''"

definition screen_salt :: "string \<Rightarrow> string \<Rightarrow> string \<Rightarrow> string" where
  "screen_salt srvPub ip i = ''chat|'' @ srvPub @ ''|'' @ ip @ ''|'' @ i"

definition chat_offer_sig :: "sv_env \<Rightarrow> Offer \<Rightarrow> ChatServer \<Rightarrow> string" where
  "chat_offer_sig ev f s =
     (case cvServerID s of
        None \<Rightarrow> []
      | Some (pub, priv) \<Rightarrow>
          (case hex_decode priv of
             None \<Rightarrow> []
           | Some k \<Rightarrow> if length k = 64 then hex_encode (SignOffer (xSign ev) k f) else []))"

definition issueScreenChallenge ::
  "sv_env \<Rightarrow> nat \<Rightarrow> ClientSession \<Rightarrow> string \<Rightarrow> int \<Rightarrow> time \<Rightarrow> AbuseConfig \<Rightarrow> ChatServer \<Rightarrow> ChatServer" where
  "issueScreenChallenge ev n ses ip tier now a s =
     (let preset = fst (Clamp (preset_of (acPowTiers a ! nat tier)) (sePlatform ses = ''web'')) in
      case randHex (xRand ev (2 * n + 1)) of
        None \<Rightarrow> s
      | Some i \<Rightarrow>
          (let srvPub = chat_serverPub s;
               salt = screen_salt srvPub ip i;
               deadline = now + acScreenDeadline a;
               s1 = on_screener (screen_Issue (seConn ses) ip tier preset salt i deadline) s;
               s2 = s1\<lparr>cvHub := unicastNoticeTier (henv ev) (xClk ev (n + 1)) (seConn ses) (tl system_mark @ screen_text tier) tier
                        [TagPowScreen] (cvHub s1)\<rparr>;
               f = \<lparr>ofTier = tier, ofPreset = preset, ofSalt = salt, ofExpires = unix_seconds deadline, ofChallengeID = i\<rparr>
           in s2\<lparr>cvHub := unicastData (seConn ses) (OfferFrame
                 \<lparr>poType = ''pow_offer'', poTier = tier, poT = psTime preset, poM = psMemory preset, poP = psThreads preset,
                  poDifficulty = psDifficulty preset, poSalt = salt, poExpires = unix_seconds deadline, poChallengeID = i,
                  poOfferSig = chat_offer_sig ev f s, poServerPub = srvPub\<rparr>) (cvHub s2)\<rparr>))"

text \<open>One session of the sweep: \<open>n\<close> counts the sessions visited.\<close>

definition tick_session ::
  "sv_env \<Rightarrow> tick_env \<Rightarrow> time \<Rightarrow> AbuseConfig \<Rightarrow> BehaviorConfig \<Rightarrow> bool \<Rightarrow> nat \<Rightarrow> ClientSession \<Rightarrow> ChatServer \<Rightarrow> ChatServer" where
  "tick_session ev tk now a bc under_attack n ses s =
     (case (cvScreener s, cvBehavior s) of
        (Some sc, Some e) \<Rightarrow>
          if seIP ses = [] \<or> \<not> screen_Due (seIP ses) now sc then s
          else (let ip = seIP ses; maxTier = acPowTierCount a - 1;
                    s1 = s\<lparr>cvScreener := Some (screen_Defer ip (now + randRecheck (xRand ev (2 * n)) bc) sc)\<rparr>;
                    ((tier0, sco), e1) = Score (tkNet tk) (tkGeo tk) (tkHour tk) (xOrder ev n) ip bc now e;
                    s2 = s1\<lparr>cvBehavior := Some e1\<rparr>;
                    tier = (case cvAttack s of
                              Some att \<Rightarrow> if under_attack then ApplyBump tier0 (Scale att) (bcBumpMax bc) maxTier else tier0
                            | None \<Rightarrow> tier0)
                in if tier < 1 \<or> tier > maxTier \<or> screen_Has (seConn ses) sc then s2
                   else issueScreenChallenge ev n ses ip tier now a s2)
      | _ \<Rightarrow> s)"

fun tick_sessions ::
  "sv_env \<Rightarrow> tick_env \<Rightarrow> time \<Rightarrow> AbuseConfig \<Rightarrow> BehaviorConfig \<Rightarrow> bool \<Rightarrow> nat \<Rightarrow> ClientSession list \<Rightarrow> ChatServer \<Rightarrow> ChatServer" where
  "tick_sessions ev tk now a bc u n [] s = s"
| "tick_sessions ev tk now a bc u n (x # xs) s = tick_sessions ev tk now a bc u (n + 1) xs (tick_session ev tk now a bc u n x s)"

definition overdue_text :: string where
  "overdue_text = ''Qu'' @ encode_runes [0xE1] @ '' h'' @ encode_runes [0x1EA1] @ ''n x'' @ encode_runes [0xE1] @ ''c minh, chat t'' @ encode_runes [0x1EA1] @ ''m d'' @ encode_runes [0x1EEB] @ ''ng cho t'' @ encode_runes [0x1EDB] @ ''i khi b'' @ encode_runes [0x1EA1] @ ''n ho'' @ encode_runes [0xE0] @ ''n th'' @ encode_runes [0xE0] @ ''nh th'' @ encode_runes [0x1EED] @ '' th'' @ encode_runes [0xE1] @ ''ch PoW m'' @ encode_runes [0x1EDB] @ ''i.''"

definition tick_mute :: "sv_env \<Rightarrow> (conn \<times> ClientSession) list \<Rightarrow> conn \<Rightarrow> ChatServer \<Rightarrow> ChatServer" where
  "tick_mute ev byConn c s =
     (case map_of byConn c of
        None \<Rightarrow> s
      | Some ses \<Rightarrow> say ev 1 ses overdue_text TagPowScreen (observeChallenge ev 0 (seIP ses) s))"

definition tick_kick :: "sv_env \<Rightarrow> (conn \<times> ClientSession) list \<Rightarrow> conn \<Rightarrow> ChatServer \<Rightarrow> ChatServer" where
  "tick_kick ev byConn c s =
     (case map_of byConn c of
        None \<Rightarrow> s
      | Some ses \<Rightarrow>
          (let s1 = observeChallenge ev 0 (seIP ses) s
           in s1\<lparr>cvHub := unregisterClient (henv ev) (xClk ev 1) (xClk ev 2) (xClk ev 3) ses (cvHub s1)\<rparr>))"

definition behaviorSaveInterval :: duration where "behaviorSaveInterval = 5 * minute"
definition behaviorTickInterval :: duration where "behaviorTickInterval = 30 * second"

text \<open>The retention map indexes the list of the policy; its default is the entry of tier zero.\<close>

definition tick_save :: "time \<Rightarrow> BehaviorConfig \<Rightarrow> time \<times> ChatServer \<Rightarrow> time \<times> ChatServer" where
  "tick_save now bc st =
     (let (lastSave, s) = st; ret = (\<lambda>n. if 0 \<le> n \<and> nat n < length (bcRetention bc) then Some (bcRetention bc ! nat n) else None) in
      if now - lastSave \<ge> behaviorSaveInterval
      then (now, if length (bcRetention bc) > 0 then on_behavior (engine_Prune now ret (bcRetention bc ! 0)) s else s)
      else st)"

text \<open>A statistics path is always set: the profile file with a suffix.\<close>

definition SnapshotStats :: "BehaviorEngine \<Rightarrow> BehaviorEngine" where
  "SnapshotStats e = e\<lparr>beStats := map_option (snd \<circ> SnapshotAndReset) (beStats e)\<rparr>"

definition tick_stats :: "time \<Rightarrow> BehaviorConfig \<Rightarrow> time \<times> ChatServer \<Rightarrow> time \<times> ChatServer" where
  "tick_stats now bc st =
     (let (lastStats, s) = st in
      if bcStatsEnabled bc \<and> now - lastStats \<ge> bcStatsWindow bc then (now, on_behavior SnapshotStats s) else st)"

definition behaviorTick ::
  "sv_env \<Rightarrow> tick_env \<Rightarrow> time \<Rightarrow> (time \<times> time) \<times> ChatServer \<Rightarrow> (time \<times> time) \<times> ChatServer" where
  "behaviorTick ev tk now st =
     (let ((lastSave, lastStats), s) = st in
      case (xAbuse ev, cvBehavior s, cvScreener s) of
        (Some a, Some e, Some sc) \<Rightarrow>
          (case acBehavior a of
             None \<Rightarrow> st
           | Some bc \<Rightarrow>
               (let byConn = hbClients (cvHub s);
                    sessions = List.map_filter (map_of byConn) (tkConns tk);
                    u = (case cvAttack s of Some att \<Rightarrow> IsUnderAttack (xClk ev 0) att | None \<Rightarrow> False);
                    s1 = tick_sessions ev tk now a bc u 0 sessions s;
                    ((kick, mute), sc1) = CheckDeadline now u (tkScreens tk) (the (cvScreener s1));
                    s2 = s1\<lparr>cvScreener := Some sc1\<rparr>;
                    s3 = fold (tick_kick ev byConn) kick (fold (tick_mute ev byConn) mute s2);
                    (lastSave', s4) = tick_save now bc (lastSave, s3);
                    (lastStats', s5) = tick_stats now bc (lastStats, s4)
                in ((lastSave', lastStats'), s5)))
      | _ \<Rightarrow> st)"

subsection \<open>What a tick does to the screener\<close>

text \<open>The operations a tick may apply: timers, and challenges with an allowed tier, a clamped preset, the salt of this
  server, client and id, and the deadline of the policy.\<close>

definition tick_op :: "AbuseConfig \<Rightarrow> string \<Rightarrow> time \<Rightarrow> screen_op \<Rightarrow> bool" where
  "tick_op a srvPub now op \<longleftrightarrow>
     (\<exists>ip t. op = OpDefer ip t) \<or>
     (\<exists>c ip tier preset i. op = OpIssue c ip tier preset (screen_salt srvPub ip i) i (now + acScreenDeadline a) \<and>
        1 \<le> tier \<and> tier < acPowTierCount a \<and> in_envelope False preset)"

lemma Clamp_in: "in_envelope False (fst (Clamp p wasm))"
  by (auto simp: in_envelope_def Clamp_def clamp_set_def Let_def preset_bounds split: if_splits prod.splits)

lemma issue_fields:
  "cvBehavior (issueScreenChallenge ev n ses ip tier now a s) = cvBehavior s"
  "cvServerID (issueScreenChallenge ev n ses ip tier now a s) = cvServerID s"
  by (simp_all add: issueScreenChallenge_def on_screener_def Let_def split: option.split)

lemma issue_screener:
  assumes "cvScreener s = Some sc" "1 \<le> tier" "tier < acPowTierCount a"
  shows "\<exists>ops. cvScreener (issueScreenChallenge ev n ses ip tier now a s) = Some (fold (screen_step argon) ops sc) \<and>
    list_all (tick_op a (chat_serverPub s) now) ops"
proof (cases "randHex (xRand ev (2 * n + 1))")
  case None
  then show ?thesis using assms(1) by (intro exI [of _ "[]"]) (simp add: issueScreenChallenge_def)
next
  case (Some i)
  let ?p = "fst (Clamp (preset_of (acPowTiers a ! nat tier)) (sePlatform ses = ''web''))"
  have "tick_op a (chat_serverPub s) now (OpIssue (seConn ses) ip tier ?p (screen_salt (chat_serverPub s) ip i) i (now + acScreenDeadline a))"
    using assms(2,3) Clamp_in by (auto simp: tick_op_def)
  then show ?thesis using assms(1) Some
    by (intro exI [of _ "[OpIssue (seConn ses) ip tier ?p (screen_salt (chat_serverPub s) ip i) i (now + acScreenDeadline a)]"])
       (simp add: issueScreenChallenge_def on_screener_def Let_def)
qed

lemma tick_session_screener:
  assumes "cvScreener s = Some sc" "cvBehavior s = Some e"
  shows "\<exists>ops e'. cvScreener (tick_session ev tk now a bc u n ses s) = Some (fold (screen_step argon) ops sc) \<and>
    list_all (tick_op a (chat_serverPub s) now) ops \<and> cvBehavior (tick_session ev tk now a bc u n ses s) = Some e' \<and>
    cvServerID (tick_session ev tk now a bc u n ses s) = cvServerID s"
proof (cases "seIP ses = [] \<or> \<not> screen_Due (seIP ses) now sc")
  case True
  then show ?thesis using assms by (intro exI [of _ "[]"]) (auto simp: tick_session_def)
next
  case False
  obtain tier0 sco e1 where sc: "Score (tkNet tk) (tkGeo tk) (tkHour tk) (xOrder ev n) (seIP ses) bc now e = ((tier0, sco), e1)"
    by (metis prod.collapse)
  define tier where "tier = (case cvAttack s of
      Some att \<Rightarrow> if u then ApplyBump tier0 (Scale att) (bcBumpMax bc) (acPowTierCount a - 1) else tier0 | None \<Rightarrow> tier0)"
  let ?d = "OpDefer (seIP ses) (now + randRecheck (xRand ev (2 * n)) bc)"
  define s2 where "s2 = s\<lparr>cvScreener := Some (screen_step argon ?d sc), cvBehavior := Some e1\<rparr>"
  have t: "tick_session ev tk now a bc u n ses s =
      (if tier < 1 \<or> tier > acPowTierCount a - 1 \<or> screen_Has (seConn ses) sc then s2
       else issueScreenChallenge ev n ses (seIP ses) tier now a s2)"
    using False by (simp add: tick_session_def assms sc tier_def s2_def Let_def)
  have s2: "cvScreener s2 = Some (screen_step argon ?d sc)" "cvBehavior s2 = Some e1" "cvServerID s2 = cvServerID s"
    "chat_serverPub s2 = chat_serverPub s"
    by (simp_all add: s2_def chat_serverPub_def)
  have d: "tick_op a (chat_serverPub s) now ?d" by (simp add: tick_op_def)
  show ?thesis
  proof (cases "tier < 1 \<or> tier > acPowTierCount a - 1 \<or> screen_Has (seConn ses) sc")
    case True
    then show ?thesis using d s2 by (intro exI [of _ "[?d]"]) (simp add: t)
  next
    case False
    with issue_screener [OF s2(1), where tier = tier and a = a and argon = argon and ev = ev and n = n and ses = ses and ip = "seIP ses" and now = now] obtain ops where
      "cvScreener (issueScreenChallenge ev n ses (seIP ses) tier now a s2) = Some (fold (screen_step argon) ops (screen_step argon ?d sc))"
      "list_all (tick_op a (chat_serverPub s) now) ops" by (auto simp: s2(4))
    then show ?thesis using False d s2 by (intro exI [of _ "?d # ops"]) (simp add: t issue_fields)
  qed
qed

lemma tick_sessions_screener:
  assumes "cvScreener s = Some sc" "cvBehavior s = Some e"
  shows "\<exists>ops. cvScreener (tick_sessions ev tk now a bc u n xs s) = Some (fold (screen_step argon) ops sc) \<and>
    list_all (tick_op a (chat_serverPub s) now) ops"
  using assms
proof (induction xs arbitrary: n s sc e)
  case Nil
  then show ?case by (intro exI [of _ "[]"]) simp
next
  case (Cons x xs)
  from tick_session_screener [OF Cons.prems, where ev = ev and tk = tk and now = now and a = a and bc = bc and u = u and n = n and ses = x and argon = argon] obtain ops e' where
    1: "cvScreener (tick_session ev tk now a bc u n x s) = Some (fold (screen_step argon) ops sc)"
      "list_all (tick_op a (chat_serverPub s) now) ops" "cvBehavior (tick_session ev tk now a bc u n x s) = Some e'"
      "cvServerID (tick_session ev tk now a bc u n x s) = cvServerID s" by blast
  from Cons.IH [OF 1(1,3)] obtain ops' where
    "cvScreener (tick_sessions ev tk now a bc u (n + 1) xs (tick_session ev tk now a bc u n x s)) =
       Some (fold (screen_step argon) ops' (fold (screen_step argon) ops sc))"
    "list_all (tick_op a (chat_serverPub s) now) ops'" using 1(4) by (auto simp: chat_serverPub_def)
  then show ?case using 1(2) by (intro exI [of _ "ops @ ops'"]) simp
qed

lemma settle_fields: "cvScreener (fold (tick_kick ev bc) ks (fold (tick_mute ev bc) ms s)) = cvScreener s"
proof -
  have m: "cvScreener (fold (tick_mute ev bc) ms s) = cvScreener s" for s
    by (induction ms arbitrary: s) (auto simp: tick_mute_def observe_defs on_behavior_def split: option.split)
  have "cvScreener (fold (tick_kick ev bc) ks s) = cvScreener s" for s
    by (induction ks arbitrary: s) (auto simp: tick_kick_def observe_defs on_behavior_def Let_def split: option.split)
  then show ?thesis using m by simp
qed

lemma save_stats_fields:
  "cvScreener (snd (tick_save now bc st)) = cvScreener (snd st)" "cvScreener (snd (tick_stats now bc st)) = cvScreener (snd st)"
  by (simp_all add: tick_save_def tick_stats_def on_behavior_def Let_def split: prod.split)

text \<open>A scheduler tick is a run of the screener's operations: for whatever sessions, scores and attack state, it
  applies timers and challenges and then one settlement of the deadlines. Every challenge has a tier of the policy above zero,
  a preset within the clamp, the salt of this server, this client and its own id, and exactly the policy's deadline. So what is proved of
  runs of the screener holds of the server that ticks.\<close>

theorem tick_is_screener_run:
  assumes "xAbuse ev = Some a" "acBehavior a = Some bc" "cvBehavior s = Some e" "cvScreener s = Some sc"
  shows "\<exists>ops u. cvScreener (snd (behaviorTick ev tk now ((t1, t2), s))) =
      Some (fold (screen_step argon) (ops @ [OpDeadline now u (tkScreens tk)]) sc) \<and>
    list_all (tick_op a (chat_serverPub s) now) ops"
proof -
  let ?u = "case cvAttack s of Some att \<Rightarrow> IsUnderAttack (xClk ev 0) att | None \<Rightarrow> False"
  let ?xs = "List.map_filter (map_of (hbClients (cvHub s))) (tkConns tk)"
  obtain ops where o: "cvScreener (tick_sessions ev tk now a bc ?u 0 ?xs s) = Some (fold (screen_step argon) ops sc)"
    "list_all (tick_op a (chat_serverPub s) now) ops"
    using tick_sessions_screener [OF assms(4,3), where ev = ev and tk = tk and now = now and a = a and bc = bc and u = ?u and n = 0 and xs = ?xs and argon = argon] by blast
  have "cvScreener (snd (behaviorTick ev tk now ((t1, t2), s))) = Some (snd (CheckDeadline now ?u (tkScreens tk) (fold (screen_step argon) ops sc)))"
    by (simp add: behaviorTick_def assms o(1) Let_def case_prod_beta save_stats_fields settle_fields)
  then show ?thesis using o(2) by (intro exI [of _ ops] exI [of _ ?u]) simp
qed

definition ex_behavior :: BehaviorConfig where
  "ex_behavior = \<lparr>bcCurveGamma = 1, bcWindowShort = minute, bcWindowLong = hour, bcGapWindow = hour, bcNightStart = 0, bcNightEnd = 0,
     bcIdentityVals = Map.empty, bcFeatures = [], bcGroupBetaIP = 0, bcGroupBeta48 = 0, bcGroupBetaASN = 0, bcGroupBetaCT = 0,
     bcGroupMinMemb = 2, bcTierEnter = [0, 1], bcTierExit = [0, 1], bcSlowmodeMult = [1, 1], bcRecheckMin = minute, bcRecheckMax = minute,
     bcScoreEveryNMsgs = 0, bcScaleMode = ''max'', bcScaleW = [1, 1, 1, 1], bcBumpMax = 0, bcRetention = [hour], bcStatsEnabled = False,
     bcStatsWindow = hour\<rparr>"

definition ex_abuse :: AbuseConfig where
  "ex_abuse = \<lparr>acMaxTotalConnections = 100, acAttackEnterSecs = second, acAttackEnterRPS = 1, acUnderAttackTTL = minute, acUnderAttackForce = [],
     acPowFirstConnect = ''off'', acPowGateTier = 0, acPowTierCount = 2, acPowTiers = [\<lparr>ptT = 0, ptM = 0, ptP = 0, ptDifficulty = 0, ptEstMs = 0\<rparr>, \<lparr>ptT = 1, ptM = 8192, ptP = 1, ptDifficulty = 1, ptEstMs = 0\<rparr>],
     acPowTTL = minute, acJoinWaitMin = 0, acJoinWaitMax = 0, acScreenDeadline = minute, acGateHTTPEnabled = False, acGateHTTPClasses = [],
     acGateHTTPMode = [], acGateHTTPTierMin = 0, acPassTTL = minute, acPassSingleUse = False, acBehavior = Some ex_behavior,
     acPairMaxPending = 1, acSoftCapRatio = 1\<rparr>"

definition ex_tick :: tick_env where
  "ex_tick = \<lparr>tkNet = \<lparr>parseIP = (\<lambda>_. None), ipString = (\<lambda>_. [])\<rparr>, tkGeo = None, tkHour = (\<lambda>_. 0), tkConns = [7], tkScreens = [7]\<rparr>"

theorem tick_is_screener_run_witness:
  "let s = (ex_chat_server (Some NewPowScreener))\<lparr>cvBehavior := Some (NewBehaviorEngine (NewStore 9) None)\<rparr>;
       ev = (ex_sv 9 ex_text 2)\<lparr>xAbuse := Some ex_abuse\<rparr>
   in \<exists>ops u. cvScreener (snd (behaviorTick ev ex_tick 9 ((0, 0), s))) =
        Some (fold (screen_step ex_argon) (ops @ [OpDeadline 9 u [7]]) NewPowScreener) \<and>
      list_all (tick_op ex_abuse [] 9) ops"
  using tick_is_screener_run [of "(ex_sv 9 ex_text 2)\<lparr>xAbuse := Some ex_abuse\<rparr>" ex_abuse ex_behavior
      "(ex_chat_server (Some NewPowScreener))\<lparr>cvBehavior := Some (NewBehaviorEngine (NewStore 9) None)\<rparr>"
      "NewBehaviorEngine (NewStore 9) None" NewPowScreener ex_tick 9 0 0 ex_argon]
  by (simp add: ex_abuse_def ex_tick_def ex_chat_server_def chat_serverPub_def)

end
