(* ===== verification/Client_View.thy ===== *)
theory Client_View
  imports Wire
begin

text \<open>
  The buffers the terminal client paints from: \<^verbatim>\<open>src/client/entry.go\<close> (one message, one
  entry), \<^verbatim>\<open>src/client/tabs.go\<close> (the capped tab buffers), and the two first-in
  first-out indexes of \<^verbatim>\<open>src/client/chainmeta.go\<close>, the wires by chain height and the
  rendered blocks by cache key. Shown here: which entries an eviction keeps, that the
  byte account of a buffer is exact under every operation but one, by how much
  \<open>replaceSlot\<close> falsifies it, and what a bounded index still answers after any run of
  insertions.
\<close>

subsection \<open>Entries\<close>

datatype entry_kind = kindChat | kindMine | kindLocal | kindNotice | kindSystem

record entry_fields =
  enQuote :: string
  enHeader :: string
  enBody :: string
  enHeight :: u64
  enHashHex :: string
  enCollapsed :: bool
  enBanner :: bool
  enDay :: string
  enStatus :: bool
  enKind :: entry_kind
  enQuoteKind :: int
  enMuted :: bool

text \<open>
  The struct with its one pointer, \<open>quoteEntry\<close>: the address makes Go's struct equality,
  which compares the pointer, equality of values.
\<close>

datatype entry = Entry (ent: entry_fields) (quoteEntry: "(nat \<times> entry) option")

definition zero_fields :: entry_fields where
  "zero_fields = \<lparr>enQuote = [], enHeader = [], enBody = [], enHeight = 0, enHashHex = [],
     enCollapsed = False, enBanner = False, enDay = [], enStatus = False, enKind = kindChat,
     enQuoteKind = 0, enMuted = False\<rparr>"

definition rightAligned :: "entry \<Rightarrow> bool" where
  "rightAligned e \<longleftrightarrow> enKind (ent e) = kindMine \<or> enKind (ent e) = kindLocal"

text \<open>\<open>strings.TrimRight(s, "\n")\<close> and \<open>strings.TrimSuffix(s, "\n")\<close>.\<close>

definition trim_newlines :: "string \<Rightarrow> string" where
  "trim_newlines s = rev (dropWhile (\<lambda>c. c = CHR 0x0A) (rev s))"

definition trim_newline :: "string \<Rightarrow> string" where
  "trim_newline s = (if s \<noteq> [] \<and> last s = CHR 0x0A then butlast s else s)"

definition row :: "string \<Rightarrow> string" where
  "row part = (if part = [] then [] else part @ [CHR 0x0A])"

fun entry_text :: "entry \<Rightarrow> string" where
  "entry_text (Entry d q) =
     (let quoted = (case q of None \<Rightarrow> [] | Some (a, e) \<Rightarrow> trim_newlines (entry_text e) @ [CHR 0x0A]);
          s = quoted @ row (enQuote d) @ row (enHeader d) @ row (enBody d)
      in if s = [] then [] else s @ [CHR 0x0A])"

text \<open>\<open>strings.HasPrefix\<close> of the lowered hash, and the lookup an entry answers.\<close>

definition starts_with :: "string \<Rightarrow> string \<Rightarrow> bool" where
  "starts_with s p \<longleftrightarrow> take (length p) s = p"

definition matchesHeight :: "u64 \<Rightarrow> string \<Rightarrow> entry \<Rightarrow> bool" where
  "matchesHeight h hashPrefix e \<longleftrightarrow>
     \<not> (enHeight (ent e) = 0 \<or> enHeight (ent e) \<noteq> h)
     \<and> (hashPrefix = [] \<or> starts_with (to_lower (enHashHex (ent e))) (to_lower hashPrefix))"

fun index_where :: "('a \<Rightarrow> bool) \<Rightarrow> nat \<Rightarrow> 'a list \<Rightarrow> nat option" where
  "index_where P i [] = None"
| "index_where P i (x # xs) = (if P x then Some i else index_where P (Suc i) xs)"

definition entryIndexByHeight :: "entry list \<Rightarrow> u64 \<Rightarrow> string \<Rightarrow> nat option" where
  "entryIndexByHeight lines h hashPrefix = index_where (matchesHeight h hashPrefix) 0 lines"

definition metaHeightIndex :: "entry list \<Rightarrow> u64 \<Rightarrow> nat option" where
  "metaHeightIndex lines h = map_option Suc (entryIndexByHeight lines h [])"

definition collapsedIndex :: "entry list \<Rightarrow> u64 \<Rightarrow> nat option" where
  "collapsedIndex lines h =
     index_where (\<lambda>e. enCollapsed (ent e) \<and> enHeight (ent e) = h) 0 lines"

subsection \<open>Tab buffers\<close>

record tabBuffer =
  tbLines :: "entry list"
  tbSize :: int
  tbMaxLines :: int
  tbMaxBytes :: int

definition newTabBuffer :: "int \<Rightarrow> int \<Rightarrow> tabBuffer" where
  "newTabBuffer maxLines maxBytes =
     \<lparr>tbLines = [], tbSize = 0, tbMaxLines = (if maxLines \<le> 0 then 10000 else maxLines),
      tbMaxBytes = (if maxBytes \<le> 0 then 2097152 else maxBytes)\<rparr>"

definition entry_len :: "entry \<Rightarrow> int" where
  "entry_len e = int (length (entry_text e))"

fun evict_loop :: "int \<Rightarrow> int \<Rightarrow> entry list \<Rightarrow> int \<Rightarrow> entry list \<times> int" where
  "evict_loop maxLines maxBytes [] total_n = ([], total_n)"
| "evict_loop maxLines maxBytes (e # es) total_n =
     (if int (length (e # es)) > maxLines \<or> total_n > maxBytes
      then evict_loop maxLines maxBytes es (total_n - entry_len e)
      else (e # es, total_n))"

definition tab_evict :: "tabBuffer \<Rightarrow> tabBuffer" where
  "tab_evict b = (let (ls, n) = evict_loop (tbMaxLines b) (tbMaxBytes b) (tbLines b) (tbSize b)
     in b\<lparr>tbLines := ls, tbSize := n\<rparr>)"

definition tab_append :: "entry \<Rightarrow> tabBuffer \<Rightarrow> tabBuffer" where
  "tab_append e b = tab_evict (b\<lparr>tbLines := tbLines b @ [e], tbSize := tbSize b + entry_len e\<rparr>)"

definition tab_reset :: "tabBuffer \<Rightarrow> tabBuffer" where
  "tab_reset b = b\<lparr>tbLines := [], tbSize := 0\<rparr>"

definition spliceOut :: "int \<Rightarrow> int \<Rightarrow> tabBuffer \<Rightarrow> tabBuffer" where
  "spliceOut start stop b =
     (let s = (if start < 0 then 0 else start);
          e = (if stop > int (length (tbLines b)) then int (length (tbLines b)) else stop)
      in if s \<ge> e then b
         else b\<lparr>tbLines := take (nat s) (tbLines b) @ drop (nat e) (tbLines b),
                tbSize := tbSize b - sum_list (map entry_len (drop (nat s) (take (nat e) (tbLines b))))\<rparr>)"

definition insertAt :: "int \<Rightarrow> entry list \<Rightarrow> tabBuffer \<Rightarrow> tabBuffer" where
  "insertAt idx block b =
     (if block = [] then b
      else let i = (if idx < 0 then 0 else if idx > int (length (tbLines b)) then int (length (tbLines b)) else idx)
        in tab_evict (b\<lparr>tbLines := take (nat i) (tbLines b) @ block @ drop (nat i) (tbLines b),
                   tbSize := tbSize b + sum_list (map entry_len block)\<rparr>))"

text \<open>A placeholder's claim on one buffer row (\<open>slotRef\<close>), and the in-place replacement.\<close>

record slotRef =
  slIndex :: int
  slEntry :: entry

definition slot_held :: "slotRef \<Rightarrow> entry list \<Rightarrow> bool" where
  "slot_held slot lines \<longleftrightarrow>
     \<not> (slIndex slot < 0 \<or> slIndex slot \<ge> int (length lines)) \<and> lines ! nat (slIndex slot) = slEntry slot"

definition replaceSlot :: "slotRef \<Rightarrow> entry \<Rightarrow> tabBuffer \<Rightarrow> (tabBuffer \<times> bool)" where
  "replaceSlot slot e b =
     (if \<not> slot_held slot (tbLines b) then (b, False)
      else (b\<lparr>tbLines := (tbLines b)[nat (slIndex slot) := e]\<rparr>, True))"

text \<open>Where an older window is spliced in: the first entry that has a chain position.\<close>

definition olderAnchor :: "tabBuffer \<Rightarrow> nat" where
  "olderAnchor b =
     (case index_where (\<lambda>e. enHeight (ent e) > 0 \<or> enBanner (ent e)) 0 (tbLines b) of
        Some i \<Rightarrow> i | None \<Rightarrow> 0)"

subsection \<open>First-in first-out indexes\<close>

text \<open>
  The eviction loop both indexes share, written twice in the source:
  \<open>for len(order) > cap { delete(items, order[0]); order = order[1:] }\<close>.
\<close>

fun fifo_trim :: "int \<Rightarrow> 'k list \<Rightarrow> ('k \<rightharpoonup> 'v) \<Rightarrow> 'k list \<times> ('k \<rightharpoonup> 'v)" where
  "fifo_trim cap [] items = ([], items)"
| "fifo_trim cap (k # ks) items =
     (if int (length (k # ks)) > cap then fifo_trim cap ks (items(k := None)) else (k # ks, items))"

record wireIndex =
  wixCap :: int
  wixOrder :: "u64 list"
  wixItems :: "u64 \<rightharpoonup> WireMessage"

definition newWireIndex :: "int \<Rightarrow> wireIndex" where
  "newWireIndex capN =
     \<lparr>wixCap = (if capN \<le> 0 then 1000 else capN), wixOrder = [], wixItems = Map.empty\<rparr>"

definition wix_put :: "WireMessage \<Rightarrow> wireIndex \<Rightarrow> wireIndex" where
  "wix_put msg x =
     (if wChainHeight msg = 0 then x
      else let h = wChainHeight msg;
               order = (case wixItems x h of None \<Rightarrow> wixOrder x @ [h] | Some m \<Rightarrow> wixOrder x);
               (order', items') = fifo_trim (wixCap x) order ((wixItems x)(h \<mapsto> msg))
           in x\<lparr>wixOrder := order', wixItems := items'\<rparr>)"

definition wix_get :: "u64 \<Rightarrow> wireIndex \<Rightarrow> WireMessage option" where
  "wix_get h x = wixItems x h"

definition wix_oldest :: "wireIndex \<Rightarrow> u64 option" where
  "wix_oldest x =
     (case wixOrder x of
        [] \<Rightarrow> None
      | h # hs \<Rightarrow> Some (fold (\<lambda>h m. if h < m then h else m) hs h))"

text \<open>
  \<open>minSeq\<close> ranges over the map; the least value does not depend on the order, so the
  loop reads the items in insertion order.
\<close>

definition wix_minSeq :: "wireIndex \<Rightarrow> u64" where
  "wix_minSeq x =
     (case fold (\<lambda>h m. case wixItems x h of
                         None \<Rightarrow> m
                       | Some w \<Rightarrow> if wSeq w = 0 then m
                           else case m of None \<Rightarrow> Some (wSeq w)
                                | Some least \<Rightarrow> if wSeq w < least then Some (wSeq w) else m)
                (wixOrder x) None of
        Some m \<Rightarrow> m | None \<Rightarrow> 0)"

record renderedBlock =
  rbTab :: int
  rbEntry :: entry

record renderCache =
  rcCap :: int
  rcOrder :: "string list"
  rcItems :: "string \<rightharpoonup> renderedBlock"

definition newRenderCache :: "int \<Rightarrow> renderCache" where
  "newRenderCache capN =
     \<lparr>rcCap = (if capN \<le> 0 then 200 else capN), rcOrder = [], rcItems = Map.empty\<rparr>"

definition cache_get :: "string \<Rightarrow> renderCache \<Rightarrow> renderedBlock option" where
  "cache_get key c = rcItems c key"

definition cache_put :: "string \<Rightarrow> renderedBlock \<Rightarrow> renderCache \<Rightarrow> renderCache" where
  "cache_put key b c =
     (let order = (case rcItems c key of None \<Rightarrow> rcOrder c @ [key] | Some m \<Rightarrow> rcOrder c);
          (order', items') = fifo_trim (rcCap c) order ((rcItems c)(key \<mapsto> b))
      in c\<lparr>rcOrder := order', rcItems := items'\<rparr>)"

subsection \<open>What an eviction keeps\<close>

definition tab_bytes :: "entry list \<Rightarrow> int" where
  "tab_bytes es = sum_list (map entry_len es)"

lemma entry_len_nonneg [simp]: "0 \<le> entry_len e"
  by (simp add: entry_len_def)

lemma tab_bytes_simps [simp]:
  "tab_bytes [] = 0" "tab_bytes (e # es) = entry_len e + tab_bytes es"
  "tab_bytes (xs @ ys) = tab_bytes xs + tab_bytes ys"
  by (simp_all add: tab_bytes_def)

lemma tab_bytes_nonneg [simp]: "0 \<le> tab_bytes es"
  by (induction es) auto

text \<open>
  The loop drops the shortest prefix after which the rest fits, so what stays is the
  longest fitting suffix, and the account moves by exactly the bytes dropped.
\<close>

definition fits :: "int \<Rightarrow> int \<Rightarrow> entry list \<Rightarrow> int \<Rightarrow> bool" where
  "fits maxLines maxBytes es n \<longleftrightarrow> int (length es) \<le> maxLines \<and> n \<le> maxBytes"

lemma evict_loop_drops:
  "\<exists>k\<le>length es. evict_loop ml mb es n = (drop k es, n - tab_bytes (take k es))
     \<and> (drop k es = [] \<or> fits ml mb (drop k es) (n - tab_bytes (take k es)))
     \<and> (\<forall>j<k. \<not> fits ml mb (drop j es) (n - tab_bytes (take j es)))"
proof (induction es arbitrary: n)
  case Nil
  then show ?case by simp
next
  case (Cons e es)
  show ?case
  proof (cases "int (length (e # es)) > ml \<or> n > mb")
    case True
    obtain k where k: "k \<le> length es"
      "evict_loop ml mb es (n - entry_len e) = (drop k es, n - entry_len e - tab_bytes (take k es))"
      "drop k es = [] \<or> fits ml mb (drop k es) (n - entry_len e - tab_bytes (take k es))"
      "\<forall>j<k. \<not> fits ml mb (drop j es) (n - entry_len e - tab_bytes (take j es))"
      using Cons [of "n - entry_len e"] by blast
    have "\<not> fits ml mb (drop j (e # es)) (n - tab_bytes (take j (e # es)))" if "j < Suc k" for j
      using that True k(4) by (cases j) (auto simp: fits_def diff_diff_eq)
    with True k show ?thesis
      by (intro exI [of _ "Suc k"]) (simp add: diff_diff_eq)
  next
    case False
    then show ?thesis by (intro exI [of _ 0]) (simp add: fits_def)
  qed
qed

lemma evict_fields [simp]:
  "tbMaxLines (tab_evict b) = tbMaxLines b" "tbMaxBytes (tab_evict b) = tbMaxBytes b"
  by (simp_all add: tab_evict_def split_beta)

lemma tab_caps_kept [simp]:
  "tbMaxLines (tab_append e b) = tbMaxLines b" "tbMaxBytes (tab_append e b) = tbMaxBytes b"
  "tbMaxLines (insertAt i es b) = tbMaxLines b" "tbMaxBytes (insertAt i es b) = tbMaxBytes b"
  "tbMaxLines (spliceOut x y b) = tbMaxLines b" "tbMaxBytes (spliceOut x y b) = tbMaxBytes b"
  "tbMaxLines (fst (replaceSlot s e b)) = tbMaxLines b"
  "tbMaxBytes (fst (replaceSlot s e b)) = tbMaxBytes b"
  by (simp_all add: tab_append_def insertAt_def spliceOut_def replaceSlot_def Let_def)

lemma evict_cases:
  obtains k where "k \<le> length (tbLines b)" "tbLines (tab_evict b) = drop k (tbLines b)"
    and "tbSize (tab_evict b) = tbSize b - tab_bytes (take k (tbLines b))"
    and "tbLines (tab_evict b) = [] \<or> fits (tbMaxLines b) (tbMaxBytes b) (tbLines (tab_evict b)) (tbSize (tab_evict b))"
    and "\<forall>j<k. \<not> fits (tbMaxLines b) (tbMaxBytes b) (drop j (tbLines b)) (tbSize b - tab_bytes (take j (tbLines b)))"
  using evict_loop_drops [of "tbLines b" "tbMaxLines b" "tbMaxBytes b" "tbSize b"]
  by (auto simp: tab_evict_def)

subsection \<open>The byte account\<close>

text \<open>
  The account is right when \<open>size\<close> is the number of bytes the buffered entries render to;
  \<open>drift\<close> is how far it is off. A buffer is within its caps when it holds at most
  \<open>maxLines\<close> entries and its account is at most \<open>maxBytes\<close>.
\<close>

definition drift :: "tabBuffer \<Rightarrow> int" where
  "drift b = tab_bytes (tbLines b) - tbSize b"

definition in_caps :: "tabBuffer \<Rightarrow> bool" where
  "in_caps b \<longleftrightarrow> int (length (tbLines b)) \<le> tbMaxLines b \<and> (tbLines b = [] \<or> tbSize b \<le> tbMaxBytes b)"

datatype tab_op = Append entry | Insert int "entry list" | Splice int int | Replace slotRef entry | Reset

fun tab_do :: "tab_op \<Rightarrow> tabBuffer \<Rightarrow> tabBuffer" where
  "tab_do (Append e) b = tab_append e b"
| "tab_do (Insert i es) b = insertAt i es b"
| "tab_do (Splice x y) b = spliceOut x y b"
| "tab_do (Replace s e) b = fst (replaceSlot s e b)"
| "tab_do Reset b = tab_reset b"

text \<open>What one operation adds to the drift: nothing, except a replacement that hits.\<close>

fun op_drift :: "tab_op \<Rightarrow> tabBuffer \<Rightarrow> int" where
  "op_drift (Replace s e) b = (if slot_held s (tbLines b) then entry_len e - entry_len (slEntry s) else 0)"
| "op_drift Reset b = - drift b"
| "op_drift op b = 0"

lemma drift_evict: "drift (tab_evict b) = drift b"
proof -
  obtain k where "tbLines (tab_evict b) = drop k (tbLines b)"
    and "tbSize (tab_evict b) = tbSize b - tab_bytes (take k (tbLines b))"
    using evict_cases [of b] by metis
  moreover have "tab_bytes (tbLines b) = tab_bytes (take k (tbLines b)) + tab_bytes (drop k (tbLines b))"
    by (metis append_take_drop_id tab_bytes_simps(3))
  ultimately show ?thesis by (simp add: drift_def)
qed

lemma tab_bytes_split: "i \<le> j \<Longrightarrow>
  tab_bytes es = tab_bytes (take i es) + tab_bytes (drop i (take j es)) + tab_bytes (drop j es)"
  by (metis append_take_drop_id drop_take le_add_diff_inverse2 tab_bytes_simps(3) take_take min.absorb1)

lemma tab_bytes_update:
  "i < length es \<Longrightarrow> tab_bytes (es[i := e]) = tab_bytes es - entry_len (es ! i) + entry_len e"
  by (induction es arbitrary: i) (auto split: nat.splits)

lemma spliceOut_cases:
  obtains "spliceOut x y b = b"
  | i j where "i < j" "j \<le> length (tbLines b)"
      "spliceOut x y b = b\<lparr>tbLines := take i (tbLines b) @ drop j (tbLines b),
         tbSize := tbSize b - tab_bytes (drop i (take j (tbLines b)))\<rparr>"
proof -
  define i where "i = (if x < 0 then 0 else x)"
  define j where "j = (if y > int (length (tbLines b)) then int (length (tbLines b)) else y)"
  have eq: "spliceOut x y b = (if i \<ge> j then b
     else b\<lparr>tbLines := take (nat i) (tbLines b) @ drop (nat j) (tbLines b),
            tbSize := tbSize b - tab_bytes (drop (nat i) (take (nat j) (tbLines b)))\<rparr>)"
    by (simp add: spliceOut_def Let_def i_def j_def tab_bytes_def)
  show ?thesis
  proof (cases "i \<ge> j")
    case False
    moreover have "0 \<le> i" "j \<le> int (length (tbLines b))" by (simp_all add: i_def j_def)
    ultimately show ?thesis using eq by (intro that(2) [of "nat i" "nat j"]) auto
  qed (auto simp: eq that(1))
qed

lemma insertAt_cases:
  obtains "insertAt idx block b = b"
  | i where "i \<le> length (tbLines b)"
      "insertAt idx block b = tab_evict (b\<lparr>tbLines := take i (tbLines b) @ block @ drop i (tbLines b),
         tbSize := tbSize b + tab_bytes block\<rparr>)"
proof (cases "block = []")
  case False
  define i where "i = (if idx < 0 then 0 else if idx > int (length (tbLines b)) then int (length (tbLines b)) else idx)"
  have "insertAt idx block b = tab_evict (b\<lparr>tbLines := take (nat i) (tbLines b) @ block @ drop (nat i) (tbLines b),
         tbSize := tbSize b + tab_bytes block\<rparr>)"
    using False by (simp add: insertAt_def Let_def i_def tab_bytes_def)
  moreover have "nat i \<le> length (tbLines b)" by (auto simp: i_def)
  ultimately show ?thesis using that(2) by blast
qed (simp add: insertAt_def that(1))

lemma drift_step: "drift (tab_do op b) = drift b + op_drift op b"
proof (cases op)
  case (Insert i es)
  show ?thesis
  proof (rule insertAt_cases [of i es b])
    fix k assume "insertAt i es b = tab_evict (b\<lparr>tbLines := take k (tbLines b) @ es @ drop k (tbLines b),
         tbSize := tbSize b + tab_bytes es\<rparr>)"
    moreover have "tab_bytes (tbLines b) = tab_bytes (take k (tbLines b)) + tab_bytes (drop k (tbLines b))"
      by (metis append_take_drop_id tab_bytes_simps(3))
    ultimately show ?thesis using Insert by (simp add: drift_evict) (simp add: drift_def)
  qed (simp add: Insert)
next
  case (Splice x y)
  show ?thesis
  proof (rule spliceOut_cases [of x y b])
    fix i j assume "i < j" and "spliceOut x y b = b\<lparr>tbLines := take i (tbLines b) @ drop j (tbLines b),
         tbSize := tbSize b - tab_bytes (drop i (take j (tbLines b)))\<rparr>"
    then show ?thesis
      using Splice tab_bytes_split [of i j "tbLines b"] by (simp add: drift_def)
  qed (simp add: Splice)
next
  case (Replace s e)
  then show ?thesis
    by (auto simp: replaceSlot_def drift_def slot_held_def tab_bytes_update)
qed (auto simp: tab_append_def tab_reset_def drift_evict, auto simp: drift_def)

lemma length_evict: "length (tbLines (tab_evict b)) \<le> length (tbLines b)"
  using evict_cases [of b] by (metis diff_le_self length_drop)

lemma in_caps_evict: "0 \<le> tbMaxLines b \<Longrightarrow> in_caps (tab_evict b)"
  by (rule evict_cases [of b]) (auto simp: in_caps_def fits_def)

lemma in_caps_step:
  assumes "0 < tbMaxLines b" "in_caps b"
  shows "in_caps (tab_do op b)"
proof (cases op)
  case (Insert i es)
  show ?thesis by (rule insertAt_cases [of i es b]) (use assms Insert in \<open>simp_all add: in_caps_evict\<close>)
next
  case (Splice x y)
  show ?thesis
  proof (rule spliceOut_cases [of x y b])
    fix i j assume "i < j" "j \<le> length (tbLines b)"
      and eq: "spliceOut x y b = b\<lparr>tbLines := take i (tbLines b) @ drop j (tbLines b),
         tbSize := tbSize b - tab_bytes (drop i (take j (tbLines b)))\<rparr>"
    then have "length (take i (tbLines b) @ drop j (tbLines b)) \<le> length (tbLines b)" "tbLines b \<noteq> []" by auto
    moreover from this have "tbSize b \<le> tbMaxBytes b" using assms by (simp add: in_caps_def)
    then have "tbSize b - tab_bytes (drop i (take j (tbLines b))) \<le> tbMaxBytes b"
      using tab_bytes_nonneg [of "drop i (take j (tbLines b))"] by linarith
    ultimately show ?thesis using assms eq Splice by (auto simp: in_caps_def)
  qed (simp add: Splice assms)
next
  case (Replace s e)
  then show ?thesis using assms by (auto simp: replaceSlot_def in_caps_def)
qed (use assms in \<open>auto simp: tab_append_def tab_reset_def in_caps_evict, simp_all add: in_caps_def\<close>)

subsection \<open>Bounded first-in first-out indexes\<close>

lemma fifo_trim_both:
  assumes "distinct ks" "0 \<le> cap"
  shows "fst (fifo_trim cap ks m) = last_n (nat cap) ks \<and>
     (\<forall>k. snd (fifo_trim cap ks m) k = (if k \<in> set ks \<and> k \<notin> set (last_n (nat cap) ks) then None else m k))"
  using assms
proof (induction ks arbitrary: m)
  case (Cons a ks)
  show ?case
  proof (cases "int (length (a # ks)) > cap")
    case True
    then have "last_n (nat cap) (a # ks) = last_n (nat cap) ks"
      using Cons.prems by (auto simp: last_n_def nat_less_iff Suc_diff_le)
    moreover have "a \<notin> set (last_n (nat cap) ks)" using Cons.prems by (auto simp: last_n_def dest: in_set_dropD)
    ultimately show ?thesis using Cons True by auto
  next
    case False
    then have "last_n (nat cap) (a # ks) = a # ks" by (simp add: last_n_def)
    then show ?thesis using False by auto
  qed
qed (simp add: last_n_def)

lemmas fifo_trim_eq = fifo_trim_both [THEN conjunct1] fifo_trim_both [THEN conjunct2, rule_format]

text \<open>
  The contract of an index that forgets the key it learnt first: \<open>order\<close> lists the keys it
  answers, in the order they were learnt; storing under a known key changes the value and not
  the order.
\<close>

locale bounded_index =
  fixes put :: "'a \<Rightarrow> 's \<Rightarrow> 's"
    and get :: "'k \<Rightarrow> 's \<Rightarrow> 'v option"
    and key :: "'a \<Rightarrow> 'k option"
    and val :: "'a \<Rightarrow> 'v"
    and order :: "'s \<Rightarrow> 'k list"
    and cap :: "'s \<Rightarrow> nat"
    and ok :: "'s \<Rightarrow> bool"
  assumes ok_order: "ok s \<Longrightarrow> distinct (order s) \<and> length (order s) \<le> cap s"
    and ok_get: "ok s \<Longrightarrow> get k s \<noteq> None \<longleftrightarrow> k \<in> set (order s)"
    and put_ok: "ok s \<Longrightarrow> ok (put a s)"
    and put_cap: "cap (put a s) = cap s"
    and put_skip: "key a = None \<Longrightarrow> put a s = s"
    and put_order: "ok s \<Longrightarrow> key a = Some k \<Longrightarrow>
      order (put a s) = last_n (cap s) (if k \<in> set (order s) then order s else order s @ [k])"
    and put_get: "ok s \<Longrightarrow> key a = Some k \<Longrightarrow> j \<in> set (order (put a s)) \<Longrightarrow>
      get j (put a s) = (if j = k then Some (val a) else get j s)"
begin

lemma run_ok: "ok s \<Longrightarrow> ok (fold put as s)"
  by (induction as arbitrary: s) (simp_all add: put_ok)

lemma run_cap [simp]: "cap (fold put as s) = cap s"
  by (induction as arbitrary: s) (simp_all add: put_cap)

text \<open>How much can be stored after a key was learnt before the key is forgotten.\<close>

definition holds :: "'k \<Rightarrow> 'v \<Rightarrow> 'k set \<Rightarrow> 's \<Rightarrow> bool" where
  "holds k v K s \<longleftrightarrow> get k s = Some v \<and> (\<exists>pre post. order s = pre @ k # post \<and> set post \<subseteq> K)"

lemma last_n_split: "length post < n \<Longrightarrow> \<exists>pre'. last_n n (pre @ k # post) = pre' @ k # post"
  by (simp add: last_n_def)

lemma holds_put:
  assumes "ok s" "holds k v K s" "key a \<noteq> Some k" "finite K" "set_option (key a) \<subseteq> K" "card K < cap s"
  shows "holds k v K (put a s)"
proof (cases "key a")
  case (Some j)
  obtain pre post where o: "order s = pre @ k # post" "set post \<subseteq> K" using assms(2) by (auto simp: holds_def)
  have "k \<notin> K \<or> k \<in> K" by simp
  define post' where "post' = (if j \<in> set (order s) then post else post @ [j])"
  have p': "set post' \<subseteq> K" using o(2) assms(5) Some by (auto simp: post'_def)
  have "distinct post'" using ok_order [OF assms(1)] o(1) by (auto simp: post'_def)
  then have "length post' \<le> card K" using p' assms(4) by (metis card_mono distinct_card)
  then have lt: "length post' < cap s" using assms(6) by simp
  have "order (put a s) = last_n (cap s) (pre @ k # post')"
    using put_order [OF assms(1) Some] o(1) by (simp add: post'_def)
  then obtain pre' where n: "order (put a s) = pre' @ k # post'" using last_n_split [OF lt] by metis
  then have "get k (put a s) = Some v"
    using put_get [OF assms(1) Some, of k] assms(2,3) Some by (simp add: holds_def)
  with n p' show ?thesis by (auto simp: holds_def)
qed (use assms put_skip in simp)

lemma learnt_put: "ok s \<Longrightarrow> key a = Some k \<Longrightarrow> get k s = None \<Longrightarrow> 0 < cap s \<Longrightarrow> holds k (val a) K (put a s)"
proof -
  assume a: "ok s" "key a = Some k" "get k s = None" "0 < cap s"
  have "order (put a s) = last_n (cap s) (order s @ [k])"
    using put_order [OF a(1,2)] ok_get [OF a(1), of k] a(3) by simp
  also obtain pre where "\<dots> = pre @ [k]" using last_n_split [of "[]" "cap s" "order s" k] a(4) by auto
  finally show "holds k (val a) K (put a s)"
    using put_get [OF a(1,2), of k] by (simp add: holds_def) (rule exI [of _ pre], simp)
qed

lemma holds_run:
  assumes "ok s" "holds k v K s" "\<forall>a\<in>set as. key a \<noteq> Some k" "finite K" "card K < cap s"
    and "\<forall>a\<in>set as. set_option (key a) \<subseteq> K"
  shows "holds k v K (fold put as s)"
  using assms by (induction as arbitrary: s) (auto simp: holds_put put_ok put_cap)

lemma recent_is_held:
  assumes "ok s" "key a = Some k" "get k s = None" "\<forall>b\<in>set as. key b \<noteq> Some k"
    and "card (\<Union>b\<in>set as. set_option (key b)) < cap s"
  shows "get k (fold put as (put a s)) = Some (val a)"
  using holds_run [of "put a s" k "val a" "\<Union>b\<in>set as. set_option (key b)" as] learnt_put [of s a k] assms
  by (force simp: put_ok put_cap holds_def)

lemma run_bounded: "ok s \<Longrightarrow> length (order (fold put as s)) \<le> cap s"
  using ok_order [OF run_ok, of s as] by simp

end

text \<open>The two indexes keep the contract.\<close>

definition fifo_ok :: "int \<Rightarrow> 'k list \<Rightarrow> ('k \<rightharpoonup> 'v) \<Rightarrow> bool" where
  "fifo_ok cap order items \<longleftrightarrow> 0 < cap \<and> distinct order \<and> int (length order) \<le> cap \<and> dom items = set order"

lemma fifo_ok_iff: "fifo_ok cap order items \<Longrightarrow> items k \<noteq> None \<longleftrightarrow> k \<in> set order"
  by (auto simp: fifo_ok_def)

lemma fifo_put:
  assumes ok: "fifo_ok cap order items"
    and "order' = (case items k of None \<Rightarrow> order @ [k] | Some m \<Rightarrow> order)"
  shows "fst (fifo_trim cap order' (items(k \<mapsto> v))) =
      last_n (nat cap) (if k \<in> set order then order else order @ [k])"
    and "j \<in> set (fst (fifo_trim cap order' (items(k \<mapsto> v)))) \<Longrightarrow>
      snd (fifo_trim cap order' (items(k \<mapsto> v))) j = (if j = k then Some v else items j)"
    and "fifo_ok cap (fst (fifo_trim cap order' (items(k \<mapsto> v)))) (snd (fifo_trim cap order' (items(k \<mapsto> v))))"
proof -
  have o': "order' = (if k \<in> set order then order else order @ [k])"
    using fifo_ok_iff [OF ok, of k] by (auto simp: assms(2) split: option.splits)
  have d: "distinct order'" "0 \<le> cap" using ok by (auto simp: o' fifo_ok_def)
  note t = fifo_trim_eq [OF d, where m = "items(k \<mapsto> v)"]
  show 1: "fst (fifo_trim cap order' (items(k \<mapsto> v))) =
      last_n (nat cap) (if k \<in> set order then order else order @ [k])"
    using t(1) by (simp add: o')
  show "snd (fifo_trim cap order' (items(k \<mapsto> v))) j = (if j = k then Some v else items j)"
    if "j \<in> set (fst (fifo_trim cap order' (items(k \<mapsto> v))))" for j
    using that by (simp add: t)
  have "set (last_n (nat cap) order') \<subseteq> set order'" by (auto simp: last_n_def dest: in_set_dropD)
  moreover have "dom (items(k \<mapsto> v)) = set order'" using ok by (auto simp: o' fifo_ok_def)
  ultimately have "dom (snd (fifo_trim cap order' (items(k \<mapsto> v)))) = set (last_n (nat cap) order')"
    unfolding dom_def t(2) by (auto split: if_splits)
  then show "fifo_ok cap (fst (fifo_trim cap order' (items(k \<mapsto> v)))) (snd (fifo_trim cap order' (items(k \<mapsto> v))))"
    using d ok by (auto simp: t fifo_ok_def last_n_def)
qed

definition wix_ok :: "wireIndex \<Rightarrow> bool" where
  "wix_ok x \<longleftrightarrow> fifo_ok (wixCap x) (wixOrder x) (wixItems x)"

definition wix_key :: "WireMessage \<Rightarrow> u64 option" where
  "wix_key m = (if wChainHeight m = 0 then None else Some (wChainHeight m))"

interpretation wires: bounded_index wix_put wix_get wix_key "\<lambda>m. m" wixOrder "\<lambda>x. nat (wixCap x)" wix_ok
proof
  fix x :: wireIndex and m and k j :: u64
  show "wix_ok x \<Longrightarrow> distinct (wixOrder x) \<and> length (wixOrder x) \<le> nat (wixCap x)"
    by (simp add: wix_ok_def fifo_ok_def le_nat_iff)
  show "wix_ok x \<Longrightarrow> (wix_get k x \<noteq> None) = (k \<in> set (wixOrder x))"
    unfolding wix_ok_def wix_get_def by (rule fifo_ok_iff)
  show "wix_ok x \<Longrightarrow> wix_ok (wix_put m x)"
    by (simp add: wix_ok_def wix_put_def Let_def split_beta fifo_put(3))
  show "nat (wixCap (wix_put m x)) = nat (wixCap x)"
    by (simp add: wix_put_def Let_def split_beta)
  show "wix_key m = None \<Longrightarrow> wix_put m x = x"
    by (simp add: wix_key_def wix_put_def split: if_splits)
  show "wix_ok x \<Longrightarrow> wix_key m = Some k \<Longrightarrow> wixOrder (wix_put m x) =
      last_n (nat (wixCap x)) (if k \<in> set (wixOrder x) then wixOrder x else wixOrder x @ [k])"
    by (auto simp: wix_key_def wix_put_def Let_def split_beta wix_ok_def fifo_put(1) split: if_splits)
  show "wix_ok x \<Longrightarrow> wix_key m = Some k \<Longrightarrow> j \<in> set (wixOrder (wix_put m x)) \<Longrightarrow>
      wix_get j (wix_put m x) = (if j = k then Some m else wix_get j x)"
    using fifo_put(2) [of "wixCap x" "wixOrder x" "wixItems x" _ "wChainHeight m" j m]
    by (simp add: wix_key_def wix_put_def Let_def split_beta wix_ok_def wix_get_def split: if_splits)
qed

definition cache_ok :: "renderCache \<Rightarrow> bool" where
  "cache_ok c \<longleftrightarrow> fifo_ok (rcCap c) (rcOrder c) (rcItems c)"

interpretation blocks: bounded_index "\<lambda>a. cache_put (fst a) (snd a)" cache_get "\<lambda>a. Some (fst a)" snd rcOrder
    "\<lambda>c. nat (rcCap c)" cache_ok
proof
  fix c :: renderCache and a :: "string \<times> renderedBlock" and k j :: string
  show "cache_ok c \<Longrightarrow> distinct (rcOrder c) \<and> length (rcOrder c) \<le> nat (rcCap c)"
    by (simp add: cache_ok_def fifo_ok_def le_nat_iff)
  show "cache_ok c \<Longrightarrow> (cache_get k c \<noteq> None) = (k \<in> set (rcOrder c))"
    unfolding cache_ok_def cache_get_def by (rule fifo_ok_iff)
  show "cache_ok c \<Longrightarrow> cache_ok (cache_put (fst a) (snd a) c)"
    by (simp add: cache_ok_def cache_put_def Let_def split_beta fifo_put(3))
  show "nat (rcCap (cache_put (fst a) (snd a) c)) = nat (rcCap c)"
    by (simp add: cache_put_def Let_def split_beta)
  show "Some (fst a) = None \<Longrightarrow> (cache_put (fst a) (snd a) c) = c"
    by (simp add: split_beta)
  show "cache_ok c \<Longrightarrow> Some (fst a) = Some k \<Longrightarrow>
      rcOrder (cache_put (fst a) (snd a) c) =
      last_n (nat (rcCap c)) (if k \<in> set (rcOrder c) then rcOrder c else rcOrder c @ [k])"
    by (auto simp: cache_put_def Let_def split_beta cache_ok_def fifo_put(1))
  show "cache_ok c \<Longrightarrow> Some (fst a) = Some k \<Longrightarrow>
      j \<in> set (rcOrder (cache_put (fst a) (snd a) c)) \<Longrightarrow>
      cache_get j (cache_put (fst a) (snd a) c) = (if j = k then Some (snd a) else cache_get j c)"
    using fifo_put(2) [of "rcCap c" "rcOrder c" "rcItems c" _ k j "snd a"]
    by (simp add: cache_put_def Let_def split_beta cache_ok_def cache_get_def)
qed

lemma new_index_ok: "wix_ok (newWireIndex n)" "cache_ok (newRenderCache n)"
  by (simp_all add: wix_ok_def newWireIndex_def cache_ok_def newRenderCache_def fifo_ok_def)

lemma fold_min: "fold (\<lambda>h m. if h < m then h else m) hs (a::'a::linorder) = Min (insert a (set hs))"
proof (induction hs arbitrary: a)
  case (Cons h hs)
  have "Min (insert a (insert h (set hs))) = min (min h a) (Min (insert (min h a) (set hs)))"
    by (cases "set hs = {}") (auto simp: min.assoc min.commute min.left_commute)
  then show ?case using Cons by (cases "set hs = {}") (auto simp: min_def not_less)
qed simp

lemma wix_oldest_least: "wix_oldest x = (if wixOrder x = [] then None else Some (Min (set (wixOrder x))))"
  by (cases "wixOrder x") (simp_all add: wix_oldest_def fold_min)

subsection \<open>The byte account over a whole session\<close>

fun run_drift :: "tab_op list \<Rightarrow> tabBuffer \<Rightarrow> int" where
  "run_drift [] b = 0"
| "run_drift (op # ops) b = op_drift op b + run_drift ops (tab_do op b)"

lemma tab_run:
  "0 < tbMaxLines b \<Longrightarrow> in_caps b \<Longrightarrow> in_caps (fold tab_do ops b) \<and> drift (fold tab_do ops b) = drift b + run_drift ops b
     \<and> tbMaxLines (fold tab_do ops b) = tbMaxLines b \<and> tbMaxBytes (fold tab_do ops b) = tbMaxBytes b"
proof (induction ops arbitrary: b)
  case (Cons op ops)
  have "tbMaxLines (tab_do op b) = tbMaxLines b" "tbMaxBytes (tab_do op b) = tbMaxBytes b"
    by (cases op; simp add: tab_reset_def)+
  with Cons in_caps_step [of b op] show ?case by (simp add: drift_step)
qed simp

lemma newTabBuffer_caps: "0 < tbMaxLines (newTabBuffer ml mb)" "0 < tbMaxBytes (newTabBuffer ml mb)"
  "in_caps (newTabBuffer ml mb)" "drift (newTabBuffer ml mb) = 0"
  by (simp_all add: newTabBuffer_def in_caps_def drift_def)

text \<open>
  Whatever the client does to a tab buffer, it never holds more than \<open>maxLines\<close> entries
  and its byte account stays within \<open>maxBytes\<close>; but the bytes it really holds are the
  account plus the drift that \<open>replaceSlot\<close> has caused, the length of the new entry less that of
  the old one at every replacement, since that operation alone leaves the account as it was.
  Without replacements the byte cap therefore holds for the bytes themselves.
\<close>

theorem tab_buffer_account:
  "let b0 = newTabBuffer ml mb; b = fold tab_do ops b0
   in int (length (tbLines b)) \<le> tbMaxLines b0
      \<and> (tbLines b = [] \<or> tbSize b \<le> tbMaxBytes b0)
      \<and> tab_bytes (tbLines b) = tbSize b + run_drift ops b0"
  using tab_run [OF newTabBuffer_caps(1,3), of ops ml mb] newTabBuffer_caps(4) [of ml mb]
  by (auto simp: Let_def in_caps_def drift_def)

text \<open>A buffer of twelve bytes that holds sixteen after one replacement.\<close>

definition ex_entry :: "string \<Rightarrow> entry" where
  "ex_entry s = Entry (zero_fields\<lparr>enHeader := s\<rparr>) None"

lemma replacement_overfills:
  "tab_bytes (tbLines (fst (replaceSlot \<lparr>slIndex = 0, slEntry = ex_entry ''a''\<rparr> (ex_entry ''0123456789abcd'')
     (tab_append (ex_entry ''a'') (newTabBuffer 10 12))))) = 16"
  by (simp add: replaceSlot_def slot_held_def tab_append_def tab_evict_def newTabBuffer_def ex_entry_def
      entry_len_def Let_def row_def zero_fields_def)

end
