(* ===== verification/Client_Config.thy ===== *)
theory Client_Config
  imports Tags Guard Wire
begin

text \<open>
  The client settings the session reads, \<^verbatim>\<open>src/lib/config/config.go\<close>: the record holds the fields of
  \<open>ClientConfig\<close> behind the accessors below (a Go pointer field is an \<open>option\<close>), and a missing
  configuration is \<open>None\<close>. Every accessor answers for \<open>None\<close>, for an absent field and for a value out of range.
  The notice gates of \<^verbatim>\<open>src/lib/clientcore/notices.go\<close> and \<^verbatim>\<open>src/client/notify.go\<close> are here too.
\<close>

subsection \<open>Settings\<close>

record ClientConfig =
  ccShowJoin :: bool
  ccAutoVerify :: "bool option"
  ccLimits :: Limits
  ccMetaShow :: "bool option"
  ccMentionEnabled :: "bool option"
  ccMentionColor :: "int \<times> int \<times> int"
  ccReplyEnabled :: "bool option"
  ccQuoteMaxRunes :: int
  ccClearAfterSec :: "int option"
  ccSaveMessages :: "bool option"
  ccCollapseEnabled :: "bool option"
  ccCollapseRows :: int
  ccPreviewRows :: int
  ccVersionEnabled :: "bool option"
  ccVersionMode :: string
  ccVersionExpect :: string
  ccNotify :: "(string \<times> bool) list"
  ccPowMinTier :: "int option"
  ccScrollback :: int
  ccChatMaxBytes :: int
  ccSystemMaxLines :: int
  ccSystemMaxBytes :: int
  ccInitialLines :: "int option"
  ccBatchLines :: "int option"
  ccRecoverRetries :: "int option"
  ccLiveRecoverCap :: "int option"

definition DefaultHistoryInitialLines :: int where "DefaultHistoryInitialLines = 500"
definition DefaultHistoryBatchLines :: int where "DefaultHistoryBatchLines = 100"
definition DefaultHistoryRecoverRetries :: int where "DefaultHistoryRecoverRetries = 2"
definition DefaultHistoryLiveRecoverCap :: int where "DefaultHistoryLiveRecoverCap = 1000"

lemmas history_defaults = DefaultHistoryInitialLines_def DefaultHistoryBatchLines_def
  DefaultHistoryRecoverRetries_def DefaultHistoryLiveRecoverCap_def

text \<open>A pointer field read with its default.\<close>

definition opt_field :: "(ClientConfig \<Rightarrow> 'a option) \<Rightarrow> 'a \<Rightarrow> ClientConfig option \<Rightarrow> 'a" where
  "opt_field f d c =
     (case c of None \<Rightarrow> d | Some c' \<Rightarrow> (case f c' of None \<Rightarrow> d | Some v \<Rightarrow> v))"

definition ShowMeta :: "ClientConfig option \<Rightarrow> bool" where
  "ShowMeta = opt_field ccMetaShow True"

definition DefaultAutoVerify :: "ClientConfig option \<Rightarrow> bool" where
  "DefaultAutoVerify = opt_field ccAutoVerify True"

definition VersionCheckEnabled :: "ClientConfig option \<Rightarrow> bool" where
  "VersionCheckEnabled = opt_field ccVersionEnabled True"

definition VersionCheckMode :: "ClientConfig option \<Rightarrow> string" where
  "VersionCheckMode c =
     (let m = (case c of None \<Rightarrow> [] | Some c' \<Rightarrow> ccVersionMode c')
      in if m = ''disabled'' \<or> m = ''warn'' \<or> m = ''enforce'' then m else ''warn'')"

definition VersionCheckExpect :: "ClientConfig option \<Rightarrow> string" where
  "VersionCheckExpect c = (case c of None \<Rightarrow> [] | Some c' \<Rightarrow> ccVersionExpect c')"

definition NotifyTag :: "ClientConfig option \<Rightarrow> string \<Rightarrow> bool" where
  "NotifyTag c tag =
     (case c of
        None \<Rightarrow> True
      | Some c' \<Rightarrow> (case map_of (ccNotify c') tag of None \<Rightarrow> True | Some enabled \<Rightarrow> enabled))"

definition NotifyPowMinTier :: "ClientConfig option \<Rightarrow> int" where
  "NotifyPowMinTier = opt_field ccPowMinTier 1"

definition CollapseEnabled :: "ClientConfig option \<Rightarrow> bool" where
  "CollapseEnabled = opt_field ccCollapseEnabled True"

definition CollapseRows :: "ClientConfig option \<Rightarrow> int" where
  "CollapseRows c =
     (case c of None \<Rightarrow> 10 | Some c' \<Rightarrow> if ccCollapseRows c' < 3 then 10 else ccCollapseRows c')"

definition CollapsePreviewRows :: "ClientConfig option \<Rightarrow> int" where
  "CollapsePreviewRows c =
     (let rows = CollapseRows c
      in case c of
           None \<Rightarrow> 5
         | Some c' \<Rightarrow>
             if ccPreviewRows c' \<le> 0 then 5
             else if ccPreviewRows c' \<ge> rows then rows - 1
             else ccPreviewRows c')"

definition MentionEnabled :: "ClientConfig option \<Rightarrow> bool" where
  "MentionEnabled = opt_field ccMentionEnabled True"

definition clamp_channel :: "int \<Rightarrow> int" where
  "clamp_channel ch = (if ch < 0 then 0 else if ch > 255 then 255 else ch)"

definition MentionColor :: "ClientConfig option \<Rightarrow> int \<times> int \<times> int" where
  "MentionColor c =
     (case c of
        None \<Rightarrow> (0, 255, 255)
      | Some c' \<Rightarrow>
          if ccMentionColor c' = (0, 0, 0) then (0, 255, 255)
          else case ccMentionColor c' of (r, g, b) \<Rightarrow> (clamp_channel r, clamp_channel g, clamp_channel b))"

definition ReplyEnabled :: "ClientConfig option \<Rightarrow> bool" where
  "ReplyEnabled = opt_field ccReplyEnabled True"

definition SaveMessageHistory :: "ClientConfig option \<Rightarrow> bool" where
  "SaveMessageHistory = opt_field ccSaveMessages False"

definition QuoteMaxRunes :: "ClientConfig option \<Rightarrow> int" where
  "QuoteMaxRunes c =
     (case c of
        None \<Rightarrow> 80
      | Some c' \<Rightarrow>
          if ccQuoteMaxRunes c' \<le> 0 then 80
          else if ccQuoteMaxRunes c' < 20 then 20
          else if ccQuoteMaxRunes c' > 200 then 200
          else ccQuoteMaxRunes c')"

definition ClipboardClearAfterSec :: "ClientConfig option \<Rightarrow> int" where
  "ClipboardClearAfterSec c = (let v = opt_field ccClearAfterSec 30 c in if v < 0 then 30 else v)"

definition HistoryInitialLines :: "ClientConfig option \<Rightarrow> int" where
  "HistoryInitialLines c =
     (let v = opt_field ccInitialLines DefaultHistoryInitialLines c
      in if v \<le> 0 then DefaultHistoryInitialLines else v)"

definition HistoryBatchLines :: "ClientConfig option \<Rightarrow> int" where
  "HistoryBatchLines c =
     (let v = opt_field ccBatchLines DefaultHistoryBatchLines c
      in if v \<le> 0 then DefaultHistoryBatchLines else v)"

definition HistoryRecoverRetries :: "ClientConfig option \<Rightarrow> int" where
  "HistoryRecoverRetries c =
     (let v = opt_field ccRecoverRetries DefaultHistoryRecoverRetries c
      in if v < 0 then DefaultHistoryRecoverRetries else v)"

definition HistoryLiveRecoverCap :: "ClientConfig option \<Rightarrow> int" where
  "HistoryLiveRecoverCap c =
     (let v = opt_field ccLiveRecoverCap DefaultHistoryLiveRecoverCap c
      in if v < 0 then DefaultHistoryLiveRecoverCap else v)"

text \<open>\<open>tabCaps\<close> of \<^verbatim>\<open>tabs.go\<close>.\<close>

definition tabCaps :: "ClientConfig option \<Rightarrow> int \<times> int \<times> int \<times> int" where
  "tabCaps c =
     (case c of
        None \<Rightarrow> (10000, 2097152, 2000, 409600)
      | Some c' \<Rightarrow>
          (if ccScrollback c' > 0 then ccScrollback c' else 10000,
           if ccChatMaxBytes c' > 0 then ccChatMaxBytes c' else 2097152,
           if ccSystemMaxLines c' > 0 then ccSystemMaxLines c' else 2000,
           if ccSystemMaxBytes c' > 0 then ccSystemMaxBytes c' else 409600))"

subsection \<open>Notice gates\<close>

record Notices =
  ntMuted :: "(string \<times> bool) list"
  ntPowMinTier :: int

definition TagsAllowed :: "string list \<Rightarrow> Notices \<Rightarrow> bool" where
  "TagsAllowed tags n \<longleftrightarrow> BlockedBy tags (ntMuted n) = []"

definition PowAllowed :: "int \<Rightarrow> Notices \<Rightarrow> bool" where
  "PowAllowed tier n \<longleftrightarrow> tier \<ge> ntPowMinTier n"

definition PowLive :: "int \<Rightarrow> Notices \<Rightarrow> bool" where
  "PowLive tier n \<longleftrightarrow> TagsAllowed [TagPow] n \<and> PowAllowed tier n"

definition TagsForWire :: "WireMessage \<Rightarrow> string list" where
  "TagsForWire msg =
     (if wType msg \<noteq> ''system'' then []
      else if wTags msg = [] then WithTags [TagRoot]
      else wTags msg)"

definition WireAllowed :: "WireMessage \<Rightarrow> Notices \<Rightarrow> bool" where
  "WireAllowed msg n =
     (let tags = TagsForWire msg
      in if \<not> TagsAllowed tags n then False
         else if \<not> HasTag tags TagPow then True
         else if wSysPowTier msg \<le> 0 then True
         else PowAllowed (wSysPowTier msg) n)"

definition configMutedTags :: "ClientConfig option \<Rightarrow> (string \<times> bool) list" where
  "configMutedTags c = map (\<lambda>tag. (tag, True)) (filter (\<lambda>tag. \<not> NotifyTag c tag) AllTags)"

definition notifyStateFromConfig :: "ClientConfig option \<Rightarrow> Notices" where
  "notifyStateFromConfig c = \<lparr>ntMuted = configMutedTags c, ntPowMinTier = NotifyPowMinTier c\<rparr>"

definition notifySetTag :: "string \<Rightarrow> bool \<Rightarrow> Notices \<Rightarrow> Notices \<times> bool" where
  "notifySetTag tag on n =
     (if \<not> HasTag AllTags tag then (n, False)
      else if on then (n\<lparr>ntMuted := filter (\<lambda>p. fst p \<noteq> tag) (ntMuted n)\<rparr>, True)
      else (n\<lparr>ntMuted := (tag, True) # filter (\<lambda>p. fst p \<noteq> tag) (ntMuted n)\<rparr>, True))"

definition notifySetAll :: "bool \<Rightarrow> Notices \<Rightarrow> Notices" where
  "notifySetAll on n = n\<lparr>ntMuted := (if on then [] else map (\<lambda>tag. (tag, True)) AllTags)\<rparr>"

definition notifyTagEnabled :: "string \<Rightarrow> Notices \<Rightarrow> bool" where
  "notifyTagEnabled tag n \<longleftrightarrow> BlockedBy (WithTags [tag]) (ntMuted n) = []"

definition notifySetPowMinTier :: "int \<Rightarrow> Notices \<Rightarrow> Notices" where
  "notifySetPowMinTier tier n = n\<lparr>ntPowMinTier := tier\<rparr>"

fun quietTagNames :: "string list \<Rightarrow> string list \<Rightarrow> string list" where
  "quietTagNames [] out = out"
| "quietTagNames (raw # quiet) out =
     (let name = to_lower (TrimSpace raw)
      in if name = ''all'' then [[]]
         else if HasTag AllTags name then quietTagNames quiet (out @ [name])
         else quietTagNames quiet out)"

definition applyQuietFlags :: "string list \<Rightarrow> Notices \<Rightarrow> Notices" where
  "applyQuietFlags quiet n =
     fold (\<lambda>name n. if name = [] then notifySetAll False n else fst (notifySetTag name False n))
       (quietTagNames quiet []) n"

definition quietNames :: "string list \<Rightarrow> (string \<times> bool) list" where
  "quietNames quiet =
     concat (map (\<lambda>name. if name = [] then map (\<lambda>tag. (tag, True)) AllTags else [(name, True)])
       (quietTagNames quiet []))"

definition notifyPowWanted :: "ClientConfig option \<Rightarrow> string list \<Rightarrow> int \<Rightarrow> bool" where
  "notifyPowWanted c quiet tier =
     (let muted = (case c of None \<Rightarrow> [] | Some c' \<Rightarrow> configMutedTags c) @ quietNames quiet
      in BlockedBy (WithTags [TagPow]) muted = [] \<and> (c = None \<or> tier \<ge> NotifyPowMinTier c))"

definition parseOnOff :: "string \<Rightarrow> bool option" where
  "parseOnOff v =
     (let l = to_lower v
      in if l = ''on'' \<or> l = ''true'' then Some True
         else if l = ''off'' \<or> l = ''false'' then Some False else None)"

subsection \<open>Ranges\<close>

lemma history_settings_positive:
  "0 < HistoryInitialLines c" "0 < HistoryBatchLines c" "0 \<le> HistoryRecoverRetries c" "0 \<le> HistoryLiveRecoverCap c"
  by (simp_all add: HistoryInitialLines_def HistoryBatchLines_def HistoryRecoverRetries_def
      HistoryLiveRecoverCap_def history_defaults Let_def)

lemma tabCaps_positive:
  "tabCaps c = (cl, cb, sl, sb) \<Longrightarrow> 0 < cl \<and> 0 < cb \<and> 0 < sl \<and> 0 < sb"
  by (auto simp: tabCaps_def split: option.splits if_splits)

lemma QuoteMaxRunes_range: "20 \<le> QuoteMaxRunes c \<and> QuoteMaxRunes c \<le> 200"
  by (auto simp: QuoteMaxRunes_def split: option.splits)

end
