(* ===== verification/Client_Session.thy ===== *)
theory Client_Session
  imports Client_View Client_Config Chat_Server
begin

text \<open>
  The state of a terminal client, \<open>Session\<close> of \<^verbatim>\<open>src/client/session.go\<close> with its groups \<open>DisplayState\<close>,
  \<open>ChainState\<close> and \<open>PendingState\<close>, the output funnel of \<^verbatim>\<open>display.go\<close>, the matching of echoes with pending
  messages (\<^verbatim>\<open>chainmeta.go\<close>) and the rendering of a wire into a buffer entry (\<^verbatim>\<open>render.go\<close>,
  \<^verbatim>\<open>collapse.go\<close>, \<^verbatim>\<open>vote.go\<close>).

  The locks serialise the operations, so an operation maps the session to the session. The socket and the
  tip file are fields: \<open>ssSent\<close> lists the frames written, \<open>ssTipFile\<close> is the file; whether the
  \<open>n\<close>-th write succeeds is \<open>kIO n\<close>. A run-time panic of the pump sets \<open>ssPanic\<close>. The wake-up of the painter (\<open>Sink.Notify\<close>) has no state. What turns
  text into terminal styling is an argument: the style library (\<open>kDim\<close>, \<open>kWarn\<close>, \<open>kUp\<close>), the width table, the
  escape stripper, and the markup renderer with the mention highlighter (\<open>kBody\<close>) and the badge
  (\<open>kBadge\<close>).
\<close>

subsection \<open>State\<close>

abbreviation nl :: string where "nl \<equiv> [CHR 0x0A]"

definition TabChat :: int where "TabChat = 1"
definition TabSystem :: int where "TabSystem = 2"

record DisplayState =
  dsShowJoinLeave :: bool
  dsShowMeta :: bool
  dsNotify :: Notices
  dsActiveTab :: int
  dsTabChat :: tabBuffer
  dsTabSys :: tabBuffer
  dsLayoutEpoch :: u64
  dsCatchupHold :: bool
  dsHoldGen :: u64
  dsHoldTimer :: bool
  dsLastDateBanner :: string
  dsPendingGreeting :: string
  dsRevealProof :: "string \<rightharpoonup> string"
  dsStatusMsg :: string
  dsStatusUntil :: time

record pendingMsg =
  pmText :: string
  pmSlot :: slotRef
  pmShown :: bool
  pmEpoch :: u64
  pmSeq :: u32
  pmPub :: string
  pmHasTrip :: bool
  pmSentAt :: time
  pmTmpID :: u64
  pmReplyTo :: u64

record pendingEcho =
  peMsg :: WireMessage
  peAt :: time

record PendingState =
  pnTmpSeq :: u64
  pnReplyTo :: u64
  pnReplyDraft :: u64
  pnLastMessageTime :: time
  pnPlaceholders :: "pendingMsg list"
  pnEchoes :: "pendingEcho list"
  pnSeenTmpIDs :: "u64 list"
  pnDateBanner :: "WireMessage option"
  pnEchoSlot :: "pendingMsg option"

record ClientVotes =
  vsUpvotes :: int
  vsDownvotes :: int

text \<open>A refill in flight. \<open>rwAddr\<close> is the identity of the Go object, which its timers compare.\<close>

record recoverWindow =
  rwAddr :: nat
  rwMissing :: "u64 set"
  rwKnown :: "u64 \<rightharpoonup> bytes"
  rwLive :: "u64 set"
  rwMaxMissing :: u64
  rwReceived :: nat
  rwAttempts :: nat
  rwFailed :: bool
  rwRequestedAt :: time

datatype heldLine = HeldWire WireMessage | HeldRaw string

record ChainState =
  chTip :: bytes
  chHeight :: u64
  chHaveTip :: bool
  chWarned :: bool
  chGapWarned :: bool
  chServerPubHex :: string
  chPersistedTip :: bytes
  chPersistedHeight :: u64
  chPersistedServer :: string
  chHavePersistedTip :: bool
  chInSync :: bool
  chInOlder :: bool
  chOlderExhausted :: bool
  chOlderInsert :: nat
  chOlderInsertSys :: nat
  chOlderHeightBound :: u64
  chOlderSeqBound :: u64
  chInRecover :: bool
  chRecoverRendered :: bool
  chRecoverPending :: "recoverWindow option"
  chRecoverGen :: u64
  chLiveRecovered :: nat
  chSyncHeights :: "u64 \<rightharpoonup> bytes"
  chLoading :: bool
  chLoadStartSeq :: u64
  chLoadMaxSeq :: u64
  chLoadTarget :: int
  chLoadLoaded :: int
  chLoadRetried :: int
  chLoadHold :: "heldLine list"
  chTipSinceSave :: u64
  chWireIdx :: wireIndex
  chRenderCache :: renderCache
  chVotes :: "u64 \<rightharpoonup> ClientVotes"

record chainTipRecord =
  ctTip :: string
  ctHeight :: u64
  ctServerPub :: string

record TripMessage =
  tgText :: string
  tgPub :: string
  tgSeq :: u32
  tgPrev :: string
  tgSig :: string
  tgDisplayName :: string
  tgTmpID :: u64
  tgReplyTo :: u64

record PlainMessage =
  pgTmpID :: u64
  pgText :: string
  pgReplyTo :: u64

datatype client_frame = HistoryReq HistoryRequest | SignedChat TripMessage | PlainChat PlainMessage
  | VoteReq VoteRequest | RevealReq RevealRequest

text \<open>An armed \<open>time.AfterFunc\<close>, with what its closure captured.\<close>

datatype timer = SettleTimer u64 nat | RetryTimer u64 nat | HoldTimer u64

record Session =
  ssConn :: bool
  ssUsername :: string
  ssServerPubKey :: string
  ssTripPriv :: "bytes option"
  ssTripPub :: bytes
  ssTripBadge :: string
  ssTripSeq :: u32
  ssTripPrev :: bytes
  ssAutoVerify :: bool
  ssDisplay :: DisplayState
  ssChain :: ChainState
  ssPending :: PendingState
  ssSent :: "client_frame list"
  ssTipFile :: "chainTipRecord option"
  ssIO :: nat
  ssAlloc :: nat
  ssTimers :: "timer list"
  ssPanic :: bool

record cl_env =
  kCfg :: "ClientConfig option"
  kIO :: "nat \<Rightarrow> bool"
  kGC :: "nat \<Rightarrow> gcat"
  kPubOfSeed :: "bytes \<Rightarrow> bytes"
  kSign :: "bytes \<Rightarrow> bytes \<Rightarrow> bytes"
  kDim :: "string \<Rightarrow> string"
  kWarn :: "string \<Rightarrow> string"
  kUp :: "string \<Rightarrow> string"
  kStrip :: "string \<Rightarrow> string"
  kBody :: "entry list \<Rightarrow> string \<Rightarrow> string"
  kSpanPlain :: "string \<Rightarrow> string"
  kLinkify :: "string \<Rightarrow> string"
  kTripcode :: string
  kBadge :: "WireMessage \<Rightarrow> bool \<Rightarrow> string"
  kRuneWidth :: "nat \<Rightarrow> nat"
  kTermWidth :: int

abbreviation upd_display :: "(DisplayState \<Rightarrow> DisplayState) \<Rightarrow> Session \<Rightarrow> Session" where
  "upd_display f s \<equiv> s\<lparr>ssDisplay := f (ssDisplay s)\<rparr>"

abbreviation upd_chain :: "(ChainState \<Rightarrow> ChainState) \<Rightarrow> Session \<Rightarrow> Session" where
  "upd_chain f s \<equiv> s\<lparr>ssChain := f (ssChain s)\<rparr>"

abbreviation upd_pending :: "(PendingState \<Rightarrow> PendingState) \<Rightarrow> Session \<Rightarrow> Session" where
  "upd_pending f s \<equiv> s\<lparr>ssPending := f (ssPending s)\<rparr>"

text \<open>\<open>sendJSON\<close>: one frame on the socket, or an error.\<close>

definition sendJSON :: "cl_env \<Rightarrow> client_frame \<Rightarrow> Session \<Rightarrow> Session \<times> bool" where
  "sendJSON env f s =
     (if kIO env (ssIO s) then (s\<lparr>ssIO := Suc (ssIO s), ssSent := ssSent s @ [f]\<rparr>, True)
      else (s\<lparr>ssIO := Suc (ssIO s)\<rparr>, False))"

subsection \<open>The output funnel\<close>

definition noticeEntry :: "string \<Rightarrow> entry" where
  "noticeEntry line = Entry (zero_fields\<lparr>enHeader := trim_newline line, enKind := kindNotice\<rparr>) None"

definition systemEntry :: "string \<Rightarrow> entry" where
  "systemEntry line = Entry (zero_fields\<lparr>enHeader := trim_newline line, enKind := kindSystem\<rparr>) None"

definition set_muted :: "bool \<Rightarrow> entry \<Rightarrow> entry" where
  "set_muted m e = Entry ((ent e)\<lparr>enMuted := m\<rparr>) (quoteEntry e)"

definition placeEntry :: "int \<Rightarrow> entry \<Rightarrow> Session \<Rightarrow> Session" where
  "placeEntry tab e s =
     (let c = ssChain s; d = ssDisplay s in
      if tab = TabSystem then
        (if chInOlder c
         then s\<lparr>ssDisplay := d\<lparr>dsTabSys := insertAt (int (chOlderInsertSys c)) [e] (dsTabSys d)\<rparr>,
                ssChain := c\<lparr>chOlderInsertSys := Suc (chOlderInsertSys c)\<rparr>\<rparr>
         else s\<lparr>ssDisplay := d\<lparr>dsTabSys := tab_append e (dsTabSys d)\<rparr>\<rparr>)
      else if chInOlder c
        then s\<lparr>ssDisplay := d\<lparr>dsTabChat := insertAt (int (chOlderInsert c)) [e] (dsTabChat d)\<rparr>,
               ssChain := c\<lparr>chOlderInsert := Suc (chOlderInsert c)\<rparr>\<rparr>
        else s\<lparr>ssDisplay := d\<lparr>dsTabChat := tab_append e (dsTabChat d)\<rparr>\<rparr>)"

definition emitTabLive :: "bool \<Rightarrow> int \<Rightarrow> entry \<Rightarrow> Session \<Rightarrow> Session" where
  "emitTabLive live tab e s =
     (let e' = set_muted (\<not> live) e; s1 = placeEntry TabChat e' s
      in if tab = TabSystem \<or> \<not> live then placeEntry TabSystem e' s1 else s1)"

definition emitLocalEntry :: "bool \<Rightarrow> entry \<Rightarrow> Session \<Rightarrow> Session" where
  "emitLocalEntry live e s =
     (let e' = set_muted (\<not> live) e in
      upd_display (\<lambda>d. d\<lparr>dsTabChat := tab_append e' (dsTabChat d), dsTabSys := tab_append e' (dsTabSys d)\<rparr>) s)"

definition emitLocalFeedback :: "string \<Rightarrow> Session \<Rightarrow> Session" where
  "emitLocalFeedback line s = emitLocalEntry True (noticeEntry line) s"

definition emitStatusLocked :: "string \<Rightarrow> Session \<Rightarrow> Session" where
  "emitStatusLocked line s =
     emitLocalEntry True (Entry ((ent (noticeEntry line))\<lparr>enStatus := True\<rparr>) None) s"

definition appendEntrySlot :: "bool \<Rightarrow> int \<Rightarrow> entry \<Rightarrow> Session \<Rightarrow> Session \<times> slotRef" where
  "appendEntrySlot live tab e s =
     (let s1 = emitTabLive live tab e s;
          buf = (if tab \<noteq> TabChat then dsTabSys (ssDisplay s1) else dsTabChat (ssDisplay s1))
      in (s1, \<lparr>slIndex = int (length (tbLines buf)) - 1, slEntry = e\<rparr>))"

definition emitRawLineLocked :: "cl_env \<Rightarrow> string \<Rightarrow> Session \<Rightarrow> Session" where
  "emitRawLineLocked env line s = emitTabLive True TabChat (systemEntry (SanitizeForDisplay (kGC env) line)) s"

definition flushPendingGreetingLocked :: "Session \<Rightarrow> Session" where
  "flushPendingGreetingLocked s =
     (let d = ssDisplay s in
      if dsPendingGreeting d = [] \<or> dsCatchupHold d then s
      else let e = noticeEntry (trim_newlines (dropWhile (\<lambda>c. c = CHR 0x0A) (dsPendingGreeting d)))
        in s\<lparr>ssDisplay := d\<lparr>dsPendingGreeting := [], dsTabChat := tab_append e (dsTabChat d),
               dsTabSys := tab_append e (dsTabSys d)\<rparr>\<rparr>)"

definition releaseCatchupLocked :: "Session \<Rightarrow> Session" where
  "releaseCatchupLocked s =
     (if \<not> dsCatchupHold (ssDisplay s) then s
      else flushPendingGreetingLocked
        (upd_display (\<lambda>d. d\<lparr>dsCatchupHold := False, dsHoldGen := dsHoldGen d + 1, dsHoldTimer := False\<rparr>) s))"

definition statusNoticeTTL :: duration where "statusNoticeTTL = 5 * second"

definition setStatusLocked :: "string \<Rightarrow> time \<Rightarrow> Session \<Rightarrow> Session" where
  "setStatusLocked line now s =
     upd_display (\<lambda>d. d\<lparr>dsStatusMsg := line, dsStatusUntil := now + statusNoticeTTL\<rparr>) s"

definition switchTab :: "int \<Rightarrow> Session \<Rightarrow> Session" where
  "switchTab n s =
     (if n \<noteq> TabChat \<and> n \<noteq> TabSystem then s
      else if n = dsActiveTab (ssDisplay s) then s
      else upd_display (\<lambda>d. d\<lparr>dsActiveTab := n, dsLayoutEpoch := dsLayoutEpoch d + 1\<rparr>) (releaseCatchupLocked s))"

end
