(* ===== verification/Client_Render.thy ===== *)
theory Client_Render
  imports Client_Session
begin

text \<open>
  From a wire to the entry that shows it: quotes and header of \<^verbatim>\<open>chainmeta.go\<close> and \<^verbatim>\<open>render.go\<close>, folding
  (\<^verbatim>\<open>collapse.go\<close>), vote totals (\<^verbatim>\<open>vote.go\<close>), the render cache, and the slot an echo takes over. Shown
  here: one render adds one entry per tab or replaces the sender's own placeholder, and the cache
  answers with the block it was given even where a fresh rendering would differ.
\<close>

subsection \<open>Fields of a header\<close>

definition hex_digit :: "char \<Rightarrow> bool" where
  "hex_digit c \<longleftrightarrow> (let n = nat_of c in (48 \<le> n \<and> n \<le> 57) \<or> (97 \<le> n \<and> n \<le> 102) \<or> (65 \<le> n \<and> n \<le> 70))"

definition isHexString :: "string \<Rightarrow> bool" where
  "isHexString s \<longleftrightarrow> s \<noteq> [] \<and> list_all hex_digit s"

definition shortHashHex :: "string \<Rightarrow> string" where
  "shortHashHex hashHex =
     (if \<not> isHexString hashHex then []
      else if length hashHex \<ge> 4 then to_lower (take 4 hashHex) else to_lower hashHex)"

definition hexField :: "string \<Rightarrow> string" where
  "hexField s = (let t = to_lower (TrimSpace s) in if isHexString t then t else [])"

definition shortBadge :: "string \<Rightarrow> string" where
  "shortBadge pubHex = (let h = hexField pubHex in if length h \<ge> 8 then take 8 h else h)"

definition metaLineFor :: "u64 \<Rightarrow> string \<Rightarrow> string \<Rightarrow> string" where
  "metaLineFor height hashHex badgePart =
     ''#'' @ dec (unat height) @ '':'' @ shortHashHex hashHex
     @ (if badgePart = [] then [] else '' '' @ encode_runes [0x270D, 0xFE0F] @ '' '' @ badgePart)"

definition wantsMeta :: "WireMessage \<Rightarrow> bool \<Rightarrow> bool" where
  "wantsMeta msg withMeta \<longleftrightarrow> \<not> (\<not> withMeta \<or> wType msg = ''system'' \<or> wChainHash msg = [])"

definition quotable :: "WireMessage \<Rightarrow> bool" where
  "quotable msg \<longleftrightarrow> wType msg = ''chat'' \<and> wChainHeight msg > 0"

definition isVoteWire :: "WireMessage \<Rightarrow> bool" where
  "isVoteWire msg \<longleftrightarrow> wType msg = ''system'' \<and> wVoteTarget msg > 0 \<and> HasTag (wTags msg) TagVote"

definition vote_score :: "ClientVotes \<Rightarrow> int" where
  "vote_score v = vsUpvotes v - vsDownvotes v"

definition authorField :: "cl_env \<Rightarrow> string \<Rightarrow> string" where
  "authorField env s = NeutralizeDisplayName (SanitizeSingleLine (kGC env) s)"

definition tabForWire :: "WireMessage \<Rightarrow> int" where
  "tabForWire msg = (if wType msg \<noteq> ''system'' then TabChat else TabSystem)"

subsection \<open>Content verdict\<close>

datatype link_error = MalformedHash | MalformedPrev | ContentMismatch | PrevMismatch

definition VerifyWireContent :: "WireMessage \<Rightarrow> link_error option" where
  "VerifyWireContent msg =
     (case ParseHex64 (wChainHash msg) of
        None \<Rightarrow> Some MalformedHash
      | Some want \<Rightarrow>
          (case ParseHex64 (wChainPrev msg) of
             None \<Rightarrow> Some MalformedPrev
           | Some prev \<Rightarrow> if \<not> VerifyWire prev msg want then Some ContentMismatch else None))"

definition link_error_text :: "link_error \<Rightarrow> string" where
  "link_error_text e = ''chain link broken: '' @
     (case e of
        MalformedHash \<Rightarrow> ''malformed chain_hash''
      | MalformedPrev \<Rightarrow> ''malformed chain_prev''
      | ContentMismatch \<Rightarrow> ''hash does not match content''
      | PrevMismatch \<Rightarrow> ''prev does not continue the local tip'')"

subsection \<open>Quotes\<close>

definition wrapPendingQuote :: "cl_env \<Rightarrow> string \<Rightarrow> bool \<Rightarrow> string" where
  "wrapPendingQuote env line pending = (if \<not> pending then line else kDim env line)"

definition quoteFirstLine :: "cl_env \<Rightarrow> string \<Rightarrow> int \<Rightarrow> string" where
  "quoteFirstLine env s maxRunes =
     (let plain = kStrip env s;
          (line, more0) = (case split_first (CHR 0x0A) plain of
              None \<Rightarrow> (plain, False)
            | Some (l, rest) \<Rightarrow> (l, TrimSpace rest \<noteq> []));
          t = TrimSpace line;
          line1 = TrimSpace (SanitizeForDisplay (kGC env) (if starts_with t ''|'' then drop 1 t else t));
          limit = (if maxRunes < 20 then 20 else maxRunes);
          rs = runes line1;
          (line2, more1) = (if int (length rs) > limit then (encode_runes (take (nat limit) rs), True) else (line1, more0))
      in if more1 then line2 @ kDim env ''...'' else line2)"

definition formatQuote :: "cl_env \<Rightarrow> u64 \<Rightarrow> string \<Rightarrow> bool \<Rightarrow> int \<Rightarrow> string" where
  "formatQuote env height headEntry pending maxRunes =
     wrapPendingQuote env (encode_runes [0x21A9] @ '' #'' @ dec (unat height) @ '': '' @ quoteFirstLine env headEntry maxRunes) pending"

definition formatQuoteRich :: "cl_env \<Rightarrow> WireMessage \<Rightarrow> bool \<Rightarrow> int \<Rightarrow> string" where
  "formatQuoteRich env msg pending maxRunes =
     (let mark = (case VerifyWireContent msg of None \<Rightarrow> [] | Some e \<Rightarrow> '' '' @ kWarn env (encode_runes [0x2717])) in
      wrapPendingQuote env
        (encode_runes [0x21A9] @ '' #'' @ dec (unat (wChainHeight msg)) @ '' '' @ encode_runes [0x2022] @ '' '' @ SanitizeSingleLine (kGC env) (wTime msg) @ '' ''
         @ authorField env (wDisplayName msg) @ '': '' @ quoteFirstLine env (wText msg) maxRunes @ mark) pending)"

definition buffer_quote :: "cl_env \<Rightarrow> u64 \<Rightarrow> bool \<Rightarrow> tabBuffer \<Rightarrow> string option" where
  "buffer_quote env replyTo pending buf =
     (case entryIndexByHeight (tbLines buf) replyTo [] of
        None \<Rightarrow> None
      | Some i \<Rightarrow>
          let body = enBody (ent (tbLines buf ! i))
          in if body = [] then None
             else Some (formatQuote env replyTo body pending (QuoteMaxRunes (kCfg env))))"

definition quoteLinesFor :: "cl_env \<Rightarrow> u64 \<Rightarrow> bool \<Rightarrow> Session \<Rightarrow> string list" where
  "quoteLinesFor env replyTo pending s =
     (case wix_get replyTo (chWireIdx (ssChain s)) of
        Some w \<Rightarrow>
          if quotable w then [formatQuoteRich env w pending (QuoteMaxRunes (kCfg env))]
          else (case buffer_quote env replyTo pending (dsTabChat (ssDisplay s)) of
                  Some q \<Rightarrow> [q]
                | None \<Rightarrow> (case buffer_quote env replyTo pending (dsTabSys (ssDisplay s)) of Some q \<Rightarrow> [q] | None \<Rightarrow> []))
      | None \<Rightarrow>
          (case buffer_quote env replyTo pending (dsTabChat (ssDisplay s)) of
             Some q \<Rightarrow> [q]
           | None \<Rightarrow> (case buffer_quote env replyTo pending (dsTabSys (ssDisplay s)) of Some q \<Rightarrow> [q] | None \<Rightarrow> [])))"

fun rows_of :: "string list \<Rightarrow> string" where
  "rows_of [] = []"
| "rows_of [q] = q"
| "rows_of (q # q' # qs) = q @ nl @ rows_of (q' # qs)"

definition replyPreviewLine :: "cl_env \<Rightarrow> Session \<Rightarrow> string" where
  "replyPreviewLine env s =
     (let p = ssPending s;
          height = (if pnReplyDraft p = 0 then pnReplyTo p else pnReplyDraft p)
      in if height = 0 then []
         else case quoteLinesFor env height (pnReplyDraft p > 0) s of [] \<Rightarrow> [] | q # qs \<Rightarrow> q)"

subsection \<open>Folding long messages\<close>

fun split_on :: "char \<Rightarrow> string \<Rightarrow> string list" where
  "split_on z [] = [[]]"
| "split_on z (c # cs) =
     (if c = z then [] # split_on z cs
      else case split_on z cs of [] \<Rightarrow> [[c]] | w # ws \<Rightarrow> (c # w) # ws)"

definition runeStrCells :: "cl_env \<Rightarrow> string \<Rightarrow> int" where
  "runeStrCells env s = sum_list (map (\<lambda>r. int (kRuneWidth env r)) (runes s))"

definition rowCost :: "cl_env \<Rightarrow> string \<Rightarrow> int \<Rightarrow> int" where
  "rowCost env line width =
     (let cells = runeStrCells env line in if cells > 0 then (cells + width - 1) div width else 1)"

definition estimateRows :: "cl_env \<Rightarrow> string \<Rightarrow> int \<Rightarrow> int" where
  "estimateRows env s width =
     (let w = (if width < 1 then 80 else width)
      in sum_list (map (\<lambda>line. rowCost env line w) (split_on (CHR 0x0A) (trim_newline s))))"

text \<open>\<open>cutCells\<close>: the loop over the runes of the string with the bytes of each.\<close>

fun cut_loop :: "cl_env \<Rightarrow> int \<Rightarrow> int \<Rightarrow> string \<Rightarrow> (nat \<times> nat) list \<Rightarrow> string" where
  "cut_loop env budget cells s [] = []"
| "cut_loop env budget cells s ((r, w) # ps) =
     (let cells' = cells + int (kRuneWidth env r)
      in if cells' > budget then [] else take w s @ cut_loop env budget cells' (drop w s) ps)"

definition cutCells :: "cl_env \<Rightarrow> string \<Rightarrow> int \<Rightarrow> string" where
  "cutCells env s budget = cut_loop env budget 0 s (rune_pieces s)"

definition expandTrailer :: "cl_env \<Rightarrow> u64 \<Rightarrow> string" where
  "expandTrailer env height =
     kDim env ''...'' @ '' '' @ ''[Xem'' @ encode_runes [0xA0] @ ''th'' @ encode_runes [0xEA] @ ''m:'' @ encode_runes [0xA0] @ ''/expand'' @ encode_runes [0xA0] @ ''#'' @ dec (unat height) @ '']''"

fun fold_loop :: "cl_env \<Rightarrow> int \<Rightarrow> int \<Rightarrow> int \<Rightarrow> string list \<Rightarrow> string list \<Rightarrow> string list" where
  "fold_loop env budget width used keep [] = keep"
| "fold_loop env budget width used keep (line # lines) =
     (if used + rowCost env line width > budget
      then if keep = [] then [cutCells env line (budget * width)] else keep
      else fold_loop env budget width (used + rowCost env line width) (keep @ [line]) lines)"

definition foldLines :: "cl_env \<Rightarrow> string list \<Rightarrow> int \<Rightarrow> int \<Rightarrow> string list" where
  "foldLines env lines budget width = fold_loop env budget width 0 [] lines"

definition collapseBody :: "cl_env \<Rightarrow> string \<Rightarrow> u64 \<Rightarrow> int \<Rightarrow> int \<Rightarrow> int \<Rightarrow> string option" where
  "collapseBody env body height rows preview width =
     (if height = 0 \<or> body = [] then None
      else if estimateRows env body width \<le> rows then None
      else let keep = foldLines env (split_on (CHR 0x0A) body) preview width
        in if keep = [] then None
           else Some (rows_of (butlast keep @ [last keep @ expandTrailer env height])))"

definition maybeCollapse :: "cl_env \<Rightarrow> entry \<Rightarrow> WireMessage \<Rightarrow> int \<Rightarrow> entry" where
  "maybeCollapse env e w tab =
     (if tab = TabSystem \<or> kCfg env = None \<or> \<not> CollapseEnabled (kCfg env) then e
      else case collapseBody env (enBody (ent e)) (wChainHeight w) (CollapseRows (kCfg env))
                  (CollapsePreviewRows (kCfg env)) (kTermWidth env) of
          None \<Rightarrow> e
        | Some folded \<Rightarrow> Entry ((ent e)\<lparr>enBody := folded, enCollapsed := True\<rparr>) (quoteEntry e))"

subsection \<open>Blocks\<close>

definition voteStripFor :: "cl_env \<Rightarrow> u64 \<Rightarrow> Session \<Rightarrow> string" where
  "voteStripFor env height s =
     (if height = 0 then []
      else let c = (case chVotes (ssChain s) height of Some v \<Rightarrow> v | None \<Rightarrow> \<lparr>vsUpvotes = 0, vsDownvotes = 0\<rparr>)
        in kUp env (encode_runes [0x25B2] @ dec_int (vsUpvotes c)) @ '' '' @ kWarn env (encode_runes [0x25BC] @ dec_int (vsDownvotes c)))"

definition isMine :: "WireMessage \<Rightarrow> Session \<Rightarrow> bool" where
  "isMine msg s =
     (case wTrip msg of
        Some t \<Rightarrow>
          if length (ssTripPub s) > 0 then to_lower (tmPub t) = to_lower (hex_encode (ssTripPub s))
          else ssUsername s \<noteq> [] \<and> wDisplayName msg = ssUsername s
      | None \<Rightarrow> ssUsername s \<noteq> [] \<and> wDisplayName msg = ssUsername s)"

definition buildChatBlock :: "cl_env \<Rightarrow> WireMessage \<Rightarrow> bool \<Rightarrow> bool \<Rightarrow> Session \<Rightarrow> entry \<times> int" where
  "buildChatBlock env msg av withMeta s =
     (if wType msg = ''system''
      then (Entry (zero_fields\<lparr>enHeader := SanitizeForDisplay (kGC env) (wText msg), enBanner := wSysDate msg \<noteq> [],
              enDay := wSysDate msg, enKind := kindSystem\<rparr>) None, tabForWire msg)
      else let
        meta = wantsMeta msg withMeta;
        header = SanitizeSingleLine (kGC env) (wTime msg) @ '' '' @ authorField env (wDisplayName msg)
          @ (if meta
             then '' '' @ encode_runes [0x2022] @ '' '' @ metaLineFor (wChainHeight msg) (wChainHash msg)
                      (case wTrip msg of None \<Rightarrow> [] | Some t \<Rightarrow> kBadge env msg av)
                  @ '' '' @ voteStripFor env (wChainHeight msg) s
             else []);
        rendered = kBody env (tbLines (dsTabChat (ssDisplay s))) (wText msg);
        body = (if TrimSpace (kStrip env rendered) = [] \<and> TrimSpace (wText msg) \<noteq> []
                then SanitizeForDisplay (kGC env) (wText msg) else rendered);
        quote = (if wReplyTo msg > 0 then rows_of (quoteLinesFor env (wReplyTo msg) False s) else [])
        in (Entry (zero_fields\<lparr>enQuote := quote, enHeader := header, enBody := body,
              enKind := (if isMine msg s then kindMine else kindChat),
              enHeight := (if meta then wChainHeight msg else 0),
              enHashHex := (if meta then shortHashHex (wChainHash msg) else [])\<rparr>) None, TabChat))"

definition notifyWireAllowed :: "WireMessage \<Rightarrow> Session \<Rightarrow> bool" where
  "notifyWireAllowed msg s \<longleftrightarrow> TagsForWire msg = [] \<or> WireAllowed msg (dsNotify (ssDisplay s))"

definition note_reveal :: "cl_env \<Rightarrow> WireMessage \<Rightarrow> Session \<Rightarrow> Session" where
  "note_reveal env msg s =
     (let seed = to_lower (TrimSpace (wExposedSeed msg)) in
      if wType msg = ''system'' \<and> HasTag (wTags msg) TagTripReveal \<and> seed \<noteq> []
         \<and> VerifySeed (kPubOfSeed env) seed (wExposedPub msg)
      then upd_display (\<lambda>d. d\<lparr>dsRevealProof := (dsRevealProof d)(to_lower (wExposedPub msg) \<mapsto> seed)\<rparr>) s
      else s)"

text \<open>The closure \<open>emit\<close>: a consumed echo lands in its placeholder's slot.\<close>

definition emit_block :: "bool \<Rightarrow> int \<Rightarrow> entry \<Rightarrow> Session \<Rightarrow> Session" where
  "emit_block live tab e s =
     (if tab = TabChat then
        let slot = pnEchoSlot (ssPending s); s1 = upd_pending (\<lambda>p. p\<lparr>pnEchoSlot := None\<rparr>) s in
        (case slot of
           None \<Rightarrow> emitTabLive live tab e s1
         | Some pm \<Rightarrow>
             (case replaceSlot (pmSlot pm) e (dsTabChat (ssDisplay s1)) of
                (buf, True) \<Rightarrow> upd_display (\<lambda>d. d\<lparr>dsTabChat := buf\<rparr>) s1
              | (buf, False) \<Rightarrow> emitTabLive live tab e s1))
      else emitTabLive live tab e s)"

definition cache_key :: "cl_env \<Rightarrow> WireMessage \<Rightarrow> bool \<Rightarrow> bool \<Rightarrow> Session \<Rightarrow> string" where
  "cache_key env msg av withMeta s =
     to_lower (wChainHash msg) @ [NUL] @ wType msg @ [NUL] @ (if av then ''v'' else ''p'') @ [NUL]
     @ (if withMeta then ''m'' else ''n'') @ [NUL] @ voteStripFor env (wChainHeight msg) s"

definition cacheable :: "WireMessage \<Rightarrow> bool" where
  "cacheable msg \<longleftrightarrow> wChainHash msg \<noteq> [] \<and> \<not> str_contains (wText msg) ''@#'' \<and> wReplyTo msg = 0"

definition rendered_block :: "cl_env \<Rightarrow> WireMessage \<Rightarrow> bool \<Rightarrow> bool \<Rightarrow> Session \<Rightarrow> entry \<times> int" where
  "rendered_block env msg av withMeta s =
     (case buildChatBlock env msg av withMeta s of (e, tab) \<Rightarrow> (maybeCollapse env e msg tab, tab))"

definition renderChatBlock :: "cl_env \<Rightarrow> WireMessage \<Rightarrow> Session \<Rightarrow> Session" where
  "renderChatBlock env msg s =
     (let s1 = note_reveal env msg (upd_chain (\<lambda>c. c\<lparr>chWireIdx := wix_put msg (chWireIdx c)\<rparr>) s);
          av = ssAutoVerify s1; withMeta = dsShowMeta (ssDisplay s1);
          live = notifyWireAllowed msg s1
      in if cacheable msg then
           let key = cache_key env msg av withMeta s1 in
           (case cache_get key (chRenderCache (ssChain s1)) of
              Some hit \<Rightarrow> emit_block live (rbTab hit) (rbEntry hit) s1
            | None \<Rightarrow>
                (case rendered_block env msg av withMeta s1 of
                   (e, tab) \<Rightarrow> emit_block live tab e
                     (upd_chain (\<lambda>c. c\<lparr>chRenderCache := cache_put key \<lparr>rbTab = tab, rbEntry = e\<rparr> (chRenderCache c)\<rparr>) s1)))
         else case rendered_block env msg av withMeta s1 of (e, tab) \<Rightarrow> emit_block live tab e s1)"

subsection \<open>Vote totals\<close>

definition refreshVoteLocked :: "cl_env \<Rightarrow> u64 \<Rightarrow> Session \<Rightarrow> Session" where
  "refreshVoteLocked env target s =
     (case wix_get target (chWireIdx (ssChain s)) of
        None \<Rightarrow> s
      | Some msg \<Rightarrow>
          (case entryIndexByHeight (tbLines (dsTabChat (ssDisplay s))) target [] of
             None \<Rightarrow> s
           | Some idx \<Rightarrow>
               let full = maybeCollapse env
                     (fst (buildChatBlock env msg (ssAutoVerify s) (dsShowMeta (ssDisplay s)) s)) msg TabChat
               in upd_display (\<lambda>d. d\<lparr>dsTabChat :=
                    insertAt (int idx) [full] (spliceOut (int idx) (int idx + 1) (dsTabChat d))\<rparr>) s))"

definition applyVoteLocked :: "cl_env \<Rightarrow> WireMessage \<Rightarrow> Session \<Rightarrow> Session \<times> bool" where
  "applyVoteLocked env msg s =
     (if \<not> isVoteWire msg then (s, False)
      else let s1 = upd_chain (\<lambda>c. c\<lparr>chVotes := (chVotes c)(wVoteTarget msg :=
             (if wVoteUpvotes msg = 0 \<and> wVoteDownvotes msg = 0 then None
              else Some \<lparr>vsUpvotes = wVoteUpvotes msg, vsDownvotes = wVoteDownvotes msg\<rparr>))\<rparr>) s
        in (refreshVoteLocked env (wVoteTarget msg) s1, True))"

text \<open>
  A recovered wire is rendered at the end of the chat buffer and its block moved behind its chain
  predecessor. The block is \<open>lines[beforeChat:]\<close>, a slice expression that panics when the buffer is now shorter
  than before.
\<close>

definition renderRecoveredInPlace :: "cl_env \<Rightarrow> WireMessage \<Rightarrow> Session \<Rightarrow> Session" where
  "renderRecoveredInPlace env msg s =
     (let beforeChat = length (tbLines (dsTabChat (ssDisplay s)));
          s1 = renderChatBlock env msg s;
          buf = dsTabChat (ssDisplay s1)
      in if beforeChat > length (tbLines buf) then s1\<lparr>ssPanic := True\<rparr>
         else let blockChat = drop beforeChat (tbLines buf);
                  spliced = spliceOut (int beforeChat) (int beforeChat + int (length blockChat)) buf;
                  chatIdx = (case metaHeightIndex (tbLines spliced) (wChainHeight msg - 1) of
                       Some i \<Rightarrow> int i | None \<Rightarrow> int (length (tbLines spliced)))
           in upd_display (\<lambda>d. d\<lparr>dsTabChat := insertAt chatIdx blockChat spliced\<rparr>) s1)"

end
