(* ===== verification/Client_Chain.thy ===== *)
theory Client_Chain
  imports Client_Render Chain_Integrity
begin

text \<open>
  The client's chain tracker, \<^verbatim>\<open>src/client/chainmeta.go\<close> and \<^verbatim>\<open>src/lib/clientcore/verify.go\<close>: the running tip
  and its file, the verification of every received link, echoes, fork detection, and the refill of heights lost in
  transit. An armed timer is an element of \<open>ssTimers\<close>, with the generation and the window its closure captured.
\<close>

subsection \<open>Echo matching\<close>

definition matchPendingIndex ::
  "pendingMsg list \<Rightarrow> u64 \<Rightarrow> u64 \<Rightarrow> string \<Rightarrow> string \<Rightarrow> string \<Rightarrow> time \<Rightarrow> nat option" where
  "matchPendingIndex pending tmpID replyTo line username echoDisplay now =
     (if echoDisplay \<noteq> username \<or> pending = [] then None
      else if tmpID \<noteq> 0
        then index_where (\<lambda>pm. pmTmpID pm = tmpID \<and> pmReplyTo pm = replyTo) 0 pending
        else index_where (\<lambda>pm. pmText pm = line \<and> now - pmSentAt pm < minute) 0 pending)"

fun trim_front :: "nat \<Rightarrow> 'a list \<Rightarrow> 'a list" where
  "trim_front n [] = []"
| "trim_front n (x # xs) = (if length (x # xs) > n then trim_front n xs else x # xs)"

definition stashEcho :: "pendingEcho list \<Rightarrow> WireMessage \<Rightarrow> nat \<Rightarrow> time \<Rightarrow> pendingEcho list" where
  "stashEcho stash msg capN now = trim_front capN (stash @ [\<lparr>peMsg = msg, peAt = now\<rparr>])"

fun takeStashedEcho :: "pendingEcho list \<Rightarrow> u64 \<Rightarrow> pendingEcho list \<times> WireMessage option" where
  "takeStashedEcho [] tmpID = ([], None)"
| "takeStashedEcho (e # es) tmpID =
     (if wTmpID (peMsg e) = tmpID then (es, Some (peMsg e))
      else case takeStashedEcho es tmpID of (rest, m) \<Rightarrow> (e # rest, m))"

definition maxSeenTmpIDs :: nat where "maxSeenTmpIDs = 64"

definition seenTmpID :: "u64 list \<Rightarrow> u64 \<Rightarrow> bool" where
  "seenTmpID seen tmpID \<longleftrightarrow> tmpID \<in> set seen"

definition noteConsumedTmpID :: "u64 list \<Rightarrow> u64 \<Rightarrow> u64 list" where
  "noteConsumedTmpID seen tmpID =
     (if tmpID = 0 \<or> seenTmpID seen tmpID then seen else trim_front maxSeenTmpIDs (seen @ [tmpID]))"

definition reapStaleEchoes :: "pendingEcho list \<Rightarrow> duration \<Rightarrow> time \<Rightarrow> pendingEcho list \<times> WireMessage list" where
  "reapStaleEchoes stash maxAge now =
     (filter (\<lambda>e. \<not> now - peAt e > maxAge) stash, map peMsg (filter (\<lambda>e. now - peAt e > maxAge) stash))"

record echoConsume =
  ecStale :: "WireMessage list"
  ecMatched :: "pendingMsg option"

definition stash_unseen :: "WireMessage \<Rightarrow> bool \<Rightarrow> time \<Rightarrow> PendingState \<Rightarrow> PendingState" where
  "stash_unseen msg allow now p =
     (if allow \<and> wTmpID msg \<noteq> 0 \<and> \<not> seenTmpID (pnSeenTmpIDs p) (wTmpID msg)
      then p\<lparr>pnEchoes := stashEcho (pnEchoes p) msg 16 now\<rparr> else p)"

definition planEchoConsume :: "WireMessage \<Rightarrow> bool \<Rightarrow> time \<Rightarrow> Session \<Rightarrow> Session \<times> echoConsume" where
  "planEchoConsume msg allowStash now s =
     (case reapStaleEchoes (pnEchoes (ssPending s)) (10 * second) now of (fresh, stale) \<Rightarrow>
      let p = (ssPending s)\<lparr>pnEchoes := fresh\<rparr> in
      if wDisplayName msg \<noteq> ssUsername s \<or> pnPlaceholders p = []
      then (s\<lparr>ssPending := stash_unseen msg (allowStash \<and> wDisplayName msg = ssUsername s) now p\<rparr>,
            \<lparr>ecStale = stale, ecMatched = None\<rparr>)
      else case matchPendingIndex (pnPlaceholders p) (wTmpID msg) (wReplyTo msg) (wText msg) (ssUsername s)
                  (wDisplayName msg) now of
          None \<Rightarrow> (s\<lparr>ssPending := stash_unseen msg allowStash now p\<rparr>, \<lparr>ecStale = stale, ecMatched = None\<rparr>)
        | Some idx \<Rightarrow>
            (s\<lparr>ssPending := p\<lparr>pnPlaceholders := take idx (pnPlaceholders p) @ drop (Suc idx) (pnPlaceholders p),
                 pnSeenTmpIDs := noteConsumedTmpID (pnSeenTmpIDs p) (wTmpID msg)\<rparr>\<rparr>,
             \<lparr>ecStale = stale, ecMatched = Some (pnPlaceholders p ! idx)\<rparr>))"

definition stale_text :: "WireMessage \<Rightarrow> string" where
  "stale_text w = ''[Local]: Echo kh'' @ encode_runes [0xF4] @ ''ng kh'' @ encode_runes [0x1EDB] @ ''p tin '' @ encode_runes [0x111] @ ''ang ch'' @ encode_runes [0x1EDD] @ '' (tmp_id='' @ dec (unat (wTmpID w))
     @ '') '' @ encode_runes [0x2014] @ '' ID c'' @ encode_runes [0xF3] @ '' th'' @ encode_runes [0x1EC3] @ '' '' @ encode_runes [0x111, 0xE3] @ '' b'' @ encode_runes [0x1ECB] @ '' s'' @ encode_runes [0x1EED] @ ''a.'' @ nl"

definition consumeEchoLocked :: "WireMessage \<Rightarrow> bool \<Rightarrow> time \<Rightarrow> Session \<Rightarrow> Session" where
  "consumeEchoLocked msg allowStash now s =
     (case planEchoConsume msg allowStash now s of (s1, act) \<Rightarrow>
      let s2 = fold (\<lambda>w. emitLocalFeedback (stale_text w)) (ecStale act) s1 in
      case ecMatched act of
        None \<Rightarrow> s2
      | Some pm \<Rightarrow> upd_pending (\<lambda>p. p\<lparr>pnEchoSlot := Some pm\<rparr>) s2)"

definition erasePlaceholderLocked :: "pendingMsg \<Rightarrow> Session \<Rightarrow> Session" where
  "erasePlaceholderLocked pm s =
     (if \<not> slot_held (pmSlot pm) (tbLines (dsTabChat (ssDisplay s))) then s
      else upd_display (\<lambda>d. d\<lparr>dsTabChat :=
        spliceOut (slIndex (pmSlot pm)) (slIndex (pmSlot pm) + 1) (dsTabChat d)\<rparr>) s)"

subsection \<open>The tip and its file\<close>

definition tipBatchSaves :: u64 where "tipBatchSaves = 50"

definition loadChainTip :: "chainTipRecord option \<Rightarrow> (bytes \<times> u64 \<times> string) option" where
  "loadChainTip file =
     (case file of
        None \<Rightarrow> None
      | Some rec \<Rightarrow>
          (case ParseHex64 (ctTip rec) of None \<Rightarrow> None | Some tip \<Rightarrow> Some (tip, ctHeight rec, ctServerPub rec)))"

text \<open>\<open>saveChainTip\<close>: encode, write the temporary file, rename it; one outcome.\<close>

definition saveChainTip :: "cl_env \<Rightarrow> bytes \<Rightarrow> u64 \<Rightarrow> string \<Rightarrow> Session \<Rightarrow> Session \<times> bool" where
  "saveChainTip env tip height spub s =
     (if kIO env (ssIO s)
      then (s\<lparr>ssIO := Suc (ssIO s),
              ssTipFile := Some \<lparr>ctTip = hex_encode tip, ctHeight = height, ctServerPub = spub\<rparr>\<rparr>, True)
      else (s\<lparr>ssIO := Suc (ssIO s)\<rparr>, False))"

definition batch_saved :: "Session \<times> bool \<Rightarrow> Session" where
  "batch_saved r =
     (case r of (s, ok) \<Rightarrow>
      if ok \<and> chTipSinceSave (ssChain s) \<ge> tipBatchSaves then upd_chain (\<lambda>c. c\<lparr>chTipSinceSave := 0\<rparr>) s else s)"

definition noteChainTip :: "cl_env \<Rightarrow> bytes \<Rightarrow> u64 \<Rightarrow> Session \<Rightarrow> Session" where
  "noteChainTip env tip height s =
     (let s1 = upd_chain (\<lambda>c. c\<lparr>chTip := tip, chHeight := height, chHaveTip := True,
            chTipSinceSave := chTipSinceSave c + 1\<rparr>) s
      in if chTipSinceSave (ssChain s1) \<ge> tipBatchSaves
         then batch_saved (saveChainTip env tip height (chServerPubHex (ssChain s1)) s1) else s1)"

definition flushChainTip :: "cl_env \<Rightarrow> Session \<Rightarrow> Session" where
  "flushChainTip env s =
     (if \<not> chHaveTip (ssChain s) then s
      else batch_saved (saveChainTip env (chTip (ssChain s)) (chHeight (ssChain s)) (chServerPubHex (ssChain s)) s))"

definition zero32 :: bytes where "zero32 = replicate 32 NUL"

definition initChainState :: "Session \<Rightarrow> Session" where
  "initChainState s =
     (let pub = to_lower (TrimSpace (ssServerPubKey s));
          (tip, height, server, have_tip) = (case loadChainTip (ssTipFile s) of
              None \<Rightarrow> (zero32, 0, [], False) | Some (t, h, p) \<Rightarrow> (t, h, p, True));
          foreign = (have_tip \<and> to_lower server \<noteq> to_lower pub)
      in upd_chain (\<lambda>c. c\<lparr>chServerPubHex := pub,
           chPersistedTip := (if foreign then zero32 else tip),
           chPersistedHeight := (if foreign then 0 else height),
           chPersistedServer := server,
           chHavePersistedTip := (have_tip \<and> \<not> foreign),
           chInSync := False, chInOlder := False\<rparr>) s)"

subsection \<open>One link\<close>

definition verifyWireLink :: "WireMessage \<Rightarrow> bytes \<Rightarrow> link_error + bytes" where
  "verifyWireLink msg prev =
     (case ParseHex64 (wChainPrev msg) of
        None \<Rightarrow> Inl MalformedPrev
      | Some gotPrev \<Rightarrow>
          if gotPrev \<noteq> prev then Inl PrevMismatch
          else case ParseHex64 (wChainHash msg) of
              None \<Rightarrow> Inl MalformedHash
            | Some want \<Rightarrow> (case VerifyWireContent msg of Some e \<Rightarrow> Inl e | None \<Rightarrow> Inr want))"

definition fork_text :: "u64 \<Rightarrow> string" where
  "fork_text h = ''[Local]: L'' @ encode_runes [0x1ECB] @ ''ch s'' @ encode_runes [0x1EED] @ '' server kh'' @ encode_runes [0xE1] @ ''c tip '' @ encode_runes [0x111, 0xE3] @ '' l'' @ encode_runes [0x1B0] @ ''u '' @ encode_runes [0x1EDF] @ '' #'' @ dec (unat h) @ '' '' @ encode_runes [0x2014] @ '' log c'' @ encode_runes [0xF3] @ '' th'' @ encode_runes [0x1EC3] @ '' '' @ encode_runes [0x111, 0xE3] @ '' ph'' @ encode_runes [0xE2] @ ''n nh'' @ encode_runes [0xE1] @ ''nh (fork).'' @ nl"

definition forkWarning ::
  "HistorySync \<Rightarrow> bool \<Rightarrow> bytes \<Rightarrow> u64 \<Rightarrow> (u64 \<rightharpoonup> bytes) \<Rightarrow> string \<times> bool" where
  "forkWarning hs havePersistedTip persistedTip persistedHeight syncHeights =
     (if \<not> havePersistedTip \<or> hsDropped hs > 0 then ([], False)
      else if persistedHeight < hsMinHeight hs \<or> persistedHeight > hsMaxHeight hs then ([], False)
      else case syncHeights persistedHeight of
          None \<Rightarrow> ([], False)
        | Some got \<Rightarrow> if got = persistedTip then ([], False) else (fork_text persistedHeight, True))"

subsection \<open>Refilling lost heights\<close>

fun runs_loop :: "u64 list \<Rightarrow> HeightRange list \<Rightarrow> HeightRange list" where
  "runs_loop [] runs = runs"
| "runs_loop (h # hs) runs =
     (if runs \<noteq> [] \<and> hrTo (last runs) + 1 = h
      then runs_loop hs (butlast runs @ [(last runs)\<lparr>hrTo := h\<rparr>])
      else runs_loop hs (runs @ [\<lparr>hrFrom = h, hrTo = h\<rparr>]))"

definition missingRuns :: "u64 set \<Rightarrow> HeightRange list" where
  "missingRuns missing = runs_loop (sorted_list_of_set missing) []"

definition pruneMissing :: "recoverWindow \<Rightarrow> recoverWindow" where
  "pruneMissing p =
     fold (\<lambda>run p. if rwKnown p (hrFrom run - 1) \<noteq> None then p
            else p\<lparr>rwMissing := {h \<in> rwMissing p. \<not> (hrFrom run \<le> h \<and> h \<le> hrTo run)},
                   rwLive := {h \<in> rwLive p. \<not> (hrFrom run \<le> h \<and> h \<le> hrTo run)}\<rparr>)
       (missingRuns (rwMissing p)) p"

definition recoverSettleTimeout :: duration where "recoverSettleTimeout = 5 * second"

definition refill_request :: "recoverWindow \<Rightarrow> HistoryRequest" where
  "refill_request p = \<lparr>hqType = ''history_request'', hqBefore = 0, hqLimit = int (card (rwMissing p)),
     hqAfterSeq = None, hqBeforeSeq = None, hqRanges = missingRuns (rwMissing p)\<rparr>"

definition set_window :: "recoverWindow option \<Rightarrow> Session \<Rightarrow> Session" where
  "set_window w s = upd_chain (\<lambda>c. c\<lparr>chRecoverPending := w\<rparr>) s"

definition arm :: "timer \<Rightarrow> Session \<Rightarrow> Session" where
  "arm t s = s\<lparr>ssTimers := ssTimers s @ [t]\<rparr>"

definition sendRecoverLocked :: "cl_env \<Rightarrow> time \<Rightarrow> Session \<Rightarrow> Session \<times> bool" where
  "sendRecoverLocked env now s =
     (case chRecoverPending (ssChain s) of
        None \<Rightarrow> (s, False)
      | Some p0 \<Rightarrow>
          if \<not> ssConn s then (s, False)
          else let p = pruneMissing p0; s1 = set_window (Some p) s in
            if rwMissing p = {} then (s1, False)
            else case sendJSON env (HistoryReq (refill_request p)) s1 of
                (s2, False) \<Rightarrow> (s2, False)
              | (s2, True) \<Rightarrow>
                  (arm (SettleTimer (chRecoverGen (ssChain s2) + 1) (rwAddr p))
                    (upd_chain (\<lambda>c. c\<lparr>chInRecover := True,
                       chRecoverPending := Some (p\<lparr>rwAttempts := Suc (rwAttempts p), rwReceived := 0, rwFailed := False,
                         rwRequestedAt := now\<rparr>),
                       chRecoverGen := chRecoverGen c + 1\<rparr>) s2), True))"

definition heights_between :: "u64 \<Rightarrow> u64 \<Rightarrow> u64 set" where
  "heights_between lo hi = set (map (\<lambda>i. lo + of_nat i) [0..<Suc (unat (hi - lo))])"

definition maybeRequestRecovery ::
  "cl_env \<Rightarrow> time \<Rightarrow> u64 \<Rightarrow> u64 \<Rightarrow> u64 \<Rightarrow> bytes \<Rightarrow> Session \<Rightarrow> Session \<times> bool" where
  "maybeRequestRecovery env now lo hi anchorHeight anchorHash s =
     (if \<not> ssConn s \<or> lo = 0 \<or> hi < lo then (s, False)
      else let
        capN = (case kCfg env of None \<Rightarrow> 0 | Some c \<Rightarrow> HistoryLiveRecoverCap (kCfg env));
        (p, s1) = (case chRecoverPending (ssChain s) of
            Some p \<Rightarrow> (p, s)
          | None \<Rightarrow>
              let p = \<lparr>rwAddr = ssAlloc s, rwMissing = {}, rwKnown = Map.empty, rwLive = {}, rwMaxMissing = 0,
                       rwReceived = 0, rwAttempts = 0, rwFailed = False, rwRequestedAt = 0\<rparr>
              in (p, set_window (Some p) (s\<lparr>ssAlloc := Suc (ssAlloc s)\<rparr>)));
        gap = sint (hi - lo + 1)
        in if capN > 0 \<and> int (chLiveRecovered (ssChain s1)) + int (card (rwLive p)) + gap > capN
           then (if rwMissing p = {} then set_window None s1 else s1, False)
           else let p' = p\<lparr>rwMissing := rwMissing p \<union> heights_between lo hi, rwLive := rwLive p \<union> heights_between lo hi,
                      rwMaxMissing := max (rwMaxMissing p) hi, rwKnown := (rwKnown p)(anchorHeight \<mapsto> anchorHash)\<rparr>;
                    s2 = set_window (Some p') s1
             in if rwAttempts p' = 0 then sendRecoverLocked env now s2 else (s2, True))"

definition abandon_text :: "recoverWindow \<Rightarrow> string" where
  "abandon_text p = ''Kh'' @ encode_runes [0xF4] @ ''ng b'' @ encode_runes [0xF9] @ '' '' @ encode_runes [0x111, 0x1EE7] @ '' tin (nh'' @ encode_runes [0x1EAD] @ ''n '' @ dec (rwReceived p) @ ''/''
     @ dec (rwReceived p + card (rwMissing p)) @ '')''"

definition abandonRecoveryLocked :: "time \<Rightarrow> recoverWindow \<Rightarrow> Session \<Rightarrow> Session" where
  "abandonRecoveryLocked now p s =
     (if map_option rwAddr (chRecoverPending (ssChain s)) \<noteq> Some (rwAddr p) then s
      else releaseCatchupLocked (setStatusLocked (abandon_text p) now
        (upd_chain (\<lambda>c. c\<lparr>chRecoverPending := None, chInRecover := False\<rparr>) s)))"

definition finishRecovery :: "cl_env \<Rightarrow> time \<Rightarrow> Session \<Rightarrow> Session" where
  "finishRecovery env now s =
     (case chRecoverPending (ssChain s) of
        None \<Rightarrow> upd_chain (\<lambda>c. c\<lparr>chInRecover := False\<rparr>) s
      | Some p \<Rightarrow>
          if rwMissing p = {} \<and> \<not> rwFailed p then
            let s1 = upd_chain (\<lambda>c. c\<lparr>chRecoverPending := None, chInRecover := False\<rparr>) s
            in releaseCatchupLocked
                 (if rwReceived p > 0
                  then setStatusLocked (encode_runes [0x110, 0xE3] @ '' b'' @ encode_runes [0xF9] @ '' '' @ dec (rwReceived p) @ '' tin b'' @ encode_runes [0x1ECB] @ '' l'' @ encode_runes [0x1EE1]) now s1 else s1)
          else let retries = (case kCfg env of None \<Rightarrow> 2 | Some c \<Rightarrow> HistoryRecoverRetries (kCfg env))
            in if int (rwAttempts p) \<le> retries
               then arm (RetryTimer (chRecoverGen (ssChain s) + 1) (rwAddr p))
                      (upd_chain (\<lambda>c. c\<lparr>chRecoverGen := chRecoverGen c + 1\<rparr>) s)
               else abandonRecoveryLocked now p s)"

definition window_is :: "u64 \<Rightarrow> nat \<Rightarrow> Session \<Rightarrow> bool" where
  "window_is gen addr s \<longleftrightarrow>
     chRecoverGen (ssChain s) = gen \<and> map_option rwAddr (chRecoverPending (ssChain s)) = Some addr"

definition settleRecovery :: "cl_env \<Rightarrow> time \<Rightarrow> u64 \<Rightarrow> nat \<Rightarrow> Session \<Rightarrow> Session" where
  "settleRecovery env now gen addr s = (if window_is gen addr s then finishRecovery env now s else s)"

definition retryRecovery :: "cl_env \<Rightarrow> time \<Rightarrow> u64 \<Rightarrow> nat \<Rightarrow> Session \<Rightarrow> Session" where
  "retryRecovery env now gen addr s =
     (if \<not> window_is gen addr s then s
      else case sendRecoverLocked env now s of
          (s1, True) \<Rightarrow> s1
        | (s1, False) \<Rightarrow>
            (case chRecoverPending (ssChain s1) of None \<Rightarrow> s1 | Some p \<Rightarrow> abandonRecoveryLocked now p s1))"

subsection \<open>The running check\<close>

definition gap_text :: "u64 \<Rightarrow> u64 \<Rightarrow> string" where
  "gap_text from_h to_h = ''[Local]: B'' @ encode_runes [0x1ECF] @ '' l'' @ encode_runes [0x1EE1] @ '' '' @ dec (unat (to_h - from_h - 1)) @ '' tin (#'' @ dec (unat (from_h + 1)) @ encode_runes [0x2013]
     @ dec (unat (to_h - 1)) @ '') do k'' @ encode_runes [0x1EBF] @ ''t n'' @ encode_runes [0x1ED1] @ ''i ch'' @ encode_runes [0x1EAD] @ ''m '' @ encode_runes [0x2014] @ '' '' @ encode_runes [0x111, 0xE3] @ '' n'' @ encode_runes [0x1ED1] @ ''i l'' @ encode_runes [0x1EA1] @ ''i chu'' @ encode_runes [0x1ED7] @ ''i.'' @ nl"

definition warnChainGap :: "u64 \<Rightarrow> u64 \<Rightarrow> Session \<Rightarrow> Session" where
  "warnChainGap from_h to_h s =
     (if chGapWarned (ssChain s) then s
      else emitLocalFeedback (gap_text from_h to_h) (upd_chain (\<lambda>c. c\<lparr>chGapWarned := True\<rparr>) s))"

definition first_text :: string where
  "first_text = ''[Local]: Chain link '' @ encode_runes [0x111, 0x1EA7] @ ''u ti'' @ encode_runes [0xEA] @ ''n sai '' @ encode_runes [0x111, 0x1ECB] @ ''nh d'' @ encode_runes [0x1EA1] @ ''ng '' @ encode_runes [0x2014] @ '' b'' @ encode_runes [0x1ECF] @ '' qua ki'' @ encode_runes [0x1EC3] @ ''m tra.'' @ nl"

definition broken_text :: "u64 \<Rightarrow> link_error \<Rightarrow> string" where
  "broken_text h e = ''[Local]: Chu'' @ encode_runes [0x1ED7] @ ''i tin b'' @ encode_runes [0x1ECB] @ '' '' @ encode_runes [0x111, 0x1EE9] @ ''t '' @ encode_runes [0x1EDF] @ '' #'' @ dec (unat h) @ '' ('' @ link_error_text e
     @ '') '' @ encode_runes [0x2014] @ '' server ho'' @ encode_runes [0x1EB7] @ ''c l'' @ encode_runes [0x1ECB] @ ''ch s'' @ encode_runes [0x1EED] @ '' c'' @ encode_runes [0xF3] @ '' th'' @ encode_runes [0x1EC3] @ '' '' @ encode_runes [0x111, 0xE3] @ '' b'' @ encode_runes [0x1ECB] @ '' s'' @ encode_runes [0x1EED] @ ''a.'' @ nl"

definition warn_once :: "string \<Rightarrow> Session \<Rightarrow> Session" where
  "warn_once line s =
     (if chWarned (ssChain s) then s
      else emitLocalFeedback line (upd_chain (\<lambda>c. c\<lparr>chWarned := True\<rparr>) s))"

text \<open>The tail of \<open>checkChainLink\<close>, once the first link has been tried on its own \<open>prev\<close>.\<close>

definition settle_link :: "cl_env \<Rightarrow> time \<Rightarrow> WireMessage \<Rightarrow> link_error + bytes \<Rightarrow> Session \<Rightarrow> Session" where
  "settle_link env now msg res s =
     (case res of
        Inr newTip \<Rightarrow> noteChainTip env newTip (wChainHeight msg) s
      | Inl err \<Rightarrow>
          let c = ssChain s; parsed = ParseHex64 (wChainHash msg) in
          if parsed \<noteq> None \<and> chHaveTip c \<and> err = PrevMismatch \<and> wChainHeight msg > chHeight c + 1 then
            let s1 = (if chInSync c then s
                      else case maybeRequestRecovery env now (chHeight c + 1) (wChainHeight msg - 1) (chHeight c) (chTip c) s of
                          (s', True) \<Rightarrow> s'
                        | (s', False) \<Rightarrow> warnChainGap (chHeight c) (wChainHeight msg) s')
            in flushChainTip env (noteChainTip env (the parsed) (wChainHeight msg) s1)
          else
            let s1 = warn_once (broken_text (wChainHeight msg) err) s
            in flushChainTip env
                 (case parsed of Some h \<Rightarrow> noteChainTip env h (wChainHeight msg) s1 | None \<Rightarrow> s1))"

definition checkChainLink :: "cl_env \<Rightarrow> time \<Rightarrow> WireMessage \<Rightarrow> Session \<Rightarrow> Session" where
  "checkChainLink env now msg s =
     (if wChainHash msg = [] then s
      else let s1 = (if chInSync (ssChain s)
                     then case ParseHex64 (wChainHash msg) of
                         Some h \<Rightarrow> upd_chain (\<lambda>c. c\<lparr>chSyncHeights := (chSyncHeights c)(wChainHeight msg \<mapsto> h)\<rparr>) s
                       | None \<Rightarrow> s
                     else s)
        in if chHaveTip (ssChain s1) \<and> wChainHeight msg \<le> chHeight (ssChain s1) then s1
           else let s2 = (if chLoading (ssChain s1) \<and> chInSync (ssChain s1)
                          then upd_chain (\<lambda>c. c\<lparr>chLoadLoaded := chLoadLoaded c + 1\<rparr>) s1 else s1)
             in case verifyWireLink msg (chTip (ssChain s2)) of
                  Inr newTip \<Rightarrow> settle_link env now msg (Inr newTip) s2
                | Inl err \<Rightarrow>
                    if chHaveTip (ssChain s2) then settle_link env now msg (Inl err) s2
                    else case ParseHex64 (wChainPrev msg) of
                        None \<Rightarrow> warn_once first_text s2
                      | Some prev \<Rightarrow> settle_link env now msg (verifyWireLink msg prev) s2)"

definition checkRecoverWire :: "cl_env \<Rightarrow> time \<Rightarrow> WireMessage \<Rightarrow> Session \<Rightarrow> Session" where
  "checkRecoverWire env now msg s =
     (case chRecoverPending (ssChain s) of
        Some p \<Rightarrow>
          if wChainHash msg = [] \<or> wChainHeight msg > rwMaxMissing p
          then checkChainLink env now msg (consumeEchoLocked msg False now (upd_chain (\<lambda>c. c\<lparr>chInRecover := False\<rparr>) s))
          else let s1 = upd_chain (\<lambda>c. c\<lparr>chRecoverRendered := True\<rparr>) s;
                   fail = set_window (Some (p\<lparr>rwFailed := True\<rparr>)) s1 in
            if wChainHeight msg \<notin> rwMissing p then s1
            else case rwKnown p (wChainHeight msg - 1) of
                None \<Rightarrow> fail
              | Some prev \<Rightarrow>
                  (case verifyWireLink msg prev of
                     Inl err \<Rightarrow> fail
                   | Inr h \<Rightarrow>
                       let s2 = (if dsCatchupHold (ssDisplay s1) then renderRecoveredInPlace env msg s1
                                 else renderChatBlock env msg s1);
                           live = wChainHeight msg \<in> rwLive p;
                           p' = p\<lparr>rwMissing := rwMissing p - {wChainHeight msg},
                                  rwKnown := (rwKnown p)(wChainHeight msg \<mapsto> h),
                                  rwLive := rwLive p - {wChainHeight msg},
                                  rwReceived := Suc (rwReceived p)\<rparr>
                       in upd_chain (\<lambda>c. c\<lparr>chRecoverPending := Some p',
                            chLiveRecovered := (if live then Suc (chLiveRecovered c) else chLiveRecovered c)\<rparr>) s2)
      | None \<Rightarrow> checkChainLink env now msg (consumeEchoLocked msg False now (upd_chain (\<lambda>c. c\<lparr>chInRecover := False\<rparr>) s)))"

definition verifyReplayWire :: "cl_env \<Rightarrow> time \<Rightarrow> WireMessage \<Rightarrow> bool \<Rightarrow> Session \<Rightarrow> Session \<times> bool" where
  "verifyReplayWire env now msg allowStash s =
     (let s0 = upd_chain (\<lambda>c. c\<lparr>chRecoverRendered := False\<rparr>) s in
      if chInOlder (ssChain s0) then (s0, False)
      else if chInRecover (ssChain s0)
        then let s1 = checkRecoverWire env now msg s0 in (s1, chRecoverRendered (ssChain s1))
        else (checkChainLink env now msg
                (consumeEchoLocked msg (allowStash \<and> \<not> chInSync (ssChain s0)) now s0), False))"

subsection \<open>Windows\<close>

definition isOlderHistoryWire :: "WireMessage \<Rightarrow> Session \<Rightarrow> bool" where
  "isOlderHistoryWire msg s =
     (let c = ssChain s in
      if chOlderHeightBound c = 0 \<and> chOlderSeqBound c = 0 then True
      else if wChainHeight msg > 0 then wChainHeight msg < chOlderHeightBound c
      else if wSeq msg = 0 then False
      else wSeq msg < chOlderSeqBound c)"

definition isLoadHistoryWire :: "WireMessage \<Rightarrow> Session \<Rightarrow> bool" where
  "isLoadHistoryWire msg s =
     (let c = ssChain s in
      if wSeq msg > 0 then wSeq msg \<ge> chLoadStartSeq c \<and> wSeq msg \<le> chLoadMaxSeq c
      else wChainHeight msg > 0)"

end
