(* ===== verification/Client_Pump.thy ===== *)
theory Client_Pump
  imports Client_Chain
begin

text \<open>
  The client's read pump, \<^verbatim>\<open>src/client/pump.go\<close>: what one frame from the server does to the session, the
  client-driven load of the history at connect, older windows on demand (\<open>requestOlder\<close> of \<^verbatim>\<open>dispatch.go\<close>), date
  banners, and the timers. JSON decoding is an argument: \<open>kWire\<close>, \<open>kSync\<close>, \<open>kInfo\<close> and \<open>kOffer\<close> give what
  \<open>json.Unmarshal\<close> makes of a byte string, or \<open>None\<close> for an error. The three places of the source that handle a decoded
  chat or system line differ only in tests its type decides, so they are one definition, \<open>show_wire\<close>.
\<close>

record decoders =
  kWire :: "string \<Rightarrow> WireMessage option"
  kSync :: "string \<Rightarrow> HistorySync option"
  kInfo :: "string \<Rightarrow> HistoryInfo option"
  kOffer :: "string \<Rightarrow> PowOffer option"

subsection \<open>Date banners\<close>

definition showDateBannerLocked :: "string \<Rightarrow> Session \<Rightarrow> Session \<times> bool" where
  "showDateBannerLocked day s =
     (if day = [] then (s, True)
      else if day = dsLastDateBanner (ssDisplay s) then (s, False)
      else (upd_display (\<lambda>d. d\<lparr>dsLastDateBanner := day\<rparr>) s, True))"

definition set_older :: "bool \<Rightarrow> Session \<Rightarrow> Session" where
  "set_older b s = upd_chain (\<lambda>c. c\<lparr>chInOlder := b\<rparr>) s"

definition flushDateBannerLocked :: "cl_env \<Rightarrow> Session \<Rightarrow> Session" where
  "flushDateBannerLocked env s =
     (case pnDateBanner (ssPending s) of
        None \<Rightarrow> s
      | Some msg \<Rightarrow>
          (case showDateBannerLocked (wSysDate msg) (upd_pending (\<lambda>p. p\<lparr>pnDateBanner := None\<rparr>) s) of
             (s1, False) \<Rightarrow> s1
           | (s1, True) \<Rightarrow>
               let wasOlder = chInOlder (ssChain s1)
               in if wasOlder \<and> \<not> isOlderHistoryWire msg s1
                  then set_older wasOlder (renderChatBlock env msg (set_older False s1))
                  else renderChatBlock env msg s1))"

definition stash_banner :: "WireMessage option \<Rightarrow> Session \<Rightarrow> Session" where
  "stash_banner m s = upd_pending (\<lambda>p. p\<lparr>pnDateBanner := m\<rparr>) s"

subsection \<open>Markers of older servers\<close>

definition parseHistoryBoundary :: "string list \<Rightarrow> bool \<times> bool" where
  "parseHistoryBoundary tags =
     (if \<not> HasTag tags TagHistory then (False, False)
      else (True, \<not> HasAnyTag tags [TagHistoryEnd, TagHistoryExhausted]))"

definition trackReplayWindow :: "cl_env \<Rightarrow> string list \<Rightarrow> bool \<Rightarrow> Session \<Rightarrow> Session" where
  "trackReplayWindow env tags start s =
     (if start then
        (if HasTag tags TagHistoryOlder
         then upd_chain (\<lambda>c. c\<lparr>chInOlder := True, chOlderInsert := olderAnchor (dsTabChat (ssDisplay s)),
                chOlderInsertSys := olderAnchor (dsTabSys (ssDisplay s))\<rparr>) s
         else if HasTag tags TagHistoryRecover then upd_chain (\<lambda>c. c\<lparr>chInRecover := True\<rparr>) s
         else upd_chain (\<lambda>c. c\<lparr>chInSync := True\<rparr>) s)
      else
        let s1 = flushDateBannerLocked env s in
        stash_banner None (upd_chain (\<lambda>c. c\<lparr>
          chOlderExhausted := (chOlderExhausted c \<or> (HasTag tags TagHistoryOlder \<and> HasTag tags TagHistoryExhausted)),
          chInOlder := False, chInRecover := False, chInSync := False\<rparr>) s1))"

definition handleReplayMarker :: "cl_env \<Rightarrow> time \<Rightarrow> WireMessage \<Rightarrow> Session \<Rightarrow> Session" where
  "handleReplayMarker env now msg s =
     (case parseHistoryBoundary (wTags msg) of (boundary, start) \<Rightarrow>
      if \<not> boundary then s
      else let s1 = trackReplayWindow env (wTags msg) start s
        in if \<not> start \<and> HasTag (wTags msg) TagHistoryRecover then finishRecovery env now s1 else s1)"

subsection \<open>The initial load\<close>

definition load_status :: "int \<Rightarrow> string" where
  "load_status loaded = (if loaded > 0 then encode_runes [0x110, 0xE3] @ '' t'' @ encode_runes [0x1EA3] @ ''i '' @ dec_int loaded @ '' tin'' else ''Kh'' @ encode_runes [0xF4] @ ''ng c'' @ encode_runes [0xF3] @ '' l'' @ encode_runes [0x1ECB] @ ''ch s'' @ encode_runes [0x1EED])"

definition flush_held :: "cl_env \<Rightarrow> time \<Rightarrow> bool \<Rightarrow> heldLine \<Rightarrow> Session \<Rightarrow> Session" where
  "flush_held env now showing h s =
     (case h of
        HeldRaw raw \<Rightarrow> emitRawLineLocked env raw s
      | HeldWire msg \<Rightarrow>
          if isVoteWire msg then fst (applyVoteLocked env msg s)
          else if wType msg = ''chat'' then
            (case verifyReplayWire env now msg True s of
               (s1, True) \<Rightarrow> s1
             | (s1, False) \<Rightarrow> renderChatBlock env msg (flushDateBannerLocked env s1))
          else if wType msg \<noteq> ''system'' then s
          else case verifyReplayWire env now msg False s of
               (s1, rendered) \<Rightarrow>
                 if \<not> rendered \<and> \<not> showing \<and> HasTag (wTags msg) TagDate then stash_banner (Some msg) s1
                 else if \<not> rendered \<and> \<not> showing \<and> HasAnyTag (wTags msg) [TagJoin, TagLeave] then s1
                 else if \<not> rendered then renderChatBlock env msg (flushDateBannerLocked env s1)
                 else s1)"

definition load_trailer :: HistorySync where
  "load_trailer = \<lparr>hsType = ''history_sync'', hsMinHeight = 0, hsMaxHeight = -1, hsSent = 0, hsTotal = 0, hsDropped = 0,
     hsDirection = [], hsFirstSeq = 0, hsLastSeq = 0, hsNextSeq = 0, hsMore = False\<rparr>"

definition release_held :: "cl_env \<Rightarrow> time \<Rightarrow> Session \<Rightarrow> Session" where
  "release_held env now s =
     (if chLoadHold (ssChain s) = [] then s
      else let wasOlder = chInOlder (ssChain s);
               s1 = fold (flush_held env now (dsShowJoinLeave (ssDisplay s))) (chLoadHold (ssChain s)) (set_older False s)
        in upd_chain (\<lambda>c. c\<lparr>chInOlder := wasOlder, chLoadHold := []\<rparr>) s1)"

definition finishLoadLocked :: "cl_env \<Rightarrow> time \<Rightarrow> Session \<Rightarrow> Session" where
  "finishLoadLocked env now s =
     (let loaded = chLoadLoaded (ssChain s);
          s1 = release_held env now (upd_chain (\<lambda>c. c\<lparr>chLoading := False, chInSync := False\<rparr>) s);
          s2 = releaseCatchupLocked (setStatusLocked (load_status loaded) now s1);
          c = ssChain s2;
          (warn, flush) = forkWarning load_trailer (chHavePersistedTip c) (chPersistedTip c) (chPersistedHeight c) (chSyncHeights c);
          s3 = (if warn \<noteq> []
                then let s' = emitLocalFeedback warn s2 in if flush then flushChainTip env s' else s'
                else s2)
      in upd_chain (\<lambda>c. c\<lparr>chSyncHeights := Map.empty\<rparr>) s3)"

definition page_request :: "cl_env \<Rightarrow> u64 \<Rightarrow> HistoryRequest" where
  "page_request env cursor = \<lparr>hqType = ''history_request'', hqBefore = 0,
     hqLimit = (case kCfg env of None \<Rightarrow> 100 | Some c \<Rightarrow> HistoryBatchLines (kCfg env)),
     hqAfterSeq = Some cursor, hqBeforeSeq = None, hqRanges = []\<rparr>"

definition sendLoadPageLocked :: "cl_env \<Rightarrow> time \<Rightarrow> u64 \<Rightarrow> Session \<Rightarrow> Session" where
  "sendLoadPageLocked env now cursor s =
     (if \<not> ssConn s then finishLoadLocked env now s
      else case sendJSON env (HistoryReq (page_request env cursor)) s of
          (s1, True) \<Rightarrow> s1
        | (s1, False) \<Rightarrow> finishLoadLocked env now s1)"

definition onLoadPageLocked :: "cl_env \<Rightarrow> time \<Rightarrow> HistorySync \<Rightarrow> Session \<Rightarrow> Session" where
  "onLoadPageLocked env now hs s =
     (let retries = (case kCfg env of None \<Rightarrow> 2 | Some c \<Rightarrow> HistoryRecoverRetries (kCfg env)) in
      if hsDropped hs > 0 \<and> chLoadRetried (ssChain s) < retries
      then sendLoadPageLocked env now (if hsFirstSeq hs > 0 then hsFirstSeq hs - 1 else 0)
             (upd_chain (\<lambda>c. c\<lparr>chLoadRetried := chLoadRetried c + 1\<rparr>) s)
      else let s1 = upd_chain (\<lambda>c. c\<lparr>chLoadRetried := 0\<rparr>) s; c = ssChain s1
        in if hsMore hs \<and> chLoadLoaded c < chLoadTarget c \<and> hsNextSeq hs < chLoadMaxSeq c
           then sendLoadPageLocked env now (hsNextSeq hs) s1
           else finishLoadLocked env now s1)"

definition handleHistoryInfo :: "cl_env \<Rightarrow> time \<Rightarrow> HistoryInfo \<Rightarrow> Session \<Rightarrow> Session" where
  "handleHistoryInfo env now info s =
     (if chLoading (ssChain s) then s
      else let target = (case kCfg env of None \<Rightarrow> 500 | Some c \<Rightarrow> HistoryInitialLines (kCfg env));
               t = word_of_int target :: u64;
               after = (if hiMaxSeq info \<ge> t then hiMaxSeq info - t else 0);
               s1 = upd_chain (\<lambda>c. c\<lparr>chLoading := True, chInSync := True, chSyncHeights := Map.empty, chLoadTarget := target,
                      chLoadLoaded := 0, chLoadRetried := 0, chLoadHold := [], chLoadMaxSeq := hiMaxSeq info,
                      chLoadStartSeq := after + 1\<rparr>) s;
               s2 = upd_display (\<lambda>d. d\<lparr>dsCatchupHold := True, dsHoldGen := dsHoldGen d + 1, dsHoldTimer := True\<rparr>) s1
        in sendLoadPageLocked env now after (arm (HoldTimer (dsHoldGen (ssDisplay s2))) s2))"

definition handleHistorySync :: "cl_env \<Rightarrow> time \<Rightarrow> HistorySync \<Rightarrow> Session \<Rightarrow> Session" where
  "handleHistorySync env now hs s =
     (let c = ssChain s in
      if chLoading c \<and> hsDirection hs = ''after'' then onLoadPageLocked env now hs s
      else if chInOlder c then
        let s1 = stash_banner None (flushDateBannerLocked env
                   (upd_chain (\<lambda>c. c\<lparr>chInOlder := False, chOlderHeightBound := 0, chOlderSeqBound := 0\<rparr>) s));
            s2 = (if hsTotal hs = 0
                  then setStatusLocked (''Kh'' @ encode_runes [0xF4] @ ''ng c'' @ encode_runes [0xF2] @ ''n tin c'' @ encode_runes [0x169] @ '' h'' @ encode_runes [0x1A1] @ ''n'') now (upd_chain (\<lambda>c. c\<lparr>chOlderExhausted := True\<rparr>) s1)
                  else setStatusLocked (encode_runes [0x110, 0xE3] @ '' t'' @ encode_runes [0x1EA3] @ ''i '' @ dec (hsSent hs) @ '' tin c'' @ encode_runes [0x169]) now s1)
        in if chRecoverPending (ssChain s2) \<noteq> None then finishRecovery env now s2 else s2
      else if chInRecover c \<or> chRecoverPending c \<noteq> None \<or> hsDirection hs = ''recover''
        then finishRecovery env now (upd_chain (\<lambda>c. c\<lparr>chInRecover := False\<rparr>) s)
      else s)"

subsection \<open>Frames\<close>

definition hold_line :: "heldLine \<Rightarrow> Session \<Rightarrow> Session" where
  "hold_line h s = upd_chain (\<lambda>c. c\<lparr>chLoadHold := chLoadHold c @ [h]\<rparr>) s"

definition show_wire :: "cl_env \<Rightarrow> time \<Rightarrow> bool \<Rightarrow> WireMessage \<Rightarrow> Session \<Rightarrow> Session" where
  "show_wire env now showing msg s =
     (if chLoading (ssChain s) \<and> chInSync (ssChain s) \<and> \<not> isLoadHistoryWire msg s then hold_line (HeldWire msg) s
      else let
        wasOlder = chInOlder (ssChain s);
        liveOlder = (wasOlder \<and> \<not> isOlderHistoryWire msg s);
        s1 = (if liveOlder then set_older False (flushDateBannerLocked env s) else s);
        (s2, rendered) = verifyReplayWire env now msg (wType msg = ''chat'') s1;
        notice = (\<not> rendered \<and> wType msg = ''system'' \<and> \<not> showing)
        in if notice \<and> HasTag (wTags msg) TagDate \<and> \<not> liveOlder then set_older wasOlder (stash_banner (Some msg) s2)
           else if notice \<and> HasAnyTag (wTags msg) [TagJoin, TagLeave] then set_older wasOlder s2
           else if rendered then set_older wasOlder s2
           else set_older wasOlder (renderChatBlock env msg (if liveOlder then s2 else flushDateBannerLocked env s2)))"

definition apply_vote :: "cl_env \<Rightarrow> WireMessage \<Rightarrow> Session \<Rightarrow> Session" where
  "apply_vote env msg s = fst (applyVoteLocked env msg s)"

definition parseHistorySync :: "decoders \<Rightarrow> string \<Rightarrow> HistorySync option" where
  "parseHistorySync dc raw =
     (case kSync dc raw of None \<Rightarrow> None | Some hs \<Rightarrow> if hsType hs \<noteq> ''history_sync'' then None else Some hs)"

definition pump_line :: "cl_env \<Rightarrow> decoders \<Rightarrow> time \<Rightarrow> bool \<Rightarrow> string \<Rightarrow> Session \<Rightarrow> Session" where
  "pump_line env dc now showing line s =
     (if TrimSpace line = [] then s
      else case parseHistorySync dc line of
          Some hs \<Rightarrow> handleHistorySync env now hs s
        | None \<Rightarrow>
            (let raw_line = (let s1 = (if \<not> showing \<and> pnDateBanner (ssPending s) \<noteq> None then flushDateBannerLocked env s else s)
                  in if chLoading (ssChain s1) \<and> chInSync (ssChain s1) then hold_line (HeldRaw line) s1
                     else emitRawLineLocked env line s1)
             in case kWire dc line of
                  None \<Rightarrow> raw_line
                | Some wl \<Rightarrow>
                    if wType wl \<noteq> ''chat'' \<and> wType wl \<noteq> ''system'' then raw_line
                    else if HasTag (wTags wl) TagHistory then handleReplayMarker env now wl s
                    else if isVoteWire wl then apply_vote env wl s
                    else show_wire env now showing wl s))"

definition pump_lines :: "cl_env \<Rightarrow> decoders \<Rightarrow> time \<Rightarrow> bool \<Rightarrow> string \<Rightarrow> Session \<Rightarrow> Session" where
  "pump_lines env dc now showing raw s = fold (pump_line env dc now showing) (split_on (CHR 0x0A) raw) s"

text \<open>
  One iteration of \<open>runPump\<close> after a successful read. A proof-of-work offer is answered by a goroutine of its own and
  leaves the session as it is.
\<close>

definition client_frame_step :: "cl_env \<Rightarrow> decoders \<Rightarrow> time \<Rightarrow> string \<Rightarrow> Session \<Rightarrow> Session" where
  "client_frame_step env dc now raw s =
     (if ssPanic s then s
      else let showing = dsShowJoinLeave (ssDisplay s);
               rest = (case parseHistorySync dc raw of
                   Some hs \<Rightarrow> handleHistorySync env now hs s
                 | None \<Rightarrow>
                     (case kInfo dc raw of
                        Some info \<Rightarrow>
                          if hiType info = ''history_info'' then handleHistoryInfo env now info s
                          else (case kOffer dc raw of
                                  Some off \<Rightarrow> if poType off = ''pow_offer'' then s else pump_lines env dc now showing raw s
                                | None \<Rightarrow> pump_lines env dc now showing raw s)
                      | None \<Rightarrow>
                          (case kOffer dc raw of
                             Some off \<Rightarrow> if poType off = ''pow_offer'' then s else pump_lines env dc now showing raw s
                           | None \<Rightarrow> pump_lines env dc now showing raw s)))
        in case kWire dc raw of
             None \<Rightarrow> rest
           | Some w \<Rightarrow>
               if wType w = ''chat'' then show_wire env now showing w s
               else if wType w = ''system'' then
                 (if HasTag (wTags w) TagHistory then handleReplayMarker env now w s
                  else if isVoteWire w then apply_vote env w s
                  else show_wire env now showing w s)
               else rest)"

subsection \<open>Older windows and timers\<close>

definition requestOlder :: "cl_env \<Rightarrow> int \<Rightarrow> Session \<Rightarrow> Session \<times> bool \<times> bool" where
  "requestOlder env limit s =
     (case wix_oldest (chWireIdx (ssChain s)) of
        None \<Rightarrow> (s, False, True)
      | Some before \<Rightarrow>
          let s1 = upd_chain (\<lambda>c. c\<lparr>chInOlder := True, chOlderHeightBound := before, chOlderSeqBound := wix_minSeq (chWireIdx c),
                 chOlderInsert := olderAnchor (dsTabChat (ssDisplay s)), chOlderInsertSys := olderAnchor (dsTabSys (ssDisplay s))\<rparr>) s
          in case sendJSON env (HistoryReq \<lparr>hqType = ''history_request'', hqBefore = before, hqLimit = limit,
                     hqAfterSeq = None, hqBeforeSeq = None, hqRanges = []\<rparr>) s1 of
               (s2, True) \<Rightarrow> (s2, True, True)
             | (s2, False) \<Rightarrow>
                 (upd_chain (\<lambda>c. c\<lparr>chInOlder := False, chOlderHeightBound := 0, chOlderSeqBound := 0\<rparr>) s2, True, False))"

definition olderAvailable :: "Session \<Rightarrow> bool" where
  "olderAvailable s =
     (case wix_oldest (chWireIdx (ssChain s)) of
        None \<Rightarrow> False
      | Some oldest \<Rightarrow> oldest > 1 \<and> \<not> chInOlder (ssChain s) \<and> \<not> chOlderExhausted (ssChain s))"

text \<open>A timer fires: its closure runs under the display lock and compares the generation it captured.\<close>

definition fire :: "cl_env \<Rightarrow> time \<Rightarrow> timer \<Rightarrow> Session \<Rightarrow> Session" where
  "fire env now t s =
     (case t of
        SettleTimer gen addr \<Rightarrow> settleRecovery env now gen addr s
      | RetryTimer gen addr \<Rightarrow> retryRecovery env now gen addr s
      | HoldTimer gen \<Rightarrow>
          if dsHoldGen (ssDisplay s) = gen \<and> chLoading (ssChain s) then finishLoadLocked env now s else s)"

end
