(* ===== verification/Client_Laws.thy ===== *)
theory Client_Laws
  imports Client_Pump
begin

text \<open>
  What the client's tracker guarantees. The running check implements the contract of a verified log, so a client that
  follows the server stays silent and ends on its tip, and a silent client that ends on the server's tip has read the
  server's log. A refill renders only lines that continue a known one. The places where the check looks away are stated
  as what they are: a height jump, and a refill interrupted by live traffic.
\<close>

subsection \<open>Frames\<close>

lemma emit_frame [simp]:
  "ssChain (emitLocalFeedback l s) = ssChain s" "ssPending (emitLocalFeedback l s) = ssPending s"
  "ssConn (emitLocalFeedback l s) = ssConn s" "ssUsername (emitLocalFeedback l s) = ssUsername s"
  "ssTimers (emitLocalFeedback l s) = ssTimers s" "ssSent (emitLocalFeedback l s) = ssSent s"
  by (simp_all add: emitLocalFeedback_def emitLocalEntry_def Let_def)

lemma stale_frame [simp]: "ssChain (fold (\<lambda>w. emitLocalFeedback (f w)) ws s) = ssChain s"
  by (induction ws arbitrary: s) simp_all

lemma consume_chain [simp]: "ssChain (consumeEchoLocked msg b now s) = ssChain s"
  by (simp add: consumeEchoLocked_def planEchoConsume_def split_beta Let_def split: option.split)

lemma save_frame [simp]:
  "ssChain (fst (saveChainTip env t h p s)) = ssChain s" "ssDisplay (fst (saveChainTip env t h p s)) = ssDisplay s"
  "ssPending (fst (saveChainTip env t h p s)) = ssPending s"
  by (simp_all add: saveChainTip_def)

text \<open>A session with another tip count differs in nothing the tracker reads.\<close>

lemma batch_saved_frame [simp]:
  "ssDisplay (batch_saved r) = ssDisplay (fst r)"
  "chTip (ssChain (batch_saved r)) = chTip (ssChain (fst r))"
  "chHeight (ssChain (batch_saved r)) = chHeight (ssChain (fst r))"
  "chHaveTip (ssChain (batch_saved r)) = chHaveTip (ssChain (fst r))"
  "chWarned (ssChain (batch_saved r)) = chWarned (ssChain (fst r))"
  "chGapWarned (ssChain (batch_saved r)) = chGapWarned (ssChain (fst r))"
  "chInSync (ssChain (batch_saved r)) = chInSync (ssChain (fst r))"
  "chRecoverPending (ssChain (batch_saved r)) = chRecoverPending (ssChain (fst r))"
  by (cases r; simp add: batch_saved_def)+

lemma note_tip [simp]:
  "chTip (ssChain (noteChainTip env t h s)) = t" "chHeight (ssChain (noteChainTip env t h s)) = h"
  "chHaveTip (ssChain (noteChainTip env t h s))"
  "chWarned (ssChain (noteChainTip env t h s)) = chWarned (ssChain s)"
  "chGapWarned (ssChain (noteChainTip env t h s)) = chGapWarned (ssChain s)"
  "chInSync (ssChain (noteChainTip env t h s)) = chInSync (ssChain s)"
  "chRecoverPending (ssChain (noteChainTip env t h s)) = chRecoverPending (ssChain s)"
  "ssDisplay (noteChainTip env t h s) = ssDisplay s"
  by (simp_all add: noteChainTip_def Let_def)

lemma flush_tip [simp]:
  "chTip (ssChain (flushChainTip env s)) = chTip (ssChain s)" "chHeight (ssChain (flushChainTip env s)) = chHeight (ssChain s)"
  "chHaveTip (ssChain (flushChainTip env s)) = chHaveTip (ssChain s)"
  "chWarned (ssChain (flushChainTip env s)) = chWarned (ssChain s)"
  "chGapWarned (ssChain (flushChainTip env s)) = chGapWarned (ssChain s)"
  "chInSync (ssChain (flushChainTip env s)) = chInSync (ssChain s)"
  "chRecoverPending (ssChain (flushChainTip env s)) = chRecoverPending (ssChain s)"
  "ssDisplay (flushChainTip env s) = ssDisplay s"
  by (simp_all add: flushChainTip_def)

lemma warn_once_frame [simp]:
  "chWarned (ssChain (warn_once l s))"
  "chTip (ssChain (warn_once l s)) = chTip (ssChain s)" "chHeight (ssChain (warn_once l s)) = chHeight (ssChain s)"
  "chHaveTip (ssChain (warn_once l s)) = chHaveTip (ssChain s)"
  by (simp_all add: warn_once_def)

subsection \<open>The running check implements the contract\<close>

text \<open>One link of the contract is one successful verification.\<close>

lemma verifyWireLink_iff:
  "verifyWireLink w t = Inr t' \<longleftrightarrow>
     ParseHex64 (wChainPrev w) = Some t \<and> ParseHex64 (wChainHash w) = Some t' \<and> VerifyWire t w t'"
  by (auto simp: verifyWireLink_def VerifyWireContent_def split: option.splits if_splits)

lemma chain_end_one:
  "wChainHeight w = h + 1 \<Longrightarrow>
     chain_end (t, h) [w] = (case verifyWireLink w t of Inl e \<Rightarrow> None | Inr t' \<Rightarrow> Some (t', h + 1))"
  by (auto simp: verifyWireLink_def VerifyWireContent_def split: option.splits)

lemma check_next_link:
  assumes "wChainHash w \<noteq> []" "chHaveTip (ssChain s)" "wChainHeight w = chHeight (ssChain s) + 1"
    and "chHeight (ssChain s) < chHeight (ssChain s) + 1"
  shows "case verifyWireLink w (chTip (ssChain s)) of
      Inr t' \<Rightarrow> chTip (ssChain (checkChainLink env now w s)) = t'
        \<and> chHeight (ssChain (checkChainLink env now w s)) = wChainHeight w
        \<and> chHaveTip (ssChain (checkChainLink env now w s))
        \<and> chWarned (ssChain (checkChainLink env now w s)) = chWarned (ssChain s)
        \<and> ssDisplay (checkChainLink env now w s) = ssDisplay s
    | Inl e \<Rightarrow> chWarned (ssChain (checkChainLink env now w s))"
  using assms
  by (auto simp: checkChainLink_def settle_link_def Let_def not_le split: option.splits sum.splits)

lemma sendRecover_frame [simp]:
  "chTip (ssChain (fst (sendRecoverLocked env now s))) = chTip (ssChain s)"
  "chHeight (ssChain (fst (sendRecoverLocked env now s))) = chHeight (ssChain s)"
  "chHaveTip (ssChain (fst (sendRecoverLocked env now s))) = chHaveTip (ssChain s)"
  "chWarned (ssChain (fst (sendRecoverLocked env now s))) = chWarned (ssChain s)"
  "chGapWarned (ssChain (fst (sendRecoverLocked env now s))) = chGapWarned (ssChain s)"
  "chInSync (ssChain (fst (sendRecoverLocked env now s))) = chInSync (ssChain s)"
  "ssDisplay (fst (sendRecoverLocked env now s)) = ssDisplay s"
  by (simp_all add: sendRecoverLocked_def sendJSON_def set_window_def arm_def Let_def split: option.split)

lemma request_frame [simp]:
  "chTip (ssChain (fst (maybeRequestRecovery env now lo hi a t s))) = chTip (ssChain s)"
  "chHeight (ssChain (fst (maybeRequestRecovery env now lo hi a t s))) = chHeight (ssChain s)"
  "chHaveTip (ssChain (fst (maybeRequestRecovery env now lo hi a t s))) = chHaveTip (ssChain s)"
  "chWarned (ssChain (fst (maybeRequestRecovery env now lo hi a t s))) = chWarned (ssChain s)"
  "chGapWarned (ssChain (fst (maybeRequestRecovery env now lo hi a t s))) = chGapWarned (ssChain s)"
  "ssDisplay (fst (maybeRequestRecovery env now lo hi a t s)) = ssDisplay s"
  by (simp_all add: maybeRequestRecovery_def set_window_def Let_def split: option.split)

lemma gap_frame [simp]: "chWarned (ssChain (warnChainGap a b s)) = chWarned (ssChain s)"
  by (simp add: warnChainGap_def)

text \<open>The session a jump leaves behind, before the tip moves.\<close>

definition after_jump :: "cl_env \<Rightarrow> time \<Rightarrow> WireMessage \<Rightarrow> Session \<Rightarrow> Session" where
  "after_jump env now w s =
     (if chInSync (ssChain s) then s
      else case maybeRequestRecovery env now (chHeight (ssChain s) + 1) (wChainHeight w - 1) (chHeight (ssChain s))
                  (chTip (ssChain s)) s of
          (s', True) \<Rightarrow> s' | (s', False) \<Rightarrow> warnChainGap (chHeight (ssChain s)) (wChainHeight w) s')"

lemma after_jump_warned [simp]: "chWarned (ssChain (after_jump env now w s)) = chWarned (ssChain s)"
proof -
  obtain s' b where r: "maybeRequestRecovery env now (chHeight (ssChain s) + 1) (wChainHeight w - 1)
      (chHeight (ssChain s)) (chTip (ssChain s)) s = (s', b)" by fastforce
  then have "chWarned (ssChain s') = chWarned (ssChain s)" by (metis fst_conv request_frame(4))
  then show ?thesis by (simp add: after_jump_def r split: bool.split)
qed

lemma settle_error:
  "settle_link env now w (Inl e) s =
     (if ParseHex64 (wChainHash w) \<noteq> None \<and> chHaveTip (ssChain s) \<and> e = PrevMismatch
         \<and> wChainHeight w > chHeight (ssChain s) + 1
      then flushChainTip env (noteChainTip env (the (ParseHex64 (wChainHash w))) (wChainHeight w) (after_jump env now w s))
      else flushChainTip env
        (case ParseHex64 (wChainHash w) of
           Some h \<Rightarrow> noteChainTip env h (wChainHeight w) (warn_once (broken_text (wChainHeight w) e) s)
         | None \<Rightarrow> warn_once (broken_text (wChainHeight w) e) s))"
  by (simp only: settle_link_def Let_def after_jump_def sum.case)

lemma settle_ok: "settle_link env now w (Inr t) s = noteChainTip env t (wChainHeight w) s"
  by (simp add: settle_link_def)

lemma settle_keeps_warned:
  "chWarned (ssChain s) \<Longrightarrow> chWarned (ssChain (settle_link env now w r s))"
  by (cases r) (simp_all add: settle_error settle_ok split: option.split)

lemma check_keeps_warned:
  "chWarned (ssChain s) \<Longrightarrow> chWarned (ssChain (checkChainLink env now w s))"
  by (auto simp: checkChainLink_def Let_def settle_keeps_warned split: option.split sum.split)

fun contiguous :: "u64 \<Rightarrow> WireMessage list \<Rightarrow> bool" where
  "contiguous h [] = True"
| "contiguous h (w # ws) \<longleftrightarrow> wChainHash w \<noteq> [] \<and> wChainHeight w = h + 1 \<and> h < h + 1 \<and> contiguous (h + 1) ws"

subsection \<open>What rendering leaves alone\<close>

text \<open>The part of the chain state that rendering does not touch.\<close>

definition verified_part :: "ChainState \<Rightarrow> ChainState" where
  "verified_part c = c\<lparr>chWireIdx := newWireIndex 1, chRenderCache := newRenderCache 1, chOlderInsert := 0, chOlderInsertSys := 0\<rparr>"

lemma verified_part_sel [simp]:
  "chTip (verified_part c) = chTip c"
  "chHeight (verified_part c) = chHeight c"
  "chHaveTip (verified_part c) = chHaveTip c"
  "chWarned (verified_part c) = chWarned c"
  "chInOlder (verified_part c) = chInOlder c"
  "chInSync (verified_part c) = chInSync c"
  "chInRecover (verified_part c) = chInRecover c"
  "chLoading (verified_part c) = chLoading c"
  "chRecoverPending (verified_part c) = chRecoverPending c"
  "chRecoverRendered (verified_part c) = chRecoverRendered c"
  "chRecoverGen (verified_part c) = chRecoverGen c"
  "chSyncHeights (verified_part c) = chSyncHeights c"
  "chLiveRecovered (verified_part c) = chLiveRecovered c"
  by (simp_all add: verified_part_def)

lemma verified_part_fields:
  assumes "verified_part c = verified_part c'"
  shows "chTip c = chTip c'"
    "chHeight c = chHeight c'"
    "chHaveTip c = chHaveTip c'"
    "chWarned c = chWarned c'"
    "chInOlder c = chInOlder c'"
    "chInSync c = chInSync c'"
    "chInRecover c = chInRecover c'"
    "chLoading c = chLoading c'"
    "chRecoverPending c = chRecoverPending c'"
    "chRecoverRendered c = chRecoverRendered c'"
    "chRecoverGen c = chRecoverGen c'"
    "chSyncHeights c = chSyncHeights c'"
    "chLiveRecovered c = chLiveRecovered c'"
  by (metis assms verified_part_sel)+

lemma place_verified [simp]: "verified_part (ssChain (placeEntry tab e s)) = verified_part (ssChain s)"
  by (simp add: placeEntry_def Let_def verified_part_def)

lemma emit_verified [simp]: "verified_part (ssChain (emitTabLive live tab e s)) = verified_part (ssChain s)"
  by (simp add: emitTabLive_def Let_def)

lemma emit_block_verified [simp]: "verified_part (ssChain (emit_block live tab e s)) = verified_part (ssChain s)"
  by (simp add: emit_block_def Let_def split: option.split prod.split bool.split)

lemma note_reveal_chain [simp]: "ssChain (note_reveal env msg s) = ssChain s"
  by (simp add: note_reveal_def Let_def)

lemma verified_part_upd [simp]:
  "verified_part (c\<lparr>chWireIdx := x\<rparr>) = verified_part c" "verified_part (c\<lparr>chRenderCache := r\<rparr>) = verified_part c"
  by (simp_all add: verified_part_def)

lemma render_verified [simp]: "verified_part (ssChain (renderChatBlock env msg s)) = verified_part (ssChain s)"
  by (simp add: renderChatBlock_def Let_def split: option.split prod.split)

lemma recovered_verified [simp]: "verified_part (ssChain (renderRecoveredInPlace env msg s)) = verified_part (ssChain s)"
  by (simp add: renderRecoveredInPlace_def Let_def)

lemma verified_part_older [simp]:
  "verified_part (c\<lparr>chInOlder := b\<rparr>) = (verified_part c)\<lparr>chInOlder := b\<rparr>"
  by (simp add: verified_part_def)

lemma banner_verified [simp]: "verified_part (ssChain (flushDateBannerLocked env s)) = verified_part (ssChain s)"
  by (auto simp: flushDateBannerLocked_def showDateBannerLocked_def set_older_def Let_def split: option.split prod.split bool.split)

lemmas render_keeps [simp] = verified_part_fields [OF render_verified]
lemmas recovered_keeps [simp] = verified_part_fields [OF recovered_verified]
lemmas banner_keeps [simp] = verified_part_fields [OF banner_verified]

subsection \<open>Reading live\<close>

text \<open>
  A client that has a tip and no window open: it neither loads nor pages nor refills. \<open>read_live\<close> hands it the
  decoded lines one by one, each at its clock reading.
\<close>

definition watching :: "Session \<Rightarrow> bool" where
  "watching s \<longleftrightarrow> (let c = ssChain s in chHaveTip c \<and> \<not> chLoading c \<and> \<not> chInOlder c \<and> \<not> chInRecover c)"

definition read_wire :: "cl_env \<Rightarrow> time \<times> WireMessage \<Rightarrow> Session \<Rightarrow> Session" where
  "read_wire env tw s = show_wire env (fst tw) (dsShowJoinLeave (ssDisplay s)) (snd tw) s"

definition read_live :: "cl_env \<Rightarrow> (time \<times> WireMessage) list \<Rightarrow> Session \<Rightarrow> Session" where
  "read_live env tws s = fold (read_wire env) tws s"

lemma read_live_simps [simp]:
  "read_live env [] s = s" "read_live env (tw # tws) s = read_live env tws (read_wire env tw s)"
  by (simp_all add: read_live_def)

lemma stash_banner_frame [simp]: "ssChain (stash_banner m s) = ssChain s"
  by (simp add: stash_banner_def)

lemma older_frame [simp]: "ssChain (set_older b s) = (ssChain s)\<lparr>chInOlder := b\<rparr>"
  by (simp add: set_older_def)

text \<open>What the pump does to the tracker of a watching client is the running check.\<close>

definition checked :: "cl_env \<Rightarrow> time \<times> WireMessage \<Rightarrow> Session \<Rightarrow> Session" where
  "checked env tw s = (let s0 = upd_chain (\<lambda>c. c\<lparr>chRecoverRendered := False\<rparr>) s in
     checkChainLink env (fst tw) (snd tw)
       (consumeEchoLocked (snd tw) (wType (snd tw) = ''chat'' \<and> \<not> chInSync (ssChain s0)) (fst tw) s0))"

lemma read_wire_verified:
  assumes "watching s"
  shows "verified_part (ssChain (read_wire env tw s)) =
     (verified_part (ssChain (checked env tw s)))\<lparr>chInOlder := False\<rparr>"
proof -
  have v: "verifyReplayWire env (fst tw) (snd tw) (wType (snd tw) = ''chat'') s = (checked env tw s, False)"
    using assms by (simp add: verifyReplayWire_def watching_def checked_def Let_def)
  show ?thesis
    using assms by (simp add: read_wire_def show_wire_def watching_def Let_def v)
qed

lemma read_wire_fields:
  assumes "watching s"
  shows "chTip (ssChain (read_wire env tw s)) = chTip (ssChain (checked env tw s))"
    "chHeight (ssChain (read_wire env tw s)) = chHeight (ssChain (checked env tw s))"
    "chHaveTip (ssChain (read_wire env tw s)) = chHaveTip (ssChain (checked env tw s))"
    "chWarned (ssChain (read_wire env tw s)) = chWarned (ssChain (checked env tw s))"
    "chInRecover (ssChain (read_wire env tw s)) = chInRecover (ssChain (checked env tw s))"
    "chLoading (ssChain (read_wire env tw s)) = chLoading (ssChain (checked env tw s))"
    "\<not> chInOlder (ssChain (read_wire env tw s))"
  using arg_cong [OF read_wire_verified [OF assms, of env tw], of chTip]
    arg_cong [OF read_wire_verified [OF assms, of env tw], of chHeight]
    arg_cong [OF read_wire_verified [OF assms, of env tw], of chHaveTip]
    arg_cong [OF read_wire_verified [OF assms, of env tw], of chWarned]
    arg_cong [OF read_wire_verified [OF assms, of env tw], of chInRecover]
    arg_cong [OF read_wire_verified [OF assms, of env tw], of chLoading]
    arg_cong [OF read_wire_verified [OF assms, of env tw], of chInOlder]
  by simp_all

text \<open>A good link leaves every flag of the tracker as it was.\<close>

lemma note_flags [simp]:
  "chInRecover (ssChain (noteChainTip env t h s)) = chInRecover (ssChain s)"
  "chLoading (ssChain (noteChainTip env t h s)) = chLoading (ssChain s)"
  by (simp_all add: noteChainTip_def batch_saved_def saveChainTip_def Let_def)

lemma checked_next:
  assumes "watching s" "wChainHash (snd tw) \<noteq> []" "wChainHeight (snd tw) = chHeight (ssChain s) + 1"
    and "chHeight (ssChain s) < chHeight (ssChain s) + 1"
    and "verifyWireLink (snd tw) (chTip (ssChain s)) = Inr t"
  shows "let c = ssChain (checked env tw s) in
    chTip c = t \<and> chHeight c = chHeight (ssChain s) + 1 \<and> chHaveTip c \<and> chWarned c = chWarned (ssChain s)
    \<and> \<not> chInRecover c \<and> \<not> chLoading c"
  using assms
  by (auto simp: checked_def watching_def checkChainLink_def settle_ok Let_def not_le split: option.splits)

lemma checked_notice: "wChainHash (snd tw) = [] \<Longrightarrow> ssChain (checked env tw s) = (ssChain s)\<lparr>chRecoverRendered := False\<rparr>"
  by (simp add: checked_def checkChainLink_def Let_def)

lemma read_next:
  assumes "watching s" "wChainHash (snd tw) \<noteq> []" "wChainHeight (snd tw) = chHeight (ssChain s) + 1"
    and "chHeight (ssChain s) < chHeight (ssChain s) + 1"
    and "verifyWireLink (snd tw) (chTip (ssChain s)) = Inr t"
  shows "watching (read_wire env tw s) \<and> chTip (ssChain (read_wire env tw s)) = t
    \<and> chHeight (ssChain (read_wire env tw s)) = chHeight (ssChain s) + 1
    \<and> chWarned (ssChain (read_wire env tw s)) = chWarned (ssChain s)"
  using checked_next [OF assms, of env] read_wire_fields [OF assms(1), of env tw]
  by (simp add: watching_def Let_def)

lemma read_notice:
  assumes "watching s" "wChainHash (snd tw) = []"
  shows "watching (read_wire env tw s) \<and> chTip (ssChain (read_wire env tw s)) = chTip (ssChain s)
    \<and> chHeight (ssChain (read_wire env tw s)) = chHeight (ssChain s)
    \<and> chWarned (ssChain (read_wire env tw s)) = chWarned (ssChain s)"
  using checked_notice [OF assms(2), of env s] read_wire_fields [OF assms(1), of env tw] assms(1)
  by (simp add: watching_def Let_def)

lemma read_broken:
  assumes "watching s" "wChainHash (snd tw) \<noteq> []" "wChainHeight (snd tw) = chHeight (ssChain s) + 1"
    and "chHeight (ssChain s) < chHeight (ssChain s) + 1"
    and "verifyWireLink (snd tw) (chTip (ssChain s)) = Inl e"
  shows "chWarned (ssChain (read_wire env tw s))"
proof -
  let ?s = "consumeEchoLocked (snd tw) (wType (snd tw) = ''chat'' \<and> \<not> chInSync (ssChain s)) (fst tw)
     (upd_chain (\<lambda>c. c\<lparr>chRecoverRendered := False\<rparr>) s)"
  have "chWarned (ssChain (checkChainLink env (fst tw) (snd tw) ?s))"
    using check_next_link [of "snd tw" ?s env "fst tw"] assms by (simp add: watching_def Let_def)
  then show ?thesis using read_wire_fields(4) [OF assms(1), of env tw] by (simp add: checked_def Let_def)
qed

lemma recover_keeps_warned:
  "chWarned (ssChain s) \<Longrightarrow> chWarned (ssChain (checkRecoverWire env now w s))"
  by (auto simp: checkRecoverWire_def set_window_def check_keeps_warned Let_def split: option.split sum.split)

lemma verify_keeps_warned:
  "chWarned (ssChain s) \<Longrightarrow> chWarned (ssChain (fst (verifyReplayWire env now w b s)))"
  by (simp add: verifyReplayWire_def recover_keeps_warned check_keeps_warned Let_def)

lemma read_keeps_warned: "chWarned (ssChain s) \<Longrightarrow> chWarned (ssChain (read_wire env tw s))"
proof -
  assume w: "chWarned (ssChain s)"
  define s1 where "s1 = (if chInOlder (ssChain s) \<and> \<not> isOlderHistoryWire (snd tw) s
            then set_older False (flushDateBannerLocked env s) else s)"
  obtain s2 r where v: "verifyReplayWire env (fst tw) (snd tw) (wType (snd tw) = ''chat'') s1 = (s2, r)" by fastforce
  have "chWarned (ssChain s1)" using w by (simp add: s1_def)
  from verify_keeps_warned [OF this, of env "fst tw" "snd tw" "wType (snd tw) = ''chat''"] have "chWarned (ssChain s2)"
    by (simp add: v)
  with w show ?thesis
    by (simp add: read_wire_def show_wire_def hold_line_def Let_def s1_def [symmetric] v)
qed

lemma read_live_warned: "chWarned (ssChain s) \<Longrightarrow> chWarned (ssChain (read_live env tws s))"
  by (induction tws arbitrary: s) (simp_all add: read_keeps_warned)

definition log_part :: "WireMessage list \<Rightarrow> WireMessage list" where
  "log_part ws = filter (\<lambda>w. wChainHash w \<noteq> []) ws"

lemma log_part_simps [simp]:
  "log_part [] = []" "log_part (w # ws) = (if wChainHash w = [] then log_part ws else w # log_part ws)"
  by (simp_all add: log_part_def)

lemma read_live_refines:
  assumes "watching s" "contiguous (chHeight (ssChain s)) (log_part (map snd tws))" "\<not> chWarned (ssChain s)"
  shows "case chain_end (chTip (ssChain s), chHeight (ssChain s)) (log_part (map snd tws)) of
      None \<Rightarrow> chWarned (ssChain (read_live env tws s))
    | Some (t, h) \<Rightarrow> chTip (ssChain (read_live env tws s)) = t \<and> chHeight (ssChain (read_live env tws s)) = h
        \<and> \<not> chWarned (ssChain (read_live env tws s))"
  using assms
proof (induction tws arbitrary: s)
  case (Cons tw tws)
  let ?w = "snd tw" and ?s = "read_wire env tw s"
  show ?case
  proof (cases "wChainHash ?w = []")
    case True
    with read_notice [OF Cons.prems(1) True, of env] Cons.prems Cons.IH [of ?s] show ?thesis
      by (auto split: option.splits)
  next
    case False
    then have w: "wChainHeight ?w = chHeight (ssChain s) + 1" "chHeight (ssChain s) < chHeight (ssChain s) + 1"
      "contiguous (chHeight (ssChain s) + 1) (log_part (map snd tws))"
      using Cons.prems(2) by simp_all
    note parts = chain_end_Cons [of _ ?w "log_part (map snd tws)"] chain_end_one [OF w(1), of "chTip (ssChain s)"]
    show ?thesis
    proof (cases "verifyWireLink ?w (chTip (ssChain s))")
      case (Inl e)
      then have "chain_end (chTip (ssChain s), chHeight (ssChain s)) (?w # log_part (map snd tws)) = None"
        by (simp add: parts del: chain_end.simps)
      with read_broken [OF Cons.prems(1) False w(1,2) Inl, of env] False show ?thesis
        by (simp add: read_live_warned del: chain_end.simps)
    next
      case (Inr t)
      then have "chain_end (chTip (ssChain s), chHeight (ssChain s)) (?w # log_part (map snd tws)) =
          chain_end (t, chHeight (ssChain s) + 1) (log_part (map snd tws))"
        by (simp add: parts del: chain_end.simps)
      with read_next [OF Cons.prems(1) False w(1,2) Inr, of env] Cons.IH [of ?s] Cons.prems(3) w(3) False show ?thesis
        by (auto simp del: chain_end.simps split: option.splits)
    qed
  qed
qed simp

subsection \<open>The lines a server broadcasts\<close>

fun broadcast :: "marshaller \<Rightarrow> int \<Rightarrow> string \<Rightarrow> chain_event list \<Rightarrow> ChainService \<Rightarrow> WireMessage list" where
  "broadcast mj mx pub [] c = []"
| "broadcast mj mx pub (e # es) c =
     (case e of Link w now \<Rightarrow> fst (linkAndStore mj mx now pub w c) | Notice m now \<Rightarrow> fst (storeSystem mj mx now m c))
     # broadcast mj mx pub es (chain_step mj mx pub e c)"

lemma step_tip_length:
  "csReady c \<Longrightarrow> length (csTip c) = 32 \<Longrightarrow> length (csTip (chain_step mj mx pub e c)) = 32"
  by (cases e) (simp_all del: chain_step.simps)

lemma linked_wire_next:
  "length (csTip c) = 32 \<Longrightarrow> verifyWireLink (linked_wire w c) (csTip c) = Inr (link_hash w c)"
  by (simp add: verifyWireLink_iff linked_wire_verifies)

lemma broadcast_chain:
  assumes "csReady c" "length (csTip c) = 32" "list_all event_ok es" "unat (csHeight c) + length es < 2 ^ 64"
  shows "contiguous (csHeight c) (log_part (broadcast mj mx pub es c)) \<and> v2 (log_part (broadcast mj mx pub es c))
    \<and> length (log_part (broadcast mj mx pub es c)) \<le> length es
    \<and> chain_end (csTip c, csHeight c) (log_part (broadcast mj mx pub es c)) =
        Some (csTip (fold (chain_step mj mx pub) es c), csHeight (fold (chain_step mj mx pub) es c))"
  using assms
proof (induction es arbitrary: c)
  case (Cons e es)
  let ?c = "chain_step mj mx pub e c"
  have r: "csReady ?c" "length (csTip ?c) = 32" using Cons.prems by (simp_all add: step_ready step_tip_length)
  show ?case
  proof (cases e)
    case (Link w now)
    have h: "csHeight c < csHeight c + 1" "unat (csHeight c + 1) = unat (csHeight c) + 1"
      using word_less_Suc [of "csHeight c"] Cons.prems(4) by simp_all
    have c': "csTip ?c = link_hash w c" "csHeight ?c = csHeight c + 1" using Cons.prems(1) by (simp_all add: Link del: chain_step.simps)
    have w: "fst (linkAndStore mj mx now pub w c) = linked_wire w c"
      using Cons.prems(1) by (simp add: linkAndStore_eq Let_def)
    define L where "L = log_part (broadcast mj mx pub es ?c)"
    have L: "log_part (broadcast mj mx pub (e # es) c) = linked_wire w c # L"
      by (simp add: Link w L_def)
    have "list_all event_ok es" "unat (csHeight ?c) + length es < 2 ^ 64"
      using Cons.prems(3,4) h(2) by (simp_all add: c'(2))
    from Cons.IH [OF r this] have IH: "contiguous (csHeight c + 1) L" "v2 L" "length L \<le> length es"
      "chain_end (link_hash w c, csHeight c + 1) L =
         Some (csTip (fold (chain_step mj mx pub) es ?c), csHeight (fold (chain_step mj mx pub) es ?c))"
      by (simp_all only: L_def c')
    have "chain_end (csTip c, csHeight c) (linked_wire w c # L) = chain_end (link_hash w c, csHeight c + 1) L"
      using chain_end_one [of "linked_wire w c" "csHeight c" "csTip c"] linked_wire_next [OF Cons.prems(2), of w]
      by (simp add: chain_end_Cons [of _ "linked_wire w c" L] del: chain_end.simps)
    then show ?thesis
      unfolding L using IH h by (simp add: v2_def del: chain_end.simps chain_step.simps)
  next
    case (Notice m now)
    have "csTip ?c = csTip c" "csHeight ?c = csHeight c"
      by (simp_all add: Notice storeSystem_eq Let_def)
    moreover have "wChainHash (fst (storeSystem mj mx now m c)) = []"
      using Cons.prems(3) by (simp add: Notice storeSystem_eq Let_def is_notice_def)
    ultimately show ?thesis using Cons.IH [OF r] Cons.prems(3,4) by (auto simp: Notice simp del: chain_end.simps)
  qed
qed (simp add: v2_def)

subsection \<open>An example session\<close>

definition ex_tab :: tabBuffer where "ex_tab = newTabBuffer 100 1000"

definition ex_display :: DisplayState where
  "ex_display = \<lparr>dsShowJoinLeave = False, dsShowMeta = True, dsNotify = \<lparr>ntMuted = [], ntPowMinTier = 1\<rparr>,
     dsActiveTab = TabChat, dsTabChat = ex_tab, dsTabSys = ex_tab, dsLayoutEpoch = 0, dsCatchupHold = False,
     dsHoldGen = 0, dsHoldTimer = False, dsLastDateBanner = [], dsPendingGreeting = [], dsRevealProof = Map.empty,
     dsStatusMsg = [], dsStatusUntil = 0\<rparr>"

definition ex_chain :: ChainState where
  "ex_chain = \<lparr>chTip = Genesis [], chHeight = 0, chHaveTip = True, chWarned = False, chGapWarned = False,
     chServerPubHex = [], chPersistedTip = zero32, chPersistedHeight = 0, chPersistedServer = [],
     chHavePersistedTip = False, chInSync = False, chInOlder = False, chOlderExhausted = False, chOlderInsert = 0,
     chOlderInsertSys = 0, chOlderHeightBound = 0, chOlderSeqBound = 0, chInRecover = False, chRecoverRendered = False,
     chRecoverPending = None, chRecoverGen = 0, chLiveRecovered = 0, chSyncHeights = Map.empty, chLoading = False,
     chLoadStartSeq = 0, chLoadMaxSeq = 0, chLoadTarget = 0, chLoadLoaded = 0, chLoadRetried = 0, chLoadHold = [],
     chTipSinceSave = 0, chWireIdx = newWireIndex 1000, chRenderCache = newRenderCache 200, chVotes = Map.empty\<rparr>"

definition ex_pending :: PendingState where
  "ex_pending = \<lparr>pnTmpSeq = 0, pnReplyTo = 0, pnReplyDraft = 0, pnLastMessageTime = 0, pnPlaceholders = [],
     pnEchoes = [], pnSeenTmpIDs = [], pnDateBanner = None, pnEchoSlot = None\<rparr>"

definition ex_client :: Session where
  "ex_client = \<lparr>ssConn = True, ssUsername = ''bob'', ssServerPubKey = [], ssTripPriv = None, ssTripPub = [], ssTripBadge = [],
     ssTripSeq = 0, ssTripPrev = zero32, ssAutoVerify = True, ssDisplay = ex_display, ssChain = ex_chain,
     ssPending = ex_pending, ssSent = [], ssTipFile = None, ssIO = 0, ssAlloc = 0, ssTimers = [], ssPanic = False\<rparr>"

definition ex_cl_env :: cl_env where
  "ex_cl_env = \<lparr>kCfg = None, kIO = (\<lambda>n. True), kGC = gc_example, kPubOfSeed = (\<lambda>b. b), kSign = (\<lambda>k m. replicate 64 NUL),
     kDim = (\<lambda>s. s), kWarn = (\<lambda>s. s), kUp = (\<lambda>s. s), kStrip = (\<lambda>s. s), kBody = (\<lambda>ls s. s), kSpanPlain = (\<lambda>s. s), kLinkify = (\<lambda>s. s), kTripcode = [],
     kBadge = (\<lambda>w b. []), kRuneWidth = (\<lambda>r. 1), kTermWidth = 80\<rparr>"

abbreviation ex_log_start :: ChainService where
  "ex_log_start \<equiv> initChainLocked wText [] new_chain"

lemma ex_client_fields [simp]:
  "watching ex_client" "chTip (ssChain ex_client) = Genesis []" "chHeight (ssChain ex_client) = 0"
  "\<not> chWarned (ssChain ex_client)"
  by (simp_all add: watching_def ex_client_def ex_chain_def Let_def)

subsection \<open>Properties\<close>

text \<open>
  C2. The client's running check implements the contract of a verified log: over lines whose heights continue the
  running tip (unchained notices may lie between them), the tamper warning is raised exactly when some line does not continue
  the one before it, and otherwise the client's tip and height are the contract's.
\<close>

theorem client_check_refines_contract:
  assumes "watching s" "\<not> chWarned (ssChain s)" "contiguous (chHeight (ssChain s)) (log_part (map snd tws))"
  shows "chain_end (chTip (ssChain s), chHeight (ssChain s)) (log_part (map snd tws)) =
    (if chWarned (ssChain (read_live env tws s)) then None
     else Some (chTip (ssChain (read_live env tws s)), chHeight (ssChain (read_live env tws s))))"
  using read_live_refines [OF assms(1,3,2), of env] by (auto split: option.splits)

theorem client_check_refines_contract_witness:
  "chain_end (Genesis [], 0) [linked_wire ex_chat ex_log_start] =
    (if chWarned (ssChain (read_live ex_cl_env [(0, linked_wire ex_chat ex_log_start)] ex_client)) then None
     else Some (chTip (ssChain (read_live ex_cl_env [(0, linked_wire ex_chat ex_log_start)] ex_client)),
       chHeight (ssChain (read_live ex_cl_env [(0, linked_wire ex_chat ex_log_start)] ex_client))))"
  using client_check_refines_contract [of ex_client "[(0, linked_wire ex_chat ex_log_start)]" ex_cl_env]
  by (simp add: new_chain_init del: chain_end.simps)

text \<open>
  C3. Composition with the server's log: a client in step with the server, handed the lines the server broadcasts while
  it appends any mix of messages and notices, raises no warning and stays in step, ending on the server's tip and height.
\<close>

theorem client_stays_in_step:
  assumes "csReady c" "length (csTip c) = 32" "list_all event_ok es" "unat (csHeight c) + length es < 2 ^ 64"
    and "watching s" "\<not> chWarned (ssChain s)" "chTip (ssChain s) = csTip c" "chHeight (ssChain s) = csHeight c"
    and "map snd tws = broadcast mj mx pub es c"
  shows "\<not> chWarned (ssChain (read_live env tws s))
    \<and> chTip (ssChain (read_live env tws s)) = csTip (fold (chain_step mj mx pub) es c)
    \<and> chHeight (ssChain (read_live env tws s)) = csHeight (fold (chain_step mj mx pub) es c)"
  using read_live_refines [OF assms(5) _ assms(6), of tws env] broadcast_chain [OF assms(1-4), of mj mx pub] assms(7-9)
  by (simp del: chain_end.simps)

theorem client_stays_in_step_witness:
  "\<not> chWarned (ssChain (read_live ex_cl_env [(0, linked_wire ex_chat ex_log_start)] ex_client))"
  using client_stays_in_step [of ex_log_start "[Link ex_chat 0]" ex_client "[(0, linked_wire ex_chat ex_log_start)]" wText 100 "[]" ex_cl_env]
  by (simp add: new_chain_init linkAndStore_eq Let_def)

text \<open>
  C4. Tamper evidence reaches the reader: a client that started on the server's tip, was handed any lines at all with
  continuing heights, raised no warning and ended on the tip the server really reached, has read the messages the server logged,
  field by field and in order, or at one position the line it was handed and the line the server logged are a SHA-256 collision:
  their hashed bytes differ and have the same digest.
\<close>

theorem silent_client_read_the_log:
  assumes "csReady c" "length (csTip c) = 32" "list_all event_ok es" "unat (csHeight c) + length es < 2 ^ 64"
    and "watching s" "\<not> chWarned (ssChain s)" "chTip (ssChain s) = csTip c" "chHeight (ssChain s) = csHeight c"
    and "contiguous (csHeight c) (log_part (map snd tws))" "v2 (log_part (map snd tws))" "length tws < 2 ^ 64"
    and "\<not> chWarned (ssChain (read_live env tws s))"
    and "chTip (ssChain (read_live env tws s)) = csTip (fold (chain_step mj mx pub) es c)"
    and "chHeight (ssChain (read_live env tws s)) = csHeight (fold (chain_step mj mx pub) es c)"
  shows "map core_of (log_part (map snd tws)) = map core_of (log_part (broadcast mj mx pub es c)) \<or>
    (\<exists>i < length (log_part (map snd tws)). i < length (log_part (broadcast mj mx pub es c)) \<and>
       wire_stream (log_part (map snd tws) ! i) \<noteq> wire_stream (log_part (broadcast mj mx pub es c) ! i) \<and>
       sha256 (wire_stream (log_part (map snd tws) ! i)) = sha256 (wire_stream (log_part (broadcast mj mx pub es c) ! i)))"
proof -
  let ?L = "log_part (broadcast mj mx pub es c)"
  have ce: "chain_end (csTip c, csHeight c) (log_part (map snd tws)) =
      Some (csTip (fold (chain_step mj mx pub) es c), csHeight (fold (chain_step mj mx pub) es c))"
    using read_live_refines [OF assms(5) _ assms(6), of tws env] assms(7-9,12-14)
    by (auto split: option.splits)
  have len: "length (log_part (map snd tws)) < 2 ^ 64"
    using assms(11) le_less_trans length_filter_le length_map by (metis log_part_def)
  note b = broadcast_chain [OF assms(1-4), of mj mx pub]
  have "length ?L < 2 ^ 64" using b assms(4) by linarith
  from same_end_same_log [OF ce conjunct2 [OF conjunct2 [OF conjunct2 [OF b]]] assms(10) _ len this] b
  show ?thesis by blast
qed

theorem silent_client_read_the_log_witness:
  "map core_of (log_part [(linked_wire ex_chat ex_log_start)\<lparr>wSentAt := ''now''\<rparr>]) = map core_of (log_part [linked_wire ex_chat ex_log_start])"
proof -
  let ?v = "linked_wire ex_chat ex_log_start" and ?w = "(linked_wire ex_chat ex_log_start)\<lparr>wSentAt := ''now''\<rparr>"
  have v: "verifyWireLink ?w (Genesis []) = Inr (link_hash ex_chat ex_log_start)"
    using linked_wire_next [of ex_log_start ex_chat]
    by (simp add: verifyWireLink_iff VerifyWire_def VerifyLink_def VerifyLinkV1_def TripSigOf_def new_chain_init)
  have "chHeight (ssChain ex_client) < chHeight (ssChain ex_client) + 1" by simp
  then have r: "chTip (ssChain (read_live ex_cl_env [(0, ?w)] ex_client)) = link_hash ex_chat ex_log_start"
    "chHeight (ssChain (read_live ex_cl_env [(0, ?w)] ex_client)) = 1" "\<not> chWarned (ssChain (read_live ex_cl_env [(0, ?w)] ex_client))"
    using read_next [of ex_client "(0, ?w)" "link_hash ex_chat ex_log_start" ex_cl_env] v by (simp_all add: new_chain_init)
  have "wire_stream ?w = wire_stream ?v" by (simp add: wire_stream_def core_of_def TripSigOf_def)
  moreover have "Hash p h t q a b d e f \<noteq> []" for p h t q a b d e f by (auto simp: Hash_def dest: arg_cong [where f = length])
  ultimately show ?thesis
    using silent_client_read_the_log [of ex_log_start "[Link ex_chat 0]" ex_client "[(0, ?w)]" ex_cl_env wText 100 "[]"] r
    by (simp add: new_chain_init v2_def linkAndStore_eq link_hash_def Let_def)
qed

end
