(* ===== verification/Client_Refill.thy ===== *)
theory Client_Refill
  imports Client_Laws Session_Laws
begin

text \<open>
  The refill of lost heights, \<open>recoverWindow\<close> of \<^verbatim>\<open>src/client/chainmeta.go\<close>: the ranges asked for are exactly the
  missing heights, and every line a refill shows ends a verified chain from a line the client already knew. Also here: what
  the client does not check. A height jump moves the tip on the server's word, and a live line that arrives in the middle of a
  refill makes the rest of the refill pass unverified.
\<close>

subsection \<open>The ranges of a request\<close>

definition run_covers :: "HeightRange \<Rightarrow> u64 \<Rightarrow> bool" where
  "run_covers r h \<longleftrightarrow> hrFrom r \<le> h \<and> h \<le> hrTo r"

definition runs_ok :: "HeightRange list \<Rightarrow> bool" where
  "runs_ok rs \<longleftrightarrow> (\<forall>r\<in>set rs. hrFrom r \<le> hrTo r) \<and> sorted_wrt (\<lambda>a b. unat (hrTo a) + 1 < unat (hrFrom b)) rs"

lemma word_succ_le: "(a :: u64) < h \<Longrightarrow> unat (a + 1) = unat a + 1"
  using word_less_Suc [of a] unsigned_less [of h, where 'a = nat] by (simp add: word_less_nat_alt)

lemma runs_loop_spec:
  assumes "sorted_wrt (<) hs" "runs_ok rs" "\<forall>h\<in>set hs. \<forall>r\<in>set rs. hrTo r < h"
  shows "runs_ok (runs_loop hs rs) \<and>
    (\<forall>x. (\<exists>r\<in>set (runs_loop hs rs). run_covers r x) \<longleftrightarrow> x \<in> set hs \<or> (\<exists>r\<in>set rs. run_covers r x))"
  using assms
proof (induction hs arbitrary: rs)
  case (Cons h hs)
  show ?case
  proof (cases "rs \<noteq> [] \<and> hrTo (last rs) + 1 = h")
    case True
    then obtain pre l where rs: "rs = pre @ [l]" and h: "hrTo l + 1 = h" by (metis append_butlast_last_id last_snoc)
    have lt: "hrTo l < h" using Cons.prems(3) by (simp add: rs)
    have ok: "runs_ok (pre @ [l\<lparr>hrTo := h\<rparr>])"
      using Cons.prems(2) lt by (auto simp: runs_ok_def rs sorted_wrt_append)
    have cov: "run_covers (l\<lparr>hrTo := h\<rparr>) x \<longleftrightarrow> run_covers l x \<or> x = h" for x
    proof -
      have "x \<le> h \<longleftrightarrow> x \<le> hrTo l \<or> x = h"
        using word_succ_le [OF lt] h by (auto simp: word_le_nat_alt le_Suc_eq) (metis unat_eq_iff)
      moreover have "hrFrom l \<le> h" using Cons.prems(2) lt by (auto simp: runs_ok_def rs)
      ultimately show ?thesis by (auto simp: run_covers_def)
    qed
    have "\<forall>g\<in>set hs. \<forall>r\<in>set (pre @ [l\<lparr>hrTo := h\<rparr>]). hrTo r < g"
      using Cons.prems(1,3) by (auto simp: rs)
    from Cons.IH [OF _ ok this] Cons.prems(1) True show ?thesis by (auto simp: rs cov)
  next
    case False
    have gap: "unat (hrTo r) + 1 < unat h" if "r \<in> set rs" for r
    proof -
      have lt: "hrTo r < h" using Cons.prems(3) that by simp
      have "rs \<noteq> []" using that by auto
      then obtain pre l where rs: "rs = pre @ [l]" by (metis append_butlast_last_id)
      have "hrTo l + 1 \<noteq> h" using False by (simp add: rs)
      moreover have ltl: "hrTo l < h" using Cons.prems(3) by (simp add: rs)
      ultimately have "unat (hrTo l) + 1 < unat h"
        using word_succ_le [OF ltl] by (metis Suc_eq_plus1 Suc_lessI unat_eq_iff word_less_nat_alt)
      moreover have "unat (hrTo r) \<le> unat (hrTo l)"
        using that Cons.prems(2) by (auto simp: rs runs_ok_def sorted_wrt_append word_le_nat_alt)
      ultimately show ?thesis by simp
    qed
    have ok: "runs_ok (rs @ [\<lparr>hrFrom = h, hrTo = h\<rparr>])"
      using Cons.prems(2) gap by (auto simp: runs_ok_def sorted_wrt_append)
    have "\<forall>g\<in>set hs. \<forall>r\<in>set (rs @ [\<lparr>hrFrom = h, hrTo = h\<rparr>]). hrTo r < g"
      using Cons.prems(1,3) by auto
    from Cons.IH [OF _ ok this] Cons.prems(1) False show ?thesis by (auto simp: run_covers_def)
  qed
qed simp

lemma missingRuns_spec:
  "runs_ok (missingRuns M) \<and> (\<forall>h. (\<exists>r\<in>set (missingRuns M). run_covers r h) \<longleftrightarrow> h \<in> M)"
  using runs_loop_spec [of "sorted_list_of_set M" "[]"]
  by (simp add: missingRuns_def runs_ok_def)

lemma missingRuns_valid:
  assumes "0 \<notin> M"
  shows "valid_ranges (missingRuns M) = missingRuns M" "disjoint_ranges (valid_ranges (missingRuns M))"
proof -
  note spec = missingRuns_spec [of M]
  have ne: "hrFrom r \<noteq> 0 \<and> hrFrom r \<le> hrTo r" if "r \<in> set (missingRuns M)" for r
  proof -
    have le: "hrFrom r \<le> hrTo r" using spec that by (auto simp: runs_ok_def)
    then have "hrFrom r \<in> M" using spec that by (auto simp: run_covers_def)
    then show ?thesis using assms le by auto
  qed
  then show v: "valid_ranges (missingRuns M) = missingRuns M"
    by (auto simp: valid_ranges_def not_less intro: filter_True)
  have "r = q \<or> hrTo r < hrFrom q \<or> hrTo q < hrFrom r" if "r \<in> set rs" "q \<in> set rs"
    "sorted_wrt (\<lambda>a b. unat (hrTo a) + 1 < unat (hrFrom b)) rs" for r q and rs :: "HeightRange list"
    using that by (induction rs) (auto simp: word_less_nat_alt)
  then show "disjoint_ranges (valid_ranges (missingRuns M))"
    using spec by (auto simp: v disjoint_ranges_def list_all_iff runs_ok_def)
qed

lemma in_missingRuns: "in_ranges (missingRuns M) h \<longleftrightarrow> h \<in> M"
  using missingRuns_spec [of M] by (simp add: in_ranges_def list_ex_iff run_covers_def)

lemma few_wanted:
  assumes "distinct (History_Window.heights ls)" "0 \<notin> M"
  shows "length (filter (\<lambda>l. line_height l \<noteq> 0 \<and> line_height l \<in> M) ls) \<le> card M"
proof -
  have "map line_height (filter (\<lambda>l. line_height l \<noteq> 0 \<and> line_height l \<in> M) ls) = filter (\<lambda>h. h \<in> M) (History_Window.heights ls)"
    by (induction ls) (auto simp: History_Window.heights_def)
  from arg_cong [OF this, of length]
  have "length (filter (\<lambda>l. line_height l \<noteq> 0 \<and> line_height l \<in> M) ls) = length (filter (\<lambda>h. h \<in> M) (History_Window.heights ls))"
    by simp
  also have "\<dots> = card (set (filter (\<lambda>h. h \<in> M) (History_Window.heights ls)))"
    using assms(1) by (intro distinct_card [symmetric] distinct_filter)
  also have "\<dots> \<le> card M" by (rule card_mono) auto
  finally show ?thesis .
qed

text \<open>The request as the read loop decodes it, and the runs it looks at: the server stops at \<open>HistoryRefillMaxRanges\<close>.\<close>

definition decoded :: "env_probe \<Rightarrow> HistoryRequest \<Rightarrow> bool" where
  "decoded q r \<longleftrightarrow> epType q = hqType r \<and> epLimit q = hqLimit r \<and> epAfterSeq q = hqAfterSeq r \<and> epBeforeSeq q = hqBeforeSeq r \<and>
     epRanges q = hqRanges r"

definition served_runs :: "int \<Rightarrow> u64 set \<Rightarrow> HeightRange list" where
  "served_runs maxR M =
     (if maxR > 0 \<and> int (length (missingRuns M)) > maxR then take (nat maxR) (missingRuns M) else missingRuns M)"

lemma valid_sub: "valid_ranges rs = rs \<Longrightarrow> valid_ranges (take n rs) = take n rs"
  by (metis (no_types, lifting) filter_True filter_id_conv in_set_takeD valid_ranges_def)

lemma served_runs_valid:
  assumes "0 \<notin> M" "M \<noteq> {}"
  shows "valid_ranges (served_runs maxR M) = served_runs maxR M" "disjoint_ranges (served_runs maxR M)" "served_runs maxR M \<noteq> []"
proof -
  note v = missingRuns_valid [OF assms(1)]
  show "valid_ranges (served_runs maxR M) = served_runs maxR M" using v(1) valid_sub by (simp add: served_runs_def)
  have "set (served_runs maxR M) \<subseteq> set (missingRuns M)" by (auto simp: served_runs_def dest: in_set_takeD)
  then show "disjoint_ranges (served_runs maxR M)" using v by (force simp: disjoint_ranges_def list_all_iff)
  show "served_runs maxR M \<noteq> []" using assms(2) missingRuns_spec [of M] by (auto simp: served_runs_def)
qed

text \<open>The lines a refill request is answered with.\<close>

definition refill_lines :: "DynamicConfig \<Rightarrow> u64 set \<Rightarrow> stored_line list \<Rightarrow> stored_line list" where
  "refill_lines d M ls = take (min (card M) (nat (dcMaxHistorySend d)))
     (filter (\<lambda>l. line_height l \<noteq> 0 \<and> in_ranges (served_runs (dcHistoryRefillMaxRanges d) M) (line_height l)) ls)"

lemma refill_lines_all:
  assumes "distinct (History_Window.heights ls)" "0 \<notin> M" "int (card M) \<le> dcMaxHistorySend d"
    and "dcHistoryRefillMaxRanges d \<le> 0 \<or> int (length (missingRuns M)) \<le> dcHistoryRefillMaxRanges d"
  shows "refill_lines d M ls = filter (\<lambda>l. line_height l \<in> M) ls"
proof -
  have "served_runs (dcHistoryRefillMaxRanges d) M = missingRuns M" using assms(4) by (auto simp: served_runs_def)
  moreover have "min (card M) (nat (dcMaxHistorySend d)) = card M" using assms(3) by simp
  ultimately have "refill_lines d M ls = filter (\<lambda>l. line_height l \<noteq> 0 \<and> line_height l \<in> M) ls"
    using few_wanted [OF assms(1,2)] by (simp add: refill_lines_def in_missingRuns)
  also have "\<dots> = filter (\<lambda>l. line_height l \<in> M) ls" using assms(2) by (intro filter_cong) auto
  finally show ?thesis .
qed

lemma refill_page:
  assumes "sorts_ranges (xSortRanges ev)" "0 \<notin> rwMissing p" "rwMissing p \<noteq> {}" "0 < dcMaxHistorySend (xDyn ev)"
    and "decoded q (refill_request p)"
  shows "history_page ev ses q c = Some (send_page (page_env ev ses) (refill_lines (xDyn ev) (rwMissing p) (csHistory c))
    \<lparr>pmDirection = ''recover'', pmNextSeq = 0, pmMore = False\<rparr>)"
proof -
  let ?M = "rwMissing p" and ?R = "served_runs (dcHistoryRefillMaxRanges (xDyn ev)) (rwMissing p)"
  note v = served_runs_valid [OF assms(2,3), of "dcHistoryRefillMaxRanges (xDyn ev)"]
  have card: "0 < card ?M" using assms(3) by (simp add: card_gt_0_iff)
  have q: "epLimit q = int (card ?M)" "epRanges q = missingRuns ?M" using assms(5) by (simp_all add: decoded_def refill_request_def)
  have lim: "request_limit ev q = int (min (card ?M) (nat (dcMaxHistorySend (xDyn ev))))" "0 < request_limit ev q"
    using card assms(4) by (auto simp: request_limit_def q)
  have "missingRuns ?M \<noteq> []" using v(3) by (auto simp: served_runs_def split: if_splits)
  moreover have "collectRanges (xSortRanges ev) ?R (request_limit ev q) c = refill_lines (xDyn ev) ?M (csHistory c)"
    using refill_exact_for_disjoint_ranges [OF assms(1) lim(2), of ?R c] v by (simp add: refill_lines_def lim(1))
  ultimately show ?thesis using lim(2) by (simp add: history_page_def serveHistoryRanges_def q served_runs_def Let_def)
qed

text \<open>
  C20. A refill asks for what is missing and gets it: the ranges of the client's request cover exactly its missing heights, and
  the server's read loop, given that request, answers with one page (or, when the history budget of the address is spent,
  with none). The page holds the stored lines at the heights of the first \<open>HistoryRefillMaxRanges\<close> ranges, in log order,
  as many as the smaller of the number asked for and \<open>MaxHistorySend\<close>; so it holds exactly the stored lines at the missing
  heights when the request stays within these two limits and no two stored lines share a height.
\<close>

theorem refill_round_trip:
  assumes "sorts_ranges (xSortRanges ev)" "0 \<notin> rwMissing p" "rwMissing p \<noteq> {}" "0 < dcMaxHistorySend (xDyn ev)"
    and "TrimSpace raw \<noteq> []" "xProbe ev raw = Some q" "decoded q (refill_request p)"
  shows "(\<forall>h. in_ranges (hqRanges (refill_request p)) h \<longleftrightarrow> h \<in> rwMissing p)
    \<and> cvPages (snd (pump_frame ev raw (pu, s))) = cvPages s @
        (if fst (allowHistoryRequest ev 0 (puIP pu) (request_cost ev q) s)
         then [(seConn (puSession pu), send_page (page_env ev (puSession pu))
                  (refill_lines (xDyn ev) (rwMissing p) (csHistory (hbChain (cvHub s))))
                  \<lparr>pmDirection = ''recover'', pmNextSeq = 0, pmMore = False\<rparr>)]
         else [])
    \<and> (distinct (History_Window.heights (csHistory (hbChain (cvHub s)))) \<and> int (card (rwMissing p)) \<le> dcMaxHistorySend (xDyn ev) \<and>
        (dcHistoryRefillMaxRanges (xDyn ev) \<le> 0 \<or> int (length (hqRanges (refill_request p))) \<le> dcHistoryRefillMaxRanges (xDyn ev)) \<longrightarrow>
        refill_lines (xDyn ev) (rwMissing p) (csHistory (hbChain (cvHub s))) =
          filter (\<lambda>l. line_height l \<in> rwMissing p) (csHistory (hbChain (cvHub s))))"
proof -
  obtain ok s1 where a: "allowHistoryRequest ev 0 (puIP pu) (request_cost ev q) s = (ok, s1)" by fastforce
  have s1: "cvHub s1 = cvHub s" "cvPages s1 = cvPages s" by (subst allowHistoryRequest_eq [OF a], simp)+
  have "epType q = ''history_request''" using assms(7) by (simp add: decoded_def refill_request_def)
  then have f: "snd (pump_frame ev raw (pu, s)) = handle_history ev (puSession pu) (puIP pu) q s"
    using assms(5,6) by (simp add: pump_frame_def Let_def)
  have o: "cvPages (observeHistory ev i ip t) = cvPages t" for i ip t by (simp add: observe_defs on_behavior_def)
  have "cvPages (handle_history ev (puSession pu) (puIP pu) q s) = cvPages s @
      (if ok then [(seConn (puSession pu), send_page (page_env ev (puSession pu))
                  (refill_lines (xDyn ev) (rwMissing p) (csHistory (hbChain (cvHub s))))
                  \<lparr>pmDirection = ''recover'', pmNextSeq = 0, pmMore = False\<rparr>)] else [])"
    using refill_page [OF assms(1-4,7)] by (simp add: handle_history_def a s1 o)
  then show ?thesis
    using refill_lines_all [OF _ assms(2), of "csHistory (hbChain (cvHub s))" "xDyn ev"] by (simp add: f a refill_request_def in_missingRuns)
qed

definition ex_window :: recoverWindow where
  "ex_window = \<lparr>rwAddr = 0, rwMissing = {1, 3}, rwKnown = Map.empty, rwLive = {}, rwMaxMissing = 3, rwReceived = 0,
     rwAttempts = 0, rwFailed = False, rwRequestedAt = 0\<rparr>"

definition ex_refill_env :: sv_env where
  "ex_refill_env = (ex_sv 9 ex_text 2)\<lparr>xSortRanges := ex_sort,
     xProbe := (\<lambda>_. Some (no_type\<lparr>epType := ''history_request'', epLimit := 2, epRanges := hqRanges (refill_request ex_window)\<rparr>))\<rparr>"

definition ex_refill_server :: ChatServer where
  "ex_refill_server = (ex_chat_server None)\<lparr>cvHub := empty_hub (ex_log 3)\<rparr>"

theorem refill_round_trip_witness:
  "cvPages (snd (pump_frame ex_refill_env ''x'' (ex_pump, ex_refill_server))) =
     [(7, send_page (page_env ex_refill_env ex_ann) [ex_line 1, ex_line 3] \<lparr>pmDirection = ''recover'', pmNextSeq = 0, pmMore = False\<rparr>)]"
proof -
  let ?q = "no_type\<lparr>epType := ''history_request'', epLimit := 2, epRanges := hqRanges (refill_request ex_window)\<rparr>"
  have d: "dcMaxHistorySend (xDyn ex_refill_env) = 500" "dcHistoryRefillMaxRanges (xDyn ex_refill_env) = 64"
    "dcHistoryBudgetBurst (xDyn ex_refill_env) = 1000" "dcHistoryBudgetPerSec (xDyn ex_refill_env) = 500" "xClk ex_refill_env i = 9"
    "xSortRanges ex_refill_env = ex_sort" "xProbe ex_refill_env ''x'' = Some ?q" "xAbuse ex_refill_env = None" for i
    by (simp_all add: ex_refill_env_def ex_sv_def DefaultDynamic_def)
  have r: "length (hqRanges (refill_request ex_window)) \<le> 2"
    by (simp add: refill_request_def missingRuns_def ex_window_def)
  have dec: "decoded ?q (refill_request ex_window)" by (simp add: decoded_def refill_request_def ex_window_def no_type_def)
  have w: "sorts_ranges (xSortRanges ex_refill_env)" "0 \<notin> rwMissing ex_window" "rwMissing ex_window \<noteq> {}" "0 < dcMaxHistorySend (xDyn ex_refill_env)"
    using ex_sort_sorts by (simp_all add: d ex_window_def)
  have s: "csHistory (hbChain (cvHub ex_refill_server)) = [ex_line 1, ex_line 2, ex_line 3]" "cvPages ex_refill_server = []"
    by (simp_all add: ex_refill_server_def empty_hub_def ex_log_lines ex_chat_server_def)
  have "hqRanges (refill_request ex_window) \<noteq> []" using served_runs_valid(3) [OF w(2,3), of 0] by (simp add: served_runs_def refill_request_def)
  then have cost: "request_cost ex_refill_env ?q = 2" by (simp add: request_cost_def request_limit_def d)
  have ok: "fst (allowHistoryRequest ex_refill_env 0 (puIP ex_pump) (request_cost ex_refill_env ?q) ex_refill_server)"
    unfolding cost by (simp add: allowHistoryRequest_def budget_allow_def refill_def degraded_def d ex_refill_server_def ex_chat_server_def Let_def)
  show ?thesis
    using refill_round_trip [OF w trim_x d(7) dec, of ex_pump ex_refill_server] ok r
    by (simp add: d s ex_window_def History_Window.heights_def ex_ann_def)
qed

subsection \<open>What a refill shows\<close>

lemma chain_end_snoc:
  "chain_end th ws = Some (t, h) \<Longrightarrow> wChainHeight w = h + 1 \<Longrightarrow> verifyWireLink w t = Inr t' \<Longrightarrow>
     chain_end th (ws @ [w]) = Some (t', h + 1)"
proof (induction ws arbitrary: th)
  case Nil
  then show ?case by (cases th) (simp add: chain_end_one del: chain_end.simps(2))
next
  case (Cons v ws)
  then show ?case
    by (auto simp: chain_end_Cons [of _ v "ws @ [w]"] chain_end_Cons [of _ v ws] simp del: chain_end.simps split: option.splits)
qed

text \<open>
  A wire inside the open window is accepted, when it continues the known hash below it, or leaves the
  session as it was but for the flags of the window.
\<close>

definition in_window :: "recoverWindow \<Rightarrow> WireMessage \<Rightarrow> bool" where
  "in_window p w \<longleftrightarrow> wChainHash w \<noteq> [] \<and> wChainHeight w \<le> rwMaxMissing p"

definition accepts :: "recoverWindow \<Rightarrow> WireMessage \<Rightarrow> bytes option" where
  "accepts p w =
     (if wChainHeight w \<notin> rwMissing p then None
      else case rwKnown p (wChainHeight w - 1) of
          None \<Rightarrow> None
        | Some prev \<Rightarrow> (case verifyWireLink w prev of Inl e \<Rightarrow> None | Inr t \<Rightarrow> Some t))"

lemma emit_index [simp]:
  "chWireIdx (ssChain (placeEntry tab e s)) = chWireIdx (ssChain s)"
  "chWireIdx (ssChain (emitTabLive live tab e s)) = chWireIdx (ssChain s)"
  "chWireIdx (ssChain (emit_block live tab e s)) = chWireIdx (ssChain s)"
  by (simp_all add: placeEntry_def emitTabLive_def emit_block_def Let_def split: option.split prod.split bool.split)

lemma render_index [simp]: "chWireIdx (ssChain (renderChatBlock env w s)) = wix_put w (chWireIdx (ssChain s))"
  by (simp add: renderChatBlock_def Let_def split: option.split prod.split)

lemma recovered_index [simp]: "chWireIdx (ssChain (renderRecoveredInPlace env w s)) = wix_put w (chWireIdx (ssChain s))"
  by (simp add: renderRecoveredInPlace_def Let_def)

lemma refill_wire:
  assumes "chRecoverPending (ssChain s) = Some p" "in_window p w"
  shows "\<exists>p'. chRecoverPending (ssChain (checkRecoverWire env now w s)) = Some p' \<and> rwMaxMissing p' = rwMaxMissing p \<and>
    (case accepts p w of
       None \<Rightarrow> rwMissing p' = rwMissing p \<and> rwKnown p' = rwKnown p \<and> ssDisplay (checkRecoverWire env now w s) = ssDisplay s
         \<and> chWireIdx (ssChain (checkRecoverWire env now w s)) = chWireIdx (ssChain s)
     | Some t \<Rightarrow> rwMissing p' = rwMissing p - {wChainHeight w} \<and> rwKnown p' = (rwKnown p)(wChainHeight w \<mapsto> t)
         \<and> chWireIdx (ssChain (checkRecoverWire env now w s)) = wix_put w (chWireIdx (ssChain s)))"
  using assms
  by (auto simp: checkRecoverWire_def in_window_def accepts_def set_window_def Let_def not_less split: option.splits sum.splits)

definition refill :: "cl_env \<Rightarrow> (time \<times> WireMessage) list \<Rightarrow> Session \<Rightarrow> Session" where
  "refill env tws s = fold (\<lambda>(now, w). checkRecoverWire env now w) tws s"

lemma refill_simps [simp]:
  "refill env [] s = s" "refill env ((now, w) # tws) s = refill env tws (checkRecoverWire env now w s)"
  by (simp_all add: refill_def)

text \<open>Every known hash ends a chain of shown lines that starts at a hash known when the refill began.\<close>

definition anchored :: "(u64 \<rightharpoonup> bytes) \<Rightarrow> WireMessage set \<Rightarrow> (u64 \<rightharpoonup> bytes) \<Rightarrow> bool" where
  "anchored K0 shown K \<longleftrightarrow> (\<forall>h t. K h = Some t \<longrightarrow>
     (\<exists>h0 t0 ws. K0 h0 = Some t0 \<and> set ws \<subseteq> shown \<and> chain_end (t0, h0) ws = Some (t, h)))"

lemma anchored_start: "anchored K A K"
  unfolding anchored_def
proof (intro allI impI)
  fix h t assume "K h = Some t"
  then show "\<exists>h0 t0 ws. K h0 = Some t0 \<and> set ws \<subseteq> A \<and> chain_end (t0, h0) ws = Some (t, h)"
    by (intro exI [of _ h] exI [of _ t] exI [of _ "[]"]) simp
qed

lemma anchored_accept:
  assumes "anchored K0 A K" "K (wChainHeight w - 1) = Some prev" "verifyWireLink w prev = Inr t"
  shows "anchored K0 (insert w A) (K(wChainHeight w \<mapsto> t))"
    and "\<exists>h0 t0 ws. K0 h0 = Some t0 \<and> set ws \<subseteq> A \<and> chain_end (t0, h0) (ws @ [w]) = Some (t, wChainHeight w)"
proof -
  obtain h0 t0 ws where ws: "K0 h0 = Some t0" "set ws \<subseteq> A" "chain_end (t0, h0) ws = Some (prev, wChainHeight w - 1)"
    using assms(1,2) unfolding anchored_def by blast
  have e: "chain_end (t0, h0) (ws @ [w]) = Some (t, wChainHeight w)"
    using chain_end_snoc [OF ws(3) _ assms(3)] by simp
  then show "\<exists>h0 t0 ws. K0 h0 = Some t0 \<and> set ws \<subseteq> A \<and> chain_end (t0, h0) (ws @ [w]) = Some (t, wChainHeight w)"
    using ws by blast
  have "\<exists>h0 t0 ws. K0 h0 = Some t0 \<and> set ws \<subseteq> insert w A \<and> chain_end (t0, h0) ws = Some (t', h')"
    if "(K(wChainHeight w \<mapsto> t)) h' = Some t'" for h' t'
  proof (cases "h' = wChainHeight w")
    case True
    then have "t' = t" using that by simp
    then show ?thesis using e ws(1,2) True by (intro exI [of _ h0] exI [of _ t0] exI [of _ "ws @ [w]"]) auto
  next
    case False
    then have "K h' = Some t'" using that by simp
    then show ?thesis using assms(1) unfolding anchored_def by (meson subset_insertI2)
  qed
  then show "anchored K0 (insert w A) (K(wChainHeight w \<mapsto> t))" unfolding anchored_def by blast
qed

lemma refill_run:
  assumes "chRecoverPending (ssChain s) = Some p" "\<forall>tw\<in>set tws. in_window p (snd tw)" "anchored K0 A (rwKnown p)"
  shows "\<exists>as p'. set as \<subseteq> snd ` set tws
    \<and> chRecoverPending (ssChain (refill env tws s)) = Some p'
    \<and> chWireIdx (ssChain (refill env tws s)) = fold wix_put as (chWireIdx (ssChain s))
    \<and> rwMissing p' = rwMissing p - wChainHeight ` set as
    \<and> (\<forall>w\<in>set as. \<exists>h0 t0 ws t. K0 h0 = Some t0 \<and> set ws \<subseteq> A \<union> set as
          \<and> chain_end (t0, h0) (ws @ [w]) = Some (t, wChainHeight w))"
  using assms
proof (induction tws arbitrary: s p A)
  case Nil
  then show ?case by (intro exI [of _ "[]"]) auto
next
  case (Cons tw tws)
  obtain now w where tw: "tw = (now, w)" by fastforce
  let ?s = "checkRecoverWire env now w s"
  obtain p1 where p1: "chRecoverPending (ssChain ?s) = Some p1" "rwMaxMissing p1 = rwMaxMissing p"
    and acc: "case accepts p w of
       None \<Rightarrow> rwMissing p1 = rwMissing p \<and> rwKnown p1 = rwKnown p \<and> ssDisplay ?s = ssDisplay s
         \<and> chWireIdx (ssChain ?s) = chWireIdx (ssChain s)
     | Some t \<Rightarrow> rwMissing p1 = rwMissing p - {wChainHeight w} \<and> rwKnown p1 = (rwKnown p)(wChainHeight w \<mapsto> t)
         \<and> chWireIdx (ssChain ?s) = wix_put w (chWireIdx (ssChain s))"
    using refill_wire [of s p w env now] Cons.prems(1,2) by (auto simp: tw)
  have win: "\<forall>tw\<in>set tws. in_window p1 (snd tw)" using Cons.prems(2) p1(2) by (auto simp: in_window_def)
  show ?case
  proof (cases "accepts p w")
    case None
    with acc Cons.prems(3) have "anchored K0 A (rwKnown p1)" by simp
    from Cons.IH [OF p1(1) win this] None acc show ?thesis
      by (auto simp: tw intro: order_trans)
  next
    case (Some t)
    then obtain prev where prev: "rwKnown p (wChainHeight w - 1) = Some prev" "verifyWireLink w prev = Inr t"
      by (auto simp: accepts_def split: if_splits option.splits sum.splits)
    note k = anchored_accept [OF Cons.prems(3) prev]
    from acc Some have a: "rwMissing p1 = rwMissing p - {wChainHeight w}"
      "rwKnown p1 = (rwKnown p)(wChainHeight w \<mapsto> t)" "chWireIdx (ssChain ?s) = wix_put w (chWireIdx (ssChain s))" by simp_all
    obtain as p' where as: "set as \<subseteq> snd ` set tws" "chRecoverPending (ssChain (refill env tws ?s)) = Some p'"
      "chWireIdx (ssChain (refill env tws ?s)) = fold wix_put as (chWireIdx (ssChain ?s))"
      "rwMissing p' = rwMissing p1 - wChainHeight ` set as"
      "\<forall>w'\<in>set as. \<exists>h0 t0 ws t. K0 h0 = Some t0 \<and> set ws \<subseteq> insert w A \<union> set as
          \<and> chain_end (t0, h0) (ws @ [w']) = Some (t, wChainHeight w')"
      using Cons.IH [OF p1(1) win k(1) [folded a(2)]] by blast
    have "\<exists>h0 t0 ws t. K0 h0 = Some t0 \<and> set ws \<subseteq> A \<union> set (w # as)
          \<and> chain_end (t0, h0) (ws @ [w']) = Some (t, wChainHeight w')" if "w' \<in> set (w # as)" for w'
    proof (cases "w' = w")
      case True
      then show ?thesis using k(2) by (metis Un_upper1 order_trans)
    next
      case False
      then have "w' \<in> set as" using that by simp
      then show ?thesis using as(5) by (metis Un_insert_left Un_insert_right list.simps(15))
    qed
    with as(1-4) a show ?thesis
      by (intro exI [of _ "w # as"] exI [of _ p']) (auto simp: tw)
  qed
qed

text \<open>
  C21. A refill shows only verified lines: of the lines that arrive inside an open window, in any order and with any
  content, exactly those are shown and struck off the missing heights that end a verified chain of shown lines from
  a hash the client knew when the refill began; every other line changes neither the index nor the missing heights.
\<close>

theorem refill_shows_only_verified:
  assumes "chRecoverPending (ssChain s) = Some p" "list_all (\<lambda>tw. in_window p (snd tw)) tws"
  shows "\<exists>as p'. set as \<subseteq> snd ` set tws
    \<and> chRecoverPending (ssChain (refill env tws s)) = Some p'
    \<and> chWireIdx (ssChain (refill env tws s)) = fold wix_put as (chWireIdx (ssChain s))
    \<and> rwMissing p' = rwMissing p - wChainHeight ` set as
    \<and> (\<forall>w\<in>set as. \<exists>h0 t0 ws t. rwKnown p h0 = Some t0 \<and> set ws \<subseteq> set as
          \<and> chain_end (t0, h0) (ws @ [w]) = Some (t, wChainHeight w))"
  using refill_run [OF assms(1) _ anchored_start [of "rwKnown p" "{}"], of tws env] assms(2)
  by (simp add: list_all_iff)

definition ex_gap :: recoverWindow where
  "ex_gap = \<lparr>rwAddr = 0, rwMissing = {1}, rwKnown = [0 \<mapsto> Genesis []], rwLive = {1}, rwMaxMissing = 1, rwReceived = 0,
     rwAttempts = 1, rwFailed = False, rwRequestedAt = 0\<rparr>"

definition ex_refilling :: Session where
  "ex_refilling = upd_chain (\<lambda>c. c\<lparr>chHeight := 2, chTip := zero32, chInRecover := True, chRecoverPending := Some ex_gap\<rparr>) ex_client"

theorem refill_shows_only_verified_witness:
  "\<exists>as p'. set as \<subseteq> {linked_wire ex_chat ex_log_start}
    \<and> chRecoverPending (ssChain (refill ex_cl_env [(0, linked_wire ex_chat ex_log_start)] ex_refilling)) = Some p'
    \<and> rwMissing p' = {1} - wChainHeight ` set as
    \<and> (\<forall>w\<in>set as. \<exists>h0 t0 ws t. [0 \<mapsto> Genesis []] h0 = Some t0 \<and> set ws \<subseteq> set as
          \<and> chain_end (t0, h0) (ws @ [w]) = Some (t, wChainHeight w))"
proof -
  have 1: "chRecoverPending (ssChain ex_refilling) = Some ex_gap" by (simp add: ex_refilling_def)
  have 2: "list_all (\<lambda>tw. in_window ex_gap (snd tw)) [(0, linked_wire ex_chat ex_log_start)]"
    by (simp add: in_window_def ex_gap_def new_chain_init)
  have eq: "rwMissing ex_gap = {1}" "rwKnown ex_gap = [0 \<mapsto> Genesis []]" by (simp_all add: ex_gap_def)
  show ?thesis
    using refill_shows_only_verified [OF 1 2, of ex_cl_env]
    unfolding eq set_simps image_insert image_empty snd_conv by (elim exE conjE) (intro exI conjI)
qed

subsection \<open>Where the check looks away\<close>

text \<open>
  A height jump is believed: while a replay is loading, a line above the next height whose \<open>chain_prev\<close> is not the
  client's tip becomes the new tip with whatever well-formed \<open>chain_hash\<close> it carries. Its content is never compared with
  that hash, no warning is raised and nothing is shown, so a replay that leaves out every second height passes whatever it says.
\<close>

theorem replay_jump_is_believed:
  assumes "chHaveTip (ssChain s)" "chInSync (ssChain s)" "\<not> chLoading (ssChain s)"
    and "ParseHex64 (wChainPrev w) = Some p" "p \<noteq> chTip (ssChain s)" "ParseHex64 (wChainHash w) = Some h"
    and "chHeight (ssChain s) < chHeight (ssChain s) + 1" "chHeight (ssChain s) + 1 < wChainHeight w"
  shows "chTip (ssChain (checkChainLink env now w s)) = h
    \<and> chHeight (ssChain (checkChainLink env now w s)) = wChainHeight w
    \<and> chWarned (ssChain (checkChainLink env now w s)) = chWarned (ssChain s)
    \<and> chGapWarned (ssChain (checkChainLink env now w s)) = chGapWarned (ssChain s)
    \<and> ssDisplay (checkChainLink env now w s) = ssDisplay s"
proof -
  have ne: "wChainHash w \<noteq> []" using assms(6) by (auto simp: ParseHex64_def)
  have v: "verifyWireLink w (chTip (ssChain s)) = Inl PrevMismatch" using assms(4,5) by (simp add: verifyWireLink_def)
  have up: "\<not> wChainHeight w \<le> chHeight (ssChain s)" using assms(7,8) by simp
  show ?thesis
    using assms(1-3,6,8) ne v up
    by (simp add: checkChainLink_def settle_error after_jump_def Let_def)
qed

definition forged :: WireMessage where
  "forged = ex_chat\<lparr>wText := ''never sent'', wChainPrev := hex_encode zero32, wChainHash := hex_encode zero32, wChainHeight := 7\<rparr>"

definition ex_syncing :: Session where
  "ex_syncing = upd_chain (\<lambda>c. c\<lparr>chInSync := True, chTip := replicate 32 (CHR ''a''), chHeight := 4\<rparr>) ex_client"

theorem replay_jump_is_believed_witness:
  "chTip (ssChain (checkChainLink ex_cl_env 0 forged ex_syncing)) = zero32
    \<and> chHeight (ssChain (checkChainLink ex_cl_env 0 forged ex_syncing)) = 7
    \<and> \<not> chWarned (ssChain (checkChainLink ex_cl_env 0 forged ex_syncing))"
proof -
  have "ParseHex64 (wChainPrev forged) = Some zero32" "ParseHex64 (wChainHash forged) = Some zero32"
    by (simp_all add: forged_def zero32_def)
  moreover have "chHaveTip (ssChain ex_syncing)" "chInSync (ssChain ex_syncing)" "\<not> chLoading (ssChain ex_syncing)"
    "chTip (ssChain ex_syncing) = replicate 32 (CHR ''a'')" "chHeight (ssChain ex_syncing) = 4"
    "\<not> chWarned (ssChain ex_syncing)"
    by (simp_all add: ex_syncing_def ex_client_def ex_chain_def)
  ultimately show ?thesis
    using replay_jump_is_believed [of ex_syncing forged zero32 zero32 ex_cl_env 0] by (simp add: forged_def zero32_def)
qed

lemma wix_get_put:
  assumes "wix_ok x" "wChainHeight m \<noteq> 0"
  shows "wix_get (wChainHeight m) (wix_put m x) = Some m"
proof -
  have k: "wix_key m = Some (wChainHeight m)" using assms(2) by (simp add: wix_key_def)
  have "0 < nat (wixCap x)" "length (wixOrder x) \<le> nat (wixCap x)"
    using assms(1) by (auto simp: wix_ok_def fifo_ok_def)
  then have "wChainHeight m \<in> set (wixOrder (wix_put m x))"
    unfolding wires.put_order [OF assms(1) k] by (auto simp: last_n_def Suc_diff_le)
  then show ?thesis using wires.put_get [OF assms(1) k] by simp
qed

lemma banner_index: "wix_ok (chWireIdx (ssChain s)) \<Longrightarrow> wix_ok (chWireIdx (ssChain (flushDateBannerLocked env s)))"
  by (auto simp: flushDateBannerLocked_def showDateBannerLocked_def wires.put_ok Let_def split: option.split prod.split bool.split)

lemma note_index [simp]:
  "chWireIdx (ssChain (noteChainTip env t h s)) = chWireIdx (ssChain s)"
  by (simp add: noteChainTip_def batch_saved_def saveChainTip_def Let_def)

text \<open>A live line during a refill: the window closes, the line is checked and shown, the refill stays pending.\<close>

lemma live_line_closes_window:
  assumes "wix_ok (chWireIdx (ssChain s))" "chHaveTip (ssChain s)" "\<not> chLoading (ssChain s)" "\<not> chInOlder (ssChain s)"
    and "chInRecover (ssChain s)" "chRecoverPending (ssChain s) = Some p"
    and "wType l = ''chat''" "wChainHash l \<noteq> []" "rwMaxMissing p < wChainHeight l" "wChainHeight l = chHeight (ssChain s) + 1"
    and "chHeight (ssChain s) < chHeight (ssChain s) + 1" "verifyWireLink l (chTip (ssChain s)) = Inr t"
  shows "let c = ssChain (read_wire env (now, l) s) in wix_ok (chWireIdx c) \<and> chHaveTip c \<and> \<not> chLoading c \<and> \<not> chInOlder c
    \<and> \<not> chInRecover c \<and> chRecoverPending c = Some p \<and> chTip c = t \<and> chHeight c = wChainHeight l \<and> chWarned c = chWarned (ssChain s)"
proof -
  define s0 where "s0 = consumeEchoLocked l False now (upd_chain (\<lambda>c. c\<lparr>chRecoverRendered := False, chInRecover := False\<rparr>) s)"
  have c0: "ssChain s0 = (ssChain s)\<lparr>chRecoverRendered := False, chInRecover := False\<rparr>" by (simp add: s0_def)
  have v: "verifyReplayWire env now l True s = (checkChainLink env now l s0, chRecoverRendered (ssChain (checkChainLink env now l s0)))"
    using assms(4-6,8,9) by (simp add: verifyReplayWire_def checkRecoverWire_def s0_def Let_def)
  have up: "\<not> wChainHeight l \<le> chHeight (ssChain s0)" using assms(10,11) by (simp add: c0)
  define s1 where "s1 = (if chInSync (ssChain s0)
      then case ParseHex64 (wChainHash l) of
          Some h \<Rightarrow> upd_chain (\<lambda>c. c\<lparr>chSyncHeights := (chSyncHeights c)(wChainHeight l \<mapsto> h)\<rparr>) s0 | None \<Rightarrow> s0
      else s0)"
  have s1: "chTip (ssChain s1) = chTip (ssChain s)" "chHaveTip (ssChain s1)" "chHeight (ssChain s1) = chHeight (ssChain s)"
    "\<not> chLoading (ssChain s1)" "\<not> chInRecover (ssChain s1)" "\<not> chRecoverRendered (ssChain s1)" "\<not> chInOlder (ssChain s1)"
    "chRecoverPending (ssChain s1) = Some p" "chWireIdx (ssChain s1) = chWireIdx (ssChain s)" "chWarned (ssChain s1) = chWarned (ssChain s)"
    using assms(2-6) by (simp_all add: s1_def c0 split: option.split)
  have k: "checkChainLink env now l s0 = noteChainTip env t (wChainHeight l) s1"
    using assms(8,12) up s1 unfolding checkChainLink_def Let_def s1_def [symmetric] by (simp add: settle_ok c0)
  have n: "\<not> chRecoverRendered (ssChain (noteChainTip env t (wChainHeight l) s1))"
    "\<not> chInOlder (ssChain (noteChainTip env t (wChainHeight l) s1))"
    using s1 by (simp_all add: noteChainTip_def batch_saved_def saveChainTip_def Let_def)
  have "read_wire env (now, l) s = set_older False (renderChatBlock env l (flushDateBannerLocked env (noteChainTip env t (wChainHeight l) s1)))"
    using assms(3,4,7) n by (simp add: read_wire_def show_wire_def v k Let_def)
  then show ?thesis
    using s1 assms(1) by (simp add: Let_def wires.put_ok banner_index)
qed

text \<open>
  A live line in the middle of a refill opens the rest of it to anything: the window closes while its heights are still
  missing, and the next refilled line at a missing height, now at or below the running tip, is indexed and shown
  with no check of its hash, its predecessor or its content, without a warning, and stays on the list of missing heights.
\<close>

theorem interrupted_refill_is_unverified:
  assumes "wix_ok (chWireIdx (ssChain s))" "chHaveTip (ssChain s)" "\<not> chLoading (ssChain s)" "\<not> chInOlder (ssChain s)"
    and "chInRecover (ssChain s)" "chRecoverPending (ssChain s) = Some p"
    and "wType l = ''chat''" "wChainHash l \<noteq> []" "rwMaxMissing p < wChainHeight l" "wChainHeight l = chHeight (ssChain s) + 1"
    and "chHeight (ssChain s) < chHeight (ssChain s) + 1" "verifyWireLink l (chTip (ssChain s)) = Inr t"
    and "wType m = ''chat''" "wChainHash m \<noteq> []" "wChainHeight m \<noteq> 0" "wChainHeight m \<in> rwMissing p" "wChainHeight m \<le> rwMaxMissing p"
  shows "let c = ssChain (read_live env [(now, l), (later, m)] s) in
    wix_get (wChainHeight m) (chWireIdx c) = Some m \<and> chRecoverPending c = Some p \<and> chTip c = t
    \<and> chWarned c = chWarned (ssChain s)"
proof -
  define s1 where "s1 = read_wire env (now, l) s"
  have s1: "wix_ok (chWireIdx (ssChain s1))" "chHaveTip (ssChain s1)" "\<not> chLoading (ssChain s1)" "\<not> chInOlder (ssChain s1)"
    "\<not> chInRecover (ssChain s1)" "chRecoverPending (ssChain s1) = Some p" "chTip (ssChain s1) = t"
    "chHeight (ssChain s1) = wChainHeight l" "chWarned (ssChain s1) = chWarned (ssChain s)"
    using live_line_closes_window [OF assms(1-12), of env now] by (simp_all add: s1_def Let_def)
  have le: "wChainHeight m \<le> chHeight (ssChain s1)" using assms(9,17) s1(8) by simp
  define s2 where "s2 = checked env (later, m) s1"
  have s2: "wix_ok (chWireIdx (ssChain s2))" "chRecoverPending (ssChain s2) = Some p" "chTip (ssChain s2) = t"
    "chWarned (ssChain s2) = chWarned (ssChain s)"
    using s1 le assms(14) by (auto simp: s2_def checked_def checkChainLink_def Let_def split: option.splits)
  have "verifyReplayWire env later m True s1 = (s2, False)"
    using s1 assms(13) by (simp add: verifyReplayWire_def s2_def checked_def Let_def)
  then have "read_wire env (later, m) s1 = set_older False (renderChatBlock env m (flushDateBannerLocked env s2))"
    using s1 assms(13) by (simp add: read_wire_def show_wire_def Let_def)
  then show ?thesis
    using s2 wix_get_put [OF banner_index [OF s2(1)] assms(15)] by (simp add: s1_def [symmetric] Let_def)
qed

definition ex_log_later :: ChainService where
  "ex_log_later = new_chain\<lparr>csReady := True, csTip := zero32, csHeight := 2\<rparr>"

theorem interrupted_refill_is_unverified_witness:
  "let c = ssChain (read_live ex_cl_env [(0, linked_wire ex_chat ex_log_later), (1, forged\<lparr>wChainHeight := 1\<rparr>)] ex_refilling) in
    wix_get 1 (chWireIdx c) = Some (forged\<lparr>wChainHeight := 1\<rparr>) \<and> chRecoverPending c = Some ex_gap \<and> \<not> chWarned c"
proof -
  have "wix_ok (chWireIdx (ssChain ex_refilling))"
    by (simp add: ex_refilling_def ex_client_def ex_chain_def new_index_ok)
  moreover have "verifyWireLink (linked_wire ex_chat ex_log_later) (chTip (ssChain ex_refilling)) = Inr (link_hash ex_chat ex_log_later)"
    using linked_wire_next [of ex_log_later ex_chat] by (simp add: ex_log_later_def ex_refilling_def zero32_def)
  moreover have "chHaveTip (ssChain ex_refilling)" "\<not> chLoading (ssChain ex_refilling)" "\<not> chInOlder (ssChain ex_refilling)"
    "chInRecover (ssChain ex_refilling)" "chRecoverPending (ssChain ex_refilling) = Some ex_gap" "chHeight (ssChain ex_refilling) = 2"
    "\<not> chWarned (ssChain ex_refilling)"
    by (simp_all add: ex_refilling_def ex_client_def ex_chain_def)
  moreover have "wChainHeight (linked_wire ex_chat ex_log_later) = 3" "wType (linked_wire ex_chat ex_log_later) = ''chat''"
    "wChainHash (linked_wire ex_chat ex_log_later) \<noteq> []"
    by (simp_all add: ex_log_later_def ex_chat_def)
  moreover have "rwMaxMissing ex_gap = 1" "rwMissing ex_gap = {1}" by (simp_all add: ex_gap_def)
  moreover have "wType forged = ''chat''" "wChainHash forged \<noteq> []" by (simp_all add: forged_def ex_chat_def zero32_def)
  ultimately show ?thesis
    using interrupted_refill_is_unverified [of ex_refilling ex_gap "linked_wire ex_chat ex_log_later" "link_hash ex_chat ex_log_later"
        "forged\<lparr>wChainHeight := 1\<rparr>" ex_cl_env 0 1]
    by (simp add: Let_def)
qed

subsection \<open>A refilled line and the caps of the buffer\<close>

lemma entry_text_muted [simp]: "entry_text (set_muted b e) = entry_text e"
  by (cases e) (simp add: set_muted_def)

lemma entry_len_muted [simp]: "entry_len (set_muted b e) = entry_len e"
  by (simp add: entry_len_def)

definition shown_in :: "cl_env \<Rightarrow> WireMessage \<Rightarrow> Session \<Rightarrow> Session" where
  "shown_in env w s = note_reveal env w (upd_chain (\<lambda>c. c\<lparr>chWireIdx := wix_put w (chWireIdx c)\<rparr>) s)"

definition block_of :: "cl_env \<Rightarrow> WireMessage \<Rightarrow> Session \<Rightarrow> entry" where
  "block_of env w s = fst (rendered_block env w (ssAutoVerify s) (dsShowMeta (ssDisplay s)) (shown_in env w s))"

lemma render_appends:
  assumes "wType w = ''chat''" "\<not> chInOlder (ssChain s)" "pnEchoSlot (ssPending s) = None"
    and "\<forall>key. cache_get key (chRenderCache (ssChain s)) = None"
  shows "dsTabChat (ssDisplay (renderChatBlock env w s)) = tab_append (set_muted False (block_of env w s)) (dsTabChat (ssDisplay s))"
proof -
  have r: "shown_in env w s = upd_chain (\<lambda>c. c\<lparr>chWireIdx := wix_put w (chWireIdx c)\<rparr>) s"
    using assms(1) by (simp add: shown_in_def note_reveal_def)
  have tab: "snd (rendered_block env w av m x) = TabChat" for av m x
    using assms(1) by (simp add: rendered_block_def buildChatBlock_def Let_def)
  have live: "notifyWireAllowed w x" for x using assms(1) by (simp add: notifyWireAllowed_def TagsForWire_def)
  have em: "dsTabChat (ssDisplay (emit_block True TabChat e x)) = tab_append (set_muted False e) (dsTabChat (ssDisplay x))"
    if "\<not> chInOlder (ssChain x)" "pnEchoSlot (ssPending x) = None" for e x
    using that by (simp add: emit_block_def emitTabLive_def placeEntry_def TabChat_def TabSystem_def Let_def)
  show ?thesis
    using assms(2-4) tab [of "ssAutoVerify s" "dsShowMeta (ssDisplay s)" "shown_in env w s"]
    by (simp add: renderChatBlock_def shown_in_def [symmetric] block_of_def live em r Let_def split_beta)
qed

lemma evict_two:
  "n > mb \<Longrightarrow> n - entry_len a > mb \<Longrightarrow> length (fst (evict_loop ml mb (a # b # es) n)) \<le> length es"
proof -
  have "length (fst (evict_loop ml mb es k)) \<le> length es" for k
    using evict_loop_drops [of es ml mb k] by auto
  then show "n > mb \<Longrightarrow> n - entry_len a > mb \<Longrightarrow> ?thesis" by simp
qed

lemma append_evicts_two:
  assumes "tbLines buf = a # b # rest" "tbSize buf + entry_len e - entry_len a > tbMaxBytes buf"
  shows "length (tbLines (tab_append e buf)) \<le> Suc (length rest)"
proof -
  have "tbSize buf + entry_len e > tbMaxBytes buf" using assms(2) entry_len_nonneg [of a] by linarith
  from evict_two [OF this assms(2), of "tbMaxLines buf" b "rest @ [e]"] show ?thesis
    by (simp add: tab_append_def tab_evict_def assms(1) split_beta del: evict_loop.simps)
qed

text \<open>
  A refill can crash the client. While a catch-up is held, a verified refilled line is drawn at the end of the chat
  buffer and then cut out as \<open>lines[beforeChat:]\<close>. When drawing it evicts two entries, because the buffer is near its byte
  cap and the line is longer than the oldest entry, the buffer is shorter than \<open>beforeChat\<close> and the slice expression
  panics.
\<close>

theorem refill_near_byte_cap_panics:
  assumes "chRecoverPending (ssChain s) = Some p" "in_window p w" "accepts p w = Some t" "dsCatchupHold (ssDisplay s)"
    and "wType w = ''chat''" "\<not> chInOlder (ssChain s)" "pnEchoSlot (ssPending s) = None"
    and "\<forall>key. cache_get key (chRenderCache (ssChain s)) = None"
    and "tbLines (dsTabChat (ssDisplay s)) = a # b # rest"
    and "tbSize (dsTabChat (ssDisplay s)) + entry_len (block_of env w (upd_chain (\<lambda>c. c\<lparr>chRecoverRendered := True\<rparr>) s)) - entry_len a
           > tbMaxBytes (dsTabChat (ssDisplay s))"
  shows "ssPanic (checkRecoverWire env now w s)"
proof -
  let ?s = "upd_chain (\<lambda>c. c\<lparr>chRecoverRendered := True\<rparr>) s"
  let ?buf = "dsTabChat (ssDisplay s)" and ?e = "set_muted False (block_of env w ?s)"
  have "dsTabChat (ssDisplay (renderChatBlock env w ?s)) = tab_append ?e ?buf"
    using render_appends [of w ?s env] assms(5-8) by simp
  moreover have "length (tbLines (tab_append ?e ?buf)) \<le> Suc (length rest)"
    using append_evicts_two [OF assms(9), of ?e] assms(10) by simp
  ultimately have "ssPanic (renderRecoveredInPlace env w ?s)"
    using assms(9) by (simp add: renderRecoveredInPlace_def Let_def)
  then show ?thesis
    using assms(1-4) by (auto simp: checkRecoverWire_def in_window_def accepts_def Let_def not_less split: if_splits option.splits sum.splits)
qed

definition ex_catching_up :: Session where
  "ex_catching_up = upd_display (\<lambda>d. d\<lparr>dsCatchupHold := True, dsTabChat := \<lparr>tbLines = [ex_entry ''a'', ex_entry ''a''],
     tbSize = 6, tbMaxLines = 10, tbMaxBytes = 7\<rparr>\<rparr>) ex_refilling"

lemma body_in_text: "length (enBody d) \<le> length (entry_text (Entry d q))"
  by (simp add: row_def Let_def)

lemma ex_block_long:
  "5 \<le> entry_len (block_of ex_cl_env (linked_wire ex_chat ex_log_start) s)"
proof -
  let ?w = "linked_wire ex_chat ex_log_start"
  have w: "wType ?w \<noteq> ''system''" "wText ?w = ''hello''" by (simp_all add: ex_chat_def)
  have "enBody (ent (fst (buildChatBlock ex_cl_env ?w av m x))) = ''hello''" for av m x
    using w by (auto simp: buildChatBlock_def ex_cl_env_def Let_def)
  moreover have "block_of ex_cl_env ?w s =
      fst (buildChatBlock ex_cl_env ?w (ssAutoVerify s) (dsShowMeta (ssDisplay s)) (shown_in ex_cl_env ?w s))"
    by (simp add: block_of_def rendered_block_def maybeCollapse_def ex_cl_env_def split_beta)
  ultimately have "enBody (ent (block_of ex_cl_env ?w s)) = ''hello''" by simp
  then show ?thesis
    using body_in_text [of "ent (block_of ex_cl_env ?w s)" "quoteEntry (block_of ex_cl_env ?w s)"]
    by (simp add: entry_len_def)
qed

theorem refill_near_byte_cap_panics_witness:
  "ssPanic (checkRecoverWire ex_cl_env 0 (linked_wire ex_chat ex_log_start) ex_catching_up)"
proof (rule refill_near_byte_cap_panics [where p = ex_gap and t = "link_hash ex_chat ex_log_start" and a = "ex_entry ''a''"
      and b = "ex_entry ''a''" and rest = "[]"])
  let ?w = "linked_wire ex_chat ex_log_start"
  show "chRecoverPending (ssChain ex_catching_up) = Some ex_gap"
    by (simp add: ex_catching_up_def ex_refilling_def)
  show "in_window ex_gap ?w" by (simp add: in_window_def ex_gap_def new_chain_init)
  show "accepts ex_gap ?w = Some (link_hash ex_chat ex_log_start)"
    using linked_wire_next [of ex_log_start ex_chat] by (simp add: accepts_def ex_gap_def new_chain_init)
  show "dsCatchupHold (ssDisplay ex_catching_up)" "tbLines (dsTabChat (ssDisplay ex_catching_up)) = [ex_entry ''a'', ex_entry ''a'']"
    by (simp_all add: ex_catching_up_def)
  show "wType ?w = ''chat''" by (simp add: ex_chat_def)
  show "\<not> chInOlder (ssChain ex_catching_up)" "pnEchoSlot (ssPending ex_catching_up) = None"
    "\<forall>key. cache_get key (chRenderCache (ssChain ex_catching_up)) = None"
    by (simp_all add: ex_catching_up_def ex_refilling_def ex_client_def ex_chain_def ex_pending_def cache_get_def newRenderCache_def)
  have "entry_len (ex_entry ''a'') = 3" by (simp add: entry_len_def ex_entry_def zero_fields_def row_def Let_def)
  moreover have "tbSize (dsTabChat (ssDisplay ex_catching_up)) = 6" "tbMaxBytes (dsTabChat (ssDisplay ex_catching_up)) = 7"
    by (simp_all add: ex_catching_up_def)
  ultimately show "tbMaxBytes (dsTabChat (ssDisplay ex_catching_up)) < tbSize (dsTabChat (ssDisplay ex_catching_up))
      + entry_len (block_of ex_cl_env ?w (upd_chain (\<lambda>c. c\<lparr>chRecoverRendered := True\<rparr>) ex_catching_up)) - entry_len (ex_entry ''a'')"
    using ex_block_long [of "upd_chain (\<lambda>c. c\<lparr>chRecoverRendered := True\<rparr>) ex_catching_up"] by linarith
qed

end
