(* ===== verification/Client_Send.thy ===== *)
theory Client_Send
  imports Client_Laws
begin

text \<open>
  The sending half of the client, \<^verbatim>\<open>src/client/send.go\<close>: the local guards, the pending block that stands in for a
  message until its echo arrives, and \<open>sendMessage\<close>, which signs a message with the session's key or puts it into a
  plain envelope and files the placeholder. Signing is the argument \<open>kSign\<close>.
\<close>

subsection \<open>Guards and placeholders\<close>

definition maxPendingPlaceholders :: nat where "maxPendingPlaceholders = 128"

definition inputEchoEntry :: "string list \<Rightarrow> entry" where
  "inputEchoEntry ls = Entry (zero_fields\<lparr>enHeader := rows_of ls, enKind := kindLocal\<rparr>) None"

definition echoInputLine :: "string \<Rightarrow> Session \<Rightarrow> Session \<times> slotRef" where
  "echoInputLine line s = appendEntrySlot True TabChat (inputEchoEntry [line]) s"

definition blocked_text :: "filter_error \<Rightarrow> string" where
  "blocked_text e = ''[Local]: Tin nh'' @ encode_runes [0x1EAF] @ ''n ch'' @ encode_runes [0x1EE9] @ ''a k'' @ encode_runes [0xFD] @ '' t'' @ encode_runes [0x1EF1] @ '' kh'' @ encode_runes [0xF4] @ ''ng h'' @ encode_runes [0x1EE3] @ ''p l'' @ encode_runes [0x1EC7] @ '' v'' @ encode_runes [0xE0] @ '' '' @ encode_runes [0x111, 0xE3] @ '' b'' @ encode_runes [0x1ECB] @ '' ch'' @ encode_runes [0x1EB7] @ ''n (client-side): '' @ message_error_text e @ nl"

definition fast_text :: "Limits \<Rightarrow> string" where
  "fast_text l = ''[Local]: B'' @ encode_runes [0x1EA1] @ ''n '' @ encode_runes [0x111] @ ''ang chat qu'' @ encode_runes [0xE1] @ '' nhanh! Vui l'' @ encode_runes [0xF2] @ ''ng '' @ encode_runes [0x111, 0x1EE3] @ ''i '' @ duration_string (lmMessageCooldown l) @ ''.'' @ nl"

definition long_text :: "Limits \<Rightarrow> string" where
  "long_text l = ''[Local]: Tin nh'' @ encode_runes [0x1EAF] @ ''n qu'' @ encode_runes [0xE1] @ '' d'' @ encode_runes [0xE0] @ ''i (t'' @ encode_runes [0x1ED1] @ ''i '' @ encode_runes [0x111] @ ''a '' @ dec_int (lmMaxMessageLength l) @ '' k'' @ encode_runes [0xFD] @ '' t'' @ encode_runes [0x1EF1] @ '').'' @ nl"

text \<open>The guard handles two of the errors of \<open>ValidateMessageForSend\<close>; any other lets the line through.\<close>

definition checkSendGuards :: "cl_env \<Rightarrow> time \<Rightarrow> string \<Rightarrow> Session \<Rightarrow> Session \<times> bool" where
  "checkSendGuards env now line s =
     (case ValidateMessage (kGC env) line of
        Some e \<Rightarrow> (emitLocalFeedback (blocked_text e) s, False)
      | None \<Rightarrow>
          (case kCfg env of
             None \<Rightarrow> (s, True)
           | Some cfg \<Rightarrow>
               (case ValidateMessageForSend (kGC env) line now (pnLastMessageTime (ssPending s)) (Some (ccLimits cfg)) False of
                  Some ErrTooFast \<Rightarrow> (emitLocalFeedback (fast_text (ccLimits cfg)) s, False)
                | Some ErrTooLong \<Rightarrow> (emitLocalFeedback (long_text (ccLimits cfg)) s, False)
                | _ \<Rightarrow> (s, True))))"

definition badge_placeholder :: "cl_env \<Rightarrow> Session \<Rightarrow> string" where
  "badge_placeholder env s =
     (if ssTripPriv s \<noteq> None \<or> kTripcode env \<noteq> []
      then if ssTripBadge s = [] \<and> kTripcode env \<noteq> [] then take 8 (hex_encode (sha256 (kTripcode env))) else ssTripBadge s
      else [])"

definition placeholder_header :: "cl_env \<Rightarrow> Session \<Rightarrow> string" where
  "placeholder_header env s =
     (''B'' @ encode_runes [0x1EA1] @ ''n'' @
      (if dsShowMeta (ssDisplay s)
       then '' '' @ encode_runes [0x2022] @ (if badge_placeholder env s \<noteq> [] then '' '' @ encode_runes [0x270D, 0xFE0F] @ '' '' @ encode_runes [0x25C6] @ '' '' @ badge_placeholder env s else [])
       else []) @
      '' '' @ encode_runes [0x23F3])"

definition placeholder_entry :: "cl_env \<Rightarrow> string \<Rightarrow> Session \<Rightarrow> entry" where
  "placeholder_entry env line s =
     Entry (zero_fields\<lparr>
       enKind := kindLocal,
       enQuote := (if pnReplyTo (ssPending s) > 0 then rows_of (quoteLinesFor env (pnReplyTo (ssPending s)) True s) else []),
       enHeader := kDim env (placeholder_header env s),
       enBody := rows_of (map (\<lambda>l. kDim env (kLinkify env l)) (split_on (CHR 0x0A) (kSpanPlain env line)))\<rparr>) None"

definition renderPlaceholder :: "cl_env \<Rightarrow> string \<Rightarrow> slotRef \<Rightarrow> Session \<Rightarrow> Session \<times> slotRef \<times> bool" where
  "renderPlaceholder env line slot s =
     (let e = placeholder_entry env line s;
          shown = (dsActiveTab (ssDisplay s) = TabChat)
      in case replaceSlot slot e (dsTabChat (ssDisplay s)) of
           (b, True) \<Rightarrow> (upd_display (\<lambda>d. d\<lparr>dsTabChat := b\<rparr>) s, \<lparr>slIndex = slIndex slot, slEntry = e\<rparr>, shown)
         | (b, False) \<Rightarrow>
             let s1 = emitTabLive True TabChat e s
             in (s1, \<lparr>slIndex = int (length (tbLines (dsTabChat (ssDisplay s1)))) - 1, slEntry = e\<rparr>, shown))"

subsection \<open>Sending\<close>

text \<open>Go's \<open>copy\<close> into a slice of fixed length.\<close>

definition copy_into :: "'a list \<Rightarrow> 'a list \<Rightarrow> 'a list" where
  "copy_into dst src = take (length dst) src @ drop (length src) dst"

definition sign_payload :: "Session \<Rightarrow> string \<Rightarrow> bytes" where
  "sign_payload s line =
     CanonicalPayload (to_lower (ssServerPubKey s)) (ssTripSeq s) (ssTripPrev s) (sha256 line) (ssTripPub s) (ssUsername s)
       (pnTmpSeq (ssPending s)) (pnReplyTo (ssPending s))"

definition signed_message :: "Session \<Rightarrow> string \<Rightarrow> bytes \<Rightarrow> TripMessage" where
  "signed_message s line sig =
     \<lparr>tgText = line, tgPub = hex_encode (ssTripPub s), tgSeq = ssTripSeq s, tgPrev = hex_encode (ssTripPrev s),
      tgSig = hex_encode sig, tgDisplayName = ssUsername s, tgTmpID = pnTmpSeq (ssPending s),
      tgReplyTo = pnReplyTo (ssPending s)\<rparr>"

definition back_tmp :: "Session \<Rightarrow> Session" where
  "back_tmp s = upd_pending (\<lambda>p. p\<lparr>pnTmpSeq := pnTmpSeq p - 1\<rparr>) s"

text \<open>The frame of one message: the session with the new counters, or with the old ones when the write fails.\<close>

definition send_frame :: "cl_env \<Rightarrow> string \<Rightarrow> Session \<Rightarrow> Session \<times> bool" where
  "send_frame env line s0 =
     (let s = upd_pending (\<lambda>p. p\<lparr>pnTmpSeq := pnTmpSeq p + 1\<rparr>) s0 in
      case ssTripPriv s of
        Some priv \<Rightarrow>
          (let s1 = s\<lparr>ssTripSeq := ssTripSeq s + 1\<rparr>;
               prev = ssTripPrev s1;
               sig = kSign env priv (sign_payload s1 line);
               s2 = s1\<lparr>ssTripPrev := copy_into prev (sha256 (prev @ sig @ sha256 line))\<rparr>
           in case sendJSON env (SignedChat (signed_message s1 line sig)) s2 of
                (s3, True) \<Rightarrow> (s3, True)
              | (s3, False) \<Rightarrow>
                  (back_tmp (s3\<lparr>ssTripSeq := ssTripSeq s3 - 1, ssTripPrev := copy_into (ssTripPrev s3) prev\<rparr>), False))
      | None \<Rightarrow>
          (case sendJSON env (PlainChat \<lparr>pgTmpID = pnTmpSeq (ssPending s), pgText = line, pgReplyTo = pnReplyTo (ssPending s)\<rparr>) s of
             (s1, True) \<Rightarrow> (s1, True)
           | (s1, False) \<Rightarrow> (back_tmp s1, False)))"

definition pending_of :: "string \<Rightarrow> slotRef \<Rightarrow> bool \<Rightarrow> time \<Rightarrow> Session \<Rightarrow> pendingMsg" where
  "pending_of line slot shown now s =
     \<lparr>pmText = line, pmSlot = slot, pmShown = shown, pmEpoch = dsLayoutEpoch (ssDisplay s),
      pmSeq = (if ssTripPriv s \<noteq> None then ssTripSeq s else 0),
      pmPub = (if ssTripPriv s \<noteq> None then hex_encode (ssTripPub s) else []),
      pmHasTrip = (ssTripPriv s \<noteq> None), pmSentAt = now,
      pmTmpID = pnTmpSeq (ssPending s), pmReplyTo = pnReplyTo (ssPending s)\<rparr>"

fun drop_tmp :: "u64 \<Rightarrow> pendingMsg list \<Rightarrow> pendingMsg list" where
  "drop_tmp i [] = []"
| "drop_tmp i (p # ps) = (if pmTmpID p = i then ps else p # drop_tmp i ps)"

text \<open>Filing the placeholder: the queue is bounded, and an echo that arrived first settles it at once.\<close>

definition file_pending :: "pendingMsg \<Rightarrow> Session \<Rightarrow> Session" where
  "file_pending pm s =
     (let p = ssPending s;
          queue = trim_front maxPendingPlaceholders (pnPlaceholders p @ [pm])
      in case takeStashedEcho (pnEchoes p) (pmTmpID pm) of
           (rest, None) \<Rightarrow> s\<lparr>ssPending := p\<lparr>pnPlaceholders := queue, pnEchoes := rest\<rparr>\<rparr>
         | (rest, Some w) \<Rightarrow>
             erasePlaceholderLocked pm
               (s\<lparr>ssPending := p\<lparr>pnPlaceholders := drop_tmp (pmTmpID pm) queue, pnEchoes := rest,
                  pnSeenTmpIDs := noteConsumedTmpID (pnSeenTmpIDs p) (pmTmpID pm)\<rparr>\<rparr>))"

definition sendMessage :: "cl_env \<Rightarrow> time \<Rightarrow> string \<Rightarrow> slotRef \<Rightarrow> bool \<Rightarrow> Session \<Rightarrow> Session \<times> bool" where
  "sendMessage env now line slot shown s =
     (let (s1, ok) = send_frame env line s;
          s2 = upd_pending (\<lambda>p. p\<lparr>pnLastMessageTime := now\<rparr>) s1;
          s3 = (if ok then file_pending (pending_of line slot shown now s2) s2 else s2)
      in (upd_pending (\<lambda>p. p\<lparr>pnReplyTo := 0\<rparr>) s3, ok))"

end
