(* ===== verification/Client_Input.thy ===== *)
theory Client_Input
  imports Client_Send
begin

text \<open>
  What the input line of the client needs: \<open>strings.TrimPrefix\<close>, \<open>strings.Fields\<close> and the number parsers of
  \<open>strconv\<close>; the argument of the height commands (\<open>parseFindArg\<close>) and the \<open>/info\<close> block of
  \<^verbatim>\<open>src/client/chainmeta.go\<close>; the recall list of \<^verbatim>\<open>src/client/history.go\<close> with its file.
\<close>

subsection \<open>Text\<close>

definition TrimPrefix :: "string \<Rightarrow> string \<Rightarrow> string" where
  "TrimPrefix s p = (if starts_with s p then drop (length p) s else s)"

fun fields_loop :: "(nat \<times> nat) list \<Rightarrow> string \<Rightarrow> string \<Rightarrow> string list" where
  "fields_loop [] s cur = (if cur = [] then [] else [cur])"
| "fields_loop ((r, n) # ps) s cur =
     (if is_space_rune r then (if cur = [] then [] else [cur]) @ fields_loop ps (drop n s) []
      else fields_loop ps (drop n s) (cur @ take n s))"

definition Fields :: "string \<Rightarrow> string list" where
  "Fields s = fields_loop (rune_pieces s) s []"

definition is_digit :: "char \<Rightarrow> bool" where
  "is_digit c \<longleftrightarrow> nat_of (CHR ''0'') \<le> nat_of c \<and> nat_of c \<le> nat_of (CHR ''9'')"

definition digits_value :: "string \<Rightarrow> nat" where
  "digits_value s = foldl (\<lambda>n c. 10 * n + (nat_of c - nat_of (CHR ''0''))) 0 s"

definition ParseUint :: "string \<Rightarrow> u64 option" where
  "ParseUint s = (if s \<noteq> [] \<and> list_all is_digit s \<and> digits_value s < 2 ^ 64 then Some (of_nat (digits_value s)) else None)"

definition Atoi :: "string \<Rightarrow> int option" where
  "Atoi s =
     (let neg = starts_with s ''-'';
          ds = (if neg \<or> starts_with s ''+'' then tl s else s);
          v = (if neg then - int (digits_value ds) else int (digits_value ds))
      in if ds \<noteq> [] \<and> list_all is_digit ds \<and> - (2 ^ 63) \<le> v \<and> v < 2 ^ 63 then Some v else None)"

text \<open>\<open>%-*s\<close>: padding counts runes.\<close>

definition pad_right :: "nat \<Rightarrow> string \<Rightarrow> string" where
  "pad_right w s = s @ replicate (w - length (runes s)) (CHR '' '')"

subsection \<open>Height arguments\<close>

datatype find_error = FindUsage | BareHash | SuffixNotHex

fun find_error_text :: "find_error \<Rightarrow> string" where
  "find_error_text FindUsage = ''usage: /find <height> | /find <height>:<hash>''"
| "find_error_text BareHash = ''a bare hash never identifies: give the height (/find 1234[:abcd])''"
| "find_error_text SuffixNotHex = ''hash suffix must be hex''"

definition parseFindArg :: "string \<Rightarrow> find_error + (u64 \<times> string)" where
  "parseFindArg arg =
     (let t = TrimPrefix (TrimSpace arg) ''#'' in
      if t = [] then Inl FindUsage
      else let (heightStr, suffix) = (case split_first (CHR '':'') t of None \<Rightarrow> (t, []) | Some p \<Rightarrow> p) in
        if heightStr = [] then Inl BareHash
        else case ParseUint heightStr of
            None \<Rightarrow> Inl FindUsage
          | Some height \<Rightarrow>
              if height = 0 then Inl FindUsage
              else if list_ex (\<lambda>c. c \<notin> set ''0123456789abcdefABCDEF'') suffix then Inl SuffixNotHex
              else Inr (height, to_lower suffix))"

subsection \<open>The information block\<close>

definition is_control :: "nat \<Rightarrow> bool" where
  "is_control r \<longleftrightarrow> r < 0x20 \<or> 0x7F \<le> r \<and> r < 0xA0"

definition raw_rune :: "nat \<Rightarrow> string" where
  "raw_rune r =
     (if r = 0x0A then encode_runes [0x23CE] else if r = 0x09 then EncodeRune r else if r = 0x1B \<or> is_control r then [] else EncodeRune r)"

definition rawOneLine :: "string \<Rightarrow> string" where
  "rawOneLine s =
     (let b = concat (map raw_rune (runes s)); r = runes b
      in if length r > 500 then encode_runes (take 500 r) @ encode_runes [0x2026] else b)"

fun trip_error_text :: "trip_error \<Rightarrow> string" where
  "trip_error_text PubLength = ''invalid pub length''"
| "trip_error_text SigLength = ''invalid sig length''"
| "trip_error_text PrevLength = ''invalid prev length''"
| "trip_error_text MsgHashLength = ''invalid msg_hash length''"
| "trip_error_text ServerPubLength = ''invalid server_pub length''"
| "trip_error_text BadPub = ''bad pub hex''"
| "trip_error_text BadSig = ''bad sig hex''"
| "trip_error_text BadPrev = ''bad prev hex''"
| "trip_error_text BadMsgHash = ''bad msg_hash hex''"
| "trip_error_text MsgHashMismatch = ''msg_hash mismatch''"
| "trip_error_text SignatureMismatch = ''signature mismatch''"

definition TripPayloadBytes :: "WireMessage \<Rightarrow> TripMeta \<Rightarrow> bytes" where
  "TripPayloadBytes msg tm =
     (case (hex_decode (clean (tmPub tm)), hex_decode (clean (tmPrev tm)), hex_decode (clean (tmMsgHash tm))) of
        (Some pub, Some prev, Some msgHash) \<Rightarrow>
          CanonicalPayload (clean (tmServerPub tm)) (tmSeq tm) prev msgHash pub (wDisplayName msg) (tmTmpID tm) (tmReplyTo tm)
      | _ \<Rightarrow> [])"

definition info_params :: "WireMessage \<Rightarrow> TripMeta \<Rightarrow> VerifyParams" where
  "info_params msg tm =
     \<lparr>vpText = wText msg, vpDisplayName = wDisplayName msg, vpServerPub = tmServerPub tm, vpPubHex = tmPub tm, vpSeq = tmSeq tm,
      vpPrevHex = tmPrev tm, vpSigHex = tmSig tm, vpMsgHashHex = tmMsgHash tm, vpTmpID = tmTmpID tm, vpReplyTo = tmReplyTo tm,
      vpSkipTextCheck = False\<rparr>"

definition info_row :: "string \<Rightarrow> string \<Rightarrow> string" where
  "info_row label val = ''  '' @ pad_right 13 label @ '' '' @ val @ nl"

definition info_verdict :: "bool \<Rightarrow> trip_error option \<Rightarrow> string \<times> string" where
  "info_verdict exposed verr =
     (case (exposed, verr) of
        (True, None) \<Rightarrow> (encode_runes [0x2717], '' ('' @ encode_runes [0x111, 0xE3] @ '' l'' @ encode_runes [0x1ED9] @ '' seed '' @ encode_runes [0x2014] @ '' ch'' @ encode_runes [0x1EEF] @ '' k'' @ encode_runes [0xFD] @ '' kh'' @ encode_runes [0x1EDB] @ ''p)'')
      | (True, Some e) \<Rightarrow> (encode_runes [0x2717], '' ('' @ encode_runes [0x111, 0xE3] @ '' l'' @ encode_runes [0x1ED9] @ '' seed '' @ encode_runes [0x2014] @ '' ch'' @ encode_runes [0x1EEF] @ '' k'' @ encode_runes [0xFD] @ '' kh'' @ encode_runes [0xF4] @ ''ng kh'' @ encode_runes [0x1EDB] @ ''p: '' @ trip_error_text e @ '')'')
      | (False, None) \<Rightarrow> (encode_runes [0x2713], [])
      | (False, Some e) \<Rightarrow> (encode_runes [0x2717], '' ('' @ trip_error_text e @ '')''))"

definition trip_rows :: "ed_verify \<Rightarrow> WireMessage \<Rightarrow> TripMeta \<Rightarrow> string \<Rightarrow> string list" where
  "trip_rows ed msg tm proofSeed =
     (let verr = (case trip_Verify ed (info_params msg tm) of Inl e \<Rightarrow> Some e | Inr _ \<Rightarrow> None);
          (verdict, detail) = info_verdict (tmExposed tm) verr
      in [info_row ''trip:'' (encode_runes [0x25C6] @ '' '' @ shortBadge (tmPub tm) @ '' '' @ verdict @ detail)] @
         (if tmExposed tm
          then [info_row ''trip.exposed:'' (encode_runes [0x111, 0xE3] @ '' l'' @ encode_runes [0x1ED9]),
                info_row ''trip.exposed_seed:'' (if proofSeed \<noteq> [] then proofSeed @ '' (suy ra trip.pub)''
                  else (''ch'' @ encode_runes [0x1B0] @ ''a th'' @ encode_runes [0x1EA5] @ ''y trong phi'' @ encode_runes [0xEA] @ ''n n'' @ encode_runes [0xE0] @ ''y '' @ encode_runes [0x2014] @ '' xem tab 2 / trang verify''))]
          else []) @
         [info_row ''trip.seq:'' (dec (unat (tmSeq tm))),
          info_row ''trip.pub:'' (hexField (tmPub tm)),
          info_row ''trip.prev:'' (hexField (tmPrev tm)),
          info_row ''trip.sig:'' (hexField (tmSig tm)),
          info_row ''trip.hash:'' (hexField (tmMsgHash tm) @ '' '' @
            (if hex_encode (sha256 (wText msg)) = hexField (tmMsgHash tm) then encode_runes [0x2713] else encode_runes [0x2717])),
          info_row ''trip.srv:'' (hexField (tmServerPub tm)),
          info_row ''trip.payload:'' (hex_encode (TripPayloadBytes msg tm))])"

definition formatInfoBlockWithProof :: "cl_env \<Rightarrow> ed_verify \<Rightarrow> WireMessage \<Rightarrow> string \<Rightarrow> string list" where
  "formatInfoBlockWithProof env ed msg proofSeed =
     (let sentAt = SanitizeSingleLine (kGC env) (wSentAt msg) in
      [''[Local]: #'' @ dec (unat (wChainHeight msg)) @ '' '' @ encode_runes [0x2014] @ '' chi ti'' @ encode_runes [0x1EBF] @ ''t metadata:'' @ nl,
       info_row ''height:'' (dec (unat (wChainHeight msg))),
       info_row ''tmp_id:'' (dec (unat (wTmpID msg))),
       info_row ''reply_to:'' (dec (unat (wReplyTo msg))),
       info_row ''hash:'' (hexField (wChainHash msg)),
       info_row ''prev:'' (hexField (wChainPrev msg)),
       info_row ''sent_at:'' (if sentAt = [] then ''(kh'' @ encode_runes [0xF4] @ ''ng)'' else sentAt),
       info_row ''from:'' (authorField env (wDisplayName msg))] @
      (case wTrip msg of Some tm \<Rightarrow> trip_rows ed msg tm proofSeed | None \<Rightarrow> [info_row ''trip:'' (''(kh'' @ encode_runes [0xF4] @ ''ng)'')]) @
      [(case VerifyWireContent msg of
          None \<Rightarrow> info_row ''chain:'' (''kh'' @ encode_runes [0x1EDB] @ ''p '' @ encode_runes [0x2713])
        | Some e \<Rightarrow> info_row ''chain:'' (''l'' @ encode_runes [0x1EC7] @ ''ch '' @ encode_runes [0x2717] @ '' ('' @ SanitizeSingleLine (kGC env) (link_error_text e) @ '')'')),
       info_row ''raw:'' (rawOneLine (wText msg))])"

subsection \<open>The recall list\<close>

definition histMax :: nat where "histMax = 1000"

text \<open>\<open>ihFile\<close> is the content of the history file; writing may fail, which the list ignores.\<close>

record inputHistory =
  ihLines :: "string list"
  ihIdx :: int
  ihDraft :: string
  ihPath :: string
  ihFile :: "string option"

definition trim_right :: "char \<Rightarrow> string \<Rightarrow> string" where
  "trim_right z s = rev (dropWhile (\<lambda>c. c = z) (rev s))"

definition cap_lines :: "string list \<Rightarrow> string list" where
  "cap_lines ls = last_n histMax ls"

definition loadHistory :: "string \<Rightarrow> string option \<Rightarrow> inputHistory" where
  "loadHistory path file =
     (let none = \<lparr>ihLines = [], ihIdx = 0, ihDraft = [], ihPath = path, ihFile = file\<rparr> in
      if path = [] then none
      else case file of
          None \<Rightarrow> none
        | Some bytes \<Rightarrow>
            (let ls = cap_lines (filter (\<lambda>l. l \<noteq> []) (map (trim_right (CHR 0x0D)) (split_on (CHR 0x0A) bytes)))
             in none\<lparr>ihLines := ls, ihIdx := int (length ls)\<rparr>))"

definition hist_save :: "bool \<Rightarrow> inputHistory \<Rightarrow> inputHistory" where
  "hist_save writable h =
     (if ihPath h = [] \<or> \<not> writable then h else h\<lparr>ihFile := Some (rows_of (ihLines h) @ nl)\<rparr>)"

definition hist_add :: "bool \<Rightarrow> string \<Rightarrow> inputHistory \<Rightarrow> inputHistory" where
  "hist_add writable line0 h =
     (let line = trim_newlines line0; n = length (ihLines h) in
      if line = [] then h
      else if n > 0 \<and> ihLines h ! (n - 1) = line then h\<lparr>ihIdx := int n\<rparr>
      else let ls = cap_lines (ihLines h @ [line])
        in hist_save writable (h\<lparr>ihLines := ls, ihIdx := int (length ls)\<rparr>))"

definition hist_prev :: "string \<Rightarrow> inputHistory \<Rightarrow> inputHistory \<times> string option" where
  "hist_prev draft h =
     (if ihIdx h \<le> 0 \<or> ihLines h = [] then (h, None)
      else let h1 = (if ihIdx h = int (length (ihLines h)) then h\<lparr>ihDraft := draft\<rparr> else h);
               h2 = h1\<lparr>ihIdx := ihIdx h1 - 1\<rparr>
        in (h2, Some (ihLines h2 ! nat (ihIdx h2))))"

definition hist_next :: "inputHistory \<Rightarrow> inputHistory \<times> string option" where
  "hist_next h =
     (if ihIdx h \<ge> int (length (ihLines h)) then (h, None)
      else let h1 = h\<lparr>ihIdx := ihIdx h + 1\<rparr>
        in if ihIdx h1 = int (length (ihLines h1)) then (h1, Some (ihDraft h1))
           else (h1, Some (ihLines h1 ! nat (ihIdx h1))))"

end
