(* ===== verification/Client_Console.thy ===== *)
theory Client_Console
  imports Client_Input
begin

text \<open>
  The input half of the client: the command table of \<^verbatim>\<open>src/client/dispatch.go\<close> with \<^verbatim>\<open>burn.go\<close>, \<^verbatim>\<open>commands.go\<close> and the
  votes of \<^verbatim>\<open>vote.go\<close>, and \<open>runInputLoop\<close> of \<^verbatim>\<open>client.go\<close>. \<open>Console\<close> adds to the session the fields of the Go
  \<open>Session\<close> that only commands read or write, and the terminal around it: the prompt, the recall list, the clipboard.
  A command is a function to an \<open>option\<close>: \<open>None\<close> says that the line is not this command. Arguments of the
  model are the clipboard (\<open>oClip\<close>, an error text or success), the text of a socket error, Go's \<open>%q\<close>, ed25519
  verification, the version stamp and the path of the history file.
\<close>

record Console =
  coSession :: Session
  coWSURL :: string
  coAuthType :: string
  coRole :: string
  coUnlimited :: bool
  coPrefix :: string
  coConnected :: time
  coBurnArmed :: bool
  coPowTier :: int
  coPrompt :: string
  coRecall :: inputHistory
  coClipboard :: "string option"
  coQuit :: bool

record co_env =
  oEnv :: cl_env
  oEd :: ed_verify
  oClip :: "string \<Rightarrow> string option"
  oErr :: string
  oQuote :: "string \<Rightarrow> string"
  oVersion :: string
  oHistoryFile :: string
  oWritable :: bool

datatype cmdAction = cmdPass | cmdDone | cmdReject | cmdQuit

abbreviation on_ses :: "(Session \<Rightarrow> Session) \<Rightarrow> Console \<Rightarrow> Console" where
  "on_ses f c \<equiv> c\<lparr>coSession := f (coSession c)\<rparr>"

definition tell :: "string \<Rightarrow> Console \<Rightarrow> Console" where
  "tell line c = on_ses (emitLocalFeedback line) c"

definition serverField :: "co_env \<Rightarrow> string \<Rightarrow> string" where
  "serverField co s = SanitizeSingleLine (kGC (oEnv co)) s"

text \<open>The line is the command itself or the command followed by a space.\<close>

definition is_cmd :: "string \<Rightarrow> string \<Rightarrow> bool" where
  "is_cmd cmd line \<longleftrightarrow> line = cmd \<or> starts_with line (cmd @ '' '')"

definition cmd_rest :: "string \<Rightarrow> string \<Rightarrow> string" where
  "cmd_rest cmd line = TrimSpace (TrimPrefix line cmd)"

subsection \<open>Listings\<close>

definition whoami_text :: "co_env \<Rightarrow> Console \<Rightarrow> string" where
  "whoami_text co c =
     rows_of ([''[Local]: Ng'' @ encode_runes [0x1B0, 0x1EDD] @ ''i d'' @ encode_runes [0xF9] @ ''ng: '' @ serverField co (ssUsername (coSession c)) @ '' | X'' @ encode_runes [0xE1] @ ''c th'' @ encode_runes [0x1EF1] @ ''c: '' @ serverField co (coAuthType c)] @
       (if coRole c \<noteq> []
        then [''  Role: '' @ serverField co (coRole c) @ '' | Unlimited: '' @ (if coUnlimited c then ''true'' else ''false'') @
              '' | Prefix: '' @ oQuote co (serverField co (coPrefix c))]
        else []))"

definition cmdWhoami :: "co_env \<Rightarrow> string \<Rightarrow> Console \<Rightarrow> Console option" where
  "cmdWhoami co line c = (if line = ''/whoami'' \<or> line = ''/w'' then Some (tell (whoami_text co c) c) else None)"

text \<open>\<open>Duration.Round\<close> to whole seconds: halves away from zero.\<close>

definition round_second :: "duration \<Rightarrow> duration" where
  "round_second d = (if d < 0 then - (((- d) + second div 2) div second * second) else (d + second div 2) div second * second)"

definition trip_status :: "Console \<Rightarrow> string" where
  "trip_status c =
     (let s = coSession c; pubHex = hex_encode (ssTripPub s) in
      if length (ssTripPub s) = 32
      then TripBadgeFromPubHex pubHex @
        (case dsRevealProof (ssDisplay s) (to_lower pubHex) of
           Some proof \<Rightarrow> if proof \<noteq> [] then '' '' @ encode_runes [0x2717] @ '' ('' @ encode_runes [0x111, 0xE3] @ '' l'' @ encode_runes [0x1ED9] @ '' '' @ encode_runes [0x2014] @ '' seed c'' @ encode_runes [0xF4] @ ''ng khai: '' @ proof @ '')'' else []
         | None \<Rightarrow> [])
      else ''kh'' @ encode_runes [0xF4] @ ''ng d'' @ encode_runes [0xF9] @ ''ng tripcode'')"

definition cmdStatus :: "co_env \<Rightarrow> time \<Rightarrow> string \<Rightarrow> Console \<Rightarrow> Console option" where
  "cmdStatus co now line c =
     (if line \<noteq> ''/status'' then None
      else Some (tell (''[Local]: Server: '' @ coWSURL c @ nl @ ''  '' @ encode_runes [0x110, 0xE3] @ '' k'' @ encode_runes [0x1EBF] @ ''t n'' @ encode_runes [0x1ED1] @ ''i: '' @ duration_string (round_second (now - coConnected c)) @ nl @
          ''  Phi'' @ encode_runes [0xEA] @ ''n b'' @ encode_runes [0x1EA3] @ ''n: '' @ oVersion co @ nl @ ''  Show-join: '' @ (if dsShowJoinLeave (ssDisplay (coSession c)) then ''B'' @ encode_runes [0x1EAC] @ ''T'' else ''T'' @ encode_runes [0x1EAE] @ ''T'') @ nl @
          ''  Trip: '' @ trip_status c @ nl) c))"

definition helpUsageCap :: nat where "helpUsageCap = 30"

definition helpLines :: "(string \<times> string) list" where
  "helpLines =
     [(''/help, /h'', ''Hi'' @ encode_runes [0x1EC3] @ ''n th'' @ encode_runes [0x1ECB] @ '' b'' @ encode_runes [0x1EA3] @ ''ng tr'' @ encode_runes [0x1EE3] @ '' gi'' @ encode_runes [0xFA] @ ''p n'' @ encode_runes [0xE0] @ ''y''),
      (''/clear, /c'', ''X'' @ encode_runes [0xF3] @ ''a s'' @ encode_runes [0x1EA1] @ ''ch m'' @ encode_runes [0xE0] @ ''n h'' @ encode_runes [0xEC] @ ''nh chat''),
      (''/clearhistory, /ch'', ''X'' @ encode_runes [0xF3] @ ''a file l'' @ encode_runes [0x1ECB] @ ''ch s'' @ encode_runes [0x1EED] @ '' g'' @ encode_runes [0xF5] @ '' ph'' @ encode_runes [0xED] @ ''m l'' @ encode_runes [0x1B0] @ ''u tr'' @ encode_runes [0xEA] @ ''n m'' @ encode_runes [0xE1] @ ''y''),
      (''/quit, /q'', ''R'' @ encode_runes [0x1EDD] @ ''i ph'' @ encode_runes [0xF2] @ ''ng chat v'' @ encode_runes [0xE0] @ '' t'' @ encode_runes [0x1EAF] @ ''t '' @ encode_runes [0x1EE9] @ ''ng d'' @ encode_runes [0x1EE5] @ ''ng''),
      (''/showjoin, /sj'', ''B'' @ encode_runes [0x1EAD] @ ''t/t'' @ encode_runes [0x1EAF] @ ''t hi'' @ encode_runes [0x1EC7] @ ''n th'' @ encode_runes [0xF4] @ ''ng b'' @ encode_runes [0xE1] @ ''o ng'' @ encode_runes [0x1B0, 0x1EDD] @ ''i kh'' @ encode_runes [0xE1] @ ''c ra v'' @ encode_runes [0xE0] @ ''o ph'' @ encode_runes [0xF2] @ ''ng cho c'' @ encode_runes [0xE1] @ ''c tin k'' @ encode_runes [0x1EBF] @ '' ti'' @ encode_runes [0x1EBF] @ ''p''),
      (''/whoami, /w'', ''Th'' @ encode_runes [0xF4] @ ''ng tin danh t'' @ encode_runes [0xED] @ ''nh v'' @ encode_runes [0xE0] @ '' quy'' @ encode_runes [0x1EC1] @ ''n hi'' @ encode_runes [0x1EC7] @ ''n t'' @ encode_runes [0x1EA1] @ ''i''),
      (''/status'', ''Tr'' @ encode_runes [0x1EA1] @ ''ng th'' @ encode_runes [0xE1] @ ''i k'' @ encode_runes [0x1EBF] @ ''t n'' @ encode_runes [0x1ED1] @ ''i, phi'' @ encode_runes [0xEA] @ ''n b'' @ encode_runes [0x1EA3] @ ''n v'' @ encode_runes [0xE0] @ '' tripcode''),
      (''/autoverify, /av'', ''B'' @ encode_runes [0x1EAD] @ ''t/t'' @ encode_runes [0x1EAF] @ ''t auto-verify trip (m'' @ encode_runes [0x1EB7] @ ''c '' @ encode_runes [0x111, 0x1ECB] @ ''nh B'' @ encode_runes [0x1EAC] @ ''T, queue FIFO, verify song song)''),
      (''/notify, /nt [<tag> on|off | all on|off | powmin <N>]'', encode_runes [0x1EA8] @ ''n/hi'' @ encode_runes [0x1EC7] @ ''n th'' @ encode_runes [0xF4] @ ''ng b'' @ encode_runes [0xE1] @ ''o theo tag''),
      (''/info <n>[:hash]'', ''Xem '' @ encode_runes [0x111, 0x1EA7] @ ''y '' @ encode_runes [0x111, 0x1EE7] @ '' metadata tin nh'' @ encode_runes [0x1EAF] @ ''n (verify l'' @ encode_runes [0x1EA1] @ ''i t'' @ encode_runes [0x1EA1] @ ''i local)''),
      (''/expand <n>, /xpan'', ''M'' @ encode_runes [0x1EDF] @ '' '' @ encode_runes [0x111, 0x1EA7] @ ''y '' @ encode_runes [0x111, 0x1EE7] @ '' tin b'' @ encode_runes [0x1ECB] @ '' thu g'' @ encode_runes [0x1ECD] @ ''n (vd /expand 1234)''),
      (''/copy [<n>[:hash]]'', ''Copy n'' @ encode_runes [0x1ED9] @ ''i dung th'' @ encode_runes [0xF4] @ '' (tr'' @ encode_runes [0x1ED1] @ ''ng: tab 1 tin chat m'' @ encode_runes [0x1EDB] @ ''i nh'' @ encode_runes [0x1EA5] @ ''t, tab 2 d'' @ encode_runes [0xF2] @ ''ng m'' @ encode_runes [0x1EDB] @ ''i nh'' @ encode_runes [0x1EA5] @ ''t)''),
      (''/tab, /t [1|2]'', ''Chuy'' @ encode_runes [0x1EC3] @ ''n tab chat / local & system''),
      (''/meta, /m [on|off]'', ''Hi'' @ encode_runes [0x1EC7] @ ''n/'' @ encode_runes [0x1EA9] @ ''n d'' @ encode_runes [0xF2] @ ''ng meta #height:hash (m'' @ encode_runes [0x1EB7] @ ''c '' @ encode_runes [0x111, 0x1ECB] @ ''nh hi'' @ encode_runes [0x1EC7] @ ''n, chain v'' @ encode_runes [0x1EAB] @ ''n verify)''),
      (''/find, /f <n>[:hash]'', ''T'' @ encode_runes [0xEC] @ ''m tin theo s'' @ encode_runes [0x1ED1] @ '' height trong b'' @ encode_runes [0x1ED9] @ '' nh'' @ encode_runes [0x1EDB] @ '' (vd /find 1234)''),
      (''/older [n]'', ''L'' @ encode_runes [0x1EA5] @ ''y th'' @ encode_runes [0xEA] @ ''m n tin c'' @ encode_runes [0x169] @ '' h'' @ encode_runes [0x1A1] @ ''n t'' @ encode_runes [0x1EEB] @ '' server (m'' @ encode_runes [0x1EB7] @ ''c '' @ encode_runes [0x111, 0x1ECB] @ ''nh 50)''),
      (''/reply <n>[:hash] text'', ''Tr'' @ encode_runes [0x1EA3] @ '' l'' @ encode_runes [0x1EDD] @ ''i tin #n k'' @ encode_runes [0xE8] @ ''m quote (vd /reply 1234 '' @ encode_runes [0x111, 0x1ED3] @ ''ng '' @ encode_runes [0xFD] @ '')''),
      (''/reply <n>'', ''So'' @ encode_runes [0x1EA1] @ ''n reply nh'' @ encode_runes [0xE1] @ ''p, d'' @ encode_runes [0xF2] @ ''ng ti'' @ encode_runes [0x1EBF] @ ''p theo l'' @ encode_runes [0xE0] @ '' n'' @ encode_runes [0x1ED9] @ ''i dung''),
      (''/upvote, /up <n>[:hash]'', ''Upvote tin #n (vd /upvote 1234)''),
      (''/downvote, /down <n>[:hash]'', ''Downvote tin #n''),
      (''/unvote <n>[:hash]'', ''H'' @ encode_runes [0x1EE7] @ ''y vote tin #n''),
      (''/burn'', ''C'' @ encode_runes [0xF4] @ ''ng b'' @ encode_runes [0x1ED1] @ '' l'' @ encode_runes [0x1ED9] @ '' seed c'' @ encode_runes [0x1EE7] @ ''a danh t'' @ encode_runes [0xED] @ ''nh (c'' @ encode_runes [0x1EA7] @ ''n /burn confirm)''),
      (''/burn-verify <seed> <pub>'', ''Ki'' @ encode_runes [0x1EC3] @ ''m tra seed c'' @ encode_runes [0xF3] @ '' kh'' @ encode_runes [0x1EDB] @ ''p pub kh'' @ encode_runes [0xF4] @ ''ng''),
      ([], ''G'' @ encode_runes [0xF5] @ '' @#n (vd @#1234) trong tin '' @ encode_runes [0x111, 0x1EC3] @ '' nh'' @ encode_runes [0x1EAF] @ ''c t'' @ encode_runes [0x1EDB] @ ''i tin kh'' @ encode_runes [0xE1] @ ''c (s'' @ encode_runes [0xE1] @ ''ng l'' @ encode_runes [0xEA] @ ''n khi c'' @ encode_runes [0xF2] @ ''n trong b'' @ encode_runes [0x1ED9] @ '' nh'' @ encode_runes [0x1EDB] @ '')''),
      ([], ''L'' @ encode_runes [0x1EC7] @ ''nh l'' @ encode_runes [0x1EA1] @ '' b'' @ encode_runes [0x1EAF] @ ''t '' @ encode_runes [0x111, 0x1EA7] @ ''u b'' @ encode_runes [0x1EB1] @ ''ng / b'' @ encode_runes [0x1ECB] @ '' ch'' @ encode_runes [0x1EB7] @ ''n, kh'' @ encode_runes [0xF4] @ ''ng g'' @ encode_runes [0x1EED] @ ''i '' @ encode_runes [0x111] @ ''i (mu'' @ encode_runes [0x1ED1] @ ''n g'' @ encode_runes [0x1EED] @ ''i ch'' @ encode_runes [0x1EEF] @ '' / '' @ encode_runes [0x111, 0x1EA7] @ ''u d'' @ encode_runes [0xF2] @ ''ng th'' @ encode_runes [0xEC] @ '' d'' @ encode_runes [0xF9] @ ''ng codeblock)''),
      ([], ''G'' @ encode_runes [0xF5] @ '' ``` '' @ encode_runes [0x1EDF] @ '' '' @ encode_runes [0x111, 0x1EA7] @ ''u v'' @ encode_runes [0xE0] @ '' cu'' @ encode_runes [0x1ED1] @ ''i tin nh'' @ encode_runes [0x1EAF] @ ''n '' @ encode_runes [0x111, 0x1EC3] @ '' g'' @ encode_runes [0x1EED] @ ''i Code block / nhi'' @ encode_runes [0x1EC1] @ ''u d'' @ encode_runes [0xF2] @ ''ng (^C h'' @ encode_runes [0x1EE7] @ ''y nh'' @ encode_runes [0x1EAD] @ ''p)''),
      ([], ''B'' @ encode_runes [0x1ECD] @ ''c ch'' @ encode_runes [0x1EEF] @ '' trong `d'' @ encode_runes [0x1EA5] @ ''u backtick` '' @ encode_runes [0x111, 0x1EC3] @ '' hi'' @ encode_runes [0x1EC7] @ ''n n'' @ encode_runes [0x1EC1] @ ''n ri'' @ encode_runes [0xEA] @ ''ng (inline code m'' @ encode_runes [0x1ED9] @ ''t d'' @ encode_runes [0xF2] @ ''ng)'')]"

definition help_width :: "(string \<times> string) list \<Rightarrow> nat" where
  "help_width ls = foldl (\<lambda>w l. if length (fst l) > w \<and> length (fst l) \<le> helpUsageCap then length (fst l) else w) 0 ls"

definition help_row :: "nat \<Rightarrow> string \<times> string \<Rightarrow> string" where
  "help_row w l = (if fst l = [] then ''  - '' @ snd l else ''  - '' @ pad_right w (fst l) @ '': '' @ snd l)"

definition cmdHelp :: "string \<Rightarrow> Console \<Rightarrow> Console option" where
  "cmdHelp line c =
     (if line = ''/help'' \<or> line = ''/h''
      then Some (tell (rows_of ((''[Local]: Tr'' @ encode_runes [0x1EE3] @ '' gi'' @ encode_runes [0xFA] @ ''p '' @ encode_runes [0x2014] @ '' danh s'' @ encode_runes [0xE1] @ ''ch l'' @ encode_runes [0x1EC7] @ ''nh:'') # map (help_row (help_width helpLines)) helpLines)) c)
      else None)"

subsection \<open>Switches\<close>

definition onOffLabel :: "bool \<Rightarrow> string" where
  "onOffLabel on = (if on then ''B'' @ encode_runes [0x1EAC] @ ''T'' else ''T'' @ encode_runes [0x1EAE] @ ''T'')"

definition cmdShowjoin :: "string \<Rightarrow> Console \<Rightarrow> Console option" where
  "cmdShowjoin line c =
     (if line = ''/showjoin'' \<or> line = ''/sj''
      then let on = (\<not> dsShowJoinLeave (ssDisplay (coSession c)))
        in Some (tell (''[Local]: '' @ (if on then encode_runes [0x110, 0xC3] @ '' B'' @ encode_runes [0x1EAC] @ ''T'' else encode_runes [0x110, 0xC3] @ '' T'' @ encode_runes [0x1EAE] @ ''T'') @ '' hi'' @ encode_runes [0x1EC3] @ ''n th'' @ encode_runes [0x1ECB] @ '' th'' @ encode_runes [0xF4] @ ''ng b'' @ encode_runes [0xE1] @ ''o ng'' @ encode_runes [0x1B0, 0x1EDD] @ ''i d'' @ encode_runes [0xF9] @ ''ng ra/v'' @ encode_runes [0xE0] @ ''o ph'' @ encode_runes [0xF2] @ ''ng cho c'' @ encode_runes [0xE1] @ ''c tin k'' @ encode_runes [0x1EBF] @ '' ti'' @ encode_runes [0x1EBF] @ ''p.'' @ nl)
             (on_ses (upd_display (\<lambda>d. d\<lparr>dsShowJoinLeave := on\<rparr>)) c))
      else None)"

definition cmdAutoverify :: "string \<Rightarrow> Console \<Rightarrow> Console option" where
  "cmdAutoverify line c =
     (if line = ''/autoverify'' \<or> line = ''/av''
      then let on = (\<not> ssAutoVerify (coSession c))
        in Some (tell (''[Local]: Auto-verify '' @ encode_runes [0x111, 0xE3] @ '' '' @ onOffLabel on @ '' (m'' @ encode_runes [0x1EB7] @ ''c '' @ encode_runes [0x111, 0x1ECB] @ ''nh B'' @ encode_runes [0x1EAC] @ ''T, verify song song qua channel FIFO).'' @ nl)
             (on_ses (\<lambda>s. s\<lparr>ssAutoVerify := on\<rparr>) c))
      else None)"

definition notifyTagWidth :: nat where "notifyTagWidth = 28"

definition notifyTagRow :: "string \<Rightarrow> string \<Rightarrow> string" where
  "notifyTagRow tag state =
     (let indent = replicate (2 * count_list tag (CHR ''.'')) (CHR '' '');
          width = (if notifyTagWidth - length indent < 1 then 1 else notifyTagWidth - length indent)
      in ''  '' @ indent @ pad_right width tag @ '' '' @ state)"

definition notify_list :: "Notices \<Rightarrow> string" where
  "notify_list n =
     rows_of ([''[Local]: Th'' @ encode_runes [0xF4] @ ''ng b'' @ encode_runes [0xE1] @ ''o (tag '' @ encode_runes [0x2192] @ '' tr'' @ encode_runes [0x1EA1] @ ''ng th'' @ encode_runes [0xE1] @ ''i):''] @
       map (\<lambda>tag. notifyTagRow tag (onOffLabel (notifyTagEnabled tag n))) AllTags @
       [''  powmin = '' @ dec_int (ntPowMinTier n),
        ''  D'' @ encode_runes [0xF9] @ ''ng /notify <tag> on|off | all on|off | powmin <N> (off: '' @ encode_runes [0x1EA9] @ ''n live, v'' @ encode_runes [0x1EAB] @ ''n l'' @ encode_runes [0x1B0] @ ''u tab 2)'',
        ''  powmin '' @ encode_runes [0x1EA9] @ ''n th'' @ encode_runes [0xF4] @ ''ng b'' @ encode_runes [0xE1] @ ''o PoW trong ph'' @ encode_runes [0xF2] @ ''ng; th'' @ encode_runes [0xF4] @ ''ng b'' @ encode_runes [0xE1] @ ''o PoW l'' @ encode_runes [0xFA] @ ''c v'' @ encode_runes [0xE0] @ ''o c'' @ encode_runes [0x1EED] @ ''a theo ui.powMinTier''])"

definition set_notify :: "Notices \<Rightarrow> Console \<Rightarrow> Console" where
  "set_notify n c = on_ses (upd_display (\<lambda>d. d\<lparr>dsNotify := n\<rparr>)) c"

definition notify_set :: "string list \<Rightarrow> Console \<Rightarrow> Console" where
  "notify_set fs c =
     (let n = dsNotify (ssDisplay (coSession c)) in
      case fs of
        [] \<Rightarrow> tell (notify_list n) c
      | f # args \<Rightarrow>
          let key = to_lower f in
          if key = ''powmin'' then
            (case args of
               [v] \<Rightarrow> (case Atoi v of
                   Some tier \<Rightarrow> if tier < 1 then tell (''[Local]: powmin ph'' @ encode_runes [0x1EA3] @ ''i l'' @ encode_runes [0xE0] @ '' s'' @ encode_runes [0x1ED1] @ '' nguy'' @ encode_runes [0xEA] @ ''n >= 1.'' @ nl) c
                     else tell (''[Local]: Notify powmin = '' @ dec_int tier @ '' ('' @ encode_runes [0xE1] @ ''p d'' @ encode_runes [0x1EE5] @ ''ng t'' @ encode_runes [0x1EEB] @ '' gi'' @ encode_runes [0x1EDD] @ '' cho PoW trong ph'' @ encode_runes [0xF2] @ ''ng).'' @ nl)
                            (set_notify (notifySetPowMinTier tier n) c)
                 | None \<Rightarrow> tell (''[Local]: powmin ph'' @ encode_runes [0x1EA3] @ ''i l'' @ encode_runes [0xE0] @ '' s'' @ encode_runes [0x1ED1] @ '' nguy'' @ encode_runes [0xEA] @ ''n >= 1.'' @ nl) c)
             | _ \<Rightarrow> tell (''[Local]: D'' @ encode_runes [0xF9] @ ''ng /notify powmin <N> (N >= 1).'' @ nl) c)
          else (case args of
               [v] \<Rightarrow> (case parseOnOff v of
                   None \<Rightarrow> tell (''[Local]: Gi'' @ encode_runes [0xE1] @ '' tr'' @ encode_runes [0x1ECB] @ '' ph'' @ encode_runes [0x1EA3] @ ''i l'' @ encode_runes [0xE0] @ '' on ho'' @ encode_runes [0x1EB7] @ ''c off.'' @ nl) c
                 | Some on \<Rightarrow>
                     if key = ''all'' then tell (''[Local]: Notify all = '' @ onOffLabel on @ ''.'' @ nl) (set_notify (notifySetAll on n) c)
                     else (case notifySetTag key on n of
                         (_, False) \<Rightarrow> tell (''[Local]: Kh'' @ encode_runes [0xF4] @ ''ng r'' @ encode_runes [0xF5] @ '' tag th'' @ encode_runes [0xF4] @ ''ng b'' @ encode_runes [0xE1] @ ''o: '' @ key @ '' (xem /notify)'' @ nl) c
                       | (n', True) \<Rightarrow> tell (''[Local]: Notify '' @ key @ '' = '' @ onOffLabel on @ ''.'' @ nl) (set_notify n' c)))
             | _ \<Rightarrow> tell (''[Local]: D'' @ encode_runes [0xF9] @ ''ng /notify <tag> on|off | all on|off | powmin <N>.'' @ nl) c))"

definition cmdNotify :: "string \<Rightarrow> Console \<Rightarrow> Console option" where
  "cmdNotify line c =
     (if is_cmd ''/notify'' line \<or> is_cmd ''/nt'' line
      then let rest0 = cmd_rest ''/notify'' line; rest = (if rest0 = line then cmd_rest ''/nt'' line else rest0)
        in Some (notify_set (Fields rest) c)
      else None)"

definition tab_target :: "string \<Rightarrow> int \<Rightarrow> int" where
  "tab_target line active =
     (if line = ''/tab'' \<or> line = ''/t'' then (if active = TabChat then TabSystem else TabChat)
      else let rest = (if starts_with line ''/tab '' then cmd_rest ''/tab'' line else cmd_rest ''/t'' line)
        in if rest = ''1'' then TabChat else if rest = ''2'' then TabSystem else active)"

definition cmdTab :: "string \<Rightarrow> Console \<Rightarrow> Console option" where
  "cmdTab line c =
     (if is_cmd ''/tab'' line \<or> is_cmd ''/t'' line
      then Some (on_ses (switchTab (tab_target line (dsActiveTab (ssDisplay (coSession c))))) c)
      else None)"

definition clear_banner :: "co_env \<Rightarrow> Console \<Rightarrow> string" where
  "clear_banner co c =
     encode_runes [0x110, 0xE3] @ '' k'' @ encode_runes [0x1EBF] @ ''t n'' @ encode_runes [0x1ED1] @ ''i v'' @ encode_runes [0x1EDB] @ ''i username: '' @ serverField co (ssUsername (coSession c)) @ nl @ ''G'' @ encode_runes [0xF5] @ '' tin nh'' @ encode_runes [0x1EAF] @ ''n '' @ encode_runes [0x111, 0x1EC3] @ '' chat, /help '' @ encode_runes [0x111, 0x1EC3] @ '' hi'' @ encode_runes [0x1EC7] @ ''n tr'' @ encode_runes [0x1EE3] @ '' gi'' @ encode_runes [0xFA] @ ''p'' @ nl @ nl"

definition cmdClear :: "co_env \<Rightarrow> string \<Rightarrow> Console \<Rightarrow> Console option" where
  "cmdClear co line c =
     (if line = ''/clear'' \<or> line = ''/c''
      then Some (on_ses (\<lambda>s. upd_display (\<lambda>d. d\<lparr>dsPendingGreeting := [],
                    dsTabChat := tab_append (noticeEntry (trim_newline (clear_banner co c))) (tab_reset (dsTabChat d))\<rparr>)
                  (releaseCatchupLocked s)) c)
      else None)"

definition meta_setting :: "string \<Rightarrow> bool \<Rightarrow> bool option" where
  "meta_setting rest cur =
     (if rest = ''on'' then Some True else if rest = ''off'' then Some False else if rest = [] then Some (\<not> cur) else None)"

definition cmdMeta :: "string \<Rightarrow> Console \<Rightarrow> Console option" where
  "cmdMeta line c =
     (if is_cmd ''/meta'' line \<or> is_cmd ''/m'' line
      then let rest = (if starts_with line ''/meta'' then cmd_rest ''/meta'' line else cmd_rest ''/m'' line)
        in Some (case meta_setting rest (dsShowMeta (ssDisplay (coSession c))) of
             None \<Rightarrow> tell (''[Local]: D'' @ encode_runes [0xF9] @ ''ng /meta, /meta on ho'' @ encode_runes [0x1EB7] @ ''c /meta off.'' @ nl) c
           | Some on \<Rightarrow> tell (''[Local]: D'' @ encode_runes [0xF2] @ ''ng meta (#height:hash) '' @ (if on then ''HI'' @ encode_runes [0x1EC6] @ ''N'' else encode_runes [0x1EA8] @ ''N'') @ '' (chain v'' @ encode_runes [0x1EAB] @ ''n verify ng'' @ encode_runes [0x1EA7] @ ''m).'' @ nl)
                (on_ses (upd_display (\<lambda>d. d\<lparr>dsShowMeta := on\<rparr>)) c))
      else None)"

end
