(* ===== verification/Client_Commands.thy ===== *)
theory Client_Commands
  imports Client_Console
begin

text \<open>
  The rest of the command table: the commands that name a message by its height (reply, find, expand, info, copy, vote),
  older windows, the publication of a seed, and the loop that reads a line, offers it to the commands in order and sends
  what is left as a chat message (\<^verbatim>\<open>src/client/dispatch.go\<close>, \<^verbatim>\<open>burn.go\<close>, \<^verbatim>\<open>vote.go\<close>, \<^verbatim>\<open>client.go\<close>).
\<close>

subsection \<open>Replies\<close>

definition set_prompt :: "string \<Rightarrow> Console \<Rightarrow> Console" where
  "set_prompt p c = c\<lparr>coPrompt := p\<rparr>"

definition set_reply :: "u64 \<Rightarrow> Session \<Rightarrow> Session" where
  "set_reply h s = upd_pending (\<lambda>p. p\<lparr>pnReplyTo := h\<rparr>) s"

definition set_draft :: "u64 \<Rightarrow> Session \<Rightarrow> Session" where
  "set_draft h s = upd_pending (\<lambda>p. p\<lparr>pnReplyDraft := h\<rparr>) s"

definition in_buffers :: "u64 \<Rightarrow> string \<Rightarrow> Session \<Rightarrow> bool" where
  "in_buffers h suffix s \<longleftrightarrow>
     entryIndexByHeight (tbLines (dsTabChat (ssDisplay s))) h suffix \<noteq> None \<or>
     entryIndexByHeight (tbLines (dsTabSys (ssDisplay s))) h suffix \<noteq> None"

definition cmdReply :: "co_env \<Rightarrow> string \<Rightarrow> Console \<Rightarrow> (string \<times> cmdAction \<times> Console) option" where
  "cmdReply co line c =
     (if \<not> is_cmd ''/reply'' line then None
      else if \<not> ReplyEnabled (kCfg (oEnv co))
      then Some (line, cmdDone, tell (''[Local]: Reply '' @ encode_runes [0x111, 0xE3] @ '' t'' @ encode_runes [0x1EAF] @ ''t trong config (ui.reply.enabled).'' @ nl) c)
      else let rest = cmd_rest ''/reply'' line;
               target = (case Fields rest of [] \<Rightarrow> [] | f # _ \<Rightarrow> f);
               body = (if Fields rest = [] then [] else TrimSpace (drop (length target) rest))
        in case parseFindArg target of
             Inl _ \<Rightarrow> Some (line, cmdDone, tell (''[Local]: D'' @ encode_runes [0xF9] @ ''ng /reply <height>[:hash] [tin nh'' @ encode_runes [0x1EAF] @ ''n] (vd /reply 1234 '' @ encode_runes [0x111, 0x1ED3] @ ''ng '' @ encode_runes [0xFD] @ ''; /reply 1234 '' @ encode_runes [0x111, 0x1EC3] @ '' so'' @ encode_runes [0x1EA1] @ ''n nh'' @ encode_runes [0xE1] @ ''p).'' @ nl) c)
           | Inr (height, suffix) \<Rightarrow>
               if \<not> in_buffers height suffix (coSession c)
               then Some (line, cmdDone, tell (''[Local]: Tin #'' @ dec (unat height) @ '' kh'' @ encode_runes [0xF4] @ ''ng c'' @ encode_runes [0xF2] @ ''n trong b'' @ encode_runes [0x1ED9] @ '' nh'' @ encode_runes [0x1EDB] @ '', kh'' @ encode_runes [0xF4] @ ''ng reply '' @ encode_runes [0x111, 0x1B0, 0x1EE3] @ ''c.'' @ nl) c)
               else if body = []
               then Some (line, cmdDone, set_prompt (encode_runes [0x21A9] @ '' #'' @ dec (unat height) @ '' > '') (on_ses (set_draft height) c))
               else Some (body, cmdPass, on_ses (set_reply height) c))"

definition cancelReply :: "Session \<Rightarrow> Session \<times> bool" where
  "cancelReply s =
     (if pnReplyDraft (ssPending s) = 0 \<and> pnReplyTo (ssPending s) = 0 then (s, False)
      else (set_draft 0 (set_reply 0 s), True))"

definition handleDraftGate :: "string \<Rightarrow> Console \<Rightarrow> Console" where
  "handleDraftGate line c =
     (if starts_with line ''/'' then set_prompt ''| > '' (on_ses (set_draft 0) c)
      else set_prompt ''| > '' (on_ses (\<lambda>s. set_draft 0 (set_reply (pnReplyDraft (ssPending s)) s)) c))"

subsection \<open>Looking a message up\<close>

text \<open>A block nested in a notice: the Go entry holds a pointer to a fresh copy.\<close>

definition emit_nested :: "string \<Rightarrow> entry \<Rightarrow> Session \<Rightarrow> Session" where
  "emit_nested header inner s =
     emitTabLive True TabChat
       (Entry (zero_fields\<lparr>enHeader := header, enKind := kindNotice\<rparr>) (Some (ssAlloc s, inner)))
       (s\<lparr>ssAlloc := Suc (ssAlloc s)\<rparr>)"

definition find_hit :: "u64 \<Rightarrow> string \<Rightarrow> tabBuffer \<Rightarrow> entry list" where
  "find_hit h suffix b = (case entryIndexByHeight (tbLines b) h suffix of None \<Rightarrow> [] | Some i \<Rightarrow> [tbLines b ! i])"

definition cmdFind :: "string \<Rightarrow> Console \<Rightarrow> Console option" where
  "cmdFind line c =
     (if is_cmd ''/find'' line \<or> is_cmd ''/f'' line
      then let rest = (if starts_with line ''/find'' then cmd_rest ''/find'' line else cmd_rest ''/f'' line)
        in Some (case parseFindArg rest of
             Inl e \<Rightarrow> tell (''[Local]: '' @ find_error_text e @ ''.'' @ nl) c
           | Inr (height, suffix) \<Rightarrow>
               let d = ssDisplay (coSession c);
                   found = remdups (find_hit height suffix (dsTabChat d) @ find_hit height suffix (dsTabSys d))
               in if found = []
                  then tell (''[Local]: Kh'' @ encode_runes [0xF4] @ ''ng th'' @ encode_runes [0x1EA5] @ ''y #'' @ dec (unat height) @ '' trong b'' @ encode_runes [0x1ED9] @ '' nh'' @ encode_runes [0x1EDB] @ '' (tin c'' @ encode_runes [0x169] @ '' '' @ encode_runes [0x111, 0xE3] @ '' b'' @ encode_runes [0x1ECB] @ '' evict ho'' @ encode_runes [0x1EB7] @ ''c ch'' @ encode_runes [0x1B0] @ ''a sync).'' @ nl) c
                  else on_ses (fold (emit_nested (''T'' @ encode_runes [0xEC] @ ''m #'' @ dec (unat height) @ '' trong b'' @ encode_runes [0x1ED9] @ '' nh'' @ encode_runes [0x1EDB] @ '':'')) found) c)
      else None)"

definition unfoldableBlockLocked :: "cl_env \<Rightarrow> u64 \<Rightarrow> Session \<Rightarrow> Session \<times> (nat \<times> entry) option" where
  "unfoldableBlockLocked env height s =
     (case wix_get height (chWireIdx (ssChain s)) of
        None \<Rightarrow> (emitLocalFeedback (''[Local]: Tin '' @ encode_runes [0x111, 0xE3] @ '' tr'' @ encode_runes [0xF4] @ ''i kh'' @ encode_runes [0x1ECF] @ ''i b'' @ encode_runes [0x1ED9] @ '' nh'' @ encode_runes [0x1EDB] @ '' ho'' @ encode_runes [0x1EB7] @ ''c ch'' @ encode_runes [0x1B0] @ ''a sync.'' @ nl) s, None)
      | Some w \<Rightarrow>
          (case collapsedIndex (tbLines (dsTabChat (ssDisplay s))) height of
             None \<Rightarrow> (emitLocalFeedback (''[Local]: Tin n'' @ encode_runes [0xE0] @ ''y kh'' @ encode_runes [0xF4] @ ''ng thu g'' @ encode_runes [0x1ECD] @ ''n.'' @ nl) s, None)
           | Some idx \<Rightarrow> (s, Some (idx, fst (buildChatBlock env w (ssAutoVerify s) (dsShowMeta (ssDisplay s)) s)))))"

definition expandCollapsedLocked :: "cl_env \<Rightarrow> u64 \<Rightarrow> Session \<Rightarrow> Session" where
  "expandCollapsedLocked env height s =
     (case unfoldableBlockLocked env height s of
        (s1, None) \<Rightarrow> s1
      | (s1, Some (_, full)) \<Rightarrow> emit_nested (''M'' @ encode_runes [0x1EDF] @ '' r'' @ encode_runes [0x1ED9] @ ''ng #'' @ dec (unat height) @ '':'') full s1)"

definition expandInPlaceLocked :: "cl_env \<Rightarrow> u64 \<Rightarrow> Session \<Rightarrow> Session" where
  "expandInPlaceLocked env height s =
     (case unfoldableBlockLocked env height s of
        (s1, None) \<Rightarrow> s1
      | (s1, Some (idx, full)) \<Rightarrow>
          upd_display (\<lambda>d. d\<lparr>dsTabChat := insertAt (int idx) [full] (spliceOut (int idx) (int idx + 1) (dsTabChat d))\<rparr>) s1)"

definition cmdExpand :: "co_env \<Rightarrow> string \<Rightarrow> Console \<Rightarrow> Console option" where
  "cmdExpand co line c =
     (if is_cmd ''/expand'' line \<or> is_cmd ''/xpan'' line
      then Some (case parseFindArg (TrimSpace (TrimPrefix (TrimPrefix line ''/expand'') ''/xpan'')) of
             Inl _ \<Rightarrow> tell (''[Local]: D'' @ encode_runes [0xF9] @ ''ng /expand #height (vd /expand 1234).'' @ nl) c
           | Inr (height, _) \<Rightarrow> on_ses (expandCollapsedLocked (oEnv co) height) c)
      else None)"

definition revealProofLocked :: "WireMessage \<Rightarrow> Session \<Rightarrow> string" where
  "revealProofLocked msg s =
     (case wTrip msg of
        None \<Rightarrow> []
      | Some tm \<Rightarrow>
          if \<not> tmExposed tm then []
          else case dsRevealProof (ssDisplay s) (to_lower (tmPub tm)) of Some p \<Rightarrow> p | None \<Rightarrow> [])"

definition signed_dec :: "int \<Rightarrow> string" where
  "signed_dec n = (if n < 0 then dec_int n else ''+'' @ dec_int n)"

definition info_text :: "co_env \<Rightarrow> u64 \<Rightarrow> WireMessage \<Rightarrow> Session \<Rightarrow> string" where
  "info_text co height w s =
     trim_newlines (concat (formatInfoBlockWithProof (oEnv co) (oEd co) w (revealProofLocked w s) @
       (case chVotes (ssChain s) height of
          None \<Rightarrow> []
        | Some v \<Rightarrow> [''  '' @ pad_right 13 ''votes:'' @ '' '' @ dec_int (vsUpvotes v) @ '' upvotes, '' @ dec_int (vsDownvotes v) @
             '' downvotes ('' @ signed_dec (vote_score v) @ '')'' @ nl])))"

definition gone_text :: "u64 \<Rightarrow> string" where
  "gone_text height = ''[Local]: Tin #'' @ dec (unat height) @ '' kh'' @ encode_runes [0xF4] @ ''ng c'' @ encode_runes [0xF2] @ ''n trong b'' @ encode_runes [0x1ED9] @ '' nh'' @ encode_runes [0x1EDB] @ '' (legacy kh'' @ encode_runes [0xF4] @ ''ng c'' @ encode_runes [0xF3] @ '' metadata, ho'' @ encode_runes [0x1EB7] @ ''c '' @ encode_runes [0x111, 0xE3] @ '' evict).'' @ nl"

definition cmdInfo :: "co_env \<Rightarrow> string \<Rightarrow> Console \<Rightarrow> Console option" where
  "cmdInfo co line c =
     (if \<not> is_cmd ''/info'' line then None
      else Some (case parseFindArg (cmd_rest ''/info'' line) of
          Inl _ \<Rightarrow> tell (''[Local]: D'' @ encode_runes [0xF9] @ ''ng /info <height>[:hash] (vd /info 1234).'' @ nl) c
        | Inr (height, suffix) \<Rightarrow>
            (case wix_get height (chWireIdx (ssChain (coSession c))) of
               None \<Rightarrow> tell (gone_text height) c
             | Some w \<Rightarrow>
                 if suffix \<noteq> [] \<and> \<not> starts_with (to_lower (wChainHash w)) suffix
                 then tell (''[Local]: Height '' @ encode_runes [0x111, 0xFA] @ ''ng nh'' @ encode_runes [0x1B0] @ ''ng hash kh'' @ encode_runes [0xE1] @ ''c '' @ encode_runes [0x2014] @ '' ki'' @ encode_runes [0x1EC3] @ ''m tra l'' @ encode_runes [0x1EA1] @ ''i s'' @ encode_runes [0x1ED1] @ ''.'' @ nl) c
                 else tell (info_text co height w (coSession c)) c)))"

subsection \<open>Copying\<close>

text \<open>\<open>copyToClipboard\<close> may fail; the clearing after a while (\<open>scheduleClipboardClear\<close>) runs outside the session.\<close>

definition copy_text :: "co_env \<Rightarrow> (string \<Rightarrow> Session \<Rightarrow> Session) \<Rightarrow> string \<Rightarrow> string \<Rightarrow> Console \<Rightarrow> Console" where
  "copy_text co emit txt done_text c =
     (case oClip co txt of
        Some err \<Rightarrow> on_ses (emit (''[Local]: '' @ err @ ''.'' @ nl)) c
      | None \<Rightarrow> on_ses (emit done_text) (c\<lparr>coClipboard := Some txt\<rparr>))"

definition copied_text :: "u64 \<Rightarrow> string" where
  "copied_text height = ''[Local]: '' @ encode_runes [0x110, 0xE3] @ '' copy n'' @ encode_runes [0x1ED9] @ ''i dung tin #'' @ dec (unat height) @ ''.'' @ nl"

definition blank :: "string \<Rightarrow> bool" where
  "blank s \<longleftrightarrow> TrimSpace s = []"

fun latest_chat :: "cl_env \<Rightarrow> wireIndex \<Rightarrow> entry list \<Rightarrow> (u64 \<times> string) option" where
  "latest_chat env ix [] = None"
| "latest_chat env ix (e # es) =
     (let f = ent e in
      if enMuted f \<or> enHeight f = 0 then latest_chat env ix es
      else case wix_get (enHeight f) ix of
          Some w \<Rightarrow> if blank (wText w) then latest_chat env ix es else Some (enHeight f, wText w)
        | None \<Rightarrow>
            (let txt = (if enBody f \<noteq> [] then kStrip env (enBody f) else kStrip env (enHeader f))
             in if blank txt then latest_chat env ix es else Some (enHeight f, txt)))"

definition latestChatCopy :: "cl_env \<Rightarrow> Session \<Rightarrow> (u64 \<times> string) option" where
  "latestChatCopy env s = latest_chat env (chWireIdx (ssChain s)) (rev (tbLines (dsTabChat (ssDisplay s))))"

definition system_line :: "cl_env \<Rightarrow> entry \<Rightarrow> string" where
  "system_line env e =
     (let f = ent e; txt = kStrip env (enHeader f) in
      if enBody f \<noteq> [] then (if txt \<noteq> [] then txt @ nl @ kStrip env (enBody f) else kStrip env (enBody f)) else txt)"

definition latestSystemCopy :: "cl_env \<Rightarrow> Session \<Rightarrow> string option" where
  "latestSystemCopy env s =
     (case filter (\<lambda>e. \<not> (enBanner (ent e) \<or> enStatus (ent e)) \<and> \<not> blank (system_line env e)) (rev (tbLines (dsTabSys (ssDisplay s)))) of
        [] \<Rightarrow> None
      | e # _ \<Rightarrow> Some (system_line env e))"

definition copyLatestLocked :: "co_env \<Rightarrow> Console \<Rightarrow> Console" where
  "copyLatestLocked co c =
     (let s = coSession c in
      if dsActiveTab (ssDisplay s) = TabSystem then
        (case latestSystemCopy (oEnv co) s of
           Some txt \<Rightarrow> copy_text co emitStatusLocked txt (''[Local]: '' @ encode_runes [0x110, 0xE3] @ '' copy d'' @ encode_runes [0xF2] @ ''ng m'' @ encode_runes [0x1EDB] @ ''i nh'' @ encode_runes [0x1EA5] @ ''t tab 2.'' @ nl) c
         | None \<Rightarrow> on_ses (emitStatusLocked (''[Local]: Tab 2 ch'' @ encode_runes [0x1B0] @ ''a c'' @ encode_runes [0xF3] @ '' g'' @ encode_runes [0xEC] @ '' '' @ encode_runes [0x111, 0x1EC3] @ '' copy.'' @ nl)) c)
      else case latestChatCopy (oEnv co) s of
          Some (height, txt) \<Rightarrow> copy_text co emitStatusLocked txt (copied_text height) c
        | None \<Rightarrow> on_ses (emitStatusLocked (''[Local]: Ch'' @ encode_runes [0x1B0] @ ''a c'' @ encode_runes [0xF3] @ '' tin nh'' @ encode_runes [0x1EAF] @ ''n n'' @ encode_runes [0xE0] @ ''o '' @ encode_runes [0x111, 0x1EC3] @ '' copy.'' @ nl)) c)"

definition cmdCopy :: "co_env \<Rightarrow> string \<Rightarrow> Console \<Rightarrow> Console option" where
  "cmdCopy co line c =
     (if \<not> is_cmd ''/copy'' line then None
      else if cmd_rest ''/copy'' line = [] then Some (copyLatestLocked co c)
      else Some (case parseFindArg (cmd_rest ''/copy'' line) of
          Inl _ \<Rightarrow> tell (''[Local]: D'' @ encode_runes [0xF9] @ ''ng /copy [<height>[:hash]] (vd /copy 1234; tr'' @ encode_runes [0x1ED1] @ ''ng: tin m'' @ encode_runes [0x1EDB] @ ''i nh'' @ encode_runes [0x1EA5] @ ''t).'' @ nl) c
        | Inr (height, _) \<Rightarrow>
            (case wix_get height (chWireIdx (ssChain (coSession c))) of
               None \<Rightarrow> tell (gone_text height) c
             | Some w \<Rightarrow> copy_text co emitLocalFeedback (wText w) (copied_text height) c)))"

definition cmdClearhistory :: "co_env \<Rightarrow> string \<Rightarrow> Console \<Rightarrow> Console option" where
  "cmdClearhistory co line c =
     (if line = ''/clearhistory'' \<or> line = ''/ch''
      then Some (tell (''[Local]: '' @ encode_runes [0x1F5D1, 0xFE0F] @ '' '' @ encode_runes [0x110, 0xE3] @ '' x'' @ encode_runes [0xF3] @ ''a file l'' @ encode_runes [0x1ECB] @ ''ch s'' @ encode_runes [0x1EED] @ '' g'' @ encode_runes [0xF5] @ '' ph'' @ encode_runes [0xED] @ ''m t'' @ encode_runes [0x1EA1] @ ''i: '' @ oHistoryFile co @ nl)
                   (c\<lparr>coRecall := (coRecall c)\<lparr>ihFile := None\<rparr>\<rparr>))
      else None)"

subsection \<open>Older windows and votes\<close>

definition cmdOlder :: "co_env \<Rightarrow> string \<Rightarrow> Console \<Rightarrow> Console option" where
  "cmdOlder co line c =
     (if \<not> is_cmd ''/older'' line then None
      else let rest = cmd_rest ''/older'' line;
               limit = (if rest = [] then Some 50 else case Atoi rest of Some n \<Rightarrow> if n \<le> 0 then None else Some n | None \<Rightarrow> None)
        in Some (case limit of
             None \<Rightarrow> tell (''[Local]: D'' @ encode_runes [0xF9] @ ''ng /older [s'' @ encode_runes [0x1ED1] @ '' d'' @ encode_runes [0xF2] @ ''ng] (vd /older 50).'' @ nl) c
           | Some n \<Rightarrow>
               (case requestOlder (oEnv co) n (coSession c) of
                  (s1, False, _) \<Rightarrow> tell (''[Local]: Ch'' @ encode_runes [0x1B0] @ ''a c'' @ encode_runes [0xF3] @ '' tin n'' @ encode_runes [0xE0] @ ''o trong b'' @ encode_runes [0x1ED9] @ '' nh'' @ encode_runes [0x1EDB] @ '' '' @ encode_runes [0x2014] @ '' kh'' @ encode_runes [0xF4] @ ''ng c'' @ encode_runes [0xF3] @ '' g'' @ encode_runes [0xEC] @ '' '' @ encode_runes [0x111, 0x1EC3] @ '' l'' @ encode_runes [0xF9] @ ''i.'' @ nl) (c\<lparr>coSession := s1\<rparr>)
                | (s1, True, False) \<Rightarrow> tell (''[Local]: Kh'' @ encode_runes [0xF4] @ ''ng g'' @ encode_runes [0x1EED] @ ''i '' @ encode_runes [0x111, 0x1B0, 0x1EE3] @ ''c y'' @ encode_runes [0xEA] @ ''u c'' @ encode_runes [0x1EA7] @ ''u l'' @ encode_runes [0x1ECB] @ ''ch s'' @ encode_runes [0x1EED] @ '' c'' @ encode_runes [0x169] @ '': '' @ oErr co @ ''.'' @ nl) (c\<lparr>coSession := s1\<rparr>)
                | (s1, True, True) \<Rightarrow> c\<lparr>coSession := s1\<rparr>)))"

definition sendVote :: "co_env \<Rightarrow> u64 \<Rightarrow> string \<Rightarrow> int \<Rightarrow> Session \<Rightarrow> Session \<times> bool" where
  "sendVote co height suffix direction s =
     (if (case wix_get height (chWireIdx (ssChain s)) of None \<Rightarrow> True | Some w \<Rightarrow> \<not> quotable w) \<or>
         entryIndexByHeight (tbLines (dsTabChat (ssDisplay s))) height suffix = None
      then (emitLocalFeedback (''[Local]: Tin #'' @ dec (unat height) @ '' kh'' @ encode_runes [0xF4] @ ''ng c'' @ encode_runes [0xF2] @ ''n trong b'' @ encode_runes [0x1ED9] @ '' nh'' @ encode_runes [0x1EDB] @ '', kh'' @ encode_runes [0xF4] @ ''ng vote '' @ encode_runes [0x111, 0x1B0, 0x1EE3] @ ''c.'' @ nl) s, False)
      else case sendJSON (oEnv co) (VoteReq \<lparr>vrType = ''vote'', vrTarget = height, vrDirection = direction\<rparr>) s of
          (s1, True) \<Rightarrow> (s1, True)
        | (s1, False) \<Rightarrow> (emitLocalFeedback (''[Local]: Kh'' @ encode_runes [0xF4] @ ''ng g'' @ encode_runes [0x1EED] @ ''i '' @ encode_runes [0x111, 0x1B0, 0x1EE3] @ ''c vote: '' @ oErr co @ ''.'' @ nl) s1, False))"

definition vote_args :: "string \<Rightarrow> (int \<times> string) option" where
  "vote_args line =
     (if is_cmd ''/upvote'' line then Some (DirUpvote, cmd_rest ''/upvote'' line)
      else if is_cmd ''/up'' line then Some (DirUpvote, cmd_rest ''/up'' line)
      else if is_cmd ''/downvote'' line then Some (DirDownvote, cmd_rest ''/downvote'' line)
      else if is_cmd ''/down'' line then Some (DirDownvote, cmd_rest ''/down'' line)
      else if is_cmd ''/unvote'' line then Some (DirWithdraw, cmd_rest ''/unvote'' line)
      else None)"

definition cmdVote :: "co_env \<Rightarrow> string \<Rightarrow> Console \<Rightarrow> Console option" where
  "cmdVote co line c =
     (case vote_args line of
        None \<Rightarrow> None
      | Some (direction, rest) \<Rightarrow>
          Some (case parseFindArg rest of
              Inl _ \<Rightarrow> tell (''[Local]: D'' @ encode_runes [0xF9] @ ''ng /upvote <height>[:hash] | /downvote <height>[:hash] | /unvote <height>[:hash] (/up, /down l'' @ encode_runes [0xE0] @ '' alias).'' @ nl) c
            | Inr (height, suffix) \<Rightarrow> on_ses (\<lambda>s. fst (sendVote co height suffix direction s)) c))"

subsection \<open>Publishing the seed\<close>

definition burn_warning :: string where
  "burn_warning = ''[Local]: Seed l'' @ encode_runes [0xE0] @ '' kh'' @ encode_runes [0xF3] @ ''a b'' @ encode_runes [0xED] @ '' m'' @ encode_runes [0x1EAD] @ ''t c'' @ encode_runes [0x1EE7] @ ''a danh t'' @ encode_runes [0xED] @ ''nh n'' @ encode_runes [0xE0] @ ''y; hi'' @ encode_runes [0x1EC7] @ ''n ra l'' @ encode_runes [0xE0] @ '' b'' @ encode_runes [0x1EAF] @ ''t '' @ encode_runes [0x111, 0x1EA7] @ ''u l'' @ encode_runes [0x1ED9] @ ''.'' @ nl @
     ''  G'' @ encode_runes [0xF5] @ '' /burn confirm '' @ encode_runes [0x111, 0x1EC3] @ '' hi'' @ encode_runes [0x1EC7] @ ''n v'' @ encode_runes [0xE0] @ '' c'' @ encode_runes [0xF4] @ ''ng b'' @ encode_runes [0x1ED1] @ '' seed cho c'' @ encode_runes [0x1EA3] @ '' ph'' @ encode_runes [0xF2] @ ''ng; seed s'' @ encode_runes [0x1EBD] @ '' l'' @ encode_runes [0x1B0] @ ''u trong l'' @ encode_runes [0x1ECB] @ ''ch s'' @ encode_runes [0x1EED] @ '' server. Sau '' @ encode_runes [0x111, 0xF3] @ '' /quit v'' @ encode_runes [0xE0] @ '' kh'' @ encode_runes [0xF4] @ ''ng d'' @ encode_runes [0xF9] @ ''ng l'' @ encode_runes [0x1EA1] @ ''i passphrase/salt.'' @ nl"

definition burn_text :: "string \<Rightarrow> string \<Rightarrow> string \<Rightarrow> string" where
  "burn_text seedHex pubHex badge =
     ''[Local]: Seed '' @ encode_runes [0x111, 0xE3] @ '' hi'' @ encode_runes [0x1EC7] @ ''n '' @ encode_runes [0x2014] @ '' danh t'' @ encode_runes [0xED] @ ''nh coi nh'' @ encode_runes [0x1B0] @ '' '' @ encode_runes [0x111, 0xE3] @ '' l'' @ encode_runes [0x1ED9] @ '':'' @ nl @ ''  seed: '' @ seedHex @ nl @
     ''  pub:  '' @ pubHex @ '' ('' @ badge @ '')'' @ nl @ ''  /quit ngay v'' @ encode_runes [0xE0] @ '' kh'' @ encode_runes [0xF4] @ ''ng d'' @ encode_runes [0xF9] @ ''ng l'' @ encode_runes [0x1EA1] @ ''i passphrase/salt n'' @ encode_runes [0xE0] @ ''y.'' @ nl"

definition cmdBurn :: "co_env \<Rightarrow> string \<Rightarrow> Console \<Rightarrow> Console option" where
  "cmdBurn co line c =
     (if line \<noteq> ''/burn'' \<and> line \<noteq> ''/burn confirm'' then None
      else let s = coSession c; priv = (case ssTripPriv s of None \<Rightarrow> [] | Some k \<Rightarrow> k) in
        if length priv \<noteq> 64
        then Some (tell (''[Local]: Phi'' @ encode_runes [0xEA] @ ''n n'' @ encode_runes [0xE0] @ ''y kh'' @ encode_runes [0xF4] @ ''ng d'' @ encode_runes [0xF9] @ ''ng tripcode, kh'' @ encode_runes [0xF4] @ ''ng c'' @ encode_runes [0xF3] @ '' g'' @ encode_runes [0xEC] @ '' '' @ encode_runes [0x111, 0x1EC3] @ '' c'' @ encode_runes [0xF4] @ ''ng b'' @ encode_runes [0x1ED1] @ ''.'' @ nl) c)
        else if line = ''/burn'' \<or> \<not> coBurnArmed c then Some (tell burn_warning (c\<lparr>coBurnArmed := True\<rparr>))
        else let seedHex = hex_encode (take 32 priv);
                 pubHex = hex_encode (ssTripPub s);
                 sigHex = SignReveal (kSign (oEnv co)) priv pubHex;
                 s1 = emitLocalFeedback (burn_text seedHex pubHex (ssTripBadge s)) s
          in Some (case sendJSON (oEnv co) (RevealReq \<lparr>rrType = ''trip_reveal'', rrSeed = seedHex, rrSig = sigHex\<rparr>) s1 of
               (s2, True) \<Rightarrow> c\<lparr>coBurnArmed := False, coSession := emitStatusLocked (''[Local]: Server '' @ encode_runes [0x111, 0xE3] @ '' c'' @ encode_runes [0xF4] @ ''ng b'' @ encode_runes [0x1ED1] @ '' seed cho c'' @ encode_runes [0x1EA3] @ '' ph'' @ encode_runes [0xF2] @ ''ng.'' @ nl) s2\<rparr>
             | (s2, False) \<Rightarrow> c\<lparr>coBurnArmed := False, coSession := emitStatusLocked
                   (''[Local]: Kh'' @ encode_runes [0xF4] @ ''ng g'' @ encode_runes [0x1EED] @ ''i '' @ encode_runes [0x111, 0x1B0, 0x1EE3] @ ''c th'' @ encode_runes [0xF4] @ ''ng b'' @ encode_runes [0xE1] @ ''o l'' @ encode_runes [0x1ED9] @ '' seed: '' @ oErr co @ ''. C'' @ encode_runes [0x1EA3] @ '' ph'' @ encode_runes [0xF2] @ ''ng ch'' @ encode_runes [0x1B0] @ ''a nh'' @ encode_runes [0x1EAD] @ ''n '' @ encode_runes [0x111, 0x1B0, 0x1EE3] @ ''c minh ch'' @ encode_runes [0x1EE9] @ ''ng.'' @ nl) s2\<rparr>))"

definition cmdBurnVerify :: "co_env \<Rightarrow> string \<Rightarrow> Console \<Rightarrow> Console option" where
  "cmdBurnVerify co line c =
     (if \<not> is_cmd ''/burn-verify'' line then None
      else Some (case Fields (cmd_rest ''/burn-verify'' line) of
          [seed, pub] \<Rightarrow>
            (if VerifySeed (kPubOfSeed (oEnv co)) seed pub then tell (''[Local]: Seed kh'' @ encode_runes [0x1EDB] @ ''p pub '' @ encode_runes [0x2014] @ '' danh t'' @ encode_runes [0xED] @ ''nh n'' @ encode_runes [0xE0] @ ''y '' @ encode_runes [0x111, 0xE3] @ '' l'' @ encode_runes [0x1ED9] @ ''.'' @ nl) c
             else tell (''[Local]: Seed kh'' @ encode_runes [0xF4] @ ''ng kh'' @ encode_runes [0x1EDB] @ ''p pub.'' @ nl) c)
        | _ \<Rightarrow> tell (''[Local]: D'' @ encode_runes [0xF9] @ ''ng /burn-verify <seedHex> <pubHex>.'' @ nl) c))"

subsection \<open>Dispatch and the input loop\<close>

text \<open>Quitting runs once: the tip is flushed, the private key is overwritten with zeros and what was held is shown.\<close>

definition gracefulQuit :: "co_env \<Rightarrow> Console \<Rightarrow> Console" where
  "gracefulQuit co c =
     (if coQuit c then c
      else on_ses (\<lambda>s. flushPendingGreetingLocked (releaseCatchupLocked
             (let s1 = flushChainTip (oEnv co) s
              in s1\<lparr>ssTripPriv := map_option (map (\<lambda>_. NUL)) (ssTripPriv s1)\<rparr>))) (c\<lparr>coQuit := True\<rparr>))"

definition isUnknownSlashCommand :: "string \<Rightarrow> bool" where
  "isUnknownSlashCommand line \<longleftrightarrow> starts_with line ''/''"

fun first_cmd :: "(string \<Rightarrow> Console \<Rightarrow> Console option) list \<Rightarrow> string \<Rightarrow> Console \<Rightarrow> Console option" where
  "first_cmd [] line c = None"
| "first_cmd (f # fs) line c = (case f line c of Some c' \<Rightarrow> Some c' | None \<Rightarrow> first_cmd fs line c)"

definition early_cmds :: "co_env \<Rightarrow> time \<Rightarrow> (string \<Rightarrow> Console \<Rightarrow> Console option) list" where
  "early_cmds co now =
     [cmdWhoami co, cmdStatus co now, cmdHelp, cmdShowjoin, cmdAutoverify, cmdNotify, cmdTab, cmdClear co]"

definition late_cmds :: "co_env \<Rightarrow> (string \<Rightarrow> Console \<Rightarrow> Console option) list" where
  "late_cmds co =
     [cmdMeta, cmdFind, cmdExpand co, cmdInfo co, cmdCopy co, cmdClearhistory co, cmdOlder co, cmdVote co, cmdBurn co, cmdBurnVerify co]"

definition late_dispatch :: "co_env \<Rightarrow> string \<Rightarrow> Console \<Rightarrow> string \<times> cmdAction \<times> Console" where
  "late_dispatch co line c =
     (case first_cmd (late_cmds co) line c of
        Some c' \<Rightarrow> (line, cmdDone, on_ses (set_reply 0) c')
      | None \<Rightarrow>
          if isUnknownSlashCommand line
          then (line, cmdReject, on_ses (set_reply 0) (tell (''[Local]: L'' @ encode_runes [0x1EC7] @ ''nh kh'' @ encode_runes [0xF4] @ ''ng t'' @ encode_runes [0x1ED3] @ ''n t'' @ encode_runes [0x1EA1] @ ''i: '' @ line @ ''. G'' @ encode_runes [0xF5] @ '' /help '' @ encode_runes [0x111, 0x1EC3] @ '' xem danh s'' @ encode_runes [0xE1] @ ''ch.'' @ nl) c))
          else (line, cmdPass, c))"

definition dispatch :: "co_env \<Rightarrow> time \<Rightarrow> string \<Rightarrow> Console \<Rightarrow> string \<times> cmdAction \<times> Console" where
  "dispatch co now line c =
     (if line = ''/quit'' \<or> line = ''/q'' then (line, cmdQuit, gracefulQuit co c)
      else case first_cmd (early_cmds co now) line c of
          Some c' \<Rightarrow> (line, cmdDone, c')
        | None \<Rightarrow>
            (case cmdReply co line c of
               Some (next, cmdPass, c') \<Rightarrow> late_dispatch co next c'
             | Some (next, act, c') \<Rightarrow> (next, act, c')
             | None \<Rightarrow> late_dispatch co line c))"

definition recordHistory :: "co_env \<Rightarrow> string \<Rightarrow> bool \<Rightarrow> Console \<Rightarrow> Console" where
  "recordHistory co line isCommand c =
     (if \<not> isCommand \<and> (kCfg (oEnv co) = None \<or> \<not> SaveMessageHistory (kCfg (oEnv co))) then c
      else c\<lparr>coRecall := hist_add (oWritable co) line (coRecall c)\<rparr>)"

definition handleReadErr :: "co_env \<Rightarrow> bool \<Rightarrow> Console \<Rightarrow> Console \<times> cmdAction" where
  "handleReadErr co cancelled c =
     (if \<not> cancelled then (gracefulQuit co c, cmdQuit)
      else let c1 = on_ses (set_reply 0) c in
        if pnReplyDraft (ssPending (coSession c1)) > 0
        then (tell (''[Local]: '' @ encode_runes [0x110, 0xE3] @ '' h'' @ encode_runes [0x1EE7] @ ''y reply nh'' @ encode_runes [0xE1] @ ''p.'' @ nl) (set_prompt ''| > '' (on_ses (set_draft 0) c1)), cmdDone)
        else (tell (''[Local]: Ctrl+C ch'' @ encode_runes [0x1EC9] @ '' h'' @ encode_runes [0x1EE7] @ ''y d'' @ encode_runes [0xF2] @ ''ng nh'' @ encode_runes [0x1EAD] @ ''p, tho'' @ encode_runes [0xE1] @ ''t app b'' @ encode_runes [0x1EB1] @ ''ng Ctrl+D.'' @ nl) (set_prompt ''| > '' c1), cmdDone))"

text \<open>What the loop does with a line that no command took. A failed send ends the loop.\<close>

definition send_line :: "co_env \<Rightarrow> time \<Rightarrow> string \<Rightarrow> string \<Rightarrow> slotRef \<Rightarrow> Console \<Rightarrow> Console \<times> bool" where
  "send_line co now submitted line slot c =
     (case checkSendGuards (oEnv co) now line (coSession c) of
        (s1, False) \<Rightarrow> (c\<lparr>coSession := set_reply 0 s1\<rparr>, True)
      | (s1, True) \<Rightarrow>
          (let c1 = recordHistory co submitted False (c\<lparr>coSession := s1\<rparr>);
               (s2, slot', shown) = renderPlaceholder (oEnv co) line slot (coSession c1);
               (s3, ok) = sendMessage (oEnv co) now line slot' shown s2
           in (c1\<lparr>coSession := s3\<rparr>, ok)))"

text \<open>One line submitted at the prompt; the second component says whether the loop goes on.\<close>

definition input_line :: "co_env \<Rightarrow> time \<Rightarrow> string \<Rightarrow> Console \<Rightarrow> Console \<times> bool" where
  "input_line co now raw c =
     (let line = TrimSpace raw in
      if line = [] then (c, True)
      else let (s1, slot) = echoInputLine line (coSession c);
               c1 = handleDraftGate line (c\<lparr>coSession := s1\<rparr>);
               (next, act, c2) = dispatch co now line c1;
               c3 = recordHistory co line (act = cmdDone \<or> act = cmdQuit) c2
        in if act = cmdQuit then (c3, False)
           else if act = cmdDone \<or> act = cmdReject then (c3, True)
           else send_line co now line next slot c3)"

definition uiStatus :: "time \<Rightarrow> Console \<Rightarrow> Console \<times> string" where
  "uiStatus now c =
     (let s = coSession c; ch = ssChain s; d = ssDisplay s in
      if coPowTier c > 0 then (c, encode_runes [0x110] @ ''ang gi'' @ encode_runes [0x1EA3] @ ''i PoW (tier '' @ dec_int (coPowTier c) @ '')'' @ encode_runes [0x2026])
      else if chInOlder ch then (c, encode_runes [0x110] @ ''ang t'' @ encode_runes [0x1EA3] @ ''i l'' @ encode_runes [0x1ECB] @ ''ch s'' @ encode_runes [0x1EED] @ '' c'' @ encode_runes [0x169, 0x2026])
      else if chLoading ch then (c, encode_runes [0x110] @ ''ang t'' @ encode_runes [0x1EA3] @ ''i l'' @ encode_runes [0x1ECB] @ ''ch s'' @ encode_runes [0x1EED, 0x2026])
      else if chInRecover ch then (c, encode_runes [0x110] @ ''ang kh'' @ encode_runes [0xF4] @ ''i ph'' @ encode_runes [0x1EE5] @ ''c tin b'' @ encode_runes [0x1ECB] @ '' thi'' @ encode_runes [0x1EBF] @ ''u'' @ encode_runes [0x2026])
      else if pnReplyDraft (ssPending s) > 0 then (c, ''reply nh'' @ encode_runes [0xE1] @ ''p: Enter g'' @ encode_runes [0x1EED] @ ''i, ^C h'' @ encode_runes [0x1EE7] @ ''y'')
      else if dsStatusMsg d \<noteq> [] \<and> now < dsStatusUntil d then (c, dsStatusMsg d)
      else (on_ses (upd_display (\<lambda>d. d\<lparr>dsStatusMsg := []\<rparr>)) c, []))"

subsection \<open>Start and end\<close>

definition zero_buffer :: tabBuffer where
  "zero_buffer = \<lparr>tbLines = [], tbSize = 0, tbMaxLines = 0, tbMaxBytes = 0\<rparr>"

text \<open>\<open>NewSession\<close>; the tip file is what an earlier session left. Buffers and indexes come with \<open>initUI\<close>.\<close>

definition NewSession :: "chainTipRecord option \<Rightarrow> Session" where
  "NewSession file =
     \<lparr>ssConn = False, ssUsername = [], ssServerPubKey = [], ssTripPriv = None, ssTripPub = [], ssTripBadge = [], ssTripSeq = 0,
      ssTripPrev = zero32, ssAutoVerify = False,
      ssDisplay = \<lparr>dsShowJoinLeave = False, dsShowMeta = False, dsNotify = \<lparr>ntMuted = [], ntPowMinTier = 1\<rparr>, dsActiveTab = 0,
        dsTabChat = zero_buffer, dsTabSys = zero_buffer, dsLayoutEpoch = 0, dsCatchupHold = False, dsHoldGen = 0,
        dsHoldTimer = False, dsLastDateBanner = [], dsPendingGreeting = [], dsRevealProof = Map.empty, dsStatusMsg = [],
        dsStatusUntil = 0\<rparr>,
      ssChain = \<lparr>chTip = zero32, chHeight = 0, chHaveTip = False, chWarned = False, chGapWarned = False, chServerPubHex = [],
        chPersistedTip = zero32, chPersistedHeight = 0, chPersistedServer = [], chHavePersistedTip = False, chInSync = False,
        chInOlder = False, chOlderExhausted = False, chOlderInsert = 0, chOlderInsertSys = 0, chOlderHeightBound = 0,
        chOlderSeqBound = 0, chInRecover = False, chRecoverRendered = False, chRecoverPending = None, chRecoverGen = 0,
        chLiveRecovered = 0, chSyncHeights = Map.empty, chLoading = False, chLoadStartSeq = 0, chLoadMaxSeq = 0,
        chLoadTarget = 0, chLoadLoaded = 0, chLoadRetried = 0, chLoadHold = [], chTipSinceSave = 0,
        chWireIdx = \<lparr>wixCap = 0, wixOrder = [], wixItems = Map.empty\<rparr>,
        chRenderCache = \<lparr>rcCap = 0, rcOrder = [], rcItems = Map.empty\<rparr>, chVotes = Map.empty\<rparr>,
      ssPending = \<lparr>pnTmpSeq = 0, pnReplyTo = 0, pnReplyDraft = 0, pnLastMessageTime = 0, pnPlaceholders = [], pnEchoes = [],
        pnSeenTmpIDs = [], pnDateBanner = None, pnEchoSlot = None\<rparr>,
      ssSent = [], ssTipFile = file, ssIO = 0, ssAlloc = 0, ssTimers = [], ssPanic = False\<rparr>"

text \<open>The flags \<open>--show-join\<close> and \<open>--quiet\<close> are arguments.\<close>

definition initUI :: "cl_env \<Rightarrow> bool \<Rightarrow> string list \<Rightarrow> time \<Rightarrow> Session \<Rightarrow> Session" where
  "initUI env showJoin quiet now s =
     (let cfg = kCfg env;
          (cl, cb, sl, sb) = tabCaps cfg;
          s1 = s\<lparr>ssAutoVerify := DefaultAutoVerify cfg,
                 ssDisplay := (ssDisplay s)\<lparr>dsShowJoinLeave := (showJoin \<or> (case cfg of None \<Rightarrow> False | Some c \<Rightarrow> ccShowJoin c)),
                   dsNotify := applyQuietFlags quiet (notifyStateFromConfig cfg), dsShowMeta := ShowMeta cfg, dsActiveTab := TabChat,
                   dsTabChat := newTabBuffer cl cb, dsTabSys := newTabBuffer sl sb\<rparr>,
                 ssPending := (ssPending s)\<lparr>pnLastMessageTime := now - 10 * second\<rparr>\<rparr>
      in upd_chain (\<lambda>c. c\<lparr>chWireIdx := newWireIndex 1000, chRenderCache := newRenderCache 200\<rparr>) (initChainState s1))"

definition hold_greeting :: "co_env \<Rightarrow> Session \<Rightarrow> Session" where
  "hold_greeting co s = upd_display (\<lambda>d. d\<lparr>dsPendingGreeting := nl @ encode_runes [0x110, 0xE3] @ '' k'' @ encode_runes [0x1EBF] @ ''t n'' @ encode_runes [0x1ED1] @ ''i v'' @ encode_runes [0x1EDB] @ ''i username: '' @ serverField co (ssUsername s) @ nl @
     ''G'' @ encode_runes [0xF5] @ '' tin nh'' @ encode_runes [0x1EAF] @ ''n '' @ encode_runes [0x111, 0x1EC3] @ '' chat, /help '' @ encode_runes [0x111, 0x1EC3] @ '' hi'' @ encode_runes [0x1EC7] @ ''n tr'' @ encode_runes [0x1EE3] @ '' gi'' @ encode_runes [0xFA] @ ''p'' @ nl @ nl\<rparr>) s"

text \<open>
  What can happen to a running client: a frame arrives, a timer fires, a line or a cancel or the end of the input comes
  from the terminal, the page-up key asks for older lines, a click unfolds a block. After the end of the input loop the
  main function quits.
\<close>

datatype action = Arrive time string | Timer time timer | Line time string | CtrlC | EndOfInput | PageUp int | Click u64

definition leave_on :: "co_env \<Rightarrow> Console \<times> bool \<Rightarrow> Console" where
  "leave_on co r = (if snd r then fst r else gracefulQuit co (fst r))"

fun client_act :: "co_env \<Rightarrow> decoders \<Rightarrow> action \<Rightarrow> Console \<Rightarrow> Console" where
  "client_act co dc (Arrive now raw) c = on_ses (client_frame_step (oEnv co) dc now raw) c"
| "client_act co dc (Timer now t) c = on_ses (fire (oEnv co) now t) c"
| "client_act co dc (Line now raw) c = (if coQuit c then c else leave_on co (input_line co now raw c))"
| "client_act co dc CtrlC c = (if coQuit c then c else fst (handleReadErr co True c))"
| "client_act co dc EndOfInput c = (if coQuit c then c else fst (handleReadErr co False c))"
| "client_act co dc (PageUp n) c = on_ses (\<lambda>s. fst (requestOlder (oEnv co) n s)) c"
| "client_act co dc (Click h) c = on_ses (expandInPlaceLocked (oEnv co) h) c"

end
