(* ===== verification/Client_Invariant.thy ===== *)
theory Client_Invariant
  imports Client_Commands
begin

text \<open>
  What every operation of the client keeps, whatever the server sends: the hashes it tracks have 32 bytes, the refill
  window is coherent, queues, indexes and buffers stay within their bounds, and the identity it signs with is touched
  by nothing but a send. \<open>keeps\<close> is the relation; it is a preorder, so the lemma of a composite operation follows from
  the lemmas of its parts.
\<close>

subsection \<open>The invariant\<close>

definition pending_ok :: "PendingState \<Rightarrow> bool" where
  "pending_ok p \<longleftrightarrow>
     length (pnPlaceholders p) \<le> maxPendingPlaceholders \<and> length (pnEchoes p) \<le> 16 \<and> length (pnSeenTmpIDs p) \<le> maxSeenTmpIDs"

definition window_ok :: "recoverWindow \<Rightarrow> bool" where
  "window_ok w \<longleftrightarrow>
     (\<forall>b \<in> ran (rwKnown w). length b = 32) \<and> rwLive w \<subseteq> rwMissing w \<and> (\<forall>h \<in> rwMissing w. h \<noteq> 0 \<and> h \<le> rwMaxMissing w)"

definition chain_ok :: "ChainState \<Rightarrow> bool" where
  "chain_ok c \<longleftrightarrow>
     length (chTip c) = 32 \<and> length (chPersistedTip c) = 32 \<and> (\<forall>b \<in> ran (chSyncHeights c). length b = 32) \<and>
     pred_option window_ok (chRecoverPending c) \<and> wix_ok (chWireIdx c) \<and> cache_ok (chRenderCache c)"

definition tab_ok :: "tabBuffer \<Rightarrow> bool" where
  "tab_ok b \<longleftrightarrow> 0 < tbMaxLines b \<and> in_caps b"

definition display_ok :: "DisplayState \<Rightarrow> bool" where
  "display_ok d \<longleftrightarrow> tab_ok (dsTabChat d) \<and> tab_ok (dsTabSys d) \<and> dsActiveTab d \<in> {TabChat, TabSystem}"

definition client_ok :: "Session \<Rightarrow> bool" where
  "client_ok s \<longleftrightarrow>
     display_ok (ssDisplay s) \<and> chain_ok (ssChain s) \<and> pending_ok (ssPending s) \<and>
     (\<forall>f. ssTipFile s = Some f \<longrightarrow> loadChainTip (Some f) \<noteq> None)"

text \<open>What a signature depends on.\<close>

definition signer :: "Session \<Rightarrow> string \<times> string \<times> bytes option \<times> bytes \<times> u32 \<times> bytes \<times> u64" where
  "signer s = (ssUsername s, ssServerPubKey s, ssTripPriv s, ssTripPub s, ssTripSeq s, ssTripPrev s, pnTmpSeq (ssPending s))"

fun signed_of :: "client_frame \<Rightarrow> TripMessage list" where
  "signed_of (SignedChat m) = [m]"
| "signed_of _ = []"

definition signed_frames :: "client_frame list \<Rightarrow> TripMessage list" where
  "signed_frames fs = concat (map signed_of fs)"

definition keeps :: "Session \<Rightarrow> Session \<Rightarrow> bool" where
  "keeps s s' \<longleftrightarrow>
     (client_ok s \<longrightarrow> client_ok s' \<and> signer s' = signer s \<and> signed_frames (ssSent s') = signed_frames (ssSent s))"

lemma signed_frames_simps [simp]:
  "signed_frames [] = []" "signed_frames (fs @ gs) = signed_frames fs @ signed_frames gs"
  "signed_frames (f # fs) = signed_of f @ signed_frames fs"
  by (simp_all add: signed_frames_def)

lemma keeps_refl [simp, intro]: "keeps s s"
  by (simp add: keeps_def)

lemma keeps_trans: "keeps s s' \<Longrightarrow> keeps s' s'' \<Longrightarrow> keeps s s''"
  by (simp add: keeps_def)

lemma keepsI: "(client_ok s \<Longrightarrow> keeps s s') \<Longrightarrow> keeps s s'"
  by (simp add: keeps_def)

lemma keeps_display: "(display_ok (ssDisplay s) \<Longrightarrow> display_ok d) \<Longrightarrow> keeps s (s\<lparr>ssDisplay := d\<rparr>)"
  by (simp add: keeps_def client_ok_def signer_def)

lemma keeps_chain: "(chain_ok (ssChain s) \<Longrightarrow> chain_ok c) \<Longrightarrow> keeps s (s\<lparr>ssChain := c\<rparr>)"
  by (simp add: keeps_def client_ok_def signer_def)

lemma keeps_pending:
  "(pending_ok (ssPending s) \<Longrightarrow> pending_ok p) \<Longrightarrow> pnTmpSeq p = pnTmpSeq (ssPending s) \<Longrightarrow> keeps s (s\<lparr>ssPending := p\<rparr>)"
  by (simp add: keeps_def client_ok_def signer_def)

lemma keeps_other [simp]:
  "keeps s (s\<lparr>ssTimers := ts\<rparr>)" "keeps s (s\<lparr>ssAlloc := n\<rparr>)" "keeps s (s\<lparr>ssPanic := b\<rparr>)" "keeps s (s\<lparr>ssIO := k\<rparr>)"
  "keeps s (s\<lparr>ssAutoVerify := b\<rparr>)"
  by (simp_all add: keeps_def client_ok_def signer_def)

lemma keeps_fold: "(\<And>x s. keeps s (f x s)) \<Longrightarrow> keeps s (fold f xs s)"
  by (induction xs arbitrary: s) (auto intro: keeps_trans)

lemma trim_front_length [simp]: "length (trim_front n xs) = min n (length xs)"
  by (induction n xs rule: trim_front.induct) auto

subsection \<open>Buffers\<close>

lemma tab_ok_caps [simp]: "tab_ok b \<Longrightarrow> 0 < tbMaxLines b"
  by (simp add: tab_ok_def)

lemma tab_ok_ops [simp]:
  assumes "tab_ok b"
  shows "tab_ok (tab_append e b)" "tab_ok (insertAt i es b)" "tab_ok (spliceOut x y b)" "tab_ok (fst (replaceSlot sl e b))"
    "tab_ok (tab_reset b)"
proof -
  have "in_caps (tab_do op b)" for op using assms in_caps_step by (simp add: tab_ok_def)
  from this [of "Append e"] this [of "Insert i es"] this [of "Splice x y"] this [of "Replace sl e"] this [of Reset]
  show "tab_ok (tab_append e b)" "tab_ok (insertAt i es b)" "tab_ok (spliceOut x y b)" "tab_ok (fst (replaceSlot sl e b))"
    "tab_ok (tab_reset b)"
    using assms by (simp_all add: tab_ok_def tab_reset_def)
qed

lemma place_keeps: "keeps s (placeEntry tab e s)"
  by (auto simp: placeEntry_def Let_def keeps_def client_ok_def signer_def display_ok_def chain_ok_def)

lemma emit_keeps: "keeps s (emitTabLive live tab e s)"
  by (auto simp: emitTabLive_def Let_def intro: place_keeps keeps_trans)

lemma local_keeps: "keeps s (emitLocalEntry live e s)"
  by (auto simp: emitLocalEntry_def Let_def display_ok_def intro: keeps_display)

lemma feedback_keeps: "keeps s (emitLocalFeedback line s)" "keeps s (emitStatusLocked line s)"
  by (simp_all add: emitLocalFeedback_def emitStatusLocked_def local_keeps)

lemma raw_keeps: "keeps s (emitRawLineLocked env line s)"
  by (simp add: emitRawLineLocked_def emit_keeps)

lemma greeting_keeps: "keeps s (flushPendingGreetingLocked s)"
  by (auto simp: flushPendingGreetingLocked_def Let_def display_ok_def intro: keeps_display)

lemma release_keeps: "keeps s (releaseCatchupLocked s)"
  by (auto simp: releaseCatchupLocked_def display_ok_def intro: keeps_trans [OF keeps_display greeting_keeps])

lemma status_keeps: "keeps s (setStatusLocked line now s)"
  by (auto simp: setStatusLocked_def display_ok_def intro: keeps_display)

lemma switch_keeps: "keeps s (switchTab n s)"
  by (auto simp: switchTab_def display_ok_def intro: keeps_trans [OF release_keeps keeps_display])

lemma send_keeps:
  assumes "sendJSON env f s = (s', ok)" "signed_of f = []"
  shows "keeps s s'"
  using assms by (auto simp: sendJSON_def keeps_def client_ok_def signer_def split: if_splits)

lemmas show_keeps = emit_keeps local_keeps feedback_keeps raw_keeps greeting_keeps release_keeps status_keeps switch_keeps

subsection \<open>Rendering\<close>

lemma reveal_keeps: "keeps s (note_reveal env msg s)"
  by (auto simp: note_reveal_def Let_def display_ok_def intro: keeps_display)

lemma block_keeps: "keeps s (emit_block live tab e s)"
proof -
  have p: "keeps s (upd_pending (\<lambda>p. p\<lparr>pnEchoSlot := None\<rparr>) s)"
    by (rule keeps_pending) (simp_all add: pending_ok_def)
  have r: "keeps t (upd_display (\<lambda>d. d\<lparr>dsTabChat := fst (replaceSlot sl e (dsTabChat (ssDisplay t)))\<rparr>) t)" for t sl
    by (rule keeps_display) (simp add: display_ok_def)
  define t where "t = upd_pending (\<lambda>p. p\<lparr>pnEchoSlot := None\<rparr>) s"
  have "emit_block live tab e s \<in> {emitTabLive live tab e t, emitTabLive live tab e s} \<or>
    (\<exists>sl. emit_block live tab e s = upd_display (\<lambda>d. d\<lparr>dsTabChat := fst (replaceSlot sl e (dsTabChat (ssDisplay t)))\<rparr>) t)"
    by (auto simp: emit_block_def Let_def t_def split_beta split: option.split bool.split)
  then show ?thesis
    using keeps_trans [OF p emit_keeps] keeps_trans [OF p r] emit_keeps unfolding t_def by auto
qed

lemma index_keeps: "keeps s (upd_chain (\<lambda>c. c\<lparr>chWireIdx := wix_put msg (chWireIdx c)\<rparr>) s)"
  using wires.run_ok [of _ "[msg]"] by (auto simp: chain_ok_def intro: keeps_chain)

lemma cache_keeps: "keeps s (upd_chain (\<lambda>c. c\<lparr>chRenderCache := cache_put k b (chRenderCache c)\<rparr>) s)"
  using blocks.run_ok [of _ "[(k, b)]"] by (auto simp: chain_ok_def intro: keeps_chain)

lemma render_ok: "keeps s (renderChatBlock env msg s)"
proof -
  define s1 where "s1 = note_reveal env msg (upd_chain (\<lambda>c. c\<lparr>chWireIdx := wix_put msg (chWireIdx c)\<rparr>) s)"
  have "keeps s s1" unfolding s1_def by (rule keeps_trans [OF index_keeps reveal_keeps])
  moreover have "keeps s1 (renderChatBlock env msg s)"
    unfolding renderChatBlock_def s1_def [symmetric] Let_def
    by (auto simp: split_beta block_keeps split: option.split intro: keeps_trans [OF cache_keeps block_keeps])
  ultimately show ?thesis by (rule keeps_trans)
qed

lemma vote_keeps: "keeps s (fst (applyVoteLocked env msg s))"
proof -
  have r: "keeps s (refreshVoteLocked env h s)" for s h
    by (auto simp: refreshVoteLocked_def Let_def display_ok_def split: option.split intro: keeps_display)
  show ?thesis
    by (auto simp: applyVoteLocked_def Let_def chain_ok_def intro: keeps_trans [OF keeps_chain r])
qed

lemma recovered_ok: "keeps s (renderRecoveredInPlace env msg s)"
proof -
  define s1 where "s1 = renderChatBlock env msg s"
  have "keeps s s1" unfolding s1_def by (rule render_ok)
  moreover have "keeps s1 (renderRecoveredInPlace env msg s)"
    unfolding renderRecoveredInPlace_def s1_def [symmetric] Let_def
    by (auto simp: display_ok_def intro!: keeps_display)
  ultimately show ?thesis by (rule keeps_trans)
qed

subsection \<open>Echoes and the tip\<close>

lemma noted_length: "length seen \<le> maxSeenTmpIDs \<Longrightarrow> length (noteConsumedTmpID seen i) \<le> maxSeenTmpIDs"
  by (simp add: noteConsumedTmpID_def)

lemma stash_ok: "pending_ok p \<Longrightarrow> pending_ok (stash_unseen msg allow now p)"
  by (simp add: stash_unseen_def pending_ok_def stashEcho_def)

lemma stash_tmp [simp]: "pnTmpSeq (stash_unseen msg allow now p) = pnTmpSeq p"
  by (simp add: stash_unseen_def)

lemma plan_keeps: "planEchoConsume msg allow now s = (s', act) \<Longrightarrow> keeps s s'"
proof -
  assume a: "planEchoConsume msg allow now s = (s', act)"
  let ?fresh = "fst (reapStaleEchoes (pnEchoes (ssPending s)) (10 * second) now)"
  let ?p = "(ssPending s)\<lparr>pnEchoes := ?fresh\<rparr>"
  have l: "length ?fresh \<le> length (pnEchoes (ssPending s))" by (simp add: reapStaleEchoes_def)
  then have p: "pending_ok (ssPending s) \<Longrightarrow> pending_ok ?p" by (auto simp: pending_ok_def)
  from a l p show "keeps s s'"
    by (auto simp: planEchoConsume_def Let_def split_beta split: if_splits option.splits
        intro!: keeps_pending stash_ok) (auto simp: pending_ok_def noted_length)
qed

lemma consume_keeps: "keeps s (consumeEchoLocked msg allow now s)"
proof -
  obtain s1 act where a: "planEchoConsume msg allow now s = (s1, act)" by fastforce
  have f: "keeps s1 (fold (\<lambda>w. emitLocalFeedback (stale_text w)) ws s1)" for ws
    by (rule keeps_fold) (rule feedback_keeps)
  have m: "keeps t (upd_pending (\<lambda>p. p\<lparr>pnEchoSlot := Some pm\<rparr>) t)" for t pm
    by (rule keeps_pending) (simp_all add: pending_ok_def)
  note p = keeps_trans [OF plan_keeps [OF a] f]
  show ?thesis
    by (auto simp: consumeEchoLocked_def a Let_def p split: option.split intro: keeps_trans [OF p m])
qed

lemma erase_keeps: "keeps s (erasePlaceholderLocked pm s)"
  by (auto simp: erasePlaceholderLocked_def display_ok_def intro: keeps_display)

lemma hex_loads: "length b = 32 \<Longrightarrow> ParseHex64 (hex_encode b) = Some b"
  by (simp add: codec)

lemma save_keeps:
  assumes "saveChainTip env tip h p s = r" "length tip = 32"
  shows "keeps s (batch_saved r)"
  using assms by (auto simp: saveChainTip_def batch_saved_def keeps_def client_ok_def signer_def chain_ok_def loadChainTip_def
      hex_loads split: if_splits)

lemma tip_keeps:
  assumes "length tip = 32"
  shows "keeps s (noteChainTip env tip h s)"
proof -
  define s1 where "s1 = upd_chain (\<lambda>c. c\<lparr>chTip := tip, chHeight := h, chHaveTip := True, chTipSinceSave := chTipSinceSave c + 1\<rparr>) s"
  have "keeps s s1" unfolding s1_def by (rule keeps_chain) (simp add: chain_ok_def assms)
  moreover have "keeps s1 (noteChainTip env tip h s)"
    unfolding noteChainTip_def Let_def s1_def [symmetric] using save_keeps [OF refl assms] by auto
  ultimately show ?thesis by (rule keeps_trans)
qed

lemma flush_keeps: "keeps s (flushChainTip env s)"
proof (rule keepsI)
  assume "client_ok s"
  then have "length (chTip (ssChain s)) = 32" by (simp add: client_ok_def chain_ok_def)
  then show "keeps s (flushChainTip env s)" using save_keeps [OF refl] by (simp add: flushChainTip_def)
qed

subsection \<open>Refills\<close>

lemma prune_ok:
  assumes "window_ok p"
  shows "window_ok (pruneMissing p)"
proof -
  have cut: "window_ok w \<Longrightarrow> window_ok (w\<lparr>rwMissing := {h \<in> rwMissing w. P h}, rwLive := {h \<in> rwLive w. P h}\<rparr>)" for w P
    unfolding window_ok_def by auto
  show ?thesis unfolding pruneMissing_def
    by (rule fold_invariant [where P = window_ok and Q = "\<lambda>_. True"]) (simp_all add: assms cut)
qed

lemma arm_keeps: "keeps s (arm t s)"
  by (simp add: arm_def)

lemma window_keeps: "pred_option window_ok w \<Longrightarrow> keeps s (set_window w s)"
  by (auto simp: set_window_def chain_ok_def intro: keeps_chain)

lemma flag_keeps [simp]:
  "keeps s (upd_chain (\<lambda>c. c\<lparr>chInRecover := b\<rparr>) s)" "keeps s (upd_chain (\<lambda>c. c\<lparr>chRecoverRendered := b\<rparr>) s)"
  "keeps s (upd_chain (\<lambda>c. c\<lparr>chRecoverPending := None, chInRecover := b\<rparr>) s)"
  "keeps s (upd_chain (\<lambda>c. c\<lparr>chRecoverGen := g\<rparr>) s)" "keeps s (upd_chain (\<lambda>c. c\<lparr>chGapWarned := b\<rparr>) s)"
  "keeps s (upd_chain (\<lambda>c. c\<lparr>chWarned := b\<rparr>) s)" "keeps s (upd_chain (\<lambda>c. c\<lparr>chLoadLoaded := n\<rparr>) s)"
  "keeps s (upd_chain (\<lambda>c. c\<lparr>chInOlder := b\<rparr>) s)"
  by (rule keeps_chain, simp add: chain_ok_def)+

lemma recover_send_keeps: "sendRecoverLocked env now s = (s', ok) \<Longrightarrow> keeps s s'"
proof (rule keepsI)
  assume e: "sendRecoverLocked env now s = (s', ok)" and c: "client_ok s"
  show "keeps s s'"
  proof (cases "chRecoverPending (ssChain s)")
    case (Some p0)
    define p where "p = pruneMissing p0"
    have w: "window_ok p" using c Some prune_ok by (simp add: p_def client_ok_def chain_ok_def)
    then have w': "window_ok (p\<lparr>rwAttempts := n, rwReceived := r, rwFailed := f, rwRequestedAt := t\<rparr>)" for n r f t
      by (simp add: window_ok_def)
    have k1: "keeps s (set_window (Some p) s)" using w by (simp add: window_keeps)
    obtain s2 b where j: "sendJSON env (HistoryReq (refill_request p)) (set_window (Some p) s) = (s2, b)" by fastforce
    have k2: "keeps s s2" by (rule keeps_trans [OF k1 send_keeps [OF j]]) simp
    have k3: "keeps s2 (arm t (upd_chain (\<lambda>c. c\<lparr>chInRecover := True, chRecoverPending := Some (p\<lparr>rwAttempts := Suc (rwAttempts p),
        rwReceived := 0, rwFailed := False, rwRequestedAt := now\<rparr>), chRecoverGen := chRecoverGen c + 1\<rparr>) s2))" for t
      by (rule keeps_trans [OF keeps_chain arm_keeps]) (use w' in \<open>simp add: chain_ok_def\<close>)
    show ?thesis using e Some k1 k2 keeps_trans [OF k2 k3]
      by (auto simp: sendRecoverLocked_def Let_def p_def [symmetric] j split: if_splits bool.splits)
  qed (use e in \<open>simp add: sendRecoverLocked_def\<close>)
qed

lemma between_ok:
  assumes "h \<in> heights_between lo hi" "lo \<noteq> 0" "lo \<le> hi"
  shows "h \<noteq> 0 \<and> h \<le> hi"
proof -
  from assms(1) obtain i where h: "h = lo + of_nat i" and i: "i \<le> unat (hi - lo)"
    unfolding heights_between_def set_map by (auto simp del: upt_Suc)
  have d: "unat (hi - lo) = unat hi - unat lo" using assms(3) by (simp add: unat_sub)
  have lt: "unat lo + i < 2 ^ 64" using i d unsigned_less [where ?'a = nat, of hi] assms(3) by (simp add: word_le_nat_alt)
  then have "unat h = unat lo + i" by (simp add: h unat_word_ariths unat_of_nat)
  moreover have "unat lo \<noteq> 0" using assms(2) by (simp add: unat_eq_0)
  ultimately show ?thesis using i d assms(3) by (auto simp: word_le_nat_alt)
qed

lemma request_keeps:
  assumes "maybeRequestRecovery env now lo hi ah hash s = (s', ok)" "length hash = 32"
  shows "keeps s s'"
proof (rule keepsI)
  assume c: "client_ok s"
  let ?fresh = "\<lparr>rwAddr = ssAlloc s, rwMissing = {}, rwKnown = Map.empty, rwLive = {}, rwMaxMissing = 0,
    rwReceived = 0, rwAttempts = 0, rwFailed = False, rwRequestedAt = 0\<rparr>"
  define p s1 where "p = (case chRecoverPending (ssChain s) of Some w \<Rightarrow> w | None \<Rightarrow> ?fresh)"
    and "s1 = (case chRecoverPending (ssChain s) of Some w \<Rightarrow> s | None \<Rightarrow> set_window (Some ?fresh) (s\<lparr>ssAlloc := Suc (ssAlloc s)\<rparr>))"
  define p' where "p' = p\<lparr>rwMissing := rwMissing p \<union> heights_between lo hi, rwLive := rwLive p \<union> heights_between lo hi,
    rwMaxMissing := max (rwMaxMissing p) hi, rwKnown := (rwKnown p)(ah \<mapsto> hash)\<rparr>"
  have fresh: "window_ok ?fresh" by (simp add: window_ok_def)
  have p: "window_ok p" using c fresh by (auto simp: p_def client_ok_def chain_ok_def split: option.split)
  have k1: "keeps s s1"
    using fresh by (auto simp: s1_def split: option.split intro!: keeps_trans [OF keeps_other(2) window_keeps])
  have k2: "keeps s (set_window None s1)" by (rule keeps_trans [OF k1 window_keeps]) simp
  have eq: "(case chRecoverPending (ssChain s) of Some w \<Rightarrow> (w, s)
      | None \<Rightarrow> let p = ?fresh in (p, set_window (Some p) (s\<lparr>ssAlloc := Suc (ssAlloc s)\<rparr>))) = (p, s1)"
    by (simp add: p_def s1_def Let_def split: option.split)
  have k3: "keeps s (set_window (Some p') s1)" if "lo \<noteq> 0" "\<not> hi < lo"
  proof (rule keeps_trans [OF k1 window_keeps])
    have "h \<le> max (rwMaxMissing p) hi" if "h \<in> rwMissing p" for h
      using p that by (auto simp: window_ok_def le_max_iff_disj)
    then show "pred_option window_ok (Some p')"
      using p between_ok [OF _ that(1)] that(2) assms(2) unfolding p'_def window_ok_def
      by (auto simp: le_max_iff_disj not_less dest: in_mono split: if_splits) (auto simp: ran_def split: if_splits)
  qed
  note k4 = keeps_trans [OF k3 recover_send_keeps]
  show "keeps s s'"
    using assms(1) k1 k2 k3 k4 unfolding maybeRequestRecovery_def eq
    by (auto simp: Let_def p'_def [symmetric] split: if_splits)
qed

lemma abandon_keeps: "keeps s (abandonRecoveryLocked now p s)"
  by (auto simp: abandonRecoveryLocked_def intro: keeps_trans [OF keeps_trans [OF flag_keeps(3) status_keeps] release_keeps])

lemma finish_keeps: "keeps s (finishRecovery env now s)"
proof -
  define s1 where "s1 = upd_chain (\<lambda>c. c\<lparr>chRecoverPending := None, chInRecover := False\<rparr>) s"
  have k: "keeps s s1" unfolding s1_def by (rule flag_keeps)
  show ?thesis unfolding finishRecovery_def Let_def s1_def [symmetric]
    by (auto split: option.split intro!: abandon_keeps keeps_trans [OF k release_keeps]
        keeps_trans [OF keeps_trans [OF k status_keeps] release_keeps] keeps_trans [OF flag_keeps(4) arm_keeps])
qed

lemma timer_keeps: "keeps s (settleRecovery env now g a s)" "keeps s (retryRecovery env now g a s)"
  by (auto simp: settleRecovery_def retryRecovery_def finish_keeps dest!: recover_send_keeps intro: keeps_trans abandon_keeps
      split: prod.split bool.split option.split)

subsection \<open>Checking a line\<close>

lemma warn_keeps: "keeps s (warn_once line s)" "keeps s (warnChainGap a b s)"
  by (auto simp: warn_once_def warnChainGap_def
      intro: keeps_trans [OF flag_keeps(6) feedback_keeps(1)] keeps_trans [OF flag_keeps(5) feedback_keeps(1)])

lemma link_length: "verifyWireLink msg prev = Inr b \<Longrightarrow> length b = 32"
  by (auto simp: verifyWireLink_def dest: ParseHex64_length split: option.splits if_splits)

lemma settle_keeps:
  assumes "\<And>b. res = Inr b \<Longrightarrow> length b = 32"
  shows "keeps s (settle_link env now msg res s)"
proof (rule keepsI)
  assume "client_ok s"
  then have tip: "length (chTip (ssChain s)) = 32" by (simp add: client_ok_def chain_ok_def)
  have jump: "keeps s (case maybeRequestRecovery env now lo hi h (chTip (ssChain s)) s of
          (s', True) \<Rightarrow> s' | (s', False) \<Rightarrow> warnChainGap a b s')" for lo hi h a b
    by (auto split: prod.split bool.split dest: request_keeps [OF _ tip] intro: keeps_trans [OF request_keeps [OF _ tip] warn_keeps(2)])
  note parsed = tip_keeps [OF ParseHex64_length]
  show "keeps s (settle_link env now msg res s)"
  proof (cases res)
    case (Inl err)
    show ?thesis unfolding settle_link_def Inl Let_def sum.case
      by (auto split: option.split intro!: keeps_trans [OF keeps_trans [OF jump parsed] flush_keeps] keeps_trans [OF parsed flush_keeps]
          keeps_trans [OF warn_keeps(1) flush_keeps] keeps_trans [OF keeps_trans [OF warn_keeps(1) parsed] flush_keeps])
  qed (use assms in \<open>simp add: settle_link_def tip_keeps\<close>)
qed

lemma heights_keeps: "length b = 32 \<Longrightarrow> keeps s (upd_chain (\<lambda>c. c\<lparr>chSyncHeights := (chSyncHeights c)(h \<mapsto> b)\<rparr>) s)"
  by (rule keeps_chain) (auto simp: chain_ok_def ran_def)

lemma check_keeps: "keeps s (checkChainLink env now msg s)"
proof -
  define s1 where "s1 = (if chInSync (ssChain s)
     then case ParseHex64 (wChainHash msg) of
         Some h \<Rightarrow> upd_chain (\<lambda>c. c\<lparr>chSyncHeights := (chSyncHeights c)(wChainHeight msg \<mapsto> h)\<rparr>) s | None \<Rightarrow> s
     else s)"
  define s2 where "s2 = (if chLoading (ssChain s1) \<and> chInSync (ssChain s1)
     then upd_chain (\<lambda>c. c\<lparr>chLoadLoaded := chLoadLoaded c + 1\<rparr>) s1 else s1)"
  have 1: "keeps s s1" by (auto simp: s1_def heights_keeps ParseHex64_length split: option.split)
  then have 2: "keeps s s2" unfolding s2_def by (auto intro: keeps_trans [OF 1 flag_keeps(7)])
  have 3: "keeps s2 (settle_link env now msg (verifyWireLink msg p) s2)" for p
    by (rule settle_keeps) (rule link_length)
  have 4: "keeps s2 (settle_link env now msg (Inl e) s2)" for e by (rule settle_keeps) simp
  show ?thesis
    unfolding checkChainLink_def s1_def [symmetric] Let_def s2_def [symmetric]
    using 1 2 keeps_trans [OF 2 3] keeps_trans [OF 2 4] keeps_trans [OF 2 warn_keeps(1)]
    by (auto split: sum.split option.split intro: keeps_trans [OF 2] settle_keeps link_length)
qed

lemma recover_check_keeps: "keeps s (checkRecoverWire env now msg s)"
proof (rule keepsI)
  assume c: "client_ok s"
  define s1 where "s1 = upd_chain (\<lambda>c. c\<lparr>chRecoverRendered := True\<rparr>) s"
  define s2 where "s2 = (if dsCatchupHold (ssDisplay s1) then renderRecoveredInPlace env msg s1 else renderChatBlock env msg s1)"
  have k1: "keeps s s1" unfolding s1_def by (rule flag_keeps)
  have k2: "keeps s s2" unfolding s2_def by (auto intro: keeps_trans [OF k1 recovered_ok] keeps_trans [OF k1 render_ok])
  have live: "keeps s (checkChainLink env now msg (consumeEchoLocked msg False now (upd_chain (\<lambda>c. c\<lparr>chInRecover := False\<rparr>) s)))"
    by (rule keeps_trans [OF keeps_trans [OF flag_keeps(1) consume_keeps] check_keeps])
  show "keeps s (checkRecoverWire env now msg s)"
  proof (cases "chRecoverPending (ssChain s)")
    case (Some p)
    then have w: "window_ok p" using c by (simp add: client_ok_def chain_ok_def)
    then have "window_ok (p\<lparr>rwFailed := True\<rparr>)" by (simp add: window_ok_def)
    then have k3: "keeps s (set_window (Some (p\<lparr>rwFailed := True\<rparr>)) s1)" by (intro keeps_trans [OF k1 window_keeps]) simp
    have "window_ok (p\<lparr>rwMissing := rwMissing p - {h}, rwKnown := (rwKnown p)(h \<mapsto> b), rwLive := rwLive p - {h},
        rwReceived := Suc (rwReceived p)\<rparr>)" if "length b = 32" for b h
      using w that by (auto simp: window_ok_def ran_def)
    then have k4: "keeps s (upd_chain (\<lambda>c. c\<lparr>chRecoverPending := Some (p\<lparr>rwMissing := rwMissing p - {h}, rwKnown := (rwKnown p)(h \<mapsto> b),
        rwLive := rwLive p - {h}, rwReceived := Suc (rwReceived p)\<rparr>), chLiveRecovered := n\<rparr>) s2)" if "length b = 32" for b h n
      using that by (intro keeps_trans [OF k2 keeps_chain]) (simp add: chain_ok_def)
    from this [where n = "chLiveRecovered (ssChain s2)"]
    have k5: "keeps s (upd_chain (\<lambda>c. c\<lparr>chRecoverPending := Some (p\<lparr>rwMissing := rwMissing p - {h}, rwKnown := (rwKnown p)(h \<mapsto> b),
        rwLive := rwLive p - {h}, rwReceived := Suc (rwReceived p)\<rparr>)\<rparr>) s2)" if "length b = 32" for b h
      using that by simp
    show ?thesis
      unfolding checkRecoverWire_def Some option.case Let_def s1_def [symmetric] s2_def [symmetric]
      using k5 by (auto intro: live k1 k3 k4 dest: link_length split: option.split sum.split simp del: Diff_insert0)
  qed (simp add: checkRecoverWire_def live)
qed

lemma replay_keeps: "verifyReplayWire env now msg allow s = (s', r) \<Longrightarrow> keeps s s'"
  by (auto simp: verifyReplayWire_def Let_def split: if_splits
      intro: keeps_trans [OF flag_keeps(2) recover_check_keeps]
        keeps_trans [OF keeps_trans [OF flag_keeps(2) consume_keeps] check_keeps])

subsection \<open>The pump\<close>

lemma older_keeps: "keeps s (set_older b s)"
  by (simp add: set_older_def)

lemma banner_stash_keeps: "keeps s (stash_banner m s)"
  by (auto simp: stash_banner_def pending_ok_def intro: keeps_pending)

lemma day_keeps: "showDateBannerLocked day s = (s', b) \<Longrightarrow> keeps s s'"
  by (auto simp: showDateBannerLocked_def display_ok_def split: if_splits intro: keeps_display)

lemma banner_ok: "keeps s (flushDateBannerLocked env s)"
proof (cases "pnDateBanner (ssPending s)")
  case (Some msg)
  obtain s1 b where d: "showDateBannerLocked (wSysDate msg) (stash_banner None s) = (s1, b)" by fastforce
  have k: "keeps s s1" by (rule keeps_trans [OF banner_stash_keeps day_keeps [OF d]])
  show ?thesis using Some d k
    by (auto simp: flushDateBannerLocked_def stash_banner_def Let_def split: bool.split
        intro!: keeps_trans [OF k render_ok] keeps_trans [OF k] keeps_trans [OF keeps_trans [OF older_keeps render_ok] older_keeps])
qed (simp add: flushDateBannerLocked_def)

lemma track_keeps: "keeps s (trackReplayWindow env tags start s)"
proof (cases start)
  case True
  then show ?thesis by (auto simp: trackReplayWindow_def chain_ok_def intro: keeps_chain)
next
  case False
  define s1 where "s1 = flushDateBannerLocked env s"
  have "keeps s s1" unfolding s1_def by (rule banner_ok)
  moreover have "keeps s1 (trackReplayWindow env tags start s)"
    unfolding trackReplayWindow_def Let_def s1_def [symmetric] if_not_P [OF False]
    by (rule keeps_trans [OF keeps_chain banner_stash_keeps]) (simp add: chain_ok_def)
  ultimately show ?thesis by (rule keeps_trans)
qed

lemma marker_keeps: "keeps s (handleReplayMarker env now msg s)"
  by (auto simp: handleReplayMarker_def Let_def split: prod.split intro: track_keeps keeps_trans [OF track_keeps finish_keeps])

lemma held_keeps: "keeps s (flush_held env now showing h s)"
proof (cases h)
  case (HeldWire msg)
  obtain s1 r where v: "verifyReplayWire env now msg (wType msg = ''chat'') s = (s1, r)" by fastforce
  note k = replay_keeps [OF v]
  show ?thesis using HeldWire v k
    by (auto simp: flush_held_def vote_keeps split: bool.split
        intro: keeps_trans [OF k] keeps_trans [OF keeps_trans [OF k banner_ok] render_ok] keeps_trans [OF k banner_stash_keeps])
qed (simp add: flush_held_def raw_keeps)

lemma hold_keeps: "keeps s (release_held env now s)"
proof -
  define s1 where "s1 = fold (flush_held env now (dsShowJoinLeave (ssDisplay s))) (chLoadHold (ssChain s)) (set_older False s)"
  have "keeps s s1" unfolding s1_def by (rule keeps_trans [OF older_keeps keeps_fold]) (rule held_keeps)
  moreover have "keeps s1 (upd_chain (\<lambda>c. c\<lparr>chInOlder := b, chLoadHold := []\<rparr>) s1)" for b
    by (rule keeps_chain) (simp add: chain_ok_def)
  ultimately show ?thesis unfolding release_held_def Let_def s1_def [symmetric] by (auto intro: keeps_trans)
qed

lemma load_end_keeps: "keeps s (finishLoadLocked env now s)"
proof -
  define s1 where "s1 = upd_chain (\<lambda>c. c\<lparr>chLoading := False, chInSync := False\<rparr>) s"
  define s2 where "s2 = releaseCatchupLocked (setStatusLocked (load_status (chLoadLoaded (ssChain s))) now (release_held env now s1))"
  have "keeps s s1" unfolding s1_def by (rule keeps_chain) (simp add: chain_ok_def)
  then have k: "keeps s s2"
    unfolding s2_def by (rule keeps_trans [OF _ keeps_trans [OF keeps_trans [OF hold_keeps status_keeps] release_keeps]])
  have e: "keeps t (upd_chain (\<lambda>c. c\<lparr>chSyncHeights := Map.empty\<rparr>) t)" for t
    by (rule keeps_chain) (simp add: chain_ok_def)
  show ?thesis unfolding finishLoadLocked_def Let_def s1_def [symmetric] s2_def [symmetric]
    by (auto split: prod.split simp del: emit_frame intro!: keeps_trans [OF k e] keeps_trans [OF keeps_trans [OF k feedback_keeps(1)] e]
        keeps_trans [OF keeps_trans [OF keeps_trans [OF k feedback_keeps(1)] flush_keeps] e])
qed

lemma page_keeps: "keeps s (sendLoadPageLocked env now cursor s)"
proof -
  obtain s1 ok where j: "sendJSON env (HistoryReq (page_request env cursor)) s = (s1, ok)" by fastforce
  have "keeps s s1" by (rule send_keeps [OF j]) simp
  then show ?thesis
    by (auto simp: sendLoadPageLocked_def j load_end_keeps split: bool.split intro: keeps_trans [OF _ load_end_keeps])
qed

lemma load_page_keeps: "keeps s (onLoadPageLocked env now hs s)"
proof -
  have k: "keeps s (upd_chain (\<lambda>c. c\<lparr>chLoadRetried := n\<rparr>) s)" for n
    by (rule keeps_chain) (simp add: chain_ok_def)
  show ?thesis
    by (auto simp: onLoadPageLocked_def Let_def intro!: keeps_trans [OF k page_keeps] keeps_trans [OF k load_end_keeps])
qed

lemma info_keeps: "keeps s (handleHistoryInfo env now info s)"
proof -
  have 1: "keeps s (upd_chain (\<lambda>c. c\<lparr>chLoading := True, chInSync := True, chSyncHeights := Map.empty, chLoadTarget := a,
      chLoadLoaded := 0, chLoadRetried := 0, chLoadHold := [], chLoadMaxSeq := m, chLoadStartSeq := b\<rparr>) s)" for a b m
    by (rule keeps_chain) (simp add: chain_ok_def)
  have 2: "keeps t (upd_display (\<lambda>d. d\<lparr>dsCatchupHold := True, dsHoldGen := dsHoldGen d + 1, dsHoldTimer := True\<rparr>) t)" for t
    by (rule keeps_display) (simp add: display_ok_def)
  show ?thesis unfolding handleHistoryInfo_def Let_def
    by (simp only: keeps_refl keeps_trans [OF keeps_trans [OF keeps_trans [OF 1 2] arm_keeps] page_keeps] split: if_split) blast
qed

lemma sync_keeps: "keeps s (handleHistorySync env now hs s)"
proof -
  define s1 where "s1 = stash_banner None (flushDateBannerLocked env
     (upd_chain (\<lambda>c. c\<lparr>chInOlder := False, chOlderHeightBound := 0, chOlderSeqBound := 0\<rparr>) s))"
  have "keeps s (upd_chain (\<lambda>c. c\<lparr>chInOlder := False, chOlderHeightBound := 0, chOlderSeqBound := 0\<rparr>) s)"
    by (rule keeps_chain) (simp add: chain_ok_def)
  then have k: "keeps s s1" unfolding s1_def by (rule keeps_trans [OF _ keeps_trans [OF banner_ok banner_stash_keeps]])
  have x: "keeps s1 (upd_chain (\<lambda>c. c\<lparr>chOlderExhausted := True\<rparr>) s1)" by (rule keeps_chain) (simp add: chain_ok_def)
  have 2: "keeps s (setStatusLocked l now s1)" "keeps s (setStatusLocked l now (upd_chain (\<lambda>c. c\<lparr>chOlderExhausted := True\<rparr>) s1))" for l
    by (rule keeps_trans [OF k status_keeps], rule keeps_trans [OF keeps_trans [OF k x] status_keeps])
  show ?thesis unfolding handleHistorySync_def Let_def s1_def [symmetric]
    using 2 keeps_trans [OF 2(1) finish_keeps] keeps_trans [OF 2(2) finish_keeps] keeps_trans [OF flag_keeps(1) finish_keeps]
    by (simp add: load_page_keeps)
qed

lemma line_held_keeps: "keeps s (hold_line h s)"
  by (auto simp: hold_line_def chain_ok_def intro: keeps_chain)

lemma wire_keeps: "keeps s (show_wire env now showing msg s)"
proof -
  define s1 where "s1 = (if chInOlder (ssChain s) \<and> \<not> isOlderHistoryWire msg s then set_older False (flushDateBannerLocked env s) else s)"
  obtain s2 r where v: "verifyReplayWire env now msg (wType msg = ''chat'') s1 = (s2, r)" by fastforce
  have "keeps s s1" unfolding s1_def by (auto intro: keeps_trans [OF banner_ok older_keeps])
  then have k: "keeps s s2" using replay_keeps [OF v] by (rule keeps_trans)
  show ?thesis unfolding show_wire_def Let_def s1_def [symmetric] v prod.case
    by (auto intro!: line_held_keeps keeps_trans [OF k older_keeps] keeps_trans [OF keeps_trans [OF k banner_stash_keeps] older_keeps]
        keeps_trans [OF keeps_trans [OF k render_ok] older_keeps]
        keeps_trans [OF keeps_trans [OF k keeps_trans [OF banner_ok render_ok]] older_keeps])
qed

lemma pump_line_keeps: "keeps s (pump_line env dc now showing line s)"
proof -
  define s1 where "s1 = (if \<not> showing \<and> pnDateBanner (ssPending s) \<noteq> None then flushDateBannerLocked env s else s)"
  have "keeps s s1" unfolding s1_def by (simp add: banner_ok)
  note k = keeps_trans [OF this]
  show ?thesis unfolding pump_line_def Let_def s1_def [symmetric] apply_vote_def
    by (auto split: option.split intro: sync_keeps marker_keeps vote_keeps wire_keeps k [OF line_held_keeps] k [OF raw_keeps])
qed

lemma frame_keeps: "keeps s (client_frame_step env dc now raw s)"
proof -
  have l: "keeps s (pump_lines env dc now showing raw s)" for showing
    unfolding pump_lines_def by (rule keeps_fold) (rule pump_line_keeps)
  show ?thesis unfolding client_frame_step_def Let_def apply_vote_def
    by (auto split: option.split intro: sync_keeps marker_keeps vote_keeps wire_keeps info_keeps l)
qed

lemma older_request_keeps: "requestOlder env n s = (s', r) \<Longrightarrow> keeps s s'"
proof -
  assume e: "requestOlder env n s = (s', r)"
  have 1: "keeps t (upd_chain (\<lambda>c. c\<lparr>chInOlder := b, chOlderHeightBound := h, chOlderSeqBound := q\<rparr>) t)" for t b h q
    by (rule keeps_chain) (simp add: chain_ok_def)
  show ?thesis
  proof (cases "wix_oldest (chWireIdx (ssChain s))")
    case (Some before)
    define s1 where "s1 = upd_chain (\<lambda>c. c\<lparr>chInOlder := True, chOlderHeightBound := before, chOlderSeqBound := wix_minSeq (chWireIdx c),
       chOlderInsert := olderAnchor (dsTabChat (ssDisplay s)), chOlderInsertSys := olderAnchor (dsTabSys (ssDisplay s))\<rparr>) s"
    have "keeps s s1" unfolding s1_def by (rule keeps_chain) (simp add: chain_ok_def)
    note k = keeps_trans [OF this send_keeps]
    show ?thesis using e unfolding requestOlder_def Some option.case Let_def s1_def [symmetric]
      by (auto split: prod.splits bool.splits intro: k keeps_trans [OF k 1])
  qed (use e in \<open>simp add: requestOlder_def\<close>)
qed

lemma fire_keeps: "keeps s (fire env now t s)"
  by (simp add: fire_def timer_keeps load_end_keeps split: timer.split)

subsection \<open>The console\<close>

abbreviation keeps_co :: "Console \<Rightarrow> Console \<Rightarrow> bool" where
  "keeps_co c c' \<equiv> keeps (coSession c) (coSession c')"

lemma tell_keeps: "keeps_co c (tell line c)"
  by (simp add: tell_def feedback_keeps)

lemma tell_after: "keeps s (coSession c) \<Longrightarrow> keeps s (coSession (tell line c))"
  by (rule keeps_trans [OF _ tell_keeps])

lemma reply_keeps: "keeps s (set_reply h s)" "keeps s (set_draft h s)"
  by (auto simp: set_reply_def set_draft_def pending_ok_def intro: keeps_pending)

lemma setting_keeps [simp]:
  "keeps s (upd_display (\<lambda>d. d\<lparr>dsShowJoinLeave := b\<rparr>) s)" "keeps s (upd_display (\<lambda>d. d\<lparr>dsNotify := n\<rparr>) s)"
  "keeps s (upd_display (\<lambda>d. d\<lparr>dsShowMeta := b\<rparr>) s)" "keeps s (upd_display (\<lambda>d. d\<lparr>dsStatusMsg := l\<rparr>) s)"
  by (rule keeps_display, simp add: display_ok_def)+

lemma notify_keeps: "keeps_co c (notify_set fs c)"
  by (auto simp: notify_set_def Let_def set_notify_def tell_keeps
      split: list.split option.split prod.split bool.split intro!: tell_after)

lemma clear_keeps: "keeps_co c c' \<Longrightarrow> keeps_co c (c'\<lparr>coSession := upd_display (\<lambda>d. d\<lparr>dsPendingGreeting := [],
    dsTabChat := tab_append e (tab_reset (dsTabChat d))\<rparr>) (releaseCatchupLocked (coSession c'))\<rparr>)"
  by (auto simp: display_ok_def intro!: keeps_trans [OF _ keeps_trans [OF release_keeps keeps_display]])

lemma early_keeps: "f \<in> set (early_cmds co now) \<Longrightarrow> f line c = Some c' \<Longrightarrow> keeps_co c c'"
  by (auto simp: early_cmds_def cmdWhoami_def cmdStatus_def cmdHelp_def cmdShowjoin_def cmdAutoverify_def cmdNotify_def
      cmdTab_def cmdClear_def Let_def tell_keeps notify_keeps switch_keeps split: if_splits intro!: tell_after clear_keeps)

lemma nested_keeps: "keeps s (emit_nested h e s)"
  unfolding emit_nested_def by (rule keeps_trans [OF keeps_other(2) emit_keeps])

lemma unfold_keeps: "unfoldableBlockLocked env h s = (s', r) \<Longrightarrow> keeps s s'"
  by (auto simp: unfoldableBlockLocked_def feedback_keeps split: option.splits)

lemma expand_keeps: "keeps s (expandCollapsedLocked env h s)" "keeps s (expandInPlaceLocked env h s)"
proof -
  obtain s1 r where u: "unfoldableBlockLocked env h s = (s1, r)" by fastforce
  note k = unfold_keeps [OF u]
  show "keeps s (expandCollapsedLocked env h s)"
    by (auto simp: expandCollapsedLocked_def u k split: option.split intro: keeps_trans [OF k nested_keeps])
  show "keeps s (expandInPlaceLocked env h s)"
    by (auto simp: expandInPlaceLocked_def u k display_ok_def split: option.split intro!: keeps_trans [OF k keeps_display])
qed

lemma copy_keeps: "(\<And>l s. keeps s (emit l s)) \<Longrightarrow> keeps_co c (copy_text co emit txt d c)"
  by (simp add: copy_text_def split: option.split)

lemma copy_latest_keeps: "keeps_co c (copyLatestLocked co c)"
  by (auto simp: copyLatestLocked_def Let_def feedback_keeps split: option.split intro: copy_keeps)

lemma vote_send_keeps: "keeps s (fst (sendVote co h suffix d s))"
proof -
  obtain s1 ok where j: "sendJSON (oEnv co) (VoteReq \<lparr>vrType = ''vote'', vrTarget = h, vrDirection = d\<rparr>) s = (s1, ok)" by fastforce
  have k: "keeps s s1" by (rule send_keeps [OF j]) simp
  show ?thesis by (auto simp: sendVote_def j k feedback_keeps split: bool.split option.split intro: keeps_trans [OF k feedback_keeps(1)])
qed

lemma burn_keeps: "cmdBurn co line c = Some c' \<Longrightarrow> keeps_co c c'"
proof -
  assume b: "cmdBurn co line c = Some c'"
  have r: "keeps s t" if "sendJSON env (RevealReq q) (emitLocalFeedback l s) = (t, ok)" for env q l s t ok
    by (rule keeps_trans [OF feedback_keeps(1) send_keeps [OF that]]) simp
  from b show ?thesis
    by (auto simp: cmdBurn_def Let_def tell_keeps split: if_splits prod.splits bool.splits
        intro!: tell_after keeps_trans [OF r feedback_keeps(2)])
qed

lemma older_cmd_keeps: "cmdOlder co line c = Some c' \<Longrightarrow> keeps_co c c'"
  by (auto simp: cmdOlder_def Let_def tell_keeps split: if_splits option.splits prod.splits bool.splits
      dest: older_request_keeps intro!: tell_after)

lemma lookup_cmd_keeps:
  "cmdMeta line c = Some c' \<Longrightarrow> keeps_co c c'" "cmdFind line c = Some c' \<Longrightarrow> keeps_co c c'"
  "cmdExpand co line c = Some c' \<Longrightarrow> keeps_co c c'" "cmdInfo co line c = Some c' \<Longrightarrow> keeps_co c c'"
  by (auto simp: cmdMeta_def cmdFind_def cmdExpand_def cmdInfo_def Let_def tell_keeps expand_keeps
      split: if_splits sum.splits option.splits intro!: tell_after keeps_fold nested_keeps)

lemma other_cmd_keeps:
  "cmdCopy co line c = Some c' \<Longrightarrow> keeps_co c c'" "cmdClearhistory co line c = Some c' \<Longrightarrow> keeps_co c c'"
  "cmdVote co line c = Some c' \<Longrightarrow> keeps_co c c'" "cmdBurnVerify co line c = Some c' \<Longrightarrow> keeps_co c c'"
  by (auto simp: cmdCopy_def cmdClearhistory_def cmdVote_def cmdBurnVerify_def tell_keeps copy_latest_keeps vote_send_keeps
      split: if_splits sum.splits option.splits list.splits intro!: tell_after copy_keeps feedback_keeps)

lemma late_keeps: "f \<in> set (late_cmds co) \<Longrightarrow> f line c = Some c' \<Longrightarrow> keeps_co c c'"
  unfolding late_cmds_def by (auto dest: lookup_cmd_keeps other_cmd_keeps burn_keeps older_cmd_keeps)

lemma first_cmd_keeps:
  "(\<And>f c'. f \<in> set fs \<Longrightarrow> f line c = Some c' \<Longrightarrow> keeps_co c c') \<Longrightarrow> first_cmd fs line c = Some c' \<Longrightarrow> keeps_co c c'"
  by (induction fs) (auto split: option.splits)

lemma late_dispatch_keeps: "late_dispatch co line c = (next, act, c') \<Longrightarrow> keeps_co c c'"
  by (auto simp: late_dispatch_def split: option.splits if_splits
      intro: keeps_trans [OF tell_keeps reply_keeps(1)] keeps_trans [OF first_cmd_keeps [OF late_keeps] reply_keeps(1)])

lemma cmd_reply_keeps: "cmdReply co line c = Some (next, act, c') \<Longrightarrow> keeps_co c c'"
  by (auto simp: cmdReply_def Let_def tell_keeps set_prompt_def reply_keeps split: if_splits sum.splits prod.splits)

lemma dispatch_keeps:
  assumes "dispatch co now line c = (next, act, c')" "act \<noteq> cmdQuit"
  shows "keeps_co c c'"
proof -
  have early: "first_cmd (early_cmds co now) line c = Some d \<Longrightarrow> keeps_co c d" for d
    by (rule first_cmd_keeps [OF early_keeps])
  show ?thesis using assms early
    by (auto simp: dispatch_def split: if_splits option.splits prod.splits cmdAction.splits
        dest: cmd_reply_keeps late_dispatch_keeps intro: keeps_trans [OF cmd_reply_keeps late_dispatch_keeps])
qed

subsection \<open>Sending\<close>

lemma guard_keeps: "checkSendGuards env now line s = (s', ok) \<Longrightarrow> keeps s s'"
  by (auto simp: checkSendGuards_def feedback_keeps split: option.splits send_error.splits)

lemma guard_passes: "checkSendGuards env now line s = (s', True) \<Longrightarrow> s' = s \<and> ValidateMessage (kGC env) line = None"
  by (auto simp: checkSendGuards_def split: option.splits send_error.splits)

lemma placeholder_keeps: "renderPlaceholder env line slot s = (s', x) \<Longrightarrow> keeps s s'"
proof -
  assume a: "renderPlaceholder env line slot s = (s', x)"
  obtain b v where r: "replaceSlot slot (placeholder_entry env line s) (dsTabChat (ssDisplay s)) = (b, v)" by fastforce
  have "tab_ok (dsTabChat (ssDisplay s)) \<Longrightarrow> tab_ok b" using tab_ok_ops(4) r by (metis fst_conv)
  then have "keeps s (upd_display (\<lambda>d. d\<lparr>dsTabChat := b\<rparr>) s)" by (intro keeps_display) (simp add: display_ok_def)
  with a show ?thesis by (auto simp: renderPlaceholder_def Let_def r emit_keeps split: bool.splits)
qed

lemma drop_tmp_length: "length (drop_tmp i ps) \<le> length ps"
  by (induction ps) auto

lemma take_stash_length: "takeStashedEcho es i = (rest, m) \<Longrightarrow> length rest \<le> length es"
  by (induction es arbitrary: rest m) (auto split: if_splits prod.splits)

lemma filed_keeps: "keeps s (file_pending pm s)"
proof -
  obtain rest m where t: "takeStashedEcho (pnEchoes (ssPending s)) (pmTmpID pm) = (rest, m)" by fastforce
  note l = take_stash_length [OF t]
  have d: "length (drop_tmp i (trim_front n q)) \<le> n" for i n q
    using drop_tmp_length [of i "trim_front n q"] by simp
  have 1: "keeps s (s\<lparr>ssPending := (ssPending s)\<lparr>pnPlaceholders := trim_front maxPendingPlaceholders q, pnEchoes := rest\<rparr>\<rparr>)" for q
    by (rule keeps_pending) (use l in \<open>auto simp: pending_ok_def\<close>)
  have 2: "keeps s (s\<lparr>ssPending := (ssPending s)\<lparr>pnPlaceholders := drop_tmp i (trim_front maxPendingPlaceholders q), pnEchoes := rest,
      pnSeenTmpIDs := noteConsumedTmpID (pnSeenTmpIDs (ssPending s)) i\<rparr>\<rparr>)" for q i
    by (rule keeps_pending) (use l d in \<open>auto simp: pending_ok_def noted_length\<close>)
  show ?thesis unfolding file_pending_def Let_def t prod.case
    by (auto split: option.split intro: 1 keeps_trans [OF 2 erase_keeps])
qed

lemma copy_into_back [simp]:
  "length a = length b \<Longrightarrow> copy_into a b = b" "length (copy_into a b) = max (length a) (min (length a) (length b))"
  by (auto simp: copy_into_def)

text \<open>A frame leaves the state well formed; if the write fails the signer is as it was.\<close>

lemma frame_ok:
  assumes "send_frame env line s = (s', ok)"
  shows "client_ok s \<Longrightarrow> client_ok s'"
    and "\<not> ok \<Longrightarrow> length (ssTripPrev s) = 32 \<Longrightarrow> signer s' = signer s \<and> signed_frames (ssSent s') = signed_frames (ssSent s)"
  using assms by (auto simp: send_frame_def Let_def sendJSON_def back_tmp_def client_ok_def pending_ok_def signer_def
      split: option.splits if_splits)

lemma after_frame_keeps:
  "keeps s1 (upd_pending (\<lambda>p. p\<lparr>pnReplyTo := 0\<rparr>)
     (let s2 = upd_pending (\<lambda>p. p\<lparr>pnLastMessageTime := now\<rparr>) s1
      in if ok then file_pending (pending_of line slot shown now s2) s2 else s2))"
proof -
  have 1: "keeps t (upd_pending (\<lambda>p. p\<lparr>pnLastMessageTime := now\<rparr>) t)" "keeps t (upd_pending (\<lambda>p. p\<lparr>pnReplyTo := 0\<rparr>) t)" for t
    by (rule keeps_pending, simp_all add: pending_ok_def)+
  show ?thesis
  proof (cases ok)
    case True
    show ?thesis unfolding Let_def if_P [OF True] by (intro keeps_trans [OF keeps_trans [OF 1(1) filed_keeps] 1(2)])
  next
    case False
    show ?thesis unfolding Let_def if_not_P [OF False] by (rule keeps_trans [OF 1(1) 1(2)])
  qed
qed

lemma sendMessage_split:
  "send_frame env line s = (s1, ok) \<Longrightarrow> \<exists>s'. sendMessage env now line slot shown s = (s', ok) \<and> keeps s1 s'"
  using after_frame_keeps [of s1 now ok line slot shown] by (auto simp: sendMessage_def Let_def)

subsection \<open>The input loop\<close>

lemma record_session [simp]: "coSession (recordHistory co line b c) = coSession c" "coQuit (recordHistory co line b c) = coQuit c"
  by (simp_all add: recordHistory_def)

lemma gate_keeps: "keeps_co c (handleDraftGate line c)"
  by (auto simp: handleDraftGate_def set_prompt_def intro: reply_keeps keeps_trans [OF reply_keeps(1) reply_keeps(2)])

lemma echo_line_keeps: "echoInputLine line s = (s', slot) \<Longrightarrow> keeps s s'"
  by (auto simp: echoInputLine_def appendEntrySlot_def Let_def emit_keeps)

lemma cancel_keeps: "keeps_co c (fst (handleReadErr co True c))"
  by (auto simp: handleReadErr_def set_prompt_def Let_def
      intro!: tell_after keeps_trans [OF reply_keeps(1) reply_keeps(2)] reply_keeps(1))

lemma quit_ok: "client_ok (coSession c) \<Longrightarrow> client_ok (coSession (gracefulQuit co c))"
proof -
  assume c: "client_ok (coSession c)"
  then have f: "client_ok (flushChainTip (oEnv co) (coSession c))" using flush_keeps by (simp add: keeps_def)
  then have "client_ok ((flushChainTip (oEnv co) (coSession c))\<lparr>ssTripPriv := k\<rparr>)" for k
    by (simp add: client_ok_def)
  then show "client_ok (coSession (gracefulQuit co c))"
    using c keeps_trans [OF release_keeps greeting_keeps] by (simp add: gracefulQuit_def Let_def keeps_def)
qed

lemma is_cmd_prefix: "is_cmd cmd line \<Longrightarrow> starts_with line cmd"
  by (auto simp: is_cmd_def starts_with_def) (metis append_eq_conv_conj append_take_drop_id append.assoc)

lemma cmd_reply_pass:
  "cmdReply co line c = Some (next, act, c') \<Longrightarrow> act = cmdDone \<or> act = cmdPass \<and> next \<noteq> [] \<and> starts_with line ''/reply''"
  by (auto simp: cmdReply_def Let_def split: if_splits sum.splits prod.splits dest: is_cmd_prefix)

lemma late_dispatch_pass:
  "late_dispatch co line c = (next, act, c') \<Longrightarrow> next = line \<and> act \<noteq> cmdQuit \<and> (act = cmdPass \<longrightarrow> \<not> starts_with line ''/'')"
  by (auto simp: late_dispatch_def isUnknownSlashCommand_def split: option.splits if_splits)

lemma dispatch_pass:
  assumes "dispatch co now line c = (next, cmdPass, c')" "line \<noteq> []"
  shows "next \<noteq> []" "\<not> starts_with next ''/''" "next = line \<or> starts_with line ''/reply''"
  using assms by (auto simp: dispatch_def split: if_splits option.splits prod.splits cmdAction.splits
      dest: cmd_reply_pass late_dispatch_pass)

lemma dispatch_quit: "dispatch co now line c = (next, cmdQuit, c') \<Longrightarrow> c' = gracefulQuit co c"
  by (auto simp: dispatch_def split: if_splits option.splits prod.splits cmdAction.splits
      dest: cmd_reply_pass late_dispatch_pass)

lemma send_line_cases:
  assumes "send_line co now submitted line slot c = (c', go)"
  obtains (kept) "keeps_co c c'"
  | (sent) slot' shown s where "keeps (coSession c) s" "ValidateMessage (kGC (oEnv co)) line = None"
      "sendMessage (oEnv co) now line slot' shown s = (coSession c', go)"
proof -
  obtain s1 ok where g: "checkSendGuards (oEnv co) now line (coSession c) = (s1, ok)" by fastforce
  show thesis
  proof (cases ok)
    case True
    let ?c1 = "recordHistory co submitted False (c\<lparr>coSession := s1\<rparr>)"
    obtain s2 sl sh where r: "renderPlaceholder (oEnv co) line slot (coSession ?c1) = (s2, sl, sh)" by (metis prod_cases3)
    obtain s3 b where m: "sendMessage (oEnv co) now line sl sh s2 = (s3, b)" by fastforce
    have "keeps (coSession c) s2" using placeholder_keeps [OF r] guard_keeps [OF g] by (auto intro: keeps_trans)
    then show thesis using sent [of s2 sl sh] assms g r m True guard_passes [of "oEnv co" now line "coSession c" s1]
      by (auto simp: send_line_def Let_def)
  next
    case False
    then show thesis using kept assms keeps_trans [OF guard_keeps [OF g] reply_keeps(1)] g by (auto simp: send_line_def)
  qed
qed

text \<open>A line either keeps the session, or quits, or reaches \<open>sendMessage\<close> with a text the filter accepts.\<close>

lemma input_line_cases:
  assumes "input_line co now raw c = (c', go)"
  obtains (kept) "keeps_co c c'"
  | (quit) d where "keeps_co c d" "coSession c' = coSession (gracefulQuit co d)" "coQuit c'"
  | (sent) line slot shown s where "keeps (coSession c) s" "ValidateMessage (kGC (oEnv co)) line = None" "line \<noteq> []"
      "sendMessage (oEnv co) now line slot shown s = (coSession c', go)" "\<not> starts_with line ''/''"
      "line = TrimSpace raw \<or> starts_with (TrimSpace raw) ''/reply''"
proof -
  let ?line = "TrimSpace raw"
  obtain s1 slot where e: "echoInputLine ?line (coSession c) = (s1, slot)" by fastforce
  let ?c1 = "handleDraftGate ?line (c\<lparr>coSession := s1\<rparr>)"
  obtain nxt act c2 where d: "dispatch co now ?line ?c1 = (nxt, act, c2)" by (metis prod_cases3)
  let ?c3 = "recordHistory co ?line (act = cmdDone \<or> act = cmdQuit) c2"
  have k1: "keeps_co c ?c1" using keeps_trans [OF echo_line_keeps [OF e]] gate_keeps [of "c\<lparr>coSession := s1\<rparr>"] by simp
  have k2: "act \<noteq> cmdQuit \<Longrightarrow> keeps_co c ?c3" using keeps_trans [OF k1 dispatch_keeps [OF d]] by simp
  have eq: "?line \<noteq> [] \<Longrightarrow> (c', go) = (if act = cmdQuit then (?c3, False)
      else if act = cmdDone \<or> act = cmdReject then (?c3, True) else send_line co now ?line nxt slot ?c3)"
    using assms by (simp add: input_line_def Let_def e d)
  show thesis
  proof (cases "?line = [] \<or> act = cmdDone \<or> act = cmdReject")
    case True
    moreover have "?line = [] \<Longrightarrow> c' = c" using assms by (simp add: input_line_def)
    ultimately show thesis using kept eq k2 by (cases "?line = []") auto
  next
    case False
    show thesis
    proof (cases "act = cmdQuit")
      case True
      then have "c2 = gracefulQuit co ?c1" using d dispatch_quit by blast
      then show thesis using quit [OF k1] eq False True by (auto simp: gracefulQuit_def)
    next
      case not_quit: False
      with False have act: "act = cmdPass" "?line \<noteq> []" by (cases act; simp)+
      have "send_line co now ?line nxt slot ?c3 = (c', go)" using eq act by simp
      then show thesis
      proof (cases rule: send_line_cases)
        case kept
        then show thesis using that(1) keeps_trans [OF k2 [OF not_quit]] by simp
      next
        case (sent sl sh s)
        then show thesis using that(3) [OF keeps_trans [OF k2 [OF not_quit]]] dispatch_pass [OF d [unfolded act(1)] act(2)] by blast
      qed
    qed
  qed
qed

subsection \<open>Everything a running client does\<close>

lemma sent_ok:
  assumes "sendMessage env now line slot shown s = (s', go)" "client_ok s"
  shows "client_ok s'"
proof -
  obtain s1 ok where f: "send_frame env line s = (s1, ok)" by fastforce
  with sendMessage_split [OF f, of now slot shown] assms frame_ok(1) [OF f] show ?thesis by (auto simp: keeps_def)
qed

lemma act_ok: "client_ok (coSession c) \<Longrightarrow> client_ok (coSession (client_act co dc a c))"
proof (cases a)
  case (Line now raw)
  assume c: "client_ok (coSession c)"
  obtain c' go where i: "input_line co now raw c = (c', go)" by fastforce
  from i have "client_ok (coSession c')"
    by (cases rule: input_line_cases) (use c quit_ok sent_ok in \<open>auto simp: keeps_def\<close>)
  then show ?thesis using Line c i quit_ok by (simp add: leave_on_def)
next
  case EndOfInput
  then show "client_ok (coSession c) \<Longrightarrow> ?thesis" using quit_ok by (simp add: handleReadErr_def)
next
  case (PageUp n)
  obtain s' r where o: "requestOlder (oEnv co) n (coSession c) = (s', r)" by (cases "requestOlder (oEnv co) n (coSession c)")
  then show "client_ok (coSession c) \<Longrightarrow> ?thesis" using PageUp older_request_keeps [OF o] by (simp add: keeps_def)
qed (use frame_keeps fire_keeps cancel_keeps expand_keeps(2) in \<open>auto simp: keeps_def\<close>)

definition fresh_console :: "co_env \<Rightarrow> chainTipRecord option \<Rightarrow> Console" where
  "fresh_console co file =
     \<lparr>coSession = NewSession file, coWSURL = [], coAuthType = [], coRole = [], coUnlimited = False, coPrefix = [], coConnected = 0,
      coBurnArmed = False, coPowTier = 0, coPrompt = ''| > '', coRecall = loadHistory (oHistoryFile co) None, coClipboard = None,
      coQuit = False\<rparr>"

lemma start_ok:
  assumes "ssTipFile s = file" "file = None \<or> loadChainTip file \<noteq> None"
    and "ssChain s = ssChain (NewSession file)" "ssPending s = ssPending (NewSession file)"
  shows "client_ok (initUI env showJoin quiet now s)"
proof -
  obtain cl cb sl sb where t: "tabCaps (kCfg env) = (cl, cb, sl, sb)" by (metis prod_cases4)
  have "length t = 32" if "loadChainTip file = Some (t, h, p)" for t h p
    using that by (auto simp: loadChainTip_def dest: ParseHex64_length split: option.splits)
  moreover have "tab_ok (newTabBuffer a b)" for a b using newTabBuffer_caps by (simp add: tab_ok_def)
  ultimately show ?thesis using assms(1,2)
    by (cases "loadChainTip file") (auto simp: initUI_def t initChainState_def Let_def client_ok_def display_ok_def chain_ok_def pending_ok_def
        assms(3,4) NewSession_def zero32_def new_index_ok split: prod.split)
qed

text \<open>
  C15. The state of a client is well formed at every moment. It starts with a tip file that is absent or readable; then
  whatever the server sends (any bytes at all, decoded by any decoder), whatever is typed, whichever timers fire and
  whichever writes fail, every hash it tracks has 32 bytes, the heights of a refill are positive and at most the window's
  maximum with the live ones among them, the wire index and the render cache are within their capacities with keys and
  entries in agreement, both buffers hold at most their number of lines, at most 128 placeholders, 16 stashed echoes and
  64 consumed ids are kept, the active tab exists, and the tip file can be read back.
\<close>

theorem client_state_is_well_formed:
  assumes "file = None \<or> loadChainTip file \<noteq> None"
  shows "client_ok (coSession (fold (client_act co dc) acts
    ((fresh_console co file)\<lparr>coSession := initUI (oEnv co) showJoin quiet now
       ((NewSession file)\<lparr>ssConn := True, ssUsername := name, ssServerPubKey := spub, ssTripPriv := priv, ssTripPub := pub,
          ssTripBadge := badge, ssTripSeq := sq, ssTripPrev := prev\<rparr>)\<rparr>)))"
proof -
  have "client_ok (coSession c) \<Longrightarrow> client_ok (coSession (fold (client_act co dc) acts c))" for c
    by (induction acts arbitrary: c) (simp_all add: act_ok)
  moreover have "client_ok (initUI (oEnv co) showJoin quiet now
     ((NewSession file)\<lparr>ssConn := True, ssUsername := name, ssServerPubKey := spub, ssTripPriv := priv, ssTripPub := pub,
          ssTripBadge := badge, ssTripSeq := sq, ssTripPrev := prev\<rparr>))"
    by (rule start_ok [OF _ assms]) (simp_all add: NewSession_def)
  ultimately show ?thesis by simp
qed

definition ex_co_env :: co_env where
  "ex_co_env = \<lparr>oEnv = ex_cl_env, oEd = (\<lambda>pub m sig. sig = replicate 64 NUL), oClip = (\<lambda>s. None), oErr = ''closed'', oQuote = (\<lambda>s. s),
     oVersion = ''dev'', oHistoryFile = [], oWritable = True\<rparr>"

definition ex_decoders :: decoders where
  "ex_decoders = \<lparr>kWire = (\<lambda>s. None), kSync = (\<lambda>s. None), kInfo = (\<lambda>s. None), kOffer = (\<lambda>s. None)\<rparr>"

theorem client_state_is_well_formed_witness:
  "client_ok (coSession (fold (client_act ex_co_env ex_decoders) [Arrive 5 ''junk'', Line 6 ''/help'', Line 20000000000 ''hi'', CtrlC, EndOfInput]
    ((fresh_console ex_co_env None)\<lparr>coSession := initUI ex_cl_env True [''all''] 0
       ((NewSession None)\<lparr>ssConn := True, ssUsername := ''bob'', ssServerPubKey := [], ssTripPriv := None, ssTripPub := [],
          ssTripBadge := [], ssTripSeq := 0, ssTripPrev := zero32\<rparr>)\<rparr>)))"
  using client_state_is_well_formed [of None ex_co_env ex_decoders
      "[Arrive 5 ''junk'', Line 6 ''/help'', Line 20000000000 ''hi'', CtrlC, EndOfInput]" True "[''all'']" 0 zero32 0 "[]" "[]" None "[]" "''bob''"]
  by (simp add: ex_co_env_def del: fold.simps fold_Cons)

end
