(* ===== verification/Client_Signing.thy ===== *)
theory Client_Signing
  imports Client_Invariant Session_Laws
begin

text \<open>
  The signing client (\<open>sendMessage\<close> of \<^verbatim>\<open>src/client/send.go\<close>) beside the checking server (the signed branch of
  \<open>ReadPump\<close>): the joint system of one client with everything it can do, the signed frames on their way, and the
  server's chains. As long as frames reach the check, every one is accepted; a frame dropped before the check, or a
  chain pruned while the client stays connected, ends that for the rest of the connection.
\<close>

subsection \<open>Links\<close>

text \<open>Who signs: private and public key, the display name in the payload, and the server key it is bound to.\<close>

record signing =
  sgPriv :: bytes
  sgPub :: bytes
  sgName :: string
  sgServer :: string

abbreviation sg_key :: "signing \<Rightarrow> string" where
  "sg_key k \<equiv> hex_encode (sgPub k)"

definition envelope_of :: "TripMessage \<Rightarrow> chat_envelope" where
  "envelope_of m = \<lparr>ceText = tgText m, ceMsg = [], cePub = tgPub m, ceSeq = tgSeq m, cePrev = tgPrev m, ceSig = tgSig m,
     ceTmpID = tgTmpID m, ceReplyTo = tgReplyTo m\<rparr>"

text \<open>The number and the hash the next message must carry, on the client.\<close>

definition client_link :: "Session \<Rightarrow> u32 \<times> bytes" where
  "client_link s = (ssTripSeq s + 1, ssTripPrev s)"

definition signed_at :: "ed_verify \<Rightarrow> (nat \<Rightarrow> gcat) \<Rightarrow> signing \<Rightarrow> u32 \<times> bytes \<Rightarrow> TripMessage \<Rightarrow> bytes \<Rightarrow> bool" where
  "signed_at ed gc k l m sig \<longleftrightarrow>
     tgText m \<noteq> [] \<and> ValidateMessage gc (tgText m) = None \<and> tgPub m = sg_key k \<and> tgSeq m = fst l \<and>
     tgPrev m = hex_encode (snd l) \<and> length (snd l) = 32 \<and> tgSig m = hex_encode sig \<and> length sig = 64 \<and> tgTmpID m \<noteq> 0 \<and>
     ed (sgPub k) (CanonicalPayload (to_lower (sgServer k)) (fst l) (snd l) (sha256 (tgText m)) (sgPub k) (sgName k)
                     (tgTmpID m) (tgReplyTo m)) sig"

definition next_link :: "u32 \<times> bytes \<Rightarrow> TripMessage \<Rightarrow> bytes \<Rightarrow> u32 \<times> bytes" where
  "next_link l m sig = (fst l + 1, trip_link (snd l) (sig, sha256 (tgText m)))"

inductive chained :: "ed_verify \<Rightarrow> (nat \<Rightarrow> gcat) \<Rightarrow> signing \<Rightarrow> u32 \<times> bytes \<Rightarrow> TripMessage list \<Rightarrow> u32 \<times> bytes \<Rightarrow> bool"
  for ed gc k where
  none: "chained ed gc k l [] l"
| cons: "signed_at ed gc k l m sig \<Longrightarrow> chained ed gc k (next_link l m sig) ms l' \<Longrightarrow> chained ed gc k l (m # ms) l'"

inductive_cases chained_nil: "chained ed gc k l [] l'"
inductive_cases chained_cons: "chained ed gc k l (m # ms) l'"

lemma chained_snoc:
  "chained ed gc k l ms l1 \<Longrightarrow> signed_at ed gc k l1 m sig \<Longrightarrow> chained ed gc k l (ms @ [m]) (next_link l1 m sig)"
  by (induction rule: chained.induct) (auto intro: chained.intros)

subsection \<open>The server accepts what is signed at its link\<close>

definition sg_fits :: "signing \<Rightarrow> trip_session \<Rightarrow> bool" where
  "sg_fits k t \<longleftrightarrow> tsDisplayName t = sgName k \<and> (tsTripPub t = [] \<or> tsTripPub t = sg_key k)"

lemma server_accepts:
  assumes m: "signed_at ed gc k (expected_link (map_of tcs (sg_key k))) m sig"
    and k: "length (sgPub k) = 32" "sgServer k = hex_encode srv" "length srv = 32" and t: "sg_fits k t"
  obtains meta t' tcs' where "accept_signed ed gc (sgServer k) now t (envelope_of m) tcs = Inr (meta, t', tcs')"
    "expected_link (map_of tcs' (sg_key k)) = next_link (expected_link (map_of tcs (sg_key k))) m sig" "sg_fits k t'"
proof -
  obtain q p where l: "expected_link (map_of tcs (sg_key k)) = (q, p)" by fastforce
  let ?m = "envelope_of m"
  have v: "trip_Verify ed (envelope_params (tsDisplayName t) (sgServer k) ?m) =
      Inr \<lparr>vtPubHex = sg_key k, vtSeq = tgSeq m, vtPrevHex = hex_encode p, vtSigHex = hex_encode sig,
           vtMsgHash = hex_encode (sha256 (tgText m)), vtServerPub = sgServer k,
           vtBadge = badge_mark @ take 8 (hex_encode (sha256 (sgPub k))), vtNewPrev = trip_link p (sig, sha256 (tgText m))\<rparr>"
    using m k t by (simp add: trip_Verify_def envelope_params_def envelope_of_def envelope_text_def Let_def l signed_at_def
        sg_fits_def signed_payload_def)
  define t' where "t' = (if tsTripBadge t = [] then t\<lparr>tsTripBadge := badge_mark @ take 8 (hex_encode (sha256 (sgPub k))), tsTripPub := sg_key k\<rparr> else t)"
  define tcs' where "tcs' = AList.update (sg_key k) \<lparr>tcSeq = tgSeq m, tcPrevHash = trip_link p (sig, sha256 (tgText m)), tcLastSeen = now\<rparr> tcs"
  have "\<exists>meta. accept_signed ed gc (sgServer k) now t ?m tcs = Inr (meta, t', tcs')"
    using m k(1) t v by (auto simp: accept_signed_def envelope_of_def envelope_text_def Let_def l signed_at_def sg_fits_def t'_def tcs'_def)
  moreover have "expected_link (map_of tcs' (sg_key k)) = next_link (q, p) m sig"
    using m l by (simp add: tcs'_def update_conv next_link_def signed_at_def) (simp add: expected_link_def trip_link_def)
  moreover have "sg_fits k t'" using t by (simp add: t'_def sg_fits_def)
  ultimately show thesis using that l by auto
qed

text \<open>A message with another number is refused, whatever else it carries.\<close>

lemma server_refuses:
  assumes m: "signed_at ed gc k l m sig" and k: "length (sgPub k) = 32" and t: "sg_fits k t"
    and ne: "fst l \<noteq> fst (expected_link (map_of tcs (sg_key k)))"
  shows "accept_signed ed gc spub now t (envelope_of m) tcs = Inl (WrongSeq (fst l) (fst (expected_link (map_of tcs (sg_key k)))))"
  using assms by (auto simp: accept_signed_def envelope_of_def envelope_text_def Let_def signed_at_def sg_fits_def split: prod.split)

subsection \<open>The client signs at its link\<close>

definition good_key :: "ed_verify \<Rightarrow> (bytes \<Rightarrow> bytes \<Rightarrow> bytes) \<Rightarrow> signing \<Rightarrow> bool" where
  "good_key ed sign k \<longleftrightarrow> (\<forall>m. ed (sgPub k) m (sign (sgPriv k) m) \<and> length (sign (sgPriv k) m) = 64)"

definition named :: "signing \<Rightarrow> Session \<Rightarrow> bool" where
  "named k s \<longleftrightarrow> ssTripPub s = sgPub k \<and> ssUsername s = sgName k \<and> ssServerPubKey s = sgServer k \<and> length (ssTripPrev s) = 32"

lemma frame_signs:
  assumes f: "send_frame env line s = (s', True)" and k: "good_key ed (kSign env) k" "named k s" "ssTripPriv s = Some (sgPriv k)"
    and line: "line \<noteq> []" "ValidateMessage (kGC env) line = None" and tmp: "pnTmpSeq (ssPending s) \<noteq> - 1"
  obtains m sig where "signed_at ed (kGC env) k (client_link s) m sig" "client_link s' = next_link (client_link s) m sig"
    "signed_frames (ssSent s') = signed_frames (ssSent s) @ [m]" "named k s'" "ssTripPriv s' = Some (sgPriv k)"
proof -
  define s1 where "s1 = (upd_pending (\<lambda>p. p\<lparr>pnTmpSeq := pnTmpSeq p + 1\<rparr>) s)\<lparr>ssTripSeq := ssTripSeq s + 1\<rparr>"
  define sig where "sig = kSign env (sgPriv k) (sign_payload s1 line)"
  define m where "m = signed_message s1 line sig"
  have t: "pnTmpSeq (ssPending s) + 1 \<noteq> 0" using tmp by (metis add.inverse_inverse add.inverse_unique add.commute)
  have "signed_at ed (kGC env) k (client_link s) m sig"
    using k line t by (simp add: signed_at_def m_def sig_def signed_message_def s1_def client_link_def sign_payload_def good_key_def named_def)
  moreover have "client_link s' = next_link (client_link s) m sig" "signed_frames (ssSent s') = signed_frames (ssSent s) @ [m]"
    "named k s'" "ssTripPriv s' = Some (sgPriv k)"
    using f k by (auto simp: send_frame_def Let_def sendJSON_def client_link_def next_link_def trip_link_def named_def m_def sig_def
        s1_def signed_message_def sign_payload_def split: if_splits)
  ultimately show thesis using that by blast
qed

text \<open>Of everything a client does, only a message that is really written moves its link, by one signed frame.\<close>

definition owner :: "signing \<Rightarrow> Console \<Rightarrow> bool" where
  "owner k c \<longleftrightarrow> client_ok (coSession c) \<and> named k (coSession c) \<and> (\<not> coQuit c \<longrightarrow> ssTripPriv (coSession c) = Some (sgPriv k))"

definition same_link :: "Session \<Rightarrow> Session \<Rightarrow> bool" where
  "same_link s s' \<longleftrightarrow> client_link s' = client_link s \<and> signed_frames (ssSent s') = signed_frames (ssSent s)"

lemma keeps_owner:
  assumes "keeps_co c c'" "owner k c" "coQuit c \<longrightarrow> coQuit c'"
  shows "owner k c' \<and> same_link (coSession c) (coSession c')"
  using assms by (auto simp: keeps_def owner_def signer_def named_def same_link_def client_link_def)

lemma quit_owner:
  assumes "owner k c" shows "owner k (gracefulQuit co c) \<and> same_link (coSession c) (coSession (gracefulQuit co c))"
proof (cases "coQuit c")
  case False
  define s1 where "s1 = flushChainTip (oEnv co) (coSession c)"
  define s2 where "s2 = s1\<lparr>ssTripPriv := map_option (map (\<lambda>_. NUL)) (ssTripPriv s1)\<rparr>"
  have ok: "client_ok (coSession c)" using assms by (simp add: owner_def)
  then have 1: "client_ok s1 \<and> signer s1 = signer (coSession c) \<and> signed_frames (ssSent s1) = signed_frames (ssSent (coSession c))"
    using flush_keeps by (simp add: s1_def keeps_def)
  then have "client_ok s2" by (simp add: s2_def client_ok_def)
  then have 2: "signer (flushPendingGreetingLocked (releaseCatchupLocked s2)) = signer s2 \<and>
      signed_frames (ssSent (flushPendingGreetingLocked (releaseCatchupLocked s2))) = signed_frames (ssSent s2)"
    using keeps_trans [OF release_keeps greeting_keeps] by (simp add: keeps_def)
  have s: "coSession (gracefulQuit co c) = flushPendingGreetingLocked (releaseCatchupLocked s2)" "coQuit (gracefulQuit co c)"
    using False by (simp_all add: gracefulQuit_def Let_def s1_def s2_def)
  have "signer s2 = (ssUsername s1, ssServerPubKey s1, ssTripPriv s2, ssTripPub s1, ssTripSeq s1, ssTripPrev s1, pnTmpSeq (ssPending s1))"
    "ssSent s2 = ssSent s1" by (simp_all add: s2_def signer_def)
  then show ?thesis using 1 2 s assms quit_ok [OF ok, of co]
    by (auto simp: owner_def named_def same_link_def client_link_def signer_def)
qed (use assms in \<open>simp add: gracefulQuit_def same_link_def\<close>)

lemma sent_signs:
  assumes m: "sendMessage env now line slot shown s = (s', go)" and ok: "client_ok s"
    and k: "good_key ed (kSign env) k" "named k s" "ssTripPriv s = Some (sgPriv k)"
    and line: "line \<noteq> []" "ValidateMessage (kGC env) line = None" and tmp: "pnTmpSeq (ssPending s) \<noteq> - 1"
  shows "client_ok s' \<and> named k s' \<and> ssTripPriv s' = Some (sgPriv k) \<and>
    (same_link s s' \<or> (\<exists>m sig. signed_at ed (kGC env) k (client_link s) m sig \<and> client_link s' = next_link (client_link s) m sig \<and>
       signed_frames (ssSent s') = signed_frames (ssSent s) @ [m]))"
proof -
  obtain s1 b where f: "send_frame env line s = (s1, b)" by fastforce
  from sendMessage_split [OF f, of now slot shown] m have b: "b = go" "keeps s1 s'" by auto
  have "client_ok s1" using frame_ok(1) [OF f ok] .
  with b have s': "client_ok s'" "signer s' = signer s1" "signed_frames (ssSent s') = signed_frames (ssSent s1)"
    by (simp_all add: keeps_def)
  then have eq: "named k s' = named k s1" "ssTripPriv s' = ssTripPriv s1" "client_link s' = client_link s1"
    by (auto simp: signer_def named_def client_link_def)
  show ?thesis
  proof (cases b)
    case True
    then show ?thesis using f k line tmp s' eq by (auto elim!: frame_signs)
  next
    case False
    then have "signer s1 = signer s \<and> signed_frames (ssSent s1) = signed_frames (ssSent s)"
      using frame_ok(2) [OF f False] k(2) by (simp add: named_def)
    then show ?thesis using s' eq k by (auto simp: signer_def named_def same_link_def client_link_def)
  qed
qed

lemma line_signs:
  assumes i: "input_line co now raw c = (c', go)" and c: "owner k c" "\<not> coQuit c" and k: "good_key ed (kSign (oEnv co)) k"
    and tmp: "pnTmpSeq (ssPending (coSession c)) \<noteq> - 1"
  shows "owner k c' \<and> (same_link (coSession c) (coSession c') \<or>
    (\<exists>m sig. signed_at ed (kGC (oEnv co)) k (client_link (coSession c)) m sig \<and>
       client_link (coSession c') = next_link (client_link (coSession c)) m sig \<and>
       signed_frames (ssSent (coSession c')) = signed_frames (ssSent (coSession c)) @ [m]))"
  using i
proof (cases rule: input_line_cases)
  case kept
  then show ?thesis using keeps_owner c by blast
next
  case (quit d)
  have d: "owner k d \<and> same_link (coSession c) (coSession d)" using keeps_owner [OF quit(1) c(1)] c(2) by simp
  then show ?thesis using quit_owner [of k d co] quit(2,3) by (auto simp: owner_def same_link_def gracefulQuit_def)
next
  case (sent line slot shown s)
  have s: "client_ok s" "named k s" "ssTripPriv s = Some (sgPriv k)" "pnTmpSeq (ssPending s) \<noteq> - 1" "same_link (coSession c) s"
    using sent(1) c tmp by (auto simp: keeps_def owner_def signer_def named_def same_link_def client_link_def)
  show ?thesis using sent_signs [OF sent(4) s(1) k s(2,3) sent(3,2) s(4)] s(5) by (auto simp: owner_def same_link_def)
qed

subsection \<open>Client, frames on their way, server\<close>

record link_state =
  lkClient :: Console
  lkQueue :: "TripMessage list"
  lkPump :: pump
  lkServer :: ChatServer

definition written :: "Console \<Rightarrow> Console \<Rightarrow> TripMessage list" where
  "written c c' = drop (length (signed_frames (ssSent (coSession c)))) (signed_frames (ssSent (coSession c')))"

abbreviation lk_view :: "link_state \<Rightarrow> trip_session" where
  "lk_view j \<equiv> trip_view (puSession (lkPump j))"

abbreviation lk_expected :: "signing \<Rightarrow> link_state \<Rightarrow> u32 \<times> bytes" where
  "lk_expected k j \<equiv> expected_link (map_of (cvTripChains (lkServer j)) (sg_key k))"

text \<open>The bytes of a signed frame, as the server's decoders read them.\<close>

definition carries :: "sv_env \<Rightarrow> string \<Rightarrow> TripMessage \<Rightarrow> bool" where
  "carries ev raw m \<longleftrightarrow> TrimSpace raw \<noteq> [] \<and> \<not> control_frame ev raw \<and> xChat ev raw = Some (envelope_of m)"

text \<open>What \<open>ReadPump\<close> asks of a frame before it looks at the signature: the connection is not muted and the quoted height exists.\<close>

definition reaches_check :: "pump \<Rightarrow> ChatServer \<Rightarrow> TripMessage \<Rightarrow> bool" where
  "reaches_check p s m \<longleftrightarrow> \<not> muted (seConn (puSession p)) s \<and>
     (tgReplyTo m \<noteq> 0 \<and> csReady (hbChain (cvHub s)) \<longrightarrow> tgReplyTo m \<le> csHeight (hbChain (cvHub s)))"

text \<open>
  One step: the client does anything (its counter of messages has not wrapped), the server's read loop takes the first frame, one that
  reaches the check, or anything else happens on the server (frames of other kinds and of other connections, timers,
  sweeps) that leaves this key's chain and this session's name and key alone.
\<close>

inductive joint_step :: "co_env \<Rightarrow> decoders \<Rightarrow> ed_verify \<Rightarrow> signing \<Rightarrow> link_state \<Rightarrow> link_state \<Rightarrow> bool" for co dc ed k where
  client: "pnTmpSeq (ssPending (coSession (lkClient j))) \<noteq> - 1 \<Longrightarrow> c = client_act co dc a (lkClient j) \<Longrightarrow>
     joint_step co dc ed k j (j\<lparr>lkClient := c, lkQueue := lkQueue j @ written (lkClient j) c\<rparr>)"
| server: "lkQueue j = m # q \<Longrightarrow> xEd ev = ed \<Longrightarrow> xGC ev = kGC (oEnv co) \<Longrightarrow> carries ev raw m \<Longrightarrow> reaches_check (lkPump j) (lkServer j) m \<Longrightarrow>
     pump_frame ev raw (lkPump j, lkServer j) = (p, sv) \<Longrightarrow> joint_step co dc ed k j (j\<lparr>lkQueue := q, lkPump := p, lkServer := sv\<rparr>)"
| others: "map_of (cvTripChains sv) (sg_key k) = map_of (cvTripChains (lkServer j)) (sg_key k) \<Longrightarrow>
     chat_serverPub sv = chat_serverPub (lkServer j) \<Longrightarrow> trip_view (puSession p) = lk_view j \<Longrightarrow>
     joint_step co dc ed k j (j\<lparr>lkPump := p, lkServer := sv\<rparr>)"

definition lockstep :: "co_env \<Rightarrow> ed_verify \<Rightarrow> signing \<Rightarrow> link_state \<Rightarrow> bool" where
  "lockstep co ed k j \<longleftrightarrow> owner k (lkClient j) \<and> sg_fits k (lk_view j) \<and> chat_serverPub (lkServer j) = sgServer k \<and>
     chained ed (kGC (oEnv co)) k (lk_expected k j) (lkQueue j) (client_link (coSession (lkClient j)))"

text \<open>Publishing, and with it the rest of the read loop, leaves the signed chains alone.\<close>

lemma send_chat_keeps:
  assumes "send_chat ev m meta (p, s) = (p', s')"
  shows "cvTripChains s' = cvTripChains s" "cvServerID s' = cvServerID s" "puSession p' = puSession p"
proof -
  have flag: "cvTripChains s2 = cvTripChains s1 \<and> cvServerID s2 = cvServerID s1" if "flag_exposed ev i x s1 = (y, s2)" for i x y s1 s2
    using that by (auto simp: flag_exposed_def Let_def split: option.splits prod.splits dest!: isTripExposed_eq)
      (metis ChatServer.simps ChatServer.surjective ChatServer.update_convs)+
  have pub: "cvTripChains (publish_chat ev ses ip m x s1) = cvTripChains s1 \<and> cvServerID (publish_chat ev ses ip m x s1) = cvServerID s1"
    for ses ip x s1
    using flag by (auto simp: publish_chat_def Let_def split: prod.split)
  have slow: "cvTripChains s1 = cvTripChains s \<and> cvServerID s1 = cvServerID s" if "allowSlowSend ev i ses ip b s = (ok, s1)" for i ses ip b ok s1
    using allowSlowSend_eq [OF that] by (metis ChatServer.simps ChatServer.surjective ChatServer.update_convs)
  show "cvTripChains s' = cvTripChains s" "cvServerID s' = cvServerID s" "puSession p' = puSession p"
    using assms pub slow by (auto simp: send_chat_def Let_def split: option.splits prod.splits if_splits)
qed

text \<open>A signed frame that reaches the check at the expected link is accepted, and moves the key's chain to itself.\<close>

lemma pump_accepts:
  assumes m: "signed_at (xEd ev) (xGC ev) k (expected_link (map_of (cvTripChains s) (sg_key k))) m sig"
    and k: "length (sgPub k) = 32" "sgServer k = hex_encode srv" "length srv = 32" and t: "sg_fits k (trip_view (puSession p))"
    and s: "chat_serverPub s = sgServer k" "carries ev raw m" "reaches_check p s m"
    and f: "pump_frame ev raw (p, s) = (p', s')"
  shows "\<exists>meta ses1 s1. check_signature ev (puSession p) (puIP p) (envelope_of m) s = Inr (Some meta, ses1, s1)"
    and "expected_link (map_of (cvTripChains s') (sg_key k)) = next_link (expected_link (map_of (cvTripChains s) (sg_key k))) m sig"
    and "sg_fits k (trip_view (puSession p'))" "chat_serverPub s' = sgServer k"
proof -
  have frame: "pump_frame ev raw (p, s) = chat_frame ev raw (p, s)" "xChat ev raw = Some (envelope_of m)"
    using s(2) plain_frame by (simp_all add: carries_def)
  have sig: "ceSig (envelope_of m) \<noteq> []" "ceTmpID (envelope_of m) \<noteq> 0"
    using m by (auto simp: signed_at_def envelope_of_def dest: arg_cong [where f = length])
  have env: "check_envelope ev (puSession p) (puIP p) (Some (envelope_of m)) s = Inr (envelope_of m)"
    using sig s(3) by (auto simp: check_envelope_def is_envelope_def reaches_check_def envelope_of_def)
  obtain meta t' tcs' where a: "accept_signed (xEd ev) (xGC ev) (sgServer k) (xClk ev 2) (trip_view (puSession p)) (envelope_of m) (cvTripChains s) =
      Inr (meta, t', tcs')" "expected_link (map_of tcs' (sg_key k)) = next_link (expected_link (map_of (cvTripChains s) (sg_key k))) m sig" "sg_fits k t'"
    using server_accepts [OF m k t] by blast
  let ?ses = "adopt_trip t' (puSession p)"
  let ?s1 = "s\<lparr>cvTripChains := tcs', cvHub := set_session (adopt_trip t') (seConn (puSession p)) (cvHub s)\<rparr>"
  have c: "check_signature ev (puSession p) (puIP p) (envelope_of m) s = Inr (Some meta, ?ses, ?s1)"
    using sig(1) a(1) s(1) by (simp add: check_signature_def)
  then show "\<exists>meta ses1 s1. check_signature ev (puSession p) (puIP p) (envelope_of m) s = Inr (Some meta, ses1, s1)" by blast
  have "send_chat ev (envelope_of m) (Some meta) (p\<lparr>puSession := ?ses\<rparr>, ?s1) = (p', s')"
    using f s(3) by (simp add: frame chat_frame_def env c reaches_check_def Let_def)
  note keep = send_chat_keeps [OF this]
  show "expected_link (map_of (cvTripChains s') (sg_key k)) = next_link (expected_link (map_of (cvTripChains s) (sg_key k))) m sig"
    using keep(1) a(2) by simp
  show "sg_fits k (trip_view (puSession p'))" using keep(3) a(3) t by (auto simp: sg_fits_def trip_view_def adopt_trip_def)
  show "chat_serverPub s' = sgServer k" using keep(2) s(1) by (simp add: chat_serverPub_def)
qed

lemma act_signs:
  assumes c: "owner k c" and k: "good_key ed (kSign (oEnv co)) k" and tmp: "pnTmpSeq (ssPending (coSession c)) \<noteq> - 1"
  shows "owner k (client_act co dc a c) \<and> (same_link (coSession c) (coSession (client_act co dc a c)) \<or>
    (\<exists>m sig. signed_at ed (kGC (oEnv co)) k (client_link (coSession c)) m sig \<and>
       client_link (coSession (client_act co dc a c)) = next_link (client_link (coSession c)) m sig \<and>
       signed_frames (ssSent (coSession (client_act co dc a c))) = signed_frames (ssSent (coSession c)) @ [m]))"
proof (cases a)
  case (Line now raw)
  obtain c' go where i: "input_line co now raw c = (c', go)" by fastforce
  show ?thesis
  proof (cases "coQuit c")
    case False
    then have act: "client_act co dc a c = (if go then c' else gracefulQuit co c')" using Line i by (simp add: leave_on_def)
    have l: "owner k c'" using line_signs [OF i c False k tmp] by blast
    show ?thesis using line_signs [OF i c False k tmp] quit_owner [OF l, of co] by (auto simp: act same_link_def)
  qed (use c Line in \<open>simp add: same_link_def\<close>)
next
  case CtrlC
  then show ?thesis using c keeps_owner [OF cancel_keeps c, of co] by (cases "coQuit c") (auto simp: same_link_def handleReadErr_def Let_def tell_def set_prompt_def)
next
  case EndOfInput
  then show ?thesis using quit_owner [OF c, of co] c by (auto simp: same_link_def handleReadErr_def)
next
  case (PageUp n)
  obtain s' r where o: "requestOlder (oEnv co) n (coSession c) = (s', r)" by (cases "requestOlder (oEnv co) n (coSession c)")
  then show ?thesis using PageUp older_request_keeps [OF o] keeps_owner [of c "c\<lparr>coSession := s'\<rparr>"] c by simp
next
  case (Arrive now raw)
  then show ?thesis using keeps_owner [OF _ c, of "client_act co dc a c"] frame_keeps by simp
next
  case (Timer now t)
  then show ?thesis using keeps_owner [OF _ c, of "client_act co dc a c"] fire_keeps by simp
next
  case (Click h)
  then show ?thesis using keeps_owner [OF _ c, of "client_act co dc a c"] expand_keeps(2) by simp
qed

lemma step_lockstep:
  assumes "joint_step co dc ed k j j'" "lockstep co ed k j" "good_key ed (kSign (oEnv co)) k"
    and "length (sgPub k) = 32" "sgServer k = hex_encode srv" "length srv = 32"
  shows "lockstep co ed k j'"
  using assms(1)
proof cases
  case (client c a)
  then show ?thesis using act_signs [of k "lkClient j" ed co dc a] assms(2,3)
    by (auto simp: lockstep_def written_def same_link_def intro: chained_snoc)
next
  case (server m q ev raw p sv)
  from assms(2) server(2) obtain sig where sig: "signed_at ed (kGC (oEnv co)) k (lk_expected k j) m sig"
      "chained ed (kGC (oEnv co)) k (next_link (lk_expected k j) m sig) q (client_link (coSession (lkClient j)))"
    by (auto simp: lockstep_def elim: chained_cons)
  have j: "sg_fits k (lk_view j)" "chat_serverPub (lkServer j) = sgServer k" using assms(2) by (simp_all add: lockstep_def)
  note a = pump_accepts [OF sig(1) [folded server(3,4)] assms(4-6) j server(5-7)]
  show ?thesis using server(1) sig(2) assms(2) a(2-4) by (simp add: lockstep_def)
next
  case (others sv p)
  then show ?thesis using assms(2) by (simp add: lockstep_def)
qed


definition ex_signing :: signing where
  "ex_signing = \<lparr>sgPriv = replicate 64 NUL, sgPub = replicate 32 NUL, sgName = ''bob'', sgServer = hex_encode (replicate 32 NUL)\<rparr>"

definition ex_signer :: Console where
  "ex_signer = (fresh_console ex_co_env None)\<lparr>coSession := initUI ex_cl_env True [] 0
     ((NewSession None)\<lparr>ssConn := True, ssUsername := ''bob'', ssServerPubKey := sgServer ex_signing, ssTripPriv := Some (sgPriv ex_signing),
        ssTripPub := sgPub ex_signing\<rparr>)\<rparr>"

definition ex_link :: link_state where
  "ex_link = \<lparr>lkClient = ex_signer, lkQueue = [],
     lkPump = ex_pump\<lparr>puSession := ex_ann\<lparr>seDisplayName := ''bob'', seTripPub := sg_key ex_signing\<rparr>\<rparr>,
     lkServer = (ex_chat_server None)\<lparr>cvServerID := Some (sgServer ex_signing, [])\<rparr>\<rparr>"

lemma ex_signer_owner: "owner ex_signing ex_signer" "client_link (coSession ex_signer) = (1, zero_hash)"
  "pnTmpSeq (ssPending (coSession ex_signer)) = 0"
proof -
  have ui: "f (initUI env sj qu now s) = f s" if "\<And>s a d p. f (s\<lparr>ssAutoVerify := a, ssDisplay := d, ssPending := p\<rparr>) = f s"
    "\<And>s c. f (s\<lparr>ssChain := c\<rparr>) = f s" "\<And>s. f (initChainState s) = f s" for f :: "Session \<Rightarrow> 'a" and env sj qu now s
    using that by (auto simp: initUI_def Let_def split: prod.split)
  have init: "ssTripPub (initChainState s) = ssTripPub s" "ssUsername (initChainState s) = ssUsername s" "ssServerPubKey (initChainState s) = ssServerPubKey s"
    "ssTripPrev (initChainState s) = ssTripPrev s" "ssTripPriv (initChainState s) = ssTripPriv s" "ssTripSeq (initChainState s) = ssTripSeq s"
    "ssPending (initChainState s) = ssPending s" for s
    by (simp_all add: initChainState_def Let_def split: option.split)
  have "client_ok (coSession ex_signer)" unfolding ex_signer_def by (simp, rule start_ok [of _ None]) (simp_all add: NewSession_def)
  then show "owner ex_signing ex_signer" "client_link (coSession ex_signer) = (1, zero_hash)"
    by (simp_all add: owner_def named_def client_link_def ex_signer_def ui init NewSession_def ex_signing_def zero32_def zero_hash_def fresh_console_def)
  show "pnTmpSeq (ssPending (coSession ex_signer)) = 0"
    by (auto simp: ex_signer_def initUI_def Let_def init NewSession_def split: prod.split)
qed

lemma ex_good_key: "good_key (oEd ex_co_env) (kSign (oEnv ex_co_env)) ex_signing"
  by (simp add: good_key_def ex_co_env_def ex_cl_env_def ex_signing_def)


subsection \<open>How they fall out of step\<close>

text \<open>
  C40. A signed message dropped before the check costs the client its identity. The client advances its chain when the
  write succeeds; a frame that reaches the server while the connection is muted is dropped before the signature is
  looked at. From then on the server still expects the dropped number, so the next signed message is refused for its
  sequence number.
\<close>

theorem muted_signer_falls_out_of_step:
  assumes k: "good_key ed (kSign env) k" "length (sgPub k) = 32" "named k s" "ssTripPriv s = Some (sgPriv k)" "sg_fits k t"
    and step: "expected_link (map_of (cvTripChains sv) (sg_key k)) = client_link s"
    and first: "send_frame env l1 s = (s1, True)" "l1 \<noteq> []" "ValidateMessage (kGC env) l1 = None" "pnTmpSeq (ssPending s) \<noteq> - 1"
    and mute: "muted (seConn (puSession p)) sv" "pump_frame ev raw (p, sv) = (p', sv')"
    and second: "send_frame env l2 s2 = (s3, True)" "signer s2 = signer s1" "ssSent s2 = ssSent s1" "l2 \<noteq> []"
      "ValidateMessage (kGC env) l2 = None" "pnTmpSeq (ssPending s2) \<noteq> - 1"
  shows "\<exists>m1 m2. signed_frames (ssSent s3) = signed_frames (ssSent s) @ [m1, m2] \<and>
    accept_signed ed (kGC env) spub now t (envelope_of m2) (cvTripChains sv') = Inl (WrongSeq (ssTripSeq s + 2) (ssTripSeq s + 1))"
proof -
  from frame_signs [OF first(1) k(1,3,4) first(2-4)] obtain m1 g1 where 1: "client_link s1 = next_link (client_link s) m1 g1"
      "signed_frames (ssSent s1) = signed_frames (ssSent s) @ [m1]" "named k s1" "ssTripPriv s1 = Some (sgPriv k)" .
  have s2: "named k s2" "ssTripPriv s2 = Some (sgPriv k)" "client_link s2 = client_link s1"
    using second(2) 1(3,4) by (auto simp: signer_def named_def client_link_def)
  from frame_signs [OF second(1) k(1) s2(1,2) second(4-6)] obtain m2 g2 where 2:
      "signed_at ed (kGC env) k (client_link s2) m2 g2" "signed_frames (ssSent s3) = signed_frames (ssSent s2) @ [m2]" .
  have "hushed (seConn (puSession p)) sv (snd (pump_frame ev raw (p, sv)))"
    using mute(1) muted_history pow_frame_hushed muted_vote [OF mute(1)] muted_reveal [OF mute(1)]
    by (auto simp: pump_frame_def chat_frame_def Let_def intro!: hushed_intros split: option.split)
  then have tcs: "cvTripChains sv' = cvTripChains sv" using mute(2) by (simp add: hushed_def)
  have l: "fst (client_link s2) = ssTripSeq s + 2" using s2(3) 1(1) by (simp add: next_link_def client_link_def)
  have e: "fst (expected_link (map_of (cvTripChains sv') (sg_key k))) = ssTripSeq s + 1" by (simp add: tcs step client_link_def)
  have "accept_signed ed (kGC env) spub now t (envelope_of m2) (cvTripChains sv') = Inl (WrongSeq (ssTripSeq s + 2) (ssTripSeq s + 1))"
    using server_refuses [OF 2(1) k(2,5), of "cvTripChains sv'"] by (simp add: l e)
  then show ?thesis using 1(2) 2(2) second(3) by auto
qed

text \<open>
  A chain that is pruned under a connected client locks it out. The server forgets a key's chain a day after its last
  message, connected or not; the client keeps counting, so its next signed message is refused: the server expects
  number one again.
\<close>

theorem pruned_signer_falls_out_of_step:
  assumes k: "good_key ed (kSign env) k" "length (sgPub k) = 32" "named k s" "ssTripPriv s = Some (sgPriv k)" "sg_fits k t"
    and ch: "map_of tcs (sg_key k) = Some ch" "distinct (map fst tcs)" "tcLastSeen ch \<noteq> 0" "now - tcLastSeen ch > tripChainsTTL" "tcSeq ch \<noteq> 0"
    and step: "expected_link (map_of tcs (sg_key k)) = client_link s"
    and send: "send_frame env line s = (s1, True)" "line \<noteq> []" "ValidateMessage (kGC env) line = None" "pnTmpSeq (ssPending s) \<noteq> - 1"
  shows "\<exists>m. signed_frames (ssSent s1) = signed_frames (ssSent s) @ [m] \<and>
    accept_signed ed (kGC env) spub now' t (envelope_of m) (pruneTripChains srt now tcs) = Inl (WrongSeq (tcSeq ch + 1) 1)"
proof -
  from frame_signs [OF send(1) k(1,3,4) send(2-4)] obtain m sig where m: "signed_at ed (kGC env) k (client_link s) m sig"
      "signed_frames (ssSent s1) = signed_frames (ssSent s) @ [m]" .
  have "(sg_key k, c) \<in> set tcs \<Longrightarrow> c = ch" for c using ch(1,2) by (metis map_of_eq_Some_iff option.inject)
  moreover have "x \<in> set (pruneTripChains srt now tcs) \<Longrightarrow>
      x \<in> set tcs \<and> (tcLastSeen (snd x) = 0 \<or> \<not> now - tcLastSeen (snd x) > tripChainsTTL)" for x
    by (auto simp: pruneTripChains_def Let_def isZero_def split: if_splits)
  ultimately have "(sg_key k, c) \<notin> set (pruneTripChains srt now tcs)" for c using ch(3,4) by fastforce
  then have none: "map_of (pruneTripChains srt now tcs) (sg_key k) = None" by (auto simp: map_of_eq_None_iff)
  have l: "fst (client_link s) = tcSeq ch + 1" by (simp add: step [symmetric] ch(1) expected_link_def)
  have ne: "tcSeq ch + 1 \<noteq> 1" using ch(5) by simp
  have "accept_signed ed (kGC env) spub now' t (envelope_of m) (pruneTripChains srt now tcs) = Inl (WrongSeq (tcSeq ch + 1) 1)"
    using server_refuses [OF m(1) k(2,5), of "pruneTripChains srt now tcs"] ne by (simp add: l none expected_link_def)
  then show ?thesis using m(2) by blast
qed

text \<open>Both happen: a muted newcomer, and a key with three messages that was silent for more than a day.\<close>

lemma frame_written: "kIO env (ssIO s) \<Longrightarrow> send_frame env line s = (fst (send_frame env line s), True)"
  by (auto simp: send_frame_def Let_def sendJSON_def split: option.split)

lemma ex_sending: "kIO ex_cl_env n" "kSign ex_cl_env = kSign (oEnv ex_co_env)" "ValidateMessage (kGC ex_cl_env) ''hi'' = None"
proof -
  have "rune_pieces ''hi'' = map (\<lambda>c. (nat_of c, 1)) ''hi''" by (rule rune_pieces_ascii) (simp add: nat_of_def)
  then show "ValidateMessage (kGC ex_cl_env) ''hi'' = None"
    by (simp add: ValidateMessage_def ValidString_def runes_def RuneError_def nat_of_def IsGraphic_def ex_cl_env_def gc_example_def)
qed (simp_all add: ex_cl_env_def ex_co_env_def)

lemma frame_tmp: "pnTmpSeq (ssPending (fst (send_frame ex_cl_env line s))) = pnTmpSeq (ssPending s) + 1"
  by (auto simp: send_frame_def Let_def sendJSON_def ex_sending split: option.split)

theorem muted_signer_falls_out_of_step_witness:
  "\<exists>m1 m2. signed_frames (ssSent (fst (send_frame ex_cl_env ''hi'' (fst (send_frame ex_cl_env ''hi'' (coSession ex_signer)))))) =
      signed_frames (ssSent (coSession ex_signer)) @ [m1, m2] \<and>
    accept_signed (oEd ex_co_env) (kGC ex_cl_env) (sgServer ex_signing) 0 (lk_view ex_link) (envelope_of m2)
      (cvTripChains (snd (pump_frame (ex_sv 9 ex_text 2) ''x'' (ex_pump, ex_chat_server (Some (NewPowScreener\<lparr>scMuted := (\<lambda>_. True)\<rparr>)))))) =
    Inl (WrongSeq (ssTripSeq (coSession ex_signer) + 2) (ssTripSeq (coSession ex_signer) + 1))"
proof -
  let ?s = "coSession ex_signer" and ?sv = "ex_chat_server (Some (NewPowScreener\<lparr>scMuted := (\<lambda>_. True)\<rparr>))"
  have k: "length (sgPub ex_signing) = 32" "named ex_signing ?s" "ssTripPriv ?s = Some (sgPriv ex_signing)" "sg_fits ex_signing (lk_view ex_link)"
    using ex_signer_owner(1) by (auto simp: ex_signing_def owner_def sg_fits_def ex_link_def ex_signer_def fresh_console_def trip_view_def)
  have step: "expected_link (map_of (cvTripChains ?sv) (sg_key ex_signing)) = client_link ?s"
    by (simp add: ex_signer_owner(2) ex_chat_server_def expected_link_def)
  have mute: "muted (seConn (puSession ex_pump)) ?sv" by (simp add: ex_ann_def muted_def ex_chat_server_def IsMuted_def)
  show ?thesis
    by (rule muted_signer_falls_out_of_step [OF ex_good_key [folded ex_sending(2)] k step frame_written [OF ex_sending(1)] _ ex_sending(3) _
          mute surjective_pairing frame_written [OF ex_sending(1)] refl refl _ ex_sending(3)])
       (simp_all add: frame_tmp ex_signer_owner(3))
qed

theorem pruned_signer_falls_out_of_step_witness:
  "let s = (coSession ex_signer)\<lparr>ssTripSeq := 3\<rparr> in \<exists>m. signed_frames (ssSent (fst (send_frame ex_cl_env ''hi'' s))) = signed_frames (ssSent s) @ [m] \<and>
    accept_signed (oEd ex_co_env) (kGC ex_cl_env) (sgServer ex_signing) 0 (lk_view ex_link) (envelope_of m)
      (pruneTripChains (\<lambda>x. x) (25 * hour) [(sg_key ex_signing, \<lparr>tcSeq = 3, tcPrevHash = zero_hash, tcLastSeen = 1\<rparr>)]) = Inl (WrongSeq 4 1)"
proof -
  let ?s = "(coSession ex_signer)\<lparr>ssTripSeq := 3\<rparr>" and ?tcs = "[(sg_key ex_signing, \<lparr>tcSeq = 3, tcPrevHash = zero_hash, tcLastSeen = 1\<rparr>)]"
  have k: "length (sgPub ex_signing) = 32" "named ex_signing ?s" "ssTripPriv ?s = Some (sgPriv ex_signing)" "sg_fits ex_signing (lk_view ex_link)"
    using ex_signer_owner(1) by (auto simp: ex_signing_def owner_def sg_fits_def ex_link_def ex_signer_def fresh_console_def named_def trip_view_def)
  have ch: "map_of ?tcs (sg_key ex_signing) = Some \<lparr>tcSeq = 3, tcPrevHash = zero_hash, tcLastSeen = 1\<rparr>" by simp
  have step: "expected_link (map_of ?tcs (sg_key ex_signing)) = client_link ?s"
    using ex_signer_owner(2) by (simp add: expected_link_def client_link_def zero_hash_def)
  have "\<exists>m. signed_frames (ssSent (fst (send_frame ex_cl_env ''hi'' ?s))) = signed_frames (ssSent ?s) @ [m] \<and>
    accept_signed (oEd ex_co_env) (kGC ex_cl_env) (sgServer ex_signing) 0 (lk_view ex_link) (envelope_of m)
      (pruneTripChains (\<lambda>x. x) (25 * hour) ?tcs) = Inl (WrongSeq (tcSeq \<lparr>tcSeq = 3, tcPrevHash = zero_hash, tcLastSeen = 1\<rparr> + 1) 1)"
    by (rule pruned_signer_falls_out_of_step [OF ex_good_key [folded ex_sending(2)] k ch _ _ _ _ step frame_written [OF ex_sending(1)] _ ex_sending(3)])
       (simp_all add: tripChainsTTL_def hour_def minute_def second_def ex_signer_owner(3))
  then show ?thesis by (simp add: Let_def)
qed

end
