(* ===== verification/Passkeys.thy ===== *)
theory Passkeys
  imports Gate Wire Utf8
begin

text \<open>
  Passkeys: the credential store with its enrollment tickets (\<^verbatim>\<open>src/server/webauthn_store.go\<close>,
  \<^verbatim>\<open>webauthn_http.go\<close>), the adapter to the WebAuthn library (\<^verbatim>\<open>passkey_lib.go\<close>) and the pairing of a desktop client
  through a browser (\<^verbatim>\<open>pair.go\<close>, \<^verbatim>\<open>pair_request.go\<close>, \<^verbatim>\<open>pair_submit.go\<close>, \<^verbatim>\<open>pair_status.go\<close>). The library is the
  record \<open>wa_lib\<close>: what it answers to an assertion and to a registration. The store file is what a load of it gives,
  \<open>None\<close> when it cannot be read; writing it may fail. Log lines are left out.
\<close>

subsection \<open>Base64\<close>

text \<open>\<open>base64.RawURLEncoding\<close>: no padding, line ends are skipped, loose bits at the end are ignored.\<close>

definition b64_alphabet :: string where
  "b64_alphabet = ''ABCDEFGHIJKLMNOPQRSTUVWXYZabcdefghijklmnopqrstuvwxyz0123456789-_''"

fun index_of :: "'a \<Rightarrow> 'a list \<Rightarrow> nat option" where
  "index_of x [] = None"
| "index_of x (y # ys) = (if x = y then Some 0 else map_option Suc (index_of x ys))"

fun b64_groups :: "nat list \<Rightarrow> nat list option" where
  "b64_groups [] = Some []"
| "b64_groups [a] = None"
| "b64_groups [a, b] = Some [a * 4 + b div 16]"
| "b64_groups [a, b, c] = Some [a * 4 + b div 16, (b mod 16) * 16 + c div 4]"
| "b64_groups (a # b # c # d # r) =
     map_option (\<lambda>rest. (a * 4 + b div 16) # ((b mod 16) * 16 + c div 4) # ((c mod 4) * 64 + d) # rest) (b64_groups r)"

definition raw_url_decode :: "string \<Rightarrow> bytes option" where
  "raw_url_decode s =
     (let cs = filter (\<lambda>c. c \<noteq> CHR 0x0A \<and> c \<noteq> CHR 0x0D) s in
      if list_all (\<lambda>c. index_of c b64_alphabet \<noteq> None) cs
      then map_option (map char_of) (b64_groups (map (\<lambda>c. the (index_of c b64_alphabet)) cs))
      else None)"

fun b64_sextets :: "nat list \<Rightarrow> nat list" where
  "b64_sextets [] = []"
| "b64_sextets [a] = [a div 4, (a mod 4) * 16]"
| "b64_sextets [a, b] = [a div 4, (a mod 4) * 16 + b div 16, (b mod 16) * 4]"
| "b64_sextets (a # b # c # r) = a div 4 # ((a mod 4) * 16 + b div 16) # ((b mod 16) * 4 + c div 64) # (c mod 64) # b64_sextets r"

definition raw_url_encode :: "bytes \<Rightarrow> string" where
  "raw_url_encode b = map (\<lambda>n. b64_alphabet ! n) (b64_sextets (map nat_of b))"

subsection \<open>The library\<close>

record WAStoredCred =
  wcCredentialID :: string
  wcPublicKey :: string
  wcSignCount :: u32
  wcBackupEligible :: bool
  wcBackupState :: bool
  wcLabel :: string
  wcAddedAt :: string
  wcAttFormat :: string

datatype lib_login = LoginMalformed | LoginRejected | LoginValid u32 bool

record created =
  crID :: bytes
  crPublicKey :: bytes
  crCounter :: u32
  crFormat :: string
  crBackupEligible :: bool
  crBackupState :: bool
  crUserVerified :: bool

datatype lib_creation = CreationMalformed | CreationRejected | CreationValid created

text \<open>What the assertion is checked against: challenge, user, allowed credential, its key and flags.\<close>

record login_session =
  lsChallenge :: string
  lsUser :: bytes
  lsName :: string
  lsAllowed :: bytes
  lsKey :: bytes
  lsBackupEligible :: bool
  lsBackupState :: bool

record wa_lib =
  wlEnabled :: bool
  wlReady :: bool
  wlOrigin :: string
  wlRPID :: string
  wlLogin :: "string \<Rightarrow> string \<Rightarrow> string \<Rightarrow> string \<Rightarrow> login_session \<Rightarrow> lib_login"
  wlCreate :: "string \<Rightarrow> string \<Rightarrow> string \<Rightarrow> string \<Rightarrow> bytes \<Rightarrow> lib_creation"

datatype passkey_error = passkey_disabled | stored_key_malformed | credential_id_malformed | assertion_malformed
  | login_rejected | user_verification_required | creation_malformed | registration_rejected | credential_id_mismatch
  | credential_id_out_of_range

definition maxCredentialIDLen :: nat where "maxCredentialIDLen = 1023"

definition ChallengeFromNonce :: "string \<Rightarrow> bytes" where
  "ChallengeFromNonce nonceHex = sha256 nonceHex"

definition verifyAssertionLib ::
  "wa_lib \<Rightarrow> WAStoredCred \<Rightarrow> string \<Rightarrow> string \<Rightarrow> string \<Rightarrow> string \<Rightarrow> string \<Rightarrow> passkey_error + u32" where
  "verifyAssertionLib lib stored nonceHex authData clientData sig role =
     (if \<not> wlReady lib then Inl passkey_disabled
      else case raw_url_decode (wcPublicKey stored) of
          None \<Rightarrow> Inl stored_key_malformed
        | Some key \<Rightarrow>
            (case raw_url_decode (wcCredentialID stored) of
               None \<Rightarrow> Inl credential_id_malformed
             | Some rawID \<Rightarrow>
                 if length rawID = 0 \<or> length rawID > maxCredentialIDLen then Inl credential_id_malformed
                 else let ses = \<lparr>lsChallenge = raw_url_encode (ChallengeFromNonce nonceHex),
                          lsUser = sha256 (role @ [NUL] @ wcCredentialID stored), lsName = role, lsAllowed = rawID, lsKey = key,
                          lsBackupEligible = wcBackupEligible stored, lsBackupState = wcBackupState stored\<rparr>
                   in case wlLogin lib (wcCredentialID stored) authData clientData sig ses of
                        LoginMalformed \<Rightarrow> Inl assertion_malformed
                      | LoginRejected \<Rightarrow> Inl login_rejected
                      | LoginValid counter uv \<Rightarrow> if uv then Inr counter else Inl user_verification_required))"

record LibCreation =
  lcCredentialID :: string
  lcPublicKey :: bytes
  lcCounter :: u32
  lcAttFormat :: string
  lcBackupEligible :: bool
  lcBackupState :: bool

definition parseCreationLib :: "wa_lib \<Rightarrow> string \<Rightarrow> string \<Rightarrow> string \<Rightarrow> string \<Rightarrow> passkey_error + LibCreation" where
  "parseCreationLib lib clientData attObj wantChallenge claimedID =
     (if \<not> wlReady lib then Inl passkey_disabled
      else case wlCreate lib claimedID clientData attObj wantChallenge (sha256 (''enroll'' @ [NUL] @ wantChallenge)) of
          CreationMalformed \<Rightarrow> Inl creation_malformed
        | CreationRejected \<Rightarrow> Inl registration_rejected
        | CreationValid cr \<Rightarrow>
            (let gotID = raw_url_encode (crID cr) in
             if gotID \<noteq> claimedID then Inl credential_id_mismatch
             else if length (crID cr) = 0 \<or> length (crID cr) > maxCredentialIDLen then Inl credential_id_out_of_range
             else if \<not> crUserVerified cr then Inl user_verification_required
             else Inr \<lparr>lcCredentialID = gotID, lcPublicKey = crPublicKey cr, lcCounter = crCounter cr, lcAttFormat = crFormat cr,
                       lcBackupEligible = crBackupEligible cr, lcBackupState = crBackupState cr\<rparr>))"

subsection \<open>The credential store\<close>

record WAPending =
  wpCode :: string
  wpRole :: string
  wpLabel :: string
  wpExpiresAt :: time
  wpChallenge :: string
  wpUsed :: bool

record webauthnFile =
  wfPending :: "WAPending list"
  wfCredentials :: "string \<Rightarrow> WAStoredCred list"

datatype wa_error = errTicketUnknown | errTicketUsed | errTicketBound | errCredentialExists | errPasskey passkey_error
  | errCounter | errNotExist | errNotInitialized | errStoreBroken | errSave | errMissingRole | errEntropy

record WebAuthnStore =
  wsFile :: "webauthnFile option"
  wsWritable :: bool

definition wa_mutate ::
  "(webauthnFile \<Rightarrow> wa_error + 'a \<times> webauthnFile) \<Rightarrow> WebAuthnStore option \<Rightarrow> (wa_error + 'a) \<times> WebAuthnStore option" where
  "wa_mutate f st =
     (case st of
        None \<Rightarrow> (Inl errNotInitialized, st)
      | Some s \<Rightarrow>
          (case wsFile s of
             None \<Rightarrow> (Inl errStoreBroken, st)
           | Some fl \<Rightarrow>
               (case f fl of
                  Inl e \<Rightarrow> (Inl e, st)
                | Inr (r, fl') \<Rightarrow> if wsWritable s then (Inr r, Some (s\<lparr>wsFile := Some fl'\<rparr>)) else (Inl errSave, st))))"

definition wa_view :: "(webauthnFile \<Rightarrow> wa_error + 'a) \<Rightarrow> WebAuthnStore option \<Rightarrow> wa_error + 'a" where
  "wa_view f st =
     (case st of
        None \<Rightarrow> Inl errNotInitialized
      | Some s \<Rightarrow> (case wsFile s of None \<Rightarrow> Inl errStoreBroken | Some fl \<Rightarrow> f fl))"

definition findPending :: "time \<Rightarrow> webauthnFile \<Rightarrow> string \<Rightarrow> wa_error + WAPending" where
  "findPending now fl code =
     (case find (\<lambda>p. wpCode p = code) (wfPending fl) of
        None \<Rightarrow> Inl errTicketUnknown
      | Some p \<Rightarrow> if wpUsed p then Inl errTicketUsed else if now > wpExpiresAt p then Inl errTicketUnknown else Inr p)"

text \<open>A write through the pointer \<open>findPending\<close> returned: the first entry with the code.\<close>

fun set_first :: "('a \<Rightarrow> bool) \<Rightarrow> ('a \<Rightarrow> 'a) \<Rightarrow> 'a list \<Rightarrow> 'a list" where
  "set_first P f [] = []"
| "set_first P f (x # xs) = (if P x then f x # xs else x # set_first P f xs)"

definition on_ticket :: "string \<Rightarrow> (WAPending \<Rightarrow> WAPending) \<Rightarrow> webauthnFile \<Rightarrow> webauthnFile" where
  "on_ticket code g fl = fl\<lparr>wfPending := set_first (\<lambda>p. wpCode p = code) g (wfPending fl)\<rparr>"

definition CreatePendingTicket ::
  "time \<Rightarrow> bytes option \<Rightarrow> string \<Rightarrow> string \<Rightarrow> duration \<Rightarrow> WebAuthnStore option \<Rightarrow> (wa_error + string) \<times> WebAuthnStore option" where
  "CreatePendingTicket now rnd role label ttl st =
     (if role = [] then (Inl errMissingRole, st)
      else case rnd of
          None \<Rightarrow> (Inl errEntropy, st)
        | Some b \<Rightarrow>
            wa_mutate (\<lambda>fl. Inr (hex_encode b, fl\<lparr>wfPending := wfPending fl @ [\<lparr>wpCode = hex_encode b, wpRole = role,
                wpLabel = label, wpExpiresAt = now + ttl, wpChallenge = [], wpUsed = False\<rparr>]\<rparr>)) st)"

definition BindChallenge :: "time \<Rightarrow> string \<Rightarrow> string \<Rightarrow> WebAuthnStore option \<Rightarrow> (wa_error + string) \<times> WebAuthnStore option" where
  "BindChallenge now code challenge st =
     wa_mutate (\<lambda>fl. case findPending now fl code of
         Inl e \<Rightarrow> Inl e
       | Inr p \<Rightarrow> if wpChallenge p \<noteq> [] then Inl errTicketBound
                 else Inr (wpRole p, on_ticket code (\<lambda>p. p\<lparr>wpChallenge := challenge\<rparr>) fl)) st"

definition CompleteEnrollment :: "time \<Rightarrow> string \<Rightarrow> WAStoredCred \<Rightarrow> WebAuthnStore option \<Rightarrow> (wa_error + unit) \<times> WebAuthnStore option" where
  "CompleteEnrollment now code cred st =
     wa_mutate (\<lambda>fl. case findPending now fl code of
         Inl e \<Rightarrow> Inl e
       | Inr p \<Rightarrow>
           let creds = wfCredentials fl (wpRole p) in
           if list_ex (\<lambda>c. wcCredentialID c = wcCredentialID cred) creds then Inl errCredentialExists
           else Inr ((), (on_ticket code (\<lambda>p. p\<lparr>wpUsed := True\<rparr>) fl)
                   \<lparr>wfCredentials := (wfCredentials fl)(wpRole p := creds @ [cred\<lparr>wcLabel := wpLabel p\<rparr>])\<rparr>)) st"

definition PendingInfo :: "time \<Rightarrow> string \<Rightarrow> WebAuthnStore option \<Rightarrow> wa_error + string \<times> string" where
  "PendingInfo now code st =
     wa_view (\<lambda>fl. case findPending now fl code of Inl e \<Rightarrow> Inl e | Inr p \<Rightarrow> Inr (wpRole p, wpChallenge p)) st"

definition Credential :: "string \<Rightarrow> string \<Rightarrow> WebAuthnStore option \<Rightarrow> WAStoredCred option" where
  "Credential role i st =
     (case wa_view (\<lambda>fl. Inr (find (\<lambda>c. wcCredentialID c = i) (wfCredentials fl role))) st of
        Inl _ \<Rightarrow> None
      | Inr r \<Rightarrow> r)"

definition UpdateSignCount :: "string \<Rightarrow> string \<Rightarrow> u32 \<Rightarrow> WebAuthnStore option \<Rightarrow> (wa_error + unit) \<times> WebAuthnStore option" where
  "UpdateSignCount role i count st =
     wa_mutate (\<lambda>fl. case find (\<lambda>c. wcCredentialID c = i) (wfCredentials fl role) of
         None \<Rightarrow> Inl errNotExist
       | Some c \<Rightarrow>
           if count \<noteq> 0 \<and> wcSignCount c \<noteq> 0 \<and> count \<le> wcSignCount c then Inl errCounter
           else Inr ((), fl\<lparr>wfCredentials := (wfCredentials fl)(role := set_first (\<lambda>c. wcCredentialID c = i)
                  (\<lambda>c. if count \<noteq> 0 then c\<lparr>wcSignCount := count\<rparr> else c) (wfCredentials fl role))\<rparr>)) st"

definition PruneExpired :: "time \<Rightarrow> WebAuthnStore option \<Rightarrow> WebAuthnStore option" where
  "PruneExpired now st =
     snd (wa_mutate (\<lambda>fl. Inr ((), fl\<lparr>wfPending := filter (\<lambda>p. \<not> (wpUsed p \<or> now > wpExpiresAt p)) (wfPending fl)\<rparr>)) st)"

subsection \<open>Pairing tickets\<close>

definition pairTicketTTL :: duration where "pairTicketTTL = 5 * minute"

datatype pair_error = ErrPairCapacity | ErrPairExpired | ErrPairUnknown | ErrPairEntropy

definition pairMaxPending :: "AbuseConfig option \<Rightarrow> int" where
  "pairMaxPending abuse =
     (case abuse of Some a \<Rightarrow> if acPairMaxPending a > 0 then acPairMaxPending a else DefaultPairMaxPending
      | None \<Rightarrow> DefaultPairMaxPending)"

record pairTicket =
  ptExpiresAt :: time
  ptRole :: string
  ptIP :: string
  ptVerified :: bool
  ptConsumed :: bool

type_synonym PairTickets = "(string \<times> pairTicket) list"

definition prunePairTicketsLocked :: "time \<Rightarrow> PairTickets \<Rightarrow> PairTickets" where
  "prunePairTicketsLocked now ts = filter (\<lambda>(k, t). \<not> now > ptExpiresAt t) ts"

text \<open>The clock is read for the sweep and again for the expiry.\<close>

definition issuePairTicket ::
  "AbuseConfig option \<Rightarrow> time \<Rightarrow> time \<Rightarrow> bytes option \<Rightarrow> string \<Rightarrow> string \<Rightarrow> PairTickets \<Rightarrow> (pair_error + string) \<times> PairTickets" where
  "issuePairTicket abuse now now2 rnd role ip ts0 =
     (let ts = prunePairTicketsLocked now ts0 in
      if int (length ts) \<ge> pairMaxPending abuse then (Inl ErrPairCapacity, ts)
      else case rnd of
          None \<Rightarrow> (Inl ErrPairEntropy, ts)
        | Some b \<Rightarrow>
            (Inr (hex_encode b),
             AList.update (hex_encode b) \<lparr>ptExpiresAt = now2 + pairTicketTTL, ptRole = role, ptIP = ip, ptVerified = False,
               ptConsumed = False\<rparr> ts))"

definition livePairTicketLocked :: "time \<Rightarrow> string \<Rightarrow> string \<Rightarrow> PairTickets \<Rightarrow> (pair_error + pairTicket) \<times> PairTickets" where
  "livePairTicketLocked now tick ip ts =
     (case map_of ts tick of
        None \<Rightarrow> (Inl ErrPairUnknown, ts)
      | Some t \<Rightarrow>
          if ptConsumed t then (Inl ErrPairUnknown, ts)
          else if now > ptExpiresAt t then (Inl ErrPairExpired, AList.delete tick ts)
          else if ptIP t \<noteq> ip then (Inl ErrPairUnknown, ts)
          else (Inr t, ts))"

definition pairTicketFor :: "time \<Rightarrow> string \<Rightarrow> string \<Rightarrow> PairTickets \<Rightarrow> pairTicket option \<times> PairTickets" where
  "pairTicketFor now tick ip ts =
     (case livePairTicketLocked now tick ip ts of (Inr t, ts') \<Rightarrow> (Some t, ts') | (Inl _, ts') \<Rightarrow> (None, ts'))"

definition markPairVerified :: "time \<Rightarrow> string \<Rightarrow> PairTickets \<Rightarrow> bool \<times> PairTickets" where
  "markPairVerified now tick ts =
     (case map_of ts tick of
        None \<Rightarrow> (False, ts)
      | Some t \<Rightarrow> if ptConsumed t \<or> now > ptExpiresAt t then (False, ts)
                 else (True, AList.update tick (t\<lparr>ptVerified := True\<rparr>) ts))"

definition takeVerifiedPairTicket :: "time \<Rightarrow> string \<Rightarrow> string \<Rightarrow> PairTickets \<Rightarrow> (pair_error + pairTicket) \<times> PairTickets" where
  "takeVerifiedPairTicket now tick ip ts =
     (case livePairTicketLocked now tick ip ts of
        (Inl e, ts') \<Rightarrow> (Inl e, ts')
      | (Inr t, ts') \<Rightarrow>
          if \<not> ptVerified t then (Inl ErrPairUnknown, ts')
          else (Inr (t\<lparr>ptConsumed := True\<rparr>), AList.update tick (t\<lparr>ptConsumed := True\<rparr>) ts'))"

subsection \<open>Handlers\<close>

record Identity =
  idPublicKey :: string
  idHmacShield :: string
  idServerPubKey :: string

record RoleDefinition =
  rdIdentities :: "Identity list"
  rdPermission :: Permission

record PairServer =
  ppTickets :: PairTickets
  ppStore :: "WebAuthnStore option"
  ppRoles :: "string \<rightharpoonup> RoleDefinition"
  ppRequestCool :: CooldownMap
  ppSubmitCool :: CooldownMap
  ppStatusCool :: CooldownMap
  ppBeginCool :: CooldownMap
  ppFinishCool :: CooldownMap
  ppGate :: GateServer

definition pairRequestCooldown :: duration where "pairRequestCooldown = 5 * second"
definition pairSubmitCooldown :: duration where "pairSubmitCooldown = 10 * second"
definition pairStatusCooldown :: duration where "pairStatusCooldown = second"
definition enrollBeginCooldown :: duration where "enrollBeginCooldown = 30 * second"
definition enrollFinishCooldown :: duration where "enrollFinishCooldown = 10 * second"
definition enrollChallengeTTL :: duration where "enrollChallengeTTL = 5 * minute"

text \<open>\<open>strutil.ShortN\<close>: counts runes.\<close>

definition ShortN :: "string \<Rightarrow> int \<Rightarrow> string" where
  "ShortN s n =
     (if n \<le> 0 then s
      else if int (length (runes s)) \<le> n then s
      else encode_runes (take (nat n) (runes s)) @ encode_runes [0x2026])"

text \<open>The fields of the creation options that vary; the rest are constants of the reply.\<close>

record creationOptions =
  coChallenge :: string
  coRPID :: string
  coUserID :: string
  coUserName :: string
  coTimeout :: int

datatype pair_body = Refused string | Offer string string int | PairState string | Accepted | Options creationOptions
  | Enrolled string | GateRefusal gate_body

record http_reply =
  hrStatus :: int
  hrRetryAfter :: "int option"
  hrBody :: pair_body

abbreviation refuse :: "int \<Rightarrow> string \<Rightarrow> http_reply" where
  "refuse status msg \<equiv> \<lparr>hrStatus = status, hrRetryAfter = None, hrBody = Refused msg\<rparr>"

text \<open>\<open>setRetryAfter\<close>: whole seconds, at least one.\<close>

definition retry_seconds :: "duration \<Rightarrow> int" where
  "retry_seconds remaining = (if remaining div second < 1 then 1 else remaining div second)"

definition rejectCooldown ::
  "CooldownMap \<Rightarrow> string \<Rightarrow> duration \<Rightarrow> time \<Rightarrow> string \<Rightarrow> PairServer \<Rightarrow> http_reply \<times> PairServer" where
  "rejectCooldown meter ip window now msg s =
     (\<lparr>hrStatus = 429, hrRetryAfter = Some (retry_seconds (RetryAfter ip window now meter)), hrBody = Refused msg\<rparr>,
      s\<lparr>ppGate := (ppGate s)\<lparr>svRejects := addReject rejectCooldownCause (svRejects (ppGate s))\<rparr>\<rparr>)"

text \<open>What a handler takes from outside: clock readings, random bytes, the abuse policy, the library, the client address.\<close>

record pair_env =
  peClk :: "nat \<Rightarrow> time"
  peRand :: "nat \<Rightarrow> bytes option"
  peAbuse :: "AbuseConfig option"
  peLib :: wa_lib

definition pe_clocks :: "pair_env \<Rightarrow> clocks" where
  "pe_clocks e = \<lparr>ckNow = peClk e 0, ckSince = peClk e 1, ckEvict = peClk e 2\<rparr>"

text \<open>\<open>role\<close> is the decoded body, \<open>None\<close> when it does not decode.\<close>

definition handlePairRequest :: "pair_env \<Rightarrow> bool \<Rightarrow> string \<Rightarrow> string option \<Rightarrow> PairServer \<Rightarrow> http_reply \<times> PairServer" where
  "handlePairRequest e isPost ip role s =
     (if \<not> isPost then (refuse 405 ''method not allowed'', s)
      else if \<not> wlEnabled (peLib e) then (refuse 503 ''passkey disabled'', s)
      else case role of
          None \<Rightarrow> (refuse 400 ''bad payload'', s)
        | Some r \<Rightarrow>
            if r = [] then (refuse 400 ''missing role'', s)
            else if ppRoles s r = None then (refuse 404 ''unknown role'', s)
            else let (ok, cool) = cooldown_allow ip pairRequestCooldown (pe_clocks e) (ppRequestCool s);
                     s1 = s\<lparr>ppRequestCool := cool\<rparr>
              in if \<not> ok then rejectCooldown cool ip pairRequestCooldown (peClk e 3) ''too many attempts'' s1
                 else case issuePairTicket (peAbuse e) (peClk e 4) (peClk e 5) (peRand e 0) r ip (ppTickets s1) of
                     (Inl ErrPairCapacity, ts) \<Rightarrow>
                       (refuse 503 ''no room for another pairing'',
                        s1\<lparr>ppTickets := ts, ppGate := (ppGate s1)\<lparr>svRejects := addReject rejectFullCause (svRejects (ppGate s1))\<rparr>\<rparr>)
                   | (Inl _, ts) \<Rightarrow> (refuse 500 ''cannot issue a ticket'', s1\<lparr>ppTickets := ts\<rparr>)
                   | (Inr tick, ts) \<Rightarrow>
                       (\<lparr>hrStatus = 201, hrRetryAfter = None,
                         hrBody = Offer tick (wlOrigin (peLib e) @ ''/web/#pair='' @ tick) (pairTicketTTL div second)\<rparr>, s1\<lparr>ppTickets := ts\<rparr>))"

record pairSubmission =
  smTicket :: string
  smPasskeyID :: string
  smAuthData :: string
  smClientData :: string
  smSig :: string

text \<open>The sign counter must advance unless one of the two is zero.\<close>

definition submit_verified :: "pair_env \<Rightarrow> pairSubmission \<Rightarrow> string \<Rightarrow> PairServer \<Rightarrow> http_reply \<times> PairServer" where
  "submit_verified e sub role s =
     (let fail = refuse 403 ''verification failed'' in
      case Credential role (smPasskeyID sub) (ppStore s) of
        None \<Rightarrow> (fail, s)
      | Some cred \<Rightarrow>
          (case verifyAssertionLib (peLib e) cred (smTicket sub) (smAuthData sub) (smClientData sub) (smSig sub) role of
             Inl _ \<Rightarrow> (fail, s)
           | Inr counter \<Rightarrow>
               if counter \<noteq> 0 \<and> wcSignCount cred \<noteq> 0 \<and> counter \<le> wcSignCount cred then (fail, s)
               else let (r, st) = (if counter \<noteq> 0 then UpdateSignCount role (wcCredentialID cred) counter (ppStore s)
                                   else (Inr (), ppStore s))
                 in case r of
                      Inl _ \<Rightarrow> (fail, s\<lparr>ppStore := st\<rparr>)
                    | Inr _ \<Rightarrow>
                        (\<lparr>hrStatus = 202, hrRetryAfter = None, hrBody = Accepted\<rparr>,
                         s\<lparr>ppStore := st, ppTickets := snd (markPairVerified (peClk e 5) (smTicket sub) (ppTickets s))\<rparr>)))"

definition handlePairSubmit :: "pair_env \<Rightarrow> bool \<Rightarrow> string \<Rightarrow> pairSubmission option \<Rightarrow> PairServer \<Rightarrow> http_reply \<times> PairServer" where
  "handlePairSubmit e isPost ip body s =
     (if ppStore s = None \<or> \<not> wlEnabled (peLib e) then (refuse 503 ''passkey disabled'', s)
      else if \<not> isPost then (refuse 405 ''method not allowed'', s)
      else let (ok, cool) = cooldown_allow ip pairSubmitCooldown (pe_clocks e) (ppSubmitCool s); s1 = s\<lparr>ppSubmitCool := cool\<rparr>
        in if \<not> ok then rejectCooldown cool ip pairSubmitCooldown (peClk e 3) ''too many attempts'' s1
           else case body of
               None \<Rightarrow> (refuse 400 ''bad payload'', s1)
             | Some sub \<Rightarrow>
                 if smTicket sub = [] \<or> smPasskeyID sub = [] \<or> smAuthData sub = [] \<or> smClientData sub = [] \<or> smSig sub = []
                 then (refuse 400 ''missing fields'', s1)
                 else (case pairTicketFor (peClk e 4) (smTicket sub) ip (ppTickets s1) of
                     (None, ts) \<Rightarrow> (refuse 410 ''unknown or expired pairing'', s1\<lparr>ppTickets := ts\<rparr>)
                   | (Some t, ts) \<Rightarrow> submit_verified e sub (ptRole t) (s1\<lparr>ppTickets := ts\<rparr>)))"

definition handlePairStatus :: "pair_env \<Rightarrow> bool \<Rightarrow> string \<Rightarrow> string \<Rightarrow> PairServer \<Rightarrow> http_reply \<times> PairServer" where
  "handlePairStatus e isGet ip tick s =
     (if \<not> isGet then (refuse 405 ''method not allowed'', s)
      else let (ok, cool) = cooldown_allow ip pairStatusCooldown (pe_clocks e) (ppStatusCool s); s1 = s\<lparr>ppStatusCool := cool\<rparr>
        in if \<not> ok then rejectCooldown cool ip pairStatusCooldown (peClk e 3) ''too many attempts'' s1
           else if tick = [] then (refuse 400 ''missing ticket'', s1)
           else case pairTicketFor (peClk e 4) tick ip (ppTickets s1) of
               (None, ts) \<Rightarrow> (refuse 410 ''unknown or expired pairing'', s1\<lparr>ppTickets := ts\<rparr>)
             | (Some t, ts) \<Rightarrow>
                 (\<lparr>hrStatus = 200, hrRetryAfter = None, hrBody = PairState (if ptVerified t then ''verified'' else ''pending'')\<rparr>,
                  s1\<lparr>ppTickets := ts\<rparr>))"

text \<open>\<open>enrollFailure\<close>: \<open>wa_text\<close> renders an error.\<close>

definition enrollFailure :: "(wa_error \<Rightarrow> string) \<Rightarrow> wa_error \<Rightarrow> http_reply" where
  "enrollFailure wa_text err =
     (case err of
        errTicketUnknown \<Rightarrow> refuse 403 (wa_text err) | errTicketUsed \<Rightarrow> refuse 403 (wa_text err)
      | errTicketBound \<Rightarrow> refuse 403 (wa_text err) | errCredentialExists \<Rightarrow> refuse 403 (wa_text err)
      | errPasskey _ \<Rightarrow> refuse 403 (wa_text err) | _ \<Rightarrow> refuse 500 ''enrollment failed'')"

definition gate_checked ::
  "pair_env \<Rightarrow> string \<Rightarrow> string \<Rightarrow> string \<Rightarrow> string \<Rightarrow> PairServer \<Rightarrow> (PairServer \<Rightarrow> http_reply \<times> PairServer) \<Rightarrow> http_reply \<times> PairServer" where
  "gate_checked e query header cls ip s go =
     (case checkHTTPPass (peAbuse e) query header cls ip (peClk e 4) (ppGate s) of
        (Some r, g) \<Rightarrow> (\<lparr>hrStatus = rpStatus r, hrRetryAfter = rpRetryAfter r, hrBody = GateRefusal (rpBody r)\<rparr>, s\<lparr>ppGate := g\<rparr>)
      | (None, g) \<Rightarrow> go (s\<lparr>ppGate := g\<rparr>))"

definition handleEnrollBegin ::
  "pair_env \<Rightarrow> (wa_error \<Rightarrow> string) \<Rightarrow> bool \<Rightarrow> string \<Rightarrow> string \<Rightarrow> string \<Rightarrow> string \<Rightarrow> PairServer \<Rightarrow> http_reply \<times> PairServer" where
  "handleEnrollBegin e wa_text isGet ip query header code s =
     (if ppStore s = None \<or> \<not> wlEnabled (peLib e) then (refuse 503 ''passkey disabled'', s)
      else if \<not> isGet then (refuse 405 ''method not allowed'', s)
      else if code = [] then (refuse 400 ''missing ticket'', s)
      else let (ok, cool) = cooldown_allow ip enrollBeginCooldown (pe_clocks e) (ppBeginCool s); s1 = s\<lparr>ppBeginCool := cool\<rparr>
        in if \<not> ok then rejectCooldown cool ip enrollBeginCooldown (peClk e 3) ''too many enroll attempts'' s1
           else gate_checked e query header ''webauthn_begin'' ip s1 (\<lambda>s2.
             let s3 = s2\<lparr>ppStore := PruneExpired (peClk e 5) (ppStore s2)\<rparr> in
             case peRand e 0 of
               None \<Rightarrow> (refuse 500 ''entropy error'', s3)
             | Some b \<Rightarrow>
                 (let challenge = raw_url_encode b; (r, st) = BindChallenge (peClk e 6) code challenge (ppStore s3)
                  in case r of
                       Inl err \<Rightarrow> (enrollFailure wa_text err, s3\<lparr>ppStore := st\<rparr>)
                     | Inr role \<Rightarrow>
                         (\<lparr>hrStatus = 200, hrRetryAfter = None,
                           hrBody = Options \<lparr>coChallenge = challenge, coRPID = wlRPID (peLib e),
                             coUserID = (case peRand e 1 of Some u \<Rightarrow> raw_url_encode u | None \<Rightarrow> []),
                             coUserName = role @ '':'' @ ShortN code 8, coTimeout = enrollChallengeTTL div second * 1000\<rparr>\<rparr>,
                          s3\<lparr>ppStore := st\<rparr>))))"

record finishRequest =
  fiTicket :: string
  fiID :: string
  fiClientData :: string
  fiAttestation :: string

definition finish_enrollment :: "pair_env \<Rightarrow> (wa_error \<Rightarrow> string) \<Rightarrow> finishRequest \<Rightarrow> PairServer \<Rightarrow> http_reply \<times> PairServer" where
  "finish_enrollment e wa_text q s =
     (case PendingInfo (peClk e 5) (fiTicket q) (ppStore s) of
        Inl err \<Rightarrow> (enrollFailure wa_text err, s)
      | Inr (_, boundChallenge) \<Rightarrow>
          (case parseCreationLib (peLib e) (fiClientData q) (fiAttestation q) boundChallenge (fiID q) of
             Inl err \<Rightarrow> (enrollFailure wa_text (errPasskey err), s)
           | Inr lc \<Rightarrow>
               (case CompleteEnrollment (peClk e 6) (fiTicket q)
                       \<lparr>wcCredentialID = lcCredentialID lc, wcPublicKey = raw_url_encode (lcPublicKey lc), wcSignCount = lcCounter lc,
                        wcBackupEligible = lcBackupEligible lc, wcBackupState = lcBackupState lc, wcLabel = [], wcAddedAt = [],
                        wcAttFormat = lcAttFormat lc\<rparr> (ppStore s) of
                  (Inl err, st) \<Rightarrow> (enrollFailure wa_text err, s\<lparr>ppStore := st\<rparr>)
                | (Inr _, st) \<Rightarrow> (\<lparr>hrStatus = 200, hrRetryAfter = None, hrBody = Enrolled (lcCredentialID lc)\<rparr>, s\<lparr>ppStore := st\<rparr>))))"

definition handleEnrollFinish ::
  "pair_env \<Rightarrow> (wa_error \<Rightarrow> string) \<Rightarrow> bool \<Rightarrow> string \<Rightarrow> string \<Rightarrow> string \<Rightarrow> finishRequest option \<Rightarrow> PairServer \<Rightarrow> http_reply \<times> PairServer" where
  "handleEnrollFinish e wa_text isPost ip query header body s =
     (if ppStore s = None \<or> \<not> wlEnabled (peLib e) then (refuse 503 ''passkey disabled'', s)
      else if \<not> isPost then (refuse 405 ''method not allowed'', s)
      else let (ok, cool) = cooldown_allow ip enrollFinishCooldown (pe_clocks e) (ppFinishCool s); s1 = s\<lparr>ppFinishCool := cool\<rparr>
        in if \<not> ok then rejectCooldown cool ip enrollFinishCooldown (peClk e 3) ''too many enroll attempts'' s1
           else gate_checked e query header ''webauthn_finish'' ip s1 (\<lambda>s2.
             case body of
               None \<Rightarrow> (refuse 400 ''bad payload'', s2)
             | Some q \<Rightarrow>
                 if fiTicket q = [] \<or> fiID q = [] \<or> fiClientData q = [] \<or> fiAttestation q = [] then (refuse 400 ''missing fields'', s2)
                 else finish_enrollment e wa_text q s2))"

end
