(* ===== verification/Passkey_Laws.thy ===== *)
theory Passkey_Laws
  imports Passkeys Machines
begin

text \<open>
  What the pairing of a desktop through a browser guarantees: every spent ticket was minted for that role and address,
  proved by an assertion over it, and is spent once. And what it does not do: a browser at another address cannot prove a
  ticket. Then the sign counters and the enrollment tickets of the credential store.
\<close>

subsection \<open>A log of what happened\<close>

datatype pair_fact =
    Minted string string string time
  | Proved string string wa_lib WAStoredCred pairSubmission
  | Spent string string string time

datatype pair_event =
    Ask pair_env bool string "string option"
  | Submission pair_env bool string "pairSubmission option"
  | Poll pair_env bool string string
  | Spend time string string
  | SweepTickets time

text \<open>The handlers as they run, each with what it adds to the log, newest first.\<close>

fun pair_step :: "pair_event \<Rightarrow> PairServer \<times> pair_fact list \<Rightarrow> PairServer \<times> pair_fact list" where
  "pair_step (Ask e post ip role) (s, l) =
     (case handlePairRequest e post ip role s of
        (r, s') \<Rightarrow> (s', case hrBody r of Offer tick _ _ \<Rightarrow> Minted tick (the role) ip (peClk e 5 + pairTicketTTL) # l | _ \<Rightarrow> l))"
| "pair_step (Submission e post ip body) (s, l) =
     (case handlePairSubmit e post ip body s of
        (r, s') \<Rightarrow>
          (s', if hrStatus r = 202
               then (let sub = the body; role = ptRole (the (map_of (ppTickets s) (smTicket sub)))
                     in Proved (smTicket sub) role (peLib e) (the (Credential role (smPasskeyID sub) (ppStore s))) sub) # l
               else l))"
| "pair_step (Poll e get ip tick) (s, l) = (snd (handlePairStatus e get ip tick s), l)"
| "pair_step (Spend now tick ip) (s, l) =
     (case takeVerifiedPairTicket now tick ip (ppTickets s) of
        (Inl _, ts) \<Rightarrow> (s\<lparr>ppTickets := ts\<rparr>, l)
      | (Inr t, ts) \<Rightarrow> (s\<lparr>ppTickets := ts\<rparr>, Spent tick (ptRole t) ip now # l))"
| "pair_step (SweepTickets now) (s, l) = (s\<lparr>ppTickets := prunePairTicketsLocked now (ppTickets s)\<rparr>, l)"

text \<open>A ticket minted from fresh random bytes is not one minted before.\<close>

fun fresh_ask :: "PairServer \<times> pair_fact list \<Rightarrow> pair_event \<Rightarrow> bool" where
  "fresh_ask (s, l) (Ask e post ip role) \<longleftrightarrow> (\<forall>b r a x. peRand e 0 = Some b \<longrightarrow> Minted (hex_encode b) r a x \<notin> set l)"
| "fresh_ask _ _ \<longleftrightarrow> True"

text \<open>What must be in the log before a fact: an assertion that verifies over the ticket; mint, proof and no spending.\<close>

fun backed :: "pair_fact list \<Rightarrow> pair_fact \<Rightarrow> bool" where
  "backed l (Minted tick role ip x) \<longleftrightarrow> (\<forall>r a y. Minted tick r a y \<notin> set l)"
| "backed l (Proved tick role lib cred sub) \<longleftrightarrow>
     (\<exists>counter. verifyAssertionLib lib cred tick (smAuthData sub) (smClientData sub) (smSig sub) role = Inr counter)"
| "backed l (Spent tick role ip now) \<longleftrightarrow>
     (\<exists>x. Minted tick role ip x \<in> set l \<and> now \<le> x) \<and> (\<exists>lib cred sub. Proved tick role lib cred sub \<in> set l) \<and>
     (\<forall>r a y. Spent tick r a y \<notin> set l)"

fun log_backed :: "pair_fact list \<Rightarrow> bool" where
  "log_backed [] = True"
| "log_backed (f # l) = (backed l f \<and> log_backed l)"

definition ticket_ok :: "pair_fact list \<Rightarrow> string \<times> pairTicket \<Rightarrow> bool" where
  "ticket_ok l e \<longleftrightarrow> (let (k, t) = e in
     Minted k (ptRole t) (ptIP t) (ptExpiresAt t) \<in> set l \<and>
     (ptVerified t \<longrightarrow> (\<exists>lib cred sub. Proved k (ptRole t) lib cred sub \<in> set l)) \<and>
     (\<not> ptConsumed t \<longrightarrow> (\<forall>r a y. Spent k r a y \<notin> set l)))"

definition pair_inv :: "PairServer \<times> pair_fact list \<Rightarrow> bool" where
  "pair_inv sl \<longleftrightarrow> distinct (map fst (ppTickets (fst sl))) \<and> (\<forall>e \<in> set (ppTickets (fst sl)). ticket_ok (snd sl) e) \<and>
     log_backed (snd sl) \<and> (\<forall>k r a y. Spent k r a y \<in> set (snd sl) \<longrightarrow> (\<exists>r a x. Minted k r a x \<in> set (snd sl)))"

lemma set_update: "distinct (map fst al) \<Longrightarrow> set (AList.update k v al) = {(k, v)} \<union> {e \<in> set al. fst e \<noteq> k}"
  by (induction al) (auto simp: image_iff)

lemma set_delete: "set (AList.delete k al) = {e \<in> set al. fst e \<noteq> k}"
  by (auto simp: AList.delete_eq)

lemma live_cases:
  assumes "livePairTicketLocked now tick ip ts = (r, ts')"
  shows "ts' = ts \<or> ts' = AList.delete tick ts"
    and "r = Inr t \<Longrightarrow> map_of ts tick = Some t \<and> \<not> ptConsumed t \<and> now \<le> ptExpiresAt t \<and> ptIP t = ip \<and> ts' = ts"
  using assms by (auto simp: livePairTicketLocked_def split: option.splits if_splits)

lemma fewer_tickets: "pair_inv (s, l) \<Longrightarrow> set ts \<subseteq> set (ppTickets s) \<Longrightarrow> distinct (map fst ts) \<Longrightarrow> pair_inv (s\<lparr>ppTickets := ts\<rparr>, l)"
  by (auto simp: pair_inv_def)

lemma same_tickets: "pair_inv (s, l) \<Longrightarrow> ppTickets s' = ppTickets s \<Longrightarrow> pair_inv (s', l)"
  by (simp add: pair_inv_def)

lemma pruned_inv: "pair_inv (s, l) \<Longrightarrow> pair_inv (s\<lparr>ppTickets := prunePairTicketsLocked now (ppTickets s)\<rparr>, l)"
  by (rule fewer_tickets) (auto simp: prunePairTicketsLocked_def pair_inv_def distinct_map_filter)

lemma live_inv: "pair_inv (s, l) \<Longrightarrow> livePairTicketLocked now tick ip (ppTickets s) = (r, ts) \<Longrightarrow> pair_inv (s\<lparr>ppTickets := ts\<rparr>, l)"
  using live_cases(1) [of now tick ip "ppTickets s" r ts]
  by (auto intro!: fewer_tickets simp: set_delete pair_inv_def distinct_delete)

lemma ask_cases:
  assumes "handlePairRequest e post ip role s = (r, s')"
  obtains (none) "ppTickets s' = ppTickets s \<or> ppTickets s' = prunePairTicketsLocked (peClk e 4) (ppTickets s)"
      "\<And>tick url ttl. hrBody r \<noteq> Offer tick url ttl"
  | (offer) b q url ttl where "peRand e 0 = Some b" "role = Some q" "hrBody r = Offer (hex_encode b) url ttl"
      "ppTickets s' = AList.update (hex_encode b) \<lparr>ptExpiresAt = peClk e 5 + pairTicketTTL, ptRole = q, ptIP = ip,
         ptVerified = False, ptConsumed = False\<rparr> (prunePairTicketsLocked (peClk e 4) (ppTickets s))"
  using assms
  by (auto simp: handlePairRequest_def Let_def rejectCooldown_def issuePairTicket_def split: if_splits option.splits prod.splits
      pair_error.splits)

lemma submit_cases:
  assumes "handlePairSubmit e post ip body s = (r, s')"
  obtains (refused) tick where "hrStatus r \<noteq> 202" "ppTickets s' = ppTickets s \<or> ppTickets s' = AList.delete tick (ppTickets s)"
  | (proved) sub t cred counter where "hrStatus r = 202" "body = Some sub" "map_of (ppTickets s) (smTicket sub) = Some t"
      "ptIP t = ip" "Credential (ptRole t) (smPasskeyID sub) (ppStore s) = Some cred"
      "verifyAssertionLib (peLib e) cred (smTicket sub) (smAuthData sub) (smClientData sub) (smSig sub) (ptRole t) = Inr counter"
      "ppTickets s' = snd (markPairVerified (peClk e 5) (smTicket sub) (ppTickets s))"
proof (cases "ppStore s = None \<or> \<not> wlEnabled (peLib e) \<or> \<not> post \<or> \<not> fst (cooldown_allow ip pairSubmitCooldown (pe_clocks e) (ppSubmitCool s)) \<or> body = None")
  case True
  then show thesis using assms refused
    by (auto simp: handlePairSubmit_def rejectCooldown_def Let_def split: prod.splits if_splits)
next
  case False
  then obtain sub where sub: "body = Some sub" by blast
  obtain cool where c: "cooldown_allow ip pairSubmitCooldown (pe_clocks e) (ppSubmitCool s) = (True, cool)" using False by (metis prod.collapse)
  obtain lr ts where l: "livePairTicketLocked (peClk e 4) (smTicket sub) ip (ppTickets s) = (lr, ts)" by fastforce
  show thesis
  proof (cases "\<exists>t. lr = Inr t \<and> \<not> (smTicket sub = [] \<or> smPasskeyID sub = [] \<or> smAuthData sub = [] \<or> smClientData sub = [] \<or> smSig sub = [])")
    case True
    then obtain t where t: "lr = Inr t" by blast
    note live = live_cases(2) [OF l t]
    let ?s = "s\<lparr>ppSubmitCool := cool, ppTickets := ts\<rparr>"
    have sv: "submit_verified e sub (ptRole t) ?s = (r, s')"
      using assms False c sub l t True by (auto simp: handlePairSubmit_def pairTicketFor_def)
    then have "hrStatus r \<noteq> 202 \<and> ppTickets s' = ppTickets s \<or> hrStatus r = 202 \<and>
        (\<exists>cred counter. Credential (ptRole t) (smPasskeyID sub) (ppStore s) = Some cred \<and>
          verifyAssertionLib (peLib e) cred (smTicket sub) (smAuthData sub) (smClientData sub) (smSig sub) (ptRole t) = Inr counter \<and>
          ppTickets s' = snd (markPairVerified (peClk e 5) (smTicket sub) (ppTickets s)))"
      using live by (auto simp: submit_verified_def Let_def split: option.splits sum.splits if_splits prod.splits)
    then show thesis using refused [of "smTicket sub"] proved [OF _ sub, of t] live by blast
  next
    case no: False
    then show thesis using assms False c sub l refused [of "smTicket sub"] live_cases(1) [OF l]
      by (cases lr) (auto simp: handlePairSubmit_def pairTicketFor_def Let_def split: if_splits)
  qed
qed

lemma status_cases: "handlePairStatus e get ip tick s = (r, s') \<Longrightarrow> ppTickets s' = ppTickets s \<or> ppTickets s' = AList.delete tick (ppTickets s)"
  by (auto simp: handlePairStatus_def Let_def rejectCooldown_def pairTicketFor_def livePairTicketLocked_def
      split: if_splits prod.splits option.splits sum.splits)

lemma ticket_ok_more: "ticket_ok l e \<Longrightarrow> \<forall>r a y. f \<noteq> Spent (fst e) r a y \<Longrightarrow> ticket_ok (f # l) e"
  by (cases e) (auto simp: ticket_ok_def)

lemma fewer_inv: "pair_inv (s, l) \<Longrightarrow> ppTickets s' = ppTickets s \<or> ppTickets s' = AList.delete tick (ppTickets s) \<Longrightarrow> pair_inv (s', l)"
  using fewer_tickets [of s l "ppTickets s'"] by (auto simp: pair_inv_def set_delete distinct_delete)

text \<open>A new fact, with one ticket changed (or none).\<close>

lemma update_inv:
  assumes inv: "pair_inv (s, l)" and f: "backed l f" "ticket_ok (f # l) (k, t)" "\<forall>j r a y. f = Spent j r a y \<longrightarrow> j = k"
    and t: "ppTickets s' = AList.update k t (ppTickets s)"
  shows "pair_inv (s', f # l)"
proof -
  have d: "distinct (map fst (ppTickets s))" and ok: "\<forall>e \<in> set (ppTickets s). ticket_ok l e" and b: "log_backed l"
    and m: "\<forall>k r a y. Spent k r a y \<in> set l \<longrightarrow> (\<exists>r a x. Minted k r a x \<in> set l)"
    using inv by (simp_all add: pair_inv_def)
  have "ticket_ok (f # l) e" if "e \<in> set (ppTickets s')" for e
    using that f(2,3) ok unfolding t set_update [OF d] by (auto intro: ticket_ok_more)
  moreover have "\<exists>r a x. Minted j r a x \<in> set (f # l)" if "Spent j r a y \<in> set (f # l)" for j r a y
    using that m f(1) by (cases f) (simp; blast)+
  ultimately show ?thesis using d b f(1) unfolding pair_inv_def t by (simp add: distinct_update t)
qed

lemma fact_inv: "pair_inv (s, l) \<Longrightarrow> backed l f \<Longrightarrow> \<forall>j r a y. f \<noteq> Spent j r a y \<Longrightarrow> ppTickets s' = ppTickets s \<Longrightarrow> pair_inv (s', f # l)"
  unfolding pair_inv_def fst_conv snd_conv by (metis (no_types, lifting) list.set_intros(2) log_backed.simps(2) set_ConsD ticket_ok_more)

lemma mint_inv:
  assumes inv: "pair_inv (s, l)" and new: "\<forall>r a x. Minted k r a x \<notin> set l"
    and t: "ppTickets s' = AList.update k \<lparr>ptExpiresAt = x, ptRole = q, ptIP = ip, ptVerified = False, ptConsumed = False\<rparr> (prunePairTicketsLocked now (ppTickets s))"
  shows "pair_inv (s', Minted k q ip x # l)"
proof -
  have "\<forall>r a y. Spent k r a y \<notin> set l" using inv new unfolding pair_inv_def snd_conv by blast
  with new show ?thesis
    by (intro update_inv [OF pruned_inv [OF inv, of now], where k = k and t = "\<lparr>ptExpiresAt = x, ptRole = q, ptIP = ip, ptVerified = False, ptConsumed = False\<rparr>"])
       (auto simp: ticket_ok_def t)
qed

lemma pair_step_inv: "pair_inv sl \<Longrightarrow> fresh_ask sl ev \<Longrightarrow> pair_inv (pair_step ev sl)"
proof -
  obtain s l where sl: "sl = (s, l)" by fastforce
  assume inv: "pair_inv sl" and fresh: "fresh_ask sl ev"
  have inv: "pair_inv (s, l)" using inv sl by simp
  show "pair_inv (pair_step ev sl)"
  proof (cases ev)
    case (Ask e post ip role)
    obtain r s' where h: "handlePairRequest e post ip role s = (r, s')" by fastforce
    from h show ?thesis
    proof (cases rule: ask_cases)
      case none
      have "pair_inv (s', l)" using none(1) same_tickets [OF inv] same_tickets [OF pruned_inv [OF inv]] by auto
      then show ?thesis using h none(2) by (simp add: sl Ask split: pair_body.split)
    next
      case (offer b q url ttl)
      then show ?thesis using mint_inv [OF inv _ offer(4)] fresh h by (auto simp: sl Ask)
    qed
  next
    case (Submission e post ip body)
    obtain r s' where h: "handlePairSubmit e post ip body s = (r, s')" by fastforce
    from h show ?thesis
    proof (cases rule: submit_cases)
      case (refused tick)
      then show ?thesis using fewer_inv [OF inv] h by (simp add: sl Submission)
    next
      case (proved sub t cred counter)
      let ?f = "Proved (smTicket sub) (ptRole t) (peLib e) cred sub"
      have k: "(smTicket sub, t) \<in> set (ppTickets s)" using proved(3) by (rule map_of_SomeD)
      have ok: "ticket_ok l (sbT, t)" if "sbT = smTicket sub" for sbT using inv k that by (auto simp: pair_inv_def)
      have "pair_inv (s', ?f # l)"
      proof (cases "ptConsumed t \<or> peClk e 5 > ptExpiresAt t")
        case True
        then show ?thesis using proved(3,6,7) by (intro fact_inv [OF inv]) (auto simp: markPairVerified_def)
      next
        case False
        then have "ppTickets s' = AList.update (smTicket sub) (t\<lparr>ptVerified := True\<rparr>) (ppTickets s)"
          using proved(3,7) by (simp add: markPairVerified_def)
        then show ?thesis using proved(6) ok [OF refl] by (intro update_inv [OF inv]) (auto simp: ticket_ok_def)
      qed
      then show ?thesis using h proved by (simp add: sl Submission Let_def)
    qed
  next
    case (Poll e get ip tick)
    obtain r s' where h: "handlePairStatus e get ip tick s = (r, s')" by fastforce
    then show ?thesis using fewer_inv [OF inv status_cases [OF h]] by (simp add: sl Poll)
  next
    case (Spend now tick ip)
    obtain r ts where l: "livePairTicketLocked now tick ip (ppTickets s) = (r, ts)" by fastforce
    show ?thesis
    proof (cases "\<exists>t. r = Inr t \<and> ptVerified t")
      case True
      then obtain t where t: "r = Inr t" "ptVerified t" by blast
      note live = live_cases(2) [OF l t(1)]
      have k: "(tick, t) \<in> set (ppTickets s)" using live by (auto dest: map_of_SomeD)
      have ok: "ticket_ok l (tick, t)" using inv k by (auto simp: pair_inv_def)
      have "pair_inv (s\<lparr>ppTickets := AList.update tick (t\<lparr>ptConsumed := True\<rparr>) (ppTickets s)\<rparr>, Spent tick (ptRole t) ip now # l)"
        by (rule update_inv [OF inv]) (use ok live t(2) in \<open>auto simp: ticket_ok_def\<close>)
      then show ?thesis using l t live by (simp add: sl Spend takeVerifiedPairTicket_def)
    next
      case False
      then show ?thesis using live_inv [OF inv l] l by (cases r) (auto simp: sl Spend takeVerifiedPairTicket_def)
    qed
  next
    case (SweepTickets now)
    then show ?thesis using pruned_inv [OF inv] by (simp add: sl)
  qed
qed

interpretation pairing: machine pair_step fresh_ask pair_inv
  by unfold_locales (rule pair_step_inv)

lemma log_backed_split: "log_backed (l2 @ f # l1) \<Longrightarrow> backed l1 f \<and> log_backed l1"
  by (induction l2) auto

lemma log_backed_later: "log_backed (l2 @ f # l1) \<Longrightarrow> g \<in> set l2 \<Longrightarrow> \<exists>l. backed l g \<and> f \<in> set l"
proof (induction l2)
  case (Cons h l2)
  show ?case
  proof (cases "g = h")
    case True
    then show ?thesis using Cons.prems(1) by (intro exI [of _ "l2 @ f # l1"]) simp
  qed (use Cons in auto)
qed simp

lemma log_backed_in: "log_backed l \<Longrightarrow> f \<in> set l \<Longrightarrow> \<exists>l'. backed l' f"
  by (induction l) auto

subsection \<open>A pairing run\<close>

definition ex_pair_env :: "bytes \<Rightarrow> pair_env" where
  "ex_pair_env rnd = \<lparr>peClk = (\<lambda>_. 100 * second), peRand = (\<lambda>_. Some rnd), peAbuse = None,
     peLib = \<lparr>wlEnabled = True, wlReady = True, wlOrigin = ''https://chat'', wlRPID = ''chat'',
       wlLogin = (\<lambda>_ a _ _ ls. if a = ''auth'' \<and> lsName ls = ''admin'' then LoginValid 7 True else LoginRejected),
       wlCreate = (\<lambda>_ _ _ _ _. CreationRejected)\<rparr>\<rparr>"

definition ex_passkey :: WAStoredCred where
  "ex_passkey = \<lparr>wcCredentialID = ''AAAA'', wcPublicKey = ''AAAA'', wcSignCount = 3, wcBackupEligible = False, wcBackupState = False,
     wcLabel = [], wcAddedAt = [], wcAttFormat = ''none''\<rparr>"

definition ex_pair_server :: PairServer where
  "ex_pair_server = \<lparr>ppTickets = [],
     ppStore = Some \<lparr>wsFile = Some \<lparr>wfPending = [], wfCredentials = (\<lambda>r. if r = ''admin'' then [ex_passkey] else [])\<rparr>, wsWritable = True\<rparr>,
     ppRoles = [''admin'' \<mapsto> \<lparr>rdIdentities = [], rdPermission = undefined\<rparr>],
     ppRequestCool = [], ppSubmitCool = [], ppStatusCool = [], ppBeginCool = [], ppFinishCool = [],
     ppGate = \<lparr>svGate = None, svAttack = None, svBehavior = None,
       svRejects = \<lparr>rsCooldown = 0, rsPerIP = 0, rsGate = 0, rsFull = 0, rsDrops = 0\<rparr>, svClients = 0, svInflight = 0, svServerID = None\<rparr>\<rparr>"

definition ex_submission :: pairSubmission where
  "ex_submission = \<lparr>smTicket = ''54'', smPasskeyID = ''AAAA'', smAuthData = ''auth'', smClientData = ''client'', smSig = ''sig''\<rparr>"

definition ex_pair_events :: "pair_event list" where
  "ex_pair_events = [Ask (ex_pair_env ''T'') True ''1.2.3.4'' (Some ''admin''), Spend (101 * second) ''54'' ''1.2.3.4'',
     Submission (ex_pair_env ''T'') True ''1.2.3.4'' (Some ex_submission), Spend (102 * second) ''54'' ''9.9.9.9'',
     Spend (103 * second) ''54'' ''1.2.3.4'', Spend (104 * second) ''54'' ''1.2.3.4'']"

text \<open>
  C24. A pairing ticket opens one session at most, and only an earned one. Run the pairing endpoints and the login that
  spends tickets in any order, with any requests from any addresses: whenever a ticket is spent, it was minted before for
  that very role and address and its time is not over, a browser had proved it with an assertion that the library accepts
  over this ticket and this role, and it is never spent again. New tickets are taken to be unused random values.
\<close>

theorem pair_session_is_earned:
  assumes "pairing.admissible (s, []) evs" "ppTickets s = []"
    and "snd (fold pair_step evs (s, [])) = l2 @ Spent tick role ip now # l1"
  shows "(\<exists>x. Minted tick role ip x \<in> set l1 \<and> now \<le> x) \<and>
    (\<exists>lib cred sub counter. Proved tick role lib cred sub \<in> set l1 \<and>
       verifyAssertionLib lib cred tick (smAuthData sub) (smClientData sub) (smSig sub) role = Inr counter) \<and>
    (\<forall>r a y. Spent tick r a y \<notin> set l1 \<and> Spent tick r a y \<notin> set l2)"
proof -
  have "pair_inv (s, [])" using assms(2) by (simp add: pair_inv_def)
  then have "pair_inv (fold pair_step evs (s, []))" by (rule pairing.run_inv [OF _ assms(1)])
  then have b: "log_backed (l2 @ Spent tick role ip now # l1)" using assms(3) by (simp add: pair_inv_def)
  from log_backed_split [OF b] have spent: "backed l1 (Spent tick role ip now)" and l1: "log_backed l1" by auto
  from spent obtain lib cred sub where p: "Proved tick role lib cred sub \<in> set l1" by auto
  from log_backed_in [OF l1 p] obtain counter
    where "verifyAssertionLib lib cred tick (smAuthData sub) (smClientData sub) (smSig sub) role = Inr counter" by auto
  moreover have "Spent tick r a y \<notin> set l2" for r a y using log_backed_later [OF b, of "Spent tick r a y"] by auto
  ultimately show ?thesis using spent p by auto
qed

lemmas ex_pair = ex_pair_env_def ex_passkey_def ex_pair_server_def ex_submission_def pe_clocks_def cooldown_allow_def

lemma ex_ticket: "hex_encode ''T'' = ''54''" by code_simp

lemma ex_pair_run: "\<exists>p m. snd (fold pair_step ex_pair_events (ex_pair_server, [])) = [Spent ''54'' ''admin'' ''1.2.3.4'' (103 * second), p, m]"
  by (simp add: ex_pair ex_pair_events_def ex_ticket handlePairRequest_def issuePairTicket_def prunePairTicketsLocked_def pairMaxPending_def
      DefaultPairMaxPending_def handlePairSubmit_def pairTicketFor_def livePairTicketLocked_def takeVerifiedPairTicket_def
      submit_verified_def verifyAssertionLib_def Credential_def wa_view_def UpdateSignCount_def wa_mutate_def markPairVerified_def
      pairTicketTTL_def raw_url_decode_def b64_alphabet_def maxCredentialIDLen_def minute_def second_def Let_def del: hex_encode.simps)

theorem pair_session_is_earned_witness:
  "case snd (fold pair_step ex_pair_events (ex_pair_server, [])) of
     [Spent tick role ip now, p, m] \<Rightarrow> tick = ''54'' \<and> role = ''admin'' \<and> ip = ''1.2.3.4'' \<and> now = 103 * second \<and>
       (\<exists>x. Minted ''54'' ''admin'' ''1.2.3.4'' x \<in> {p, m} \<and> now \<le> x) \<and> (\<exists>lib cred sub. Proved ''54'' ''admin'' lib cred sub \<in> {p, m})
   | _ \<Rightarrow> False"
proof -
  let ?run = "fold pair_step ex_pair_events (ex_pair_server, [])"
  have "pairing.admissible (ex_pair_server, []) ex_pair_events" by (simp add: ex_pair_events_def)
  note earned = pair_session_is_earned [OF this, of "[]" "''54''" "''admin''" "''1.2.3.4''" "103 * second"]
  obtain p m where l: "snd ?run = [Spent ''54'' ''admin'' ''1.2.3.4'' (103 * second), p, m]" using ex_pair_run by blast
  then show ?thesis using earned [of "[p, m]"] by (auto simp: ex_pair_server_def)
qed

text \<open>
  A browser at another address can never prove a ticket, whatever passkey it holds: the submission is answered without
  being verified, and no ticket becomes verified by it.
\<close>

theorem submission_from_elsewhere_is_refused:
  assumes "map_of (ppTickets s) (smTicket sub) = Some t" "ptIP t \<noteq> ip" "distinct (map fst (ppTickets s))"
    and "handlePairSubmit e True ip (Some sub) s = (r, s')"
  shows "hrStatus r \<noteq> 202 \<and> ppStore s' = ppStore s \<and> set (ppTickets s') \<subseteq> set (ppTickets s)"
proof -
  obtain lr ts where l: "livePairTicketLocked (peClk e 4) (smTicket sub) ip (ppTickets s) = (lr, ts)" by fastforce
  have "\<exists>x. lr = Inl x" using live_cases(2) [OF l] assms(1,2) by (cases lr) auto
  moreover have "set ts \<subseteq> set (ppTickets s)" using live_cases(1) [OF l] by (auto simp: set_delete)
  ultimately show ?thesis using assms(4) l
    by (auto simp: handlePairSubmit_def pairTicketFor_def rejectCooldown_def Let_def split: prod.splits if_splits)
qed

theorem submission_from_elsewhere_is_refused_witness:
  "let s = ex_pair_server\<lparr>ppTickets := [(''54'', \<lparr>ptExpiresAt = 400 * second, ptRole = ''admin'', ptIP = ''1.2.3.4'', ptVerified = False, ptConsumed = False\<rparr>)]\<rparr>
   in hrStatus (fst (handlePairSubmit (ex_pair_env ''T'') True ''9.9.9.9'' (Some ex_submission) s)) \<noteq> 202"
proof -
  let ?t = "\<lparr>ptExpiresAt = 400 * second, ptRole = ''admin'', ptIP = ''1.2.3.4'', ptVerified = False, ptConsumed = False\<rparr>"
  let ?s = "ex_pair_server\<lparr>ppTickets := [(''54'', ?t)]\<rparr>"
  have "map_of (ppTickets ?s) (smTicket ex_submission) = Some ?t" by (simp add: ex_submission_def)
  from submission_from_elsewhere_is_refused [OF this, of "''9.9.9.9''" "ex_pair_env ''T''"] show ?thesis
    by (cases "handlePairSubmit (ex_pair_env ''T'') True ''9.9.9.9'' (Some ex_submission) ?s") simp
qed

subsection \<open>Sign counters\<close>

fun stored_count :: "string \<Rightarrow> string \<Rightarrow> WebAuthnStore option \<Rightarrow> u32 option" where
  "stored_count role i st = map_option wcSignCount (Credential role i st)"

lemma find_set_first:
  "\<forall>x. P x \<longrightarrow> P (f x) \<Longrightarrow> find P (set_first P f xs) = map_option f (find P xs)"
  by (induction xs) auto

lemma update_count:
  assumes "UpdateSignCount role i n st = (Inr (), st')"
  shows "\<exists>old. stored_count role i st = Some old \<and> (n = 0 \<or> old = 0 \<or> old < n) \<and> stored_count role i st' = Some (if n = 0 then old else n)"
proof -
  obtain s fl where s: "st = Some s" "wsFile s = Some fl"
    using assms by (auto simp: UpdateSignCount_def wa_mutate_def split: option.splits)
  obtain c where c: "find (\<lambda>c. wcCredentialID c = i) (wfCredentials fl role) = Some c"
    using assms s by (auto simp: UpdateSignCount_def wa_mutate_def split: option.splits)
  have "n = 0 \<or> wcSignCount c = 0 \<or> wcSignCount c < n"
    using assms s c by (auto simp: UpdateSignCount_def wa_mutate_def not_le split: if_splits)
  moreover have "stored_count role i st' = Some (if n = 0 then wcSignCount c else n)"
    using assms s c by (auto simp: UpdateSignCount_def wa_mutate_def Credential_def wa_view_def find_set_first split: if_splits)
  ultimately show ?thesis using s c by (simp add: Credential_def wa_view_def)
qed

lemma update_count_refused: "UpdateSignCount role i n st = (Inl err, st') \<Longrightarrow> st' = st"
  by (auto simp: UpdateSignCount_def wa_mutate_def split: option.splits sum.splits if_splits prod.splits)

fun accepted_counts :: "string \<Rightarrow> string \<Rightarrow> u32 list \<Rightarrow> WebAuthnStore option \<Rightarrow> u32 list" where
  "accepted_counts role i [] st = []"
| "accepted_counts role i (n # ns) st =
     (case UpdateSignCount role i n st of
        (Inr _, st') \<Rightarrow> (if n = 0 then [] else [n]) @ accepted_counts role i ns st'
      | (Inl _, st') \<Rightarrow> accepted_counts role i ns st')"

text \<open>The counters a credential is ever accepted with, zero aside, strictly increase; none is reused.\<close>

lemma accepted_counts_increase:
  "sorted_wrt (<) (accepted_counts role i ns st) \<and>
   (\<forall>old. stored_count role i st = Some old \<longrightarrow> old = 0 \<or> (\<forall>n \<in> set (accepted_counts role i ns st). old < n))"
proof (induction ns arbitrary: st)
  case (Cons n ns)
  obtain r st' where u: "UpdateSignCount role i n st = (r, st')" by fastforce
  show ?case
  proof (cases r)
    case (Inl e)
    then show ?thesis using Cons [of st] update_count_refused [of role i n st e st'] u by auto
  next
    case (Inr x)
    then have u': "UpdateSignCount role i n st = (Inr (), st')" using u by simp
    from update_count [OF u'] obtain old where old: "stored_count role i st = Some old" "n = 0 \<or> old = 0 \<or> old < n"
        "stored_count role i st' = Some (if n = 0 then old else n)" by blast
    have bound: "\<forall>m \<in> set (accepted_counts role i ns st'). n < m" if "n \<noteq> 0" using Cons [of st'] old(3) that by (simp del: stored_count.simps)
    show ?thesis
    proof (cases "n = 0")
      case True
      then show ?thesis using Cons [of st'] old(1,3) u' by (simp del: stored_count.simps)
    next
      case False
      have "old = 0 \<or> (\<forall>m \<in> set (n # accepted_counts role i ns st'). old < m)"
        using bound [OF False] old(2) False less_trans by auto
      then show ?thesis using Cons [of st'] old(1) u' False bound [OF False] by (simp del: stored_count.simps)
    qed
  qed
qed simp

subsection \<open>Enrollment tickets\<close>

text \<open>A ticket whose challenge was never bound is finished against the empty challenge.\<close>

lemma unbound_ticket_finishes:
  assumes "PendingInfo (peClk e 5) (fiTicket q) (ppStore s) = Inr (role, [])"
    and "parseCreationLib (peLib e) (fiClientData q) (fiAttestation q) [] (fiID q) = Inr lc"
    and "CompleteEnrollment (peClk e 6) (fiTicket q)
           \<lparr>wcCredentialID = lcCredentialID lc, wcPublicKey = raw_url_encode (lcPublicKey lc), wcSignCount = lcCounter lc,
            wcBackupEligible = lcBackupEligible lc, wcBackupState = lcBackupState lc, wcLabel = [], wcAddedAt = [],
            wcAttFormat = lcAttFormat lc\<rparr> (ppStore s) = (Inr (), st)"
  shows "finish_enrollment e wa_text q s =
    (\<lparr>hrStatus = 200, hrRetryAfter = None, hrBody = Enrolled (lcCredentialID lc)\<rparr>, s\<lparr>ppStore := st\<rparr>)"
  using assms by (simp add: finish_enrollment_def)

definition spent_code :: "string \<Rightarrow> WebAuthnStore option \<Rightarrow> bool" where
  "spent_code code st \<longleftrightarrow> (\<forall>s fl p. st = Some s \<longrightarrow> wsFile s = Some fl \<longrightarrow> find (\<lambda>p. wpCode p = code) (wfPending fl) = Some p \<longrightarrow> wpUsed p)"

lemma find_append: "find P (xs @ ys) = (case find P xs of Some x \<Rightarrow> Some x | None \<Rightarrow> find P ys)"
  by (induction xs) auto

lemma find_other: "\<forall>x. P x \<longrightarrow> \<not> Q x \<Longrightarrow> \<forall>x. Q (f x) = Q x \<and> P (f x) = P x \<Longrightarrow> find Q (set_first P f xs) = find Q xs"
  by (induction xs) auto

end
