(* ===== verification/Auth.thy ===== *)
theory Auth
  imports Passkeys Chat_Server
begin

text \<open>
  The handshake of \<^verbatim>\<open>src/server/auth.go\<close>: the challenge with its nonce, the guest, key-file, passkey and pairing
  logins, penalties and bans, the session that comes out, and the sweeps of \<^verbatim>\<open>src/server/main.go\<close>. Between challenge and
  answer other connections run, so the two halves of \<open>HandleAuth\<close> are steps of their own. ed25519, HMAC-SHA512,
  \<open>strings.EqualFold\<close> and the texts of socket errors are arguments. Log lines are left out.
\<close>

subsection \<open>Packets and errors\<close>

record AuthPacket =
  apType :: string
  apNonce :: string
  apRole :: string
  apSignature :: string
  apHmac :: string
  apUsername :: string
  apTripcode :: string
  apTripPub :: string
  apPasskeyID :: string
  apPasskeyAuthData :: string
  apPasskeyClientData :: string
  apPasskeySig :: string
  apServerPubKey :: string
  apServerSig :: string
  apServerHost :: string
  apTripSalt :: string
  apError :: string
  apIdentityPub :: string
  apAuthType :: string
  apPerms :: "Permission option"
  apTripSeq :: u32
  apTripPrev :: string
  apHistoryJoins :: bool
  apPlatform :: string
  apPairTicket :: string

definition no_packet :: AuthPacket where
  "no_packet = \<lparr>apType = [], apNonce = [], apRole = [], apSignature = [], apHmac = [], apUsername = [], apTripcode = [],
     apTripPub = [], apPasskeyID = [], apPasskeyAuthData = [], apPasskeyClientData = [], apPasskeySig = [],
     apServerPubKey = [], apServerSig = [], apServerHost = [], apTripSalt = [], apError = [], apIdentityPub = [],
     apAuthType = [], apPerms = None, apTripSeq = 0, apTripPrev = [], apHistoryJoins = False, apPlatform = [],
     apPairTicket = []\<rparr>"

text \<open>What a socket call fails with: a \<open>net.Error\<close>, the two end-of-file errors, the \<open>CloseError\<close> of the websocket
  library (a close frame, or a connection that ends without one), or another error (JSON, the read limit).\<close>

datatype io_error = NetError | EOF | UnexpectedEOF | CloseError | OtherError

datatype auth_error = ErrEntropyExhaustion | ErrPayloadTooLarge | ErrInvalidRoleLength | ErrInvalidNonce | ErrExpiredNonce
  | ErrIPMismatch | ErrPasskeyDisabled | ErrInvalidRole | ErrVerificationFailed | ErrInvalidSignature | ErrTripcodeTooLong
  | ErrTicketExpired | ErrTicketUnknown | ErrIO io_error

fun auth_error_text :: "(io_error \<Rightarrow> string) \<Rightarrow> auth_error \<Rightarrow> string" where
  "auth_error_text io ErrEntropyExhaustion = ''auth_error: entropy_exhaustion''"
| "auth_error_text io ErrPayloadTooLarge = ''auth_error: payload_too_large''"
| "auth_error_text io ErrInvalidRoleLength = ''auth_error: invalid_role_length''"
| "auth_error_text io ErrInvalidNonce = ''auth_error: invalid_nonce''"
| "auth_error_text io ErrExpiredNonce = ''auth_error: expired_nonce''"
| "auth_error_text io ErrIPMismatch = ''auth_error: ip_mismatch''"
| "auth_error_text io ErrPasskeyDisabled = ''auth_error: passkey_disabled''"
| "auth_error_text io ErrInvalidRole = ''auth_error: invalid_role''"
| "auth_error_text io ErrVerificationFailed = ''auth_error: verification_failed''"
| "auth_error_text io ErrInvalidSignature = ''auth_error: invalid_signature''"
| "auth_error_text io ErrTripcodeTooLong = ''auth_error: tripcode_too_long''"
| "auth_error_text io ErrTicketExpired = ''auth_error: pair_expired''"
| "auth_error_text io ErrTicketUnknown = ''auth_error: pair_unknown''"
| "auth_error_text io (ErrIO e) = io e"

subsection \<open>State and environment\<close>

record NonceMeta =
  nmExpiresAt :: time
  nmIP :: string

record AuthServer =
  auChat :: ChatServer
  auTickets :: PairTickets
  auStore :: "WebAuthnStore option"
  auRoles :: "string \<rightharpoonup> RoleDefinition"
  auNonces :: "(string \<times> NonceMeta) list"
  auFails :: "(string \<times> RateLimitRecord) list"
  auLastConnect :: "(string \<times> time) list"
  auRejects :: RejectStat
  auSalt :: bytes

record au_env =
  aeSv :: sv_env
  aeLib :: wa_lib
  aeHmac512 :: "bytes \<Rightarrow> bytes \<Rightarrow> bytes"
  aeFold :: "string \<Rightarrow> string \<Rightarrow> bool"
  aeTripSalt :: string
  aeOnionPasskey :: bool
  aeIOText :: "io_error \<Rightarrow> string"

definition GetDefaultPermission :: Permission where
  "GetDefaultPermission = \<lparr>canMessageUnlimited = False, customPrefix = []\<rparr>"

subsection \<open>The challenge\<close>

definition server_proof :: "string \<Rightarrow> string \<Rightarrow> bytes" where
  "server_proof nonceHex host = ''V2V-SERVER-v1'' @ [NUL] @ nonceHex @ [NUL] @ host"

definition server_sig :: "au_env \<Rightarrow> string \<Rightarrow> string \<Rightarrow> ChatServer \<Rightarrow> string" where
  "server_sig ev nonceHex host s =
     (case cvServerID s of
        None \<Rightarrow> []
      | Some (_, priv) \<Rightarrow>
          (case hex_decode priv of
             None \<Rightarrow> []
           | Some k \<Rightarrow> if length k = 64 then hex_encode (xSign (aeSv ev) k (server_proof nonceHex host)) else []))"

definition auth_challenge :: "au_env \<Rightarrow> string \<Rightarrow> string \<Rightarrow> AuthServer \<Rightarrow> (auth_error + AuthPacket) \<times> AuthServer" where
  "auth_challenge ev ip host s =
     (case xRand (aeSv ev) 0 of
        None \<Rightarrow> (Inl ErrEntropyExhaustion, s)
      | Some b \<Rightarrow>
          (let nonceHex = hex_encode b
           in (Inr (no_packet\<lparr>apType := ''auth_challenge'', apNonce := nonceHex, apServerPubKey := chat_serverPub (auChat s),
                 apServerSig := server_sig ev nonceHex host (auChat s), apServerHost := host, apTripSalt := aeTripSalt ev\<rparr>),
               s\<lparr>auNonces := AList.update nonceHex \<lparr>nmExpiresAt = xClk (aeSv ev) 0 + 10 * second, nmIP = ip\<rparr> (auNonces s)\<rparr>)))"

subsection \<open>The answer\<close>

type_synonym auth_result = "Permission \<times> AuthPacket \<times> auth_error option"

abbreviation denied :: "AuthPacket \<Rightarrow> auth_error \<Rightarrow> auth_result" where
  "denied resp e \<equiv> (GetDefaultPermission, resp, Some e)"

definition consumeNonce ::
  "time \<Rightarrow> string \<Rightarrow> string \<Rightarrow> (string \<times> NonceMeta) list \<Rightarrow> auth_error option \<times> (string \<times> NonceMeta) list" where
  "consumeNonce now ip nonceHex ns =
     (case map_of ns nonceHex of
        None \<Rightarrow> (Some ErrInvalidNonce, ns)
      | Some meta \<Rightarrow>
          (if now > nmExpiresAt meta then Some ErrExpiredNonce else if nmIP meta \<noteq> ip then Some ErrIPMismatch else None,
           AList.delete nonceHex ns))"

definition loginWithPairTicket :: "au_env \<Rightarrow> string \<Rightarrow> AuthPacket \<Rightarrow> AuthServer \<Rightarrow> auth_result \<times> AuthServer" where
  "loginWithPairTicket ev ip req s =
     (case takeVerifiedPairTicket (xClk (aeSv ev) 2) (apPairTicket req) ip (auTickets s) of
        (Inl ErrPairExpired, ts) \<Rightarrow> (denied req ErrTicketExpired, s\<lparr>auTickets := ts\<rparr>)
      | (Inl _, ts) \<Rightarrow> (denied req ErrTicketUnknown, s\<lparr>auTickets := ts\<rparr>)
      | (Inr t, ts) \<Rightarrow>
          (case auRoles s (ptRole t) of
             None \<Rightarrow> (denied req ErrInvalidRole, s\<lparr>auTickets := ts\<rparr>)
           | Some rd \<Rightarrow> ((rdPermission rd, req\<lparr>apRole := ptRole t, apAuthType := ''passkey''\<rparr>, None), s\<lparr>auTickets := ts\<rparr>)))"

definition passkeyDisabledForOnion :: "au_env \<Rightarrow> bool \<Rightarrow> bool" where
  "passkeyDisabledForOnion ev onion = (onion \<and> \<not> aeOnionPasskey ev)"

text \<open>Every failure after the registry lookup is the same error.\<close>

definition passkey_login :: "au_env \<Rightarrow> bool \<Rightarrow> AuthPacket \<Rightarrow> AuthServer \<Rightarrow> auth_result \<times> AuthServer" where
  "passkey_login ev onion resp s =
     (if \<not> wlEnabled (aeLib ev) \<or> passkeyDisabledForOnion ev onion then (denied resp ErrPasskeyDisabled, s)
      else case auRoles s (apRole resp) of
          None \<Rightarrow> (denied resp ErrInvalidRole, s)
        | Some rd \<Rightarrow>
            (case Credential (apRole resp) (apPasskeyID resp) (auStore s) of
               None \<Rightarrow> (denied resp ErrVerificationFailed, s)
             | Some cred \<Rightarrow>
                 (case verifyAssertionLib (aeLib ev) cred (apNonce resp) (apPasskeyAuthData resp) (apPasskeyClientData resp)
                         (apPasskeySig resp) (apRole resp) of
                    Inl _ \<Rightarrow> (denied resp ErrVerificationFailed, s)
                  | Inr counter \<Rightarrow>
                      if \<not> (counter = 0 \<or> wcSignCount cred = 0 \<or> counter > wcSignCount cred) then (denied resp ErrVerificationFailed, s)
                      else let (r, st) = (if counter \<noteq> 0 then UpdateSignCount (apRole resp) (wcCredentialID cred) counter (auStore s)
                                          else (Inr (), auStore s));
                               s1 = s\<lparr>auStore := st\<rparr>
                        in case r of
                             Inl _ \<Rightarrow> (denied resp ErrVerificationFailed, s1)
                           | Inr _ \<Rightarrow> ((rdPermission rd, resp\<lparr>apAuthType := ''passkey''\<rparr>, None), s1))))"

definition signed_data :: "string \<Rightarrow> string \<Rightarrow> string \<Rightarrow> string \<Rightarrow> bytes" where
  "signed_data nonceHex role username bnd = nonceHex @ ''|'' @ role @ ''|'' @ username @ ''|'' @ bnd"

text \<open>One identity: does its key (and its pin, if it has one) match the signature, and does its shield match the HMAC?\<close>

definition key_matches :: "au_env \<Rightarrow> string \<Rightarrow> bytes \<Rightarrow> bytes \<Rightarrow> Identity \<Rightarrow> bool" where
  "key_matches ev srvPub msg sig i =
     (case hex_decode (idPublicKey i) of
        None \<Rightarrow> False
      | Some pub \<Rightarrow> length pub = 32 \<and> (idServerPubKey i = [] \<or> aeFold ev (TrimSpace (idServerPubKey i)) srvPub) \<and>
          xEd (aeSv ev) pub msg sig)"

definition shield_matches :: "au_env \<Rightarrow> string \<Rightarrow> bytes \<Rightarrow> string \<Rightarrow> Identity \<Rightarrow> bool" where
  "shield_matches ev nonceHex sig mac i = (hex_decode mac = Some (aeHmac512 ev (idHmacShield i) (sig @ nonceHex)))"

text \<open>The loop over the identities of the role. A key that fits with a wrong HMAC leaves its name in the packet.\<close>

fun try_identities :: "au_env \<Rightarrow> string \<Rightarrow> string \<Rightarrow> bytes \<Rightarrow> bytes \<Rightarrow> Identity list \<Rightarrow> AuthPacket \<Rightarrow> bool \<times> AuthPacket" where
  "try_identities ev srvPub nonceHex msg sig [] resp = (False, resp)"
| "try_identities ev srvPub nonceHex msg sig (i # is) resp =
     (if key_matches ev srvPub msg sig i
      then let resp1 = resp\<lparr>apIdentityPub := idPublicKey i\<rparr>
        in if shield_matches ev nonceHex sig (apHmac resp) i then (True, resp1\<lparr>apAuthType := ''ed25519''\<rparr>)
           else try_identities ev srvPub nonceHex msg sig is resp1
      else try_identities ev srvPub nonceHex msg sig is resp)"

definition key_login :: "au_env \<Rightarrow> string \<Rightarrow> string \<Rightarrow> AuthPacket \<Rightarrow> AuthServer \<Rightarrow> auth_result \<times> AuthServer" where
  "key_login ev ip nonceHex resp s =
     (case auRoles s (apRole resp) of
        None \<Rightarrow> (denied resp ErrInvalidRole, s)
      | Some rd \<Rightarrow>
          (case hex_decode (apSignature resp) of
             None \<Rightarrow> (denied resp ErrInvalidSignature, s)
           | Some sig \<Rightarrow>
               if length sig \<noteq> 64 then (denied resp ErrInvalidSignature, s)
               else let srvPub = chat_serverPub (auChat s);
                        msg = signed_data nonceHex (apRole resp) (apUsername resp) srvPub;
                        (ok, resp1) = try_identities ev srvPub nonceHex msg sig (rdIdentities rd) resp
                 in if ok
                    then ((rdPermission rd, resp1, None),
                          s\<lparr>auChat := (auChat s)\<lparr>cvHub := alertConcurrentIdentity (henv (aeSv ev)) (xClk (aeSv ev) 3) (apIdentityPub resp1) ip
                              (cvHub (auChat s))\<rparr>\<rparr>)
                    else (denied resp1 ErrVerificationFailed, s)))"

text \<open>\<open>nonceHex\<close> is the nonce of this connection; \<open>io\<close> is the error of the read, if any, and \<open>resp\<close> what it decoded.\<close>

definition auth_answer ::
  "au_env \<Rightarrow> string \<Rightarrow> bool \<Rightarrow> string \<Rightarrow> io_error option \<Rightarrow> AuthPacket \<Rightarrow> AuthServer \<Rightarrow> auth_result \<times> AuthServer" where
  "auth_answer ev ip onion nonceHex io resp s =
     (case io of
        Some e \<Rightarrow> (denied resp (ErrIO e), s)
      | None \<Rightarrow>
          if int (length (runes (apUsername resp))) > dcMaxUsernameLength (xDyn (aeSv ev)) then (denied resp ErrPayloadTooLarge, s)
          else if length (apRole resp) > 64 then (denied resp ErrInvalidRoleLength, s)
          else let (bad, ns) = consumeNonce (xClk (aeSv ev) 1) ip (apNonce resp) (auNonces s); s1 = s\<lparr>auNonces := ns\<rparr>
            in case bad of
                 Some e \<Rightarrow> (denied resp e, s1)
               | None \<Rightarrow>
                   if apPairTicket resp \<noteq> [] then loginWithPairTicket ev ip resp s1
                   else if apPasskeyID resp \<noteq> [] \<or> apPasskeySig resp \<noteq> [] then passkey_login ev onion resp s1
                   else if apRole resp = [] then ((GetDefaultPermission, resp, None), s1)
                   else key_login ev ip nonceHex resp s1)"

text \<open>The whole exchange with a peer: \<open>wr\<close> is a failure to send the challenge, \<open>peer\<close> what comes back.\<close>

definition HandleAuth ::
  "au_env \<Rightarrow> string \<Rightarrow> string \<Rightarrow> bool \<Rightarrow> io_error option \<Rightarrow> (AuthPacket \<Rightarrow> io_error option \<times> AuthPacket) \<Rightarrow> AuthServer \<Rightarrow>
   auth_result \<times> AuthServer" where
  "HandleAuth ev ip host onion wr peer s =
     (case auth_challenge ev ip host s of
        (Inl e, s1) \<Rightarrow> (denied no_packet e, s1)
      | (Inr ch, s1) \<Rightarrow>
          (case wr of
             Some e \<Rightarrow> (denied no_packet (ErrIO e), s1)
           | None \<Rightarrow> (case peer ch of (io, resp) \<Rightarrow> auth_answer ev ip onion (apNonce ch) io resp s1)))"

subsection \<open>Penalties\<close>

fun authErrIsProbe :: "auth_error \<Rightarrow> bool" where
  "authErrIsProbe (ErrIO NetError) = False"
| "authErrIsProbe (ErrIO EOF) = False"
| "authErrIsProbe (ErrIO UnexpectedEOF) = False"
| "authErrIsProbe ErrTicketExpired = False"
| "authErrIsProbe ErrEntropyExhaustion = False"
| "authErrIsProbe ErrPasskeyDisabled = False"
| "authErrIsProbe _ = True"

definition penalizeAuthFailure :: "AuthPacket \<Rightarrow> auth_error \<Rightarrow> bool" where
  "penalizeAuthFailure resp e = (apRole resp \<noteq> [] \<and> authErrIsProbe e)"

definition fail_record :: "string \<Rightarrow> (string \<times> RateLimitRecord) list \<Rightarrow> RateLimitRecord" where
  "fail_record ip fs = (case map_of fs ip of Some r \<Rightarrow> r | None \<Rightarrow> \<lparr>rlFailCount = 0, rlUnlockTime = 0, rlLastSeen = 0\<rparr>)"

definition handleAuthPenalty :: "time \<Rightarrow> string \<Rightarrow> AuthServer \<Rightarrow> AuthServer" where
  "handleAuthPenalty now ip s = s\<lparr>auFails := AList.update ip (NextPenalty (fail_record ip (auFails s)) now) (auFails s)\<rparr>"

definition banned_text :: string where
  "banned_text = ''IP c'' @ encode_runes [0x1EE7] @ ''a b'' @ encode_runes [0x1EA1] @ ''n '' @ encode_runes [0x111] @ ''ang b'' @ encode_runes [0x1ECB] @ '' kh'' @ encode_runes [0xF3] @ ''a t'' @ encode_runes [0x1EA1] @ ''m th'' @ encode_runes [0x1EDD] @ ''i do x'' @ encode_runes [0xE1] @ ''c th'' @ encode_runes [0x1EF1] @ ''c sai nhi'' @ encode_runes [0x1EC1] @ ''u l'' @ encode_runes [0x1EA7] @ ''n.''"

definition too_fast_text :: string where
  "too_fast_text = ''B'' @ encode_runes [0x1EA1] @ ''n thao t'' @ encode_runes [0xE1] @ ''c ra/v'' @ encode_runes [0xE0] @ ''o qu'' @ encode_runes [0xE1] @ '' nhanh! Vui l'' @ encode_runes [0xF2] @ ''ng '' @ encode_runes [0x111, 0x1EE3] @ ''i v'' @ encode_runes [0xE0] @ ''i gi'' @ encode_runes [0xE2] @ ''y r'' @ encode_runes [0x1ED3] @ ''i th'' @ encode_runes [0x1EED] @ '' l'' @ encode_runes [0x1EA1] @ ''i.''"

text \<open>The handler around the two checks of \<open>guard\<close>: the refusal, or \<open>None\<close>. The clock is read once for the ban, again by
  the cooldown check, for the header and for the stamp.\<close>

definition CheckConnectionRate_http :: "au_env \<Rightarrow> string \<Rightarrow> AuthServer \<Rightarrow> http_reply option \<times> AuthServer" where
  "CheckConnectionRate_http ev ip s =
     (let rec = fail_record ip (auFails s); now = xClk (aeSv ev) 0; cooldown = dcConnectionCooldown (xDyn (aeSv ev));
          busy = (\<lambda>wait msg. (Some \<lparr>hrStatus = 429, hrRetryAfter = Some (retry_seconds wait), hrBody = Refused msg\<rparr>,
                    s\<lparr>auRejects := addReject rejectCooldownCause (auRejects s)\<rparr>));
          pass = (None, s\<lparr>auLastConnect := AList.update ip (xClk (aeSv ev) 3) (auLastConnect s)\<rparr>)
      in if IsBanned rec now then busy (rlUnlockTime rec - now) banned_text
         else case map_of (auLastConnect s) ip of
             None \<Rightarrow> pass
           | Some lastTime \<Rightarrow>
               if fst (CheckConnectionRate now (xClk (aeSv ev) 1) rec lastTime cooldown) then pass
               else busy (cooldown - (xClk (aeSv ev) 2 - lastTime)) too_fast_text)"

subsection \<open>The session\<close>

text \<open>The trip fields of the success packet: the key in lower case and where the server's chain of it stands.\<close>

definition trip_sync :: "string \<Rightarrow> TripChains \<Rightarrow> string \<times> u32 \<times> string" where
  "trip_sync pub tcs =
     (case (if pub = [] then None else hex_decode pub) of
        None \<Rightarrow> ([], 0, [])
      | Some b \<Rightarrow>
          if length b \<noteq> 32 then ([], 0, [])
          else case map_of tcs (to_lower pub) of
              Some ch \<Rightarrow> (to_lower pub, tcSeq ch, hex_encode (if tcPrevHash ch \<noteq> [] then tcPrevHash ch else zero_hash))
            | None \<Rightarrow> (to_lower pub, 0, hex_encode zero_hash))"

definition too_long_text :: "int \<Rightarrow> string" where
  "too_long_text n = ''M'' @ encode_runes [0x1EAD] @ ''t kh'' @ encode_runes [0x1EA9] @ ''u Tripcode qu'' @ encode_runes [0xE1] @ '' d'' @ encode_runes [0xE0] @ ''i (t'' @ encode_runes [0x1ED1] @ ''i '' @ encode_runes [0x111] @ ''a '' @ dec_int n @ '' byte). B'' @ encode_runes [0x1ECB] @ '' t'' @ encode_runes [0x1EEB] @ '' ch'' @ encode_runes [0x1ED1] @ ''i!''"

text \<open>What follows \<open>HandleAuth\<close>: the frames written to the client, and the session, if any. \<open>wr\<close> is a failure to write
  the success packet.\<close>

definition auth_failed :: "string \<Rightarrow> AuthPacket" where
  "auth_failed msg = no_packet\<lparr>apType := ''auth_failed'', apError := msg\<rparr>"

definition open_session ::
  "au_env \<Rightarrow> conn \<Rightarrow> string \<Rightarrow> string \<Rightarrow> Permission \<Rightarrow> AuthPacket \<Rightarrow> io_error option \<Rightarrow> AuthServer \<Rightarrow>
   AuthPacket \<times> (auth_error + ClientSession) \<times> AuthServer" where
  "open_session ev c ip host perms pkt wr s =
     (let authType = (if apAuthType pkt = [] then ''guest'' else apAuthType pkt);
          (name, hub) = generateDisplayName (xGC (aeSv ev)) (dcMaxUsernameLength (xDyn (aeSv ev))) (auSalt s) (xClk (aeSv ev) 6)
                          (apUsername pkt) ip perms (cvHub (auChat s));
          (tripPub, tripSeq, tripPrev) = trip_sync (apTripPub pkt) (cvTripChains (auChat s));
          tripBadge = (if tripPub = [] then [] else TripBadgeFromPubHex tripPub);
          badge = (if tripBadge = [] then GenerateTripcode (apTripcode pkt) 8 else tripBadge);
          packet = no_packet\<lparr>apType := ''auth_success'', apUsername := name, apRole := apRole pkt, apAuthType := authType,
                     apPerms := Some perms, apTripPub := tripPub, apTripSeq := tripSeq, apTripPrev := tripPrev\<rparr>
      in case wr of
           Some e \<Rightarrow> (packet, Inl (ErrIO e), s\<lparr>auChat := (auChat s)\<lparr>cvHub := releaseDisplayName name hub\<rparr>\<rparr>)
         | None \<Rightarrow>
             (packet,
              Inr \<lparr>seConn = c, seDisplayName = name, seTripcode = badge, sePerms = perms, seSend = [], seIP = ip,
                   seAuthType = authType, sePlatform = apPlatform pkt, seIdentityPub = apIdentityPub pkt, seTripPub = tripPub,
                   seTripBadge = badge, seHost = host, seWantJoins = apHistoryJoins pkt\<rparr>,
              s\<lparr>auChat := (auChat s)\<lparr>cvHub := hub\<rparr>\<rparr>))"

definition after_auth ::
  "au_env \<Rightarrow> conn \<Rightarrow> string \<Rightarrow> string \<Rightarrow> auth_result \<Rightarrow> io_error option \<Rightarrow> AuthServer \<Rightarrow>
   AuthPacket \<times> (auth_error + ClientSession) \<times> AuthServer" where
  "after_auth ev c ip host r wr s =
     (case r of
        (perms, pkt, Some e) \<Rightarrow>
          (let msg = auth_error_text (aeIOText ev) e;
               s1 = (if authErrIsProbe e then s\<lparr>auChat := observeAuthErr (aeSv ev) 4 ip (Some msg) (auChat s)\<rparr> else s);
               s2 = (if penalizeAuthFailure pkt e then handleAuthPenalty (xClk (aeSv ev) 5) ip s1 else s1)
           in (auth_failed msg, Inl e, s2))
      | (perms, pkt, None) \<Rightarrow>
          if int (length (apTripcode pkt)) > dcMaxTripcodeLength (xDyn (aeSv ev))
          then (auth_failed (too_long_text (dcMaxTripcodeLength (xDyn (aeSv ev)))), Inl ErrTripcodeTooLong,
                s\<lparr>auChat := observeAuthErr (aeSv ev) 4 ip (Some (auth_error_text (aeIOText ev) ErrTripcodeTooLong)) (auChat s)\<rparr>)
          else open_session ev c ip host perms pkt wr
                 (if apRole pkt \<noteq> [] then s\<lparr>auFails := AList.delete ip (auFails s)\<rparr> else s))"

definition authenticateClient ::
  "au_env \<Rightarrow> conn \<Rightarrow> string \<Rightarrow> string \<Rightarrow> bool \<Rightarrow> io_error option \<Rightarrow> (AuthPacket \<Rightarrow> io_error option \<times> AuthPacket) \<Rightarrow> io_error option \<Rightarrow>
   AuthServer \<Rightarrow> AuthPacket \<times> (auth_error + ClientSession) \<times> AuthServer" where
  "authenticateClient ev c ip host onion wr peer wr2 s =
     (case HandleAuth ev ip host onion wr peer s of (r, s1) \<Rightarrow> after_auth ev c ip host r wr2 s1)"

subsection \<open>Sweeps\<close>

definition sweep_nonces :: "time \<Rightarrow> AuthServer \<Rightarrow> AuthServer" where
  "sweep_nonces now s = s\<lparr>auNonces := filter (\<lambda>(k, m). \<not> now > nmExpiresAt m) (auNonces s), auTickets := prunePairTicketsLocked now (auTickets s)\<rparr>"

definition cleanup_tick :: "au_env \<Rightarrow> time \<Rightarrow> time \<Rightarrow> AuthServer \<Rightarrow> AuthServer" where
  "cleanup_tick ev now now2 s =
     s\<lparr>auFails := filter (\<lambda>(ip, r). \<not> ShouldPrune r now AuthFailTTL) (auFails s),
       auChat := (auChat s)\<lparr>cvTripChains := pruneTripChains (xSortSeen (aeSv ev)) now (cvTripChains (auChat s)),
         cvExposed := pruneExposedTrips (xSortSeen (aeSv ev)) now (cvExposed (auChat s))\<rparr>,
       auLastConnect := filter (\<lambda>(ip, t). \<not> now2 - t > dcConnectionCooldown (xDyn (aeSv ev))) (auLastConnect s)\<rparr>"

text \<open>\<open>LoadRoles\<close>: the first file that can be read decides. \<open>read\<close> gives the content of a path and \<open>parse\<close> is
  \<open>json.Unmarshal\<close> into the registry.\<close>

datatype roles_error = RolesSyntax string | RolesNotFound

fun LoadRoles ::
  "(string \<Rightarrow> string option) \<Rightarrow> (string \<Rightarrow> (string \<rightharpoonup> RoleDefinition) option) \<Rightarrow> string list \<Rightarrow> AuthServer \<Rightarrow>
   roles_error option \<times> AuthServer" where
  "LoadRoles read parse [] s = (Some RolesNotFound, s)"
| "LoadRoles read parse (p # ps) s =
     (case read p of
        None \<Rightarrow> LoadRoles read parse ps s
      | Some d \<Rightarrow> (case parse d of None \<Rightarrow> (Some (RolesSyntax p), s) | Some m \<Rightarrow> (None, s\<lparr>auRoles := m\<rparr>)))"

end
