(* ===== verification/Auth_Laws.thy ===== *)
theory Auth_Laws
  imports Auth Machines Session_Laws
begin

text \<open>
  What the handshake grants: a role only against a proof, over a nonce that is fresh, of that address and used once. Then
  penalties: how often an address may fail, and whose departure counts as a failure.
\<close>

subsection \<open>A role needs a proof\<close>

text \<open>A nonce that is spent by the answer: it was live, for this address, and is gone.\<close>

definition spends :: "time \<Rightarrow> string \<Rightarrow> string \<Rightarrow> (string \<times> NonceMeta) list \<Rightarrow> (string \<times> NonceMeta) list \<Rightarrow> bool" where
  "spends now ip n ns ns' \<longleftrightarrow> (\<exists>m. map_of ns n = Some m \<and> now \<le> nmExpiresAt m \<and> nmIP m = ip) \<and> ns' = AList.delete n ns"

text \<open>The three proofs of a role.\<close>

definition key_proof :: "au_env \<Rightarrow> string \<Rightarrow> AuthPacket \<Rightarrow> AuthServer \<Rightarrow> RoleDefinition \<Rightarrow> bool" where
  "key_proof ev nonceHex resp s rd \<longleftrightarrow>
     (\<exists>i \<in> set (rdIdentities rd). \<exists>pub sig. hex_decode (idPublicKey i) = Some pub \<and> length pub = 32 \<and>
        (idServerPubKey i = [] \<or> aeFold ev (TrimSpace (idServerPubKey i)) (chat_serverPub (auChat s))) \<and>
        hex_decode (apSignature resp) = Some sig \<and> length sig = 64 \<and>
        xEd (aeSv ev) pub (signed_data nonceHex (apRole resp) (apUsername resp) (chat_serverPub (auChat s))) sig \<and>
        hex_decode (apHmac resp) = Some (aeHmac512 ev (idHmacShield i) (sig @ nonceHex)))"

definition passkey_proof :: "au_env \<Rightarrow> AuthPacket \<Rightarrow> AuthServer \<Rightarrow> AuthServer \<Rightarrow> bool" where
  "passkey_proof ev resp s s' \<longleftrightarrow>
     (\<exists>cred counter. Credential (apRole resp) (apPasskeyID resp) (auStore s) = Some cred \<and>
        verifyAssertionLib (aeLib ev) cred (apNonce resp) (apPasskeyAuthData resp) (apPasskeyClientData resp) (apPasskeySig resp)
          (apRole resp) = Inr counter \<and>
        (counter = 0 \<or> (wcSignCount cred = 0 \<or> wcSignCount cred < counter) \<and>
           (\<exists>cred'. Credential (apRole resp) (apPasskeyID resp) (auStore s') = Some cred' \<and> wcSignCount cred' = counter)))"

definition ticket_proof :: "au_env \<Rightarrow> string \<Rightarrow> AuthPacket \<Rightarrow> string \<Rightarrow> AuthServer \<Rightarrow> AuthServer \<Rightarrow> bool" where
  "ticket_proof ev ip resp role s s' \<longleftrightarrow>
     (\<exists>t. map_of (auTickets s) (apPairTicket resp) = Some t \<and> ptVerified t \<and> \<not> ptConsumed t \<and> ptIP t = ip \<and> ptRole t = role \<and>
        xClk (aeSv ev) 2 \<le> ptExpiresAt t \<and> auTickets s' = AList.update (apPairTicket resp) (t\<lparr>ptConsumed := True\<rparr>) (auTickets s))"

lemma try_identities_ok:
  "try_identities ev p n msg sig is resp = (True, resp') \<Longrightarrow>
   (\<exists>i \<in> set is. key_matches ev p msg sig i \<and> shield_matches ev n sig (apHmac resp) i) \<and> apRole resp' = apRole resp"
  by (induction ev p n msg sig "is" resp arbitrary: resp' rule: try_identities.induct) (fastforce simp: Let_def split: if_splits)+

lemma pair_login_cases:
  assumes "loginWithPairTicket ev ip req s = ((p, resp', None), s')"
  shows "ticket_proof ev ip req (apRole resp') s s' \<and> (\<exists>rd. auRoles s (apRole resp') = Some rd \<and> p = rdPermission rd) \<and> auNonces s' = auNonces s"
  using assms
  by (auto simp: loginWithPairTicket_def takeVerifiedPairTicket_def livePairTicketLocked_def ticket_proof_def
      split: sum.splits option.splits if_splits prod.splits pair_error.splits)

lemma set_count_find:
  "find (\<lambda>c. wcCredentialID c = i) cs = Some c \<Longrightarrow> find (\<lambda>c. wcCredentialID c = i) (set_first (\<lambda>c. wcCredentialID c = i) (\<lambda>c. c\<lparr>wcSignCount := n\<rparr>) cs) = Some (c\<lparr>wcSignCount := n\<rparr>)"
  by (induction cs) auto

lemma counter_stored:
  assumes "UpdateSignCount role i n st = (Inr (), st')" "n \<noteq> 0"
  shows "\<exists>cred'. Credential role i st' = Some cred' \<and> wcSignCount cred' = n"
  using assms
  by (auto simp: UpdateSignCount_def wa_mutate_def Credential_def wa_view_def set_count_find split: option.splits sum.splits if_splits)

lemma credential_id: "Credential role i st = Some cred \<Longrightarrow> wcCredentialID cred = i"
  by (auto simp: Credential_def wa_view_def find_Some_iff split: option.splits sum.splits)

lemma passkey_login_cases:
  assumes "passkey_login ev onion resp s = ((p, resp', None), s')"
  shows "passkey_proof ev resp s s' \<and> apRole resp' = apRole resp \<and> (\<exists>rd. auRoles s (apRole resp) = Some rd \<and> p = rdPermission rd) \<and>
    wlEnabled (aeLib ev) \<and> \<not> passkeyDisabledForOnion ev onion \<and> auNonces s' = auNonces s"
proof -
  obtain rd cred where rd: "auRoles s (apRole resp) = Some rd" "Credential (apRole resp) (apPasskeyID resp) (auStore s) = Some cred"
    using assms by (auto simp: passkey_login_def split: if_splits option.splits)
  obtain counter where v: "verifyAssertionLib (aeLib ev) cred (apNonce resp) (apPasskeyAuthData resp) (apPasskeyClientData resp) (apPasskeySig resp)
          (apRole resp) = Inr counter"
    using assms rd by (auto simp: passkey_login_def split: if_splits sum.splits)
  have e: "wlEnabled (aeLib ev)" "\<not> passkeyDisabledForOnion ev onion" using assms by (auto simp: passkey_login_def split: if_splits)
  have g: "counter = 0 \<or> wcSignCount cred = 0 \<or> wcSignCount cred < counter"
    using assms rd v e by (simp add: passkey_login_def split: if_splits)
  obtain r st where u: "(if counter \<noteq> 0 then UpdateSignCount (apRole resp) (apPasskeyID resp) counter (auStore s) else (Inr (), auStore s)) = (r, st)"
    by fastforce
  have "passkey_login ev onion resp s =
      (case r of Inl _ \<Rightarrow> (denied resp ErrVerificationFailed, s\<lparr>auStore := st\<rparr>)
       | Inr _ \<Rightarrow> ((rdPermission rd, resp\<lparr>apAuthType := ''passkey''\<rparr>, None), s\<lparr>auStore := st\<rparr>))"
    unfolding passkey_login_def rd option.case v sum.case credential_id [OF rd(2)] u prod.case Let_def using e g by simp
  then have r: "r = Inr ()" "s' = s\<lparr>auStore := st\<rparr>" "p = rdPermission rd" "apRole resp' = apRole resp"
    using assms by (auto split: sum.splits)
  have "\<exists>cred'. Credential (apRole resp) (apPasskeyID resp) (auStore s') = Some cred' \<and> wcSignCount cred' = counter" if "counter \<noteq> 0"
    using counter_stored [OF _ that] u r(1,2) that by simp
  then have "passkey_proof ev resp s s'" using rd v g unfolding passkey_proof_def by blast
  then show ?thesis using rd e r by simp
qed

lemma key_login_cases:
  assumes "key_login ev ip n resp s = ((p, resp', None), s')"
  shows "\<exists>rd. auRoles s (apRole resp) = Some rd \<and> p = rdPermission rd \<and> key_proof ev n resp s rd \<and> apRole resp' = apRole resp \<and> auNonces s' = auNonces s"
proof -
  obtain rd sig where rd: "auRoles s (apRole resp) = Some rd" "hex_decode (apSignature resp) = Some sig" "length sig = 64"
    using assms by (auto simp: key_login_def split: option.splits if_splits)
  let ?p = "chat_serverPub (auChat s)"
  obtain ok resp1 where t: "try_identities ev ?p n (signed_data n (apRole resp) (apUsername resp) ?p) sig (rdIdentities rd) resp = (ok, resp1)" by fastforce
  then have ok: "ok" "resp' = resp1" "p = rdPermission rd" "auNonces s' = auNonces s" using assms rd by (auto simp: key_login_def split: if_splits)
  with t have "\<exists>i \<in> set (rdIdentities rd). key_matches ev ?p (signed_data n (apRole resp) (apUsername resp) ?p) sig i \<and> shield_matches ev n sig (apHmac resp) i"
      and r: "apRole resp1 = apRole resp" using try_identities_ok [of ev ?p n _ sig "rdIdentities rd" resp resp1] by simp_all
  then have "key_proof ev n resp s rd" unfolding key_proof_def key_matches_def shield_matches_def using rd(2,3) by (fastforce split: option.splits)
  then show ?thesis using rd(1) ok r by blast
qed

lemma consume_cases: "consumeNonce now ip n ns = (None, ns') \<Longrightarrow> spends now ip n ns ns'"
  by (auto simp: consumeNonce_def spends_def split: option.splits if_splits)

lemma answer_accepted:
  assumes "auth_answer ev ip onion n io resp s = ((p, resp', None), s')"
  shows "io = None" "spends (xClk (aeSv ev) 1) ip (apNonce resp) (auNonces s) (auNonces s')"
    "(if apPairTicket resp \<noteq> [] then loginWithPairTicket ev ip resp (s\<lparr>auNonces := auNonces s'\<rparr>)
      else if apPasskeyID resp \<noteq> [] \<or> apPasskeySig resp \<noteq> [] then passkey_login ev onion resp (s\<lparr>auNonces := auNonces s'\<rparr>)
      else if apRole resp = [] then ((GetDefaultPermission, resp, None), s\<lparr>auNonces := auNonces s'\<rparr>)
      else key_login ev ip n resp (s\<lparr>auNonces := auNonces s'\<rparr>)) = ((p, resp', None), s')"
proof -
  show io: "io = None" using assms by (auto simp: auth_answer_def split: option.splits)
  obtain bad ns where c: "consumeNonce (xClk (aeSv ev) 1) ip (apNonce resp) (auNonces s) = (bad, ns)" by fastforce
  then have bad: "bad = None" using assms io by (cases bad) (auto simp: auth_answer_def Let_def split: if_splits)
  let ?s = "s\<lparr>auNonces := ns\<rparr>"
  have l: "(if apPairTicket resp \<noteq> [] then loginWithPairTicket ev ip resp ?s
      else if apPasskeyID resp \<noteq> [] \<or> apPasskeySig resp \<noteq> [] then passkey_login ev onion resp ?s
      else if apRole resp = [] then ((GetDefaultPermission, resp, None), ?s)
      else key_login ev ip n resp ?s) = ((p, resp', None), s')"
    using assms io c bad by (auto simp: auth_answer_def Let_def split: if_splits)
  then have ns: "ns = auNonces s'"
    using pair_login_cases [of ev ip resp ?s p resp' s'] passkey_login_cases [of ev onion resp ?s p resp' s'] key_login_cases [of ev ip n resp ?s p resp' s']
    by (auto split: if_splits)
  show "spends (xClk (aeSv ev) 1) ip (apNonce resp) (auNonces s) (auNonces s')" using consume_cases c bad ns by blast
  show "(if apPairTicket resp \<noteq> [] then loginWithPairTicket ev ip resp (s\<lparr>auNonces := auNonces s'\<rparr>)
      else if apPasskeyID resp \<noteq> [] \<or> apPasskeySig resp \<noteq> [] then passkey_login ev onion resp (s\<lparr>auNonces := auNonces s'\<rparr>)
      else if apRole resp = [] then ((GetDefaultPermission, resp, None), s\<lparr>auNonces := auNonces s'\<rparr>)
      else key_login ev ip n resp (s\<lparr>auNonces := auNonces s'\<rparr>)) = ((p, resp', None), s')" using l unfolding ns .
qed

text \<open>
  C12. The server grants a role only against a proof. Whatever an address answers to a challenge, if it is let in with
  a role (or with more than the default rights), then the role is in the registry, the rights are that role's, the
  answer spent a nonce that was live and issued to this address, and it carried one of: a signature by a key of the role
  over the nonce of this very connection, the role, the name and this server's key, with the HMAC of that key's shield and a
  matching pin; a passkey assertion over the spent nonce by a stored credential of the role, with passkeys allowed and the
  sign counter advanced and kept; a pairing ticket of this role and address that a browser had verified, now consumed.
\<close>

theorem role_needs_proof:
  assumes "auth_answer ev ip onion n io resp s = ((p, resp', None), s')" "apRole resp' \<noteq> [] \<or> p \<noteq> GetDefaultPermission"
  shows "\<exists>rd. auRoles s (apRole resp') = Some rd \<and> p = rdPermission rd \<and>
    spends (xClk (aeSv ev) 1) ip (apNonce resp) (auNonces s) (auNonces s') \<and>
    (apRole resp' = apRole resp \<and> key_proof ev n resp s rd \<or>
     apRole resp' = apRole resp \<and> passkey_proof ev resp s s' \<and> wlEnabled (aeLib ev) \<and> \<not> passkeyDisabledForOnion ev onion \<or>
     ticket_proof ev ip resp (apRole resp') s s')"
proof -
  let ?s = "s\<lparr>auNonces := auNonces s'\<rparr>"
  note acc = answer_accepted [OF assms(1)]
  have same: "key_proof ev n resp ?s rd = key_proof ev n resp s rd" "passkey_proof ev resp ?s s' = passkey_proof ev resp s s'"
    "ticket_proof ev ip resp (apRole resp') ?s s' = ticket_proof ev ip resp (apRole resp') s s'" for rd
    by (simp_all add: key_proof_def passkey_proof_def ticket_proof_def)
  show ?thesis
  proof (cases "apPairTicket resp \<noteq> []")
    case True
    then show ?thesis using acc(2,3) pair_login_cases [of ev ip resp ?s p resp' s'] same by auto
  next
    case no_ticket: False
    show ?thesis
    proof (cases "apPasskeyID resp \<noteq> [] \<or> apPasskeySig resp \<noteq> []")
      case True
      then show ?thesis using no_ticket acc(2,3) passkey_login_cases [of ev onion resp ?s p resp' s'] same by auto
    next
      case False
      then show ?thesis using no_ticket assms(2) acc(2,3) key_login_cases [of ev ip n resp ?s p resp' s'] same by (auto split: if_splits)
    qed
  qed
qed

subsection \<open>An example\<close>

definition ex_au_env :: au_env where
  "ex_au_env = \<lparr>aeSv = (ex_sv 5 ex_text 2)\<lparr>xRand := (\<lambda>_. Some ''N'')\<rparr>,
     aeLib = \<lparr>wlEnabled = False, wlReady = False, wlOrigin = [], wlRPID = [], wlLogin = (\<lambda>_ _ _ _ _. LoginRejected), wlCreate = (\<lambda>_ _ _ _ _. CreationRejected)\<rparr>,
     aeHmac512 = (\<lambda>k m. k), aeFold = (=), aeTripSalt = [], aeOnionPasskey = False,
     aeIOText = (\<lambda>e. if e = CloseError then ''websocket: close 1000 (normal)'' else ''i/o timeout'')\<rparr>"

definition ex_identity :: Identity where
  "ex_identity = \<lparr>idPublicKey = hex_encode (replicate 32 CHR ''A''), idHmacShield = ''M'', idServerPubKey = []\<rparr>"

definition ex_role :: RoleDefinition where
  "ex_role = \<lparr>rdIdentities = [ex_identity], rdPermission = \<lparr>canMessageUnlimited = True, customPrefix = ''*''\<rparr>\<rparr>"

definition ex_auth_server :: AuthServer where
  "ex_auth_server = \<lparr>auChat = ex_chat_server None, auTickets = [], auStore = None, auRoles = [''admin'' \<mapsto> ex_role],
     auNonces = [], auFails = [], auLastConnect = [], auRejects = \<lparr>rsCooldown = 0, rsPerIP = 0, rsGate = 0, rsFull = 0, rsDrops = 0\<rparr>,
     auSalt = []\<rparr>"

definition ex_challenged :: AuthServer where
  "ex_challenged = ex_auth_server\<lparr>auNonces := [(''4e'', \<lparr>nmExpiresAt = 5 + 10 * second, nmIP = ''1.2.3.4''\<rparr>)]\<rparr>"

definition ex_key_answer :: AuthPacket where
  "ex_key_answer = no_packet\<lparr>apNonce := ''4e'', apUsername := ''hi'', apRole := ''admin'',
     apSignature := hex_encode (replicate 64 CHR ''B''), apHmac := hex_encode ''M''\<rparr>"

lemma ex_nonce: "hex_encode ''N'' = ''4e''" by code_simp

lemmas ex_auth = ex_au_env_def ex_sv_def DefaultDynamic_def ex_identity_def ex_role_def ex_auth_server_def ex_challenged_def
  ex_key_answer_def no_packet_def

lemma ex_hi_fits: "int (length (runes ''hi'')) \<le> dcMaxUsernameLength (xDyn (aeSv ex_au_env))"
  by (simp add: runes_hi ex_auth)

lemma ex_key_login: "\<exists>r s'. auth_answer ex_au_env ''1.2.3.4'' False ''4e'' None ex_key_answer ex_challenged = ((rdPermission ex_role, r, None), s') \<and> apRole r = ''admin''"
  using ex_hi_fits
  by (simp add: auth_answer_def consumeNonce_def key_login_def key_matches_def shield_matches_def ex_auth Let_def second_def del: hex_encode.simps replicate_Suc)

theorem role_needs_proof_witness:
  "\<exists>rd. auRoles ex_challenged ''admin'' = Some rd \<and>
     (key_proof ex_au_env ''4e'' ex_key_answer ex_challenged rd \<or> apPairTicket ex_key_answer \<noteq> [] \<or> apPasskeyID ex_key_answer \<noteq> [])"
proof -
  obtain r s' where a: "auth_answer ex_au_env ''1.2.3.4'' False ''4e'' None ex_key_answer ex_challenged = ((rdPermission ex_role, r, None), s')"
      "apRole r = ''admin''" using ex_key_login by blast
  have "\<not> passkey_proof ex_au_env ex_key_answer ex_challenged s'" by (simp add: passkey_proof_def ex_auth Credential_def wa_view_def)
  moreover have "\<not> ticket_proof ex_au_env ''1.2.3.4'' ex_key_answer ''admin'' ex_challenged s'" by (simp add: ticket_proof_def ex_auth)
  ultimately show ?thesis using role_needs_proof [OF a(1)] a(2) by auto
qed

subsection \<open>One nonce, one login\<close>

datatype auth_fact = Issued string string time | Entered string string time

datatype auth_event =
    Challenge au_env string string
  | Answer au_env string bool string "io_error option" AuthPacket
  | SweepNonces time

fun auth_step :: "auth_event \<Rightarrow> AuthServer \<times> auth_fact list \<Rightarrow> AuthServer \<times> auth_fact list" where
  "auth_step (Challenge ev ip host) (s, l) =
     (case auth_challenge ev ip host s of
        (Inl _, s') \<Rightarrow> (s', l)
      | (Inr ch, s') \<Rightarrow> (s', Issued (apNonce ch) ip (xClk (aeSv ev) 0 + 10 * second) # l))"
| "auth_step (Answer ev ip onion n io resp) (s, l) =
     (case auth_answer ev ip onion n io resp s of
        ((_, _, Some _), s') \<Rightarrow> (s', l)
      | ((_, _, None), s') \<Rightarrow> (s', Entered (apNonce resp) ip (xClk (aeSv ev) 1) # l))"
| "auth_step (SweepNonces now) (s, l) = (sweep_nonces now s, l)"

fun fresh_challenge :: "AuthServer \<times> auth_fact list \<Rightarrow> auth_event \<Rightarrow> bool" where
  "fresh_challenge (s, l) (Challenge ev ip host) \<longleftrightarrow> (\<forall>b i x. xRand (aeSv ev) 0 = Some b \<longrightarrow> Issued (hex_encode b) i x \<notin> set l)"
| "fresh_challenge _ _ \<longleftrightarrow> True"

fun entitled :: "auth_fact list \<Rightarrow> auth_fact \<Rightarrow> bool" where
  "entitled l (Issued n ip x) \<longleftrightarrow> (\<forall>i y. Issued n i y \<notin> set l)"
| "entitled l (Entered n ip now) \<longleftrightarrow> (\<exists>x. Issued n ip x \<in> set l \<and> now \<le> x) \<and> (\<forall>i y. Entered n i y \<notin> set l)"

fun all_entitled :: "auth_fact list \<Rightarrow> bool" where
  "all_entitled [] = True"
| "all_entitled (f # l) = (entitled l f \<and> all_entitled l)"

definition nonce_ok :: "auth_fact list \<Rightarrow> string \<times> NonceMeta \<Rightarrow> bool" where
  "nonce_ok l e \<longleftrightarrow> Issued (fst e) (nmIP (snd e)) (nmExpiresAt (snd e)) \<in> set l \<and> (\<forall>i y. Entered (fst e) i y \<notin> set l)"

definition auth_inv :: "AuthServer \<times> auth_fact list \<Rightarrow> bool" where
  "auth_inv sl \<longleftrightarrow> distinct (map fst (auNonces (fst sl))) \<and> (\<forall>e \<in> set (auNonces (fst sl)). nonce_ok (snd sl) e) \<and>
     all_entitled (snd sl) \<and> (\<forall>n i y. Entered n i y \<in> set (snd sl) \<longrightarrow> (\<exists>i x. Issued n i x \<in> set (snd sl)))"

lemma logins_keep_nonces:
  "loginWithPairTicket ev ip resp s = (r, s') \<Longrightarrow> auNonces s' = auNonces s"
  "passkey_login ev onion resp s = (r, s') \<Longrightarrow> auNonces s' = auNonces s"
  "key_login ev ip n resp s = (r, s') \<Longrightarrow> auNonces s' = auNonces s"
  by (auto simp: loginWithPairTicket_def passkey_login_def key_login_def Let_def
      split: sum.splits option.splits if_splits prod.splits pair_error.splits)

lemma answer_nonces:
  assumes "auth_answer ev ip onion n io resp s = (r, s')"
  shows "auNonces s' = auNonces s \<or> auNonces s' = AList.delete (apNonce resp) (auNonces s)"
proof -
  obtain bad ns where c: "consumeNonce (xClk (aeSv ev) 1) ip (apNonce resp) (auNonces s) = (bad, ns)" by fastforce
  then have "ns = auNonces s \<or> ns = AList.delete (apNonce resp) (auNonces s)" by (auto simp: consumeNonce_def split: option.splits)
  moreover have "auNonces s' = auNonces s \<or> auNonces s' = ns"
    using assms c by (cases bad) (auto simp: auth_answer_def Let_def split: option.splits if_splits dest: logins_keep_nonces)
  ultimately show ?thesis by auto
qed

lemma fewer_nonces:
  "auth_inv (s, l) \<Longrightarrow> set (auNonces s') \<subseteq> set (auNonces s) \<Longrightarrow> distinct (map fst (auNonces s')) \<Longrightarrow> auth_inv (s', l)"
  by (auto simp: auth_inv_def)

lemma issue_inv:
  assumes inv: "auth_inv (s, l)" and new: "\<forall>i x. Issued n i x \<notin> set l" and s': "auNonces s' = AList.update n \<lparr>nmExpiresAt = x, nmIP = ip\<rparr> (auNonces s)"
  shows "auth_inv (s', Issued n ip x # l)"
proof -
  have d: "distinct (map fst (auNonces s))" and ok: "\<forall>e \<in> set (auNonces s). nonce_ok l e" using inv by (simp_all add: auth_inv_def)
  have "\<forall>i y. Entered n i y \<notin> set l" using inv new unfolding auth_inv_def snd_conv by blast
  moreover have "set (AList.update n v (auNonces s)) \<subseteq> insert (n, v) (set (auNonces s))" for v by (rule set_update_subset)
  ultimately have "\<forall>e \<in> set (auNonces s'). nonce_ok (Issued n ip x # l) e" using ok unfolding s' by (fastforce simp: nonce_ok_def)
  then show ?thesis using inv new d unfolding auth_inv_def by (auto simp: s' distinct_update) blast
qed

lemma enter_inv:
  assumes inv: "auth_inv (s, l)" and m: "map_of (auNonces s) n = Some m" "now \<le> nmExpiresAt m" "nmIP m = ip"
    and s': "auNonces s' = AList.delete n (auNonces s)"
  shows "auth_inv (s', Entered n ip now # l)"
proof -
  have "nonce_ok l (n, m)" using inv map_of_SomeD [OF m(1)] by (auto simp: auth_inv_def)
  then have e: "Issued n ip (nmExpiresAt m) \<in> set l" "\<forall>i y. Entered n i y \<notin> set l" using m(3) by (auto simp: nonce_ok_def)
  moreover have "\<forall>e \<in> set (auNonces s'). nonce_ok (Entered n ip now # l) e"
    using inv unfolding s' by (auto simp: auth_inv_def nonce_ok_def AList.delete_eq)
  ultimately show ?thesis using inv m(2) unfolding auth_inv_def by (auto simp: s' distinct_delete) blast
qed

lemma auth_step_inv: "auth_inv sl \<Longrightarrow> fresh_challenge sl ev \<Longrightarrow> auth_inv (auth_step ev sl)"
proof -
  obtain s l where sl: "sl = (s, l)" by fastforce
  assume "auth_inv sl" and fresh: "fresh_challenge sl ev"
  then have inv: "auth_inv (s, l)" using sl by simp
  show "auth_inv (auth_step ev sl)"
  proof (cases ev)
    case (Challenge e ip host)
    then show ?thesis using inv fresh issue_inv [OF inv] by (auto simp: sl auth_challenge_def Let_def no_packet_def split: option.split)
  next
    case (Answer e ip onion n io resp)
    obtain p r err s' where a: "auth_answer e ip onion n io resp s = ((p, r, err), s')" by (metis prod.collapse)
    show ?thesis
    proof (cases err)
      case None
      with a have "spends (xClk (aeSv e) 1) ip (apNonce resp) (auNonces s) (auNonces s')" using answer_accepted(2) by blast
      then show ?thesis using a None enter_inv [OF inv, of "apNonce resp" _ "xClk (aeSv e) 1" ip s'] by (auto simp: sl Answer spends_def)
    next
      case (Some x)
      have "auth_inv (s', l)" using answer_nonces [OF a] inv
        by (intro fewer_nonces [OF inv]) (auto simp: AList.delete_eq auth_inv_def distinct_map_filter)
      then show ?thesis using a Some by (simp add: sl Answer)
    qed
  next
    case (SweepNonces now)
    then show ?thesis using inv by (auto intro!: fewer_nonces [OF inv] simp: sl sweep_nonces_def auth_inv_def distinct_map_filter)
  qed
qed

interpretation handshake: machine auth_step fresh_challenge auth_inv
  by unfold_locales (rule auth_step_inv)

lemma all_entitled_split: "all_entitled (l2 @ f # l1) \<Longrightarrow> entitled l1 f"
  by (induction l2) auto

lemma all_entitled_later: "all_entitled (l2 @ f # l1) \<Longrightarrow> g \<in> set l2 \<Longrightarrow> \<exists>l. entitled l g \<and> f \<in> set l"
proof (induction l2)
  case (Cons h l2)
  show ?case
  proof (cases "g = h")
    case True
    then show ?thesis using Cons.prems(1) by (intro exI [of _ "l2 @ f # l1"]) simp
  qed (use Cons in auto)
qed simp

text \<open>
  C16. A nonce opens one handshake. Challenges, answers and sweeps may come in any order and from any addresses, with
  any packets: whenever the server lets somebody in, guest or not, the nonce of the answer was issued before to that very
  address, at most ten seconds before the answer was read, and no other answer with that nonce was or will be let in, so
  a recorded answer is worth nothing. New nonces are taken to be unused random values.
\<close>

theorem handshake_nonce_is_single_use:
  assumes "handshake.admissible (s, []) evs" "auNonces s = []"
    and "snd (fold auth_step evs (s, [])) = l2 @ Entered n ip now # l1"
  shows "(\<exists>x. Issued n ip x \<in> set l1 \<and> now \<le> x) \<and> (\<forall>i y. Entered n i y \<notin> set l1 \<and> Entered n i y \<notin> set l2)"
proof -
  have "auth_inv (s, [])" using assms(2) by (simp add: auth_inv_def)
  then have "auth_inv (fold auth_step evs (s, []))" by (rule handshake.run_inv [OF _ assms(1)])
  then have b: "all_entitled (l2 @ Entered n ip now # l1)" using assms(3) by (simp add: auth_inv_def)
  have "Entered n i y \<notin> set l2" for i y using all_entitled_later [OF b, of "Entered n i y"] by auto
  then show ?thesis using all_entitled_split [OF b] by auto
qed

definition ex_auth_events :: "auth_event list" where
  "ex_auth_events = [Challenge ex_au_env ''1.2.3.4'' ''chat'', Answer ex_au_env ''1.2.3.4'' False ''4e'' None (no_packet\<lparr>apNonce := ''4e'', apUsername := ''hi''\<rparr>),
     Answer ex_au_env ''1.2.3.4'' False ''4e'' None (no_packet\<lparr>apNonce := ''4e'', apUsername := ''hi''\<rparr>)]"

lemma ex_auth_run: "snd (fold auth_step ex_auth_events (ex_auth_server, [])) = [Entered ''4e'' ''1.2.3.4'' 5, Issued ''4e'' ''1.2.3.4'' (5 + 10 * second)]"
  using ex_hi_fits
  by (simp add: ex_auth_events_def auth_challenge_def auth_answer_def consumeNonce_def ex_auth ex_nonce second_def Let_def del: hex_encode.simps)

theorem handshake_nonce_is_single_use_witness:
  "\<exists>x. Issued ''4e'' ''1.2.3.4'' x \<in> {Issued ''4e'' ''1.2.3.4'' (5 + 10 * second)} \<and> 5 \<le> x"
proof -
  have "handshake.admissible (ex_auth_server, []) ex_auth_events" by (simp add: ex_auth_events_def)
  from handshake_nonce_is_single_use [OF this, of "[]" "''4e''" "''1.2.3.4''" 5 "[Issued ''4e'' ''1.2.3.4'' (5 + 10 * second)]"]
  show ?thesis using ex_auth_run by (simp add: ex_auth_server_def)
qed

subsection \<open>Who leaves\<close>

text \<open>
  A client that closes the connection instead of answering is recorded as an anomaly of its address, although a
  departure must never count: the websocket library reports it as a close error, which is none of the three errors the
  filter lets pass. A connection that only times out leaves no trace but its nonce.
\<close>

theorem leaving_counts_as_anomaly:
  assumes "xRand (aeSv ev) 0 = Some b" "from_first auth_prefix (aeIOText ev CloseError) = None"
    and "s1 = snd (auth_challenge ev ip host s)"
  shows "snd (snd (authenticateClient ev c ip host onion None (\<lambda>_. (Some CloseError, no_packet)) wr s)) =
      s1\<lparr>auChat := observeErr (aeSv ev) 4 ip ''auth:fail'' (auChat s1)\<rparr> \<and>
    snd (snd (authenticateClient ev c ip host onion None (\<lambda>_. (Some NetError, no_packet)) wr s)) = s1"
  using assms
  by (simp_all add: authenticateClient_def HandleAuth_def auth_challenge_def auth_answer_def after_auth_def observeAuthErr_def
      penalizeAuthFailure_def no_packet_def Let_def)

theorem leaving_counts_as_anomaly_witness:
  "let s1 = snd (auth_challenge ex_au_env ''1.2.3.4'' ''chat'' ex_auth_server)
   in snd (snd (authenticateClient ex_au_env 7 ''1.2.3.4'' ''chat'' False None (\<lambda>_. (Some CloseError, no_packet)) None ex_auth_server)) =
      s1\<lparr>auChat := observeErr (aeSv ex_au_env) 4 ''1.2.3.4'' ''auth:fail'' (auChat s1)\<rparr>"
  unfolding Let_def
  by (rule leaving_counts_as_anomaly [THEN conjunct1, OF _ _ refl]) (simp_all add: ex_auth auth_prefix_def)

end
