(* ===== verification/Client_Login.thy ===== *)
theory Client_Login
  imports Auth_Laws Client_Signing
begin

text \<open>
  The client's half of the handshake: \<open>connect\<close> of \<^verbatim>\<open>src/client/session.go\<close> from the challenge on, with the key of
  \<^verbatim>\<open>src/client/tripchain.go\<close>, in the native build, and the server's key file (\<^verbatim>\<open>src/server/server_identity.go\<close>). Both halves
  together: an honest key-file login is accepted, and login leaves client and server in step for signed messages. The pin
  of the server's key, though, is only looked at when the server sends a key.
\<close>

subsection \<open>The answer to a challenge\<close>

record Ed25519Identity =
  eiRole :: string
  eiPrivateKey :: string
  eiHmacShield :: string
  eiServerPubKey :: string

datatype login_stop = KeyFileError | NoEd25519 | BadPrivateKey | PinMismatch | ServerUnproven | WriteFailed | ReadFailed
  | Denied string | BadReply string

text \<open>\<open>loKeyFile\<close>: no key file, one that does not load, or the identity in it. \<open>loHostname\<close> is the host of the URL, in
  lower case.\<close>

record login_env =
  loArgon :: argon2id
  loEd :: ed_verify
  loFold :: "string \<Rightarrow> string \<Rightarrow> bool"
  loHmac512 :: "bytes \<Rightarrow> bytes \<Rightarrow> bytes"
  loSaltFallback :: string
  loMathRand :: u32
  loSeed :: "u32 option"
  loTripcode :: string
  loTripSalt :: string
  loShowJoin :: bool
  loPasskey :: string
  loTicket :: string
  loKeyFile :: "(unit + Ed25519Identity option) option"
  loHostname :: "string option"
  loWrites :: bool
  loNow :: time

definition tripSaltDomain :: "login_env \<Rightarrow> string" where
  "tripSaltDomain lo = (if loSaltFallback lo \<noteq> [] then loSaltFallback lo else ''V2V-trip-v1'')"

definition tripServerDefault :: "login_env \<Rightarrow> AuthPacket \<Rightarrow> bytes" where
  "tripServerDefault lo ch =
     take 16 (sha256 (if TrimSpace (apTripSalt ch) \<noteq> [] then TrimSpace (apTripSalt ch)
                      else case hex_decode (TrimSpace (apServerPubKey ch)) of
                          Some b \<Rightarrow> if b \<noteq> [] then b else tripSaltDomain lo
                        | None \<Rightarrow> tripSaltDomain lo))"

definition resolveTripSalt :: "string \<Rightarrow> bytes \<Rightarrow> bytes" where
  "resolveTripSalt customSalt serverDefault = (if customSalt \<noteq> [] then take 16 (sha256 customSalt) else serverDefault)"

text \<open>With \<open>PresetNative\<close>. An ed25519 private key is the seed followed by the public key.\<close>

definition deriveTripKey :: "login_env \<Rightarrow> (bytes \<Rightarrow> bytes) \<Rightarrow> string \<Rightarrow> bytes \<Rightarrow> bytes \<times> bytes \<times> string" where
  "deriveTripKey lo pubOf passphrase salt =
     (let seed = loArgon lo passphrase salt 3 65536 4 32; pub = pubOf seed
      in (seed @ pub, pub, take 8 (hex_encode (sha256 pub))))"

text \<open>\<open>hex.DecodeString\<close> with its error ignored: the pairs before the first bad one.\<close>

fun hex_prefix :: "string \<Rightarrow> bytes" where
  "hex_prefix (a # b # cs) = (case hex_decode [a, b] of Some d \<Rightarrow> d @ hex_prefix cs | None \<Rightarrow> [])"
| "hex_prefix _ = []"

definition check_pin :: "login_env \<Rightarrow> AuthPacket \<Rightarrow> Ed25519Identity \<Rightarrow> login_stop option" where
  "check_pin lo ch i =
     (if apServerPubKey ch = [] then None
      else if eiServerPubKey i \<noteq> [] \<and> \<not> loFold lo (eiServerPubKey i) (apServerPubKey ch) then Some PinMismatch
      else let srvPub = hex_prefix (apServerPubKey ch); srvSig = hex_prefix (apServerSig ch)
        in if apServerSig ch \<noteq> [] \<and> length srvPub = 32 \<and> length srvSig = 64 \<and>
              \<not> loEd lo srvPub (server_proof (apNonce ch) (apServerHost ch)) srvSig
           then Some ServerUnproven else None)"

definition bind_value :: "login_env \<Rightarrow> AuthPacket \<Rightarrow> Ed25519Identity \<Rightarrow> string" where
  "bind_value lo ch i =
     (if apServerPubKey ch \<noteq> [] then apServerPubKey ch
      else if eiServerPubKey i \<noteq> [] then eiServerPubKey i
      else case loHostname lo of Some h \<Rightarrow> h | None \<Rightarrow> [])"

definition key_packet :: "login_env \<Rightarrow> (bytes \<Rightarrow> bytes \<Rightarrow> bytes) \<Rightarrow> AuthPacket \<Rightarrow> Ed25519Identity \<Rightarrow> AuthPacket \<Rightarrow> login_stop + AuthPacket" where
  "key_packet lo sign ch i resp =
     (case hex_decode (eiPrivateKey i) of
        None \<Rightarrow> Inl BadPrivateKey
      | Some priv \<Rightarrow>
          if length priv \<noteq> 64 then Inl BadPrivateKey
          else case check_pin lo ch i of
              Some e \<Rightarrow> Inl e
            | None \<Rightarrow>
                (let sig = sign priv (signed_data (apNonce ch) (eiRole i) (apUsername resp) (bind_value lo ch i))
                 in Inr (resp\<lparr>apRole := eiRole i, apSignature := hex_encode sig,
                        apHmac := hex_encode (loHmac512 lo (eiHmacShield i) (sig @ apNonce ch))\<rparr>)))"

text \<open>The session before the answer: the base of the message numbers and the trip key.\<close>

definition tmp_base :: "login_env \<Rightarrow> u64" where
  "tmp_base lo = push_bit 32 (ucast (case loSeed lo of Some r \<Rightarrow> r | None \<Rightarrow> loMathRand lo) + 1)"

definition prepare_session :: "login_env \<Rightarrow> (bytes \<Rightarrow> bytes) \<Rightarrow> AuthPacket \<Rightarrow> Session \<Rightarrow> Session" where
  "prepare_session lo pubOf ch s =
     (let s1 = (upd_pending (\<lambda>p. p\<lparr>pnTmpSeq := tmp_base lo\<rparr>) s)\<lparr>ssServerPubKey := apServerPubKey ch\<rparr> in
      if loTripcode lo = [] then s1
      else let (priv, pub, badge) = deriveTripKey lo pubOf (loTripcode lo) (resolveTripSalt (loTripSalt lo) (tripServerDefault lo ch))
        in s1\<lparr>ssTripPriv := Some priv, ssTripPub := pub, ssTripBadge := badge\<rparr>)"

text \<open>The passphrase is cleared once the key is derived, so the legacy field is always empty.\<close>

definition answer_packet :: "login_env \<Rightarrow> (bytes \<Rightarrow> bytes \<Rightarrow> bytes) \<Rightarrow> AuthPacket \<Rightarrow> Session \<Rightarrow> login_stop + AuthPacket" where
  "answer_packet lo sign ch s =
     (let resp = no_packet\<lparr>apUsername := ssUsername s, apNonce := apNonce ch, apPlatform := ''native'', apHistoryJoins := loShowJoin lo,
            apTripPub := (if ssTripPub s \<noteq> [] then hex_encode (ssTripPub s) else [])\<rparr>
      in if loPasskey lo \<noteq> [] then Inr (resp\<lparr>apRole := loPasskey lo, apPairTicket := loTicket lo\<rparr>)
         else case loKeyFile lo of
             None \<Rightarrow> Inr resp
           | Some (Inl _) \<Rightarrow> Inl KeyFileError
           | Some (Inr None) \<Rightarrow> Inl NoEd25519
           | Some (Inr (Some i)) \<Rightarrow> key_packet lo sign ch i resp)"

subsection \<open>The result\<close>

definition sync_trip :: "AuthPacket \<Rightarrow> Session \<Rightarrow> Session" where
  "sync_trip r s =
     (if ssTripPub s \<noteq> [] \<and> apTripPub r \<noteq> []
      then let s1 = s\<lparr>ssTripSeq := apTripSeq r\<rparr>
        in case (if apTripPrev r = [] then None else hex_decode (apTripPrev r)) of
             Some b \<Rightarrow> if length b = 32 then s1\<lparr>ssTripPrev := b\<rparr> else s1
           | None \<Rightarrow> s1
      else s)"

definition login_result :: "login_env \<Rightarrow> AuthPacket \<Rightarrow> Console \<Rightarrow> login_stop option \<times> Console" where
  "login_result lo r c =
     (let c1 = c\<lparr>coAuthType := (if apAuthType r = [] then ''guest'' else apAuthType r), coRole := apRole r,
            coUnlimited := (case apPerms r of Some p \<Rightarrow> canMessageUnlimited p | None \<Rightarrow> False), coConnected := loNow lo,
            coPrefix := (case apPerms r of Some p \<Rightarrow> customPrefix p | None \<Rightarrow> coPrefix c), coSession := sync_trip r (coSession c)\<rparr>
      in if apType r = ''auth_failed'' then (Some (Denied (apError r)), c1)
         else if apType r = ''auth_success'' then (None, c1\<lparr>coSession := (coSession c1)\<lparr>ssUsername := apUsername r\<rparr>\<rparr>)
         else (Some (BadReply (apType r)), c1))"

text \<open>The exchange: \<open>server\<close> is what the peer replies to the answer, \<open>None\<close> when nothing can be read.\<close>

definition connect_login ::
  "login_env \<Rightarrow> cl_env \<Rightarrow> AuthPacket \<Rightarrow> (AuthPacket \<Rightarrow> AuthPacket option) \<Rightarrow> Console \<Rightarrow> login_stop option \<times> Console" where
  "connect_login lo env ch server c =
     (let c1 = c\<lparr>coSession := prepare_session lo (kPubOfSeed env) ch (coSession c)\<rparr> in
      case answer_packet lo (kSign env) ch (coSession c1) of
        Inl e \<Rightarrow> (Some e, c1)
      | Inr resp \<Rightarrow>
          if \<not> loWrites lo then (Some WriteFailed, c1)
          else case server resp of None \<Rightarrow> (Some ReadFailed, c1) | Some r \<Rightarrow> login_result lo r c1)"

subsection \<open>The server's key\<close>

text \<open>\<open>file\<close> is the parsed key file, if it can be read; \<open>gen\<close> is \<open>ed25519.GenerateKey\<close>, \<open>written\<close> says that the new
  file could be stored.\<close>

definition LoadOrCreateServerIdentity ::
  "(string \<times> string) option \<Rightarrow> (bytes \<times> bytes) option \<Rightarrow> bool \<Rightarrow> (string \<times> string) option" where
  "LoadOrCreateServerIdentity idfile gen stored =
     (let fresh = (case gen of
            Some (pub, priv) \<Rightarrow> if stored then Some (hex_encode pub, hex_encode priv) else None
          | None \<Rightarrow> None)
      in case idfile of
           None \<Rightarrow> fresh
         | Some (pub, priv) \<Rightarrow>
             if priv = [] \<or> pub = [] then fresh
             else case (hex_decode priv, hex_decode pub) of
                 (Some k, Some p) \<Rightarrow> if length k = 64 \<and> length p = 32 \<and> p = drop 32 k then Some (pub, priv) else fresh
               | _ \<Rightarrow> fresh)"

lemma server_identity_is_sound:
  assumes "LoadOrCreateServerIdentity idfile gen stored = Some (pub, priv)"
    and "\<And>p k. gen = Some (p, k) \<Longrightarrow> length k = 64 \<and> p = drop 32 k"
  shows "\<exists>k. hex_decode priv = Some k \<and> length k = 64 \<and> hex_decode pub = Some (drop 32 k)"
  using assms by (auto simp: LoadOrCreateServerIdentity_def Let_def split: option.splits if_splits prod.splits)

subsection \<open>An honest login\<close>

lemma hex_prefix_decode: "hex_decode s = Some b \<Longrightarrow> hex_prefix s = b"
proof (induction s arbitrary: b rule: hex_prefix.induct)
  case (1 x y cs)
  then obtain d where d: "hex_decode cs = Some d" by (auto split: option.splits)
  obtain e where e: "hex_decode [x, y] = Some e" using 1(2) by (auto split: option.splits)
  have "b = e @ d" using 1(2) d e by (auto split: option.splits)
  then show ?case using 1(1) [OF e d] e by simp
qed auto

lemma try_identities_finds:
  "\<exists>i \<in> set is. key_matches ev p msg sig i \<and> shield_matches ev n sig (apHmac resp) i \<Longrightarrow>
   \<exists>resp'. try_identities ev p n msg sig is resp = (True, resp') \<and> apRole resp' = apRole resp \<and> apAuthType resp' = ''ed25519''"
  by (induction ev p n msg sig "is" resp rule: try_identities.induct) (auto simp: Let_def)

text \<open>A server with a key, a role with an identity, and the key file that belongs to it.\<close>

definition registered :: "login_env \<Rightarrow> (bytes \<Rightarrow> bytes \<Rightarrow> bytes) \<Rightarrow> au_env \<Rightarrow> AuthServer \<Rightarrow> Ed25519Identity \<Rightarrow> RoleDefinition \<Rightarrow> bool" where
  "registered lo sign ev s i rd \<longleftrightarrow>
     eiRole i \<noteq> [] \<and> length (eiRole i) \<le> 64 \<and> auRoles s (eiRole i) = Some rd \<and>
     (\<exists>d pub priv. d \<in> set (rdIdentities rd) \<and> hex_decode (idPublicKey d) = Some pub \<and> length pub = 32 \<and>
        hex_decode (eiPrivateKey i) = Some priv \<and> length priv = 64 \<and> idHmacShield d = eiHmacShield i \<and>
        (idServerPubKey d = [] \<or> aeFold ev (TrimSpace (idServerPubKey d)) (chat_serverPub (auChat s))) \<and>
        (\<forall>m. xEd (aeSv ev) pub m (sign priv m) \<and> length (sign priv m) = 64)) \<and>
     (eiServerPubKey i = [] \<or> loFold lo (eiServerPubKey i) (chat_serverPub (auChat s))) \<and>
     (\<forall>k m. loHmac512 lo k m = aeHmac512 ev k m)"

definition keyed_server :: "login_env \<Rightarrow> au_env \<Rightarrow> AuthServer \<Rightarrow> bool" where
  "keyed_server lo ev s \<longleftrightarrow>
     (\<exists>pub priv p k. cvServerID (auChat s) = Some (pub, priv) \<and> hex_decode pub = Some p \<and> length p = 32 \<and>
        hex_decode priv = Some k \<and> length k = 64 \<and>
        (\<forall>m. loEd lo p m (xSign (aeSv ev) k m) \<and> length (xSign (aeSv ev) k m) = 64))"

text \<open>The client as the peer of the server.\<close>

definition client_peer :: "login_env \<Rightarrow> cl_env \<Rightarrow> Session \<Rightarrow> AuthPacket \<Rightarrow> io_error option \<times> AuthPacket" where
  "client_peer lo env s ch =
     (case answer_packet lo (kSign env) ch (prepare_session lo (kPubOfSeed env) ch s) of
        Inr resp \<Rightarrow> (None, resp)
      | Inl _ \<Rightarrow> (Some CloseError, no_packet))"

lemma prepare_username [simp]: "ssUsername (prepare_session lo pubOf ch s) = ssUsername s"
  by (simp add: prepare_session_def Let_def split: prod.split)

lemma keyed_pin_passes:
  assumes "keyed_server lo ev s" "auth_challenge ev ip host s = (Inr ch, s1)" "eiServerPubKey i = [] \<or> loFold lo (eiServerPubKey i) (chat_serverPub (auChat s))"
  shows "check_pin lo ch i = None" "bind_value lo ch i = chat_serverPub (auChat s)"
proof -
  obtain pub priv p k where k: "cvServerID (auChat s) = Some (pub, priv)" "hex_decode pub = Some p" "length p = 32"
      "hex_decode priv = Some k" "length k = 64" "\<forall>m. loEd lo p m (xSign (aeSv ev) k m) \<and> length (xSign (aeSv ev) k m) = 64"
    using assms(1) unfolding keyed_server_def by blast
  have pub: "pub \<noteq> []" using k(2,3) by auto
  then show "check_pin lo ch i = None" "bind_value lo ch i = chat_serverPub (auChat s)"
    using assms(2,3) k hex_prefix_decode [OF k(2)]
    by (auto simp: check_pin_def bind_value_def auth_challenge_def chat_serverPub_def server_sig_def Let_def hex_prefix_decode no_packet_def split: option.splits)
qed

text \<open>
  C6. An honest key-file login is accepted. If the server holds its key, the role lists the identity of the key file with
  the same HMAC secret, and the pins on both sides name this server, then a client that answers the challenge within ten
  seconds, with a name that is not too long, is let in with exactly the rights of its role. The two signature schemes are
  any whose signatures verify.
\<close>

theorem honest_key_login_is_accepted:
  assumes server: "keyed_server lo ev s" "xRand (aeSv ev) 0 = Some b" "xClk (aeSv ev) 1 \<le> xClk (aeSv ev) 0 + 10 * second"
    and client: "loPasskey lo = []" "loKeyFile lo = Some (Inr (Some i))" "registered lo (kSign env) ev s i rd"
    and name: "int (length (runes (ssUsername c))) \<le> dcMaxUsernameLength (xDyn (aeSv ev))"
  shows "\<exists>resp s'. HandleAuth ev ip host onion None (client_peer lo env c) s = ((rdPermission rd, resp, None), s') \<and>
    apRole resp = eiRole i \<and> apAuthType resp = ''ed25519''"
proof -
  obtain ch s1 where ch: "auth_challenge ev ip host s = (Inr ch, s1)" using server(2) by (simp add: auth_challenge_def Let_def)
  have n: "apNonce ch = hex_encode b" and s1: "s1 = s\<lparr>auNonces := AList.update (hex_encode b) \<lparr>nmExpiresAt = xClk (aeSv ev) 0 + 10 * second, nmIP = ip\<rparr> (auNonces s)\<rparr>"
    using ch server(2) by (auto simp: auth_challenge_def Let_def no_packet_def)
  obtain d pub priv where d: "d \<in> set (rdIdentities rd)" "hex_decode (idPublicKey d) = Some pub" "length pub = 32"
      "hex_decode (eiPrivateKey i) = Some priv" "length priv = 64" "idHmacShield d = eiHmacShield i"
      "idServerPubKey d = [] \<or> aeFold ev (TrimSpace (idServerPubKey d)) (chat_serverPub (auChat s))"
      "\<forall>m. xEd (aeSv ev) pub m (kSign env priv m) \<and> length (kSign env priv m) = 64"
      "eiServerPubKey i = [] \<or> loFold lo (eiServerPubKey i) (chat_serverPub (auChat s))"
      and r: "eiRole i \<noteq> []" "length (eiRole i) \<le> 64" "auRoles s (eiRole i) = Some rd" "\<forall>k m. loHmac512 lo k m = aeHmac512 ev k m"
    using client(3) unfolding registered_def by blast
  note pin = keyed_pin_passes [OF server(1) ch d(9)]
  define sig where "sig = kSign env priv (signed_data (hex_encode b) (eiRole i) (ssUsername c) (chat_serverPub (auChat s)))"
  obtain resp where resp: "client_peer lo env c ch = (None, resp)" "apUsername resp = ssUsername c" "apRole resp = eiRole i" "apNonce resp = hex_encode b"
      "apSignature resp = hex_encode sig" "apHmac resp = hex_encode (aeHmac512 ev (eiHmacShield i) (sig @ hex_encode b))"
      "apPairTicket resp = []" "apPasskeyID resp = []" "apPasskeySig resp = []"
    using client(1,2) d(4,5) pin r(4) by (simp add: client_peer_def answer_packet_def key_packet_def Let_def n sig_def no_packet_def)
  let ?p = "chat_serverPub (auChat s)" and ?msg = "signed_data (hex_encode b) (eiRole i) (ssUsername c) (chat_serverPub (auChat s))"
  have "\<exists>d \<in> set (rdIdentities rd). key_matches ev ?p ?msg sig d \<and> shield_matches ev (hex_encode b) sig (apHmac resp) d"
    using d resp(6) by (intro bexI [of _ d]) (auto simp: key_matches_def shield_matches_def sig_def)
  from try_identities_finds [OF this] obtain resp' where t:
    "try_identities ev ?p (hex_encode b) ?msg sig (rdIdentities rd) resp = (True, resp')" "apRole resp' = apRole resp" "apAuthType resp' = ''ed25519''" by blast
  have len: "length sig = 64" using d(8) by (simp add: sig_def)
  show ?thesis
    using server(3) name r t resp len ch
    by (auto simp: HandleAuth_def auth_answer_def consumeNonce_def key_login_def Let_def s1 n update_conv')
qed

subsection \<open>In step after login\<close>

lemma try_identities_keeps: "apTripPub (snd (try_identities ev p n msg sig is resp)) = apTripPub resp"
  by (induction "is" arbitrary: resp) (simp_all add: Let_def)

abbreviation keeps_trip :: "AuthPacket \<Rightarrow> AuthServer \<Rightarrow> auth_result \<times> AuthServer \<Rightarrow> bool" where
  "keeps_trip resp s x \<equiv> apTripPub (fst (snd (fst x))) = apTripPub resp \<and> cvTripChains (auChat (snd x)) = cvTripChains (auChat s)"

lemma pair_login_keeps: "keeps_trip resp s (loginWithPairTicket ev ip resp s)"
  by (auto simp: loginWithPairTicket_def split: sum.split option.split prod.split pair_error.split)

lemma passkey_login_keeps: "keeps_trip resp s (passkey_login ev onion resp s)"
  by (simp add: passkey_login_def Let_def split: sum.split option.split prod.split)

lemma key_login_keeps: "keeps_trip resp s (key_login ev ip n resp s)"
  by (simp add: key_login_def Let_def case_prod_beta try_identities_keeps split: option.split)

lemmas logins_keep = pair_login_keeps passkey_login_keeps key_login_keeps

lemma answer_keeps:
  assumes "auth_answer ev ip onion n io resp s = ((p, resp', None), s')"
  shows "apTripPub resp' = apTripPub resp" "cvTripChains (auChat s') = cvTripChains (auChat s)"
proof -
  define s1 where "s1 = s\<lparr>auNonces := auNonces s'\<rparr>"
  note acc = answer_accepted(3) [OF assms, folded s1_def]
  have "apTripPub resp' = apTripPub resp \<and> cvTripChains (auChat s') = cvTripChains (auChat s1)"
    using acc logins_keep [where resp = resp and s = s1] by (metis (no_types, lifting) fst_conv snd_conv)
  then show "apTripPub resp' = apTripPub resp" "cvTripChains (auChat s') = cvTripChains (auChat s)" by (simp_all add: s1_def)
qed

lemma sync_in_step:
  assumes "length pub = 32" "\<And>ch. map_of tcs (hex_encode pub) = Some ch \<Longrightarrow> tcPrevHash ch = [] \<or> length (tcPrevHash ch) = 32"
    and "trip_sync (hex_encode pub) tcs = (p, q, h)"
  shows "p = hex_encode pub" "\<exists>b. h = hex_encode b \<and> length b = 32 \<and> expected_link (map_of tcs (hex_encode pub)) = (q + 1, b)"
proof -
  have ne: "hex_encode pub \<noteq> []" using assms(1) by (cases pub) auto
  show "p = hex_encode pub" using assms(1,3) ne by (auto simp: trip_sync_def split: option.splits)
  show "\<exists>b. h = hex_encode b \<and> length b = 32 \<and> expected_link (map_of tcs (hex_encode pub)) = (q + 1, b)"
    using assms ne by (auto simp: trip_sync_def expected_link_def zero_hash_def split: option.splits if_splits)
qed

lemma session_sync:
  assumes "open_session ev c ip host perms pkt None s = (out, Inr ses, s')" "apTripPub pkt = hex_encode pub"
    and "length pub = 32" "\<And>ch. map_of (cvTripChains (auChat s)) (hex_encode pub) = Some ch \<Longrightarrow> tcPrevHash ch = [] \<or> length (tcPrevHash ch) = 32"
  shows "apType out = ''auth_success''" "apUsername out = seDisplayName ses" "seTripPub ses = hex_encode pub" "apTripPub out = hex_encode pub"
    "\<exists>b. apTripPrev out = hex_encode b \<and> length b = 32 \<and>
      expected_link (map_of (cvTripChains (auChat s')) (hex_encode pub)) = (apTripSeq out + 1, b)"
proof -
  obtain p q h where t: "trip_sync (hex_encode pub) (cvTripChains (auChat s)) = (p, q, h)" by (metis prod.collapse)
  obtain nm hub where g: "generateDisplayName (xGC (aeSv ev)) (dcMaxUsernameLength (xDyn (aeSv ev))) (auSalt s) (xClk (aeSv ev) 6)
      (apUsername pkt) ip perms (cvHub (auChat s)) = (nm, hub)" by fastforce
  note sync = sync_in_step [OF assms(3,4) t]
  have o: "apType out = ''auth_success''" "apUsername out = nm" "seDisplayName ses = nm" "seTripPub ses = p" "apTripPub out = p" "apTripPrev out = h"
      "apTripSeq out = q" "cvTripChains (auChat s') = cvTripChains (auChat s)"
    using assms(1,2) t g by (auto simp: open_session_def Let_def no_packet_def)
  show "apType out = ''auth_success''" "apUsername out = seDisplayName ses" "seTripPub ses = hex_encode pub" "apTripPub out = hex_encode pub"
    "\<exists>b. apTripPrev out = hex_encode b \<and> length b = 32 \<and>
      expected_link (map_of (cvTripChains (auChat s')) (hex_encode pub)) = (apTripSeq out + 1, b)"
    using o sync by auto
qed

definition derived_key :: "login_env \<Rightarrow> cl_env \<Rightarrow> AuthPacket \<Rightarrow> bytes \<times> bytes \<times> string" where
  "derived_key lo env ch = deriveTripKey lo (kPubOfSeed env) (loTripcode lo) (resolveTripSalt (loTripSalt lo) (tripServerDefault lo ch))"

lemma answer_trip:
  assumes "answer_packet lo sign ch s = Inr resp"
  shows "apTripPub resp = (if ssTripPub s \<noteq> [] then hex_encode (ssTripPub s) else [])"
  using assms by (auto simp: answer_packet_def key_packet_def Let_def no_packet_def split: if_splits option.splits sum.splits)

text \<open>
  C7. Login puts client and server in step. When a client with a passphrase logs in, as a guest or with a role, and the
  server opens a session for it, then the client's state after the reply is the one from which every message it signs is
  accepted: the number and the hash it signs next are those the server expects for its key, whatever the server has kept of
  that key from earlier connections, and both sides use the same key, display name and server key.
\<close>

theorem login_puts_in_step:
  assumes server: "auth_challenge ev ip host s = (Inr ch, s1)"
    and opened: "authenticateClient ev c ip host onion None (client_peer lo env (coSession con)) None s = (out, Inr ses, s')"
    and key: "loTripcode lo \<noteq> []" "derived_key lo env ch = (priv, pub, badge)" "length pub = 32"
    and chain: "\<forall>tc. map_of (cvTripChains (auChat s)) (hex_encode pub) = Some tc \<longrightarrow> tcPrevHash tc = [] \<or> length (tcPrevHash tc) = 32"
    and client: "loWrites lo" "connect_login lo env ch (\<lambda>_. Some out) con = (stop, con')"
  shows "stop = None \<and>
    (let k = \<lparr>sgPriv = priv, sgPub = pub, sgName = seDisplayName ses, sgServer = apServerPubKey ch\<rparr>
     in named k (coSession con') \<and> ssTripPriv (coSession con') = Some priv \<and> sg_fits k (trip_view ses) \<and>
        expected_link (map_of (cvTripChains (auChat s')) (sg_key k)) = client_link (coSession con'))"
proof -
  let ?s0 = "prepare_session lo (kPubOfSeed env) ch (coSession con)"
  have prep: "ssTripPub ?s0 = pub" "ssTripPriv ?s0 = Some priv" "ssServerPubKey ?s0 = apServerPubKey ch"
    using key(1,2) by (simp_all add: prepare_session_def derived_key_def Let_def)
  obtain io resp p pkt err s2 where h: "client_peer lo env (coSession con) ch = (io, resp)"
      "auth_answer ev ip onion (apNonce ch) io resp s1 = ((p, pkt, err), s2)" by (metis prod.collapse)
  have "after_auth ev c ip host (p, pkt, err) None s2 = (out, Inr ses, s')"
    using opened server h by (simp add: authenticateClient_def HandleAuth_def)
  then have err: "err = None" and os: "open_session ev c ip host p pkt None (if apRole pkt \<noteq> [] then s2\<lparr>auFails := AList.delete ip (auFails s2)\<rparr> else s2) = (out, Inr ses, s')"
    by (auto simp: after_auth_def Let_def split: option.splits if_splits)
  have io: "io = None" using answer_accepted(1) h(2) err by blast
  then have a: "answer_packet lo (kSign env) ch ?s0 = Inr resp" using h(1) by (auto simp: client_peer_def split: sum.splits)
  have ne: "pub \<noteq> []" using key(3) by auto
  have tp: "apTripPub pkt = hex_encode pub" using answer_keeps(1) h(2) err answer_trip [OF a] prep(1) ne by simp
  have tc: "cvTripChains (auChat s2) = cvTripChains (auChat s)"
    using answer_keeps(2) h(2) err server by (auto simp: auth_challenge_def Let_def split: option.splits)
  have "tcPrevHash x = [] \<or> length (tcPrevHash x) = 32"
    if "map_of (cvTripChains (auChat (if apRole pkt \<noteq> [] then s2\<lparr>auFails := AList.delete ip (auFails s2)\<rparr> else s2))) (hex_encode pub) = Some x" for x
    using chain that tc by (simp split: if_splits)
  note sync = session_sync [OF os tp key(3) this]
  obtain b where b: "apTripPrev out = hex_encode b" "length b = 32"
      "expected_link (map_of (cvTripChains (auChat s')) (hex_encode pub)) = (apTripSeq out + 1, b)" using sync(5) by blast
  have "hex_encode b \<noteq> []" "hex_encode pub \<noteq> []" using b(2) key(3) by (cases b; cases pub; simp)+
  then have st: "sync_trip out ?s0 = ?s0\<lparr>ssTripSeq := apTripSeq out, ssTripPrev := b\<rparr>"
    using sync(4) b(1,2) prep(1) ne by (simp add: sync_trip_def Let_def)
  have "stop = None \<and> coSession con' = (sync_trip out ?s0)\<lparr>ssUsername := seDisplayName ses\<rparr>"
    using client a sync(1,2) by (auto simp: connect_login_def login_result_def Let_def)
  then show ?thesis
    using prep b(2,3) sync(3) st by (simp add: named_def sg_fits_def trip_view_def client_link_def Let_def)
qed

subsection \<open>The pin\<close>

text \<open>
  The pin of the server's key does not protect the key file. Whoever answers on the other end of the connection, if it
  sends no server key at all then the client, whatever key it has pinned, skips both the comparison and the proof of
  possession, and hands out its signature and HMAC over the nonce it was given, bound to the pinned key.
\<close>

theorem keyless_server_passes_pin:
  assumes "apServerPubKey ch = []" "loPasskey lo = []" "loKeyFile lo = Some (Inr (Some i))"
    and "eiServerPubKey i \<noteq> []" "hex_decode (eiPrivateKey i) = Some priv" "length priv = 64"
  shows "\<exists>resp. answer_packet lo sign ch s = Inr resp \<and> apRole resp = eiRole i \<and> apNonce resp = apNonce ch \<and>
    apSignature resp = hex_encode (sign priv (signed_data (apNonce ch) (eiRole i) (ssUsername s) (eiServerPubKey i)))"
  using assms by (simp add: answer_packet_def key_packet_def check_pin_def bind_value_def no_packet_def Let_def)

subsection \<open>Examples\<close>

definition ex_srv_env :: au_env where
  "ex_srv_env = ex_au_env\<lparr>aeSv := (aeSv ex_au_env)\<lparr>xSign := (\<lambda>_ _. replicate 64 NUL)\<rparr>\<rparr>"

definition ex_keyed :: AuthServer where
  "ex_keyed = ex_auth_server\<lparr>auChat := (ex_chat_server None)\<lparr>cvServerID := Some (hex_encode (replicate 32 NUL), hex_encode (replicate 64 NUL))\<rparr>\<rparr>"

definition ex_key_file :: Ed25519Identity where
  "ex_key_file = \<lparr>eiRole = ''admin'', eiPrivateKey = hex_encode (replicate 64 CHR ''B''), eiHmacShield = ''M'', eiServerPubKey = hex_encode (replicate 32 NUL)\<rparr>"

definition ex_login :: login_env where
  "ex_login = \<lparr>loArgon = (\<lambda>_ _ _ _ _ n. replicate n NUL), loEd = (\<lambda>_ _ _. True), loFold = (=), loHmac512 = (\<lambda>k m. k), loSaltFallback = [],
     loMathRand = 7, loSeed = None, loTripcode = ''pw'', loTripSalt = [], loShowJoin = False, loPasskey = [], loTicket = [],
     loKeyFile = Some (Inr (Some ex_key_file)), loHostname = None, loWrites = True, loNow = 5\<rparr>"

definition ex_login_cl :: cl_env where
  "ex_login_cl = ex_cl_env\<lparr>kSign := (\<lambda>_ _. replicate 64 NUL), kPubOfSeed := (\<lambda>s. s)\<rparr>"

definition ex_guest :: Session where
  "ex_guest = (NewSession None)\<lparr>ssUsername := ''hi''\<rparr>"

lemmas ex_login_defs = ex_srv_env_def ex_keyed_def ex_key_file_def ex_login_def ex_login_cl_def ex_guest_def

lemma ex_hi_name: "int (length (runes (ssUsername ex_guest))) \<le> dcMaxUsernameLength (xDyn (aeSv ex_srv_env))"
  using ex_hi_fits by (simp add: ex_srv_env_def ex_guest_def)

theorem honest_key_login_is_accepted_witness:
  "\<exists>resp s'. HandleAuth ex_srv_env ''1.2.3.4'' ''chat'' False None (client_peer ex_login ex_login_cl ex_guest) ex_keyed =
     ((rdPermission ex_role, resp, None), s') \<and> apRole resp = ''admin''"
proof -
  have s: "keyed_server ex_login ex_srv_env ex_keyed"
    by (simp add: keyed_server_def ex_login_defs del: hex_encode.simps replicate_Suc)
  have r: "registered ex_login (kSign ex_login_cl) ex_srv_env ex_keyed ex_key_file ex_role"
    by (simp add: registered_def ex_login_defs ex_auth chat_serverPub_def del: hex_encode.simps replicate_Suc)
  have b: "xRand (aeSv ex_srv_env) 0 = Some ''N''" "xClk (aeSv ex_srv_env) 1 \<le> xClk (aeSv ex_srv_env) 0 + 10 * second"
    by (simp_all add: ex_srv_env_def ex_auth second_def)
  have "loPasskey ex_login = []" "loKeyFile ex_login = Some (Inr (Some ex_key_file))" by (simp_all add: ex_login_def)
  from honest_key_login_is_accepted [OF s b this r ex_hi_name] show ?thesis by (fastforce simp: ex_key_file_def)
qed

lemma ex_guest_enters:
  assumes "loKeyFile lo = None" "loPasskey lo = []"
  shows "\<exists>out ses s'. authenticateClient ex_srv_env 7 ''1.2.3.4'' ''chat'' False None (client_peer lo env ex_guest) None ex_keyed = (out, Inr ses, s')"
proof -
  let ?resp = "\<lambda>ch. no_packet\<lparr>apUsername := ''hi'', apNonce := apNonce ch, apPlatform := ''native'', apHistoryJoins := loShowJoin lo,
     apTripPub := (let p = ssTripPub (prepare_session lo (kPubOfSeed env) ch ex_guest) in if p \<noteq> [] then hex_encode p else [])\<rparr>"
  have p: "client_peer lo env ex_guest ch = (None, ?resp ch)" for ch
    using assms by (simp add: client_peer_def answer_packet_def Let_def ex_guest_def)
  have h: "\<exists>pkt s1. HandleAuth ex_srv_env ''1.2.3.4'' ''chat'' False None (client_peer lo env ex_guest) ex_keyed = ((GetDefaultPermission, pkt, None), s1) \<and> apTripcode pkt = []"
    using ex_hi_fits
    by (simp add: HandleAuth_def p auth_challenge_def auth_answer_def consumeNonce_def ex_srv_env_def ex_keyed_def ex_auth second_def Let_def del: hex_encode.simps)
  then obtain pkt s1 where h: "HandleAuth ex_srv_env ''1.2.3.4'' ''chat'' False None (client_peer lo env ex_guest) ex_keyed = ((GetDefaultPermission, pkt, None), s1)" "apTripcode pkt = []" by blast
  have m: "0 \<le> dcMaxTripcodeLength (xDyn (aeSv ex_srv_env))" by (simp add: ex_srv_env_def ex_auth)
  obtain out r s' where o: "after_auth ex_srv_env 7 ''1.2.3.4'' ''chat'' (GetDefaultPermission, pkt, None) None s1 = (out, r, s')" by (metis prod.collapse)
  then have "\<exists>ses. r = Inr ses" using h(2) m by (auto simp: after_auth_def open_session_def Let_def split: prod.splits)
  then show ?thesis using h(1) o by (auto simp: authenticateClient_def)
qed

theorem login_puts_in_step_witness:
  "\<exists>ch out (ses :: ClientSession) (s' :: AuthServer) con'. connect_login (ex_login\<lparr>loKeyFile := None\<rparr>) ex_login_cl ch (\<lambda>_. Some out) (ex_signer\<lparr>coSession := ex_guest\<rparr>) = (None, con') \<and>
     named \<lparr>sgPriv = replicate 64 NUL, sgPub = replicate 32 NUL, sgName = seDisplayName ses, sgServer = apServerPubKey ch\<rparr> (coSession con') \<and>
     expected_link (map_of (cvTripChains (auChat s')) (hex_encode (replicate 32 NUL))) = client_link (coSession con')"
proof -
  let ?lo = "ex_login\<lparr>loKeyFile := None\<rparr>" and ?con = "ex_signer\<lparr>coSession := ex_guest\<rparr>"
  obtain ch s1 where ch: "auth_challenge ex_srv_env ''1.2.3.4'' ''chat'' ex_keyed = (Inr ch, s1)"
    by (simp add: auth_challenge_def Let_def ex_srv_env_def ex_au_env_def)
  have "loKeyFile ?lo = None" "loPasskey ?lo = []" by (simp_all add: ex_login_def)
  from ex_guest_enters [OF this, of ex_login_cl] obtain out ses s' where
    o: "authenticateClient ex_srv_env 7 ''1.2.3.4'' ''chat'' False None (client_peer ?lo ex_login_cl (coSession ?con)) None ex_keyed = (out, Inr ses, s')" by auto
  obtain badge where k: "derived_key ?lo ex_login_cl ch = (replicate 64 NUL, replicate 32 NUL, badge)"
    by (simp add: derived_key_def deriveTripKey_def ex_login_def ex_login_cl_def Let_def replicate_add [symmetric] del: replicate_Suc)
  obtain stop con' where c: "connect_login ?lo ex_login_cl ch (\<lambda>_. Some out) ?con = (stop, con')" by fastforce
  have w: "loTripcode ?lo \<noteq> []" "length (replicate 32 NUL) = 32" "loWrites ?lo" by (simp_all add: ex_login_def)
  have t: "\<forall>tc. map_of (cvTripChains (auChat ex_keyed)) (hex_encode (replicate 32 NUL)) = Some tc \<longrightarrow> tcPrevHash tc = [] \<or> length (tcPrevHash tc) = 32"
    by (simp add: ex_keyed_def ex_chat_server_def)
  note step = login_puts_in_step [OF ch o w(1) k w(2) t w(3) c, unfolded Let_def signing.simps]
  show ?thesis
    by (rule exI [of _ ch], rule exI [of _ out], rule exI [of _ ses], rule exI [of _ s'], rule exI [of _ con']) (use step c in simp)
qed

theorem keyless_server_passes_pin_witness:
  "\<exists>resp. answer_packet ex_login (kSign ex_login_cl) (no_packet\<lparr>apNonce := ''00''\<rparr>) ex_guest = Inr resp \<and> apRole resp = ''admin''"
proof -
  have a: "apServerPubKey (no_packet\<lparr>apNonce := ''00''\<rparr>) = []" "loPasskey ex_login = []" "loKeyFile ex_login = Some (Inr (Some ex_key_file))"
    by (simp_all add: no_packet_def ex_login_def)
  have b: "eiServerPubKey ex_key_file \<noteq> []" "hex_decode (eiPrivateKey ex_key_file) = Some (replicate 64 CHR ''B'')" "length (replicate 64 CHR ''B'') = 64"
    by (simp_all add: ex_key_file_def numeral_eq_Suc del: hex_encode.simps(1) replicate_Suc)
  from keyless_server_passes_pin [OF a b, of "kSign ex_login_cl" ex_guest] show ?thesis by (auto simp: ex_key_file_def)
qed

end
