(* ===== verification/Serve.thy ===== *)
theory Serve
  imports Auth Read_Pump
begin

text \<open>
  A connection from the first byte to the last: \<open>ServeWS\<close> and \<open>serveAuthenticated\<close> of \<^verbatim>\<open>src/server/main.go\<close>, over the gate,
  the handshake and the read pump. What is resolved before (the client's address behind proxies, the block list, TLS) comes
  with the request. The places a connection holds are all returned; the last place under the global cap is never given.
\<close>

subsection \<open>Admission\<close>

record ws_request =
  wqIP :: string
  wqTrusted :: bool
  wqTLS :: bool
  wqForwardedProto :: string
  wqOnion :: bool
  wqOnionHop :: bool
  wqBlocked :: bool
  wqIPv4 :: bool
  wqQuery :: string
  wqHeader :: string
  wqHost :: string

record StaticConfig =
  stRequireTLS :: bool
  stRequireIPv4 :: bool

record WSServer =
  wvAuth :: AuthServer
  wvGate :: "GateStore option"

definition on_chat :: "(ChatServer \<Rightarrow> ChatServer) \<Rightarrow> WSServer \<Rightarrow> WSServer" where
  "on_chat f w = w\<lparr>wvAuth := (wvAuth w)\<lparr>auChat := f (auChat (wvAuth w))\<rparr>\<rparr>"

abbreviation chat_of :: "WSServer \<Rightarrow> ChatServer" where
  "chat_of w \<equiv> auChat (wvAuth w)"

text \<open>The part of the server that the gate handlers see, and its way back.\<close>

definition gate_view :: "WSServer \<Rightarrow> GateServer" where
  "gate_view w = \<lparr>svGate = wvGate w, svAttack = cvAttack (chat_of w), svBehavior = cvBehavior (chat_of w), svRejects = auRejects (wvAuth w),
     svClients = clientCount (chat_of w), svInflight = cvInflight (chat_of w), svServerID = cvServerID (chat_of w)\<rparr>"

definition put_gate :: "GateServer \<Rightarrow> WSServer \<Rightarrow> WSServer" where
  "put_gate g w = w\<lparr>wvGate := svGate g, wvAuth := (wvAuth w)\<lparr>auRejects := svRejects g,
     auChat := (chat_of w)\<lparr>cvAttack := svAttack g, cvBehavior := svBehavior g\<rparr>\<rparr>\<rparr>"

definition count_reject :: "rejectCause \<Rightarrow> WSServer \<Rightarrow> WSServer" where
  "count_reject c w = w\<lparr>wvAuth := (wvAuth w)\<lparr>auRejects := addReject c (auRejects (wvAuth w))\<rparr>\<rparr>"

definition on_attack :: "(AttackState \<Rightarrow> AttackState) \<Rightarrow> WSServer \<Rightarrow> WSServer" where
  "on_attack f = on_chat (\<lambda>c. c\<lparr>cvAttack := map_option f (cvAttack c)\<rparr>)"

definition insecure_text :: string where
  "insecure_text = ''Server b'' @ encode_runes [0x1EAF] @ ''t bu'' @ encode_runes [0x1ED9] @ ''c s'' @ encode_runes [0x1EED] @ '' d'' @ encode_runes [0x1EE5] @ ''ng k'' @ encode_runes [0x1EBF] @ ''t n'' @ encode_runes [0x1ED1] @ ''i m'' @ encode_runes [0xE3] @ '' h'' @ encode_runes [0xF3] @ ''a (wss://).''"

definition busy_text :: string where
  "busy_text = ''B'' @ encode_runes [0x1EA1] @ ''n '' @ encode_runes [0x111, 0xE3] @ '' m'' @ encode_runes [0x1EDF] @ '' qu'' @ encode_runes [0xE1] @ '' nhi'' @ encode_runes [0x1EC1] @ ''u k'' @ encode_runes [0x1EBF] @ ''t n'' @ encode_runes [0x1ED1] @ ''i t'' @ encode_runes [0x1EEB] @ '' '' @ encode_runes [0x111, 0x1ECB] @ ''a ch'' @ encode_runes [0x1EC9] @ '' IP n'' @ encode_runes [0xE0] @ ''y.''"

definition IsSecuredConnect :: "StaticConfig \<Rightarrow> ws_request \<Rightarrow> bool" where
  "IsSecuredConnect st q =
     (let isProxyTLS = (wqTrusted q \<and> to_lower (wqForwardedProto q) = ''https'');
          isLocalhost = (wqIP q = ''127.0.0.1'' \<or> wqIP q = ''::1'');
          isOnion = (wqOnion q \<and> \<not> wqTrusted q \<and> (isLocalhost \<or> wqOnionHop q))
      in \<not> stRequireTLS st \<or> wqTLS q \<or> isProxyTLS \<or> isLocalhost \<or> isOnion)"

definition turn_away :: "au_env \<Rightarrow> ws_request \<Rightarrow> http_reply \<Rightarrow> WSServer \<Rightarrow> http_reply option \<times> WSServer" where
  "turn_away ev q r w = (Some r, on_chat (observeHTTP (aeSv ev) 5 (wqIP q) ''join_ws'' (hrStatus r)) w)"

text \<open>Everything before the upgrade: the refusal, or \<open>None\<close> and a server with one more connection in its handshake.
  The slot of the address taken before the cap check is given back by the deferred release.\<close>

definition take_slot :: "au_env \<Rightarrow> ws_request \<Rightarrow> WSServer \<Rightarrow> http_reply option \<times> WSServer" where
  "take_slot ev q w =
     (let (ok, c) = acquireIPConnection (aeSv ev) (wqIP q) (chat_of w); w1 = on_chat (\<lambda>_. c) w in
      if \<not> ok then turn_away ev q \<lparr>hrStatus = 429, hrRetryAfter = Some 5, hrBody = Refused busy_text\<rparr> (count_reject rejectPerIPCause w1)
      else if overCap (xAbuse (aeSv ev)) (clientCount (chat_of w1)) (cvInflight (chat_of w1))
      then let (r, w2) = turn_away ev q \<lparr>hrStatus = 503, hrRetryAfter = Some 5, hrBody = Refused ''Server is full, retry later.''\<rparr>
                 (count_reject rejectFullCause (on_attack (note503 (unix_seconds (xClk (aeSv ev) 4))) w1))
        in (r, on_chat (releaseIPConnection (wqIP q)) w2)
      else (None, on_chat (observeHTTP (aeSv ev) 5 (wqIP q) ''join_ws'' 200 \<circ> (\<lambda>c. c\<lparr>cvInflight := cvInflight c + 1\<rparr>)) w1))"

definition pass_rate :: "au_env \<Rightarrow> ws_request \<Rightarrow> WSServer \<Rightarrow> http_reply option \<times> WSServer" where
  "pass_rate ev q w =
     (case CheckConnectionRate_http ev (wqIP q) (wvAuth w) of
        (Some r, a) \<Rightarrow> turn_away ev q r (w\<lparr>wvAuth := a\<rparr>)
      | (None, a) \<Rightarrow> take_slot ev q (w\<lparr>wvAuth := a\<rparr>))"

definition pass_gate :: "au_env \<Rightarrow> ws_request \<Rightarrow> WSServer \<Rightarrow> http_reply option \<times> WSServer" where
  "pass_gate ev q w =
     (if gateRequired (xAbuse (aeSv ev)) (xClk (aeSv ev) 6) (gate_view w)
      then case checkGatePass (xAbuse (aeSv ev)) (xOrder (aeSv ev) 7) (wqQuery q) (wqHeader q) (wqIP q) (xClk (aeSv ev) 7) (gate_view w) of
             (Some r, g) \<Rightarrow> (Some \<lparr>hrStatus = rpStatus r, hrRetryAfter = rpRetryAfter r, hrBody = GateRefusal (rpBody r)\<rparr>, put_gate g w)
           | (None, g) \<Rightarrow> pass_rate ev q (put_gate g w)
      else pass_rate ev q w)"

definition admit_ws :: "au_env \<Rightarrow> StaticConfig \<Rightarrow> ws_request \<Rightarrow> WSServer \<Rightarrow> http_reply option \<times> WSServer" where
  "admit_ws ev st q w =
     (let w1 = on_attack (noteAttempt (wqIP q) (unix_seconds (xClk (aeSv ev) 8))) w in
      if wqBlocked q
      then turn_away ev q (refuse 403 ''Blocked.'')
             (on_chat (on_behavior (engine_SetBlocklisted (xOrder (aeSv ev) 9) (wqIP q)))
                (on_attack (noteBlock (unix_seconds (xClk (aeSv ev) 9))) w1))
      else if stRequireIPv4 st \<and> \<not> wqIPv4 q then turn_away ev q (refuse 403 ''IPv6 is not accepted here.'') w1
      else if \<not> IsSecuredConnect st q then turn_away ev q (refuse 426 insecure_text) w1
      else pass_gate ev q w1)"

subsection \<open>The session\<close>

definition releaseInflight :: "ChatServer \<Rightarrow> ChatServer" where
  "releaseInflight c = c\<lparr>cvInflight := cvInflight c - 1\<rparr>"

definition exposed_text :: "string \<Rightarrow> string" where
  "exposed_text seed = ''Danh t'' @ encode_runes [0xED] @ ''nh n'' @ encode_runes [0xE0] @ ''y '' @ encode_runes [0x111, 0xE3] @ '' l'' @ encode_runes [0x1ED9] @ '' seed '' @ seed @ '', '' @ encode_runes [0x111, 0x1EEB] @ ''ng tin badge n'' @ encode_runes [0xE0] @ ''y n'' @ encode_runes [0x1EEF] @ ''a.''"

definition warn_exposed :: "sv_env \<Rightarrow> ClientSession \<Rightarrow> ChatServer \<Rightarrow> ChatServer" where
  "warn_exposed ev ses c =
     (let (seed, m) = exposedSeedHex (xClk ev 20) (xClk ev 21) (seTripPub ses) (cvExposed c); c1 = c\<lparr>cvExposed := m\<rparr> in
      if seTripPub ses \<noteq> [] \<and> seed \<noteq> [] then say ev 22 ses (exposed_text seed) TagTripReveal c1 else c1)"

definition enter_hub :: "sv_env \<Rightarrow> ClientSession \<Rightarrow> string \<Rightarrow> WSServer \<Rightarrow> WSServer" where
  "enter_hub ev ses ip = on_chat (\<lambda>c. warn_exposed ev ses
     (observeConnect ev 23 ip (seDisplayName ses) (sessionIdentityKind ses)
       (releaseInflight (c\<lparr>cvHub := registerClient (henv ev) (xClk ev 24) (xClk ev 25) (xClk ev 26) ses ip (cvHub c)\<rparr>))))"

definition leave_hub :: "sv_env \<Rightarrow> ClientSession \<Rightarrow> string \<Rightarrow> WSServer \<Rightarrow> WSServer" where
  "leave_hub ev ses ip = on_chat (\<lambda>c. observeDisconnect ev 27 ip
     (c\<lparr>cvHub := unregisterClient (henv ev) (xClk ev 28) (xClk ev 29) (xClk ev 30) ses (cvHub c)\<rparr>))"

text \<open>Up to the read pump: whether the session is kept.\<close>

definition register_session :: "sv_env \<Rightarrow> ClientSession \<Rightarrow> string \<Rightarrow> WSServer \<Rightarrow> bool \<times> WSServer" where
  "register_session ev ses ip w =
     (let w1 = enter_hub ev ses ip w
      in if overCap (xAbuse ev) (clientCount (chat_of w1)) (cvInflight (chat_of w1))
         then (False, leave_hub ev ses ip (count_reject rejectFullCause w1))
         else (True, w1))"

text \<open>The handshake of an admitted connection: \<open>up\<close> says that the upgrade succeeded.\<close>

definition shake_hands ::
  "au_env \<Rightarrow> conn \<Rightarrow> ws_request \<Rightarrow> bool \<Rightarrow> io_error option \<Rightarrow> (AuthPacket \<Rightarrow> io_error option \<times> AuthPacket) \<Rightarrow> io_error option \<Rightarrow>
   WSServer \<Rightarrow> ClientSession option \<times> WSServer" where
  "shake_hands ev c q up wr peer wr2 w =
     (if \<not> up then (None, on_chat releaseInflight w)
      else case authenticateClient ev c (wqIP q) (wqHost q) (wqOnion q) wr peer wr2 (wvAuth w) of
          (_, Inl _, a) \<Rightarrow> (None, on_chat releaseInflight (w\<lparr>wvAuth := a\<rparr>))
        | (_, Inr ses, a) \<Rightarrow> (Some ses, w\<lparr>wvAuth := a\<rparr>))"

definition serveAuthenticated :: "sv_env \<Rightarrow> sv_env \<Rightarrow> sv_env \<Rightarrow> (sv_env \<times> string) list \<Rightarrow> ClientSession \<Rightarrow> string \<Rightarrow> WSServer \<Rightarrow> WSServer" where
  "serveAuthenticated ev ev0 ev1 frames ses ip w =
     (case register_session ev ses ip w of
        (False, w1) \<Rightarrow> w1
      | (True, w1) \<Rightarrow> on_chat (ReadPump ev0 ev1 ses ip frames) w1)"

definition ServeWS ::
  "au_env \<Rightarrow> au_env \<Rightarrow> StaticConfig \<Rightarrow> conn \<Rightarrow> ws_request \<Rightarrow> bool \<Rightarrow> io_error option \<Rightarrow> (AuthPacket \<Rightarrow> io_error option \<times> AuthPacket) \<Rightarrow> io_error option \<Rightarrow>
   sv_env \<Rightarrow> sv_env \<Rightarrow> sv_env \<Rightarrow> (sv_env \<times> string) list \<Rightarrow> WSServer \<Rightarrow> http_reply option \<times> WSServer" where
  "ServeWS evA ev st c q up wr peer wr2 ev' ev0 ev1 frames w =
     (case admit_ws evA st q w of
        (Some r, w1) \<Rightarrow> (Some r, w1)
      | (None, w1) \<Rightarrow>
          (case shake_hands ev c q up wr peer wr2 w1 of
             (None, w2) \<Rightarrow> (None, on_chat (releaseIPConnection (wqIP q)) w2)
           | (Some ses, w2) \<Rightarrow>
               (None, on_chat (releaseIPConnection (wqIP q)) (serveAuthenticated ev' ev0 ev1 frames ses (wqIP q) w2))))"

end
