(* ===== verification/Serve_Laws.thy ===== *)
theory Serve_Laws
  imports Serve Auth_Laws Session_Laws Machines Scheduler
begin

text \<open>
  What a connection takes of the server and gives back: the counters of handshakes and of connections per address are exact
  over every interleaving of arrivals, handshakes and departures. And what the global cap really allows: one session less
  than it says.
\<close>

subsection \<open>Places\<close>

text \<open>What a connection takes: a place in the list of sessions, one in the count of handshakes, one of its address.\<close>

definition places :: "ChatServer \<Rightarrow> conn list \<times> int \<times> (string \<rightharpoonup> int)" where
  "places c = (map fst (hbClients (cvHub c)), cvInflight c, cvIpCounts c)"

lemma send_system_keys: "map fst (hbClients (send_system env now m sender h)) = map fst (hbClients h)"
  by (simp add: send_system_def fanout_def store_notice_def Let_def split: prod.split)

lemma unicast_keys: "map fst (hbClients (unicastData c f h)) = map fst (hbClients h)"
  by (simp add: unicastData_def)

lemma alert_keys: "map fst (hbClients (alertConcurrentIdentity env now pub ip h)) = map fst (hbClients h)"
  by (simp add: alertConcurrentIdentity_def unicast_keys split: option.split)

lemma date_keys: "map fst (hbClients (CheckAndBroadcastDate env now now2 h)) = map fst (hbClients h)"
  by (simp add: CheckAndBroadcastDate_def BroadcastDate_def broadcastSystem_def send_system_keys Let_def)

lemma notice_keys: "map fst (hbClients (BroadcastNotice env now txt ls sender h)) = map fst (hbClients h)"
  by (simp add: BroadcastNotice_def broadcastSystem_def send_system_keys)

lemma identity_keys: "map fst (hbClients (take_identity env now s ip h)) = map fst (hbClients h)"
  by (simp add: take_identity_def alert_keys Let_def split: option.split)

lemmas hub_keys = unicast_keys alert_keys date_keys notice_keys identity_keys

lemma register_keys:
  "map fst (hbClients (registerClient env t n1 n2 ses ip h)) = map fst (AList.update (seConn ses) ses (hbClients h))"
  by (simp add: registerClient_def hub_keys Let_def)

lemma places_observe [simp]:
  "places (observeHTTP ev i ip cls st c) = places c" "places (observeErr ev i ip code c) = places c"
  "places (observeConnect ev i ip nm kind c) = places c" "places (observeDisconnect ev i ip c) = places c"
  "places (c\<lparr>cvAttack := a, cvBehavior := b\<rparr>) = places c" "places (c\<lparr>cvAttack := a\<rparr>) = places c" "places (on_behavior f c) = places c"
  by (simp_all add: places_def observe_defs on_behavior_def)

lemma places_auth_err [simp]: "places (observeAuthErr ev i ip e c) = places c"
  by (simp add: observeAuthErr_def split: option.split)

lemma places_challenge: "auth_challenge ev ip host s = (r, s') \<Longrightarrow> places (auChat s') = places (auChat s)"
  by (auto simp: auth_challenge_def Let_def split: option.splits)

lemma places_pair_login: "places (auChat (snd (loginWithPairTicket ev ip resp s))) = places (auChat s)"
  by (auto simp: loginWithPairTicket_def split: sum.split option.split prod.split pair_error.split)

lemma places_passkey_login: "places (auChat (snd (passkey_login ev onion resp s))) = places (auChat s)"
  by (simp add: passkey_login_def Let_def split: sum.split option.split prod.split)

lemma places_key_login: "places (auChat (snd (key_login ev ip n resp s))) = places (auChat s)"
  by (simp add: key_login_def Let_def case_prod_beta places_def alert_keys split: option.split)

lemma places_answer: "places (auChat (snd (auth_answer ev ip onion n io resp s))) = places (auChat s)"
proof (cases "consumeNonce (xClk (aeSv ev) 1) ip (apNonce resp) (auNonces s)")
  case (Pair bad ns)
  then show ?thesis
    by (simp add: auth_answer_def Let_def places_pair_login places_passkey_login places_key_login split: option.split)
qed

lemma places_handle: "places (auChat (snd (HandleAuth ev ip host onion wr peer s))) = places (auChat s)"
  by (auto simp: HandleAuth_def places_answer split: sum.split option.split prod.split dest: places_challenge)

lemma places_open: "places (auChat (snd (snd (open_session ev c ip host perms pkt wr s)))) = places (auChat s)"
  by (simp add: open_session_def generateDisplayName_def releaseDisplayName_def places_def Let_def split: prod.split option.split)

lemma places_after: "places (auChat (snd (snd (after_auth ev c ip host r wr s)))) = places (auChat s)"
proof -
  obtain p pkt e where "r = (p, pkt, e)" by (metis prod.collapse)
  then show ?thesis by (cases e) (simp_all add: after_auth_def places_open handleAuthPenalty_def Let_def)
qed

lemma places_authenticate:
  "authenticateClient ev c ip host onion wr peer wr2 s = (out, r, s') \<Longrightarrow> places (auChat s') = places (auChat s)"
  using places_after [of ev c ip host _ wr2] places_handle [of ev ip host onion wr peer s]
  by (auto simp: authenticateClient_def split: prod.splits) (metis snd_conv)+

subsection \<open>The global cap\<close>

abbreviation taken :: "WSServer \<Rightarrow> int" where
  "taken w \<equiv> clientCount (chat_of w) + cvInflight (chat_of w)"

lemma taken_places: "taken w = int (length (fst (places (chat_of w)))) + fst (snd (places (chat_of w)))"
  by (simp add: places_def clientCount_def)

lemma chat_on_chat [simp]: "chat_of (on_chat f w) = f (chat_of w)"
  by (simp add: on_chat_def)

lemma places_shake:
  assumes "shake_hands ev c q up wr peer wr2 w = (Some ses, w')"
  shows "places (chat_of w') = places (chat_of w)" "seConn ses = c"
proof -
  obtain out r a where au: "authenticateClient ev c (wqIP q) (wqHost q) (wqOnion q) wr peer wr2 (wvAuth w) = (out, r, a)" by (metis prod.collapse)
  then have r: "r = Inr ses" "w' = w\<lparr>wvAuth := a\<rparr>" using assms by (auto simp: shake_hands_def split: if_splits sum.splits)
  show "places (chat_of w') = places (chat_of w)" using places_authenticate [OF au] r by simp
  have open_conn: "seConn x = c" if "open_session ev c ip host perms pkt wr2 t = (out, Inr x, t')" for ip host perms pkt t x t'
    using that by (auto simp: open_session_def Let_def split: prod.splits option.splits)
  show "seConn ses = c" using au r(1) open_conn
    by (auto simp: authenticateClient_def after_auth_def Let_def split: prod.splits option.splits if_splits)
qed

lemma places_warn: "places (warn_exposed ev ses c) = places c"
  by (simp add: warn_exposed_def say_def places_def unicastNotice_def unicast_keys Let_def split: prod.split)

lemma places_enter:
  assumes "seConn ses \<notin> set (fst (places (chat_of w)))"
  shows "places (chat_of (enter_hub ev ses ip w)) = (fst (places (chat_of w)) @ [seConn ses], cvInflight (chat_of w) - 1, cvIpCounts (chat_of w))"
proof -
  have "map fst (AList.update (seConn ses) ses (hbClients (cvHub (chat_of w)))) = fst (places (chat_of w)) @ [seConn ses]"
    using assms by (simp add: update_keys places_def)
  then show ?thesis by (simp add: enter_hub_def places_warn) (simp add: places_def register_keys releaseInflight_def)
qed

lemma unregister_keys: "map fst (hbClients (unregisterClient env t n1 n2 ses h)) = removeAll (seConn ses) (map fst (hbClients h))"
  by (auto simp: unregisterClient_def hub_keys releaseDisplayName_def drop_identity_def AList.delete_keys Let_def map_of_eq_None_iff split: option.split)

lemma places_leave: "places (chat_of (leave_hub ev ses ip w)) = (removeAll (seConn ses) (fst (places (chat_of w))), snd (places (chat_of w)))"
  by (simp add: leave_hub_def) (simp add: places_def unregister_keys)

lemma places_slot:
  assumes "take_slot ev q w = (None, w1)"
  shows "places (chat_of w1) = (fst (places (chat_of w)), cvInflight (chat_of w) + 1, (cvIpCounts (chat_of w))(wqIP q \<mapsto> (case cvIpCounts (chat_of w) (wqIP q) of Some n \<Rightarrow> n | None \<Rightarrow> 0) + 1))"
  using assms
  by (auto simp: take_slot_def acquireIPConnection_def turn_away_def Let_def split: if_splits prod.splits) (simp_all add: places_def)

text \<open>
  C39. The global cap admits one session less than configured. With one place left under \<open>MAX_TOTAL_CONNECTIONS\<close>, a
  connection passes the check before the upgrade and may authenticate, but once it is registered the second check counts the
  session itself, finds the cap reached and drops it: even if nothing else happens meanwhile, it is never served. With a cap
  of one, nobody ever is.
\<close>

theorem last_place_is_never_kept:
  assumes cap: "xAbuse (aeSv ev) = Some a" "xAbuse ev' = Some a" "1 \<le> acMaxTotalConnections a" "taken w = acMaxTotalConnections a - 1"
    and slot: "fst (acquireIPConnection (aeSv ev) (wqIP q) (chat_of w))"
    and shake: "shake_hands ev2 c q up wr peer wr2 (snd (take_slot ev q w)) = (Some ses, w2)" "c \<notin> fst ` set (hbClients (cvHub (chat_of w)))"
  shows "fst (take_slot ev q w) = None \<and> fst (register_session ev' ses (wqIP q) w2) = False \<and>
    c \<notin> fst ` set (hbClients (cvHub (chat_of (snd (register_session ev' ses (wqIP q) w2)))))"
proof -
  obtain ok ch where ac: "acquireIPConnection (aeSv ev) (wqIP q) (chat_of w) = (ok, ch)" by fastforce
  have same: "clientCount ch + cvInflight ch = taken w" using ac by (auto simp: acquireIPConnection_def clientCount_def Let_def split: if_splits)
  have "fst (take_slot ev q w) = None" using ac slot cap same by (simp add: take_slot_def overCap_def Let_def)
  then obtain w1 where t: "take_slot ev q w = (None, w1)" by (cases "take_slot ev q w") auto
  note sh = places_shake [OF shake(1) [unfolded t snd_conv]]
  have k: "fst (places (chat_of w2)) = fst (places (chat_of w))" using sh(1) places_slot [OF t] by simp
  have new: "seConn ses \<notin> set (fst (places (chat_of w2)))" using k sh(2) shake(2) by (simp add: places_def)
  note en = places_enter [OF new, of ev' "wqIP q"]
  have infl: "cvInflight (chat_of w2) = cvInflight (chat_of w) + 1" using sh(1) places_slot [OF t] by (simp add: places_def)
  have "taken (enter_hub ev' ses (wqIP q) w2) = acMaxTotalConnections a"
    unfolding taken_places en using k infl cap(4) [unfolded taken_places] by (simp add: places_def)
  then have over: "overCap (xAbuse ev') (clientCount (chat_of (enter_hub ev' ses (wqIP q) w2))) (cvInflight (chat_of (enter_hub ev' ses (wqIP q) w2)))"
    using cap(2,3) by (simp add: overCap_def)
  have "c \<notin> set (fst (places (chat_of (leave_hub ev' ses (wqIP q) x))))" for x using sh(2) by (simp add: places_leave)
  then show ?thesis using over t by (simp add: register_session_def Let_def places_def)
qed

subsection \<open>Every place comes back\<close>

text \<open>Connections arrive, shake hands and leave in any order. \<open>hs\<close> are those in their handshake, \<open>live\<close> the addresses of those
  served. Everything else the server does in between (frames, replays, sweeps) is a change of the chat server that leaves
  the two counters alone.\<close>

datatype ws_event =
    Arrive au_env StaticConfig ws_request conn
  | Shake au_env conn bool "io_error option" "AuthPacket \<Rightarrow> io_error option \<times> AuthPacket" "io_error option" sv_env
  | Leave string
  | Elsewhere "ChatServer \<Rightarrow> ChatServer"

type_synonym ws_state = "WSServer \<times> (conn \<times> ws_request) list \<times> string list"

fun ws_step :: "ws_event \<Rightarrow> ws_state \<Rightarrow> ws_state" where
  "ws_step (Arrive ev st q c) (w, hs, live) =
     (case admit_ws ev st q w of (Some _, w1) \<Rightarrow> (w1, hs, live) | (None, w1) \<Rightarrow> (w1, (c, q) # hs, live))"
| "ws_step (Shake ev c up wr peer wr2 ev') (w, hs, live) =
     (case map_of hs c of
        None \<Rightarrow> (w, hs, live)
      | Some q \<Rightarrow>
          (let hs1 = remove1 (c, q) hs in
           case shake_hands ev c q up wr peer wr2 w of
             (None, w1) \<Rightarrow> (on_chat (releaseIPConnection (wqIP q)) w1, hs1, live)
           | (Some ses, w1) \<Rightarrow>
               (case register_session ev' ses (wqIP q) w1 of
                  (False, w2) \<Rightarrow> (on_chat (releaseIPConnection (wqIP q)) w2, hs1, live)
                | (True, w2) \<Rightarrow> (w2, hs1, wqIP q # live))))"
| "ws_step (Leave ip) (w, hs, live) =
     (if ip \<in> set live then (on_chat (releaseIPConnection ip) w, hs, remove1 ip live) else (w, hs, live))"
| "ws_step (Elsewhere f) (w, hs, live) = (on_chat f w, hs, live)"

fun ws_allowed :: "ws_state \<Rightarrow> ws_event \<Rightarrow> bool" where
  "ws_allowed _ (Elsewhere f) \<longleftrightarrow> (\<forall>c. cvInflight (f c) = cvInflight c \<and> cvIpCounts (f c) = cvIpCounts c)"
| "ws_allowed _ _ \<longleftrightarrow> True"

definition addresses :: "(conn \<times> ws_request) list \<Rightarrow> string list \<Rightarrow> string list" where
  "addresses hs live = map (wqIP \<circ> snd) hs @ live"

definition exact :: "(string \<rightharpoonup> int) \<Rightarrow> string list \<Rightarrow> bool" where
  "exact m ips \<longleftrightarrow> (\<forall>ip. m ip = (let n = count_list ips ip in if n = 0 then None else Some (int n)))"

fun ws_inv :: "ws_state \<Rightarrow> bool" where
  "ws_inv (w, hs, live) \<longleftrightarrow> cvInflight (chat_of w) = int (length hs) \<and> exact (cvIpCounts (chat_of w)) (addresses hs live)"

lemma exact_release:
  assumes "exact (cvIpCounts c) ips" "ip \<in> set ips" "\<And>x. count_list ips' x = count_list ips x - (if x = ip then 1 else 0)"
  shows "exact (cvIpCounts (releaseIPConnection ip c)) ips'"
proof -
  have "count_list ips ip \<noteq> 0" using assms(2) by (simp add: count_list_0_iff)
  then show ?thesis using assms(1) unfolding exact_def
    by (auto simp: releaseIPConnection_def assms(3) Let_def of_nat_diff)
qed

lemma exact_take:
  assumes "exact m ips"
  shows "exact (m(ip \<mapsto> (case m ip of Some n \<Rightarrow> n | None \<Rightarrow> 0) + 1)) (ip # ips)"
  using assms by (auto simp: exact_def Let_def)

lemma count_map_remove1:
  "e \<in> set xs \<Longrightarrow> count_list (map f xs) x = count_list (map f (remove1 e xs)) x + (if x = f e then 1 else 0)"
proof (induction xs)
  case (Cons y ys)
  show ?case
  proof (cases "y = e")
    case False
    then have "e \<in> set ys" using Cons.prems by simp
    from Cons.IH [OF this] False show ?thesis by simp
  qed simp
qed simp

lemma count_addresses:
  assumes "(c, q) \<in> set hs"
  shows "count_list (addresses (remove1 (c, q) hs) live) x = count_list (addresses hs live) x - (if x = wqIP q then 1 else 0)"
    "count_list (addresses (remove1 (c, q) hs) (wqIP q # live)) x = count_list (addresses hs live) x"
  using count_map_remove1 [OF assms, of "wqIP \<circ> snd" x] by (auto simp: addresses_def)

lemma exact_cong: "exact m ips \<Longrightarrow> (\<And>x. count_list ips' x = count_list ips x) \<Longrightarrow> exact m ips'"
  by (simp add: exact_def)

text \<open>A refusal before the upgrade leaves no place taken.\<close>

abbreviation counters :: "WSServer \<Rightarrow> int \<times> (string \<rightharpoonup> int)" where
  "counters w \<equiv> snd (places (chat_of w))"

lemma counters_simps [simp]: "counters (count_reject r w) = counters w" "counters (on_attack f w) = counters w" "counters (put_gate g w) = counters w"
  by (simp_all add: count_reject_def on_attack_def put_gate_def)

lemma turn_away_counters: "turn_away ev q r w = (x, w') \<Longrightarrow> counters w' = counters w \<and> x = Some r"
  by (auto simp: turn_away_def)

lemma rate_counters: "CheckConnectionRate_http ev ip a = (r, a') \<Longrightarrow> auChat a' = auChat a"
  by (auto simp: CheckConnectionRate_http_def Let_def split: if_splits option.splits)

lemma release_take:
  "exact (cvIpCounts c) ips \<Longrightarrow> exact (cvIpCounts (releaseIPConnection ip (c\<lparr>cvIpCounts := (cvIpCounts c)(ip \<mapsto> (case cvIpCounts c ip of Some n \<Rightarrow> n | None \<Rightarrow> 0) + 1)\<rparr>))) ips"
  by (rule exact_release [where ips = "ip # ips"]) (auto simp: exact_take)

definition slot_effect :: "ws_request \<Rightarrow> WSServer \<Rightarrow> http_reply option \<times> WSServer \<Rightarrow> bool" where
  "slot_effect q w x \<longleftrightarrow> (\<forall>ips. exact (snd (counters w)) ips \<longrightarrow>
     (case fst x of
        Some _ \<Rightarrow> fst (counters (snd x)) = fst (counters w) \<and> exact (snd (counters (snd x))) ips
      | None \<Rightarrow> fst (counters (snd x)) = fst (counters w) + 1 \<and> exact (snd (counters (snd x))) (wqIP q # ips)))"

lemma slot_effect_cong: "slot_effect q v x \<Longrightarrow> counters w = counters v \<Longrightarrow> slot_effect q w x"
  by (cases "fst x") (simp_all add: slot_effect_def)

lemma turned_away: "counters w = counters v \<Longrightarrow> slot_effect q w (turn_away ev q r v)"
  by (simp add: slot_effect_def turn_away_def)

lemma slot_effect_slot: "slot_effect q w (take_slot ev q w)"
proof -
  obtain ok c where a: "acquireIPConnection (aeSv ev) (wqIP q) (chat_of w) = (ok, c)" by fastforce
  show ?thesis
  proof (cases ok)
    case False
    then have "places c = places (chat_of w)" using a by (auto simp: acquireIPConnection_def Let_def split: if_splits)
    then show ?thesis using a False by (simp add: take_slot_def Let_def turned_away)
  next
    case True
    then have c: "c = (chat_of w)\<lparr>cvIpCounts := (cvIpCounts (chat_of w))(wqIP q \<mapsto> (case cvIpCounts (chat_of w) (wqIP q) of Some n \<Rightarrow> n | None \<Rightarrow> 0) + 1)\<rparr>"
      using a by (auto simp: acquireIPConnection_def Let_def split: if_splits)
    have rel: "snd (snd (places (releaseIPConnection ip d))) = cvIpCounts (releaseIPConnection ip (c\<lparr>cvIpCounts := cvIpCounts d\<rparr>))"
      and inf: "fst (snd (places (releaseIPConnection ip d))) = cvInflight d" for ip d
      by (simp_all add: places_def releaseIPConnection_def Let_def)
    have obs: "cvIpCounts (observeHTTP e i ip cls st d) = cvIpCounts d" "cvInflight (observeHTTP e i ip cls st d) = cvInflight d" for e i ip cls st d
      by (simp_all add: observe_defs on_behavior_def)
    show ?thesis
    proof (cases "overCap (xAbuse (aeSv ev)) (clientCount c) (cvInflight c)")
      case over: True
      then show ?thesis using a True release_take [where c = "chat_of w" and ip = "wqIP q"]
        by (simp add: take_slot_def turn_away_def Let_def slot_effect_def rel inf obs count_reject_def on_attack_def c) (simp add: places_def)
    next
      case False
      then show ?thesis using a True exact_take
        by (simp add: take_slot_def Let_def slot_effect_def) (simp add: places_def c exact_take)
    qed
  qed
qed

lemma slot_effect_rate: "slot_effect q w (pass_rate ev q w)"
proof -
  obtain r a where a: "CheckConnectionRate_http ev (wqIP q) (wvAuth w) = (r, a)" by fastforce
  have "counters (w\<lparr>wvAuth := a\<rparr>) = counters w" using rate_counters [OF a] by simp
  then show ?thesis using a slot_effect_cong [OF slot_effect_slot, of w "w\<lparr>wvAuth := a\<rparr>"]
    by (cases r) (simp_all add: pass_rate_def turned_away)
qed

lemma slot_effect_gate: "slot_effect q w (pass_gate ev q w)"
proof -
  obtain r g where g: "checkGatePass (xAbuse (aeSv ev)) (xOrder (aeSv ev) 7) (wqQuery q) (wqHeader q) (wqIP q) (xClk (aeSv ev) 7) (gate_view w) = (r, g)" by fastforce
  show ?thesis using g slot_effect_cong [OF slot_effect_rate, of w "put_gate g w"] slot_effect_rate
    by (cases r) (simp_all add: pass_gate_def, simp add: slot_effect_def)
qed

lemma slot_effect_admit: "slot_effect q w (admit_ws ev st q w)"
proof -
  let ?w = "on_attack (noteAttempt (wqIP q) (unix_seconds (xClk (aeSv ev) 8))) w"
  show ?thesis using slot_effect_cong [OF slot_effect_gate, of w ?w] by (simp add: admit_ws_def Let_def turned_away)
qed

lemma shake_counters:
  "shake_hands ev c q up wr peer wr2 w = (None, w') \<Longrightarrow> cvInflight (chat_of w') = cvInflight (chat_of w) - 1 \<and> cvIpCounts (chat_of w') = cvIpCounts (chat_of w)"
  "shake_hands ev c q up wr peer wr2 w = (Some ses, w') \<Longrightarrow> cvInflight (chat_of w') = cvInflight (chat_of w) \<and> cvIpCounts (chat_of w') = cvIpCounts (chat_of w)"
proof -
  obtain out r a where au: "authenticateClient ev c (wqIP q) (wqHost q) (wqOnion q) wr peer wr2 (wvAuth w) = (out, r, a)" by (metis prod.collapse)
  from places_authenticate [OF au] have "cvInflight (auChat a) = cvInflight (chat_of w)" "cvIpCounts (auChat a) = cvIpCounts (chat_of w)"
    by (simp_all add: places_def)
  then show "shake_hands ev c q up wr peer wr2 w = (None, w') \<Longrightarrow> cvInflight (chat_of w') = cvInflight (chat_of w) - 1 \<and> cvIpCounts (chat_of w') = cvIpCounts (chat_of w)"
    "shake_hands ev c q up wr peer wr2 w = (Some ses, w') \<Longrightarrow> cvInflight (chat_of w') = cvInflight (chat_of w) \<and> cvIpCounts (chat_of w') = cvIpCounts (chat_of w)"
    using au by (auto simp: shake_hands_def releaseInflight_def split: if_splits sum.splits)
qed

lemma enter_counters: "cvInflight (chat_of (enter_hub ev ses ip w)) = cvInflight (chat_of w) - 1" "cvIpCounts (chat_of (enter_hub ev ses ip w)) = cvIpCounts (chat_of w)"
  using places_warn [of ev ses] by (simp_all add: enter_hub_def places_def observe_defs on_behavior_def releaseInflight_def)

lemma register_counters:
  "register_session ev ses ip w = (b, w') \<Longrightarrow> cvInflight (chat_of w') = cvInflight (chat_of w) - 1 \<and> cvIpCounts (chat_of w') = cvIpCounts (chat_of w)"
  by (auto simp: register_session_def leave_hub_def count_reject_def observe_defs on_behavior_def enter_counters Let_def split: if_splits)

lemma release_inflight [simp]: "cvInflight (releaseIPConnection ip c) = cvInflight c"
  by (simp add: releaseIPConnection_def Let_def)

lemma ws_step_inv: "ws_inv x \<Longrightarrow> ws_allowed x e \<Longrightarrow> ws_inv (ws_step e x)"
proof -
  obtain w hs live where x: "x = (w, hs, live)" by (metis prod.collapse)
  assume "ws_inv x" and ok: "ws_allowed x e"
  then have inv: "cvInflight (chat_of w) = int (length hs)" "exact (cvIpCounts (chat_of w)) (addresses hs live)" by (simp_all add: x)
  show "ws_inv (ws_step e x)"
  proof (cases e)
    case (Arrive ev st q c)
    obtain r w' where a: "admit_ws ev st q w = (r, w')" by fastforce
    have "slot_effect q w (r, w')" using slot_effect_admit [of q w ev st] a by simp
    then show ?thesis using inv a by (cases r) (auto simp: x Arrive slot_effect_def places_def addresses_def)
  next
    case (Shake ev c up wr peer wr2 ev')
    show ?thesis
    proof (cases "map_of hs c")
      case (Some q)
      have m: "(c, q) \<in> set hs" using Some by (rule map_of_SomeD)
      have "0 < length hs" using m by (rule length_pos_if_in_set)
      then have len: "int (length (remove1 (c, q) hs)) = int (length hs) - 1" using m by (simp add: length_remove1 of_nat_diff Suc_le_eq)
      have ip: "wqIP q \<in> set (addresses hs live)" using m by (force simp: addresses_def)
      note rel = exact_release [OF _ ip count_addresses(1) [OF m]]
      obtain so w1 where s: "shake_hands ev c q up wr peer wr2 w = (so, w1)" by fastforce
      show ?thesis
      proof (cases so)
        case None
        then show ?thesis using s Some inv rel shake_counters(1) [OF s [unfolded None]] len by (simp add: x Shake)
      next
        case (Some ses)
        obtain b w2 where r: "register_session ev' ses (wqIP q) w1 = (b, w2)" by fastforce
        have c: "cvInflight (chat_of w2) = int (length hs) - 1" "cvIpCounts (chat_of w2) = cvIpCounts (chat_of w)"
          using register_counters [OF r] shake_counters(2) [OF s [unfolded Some]] inv(1) by simp_all
        then show ?thesis using s Some r \<open>map_of hs c = Some q\<close> inv(2) rel len exact_cong [OF inv(2) count_addresses(2) [OF m]]
          by (cases b) (simp_all add: x Shake)
      qed
    qed (use inv in \<open>simp add: x Shake\<close>)
  next
    case (Leave ip)
    show ?thesis
    proof (cases "ip \<in> set live")
      case True
      then have "count_list (addresses hs (remove1 ip live)) x = count_list (addresses hs live) x - (if x = ip then 1 else 0)" for x
        using count_list_0_iff [of live ip] by (cases "x = ip"; cases "count_list live ip") (simp_all add: addresses_def count_remove1)
      then show ?thesis using inv True exact_release [OF inv(2), of ip "addresses hs (remove1 ip live)"] by (simp add: x Leave addresses_def)
    qed (use inv in \<open>simp add: x Leave\<close>)
  next
    case (Elsewhere f)
    then show ?thesis using inv ok by (simp add: x)
  qed
qed

interpretation connections: machine ws_step ws_allowed ws_inv
  by unfold_locales (rule ws_step_inv)

text \<open>
  C17. Every place comes back. Let connections arrive, be refused at any check, fail to upgrade or to authenticate, be dropped
  after registration, be served and leave, all interleaved with anything else the server does: at every moment the count of
  handshakes is the number of connections in their handshake, and the count of an address is the number of its connections,
  with no entry once there is none. No path through the admission leaks or returns a place twice.
\<close>

theorem places_are_returned:
  assumes "connections.admissible (w0, [], []) es" "cvInflight (chat_of w0) = 0" "cvIpCounts (chat_of w0) = Map.empty"
    and "fold ws_step es (w0, [], []) = (w, hs, live)"
  shows "cvInflight (chat_of w) = int (length hs) \<and>
    (\<forall>ip. cvIpCounts (chat_of w) ip = (let n = count_list (map (wqIP \<circ> snd) hs @ live) ip in if n = 0 then None else Some (int n)))"
proof -
  have "ws_inv (w0, [], [])" using assms(2,3) by (simp add: exact_def addresses_def)
  then have "ws_inv (fold ws_step es (w0, [], []))" by (rule connections.run_inv [OF _ assms(1)])
  then show ?thesis by (simp add: assms(4) exact_def addresses_def)
qed

subsection \<open>Examples\<close>

definition ex_ws :: WSServer where
  "ex_ws = \<lparr>wvAuth = ex_auth_server, wvGate = None\<rparr>"

definition ex_request :: ws_request where
  "ex_request = \<lparr>wqIP = ''1.2.3.4'', wqTrusted = False, wqTLS = True, wqForwardedProto = [], wqOnion = False, wqOnionHop = False,
     wqBlocked = False, wqIPv4 = True, wqQuery = [], wqHeader = [], wqHost = ''chat''\<rparr>"

definition ex_capped :: "AbuseConfig \<Rightarrow> au_env" where
  "ex_capped a = ex_au_env\<lparr>aeSv := (aeSv ex_au_env)\<lparr>xAbuse := Some a\<rparr>\<rparr>"

definition ex_peer :: "AuthPacket \<Rightarrow> io_error option \<times> AuthPacket" where
  "ex_peer ch = (None, no_packet\<lparr>apNonce := apNonce ch, apUsername := ''hi''\<rparr>)"

lemma ex_shake: "\<exists>ses w'. shake_hands ex_au_env 7 q True None ex_peer None w = (Some ses, w')"
proof -
  obtain pkt s1 where h: "HandleAuth ex_au_env (wqIP q) (wqHost q) (wqOnion q) None ex_peer (wvAuth w) = ((GetDefaultPermission, pkt, None), s1)" "apTripcode pkt = []"
    using ex_hi_fits
    by (simp add: HandleAuth_def ex_peer_def auth_challenge_def auth_answer_def consumeNonce_def ex_auth update_conv' second_def Let_def del: hex_encode.simps)
  obtain out r a where o: "after_auth ex_au_env 7 (wqIP q) (wqHost q) (GetDefaultPermission, pkt, None) None s1 = (out, r, a)" by (metis prod.collapse)
  moreover have "0 \<le> dcMaxTripcodeLength (xDyn (aeSv ex_au_env))" by (simp add: ex_auth)
  ultimately have "\<exists>ses. r = Inr ses" using h(2) by (auto simp: after_auth_def open_session_def Let_def split: prod.splits)
  then show ?thesis using h(1) o by (auto simp: shake_hands_def authenticateClient_def)
qed

theorem last_place_is_never_kept_witness:
  "\<exists>a ses w2. acMaxTotalConnections a = 1 \<and>
     shake_hands ex_au_env 7 ex_request True None ex_peer None (snd (take_slot (ex_capped a) ex_request ex_ws)) = (Some ses, w2) \<and>
     fst (register_session (aeSv (ex_capped a)) ses ''1.2.3.4'' w2) = False"
proof -
  let ?a = "ex_abuse\<lparr>acMaxTotalConnections := 1\<rparr>"
  obtain ses w2 where s: "shake_hands ex_au_env 7 ex_request True None ex_peer None (snd (take_slot (ex_capped ?a) ex_request ex_ws)) = (Some ses, w2)"
    using ex_shake by blast
  have "xAbuse (aeSv (ex_capped ?a)) = Some ?a" "1 \<le> acMaxTotalConnections ?a" "taken ex_ws = acMaxTotalConnections ?a - 1"
    "fst (acquireIPConnection (aeSv (ex_capped ?a)) (wqIP ex_request) (chat_of ex_ws))" "7 \<notin> fst ` set (hbClients (cvHub (chat_of ex_ws)))"
    by (simp_all add: ex_capped_def ex_ws_def ex_auth ex_chat_server_def empty_hub_def clientCount_def acquireIPConnection_def ex_request_def)
  note k = last_place_is_never_kept [OF this(1,1,2,3,4) s this(5)]
  then show ?thesis using s by (intro exI [of _ ?a] exI [of _ ses] exI [of _ w2]) (simp add: ex_request_def)
qed

theorem places_are_returned_witness:
  "case fold ws_step [Arrive ex_au_env \<lparr>stRequireTLS = True, stRequireIPv4 = False\<rparr> ex_request 7,
       Shake ex_au_env 7 True None ex_peer None (aeSv ex_au_env), Leave ''1.2.3.4''] (ex_ws, [], []) of
     (w, hs, live) \<Rightarrow> cvInflight (chat_of w) = int (length hs)"
proof -
  let ?es = "[Arrive ex_au_env \<lparr>stRequireTLS = True, stRequireIPv4 = False\<rparr> ex_request 7, Shake ex_au_env 7 True None ex_peer None (aeSv ex_au_env), Leave ''1.2.3.4'']"
  obtain w hs live where f: "fold ws_step ?es (ex_ws, [], []) = (w, hs, live)" by (metis prod.collapse)
  have "connections.admissible (ex_ws, [], []) ?es" by (auto intro: connections.admissible_if_all)
  from places_are_returned [OF this _ _ f] f show ?thesis by (simp add: ex_ws_def ex_auth ex_chat_server_def)
qed

end
