(* ===== verification/Proxy.thy ===== *)
theory Proxy
  imports Abuse_Load Client_Render
begin

text \<open>
  Which address a request comes from: the chain of proxy providers of \<^verbatim>\<open>src/internal/trustedproxy\<close>, its trust files, and
  the server's use of it (\<^verbatim>\<open>src/server/proxyguard.go\<close>, \<open>LoadProxyChain\<close> of \<^verbatim>\<open>src/internal/serverconfig/load.go\<close>). Address
  parsing and matching, \<open>strings.ToLower\<close> and the file system are arguments. A header can move the address only of a hop that
  the operator's files name.
\<close>

subsection \<open>Providers\<close>

text \<open>\<open>pxParseIP\<close> is \<open>net.ParseIP\<close> with the canonical text of the address, \<open>pxCIDR\<close> is \<open>net.ParseCIDR\<close>, \<open>pxSingle\<close> the network
  of one address and \<open>pxContains\<close> is \<open>IPNet.Contains\<close>.\<close>

record 'n px_env =
  pxLower :: "string \<Rightarrow> string"
  pxParseIP :: "string \<Rightarrow> string option"
  pxCIDR :: "string \<Rightarrow> 'n option"
  pxSingle :: "string \<Rightarrow> 'n"
  pxContains :: "'n \<Rightarrow> string \<Rightarrow> bool"

datatype 'n Provider = cloudflare "'n list" | direct "'n list" | no_proxy

fun provider_Name :: "'n Provider \<Rightarrow> string" where
  "provider_Name (cloudflare _) = ''cloudflare''"
| "provider_Name (direct _) = ''direct''"
| "provider_Name no_proxy = ''none''"

fun HeaderTrust :: "'n Provider \<Rightarrow> bool" where
  "HeaderTrust (cloudflare _) = True"
| "HeaderTrust _ = False"

fun NeedsFile :: "'n Provider \<Rightarrow> bool" where
  "NeedsFile (cloudflare _) = True"
| "NeedsFile _ = False"

definition containsIP :: "'n px_env \<Rightarrow> 'n list \<Rightarrow> string \<Rightarrow> bool" where
  "containsIP px nets raw =
     (case pxParseIP px (TrimSpace raw) of None \<Rightarrow> False | Some ip \<Rightarrow> list_ex (\<lambda>n. pxContains px n ip) nets)"

fun Trusted :: "'n px_env \<Rightarrow> 'n Provider \<Rightarrow> string \<Rightarrow> bool" where
  "Trusted px (cloudflare trust) remoteIP = containsIP px trust remoteIP"
| "Trusted px (direct trust) remoteIP = containsIP px trust remoteIP"
| "Trusted px no_proxy remoteIP = True"

text \<open>\<open>header\<close> is \<open>CF-Connecting-IP\<close>.\<close>

fun ClientIP :: "'n px_env \<Rightarrow> 'n Provider \<Rightarrow> string \<Rightarrow> string option" where
  "ClientIP px (cloudflare _) header = (let raw = TrimSpace header in if raw = [] then None else pxParseIP px raw)"
| "ClientIP px _ header = None"

definition registry :: "string \<Rightarrow> ('n list \<Rightarrow> 'n Provider) option" where
  "registry name =
     (if name = ''cloudflare'' then Some cloudflare else if name = ''direct'' then Some direct
      else if name = ''none'' then Some (\<lambda>_. no_proxy) else None)"

datatype proxy_error = ProviderRequired | UnknownProvider string | EmptyTrust string | NothingUsable | FileMissing string
  | FileUnreadable string | FileWritable string | BadEntry string nat | DirUnreadable string

fun chain_names :: "'n px_env \<Rightarrow> string list \<Rightarrow> string list \<Rightarrow> proxy_error + string list" where
  "chain_names px names [] = Inr names"
| "chain_names px names (part # parts) =
     (let name = pxLower px (TrimSpace part) in
      if name = [] \<or> name \<in> set names then chain_names px names parts
      else if registry name = (None :: ('n list \<Rightarrow> 'n Provider) option) then Inl (UnknownProvider part)
      else chain_names px (names @ [name]) parts)"

definition ParseChain :: "'n px_env \<Rightarrow> string \<Rightarrow> proxy_error + string list" where
  "ParseChain px raw =
     (if pxLower px (TrimSpace raw) = [] \<or> pxLower px (TrimSpace raw) = ''false'' then Inl ProviderRequired
      else case chain_names px [] (split_on (CHR '','') raw) of
          Inl e \<Rightarrow> Inl e
        | Inr names \<Rightarrow> if names = [] then Inl ProviderRequired else Inr names)"

subsection \<open>The chain\<close>

definition build :: "string \<Rightarrow> 'n list \<Rightarrow> 'n Provider" where
  "build name nets = (case registry name of Some f \<Rightarrow> f nets | None \<Rightarrow> no_proxy)"

definition is_header :: "string \<Rightarrow> bool" where
  "is_header name = HeaderTrust (build name ([] :: nat list))"

definition NewChain :: "string list \<Rightarrow> (string \<Rightarrow> 'n list) \<Rightarrow> proxy_error + 'n Provider list" where
  "NewChain names sets =
     (case find (\<lambda>name. is_header name \<and> sets name = []) names of
        Some name \<Rightarrow> Inl (EmptyTrust name)
      | None \<Rightarrow>
          (let order = map (\<lambda>name. build name (sets name)) (filter is_header names) @
                 map (\<lambda>name. build name (sets name)) (filter (\<lambda>name. name \<in> set names) [''direct'', ''none''])
           in if order = [] then Inl NothingUsable else Inr order))"

record Outcome =
  ocClientIP :: string
  ocRemoteIP :: string
  ocProvider :: string
  ocTrusted :: bool
  ocReject :: bool
  ocReason :: string

fun Resolve :: "'n px_env \<Rightarrow> 'n Provider list \<Rightarrow> string \<Rightarrow> string \<Rightarrow> Outcome" where
  "Resolve px [] remoteIP header =
     \<lparr>ocClientIP = [], ocRemoteIP = remoteIP, ocProvider = [], ocTrusted = False, ocReject = True, ocReason = ''no trusted provider''\<rparr>"
| "Resolve px (p # ps) remoteIP header =
     (if \<not> Trusted px p remoteIP then Resolve px ps remoteIP header
      else if \<not> HeaderTrust p
      then \<lparr>ocClientIP = remoteIP, ocRemoteIP = remoteIP, ocProvider = provider_Name p, ocTrusted = False, ocReject = False, ocReason = []\<rparr>
      else case ClientIP px p header of
          Some ip \<Rightarrow> \<lparr>ocClientIP = ip, ocRemoteIP = remoteIP, ocProvider = provider_Name p, ocTrusted = True, ocReject = False, ocReason = []\<rparr>
        | None \<Rightarrow> \<lparr>ocClientIP = [], ocRemoteIP = remoteIP, ocProvider = provider_Name p, ocTrusted = False, ocReject = True,
                     ocReason = ''invalid proxy header''\<rparr>)"

text \<open>A server without a chain resolves as \<open>none\<close>.\<close>

definition proxyChainOrDirect :: "'n Provider list option \<Rightarrow> 'n Provider list" where
  "proxyChainOrDirect ch = (case ch of Some c \<Rightarrow> c | None \<Rightarrow> [no_proxy])"

definition resolveClientIP :: "'n px_env \<Rightarrow> 'n Provider list option \<Rightarrow> string \<Rightarrow> string \<Rightarrow> Outcome" where
  "resolveClientIP px ch = Resolve px (proxyChainOrDirect ch)"

definition getClientIP :: "'n px_env \<Rightarrow> 'n Provider list option \<Rightarrow> string \<Rightarrow> string \<Rightarrow> string" where
  "getClientIP px ch remoteIP header = ocClientIP (resolveClientIP px ch remoteIP header)"

text \<open>The refusal of an untrusted hop: status and body.\<close>

definition rejectUntrustedProxy :: "'n px_env \<Rightarrow> 'n Provider list option \<Rightarrow> string \<Rightarrow> string \<Rightarrow> (int \<times> string) option" where
  "rejectUntrustedProxy px ch remoteIP header =
     (if ocReject (resolveClientIP px ch remoteIP header) then Some (403, ''Untrusted proxy.'') else None)"

subsection \<open>Trust files\<close>

datatype file_state = NoFile | BadFile | TrustFile nat string

definition Clip :: "string \<Rightarrow> nat \<Rightarrow> string" where
  "Clip s n = (if length (runes s) \<le> n then s else encode_runes (take n (runes s)) @ encode_runes [0x2026])"

definition trust_entry :: "'n px_env \<Rightarrow> string \<Rightarrow> 'n option" where
  "trust_entry px t = (case pxCIDR px t of Some n \<Rightarrow> Some n | None \<Rightarrow> map_option (pxSingle px) (pxParseIP px t))"

fun trust_lines :: "'n px_env \<Rightarrow> string \<Rightarrow> nat \<Rightarrow> string list \<Rightarrow> proxy_error + 'n list" where
  "trust_lines px path i [] = Inr []"
| "trust_lines px path i (line # ls) =
     (let t = TrimSpace line in
      if t = [] \<or> hd t = CHR ''#'' then trust_lines px path (i + 1) ls
      else case trust_entry px t of
          None \<Rightarrow> Inl (BadEntry path (i + 1))
        | Some n \<Rightarrow> (case trust_lines px path (i + 1) ls of Inl e \<Rightarrow> Inl e | Inr ns \<Rightarrow> Inr (n # ns)))"

text \<open>Any write bit beyond the owner's is refused.\<close>

definition open_perm :: "nat \<Rightarrow> bool" where
  "open_perm perm = (and perm 18 \<noteq> 0)"

definition loadTrustFile :: "'n px_env \<Rightarrow> (string \<Rightarrow> file_state) \<Rightarrow> string \<Rightarrow> proxy_error + 'n list" where
  "loadTrustFile px fs path =
     (case fs path of
        NoFile \<Rightarrow> Inl (FileMissing path)
      | BadFile \<Rightarrow> Inl (FileUnreadable path)
      | TrustFile perm dat \<Rightarrow> if open_perm perm then Inl (FileWritable path) else trust_lines px path 0 (split_on (CHR 0x0A) dat))"

definition trust_path :: "string \<Rightarrow> string \<Rightarrow> string" where
  "trust_path dir name = dir @ ''/'' @ name @ ''.txt''"

fun trust_sets ::
  "'n px_env \<Rightarrow> (string \<Rightarrow> file_state) \<Rightarrow> string \<Rightarrow> string list \<Rightarrow> (string \<Rightarrow> bool) \<Rightarrow> proxy_error + (string \<times> 'n list option) list" where
  "trust_sets px fs dir [] req = Inr []"
| "trust_sets px fs dir (name # names) req =
     (case loadTrustFile px fs (trust_path dir name) of
        Inl (FileMissing p) \<Rightarrow>
          if req name then Inl (FileMissing p)
          else (case trust_sets px fs dir names req of Inl e \<Rightarrow> Inl e | Inr r \<Rightarrow> Inr ((name, None) # r))
      | Inl e \<Rightarrow> Inl e
      | Inr ns \<Rightarrow> (case trust_sets px fs dir names req of Inl e \<Rightarrow> Inl e | Inr r \<Rightarrow> Inr ((name, Some ns) # r)))"

datatype dir_state = NoDir | BadDir | Dir "(string \<times> bool) list"

definition maxTrustDirEntries :: nat where "maxTrustDirEntries = 128"
definition maxExtraWarnNames :: nat where "maxExtraWarnNames = 10"
definition maxWarnNameLen :: nat where "maxWarnNameLen = 64"

definition extraWarning :: "string list \<Rightarrow> string" where
  "extraWarning extra =
     (if extra = [] then []
      else let rest = (if length extra > maxExtraWarnNames then '', ... and '' @ dec (length extra - maxExtraWarnNames) @ '' more'' else [])
        in ''extra trust files ignored: '' @ dec (length extra) @ '' ('' @
           join '', '' (map (\<lambda>n. Clip n maxWarnNameLen) (take maxExtraWarnNames extra)) @ rest @ '')'')"

definition stray :: "string list \<Rightarrow> (string \<times> bool) list \<Rightarrow> string list" where
  "stray active entries =
     map fst (filter (\<lambda>(n, isDir). \<not> isDir \<and> length n \<ge> 4 \<and> drop (length n - 4) n = ''.txt'' \<and> take (length n - 4) n \<notin> set active)
       (take maxTrustDirEntries entries))"

text \<open>The sets, with \<open>None\<close> for a missing file, and the warning (without its text for an absent directory).\<close>

definition LoadTrustDir ::
  "'n px_env \<Rightarrow> (string \<Rightarrow> file_state) \<Rightarrow> (string \<Rightarrow> dir_state) \<Rightarrow> string \<Rightarrow> string list \<Rightarrow> string list \<Rightarrow>
   proxy_error + (string \<times> 'n list option) list \<times> string" where
  "LoadTrustDir px fs ds dir active req =
     (case ds dir of
        NoDir \<Rightarrow> if req = [] then Inr (map (\<lambda>n. (n, None)) active, ''trust dir absent, empty sets'') else Inl (DirUnreadable dir)
      | BadDir \<Rightarrow> Inl (DirUnreadable dir)
      | Dir entries \<Rightarrow>
          (case trust_sets px fs dir active (\<lambda>n. n \<in> set req) of
             Inl e \<Rightarrow> Inl e
           | Inr sets \<Rightarrow> Inr (sets, extraWarning (stray active entries))))"

definition set_of :: "(string \<times> 'n list option) list \<Rightarrow> string \<Rightarrow> 'n list" where
  "set_of sets name = (case map_of sets name of Some (Some ns) \<Rightarrow> ns | _ \<Rightarrow> [])"

definition LoadProxyChain ::
  "'n px_env \<Rightarrow> (string \<Rightarrow> file_state) \<Rightarrow> (string \<Rightarrow> dir_state) \<Rightarrow> string \<Rightarrow> string list \<Rightarrow> proxy_error + 'n Provider list \<times> bool \<times> string list" where
  "LoadProxyChain px fs ds dir names =
     (case LoadTrustDir px fs ds dir names (filter (\<lambda>n. NeedsFile (build n ([] :: 'n list))) names) of
        Inl e \<Rightarrow> Inl e
      | Inr (sets, extra) \<Rightarrow>
          (case NewChain names (set_of sets) of
             Inl e \<Rightarrow> Inl e
           | Inr order \<Rightarrow> Inr (order, ''none'' \<in> set names \<or> ''direct'' \<in> set names, if extra = [] then [] else [extra])))"

subsection \<open>Who may name an address\<close>

lemma trust_lines_mem: "trust_lines px path i ls = Inr ns \<Longrightarrow> n \<in> set ns \<Longrightarrow> \<exists>line \<in> set ls. trust_entry px (TrimSpace line) = Some n"
  by (induction ls arbitrary: i ns) (fastforce simp: Let_def split: if_splits option.splits sum.splits)+

lemma trust_sets_mem: "trust_sets px fs dir names req = Inr sets \<Longrightarrow> map_of sets name = Some (Some ns) \<Longrightarrow> loadTrustFile px fs (trust_path dir name) = Inr ns"
  by (induction px fs dir names req arbitrary: sets rule: trust_sets.induct)
     (auto split: sum.splits proxy_error.splits if_splits)

lemma trust_dir_mem:
  "LoadTrustDir px fs ds dir names req = Inr (sets, ws) \<Longrightarrow> n \<in> set (set_of sets name) \<Longrightarrow>
   \<exists>ns. loadTrustFile px fs (trust_path dir name) = Inr ns \<and> n \<in> set ns"
proof -
  assume l: "LoadTrustDir px fs ds dir names req = Inr (sets, ws)" and n: "n \<in> set (set_of sets name)"
  then obtain ns where ns: "map_of sets name = Some (Some ns)" "n \<in> set ns" unfolding set_of_def by (cases "map_of sets name") (auto split: option.splits)
  have none: "map_of (map (\<lambda>n. (n, None)) names) name \<noteq> Some (Some ns)" by (induction names) auto
  show ?thesis using l ns(2) none by (auto simp: LoadTrustDir_def ns(1) dest: trust_sets_mem [OF _ ns(1)] split: dir_state.splits if_splits sum.splits)
qed

text \<open>A hop that the operator's file names: an entry of a file only its owner can write covers it.\<close>

definition named_hop :: "'n px_env \<Rightarrow> (string \<Rightarrow> file_state) \<Rightarrow> string \<Rightarrow> string \<Rightarrow> bool" where
  "named_hop px fs dir remote \<longleftrightarrow>
     (\<exists>perm dat n ip. fs (trust_path dir ''cloudflare'') = TrustFile perm dat \<and> \<not> open_perm perm \<and>
        (\<exists>line \<in> set (split_on (CHR 0x0A) dat). trust_entry px (TrimSpace line) = Some n) \<and>
        pxParseIP px (TrimSpace remote) = Some ip \<and> pxContains px n ip)"

lemma is_header_name: "is_header name \<longleftrightarrow> name = ''cloudflare''"
  by (simp add: is_header_def build_def registry_def)

lemma build_simps: "build ''cloudflare'' ns = cloudflare ns" "build ''direct'' ns = direct ns" "build ''none'' ns = no_proxy"
  by (simp_all add: build_def registry_def)

lemma chain_members:
  assumes "NewChain names sets = Inr order" "p \<in> set order"
  shows "p = cloudflare (sets ''cloudflare'') \<or> p = direct (sets ''direct'') \<and> ''direct'' \<in> set names \<or> p = no_proxy \<and> ''none'' \<in> set names"
  using assms by (auto simp: NewChain_def Let_def is_header_name build_simps split: option.splits if_splits)

lemma resolve_unnamed:
  assumes "\<forall>p \<in> set order. HeaderTrust p \<longrightarrow> \<not> Trusted px p remote"
  shows "Resolve px order remote h = Resolve px order remote h' \<and> \<not> ocTrusted (Resolve px order remote h) \<and>
    (if ocReject (Resolve px order remote h) then ocClientIP (Resolve px order remote h) = []
     else ocClientIP (Resolve px order remote h) = remote \<and> (\<exists>p \<in> set order. \<not> HeaderTrust p))"
  using assms by (induction order) auto

lemma resolve_trusted:
  "ocTrusted (Resolve px order remote h) \<Longrightarrow> TrimSpace h \<noteq> [] \<and> pxParseIP px (TrimSpace h) = Some (ocClientIP (Resolve px order remote h))"
proof (induction order)
  case (Cons p ps)
  then show ?case by (cases p) (auto simp: Let_def split: if_splits option.splits)
qed simp

text \<open>
  C26. Only a hop that the operator named can speak for another address. Whatever chain the configuration builds, if no
  entry of the (owner-writable only) trust file of a header provider covers the peer of the connection, then the headers of
  the request change nothing: it is attributed to the peer's own address, or refused, and refused always when the chain
  allows no direct connections. And a claimed address is only taken if it parses, in its canonical form.
\<close>

theorem headers_count_only_from_named_hops:
  assumes "LoadProxyChain px fs ds dir names = Inr (order, allowsDirect, ws)"
  shows "(named_hop px fs dir remote \<or>
      Resolve px order remote h = Resolve px order remote h' \<and> \<not> ocTrusted (Resolve px order remote h) \<and>
      (if ocReject (Resolve px order remote h) then ocClientIP (Resolve px order remote h) = []
       else ocClientIP (Resolve px order remote h) = remote \<and> allowsDirect)) \<and>
    (if ocTrusted (Resolve px order remote h) then pxParseIP px (TrimSpace h) = Some (ocClientIP (Resolve px order remote h))
     else ocClientIP (Resolve px order remote h) \<in> {remote, []})"
proof -
  obtain sets extra where l: "LoadTrustDir px fs ds dir names (filter (\<lambda>n. NeedsFile (build n ([] :: 'a list))) names) = Inr (sets, extra)"
      and c: "NewChain names (set_of sets) = Inr order" and d: "allowsDirect \<longleftrightarrow> ''none'' \<in> set names \<or> ''direct'' \<in> set names"
    using assms by (auto simp: LoadProxyChain_def split: sum.splits)
  have named: "named_hop px fs dir remote" if p: "p \<in> set order" "HeaderTrust p" "Trusted px p remote" for p
  proof -
    have "p = cloudflare (set_of sets ''cloudflare'')" using chain_members [OF c p(1)] p(2) by auto
    then obtain ip n where n: "pxParseIP px (TrimSpace remote) = Some ip" "n \<in> set (set_of sets ''cloudflare'')" "pxContains px n ip"
      using p(3) by (auto simp: containsIP_def list_ex_iff split: option.splits)
    from trust_dir_mem [OF l n(2)] obtain ns where f: "loadTrustFile px fs (trust_path dir ''cloudflare'') = Inr ns" "n \<in> set ns" by blast
    then show ?thesis using n trust_lines_mem unfolding named_hop_def
      by (fastforce simp: loadTrustFile_def split: file_state.splits if_splits)
  qed
  have plain: "p \<in> set order \<Longrightarrow> \<not> HeaderTrust p \<Longrightarrow> allowsDirect" for p using chain_members [OF c] d by fastforce
  have "ocClientIP (Resolve px ps remote h) \<in> {remote, []}" if "\<not> ocTrusted (Resolve px ps remote h)" for ps
    using that by (induction ps) (auto split: if_splits option.splits)
  then have cl: "if ocTrusted (Resolve px order remote h) then pxParseIP px (TrimSpace h) = Some (ocClientIP (Resolve px order remote h))
     else ocClientIP (Resolve px order remote h) \<in> {remote, []}" using resolve_trusted [of px order remote h] by simp
  show ?thesis
  proof (cases "named_hop px fs dir remote")
    case True
    then show ?thesis using cl by simp
  next
    case False
    then have "\<forall>p \<in> set order. HeaderTrust p \<longrightarrow> \<not> Trusted px p remote" using named by blast
    from resolve_unnamed [OF this, of h h'] show ?thesis using cl plain by (auto split: if_splits)
  qed
qed

definition ex_px :: "string px_env" where
  "ex_px = \<lparr>pxLower = (\<lambda>s. s), pxParseIP = (\<lambda>s. if s = [] then None else Some s), pxCIDR = (\<lambda>_. None), pxSingle = (\<lambda>s. s), pxContains = (=)\<rparr>"

definition ex_fs :: "string \<Rightarrow> file_state" where
  "ex_fs p = (if p = ''conf/cloudflare.txt'' then TrustFile 384 ''9.9.9.9'' else NoFile)"

theorem headers_count_only_from_named_hops_witness:
  "\<exists>order. LoadProxyChain ex_px ex_fs (\<lambda>_. Dir [(''cloudflare.txt'', False)]) ''conf'' [''cloudflare'', ''none''] = Inr (order, True, []) \<and>
     Resolve ex_px order ''1.2.3.4'' ''6.6.6.6'' = Resolve ex_px order ''1.2.3.4'' []"
proof -
  have t: "TrimSpace ''1.2.3.4'' = ''1.2.3.4''" "TrimSpace ''9.9.9.9'' = ''9.9.9.9''"
    by (rule TrimSpace_plain; simp add: nat_of_def is_space_rune_def)+
  have l: "trust_lines ex_px ''conf/cloudflare.txt'' 0 [''9.9.9.9''] = Inr [''9.9.9.9'']"
    by (simp add: t trust_entry_def ex_px_def Let_def)
  have sp: "split_on (CHR 0x0A) ''9.9.9.9'' = [''9.9.9.9'']" by simp
  have p: "\<not> open_perm 384" by (simp add: open_perm_def)
  have f: "loadTrustFile ex_px ex_fs (trust_path ''conf'' ''cloudflare'') = Inr [''9.9.9.9'']" "loadTrustFile ex_px ex_fs (trust_path ''conf'' ''none'') = Inl (FileMissing ''conf/none.txt'')"
    using l p sp by (simp_all add: loadTrustFile_def trust_path_def ex_fs_def)
  have c: "LoadProxyChain ex_px ex_fs (\<lambda>_. Dir [(''cloudflare.txt'', False)]) ''conf'' [''cloudflare'', ''none''] = Inr ([cloudflare [''9.9.9.9''], no_proxy], True, [])"
    using f by (simp add: LoadProxyChain_def LoadTrustDir_def build_simps stray_def maxTrustDirEntries_def extraWarning_def NewChain_def is_header_name set_of_def)
  have "\<not> named_hop ex_px ex_fs ''conf'' ''1.2.3.4''"
    using t sp by (auto simp: named_hop_def ex_fs_def trust_path_def trust_entry_def ex_px_def split: if_splits)
  with headers_count_only_from_named_hops [OF c, of "''1.2.3.4''" "''6.6.6.6''" "[]"]
  have r: "Resolve ex_px [cloudflare [''9.9.9.9''], no_proxy] ''1.2.3.4'' ''6.6.6.6'' = Resolve ex_px [cloudflare [''9.9.9.9''], no_proxy] ''1.2.3.4'' []"
    by (simp only: simp_thms)
  show ?thesis by (rule exI [of _ "[cloudflare [''9.9.9.9''], no_proxy]"], rule conjI, rule c, rule r)
qed

end
