(* ===== verification/Spec2Isabelle.thy ===== *)
theory Spec2Isabelle
  imports Chain_Integrity Tags Text_Filter History_Replay Admission Boot Scheduler Client_Refill Client_Signing Passkey_Laws Client_Login Serve_Laws Proxy
begin

text \<open>
  V2V is a chat server with a terminal client. The server keeps one hash-chained log: every chat line is linked to the
  one before it by SHA-256, stored with a sequence cursor, evicted from memory by size, archived on disk and replayed to
  clients in pages. Around the log stand the limits and the defences: token buckets and cooldowns, proof-of-work
  challenges at the door and in the chat, behaviour scoring, an under-attack alarm, notices with tags, votes,
  per-key chains of signed messages, role logins by key file and passkey.

  \<^bold>\<open>Parts and theories\<close> (sources are under \<^verbatim>\<open>src/\<close>)

  \<^item> \<open>V2V_Prelude\<close>, \<open>Utf8\<close>, \<open>Sha256\<close>, \<open>Machines\<close>: Go's strings, integers, hex, varints, UTF-8 and
    \<open>strings.TrimSpace\<close>; SHA-256 and HMAC as functions on bytes; the locales \<open>machine\<close> (a step function, a guard, an
    invariant), \<open>hash_chain\<close> (a link function that binds) and \<open>paging\<close> (a cursor that drains a list).
  \<^item> \<open>Wire\<close>, \<open>Tags\<close>: the message types of \<^verbatim>\<open>lib/wire/wire.go\<close> and the tag tree of \<^verbatim>\<open>lib/wire/tags.go\<close>.
  \<^item> \<open>Chain_Link\<close>, \<open>Chain_Service\<close>, \<open>Chain_Integrity\<close>: \<^verbatim>\<open>lib/chain/chain.go\<close> and \<^verbatim>\<open>server/chain.go\<close>, the in-memory log of
    \<^verbatim>\<open>server/history.go\<close>. A link binds all its fields or exhibits a SHA-256 collision; equal tips mean equal logs; the boot
    scan refines the contract of a stored history; a restart resumes tip, height and cursor unless eviction dropped every chained
    line, and then starts at the genesis seed.
  \<^item> \<open>History_Window\<close>, \<open>History_Store\<close>, \<open>History_Disk\<close>, \<open>History_Replay\<close>: windows, cursors and ranges of
    \<^verbatim>\<open>server/history.go\<close>, the rotating files and the seek index of \<^verbatim>\<open>server/history_store.go\<close>, and the frames of a replay.
    The indexed reads equal plain scans, pages are complete, frames and trailers account for every line.
  \<^item> \<open>Text_Filter\<close>: the validators and the sanitizer of \<^verbatim>\<open>lib/filter/filter.go\<close>. Accepted names are inert; the sanitizer is
    idempotent and safe for a terminal as long as colour sequences hold colour parameters, which it does not check.
  \<^item> \<open>Guard\<close>, \<open>Pow\<close>, \<open>Gate\<close>, \<open>Screening\<close>: \<^verbatim>\<open>lib/guard\<close>, \<^verbatim>\<open>lib/pow\<close>, \<^verbatim>\<open>server/gate.go\<close> and the screener of
    \<^verbatim>\<open>server/powscreen.go\<close>. Buckets and cooldowns bound what they grant; every lease is earned by one solved and ticketed
    challenge, every in-chat pass by the very challenge it answers.
  \<^item> \<open>Behavior\<close>, \<open>Behavior_Engine\<close>, \<open>Abuse_Config\<close>, \<open>Abuse_Load\<close>, \<open>Under_Attack\<close>, \<open>Admission\<close>:
    \<^verbatim>\<open>internal/behavior\<close>, \<^verbatim>\<open>server/behavior_engine.go\<close>, \<^verbatim>\<open>internal/serverconfig/abuse.go\<close>, \<^verbatim>\<open>server/underattack.go\<close>,
    \<^verbatim>\<open>admit.go\<close> and \<^verbatim>\<open>blocklist.go\<close>. A policy that loads is in range, whatever the environment, up to numbers
    that are NaN; one whose numbers are finite keeps tiers, presets and scores within bounds. The attack signal counts the refusals of the
    last five seconds exactly.
  \<^item> \<open>Votes\<close>, \<open>Hub\<close>, \<open>Trip\<close>: votes and their totals, presence and broadcast with the interleavings the locks
    allow, and the signed chains of \<^verbatim>\<open>lib/trip\<close> and \<^verbatim>\<open>lib/tripcolor\<close>.
  \<^item> \<open>Chat_Server\<close>, \<open>Read_Pump\<close>, \<open>Session_Laws\<close>: the server record, the handlers of \<^verbatim>\<open>server/vote.go\<close>, \<^verbatim>\<open>trip_reveal.go\<close>,
    \<^verbatim>\<open>powscreen.go\<close> and \<^verbatim>\<open>observe.go\<close>, and the read loop of \<^verbatim>\<open>server/clientHandler.go\<close> that ties all of the above together.
    A chained line was admitted by every check, an admitted message is linked, a muted connection reaches nobody.
  \<^item> \<open>Boot\<close>, \<open>Scheduler\<close>: the replay of the archive at start-up and the behaviour scheduler of \<^verbatim>\<open>server/behavior_engine.go\<close> with
    the screener. A restart resumes every signed chain at its last stored message.
  \<^item> \<open>Passkeys\<close>, \<open>Passkey_Laws\<close>: the credential store, the adapter to the WebAuthn library and the pairing of a desktop through a
    browser (\<^verbatim>\<open>server/webauthn_store.go\<close>, \<^verbatim>\<open>webauthn_http.go\<close>, \<^verbatim>\<open>passkey_lib.go\<close>, \<^verbatim>\<open>pair*.go\<close>). A pairing ticket opens one
    session at most, and only an earned one; accepted sign counters increase.
  \<^item> \<open>Auth\<close>, \<open>Auth_Laws\<close>: the handshake of \<^verbatim>\<open>server/auth.go\<close>: challenge, the four logins, penalties, the session and the
    sweeps. A role needs a proof; a nonce opens one handshake.
  \<^item> \<open>Serve\<close>, \<open>Serve_Laws\<close>, \<open>Proxy\<close>: \<open>ServeWS\<close> of \<^verbatim>\<open>server/main.go\<close> from the first check to the end of the session, and the
    address a request is attributed to (\<^verbatim>\<open>internal/trustedproxy\<close>). Every place a connection takes comes back; the last place
    under the global cap is never given; only a hop the operator named can speak for another address.
  \<^item> \<open>Client_View\<close>, \<open>Client_Config\<close>, \<open>Client_Session\<close>, \<open>Client_Render\<close>: the client's buffers with their byte accounts, its settings,
    its session record and the lines it shows (\<^verbatim>\<open>client/tabview.go\<close>, \<^verbatim>\<open>session.go\<close>, \<^verbatim>\<open>lib/config\<close>, \<^verbatim>\<open>lib/clientcore/notices.go\<close>).
  \<^item> \<open>Client_Chain\<close>, \<open>Client_Pump\<close>, \<open>Client_Laws\<close>, \<open>Client_Refill\<close>: the client's own check of the chain, the frames it reads and the
    recovery of gaps (\<^verbatim>\<open>client/chainmeta.go\<close>, \<^verbatim>\<open>dispatch.go\<close>). The check refines the contract of a valid chain; a client that
    never warned has read the server's log; a refill is answered with the lines it asks for, within the server's
    limits, and shows only what it verified.
  \<^item> \<open>Client_Send\<close>, \<open>Client_Input\<close>, \<open>Client_Console\<close>, \<open>Client_Commands\<close>, \<open>Client_Invariant\<close>, \<open>Client_Signing\<close>, \<open>Client_Login\<close>: sending,
    the commands and the input loop, the client's half of the login. The client's state stays well-formed whatever arrives;
    login puts client and server in step, and from then on every signed message is accepted, as long as none is dropped before
    the server's check (a muted connection, a reply to a height that does not exist) and the key's chain is not pruned.

  \<^bold>\<open>Conventions\<close>

  \<^item> A Go \<open>string\<close> or \<open>[]byte\<close> is a list of bytes; \<open>uint64\<close> and \<open>uint32\<close> are words and wrap; \<open>int\<close> is an integer
    where no value can reach its width. Times are integers in nanoseconds, the zero \<open>Time\<close> is \<open>0\<close>, every clock
    reading is an argument. \<open>float64\<close> is an exact real: rounding is not modelled. Where a number is read from the environment (\<open>Abuse_Load\<close>) it
    may also be an infinity or NaN; the components that compute with the policy take it with finite numbers.
  \<^item> Not under \<^verbatim>\<open>src/\<close> and so arguments: argon2id, ed25519, the JSON codec (a stored line is a decoded
    value or a raw string), Unicode categories, address parsing, time zones, random bytes, sockets, HMAC-SHA512, the WebAuthn library (\<open>wa_lib\<close>), the
    file system. On the client also what a third-party library draws: the fields of \<open>cl_env\<close> and \<open>co_env\<close>. What a theorem needs of one of them is a named
    hypothesis with a witness.
  \<^item> A Go map is a map or an association list; where the iteration order decides, the order is an argument. A mutex
    region is one step. \<open>Hub.net_step\<close> interleaves the regions.
  \<^item> Loops are structural recursion over their data. The proof-of-work search, which need not end, is a partial function
    without fuel, and its theorem says that it ends when a solution exists; reads of the disk terminate by the length of the file.

  \<^bold>\<open>Interfaces\<close>: the locale \<open>machine\<close> is interpreted by every protocol whose runs are quantified over (gate, votes, hub, slots,
  screening, behaviour engine, attack alarm, message log, disk index, signed chains, pairing, handshakes, connections); \<open>hash_chain\<close> by the
  message log and by the signed chains; \<open>paging\<close> by the cursors of the history; \<open>bounded_index\<close> by the client's wire index and by its
  cache of rendered blocks.

  \<^bold>\<open>Not modelled\<close>: logging, HTTP routing and static files, the drawing of the terminal and its third-party library, markup
  spans, interactive prompts, the merging of configuration files and the administration tool that edits them, and vendored
  code: input and output around the modelled core, or text processing of files that only the operator writes.
\<close>

end
